(* ===== verification/Prelude.thy ===== *)
theory Prelude
  imports Main "HOL-Library.Word" "HOL-Library.Monad_Syntax"
begin

section \<open>Prelude: machine types, return codes, configuration constants\<close>

text \<open>
  The types and constants the components share (include/kernel.h, include/process.h,
  include/queue.h, include/semaphore.h, config/conf.h), the generic lemmas on lists, options
  and words, and the collections of simplification rules of the library.

  Conventions of the model:
  \<^item> a signed C integer (int32, int16, pid32, qid16, sid32) is an \<open>int\<close>; an unsigned one whose
    wrap-around matters (uint32 addresses, sizes, counters) is a \<open>32 word\<close>;
  \<^item> a call that may loop for ever, panic or halt the processor has an \<open>option\<close> result, and
    \<open>None\<close> says that it does not return;
  \<^item> a call returns its C return value paired with the new state;
  \<^item> the kernel runs every call with interrupts disabled, so \<open>disable\<close> and \<open>restore\<close> have no
    counterpart: a call is one atomic step up to the point where it gives the processor away.
\<close>

unbundle bit_operations_syntax

type_synonym u8 = "8 word"
type_synonym u16 = "16 word"
type_synonym u32 = "32 word"
type_synonym pid32 = int
type_synonym qid16 = int
type_synonym sid32 = int
type_synonym bsd_t = int
type_synonym addr = u32

text \<open>Universal return codes (kernel.h).\<close>

abbreviation (input) OK :: int where "OK \<equiv> 1"
abbreviation (input) SYSERR :: int where "SYSERR \<equiv> - 1"
abbreviation (input) EMPTY :: int where "EMPTY \<equiv> - 1"
abbreviation (input) TIMEOUT :: int where "TIMEOUT \<equiv> - 3"

text \<open>The same codes seen through an unsigned 32-bit type, as \<open>(char *)SYSERR\<close> does.\<close>

abbreviation (input) SYSERR32 :: u32 where "SYSERR32 \<equiv> 0xFFFFFFFF"
abbreviation (input) EMPTY32 :: u32 where "EMPTY32 \<equiv> 0xFFFFFFFF"
abbreviation (input) NULL32 :: u32 where "NULL32 \<equiv> 0"

text \<open>Configuration (conf.h, process.h, queue.h, kernel.h).\<close>

abbreviation (input) NPROC :: int where "NPROC \<equiv> 100"
abbreviation (input) NSEM :: int where "NSEM \<equiv> 100"
abbreviation (input) NQENT :: int where "NQENT \<equiv> 304"
abbreviation (input) MAXKEY :: int where "MAXKEY \<equiv> 0x7FFFFFFF"
abbreviation (input) MINKEY :: int where "MINKEY \<equiv> - 0x80000000"
abbreviation (input) NULLPROC :: int where "NULLPROC \<equiv> 0"
abbreviation (input) QUANTUM :: u32 where "QUANTUM \<equiv> 2"
abbreviation (input) PNMLEN :: nat where "PNMLEN \<equiv> 16"

named_theorems kdefs \<open>definitions of straight-line kernel operations\<close>
named_theorems frame \<open>what an operation leaves unchanged\<close>

declare Option.bind_eq_Some_conv [simp]

lemma in_set_tlD: "x \<in> set (tl xs) \<Longrightarrow> x \<in> set xs"
  by (cases xs) auto

lemma NQENT_eq: "NQENT = NPROC + 4 + NSEM + NSEM"
  by simp

lemma sint_small: "unat (w :: u32) < 2 ^ 31 \<Longrightarrow> sint w = int (unat w)"
proof -
  assume "unat w < 2 ^ 31"
  then have "uint w < 2 ^ 31" by (simp add: uint_nat del: of_nat_unat)
  then have "signed_take_bit 31 (uint w) = uint w"
    using order_trans [OF _ uint_ge_0, of "- (2 ^ 31)" w] by (intro signed_take_bit_int_eq_self) simp_all
  then show ?thesis by (simp add: sint_uint)
qed

text \<open>A search that starts anywhere and goes round a table of \<open>N\<close> entries once meets all of them.\<close>

lemma cyclic_cover: "x < N \<Longrightarrow> \<exists>i<N. (n + i) mod N = (x :: nat)"
proof (intro exI conjI)
  assume x: "x < N"
  let ?i = "(N - n mod N + x) mod N"
  show "?i < N" using x by simp
  have "(n + ?i) mod N = (n mod N + (N - n mod N + x)) mod N" by (simp add: mod_simps)
  also have "n mod N + (N - n mod N + x) = N + x" using x mod_less_divisor [of N n] by linarith
  finally show "(n + ?i) mod N = x" using x by simp
qed

end
