(* ===== verification/Kernel_State.thy ===== *)
theory Kernel_State
  imports Prelude
begin

section \<open>The data model of the process manager\<close>

text \<open>
  The records of include/process.h, include/queue.h, include/semaphore.h and include/resched.h,
  and the global variables of the process manager (system/initialize.c, system/clkinit.c,
  system/ready.c, system/resched.c and the \<open>static\<close> locals of newqueue, newsem and
  clkhandler) as one extensible record, which the memory manager, the ports, the buffer pools
  and the paging system extend by their own globals. An array is a function from its index:
  an index out of range is undefined behaviour in C, and the invariants of the library bound
  every index the code forms.
\<close>

datatype prstate = PR_FREE | PR_CURR | PR_READY | PR_RECV | PR_SLEEP | PR_SUSP | PR_WAIT | PR_RECTIM

datatype sstate = S_FREE | S_USED

record memblk =
  mnext :: addr
  mlength :: u32

record procent =
  prstate :: prstate
  prprio :: int
  prstkptr :: addr
  prstkbase :: addr
  prstklen :: u32
  prname :: "char list"
  prsem :: sid32
  prparent :: pid32
  prmsg :: u32
  prhasmsg :: bool
  prdesc :: "int list"
  prpd :: addr
  vmemlist :: memblk
  hsize :: u32
  vh :: bool
  pbsd :: "nat \<Rightarrow> bsd_t"
  vmeminit :: bool

record qentry =
  qkey :: int
  qnext :: qid16
  qprev :: qid16

record sentry =
  sstate :: sstate
  scount :: int
  squeue :: qid16

record kstate =
  proctab :: "pid32 \<Rightarrow> procent"
  queuetab :: "qid16 \<Rightarrow> qentry"
  nextqid :: qid16
  semtab :: "sid32 \<Rightarrow> sentry"
  nextsem :: sid32
  prcount :: int
  currpid :: pid32
  readylist :: qid16
  sleepq :: qid16
  preempt :: u32
  ndefers :: int
  attempt :: bool
  clktime :: u32
  count1000 :: u32
  myglobalclock :: u32
  cr3 :: addr

text \<open>Assignments through a table pointer: \<open>prptr->f = ...\<close>, \<open>queuetab[i].f = ...\<close>,
  \<open>semptr->f = ...\<close>.\<close>

definition upd_proc :: "pid32 \<Rightarrow> (procent \<Rightarrow> procent) \<Rightarrow> 'a kstate_scheme \<Rightarrow> 'a kstate_scheme" where
  "upd_proc p f s = s\<lparr>proctab := (proctab s)(p := f (proctab s p))\<rparr>"

definition upd_q :: "qid16 \<Rightarrow> (qentry \<Rightarrow> qentry) \<Rightarrow> 'a kstate_scheme \<Rightarrow> 'a kstate_scheme" where
  "upd_q i f s = s\<lparr>queuetab := (queuetab s)(i := f (queuetab s i))\<rparr>"

definition upd_sem :: "sid32 \<Rightarrow> (sentry \<Rightarrow> sentry) \<Rightarrow> 'a kstate_scheme \<Rightarrow> 'a kstate_scheme" where
  "upd_sem i f s = s\<lparr>semtab := (semtab s)(i := f (semtab s i))\<rparr>"

definition isbadpid :: "'a kstate_scheme \<Rightarrow> pid32 \<Rightarrow> bool" where
  "isbadpid s x \<longleftrightarrow> x < 0 \<or> x \<ge> NPROC \<or> prstate (proctab s x) = PR_FREE"

definition isbadqid :: "qid16 \<Rightarrow> bool" where
  "isbadqid x \<longleftrightarrow> x < 0 \<or> x \<ge> NQENT - 1"

definition isbadsem :: "sid32 \<Rightarrow> bool" where
  "isbadsem x \<longleftrightarrow> x < 0 \<or> x \<ge> NSEM"

lemma upd_proc_simps [simp]:
  "proctab (upd_proc p f s) = (proctab s)(p := f (proctab s p))"
  "queuetab (upd_proc p f s) = queuetab s"
  "nextqid (upd_proc p f s) = nextqid s"
  "semtab (upd_proc p f s) = semtab s"
  "nextsem (upd_proc p f s) = nextsem s"
  "prcount (upd_proc p f s) = prcount s"
  "currpid (upd_proc p f s) = currpid s"
  "readylist (upd_proc p f s) = readylist s"
  "sleepq (upd_proc p f s) = sleepq s"
  "preempt (upd_proc p f s) = preempt s"
  "ndefers (upd_proc p f s) = ndefers s"
  "attempt (upd_proc p f s) = attempt s"
  "clktime (upd_proc p f s) = clktime s"
  "count1000 (upd_proc p f s) = count1000 s"
  "cr3 (upd_proc p f s) = cr3 s"
  "myglobalclock (upd_proc p f s) = myglobalclock s"
  "kstate.more (upd_proc p f s) = kstate.more s"
  by (simp_all add: upd_proc_def)

lemma upd_q_simps [simp]:
  "proctab (upd_q i g s) = proctab s"
  "queuetab (upd_q i g s) = (queuetab s)(i := g (queuetab s i))"
  "nextqid (upd_q i g s) = nextqid s"
  "semtab (upd_q i g s) = semtab s"
  "nextsem (upd_q i g s) = nextsem s"
  "prcount (upd_q i g s) = prcount s"
  "currpid (upd_q i g s) = currpid s"
  "readylist (upd_q i g s) = readylist s"
  "sleepq (upd_q i g s) = sleepq s"
  "preempt (upd_q i g s) = preempt s"
  "ndefers (upd_q i g s) = ndefers s"
  "attempt (upd_q i g s) = attempt s"
  "clktime (upd_q i g s) = clktime s"
  "count1000 (upd_q i g s) = count1000 s"
  "cr3 (upd_q i g s) = cr3 s"
  "myglobalclock (upd_q i g s) = myglobalclock s"
  "kstate.more (upd_q i g s) = kstate.more s"
  by (simp_all add: upd_q_def)

lemma upd_sem_simps [simp]:
  "proctab (upd_sem i h s) = proctab s"
  "queuetab (upd_sem i h s) = queuetab s"
  "nextqid (upd_sem i h s) = nextqid s"
  "semtab (upd_sem i h s) = (semtab s)(i := h (semtab s i))"
  "nextsem (upd_sem i h s) = nextsem s"
  "prcount (upd_sem i h s) = prcount s"
  "currpid (upd_sem i h s) = currpid s"
  "readylist (upd_sem i h s) = readylist s"
  "sleepq (upd_sem i h s) = sleepq s"
  "preempt (upd_sem i h s) = preempt s"
  "ndefers (upd_sem i h s) = ndefers s"
  "attempt (upd_sem i h s) = attempt s"
  "clktime (upd_sem i h s) = clktime s"
  "count1000 (upd_sem i h s) = count1000 s"
  "cr3 (upd_sem i h s) = cr3 s"
  "myglobalclock (upd_sem i h s) = myglobalclock s"
  "kstate.more (upd_sem i h s) = kstate.more s"
  by (simp_all add: upd_sem_def)

end
