(* ===== verification/Free_List.thy ===== *)
theory Free_List
  imports Prelude Kernel_State
begin

section \<open>Free lists of memory blocks\<close>

text \<open>
  The linked list of free blocks that the kernel heap (getmem.c, freemem.c, getstk.c) and each
  virtual heap (vgetmem.c, vfreemem.c) keep: a head record and nodes stored in the free blocks
  themselves. The loops and the pointer updates are the same in both, so they are defined here
  over the list alone. \<open>None\<close> as a node pointer is the head record, \<open>Some a\<close> the node at
  address \<open>a\<close>.
\<close>

subsection \<open>Operations\<close>

definition roundmb :: "u32 \<Rightarrow> u32" where
  "roundmb x = (7 + x) AND NOT 7"

definition truncmb :: "u32 \<Rightarrow> u32" where
  "truncmb x = x AND NOT 7"

record flist =
  fl_head :: memblk
  fl_nodes :: "addr \<Rightarrow> memblk"

definition upd_node :: "addr option \<Rightarrow> (memblk \<Rightarrow> memblk) \<Rightarrow> flist \<Rightarrow> flist" where
  "upd_node p g f = (case p of None \<Rightarrow> f\<lparr>fl_head := g (fl_head f)\<rparr>
     | Some a \<Rightarrow> f\<lparr>fl_nodes := (fl_nodes f)(a := g (fl_nodes f a))\<rparr>)"

text \<open>The search loop of \<open>getmem\<close>: first fit.\<close>

partial_function (option) getmem_loop :: "u32 \<Rightarrow> addr option \<Rightarrow> addr \<Rightarrow> flist \<Rightarrow> (addr \<times> flist) option" where
  "getmem_loop nbytes prev cur f =
     (if cur \<noteq> 0 then
        if mlength (fl_nodes f cur) = nbytes then
          (let f = upd_node prev (\<lambda>b. b\<lparr>mnext := mnext (fl_nodes f cur)\<rparr>) f;
               f = upd_node None (\<lambda>b. b\<lparr>mlength := mlength b - nbytes\<rparr>) f
           in Some (cur, f))
        else if mlength (fl_nodes f cur) > nbytes then
          (let leftover = cur + nbytes;
               f = upd_node prev (\<lambda>b. b\<lparr>mnext := leftover\<rparr>) f;
               f = upd_node (Some leftover) (\<lambda>b. b\<lparr>mnext := mnext (fl_nodes f cur)\<rparr>) f;
               f = upd_node (Some leftover) (\<lambda>b. b\<lparr>mlength := mlength (fl_nodes f cur) - nbytes\<rparr>) f;
               f = upd_node None (\<lambda>b. b\<lparr>mlength := mlength b - nbytes\<rparr>) f
           in Some (cur, f))
        else getmem_loop nbytes (Some cur) (mnext (fl_nodes f cur)) f
      else Some (SYSERR32, f))"

text \<open>The scan of \<open>getstk\<close>: the last block that is large enough, with its predecessor.\<close>

partial_function (option) getstk_loop ::
  "u32 \<Rightarrow> addr option \<Rightarrow> addr \<Rightarrow> addr \<Rightarrow> addr option \<Rightarrow> flist \<Rightarrow> (addr \<times> addr option) option" where
  "getstk_loop nbytes prev cur fits fitsprev f =
     (if cur \<noteq> 0 then
        if mlength (fl_nodes f cur) \<ge> nbytes
        then getstk_loop nbytes (Some cur) (mnext (fl_nodes f cur)) cur prev f
        else getstk_loop nbytes (Some cur) (mnext (fl_nodes f cur)) fits fitsprev f
      else Some (fits, fitsprev))"

text \<open>The body of \<open>getstk\<close> after the argument check; \<open>nbytes\<close> is rounded already.\<close>

definition getstk_body :: "u32 \<Rightarrow> flist \<Rightarrow> (addr \<times> flist) option" where
  "getstk_body nbytes f = do {
     (fits, fitsprev) \<leftarrow> getstk_loop nbytes None (mnext (fl_head f)) 0 None f;
     if fits = 0 then Some (SYSERR32, f)
     else do {
       let (fits, f) =
         (if nbytes = mlength (fl_nodes f fits)
          then (fits, upd_node fitsprev (\<lambda>b. b\<lparr>mnext := mnext (fl_nodes f fits)\<rparr>) f)
          else let f = upd_node (Some fits) (\<lambda>b. b\<lparr>mlength := mlength b - nbytes\<rparr>) f
               in (fits + mlength (fl_nodes f fits), f));
       let f = upd_node None (\<lambda>b. b\<lparr>mlength := mlength b - nbytes\<rparr>) f;
       Some (fits + nbytes - 4, f)
     }
   }"

text \<open>The walk of \<open>freemem\<close> to the place of the block.\<close>

partial_function (option) freemem_loop ::
  "addr \<Rightarrow> addr option \<Rightarrow> addr \<Rightarrow> flist \<Rightarrow> (addr option \<times> addr) option" where
  "freemem_loop block prev next f =
     (if next \<noteq> 0 \<and> next < block then freemem_loop block (Some next) (mnext (fl_nodes f next)) f
      else Some (prev, next))"

text \<open>The last stage of \<open>freemem\<close>: merge the new block with its successor.\<close>

definition freemem_join :: "addr \<Rightarrow> addr \<Rightarrow> flist \<Rightarrow> flist" where
  "freemem_join a next f =
     (if a + mlength (fl_nodes f a) = next then
        (let f = upd_node (Some a) (\<lambda>b. b\<lparr>mlength := mlength b + mlength (fl_nodes f next)\<rparr>) f
         in upd_node (Some a) (\<lambda>b. b\<lparr>mnext := mnext (fl_nodes f next)\<rparr>) f)
      else f)"

text \<open>The body of \<open>freemem\<close> after the argument checks; \<open>nbytes\<close> is rounded already. The pointer
  \<open>block\<close> becomes \<open>prev\<close> when the block is merged with its predecessor. (The head record has no
  block behind it: \<open>top = block\<close> with \<open>prev\<close> the head needs the block address 0, which
  the callers reject.)\<close>

definition freemem_body :: "addr \<Rightarrow> u32 \<Rightarrow> flist \<Rightarrow> (int \<times> flist) option" where
  "freemem_body block nbytes f = do {
     (prev, next) \<leftarrow> freemem_loop block None (mnext (fl_head f)) f;
     let top = (case prev of None \<Rightarrow> 0 | Some a \<Rightarrow> a + mlength (fl_nodes f a));
     if (prev \<noteq> None \<and> block < top) \<or> (next \<noteq> 0 \<and> block + nbytes > next) then Some (SYSERR, f)
     else do {
       let f = upd_node None (\<lambda>b. b\<lparr>mlength := mlength b + nbytes\<rparr>) f;
       let (blk, f) =
         (if top = block then
            (prev, upd_node prev (\<lambda>b. b\<lparr>mlength := mlength b + nbytes\<rparr>) f)
          else
            (Some block,
             let f = upd_node (Some block) (\<lambda>b. b\<lparr>mnext := next\<rparr>) f;
                 f = upd_node (Some block) (\<lambda>b. b\<lparr>mlength := nbytes\<rparr>) f
             in upd_node prev (\<lambda>b. b\<lparr>mnext := block\<rparr>) f));
       let f = (case blk of None \<Rightarrow> f | Some a \<Rightarrow> freemem_join a next f);
       Some (OK, f)
     }
   }"

subsection \<open>Rounding\<close>

lemma unat_add_lt: "unat a + unat (b :: u32) < 2 ^ 32 \<Longrightarrow> unat (a + b) = unat a + unat b"
  by (simp add: unat_word_ariths)

lemma unat_sub_le: "(b :: u32) \<le> a \<Longrightarrow> unat (a - b) = unat a - unat b"
  by (simp add: word_le_nat_alt unat_sub)

lemma and_not_mask: "x AND NOT (mask k) = push_bit k (drop_bit k (x :: u32))"
  by (rule bit_word_eqI) (auto simp: bit_simps)

lemma and_not_7: "x AND NOT 7 = push_bit 3 (drop_bit 3 (x :: u32))"
  using and_not_mask [of x 3] by (simp add: mask_eq_exp_minus_1)

lemma roundmb_unat: "unat (roundmb x) = 8 * (unat (7 + x) div 8)"
proof -
  have "unat (push_bit 3 (drop_bit 3 y)) = 8 * (unat y div 8)" for y :: u32
  proof -
    have "unat y < 2 ^ 32" using unsigned_less [of y] by simp
    then have "8 * (unat y div 8) < 2 ^ 32" by linarith
    then show ?thesis by (simp add: push_bit_eq_mult unat_word_ariths unat_drop_bit_eq drop_bit_eq_div mult.commute)
  qed
  then show ?thesis by (simp only: roundmb_def and_not_7)
qed

lemma roundmb_facts:
  assumes "0 < n" and "n \<le> 0xFFFFFFF8"
  shows "0 < roundmb n" "8 dvd unat (roundmb n)" "unat n \<le> unat (roundmb n)" "unat (roundmb n) < unat n + 8"
proof -
  have n: "0 < unat n" "unat n \<le> 0xFFFFFFF8" using assms by (simp_all add: word_less_nat_alt word_le_nat_alt)
  then have s: "unat (7 + n) = 7 + unat n" by (simp add: unat_add_lt)
  show "8 dvd unat (roundmb n)" by (simp add: roundmb_unat)
  show *: "unat n \<le> unat (roundmb n)" "unat (roundmb n) < unat n + 8" unfolding roundmb_unat s by linarith+
  show "0 < roundmb n" using * n(1) by (simp add: word_less_nat_alt)
qed

lemma roundmb_wraps: "n > 0xFFFFFFF8 \<Longrightarrow> roundmb n = 0"
proof -
  assume "n > 0xFFFFFFF8"
  then have "unat n > 0xFFFFFFF8" "unat n < 2 ^ 32" using unsigned_less [of n] by (simp_all add: word_less_nat_alt)
  then have "unat (7 + n) < 8" by (simp add: unat_word_ariths take_bit_eq_mod le_mod_geq)
  then show ?thesis using roundmb_unat [of n] by (simp add: unat_eq_0)
qed
subsection \<open>Segments\<close>

text \<open>\<open>seg h p bs q\<close>: from \<open>p\<close> the nodes link the blocks \<open>bs\<close> (address, length) and end in \<open>q\<close>.\<close>

type_synonym blocks = "(nat \<times> nat) list"

fun seg :: "(addr \<Rightarrow> memblk) \<Rightarrow> addr \<Rightarrow> blocks \<Rightarrow> addr \<Rightarrow> bool" where
  "seg h p [] q \<longleftrightarrow> p = q"
| "seg h p ((a, n) # bs) q \<longleftrightarrow> p \<noteq> 0 \<and> unat p = a \<and> unat (mlength (h p)) = n \<and> seg h (mnext (h p)) bs q"

lemma seg_append: "seg h p (bs @ cs) q \<longleftrightarrow> (\<exists>r. seg h p bs r \<and> seg h r cs q)"
  by (induction bs arbitrary: p) auto

lemma seg_cong:
  assumes "\<And>a. unat a \<in> fst ` set bs \<Longrightarrow> h' a = h a"
  shows "seg h' p bs q = seg h p bs q"
  using assms by (induction bs arbitrary: p) auto

lemma seg_heads: "seg h p (b # bs) q \<Longrightarrow> p = of_nat (fst b) \<and> p \<noteq> 0 \<and> unat p = fst b"
  by (cases b) auto

text \<open>The pointer to the node before the rest of the list.\<close>

definition prev_of :: "blocks \<Rightarrow> addr option" where
  "prev_of bs = (if bs = [] then None else Some (of_nat (fst (last bs))))"

lemma prev_of_simps [simp]: "prev_of [] = None" "prev_of (bs @ [(a, n)]) = Some (of_nat a)"
  by (simp_all add: prev_of_def)

definition fl_seg :: "flist \<Rightarrow> blocks \<Rightarrow> addr \<Rightarrow> bool" where
  "fl_seg f bs q \<longleftrightarrow> seg (fl_nodes f) (mnext (fl_head f)) bs q"

lemma upd_node_simps [simp]:
  "fl_nodes (upd_node None g f) = fl_nodes f" "fl_head (upd_node None g f) = g (fl_head f)"
  "fl_nodes (upd_node (Some a) g f) = (fl_nodes f)(a := g (fl_nodes f a))"
  "fl_head (upd_node (Some a) g f) = fl_head f"
  by (simp_all add: upd_node_def)

lemma fl_seg_snoc:
  "fl_seg f (bs @ [(a, n)]) q \<longleftrightarrow>
     fl_seg f bs (of_nat a) \<and> (of_nat a :: addr) \<noteq> 0 \<and> unat (of_nat a :: addr) = a \<and>
     unat (mlength (fl_nodes f (of_nat a))) = n \<and> mnext (fl_nodes f (of_nat a)) = q"
  by (auto simp: fl_seg_def seg_append)

text \<open>Redirecting the last pointer of a segment.\<close>

lemma fl_seg_relink:
  assumes "fl_seg f bs q" and "distinct (map fst bs)"
  shows "fl_seg (upd_node (prev_of bs) (\<lambda>b. b\<lparr>mnext := q'\<rparr>) f) bs q'"
  using assms
proof (cases bs rule: rev_cases)
  case Nil
  then show ?thesis by (simp add: fl_seg_def)
next
  case (snoc cs c)
  obtain a n where c: "c = (a, n)" by (cases c)
  have *: "fl_seg f cs (of_nat a)" "(of_nat a :: addr) \<noteq> 0" "unat (of_nat a :: addr) = a"
    "unat (mlength (fl_nodes f (of_nat a))) = n"
    using assms(1) by (auto simp: snoc c fl_seg_snoc)
  have "seg ((fl_nodes f)(of_nat a := g)) p cs r = seg (fl_nodes f) p cs r" for g p r
    using assms(2) *(3) by (intro seg_cong) (force simp: snoc c)
  then show ?thesis using * by (simp add: snoc c fl_seg_snoc) (simp add: fl_seg_def)
qed

lemma fl_seg_node:
  assumes "fl_seg f bs q" and "unat a \<notin> fst ` set bs"
  shows "fl_seg (upd_node (Some a) g f) bs q"
proof -
  have "seg ((fl_nodes f)(a := g')) p bs q = seg (fl_nodes f) p bs q" for p g'
    using assms(2) by (intro seg_cong) auto
  then show ?thesis using assms(1) by (simp add: fl_seg_def)
qed

lemma fl_seg_head: "mnext (g (fl_head f)) = mnext (fl_head f) \<Longrightarrow> fl_seg (upd_node None g f) bs q = fl_seg f bs q"
  by (simp add: fl_seg_def)

lemma fl_seg_append: "fl_seg f (bs @ cs) r \<longleftrightarrow> (\<exists>q. fl_seg f bs q \<and> seg (fl_nodes f) q cs r)"
  by (simp add: fl_seg_def seg_append)

text \<open>A change of the node before a segment leaves the segment.\<close>

lemma nodes_upd_prev:
  assumes "fl_seg f bs q" and "unat a \<notin> fst ` set bs"
  shows "fl_nodes (upd_node (prev_of bs) g f) a = fl_nodes f a"
proof (cases bs rule: rev_cases)
  case (snoc ds d)
  then have "unat (of_nat (fst d) :: addr) = fst d" using assms(1) by (cases d) (auto simp: fl_seg_snoc)
  then show ?thesis using assms(2) by (auto simp: snoc prev_of_def)
qed simp

lemma seg_upd_prev:
  assumes "fl_seg f bs q" and "fst ` set bs \<inter> fst ` set cs = {}"
  shows "seg (fl_nodes (upd_node (prev_of bs) g f)) p cs r = seg (fl_nodes f) p cs r"
  using assms(2) by (intro seg_cong nodes_upd_prev [OF assms(1)]) blast

lemma seg_upd_node:
  "unat a \<notin> fst ` set cs \<Longrightarrow> seg (fl_nodes (upd_node (Some a) g f)) p cs r = seg (fl_nodes f) p cs r"
  by (intro seg_cong) auto

lemma head_len_upd_next [simp]:
  "mlength (fl_head (upd_node p (\<lambda>b. b\<lparr>mnext := q\<rparr>) f)) = mlength (fl_head f)"
  by (cases p) simp_all

subsection \<open>Well-formed block lists\<close>

text \<open>Blocks in ascending order, not adjacent (a free list is coalesced), of sizes that are
  multiples of 8, inside \<open>lo..<hi\<close>.\<close>

fun blocks_ok :: "nat \<Rightarrow> nat \<Rightarrow> blocks \<Rightarrow> bool" where
  "blocks_ok lo hi [] \<longleftrightarrow> True"
| "blocks_ok lo hi ((a, n) # bs) \<longleftrightarrow> lo \<le> a \<and> 0 < n \<and> 8 dvd n \<and> a + n \<le> hi \<and> blocks_ok (a + n + 1) hi bs"

definition bytes :: "blocks \<Rightarrow> nat set" where
  "bytes bs = (\<Union>(a, n)\<in>set bs. {a..<a + n})"

definition total :: "blocks \<Rightarrow> nat" where
  "total bs = sum_list (map snd bs)"

lemma bytes_simps [simp]:
  "bytes [] = {}" "bytes ((a, n) # bs) = {a..<a + n} \<union> bytes bs" "bytes (bs @ cs) = bytes bs \<union> bytes cs"
  by (auto simp: bytes_def)

lemma total_simps [simp]:
  "total [] = 0" "total ((a, n) # bs) = n + total bs" "total (bs @ cs) = total bs + total cs"
  by (simp_all add: total_def)

lemma blocks_ok_mono: "blocks_ok lo hi bs \<Longrightarrow> lo' \<le> lo \<Longrightarrow> blocks_ok lo' hi bs"
  by (cases bs) auto

lemma blocks_ok_bounds:
  "blocks_ok lo hi bs \<Longrightarrow> (a, n) \<in> set bs \<Longrightarrow> lo \<le> a \<and> 0 < n \<and> a + n \<le> hi \<and> 8 dvd n"
proof (induction bs arbitrary: lo)
  case (Cons b bs)
  show ?case
  proof (cases "(a, n) = b")
    case True then show ?thesis using Cons.prems by auto
  next
    case False
    then show ?thesis using Cons by (cases b) (fastforce dest: blocks_ok_mono)
  qed
qed simp

lemma blocks_ok_bytes: "blocks_ok lo hi bs \<Longrightarrow> bytes bs \<subseteq> {lo..<hi}"
  using blocks_ok_bounds [of lo hi bs] by (fastforce simp: bytes_def)

lemma blocks_ok_addrs: "blocks_ok lo hi bs \<Longrightarrow> distinct (map fst bs) \<and> fst ` set bs \<subseteq> {lo..<hi}"
proof (induction bs arbitrary: lo)
  case (Cons b bs)
  obtain a n where b: "b = (a, n)" by (cases b)
  have "distinct (map fst bs)" "fst ` set bs \<subseteq> {a + n + 1..<hi}" using Cons b by auto
  then show ?case using Cons.prems b by fastforce
qed simp

lemma blocks_ok_append:
  "blocks_ok lo hi (bs @ cs) \<longleftrightarrow>
     blocks_ok lo hi bs \<and> blocks_ok (if bs = [] then lo else fst (last bs) + snd (last bs) + 1) hi cs"
proof (induction bs arbitrary: lo)
  case (Cons b bs)
  obtain a n where b: "b = (a, n)" by (cases b)
  show ?case using Cons [of "a + n + 1"] by (auto simp: b)
qed simp

lemma blocks_ok_ends:
  "blocks_ok lo hi bs \<Longrightarrow> bs \<noteq> [] \<Longrightarrow> bytes bs \<subseteq> {lo..<fst (last bs) + snd (last bs)}"
proof (induction bs arbitrary: lo)
  case (Cons b bs)
  obtain a n where b: "b = (a, n)" by (cases b)
  show ?case
  proof (cases "bs = []")
    case True then show ?thesis using Cons.prems b by auto
  next
    case False
    then have *: "bytes bs \<subseteq> {a + n + 1..<fst (last bs) + snd (last bs)}" using Cons b by auto
    have "last bs \<in> set bs" using False by simp
    then have "a + n < fst (last bs)" using Cons.prems b blocks_ok_bounds [of "a + n + 1" hi bs "fst (last bs)" "snd (last bs)"] by auto
    then show ?thesis using * Cons.prems b False by auto
  qed
qed simp

lemma total_le: "blocks_ok lo hi bs \<Longrightarrow> bs \<noteq> [] \<Longrightarrow> lo + total bs \<le> hi"
proof (induction bs arbitrary: lo)
  case (Cons b bs)
  then show ?case by (cases b; cases "bs = []") (fastforce+)
qed simp

text \<open>A free list: the chain from the head, the block list it stands for and the total in the
  head record. \<open>hi\<close> stays below the address space, so no address arithmetic wraps.\<close>

definition fl_ok :: "nat \<Rightarrow> nat \<Rightarrow> flist \<Rightarrow> blocks \<Rightarrow> bool" where
  "fl_ok lo hi f bs \<longleftrightarrow> fl_seg f bs 0 \<and> blocks_ok lo hi bs \<and> unat (mlength (fl_head f)) = total bs \<and>
     0 < lo \<and> hi < 2 ^ 32"

text \<open>No block starts inside another.\<close>

lemma blocks_between:
  assumes "blocks_ok lo hi (bs @ (a, m) # cs)" and "x \<in> {a<..a + m}"
  shows "x \<notin> fst ` set bs" "x \<notin> fst ` set cs"
proof -
  have "blocks_ok (a + m + 1) hi cs" "fst ` set bs \<subseteq> {..a}"
  proof -
    show "blocks_ok (a + m + 1) hi cs" using assms(1) by (simp add: blocks_ok_append)
    show "fst ` set bs \<subseteq> {..a}"
    proof
      fix y assume "y \<in> fst ` set bs"
      then obtain n where yn: "(y, n) \<in> set bs" by auto
      then have "y \<in> bytes bs" using assms(1) blocks_ok_bounds [of lo hi bs y n]
        by (force simp: bytes_def blocks_ok_append)
      then show "y \<in> {..a}" using blocks_ok_ends [of lo hi bs] assms(1) yn
        by (auto simp: blocks_ok_append split: if_splits)
    qed
  qed
  then show "x \<notin> fst ` set bs" "x \<notin> fst ` set cs"
    using assms(2) blocks_ok_addrs [of "a + m + 1" hi cs] by fastforce+
qed

subsection \<open>First-fit allocation\<close>

fun first_fit :: "nat \<Rightarrow> blocks \<Rightarrow> (nat \<times> blocks) option" where
  "first_fit n [] = None"
| "first_fit n ((a, m) # bs) =
     (if m = n then Some (a, bs)
      else if m > n then Some (a, (a + n, m - n) # bs)
      else map_option (\<lambda>(x, bs'). (x, (a, m) # bs')) (first_fit n bs))"

lemma first_fit_None: "first_fit n bs = None \<longleftrightarrow> (\<forall>(a, m)\<in>set bs. m < n)"
  by (induction n bs rule: first_fit.induct) auto

lemma first_fit_spec:
  assumes "first_fit n bs = Some (x, bs')" and "blocks_ok lo hi bs" and "0 < n" "8 dvd n"
  shows "blocks_ok lo hi bs'" "{x..<x + n} \<subseteq> bytes bs" "bytes bs' = bytes bs - {x..<x + n}"
    "total bs' + n = total bs" "lo \<le> x" "x + n \<le> hi"
proof -
  have "blocks_ok lo hi bs' \<and> {x..<x + n} \<subseteq> bytes bs \<and> bytes bs' = bytes bs - {x..<x + n} \<and>
      total bs' + n = total bs \<and> lo \<le> x \<and> x + n \<le> hi"
    using assms
  proof (induction n bs arbitrary: lo bs' rule: first_fit.induct)
    case (2 n a m bs)
    have rest: "bytes bs \<subseteq> {a + m + 1..<hi}" using "2.prems" blocks_ok_bytes by auto
    consider "m = n" | "m > n" | "m < n" by linarith
    then show ?case
    proof cases
      case 1
      then show ?thesis using "2.prems" rest blocks_ok_mono [of "a + m + 1" hi bs lo] by auto
    next
      case 2
      then show ?thesis using "2.prems" rest by (auto simp: dvd_diff_nat)
    next
      case 3
      then obtain bs'' where r: "first_fit n bs = Some (x, bs'')" "bs' = (a, m) # bs''"
        using "2.prems"(1) by auto
      have "blocks_ok (a + m + 1) hi bs'' \<and> {x..<x + n} \<subseteq> bytes bs \<and> bytes bs'' = bytes bs - {x..<x + n} \<and>
          total bs'' + n = total bs \<and> a + m + 1 \<le> x \<and> x + n \<le> hi"
        by (rule "2.IH" [OF _ _ r(1)]) (use "2.prems" 3 in auto)
      then show ?thesis using "2.prems" r(2) 3 by (auto simp del: atLeastLessThan_iff) auto
    qed
  qed simp
  then show "blocks_ok lo hi bs'" "{x..<x + n} \<subseteq> bytes bs" "bytes bs' = bytes bs - {x..<x + n}"
    "total bs' + n = total bs" "lo \<le> x" "x + n \<le> hi" by auto
qed

lemma getmem_loop_spec:
  assumes "fl_seg f bs1 cur" and "seg (fl_nodes f) cur bs2 0" and "blocks_ok lo hi (bs1 @ bs2)"
    and "hi < 2 ^ 32" and "0 < unat n"
  shows "case first_fit (unat n) bs2 of
      None \<Rightarrow> getmem_loop n (prev_of bs1) cur f = Some (SYSERR32, f)
    | Some (x, bs') \<Rightarrow> \<exists>f'. getmem_loop n (prev_of bs1) cur f = Some (of_nat x, f') \<and>
        fl_seg f' (bs1 @ bs') 0 \<and> mlength (fl_head f') = mlength (fl_head f) - n"
  using assms
proof (induction bs2 arbitrary: bs1 cur)
  case Nil
  then show ?case by (simp add: getmem_loop.simps)
next
  case (Cons b bs2)
  obtain a m where b: "b = (a, m)" by (cases b)
  have cur: "cur = of_nat a" "cur \<noteq> 0" "unat cur = a" "unat (mlength (fl_nodes f cur)) = m"
    and rest: "seg (fl_nodes f) (mnext (fl_nodes f cur)) bs2 0"
    using Cons.prems(2) by (auto simp: b)
  have dist: "distinct (map fst bs1)" "a \<notin> fst ` set bs1" "a \<notin> fst ` set bs2" "fst ` set bs1 \<inter> fst ` set bs2 = {}"
    using blocks_ok_addrs [OF Cons.prems(3)] by (auto simp: b)
  have bnd: "a + m \<le> hi" using blocks_ok_bounds [OF Cons.prems(3), of a m] by (simp add: b)
  note nodes = nodes_upd_prev [OF Cons.prems(1)]
  consider "m = unat n" | "m > unat n" | "m < unat n" by linarith
  then show ?case
  proof cases
    case 1
    let ?f1 = "upd_node (prev_of bs1) (\<lambda>b. b\<lparr>mnext := mnext (fl_nodes f cur)\<rparr>) f"
    let ?f2 = "upd_node None (\<lambda>b. b\<lparr>mlength := mlength b - n\<rparr>) ?f1"
    have eq: "mlength (fl_nodes f cur) = n" using 1 cur(4) by (simp add: word_unat_eq_iff)
    have "getmem_loop n (prev_of bs1) cur f = Some (cur, ?f2)"
      by (subst getmem_loop.simps) (simp add: cur(2) eq Let_def)
    moreover have "fl_seg ?f1 bs1 (mnext (fl_nodes f cur))" by (rule fl_seg_relink [OF Cons.prems(1) dist(1)])
    then have "fl_seg ?f1 (bs1 @ bs2) 0"
      using rest seg_upd_prev [OF Cons.prems(1) dist(4)] by (auto simp: fl_seg_append)
    ultimately show ?thesis using 1 cur(1) by (simp add: b fl_seg_head)
  next
    case 2
    let ?l = "cur + n"
    have l: "unat ?l = a + unat n" using 2 bnd Cons.prems(4) cur(3) by (simp add: unat_add_lt)
    then have l0: "?l \<noteq> 0" using Cons.prems(5) by (metis add_is_0 less_numeral_extra(3) unat_0)
    have lf: "unat ?l \<notin> fst ` set bs1" "unat ?l \<notin> fst ` set bs2" "?l \<noteq> cur"
      using blocks_between [OF Cons.prems(3) [unfolded b]] 2 Cons.prems(5) by (auto simp: l)
    let ?f1 = "upd_node (prev_of bs1) (\<lambda>b. b\<lparr>mnext := ?l\<rparr>) f"
    let ?f2 = "upd_node (Some ?l) (\<lambda>b. b\<lparr>mnext := mnext (fl_nodes ?f1 cur)\<rparr>) ?f1"
    let ?f3 = "upd_node (Some ?l) (\<lambda>b. b\<lparr>mlength := mlength (fl_nodes ?f2 cur) - n\<rparr>) ?f2"
    let ?f4 = "upd_node None (\<lambda>b. b\<lparr>mlength := mlength b - n\<rparr>) ?f3"
    have gt: "mlength (fl_nodes f cur) > n" using 2 cur(4) by (simp add: word_less_nat_alt)
    have "getmem_loop n (prev_of bs1) cur f = Some (cur, ?f4)"
      using gt by (subst getmem_loop.simps) (auto simp: cur(2) Let_def)
    moreover have "fl_seg ?f1 bs1 ?l" by (rule fl_seg_relink [OF Cons.prems(1) dist(1)])
    then have "fl_seg ?f3 bs1 ?l" by (intro fl_seg_node lf)
    moreover have "seg (fl_nodes ?f3) (mnext (fl_nodes f cur)) bs2 0"
      using rest seg_upd_prev [OF Cons.prems(1) dist(4)] by (simp only: seg_upd_node [OF lf(2)])
    moreover have "fl_nodes ?f3 ?l = \<lparr>mnext = mnext (fl_nodes f cur), mlength = mlength (fl_nodes f cur) - n\<rparr>"
      using lf(3) nodes [of cur] dist(2) cur(3) by (simp add: upd_node_simps(3))
    ultimately have "fl_seg ?f3 (bs1 @ (a + unat n, m - unat n) # bs2) 0"
      using l l0 gt cur(4) by (auto simp: fl_seg_append unat_sub_le)
    then show ?thesis using 2 cur(1) \<open>getmem_loop n (prev_of bs1) cur f = Some (cur, ?f4)\<close>
      by (simp add: b fl_seg_head)
  next
    case 3
    have "getmem_loop n (prev_of bs1) cur f = getmem_loop n (prev_of (bs1 @ [(a, m)])) (mnext (fl_nodes f cur)) f"
      using 3 cur by (subst getmem_loop.simps) (auto simp: word_less_nat_alt)
    moreover have "fl_seg f (bs1 @ [(a, m)]) (mnext (fl_nodes f cur))"
      using Cons.prems(1) cur by (simp add: fl_seg_snoc)
    ultimately show ?thesis
      using Cons.IH [of "bs1 @ [(a, m)]" "mnext (fl_nodes f cur)"] rest Cons.prems(3-5) 3
      by (auto simp: b split: option.splits)
  qed
qed

lemma getmem_loop_ok:
  assumes "fl_ok lo hi f bs" and "0 < n" and "8 dvd unat n"
  shows "case first_fit (unat n) bs of
      None \<Rightarrow> getmem_loop n None (mnext (fl_head f)) f = Some (SYSERR32, f)
    | Some (x, bs') \<Rightarrow> \<exists>f'. getmem_loop n None (mnext (fl_head f)) f = Some (of_nat x, f') \<and> fl_ok lo hi f' bs'"
proof -
  have n: "0 < unat n" using assms(2) by (simp add: word_less_nat_alt)
  note spec = getmem_loop_spec [of f "[]" "mnext (fl_head f)" bs lo hi n, simplified]
  show ?thesis
  proof (cases "first_fit (unat n) bs")
    case None
    then show ?thesis using spec assms(1) n by (simp add: fl_ok_def fl_seg_def)
  next
    case (Some r)
    obtain x bs' where r: "r = (x, bs')" by (cases r)
    obtain f' where f': "getmem_loop n None (mnext (fl_head f)) f = Some (of_nat x, f')" "fl_seg f' bs' 0"
      "mlength (fl_head f') = mlength (fl_head f) - n"
      using spec assms(1) n Some r by (auto simp: fl_ok_def fl_seg_def)
    have *: "blocks_ok lo hi bs'" "total bs' + unat n = total bs"
      using first_fit_spec(1,4) [OF Some [unfolded r] _ n assms(3)] assms(1) by (auto simp: fl_ok_def)
    then have "n \<le> mlength (fl_head f)" using assms(1) by (simp add: fl_ok_def word_le_nat_alt)
    then have "unat (mlength (fl_head f')) = total bs'"
      using f'(3) *(2) assms(1) by (simp add: fl_ok_def unat_sub_le)
    then show ?thesis using Some r f'(1,2) * assms(1) by (simp add: fl_ok_def)
  qed
qed

subsection \<open>Last-fit allocation from the top\<close>

fun last_fit :: "nat \<Rightarrow> blocks \<Rightarrow> (nat \<times> blocks) option" where
  "last_fit n [] = None"
| "last_fit n ((a, m) # bs) =
     (case last_fit n bs of
        Some (x, bs') \<Rightarrow> Some (x, (a, m) # bs')
      | None \<Rightarrow> if m < n then None
                else Some (a + m - n, if m = n then bs else (a, m - n) # bs))"

lemma last_fit_None: "last_fit n bs = None \<longleftrightarrow> (\<forall>(a, m)\<in>set bs. m < n)"
  by (induction n bs rule: last_fit.induct) (auto split: option.splits)

lemma last_fit_split:
  "n \<le> m \<Longrightarrow> \<forall>(b, k)\<in>set ds. k < n \<Longrightarrow>
   last_fit n (cs @ (a, m) # ds) = Some (a + m - n, cs @ (if m = n then ds else (a, m - n) # ds))"
  by (induction cs) (auto simp: last_fit_None [THEN iffD2])

lemma last_fit_spec:
  assumes "last_fit n bs = Some (x, bs')" and "blocks_ok lo hi bs" and "0 < n" "8 dvd n"
  shows "blocks_ok lo hi bs'" "{x..<x + n} \<subseteq> bytes bs" "bytes bs' = bytes bs - {x..<x + n}"
    "total bs' + n = total bs" "lo \<le> x" "x + n \<le> hi"
proof -
  have "blocks_ok lo hi bs' \<and> {x..<x + n} \<subseteq> bytes bs \<and> bytes bs' = bytes bs - {x..<x + n} \<and>
      total bs' + n = total bs \<and> lo \<le> x \<and> x + n \<le> hi"
    using assms
  proof (induction n bs arbitrary: lo bs' rule: last_fit.induct)
    case (2 n a m bs)
    have rest: "bytes bs \<subseteq> {a + m + 1..<hi}" using "2.prems" blocks_ok_bytes by auto
    show ?case
    proof (cases "last_fit n bs")
      case None
      then have "n \<le> m" "x = a + m - n" "bs' = (if m = n then bs else (a, m - n) # bs)"
        using "2.prems"(1) by (auto split: if_splits)
      then show ?thesis using "2.prems"(2-4) rest blocks_ok_mono [of "a + m + 1" hi bs lo]
        blocks_ok_mono [of "a + m + 1" hi bs "a + (m - n) + 1"]
        by (auto simp: dvd_diff_nat)
    next
      case (Some r)
      then obtain bs'' where r: "last_fit n bs = Some (x, bs'')" "bs' = (a, m) # bs''"
        using "2.prems"(1) by (cases r) auto
      have "blocks_ok (a + m + 1) hi bs'' \<and> {x..<x + n} \<subseteq> bytes bs \<and> bytes bs'' = bytes bs - {x..<x + n} \<and>
          total bs'' + n = total bs \<and> a + m + 1 \<le> x \<and> x + n \<le> hi"
        by (rule "2.IH" [OF r(1)]) (use "2.prems" in auto)
      then show ?thesis using "2.prems"(2-4) r(2) by (auto simp del: atLeastLessThan_iff) auto
    qed
  qed simp
  then show "blocks_ok lo hi bs'" "{x..<x + n} \<subseteq> bytes bs" "bytes bs' = bytes bs - {x..<x + n}"
    "total bs' + n = total bs" "lo \<le> x" "x + n \<le> hi" by auto
qed

lemma getstk_loop_spec:
  assumes "fl_seg f bs1 cur" and "seg (fl_nodes f) cur bs2 0"
  shows "(\<forall>(a, m)\<in>set bs2. m < unat n) \<and> getstk_loop n (prev_of bs1) cur fits fp f = Some (fits, fp) \<or>
    (\<exists>cs a m ds. bs2 = cs @ (a, m) # ds \<and> unat n \<le> m \<and> (\<forall>(b, k)\<in>set ds. k < unat n) \<and>
       getstk_loop n (prev_of bs1) cur fits fp f = Some (of_nat a, prev_of (bs1 @ cs)))"
  using assms
proof (induction bs2 arbitrary: bs1 cur fits fp)
  case Nil
  then show ?case by (simp add: getstk_loop.simps)
next
  case (Cons b bs2)
  obtain a m where b: "b = (a, m)" by (cases b)
  have cur: "cur = of_nat a" "cur \<noteq> 0" "unat cur = a" "unat (mlength (fl_nodes f cur)) = m"
    and rest: "seg (fl_nodes f) (mnext (fl_nodes f cur)) bs2 0"
    using Cons.prems(2) by (auto simp: b)
  have seg: "fl_seg f (bs1 @ [(a, m)]) (mnext (fl_nodes f cur))"
    using Cons.prems(1) cur by (simp add: fl_seg_snoc)
  have step: "getstk_loop n (prev_of bs1) cur fits fp f =
      getstk_loop n (prev_of (bs1 @ [(a, m)])) (mnext (fl_nodes f cur))
        (if unat n \<le> m then of_nat a else fits) (if unat n \<le> m then prev_of bs1 else fp) f"
    using cur by (subst getstk_loop.simps) (simp add: word_le_nat_alt)
  from Cons.IH [OF seg rest, of "if unat n \<le> m then of_nat a else fits" "if unat n \<le> m then prev_of bs1 else fp"]
  show ?case
  proof
    assume *: "(\<forall>(a, m)\<in>set bs2. m < unat n) \<and> getstk_loop n (prev_of (bs1 @ [(a, m)])) (mnext (fl_nodes f cur))
        (if unat n \<le> m then of_nat a else fits) (if unat n \<le> m then prev_of bs1 else fp) f =
        Some (if unat n \<le> m then of_nat a else fits, if unat n \<le> m then prev_of bs1 else fp)"
    show ?thesis
    proof (cases "unat n \<le> m")
      case True
      then show ?thesis using * step
        by (intro disjI2 exI [of _ "[]"] exI [of _ a] exI [of _ m] exI [of _ bs2]) (simp add: b)
    next
      case False
      then show ?thesis using * step by (intro disjI1) (simp add: b)
    qed
  next
    assume "\<exists>cs a' m' ds. bs2 = cs @ (a', m') # ds \<and> unat n \<le> m' \<and> (\<forall>(b, k)\<in>set ds. k < unat n) \<and>
       getstk_loop n (prev_of (bs1 @ [(a, m)])) (mnext (fl_nodes f cur))
        (if unat n \<le> m then of_nat a else fits) (if unat n \<le> m then prev_of bs1 else fp) f =
       Some (of_nat a', prev_of ((bs1 @ [(a, m)]) @ cs))"
    then obtain cs a' m' ds where "bs2 = cs @ (a', m') # ds" "unat n \<le> m'" "\<forall>(b, k)\<in>set ds. k < unat n"
       "getstk_loop n (prev_of bs1) cur fits fp f = Some (of_nat a', prev_of (bs1 @ (a, m) # cs))"
      using step by auto
    then show ?thesis
      by (intro disjI2 exI [of _ "b # cs"] exI [of _ a'] exI [of _ m'] exI [of _ ds]) (simp add: b)
  qed
qed

lemma getstk_body_ok:
  assumes F: "fl_ok lo hi f bs" and n: "0 < n" "8 dvd unat n"
  shows "case last_fit (unat n) bs of
      None \<Rightarrow> getstk_body n f = Some (SYSERR32, f)
    | Some (x, bs') \<Rightarrow> \<exists>f'. getstk_body n f = Some (of_nat x + n - 4, f') \<and> fl_ok lo hi f' bs'"
proof -
  have n0: "0 < unat n" using n(1) by (simp add: word_less_nat_alt)
  have F': "fl_seg f bs 0" "blocks_ok lo hi bs" "unat (mlength (fl_head f)) = total bs" "0 < lo" "hi < 2 ^ 32"
    using F by (auto simp: fl_ok_def)
  consider (none) "\<forall>(a, m)\<in>set bs. m < unat n" "getstk_loop n None (mnext (fl_head f)) 0 None f = Some (0, None)"
    | (some) cs a m ds where "bs = cs @ (a, m) # ds" "unat n \<le> m" "\<forall>(b, k)\<in>set ds. k < unat n"
       "getstk_loop n None (mnext (fl_head f)) 0 None f = Some (of_nat a, prev_of cs)"
    using getstk_loop_spec [of f "[]" "mnext (fl_head f)" bs n 0 None] F'(1) by (auto simp: fl_seg_def)
  then show ?thesis
  proof cases
    case none
    then show ?thesis using last_fit_None [of "unat n" bs] by (auto simp: getstk_body_def)
  next
    case some
    let ?bs' = "cs @ (if m = unat n then ds else (a, m - unat n) # ds)" and ?x = "a + m - unat n"
    let ?p = "of_nat a :: addr"
    have lf: "last_fit (unat n) bs = Some (?x, ?bs')" using last_fit_split [OF some(2,3)] some(1) by simp
    note spec = last_fit_spec [OF lf F'(2) n0 n(2)]
    have seg: "fl_seg f cs ?p" "?p \<noteq> 0" "unat ?p = a" "unat (mlength (fl_nodes f ?p)) = m"
      "seg (fl_nodes f) (mnext (fl_nodes f ?p)) ds 0"
      using F'(1) by (auto simp: some(1) fl_seg_append)
    have dist: "distinct (map fst cs)" "fst ` set cs \<inter> fst ` set ds = {}" "a \<notin> fst ` set cs" "a \<notin> fst ` set ds"
      using blocks_ok_addrs [OF F'(2)] by (auto simp: some(1))
    have "n \<le> mlength (fl_head f)" using spec(4) F'(3) by (simp add: word_le_nat_alt)
    then have tot: "unat (mlength (fl_head f) - n) = total ?bs'" using spec(4) F'(3) by (simp add: unat_sub_le)
    let ?F = "\<lambda>f. upd_node None (\<lambda>b. b\<lparr>mlength := mlength b - n\<rparr>) f"
    have "\<exists>f1. getstk_body n f = Some (of_nat ?x + n - 4, ?F f1) \<and> fl_seg f1 ?bs' 0 \<and>
        mlength (fl_head f1) = mlength (fl_head f)"
    proof (cases "m = unat n")
      case True
      let ?f1 = "upd_node (prev_of cs) (\<lambda>b. b\<lparr>mnext := mnext (fl_nodes f ?p)\<rparr>) f"
      have "mlength (fl_nodes f ?p) = n" using True seg(4) by (simp add: word_unat_eq_iff)
      then have "getstk_body n f = Some (of_nat ?x + n - 4, ?F ?f1)"
        using some(4) seg(2) True by (simp add: getstk_body_def Let_def)
      moreover have "fl_seg ?f1 cs (mnext (fl_nodes f ?p))" by (rule fl_seg_relink [OF seg(1) dist(1)])
      then have "fl_seg ?f1 (cs @ ds) 0"
        using seg(5) seg_upd_prev [OF seg(1) dist(2)] by (auto simp: fl_seg_append)
      ultimately show ?thesis using True by auto
    next
      case False
      let ?f1 = "upd_node (Some ?p) (\<lambda>b. b\<lparr>mlength := mlength b - n\<rparr>) f"
      have ne: "mlength (fl_nodes f ?p) \<noteq> n" using False seg(4) by auto
      have le: "n \<le> mlength (fl_nodes f ?p)" using some(2) seg(4) by (simp add: word_le_nat_alt)
      have "mlength (fl_nodes f ?p) = of_nat m" by (simp flip: seg(4))
      then have "?p + (mlength (fl_nodes f ?p) - n) = of_nat ?x"
        using some(2) by (simp add: of_nat_diff)
      then have "getstk_body n f = Some (of_nat ?x + n - 4, ?F ?f1)"
        using some(4) seg(2) ne by (auto simp: getstk_body_def Let_def)
      moreover have "fl_seg ?f1 cs ?p" by (rule fl_seg_node [OF seg(1)]) (use seg(3) dist(3) in simp)
      moreover have "seg (fl_nodes ?f1) (mnext (fl_nodes f ?p)) ds 0"
        using seg(5) by (subst seg_upd_node) (use seg(3) dist(4) in simp_all)
      ultimately have "fl_seg ?f1 (cs @ (a, m - unat n) # ds) 0"
        using seg(2-4) le unfolding fl_seg_append by (intro exI [of _ ?p]) (simp add: unat_sub_le)
      then show ?thesis using False \<open>getstk_body n f = _\<close> by (intro exI [of _ ?f1]) simp
    qed
    then obtain f1 where f1: "getstk_body n f = Some (of_nat ?x + n - 4, ?F f1)" "fl_seg f1 ?bs' 0"
      "mlength (fl_head f1) = mlength (fl_head f)" by blast
    have "fl_ok lo hi (?F f1) ?bs'" using f1(2,3) tot spec(1) F'(4,5) by (simp add: fl_ok_def fl_seg_head)
    then show ?thesis using f1(1) by (simp add: lf)
  qed
qed

subsection \<open>Freeing a block\<close>

definition join_next :: "nat \<Rightarrow> nat \<Rightarrow> blocks \<Rightarrow> blocks" where
  "join_next a n ds = (case ds of (b, m) # ds' \<Rightarrow> if a + n = b then (a, n + m) # ds' else (a, n) # ds | [] \<Rightarrow> [(a, n)])"

definition ins_block :: "nat \<Rightarrow> nat \<Rightarrow> blocks \<Rightarrow> blocks" where
  "ins_block a n bs =
     (let cs = takeWhile (\<lambda>b. fst b < a) bs; ds = dropWhile (\<lambda>b. fst b < a) bs in
      if cs \<noteq> [] \<and> fst (last cs) + snd (last cs) = a
      then butlast cs @ join_next (fst (last cs)) (snd (last cs) + n) ds
      else cs @ join_next a n ds)"

lemma join_next_spec:
  assumes "blocks_ok (a + n) hi ds" "lo \<le> a" "0 < n" "8 dvd n" "a + n \<le> hi"
  shows "blocks_ok lo hi (join_next a n ds)" "bytes (join_next a n ds) = {a..<a + n} \<union> bytes ds"
    "total (join_next a n ds) = n + total ds"
  using assms by (auto simp: join_next_def add.assoc split: list.splits)

lemma freemem_loop_spec:
  assumes "fl_seg f bs1 next" and "seg (fl_nodes f) next bs2 0"
  shows "\<exists>q. freemem_loop block (prev_of bs1) next f =
        Some (prev_of (bs1 @ takeWhile (\<lambda>b. fst b < unat block) bs2), q) \<and>
      fl_seg f (bs1 @ takeWhile (\<lambda>b. fst b < unat block) bs2) q \<and>
      seg (fl_nodes f) q (dropWhile (\<lambda>b. fst b < unat block) bs2) 0"
  using assms
proof (induction bs2 arbitrary: bs1 "next")
  case Nil
  then show ?case by (simp add: freemem_loop.simps)
next
  case (Cons b bs2)
  obtain a m where b: "b = (a, m)" by (cases b)
  have cur: "next = of_nat a" "next \<noteq> 0" "unat next = a" "unat (mlength (fl_nodes f next)) = m"
    and rest: "seg (fl_nodes f) (mnext (fl_nodes f next)) bs2 0"
    using Cons.prems(2) by (auto simp: b)
  show ?case
  proof (cases "a < unat block")
    case True
    have "freemem_loop block (prev_of bs1) next f =
        freemem_loop block (prev_of (bs1 @ [(a, m)])) (mnext (fl_nodes f next)) f"
      using True cur by (subst freemem_loop.simps) (simp add: word_less_nat_alt)
    moreover have "fl_seg f (bs1 @ [(a, m)]) (mnext (fl_nodes f next))"
      using Cons.prems(1) cur by (simp add: fl_seg_snoc)
    ultimately show ?thesis using Cons.IH [OF _ rest, of "bs1 @ [(a, m)]"] True by (simp add: b)
  next
    case False
    then show ?thesis using Cons.prems cur
      by (intro exI [of _ "next"]) (subst freemem_loop.simps, auto simp: b word_less_nat_alt)
  qed
qed

lemma blocks_ok_raise: "blocks_ok l hi ds \<Longrightarrow> ds = [] \<or> l' \<le> fst (hd ds) \<Longrightarrow> blocks_ok l' hi ds"
  by (cases ds) auto

text \<open>The two tests of \<open>freemem\<close> detect exactly the blocks that overlap free memory.\<close>

lemma free_disjoint_iff:
  assumes ok: "blocks_ok lo hi (cs @ ds)" and cs: "\<forall>b\<in>set cs. fst b < a" and ds: "ds = [] \<or> a \<le> fst (hd ds)"
    and k: "0 < k"
  shows "{a..<a + k} \<inter> bytes (cs @ ds) = {} \<longleftrightarrow>
    (cs = [] \<or> fst (last cs) + snd (last cs) \<le> a) \<and> (ds = [] \<or> a + k \<le> fst (hd ds))" (is "?L \<longleftrightarrow> ?R")
proof
  assume L: ?L
  have "fst (last cs) + snd (last cs) \<le> a" if "cs \<noteq> []"
  proof -
    have "last cs \<in> set cs" using that by simp
    then have l: "fst (last cs) < a" "{fst (last cs)..<fst (last cs) + snd (last cs)} \<subseteq> bytes (cs @ ds)"
      using cs by (auto simp: bytes_def split_beta)
    moreover have "a \<notin> bytes (cs @ ds)" using L k by (auto simp: disjoint_iff simp del: bytes_simps)
    ultimately have "a \<notin> {fst (last cs)..<fst (last cs) + snd (last cs)}" by blast
    then show ?thesis using l(1) by simp
  qed
  moreover have "a + k \<le> fst (hd ds)" if ne: "ds \<noteq> []"
  proof -
    obtain b m ds' where d: "ds = (b, m) # ds'" using ne by (cases ds) auto
    then have "0 < m" using ok by (auto simp: blocks_ok_append)
    then have "b \<in> bytes (cs @ ds)" using d by simp
    then have "b \<notin> {a..<a + k}" using L by blast
    then show ?thesis using ds d by simp
  qed
  ultimately show ?R by blast
next
  assume R: ?R
  have "bytes cs \<subseteq> {..<a}"
    using R blocks_ok_ends [of lo hi cs] ok by (cases "cs = []") (auto simp: blocks_ok_append)
  moreover have "bytes ds \<subseteq> {a + k..}"
  proof -
    have "blocks_ok (a + k) hi ds" by (rule blocks_ok_raise [OF ok [unfolded blocks_ok_append, THEN conjunct2]]) (use R in auto)
    then show ?thesis using blocks_ok_bytes by fastforce
  qed
  ultimately show ?L by fastforce
qed

lemma split_at:
  assumes "blocks_ok lo hi bs" and "cs = takeWhile (\<lambda>b. fst b < a) bs" and "ds = dropWhile (\<lambda>b. fst b < a) bs"
  shows "bs = cs @ ds" "\<forall>b\<in>set cs. fst b < a" "ds = [] \<or> a \<le> fst (hd ds)"
    "blocks_ok lo hi (cs @ ds)"
proof -
  show "bs = cs @ ds" "blocks_ok lo hi (cs @ ds)" using assms by simp_all
  show "\<forall>b\<in>set cs. fst b < a" using assms(2) by (auto dest: set_takeWhileD)
  show "ds = [] \<or> a \<le> fst (hd ds)" using assms(3) hd_dropWhile [of "\<lambda>b. fst b < a" bs] by (cases "ds = []") auto
qed

lemma ins_block_spec:
  assumes ok: "blocks_ok lo hi bs" and a: "lo \<le> a" "a + k \<le> hi" and k: "0 < k" "8 dvd k"
    and disj: "{a..<a + k} \<inter> bytes bs = {}"
  shows "blocks_ok lo hi (ins_block a k bs)" "bytes (ins_block a k bs) = {a..<a + k} \<union> bytes bs"
    "total (ins_block a k bs) = k + total bs"
proof -
  define cs ds where "cs = takeWhile (\<lambda>b. fst b < a) bs" and "ds = dropWhile (\<lambda>b. fst b < a) bs"
  note sp = split_at [OF ok cs_def ds_def]
  have gap: "cs = [] \<or> fst (last cs) + snd (last cs) \<le> a" "ds = [] \<or> a + k \<le> fst (hd ds)"
    using disj free_disjoint_iff [OF sp(4,2,3) k(1)] unfolding sp(1) [symmetric] by auto
  have ds: "blocks_ok (a + k) hi ds" using blocks_ok_raise [OF _ gap(2)] sp(4) by (auto simp: blocks_ok_append)
  have "blocks_ok lo hi (ins_block a k bs) \<and> bytes (ins_block a k bs) = {a..<a + k} \<union> bytes bs \<and>
    total (ins_block a k bs) = k + total bs"
  proof (cases "cs \<noteq> [] \<and> fst (last cs) + snd (last cs) = a")
    case True
    then obtain cs' b m where c: "cs = cs' @ [(b, m)]" "b + m = a" by (cases cs rule: rev_cases) auto
    have eq: "ins_block a k bs = cs' @ join_next b (m + k) ds"
      using c by (simp add: ins_block_def cs_def [symmetric] ds_def [symmetric] Let_def)
    let ?lo = "if cs' = [] then lo else fst (last cs') + snd (last cs') + 1"
    have "blocks_ok lo hi cs'" and b: "?lo \<le> b" "0 < m" "8 dvd m" using sp(4) by (auto simp: c(1) blocks_ok_append)
    moreover have "blocks_ok (b + (m + k)) hi ds" using ds c(2) by (simp add: add.assoc [symmetric])
    note jn = join_next_spec [OF this b(1)]
    moreover have "bytes bs = bytes cs' \<union> {b..<b + m} \<union> bytes ds" "total bs = total cs' + m + total ds"
      by (simp_all add: sp(1) c(1) Un_assoc)
    ultimately show ?thesis using jn b k a c(2) unfolding eq by (auto simp: blocks_ok_append)
  next
    case False
    have eq: "ins_block a k bs = cs @ join_next a k ds"
      using False by (auto simp: ins_block_def cs_def [symmetric] ds_def [symmetric] Let_def)
    let ?lo = "if cs = [] then lo else fst (last cs) + snd (last cs) + 1"
    have "?lo \<le> a" using gap(1) False a(1) by auto
    note jn = join_next_spec [OF ds this k a(2)]
    have "bytes bs = bytes cs \<union> bytes ds" "total bs = total cs + total ds" by (simp_all add: sp(1))
    then show ?thesis using jn sp(4) unfolding eq by (auto simp: blocks_ok_append)
  qed
  then show "blocks_ok lo hi (ins_block a k bs)" "bytes (ins_block a k bs) = {a..<a + k} \<union> bytes bs"
    "total (ins_block a k bs) = k + total bs" by auto
qed

lemma freemem_join_spec:
  assumes S: "fl_seg f (cs @ [(b, n)]) q" "seg (fl_nodes f) q ds 0"
    and b: "b \<notin> fst ` set cs" "b \<notin> fst ` set ds" "0 < b" "b + n < 2 ^ 32" and ds: "blocks_ok (b + n) hi ds" "hi < 2 ^ 32"
  shows "fl_seg (freemem_join (of_nat b) q f) (cs @ join_next b n ds) 0"
    "fl_head (freemem_join (of_nat b) q f) = fl_head f"
proof -
  let ?b = "of_nat b :: addr"
  have s: "fl_seg f cs ?b" "?b \<noteq> 0" "unat ?b = b" "unat (mlength (fl_nodes f ?b)) = n" "mnext (fl_nodes f ?b) = q"
    using S(1) by (auto simp: fl_seg_snoc)
  have sum: "unat (?b + mlength (fl_nodes f ?b)) = b + n" using s b(4) by (simp add: unat_add_lt)
  show "fl_head (freemem_join ?b q f) = fl_head f" by (simp add: freemem_join_def Let_def)
  show "fl_seg (freemem_join ?b q f) (cs @ join_next b n ds) 0"
  proof (cases ds)
    case Nil
    then have "q = 0" using S(2) by simp
    moreover have "?b + mlength (fl_nodes f ?b) \<noteq> 0" using sum b(3) by (metis add_gr_0 less_irrefl unat_0)
    ultimately show ?thesis using S(1) Nil by (simp add: freemem_join_def join_next_def)
  next
    case (Cons d ds')
    obtain c m where d: "d = (c, m)" by (cases d)
    have q: "q \<noteq> 0" "unat q = c" "unat (mlength (fl_nodes f q)) = m" "seg (fl_nodes f) (mnext (fl_nodes f q)) ds' 0"
      using S(2) by (auto simp: Cons d)
    have iff: "?b + mlength (fl_nodes f ?b) = q \<longleftrightarrow> b + n = c" using sum q(2) by (metis word_unat_eq_iff)
    show ?thesis
    proof (cases "b + n = c")
      case False
      then show ?thesis using S iff unfolding freemem_join_def
        by (auto simp: join_next_def Cons d fl_seg_append)
    next
      case True
      have m: "n + m < 2 ^ 32" "0 < m" using ds True by (auto simp: Cons d)
      have qb: "q \<noteq> ?b" using b(2) q(2) s(3) by (auto simp: Cons d)
      let ?f1 = "upd_node (Some ?b) (\<lambda>x. x\<lparr>mlength := mlength x + mlength (fl_nodes f q)\<rparr>) f"
      let ?f2 = "upd_node (Some ?b) (\<lambda>x. x\<lparr>mnext := mnext (fl_nodes ?f1 q)\<rparr>) ?f1"
      have eq: "freemem_join ?b q f = ?f2" using True iff by (simp add: freemem_join_def Let_def)
      have "fl_seg ?f2 cs ?b" by (intro fl_seg_node s(1)) (use b(1) s(3) in simp_all)
      moreover have nb: "unat ?b \<notin> fst ` set ds'" using b(2) s(3) Cons by simp
      have "seg (fl_nodes ?f2) (mnext (fl_nodes f q)) ds' 0"
        using q(4) by (simp only: seg_upd_node [OF nb])
      moreover have "fl_nodes ?f2 ?b = \<lparr>mnext = mnext (fl_nodes f q), mlength = mlength (fl_nodes f ?b) + mlength (fl_nodes f q)\<rparr>"
        using qb by simp
      moreover have "unat (mlength (fl_nodes f ?b) + mlength (fl_nodes f q)) = n + m"
        using s(4) q(3) m by (simp add: unat_add_lt)
      ultimately have "fl_seg ?f2 (cs @ (b, n + m) # ds') 0"
        using s(2,3) unfolding fl_seg_append by (intro exI [of _ ?b]) (simp del: upd_node_simps)
      then show ?thesis using True eq by (simp add: join_next_def Cons d)
    qed
  qed
qed

lemma freemem_body_ok:
  assumes F: "fl_ok lo hi f bs" and a: "lo \<le> unat block" "unat block + unat n \<le> hi" and n: "0 < n" "8 dvd unat n"
  shows "if {unat block..<unat block + unat n} \<inter> bytes bs = {}
    then \<exists>f'. freemem_body block n f = Some (OK, f') \<and> fl_ok lo hi f' (ins_block (unat block) (unat n) bs)
    else freemem_body block n f = Some (SYSERR, f)"
proof -
  let ?a = "unat block" and ?k = "unat n"
  have k: "0 < ?k" using n(1) by (simp add: word_less_nat_alt)
  have F': "fl_seg f bs 0" "blocks_ok lo hi bs" "unat (mlength (fl_head f)) = total bs" "0 < lo" "hi < 2 ^ 32"
    using F by (auto simp: fl_ok_def)
  define cs ds where "cs = takeWhile (\<lambda>b. fst b < ?a) bs" and "ds = dropWhile (\<lambda>b. fst b < ?a) bs"
  note sp = split_at [OF F'(2) cs_def ds_def]
  obtain q where loop: "freemem_loop block None (mnext (fl_head f)) f = Some (prev_of cs, q)"
    and seg: "fl_seg f cs q" "seg (fl_nodes f) q ds 0"
    using freemem_loop_spec [of f "[]" "mnext (fl_head f)" bs block] F'(1)
    by (auto simp: fl_seg_def cs_def ds_def)
  define top where "top = (case prev_of cs of None \<Rightarrow> 0 | Some p \<Rightarrow> p + mlength (fl_nodes f p))"
  have top: "unat top = fst (last cs) + snd (last cs)" "prev_of cs \<noteq> None" if ne: "cs \<noteq> []"
  proof -
    obtain cs' b m where c: "cs = cs' @ [(b, m)]" using ne by (cases cs rule: rev_cases) auto
    have "b + m \<le> hi" using blocks_ok_bounds [OF F'(2), of b m] by (simp add: sp(1) c)
    then show "unat top = fst (last cs) + snd (last cs)" "prev_of cs \<noteq> None"
      using seg(1) F'(5) by (auto simp: top_def c fl_seg_snoc unat_add_lt)
  qed
  have tests: "(prev_of cs \<noteq> None \<and> block < top) \<or> (q \<noteq> 0 \<and> block + n > q) \<longleftrightarrow> {?a..<?a + ?k} \<inter> bytes bs \<noteq> {}"
  proof -
    have "prev_of cs \<noteq> None \<and> block < top \<longleftrightarrow> cs \<noteq> [] \<and> \<not> fst (last cs) + snd (last cs) \<le> ?a"
      using top by (cases "cs = []") (auto simp: word_less_nat_alt)
    moreover have "unat (block + n) = ?a + ?k" using a(2) F'(5) by (simp add: unat_add_lt)
    then have "q \<noteq> 0 \<and> block + n > q \<longleftrightarrow> ds \<noteq> [] \<and> \<not> ?a + ?k \<le> fst (hd ds)"
      using seg(2) by (cases ds) (auto simp: word_less_nat_alt)
    ultimately show ?thesis using free_disjoint_iff [OF sp(4,2,3) k] unfolding sp(1) [symmetric] by auto
  qed
  show ?thesis
  proof (cases "{?a..<?a + ?k} \<inter> bytes bs = {}")
    case False
    then show ?thesis using tests loop by (simp add: freemem_body_def top_def [symmetric])
  next
    case True
    note ins = ins_block_spec [OF F'(2) a k n(2) True]
    have gap: "cs = [] \<or> fst (last cs) + snd (last cs) \<le> ?a" "ds = [] \<or> ?a + ?k \<le> fst (hd ds)"
      using True free_disjoint_iff [OF sp(4,2,3) k] unfolding sp(1) [symmetric] by auto
    have dsok: "blocks_ok (?a + ?k) hi ds" using blocks_ok_raise [OF _ gap(2)] sp(4) by (auto simp: blocks_ok_append)
    let ?f0 = "upd_node None (\<lambda>b. b\<lparr>mlength := mlength b + n\<rparr>) f"
    have seg0: "fl_seg ?f0 cs q" "seg (fl_nodes ?f0) q ds 0" using seg by (simp_all add: fl_seg_head)
    have "?k + total bs < 2 ^ 32" using total_le [OF ins(1)] ins(3) F'(5) k by (cases "ins_block ?a ?k bs") auto
    then have tot: "unat (mlength (fl_head ?f0)) = total (ins_block ?a ?k bs)"
      using F'(3) ins(3) by (simp add: unat_add_lt add.commute)
    have "\<exists>f'. freemem_body block n f = Some (OK, f') \<and> fl_seg f' (ins_block ?a ?k bs) 0 \<and>
        mlength (fl_head f') = mlength (fl_head ?f0)"
    proof (cases "cs \<noteq> [] \<and> fst (last cs) + snd (last cs) = ?a")
      case merge: True
      then obtain cs' b m where c: "cs = cs' @ [(b, m)]" "b + m = ?a" by (cases cs rule: rev_cases) auto
      let ?b = "of_nat b :: addr"
      let ?f1 = "upd_node (Some ?b) (\<lambda>x. x\<lparr>mlength := mlength x + n\<rparr>) ?f0"
      have eq: "ins_block ?a ?k bs = cs' @ join_next b (m + ?k) ds"
        using c by (simp add: ins_block_def cs_def [symmetric] ds_def [symmetric] Let_def)
      have sb: "fl_seg ?f0 cs' ?b" "?b \<noteq> 0" "unat ?b = b" "unat (mlength (fl_nodes f ?b)) = m" "mnext (fl_nodes f ?b) = q"
        using seg0(1) by (auto simp: c(1) fl_seg_snoc)
      have fresh: "b \<notin> fst ` set cs'" "b \<notin> fst ` set ds" using blocks_ok_addrs [OF sp(4)] by (auto simp: c(1))
      have "top = block" using top(1) merge by (simp add: word_unat_eq_iff)
      moreover have pc: "prev_of cs = Some ?b" by (simp add: c(1))
      moreover from calculation have "?b + mlength (fl_nodes f ?b) = block" by (simp add: top_def)
      ultimately have body: "freemem_body block n f = Some (OK, freemem_join ?b q ?f1)"
        using tests True loop by (auto simp: freemem_body_def Let_def)
      have "fl_seg ?f1 cs' ?b" by (rule fl_seg_node [OF sb(1)]) (use sb(3) fresh(1) in simp)
      then have "fl_seg ?f1 (cs' @ [(b, m + ?k)]) q"
        using sb c(2) a(2) F'(5) by (simp add: fl_seg_snoc unat_add_lt)
      moreover have "seg (fl_nodes ?f1) q ds 0" using seg0(2) by (subst seg_upd_node) (use sb(3) fresh(2) in simp_all)
      moreover have "0 < b" using sb(2) by (cases b) auto
      ultimately show ?thesis using freemem_join_spec [of ?f1 cs' b "m + ?k" q ds hi] fresh a(2) F'(5) dsok c(2) body eq
        by (auto simp: add.assoc [symmetric])
    next
      case apart: False
      let ?f1 = "upd_node (Some block) (\<lambda>b. b\<lparr>mnext := q\<rparr>) ?f0"
      let ?f2 = "upd_node (Some block) (\<lambda>b. b\<lparr>mlength := n\<rparr>) ?f1"
      let ?f3 = "upd_node (prev_of cs) (\<lambda>b. b\<lparr>mnext := block\<rparr>) ?f2"
      have eq: "ins_block ?a ?k bs = cs @ join_next ?a ?k ds"
        using apart by (auto simp: ins_block_def cs_def [symmetric] ds_def [symmetric] Let_def)
      have b0: "block \<noteq> 0" using a(1) F'(4) by auto
      have fresh: "?a \<notin> fst ` set cs" "?a \<notin> fst ` set ds" "fst ` set cs \<inter> fst ` set ds = {}" "distinct (map fst cs)"
        using sp(2) blocks_ok_addrs [OF sp(4)] blocks_ok_addrs [OF dsok] k by auto
      have "top \<noteq> block" using top(1) apart b0 by (cases "cs = []") (auto simp: top_def)
      then have body: "freemem_body block n f = Some (OK, freemem_join block q ?f3)"
        using tests True loop by (simp add: freemem_body_def top_def [symmetric] Let_def)
      have s2: "fl_seg ?f2 cs q" by (intro fl_seg_node seg0(1) fresh(1))
      then have "fl_seg ?f3 cs block" by (rule fl_seg_relink [OF _ fresh(4)])
      moreover have "fl_nodes ?f3 block = \<lparr>mnext = q, mlength = n\<rparr>"
        using nodes_upd_prev [OF s2 fresh(1)] by simp
      ultimately have "fl_seg ?f3 (cs @ [(?a, ?k)]) q" using b0 by (simp add: fl_seg_snoc)
      moreover have "seg (fl_nodes ?f3) q ds 0"
        using seg0(2) by (simp only: seg_upd_prev [OF s2 fresh(3)] seg_upd_node [OF fresh(2)])
      moreover have "0 < ?a" using b0 by (simp add: unat_gt_0)
      moreover have "mlength (fl_head ?f3) = mlength (fl_head ?f0)" by simp
      ultimately show ?thesis using freemem_join_spec [of ?f3 cs ?a ?k q ds hi] fresh a(2) F'(5) dsok body eq
        by auto
    qed
    then show ?thesis using True tot ins(1) F'(4,5) by (auto simp: fl_ok_def)
  qed
qed

subsection \<open>The three operations on the set of free bytes\<close>

definition fl_free :: "nat \<Rightarrow> nat \<Rightarrow> flist \<Rightarrow> nat set \<Rightarrow> bool" where
  "fl_free lo hi f F \<longleftrightarrow> (\<exists>bs. fl_ok lo hi f bs \<and> bytes bs = F)"

lemma fl_free_bounds: "fl_free lo hi f F \<Longrightarrow> F \<subseteq> {lo..<hi} \<and> 0 < lo \<and> hi < 2 ^ 32"
  using blocks_ok_bytes by (auto simp: fl_free_def fl_ok_def)

lemma unat_block:
  assumes "x + k \<le> hi" "hi < 2 ^ 32" "8 dvd k" "0 < k"
  shows "unat (of_nat x :: addr) = x" "(of_nat x :: addr) \<noteq> SYSERR32" "8 \<le> k"
proof -
  show k: "8 \<le> k" using assms(3,4) by (rule dvd_imp_le)
  then have "x + 8 < 2 ^ 32" using assms by linarith
  then show "unat (of_nat x :: addr) = x" "(of_nat x :: addr) \<noteq> SYSERR32"
    by (auto simp: unat_of_nat take_bit_nat_eq_self word_unat_eq_iff)
qed

lemma getmem_free:
  assumes F: "fl_free lo hi f F" and n: "0 < n" "8 dvd unat n"
  shows "getmem_loop n None (mnext (fl_head f)) f = Some (SYSERR32, f) \<or>
    (\<exists>p f'. getmem_loop n None (mnext (fl_head f)) f = Some (p, f') \<and> p \<noteq> SYSERR32 \<and>
       {unat p..<unat p + unat n} \<subseteq> F \<and> fl_free lo hi f' (F - {unat p..<unat p + unat n}))"
proof -
  from F obtain bs where bs: "fl_ok lo hi f bs" "bytes bs = F" by (auto simp: fl_free_def)
  have n0: "0 < unat n" using n(1) by (simp add: word_less_nat_alt)
  show ?thesis
  proof (cases "first_fit (unat n) bs")
    case None
    then show ?thesis using getmem_loop_ok [OF bs(1) n] by simp
  next
    case (Some t)
    obtain x bs' where t: "t = (x, bs')" by (cases t)
    obtain f' where f': "getmem_loop n None (mnext (fl_head f)) f = Some (of_nat x, f')" "fl_ok lo hi f' bs'"
      using getmem_loop_ok [OF bs(1) n] Some t by auto
    have ok: "blocks_ok lo hi bs" "hi < 2 ^ 32" using bs(1) by (simp_all add: fl_ok_def)
    note sp = first_fit_spec [OF Some [unfolded t] ok(1) n0 n(2)]
    note x = unat_block [OF sp(6) ok(2) n(2) n0]
    have "fl_free lo hi f' (F - {x..<x + unat n})" using f'(2) sp(3) bs(2) by (auto simp: fl_free_def)
    then show ?thesis using f'(1) sp(2) x bs(2) by (intro disjI2 exI [of _ "of_nat x"] exI [of _ f']) simp
  qed
qed

lemma getstk_free:
  assumes F: "fl_free lo hi f F" and n: "0 < n" "8 dvd unat n"
  shows "getstk_body n f = Some (SYSERR32, f) \<or>
    (\<exists>p f'. getstk_body n f = Some (p, f') \<and> p \<noteq> SYSERR32 \<and> unat n \<le> unat p + 4 \<and>
       {unat p + 4 - unat n..<unat p + 4} \<subseteq> F \<and> fl_free lo hi f' (F - {unat p + 4 - unat n..<unat p + 4}))"
proof -
  from F obtain bs where bs: "fl_ok lo hi f bs" "bytes bs = F" by (auto simp: fl_free_def)
  have n0: "0 < unat n" using n(1) by (simp add: word_less_nat_alt)
  show ?thesis
  proof (cases "last_fit (unat n) bs")
    case None
    then show ?thesis using getstk_body_ok [OF bs(1) n] by simp
  next
    case (Some t)
    obtain x bs' where t: "t = (x, bs')" by (cases t)
    obtain f' where f': "getstk_body n f = Some (of_nat x + n - 4, f')" "fl_ok lo hi f' bs'"
      using getstk_body_ok [OF bs(1) n] Some t by auto
    have ok: "blocks_ok lo hi bs" "hi < 2 ^ 32" using bs(1) by (simp_all add: fl_ok_def)
    note sp = last_fit_spec [OF Some [unfolded t] ok(1) n0 n(2)]
    note x = unat_block [OF sp(6) ok(2) n(2) n0]
    have s: "unat (of_nat x + n) = x + unat n" using sp(6) ok(2) x(1) by (simp add: unat_add_lt)
    moreover have "4 \<le> of_nat x + n" using s x(3) by (simp add: word_le_nat_alt)
    ultimately have p: "unat (of_nat x + n - 4) = x + unat n - 4" by (simp add: unat_sub_le)
    then have p4: "unat (of_nat x + n - 4) + 4 = x + unat n" using x(3) by simp
    have "unat (of_nat x + n - 4) < 0xFFFFFFFF" using p sp(6) ok(2) by simp
    then have "of_nat x + n - 4 \<noteq> SYSERR32" by auto
    moreover have "fl_free lo hi f' (F - {x..<x + unat n})" using f'(2) sp(3) bs(2) by (auto simp: fl_free_def)
    ultimately show ?thesis using f'(1) sp(2) bs(2) p4
      by (intro disjI2 exI [of _ "of_nat x + n - 4"] exI [of _ f']) simp
  qed
qed

lemma freemem_free:
  assumes F: "fl_free lo hi f F" and n: "0 < n" "8 dvd unat n" and p: "{unat p..<unat p + unat n} \<subseteq> {lo..<hi}"
  shows "if {unat p..<unat p + unat n} \<inter> F = {}
    then \<exists>f'. freemem_body p n f = Some (OK, f') \<and> fl_free lo hi f' (F \<union> {unat p..<unat p + unat n})
    else freemem_body p n f = Some (SYSERR, f)"
proof -
  from F obtain bs where bs: "fl_ok lo hi f bs" "bytes bs = F" by (auto simp: fl_free_def)
  have n0: "0 < unat n" using n(1) by (simp add: word_less_nat_alt)
  then have a: "lo \<le> unat p" "unat p + unat n \<le> hi" using p by auto
  have ok: "blocks_ok lo hi bs" using bs(1) by (simp add: fl_ok_def)
  show ?thesis
  proof (cases "{unat p..<unat p + unat n} \<inter> F = {}")
    case True
    then obtain f' where "freemem_body p n f = Some (OK, f')" "fl_ok lo hi f' (ins_block (unat p) (unat n) bs)"
      using freemem_body_ok [OF bs(1) a n] bs(2) by auto
    moreover have "bytes (ins_block (unat p) (unat n) bs) = F \<union> {unat p..<unat p + unat n}"
      using ins_block_spec(2) [OF ok a n0 n(2)] True bs(2) by auto
    ultimately show ?thesis using True by (auto simp: fl_free_def)
  next
    case False
    then show ?thesis using freemem_body_ok [OF bs(1) a n] bs(2) by auto
  qed
qed

end
