(* ===== verification/Interfaces.thy ===== *)
theory Interfaces
  imports Free_List
begin

section \<open>Interfaces between the components\<close>

text \<open>
  The contracts that several components provide, with what their clients may conclude:
  \<open>allocator\<close> (the kernel heap, the stacks, the virtual heap of a process), \<open>fifo\<close> (process
  queues, the frame replacement queue) and \<open>machine\<close> (operations that keep an invariant). Each is interpreted on the model's own operations in the theory of
  the component that provides it.
\<close>

subsection \<open>Memory allocators\<close>

text \<open>\<open>rep A s F\<close>: in state \<open>s\<close> the allocator manages the addresses \<open>A\<close>, and \<open>F\<close> is free.
  \<open>ext p n\<close> are the bytes of a block of \<open>n\<close> bytes that was handed out as \<open>p\<close>. Requests above
  \<open>0xFFFFFFF8\<close> bytes are outside the contract: their rounded size wraps to 0.\<close>

locale allocator =
  fixes alloc :: "u32 \<Rightarrow> 's \<Rightarrow> (addr \<times> 's) option"
    and free :: "addr \<Rightarrow> u32 \<Rightarrow> 's \<Rightarrow> (int \<times> 's) option"
    and ext :: "addr \<Rightarrow> u32 \<Rightarrow> nat set"
    and rep :: "nat set \<Rightarrow> 's \<Rightarrow> nat set \<Rightarrow> bool"
  assumes rep_arena: "rep A s F \<Longrightarrow> F \<subseteq> A"
    and alloc_cases: "rep A s F \<Longrightarrow> 0 < n \<Longrightarrow> n \<le> 0xFFFFFFF8 \<Longrightarrow>
      (\<exists>s'. alloc n s = Some (SYSERR32, s') \<and> rep A s' F) \<or>
      (\<exists>p s'. p \<noteq> SYSERR32 \<and> alloc n s = Some (p, s') \<and> ext p n \<subseteq> F \<and> ext p n \<noteq> {} \<and>
         unat n \<le> card (ext p n) \<and> rep A s' (F - ext p n))"
    and free_cases: "rep A s F \<Longrightarrow> 0 < n \<Longrightarrow> n \<le> 0xFFFFFFF8 \<Longrightarrow> ext p n \<subseteq> A \<Longrightarrow>
      (if ext p n \<inter> F = {} then \<exists>s'. free p n s = Some (OK, s') \<and> rep A s' (F \<union> ext p n)
       else free p n s = Some (SYSERR, s))"
begin

lemma alloc_SomeD:
  assumes "rep A s F" "0 < n" "n \<le> 0xFFFFFFF8" "alloc n s = Some (p, s')" "p \<noteq> SYSERR32"
  shows "ext p n \<subseteq> F" "ext p n \<noteq> {}" "unat n \<le> card (ext p n)" "rep A s' (F - ext p n)"
  using alloc_cases [OF assms(1-3)] assms(4,5) by auto

text \<open>Two live blocks never overlap.\<close>

lemma allocs_disjoint:
  assumes R: "rep A s F" and n: "0 < n" "n \<le> 0xFFFFFFF8" and m: "0 < m" "m \<le> 0xFFFFFFF8"
    and 1: "alloc n s = Some (p, s1)" "p \<noteq> SYSERR32" and 2: "alloc m s1 = Some (q, s2)" "q \<noteq> SYSERR32"
  shows "ext p n \<inter> ext q m = {}"
  using alloc_SomeD(1) [OF alloc_SomeD(4) [OF R n 1] m 2] by blast

text \<open>Freeing a block that was just handed out succeeds and restores the free memory.\<close>

lemma free_alloc:
  assumes R: "rep A s F" and n: "0 < n" "n \<le> 0xFFFFFFF8" and 1: "alloc n s = Some (p, s1)" "p \<noteq> SYSERR32"
  obtains s2 where "free p n s1 = Some (OK, s2)" "rep A s2 F"
proof -
  note D = alloc_SomeD [OF R n 1]
  have "(F - ext p n) \<union> ext p n = F" using D(1) by blast
  then show thesis
    using free_cases [OF D(4) n, of p] D(1) rep_arena [OF R] that by (auto split: if_splits)
qed

text \<open>Freeing it twice is detected.\<close>

lemma double_free:
  assumes R: "rep A s F" and n: "0 < n" "n \<le> 0xFFFFFFF8" and 1: "alloc n s = Some (p, s1)" "p \<noteq> SYSERR32"
    and 2: "free p n s1 = Some (OK, s2)"
  shows "free p n s2 = Some (SYSERR, s2)"
proof -
  note D = alloc_SomeD [OF R n 1]
  obtain s3 where "free p n s1 = Some (OK, s3)" "rep A s3 F" using free_alloc [OF R n 1] .
  then have "rep A s2 F" using 2 by simp
  moreover have "ext p n \<subseteq> A" "ext p n \<inter> F \<noteq> {}" using D(1,2) rep_arena [OF R] by auto
  ultimately show ?thesis using free_cases [of A s2 F n p] n by simp
qed

end

subsection \<open>First in, first out\<close>

text \<open>\<open>rep s xs F\<close>: in state \<open>s\<close> the queue holds \<open>xs\<close>, oldest first, and the items of \<open>F\<close> may be put.
  A queue is linked through its items, so an item is on it at most once.\<close>

fun gets :: "('s \<Rightarrow> ('x \<times> 's) option) \<Rightarrow> nat \<Rightarrow> 's \<Rightarrow> ('x list \<times> 's) option" where
  "gets get 0 s = Some ([], s)"
| "gets get (Suc n) s = do { (x, s) \<leftarrow> get s; (xs, s) \<leftarrow> gets get n s; Some (x # xs, s) }"

locale fifo =
  fixes put :: "'x \<Rightarrow> 's \<Rightarrow> 's"
    and get :: "'s \<Rightarrow> ('x \<times> 's) option"
    and rep :: "'s \<Rightarrow> 'x list \<Rightarrow> 'x set \<Rightarrow> bool"
  assumes put_rep: "rep s xs F \<Longrightarrow> x \<in> F \<Longrightarrow> \<exists>F'. F - {x} \<subseteq> F' \<and> rep (put x s) (xs @ [x]) F'"
    and get_rep: "rep s (x # xs) F \<Longrightarrow> \<exists>s' F'. get s = Some (x, s') \<and> F \<subseteq> F' \<and> rep s' xs F'"
begin

lemma puts_rep:
  assumes "rep s xs F" and "distinct ys" and "set ys \<subseteq> F"
  shows "\<exists>F'. rep (fold put ys s) (xs @ ys) F'"
  using assms
proof (induction ys arbitrary: s xs F)
  case Nil
  then show ?case by auto
next
  case (Cons y ys)
  obtain F' where F': "F - {y} \<subseteq> F'" "rep (put y s) (xs @ [y]) F'" 
    using put_rep [OF Cons.prems(1), of y] Cons.prems(3) by auto
  moreover have "set ys \<subseteq> F'" using F'(1) Cons.prems(2,3) by auto
  ultimately show ?case using Cons.IH [of "put y s" "xs @ [y]" F'] Cons.prems(2) by auto
qed

lemma gets_rep:
  assumes "rep s (ys @ zs) F"
  shows "\<exists>s' F'. gets get (length ys) s = Some (ys, s') \<and> rep s' zs F'"
  using assms
proof (induction ys arbitrary: s F)
  case Nil
  then show ?case by auto
next
  case (Cons y ys)
  obtain s1 F1 where s1: "get s = Some (y, s1)" "rep s1 (ys @ zs) F1" using get_rep Cons.prems by fastforce
  then show ?case using Cons.IH [OF s1(2)] by auto
qed

text \<open>Items leave in the order in which they came, behind those that were there before.\<close>

lemma fifo_order:
  assumes "rep s xs F" and "distinct ys" and "set ys \<subseteq> F"
  shows "\<exists>s' F'. gets get (length xs + length ys) (fold put ys s) = Some (xs @ ys, s') \<and> rep s' [] F'"
proof -
  obtain F1 where "rep (fold put ys s) ((xs @ ys) @ []) F1" using puts_rep [OF assms] by auto
  from gets_rep [OF this] show ?thesis by simp
qed

end

subsection \<open>Machines with an invariant\<close>

text \<open>\<open>exec c s\<close> is the state after the operation \<open>c\<close>, \<open>None\<close> when it does not return; \<open>allowed c s\<close> says
  that the environment may request it. \<open>mreach\<close> are the states that sequences of allowed
  operations reach.\<close>

inductive mreach :: "('c \<Rightarrow> 's \<Rightarrow> 's option) \<Rightarrow> ('c \<Rightarrow> 's \<Rightarrow> bool) \<Rightarrow> 's \<Rightarrow> 's \<Rightarrow> bool"
  for exec allowed s0 where
  start: "mreach exec allowed s0 s0"
| step: "mreach exec allowed s0 s \<Longrightarrow> allowed c s \<Longrightarrow> exec c s = Some s' \<Longrightarrow> mreach exec allowed s0 s'"

locale machine =
  fixes exec :: "'c \<Rightarrow> 's \<Rightarrow> 's option"
    and allowed :: "'c \<Rightarrow> 's \<Rightarrow> bool"
    and inv :: "'s \<Rightarrow> bool"
  assumes exec_inv: "inv s \<Longrightarrow> allowed c s \<Longrightarrow> \<exists>s'. exec c s = Some s' \<and> inv s'"
begin

lemma mreach_inv:
  assumes "mreach exec allowed s0 s" and "inv s0"
  shows "inv s"
  using assms(1)
proof induction
  case start
  show ?case by (rule assms(2))
next
  case (step s c s')
  then show ?case using exec_inv [of s c] by auto
qed

lemma never_stuck:
  assumes "mreach exec allowed s0 s" and "inv s0" and "allowed c s"
  obtains s' where "exec c s = Some s'" "mreach exec allowed s0 s'" "inv s'"
proof -
  obtain s' where s': "exec c s = Some s'" "inv s'" using exec_inv [OF mreach_inv [OF assms(1,2)] assms(3)] by blast
  then show thesis using that mreach.step [of exec allowed s0 s c s'] assms(1,3) by blast
qed

end

end
