(* ===== verification/Queues.thy ===== *)
theory Queues
  imports Interfaces
begin

section \<open>Process queues\<close>

text \<open>
  The queue table: doubly linked lists of process ids threaded through \<open>queuetab\<close>, with a head
  and a tail node per list (system/queue.c, getitem.c, insert.c, insertd.c, newqueue.c and the
  macros of include/queue.h). The definitions come first. Then the abstraction: \<open>is_queue qt q xs\<close>
  says that the list with head \<open>q\<close> links exactly the processes \<open>xs\<close>, and each operation is shown
  to act on \<open>xs\<close> as a plain list operation, leaving every other queue alone.
\<close>

subsection \<open>Operations\<close>

definition queuehead :: "qid16 \<Rightarrow> qid16" where
  "queuehead q = q"

definition queuetail :: "qid16 \<Rightarrow> qid16" where
  "queuetail q = q + 1"

definition firstid :: "'a kstate_scheme \<Rightarrow> qid16 \<Rightarrow> qid16" where
  "firstid s q = qnext (queuetab s (queuehead q))"

definition lastid :: "'a kstate_scheme \<Rightarrow> qid16 \<Rightarrow> qid16" where
  "lastid s q = qprev (queuetab s (queuetail q))"

definition isempty :: "'a kstate_scheme \<Rightarrow> qid16 \<Rightarrow> bool" where
  "isempty s q \<longleftrightarrow> firstid s q \<ge> NPROC"

definition nonempty :: "'a kstate_scheme \<Rightarrow> qid16 \<Rightarrow> bool" where
  "nonempty s q \<longleftrightarrow> firstid s q < NPROC"

definition firstkey :: "'a kstate_scheme \<Rightarrow> qid16 \<Rightarrow> int" where
  "firstkey s q = qkey (queuetab s (firstid s q))"

definition lastkey :: "'a kstate_scheme \<Rightarrow> qid16 \<Rightarrow> int" where
  "lastkey s q = qkey (queuetab s (lastid s q))"

definition enqueue :: "pid32 \<Rightarrow> qid16 \<Rightarrow> 'a kstate_scheme \<Rightarrow> pid32 \<times> 'a kstate_scheme" where
  "enqueue pid q s =
     (if isbadqid q \<or> isbadpid s pid then (SYSERR, s)
      else let tail = queuetail q;
               prev = qprev (queuetab s tail);
               s = upd_q pid (\<lambda>e. e\<lparr>qnext := tail\<rparr>) s;
               s = upd_q pid (\<lambda>e. e\<lparr>qprev := prev\<rparr>) s;
               s = upd_q prev (\<lambda>e. e\<lparr>qnext := pid\<rparr>) s;
               s = upd_q tail (\<lambda>e. e\<lparr>qprev := pid\<rparr>) s
           in (pid, s))"

definition getitem :: "pid32 \<Rightarrow> 'a kstate_scheme \<Rightarrow> pid32 \<times> 'a kstate_scheme" where
  "getitem pid s =
     (let next = qnext (queuetab s pid);
          prev = qprev (queuetab s pid);
          s = upd_q prev (\<lambda>e. e\<lparr>qnext := next\<rparr>) s;
          s = upd_q next (\<lambda>e. e\<lparr>qprev := prev\<rparr>) s
      in (pid, s))"

definition getfirst :: "qid16 \<Rightarrow> 'a kstate_scheme \<Rightarrow> pid32 \<times> 'a kstate_scheme" where
  "getfirst q s =
     (if isempty s q then (EMPTY, s)
      else let head = queuehead q in getitem (qnext (queuetab s head)) s)"

definition getlast :: "qid16 \<Rightarrow> 'a kstate_scheme \<Rightarrow> pid32 \<times> 'a kstate_scheme" where
  "getlast q s =
     (if isempty s q then (EMPTY, s)
      else let tail = queuetail q in getitem (qprev (queuetab s tail)) s)"

definition dequeue :: "qid16 \<Rightarrow> 'a kstate_scheme \<Rightarrow> pid32 \<times> 'a kstate_scheme" where
  "dequeue q s =
     (if isbadqid q then (SYSERR, s)
      else if isempty s q then (EMPTY, s)
      else let (pid, s) = getfirst q s;
               s = upd_q pid (\<lambda>e. e\<lparr>qprev := EMPTY\<rparr>) s;
               s = upd_q pid (\<lambda>e. e\<lparr>qnext := EMPTY\<rparr>) s
           in (pid, s))"

text \<open>The search loop of \<open>insert\<close>: it has no bound of its own and relies on the key of the tail.\<close>

partial_function (option) insert_scan :: "(qid16 \<Rightarrow> qentry) \<Rightarrow> int \<Rightarrow> qid16 \<Rightarrow> qid16 option" where
  "insert_scan qt key cur =
     (if qkey (qt cur) \<ge> key then insert_scan qt key (qnext (qt cur)) else Some cur)"

definition insert_q :: "pid32 \<Rightarrow> qid16 \<Rightarrow> int \<Rightarrow> 'a kstate_scheme \<Rightarrow> (int \<times> 'a kstate_scheme) option" where
  "insert_q pid q key s =
     (if isbadqid q \<or> isbadpid s pid then Some (SYSERR, s)
      else do {
        cur \<leftarrow> insert_scan (queuetab s) key (firstid s q);
        let prev = qprev (queuetab s cur);
        let s = upd_q pid (\<lambda>e. e\<lparr>qnext := cur\<rparr>) s;
        let s = upd_q pid (\<lambda>e. e\<lparr>qprev := prev\<rparr>) s;
        let s = upd_q pid (\<lambda>e. e\<lparr>qkey := key\<rparr>) s;
        let s = upd_q prev (\<lambda>e. e\<lparr>qnext := pid\<rparr>) s;
        let s = upd_q cur (\<lambda>e. e\<lparr>qprev := pid\<rparr>) s;
        Some (OK, s)
      })"

text \<open>The search loop of \<open>insertd\<close>: the remaining key, the previous and the next node.\<close>

partial_function (option) insertd_scan ::
  "(qid16 \<Rightarrow> qentry) \<Rightarrow> qid16 \<Rightarrow> int \<Rightarrow> qid16 \<Rightarrow> qid16 \<Rightarrow> (int \<times> qid16 \<times> qid16) option" where
  "insertd_scan qt q key prev next =
     (if next \<noteq> queuetail q \<and> qkey (qt next) \<le> key
      then insertd_scan qt q (key - qkey (qt next)) next (qnext (qt next))
      else Some (key, prev, next))"

definition insertd :: "pid32 \<Rightarrow> qid16 \<Rightarrow> int \<Rightarrow> 'a kstate_scheme \<Rightarrow> (int \<times> 'a kstate_scheme) option" where
  "insertd pid q key s =
     (if isbadqid q \<or> isbadpid s pid then Some (SYSERR, s)
      else do {
        (key, prev, next) \<leftarrow>
           insertd_scan (queuetab s) q key (queuehead q) (qnext (queuetab s (queuehead q)));
        let s = upd_q pid (\<lambda>e. e\<lparr>qnext := next\<rparr>) s;
        let s = upd_q pid (\<lambda>e. e\<lparr>qprev := prev\<rparr>) s;
        let s = upd_q pid (\<lambda>e. e\<lparr>qkey := key\<rparr>) s;
        let s = upd_q prev (\<lambda>e. e\<lparr>qnext := pid\<rparr>) s;
        let s = upd_q next (\<lambda>e. e\<lparr>qprev := pid\<rparr>) s;
        let s = (if next \<noteq> queuetail q then upd_q next (\<lambda>e. e\<lparr>qkey := qkey e - key\<rparr>) s else s);
        Some (OK, s)
      })"

definition newqueue :: "'a kstate_scheme \<Rightarrow> qid16 \<times> 'a kstate_scheme" where
  "newqueue s =
     (let q = nextqid s in
      if q > NQENT then (SYSERR, s)
      else let s = s\<lparr>nextqid := nextqid s + 2\<rparr>;
               s = upd_q (queuehead q) (\<lambda>e. e\<lparr>qnext := queuetail q\<rparr>) s;
               s = upd_q (queuehead q) (\<lambda>e. e\<lparr>qprev := EMPTY\<rparr>) s;
               s = upd_q (queuehead q) (\<lambda>e. e\<lparr>qkey := MAXKEY\<rparr>) s;
               s = upd_q (queuetail q) (\<lambda>e. e\<lparr>qnext := EMPTY\<rparr>) s;
               s = upd_q (queuetail q) (\<lambda>e. e\<lparr>qprev := queuehead q\<rparr>) s;
               s = upd_q (queuetail q) (\<lambda>e. e\<lparr>qkey := MINKEY\<rparr>) s
           in (q, s))"

subsection \<open>Doubly linked segments\<close>

text \<open>\<open>dll qt ns\<close>: each node of \<open>ns\<close> points forward to its successor and back to its predecessor.\<close>

fun dll :: "(qid16 \<Rightarrow> qentry) \<Rightarrow> qid16 list \<Rightarrow> bool" where
  "dll qt (a # b # ns) \<longleftrightarrow> qnext (qt a) = b \<and> qprev (qt b) = a \<and> dll qt (b # ns)"
| "dll qt _ \<longleftrightarrow> True"

lemma dll_append: "dll qt (xs @ a # ys) \<longleftrightarrow> dll qt (xs @ [a]) \<and> dll qt (a # ys)"
  by (induction xs rule: induct_list012) auto

text \<open>A segment depends on the forward pointers of all nodes but the last and on the back pointers
  of all nodes but the first.\<close>

lemma dll_cong:
  assumes "\<And>x. x \<in> set (butlast ns) \<Longrightarrow> qnext (qt' x) = qnext (qt x)"
    and "\<And>x. x \<in> set (tl ns) \<Longrightarrow> qprev (qt' x) = qprev (qt x)"
  shows "dll qt' ns = dll qt ns"
  using assms by (induction ns rule: induct_list012) auto

lemma dll_insert:
  assumes "dll qt (xs @ p # n # ys)" and "distinct (xs @ p # n # ys)"
    and "pid \<notin> set (xs @ p # n # ys)"
    and "qnext (qt' pid) = n" and "qprev (qt' pid) = p"
    and "qnext (qt' p) = pid" and "qprev (qt' n) = pid"
    and "\<And>x. x \<in> set (xs @ n # ys) \<Longrightarrow> qnext (qt' x) = qnext (qt x)"
    and "\<And>x. x \<in> set (xs @ p # ys) \<Longrightarrow> qprev (qt' x) = qprev (qt x)"
  shows "dll qt' (xs @ p # pid # n # ys)"
proof -
  have old: "dll qt (xs @ [p])" "dll qt (n # ys)"
    using assms(1) dll_append [of qt xs p "n # ys"] by auto
  have "dll qt' (xs @ [p]) = dll qt (xs @ [p])"
    using assms(8,9) by (intro dll_cong) (auto dest!: in_set_tlD)
  moreover have "dll qt' (n # ys) = dll qt (n # ys)"
    using assms(8,9) by (intro dll_cong) (auto dest: in_set_butlastD split: if_splits)
  ultimately show ?thesis
    using old assms(4-7) by (simp add: dll_append [of qt' xs p "pid # n # ys"])
qed

lemma dll_remove:
  assumes "dll qt (xs @ p # x # n # ys)" and "distinct (xs @ p # x # n # ys)"
    and "qnext (qt' p) = n" and "qprev (qt' n) = p"
    and "\<And>z. z \<in> set (xs @ n # ys) \<Longrightarrow> qnext (qt' z) = qnext (qt z)"
    and "\<And>z. z \<in> set (xs @ p # ys) \<Longrightarrow> qprev (qt' z) = qprev (qt z)"
  shows "dll qt' (xs @ p # n # ys)"
proof -
  have old: "dll qt (xs @ [p])" "dll qt (n # ys)"
    using assms(1) dll_append [of qt xs p "x # n # ys"] by auto
  have "dll qt' (xs @ [p]) = dll qt (xs @ [p])"
    using assms(5,6) by (intro dll_cong) (auto dest!: in_set_tlD)
  moreover have "dll qt' (n # ys) = dll qt (n # ys)"
    using assms(5,6) by (intro dll_cong) (auto dest: in_set_butlastD split: if_splits)
  ultimately show ?thesis
    using old assms(3,4) by (simp add: dll_append [of qt' xs p "n # ys"])
qed

subsection \<open>The queues of a table\<close>

definition is_queue :: "(qid16 \<Rightarrow> qentry) \<Rightarrow> qid16 \<Rightarrow> pid32 list \<Rightarrow> bool" where
  "is_queue qt q xs \<longleftrightarrow>
     NPROC \<le> q \<and> q < NQENT - 1 \<and> distinct xs \<and> set xs \<subseteq> {0..<NPROC} \<and>
     dll qt (q # xs @ [q + 1]) \<and> qkey (qt q) = MAXKEY \<and> qkey (qt (q + 1)) = MINKEY"

text \<open>\<open>queues qt I Q\<close>: the queues with heads \<open>I\<close> hold the lists given by \<open>Q\<close>, and no process is on
  two of them. Heads are even (newqueue hands out \<open>NPROC\<close>, \<open>NPROC + 2\<close>, ...), so nodes of
  different queues never meet.\<close>

definition queues :: "(qid16 \<Rightarrow> qentry) \<Rightarrow> qid16 set \<Rightarrow> (qid16 \<Rightarrow> pid32 list) \<Rightarrow> bool" where
  "queues qt I Q \<longleftrightarrow>
     (\<forall>q\<in>I. is_queue qt q (Q q) \<and> even q) \<and>
     (\<forall>q\<in>I. \<forall>q'\<in>I. q \<noteq> q' \<longrightarrow> set (Q q) \<inter> set (Q q') = {})"

definition on_queues :: "qid16 set \<Rightarrow> (qid16 \<Rightarrow> pid32 list) \<Rightarrow> pid32 set" where
  "on_queues I Q = (\<Union>q\<in>I. set (Q q))"

lemma is_queue_cong:
  assumes "\<And>x. x \<in> {q, q + 1} \<union> set xs \<Longrightarrow> qt' x = qt x"
  shows "is_queue qt' q xs = is_queue qt q xs"
proof -
  have "dll qt' (q # xs @ [q + 1]) = dll qt (q # xs @ [q + 1])"
    using assms by (intro dll_cong) (auto dest: in_set_butlastD split: if_splits)
  then show ?thesis using assms by (simp add: is_queue_def)
qed

lemma is_queue_nodes:
  "is_queue qt q xs \<Longrightarrow> distinct (q # xs @ [q + 1])"
  by (auto simp: is_queue_def)

lemma is_queue_first:
  "is_queue qt q xs \<Longrightarrow> qnext (qt q) = hd (xs @ [q + 1]) \<and> qprev (qt (hd (xs @ [q + 1]))) = q"
  by (cases xs) (auto simp: is_queue_def)

lemma is_queue_last:
  "is_queue qt q xs \<Longrightarrow> qprev (qt (q + 1)) = last (q # xs) \<and> qnext (qt (last (q # xs))) = q + 1"
  by (cases xs rule: rev_cases)
    (auto simp: is_queue_def dll_append [of _ "q # ys" y "[q + 1]" for ys y, simplified])

lemma queuesD:
  assumes "queues qt I Q" and "q \<in> I"
  shows "is_queue qt q (Q q)" "even q" "distinct (Q q)" "set (Q q) \<subseteq> {0..<NPROC}"
    "NPROC \<le> q" "q < NQENT - 1" "\<not> isbadqid q"
  using assms by (auto simp: queues_def is_queue_def isbadqid_def)

lemma queues_eq_queue:
  "queues qt I Q \<Longrightarrow> q \<in> I \<Longrightarrow> q' \<in> I \<Longrightarrow> p \<in> set (Q q) \<Longrightarrow> p \<in> set (Q q') \<Longrightarrow> q = q'"
  by (auto simp: queues_def)

text \<open>The step all queue operations share: one queue changes, the nodes of the others do not.\<close>

lemma queues_update:
  assumes Q: "queues qt I Q" and q: "q \<in> I" and new: "is_queue qt' q xs"
    and same: "\<And>x. x \<notin> {q, q + 1} \<union> set (Q q) \<union> set xs \<Longrightarrow> qt' x = qt x"
    and fresh: "\<And>p. p \<in> set xs - set (Q q) \<Longrightarrow> p \<notin> on_queues I Q"
  shows "queues qt' I (Q(q := xs))"
proof -
  have disj: "set xs \<inter> set (Q r) = {}" if "r \<in> I" "r \<noteq> q" for r
    using Q q fresh that by (fastforce simp: queues_def on_queues_def)
  have "is_queue qt' r (Q r)" if r: "r \<in> I" "r \<noteq> q" for r
  proof -
    have "r \<noteq> q + 1" "r + 1 \<noteq> q" "r + 1 \<noteq> q + 1"
      using queuesD(2) [OF Q r(1)] queuesD(2) [OF Q q] r(2) by auto
    moreover have "set (Q q) \<inter> set (Q r) = {}"
      using Q q r by (auto simp: queues_def)
    moreover have "set xs \<subseteq> {0..<NPROC}" using new by (simp add: is_queue_def)
    ultimately have "is_queue qt' r (Q r) = is_queue qt r (Q r)"
      using disj [OF r] queuesD(4,5) [OF Q r(1)] queuesD(4,5) [OF Q q] r(2)
      by (intro is_queue_cong same) auto
    then show ?thesis using queuesD(1) [OF Q r(1)] by simp
  qed
  then show ?thesis
    using new Q q disj unfolding queues_def by (auto simp: Int_commute)
qed


subsection \<open>What each operation does to the lists\<close>

text \<open>Linking a process in between two neighbours, the common tail of enqueue, insert and insertd.\<close>

lemma is_queue_link:
  assumes Q: "is_queue qt q (xs @ ys)" and pid: "pid \<in> {0..<NPROC}" "pid \<notin> set (xs @ ys)"
    and p: "p = last (q # xs)" and n: "n = hd (ys @ [q + 1])"
    and links: "qnext (qt' pid) = n" "qprev (qt' pid) = p" "qnext (qt' p) = pid" "qprev (qt' n) = pid"
      "\<And>x. x \<noteq> pid \<Longrightarrow> x \<noteq> p \<Longrightarrow> qnext (qt' x) = qnext (qt x)"
      "\<And>x. x \<noteq> pid \<Longrightarrow> x \<noteq> n \<Longrightarrow> qprev (qt' x) = qprev (qt x)"
    and keys: "qkey (qt' q) = qkey (qt q)" "qkey (qt' (q + 1)) = qkey (qt (q + 1))"
  shows "is_queue qt' q (xs @ pid # ys)"
proof -
  have split: "q # (xs @ ys) @ [q + 1] = butlast (q # xs) @ p # n # tl (ys @ [q + 1])"
    by (cases "ys"; cases xs rule: rev_cases) (simp_all add: p n)
  then have split': "q # (xs @ pid # ys) @ [q + 1] = butlast (q # xs) @ p # pid # n # tl (ys @ [q + 1])"
    by (cases "ys"; cases xs rule: rev_cases) (simp_all add: p n)
  have dist: "distinct (q # (xs @ ys) @ [q + 1])" using is_queue_nodes [OF Q] by simp
  have fresh: "pid \<notin> set (q # (xs @ ys) @ [q + 1])" using pid Q by (auto simp: is_queue_def)
  have "dll qt' (q # (xs @ pid # ys) @ [q + 1])"
    unfolding split'
  proof (rule dll_insert)
    show "dll qt (butlast (q # xs) @ p # n # tl (ys @ [q + 1]))"
      using Q unfolding is_queue_def split [symmetric] by simp
    show "distinct (butlast (q # xs) @ p # n # tl (ys @ [q + 1]))" "pid \<notin> set (butlast (q # xs) @ p # n # tl (ys @ [q + 1]))"
      using dist fresh unfolding split by blast+
    then show "qnext (qt' x) = qnext (qt x)" if "x \<in> set (butlast (q # xs) @ n # tl (ys @ [q + 1]))" for x
      using that by (intro links(5)) auto
    show "qprev (qt' x) = qprev (qt x)" if "x \<in> set (butlast (q # xs) @ p # tl (ys @ [q + 1]))" for x
      using that \<open>distinct (butlast (q # xs) @ p # n # tl (ys @ [q + 1]))\<close> fresh[unfolded split]
      by (intro links(6)) auto
  qed (fact links)+
  then show ?thesis using Q pid keys by (auto simp: is_queue_def)
qed

lemma is_queue_unlink:
  assumes Q: "is_queue qt q (xs @ x # ys)"
    and p: "p = last (q # xs)" and n: "n = hd (ys @ [q + 1])"
    and links: "qnext (qt' p) = n" "qprev (qt' n) = p"
      "\<And>z. z \<noteq> x \<Longrightarrow> z \<noteq> p \<Longrightarrow> qnext (qt' z) = qnext (qt z)"
      "\<And>z. z \<noteq> x \<Longrightarrow> z \<noteq> n \<Longrightarrow> qprev (qt' z) = qprev (qt z)"
    and keys: "qkey (qt' q) = qkey (qt q)" "qkey (qt' (q + 1)) = qkey (qt (q + 1))"
  shows "is_queue qt' q (xs @ ys)"
proof -
  have split: "q # (xs @ x # ys) @ [q + 1] = butlast (q # xs) @ p # x # n # tl (ys @ [q + 1])"
    by (cases "ys"; cases xs rule: rev_cases) (simp_all add: p n)
  have split': "q # (xs @ ys) @ [q + 1] = butlast (q # xs) @ p # n # tl (ys @ [q + 1])"
    by (cases "ys"; cases xs rule: rev_cases) (simp_all add: p n)
  have dist: "distinct (butlast (q # xs) @ p # x # n # tl (ys @ [q + 1]))"
    using is_queue_nodes [OF Q] unfolding split by simp
  have "dll qt' (q # (xs @ ys) @ [q + 1])"
    unfolding split'
  proof (rule dll_remove)
    show "dll qt (butlast (q # xs) @ p # x # n # tl (ys @ [q + 1]))"
      using Q unfolding is_queue_def split [symmetric] by simp
    show "qnext (qt' z) = qnext (qt z)" if "z \<in> set (butlast (q # xs) @ n # tl (ys @ [q + 1]))" for z
      using that dist by (intro links(3)) auto
    show "qprev (qt' z) = qprev (qt z)" if "z \<in> set (butlast (q # xs) @ p # tl (ys @ [q + 1]))" for z
      using that dist by (intro links(4)) auto
  qed (use dist links in auto)
  then show ?thesis using Q keys by (auto simp: is_queue_def)
qed

text \<open>The neighbours of a process on a queue.\<close>

lemma is_queue_neighbours:
  assumes "is_queue qt q (xs @ x # ys)"
  shows "qprev (qt x) = last (q # xs)" "qnext (qt x) = hd (ys @ [q + 1])"
proof -
  have "dll qt ((q # xs) @ x # ys @ [q + 1])" using assms by (simp add: is_queue_def)
  then have "dll qt ((q # xs) @ [x])" "dll qt (x # ys @ [q + 1])"
    using dll_append by blast+
  then show "qprev (qt x) = last (q # xs)" "qnext (qt x) = hd (ys @ [q + 1])"
    by (cases xs rule: rev_cases;
        simp add: dll_append [of _ "q # ys" y "[x]" for ys y, simplified])
      (cases ys; use \<open>dll qt (x # ys @ [q + 1])\<close> in simp)
qed

lemma isempty_queue:
  assumes "is_queue (queuetab s) q xs"
  shows "isempty s q \<longleftrightarrow> xs = []"
  using is_queue_first [OF assms] assms
  by (cases xs) (auto simp: isempty_def firstid_def queuehead_def is_queue_def)

lemma nonempty_queue:
  assumes "is_queue (queuetab s) q xs"
  shows "nonempty s q \<longleftrightarrow> xs \<noteq> []"
  using isempty_queue [OF assms] by (auto simp: isempty_def nonempty_def)

text \<open>The two nodes around a split point of a queue, and the step that links a fresh process in
  between them.\<close>

lemma queue_gap:
  assumes isq: "is_queue qt q (xs @ ys)" and pid: "pid \<in> {0..<NPROC}" "pid \<notin> set (xs @ ys)"
    and p: "p = last (q # xs)" and n: "n = hd (ys @ [q + 1])"
  shows "p \<in> {q} \<union> set xs" "n \<in> {q + 1} \<union> set ys" "p \<noteq> n" "pid \<noteq> p" "pid \<noteq> n"
    "qprev (qt n) = p" "qnext (qt p) = n"
proof -
  have "p \<in> set (q # xs)" unfolding p by (rule last_in_set) simp
  moreover have "n \<in> set (ys @ [q + 1])" unfolding n by (rule hd_in_set) simp
  ultimately show "p \<in> {q} \<union> set xs" "n \<in> {q + 1} \<union> set ys" "p \<noteq> n" "pid \<noteq> p" "pid \<noteq> n"
    using is_queue_nodes [OF isq] pid isq by (auto simp: is_queue_def)
  show "qprev (qt n) = p"
    using is_queue_last [of qt q xs] is_queue_neighbours(1) [of qt q xs] isq
    by (cases ys) (auto simp: p n)
  show "qnext (qt p) = n"
    using is_queue_first [of qt q ys] is_queue_neighbours(2) [of qt q "butlast xs" "last xs" ys] isq
    by (cases xs rule: rev_cases) (auto simp: p n)
qed

lemma queues_link:
  assumes Q: "queues qt I Q" and q: "q \<in> I" and split: "Q q = xs @ ys"
    and pid: "pid \<in> {0..<NPROC}" "pid \<notin> on_queues I Q"
    and p: "p = last (q # xs)" and n: "n = hd (ys @ [q + 1])"
    and qt': "qnext (qt' pid) = n" "qprev (qt' pid) = p"
      "qnext (qt' p) = pid" "qprev (qt' p) = qprev (qt p)"
      "qprev (qt' n) = pid" "qnext (qt' n) = qnext (qt n)"
      "\<And>x. x \<notin> {pid, p, n} \<Longrightarrow> qt' x = qt x"
      "qkey (qt' q) = qkey (qt q)" "qkey (qt' (q + 1)) = qkey (qt (q + 1))"
  shows "queues qt' I (Q(q := xs @ pid # ys))"
proof -
  note isq = queuesD(1) [OF Q q, unfolded split]
  have pid': "pid \<notin> set (xs @ ys)" using pid(2) q split by (auto simp: on_queues_def)
  note gap = queue_gap [OF isq pid(1) pid' p n]
  have "is_queue qt' q (xs @ pid # ys)"
  proof (rule is_queue_link [OF isq pid(1) pid' p n qt'(1-3,5)])
    show "qnext (qt' x) = qnext (qt x)" if "x \<noteq> pid" "x \<noteq> p" for x
      using that qt'(6,7) by (cases "x = n") auto
    show "qprev (qt' x) = qprev (qt x)" if "x \<noteq> pid" "x \<noteq> n" for x
      using that qt'(4,7) by (cases "x = p") auto
  qed (fact qt')+
  moreover have "qt' x = qt x" if "x \<notin> {q, q + 1} \<union> set (Q q) \<union> set (xs @ pid # ys)" for x
    using that gap(1,2) by (intro qt'(7)) (auto simp: split)
  ultimately show ?thesis using pid(2) by (intro queues_update [OF Q q]) (auto simp: split)
qed

text \<open>An operation result that differs from \<open>s\<close> in the queue table only.\<close>

lemma upd_q_state: "upd_q i f s = s\<lparr>queuetab := (queuetab s)(i := f (queuetab s i))\<rparr>"
  by (simp add: upd_q_def)

lemma enqueue_queues:
  assumes Q: "queues (queuetab s) I Q" and q: "q \<in> I"
    and pid: "\<not> isbadpid s pid" "pid \<notin> on_queues I Q"
  obtains qt' where "enqueue pid q s = (pid, s\<lparr>queuetab := qt'\<rparr>)"
    "queues qt' I (Q(q := Q q @ [pid]))" "\<And>x. qkey (qt' x) = qkey (queuetab s x)"
proof -
  define p n where "p = last (q # Q q)" and "n = hd ([] @ [q + 1])"
  have range: "pid \<in> {0..<NPROC}" using pid(1) by (auto simp: isbadpid_def)
  have "pid \<notin> set (Q q @ [])" using pid(2) q by (auto simp: on_queues_def)
  from queue_gap [OF _ range this p_def n_def] queuesD(1) [OF Q q]
  have gap: "pid \<noteq> p" "pid \<noteq> n" "p \<noteq> n" "qprev (queuetab s n) = p" by auto
  have n: "queuetail q = n" by (simp add: n_def queuetail_def)
  define qt' where "qt' = (queuetab s)(pid := (queuetab s pid)\<lparr>qnext := n, qprev := p\<rparr>,
       p := (queuetab s p)\<lparr>qnext := pid\<rparr>, n := (queuetab s n)\<lparr>qprev := pid\<rparr>)"
  have "enqueue pid q s = (pid, s\<lparr>queuetab := qt'\<rparr>)"
    using gap queuesD(7) [OF Q q] pid
    by (simp add: qt'_def enqueue_def Let_def upd_q_state n)
  moreover have "queues qt' I (Q(q := Q q @ [pid]))"
    by (rule queues_link [OF Q q _ range pid(2) p_def n_def]) (use gap(1-3) in \<open>simp_all add: qt'_def\<close>)
  moreover have "qkey (qt' x) = qkey (queuetab s x)" for x
    using gap(1-3) by (simp add: qt'_def)
  ultimately show thesis using that by blast
qed

lemma getitem_queues:
  assumes Q: "queues (queuetab s) I Q" and q: "q \<in> I" and pid: "pid \<in> set (Q q)"
  obtains qt' where "getitem pid s = (pid, s\<lparr>queuetab := qt'\<rparr>)"
    "queues qt' I (Q(q := remove1 pid (Q q)))" "\<And>x. qkey (qt' x) = qkey (queuetab s x)"
proof -
  define qt' where "qt' = queuetab (snd (getitem pid s))"
  obtain xs ys where split: "Q q = xs @ pid # ys" "pid \<notin> set xs"
    using split_list_first [OF pid] by blast
  note isq = queuesD(1) [OF Q q, unfolded split(1)]
  have rem: "remove1 pid (Q q) = xs @ ys" using split by (simp add: remove1_append)
  have eq: "getitem pid s = (pid, s\<lparr>queuetab := qt'\<rparr>)"
    by (simp add: qt'_def getitem_def Let_def upd_q_state)
  let ?p = "last (q # xs)" and ?n = "hd (ys @ [q + 1])"
  have nodes: "distinct (q # (xs @ pid # ys) @ [q + 1])" using is_queue_nodes [OF isq] .
  have "?p \<in> set (q # xs)" by (rule last_in_set) simp
  moreover have "?n \<in> set (ys @ [q + 1])" by (rule hd_in_set) simp
  ultimately have pn: "?p \<in> {q} \<union> set xs" "?n \<in> {q + 1} \<union> set ys" "?p \<noteq> ?n"
    using nodes by auto
  have qt': "qt' = (queuetab s)(?p := (queuetab s ?p)\<lparr>qnext := ?n\<rparr>, ?n := (queuetab s ?n)\<lparr>qprev := ?p\<rparr>)"
    using pn(3) unfolding qt'_def
    by (simp add: getitem_def Let_def is_queue_neighbours [OF isq] del: last.simps)
  have "is_queue qt' q (xs @ ys)"
    by (rule is_queue_unlink [OF isq refl refl]) (use pn(3) in \<open>simp_all add: qt' del: last.simps\<close>)
  moreover have "qt' x = queuetab s x" if "x \<notin> {q, q + 1} \<union> set (Q q) \<union> set (xs @ ys)" for x
    using that pn by (auto simp: qt' split simp del: last.simps)
  ultimately have "queues qt' I (Q(q := remove1 pid (Q q)))"
    unfolding rem by (intro queues_update [OF Q q]) (auto simp: split)
  moreover have "qkey (qt' x) = qkey (queuetab s x)" for x
    using pn(3) by (simp add: qt' del: last.simps)
  ultimately show thesis using that eq by blast
qed

lemma queues_frame:
  assumes Q: "queues qt I Q" and p: "p \<in> {0..<NPROC}" "p \<notin> on_queues I Q"
  shows "queues (qt(p := e)) I Q"
proof -
  have "is_queue (qt(p := e)) q (Q q) = is_queue qt q (Q q)" if "q \<in> I" for q
    using p that queuesD(5) [OF Q that] by (intro is_queue_cong) (auto simp: on_queues_def)
  then show ?thesis using Q by (simp add: queues_def)
qed

lemma getfirst_queues:
  assumes Q: "queues (queuetab s) I Q" and q: "q \<in> I" and ne: "Q q \<noteq> []"
  obtains qt' where "getfirst q s = (hd (Q q), s\<lparr>queuetab := qt'\<rparr>)"
    "queues qt' I (Q(q := tl (Q q)))" "\<And>x. qkey (qt' x) = qkey (queuetab s x)"
proof -
  have "\<not> isempty s q" using isempty_queue [OF queuesD(1) [OF Q q]] ne by simp
  moreover have "qnext (queuetab s q) = hd (Q q)"
    using is_queue_first [OF queuesD(1) [OF Q q]] ne by simp
  moreover have "remove1 (hd (Q q)) (Q q) = tl (Q q)" using ne by (cases "Q q") auto
  ultimately show thesis
    using getitem_queues [OF Q q, of "hd (Q q)"] ne that
    by (simp add: getfirst_def queuehead_def) metis
qed

lemma getfirst_empty:
  "queues (queuetab s) I Q \<Longrightarrow> q \<in> I \<Longrightarrow> Q q = [] \<Longrightarrow> getfirst q s = (EMPTY, s)"
  using isempty_queue [OF queuesD(1), of s I Q q] by (simp add: getfirst_def)

lemma dequeue_queues:
  assumes Q: "queues (queuetab s) I Q" and q: "q \<in> I" and ne: "Q q \<noteq> []"
  obtains qt' where "dequeue q s = (hd (Q q), s\<lparr>queuetab := qt'\<rparr>)"
    "queues qt' I (Q(q := tl (Q q)))" "\<And>x. qkey (qt' x) = qkey (queuetab s x)"
proof -
  obtain qt1 where 1: "getfirst q s = (hd (Q q), s\<lparr>queuetab := qt1\<rparr>)"
    "queues qt1 I (Q(q := tl (Q q)))" "\<And>x. qkey (qt1 x) = qkey (queuetab s x)"
    using getfirst_queues [OF Q q ne] by blast
  let ?p = "hd (Q q)"
  define qt' where "qt' = qt1(?p := (qt1 ?p)\<lparr>qprev := EMPTY, qnext := EMPTY\<rparr>)"
  have "\<not> isempty s q" using isempty_queue [OF queuesD(1) [OF Q q]] ne by simp
  then have "dequeue q s = (?p, s\<lparr>queuetab := qt'\<rparr>)"
    using 1(1) queuesD(7) [OF Q q] by (simp add: dequeue_def upd_q_state qt'_def Let_def)
  moreover have "?p \<in> set (Q q)" using ne by simp
  then have "?p \<in> {0..<NPROC}" "?p \<notin> on_queues I (Q(q := tl (Q q)))"
    using queuesD(3,4) [OF Q q] queues_eq_queue [OF Q q] ne
    by (fastforce simp: on_queues_def neq_Nil_conv split: if_splits)+
  then have "queues qt' I (Q(q := tl (Q q)))"
    unfolding qt'_def by (intro queues_frame [OF 1(2)])
  moreover have "qkey (qt' x) = qkey (queuetab s x)" for x
    by (simp add: qt'_def 1(3))
  ultimately show thesis using that by blast
qed

subsubsection \<open>Insertion by priority\<close>

lemma insert_scan_queue:
  assumes "is_queue qt q (xs @ ys)" and "MINKEY < key"
  shows "insert_scan qt key (hd (ys @ [q + 1])) = Some (hd (dropWhile (\<lambda>x. key \<le> qkey (qt x)) ys @ [q + 1]))"
  using assms
proof (induction ys arbitrary: xs)
  case Nil
  then show ?case by (simp add: insert_scan.simps is_queue_def)
next
  case (Cons y ys)
  have "insert_scan qt key (hd (ys @ [q + 1])) = Some (hd (dropWhile (\<lambda>x. key \<le> qkey (qt x)) ys @ [q + 1]))"
    using Cons.IH [of "xs @ [y]"] Cons.prems by simp
  then show ?case
    using is_queue_neighbours(2) [OF Cons.prems(1)] by (simp add: insert_scan.simps [of _ _ y])
qed

definition prio_insert :: "(pid32 \<Rightarrow> int) \<Rightarrow> int \<Rightarrow> pid32 \<Rightarrow> pid32 list \<Rightarrow> pid32 list" where
  "prio_insert k key p xs = takeWhile (\<lambda>x. key \<le> k x) xs @ p # dropWhile (\<lambda>x. key \<le> k x) xs"

lemma set_prio_insert [simp]: "set (prio_insert k key p xs) = insert p (set xs)"
  by (simp add: prio_insert_def) (metis set_append takeWhile_dropWhile_id)

lemma insert_queues:
  assumes Q: "queues (queuetab s) I Q" and q: "q \<in> I"
    and pid: "\<not> isbadpid s pid" "pid \<notin> on_queues I Q" and key: "MINKEY < key"
  obtains qt' where "insert_q pid q key s = Some (OK, s\<lparr>queuetab := qt'\<rparr>)"
    "queues qt' I (Q(q := prio_insert (\<lambda>x. qkey (queuetab s x)) key pid (Q q)))"
    "qkey (qt' pid) = key" "\<And>x. x \<noteq> pid \<Longrightarrow> qkey (qt' x) = qkey (queuetab s x)"
proof -
  let ?P = "\<lambda>x. key \<le> qkey (queuetab s x)"
  define xs ys where "xs = takeWhile ?P (Q q)" and "ys = dropWhile ?P (Q q)"
  define p n where "p = last (q # xs)" and "n = hd (ys @ [q + 1])"
  have split: "Q q = xs @ ys" by (simp add: xs_def ys_def)
  note isq = queuesD(1) [OF Q q]
  have range: "pid \<in> {0..<NPROC}" using pid(1) by (auto simp: isbadpid_def)
  have "pid \<notin> set (xs @ ys)" using pid(2) q split by (auto simp: on_queues_def)
  note gap = queue_gap [OF isq [unfolded split] range this p_def n_def]
  have scan: "insert_scan (queuetab s) key (firstid s q) = Some n"
    using insert_scan_queue [of "queuetab s" q "[]" "Q q", OF _ key] isq is_queue_first [OF isq]
    by (simp add: firstid_def queuehead_def ys_def n_def)
  define qt' where "qt' = (queuetab s)(pid := (queuetab s pid)\<lparr>qnext := n, qprev := p, qkey := key\<rparr>,
       p := (queuetab s p)\<lparr>qnext := pid\<rparr>, n := (queuetab s n)\<lparr>qprev := pid\<rparr>)"
  have "insert_q pid q key s = Some (OK, s\<lparr>queuetab := qt'\<rparr>)"
    using queuesD(7) [OF Q q] pid(1) gap(3-6)
    by (simp add: insert_q_def scan upd_q_state qt'_def Let_def)
  moreover have "queues qt' I (Q(q := xs @ pid # ys))"
    by (rule queues_link [OF Q q split range pid(2) p_def n_def])
      (use gap(3-5) range queuesD(5) [OF Q q] in \<open>auto simp: qt'_def\<close>)
  moreover have "qkey (qt' pid) = key" "\<And>x. x \<noteq> pid \<Longrightarrow> qkey (qt' x) = qkey (queuetab s x)"
    using gap(3-5) by (auto simp: qt'_def)
  ultimately show thesis using that by (auto simp: prio_insert_def xs_def ys_def)
qed

text \<open>Insertion keeps a list in descending key order, and puts the process behind its equals.\<close>

definition prio_sorted :: "(pid32 \<Rightarrow> int) \<Rightarrow> pid32 list \<Rightarrow> bool" where
  "prio_sorted k xs \<longleftrightarrow> sorted_wrt (\<lambda>x y. k y \<le> k x) xs"

lemma prio_sorted_cong:
  assumes "\<And>x. x \<in> set xs \<Longrightarrow> k' x = k x"
  shows "prio_sorted k' xs = prio_sorted k xs"
  using assms by (induction xs) (auto simp: prio_sorted_def)

lemma prio_sorted_remove1: "prio_sorted k xs \<Longrightarrow> prio_sorted k (remove1 p xs)"
  by (induction xs) (auto simp: prio_sorted_def dest: notin_set_remove1 [THEN contrapos_nn, rotated])

lemma prio_sorted_insert:
  assumes "prio_sorted k xs" and "p \<notin> set xs" and "k' p = key" and "\<And>x. x \<in> set xs \<Longrightarrow> k' x = k x"
  shows "prio_sorted k' (prio_insert k key p xs)"
  using assms
proof (induction xs)
  case Nil
  then show ?case by (simp add: prio_sorted_def prio_insert_def)
next
  case (Cons x xs)
  show ?case
  proof (cases "key \<le> k x")
    case True
    have "prio_sorted k' (prio_insert k key p xs)"
      using Cons by (auto simp: prio_sorted_def)
    moreover have "\<forall>y \<in> set (prio_insert k key p xs). k' y \<le> k' x"
      using Cons.prems True by (auto simp: prio_sorted_def)
    ultimately show ?thesis using True by (simp add: prio_insert_def prio_sorted_def)
  next
    case False
    have "sorted_wrt (\<lambda>x y. k' y \<le> k' x) (x # xs)"
      by (rule sorted_wrt_mono_rel [of _ "\<lambda>x y. k y \<le> k x"])
        (use Cons.prems in \<open>auto simp: prio_sorted_def\<close>)
    then show ?thesis using Cons.prems False
      by (force simp: prio_insert_def prio_sorted_def)
  qed
qed

subsubsection \<open>Insertion into the delta list\<close>

text \<open>The key of a process on a delta list is relative to its predecessor; \<open>delta_times\<close> gives the
  absolute delays.\<close>

fun delta_times :: "(pid32 \<Rightarrow> int) \<Rightarrow> int \<Rightarrow> pid32 list \<Rightarrow> (pid32 \<times> int) list" where
  "delta_times k acc [] = []"
| "delta_times k acc (x # xs) = (x, acc + k x) # delta_times k (acc + k x) xs"

text \<open>The specification of a timer queue: insert behind all entries that expire no later.\<close>

definition timer_insert :: "pid32 \<Rightarrow> int \<Rightarrow> (pid32 \<times> int) list \<Rightarrow> (pid32 \<times> int) list" where
  "timer_insert p t T = takeWhile (\<lambda>(_, u). u \<le> t) T @ (p, t) # dropWhile (\<lambda>(_, u). u \<le> t) T"

lemma map_fst_delta_times [simp]: "map fst (delta_times k acc xs) = xs"
  by (induction xs arbitrary: acc) auto

lemma length_delta_times [simp]: "length (delta_times k acc xs) = length xs"
  by (induction xs arbitrary: acc) auto

lemma delta_times_append:
  "delta_times k acc (xs @ ys) = delta_times k acc xs @ delta_times k (acc + sum_list (map k xs)) ys"
  by (induction xs arbitrary: acc) (auto simp: add.assoc)

lemma delta_times_cong:
  "(\<And>x. x \<in> set xs \<Longrightarrow> k' x = k x) \<Longrightarrow> delta_times k' acc xs = delta_times k acc xs"
  by (induction xs arbitrary: acc) auto

fun delta_split :: "(pid32 \<Rightarrow> int) \<Rightarrow> int \<Rightarrow> pid32 list \<Rightarrow> int \<times> pid32 list \<times> pid32 list" where
  "delta_split k key [] = (key, [], [])"
| "delta_split k key (x # xs) =
     (if k x \<le> key then (let (r, as, bs) = delta_split k (key - k x) xs in (r, x # as, bs))
      else (key, [], x # xs))"

lemma delta_split_append: "delta_split k key xs = (r, as, bs) \<Longrightarrow> xs = as @ bs"
  by (induction k key xs arbitrary: r as bs rule: delta_split.induct)
    (auto split: if_splits prod.splits)

lemma delta_split_key: "delta_split k key xs = (r, as, bs) \<Longrightarrow> r = key - sum_list (map k as)"
  by (induction k key xs arbitrary: r as bs rule: delta_split.induct)
    (auto split: if_splits prod.splits)

lemma delta_split_times:
  "delta_split k key xs = (r, as, bs) \<Longrightarrow>
   takeWhile (\<lambda>(_, u). u \<le> acc + key) (delta_times k acc xs) = delta_times k acc as \<and>
   dropWhile (\<lambda>(_, u). u \<le> acc + key) (delta_times k acc xs) = delta_times k (acc + sum_list (map k as)) bs"
proof (induction k key xs arbitrary: r as bs acc rule: delta_split.induct)
  case (2 k key x xs)
  show ?case
  proof (cases "k x \<le> key")
    case True
    then obtain as' where "delta_split k (key - k x) xs = (r, as', bs)" "as = x # as'"
      using "2.prems" by (auto split: prod.splits)
    then show ?thesis using "2.IH" [OF True, of r as' bs "acc + k x"] True
      by (simp add: add.assoc add.commute)
  next
    case False
    then show ?thesis using "2.prems" by auto
  qed
qed simp

lemma insertd_scan_queue:
  assumes "is_queue qt q (xs @ ys)"
  shows "insertd_scan qt q key (last (q # xs)) (hd (ys @ [q + 1])) =
     (let (r, as, bs) = delta_split (\<lambda>x. qkey (qt x)) key ys
      in Some (r, last (q # xs @ as), hd (bs @ [q + 1])))"
  using assms
proof (induction ys arbitrary: xs key)
  case Nil
  then show ?case by (simp add: insertd_scan.simps queuetail_def)
next
  case (Cons y ys)
  have "y \<noteq> q + 1" using Cons.prems is_queue_nodes [OF Cons.prems] by auto
  moreover have "qnext (qt y) = hd (ys @ [q + 1])"
    using is_queue_neighbours(2) [OF Cons.prems] .
  ultimately show ?case
    using Cons.IH [of "xs @ [y]" "key - qkey (qt y)"] Cons.prems
    by (auto simp: insertd_scan.simps [of _ _ _ _ y] queuetail_def Let_def split: prod.splits)
qed

lemma insertd_queues:
  assumes Q: "queues (queuetab s) I Q" and q: "q \<in> I"
    and pid: "\<not> isbadpid s pid" "pid \<notin> on_queues I Q"
  obtains qt' xs' where "insertd pid q key s = Some (OK, s\<lparr>queuetab := qt'\<rparr>)"
    "queues qt' I (Q(q := xs'))"
    "delta_times (\<lambda>x. qkey (qt' x)) 0 xs' = timer_insert pid key (delta_times (\<lambda>x. qkey (queuetab s x)) 0 (Q q))"
    "\<And>x. x \<notin> insert pid (set (Q q)) \<Longrightarrow> qkey (qt' x) = qkey (queuetab s x)"
proof -
  let ?k = "\<lambda>x. qkey (queuetab s x)"
  obtain r xs ys where ds: "delta_split ?k key (Q q) = (r, xs, ys)" by (metis prod_cases3)
  note split = delta_split_append [OF ds] and isq = queuesD(1) [OF Q q]
  define p n where "p = last (q # xs)" and "n = hd (ys @ [q + 1])"
  have range: "pid \<in> {0..<NPROC}" using pid(1) by (auto simp: isbadpid_def)
  have fresh: "pid \<notin> set (xs @ ys)" using pid(2) q split by (auto simp: on_queues_def)
  note gap = queue_gap [OF isq [unfolded split] range fresh p_def n_def]
    and nodes = is_queue_nodes [OF isq, unfolded split]
  have scan: "insertd_scan (queuetab s) q key q (qnext (queuetab s q)) = Some (r, p, n)"
    using insertd_scan_queue [of "queuetab s" q "[]" "Q q" key] isq is_queue_first [OF isq] ds
    by (simp add: p_def n_def)
  have n: "n = q + 1 \<longleftrightarrow> ys = []" "n \<noteq> q"
    using nodes by (cases ys; auto simp: n_def)+
  define dk where "dk e = (if n = q + 1 then e else e\<lparr>qkey := qkey e - r\<rparr>)" for e :: qentry
  have dk: "qnext (dk e) = qnext e" "qprev (dk e) = qprev e" "qkey (dk e) = qkey e - (if n = q + 1 then 0 else r)" for e
    by (simp_all add: dk_def)
  define qt' where "qt' = (queuetab s)(pid := (queuetab s pid)\<lparr>qnext := n, qprev := p, qkey := r\<rparr>,
       p := (queuetab s p)\<lparr>qnext := pid\<rparr>, n := dk ((queuetab s n)\<lparr>qprev := pid\<rparr>))"
  have "insertd pid q key s = Some (OK, s\<lparr>queuetab := qt'\<rparr>)"
    using queuesD(7) [OF Q q] pid(1) gap(3-5)
    by (simp add: insertd_def scan queuehead_def queuetail_def upd_q_state qt'_def dk_def Let_def)
  moreover have "queues qt' I (Q(q := xs @ pid # ys))"
    by (rule queues_link [OF Q q split range pid(2) p_def n_def])
      (use gap(3-5) n(2) range queuesD(5) [OF Q q] in \<open>auto simp: qt'_def dk\<close>)
  moreover have "qkey (qt' pid) = r" and xs: "\<And>x. x \<in> set xs \<Longrightarrow> qkey (qt' x) = ?k x"
    using gap(1-5) nodes fresh by (auto simp: qt'_def)
  moreover have ys: "delta_times (\<lambda>x. qkey (qt' x)) (acc + r) ys = delta_times ?k acc ys" for acc
  proof (cases ys)
    case (Cons y zs)
    have "delta_times (\<lambda>x. qkey (qt' x)) acc zs = delta_times ?k acc zs" for acc
      using fresh gap(1-5) nodes Cons by (intro delta_times_cong) (auto simp: qt'_def n_def)
    moreover have "qkey (qt' y) = ?k y - r" using Cons n gap(3) by (simp add: qt'_def dk n_def)
    ultimately show ?thesis using Cons by simp
  qed simp
  moreover have "(\<Sum>x\<leftarrow>xs. qkey (qt' x)) = sum_list (map ?k xs)"
    using xs by (simp cong: map_cong)
  moreover have "delta_times (\<lambda>x. qkey (qt' x)) 0 xs = delta_times ?k 0 xs"
    by (rule delta_times_cong) (rule xs)
  ultimately have "delta_times (\<lambda>x. qkey (qt' x)) 0 (xs @ pid # ys) = timer_insert pid key (delta_times ?k 0 (Q q))"
    using delta_split_times [OF ds, of 0] delta_split_key [OF ds]
      ys [of "sum_list (map ?k xs)"]
    by (simp add: timer_insert_def delta_times_append)
  moreover have "qkey (qt' x) = ?k x" if "x \<notin> insert pid (set (Q q))" for x
    using that gap(2) split n by (auto simp: qt'_def dk)
  ultimately show thesis
    using that \<open>insertd pid q key s = _\<close> \<open>queues qt' I _\<close> by blast
qed

subsubsection \<open>Creating a queue\<close>

lemma newqueue_queues:
  assumes Q: "queues (queuetab s) I Q" and q: "nextqid s \<notin> I" "even (nextqid s)"
    "NPROC \<le> nextqid s" "nextqid s < NQENT - 1"
  obtains qt' where "newqueue s = (nextqid s, s\<lparr>nextqid := nextqid s + 2, queuetab := qt'\<rparr>)"
    "queues qt' (insert (nextqid s) I) (Q(nextqid s := []))"
proof -
  let ?q = "nextqid s"
  define qt' where "qt' = (queuetab s)(?q := \<lparr>qkey = MAXKEY, qnext = ?q + 1, qprev = EMPTY\<rparr>,
      ?q + 1 := \<lparr>qkey = MINKEY, qnext = EMPTY, qprev = ?q\<rparr>)"
  have "newqueue s = (?q, s\<lparr>nextqid := ?q + 2, queuetab := qt'\<rparr>)"
    using q by (simp add: newqueue_def Let_def upd_q_state queuehead_def queuetail_def qt'_def
        fun_eq_iff)
  moreover have "is_queue qt' ?q []" using q by (simp add: is_queue_def qt'_def)
  moreover have "is_queue qt' r (Q r)" if r: "r \<in> I" for r
  proof -
    have "r \<noteq> ?q + 1" "r + 1 \<noteq> ?q" using queuesD(2) [OF Q r] q(2) by presburger+
    then have "is_queue qt' r (Q r) = is_queue (queuetab s) r (Q r)"
      using r q queuesD(4) [OF Q r] by (intro is_queue_cong) (auto simp: qt'_def)
    then show ?thesis using queuesD(1) [OF Q r] by simp
  qed
  ultimately show thesis using that Q q by (auto simp: queues_def)
qed

text \<open>The overflow test of \<open>newqueue\<close> compares with \<open>>\<close>: with the table full it hands out the
  index \<open>NQENT\<close>, one past the last entry, which every queue operation rejects.\<close>

lemma newqueue_overflow:
  assumes "nextqid s = NQENT"
  shows "fst (newqueue s) = NQENT \<and> isbadqid (fst (newqueue s)) \<and>
         queuetab (snd (newqueue s)) NQENT = \<lparr>qkey = MAXKEY, qnext = NQENT + 1, qprev = EMPTY\<rparr>"
  using assms by (simp add: newqueue_def Let_def isbadqid_def queuehead_def queuetail_def)

subsection \<open>A process queue is a FIFO queue\<close>

definition pq_rep :: "qid16 set \<Rightarrow> qid16 \<Rightarrow> 'a kstate_scheme \<Rightarrow> pid32 list \<Rightarrow> pid32 set \<Rightarrow> bool" where
  "pq_rep I q s xs F \<longleftrightarrow>
     q \<in> I \<and> (\<exists>Q. queues (queuetab s) I Q \<and> Q q = xs \<and> F = {p. \<not> isbadpid s p} - on_queues I Q)"

lemma enqueue_rep:
  assumes "pq_rep I q s xs F" and "p \<in> F"
  shows "pq_rep I q (snd (enqueue p q s)) (xs @ [p]) (F - {p})"
proof -
  from assms obtain Q where Q: "q \<in> I" "queues (queuetab s) I Q" "Q q = xs" "F = {p. \<not> isbadpid s p} - on_queues I Q"
    by (auto simp: pq_rep_def)
  then obtain qt' where "enqueue p q s = (p, s\<lparr>queuetab := qt'\<rparr>)" "queues qt' I (Q(q := Q q @ [p]))"
    using enqueue_queues [OF Q(2,1)] assms(2) by (metis Diff_iff mem_Collect_eq)
  moreover have "on_queues I (Q(q := Q q @ [p])) = insert p (on_queues I Q)"
    using Q(1) by (auto simp: on_queues_def split: if_splits)
  ultimately show ?thesis using Q
    by (auto simp: pq_rep_def isbadpid_def intro!: exI [of _ "Q(q := Q q @ [p])"])
qed

lemma dequeue_rep:
  assumes "pq_rep I q s (p # xs) F"
  obtains s' F' where "dequeue q s = (p, s')" "F \<subseteq> F'" "pq_rep I q s' xs F'"
proof -
  from assms obtain Q where Q: "q \<in> I" "queues (queuetab s) I Q" "Q q = p # xs" "F = {p. \<not> isbadpid s p} - on_queues I Q"
    by (auto simp: pq_rep_def)
  then obtain qt' where d: "dequeue q s = (p, s\<lparr>queuetab := qt'\<rparr>)" "queues qt' I (Q(q := xs))"
    using dequeue_queues [OF Q(2,1)] by auto
  let ?F' = "{p. \<not> isbadpid s p} - on_queues I (Q(q := xs))"
  have "F \<subseteq> ?F'" using Q(3,4) by (auto simp: on_queues_def split: if_splits)
  moreover have "pq_rep I q (s\<lparr>queuetab := qt'\<rparr>) xs ?F'"
    using Q(1) d(2) by (auto simp: pq_rep_def isbadpid_def intro!: exI [of _ "Q(q := xs)"])
  ultimately show thesis using that d(1) by blast
qed

interpretation pq: fifo "\<lambda>p s. snd (enqueue p q s)" "\<lambda>s. Some (dequeue q s)" "pq_rep I q" for I q
proof
  fix s :: "'a kstate_scheme" and xs F p
  assume "pq_rep I q s xs F" "p \<in> F"
  then show "\<exists>F'. F - {p} \<subseteq> F' \<and> pq_rep I q (snd (enqueue p q s)) (xs @ [p]) F'" using enqueue_rep by blast
next
  fix s :: "'a kstate_scheme" and xs F p
  assume "pq_rep I q s (p # xs) F"
  then show "\<exists>s' F'. Some (dequeue q s) = Some (p, s') \<and> F \<subseteq> F' \<and> pq_rep I q s' xs F'"
    using dequeue_rep by (metis option.inject)
qed

end
