(* ===== verification/Scheduler.thy ===== *)
theory Scheduler
  imports Queues
begin

section \<open>Scheduling: resched, ready, resume, suspend, priorities\<close>

text \<open>
  system/resched.c, ready.c, resume.c, suspend.c, yield.c, chprio.c, getprio.c, getpid.c.
  \<open>ctxsw\<close> exchanges the machine registers, which the model does not carry: after \<open>resched\<close>
  the process \<open>currpid\<close> is the one that executes, with its page directory in \<open>cr3\<close>. What a
  suspended caller still does when it is dispatched again is a definition of its own where it
  has an effect or a result (\<open>suspend_return\<close>).
\<close>

text \<open>The second half of \<open>resched\<close>: dispatch the head of the ready list.\<close>

definition resched_switch :: "'a kstate_scheme \<Rightarrow> 'a kstate_scheme" where
  "resched_switch s =
     (let (pid, s) = dequeue (readylist s) s;
          s = s\<lparr>currpid := pid\<rparr>;
          s = upd_proc pid (\<lambda>p. p\<lparr>prstate := PR_CURR\<rparr>) s;
          s = s\<lparr>preempt := QUANTUM\<rparr>
      in s\<lparr>cr3 := prpd (proctab s pid)\<rparr>)"

definition resched :: "'a kstate_scheme \<Rightarrow> 'a kstate_scheme option" where
  "resched s =
     (if ndefers s > 0 then Some (s\<lparr>attempt := True\<rparr>)
      else if prstate (proctab s (currpid s)) = PR_CURR then
        if prprio (proctab s (currpid s)) > firstkey s (readylist s) then Some s
        else do {
          let s = upd_proc (currpid s) (\<lambda>p. p\<lparr>prstate := PR_READY\<rparr>) s;
          (_, s) \<leftarrow> insert_q (currpid s) (readylist s) (prprio (proctab s (currpid s))) s;
          Some (resched_switch s)
        }
      else Some (resched_switch s))"

abbreviation (input) DEFER_START :: int where "DEFER_START \<equiv> 1"
abbreviation (input) DEFER_STOP :: int where "DEFER_STOP \<equiv> 2"

definition resched_cntl :: "int \<Rightarrow> 'a kstate_scheme \<Rightarrow> (int \<times> 'a kstate_scheme) option" where
  "resched_cntl defer s =
     (if defer = DEFER_START then
        (let s' = s\<lparr>ndefers := ndefers s + 1\<rparr>
         in Some (OK, if ndefers s = 0 then s'\<lparr>attempt := False\<rparr> else s'))
      else if defer = DEFER_STOP then
        (if ndefers s \<le> 0 then Some (SYSERR, s)
         else let s = s\<lparr>ndefers := ndefers s - 1\<rparr> in
              if ndefers s = 0 \<and> attempt s then do { s \<leftarrow> resched s; Some (OK, s) }
              else Some (OK, s))
      else Some (SYSERR, s))"

definition ready :: "pid32 \<Rightarrow> 'a kstate_scheme \<Rightarrow> (int \<times> 'a kstate_scheme) option" where
  "ready pid s =
     (if isbadpid s pid then Some (SYSERR, s)
      else do {
        let s = upd_proc pid (\<lambda>p. p\<lparr>prstate := PR_READY\<rparr>) s;
        (_, s) \<leftarrow> insert_q pid (readylist s) (prprio (proctab s pid)) s;
        s \<leftarrow> resched s;
        Some (OK, s)
      })"

definition resume :: "pid32 \<Rightarrow> 'a kstate_scheme \<Rightarrow> (int \<times> 'a kstate_scheme) option" where
  "resume pid s =
     (if isbadpid s pid then Some (SYSERR, s)
      else if prstate (proctab s pid) \<noteq> PR_SUSP then Some (SYSERR, s)
      else do {
        let prio = prprio (proctab s pid);
        (_, s) \<leftarrow> ready pid s;
        Some (prio, s)
      })"

text \<open>\<open>suspend\<close> reads the priority it returns when it is back in control: at once when it
  suspended another process, and after the caller was resumed (\<open>suspend_return\<close>) when it
  suspended itself; in the second case there is no value yet, unless rescheduling is deferred and
  \<open>resched\<close> returned to the caller.\<close>

definition suspend_return :: "pid32 \<Rightarrow> 'a kstate_scheme \<Rightarrow> int" where
  "suspend_return pid s = prprio (proctab s pid)"

definition suspend :: "pid32 \<Rightarrow> 'a kstate_scheme \<Rightarrow> (int option \<times> 'a kstate_scheme) option" where
  "suspend pid s =
     (if isbadpid s pid \<or> pid = NULLPROC then Some (Some SYSERR, s)
      else if prstate (proctab s pid) \<noteq> PR_CURR \<and> prstate (proctab s pid) \<noteq> PR_READY
      then Some (Some SYSERR, s)
      else if prstate (proctab s pid) = PR_READY then
        (let (_, s) = getitem pid s;
             s = upd_proc pid (\<lambda>p. p\<lparr>prstate := PR_SUSP\<rparr>) s
         in Some (Some (suspend_return pid s), s))
      else do {
        let s = upd_proc pid (\<lambda>p. p\<lparr>prstate := PR_SUSP\<rparr>) s;
        s \<leftarrow> resched s;
        Some (if ndefers s > 0 then Some (suspend_return pid s) else None, s)
      })"

definition yield :: "'a kstate_scheme \<Rightarrow> (int \<times> 'a kstate_scheme) option" where
  "yield s = do { s \<leftarrow> resched s; Some (OK, s) }"

definition chprio :: "pid32 \<Rightarrow> int \<Rightarrow> 'a kstate_scheme \<Rightarrow> int \<times> 'a kstate_scheme" where
  "chprio pid newprio s =
     (if isbadpid s pid then (SYSERR, s)
      else let oldprio = prprio (proctab s pid)
           in (oldprio, upd_proc pid (\<lambda>p. p\<lparr>prprio := newprio\<rparr>) s))"

definition getprio :: "pid32 \<Rightarrow> 'a kstate_scheme \<Rightarrow> int" where
  "getprio pid s = (if isbadpid s pid then SYSERR else prprio (proctab s pid))"

definition getpid :: "'a kstate_scheme \<Rightarrow> pid32" where
  "getpid s = currpid s"

end
