(* ===== verification/Semaphores.thy ===== *)
theory Semaphores
  imports Scheduler
begin

section \<open>Counting semaphores\<close>

text \<open>
  system/wait.c, signal.c, signaln.c, semcreate.c, semdelete.c, semreset.c, semcount.c over the
  table of include/semaphore.h. A negative count \<open>-n\<close> means that \<open>n\<close> processes wait on the queue
  of the semaphore.
\<close>

definition wait :: "sid32 \<Rightarrow> 'a kstate_scheme \<Rightarrow> (int \<times> 'a kstate_scheme) option" where
  "wait sem s =
     (if isbadsem sem then Some (SYSERR, s)
      else if sstate (semtab s sem) = S_FREE then Some (SYSERR, s)
      else let s = upd_sem sem (\<lambda>e. e\<lparr>scount := scount e - 1\<rparr>) s in
           if scount (semtab s sem) < 0 then do {
             let s = upd_proc (currpid s) (\<lambda>p. p\<lparr>prstate := PR_WAIT\<rparr>) s;
             let s = upd_proc (currpid s) (\<lambda>p. p\<lparr>prsem := sem\<rparr>) s;
             let (_, s) = enqueue (currpid s) (squeue (semtab s sem)) s;
             s \<leftarrow> resched s;
             Some (OK, s)
           }
           else Some (OK, s))"

definition signal :: "sid32 \<Rightarrow> 'a kstate_scheme \<Rightarrow> (int \<times> 'a kstate_scheme) option" where
  "signal sem s =
     (if isbadsem sem then Some (SYSERR, s)
      else if sstate (semtab s sem) = S_FREE then Some (SYSERR, s)
      else let c = scount (semtab s sem);
               s = upd_sem sem (\<lambda>e. e\<lparr>scount := scount e + 1\<rparr>) s in
           if c < 0 then do {
             let (pid, s) = dequeue (squeue (semtab s sem)) s;
             (_, s) \<leftarrow> ready pid s;
             Some (OK, s)
           }
           else Some (OK, s))"

fun signaln_loop :: "sid32 \<Rightarrow> nat \<Rightarrow> 'a kstate_scheme \<Rightarrow> 'a kstate_scheme option" where
  "signaln_loop sem 0 s = Some s"
| "signaln_loop sem (Suc count) s =
     (let c = scount (semtab s sem);
          s = upd_sem sem (\<lambda>e. e\<lparr>scount := scount e + 1\<rparr>) s in
      if c < 0 then do {
        let (pid, s) = dequeue (squeue (semtab s sem)) s;
        (_, s) \<leftarrow> ready pid s;
        signaln_loop sem count s
      }
      else signaln_loop sem count s)"

definition signaln :: "sid32 \<Rightarrow> int \<Rightarrow> 'a kstate_scheme \<Rightarrow> (int \<times> 'a kstate_scheme) option" where
  "signaln sem count s =
     (if isbadsem sem \<or> count < 0 then Some (SYSERR, s)
      else if sstate (semtab s sem) = S_FREE then Some (SYSERR, s)
      else do {
        (_, s) \<leftarrow> resched_cntl DEFER_START s;
        s \<leftarrow> signaln_loop sem (nat count) s;
        (_, s) \<leftarrow> resched_cntl DEFER_STOP s;
        Some (OK, s)
      })"

fun newsem_loop :: "nat \<Rightarrow> 'a kstate_scheme \<Rightarrow> sid32 \<times> 'a kstate_scheme" where
  "newsem_loop 0 s = (SYSERR, s)"
| "newsem_loop (Suc i) s =
     (let sem = nextsem s;
          s = s\<lparr>nextsem := nextsem s + 1\<rparr>;
          s = (if nextsem s \<ge> NSEM then s\<lparr>nextsem := 0\<rparr> else s) in
      if sstate (semtab s sem) = S_FREE then (sem, upd_sem sem (\<lambda>e. e\<lparr>sstate := S_USED\<rparr>) s)
      else newsem_loop i s)"

definition newsem :: "'a kstate_scheme \<Rightarrow> sid32 \<times> 'a kstate_scheme" where
  "newsem s = newsem_loop (nat NSEM) s"

definition semcreate :: "int \<Rightarrow> 'a kstate_scheme \<Rightarrow> sid32 \<times> 'a kstate_scheme" where
  "semcreate count s =
     (if count < 0 then (SYSERR, s)
      else let (sem, s) = newsem s in
           if sem = SYSERR then (SYSERR, s)
           else (sem, upd_sem sem (\<lambda>e. e\<lparr>scount := count\<rparr>) s))"

partial_function (option) semdelete_loop :: "sid32 \<Rightarrow> 'a kstate_scheme \<Rightarrow> 'a kstate_scheme option" where
  "semdelete_loop sem s =
     (let c = scount (semtab s sem);
          s = upd_sem sem (\<lambda>e. e\<lparr>scount := scount e + 1\<rparr>) s in
      if c < 0 then do {
        (_, s) \<leftarrow> (let (pid, s) = getfirst (squeue (semtab s sem)) s in ready pid s);
        semdelete_loop sem s
      }
      else Some s)"

definition semdelete :: "sid32 \<Rightarrow> 'a kstate_scheme \<Rightarrow> (int \<times> 'a kstate_scheme) option" where
  "semdelete sem s =
     (if isbadsem sem then Some (SYSERR, s)
      else if sstate (semtab s sem) = S_FREE then Some (SYSERR, s)
      else do {
        let s = upd_sem sem (\<lambda>e. e\<lparr>sstate := S_FREE\<rparr>) s;
        (_, s) \<leftarrow> resched_cntl DEFER_START s;
        s \<leftarrow> semdelete_loop sem s;
        (_, s) \<leftarrow> resched_cntl DEFER_STOP s;
        Some (OK, s)
      })"

partial_function (option) semreset_loop :: "qid16 \<Rightarrow> 'a kstate_scheme \<Rightarrow> 'a kstate_scheme option" where
  "semreset_loop semqueue s =
     (if fst (getfirst semqueue s) \<noteq> EMPTY then do {
        (_, s) \<leftarrow> (let (pid, s) = getfirst semqueue s in ready pid s);
        semreset_loop semqueue s
      }
      else Some (snd (getfirst semqueue s)))"

definition semreset :: "sid32 \<Rightarrow> int \<Rightarrow> 'a kstate_scheme \<Rightarrow> (int \<times> 'a kstate_scheme) option" where
  "semreset sem count s =
     (if count < 0 \<or> isbadsem sem \<or> sstate (semtab s sem) = S_FREE then Some (SYSERR, s)
      else do {
        let semqueue = squeue (semtab s sem);
        (_, s) \<leftarrow> resched_cntl DEFER_START s;
        s \<leftarrow> semreset_loop semqueue s;
        let s = upd_sem sem (\<lambda>e. e\<lparr>scount := count\<rparr>) s;
        (_, s) \<leftarrow> resched_cntl DEFER_STOP s;
        Some (OK, s)
      })"

definition semcount :: "sid32 \<Rightarrow> 'a kstate_scheme \<Rightarrow> int" where
  "semcount semid s =
     (if isbadsem semid \<or> sstate (semtab s semid) = S_FREE then SYSERR else scount (semtab s semid))"

end
