(* ===== verification/Sleep_Clock.thy ===== *)
theory Sleep_Clock
  imports Semaphores
begin

section \<open>Timed delay and the clock interrupt\<close>

text \<open>
  system/sleep.c, unsleep.c, wakeup.c, clkhandler.c and the kernel variables of clkinit.c
  (programming the 8254 timer chip and installing the interrupt vector are I/O and not
  modelled). The sleep queue is a delta list ordered by \<open>insertd\<close>. \<open>count1000\<close> and \<open>preempt\<close> are
  unsigned, so the tests \<open>--x <= 0\<close> of the handler hold only at zero.
\<close>

definition sleepms :: "u32 \<Rightarrow> 'a kstate_scheme \<Rightarrow> (int \<times> 'a kstate_scheme) option" where
  "sleepms delay s =
     (if delay = 0 then do { (_, s) \<leftarrow> yield s; Some (OK, s) }
      else do {
        (r, s) \<leftarrow> insertd (currpid s) (sleepq s) (sint delay) s;
        if r = SYSERR then Some (SYSERR, s)
        else do {
          let s = upd_proc (currpid s) (\<lambda>p. p\<lparr>prstate := PR_SLEEP\<rparr>) s;
          s \<leftarrow> resched s;
          Some (OK, s)
        }
      })"

abbreviation (input) MAXSECONDS :: u32 where "MAXSECONDS \<equiv> 4294967"

definition sleep :: "u32 \<Rightarrow> 'a kstate_scheme \<Rightarrow> (int \<times> 'a kstate_scheme) option" where
  "sleep delay s =
     (if delay > MAXSECONDS then Some (SYSERR, s)
      else do { (_, s) \<leftarrow> sleepms (1000 * delay) s; Some (OK, s) })"

definition unsleep :: "pid32 \<Rightarrow> 'a kstate_scheme \<Rightarrow> int \<times> 'a kstate_scheme" where
  "unsleep pid s =
     (if isbadpid s pid then (SYSERR, s)
      else if prstate (proctab s pid) \<noteq> PR_SLEEP \<and> prstate (proctab s pid) \<noteq> PR_RECTIM
      then (SYSERR, s)
      else let pidnext = qnext (queuetab s pid);
               s = (if pidnext < NPROC
                    then upd_q pidnext (\<lambda>e. e\<lparr>qkey := qkey e + qkey (queuetab s pid)\<rparr>) s else s);
               (_, s) = getitem pid s
           in (OK, s))"

partial_function (option) wakeup_loop :: "'a kstate_scheme \<Rightarrow> 'a kstate_scheme option" where
  "wakeup_loop s =
     (if nonempty s (sleepq s) \<and> firstkey s (sleepq s) \<le> 0 then do {
        (_, s) \<leftarrow> (let (pid, s) = dequeue (sleepq s) s in ready pid s);
        wakeup_loop s
      }
      else Some s)"

definition wakeup :: "'a kstate_scheme \<Rightarrow> 'a kstate_scheme option" where
  "wakeup s = do {
     (_, s) \<leftarrow> resched_cntl DEFER_START s;
     s \<leftarrow> wakeup_loop s;
     (_, s) \<leftarrow> resched_cntl DEFER_STOP s;
     Some s
   }"

text \<open>When \<open>wakeup\<close> gives the processor away, the rest of the handler, the test of the time slice, runs in the same step
  here; on the machine it waits until the interrupted process is dispatched again.\<close>

definition clkhandler :: "'a kstate_scheme \<Rightarrow> 'a kstate_scheme option" where
  "clkhandler s = do {
     let s = s\<lparr>myglobalclock := myglobalclock s + 1\<rparr>;
     let s = s\<lparr>count1000 := count1000 s - 1\<rparr>;
     let s = (if count1000 s \<le> 0
              then let s = s\<lparr>clktime := clktime s + 1\<rparr> in s\<lparr>count1000 := 1000\<rparr> else s);
     s \<leftarrow> (if \<not> isempty s (sleepq s)
          then let s = upd_q (firstid s (sleepq s)) (\<lambda>e. e\<lparr>qkey := qkey e - 1\<rparr>) s in
               if qkey (queuetab s (firstid s (sleepq s))) \<le> 0 then wakeup s else Some s
          else Some s);
     let s = s\<lparr>preempt := preempt s - 1\<rparr>;
     if preempt s \<le> 0 then let s = s\<lparr>preempt := QUANTUM\<rparr> in resched s
     else Some s
   }"

definition clkinit :: "'a kstate_scheme \<Rightarrow> 'a kstate_scheme" where
  "clkinit s =
     (let (q, s) = newqueue s;
          s = s\<lparr>sleepq := q\<rparr>;
          s = s\<lparr>preempt := QUANTUM\<rparr>;
          s = s\<lparr>clktime := 0\<rparr>
      in s\<lparr>myglobalclock := 0\<rparr>)"

end
