(* ===== verification/Messages.thy ===== *)
theory Messages
  imports Sleep_Clock
begin

section \<open>Message passing\<close>

text \<open>
  system/send.c, receive.c, recvclr.c, recvtime.c: one-word messages with a one-message buffer
  per process. \<open>receive\<close> and \<open>recvtime\<close> may give up the processor half-way: the value \<open>None\<close>
  says that the caller is blocked, and \<open>receive_cont\<close>, \<open>recvtime_cont\<close> are what it executes
  when it is dispatched again (at once when rescheduling is deferred, as \<open>resched\<close> then
  returns to the caller).
\<close>

definition send :: "pid32 \<Rightarrow> u32 \<Rightarrow> 'a kstate_scheme \<Rightarrow> (int \<times> 'a kstate_scheme) option" where
  "send pid msg s =
     (if isbadpid s pid then Some (SYSERR, s)
      else if prstate (proctab s pid) = PR_FREE \<or> prhasmsg (proctab s pid) then Some (SYSERR, s)
      else let s = upd_proc pid (\<lambda>p. p\<lparr>prmsg := msg\<rparr>) s;
               s = upd_proc pid (\<lambda>p. p\<lparr>prhasmsg := True\<rparr>) s in
           if prstate (proctab s pid) = PR_RECV then do { (_, s) \<leftarrow> ready pid s; Some (OK, s) }
           else if prstate (proctab s pid) = PR_RECTIM then do {
             let (_, s) = unsleep pid s;
             (_, s) \<leftarrow> ready pid s;
             Some (OK, s)
           }
           else Some (OK, s))"

text \<open>\<open>prptr\<close> is fixed before the processor is given away, so the continuation takes the process.\<close>

definition receive_cont :: "pid32 \<Rightarrow> 'a kstate_scheme \<Rightarrow> u32 \<times> 'a kstate_scheme" where
  "receive_cont pid s =
     (let msg = prmsg (proctab s pid) in (msg, upd_proc pid (\<lambda>p. p\<lparr>prhasmsg := False\<rparr>) s))"

definition receive :: "'a kstate_scheme \<Rightarrow> (u32 option \<times> 'a kstate_scheme) option" where
  "receive s =
     (if \<not> prhasmsg (proctab s (currpid s)) then do {
        let s = upd_proc (currpid s) (\<lambda>p. p\<lparr>prstate := PR_RECV\<rparr>) s;
        s \<leftarrow> resched s;
        if ndefers s > 0 then let (msg, s) = receive_cont (currpid s) s in Some (Some msg, s)
        else Some (None, s)
      }
      else let (msg, s) = receive_cont (currpid s) s in Some (Some msg, s))"

definition recvclr :: "'a kstate_scheme \<Rightarrow> u32 \<times> 'a kstate_scheme" where
  "recvclr s =
     (if prhasmsg (proctab s (currpid s))
      then let msg = prmsg (proctab s (currpid s))
           in (msg, upd_proc (currpid s) (\<lambda>p. p\<lparr>prhasmsg := False\<rparr>) s)
      else (1, s))"

definition recvtime_cont :: "pid32 \<Rightarrow> 'a kstate_scheme \<Rightarrow> u32 \<times> 'a kstate_scheme" where
  "recvtime_cont pid s =
     (if prhasmsg (proctab s pid)
      then let msg = prmsg (proctab s pid)
           in (msg, upd_proc pid (\<lambda>p. p\<lparr>prhasmsg := False\<rparr>) s)
      else (word_of_int TIMEOUT, s))"

definition recvtime :: "int \<Rightarrow> 'a kstate_scheme \<Rightarrow> (u32 option \<times> 'a kstate_scheme) option" where
  "recvtime maxwait s =
     (if maxwait < 0 then Some (Some SYSERR32, s)
      else if \<not> prhasmsg (proctab s (currpid s)) then do {
        (r, s) \<leftarrow> insertd (currpid s) (sleepq s) maxwait s;
        if r = SYSERR then Some (Some SYSERR32, s)
        else do {
          let s = upd_proc (currpid s) (\<lambda>p. p\<lparr>prstate := PR_RECTIM\<rparr>) s;
          s \<leftarrow> resched s;
          if ndefers s > 0 then let (msg, s) = recvtime_cont (currpid s) s in Some (Some msg, s)
          else Some (None, s)
        }
      }
      else let (msg, s) = recvtime_cont (currpid s) s in Some (Some msg, s))"

end
