(* ===== verification/Kernel_Inv.thy ===== *)
theory Kernel_Inv
  imports Messages
begin

section \<open>The invariant of the process manager\<close>

text \<open>
  Every process is in exactly the place its state says: a ready process on the ready list, a
  sleeping one on the sleep queue, a waiting one on the queue of its semaphore, every other
  process on no queue; the ready list is in priority order; the count of a semaphore tells how
  many processes wait on it; exactly one process is current, and the null process is always
  ready or current. \<open>kok X s Q\<close> is the part that also holds in the middle of a call, while the
  processes of \<open>X\<close> are off all queues; \<open>kinv\<close> is the invariant between calls.
\<close>

definition qheads :: "'a kstate_scheme \<Rightarrow> qid16 set" where
  "qheads s = insert (readylist s) (insert (sleepq s) ((\<lambda>i. squeue (semtab s i)) ` {0..<NSEM}))"

definition heads_ok :: "'a kstate_scheme \<Rightarrow> bool" where
  "heads_ok s \<longleftrightarrow> readylist s \<noteq> sleepq s \<and> inj_on (\<lambda>i. squeue (semtab s i)) {0..<NSEM} \<and>
     (\<forall>i\<in>{0..<NSEM}. squeue (semtab s i) \<noteq> readylist s \<and> squeue (semtab s i) \<noteq> sleepq s)"

text \<open>The queue a process belongs on.\<close>

definition home :: "'a kstate_scheme \<Rightarrow> pid32 \<Rightarrow> qid16 option" where
  "home s p = (case prstate (proctab s p) of
       PR_READY \<Rightarrow> Some (readylist s)
     | PR_SLEEP \<Rightarrow> Some (sleepq s)
     | PR_RECTIM \<Rightarrow> Some (sleepq s)
     | PR_WAIT \<Rightarrow> Some (squeue (semtab s (prsem (proctab s p))))
     | _ \<Rightarrow> None)"

definition kok :: "pid32 set \<Rightarrow> 'a kstate_scheme \<Rightarrow> (qid16 \<Rightarrow> pid32 list) \<Rightarrow> bool" where
  "kok X s Q \<longleftrightarrow>
     heads_ok s \<and> queues (queuetab s) (qheads s) Q \<and>
     (\<forall>p\<in>{0..<NPROC}. \<forall>q\<in>qheads s. p \<in> set (Q q) \<longleftrightarrow> p \<notin> X \<and> home s p = Some q) \<and>
     (\<forall>p\<in>{0..<NPROC} - X. prstate (proctab s p) = PR_WAIT \<longrightarrow> prsem (proctab s p) \<in> {0..<NSEM}) \<and>
     (\<forall>p\<in>{0..<NPROC}. prstate (proctab s p) = PR_CURR \<longrightarrow> p = currpid s) \<and>
     prio_sorted (\<lambda>p. qkey (queuetab s p)) (Q (readylist s)) \<and>
     (\<forall>p. - 32768 \<le> prprio (proctab s p) \<and> prprio (proctab s p) \<le> 32767) \<and>
     prstate (proctab s NULLPROC) \<in> {PR_READY, PR_CURR} \<and> NULLPROC \<notin> X \<and>
     currpid s \<in> {0..<NPROC}"

definition counts_ok :: "(sid32 \<Rightarrow> sentry) \<Rightarrow> (qid16 \<Rightarrow> pid32 list) \<Rightarrow> bool" where
  "counts_ok st Q \<longleftrightarrow> (\<forall>i\<in>{0..<NSEM}. int (length (Q (squeue (st i)))) =
     (if sstate (st i) = S_USED then max 0 (- scount (st i)) else 0))"

definition kinv :: "'a kstate_scheme \<Rightarrow> bool" where
  "kinv s \<longleftrightarrow> (\<exists>Q. kok {} s Q \<and> counts_ok (semtab s) Q) \<and>
     prstate (proctab s (currpid s)) = PR_CURR \<and> ndefers s = 0"

lemma kok_cong:
  assumes "proctab s' = proctab s" "queuetab s' = queuetab s" "readylist s' = readylist s"
    "sleepq s' = sleepq s" "currpid s' = currpid s" "\<And>i. squeue (semtab s' i) = squeue (semtab s i)"
  shows "kok X s' Q = kok X s Q"
proof -
  have "home s' = home s" "qheads s' = qheads s" "heads_ok s' = heads_ok s"
    using assms by (auto simp: fun_eq_iff home_def qheads_def heads_ok_def split: prstate.split)
  then show ?thesis using assms by (simp add: kok_def)
qed

lemma kokD:
  assumes "kok X s Q"
  shows "heads_ok s" "queues (queuetab s) (qheads s) Q" "currpid s \<in> {0..<NPROC}"
    "prstate (proctab s NULLPROC) \<in> {PR_READY, PR_CURR}" "NULLPROC \<notin> X"
    "prio_sorted (\<lambda>p. qkey (queuetab s p)) (Q (readylist s))"
    "- 32768 \<le> prprio (proctab s p)" "prprio (proctab s p) \<le> 32767"
    "p \<in> {0..<NPROC} \<Longrightarrow> prstate (proctab s p) = PR_CURR \<Longrightarrow> p = currpid s"
    "p \<in> {0..<NPROC} \<Longrightarrow> p \<notin> X \<Longrightarrow> prstate (proctab s p) = PR_WAIT \<Longrightarrow> prsem (proctab s p) \<in> {0..<NSEM}"
  using assms by (auto simp: kok_def)

lemma kok_on:
  assumes "kok X s Q" and "p \<in> {0..<NPROC}" and "q \<in> qheads s"
  shows "p \<in> set (Q q) \<longleftrightarrow> p \<notin> X \<and> home s p = Some q"
  using assms by (auto simp: kok_def)

lemma qheads_mem [simp]:
  "readylist s \<in> qheads s" "sleepq s \<in> qheads s" "i \<in> {0..<NSEM} \<Longrightarrow> squeue (semtab s i) \<in> qheads s"
  "0 \<le> i \<Longrightarrow> i < NSEM \<Longrightarrow> squeue (semtab s i) \<in> qheads s"
  by (auto simp: qheads_def)

lemma kok_mem:
  assumes "kok X s Q" and "q \<in> qheads s" and "p \<in> set (Q q)"
  shows "p \<in> {0..<NPROC}" "p \<notin> X" "home s p = Some q"
proof -
  show "p \<in> {0..<NPROC}" using queuesD(4) [OF kokD(2) [OF assms(1)] assms(2)] assms(3) by auto
  then show "p \<notin> X" "home s p = Some q" using kok_on [OF assms(1) _ assms(2)] assms(3) by auto
qed

lemma kok_not_on:
  assumes "kok X s Q" and "p \<in> X"
  shows "p \<notin> on_queues (qheads s) Q"
  using kok_mem(2) [OF assms(1)] assms(2) by (auto simp: on_queues_def)

lemma home_None_not_on:
  assumes "kok X s Q" and "home s p = None"
  shows "p \<notin> on_queues (qheads s) Q"
  using kok_mem(3) [OF assms(1)] assms(2) by (fastforce simp: on_queues_def)

lemma ready_list_set:
  assumes "kok X s Q"
  shows "set (Q (readylist s)) = {p \<in> {0..<NPROC} - X. prstate (proctab s p) = PR_READY}"
proof -
  have "home s p = Some (readylist s) \<longleftrightarrow> prstate (proctab s p) = PR_READY"
    if "p \<in> {0..<NPROC}" "p \<notin> X" for p
    using kokD(10) [OF assms that] kokD(1) [OF assms]
    by (auto simp: home_def heads_ok_def split: prstate.splits)
  then show ?thesis
    using kok_mem [OF assms qheads_mem(1)] kok_on [OF assms _ qheads_mem(1)] by blast
qed

subsection \<open>Moving one process\<close>

text \<open>Every operation of the process manager changes the place of one process \<open>h\<close> at a time.\<close>

lemma kok_move:
  assumes K: "kok X s Q"
    and same: "readylist s' = readylist s" "sleepq s' = sleepq s"
      "\<And>i. squeue (semtab s' i) = squeue (semtab s i)"
    and others: "\<And>p. p \<noteq> h \<Longrightarrow> prstate (proctab s' p) = prstate (proctab s p)"
      "\<And>p. p \<noteq> h \<Longrightarrow> prsem (proctab s' p) = prsem (proctab s p)"
      "\<And>p. prprio (proctab s' p) = prprio (proctab s p)"
    and Q': "queues (queuetab s') (qheads s) Q'"
    and mem: "\<And>p q. q \<in> qheads s \<Longrightarrow> p \<noteq> h \<Longrightarrow> p \<in> set (Q' q) \<longleftrightarrow> p \<in> set (Q q)"
    and memh: "\<And>q. q \<in> qheads s \<Longrightarrow> h \<in> {0..<NPROC} \<Longrightarrow> h \<in> set (Q' q) \<longleftrightarrow> h \<notin> X' \<and> home s' h = Some q"
    and X': "X' - {h} = X - {h}" "h \<noteq> NULLPROC \<or> h \<notin> X'"
    and h: "h \<notin> X' \<Longrightarrow> prstate (proctab s' h) = PR_WAIT \<Longrightarrow> prsem (proctab s' h) \<in> {0..<NSEM}"
      "prstate (proctab s' h) = PR_CURR \<Longrightarrow> h = currpid s'"
      "h = NULLPROC \<Longrightarrow> prstate (proctab s' h) \<in> {PR_READY, PR_CURR}"
    and curr: "\<And>p. p \<noteq> h \<Longrightarrow> p \<in> {0..<NPROC} \<Longrightarrow> prstate (proctab s p) = PR_CURR \<Longrightarrow> p = currpid s'"
      "currpid s' \<in> {0..<NPROC}"
    and srt: "prio_sorted (\<lambda>p. qkey (queuetab s' p)) (Q' (readylist s))"
  shows "kok X' s' Q'"
proof -
  have heads: "qheads s' = qheads s" using same by (simp add: qheads_def)
  have home: "home s' p = home s p" if "p \<noteq> h" for p
    using others(1,2) [OF that] same by (simp add: home_def split: prstate.split)
  have X: "p \<in> X' \<longleftrightarrow> p \<in> X" if "p \<noteq> h" for p using X'(1) that by blast
  have on: "p \<in> set (Q' q) \<longleftrightarrow> p \<notin> X' \<and> home s' p = Some q"
    if "p \<in> {0..<NPROC}" "q \<in> qheads s'" for p q
    using that mem memh kok_on [OF K] home X unfolding heads by (cases "p = h") auto
  have wait: "prsem (proctab s' p) \<in> {0..<NSEM}"
    if "p \<in> {0..<NPROC} - X'" "prstate (proctab s' p) = PR_WAIT" for p
    using that others(1,2) [of p] X [of p] h(1) kokD(10) [OF K, of p] by (cases "p = h") auto
  have cur: "p = currpid s'" if "p \<in> {0..<NPROC}" "prstate (proctab s' p) = PR_CURR" for p
    using that others(1) [of p] h(2) curr(1) by (cases "p = h") auto
  have null: "prstate (proctab s' NULLPROC) \<in> {PR_READY, PR_CURR}" "NULLPROC \<notin> X'"
    using h(3) others(1) [of NULLPROC] kokD(4,5) [OF K] X [of NULLPROC] X'(2) by fastforce+
  have "heads_ok s'" using kokD(1) [OF K] same by (simp add: heads_ok_def)
  then show ?thesis
    using Q' on wait cur null curr(2) srt kokD(7,8) [OF K] others(3) same(1)
    unfolding kok_def heads by auto
qed

lemma remove1_mem: "distinct xs \<Longrightarrow> p \<in> set (remove1 h xs) \<longleftrightarrow> p \<noteq> h \<and> p \<in> set xs"
  by auto

subsection \<open>resched\<close>

lemma resched_switch_kok:
  assumes K: "kok {} s Q" and nc: "prstate (proctab s (currpid s)) \<noteq> PR_CURR"
  obtains h qs qt' where "Q (readylist s) = h # qs"
    "resched_switch s = s\<lparr>proctab := (proctab s)(h := (proctab s h)\<lparr>prstate := PR_CURR\<rparr>),
        queuetab := qt', currpid := h, preempt := QUANTUM, cr3 := prpd (proctab s h)\<rparr>"
    "kok {} (resched_switch s) (Q(readylist s := qs))"
    "\<And>x. qkey (qt' x) = qkey (queuetab s x)"
proof -
  note QS = kokD(2) [OF K]
  have "prstate (proctab s NULLPROC) = PR_READY"
    using kokD(4) [OF K] kokD(9) [OF K, of NULLPROC] nc by auto
  then have "NULLPROC \<in> set (Q (readylist s))" using ready_list_set [OF K] by auto
  then obtain h qs where hq: "Q (readylist s) = h # qs" by (cases "Q (readylist s)") auto
  obtain qt' where dq: "dequeue (readylist s) s = (h, s\<lparr>queuetab := qt'\<rparr>)"
    "queues qt' (qheads s) (Q(readylist s := qs))" "\<And>x. qkey (qt' x) = qkey (queuetab s x)"
    using dequeue_queues [OF QS qheads_mem(1)] hq by auto
  let ?s' = "s\<lparr>proctab := (proctab s)(h := (proctab s h)\<lparr>prstate := PR_CURR\<rparr>),
        queuetab := qt', currpid := h, preempt := QUANTUM, cr3 := prpd (proctab s h)\<rparr>"
  have eq: "resched_switch s = ?s'"
    by (rule kstate.equality) (simp_all add: resched_switch_def dq(1) upd_proc_def Let_def)
  have h: "h \<in> {0..<NPROC}" "h \<notin> set qs"
    using queuesD(3,4) [OF QS qheads_mem(1)] hq by auto
  have only: "h \<notin> set (Q q)" if "q \<in> qheads s" "q \<noteq> readylist s" for q
    using queues_eq_queue [OF QS that(1) qheads_mem(1), of h] that(2) hq by auto
  have "kok {} ?s' (Q(readylist s := qs))"
  proof (rule kok_move [OF K, where h = h])
    show "prio_sorted (\<lambda>p. qkey (queuetab ?s' p)) ((Q(readylist s := qs)) (readylist s))"
      using kokD(6) [OF K] hq dq(3) by (simp add: prio_sorted_def)
  qed (use dq(2) hq h only kokD(9) [OF K] nc in \<open>auto simp: home_def split: if_splits\<close>)
  then show thesis using that hq eq dq(3) by metis
qed

text \<open>The process that runs now goes back on the ready list.\<close>

lemma insert_ready_kok:
  assumes K: "kok X s Q" and p: "p \<in> {0..<NPROC}" "p \<notin> on_queues (qheads s) Q"
    and st: "prstate (proctab s p) \<noteq> PR_FREE" and X: "X \<subseteq> {p}"
  defines "s1 \<equiv> upd_proc p (\<lambda>e. e\<lparr>prstate := PR_READY\<rparr>) s"
  obtains qt' where "insert_q p (readylist s) (prprio (proctab s p)) s1 = Some (OK, s1\<lparr>queuetab := qt'\<rparr>)"
    "kok {} (s1\<lparr>queuetab := qt'\<rparr>)
       (Q(readylist s := prio_insert (\<lambda>x. qkey (queuetab s x)) (prprio (proctab s p)) p (Q (readylist s))))"
    "qkey (qt' p) = prprio (proctab s p)" "\<And>x. x \<noteq> p \<Longrightarrow> qkey (qt' x) = qkey (queuetab s x)"
proof -
  let ?prio = "prprio (proctab s p)"
  let ?xs = "prio_insert (\<lambda>x. qkey (queuetab s x)) ?prio p (Q (readylist s))"
  have QS: "queues (queuetab s1) (qheads s) Q" using kokD(2) [OF K] by (simp add: s1_def)
  have "\<not> isbadpid s1 p" using p by (simp add: s1_def isbadpid_def)
  moreover have "MINKEY < ?prio" using kokD(7) [OF K, of p] by linarith
  ultimately obtain qt' where ins:
    "insert_q p (readylist s) ?prio s1 = Some (OK, s1\<lparr>queuetab := qt'\<rparr>)"
    "queues qt' (qheads s) (Q(readylist s := ?xs))"
    "qkey (qt' p) = ?prio" "\<And>x. x \<noteq> p \<Longrightarrow> qkey (qt' x) = qkey (queuetab s x)"
    using insert_queues [OF QS qheads_mem(1), of p ?prio] p(2) by (auto simp: s1_def)
  have pr: "p \<notin> set (Q (readylist s))" using p(2) by (auto simp: on_queues_def)
  have keys: "qkey (qt' x) = qkey (queuetab s x)" if "x \<in> set (Q (readylist s))" for x
    using that pr by (intro ins(4)) auto
  have "kok {} (s1\<lparr>queuetab := qt'\<rparr>) (Q(readylist s := ?xs))"
  proof (rule kok_move [OF K, where h = p])
    show "prio_sorted (\<lambda>x. qkey (queuetab (s1\<lparr>queuetab := qt'\<rparr>) x)) ((Q(readylist s := ?xs)) (readylist s))"
      using ins(3) pr keys by (auto intro!: prio_sorted_insert [OF kokD(6) [OF K]])
    show "p \<in> set ((Q(readylist s := ?xs)) q) \<longleftrightarrow> p \<notin> {} \<and> home (s1\<lparr>queuetab := qt'\<rparr>) p = Some q"
      if "q \<in> qheads s" for q
      using p(2) that by (auto simp: on_queues_def home_def s1_def)
  qed (use ins(2) K p X kokD [OF K] in \<open>auto simp: s1_def split: if_splits\<close>)
  then show thesis using that ins by blast
qed

definition same_but_state :: "(pid32 \<Rightarrow> procent) \<Rightarrow> (pid32 \<Rightarrow> procent) \<Rightarrow> bool" where
  "same_but_state pt pt' \<longleftrightarrow> (\<forall>p. pt' p = (pt p)\<lparr>prstate := prstate (pt' p)\<rparr>) \<and>
     (\<forall>p. prstate (pt p) \<notin> {PR_CURR, PR_READY} \<longrightarrow> pt' p = pt p) \<and>
     (\<forall>p. prstate (pt p) \<in> {PR_CURR, PR_READY} \<longrightarrow> prstate (pt' p) \<in> {PR_CURR, PR_READY})"

lemma resched_kok:
  assumes K: "kok {} s Q" and nd: "ndefers s = 0"
  obtains pt' qt' c pe cr xs where
    "resched s = Some (s\<lparr>proctab := pt', queuetab := qt', currpid := c, preempt := pe, cr3 := cr\<rparr>)"
    "kok {} (s\<lparr>proctab := pt', queuetab := qt', currpid := c, preempt := pe, cr3 := cr\<rparr>) (Q(readylist s := xs))"
    "prstate (pt' c) = PR_CURR" "same_but_state (proctab s) pt'"
    "\<And>x. x \<noteq> currpid s \<Longrightarrow> qkey (qt' x) = qkey (queuetab s x)"
proof (cases "prstate (proctab s (currpid s)) = PR_CURR")
  case False
  obtain h qs qt' where hq: "Q (readylist s) = h # qs"
    and sw: "resched_switch s = s\<lparr>proctab := (proctab s)(h := (proctab s h)\<lparr>prstate := PR_CURR\<rparr>),
        queuetab := qt', currpid := h, preempt := QUANTUM, cr3 := prpd (proctab s h)\<rparr>"
    and K': "kok {} (resched_switch s) (Q(readylist s := qs))"
    and key: "\<And>x. qkey (qt' x) = qkey (queuetab s x)"
    using resched_switch_kok [OF K False] by blast
  have "prstate (proctab s h) = PR_READY" using ready_list_set [OF K] hq by auto
  then have "same_but_state (proctab s) ((proctab s)(h := (proctab s h)\<lparr>prstate := PR_CURR\<rparr>))"
    by (auto simp: same_but_state_def)
  moreover have "resched s = Some (resched_switch s)" using nd False by (simp add: resched_def)
  ultimately show thesis using that K' key unfolding sw by simp
next
  case True
  let ?c = "currpid s" and ?prio = "prprio (proctab s (currpid s))"
  show thesis
  proof (cases "?prio > firstkey s (readylist s)")
    case stay: True
    show thesis
      using that [of "cr3 s" "preempt s" ?c "queuetab s" "proctab s" "Q (readylist s)"] True stay K nd
      by (simp add: resched_def same_but_state_def)
  next
    case False
    have c: "?c \<in> {0..<NPROC}" "?c \<notin> on_queues (qheads s) Q"
      using kokD(3) [OF K] home_None_not_on [OF K] True by (simp_all add: home_def)
    let ?s1 = "upd_proc ?c (\<lambda>e. e\<lparr>prstate := PR_READY\<rparr>) s"
    obtain qt1 where ins: "insert_q ?c (readylist s) ?prio ?s1 = Some (OK, ?s1\<lparr>queuetab := qt1\<rparr>)"
      and K1: "kok {} (?s1\<lparr>queuetab := qt1\<rparr>)
         (Q(readylist s := prio_insert (\<lambda>x. qkey (queuetab s x)) ?prio ?c (Q (readylist s))))"
      and key1: "\<And>x. x \<noteq> ?c \<Longrightarrow> qkey (qt1 x) = qkey (queuetab s x)"
      using insert_ready_kok [OF K c] True by (metis prstate.distinct(1) empty_subsetI)
    let ?s2 = "?s1\<lparr>queuetab := qt1\<rparr>"
    obtain h qs qt' where hq: "(Q(readylist s := prio_insert (\<lambda>x. qkey (queuetab s x)) ?prio ?c (Q (readylist s))))
          (readylist ?s2) = h # qs"
      and sw: "resched_switch ?s2 = ?s2\<lparr>proctab := (proctab ?s2)(h := (proctab ?s2 h)\<lparr>prstate := PR_CURR\<rparr>),
          queuetab := qt', currpid := h, preempt := QUANTUM, cr3 := prpd (proctab ?s2 h)\<rparr>"
      and K': "kok {} (resched_switch ?s2) ((Q(readylist s := prio_insert (\<lambda>x. qkey (queuetab s x)) ?prio ?c (Q (readylist s))))
          (readylist ?s2 := qs))"
      and key: "\<And>x. qkey (qt' x) = qkey (queuetab ?s2 x)"
      using resched_switch_kok [OF K1] by auto
    have "prstate (proctab ?s2 h) = PR_READY"
      using ready_list_set [OF K1] hq by (auto simp del: fun_upd_apply)
    then have same: "same_but_state (proctab s) ((proctab ?s2)(h := (proctab ?s2 h)\<lparr>prstate := PR_CURR\<rparr>))"
      using True by (auto simp: same_but_state_def)
    have sw': "resched_switch ?s2 = s\<lparr>proctab := (proctab ?s2)(h := (proctab ?s2 h)\<lparr>prstate := PR_CURR\<rparr>),
          queuetab := qt', currpid := h, preempt := QUANTUM, cr3 := prpd (proctab ?s2 h)\<rparr>"
      unfolding sw by (rule kstate.equality) simp_all
    have eq: "resched s = Some (resched_switch ?s2)"
      using nd True False ins by (simp add: resched_def)
    have K2: "kok {} (resched_switch ?s2) (Q(readylist s := qs))" using K' by simp
    have "qkey (qt' x) = qkey (queuetab s x)" if "x \<noteq> ?c" for x
      using key key1 [OF that] by simp
    then show thesis by (intro that [OF eq [unfolded sw'] K2 [unfolded sw'] _ same]) auto
  qed
qed

subsection \<open>ready\<close>

text \<open>What scheduling leaves alone: everything but the process states, the queues, the current
  process and its time slice.\<close>

definition kframe :: "'a kstate_scheme \<Rightarrow> 'a kstate_scheme \<Rightarrow> bool" where
  "kframe s s' \<longleftrightarrow> nextqid s' = nextqid s \<and> semtab s' = semtab s \<and> nextsem s' = nextsem s \<and>
     prcount s' = prcount s \<and> readylist s' = readylist s \<and> sleepq s' = sleepq s \<and>
     ndefers s' = ndefers s \<and> clktime s' = clktime s \<and> count1000 s' = count1000 s \<and>
     myglobalclock s' = myglobalclock s \<and> kstate.more s' = kstate.more s"

lemma kframe_refl [simp]: "kframe s s"
  by (simp add: kframe_def)

lemma kframe_trans: "kframe s t \<Longrightarrow> kframe t u \<Longrightarrow> kframe s u"
  by (simp add: kframe_def)

lemma kframeD:
  assumes "kframe s s'"
  shows "semtab s' = semtab s" "readylist s' = readylist s" "sleepq s' = sleepq s"
    "ndefers s' = ndefers s" "qheads s' = qheads s"
  using assms by (auto simp: kframe_def qheads_def)

lemma counts_ok_ready [simp]:
  assumes "heads_ok s"
  shows "counts_ok (semtab s) (Q(readylist s := xs)) = counts_ok (semtab s) Q"
  using assms by (auto simp: counts_ok_def heads_ok_def)

lemma heads_ok_cong:
  "kframe s s' \<Longrightarrow> heads_ok s' = heads_ok s"
  by (simp add: kframe_def heads_ok_def)

text \<open>\<open>resched\<close> as the last step of a call: it re-establishes the invariant from any state in which
  all processes are in place.\<close>

lemma resched_kinv_Q:
  assumes "kok {} s Q" and "ndefers s = 0" and "counts_ok (semtab s) Q"
  obtains s' xs where "resched s = Some s'" "kinv s'" "kframe s s'" "same_but_state (proctab s) (proctab s')"
    "kok {} s' (Q(readylist s := xs))" "\<And>x. x \<noteq> currpid s \<Longrightarrow> qkey (queuetab s' x) = qkey (queuetab s x)"
proof -
  from assms(1,2) obtain pt' qt' c pe cr xs where
    r: "resched s = Some (s\<lparr>proctab := pt', queuetab := qt', currpid := c, preempt := pe, cr3 := cr\<rparr>)"
    "kok {} (s\<lparr>proctab := pt', queuetab := qt', currpid := c, preempt := pe, cr3 := cr\<rparr>) (Q(readylist s := xs))"
    "prstate (pt' c) = PR_CURR" "same_but_state (proctab s) pt'"
    "\<And>x. x \<noteq> currpid s \<Longrightarrow> qkey (qt' x) = qkey (queuetab s x)"
    by (rule resched_kok) blast
  let ?s' = "s\<lparr>proctab := pt', queuetab := qt', currpid := c, preempt := pe, cr3 := cr\<rparr>"
  have "counts_ok (semtab s) (Q(readylist s := xs))"
    using assms(3) kokD(1) [OF assms(1)] by simp
  then have "kinv ?s'" "kframe s ?s'" using r(2,3) assms(2) by (auto simp: kinv_def kframe_def)
  then show thesis using that [OF r(1)] r(2,4,5) by simp
qed

lemma resched_kinv:
  assumes "kok {} s Q" and "ndefers s = 0" and "counts_ok (semtab s) Q"
  obtains s' where "resched s = Some s'" "kinv s'" "kframe s s'" "same_but_state (proctab s) (proctab s')"
  using resched_kinv_Q [OF assms] by metis

text \<open>What \<open>resched\<close> chooses: it stays with the current process when that has a higher priority than
  every ready one, and dispatches a ready process of the highest key otherwise.\<close>

lemma resched_switch_choice:
  assumes K: "kok {} s Q" and nc: "prstate (proctab s (currpid s)) \<noteq> PR_CURR" and s': "s' = resched_switch s"
  shows "preempt s' = QUANTUM \<and> cr3 s' = prpd (proctab s' (currpid s')) \<and>
    (\<forall>p. 0 \<le> p \<and> p < NPROC \<and> prstate (proctab s' p) = PR_READY \<longrightarrow>
       qkey (queuetab s' p) \<le> qkey (queuetab s' (currpid s')))"
proof -
  obtain h qs qt' where hq: "Q (readylist s) = h # qs"
    and sw: "resched_switch s = s\<lparr>proctab := (proctab s)(h := (proctab s h)\<lparr>prstate := PR_CURR\<rparr>),
        queuetab := qt', currpid := h, preempt := QUANTUM, cr3 := prpd (proctab s h)\<rparr>"
    and K': "kok {} (resched_switch s) (Q(readylist s := qs))" and key: "\<And>x. qkey (qt' x) = qkey (queuetab s x)"
    using resched_switch_kok [OF K nc] by blast
  have "qkey (queuetab s' p) \<le> qkey (queuetab s' (currpid s'))"
    if "0 \<le> p" "p < NPROC" "prstate (proctab s' p) = PR_READY" for p
  proof -
    have "p \<in> set qs" using ready_list_set [OF K'] that unfolding s' sw by auto
    then show ?thesis using kokD(6) [OF K] hq unfolding s' sw by (simp add: key prio_sorted_def)
  qed
  then show ?thesis unfolding s' sw by simp
qed

lemma resched_stay_choice:
  assumes K: "kok {} s Q" and st: "prprio (proctab s (currpid s)) > firstkey s (readylist s)"
    and p: "p \<in> {0..<NPROC}" "prstate (proctab s p) = PR_READY"
  shows "qkey (queuetab s p) < prprio (proctab s (currpid s))"
proof -
  have mem: "p \<in> set (Q (readylist s))" using ready_list_set [OF K] p by auto
  then obtain h qs where hq: "Q (readylist s) = h # qs" by (cases "Q (readylist s)") auto
  have "firstid s (readylist s) = h"
    using is_queue_first [OF queuesD(1) [OF kokD(2) [OF K] qheads_mem(1)]] hq by (simp add: firstid_def queuehead_def)
  moreover have "qkey (queuetab s p) \<le> qkey (queuetab s h)" using kokD(6) [OF K] mem hq by (auto simp: prio_sorted_def)
  ultimately show ?thesis using st by (simp add: firstkey_def)
qed

lemma resched_choice:
  assumes K: "kok {} s Q" and nd: "ndefers s = 0" and c: "prstate (proctab s (currpid s)) = PR_CURR"
    and r: "resched s = Some s'"
  shows "s' = s \<and> (\<forall>p. 0 \<le> p \<and> p < NPROC \<and> prstate (proctab s p) = PR_READY \<longrightarrow>
            qkey (queuetab s p) < prprio (proctab s (currpid s))) \<or>
    preempt s' = QUANTUM \<and> cr3 s' = prpd (proctab s' (currpid s')) \<and>
    (\<forall>p. 0 \<le> p \<and> p < NPROC \<and> prstate (proctab s' p) = PR_READY \<longrightarrow>
       qkey (queuetab s' p) \<le> qkey (queuetab s' (currpid s')))"
proof (cases "prprio (proctab s (currpid s)) > firstkey s (readylist s)")
  case True
  then have "s' = s" using r nd c by (simp add: resched_def)
  then show ?thesis using resched_stay_choice [OF K True] by auto
next
  case False
  let ?c = "currpid s" and ?s1 = "upd_proc (currpid s) (\<lambda>e. e\<lparr>prstate := PR_READY\<rparr>) s"
  have off: "?c \<notin> on_queues (qheads s) Q" using home_None_not_on [OF K] c by (simp add: home_def)
  obtain qt1 where ins: "insert_q ?c (readylist s) (prprio (proctab s ?c)) ?s1 = Some (OK, ?s1\<lparr>queuetab := qt1\<rparr>)"
    and K1: "kok {} (?s1\<lparr>queuetab := qt1\<rparr>)
       (Q(readylist s := prio_insert (\<lambda>x. qkey (queuetab s x)) (prprio (proctab s ?c)) ?c (Q (readylist s))))"
    using insert_ready_kok [OF K kokD(3) [OF K] off] c by (metis prstate.distinct(1) empty_subsetI)
  let ?s2 = "?s1\<lparr>queuetab := qt1\<rparr>"
  have s': "s' = resched_switch ?s2" using r nd c False ins by (simp add: resched_def)
  show ?thesis by (rule disjI2 [OF resched_switch_choice [OF K1 _ s']]) simp
qed

lemma ready_kinv:
  assumes K: "kok X s Q" and p: "p \<in> {0..<NPROC}" "p \<notin> on_queues (qheads s) Q"
    "prstate (proctab s p) \<noteq> PR_FREE" and X: "X \<subseteq> {p}" and nd: "ndefers s = 0" and cnt: "counts_ok (semtab s) Q"
  obtains s' where "ready p s = Some (OK, s')" "kinv s'" "kframe s s'"
    "same_but_state ((proctab s)(p := (proctab s p)\<lparr>prstate := PR_READY\<rparr>)) (proctab s')"
proof -
  let ?s1 = "upd_proc p (\<lambda>e. e\<lparr>prstate := PR_READY\<rparr>) s"
  let ?xs = "prio_insert (\<lambda>x. qkey (queuetab s x)) (prprio (proctab s p)) p (Q (readylist s))"
  obtain qt' where ins: "insert_q p (readylist s) (prprio (proctab s p)) ?s1 = Some (OK, ?s1\<lparr>queuetab := qt'\<rparr>)"
    and K': "kok {} (?s1\<lparr>queuetab := qt'\<rparr>) (Q(readylist s := ?xs))"
    using insert_ready_kok [OF K p X] by blast
  have "counts_ok (semtab (?s1\<lparr>queuetab := qt'\<rparr>)) (Q(readylist s := ?xs))"
    using counts_ok_ready [OF kokD(1) [OF K]] cnt by simp
  then obtain s' where r: "resched (?s1\<lparr>queuetab := qt'\<rparr>) = Some s'" "kinv s'"
    "kframe (?s1\<lparr>queuetab := qt'\<rparr>) s'" "same_but_state (proctab (?s1\<lparr>queuetab := qt'\<rparr>)) (proctab s')"
    using resched_kinv [OF K'] nd by auto
  have "ready p s = Some (OK, s')"
    using p ins r(1) by (simp add: ready_def isbadpid_def)
  moreover have "kframe s s'" using r(3) by (simp add: kframe_def)
  ultimately show thesis using that r(2,4) by simp
qed

text \<open>Inside a deferral \<open>ready\<close> only records the attempt.\<close>

lemma ready_deferred:
  assumes K: "kok X s Q" and p: "p \<in> {0..<NPROC}" "p \<notin> on_queues (qheads s) Q"
    "prstate (proctab s p) \<noteq> PR_FREE" and X: "X \<subseteq> {p}" and nd: "ndefers s > 0"
  obtains qt' xs where "ready p s = Some (OK, (upd_proc p (\<lambda>e. e\<lparr>prstate := PR_READY\<rparr>) s)\<lparr>queuetab := qt', attempt := True\<rparr>)"
    "kok {} ((upd_proc p (\<lambda>e. e\<lparr>prstate := PR_READY\<rparr>) s)\<lparr>queuetab := qt', attempt := True\<rparr>) (Q(readylist s := xs))"
    "\<And>x. x \<noteq> p \<Longrightarrow> qkey (qt' x) = qkey (queuetab s x)"
proof -
  let ?s1 = "upd_proc p (\<lambda>e. e\<lparr>prstate := PR_READY\<rparr>) s"
  let ?xs = "prio_insert (\<lambda>x. qkey (queuetab s x)) (prprio (proctab s p)) p (Q (readylist s))"
  obtain qt' where ins: "insert_q p (readylist s) (prprio (proctab s p)) ?s1 = Some (OK, ?s1\<lparr>queuetab := qt'\<rparr>)"
    "kok {} (?s1\<lparr>queuetab := qt'\<rparr>) (Q(readylist s := ?xs))"
    "\<And>x. x \<noteq> p \<Longrightarrow> qkey (qt' x) = qkey (queuetab s x)"
    using insert_ready_kok [OF K p X] by blast
  have "ready p s = Some (OK, ?s1\<lparr>queuetab := qt', attempt := True\<rparr>)"
    using p ins(1) nd by (simp add: ready_def isbadpid_def resched_def)
  moreover have "kok {} (?s1\<lparr>queuetab := qt', attempt := True\<rparr>) (Q(readylist s := ?xs))"
    using ins(2) kok_cong [of "?s1\<lparr>queuetab := qt', attempt := True\<rparr>" "?s1\<lparr>queuetab := qt'\<rparr>"] by simp
  ultimately show thesis using that ins(3) by blast
qed

end
