(* ===== verification/Kernel_Steps.thy ===== *)
theory Kernel_Steps
  imports Kernel_Inv
begin

section \<open>Every call returns and keeps the invariant\<close>

text \<open>
  For each call of the process manager: from a state that satisfies \<open>kinv\<close> it returns (no search
  loop runs away, although \<open>insert\<close>, \<open>semreset\<close>, \<open>semdelete\<close> and \<open>wakeup\<close> have loops with no bound
  of their own) and it leaves a state that satisfies \<open>kinv\<close>. The calls that may block the
  caller are for processes other than the null process, as the comment on \<open>nulluser\<close> in
  system/initialize.c demands.
\<close>

subsection \<open>Changes that keep the processes in place\<close>

lemma kinvE:
  assumes "kinv s"
  obtains Q where "kok {} s Q" "counts_ok (semtab s) Q" "prstate (proctab s (currpid s)) = PR_CURR"
    "ndefers s = 0" "currpid s \<in> {0..<NPROC}" "currpid s \<notin> on_queues (qheads s) Q"
proof -
  from assms obtain Q where Q: "kok {} s Q" "counts_ok (semtab s) Q" "prstate (proctab s (currpid s)) = PR_CURR"
    "ndefers s = 0" by (auto simp: kinv_def)
  moreover have "currpid s \<notin> on_queues (qheads s) Q"
    using home_None_not_on [OF Q(1)] Q(3) by (simp add: home_def)
  ultimately show thesis using that kokD(3) by blast
qed

lemma home_queuetab [simp]:
  "home (upd_q i g s) = home s" "home (s\<lparr>queuetab := qt\<rparr>) = home s"
  by (auto simp: home_def fun_eq_iff split: prstate.split)

lemma qheads_queuetab [simp]:
  "qheads (upd_q i g s) = qheads s" "qheads (s\<lparr>queuetab := qt\<rparr>) = qheads s" "qheads (upd_proc p f s) = qheads s"
  by (simp_all add: qheads_def)

lemma upd_proc_twice: "upd_proc p f (upd_proc p g s) = upd_proc p (\<lambda>e. f (g e)) s"
  by (simp add: upd_proc_def)

lemma queues_key:
  assumes "x \<in> {0..<NPROC}"
  shows "queues (qt(x := (qt x)\<lparr>qkey := k\<rparr>)) I Q = queues qt I Q"
proof -
  have "is_queue (qt(x := (qt x)\<lparr>qkey := k\<rparr>)) q xs = is_queue qt q xs" for q xs
  proof -
    have "dll (qt(x := (qt x)\<lparr>qkey := k\<rparr>)) (q # xs @ [q + 1]) = dll qt (q # xs @ [q + 1])"
      by (rule dll_cong) auto
    then show ?thesis using assms by (auto simp: is_queue_def)
  qed
  then show ?thesis by (simp add: queues_def)
qed

lemma kok_key:
  assumes K: "kok X s Q" and x: "x \<in> {0..<NPROC}" "x \<notin> set (Q (readylist s))"
  shows "kok X (upd_q x (\<lambda>e. e\<lparr>qkey := k e\<rparr>) s) Q"
proof -
  let ?s' = "upd_q x (\<lambda>e. e\<lparr>qkey := k e\<rparr>) s"
  show ?thesis
  proof (rule kok_move [OF K, where h = x])
    show "queues (queuetab ?s') (qheads s) Q" using queues_key [OF x(1)] kokD(2) [OF K] by simp
    show "prio_sorted (\<lambda>p. qkey (queuetab ?s' p)) (Q (readylist s))"
      using kokD(6) [OF K] x(2) by (subst prio_sorted_cong) auto
  qed (use K x kok_on [OF K x(1)] kokD [OF K] in auto)
qed

lemma kok_same_place:
  assumes K: "kok X s Q" and f: "prstate (f (proctab s p)) = prstate (proctab s p)"
    "prsem (f (proctab s p)) = prsem (proctab s p)"
    "- 32768 \<le> prprio (f (proctab s p))" "prprio (f (proctab s p)) \<le> 32767"
  shows "kok X (upd_proc p f s) Q"
proof -
  have "home (upd_proc p f s) = home s"
    using f(1,2) by (auto simp: fun_eq_iff home_def split: prstate.split)
  moreover have "qheads (upd_proc p f s) = qheads s" "heads_ok (upd_proc p f s) = heads_ok s"
    by (simp_all add: qheads_def heads_ok_def)
  ultimately show ?thesis using K f unfolding kok_def by auto
qed

text \<open>A process on no queue that enters a state with no queue.\<close>

lemma kok_off:
  assumes K: "kok {} s Q" and p: "p \<in> {0..<NPROC}" "p \<noteq> NULLPROC" "home s p = None"
    and f: "prstate (f (proctab s p)) \<in> {PR_FREE, PR_RECV, PR_SUSP}" "prprio (f (proctab s p)) = prprio (proctab s p)"
  shows "kok {} (upd_proc p f s) Q"
proof (rule kok_move [OF K, where h = p])
  show "prio_sorted (\<lambda>x. qkey (queuetab (upd_proc p f s) x)) (Q (readylist s))"
    using kokD(6) [OF K] by simp
qed (use K p f kok_on [OF K p(1)] kokD [OF K] in \<open>auto simp: home_def split: prstate.splits\<close>)

text \<open>A process leaves its queue, or a process that is off all queues enters one.\<close>

lemma kok_leave:
  assumes K: "kok {} s Q" and q: "q \<in> qheads s" "p \<in> set (Q q)" "p \<noteq> NULLPROC"
    and qt': "queues qt' (qheads s) (Q(q := remove1 p (Q q)))" "\<And>x. qkey (qt' x) = qkey (queuetab s x)"
  shows "kok {p} (s\<lparr>queuetab := qt'\<rparr>) (Q(q := remove1 p (Q q)))"
proof -
  note QS = kokD(2) [OF K]
  have d: "distinct (Q q)" using queuesD(3) [OF QS q(1)] .
  have only: "p \<notin> set (Q r)" if "r \<in> qheads s" "r \<noteq> q" for r
    using queues_eq_queue [OF QS that(1) q(1), of p] that(2) q(2) by auto
  show ?thesis
  proof (rule kok_move [OF K, where h = p])
    show "prio_sorted (\<lambda>x. qkey (queuetab (s\<lparr>queuetab := qt'\<rparr>) x)) ((Q(q := remove1 p (Q q))) (readylist s))"
      using kokD(6) [OF K] qt'(2) by (cases "q = readylist s") (auto simp: prio_sorted_remove1)
  qed (use K q qt'(1) d only kokD [OF K] kok_mem(1) [OF K q(1,2)] in auto)
qed

lemma kok_mark:
  assumes K: "kok {} s Q" and p: "p \<in> {0..<NPROC}" "p \<noteq> NULLPROC" "home s p = None"
    and f: "prstate (f (proctab s p)) \<noteq> PR_CURR" "prprio (f (proctab s p)) = prprio (proctab s p)"
  shows "kok {p} (upd_proc p f s) Q"
proof (rule kok_move [OF K, where h = p])
  show "prio_sorted (\<lambda>x. qkey (queuetab (upd_proc p f s) x)) (Q (readylist s))"
    using kokD(6) [OF K] by simp
qed (use K p f kok_on [OF K p(1)] kokD [OF K] in \<open>auto split: prstate.splits\<close>)

lemma kok_enter:
  assumes K: "kok {p} s Q" and p: "p \<in> {0..<NPROC}" "prstate (proctab s p) \<noteq> PR_CURR"
    and q: "q \<in> qheads s" "q \<noteq> readylist s" "home s p = Some q"
    and wait: "prstate (proctab s p) = PR_WAIT \<Longrightarrow> prsem (proctab s p) \<in> {0..<NSEM}"
    and qt': "queues qt' (qheads s) (Q(q := xs))" "set xs = insert p (set (Q q))"
      "\<And>x. x \<in> set (Q (readylist s)) \<Longrightarrow> qkey (qt' x) = qkey (queuetab s x)"
  shows "kok {} (s\<lparr>queuetab := qt'\<rparr>) (Q(q := xs))"
proof (rule kok_move [OF K, where h = p])
  show "prio_sorted (\<lambda>x. qkey (queuetab (s\<lparr>queuetab := qt'\<rparr>) x)) ((Q(q := xs)) (readylist s))"
    using kokD(6) [OF K] q(2) prio_sorted_cong [of "Q (readylist s)", OF qt'(3)] by simp
  show "p \<in> set ((Q(q := xs)) r) \<longleftrightarrow> p \<notin> {} \<and> home (s\<lparr>queuetab := qt'\<rparr>) p = Some r" if "r \<in> qheads s" for r
    using kok_on [OF K p(1) that] qt'(2) q(3) by (auto simp: home_def split: prstate.splits)
qed (use K p qt' wait kokD [OF K] q in auto)

lemma counts_ok_upd:
  assumes "counts_ok st Q" and "inj_on (\<lambda>i. squeue (st i)) {0..<NSEM}" and "i \<in> {0..<NSEM}"
    and "squeue e = squeue (st i)"
    and "int (length xs) = (if sstate e = S_USED then max 0 (- scount e) else 0)"
  shows "counts_ok (st(i := e)) (Q(squeue (st i) := xs))"
  unfolding counts_ok_def
proof
  fix j assume j: "j \<in> {0..<NSEM}"
  show "int (length ((Q(squeue (st i) := xs)) (squeue ((st(i := e)) j)))) =
      (if sstate ((st(i := e)) j) = S_USED then max 0 (- scount ((st(i := e)) j)) else 0)"
  proof (cases "j = i")
    case True
    then show ?thesis using assms(4,5) by simp
  next
    case False
    then have "squeue (st j) \<noteq> squeue (st i)" using assms(2,3) j by (auto dest: inj_onD)
    then show ?thesis using False assms(1) j by (simp add: counts_ok_def)
  qed
qed

lemma sem_queue_facts:
  assumes "kok X s Q" and "i \<in> {0..<NSEM}"
  shows "squeue (semtab s i) \<in> qheads s" "squeue (semtab s i) \<noteq> readylist s"
    "squeue (semtab s i) \<noteq> sleepq s" "inj_on (\<lambda>i. squeue (semtab s i)) {0..<NSEM}"
    "NULLPROC \<notin> set (Q (squeue (semtab s i)))"
proof -
  show 1: "squeue (semtab s i) \<in> qheads s" "squeue (semtab s i) \<noteq> readylist s"
    "squeue (semtab s i) \<noteq> sleepq s" "inj_on (\<lambda>i. squeue (semtab s i)) {0..<NSEM}"
    using kokD(1) [OF assms(1)] assms(2) by (auto simp: heads_ok_def)
  show "NULLPROC \<notin> set (Q (squeue (semtab s i)))"
    using kok_mem(3) [OF assms(1) 1(1), of NULLPROC] kokD(4) [OF assms(1)] 1(2)
    by (auto simp: home_def)
qed

subsection \<open>Scheduling calls\<close>

lemma yield_kinv:
  assumes "kinv s"
  obtains s' where "yield s = Some (OK, s')" "kinv s'"
proof -
  from assms obtain Q where Q: "kok {} s Q" "counts_ok (semtab s) Q" "ndefers s = 0" by (auto simp: kinv_def)
  obtain s' where "resched s = Some s'" "kinv s'" using resched_kinv [OF Q(1,3,2)] .
  then show thesis using that by (simp add: yield_def)
qed

lemma resume_kinv:
  assumes "kinv s"
  obtains r s' where "resume pid s = Some (r, s')" "kinv s'"
proof (cases "isbadpid s pid \<or> prstate (proctab s pid) \<noteq> PR_SUSP")
  case True
  then show thesis using that [of SYSERR s] assms by (auto simp: resume_def)
next
  case False
  from assms obtain Q where Q: "kok {} s Q" "counts_ok (semtab s) Q" "ndefers s = 0" by (auto simp: kinv_def)
  have p: "pid \<in> {0..<NPROC}" "pid \<notin> on_queues (qheads s) Q" "prstate (proctab s pid) \<noteq> PR_FREE"
    using False home_None_not_on [OF Q(1), of pid] by (auto simp: isbadpid_def home_def)
  obtain s' where "ready pid s = Some (OK, s')" "kinv s'"
    using ready_kinv [OF Q(1) p _ Q(3,2)] by blast
  then show thesis using that False by (simp add: resume_def Let_def)
qed

lemma suspend_kinv:
  assumes I: "kinv s"
  obtains r s' where "suspend pid s = Some (r, s')" "kinv s'"
proof (cases "isbadpid s pid \<or> pid = NULLPROC \<or> prstate (proctab s pid) \<notin> {PR_CURR, PR_READY}")
  case True
  then show thesis using that [of "Some SYSERR" s] I by (auto simp: suspend_def)
next
  case False
  from I obtain Q where Q: "kok {} s Q" "counts_ok (semtab s) Q" "prstate (proctab s (currpid s)) = PR_CURR"
    "ndefers s = 0" by (rule kinvE)
  have p: "pid \<in> {0..<NPROC}" "pid \<noteq> NULLPROC" using False by (auto simp: isbadpid_def)
  show thesis
  proof (cases "prstate (proctab s pid) = PR_READY")
    case True
    then have mem: "pid \<in> set (Q (readylist s))" using ready_list_set [OF Q(1)] p by auto
    obtain qt' where gi: "getitem pid s = (pid, s\<lparr>queuetab := qt'\<rparr>)"
      "queues qt' (qheads s) (Q(readylist s := remove1 pid (Q (readylist s))))"
      "\<And>x. qkey (qt' x) = qkey (queuetab s x)"
      using getitem_queues [OF kokD(2) [OF Q(1)] qheads_mem(1) mem] by blast
    let ?s' = "upd_proc pid (\<lambda>p. p\<lparr>prstate := PR_SUSP\<rparr>) (s\<lparr>queuetab := qt'\<rparr>)"
    have "kok {} ?s' (Q(readylist s := remove1 pid (Q (readylist s))))"
    proof (rule kok_move [OF kok_leave [OF Q(1) qheads_mem(1) mem p(2) gi(2,3)], where h = pid])
      show "prio_sorted (\<lambda>x. qkey (queuetab ?s' x))
         ((Q(readylist s := remove1 pid (Q (readylist s)))) (readylist (s\<lparr>queuetab := qt'\<rparr>)))"
        using kokD(6) [OF Q(1)] gi(3) by (simp add: prio_sorted_remove1)
      show "pid \<in> set ((Q(readylist s := remove1 pid (Q (readylist s)))) q) \<longleftrightarrow>
          pid \<notin> {} \<and> home ?s' pid = Some q" if "q \<in> qheads (s\<lparr>queuetab := qt'\<rparr>)" for q
        using kok_on [OF kok_leave [OF Q(1) qheads_mem(1) mem p(2) gi(2,3)] p(1) that] by (simp add: home_def)
    qed (use p gi(2) kokD(3,9) [OF Q(1)] in \<open>auto simp: qheads_def\<close>)
    moreover have "counts_ok (semtab ?s') (Q(readylist s := remove1 pid (Q (readylist s))))"
      using counts_ok_ready [OF kokD(1) [OF Q(1)]] Q(2) by simp
    moreover have "currpid s \<noteq> pid" using True Q(3) by auto
    ultimately have "kinv ?s'" using Q(3,4) by (auto simp: kinv_def)
    then show thesis using that False True gi(1) by (auto simp: suspend_def Let_def)
  next
    case cur: False
    let ?s1 = "upd_proc pid (\<lambda>p. p\<lparr>prstate := PR_SUSP\<rparr>) s"
    have "kok {} ?s1 Q" by (rule kok_off [OF Q(1) p]) (use cur False in \<open>auto simp: home_def\<close>)
    then obtain s' where "resched ?s1 = Some s'" "kinv s'"
      using resched_kinv [of ?s1 Q] Q by auto
    then show thesis using that cur False by (auto simp: suspend_def)
  qed
qed

subsection \<open>Semaphores\<close>

lemma upd_sem_kok:
  assumes "\<And>e. squeue (g e) = squeue e"
  shows "kok X (upd_sem i g s) Q = kok X s Q"
  by (rule kok_cong) (simp_all add: assms)

lemma qheads_upd_sem:
  assumes "\<And>e. squeue (g e) = squeue e"
  shows "qheads (upd_sem i g s) = qheads s"
proof -
  have "(\<lambda>j. squeue (semtab (upd_sem i g s) j)) = (\<lambda>j. squeue (semtab s j))" by (simp add: fun_eq_iff assms)
  then show ?thesis by (simp only: qheads_def upd_sem_simps)
qed

text \<open>The current process leaves the processor for the queue of a semaphore.\<close>

lemma wait_block_kinv:
  assumes I: "kinv s" and np: "currpid s \<noteq> NULLPROC" and sem: "\<not> isbadsem sem" "sstate (semtab s sem) = S_USED"
    and neg: "scount (semtab s sem) \<le> 0"
  obtains s' where "wait sem s = Some (OK, s')" "kinv s'" "kframe (upd_sem sem (\<lambda>e. e\<lparr>scount := scount e - 1\<rparr>) s) s'"
    "prstate (proctab s' (currpid s)) = PR_WAIT" "prsem (proctab s' (currpid s)) = sem"
    "lastid s' (squeue (semtab s sem)) = currpid s"
proof -
  let ?c = "currpid s" and ?q = "squeue (semtab s sem)"
  from I obtain Q where Q: "kok {} s Q" "counts_ok (semtab s) Q" "prstate (proctab s ?c) = PR_CURR"
    "ndefers s = 0" "?c \<in> {0..<NPROC}" "?c \<notin> on_queues (qheads s) Q" by (rule kinvE)
  have i: "sem \<in> {0..<NSEM}" using sem(1) by (auto simp: isbadsem_def)
  note sq = sem_queue_facts [OF Q(1) i]
  let ?s1 = "upd_sem sem (\<lambda>e. e\<lparr>scount := scount e - 1\<rparr>) s"
  let ?f = "\<lambda>p. p\<lparr>prstate := PR_WAIT, prsem := sem\<rparr>"
  let ?s2 = "upd_proc ?c ?f ?s1"
  have K1: "kok {} ?s1 Q" using Q(1) by (simp add: upd_sem_kok)
  have heads: "qheads ?s2 = qheads s" by (simp add: qheads_upd_sem)
  have K2: "kok {?c} ?s2 Q"
    by (rule kok_mark [OF K1 Q(5) np]) (use Q(3) in \<open>auto simp: home_def\<close>)
  have QS: "queues (queuetab ?s2) (qheads s) Q" using kokD(2) [OF Q(1)] by simp
  obtain qt' where e: "enqueue ?c ?q ?s2 = (?c, ?s2\<lparr>queuetab := qt'\<rparr>)"
    "queues qt' (qheads s) (Q(?q := Q ?q @ [?c]))" "\<And>x. qkey (qt' x) = qkey (queuetab s x)"
    using enqueue_queues [OF QS sq(1), of ?c] Q(5,6) by (auto simp: isbadpid_def)
  have K3: "kok {} (?s2\<lparr>queuetab := qt'\<rparr>) (Q(?q := Q ?q @ [?c]))"
  proof (rule kok_enter [OF K2 Q(5)])
    show "home ?s2 ?c = Some ?q" by (simp add: home_def)
    show "queues qt' (qheads ?s2) (Q(?q := Q ?q @ [?c]))" unfolding heads by (rule e(2))
  qed (use sq(2) i e(3) heads sq(1) in auto)
  have cnt: "counts_ok (semtab (?s2\<lparr>queuetab := qt'\<rparr>)) (Q(?q := Q ?q @ [?c]))"
    using counts_ok_upd [OF Q(2) sq(4) i, of "(semtab s sem)\<lparr>scount := scount (semtab s sem) - 1\<rparr>" "Q ?q @ [?c]"]
      Q(2) i sem(2) neg by (auto simp: counts_ok_def)
  obtain s' xs where s': "resched (?s2\<lparr>queuetab := qt'\<rparr>) = Some s'" "kinv s'" "kframe (?s2\<lparr>queuetab := qt'\<rparr>) s'"
    "same_but_state (proctab ?s2) (proctab s')" "kok {} s' (Q(?q := Q ?q @ [?c], readylist s := xs))"
    by (rule resched_kinv_Q [OF K3 _ cnt]) (use Q(4) in auto)
  have "proctab s' ?c = proctab ?s2 ?c" using s'(4) by (simp add: same_but_state_def)
  then have st: "prstate (proctab s' ?c) = PR_WAIT" "prsem (proctab s' ?c) = sem" by simp_all
  have hd': "?q \<in> qheads s'" using sq(1) heads kframeD(5) [OF s'(3)] by simp
  have last: "lastid s' ?q = ?c"
    using is_queue_last [OF queuesD(1) [OF kokD(2) [OF s'(5)] hd']] sq(2) by (simp add: lastid_def queuetail_def)
  have "wait sem s = Some (OK, s')"
    using sem neg e(1) s'(1) by (simp add: wait_def upd_proc_twice Let_def)
  moreover have "kframe ?s1 s'" using s'(3) by (simp add: kframe_def)
  ultimately show thesis using that s'(2) st last by blast
qed

lemma wait_kinv:
  assumes I: "kinv s" and np: "currpid s \<noteq> NULLPROC"
  obtains r s' where "wait sem s = Some (r, s')" "kinv s'"
proof (cases "isbadsem sem \<or> sstate (semtab s sem) = S_FREE")
  case True
  then show thesis using that [of SYSERR s] I by (auto simp: wait_def)
next
  case False
  then have sem: "\<not> isbadsem sem" "sstate (semtab s sem) = S_USED" by (auto intro: sstate.exhaust)
  show thesis
  proof (cases "scount (semtab s sem) \<le> 0")
    case True
    then show thesis using wait_block_kinv [OF I np sem] that by blast
  next
    case pos: False
    from I obtain Q where Q: "kok {} s Q" "counts_ok (semtab s) Q" "prstate (proctab s (currpid s)) = PR_CURR"
      "ndefers s = 0" by (rule kinvE)
    let ?s1 = "upd_sem sem (\<lambda>e. e\<lparr>scount := scount e - 1\<rparr>) s"
    have i: "sem \<in> {0..<NSEM}" using sem(1) by (auto simp: isbadsem_def)
    have "counts_ok (semtab ?s1) Q" using Q(2) i pos sem(2) by (auto simp: counts_ok_def)
    moreover have "kok {} ?s1 Q" using Q(1) by (simp add: upd_sem_kok)
    ultimately have "kinv ?s1" using Q(3,4) by (auto simp: kinv_def)
    moreover have "wait sem s = Some (OK, ?s1)" using sem pos by (simp add: wait_def Let_def)
    ultimately show thesis using that by blast
  qed
qed

text \<open>Taking the first waiting process off the queue of a semaphore whose count is negative.\<close>

lemma sem_dequeue:
  assumes K: "kok {} s Q" and C: "counts_ok (semtab s) Q" and i: "sem \<in> {0..<NSEM}" and q: "q = squeue (semtab s sem)"
    and ne: "Q q \<noteq> []" and st: "sstate (semtab s sem) = S_USED"
    and s1: "s1 = upd_sem sem (\<lambda>e. e\<lparr>scount := scount e + 1\<rparr>) s"
  obtains qt' where "dequeue q s1 = (hd (Q q), s1\<lparr>queuetab := qt'\<rparr>)"
    "kok {hd (Q q)} (s1\<lparr>queuetab := qt'\<rparr>) (Q(q := tl (Q q)))"
    "counts_ok (semtab (s1\<lparr>queuetab := qt'\<rparr>)) (Q(q := tl (Q q)))"
    "hd (Q q) \<in> {0..<NPROC}" "hd (Q q) \<noteq> NULLPROC" "prstate (proctab s (hd (Q q))) = PR_WAIT"
    "\<And>x. qkey (qt' x) = qkey (queuetab s x)"
proof -
  note sq = sem_queue_facts [OF K i, folded q]
  let ?h = "hd (Q q)"
  have mem: "?h \<in> set (Q q)" using ne by simp
  have K1: "kok {} s1 Q" using K by (simp add: s1 upd_sem_kok)
  have heads: "qheads s1 = qheads s" by (simp add: s1 qheads_upd_sem)
  obtain qt' where d: "dequeue q s1 = (?h, s1\<lparr>queuetab := qt'\<rparr>)"
    "queues qt' (qheads s1) (Q(q := tl (Q q)))" "\<And>x. qkey (qt' x) = qkey (queuetab s1 x)"
    using dequeue_queues [OF kokD(2) [OF K1], of q] sq(1) ne heads by auto
  have tl: "tl (Q q) = remove1 ?h (Q q)" using ne by (cases "Q q") auto
  have h: "?h \<in> {0..<NPROC}" "home s ?h = Some q" using kok_mem [OF K sq(1) mem] by auto
  have nz: "?h \<noteq> NULLPROC" using sq(5) mem by auto
  have "prstate (proctab s ?h) = PR_WAIT"
    using h(2) sq(2,3) by (auto simp: home_def split: prstate.splits)
  moreover have "kok {?h} (s1\<lparr>queuetab := qt'\<rparr>) (Q(q := tl (Q q)))"
    unfolding tl by (rule kok_leave [OF K1 _ mem nz]) (use d(2,3) sq(1) heads tl in auto)
  moreover have "counts_ok (semtab (s1\<lparr>queuetab := qt'\<rparr>)) (Q(q := tl (Q q)))"
  proof -
    have "int (length (Q q)) = max 0 (- scount (semtab s sem))" using C i st by (auto simp: counts_ok_def q)
    then have "int (length (tl (Q q))) = max 0 (- (scount (semtab s sem) + 1))" using ne by (cases "Q q") auto
    then show ?thesis
      using counts_ok_upd [OF C, of sem "(semtab s sem)\<lparr>scount := scount (semtab s sem) + 1\<rparr>" "tl (Q q)"] sq(4) i st
      by (simp add: s1 q)
  qed
  ultimately show thesis using that d(1,3) h(1) nz by (auto simp: s1)
qed

lemma sem_waiting:
  assumes "counts_ok (semtab s) Q" and "sem \<in> {0..<NSEM}" and "sstate (semtab s sem) = S_USED"
  shows "scount (semtab s sem) < 0 \<longleftrightarrow> Q (squeue (semtab s sem)) \<noteq> []"
proof -
  have "int (length (Q (squeue (semtab s sem)))) = max 0 (- scount (semtab s sem))"
    using assms by (simp add: counts_ok_def)
  then show ?thesis by (cases "Q (squeue (semtab s sem))") auto
qed

text \<open>\<open>signal\<close> on a semaphore with waiting processes: the first of them, which has waited longest,
  becomes eligible.\<close>

lemma signal_wake_kinv:
  assumes I: "kinv s" and sem: "\<not> isbadsem sem" "sstate (semtab s sem) = S_USED" and neg: "scount (semtab s sem) < 0"
    and p: "p = firstid s (squeue (semtab s sem))"
  obtains s' where "signal sem s = Some (OK, s')" "kinv s'" "kframe (upd_sem sem (\<lambda>e. e\<lparr>scount := scount e + 1\<rparr>) s) s'"
    "prstate (proctab s p) = PR_WAIT" "prsem (proctab s p) = sem"
    "same_but_state ((proctab s)(p := (proctab s p)\<lparr>prstate := PR_READY\<rparr>)) (proctab s')"
proof -
  have i: "sem \<in> {0..<NSEM}" using sem(1) by (auto simp: isbadsem_def)
  from I obtain Q where Q: "kok {} s Q" "counts_ok (semtab s) Q" "ndefers s = 0" by (rule kinvE)
  let ?s1 = "upd_sem sem (\<lambda>e. e\<lparr>scount := scount e + 1\<rparr>) s" and ?q = "squeue (semtab s sem)"
  note sq = sem_queue_facts [OF Q(1) i]
  have ne: "Q ?q \<noteq> []" using sem_waiting [OF Q(2) i sem(2)] neg by simp
  have hd: "hd (Q ?q) = p"
    using is_queue_first [OF queuesD(1) [OF kokD(2) [OF Q(1)] sq(1)]] ne by (simp add: p firstid_def queuehead_def)
  obtain qt' where d: "dequeue ?q ?s1 = (p, ?s1\<lparr>queuetab := qt'\<rparr>)"
    "kok {p} (?s1\<lparr>queuetab := qt'\<rparr>) (Q(?q := tl (Q ?q)))"
    "counts_ok (semtab (?s1\<lparr>queuetab := qt'\<rparr>)) (Q(?q := tl (Q ?q)))"
    "p \<in> {0..<NPROC}" "prstate (proctab s p) = PR_WAIT"
    by (rule sem_dequeue [OF Q(1,2) i refl ne sem(2) refl, unfolded hd]) blast
  have "p \<in> set (Q ?q)" using ne hd by auto
  then have "squeue (semtab s (prsem (proctab s p))) = ?q" "prsem (proctab s p) \<in> {0..<NSEM}"
    using kok_mem [OF Q(1) sq(1), of p] kokD(10) [OF Q(1)] d(5) by (auto simp: home_def)
  then have ps: "prsem (proctab s p) = sem" using sq(4) i by (auto dest: inj_onD)
  let ?s2 = "?s1\<lparr>queuetab := qt'\<rparr>"
  have off: "p \<notin> on_queues (qheads ?s2) (Q(?q := tl (Q ?q)))" by (rule kok_not_on [OF d(2)]) simp
  have r: "prstate (proctab ?s2 p) \<noteq> PR_FREE" "ndefers ?s2 = 0" using d(5) Q(3) by simp_all
  obtain s' where s': "ready p ?s2 = Some (OK, s')" "kinv s'" "kframe ?s2 s'"
    "same_but_state ((proctab ?s2)(p := (proctab ?s2 p)\<lparr>prstate := PR_READY\<rparr>)) (proctab s')"
    using ready_kinv [OF d(2,4) off r(1) subset_refl r(2) d(3)] .
  have "kframe ?s1 s'" using s'(3) by (simp add: kframe_def)
  moreover have "signal sem s = Some (OK, s')" using neg sem d(1) s'(1) by (simp add: signal_def Let_def)
  moreover have "same_but_state ((proctab s)(p := (proctab s p)\<lparr>prstate := PR_READY\<rparr>)) (proctab s')" using s'(4) by simp
  ultimately show thesis using that s'(2) d(5) ps by blast
qed

lemma signal_kinv:
  assumes I: "kinv s"
  obtains r s' where "signal sem s = Some (r, s')" "kinv s'"
proof (cases "isbadsem sem \<or> sstate (semtab s sem) = S_FREE")
  case True
  then show thesis using that [of SYSERR s] I by (auto simp: signal_def)
next
  case False
  then have sem: "\<not> isbadsem sem" "sstate (semtab s sem) = S_USED" by (auto intro: sstate.exhaust)
  then have i: "sem \<in> {0..<NSEM}" by (auto simp: isbadsem_def)
  from I obtain Q where Q: "kok {} s Q" "counts_ok (semtab s) Q" "prstate (proctab s (currpid s)) = PR_CURR"
    "ndefers s = 0" by (rule kinvE)
  let ?s1 = "upd_sem sem (\<lambda>e. e\<lparr>scount := scount e + 1\<rparr>) s"
  show thesis
  proof (cases "scount (semtab s sem) < 0")
    case True
    then show thesis using that signal_wake_kinv [OF I sem True refl] by blast
  next
    case False
    have "counts_ok (semtab ?s1) Q" using Q(2) i False sem(2) by (auto simp: counts_ok_def)
    moreover have "kok {} ?s1 Q" using Q(1) by (simp add: upd_sem_kok)
    ultimately have "kinv ?s1" using Q(3,4) by (auto simp: kinv_def)
    then show thesis using that sem False by (simp add: signal_def Let_def)
  qed
qed

end
