(* ===== verification/Kernel_Deferred.thy ===== *)
theory Kernel_Deferred
  imports Kernel_Steps
begin

section \<open>Calls that defer rescheduling\<close>

text \<open>
  \<open>signaln\<close>, \<open>semdelete\<close>, \<open>semreset\<close> and \<open>wakeup\<close> make many processes ready between
  \<open>resched_cntl(DEFER_START)\<close> and \<open>resched_cntl(DEFER_STOP)\<close>: their loops end, no process is
  switched to in between, and the invariant holds again when the deferral is over. The clock
  handler calls \<open>wakeup\<close>.
\<close>

lemma counts_okD:
  assumes "counts_ok st Q" and "i \<in> {0..<NSEM}"
  shows "int (length (Q (squeue (st i)))) = (if sstate (st i) = S_USED then max 0 (- scount (st i)) else 0)"
  using assms unfolding counts_ok_def by (rule bspec)

text \<open>The invariant inside the deferral.\<close>

definition dinv :: "'a kstate_scheme \<Rightarrow> (qid16 \<Rightarrow> pid32 list) \<Rightarrow> bool" where
  "dinv s Q \<longleftrightarrow> kok {} s Q \<and> ndefers s = 1 \<and> prstate (proctab s (currpid s)) = PR_CURR"

lemma dinvD:
  assumes "dinv s Q"
  shows "kok {} s Q" "ndefers s = 1" "prstate (proctab s (currpid s)) = PR_CURR" "heads_ok s"
    "queues (queuetab s) (qheads s) Q"
  using assms kokD by (auto simp: dinv_def)

lemma dinv_upd_sem:
  assumes "\<And>e. squeue (g e) = squeue e"
  shows "dinv (upd_sem i g s) Q = dinv s Q"
  by (simp add: dinv_def upd_sem_kok [OF assms])

lemma defer_start:
  assumes "kinv s"
  obtains s1 Q where "resched_cntl DEFER_START s = Some (OK, s1)" "s1 = s\<lparr>ndefers := 1, attempt := False\<rparr>"
    "dinv s1 Q" "counts_ok (semtab s) Q"
proof -
  from assms obtain Q where Q: "kok {} s Q" "counts_ok (semtab s) Q" "ndefers s = 0"
    "prstate (proctab s (currpid s)) = PR_CURR" by (auto simp: kinv_def)
  let ?s1 = "s\<lparr>ndefers := 1, attempt := False\<rparr>"
  have "kok {} ?s1 Q = kok {} s Q" by (rule kok_cong) simp_all
  then have "dinv ?s1 Q" using Q by (simp add: dinv_def)
  then show thesis using that [of ?s1 Q] Q by (simp add: resched_cntl_def)
qed

lemma defer_stop:
  assumes D: "dinv s Q" and C: "counts_ok (semtab s) Q"
  obtains s' xs where "resched_cntl DEFER_STOP s = Some (OK, s')" "kinv s'" "kframe (s\<lparr>ndefers := 0\<rparr>) s'"
    "kok {} s' (Q(readylist s := xs))" "\<And>x. x \<noteq> currpid s \<Longrightarrow> qkey (queuetab s' x) = qkey (queuetab s x)"
proof -
  let ?s1 = "s\<lparr>ndefers := 0\<rparr>"
  have K: "kok {} ?s1 Q" using dinvD(1) [OF D] kok_cong [of ?s1 s] by simp
  show thesis
  proof (cases "attempt s")
    case True
    obtain s' xs where "resched ?s1 = Some s'" "kinv s'" "kframe ?s1 s'" "kok {} s' (Q(readylist s := xs))"
      "\<And>x. x \<noteq> currpid s \<Longrightarrow> qkey (queuetab s' x) = qkey (queuetab s x)"
      by (rule resched_kinv_Q [OF K]) (use C in auto)
    then show thesis using that True dinvD(2) [OF D] by (simp add: resched_cntl_def Let_def)
  next
    case False
    have "kinv ?s1" using K C dinvD(3) [OF D] by (auto simp: kinv_def)
    then show thesis using that [of ?s1 "Q (readylist s)"] K False dinvD(2) [OF D]
      by (simp add: resched_cntl_def Let_def)
  qed
qed

text \<open>The first process of a queue other than the ready list is taken off and made ready.\<close>

lemma take_ready:
  assumes D: "dinv s Q" and q: "q \<in> qheads s" "q \<noteq> readylist s" and ne: "Q q = h # ts"
    and get: "getp \<in> {dequeue q, getfirst q}"
  obtains s1 s' xs where "getp s = (h, s1)" "ready h s1 = Some (OK, s')"
    "dinv s' (Q(q := ts, readylist s := xs))" "kframe s s'" "kframe s s1"
    "\<And>x. x \<noteq> h \<Longrightarrow> proctab s' x = proctab s x" "prstate (proctab s' h) = PR_READY"
    "\<And>x. x \<noteq> h \<Longrightarrow> qkey (queuetab s' x) = qkey (queuetab s x)"
proof -
  note K = dinvD(1) [OF D] and QS = dinvD(5) [OF D]
  have mem: "h \<in> set (Q q)" using ne by simp
  note h = kok_mem [OF K q(1) mem]
  have hn: "h \<noteq> NULLPROC" using h(3) kokD(4) [OF K] q(2) by (auto simp: home_def)
  have st: "prstate (proctab s h) \<noteq> PR_FREE" "h \<noteq> currpid s"
    using h(3) dinvD(3) [OF D] by (auto simp: home_def)
  obtain qt1 where t: "getp s = (h, s\<lparr>queuetab := qt1\<rparr>)" "queues qt1 (qheads s) (Q(q := ts))"
    "\<And>x. qkey (qt1 x) = qkey (queuetab s x)"
  proof -
    have ne': "Q q \<noteq> []" "hd (Q q) = h" "tl (Q q) = ts" using ne by auto
    from get consider "getp = dequeue q" | "getp = getfirst q" by blast
    then show thesis
    proof cases
      case 1
      show thesis by (rule dequeue_queues [OF QS q(1) ne'(1)]) (use that 1 ne' in metis)
    next
      case 2
      show thesis by (rule getfirst_queues [OF QS q(1) ne'(1)]) (use that 2 ne' in metis)
    qed
  qed
  let ?s1 = "s\<lparr>queuetab := qt1\<rparr>"
  have K1: "kok {h} ?s1 (Q(q := ts))"
    using kok_leave [OF K q(1) mem hn _ t(3)] t(2) ne by simp
  have off: "h \<notin> on_queues (qheads ?s1) (Q(q := ts))" using kok_not_on [OF K1] by simp
  obtain qt' xs where r: "ready h ?s1 = Some (OK, (upd_proc h (\<lambda>e. e\<lparr>prstate := PR_READY\<rparr>) ?s1)\<lparr>queuetab := qt', attempt := True\<rparr>)"
    "kok {} ((upd_proc h (\<lambda>e. e\<lparr>prstate := PR_READY\<rparr>) ?s1)\<lparr>queuetab := qt', attempt := True\<rparr>)
        ((Q(q := ts))(readylist ?s1 := xs))"
    "\<And>x. x \<noteq> h \<Longrightarrow> qkey (qt' x) = qkey (queuetab ?s1 x)"
    using ready_deferred [OF K1 h(1) off _ subset_refl] st(1) dinvD(2) [OF D] by auto
  show thesis
    by (rule that [OF t(1) r(1)]) (use r(2,3) st(2) dinvD(2,3) [OF D] t(3) in \<open>auto simp: dinv_def kframe_def\<close>)
qed

subsection \<open>signaln\<close>

text \<open>One round of the loops of \<open>signaln\<close> and \<open>semdelete\<close>.\<close>

lemma signal_round:
  assumes D: "dinv s Q" and i: "sem \<in> {0..<NSEM}" and q: "q = squeue (semtab s sem)" and ne: "Q q = h # ts"
    and C: "counts_ok ((semtab s)(sem := f (semtab s sem))) Q"
    and f: "\<And>e. squeue (f e) = squeue e" "\<And>e. sstate (f e) = S_USED" "\<And>e. scount (f e) = scount e"
    and s1: "s1 = upd_sem sem (\<lambda>e. e\<lparr>scount := scount e + 1\<rparr>) s"
    and get: "getp \<in> {dequeue q, getfirst q}"
  obtains s2 s' Q' where "getp s1 = (h, s2)" "ready h s2 = Some (OK, s')" "dinv s' Q'" "Q' q = ts"
    "semtab s' = semtab s1" "counts_ok ((semtab s1)(sem := f (semtab s1 sem))) Q'"
proof -
  note sq = sem_queue_facts [OF dinvD(1) [OF D] i, folded q]
  have D1: "dinv s1 Q" using D by (simp add: s1 dinv_upd_sem)
  have heads: "qheads s1 = qheads s" by (simp add: s1 qheads_upd_sem)
  have rl: "readylist s1 = readylist s" by (simp add: s1)
  have q1: "q \<in> qheads s1" "q \<noteq> readylist s1" using sq(1,2) heads rl by auto
  obtain s2 s' xs where t: "getp s1 = (h, s2)" "ready h s2 = Some (OK, s')"
    "dinv s' (Q(q := ts, readylist s := xs))" "kframe s1 s'"
    by (rule take_ready [OF D1 q1 ne get, unfolded rl]) blast
  let ?e = "f (semtab s1 sem)"
  let ?st = "(semtab s)(sem := f (semtab s sem))"
  have len: "int (length (Q q)) = max 0 (- scount (semtab s sem))"
    using counts_okD [OF C i] f q by simp
  have "(\<lambda>i. squeue (?st i)) = (\<lambda>i. squeue (semtab s i))" by (simp add: fun_eq_iff f(1))
  then have inj: "inj_on (\<lambda>i. squeue (?st i)) {0..<NSEM}" using sq(4) by (simp only:)
  have "int (length ts) = max 0 (- (scount (semtab s sem) + 1))" using len ne by auto
  then have "counts_ok (?st(sem := ?e)) (Q(squeue (?st sem) := ts))"
    by (intro counts_ok_upd [OF C inj i]) (auto simp: f s1)
  moreover have "?st(sem := ?e) = (semtab s1)(sem := ?e)" "squeue (?st sem) = q" by (auto simp: s1 f q)
  ultimately have C1: "counts_ok ((semtab s1)(sem := ?e)) (Q(q := ts))" by simp
  have "squeue (((semtab s1)(sem := ?e)) j) = squeue (semtab s j)" for j by (simp add: s1 f(1))
  then have "heads_ok (s1\<lparr>semtab := (semtab s1)(sem := ?e)\<rparr>)"
    using dinvD(4) [OF D] by (simp add: heads_ok_def s1)
  from counts_ok_ready [OF this, of "Q(q := ts)" xs] C1
  have "counts_ok ((semtab s1)(sem := ?e)) (Q(q := ts, readylist s := xs))" by (simp add: rl)
  moreover have "semtab s' = semtab s1" using kframeD(1) [OF t(4)] .
  ultimately show thesis using that [OF t(1,2,3)] sq(2) by simp
qed

lemma signaln_loop_dinv:
  assumes "dinv s Q" and "counts_ok (semtab s) Q" and "sem \<in> {0..<NSEM}" and "sstate (semtab s sem) = S_USED"
  shows "\<exists>s' Q'. signaln_loop sem n s = Some s' \<and> dinv s' Q' \<and> counts_ok (semtab s') Q' \<and>
    semtab s' = (semtab s)(sem := (semtab s sem)\<lparr>scount := scount (semtab s sem) + int n\<rparr>)"
  using assms
proof (induction n arbitrary: s Q)
  case 0
  then show ?case by auto
next
  case (Suc n)
  let ?q = "squeue (semtab s sem)" and ?s1 = "upd_sem sem (\<lambda>e. e\<lparr>scount := scount e + 1\<rparr>) s"
  show ?case
  proof (cases "scount (semtab s sem) < 0")
    case True
    then obtain h ts where ne: "Q ?q = h # ts"
      using sem_waiting [OF Suc.prems(2-4)] by (auto simp: neq_Nil_conv)
    have id: "(semtab s)(sem := (semtab s sem)\<lparr>sstate := S_USED\<rparr>) = semtab s"
      using Suc.prems(4) by (simp add: fun_eq_iff)
    obtain s2 s' Q' where r: "dequeue ?q ?s1 = (h, s2)" "ready h s2 = Some (OK, s')" "dinv s' Q'"
      "semtab s' = semtab ?s1" "counts_ok ((semtab ?s1)(sem := (semtab ?s1 sem)\<lparr>sstate := S_USED\<rparr>)) Q'"
      by (rule signal_round [OF Suc.prems(1,3) refl ne, of "\<lambda>e. e\<lparr>sstate := S_USED\<rparr>" ?s1 "dequeue ?q"])
        (use Suc.prems id in auto)
    have "(semtab ?s1)(sem := (semtab ?s1 sem)\<lparr>sstate := S_USED\<rparr>) = semtab s'"
      using r(4) Suc.prems(4) by (simp add: fun_eq_iff)
    then have "counts_ok (semtab s') Q'" using r(5) by metis
    moreover have "sstate (semtab s' sem) = S_USED" using r(4) Suc.prems(4) by simp
    ultimately obtain s'' Q'' where
      s'': "signaln_loop sem n s' = Some s''" "dinv s'' Q''" "counts_ok (semtab s'') Q''"
      "semtab s'' = (semtab s')(sem := (semtab s' sem)\<lparr>scount := scount (semtab s' sem) + int n\<rparr>)"
      using Suc.IH [OF r(3) _ Suc.prems(3)] by blast
    moreover have "signaln_loop sem (Suc n) s = Some s''"
      using True r(1,2) s''(1) by (simp add: Let_def)
    moreover have "semtab s'' = (semtab s)(sem := (semtab s sem)\<lparr>scount := scount (semtab s sem) + int (Suc n)\<rparr>)"
      using s''(4) r(4) by (simp add: fun_eq_iff)
    ultimately show ?thesis by blast
  next
    case False
    have "dinv ?s1 Q" using Suc.prems(1) by (simp add: dinv_upd_sem)
    moreover have "counts_ok (semtab ?s1) Q" using Suc.prems False by (auto simp: counts_ok_def)
    moreover have "sstate (semtab ?s1 sem) = S_USED" using Suc.prems(4) by simp
    ultimately obtain s' Q' where s': "signaln_loop sem n ?s1 = Some s'" "dinv s' Q'" "counts_ok (semtab s') Q'"
      "semtab s' = (semtab ?s1)(sem := (semtab ?s1 sem)\<lparr>scount := scount (semtab ?s1 sem) + int n\<rparr>)"
      using Suc.IH [of ?s1 Q] Suc.prems(3) by blast
    moreover have "semtab s' = (semtab s)(sem := (semtab s sem)\<lparr>scount := scount (semtab s sem) + int (Suc n)\<rparr>)"
      using s'(4) by (simp add: fun_eq_iff)
    moreover have "signaln_loop sem (Suc n) s = Some s'" using False s'(1) by (simp add: Let_def)
    ultimately show ?thesis by blast
  qed
qed

lemma signaln_kinv:
  assumes I: "kinv s"
  obtains r s' where "signaln sem count s = Some (r, s')" "kinv s'"
    "r = OK \<Longrightarrow> semtab s' = (semtab s)(sem := (semtab s sem)\<lparr>scount := scount (semtab s sem) + count\<rparr>)"
proof (cases "isbadsem sem \<or> count < 0 \<or> sstate (semtab s sem) = S_FREE")
  case True
  then show thesis using that [of SYSERR s] I by (auto simp: signaln_def)
next
  case False
  then have sem: "sem \<in> {0..<NSEM}" "sstate (semtab s sem) = S_USED" "0 \<le> count"
    by (auto simp: isbadsem_def intro: sstate.exhaust)
  obtain s1 Q where s1: "resched_cntl DEFER_START s = Some (OK, s1)" "s1 = s\<lparr>ndefers := 1, attempt := False\<rparr>"
    "dinv s1 Q" "counts_ok (semtab s) Q" using defer_start [OF I] .
  obtain s2 Q2 where s2: "signaln_loop sem (nat count) s1 = Some s2" "dinv s2 Q2" "counts_ok (semtab s2) Q2"
    "semtab s2 = (semtab s1)(sem := (semtab s1 sem)\<lparr>scount := scount (semtab s1 sem) + count\<rparr>)"
    using signaln_loop_dinv [OF s1(3), of sem "nat count"] s1(2,4) sem by auto
  obtain s' where "resched_cntl DEFER_STOP s2 = Some (OK, s')" "kinv s'" "kframe (s2\<lparr>ndefers := 0\<rparr>) s'"
    using defer_stop [OF s2(2,3)] by metis
  moreover from this have "semtab s' = semtab s2" by (simp add: kframe_def)
  ultimately show thesis using that False s1(1,2) s2(1,4) by (simp add: signaln_def)
qed

subsection \<open>semdelete and semreset\<close>

lemma semdelete_loop_dinv:
  assumes "dinv s Q" and "counts_ok ((semtab s)(sem := (semtab s sem)\<lparr>sstate := S_USED\<rparr>)) Q" and "sem \<in> {0..<NSEM}"
    and "sstate (semtab s sem) = S_FREE"
  shows "\<exists>s' Q'. semdelete_loop sem s = Some s' \<and> dinv s' Q' \<and> counts_ok (semtab s') Q' \<and>
    sstate (semtab s' sem) = S_FREE"
  using assms
proof (induction "length (Q (squeue (semtab s sem)))" arbitrary: s Q)
  case 0
  let ?s1 = "upd_sem sem (\<lambda>e. e\<lparr>scount := scount e + 1\<rparr>) s"
  have ge: "\<not> scount (semtab s sem) < 0" using counts_okD [OF 0(3,4)] 0(1) by simp
  have "counts_ok (semtab ?s1) Q"
  proof -
    have "int (length (Q (squeue (semtab ?s1 i)))) =
        (if sstate (semtab ?s1 i) = S_USED then max 0 (- scount (semtab ?s1 i)) else 0)"
      if "i \<in> {0..<NSEM}" for i using counts_okD [OF 0(3) that] 0(1,5) by (cases "i = sem") auto
    then show ?thesis unfolding counts_ok_def by blast
  qed
  moreover have "dinv ?s1 Q" using 0(2) by (simp add: dinv_upd_sem)
  moreover have "semdelete_loop sem s = Some ?s1" using ge by (subst semdelete_loop.simps) (simp add: Let_def)
  moreover have "sstate (semtab ?s1 sem) = S_FREE" using 0(5) by simp
  ultimately show ?case by blast
next
  case (Suc n)
  let ?q = "squeue (semtab s sem)" and ?s1 = "upd_sem sem (\<lambda>e. e\<lparr>scount := scount e + 1\<rparr>) s"
  from Suc(2) obtain h ts where ne: "Q ?q = h # ts" by (auto simp: Suc_length_conv)
  have lt: "scount (semtab s sem) < 0" using counts_okD [OF Suc(4,5)] ne by (auto split: if_splits)
  obtain s2 s' Q' where r: "getfirst ?q ?s1 = (h, s2)" "ready h s2 = Some (OK, s')" "dinv s' Q'" "Q' ?q = ts"
    "semtab s' = semtab ?s1" "counts_ok ((semtab ?s1)(sem := (semtab ?s1 sem)\<lparr>sstate := S_USED\<rparr>)) Q'"
    by (rule signal_round [OF Suc(3,5) refl ne, of "\<lambda>e. e\<lparr>sstate := S_USED\<rparr>" ?s1 "getfirst ?q"])
      (use Suc(4) in auto)
  have loop: "semdelete_loop sem s = semdelete_loop sem s'"
    using lt r(1,2) by (subst semdelete_loop.simps) (simp add: Let_def)
  have "n = length (Q' (squeue (semtab s' sem)))" using r(4,5) ne Suc(2) by simp
  from Suc(1) [OF this r(3) _ Suc(5)] r(5,6) Suc(6) loop show ?case by simp
qed

lemma semdelete_kinv:
  assumes I: "kinv s"
  obtains r s' where "semdelete sem s = Some (r, s')" "kinv s'" "r = OK \<Longrightarrow> sstate (semtab s' sem) = S_FREE"
proof (cases "isbadsem sem \<or> sstate (semtab s sem) = S_FREE")
  case True
  then show thesis using that [of SYSERR s] I by (auto simp: semdelete_def)
next
  case False
  then have sem: "sem \<in> {0..<NSEM}" "sstate (semtab s sem) = S_USED"
    by (auto simp: isbadsem_def intro: sstate.exhaust)
  let ?g = "\<lambda>e. e\<lparr>sstate := S_FREE\<rparr>"
  obtain s1 Q where s1: "resched_cntl DEFER_START s = Some (OK, s1)" "s1 = s\<lparr>ndefers := 1, attempt := False\<rparr>"
    "dinv s1 Q" "counts_ok (semtab s) Q" using defer_start [OF I] .
  have start: "resched_cntl DEFER_START (upd_sem sem ?g s) = Some (OK, upd_sem sem ?g s1)"
  proof -
    have "ndefers s = 0" using I by (simp add: kinv_def)
    then show ?thesis by (simp add: resched_cntl_def Let_def s1(2))
  qed
  have "(semtab s)(sem := (semtab s sem)\<lparr>sstate := S_USED\<rparr>) = semtab s"
    using sem(2) by (simp add: fun_eq_iff)
  then have "counts_ok ((semtab (upd_sem sem ?g s1))(sem := (semtab (upd_sem sem ?g s1) sem)\<lparr>sstate := S_USED\<rparr>)) Q"
    using s1(2,4) by simp
  moreover have "dinv (upd_sem sem ?g s1) Q" using s1(3) by (simp add: dinv_upd_sem)
  ultimately obtain s2 Q2 where s2: "semdelete_loop sem (upd_sem sem ?g s1) = Some s2" "dinv s2 Q2"
    "counts_ok (semtab s2) Q2" "sstate (semtab s2 sem) = S_FREE"
    using semdelete_loop_dinv [of "upd_sem sem ?g s1" Q sem] sem(1) by auto
  obtain s' where "resched_cntl DEFER_STOP s2 = Some (OK, s')" "kinv s'" "kframe (s2\<lparr>ndefers := 0\<rparr>) s'"
    using defer_stop [OF s2(2,3)] by metis
  moreover from this have "semtab s' = semtab s2" by (simp add: kframe_def)
  ultimately show thesis using that False start s2(1,4) by (simp add: semdelete_def Let_def)
qed

lemma semreset_loop_dinv:
  assumes "dinv s Q" and "q \<in> qheads s" and "q \<noteq> readylist s"
  shows "\<exists>s' xs. semreset_loop q s = Some s' \<and> dinv s' (Q(q := [], readylist s := xs)) \<and> kframe s s'"
  using assms
proof (induction "length (Q q)" arbitrary: s Q)
  case 0
  then have "semreset_loop q s = Some s" using getfirst_empty [OF dinvD(5) [OF 0(2)] 0(3)]
    by (subst semreset_loop.simps) simp
  moreover have "Q(q := [], readylist s := Q (readylist s)) = Q" using 0(1,4) by (simp add: fun_eq_iff)
  then have "dinv s (Q(q := [], readylist s := Q (readylist s)))" using 0(2) by metis
  ultimately show ?case using kframe_refl by blast
next
  case (Suc n)
  from Suc(2) obtain h ts where ne: "Q q = h # ts" by (auto simp: Suc_length_conv)
  obtain s1 s' xs where t: "getfirst q s = (h, s1)" "ready h s1 = Some (OK, s')"
    "dinv s' (Q(q := ts, readylist s := xs))" "kframe s s'"
    by (rule take_ready [OF Suc(3,4,5) ne, of "getfirst q"]) auto
  note fr = kframeD [OF t(4)]
  have h: "h \<noteq> EMPTY" using kok_mem(1) [OF dinvD(1) [OF Suc(3)] Suc(4), of h] ne by auto
  have "semreset_loop q s = semreset_loop q s'"
    using t(1,2) h by (subst semreset_loop.simps) (simp add: Let_def)
  moreover obtain s'' ys where "semreset_loop q s' = Some s''"
    "dinv s'' (Q(q := ts, readylist s := xs, q := [], readylist s' := ys))" "kframe s' s''"
    using Suc(1) [of "Q(q := ts, readylist s := xs)" s'] Suc(2,4,5) ne t(3) fr by auto
  moreover have "Q(q := ts, readylist s := xs, q := [], readylist s' := ys) = Q(q := [], readylist s := ys)"
    using fr Suc(5) by auto
  ultimately show ?case using kframe_trans [OF t(4)] by metis
qed

lemma semreset_kinv:
  assumes I: "kinv s"
  obtains r s' where "semreset sem count s = Some (r, s')" "kinv s'" "r = OK \<Longrightarrow> scount (semtab s' sem) = count"
proof (cases "count < 0 \<or> isbadsem sem \<or> sstate (semtab s sem) = S_FREE")
  case True
  then show thesis using that [of SYSERR s] I by (auto simp: semreset_def)
next
  case False
  then have sem: "sem \<in> {0..<NSEM}" "sstate (semtab s sem) = S_USED" "0 \<le> count"
    by (auto simp: isbadsem_def intro: sstate.exhaust)
  let ?q = "squeue (semtab s sem)"
  obtain s1 Q where s1: "resched_cntl DEFER_START s = Some (OK, s1)" "s1 = s\<lparr>ndefers := 1, attempt := False\<rparr>"
    "dinv s1 Q" "counts_ok (semtab s) Q" using defer_start [OF I] .
  have st: "semtab s1 = semtab s" by (simp add: s1(2))
  note sq = sem_queue_facts [OF dinvD(1) [OF s1(3)] sem(1), unfolded st]
  obtain s2 xs where s2: "semreset_loop ?q s1 = Some s2" "dinv s2 (Q(?q := [], readylist s1 := xs))" "kframe s1 s2"
    using semreset_loop_dinv [OF s1(3) sq(1,2)] by auto
  let ?s3 = "upd_sem sem (\<lambda>e. e\<lparr>scount := count\<rparr>) s2" and ?e = "(semtab s sem)\<lparr>scount := count\<rparr>"
  have sem3: "semtab ?s3 = (semtab s)(sem := ?e)" using kframeD(1) [OF s2(3)] st by simp
  have "counts_ok ((semtab s)(sem := ?e)) (Q(?q := []))"
    by (rule counts_ok_upd [OF s1(4) sq(4) sem(1)]) (use sem in auto)
  moreover have D3: "dinv ?s3 (Q(?q := [], readylist s1 := xs))" using s2(2) by (simp add: dinv_upd_sem)
  have "readylist s1 = readylist ?s3" using kframeD(2) [OF s2(3)] by simp
  ultimately have "counts_ok (semtab ?s3) (Q(?q := [], readylist s1 := xs))"
    using counts_ok_ready [OF dinvD(4) [OF D3], of "Q(?q := [])" xs] sem3 by simp
  then obtain s' where "resched_cntl DEFER_STOP ?s3 = Some (OK, s')" "kinv s'" "kframe (?s3\<lparr>ndefers := 0\<rparr>) s'"
    using defer_stop [OF D3] by metis
  moreover from this have "semtab s' = semtab ?s3" by (simp add: kframe_def)
  ultimately show thesis using that False s1(1) s2(1) by (simp add: semreset_def Let_def)
qed

subsection \<open>wakeup and the clock interrupt\<close>

lemma counts_ok_sleep:
  assumes "heads_ok s"
  shows "counts_ok (semtab s) (Q(sleepq s := xs)) = counts_ok (semtab s) Q"
  using assms by (auto simp: counts_ok_def heads_ok_def)

lemma wakeup_loop_dinv:
  assumes "dinv s Q" and "counts_ok (semtab s) Q"
  shows "\<exists>s' Q'. wakeup_loop s = Some s' \<and> dinv s' Q' \<and> counts_ok (semtab s') Q' \<and> kframe s s' \<and>
    \<not> (nonempty s' (sleepq s') \<and> firstkey s' (sleepq s') \<le> 0)"
  using assms
proof (induction "length (Q (sleepq s))" arbitrary: s Q)
  case 0
  have "\<not> nonempty s (sleepq s)"
    using nonempty_queue [OF queuesD(1) [OF dinvD(5) [OF 0(2)] qheads_mem(2)]] 0(1) by simp
  moreover from this have "wakeup_loop s = Some s" by (subst wakeup_loop.simps) simp
  ultimately show ?case using 0(2,3) kframe_refl by blast
next
  case (Suc n)
  show ?case
  proof (cases "nonempty s (sleepq s) \<and> firstkey s (sleepq s) \<le> 0")
    case True
    have rs: "sleepq s \<noteq> readylist s" using dinvD(4) [OF Suc(3)] by (auto simp: heads_ok_def)
    from Suc(2) obtain h ts where ne: "Q (sleepq s) = h # ts" by (auto simp: Suc_length_conv)
    obtain s1 s' xs where t: "dequeue (sleepq s) s = (h, s1)" "ready h s1 = Some (OK, s')"
      "dinv s' (Q(sleepq s := ts, readylist s := xs))" "kframe s s'"
      by (rule take_ready [OF Suc(3) qheads_mem(2) rs ne, of "dequeue (sleepq s)"]) auto
    note fr = kframeD [OF t(4)]
    have "wakeup_loop s = wakeup_loop s'"
      using t(1,2) True by (subst wakeup_loop.simps) (simp add: Let_def)
    moreover have "counts_ok (semtab s') (Q(sleepq s := ts, readylist s := xs))"
      using Suc(4) fr(1) counts_ok_ready [OF dinvD(4) [OF Suc(3)]] counts_ok_sleep [OF dinvD(4) [OF Suc(3)]]
      by simp
    moreover have "n = length ((Q(sleepq s := ts, readylist s := xs)) (sleepq s'))" using fr(3) rs ne Suc(2) by simp
    ultimately show ?thesis using Suc(1) [OF _ t(3)] kframe_trans [OF t(4)] by metis
  next
    case False
    then have "wakeup_loop s = Some s" by (subst wakeup_loop.simps) (simp only: if_False)
    then show ?thesis using Suc(3,4) False kframe_refl by blast
  qed
qed

text \<open>Keys and queues decide whether the sleep queue has an expired entry.\<close>

lemma expired_iff:
  assumes "kok X s Q"
  shows "nonempty s (sleepq s) \<and> firstkey s (sleepq s) \<le> 0 \<longleftrightarrow>
    Q (sleepq s) \<noteq> [] \<and> qkey (queuetab s (hd (Q (sleepq s)))) \<le> 0"
proof -
  note isq = queuesD(1) [OF kokD(2) [OF assms] qheads_mem(2)]
  show ?thesis
    using nonempty_queue [OF isq] is_queue_first [OF isq]
    by (cases "Q (sleepq s)") (auto simp: firstkey_def firstid_def queuehead_def)
qed

lemma wakeup_kinv:
  assumes I: "kinv s"
  obtains s' where "wakeup s = Some s'" "kinv s'" "kframe s s'"
    "\<not> (nonempty s' (sleepq s') \<and> firstkey s' (sleepq s') \<le> 0)"
proof -
  obtain s1 Q where s1: "resched_cntl DEFER_START s = Some (OK, s1)" "s1 = s\<lparr>ndefers := 1, attempt := False\<rparr>"
    "dinv s1 Q" "counts_ok (semtab s) Q" using defer_start [OF I] .
  obtain s2 Q2 where s2: "wakeup_loop s1 = Some s2" "dinv s2 Q2" "counts_ok (semtab s2) Q2" "kframe s1 s2"
    "\<not> (nonempty s2 (sleepq s2) \<and> firstkey s2 (sleepq s2) \<le> 0)"
    using wakeup_loop_dinv [OF s1(3)] s1(2,4) by auto
  obtain s' xs where s': "resched_cntl DEFER_STOP s2 = Some (OK, s')" "kinv s'" "kframe (s2\<lparr>ndefers := 0\<rparr>) s'"
    "kok {} s' (Q2(readylist s2 := xs))" "\<And>x. x \<noteq> currpid s2 \<Longrightarrow> qkey (queuetab s' x) = qkey (queuetab s2 x)"
    using defer_stop [OF s2(2,3)] by blast
  have "kframe s s'" using s2(4) s'(3) I by (simp add: kframe_def s1(2) kinv_def)
  moreover have "\<not> (nonempty s' (sleepq s') \<and> firstkey s' (sleepq s') \<le> 0)"
  proof -
    have fr: "sleepq s' = sleepq s2" using s'(3) by (simp add: kframe_def)
    have rs: "sleepq s2 \<noteq> readylist s2" using dinvD(4) [OF s2(2)] by (auto simp: heads_ok_def)
    have "currpid s2 \<notin> set (Q2 (sleepq s2))"
      using kok_mem(3) [OF dinvD(1) [OF s2(2)] qheads_mem(2), of "currpid s2"] dinvD(3) [OF s2(2)] by (auto simp: home_def)
    then have "qkey (queuetab s' (hd (Q2 (sleepq s2)))) = qkey (queuetab s2 (hd (Q2 (sleepq s2))))" if "Q2 (sleepq s2) \<noteq> []"
      using s'(5) that hd_in_set by metis
    then show ?thesis
      using s2(5) rs fr unfolding expired_iff [OF s'(4)] expired_iff [OF dinvD(1) [OF s2(2)]] by auto
  qed
  ultimately show thesis using that s1(1) s2(1) s'(1,2) by (simp add: wakeup_def)
qed

lemma kinv_cong:
  assumes "proctab s' = proctab s" "queuetab s' = queuetab s" "readylist s' = readylist s" "semtab s' = semtab s"
    "sleepq s' = sleepq s" "currpid s' = currpid s" "ndefers s' = ndefers s"
  shows "kinv s' = kinv s"
  using assms kok_cong [of s' s] by (simp add: kinv_def)

lemma sleep_key_kinv:
  assumes I: "kinv s" and ne: "\<not> isempty s (sleepq s)"
  shows "kinv (upd_q (firstid s (sleepq s)) (\<lambda>e. e\<lparr>qkey := k e\<rparr>) s)"
proof -
  from I obtain Q where Q: "kok {} s Q" "counts_ok (semtab s) Q" by (auto simp: kinv_def)
  note isq = queuesD(1) [OF kokD(2) [OF Q(1)] qheads_mem(2)]
  have "Q (sleepq s) \<noteq> []" using isempty_queue [OF isq] ne by simp
  then have mem: "firstid s (sleepq s) \<in> set (Q (sleepq s))"
    using is_queue_first [OF isq] by (auto simp: firstid_def queuehead_def neq_Nil_conv)
  have rs: "sleepq s \<noteq> readylist s" using kokD(1) [OF Q(1)] by (auto simp: heads_ok_def)
  have "firstid s (sleepq s) \<notin> set (Q (readylist s))"
    using kok_mem(3) [OF Q(1) qheads_mem(1)] kok_mem(3) [OF Q(1) qheads_mem(2) mem] rs by fastforce
  then have "kok {} (upd_q (firstid s (sleepq s)) (\<lambda>e. e\<lparr>qkey := k e\<rparr>) s) Q"
    using kok_key [OF Q(1) kok_mem(1) [OF Q(1) qheads_mem(2) mem]] by blast
  then show ?thesis using I Q(2) by (auto simp: kinv_def)
qed

lemma clkhandler_kinv:
  assumes I: "kinv s"
  obtains s' where "clkhandler s = Some s'" "kinv s'"
proof -
  define s1 where "s1 = (let s = s\<lparr>myglobalclock := myglobalclock s + 1\<rparr>; s = s\<lparr>count1000 := count1000 s - 1\<rparr>
    in if count1000 s \<le> 0 then let s = s\<lparr>clktime := clktime s + 1\<rparr> in s\<lparr>count1000 := 1000\<rparr> else s)"
  have I1: "kinv s1" using I kinv_cong [of s1 s] by (simp add: s1_def Let_def)
  define tick where "tick = (\<lambda>s. upd_q (firstid s (sleepq s)) (\<lambda>e. e\<lparr>qkey := qkey e - 1\<rparr>) s :: 'a kstate_scheme)"
  define step where "step = (if \<not> isempty s1 (sleepq s1)
      then if qkey (queuetab (tick s1) (firstid (tick s1) (sleepq (tick s1)))) \<le> 0 then wakeup (tick s1)
           else Some (tick s1)
      else Some s1)"
  have "\<exists>s2. step = Some s2 \<and> kinv s2"
  proof (cases "isempty s1 (sleepq s1)")
    case False
    then have "kinv (tick s1)" unfolding tick_def by (rule sleep_key_kinv [OF I1])
    then show ?thesis using wakeup_kinv [of "tick s1"] by (auto simp: step_def False)
  qed (use I1 in \<open>simp add: step_def\<close>)
  then obtain s2 where s2: "step = Some s2" "kinv s2" by blast
  let ?s3 = "s2\<lparr>preempt := preempt s2 - 1\<rparr>"
  have "clkhandler s = do { s \<leftarrow> step; let s = s\<lparr>preempt := preempt s - 1\<rparr>;
      if preempt s \<le> 0 then let s = s\<lparr>preempt := QUANTUM\<rparr> in resched s else Some s }"
    unfolding clkhandler_def step_def tick_def s1_def Let_def by (rule refl)
  then have eq: "clkhandler s = (if preempt ?s3 \<le> 0 then resched (?s3\<lparr>preempt := QUANTUM\<rparr>) else Some ?s3)"
    by (simp add: s2(1) Let_def)
  have "kinv ?s3" "kinv (?s3\<lparr>preempt := QUANTUM\<rparr>)"
    using s2(2) kinv_cong [of ?s3 s2] kinv_cong [of "?s3\<lparr>preempt := QUANTUM\<rparr>" s2] by simp_all
  then show thesis
    using that eq yield_kinv [of "?s3\<lparr>preempt := QUANTUM\<rparr>"] by (auto simp: yield_def split: if_splits)
qed

end
