(* ===== verification/Kernel_Machine.thy ===== *)
theory Kernel_Machine
  imports Kernel_Deferred Interfaces
begin

section \<open>Delays, messages, and the process manager as a state machine\<close>

text \<open>
  The remaining calls (\<open>sleepms\<close>, \<open>sleep\<close>, \<open>send\<close>, \<open>receive\<close>, \<open>recvclr\<close>, \<open>recvtime\<close>, \<open>chprio\<close>,
  \<open>semcreate\<close>), then the step relation \<open>kstep\<close>: one call of the current process, the end of a
  call that was blocked, or one clock interrupt.
\<close>

subsection \<open>Delays\<close>

lemma set_timer_insert: "set (map fst (timer_insert p t T)) = insert p (set (map fst T))"
proof -
  have "set (map fst T) = set (map fst (takeWhile (\<lambda>(_, u). u \<le> t) T)) \<union> set (map fst (dropWhile (\<lambda>(_, u). u \<le> t) T))"
    by (metis map_append set_append takeWhile_dropWhile_id)
  then show ?thesis by (auto simp: timer_insert_def)
qed

text \<open>The current process goes to the delta list and gives the processor away.\<close>

lemma delay_block:
  assumes I: "kinv s" and np: "currpid s \<noteq> NULLPROC" and st: "st \<in> {PR_SLEEP, PR_RECTIM}"
  obtains s1 s' where "insertd (currpid s) (sleepq s) key s = Some (OK, s1)" "currpid s1 = currpid s"
    "resched (upd_proc (currpid s) (\<lambda>p. p\<lparr>prstate := st\<rparr>) s1) = Some s'" "kinv s'" "kframe s s'"
proof -
  let ?c = "currpid s"
  from I obtain Q where Q: "kok {} s Q" "counts_ok (semtab s) Q" "prstate (proctab s ?c) = PR_CURR"
    "ndefers s = 0" "?c \<in> {0..<NPROC}" "?c \<notin> on_queues (qheads s) Q" by (rule kinvE)
  have rs: "sleepq s \<noteq> readylist s" using kokD(1) [OF Q(1)] by (auto simp: heads_ok_def)
  have "\<not> isbadpid s ?c" using Q(3,5) by (simp add: isbadpid_def)
  then obtain qt' xs' where e: "insertd ?c (sleepq s) key s = Some (OK, s\<lparr>queuetab := qt'\<rparr>)"
    "queues qt' (qheads s) (Q(sleepq s := xs'))"
    "delta_times (\<lambda>x. qkey (qt' x)) 0 xs' = timer_insert ?c key (delta_times (\<lambda>x. qkey (queuetab s x)) 0 (Q (sleepq s)))"
    "\<And>x. x \<notin> insert ?c (set (Q (sleepq s))) \<Longrightarrow> qkey (qt' x) = qkey (queuetab s x)"
    using insertd_queues [OF kokD(2) [OF Q(1)] qheads_mem(2) _ Q(6)] by metis
  have set: "set xs' = insert ?c (set (Q (sleepq s)))"
    using arg_cong [OF e(3), of "\<lambda>T. set (map fst T)"] unfolding set_timer_insert by simp
  have keys: "qkey (qt' x) = qkey (queuetab s x)" if "x \<in> set (Q (readylist s))" for x
  proof -
    have h: "home s x = Some (readylist s)" using kok_mem(3) [OF Q(1) qheads_mem(1) that] .
    then have "x \<notin> set (Q (sleepq s))" using kok_mem(3) [OF Q(1) qheads_mem(2), of x] rs by auto
    moreover have "x \<noteq> ?c" using h Q(3) by (auto simp: home_def)
    ultimately show ?thesis using e(4) by blast
  qed
  let ?s2 = "upd_proc ?c (\<lambda>p. p\<lparr>prstate := st\<rparr>) (s\<lparr>queuetab := qt'\<rparr>)"
  have "kok {} ?s2 (Q(sleepq s := xs'))"
  proof (rule kok_move [OF Q(1), where h = ?c])
    show "prio_sorted (\<lambda>x. qkey (queuetab ?s2 x)) ((Q(sleepq s := xs')) (readylist s))"
      using kokD(6) [OF Q(1)] rs prio_sorted_cong [of "Q (readylist s)", OF keys] by simp
    show "?c \<in> set ((Q(sleepq s := xs')) q) \<longleftrightarrow> ?c \<notin> {} \<and> home ?s2 ?c = Some q" if "q \<in> qheads s" for q
      using set Q(6) that st by (auto simp: home_def on_queues_def)
    show "p = currpid ?s2" if "p \<noteq> ?c" "p \<in> {0..<NPROC}" "prstate (proctab s p) = PR_CURR" for p
      using kokD(9) [OF Q(1) that(2,3)] by simp
  qed (use e(2) set np Q(5) st in auto)
  moreover have "counts_ok (semtab ?s2) (Q(sleepq s := xs'))"
    using counts_ok_sleep [OF kokD(1) [OF Q(1)]] Q(2) by simp
  ultimately obtain s' where "resched ?s2 = Some s'" "kinv s'" "kframe ?s2 s'"
    using resched_kinv [of ?s2] Q(4) by auto
  moreover from this have "kframe s s'" by (simp add: kframe_def)
  ultimately show thesis using that [of "s\<lparr>queuetab := qt'\<rparr>"] e(1) by simp
qed

lemma sleepms_kinv:
  assumes I: "kinv s" and np: "currpid s \<noteq> NULLPROC"
  obtains s' where "sleepms d s = Some (OK, s')" "kinv s'"
proof (cases "d = 0")
  case True
  obtain s' where "yield s = Some (OK, s')" "kinv s'" using yield_kinv [OF I] .
  then show thesis using that True by (simp add: sleepms_def)
next
  case False
  obtain s1 s' where "insertd (currpid s) (sleepq s) (sint d) s = Some (OK, s1)" "currpid s1 = currpid s"
    "resched (upd_proc (currpid s) (\<lambda>p. p\<lparr>prstate := PR_SLEEP\<rparr>) s1) = Some s'" "kinv s'"
    using delay_block [OF I np, of PR_SLEEP] by blast
  then show thesis using that False by (simp add: sleepms_def Let_def)
qed

lemma sleep_kinv:
  assumes I: "kinv s" and np: "currpid s \<noteq> NULLPROC"
  obtains r s' where "sleep d s = Some (r, s')" "kinv s'"
proof -
  obtain s' where "sleepms (1000 * d) s = Some (OK, s')" "kinv s'" using sleepms_kinv [OF I np] .
  then show thesis using that I by (cases "d > MAXSECONDS") (auto simp: sleep_def)
qed

text \<open>Leaving the delta list: the time of the process that leaves goes to its successor.\<close>

lemma delta_times_remove:
  assumes d: "distinct (as @ p # bs)" and k': "\<And>x. x \<in> set as \<Longrightarrow> k' x = k x"
    "\<And>x. x \<in> set (tl bs) \<Longrightarrow> k' x = k x" "bs \<noteq> [] \<Longrightarrow> k' (hd bs) = k (hd bs) + k p"
  shows "delta_times k' acc (as @ bs) = filter (\<lambda>(x, _). x \<noteq> p) (delta_times k acc (as @ p # bs))"
proof -
  have keep: "filter (\<lambda>(x, _). x \<noteq> p) (delta_times k acc xs) = delta_times k acc xs" if "p \<notin> set xs" for acc xs
    using that by (induction xs arbitrary: acc) auto
  have as: "delta_times k' acc as = delta_times k acc as" for acc by (rule delta_times_cong) (rule k'(1))
  have sum: "sum_list (map k' as) = sum_list (map k as)" using k'(1) by (simp cong: map_cong)
  have bs: "delta_times k' acc bs = delta_times k (acc + k p) bs" for acc
  proof (cases bs)
    case (Cons b cs)
    have "delta_times k' acc cs = delta_times k acc cs" for acc
      using k'(2) Cons by (intro delta_times_cong) auto
    then show ?thesis using k'(3) Cons by (simp add: algebra_simps)
  qed simp
  show ?thesis using d by (simp add: delta_times_append as sum bs keep)
qed

lemma unsleep_kok:
  assumes K: "kok {} s Q" and p: "p \<in> {0..<NPROC}" and st: "prstate (proctab s p) \<in> {PR_SLEEP, PR_RECTIM}"
  obtains qt' where "unsleep p s = (OK, s\<lparr>queuetab := qt'\<rparr>)"
    "kok {p} (s\<lparr>queuetab := qt'\<rparr>) (Q(sleepq s := remove1 p (Q (sleepq s))))"
    "delta_times (\<lambda>x. qkey (qt' x)) 0 (remove1 p (Q (sleepq s))) =
       filter (\<lambda>(x, _). x \<noteq> p) (delta_times (\<lambda>x. qkey (queuetab s x)) 0 (Q (sleepq s)))"
proof -
  let ?q = "sleepq s"
  have rs: "?q \<noteq> readylist s" using kokD(1) [OF K] by (auto simp: heads_ok_def)
  have mem: "p \<in> set (Q ?q)" using kok_on [OF K p qheads_mem(2)] st by (auto simp: home_def)
  have np: "p \<noteq> NULLPROC" using st kokD(4) [OF K] by auto
  note QS = kokD(2) [OF K]
  obtain as bs where split: "Q ?q = as @ p # bs" using split_list [OF mem] by blast
  note isq = queuesD(1) [OF QS qheads_mem(2), unfolded split]
  have d: "distinct (as @ p # bs)" using queuesD(3) [OF QS qheads_mem(2)] split by simp
  have nx: "qnext (queuetab s p) = hd (bs @ [?q + 1])" using is_queue_neighbours(2) [OF isq] .
  let ?n = "qnext (queuetab s p)"
  have lt: "?n < NPROC \<longleftrightarrow> bs \<noteq> []"
    using nx queuesD(4,5) [OF QS qheads_mem(2)] split by (cases bs) auto
  define s1 where "s1 = (if ?n < NPROC then upd_q ?n (\<lambda>e. e\<lparr>qkey := qkey e + qkey (queuetab s p)\<rparr>) s else s)"
  have off: "?n \<in> {0..<NPROC}" "?n \<notin> set (Q (readylist s))" if "?n < NPROC"
  proof -
    have m: "?n \<in> set (Q ?q)" using that lt nx split by (cases bs) auto
    show "?n \<in> {0..<NPROC}" using kok_mem(1) [OF K qheads_mem(2) m] .
    show "?n \<notin> set (Q (readylist s))"
      using kok_mem(3) [OF K qheads_mem(1), of ?n] kok_mem(3) [OF K qheads_mem(2) m] rs by auto
  qed
  have K1: "kok {} s1 Q" using kok_key [OF K] off K by (auto simp: s1_def)
  have s1: "qheads s1 = qheads s" "sleepq s1 = ?q" "readylist s1 = readylist s" by (auto simp: s1_def)
  obtain qt' where g: "getitem p s1 = (p, s1\<lparr>queuetab := qt'\<rparr>)"
    "queues qt' (qheads s1) (Q(?q := remove1 p (Q ?q)))" "\<And>x. qkey (qt' x) = qkey (queuetab s1 x)"
    using getitem_queues [OF kokD(2) [OF K1], of ?q p] mem s1 by auto
  have s1q: "s1\<lparr>queuetab := qt'\<rparr> = s\<lparr>queuetab := qt'\<rparr>" by (simp add: s1_def upd_q_def)
  have "unsleep p s = (OK, s\<lparr>queuetab := qt'\<rparr>)"
    using p st g(1) s1q by (auto simp: unsleep_def isbadpid_def Let_def s1_def [symmetric])
  moreover have "kok {p} (s\<lparr>queuetab := qt'\<rparr>) (Q(?q := remove1 p (Q ?q)))"
    using kok_leave [OF K1 _ mem np g(2,3)] s1 s1q by simp
  moreover have "remove1 p (Q ?q) = as @ bs" using d split by (auto simp: remove1_append)
  moreover have "delta_times (\<lambda>x. qkey (qt' x)) 0 (as @ bs) =
      filter (\<lambda>(x, _). x \<noteq> p) (delta_times (\<lambda>x. qkey (queuetab s x)) 0 (as @ p # bs))"
    by (rule delta_times_remove [OF d]; cases bs) (use d lt nx in \<open>auto simp: g(3) s1_def\<close>)
  ultimately show thesis using that split by simp
qed

subsection \<open>Messages\<close>

lemma kinv_same_place:
  assumes I: "kinv s" and f: "prstate (f (proctab s p)) = prstate (proctab s p)"
    "prsem (f (proctab s p)) = prsem (proctab s p)"
    "- 32768 \<le> prprio (f (proctab s p))" "prprio (f (proctab s p)) \<le> 32767"
  shows "kinv (upd_proc p f s)"
proof -
  from I obtain Q where Q: "kok {} s Q" "counts_ok (semtab s) Q" "prstate (proctab s (currpid s)) = PR_CURR"
    "ndefers s = 0" by (auto simp: kinv_def)
  have "kok {} (upd_proc p f s) Q" by (rule kok_same_place [OF Q(1)]) (use f in auto)
  then show ?thesis using Q f(1) by (auto simp: kinv_def)
qed

lemma prio_range:
  assumes "kinv s"
  shows "- 32768 \<le> prprio (proctab s p)" "prprio (proctab s p) \<le> 32767"
  using assms kokD(7,8) by (auto simp: kinv_def)

lemma same_but_stateD:
  assumes "same_but_state pt pt'"
  shows "prmsg (pt' p) = prmsg (pt p)" "prhasmsg (pt' p) = prhasmsg (pt p)"
    "prstate (pt p) \<notin> {PR_CURR, PR_READY} \<Longrightarrow> pt' p = pt p"
proof -
  have "pt' p = (pt p)\<lparr>prstate := prstate (pt' p)\<rparr>" using assms by (simp add: same_but_state_def)
  from arg_cong [OF this, of prmsg] arg_cong [OF this, of prhasmsg]
  show "prmsg (pt' p) = prmsg (pt p)" "prhasmsg (pt' p) = prhasmsg (pt p)" by simp_all
  show "prstate (pt p) \<notin> {PR_CURR, PR_READY} \<Longrightarrow> pt' p = pt p" using assms by (simp add: same_but_state_def)
qed

text \<open>The message reaches the receiver, whether it waits for one or not.\<close>

lemma send_delivers:
  assumes I: "kinv s" and nb: "\<not> isbadpid s p" "\<not> prhasmsg (proctab s p)"
  obtains s' where "send p msg s = Some (OK, s')" "kinv s'" "prmsg (proctab s' p) = msg" "prhasmsg (proctab s' p)"
proof -
  let ?s1 = "upd_proc p (\<lambda>e. e\<lparr>prmsg := msg, prhasmsg := True\<rparr>) s"
  have p: "p \<in> {0..<NPROC}" "prstate (proctab s p) \<noteq> PR_FREE" using nb(1) by (auto simp: isbadpid_def)
  have I1: "kinv ?s1" by (rule kinv_same_place [OF I]) (use prio_range [OF I] in auto)
  then obtain Q where Q: "kok {} ?s1 Q" "counts_ok (semtab ?s1) Q" "ndefers ?s1 = 0" by (auto simp: kinv_def)
  show thesis
  proof (cases "prstate (proctab s p)")
    case PR_RECV
    have off: "p \<notin> on_queues (qheads ?s1) Q" by (rule home_None_not_on [OF Q(1)]) (simp add: home_def PR_RECV)
    have "prstate (proctab ?s1 p) \<noteq> PR_FREE" using p(2) by simp
    then obtain s' where s': "ready p ?s1 = Some (OK, s')" "kinv s'"
      "same_but_state ((proctab ?s1)(p := (proctab ?s1 p)\<lparr>prstate := PR_READY\<rparr>)) (proctab s')"
      using ready_kinv [OF Q(1) p(1) off _ empty_subsetI Q(3,2)] by blast
    then show thesis using that nb PR_RECV p(2) same_but_stateD(1,2) [OF s'(3), of p]
      by (simp add: send_def upd_proc_twice Let_def)
  next
    case PR_RECTIM
    have "prstate (proctab ?s1 p) \<in> {PR_SLEEP, PR_RECTIM}" using PR_RECTIM by simp
    then obtain qt' where u: "unsleep p ?s1 = (OK, ?s1\<lparr>queuetab := qt'\<rparr>)"
      "kok {p} (?s1\<lparr>queuetab := qt'\<rparr>) (Q(sleepq ?s1 := remove1 p (Q (sleepq ?s1))))"
      using unsleep_kok [OF Q(1) p(1)] by metis
    let ?s2 = "?s1\<lparr>queuetab := qt'\<rparr>"
    have c: "counts_ok (semtab ?s2) (Q(sleepq ?s1 := remove1 p (Q (sleepq ?s1))))"
      using Q(2) counts_ok_sleep [OF kokD(1) [OF Q(1)]] by simp
    have "prstate (proctab ?s2 p) \<noteq> PR_FREE" "ndefers ?s2 = 0" using p(2) Q(3) by simp_all
    then obtain s' where s': "ready p ?s2 = Some (OK, s')" "kinv s'"
      "same_but_state ((proctab ?s2)(p := (proctab ?s2 p)\<lparr>prstate := PR_READY\<rparr>)) (proctab s')"
      using ready_kinv [OF u(2) p(1) kok_not_on [OF u(2)] _ subset_refl _ c] by blast
    then show thesis using that nb PR_RECTIM u(1) p(2) same_but_stateD(1,2) [OF s'(3), of p]
      by (simp add: send_def upd_proc_twice Let_def)
  qed (use that nb I1 p(2) in \<open>auto simp: send_def upd_proc_twice Let_def\<close>)
qed

lemma send_kinv:
  assumes I: "kinv s"
  obtains r s' where "send p msg s = Some (r, s')" "kinv s'"
proof (cases "isbadpid s p \<or> prhasmsg (proctab s p)")
  case True
  then show thesis using that [of SYSERR s] I by (auto simp: send_def)
next
  case False
  then show thesis using that send_delivers [OF I] by metis
qed

lemma clear_msg_kinv: "kinv s \<Longrightarrow> kinv (upd_proc p (\<lambda>e. e\<lparr>prhasmsg := b\<rparr>) s)"
  by (rule kinv_same_place) (use prio_range in auto)

lemma receive_kinv:
  assumes I: "kinv s" and np: "currpid s \<noteq> NULLPROC"
  obtains r s' where "receive s = Some (r, s')" "kinv s'"
proof (cases "prhasmsg (proctab s (currpid s))")
  case True
  then show thesis using that clear_msg_kinv [OF I] by (simp add: receive_def receive_cont_def)
next
  case False
  from I obtain Q where Q: "kok {} s Q" "counts_ok (semtab s) Q" "prstate (proctab s (currpid s)) = PR_CURR"
    "ndefers s = 0" "currpid s \<in> {0..<NPROC}" by (rule kinvE)
  let ?s1 = "upd_proc (currpid s) (\<lambda>p. p\<lparr>prstate := PR_RECV\<rparr>) s"
  have "kok {} ?s1 Q" by (rule kok_off [OF Q(1,5) np]) (use Q(3) in \<open>auto simp: home_def\<close>)
  then obtain s' where s': "resched ?s1 = Some s'" "kinv s'"
    using resched_kinv [of ?s1 Q] Q(2,4) by auto
  then have "\<not> ndefers s' > 0" by (simp add: kinv_def)
  then show thesis using that False s' by (simp add: receive_def)
qed

lemma recvtime_kinv:
  assumes I: "kinv s" and np: "currpid s \<noteq> NULLPROC"
  obtains r s' where "recvtime w s = Some (r, s')" "kinv s'"
proof (cases "w < 0 \<or> prhasmsg (proctab s (currpid s))")
  case True
  then show thesis using that I clear_msg_kinv [OF I] by (cases "w < 0") (auto simp: recvtime_def recvtime_cont_def Let_def)
next
  case False
  obtain s1 s' where s': "insertd (currpid s) (sleepq s) w s = Some (OK, s1)" "currpid s1 = currpid s"
    "resched (upd_proc (currpid s) (\<lambda>p. p\<lparr>prstate := PR_RECTIM\<rparr>) s1) = Some s'" "kinv s'"
    using delay_block [OF I np, of PR_RECTIM] by blast
  then have "\<not> ndefers s' > 0" by (simp add: kinv_def)
  then show thesis using that False s' by (simp add: recvtime_def Let_def)
qed

subsection \<open>Creating a semaphore, changing a priority\<close>

lemma newsem_loop_cases:
  "(\<exists>n. newsem_loop i s = (SYSERR, s\<lparr>nextsem := n\<rparr>)) \<or>
   (\<exists>sem n. newsem_loop i s = (sem, upd_sem sem (\<lambda>e. e\<lparr>sstate := S_USED\<rparr>) (s\<lparr>nextsem := n\<rparr>)) \<and>
      sstate (semtab s sem) = S_FREE)"
proof (induction i arbitrary: s)
  case 0
  have "newsem_loop 0 s = (SYSERR, s\<lparr>nextsem := nextsem s\<rparr>)" by simp
  then show ?case by blast
next
  case (Suc i)
  define n where "n = (if nextsem s + 1 \<ge> NSEM then 0 else nextsem s + 1)"
  have step: "newsem_loop (Suc i) s =
      (if sstate (semtab s (nextsem s)) = S_FREE
       then (nextsem s, upd_sem (nextsem s) (\<lambda>e. e\<lparr>sstate := S_USED\<rparr>) (s\<lparr>nextsem := n\<rparr>))
       else newsem_loop i (s\<lparr>nextsem := n\<rparr>))"
    by (simp add: Let_def n_def)
  show ?case
  proof (cases "sstate (semtab s (nextsem s)) = S_FREE")
    case True
    then show ?thesis using step by auto
  next
    case False
    then show ?thesis using Suc [of "s\<lparr>nextsem := n\<rparr>"] step by simp
  qed
qed

lemma upd_sem_twice: "upd_sem i f (upd_sem i g s) = upd_sem i (\<lambda>e. f (g e)) s"
  by (simp add: upd_sem_def)

lemma upd_sem_free_kinv:
  assumes I: "kinv s" and g: "\<And>e. squeue (g e) = squeue e"
    and i: "i \<in> {0..<NSEM} \<Longrightarrow> sstate (semtab s i) = S_FREE \<and> 0 \<le> scount (g (semtab s i))"
  shows "kinv (upd_sem i g s)"
proof -
  from I obtain Q where Q: "kok {} s Q" "counts_ok (semtab s) Q" by (auto simp: kinv_def)
  have "counts_ok (semtab (upd_sem i g s)) Q"
    unfolding counts_ok_def
  proof
    fix j assume j: "j \<in> {0..<NSEM}"
    show "int (length (Q (squeue (semtab (upd_sem i g s) j)))) = (if sstate (semtab (upd_sem i g s) j) = S_USED
        then max 0 (- scount (semtab (upd_sem i g s) j)) else 0)"
      using counts_okD [OF Q(2) j] i j g by (cases "j = i") auto
  qed
  moreover have "kok {} (upd_sem i g s) Q" using Q(1) upd_sem_kok [of g, OF g] by blast
  moreover have "prstate (proctab s (currpid s)) = PR_CURR" "ndefers s = 0" using I by (auto simp: kinv_def)
  ultimately show ?thesis unfolding kinv_def by auto
qed

lemma semcreate_kinv:
  assumes I: "kinv s"
  shows "kinv (snd (semcreate count s))"
proof (cases "count < 0")
  case True
  then show ?thesis using I by (simp add: semcreate_def)
next
  case False
  have I': "kinv (s\<lparr>nextsem := n\<rparr>)" for n using I kinv_cong [of "s\<lparr>nextsem := n\<rparr>" s] by simp
  from newsem_loop_cases [of "nat NSEM" s, folded newsem_def] show ?thesis
  proof (elim disjE exE conjE)
    fix n assume "newsem s = (SYSERR, s\<lparr>nextsem := n\<rparr>)"
    then show ?thesis using I' False by (simp add: semcreate_def)
  next
    fix sem n assume n: "newsem s = (sem, upd_sem sem (\<lambda>e. e\<lparr>sstate := S_USED\<rparr>) (s\<lparr>nextsem := n\<rparr>))"
      "sstate (semtab s sem) = S_FREE"
    have "snd (semcreate count s) = upd_sem sem
        (if sem = SYSERR then (\<lambda>e. e\<lparr>sstate := S_USED\<rparr>) else (\<lambda>e. e\<lparr>sstate := S_USED, scount := count\<rparr>)) (s\<lparr>nextsem := n\<rparr>)"
      using False n(1) by (auto simp: semcreate_def upd_sem_twice)
    moreover have "kinv (upd_sem sem
        (if sem = SYSERR then (\<lambda>e. e\<lparr>sstate := S_USED\<rparr>) else (\<lambda>e. e\<lparr>sstate := S_USED, scount := count\<rparr>)) (s\<lparr>nextsem := n\<rparr>))"
      by (rule upd_sem_free_kinv [OF I']) (use n(2) False in auto)
    ultimately show ?thesis by simp
  qed
qed

lemma chprio_kinv:
  assumes "kinv s" and "- 32768 \<le> newprio" and "newprio \<le> 32767"
  shows "kinv (snd (chprio p newprio s))"
  using assms by (auto simp: chprio_def intro!: kinv_same_place)

subsection \<open>The machine\<close>

text \<open>A step is one call of the process that runs, the rest of a \<open>receive\<close> or \<open>recvtime\<close> of a
  process that runs again, or a clock interrupt.\<close>

datatype kcall =
    Yield | Resume pid32 | Suspend pid32 | Chprio pid32 int
  | Wait sid32 | Signal sid32 | Signaln sid32 int | Semcreate int | Semdelete sid32 | Semreset sid32 int
  | Sleepms u32 | Sleep u32 | Clock
  | Send pid32 u32 | Receive | Receive_cont | Recvclr | Recvtime int | Recvtime_cont

fun kexec :: "kcall \<Rightarrow> 'a kstate_scheme \<Rightarrow> 'a kstate_scheme option" where
  "kexec Yield s = map_option snd (yield s)"
| "kexec (Resume p) s = map_option snd (resume p s)"
| "kexec (Suspend p) s = map_option snd (suspend p s)"
| "kexec (Chprio p prio) s = Some (snd (chprio p prio s))"
| "kexec (Wait sem) s = map_option snd (wait sem s)"
| "kexec (Signal sem) s = map_option snd (signal sem s)"
| "kexec (Signaln sem n) s = map_option snd (signaln sem n s)"
| "kexec (Semcreate n) s = Some (snd (semcreate n s))"
| "kexec (Semdelete sem) s = map_option snd (semdelete sem s)"
| "kexec (Semreset sem n) s = map_option snd (semreset sem n s)"
| "kexec (Sleepms d) s = map_option snd (sleepms d s)"
| "kexec (Sleep d) s = map_option snd (sleep d s)"
| "kexec Clock s = clkhandler s"
| "kexec (Send p msg) s = map_option snd (send p msg s)"
| "kexec Receive s = map_option snd (receive s)"
| "kexec Receive_cont s = Some (snd (receive_cont (currpid s) s))"
| "kexec Recvclr s = Some (snd (recvclr s))"
| "kexec (Recvtime w) s = map_option snd (recvtime w s)"
| "kexec Recvtime_cont s = Some (snd (recvtime_cont (currpid s) s))"

text \<open>The null process never makes a call that can block it, and priorities have 16 bits.\<close>

fun kallowed :: "kcall \<Rightarrow> 'a kstate_scheme \<Rightarrow> bool" where
  "kallowed (Wait sem) s \<longleftrightarrow> currpid s \<noteq> NULLPROC"
| "kallowed (Sleepms d) s \<longleftrightarrow> currpid s \<noteq> NULLPROC"
| "kallowed (Sleep d) s \<longleftrightarrow> currpid s \<noteq> NULLPROC"
| "kallowed Receive s \<longleftrightarrow> currpid s \<noteq> NULLPROC"
| "kallowed (Recvtime w) s \<longleftrightarrow> currpid s \<noteq> NULLPROC"
| "kallowed (Chprio p prio) s \<longleftrightarrow> - 32768 \<le> prio \<and> prio \<le> 32767"
| "kallowed _ s \<longleftrightarrow> True"

lemma kexec_kinv:
  assumes I: "kinv s" and a: "kallowed c s"
  shows "\<exists>s'. kexec c s = Some s' \<and> kinv s'"
proof (cases c)
  case Yield
  show ?thesis by (rule yield_kinv [OF I]) (auto simp: Yield)
next
  case (Resume p)
  show ?thesis by (rule resume_kinv [OF I, of p]) (auto simp: Resume)
next
  case (Suspend p)
  show ?thesis by (rule suspend_kinv [OF I, of p]) (auto simp: Suspend)
next
  case (Signal sem)
  show ?thesis by (rule signal_kinv [OF I, of sem]) (auto simp: Signal)
next
  case (Signaln sem n)
  show ?thesis by (rule signaln_kinv [OF I, of sem n]) (auto simp: Signaln)
next
  case (Semdelete sem)
  show ?thesis by (rule semdelete_kinv [OF I, of sem]) (auto simp: Semdelete)
next
  case (Semreset sem n)
  show ?thesis by (rule semreset_kinv [OF I, of sem n]) (auto simp: Semreset)
next
  case Clock
  show ?thesis by (rule clkhandler_kinv [OF I]) (auto simp: Clock)
next
  case (Send p msg)
  show ?thesis by (rule send_kinv [OF I, of p msg]) (auto simp: Send)
next
  case (Wait sem)
  show ?thesis by (rule wait_kinv [OF I, of sem]) (use a in \<open>auto simp: Wait\<close>)
next
  case (Sleepms d)
  show ?thesis by (rule sleepms_kinv [OF I, of d]) (use a in \<open>auto simp: Sleepms\<close>)
next
  case (Sleep d)
  show ?thesis by (rule sleep_kinv [OF I, of d]) (use a in \<open>auto simp: Sleep\<close>)
next
  case Receive
  show ?thesis by (rule receive_kinv [OF I]) (use a in \<open>auto simp: Receive\<close>)
next
  case (Recvtime w)
  show ?thesis by (rule recvtime_kinv [OF I, of w]) (use a in \<open>auto simp: Recvtime\<close>)
qed (use I a chprio_kinv [OF I] semcreate_kinv [OF I] clear_msg_kinv [OF I]
    in \<open>auto simp: receive_cont_def recvclr_def recvtime_cont_def Let_def\<close>)

interpretation km: machine kexec kallowed kinv
  by unfold_locales (rule kexec_kinv)

end
