(* ===== verification/Kernel_Boot.thy ===== *)
theory Kernel_Boot
  imports Kernel_Machine
begin

section \<open>The process manager at boot\<close>

text \<open>
  The part of \<open>sysinit\<close> (system/initialize.c) that sets up the process table, the semaphore
  table, the ready list and the sleep queue. \<open>kzero\<close> is the kernel data segment as the loader
  leaves it: all zero, but for the static locals of newqueue (first list after the process
  entries) and clkhandler. The result satisfies \<open>kinv\<close>, whatever the stack of the null process is.
\<close>

definition procent0 :: procent where
  "procent0 = \<lparr>prstate = PR_FREE, prprio = 0, prstkptr = 0, prstkbase = 0, prstklen = 0,
     prname = replicate PNMLEN (CHR 0x00), prsem = 0, prparent = 0, prmsg = 0, prhasmsg = False,
     prdesc = [0, 0, 0, 0, 0], prpd = 0, vmemlist = \<lparr>mnext = 0, mlength = 0\<rparr>, hsize = 0, vh = False,
     pbsd = (\<lambda>_. 0), vmeminit = False\<rparr>"

definition kzero :: kstate where
  "kzero = \<lparr>proctab = (\<lambda>_. procent0), queuetab = (\<lambda>_. \<lparr>qkey = 0, qnext = 0, qprev = 0\<rparr>),
     nextqid = NPROC, semtab = (\<lambda>_. \<lparr>sstate = S_FREE, scount = 0, squeue = 0\<rparr>), nextsem = 0,
     prcount = 0, currpid = 0, readylist = 0, sleepq = 0, preempt = 0, ndefers = 0, attempt = False,
     clktime = 0, count1000 = 1000, myglobalclock = 0, cr3 = 0\<rparr>"

text \<open>The loop over the process table.\<close>

definition sysinit_procs :: "'a kstate_scheme \<Rightarrow> 'a kstate_scheme" where
  "sysinit_procs s =
     fold (\<lambda>i. upd_proc (int i) (\<lambda>p. p\<lparr>prstate := PR_FREE, prname := (prname p)[0 := CHR 0x00],
          prstkbase := 0, prprio := 0, vh := False, hsize := 0\<rparr>)) [0..<nat NPROC] s"

text \<open>The entry of the null process; \<open>stk\<close> is what \<open>getstk(NULLSTK)\<close> returned.\<close>

abbreviation (input) NULLSTK :: u32 where "NULLSTK \<equiv> 8192"

definition sysinit_null :: "addr \<Rightarrow> 'a kstate_scheme \<Rightarrow> 'a kstate_scheme" where
  "sysinit_null stk s =
     (upd_proc NULLPROC (\<lambda>p. p\<lparr>prstate := PR_CURR, prprio := 0,
          prname := ''prnull'' @ CHR 0x00 # drop 7 (prname p),
          prstkbase := stk, prstklen := NULLSTK, prstkptr := 0\<rparr>) s)\<lparr>currpid := NULLPROC\<rparr>"

text \<open>The loop over the semaphore table.\<close>

definition sysinit_sem :: "nat \<Rightarrow> 'a kstate_scheme \<Rightarrow> 'a kstate_scheme" where
  "sysinit_sem i s =
     (let s = upd_sem (int i) (\<lambda>e. e\<lparr>sstate := S_FREE\<rparr>) s;
          s = upd_sem (int i) (\<lambda>e. e\<lparr>scount := 0\<rparr>) s;
          (q, s) = newqueue s
      in upd_sem (int i) (\<lambda>e. e\<lparr>squeue := q\<rparr>) s)"

definition sysinit_sems :: "'a kstate_scheme \<Rightarrow> 'a kstate_scheme" where
  "sysinit_sems s = fold sysinit_sem [0..<nat NSEM] s"

definition sysinit_readylist :: "'a kstate_scheme \<Rightarrow> 'a kstate_scheme" where
  "sysinit_readylist s = (let (q, s) = newqueue s in s\<lparr>readylist := q\<rparr>)"

text \<open>The steps of \<open>sysinit\<close> that build the process manager, in their order. The steps between them (the free memory list,
  the stack of the null process, whose address is \<open>stk\<close>, the buffer pools) and the devices behind them work on other
  tables; \<open>sysinit\<close> itself is in Init.\<close>

definition kernel_boot :: "addr \<Rightarrow> 'a kstate_scheme \<Rightarrow> 'a kstate_scheme" where
  "kernel_boot stk s =
     clkinit (sysinit_readylist (sysinit_sems (sysinit_null stk (sysinit_procs (s\<lparr>prcount := 1, ndefers := 0\<rparr>)))))"

subsection \<open>Boot establishes the invariant\<close>

lemma fold_upd_proc:
  "fold (\<lambda>i. upd_proc (int i) f) [0..<n] s =
   s\<lparr>proctab := (\<lambda>p. if 0 \<le> p \<and> p < int n then f (proctab s p) else proctab s p)\<rparr>"
proof (induction n)
  case (Suc n)
  have "fold (\<lambda>i. upd_proc (int i) f) [0..<Suc n] s = upd_proc (int n) f (fold (\<lambda>i. upd_proc (int i) f) [0..<n] s)"
    by simp
  also have "\<dots> = s\<lparr>proctab := (\<lambda>p. if 0 \<le> p \<and> p < int (Suc n) then f (proctab s p) else proctab s p)\<rparr>"
    unfolding Suc by (rule kstate.equality) (auto simp: fun_eq_iff)
  finally show ?case .
qed (rule kstate.equality; auto simp: fun_eq_iff)

lemma sysinit_procs_state:
  "sysinit_procs s = s\<lparr>proctab := proctab (sysinit_procs s)\<rparr>"
  "0 \<le> p \<Longrightarrow> p < NPROC \<Longrightarrow> prstate (proctab (sysinit_procs s) p) = PR_FREE"
  "- 32768 \<le> prprio (proctab s p) \<and> prprio (proctab s p) \<le> 32767 \<Longrightarrow>
   - 32768 \<le> prprio (proctab (sysinit_procs s) p) \<and> prprio (proctab (sysinit_procs s) p) \<le> 32767"
  by (simp_all add: sysinit_procs_def fold_upd_proc del: upt_conv_Cons upt_Suc)

text \<open>After \<open>n\<close> semaphores: semaphore \<open>i\<close> has the queue \<open>NPROC + 2i\<close>, and it is empty.\<close>

definition sems_upto :: "nat \<Rightarrow> 'a kstate_scheme \<Rightarrow> 'a kstate_scheme \<Rightarrow> bool" where
  "sems_upto n s0 s \<longleftrightarrow> (\<exists>st qt. s = s0\<lparr>semtab := st, queuetab := qt, nextqid := NPROC + 2 * int n\<rparr> \<and>
     (\<forall>i\<in>{0..<int n}. squeue (st i) = NPROC + 2 * i \<and> sstate (st i) = S_FREE) \<and>
     queues qt ((\<lambda>i. NPROC + 2 * i) ` {0..<int n}) (\<lambda>_. []))"

lemma newqueue_empty:
  assumes "queues (queuetab s) I (\<lambda>_. [])" and "nextqid s \<notin> I" "even (nextqid s)" "NPROC \<le> nextqid s" "nextqid s < NQENT - 1"
  obtains qt' where "newqueue s = (nextqid s, s\<lparr>nextqid := nextqid s + 2, queuetab := qt'\<rparr>)"
    "queues qt' (insert (nextqid s) I) (\<lambda>_. [])"
proof -
  from assms obtain qt' where q: "newqueue s = (nextqid s, s\<lparr>nextqid := nextqid s + 2, queuetab := qt'\<rparr>)"
    "queues qt' (insert (nextqid s) I) ((\<lambda>_. [])(nextqid s := []))" by (rule newqueue_queues)
  then have "queues qt' (insert (nextqid s) I) (\<lambda>_. [])" by (simp add: queues_def)
  then show thesis using that q(1) by blast
qed

lemma sysinit_sems_upto:
  assumes "nextqid s = NPROC" and "n \<le> nat NSEM"
  shows "sems_upto n s (fold sysinit_sem [0..<n] s)"
  using assms(2)
proof (induction n)
  case 0
  have "s = s\<lparr>semtab := semtab s, queuetab := queuetab s, nextqid := NPROC + 2 * int 0\<rparr>"
    by (rule kstate.equality) (use assms(1) in simp_all)
  then show ?case unfolding sems_upto_def
    by (intro exI [of _ "semtab s"] exI [of _ "queuetab s"]) (simp add: queues_def)
next
  case (Suc n)
  define t where "t = fold sysinit_sem [0..<n] s"
  define u where "u = upd_sem (int n) (\<lambda>e. e\<lparr>sstate := S_FREE, scount := 0\<rparr>) t"
  from Suc obtain st qt where IH: "t = s\<lparr>semtab := st, queuetab := qt, nextqid := NPROC + 2 * int n\<rparr>"
    "\<forall>i\<in>{0..<int n}. squeue (st i) = NPROC + 2 * i \<and> sstate (st i) = S_FREE"
    "queues qt ((\<lambda>i. NPROC + 2 * i) ` {0..<int n}) (\<lambda>_. [])" by (auto simp: sems_upto_def t_def)
  let ?I = "(\<lambda>i. NPROC + 2 * i) ` {0..<int n}" and ?q = "NPROC + 2 * int n"
  have "queues (queuetab u) ?I (\<lambda>_. [])" using IH(1,3) by (simp add: u_def)
  then obtain qt' where q: "newqueue u = (nextqid u, u\<lparr>nextqid := nextqid u + 2, queuetab := qt'\<rparr>)"
    "queues qt' (insert (nextqid u) ?I) (\<lambda>_. [])"
    by (rule newqueue_empty) (use IH(1) Suc.prems in \<open>auto simp: u_def\<close>)
  have "sysinit_sem n t = upd_sem (int n) (\<lambda>e. e\<lparr>squeue := nextqid u\<rparr>) (u\<lparr>nextqid := nextqid u + 2, queuetab := qt'\<rparr>)"
    using q(1) by (simp add: sysinit_sem_def u_def upd_sem_def Let_def)
  also have "\<dots> = s\<lparr>semtab := st(int n := (st (int n))\<lparr>sstate := S_FREE, scount := 0, squeue := ?q\<rparr>),
      queuetab := qt', nextqid := NPROC + 2 * int (Suc n)\<rparr>"
    by (rule kstate.equality) (simp_all add: u_def IH(1))
  finally have "sysinit_sem n t = \<dots>" .
  moreover have "insert (nextqid u) ?I = (\<lambda>i. NPROC + 2 * i) ` {0..<int (Suc n)}"
    using IH(1) by (auto simp: u_def image_iff)
  then have "queues qt' ((\<lambda>i. NPROC + 2 * i) ` {0..<int (Suc n)}) (\<lambda>_. [])" using q(2) by simp
  moreover have "\<forall>i\<in>{0..<int (Suc n)}. squeue ((st(int n := (st (int n))\<lparr>sstate := S_FREE, scount := 0, squeue := ?q\<rparr>)) i) = NPROC + 2 * i \<and>
      sstate ((st(int n := (st (int n))\<lparr>sstate := S_FREE, scount := 0, squeue := ?q\<rparr>)) i) = S_FREE"
    using IH(2) by auto
  ultimately have "sems_upto (Suc n) s (sysinit_sem n t)"
    unfolding sems_upto_def by blast
  then show ?case by (simp add: t_def)
qed

lemma kernel_boot_kinv:
  assumes q: "nextqid s = NPROC" and prio: "\<And>p. - 32768 \<le> prprio (proctab s p) \<and> prprio (proctab s p) \<le> 32767"
  shows "kinv (kernel_boot stk s)" "nextqid (kernel_boot stk s) = NQENT"
proof -
  define s1 where "s1 = sysinit_null stk (sysinit_procs (s\<lparr>prcount := 1, ndefers := 0\<rparr>))"
  have s1: "nextqid s1 = NPROC" "ndefers s1 = 0" "currpid s1 = NULLPROC"
    unfolding s1_def sysinit_null_def by (subst sysinit_procs_state(1), use q in simp)+
  have pt: "prstate (proctab s1 p) = (if p = NULLPROC then PR_CURR else PR_FREE)" if "p \<in> {0..<NPROC}" for p
    using that sysinit_procs_state(2) [of p] by (auto simp: s1_def sysinit_null_def)
  have pr: "- 32768 \<le> prprio (proctab s1 p)" "prprio (proctab s1 p) \<le> 32767" for p
    using sysinit_procs_state(3) [of "s\<lparr>prcount := 1, ndefers := 0\<rparr>" p] prio
    by (auto simp: s1_def sysinit_null_def)
  obtain st qt where s2: "sysinit_sems s1 = s1\<lparr>semtab := st, queuetab := qt, nextqid := 300\<rparr>"
    and sq: "\<And>i. i \<in> {0..<NSEM} \<Longrightarrow> squeue (st i) = NPROC + 2 * i \<and> sstate (st i) = S_FREE"
    and Q2: "queues qt ((\<lambda>i. NPROC + 2 * i) ` {0..<NSEM}) (\<lambda>_. [])"
    using sysinit_sems_upto [OF s1(1), of "nat NSEM"] by (auto simp: sysinit_sems_def sems_upto_def simp del: upt_conv_Cons)
  let ?I = "(\<lambda>i. NPROC + 2 * i) ` {0..<NSEM}"
  let ?s2 = "s1\<lparr>semtab := st, queuetab := qt, nextqid := 300\<rparr>"
  obtain qt3 where n3: "newqueue ?s2 = (300, ?s2\<lparr>nextqid := 302, queuetab := qt3\<rparr>)"
    and Q3: "queues qt3 (insert 300 ?I) (\<lambda>_. [])"
    by (rule newqueue_empty [of ?s2 ?I]) (use Q2 in auto)
  let ?s3 = "(?s2\<lparr>nextqid := 302, queuetab := qt3\<rparr>)\<lparr>readylist := 300\<rparr>"
  obtain qt4 where n4: "newqueue ?s3 = (302, ?s3\<lparr>nextqid := 304, queuetab := qt4\<rparr>)"
    and Q4: "queues qt4 (insert 302 (insert 300 ?I)) (\<lambda>_. [])"
    by (rule newqueue_empty [of ?s3 "insert 300 ?I"]) (use Q3 in auto)
  let ?s4 = "(?s3\<lparr>nextqid := 304, queuetab := qt4\<rparr>)\<lparr>sleepq := 302, preempt := QUANTUM, clktime := 0, myglobalclock := 0\<rparr>"
  have b: "kernel_boot stk s = ?s4"
    unfolding kernel_boot_def s1_def [symmetric] s2 using n3 n4
    by (simp add: sysinit_readylist_def clkinit_def Let_def)
  have img: "(\<lambda>i. squeue (st i)) ` {0..<NSEM} = ?I" using sq by (auto simp: image_iff)
  have heads: "qheads ?s4 = insert 302 (insert 300 ?I)" using img by (auto simp: qheads_def)
  have inj: "inj_on (\<lambda>i. squeue (st i)) {0..<NSEM}" using sq by (auto simp: inj_on_def)
  have "heads_ok ?s4" using sq inj by (auto simp: heads_ok_def)
  moreover have "home ?s4 p = None" if "p \<in> {0..<NPROC}" for p
    using pt [OF that] by (simp add: home_def)
  ultimately have "kok {} ?s4 (\<lambda>_. [])"
    using Q4 pt pr s1(3) unfolding kok_def heads by (auto simp: prio_sorted_def split: if_splits)
  moreover have "counts_ok (semtab ?s4) (\<lambda>_. [])" using sq by (auto simp: counts_ok_def)
  ultimately show "kinv (kernel_boot stk s)" unfolding b kinv_def using pt [of NULLPROC] s1 by auto
  show "nextqid (kernel_boot stk s) = NQENT" unfolding b by simp
qed

end
