(* ===== verification/Kernel_Demo.thy ===== *)
theory Kernel_Demo
  imports Kernel_Boot
begin

section \<open>A state of the running kernel\<close>

text \<open>
  A concrete state with a process in every place: the null process ready, process 1 running,
  2 waiting for semaphore 0, 3 waiting for a message, 4 asleep for 7 ms, 5 waiting for a message
  for at most 10 ms, 6 suspended. It satisfies \<open>kinv\<close>, so the hypotheses of the properties of
  the process manager can hold together.
\<close>

definition demo_proc :: "pid32 \<Rightarrow> procent" where
  "demo_proc p =
     (if p = 0 then procent0\<lparr>prstate := PR_READY\<rparr>
      else if p = 1 then procent0\<lparr>prstate := PR_CURR, prprio := 20\<rparr>
      else if p = 2 then procent0\<lparr>prstate := PR_WAIT, prprio := 10, prsem := 0\<rparr>
      else if p = 3 then procent0\<lparr>prstate := PR_RECV, prprio := 30\<rparr>
      else if p = 4 then procent0\<lparr>prstate := PR_SLEEP, prprio := 5\<rparr>
      else if p = 5 then procent0\<lparr>prstate := PR_RECTIM, prprio := 25\<rparr>
      else if p = 6 then procent0\<lparr>prstate := PR_SUSP, prprio := 15\<rparr>
      else procent0)"

definition demo_q :: "qid16 \<Rightarrow> qentry" where
  "demo_q i =
     (if i = 0 then \<lparr>qkey = 0, qnext = 301, qprev = 300\<rparr>
      else if i = 2 then \<lparr>qkey = 0, qnext = 101, qprev = 100\<rparr>
      else if i = 4 then \<lparr>qkey = 7, qnext = 5, qprev = 302\<rparr>
      else if i = 5 then \<lparr>qkey = 3, qnext = 303, qprev = 4\<rparr>
      else if even i then \<lparr>qkey = MAXKEY, qnext = (if i = 100 then 2 else if i = 300 then 0 else if i = 302 then 4 else i + 1), qprev = EMPTY\<rparr>
      else \<lparr>qkey = MINKEY, qnext = EMPTY, qprev = (if i = 101 then 2 else if i = 301 then 0 else if i = 303 then 5 else i - 1)\<rparr>)"

definition kdemo :: kstate where
  "kdemo = kzero\<lparr>proctab := demo_proc, queuetab := demo_q, nextqid := NQENT,
     semtab := (\<lambda>i. \<lparr>sstate = (if i \<le> 1 then S_USED else S_FREE), scount = (if i = 0 then - 1 else 0), squeue = NPROC + 2 * i\<rparr>),
     nextsem := 2, prcount := 7, currpid := 1, readylist := 300, sleepq := 302, preempt := QUANTUM\<rparr>"

definition demo_Q :: "qid16 \<Rightarrow> pid32 list" where
  "demo_Q q = (if q = 100 then [2] else if q = 300 then [0] else if q = 302 then [4, 5] else [])"

lemma demo_queues: "queues demo_q {q. even q \<and> 100 \<le> q \<and> q \<le> 302} demo_Q"
  by (auto simp: queues_def is_queue_def demo_q_def demo_Q_def)

lemma kdemo_qheads: "qheads kdemo = {q. even q \<and> 100 \<le> q \<and> q \<le> 302}"
proof -
  have "q \<in> (\<lambda>i. 100 + 2 * i) ` {0..<100} \<longleftrightarrow> even q \<and> 100 \<le> q \<and> q < 300" for q :: int
    unfolding image_iff Bex_def atLeastLessThan_iff by presburger
  moreover have "qheads kdemo = insert 300 (insert 302 ((\<lambda>i. 100 + 2 * i) ` {0..<100}))"
    by (simp add: qheads_def kdemo_def)
  ultimately show ?thesis by (auto; presburger)
qed

lemma kdemo_kinv: "kinv kdemo"
proof -
  have "kok {} kdemo demo_Q"
    using demo_queues unfolding kok_def kdemo_qheads
    by (auto simp: kdemo_def kzero_def heads_ok_def inj_on_def home_def demo_proc_def procent0_def demo_Q_def
        prio_sorted_def demo_q_def split: if_splits)
  moreover have "counts_ok (semtab kdemo) demo_Q"
    by (auto simp: counts_ok_def kdemo_def demo_Q_def)
  ultimately show ?thesis by (auto simp: kinv_def kdemo_def kzero_def demo_proc_def procent0_def)
qed

end
