(* ===== verification/Kernel_Properties.thy ===== *)
theory Kernel_Properties
  imports Kernel_Demo
begin

section \<open>Properties of the process manager\<close>

text \<open>
  What the library of the preceding theories proves of the process manager, stated on the model of
  the code. Each property with hypotheses is applied to the state \<open>kdemo\<close> or to the state at boot.
\<close>

lemmas demo_simps = kdemo_def kzero_def demo_proc_def procent0_def

text \<open>C14: booting the process manager (\<open>sysinit\<close>) establishes its invariant, whatever its tables held
  before: every process is on the queue its state says, exactly one is current, the ready list is in
  priority order and the semaphore counts tell how many processes wait.\<close>

theorem boot_establishes_kinv:
  assumes "nextqid s = NPROC" and "\<forall>p. - 32768 \<le> prprio (proctab s p) \<and> prprio (proctab s p) \<le> 32767"
  shows "kinv (kernel_boot stk s)"
  using kernel_boot_kinv(1) assms by blast

theorem boot_establishes_kinv_witness: "kinv (kernel_boot 0x3FE000 kzero)"
  by (rule boot_establishes_kinv) (simp_all add: kzero_def procent0_def)

text \<open>C1: in every state that system calls and clock interrupts reach from a state with the invariant, the
  invariant holds, and no call that may be made there hangs: each returns and leads to such a
  state again, although the search and wake-up loops have no bound of their own.\<close>

theorem reachable_kinv_progress:
  assumes "kinv s0" and "mreach kexec kallowed s0 s"
  shows "kinv s \<and> (kallowed c s \<longrightarrow> (\<exists>s'. kexec c s = Some s' \<and> mreach kexec kallowed s0 s'))"
  using km.mreach_inv [OF assms(2,1)] km.never_stuck [OF assms(2,1)] by metis

theorem reachable_kinv_progress_witness:
  "\<exists>s'. kexec (Wait 1) kdemo = Some s' \<and> mreach kexec kallowed kdemo s'"
  using reachable_kinv_progress [OF kdemo_kinv mreach.start, of "Wait 1"] by (simp add: demo_simps)

text \<open>C15: in every reachable state exactly one process of the table is current, the one in \<open>currpid\<close>, and
  the null process is ready or current, so there is always a process to dispatch.\<close>

theorem reachable_one_current:
  assumes "kinv s0" and "mreach kexec kallowed s0 s" and "p \<in> {0..<NPROC}"
  shows "(prstate (proctab s p) = PR_CURR \<longleftrightarrow> p = currpid s) \<and> currpid s \<in> {0..<NPROC} \<and>
    prstate (proctab s NULLPROC) \<in> {PR_READY, PR_CURR}"
proof -
  have I: "kinv s" by (rule km.mreach_inv [OF assms(2,1)])
  then obtain Q where "kok {} s Q" "prstate (proctab s (currpid s)) = PR_CURR" by (auto simp: kinv_def)
  then show ?thesis using kokD(3,4,9) [of "{}" s Q] assms(3) by blast
qed

theorem reachable_one_current_witness:
  "(prstate (proctab kdemo 4) = PR_CURR \<longleftrightarrow> 4 = currpid kdemo) \<and> currpid kdemo \<in> {0..<NPROC} \<and>
    prstate (proctab kdemo NULLPROC) \<in> {PR_READY, PR_CURR}"
  by (rule reachable_one_current [OF kdemo_kinv mreach.start]) simp



text \<open>C13: a process that waits on a semaphore with no unit left is blocked at the end of the queue of
  that semaphore, the count records it, and another process runs.\<close>

theorem wait_blocks_at_tail:
  assumes "kinv s" and "currpid s \<noteq> NULLPROC" and "\<not> isbadsem sem" and "sstate (semtab s sem) = S_USED"
    and "scount (semtab s sem) \<le> 0"
  shows "\<exists>s'. wait sem s = Some (OK, s') \<and> kinv s' \<and> currpid s' \<noteq> currpid s \<and>
    prstate (proctab s' (currpid s)) = PR_WAIT \<and> prsem (proctab s' (currpid s)) = sem \<and>
    scount (semtab s' sem) = scount (semtab s sem) - 1 \<and> lastid s' (squeue (semtab s' sem)) = currpid s"
proof -
  obtain s' where s': "wait sem s = Some (OK, s')" "kinv s'" "kframe (upd_sem sem (\<lambda>e. e\<lparr>scount := scount e - 1\<rparr>) s) s'"
    "prstate (proctab s' (currpid s)) = PR_WAIT" "prsem (proctab s' (currpid s)) = sem"
    "lastid s' (squeue (semtab s sem)) = currpid s"
    using wait_block_kinv [OF assms] .
  have "prstate (proctab s' (currpid s')) = PR_CURR" using s'(2) by (simp add: kinv_def)
  then have "currpid s' \<noteq> currpid s" using s'(4) by auto
  then show ?thesis using s' kframeD(1) [OF s'(3)] by simp
qed

theorem wait_blocks_at_tail_witness:
  "\<exists>s'. wait 0 kdemo = Some (OK, s') \<and> kinv s' \<and> currpid s' \<noteq> 1 \<and> prstate (proctab s' 1) = PR_WAIT \<and>
    prsem (proctab s' 1) = 0 \<and> scount (semtab s' 0) = - 2 \<and> lastid s' (squeue (semtab s' 0)) = 1"
  using wait_blocks_at_tail [of kdemo 0] kdemo_kinv by (simp add: isbadsem_def demo_simps)

text \<open>C16: \<open>signal\<close> on a semaphore with waiting processes releases exactly the one at the head of its
  queue, the one that has waited longest: it becomes ready or runs, the count goes up by one, and
  every other blocked process stays exactly as it was.\<close>

theorem signal_releases_first:
  assumes "kinv s" and "\<not> isbadsem sem" and "sstate (semtab s sem) = S_USED" and "scount (semtab s sem) < 0"
    and "p = firstid s (squeue (semtab s sem))"
  shows "\<exists>s'. signal sem s = Some (OK, s') \<and> kinv s' \<and>
    prstate (proctab s p) = PR_WAIT \<and> prsem (proctab s p) = sem \<and> prstate (proctab s' p) \<in> {PR_READY, PR_CURR} \<and>
    scount (semtab s' sem) = scount (semtab s sem) + 1 \<and>
    (\<forall>x. x \<noteq> p \<and> prstate (proctab s x) \<notin> {PR_CURR, PR_READY} \<longrightarrow> proctab s' x = proctab s x)"
proof -
  obtain s' where s': "signal sem s = Some (OK, s')" "kinv s'" "kframe (upd_sem sem (\<lambda>e. e\<lparr>scount := scount e + 1\<rparr>) s) s'"
    "prstate (proctab s p) = PR_WAIT" "prsem (proctab s p) = sem"
    "same_but_state ((proctab s)(p := (proctab s p)\<lparr>prstate := PR_READY\<rparr>)) (proctab s')"
    using signal_wake_kinv [OF assms] .
  moreover have "prstate (proctab s' p) \<in> {PR_READY, PR_CURR}"
    "\<forall>x. x \<noteq> p \<and> prstate (proctab s x) \<notin> {PR_CURR, PR_READY} \<longrightarrow> proctab s' x = proctab s x"
    using s'(6) by (auto simp: same_but_state_def)
  ultimately show ?thesis using kframeD(1) [OF s'(3)] by simp
qed

theorem signal_releases_first_witness:
  "\<exists>s'. signal 0 kdemo = Some (OK, s') \<and> kinv s' \<and> prstate (proctab s' 2) \<in> {PR_READY, PR_CURR} \<and>
    scount (semtab s' 0) = 0 \<and> proctab s' 5 = proctab kdemo 5"
proof -
  have h: "kinv kdemo" "\<not> isbadsem 0" "sstate (semtab kdemo 0) = S_USED" "scount (semtab kdemo 0) < 0"
    "2 = firstid kdemo (squeue (semtab kdemo 0))" "scount (semtab kdemo 0) = - 1" "prstate (proctab kdemo 5) = PR_RECTIM"
    using kdemo_kinv by (simp_all add: isbadsem_def firstid_def queuehead_def demo_q_def demo_simps)
  obtain s' where s': "signal 0 kdemo = Some (OK, s')" "kinv s'" "prstate (proctab s' 2) \<in> {PR_READY, PR_CURR}"
    "scount (semtab s' 0) = scount (semtab kdemo 0) + 1"
    "\<forall>x. x \<noteq> 2 \<and> prstate (proctab kdemo x) \<notin> {PR_CURR, PR_READY} \<longrightarrow> proctab s' x = proctab kdemo x"
    using signal_releases_first [OF h(1-5)] by blast
  then show ?thesis using h(6,7) by simp
qed

text \<open>\<open>signaln\<close> adds its count to the semaphore, all at once: it returns in a state with the invariant and
  changes no other semaphore.\<close>

theorem signaln_adds:
  assumes "kinv s" and "\<not> isbadsem sem" and "sstate (semtab s sem) = S_USED" and "0 \<le> count"
  shows "\<exists>s'. signaln sem count s = Some (OK, s') \<and> kinv s' \<and>
    semtab s' = (semtab s)(sem := (semtab s sem)\<lparr>scount := scount (semtab s sem) + count\<rparr>)"
proof -
  obtain r s' where s': "signaln sem count s = Some (r, s')" "kinv s'"
    "r = OK \<Longrightarrow> semtab s' = (semtab s)(sem := (semtab s sem)\<lparr>scount := scount (semtab s sem) + count\<rparr>)"
    by (rule signaln_kinv [OF assms(1), of sem count]) blast
  moreover have "r = OK" using s'(1) assms(2-4) by (auto simp: signaln_def)
  ultimately show ?thesis by simp
qed

theorem signaln_adds_witness:
  "\<exists>s'. signaln 0 3 kdemo = Some (OK, s') \<and> kinv s' \<and> scount (semtab s' 0) = 2"
proof -
  have h: "\<not> isbadsem 0" "sstate (semtab kdemo 0) = S_USED" "scount (semtab kdemo 0) = - 1"
    by (simp_all add: isbadsem_def demo_simps)
  have "\<exists>s'. signaln 0 3 kdemo = Some (OK, s') \<and> kinv s' \<and>
      semtab s' = (semtab kdemo)(0 := (semtab kdemo 0)\<lparr>scount := scount (semtab kdemo 0) + 3\<rparr>)"
    by (rule signaln_adds [OF kdemo_kinv h(1,2)]) simp
  then show ?thesis using h(3) by auto
qed

lemma kdemo_queues: "queues (queuetab kdemo) (qheads kdemo) demo_Q"
  using demo_queues by (simp add: kdemo_qheads) (simp add: kdemo_def)

lemma kdemo_off: "p \<in> {1, 3, 6} \<Longrightarrow> \<not> isbadpid kdemo p \<and> p \<notin> on_queues (qheads kdemo) demo_Q"
proof -
  assume "p \<in> {1, 3, 6}"
  moreover have "p \<notin> set (demo_Q q)" if "p \<in> {1, 3, 6}" for q using that by (auto simp: demo_Q_def)
  ultimately show ?thesis by (auto simp: isbadpid_def demo_simps on_queues_def)
qed

text \<open>C12: a process queue is first-in first-out: the processes that \<open>enqueue\<close> appended leave through \<open>dequeue\<close>
  in the order in which they came, behind those that were on the queue before.\<close>

theorem process_queue_fifo:
  assumes "pq_rep I q s xs F" and "distinct ys" and "set ys \<subseteq> F"
  shows "\<exists>s' F'. gets (\<lambda>s. Some (dequeue q s)) (length xs + length ys) (fold (\<lambda>p s. snd (enqueue p q s)) ys s) =
      Some (xs @ ys, s') \<and> pq_rep I q s' [] F'"
  by (rule pq.fifo_order [OF assms])

lemma kdemo_pq_rep: "pq_rep (qheads kdemo) 100 kdemo [2] ({p. \<not> isbadpid kdemo p} - on_queues (qheads kdemo) demo_Q)"
  using kdemo_queues by (auto simp: pq_rep_def kdemo_qheads demo_Q_def intro!: exI [of _ demo_Q])

theorem process_queue_fifo_witness:
  "\<exists>s'. gets (\<lambda>s. Some (dequeue 100 s)) 3 (fold (\<lambda>p s. snd (enqueue p 100 s)) [6, 3] kdemo) = Some ([2, 6, 3], s')"
  using process_queue_fifo [OF kdemo_pq_rep, of "[6, 3]"] kdemo_off [of 6] kdemo_off [of 3] by (auto simp: eval_nat_numeral)

text \<open>C17: \<open>insertd\<close> implements a timer queue. The keys on the queue are relative to each other; in absolute
  times the operation inserts the process behind all those that expire no later, and it changes
  the time of no other process and no other queue. Its search loop always ends.\<close>

theorem insertd_is_timer_insert:
  assumes "queues (queuetab s) I Q" and "q \<in> I" and "\<not> isbadpid s pid" and "pid \<notin> on_queues I Q"
  shows "\<exists>qt' xs. insertd pid q key s = Some (OK, s\<lparr>queuetab := qt'\<rparr>) \<and> queues qt' I (Q(q := xs)) \<and>
    delta_times (\<lambda>x. qkey (qt' x)) 0 xs = timer_insert pid key (delta_times (\<lambda>x. qkey (queuetab s x)) 0 (Q q))"
  using insertd_queues [OF assms] by metis

theorem insertd_is_timer_insert_witness:
  "\<exists>qt' xs. insertd 1 302 8 kdemo = Some (OK, kdemo\<lparr>queuetab := qt'\<rparr>) \<and>
    delta_times (\<lambda>x. qkey (qt' x)) 0 xs = [(4, 7), (1, 8), (5, 10)]"
proof -
  have "302 \<in> qheads kdemo" by (simp add: kdemo_qheads)
  moreover have "timer_insert 1 8 (delta_times (\<lambda>x. qkey (queuetab kdemo x)) 0 (demo_Q 302)) = [(4, 7), (1, 8), (5, 10)]"
    by (simp add: demo_Q_def kdemo_def demo_q_def timer_insert_def)
  ultimately show ?thesis using insertd_is_timer_insert [OF kdemo_queues, of 302 1 8] kdemo_off [of 1] by auto
qed

text \<open>\<open>insert\<close> keeps a queue in descending order of the keys and puts the process behind its equals; its
  search loop ends because the key of the tail is below every key.\<close>

theorem insert_keeps_order:
  assumes "queues (queuetab s) I Q" and "q \<in> I" and "\<not> isbadpid s pid" and "pid \<notin> on_queues I Q"
    and "MINKEY < key" and "prio_sorted (\<lambda>x. qkey (queuetab s x)) (Q q)"
  shows "\<exists>qt' xs ys. insert_q pid q key s = Some (OK, s\<lparr>queuetab := qt'\<rparr>) \<and> Q q = xs @ ys \<and>
    queues qt' I (Q(q := xs @ pid # ys)) \<and> prio_sorted (\<lambda>x. qkey (qt' x)) (xs @ pid # ys) \<and>
    (\<forall>x\<in>set xs. key \<le> qkey (queuetab s x)) \<and> (\<forall>y\<in>set ys. qkey (queuetab s y) < key)"
proof -
  let ?k = "\<lambda>x. qkey (queuetab s x)"
  obtain qt' where ins: "insert_q pid q key s = Some (OK, s\<lparr>queuetab := qt'\<rparr>)"
    "queues qt' I (Q(q := prio_insert ?k key pid (Q q)))" "qkey (qt' pid) = key"
    "\<And>x. x \<noteq> pid \<Longrightarrow> qkey (qt' x) = ?k x"
    using insert_queues [OF assms(1-5)] by blast
  define xs ys where "xs = takeWhile (\<lambda>x. key \<le> ?k x) (Q q)" and "ys = dropWhile (\<lambda>x. key \<le> ?k x) (Q q)"
  have split: "Q q = xs @ ys" "prio_insert ?k key pid (Q q) = xs @ pid # ys"
    by (simp_all add: xs_def ys_def prio_insert_def)
  have fresh: "pid \<notin> set (Q q)" using assms(2,4) by (auto simp: on_queues_def)
  have "qkey (qt' x) = ?k x" if "x \<in> set (Q q)" for x using ins(4) fresh that by metis
  then have "prio_sorted (\<lambda>x. qkey (qt' x)) (xs @ pid # ys)"
    using prio_sorted_insert [OF assms(6) fresh, of "\<lambda>x. qkey (qt' x)" key] ins(3) split(2) by simp
  moreover have "\<forall>x\<in>set xs. key \<le> ?k x" by (auto simp: xs_def dest: set_takeWhileD)
  moreover have "\<forall>y\<in>set ys. ?k y < key"
  proof (cases ys)
    case (Cons z zs)
    then have "?k z < key" using hd_dropWhile [of "\<lambda>x. key \<le> ?k x" "Q q"] by (auto simp: ys_def)
    moreover have "\<forall>y\<in>set zs. ?k y \<le> ?k z" using assms(6) split(1) Cons by (auto simp: prio_sorted_def sorted_wrt_append)
    ultimately show ?thesis using Cons by auto
  qed simp
  ultimately show ?thesis using ins(1,2) split by metis
qed

theorem insert_keeps_order_witness:
  "\<exists>qt'. insert_q 6 300 15 kdemo = Some (OK, kdemo\<lparr>queuetab := qt'\<rparr>) \<and> queues qt' (qheads kdemo) (demo_Q(300 := [6, 0]))"
proof -
  have "300 \<in> qheads kdemo" by (simp add: kdemo_qheads)
  moreover have Q: "demo_Q 300 = [0]" "qkey (queuetab kdemo 0) = 0" by (simp_all add: demo_Q_def kdemo_def demo_q_def)
  ultimately obtain qt' xs ys where "insert_q 6 300 15 kdemo = Some (OK, kdemo\<lparr>queuetab := qt'\<rparr>)" "[0] = xs @ ys"
    "queues qt' (qheads kdemo) (demo_Q(300 := xs @ 6 # ys))" "\<forall>x\<in>set xs. 15 \<le> qkey (queuetab kdemo x)"
    using insert_keeps_order [OF kdemo_queues, of 300 6 15] kdemo_off [of 6] by (auto simp: prio_sorted_def)
  then show ?thesis using Q(2) by (cases xs) auto
qed

text \<open>\<open>unsleep\<close> takes a sleeping process off the delta list without changing the wake-up time of
  any other sleeper: its remaining delay is added to that of its successor.\<close>

theorem unsleep_keeps_times:
  assumes "kinv s" and "0 \<le> p" and "p < NPROC" and "prstate (proctab s p) \<in> {PR_SLEEP, PR_RECTIM}"
  shows "\<exists>qt' xs ys. is_queue (queuetab s) (sleepq s) xs \<and> p \<in> set xs \<and>
    unsleep p s = (OK, s\<lparr>queuetab := qt'\<rparr>) \<and> is_queue qt' (sleepq s) ys \<and>
    delta_times (\<lambda>x. qkey (qt' x)) 0 ys =
      filter (\<lambda>(x, _). x \<noteq> p) (delta_times (\<lambda>x. qkey (queuetab s x)) 0 xs)"
proof -
  from assms(1) obtain Q where Q: "kok {} s Q" by (auto simp: kinv_def)
  have p: "p \<in> {0..<NPROC}" using assms(2,3) by simp
  obtain qt' where u: "unsleep p s = (OK, s\<lparr>queuetab := qt'\<rparr>)"
    "kok {p} (s\<lparr>queuetab := qt'\<rparr>) (Q(sleepq s := remove1 p (Q (sleepq s))))"
    "delta_times (\<lambda>x. qkey (qt' x)) 0 (remove1 p (Q (sleepq s))) =
       filter (\<lambda>(x, _). x \<noteq> p) (delta_times (\<lambda>x. qkey (queuetab s x)) 0 (Q (sleepq s)))"
    using unsleep_kok [OF Q p assms(4)] .
  moreover have "is_queue (queuetab s) (sleepq s) (Q (sleepq s))" using queuesD(1) [OF kokD(2) [OF Q] qheads_mem(2)] .
  moreover have "p \<in> set (Q (sleepq s))" using kok_on [OF Q p qheads_mem(2)] assms(4) by (auto simp: home_def)
  moreover have "is_queue qt' (sleepq s) (remove1 p (Q (sleepq s)))"
    using queuesD(1) [OF kokD(2) [OF u(2)], of "sleepq s"] by simp
  ultimately show ?thesis by blast
qed

theorem unsleep_keeps_times_witness:
  "\<exists>qt' xs ys. is_queue (queuetab kdemo) 302 xs \<and> 4 \<in> set xs \<and> unsleep 4 kdemo = (OK, kdemo\<lparr>queuetab := qt'\<rparr>) \<and>
    is_queue qt' 302 ys \<and> delta_times (\<lambda>x. qkey (qt' x)) 0 ys =
      filter (\<lambda>(x, _). x \<noteq> 4) (delta_times (\<lambda>x. qkey (queuetab kdemo x)) 0 xs)"
proof -
  have "sleepq kdemo = 302" by (simp add: kdemo_def)
  then show ?thesis using unsleep_keeps_times [OF kdemo_kinv, of 4] by (simp add: demo_simps)
qed

text \<open>C18: \<open>wakeup\<close> makes every process ready whose delay is over: it returns, keeps the invariant, and no
  process whose remaining delay is zero or negative is left at the front of the sleep queue.\<close>

theorem wakeup_leaves_no_expired:
  assumes "kinv s"
  shows "\<exists>s'. wakeup s = Some s' \<and> kinv s' \<and> \<not> (nonempty s' (sleepq s') \<and> firstkey s' (sleepq s') \<le> 0) \<and>
    sleepq s' = sleepq s \<and> semtab s' = semtab s"
proof -
  obtain s' where "wakeup s = Some s'" "kinv s'" "kframe s s'" "\<not> (nonempty s' (sleepq s') \<and> firstkey s' (sleepq s') \<le> 0)"
    using wakeup_kinv [OF assms] .
  then show ?thesis using kframeD by metis
qed

theorem wakeup_leaves_no_expired_witness:
  "\<exists>s'. wakeup kdemo = Some s' \<and> kinv s' \<and> \<not> (nonempty s' (sleepq s') \<and> firstkey s' (sleepq s') \<le> 0)"
  using wakeup_leaves_no_expired [OF kdemo_kinv] by blast

text \<open>C11: a message that \<open>send\<close> accepts is the one the receiver gets, whether it already waits (with or
  without a time limit) or asks later; until it is taken a second message is refused and changes nothing.\<close>

theorem send_receive_roundtrip:
  assumes "kinv s" and "\<not> isbadpid s p" and "\<not> prhasmsg (proctab s p)"
  shows "\<exists>s'. send p msg s = Some (OK, s') \<and> kinv s' \<and> fst (receive_cont p s') = msg \<and>
    fst (recvtime_cont p s') = msg \<and> \<not> prhasmsg (proctab (snd (receive_cont p s')) p) \<and>
    send p msg2 s' = Some (SYSERR, s')"
proof -
  obtain s' where s': "send p msg s = Some (OK, s')" "kinv s'" "prmsg (proctab s' p) = msg" "prhasmsg (proctab s' p)"
    using send_delivers [OF assms] .
  then have "send p msg2 s' = Some (SYSERR, s')" by (simp add: send_def)
  then show ?thesis using s' by (simp add: receive_cont_def recvtime_cont_def Let_def)
qed

theorem send_receive_roundtrip_witness:
  "\<exists>s'. send 5 42 kdemo = Some (OK, s') \<and> fst (recvtime_cont 5 s') = 42 \<and> send 5 43 s' = Some (SYSERR, s')"
  using send_receive_roundtrip [OF kdemo_kinv, of 5 42 43] by (auto simp: isbadpid_def demo_simps)

text \<open>C19: booting uses up the queue table. \<open>newqueue\<close> compares with \<open>>\<close> instead of \<open>>=\<close>, so the next
  queue that is asked for gets the index \<open>NQENT\<close>, one past the end of \<open>queuetab\<close>: the call stores
  there and returns an id that every queue operation rejects.\<close>

theorem newqueue_off_by_one:
  assumes "nextqid s = NPROC" and "\<forall>p. - 32768 \<le> prprio (proctab s p) \<and> prprio (proctab s p) \<le> 32767"
    and "s' = kernel_boot stk s"
  shows "fst (newqueue s') = NQENT \<and> isbadqid (fst (newqueue s')) \<and>
    qnext (queuetab (snd (newqueue s')) NQENT) = NQENT + 1"
  using newqueue_overflow [of s'] kernel_boot_kinv(2) [of s stk] assms by auto

theorem newqueue_off_by_one_witness: "fst (newqueue (kernel_boot 0x3FE000 kzero)) = NQENT"
  using newqueue_off_by_one [of kzero "kernel_boot 0x3FE000 kzero"] by (simp add: kzero_def procent0_def)

end
