(* ===== verification/Memory.thy ===== *)
theory Memory
  imports Interfaces
begin

section \<open>The kernel heap\<close>

text \<open>
  system/meminit.c, getmem.c, freemem.c, getstk.c and \<open>freestk\<close> of include/memory.h. The state
  adds the head of the free list, the nodes that live in the free blocks, the bounds of the heap,
  and the words of memory written through a \<open>uint32 *\<close> (the process stacks that \<open>create\<close> prepares).
\<close>

record mstate = kstate +
  memlist :: memblk
  mnodes :: "addr \<Rightarrow> memblk"
  minheap :: addr
  maxheap :: addr
  words :: "addr \<Rightarrow> u32"

lemma mstate_upd [simp]:
  "memlist (upd_proc p f s) = memlist s" "memlist (upd_q i g s) = memlist s" "memlist (upd_sem j h s) = memlist s"
  "mnodes (upd_proc p f s) = mnodes s" "mnodes (upd_q i g s) = mnodes s" "mnodes (upd_sem j h s) = mnodes s"
  "minheap (upd_proc p f s) = minheap s" "minheap (upd_q i g s) = minheap s" "minheap (upd_sem j h s) = minheap s"
  "maxheap (upd_proc p f s) = maxheap s" "maxheap (upd_q i g s) = maxheap s" "maxheap (upd_sem j h s) = maxheap s"
  "words (upd_proc p f s) = words s" "words (upd_q i g s) = words s" "words (upd_sem j h s) = words s"
  by (simp_all add: upd_proc_def upd_q_def upd_sem_def)

definition kheap :: "'a mstate_scheme \<Rightarrow> flist" where
  "kheap s = \<lparr>fl_head = memlist s, fl_nodes = mnodes s\<rparr>"

definition put_kheap :: "flist \<Rightarrow> 'a mstate_scheme \<Rightarrow> 'a mstate_scheme" where
  "put_kheap f s = s\<lparr>memlist := fl_head f, mnodes := fl_nodes f\<rparr>"

text \<open>\<open>end_addr\<close> is the address of the linker symbol \<open>end\<close>.\<close>

definition meminit :: "addr \<Rightarrow> 'a mstate_scheme \<Rightarrow> 'a mstate_scheme" where
  "meminit end_addr s =
     (let s = s\<lparr>memlist := \<lparr>mnext = 0, mlength = 0\<rparr>\<rparr>;
          s = s\<lparr>minheap := end_addr\<rparr>;
          s = s\<lparr>maxheap := 4 * 1024 * 1024\<rparr>;
          s = s\<lparr>memlist := (memlist s)\<lparr>mlength := maxheap s - minheap s\<rparr>\<rparr>;
          s = s\<lparr>memlist := (memlist s)\<lparr>mnext := minheap s\<rparr>\<rparr>
      in s\<lparr>mnodes := (mnodes s)(minheap s := \<lparr>mnext = 0, mlength = maxheap s - minheap s\<rparr>)\<rparr>)"

definition getmem :: "u32 \<Rightarrow> 'a mstate_scheme \<Rightarrow> (addr \<times> 'a mstate_scheme) option" where
  "getmem nbytes s =
     (if nbytes = 0 then Some (SYSERR32, s)
      else do {
        let nbytes = roundmb nbytes;
        (r, f) \<leftarrow> getmem_loop nbytes None (mnext (memlist s)) (kheap s);
        Some (r, put_kheap f s)
      })"

definition freemem :: "addr \<Rightarrow> u32 \<Rightarrow> 'a mstate_scheme \<Rightarrow> (int \<times> 'a mstate_scheme) option" where
  "freemem blkaddr nbytes s =
     (if nbytes = 0 \<or> blkaddr < minheap s \<or> blkaddr > maxheap s then Some (SYSERR, s)
      else do {
        let nbytes = roundmb nbytes;
        (r, f) \<leftarrow> freemem_body blkaddr nbytes (kheap s);
        Some (r, put_kheap f s)
      })"

definition getstk :: "u32 \<Rightarrow> 'a mstate_scheme \<Rightarrow> (addr \<times> 'a mstate_scheme) option" where
  "getstk nbytes s =
     (if nbytes = 0 then Some (SYSERR32, s)
      else do {
        let nbytes = roundmb nbytes;
        (r, f) \<leftarrow> getstk_body nbytes (kheap s);
        Some (r, put_kheap f s)
      })"

definition freestk :: "addr \<Rightarrow> u32 \<Rightarrow> 'a mstate_scheme \<Rightarrow> (int \<times> 'a mstate_scheme) option" where
  "freestk p len s = freemem (p - roundmb len + 4) (roundmb len) s"

subsection \<open>Heap and stacks are allocators\<close>

definition heap_rep :: "nat set \<Rightarrow> 'a mstate_scheme \<Rightarrow> nat set \<Rightarrow> bool" where
  "heap_rep A s F \<longleftrightarrow> A = {unat (minheap s)..<unat (maxheap s)} \<and>
     fl_free (unat (minheap s)) (unat (maxheap s)) (kheap s) F"

definition heap_ext :: "addr \<Rightarrow> u32 \<Rightarrow> nat set" where
  "heap_ext p n = {unat p..<unat p + unat (roundmb n)}"

definition stk_ext :: "addr \<Rightarrow> u32 \<Rightarrow> nat set" where
  "stk_ext p n = {unat p + 4 - unat (roundmb n)..<unat p + 4}"

lemma kheap_put [simp]: "kheap (put_kheap f s) = f" "minheap (put_kheap f s) = minheap s" "maxheap (put_kheap f s) = maxheap s"
  by (simp_all add: kheap_def put_kheap_def)

lemma put_kheap_id [simp]: "put_kheap (kheap s) s = s"
  by (simp add: kheap_def put_kheap_def)

lemma head_kheap: "memlist s = fl_head (kheap s)"
  by (simp add: kheap_def)

lemma roundmb_idem:
  assumes n: "0 < n" "n \<le> 0xFFFFFFF8"
  shows "roundmb (roundmb n) = roundmb n" "roundmb n \<le> 0xFFFFFFF8"
proof -
  note f = roundmb_facts [OF n]
  have "unat n \<le> 0xFFFFFFF8" using n by (simp add: word_le_nat_alt)
  then have "unat (roundmb n) \<le> 0xFFFFFFF8" using f(2,4) by (auto elim!: dvdE)
  then show le: "roundmb n \<le> 0xFFFFFFF8" by (simp add: word_le_nat_alt)
  note g = roundmb_facts [OF f(1) le]
  have "unat (roundmb (roundmb n)) = unat (roundmb n)" using f(2) g(2-4) by (auto elim!: dvdE)
  then show "roundmb (roundmb n) = roundmb n" by (simp add: word_unat_eq_iff)
qed

lemma freemem_rep:
  assumes R: "heap_rep A s F" and n: "0 < n" "n \<le> 0xFFFFFFF8" and e: "heap_ext p n \<subseteq> A"
  shows "if heap_ext p n \<inter> F = {} then \<exists>s'. freemem p n s = Some (OK, s') \<and> heap_rep A s' (F \<union> heap_ext p n)
       else freemem p n s = Some (SYSERR, s)"
proof -
  note r = roundmb_facts [OF n]
  have r0: "0 < unat (roundmb n)" using r(1) by (simp add: word_less_nat_alt)
  have A: "A = {unat (minheap s)..<unat (maxheap s)}" and fl: "fl_free (unat (minheap s)) (unat (maxheap s)) (kheap s) F"
    using R by (auto simp: heap_rep_def)
  have "unat p \<in> A" using e r0 by (auto simp: heap_ext_def)
  then have chk: "\<not> p < minheap s" "\<not> p > maxheap s" unfolding A by (auto simp: word_less_nat_alt)
  have "freemem p n s = do { (r, f) \<leftarrow> freemem_body p (roundmb n) (kheap s); Some (r, put_kheap f s) }"
    using chk n by (auto simp: freemem_def)
  then show ?thesis
    using freemem_free [OF fl r(1,2), of p] e R by (auto simp: heap_ext_def heap_rep_def split: if_splits)
qed

interpretation kmem: allocator getmem freemem heap_ext heap_rep
proof
  fix A F and s :: "'a mstate_scheme" and n p :: u32
  assume R: "heap_rep A s F"
  then have fl: "fl_free (unat (minheap s)) (unat (maxheap s)) (kheap s) F" by (simp add: heap_rep_def)
  show "F \<subseteq> A" using fl_free_bounds [OF fl] R by (simp add: heap_rep_def)
  assume n: "0 < n" "n \<le> 0xFFFFFFF8"
  note r = roundmb_facts [OF n]
  show "(\<exists>s'. getmem n s = Some (SYSERR32, s') \<and> heap_rep A s' F) \<or>
      (\<exists>p s'. p \<noteq> SYSERR32 \<and> getmem n s = Some (p, s') \<and> heap_ext p n \<subseteq> F \<and> heap_ext p n \<noteq> {} \<and>
         unat n \<le> card (heap_ext p n) \<and> heap_rep A s' (F - heap_ext p n))"
    using getmem_free [OF fl r(1,2)]
  proof (elim disjE exE conjE)
    assume "getmem_loop (roundmb n) None (mnext (fl_head (kheap s))) (kheap s) = Some (SYSERR32, kheap s)"
    then show ?thesis using n R by (auto simp: getmem_def head_kheap)
  next
    fix q f' assume "getmem_loop (roundmb n) None (mnext (fl_head (kheap s))) (kheap s) = Some (q, f')" "q \<noteq> SYSERR32"
      "{unat q..<unat q + unat (roundmb n)} \<subseteq> F"
      "fl_free (unat (minheap s)) (unat (maxheap s)) f' (F - {unat q..<unat q + unat (roundmb n)})"
    then show ?thesis using n R r(1,3)
      by (intro disjI2 exI [of _ q] exI [of _ "put_kheap f' s"])
        (auto simp: getmem_def head_kheap heap_ext_def heap_rep_def word_less_nat_alt)
  qed
  show "heap_ext p n \<subseteq> A \<Longrightarrow>
      if heap_ext p n \<inter> F = {} then \<exists>s'. freemem p n s = Some (OK, s') \<and> heap_rep A s' (F \<union> heap_ext p n)
      else freemem p n s = Some (SYSERR, s)"
    by (rule freemem_rep [OF R n])
qed

lemma stk_heap_ext:
  assumes n: "0 < n" "n \<le> 0xFFFFFFF8" and e: "stk_ext p n \<subseteq> {lo..<hi}" and b: "0 < lo" "hi < 2 ^ 32"
  shows "heap_ext (p - roundmb n + 4) (roundmb n) = stk_ext p n"
proof -
  note r = roundmb_facts [OF n]
  have r0: "8 \<le> unat (roundmb n)" using r(1,2) by (auto intro: dvd_imp_le simp: word_less_nat_alt)
  have p: "unat p + 4 \<le> hi" using e r0 by (cases "unat p + 4 \<le> unat (roundmb n)") (auto simp: stk_ext_def)
  have le: "unat (roundmb n) \<le> unat p + 4"
  proof (rule ccontr)
    assume "\<not> ?thesis"
    then have "0 \<in> stk_ext p n" using r0 by (auto simp: stk_ext_def)
    then show False using e b(1) by auto
  qed
  have "unat (p + 4) = unat p + 4" using p b(2) unat_add_lt [of p 4] by simp
  then have "unat (p + 4 - roundmb n) = unat p + 4 - unat (roundmb n)"
    using le by (simp add: unat_sub_le word_le_nat_alt)
  moreover have "p - roundmb n + 4 = p + 4 - roundmb n" by simp
  ultimately have "unat (p - roundmb n + 4) = unat p + 4 - unat (roundmb n)" by (simp only:)
  then show ?thesis using le roundmb_idem(1) [OF n] by (simp add: heap_ext_def stk_ext_def)
qed

interpretation kstk: allocator getstk freestk stk_ext heap_rep
proof
  fix A F and s :: "'a mstate_scheme" and n p :: u32
  assume R: "heap_rep A s F"
  then have fl: "fl_free (unat (minheap s)) (unat (maxheap s)) (kheap s) F" by (simp add: heap_rep_def)
  show "F \<subseteq> A" by (rule kmem.rep_arena [OF R])
  assume n: "0 < n" "n \<le> 0xFFFFFFF8"
  note r = roundmb_facts [OF n]
  show "(\<exists>s'. getstk n s = Some (SYSERR32, s') \<and> heap_rep A s' F) \<or>
      (\<exists>p s'. p \<noteq> SYSERR32 \<and> getstk n s = Some (p, s') \<and> stk_ext p n \<subseteq> F \<and> stk_ext p n \<noteq> {} \<and>
         unat n \<le> card (stk_ext p n) \<and> heap_rep A s' (F - stk_ext p n))"
    using getstk_free [OF fl r(1,2)]
  proof (elim disjE exE conjE)
    assume "getstk_body (roundmb n) (kheap s) = Some (SYSERR32, kheap s)"
    then show ?thesis using n R by (auto simp: getstk_def)
  next
    fix q f' assume "getstk_body (roundmb n) (kheap s) = Some (q, f')" "q \<noteq> SYSERR32" "unat (roundmb n) \<le> unat q + 4"
      "{unat q + 4 - unat (roundmb n)..<unat q + 4} \<subseteq> F"
      "fl_free (unat (minheap s)) (unat (maxheap s)) f' (F - {unat q + 4 - unat (roundmb n)..<unat q + 4})"
    then show ?thesis using n R r(1,3)
      by (intro disjI2 exI [of _ q] exI [of _ "put_kheap f' s"])
        (auto simp: getstk_def stk_ext_def heap_rep_def word_less_nat_alt)
  qed
  assume e: "stk_ext p n \<subseteq> A"
  have A: "A = {unat (minheap s)..<unat (maxheap s)}" using R by (simp add: heap_rep_def)
  have eq: "heap_ext (p - roundmb n + 4) (roundmb n) = stk_ext p n"
    by (rule stk_heap_ext [OF n e [unfolded A]]) (use fl_free_bounds [OF fl] in auto)
  show "if stk_ext p n \<inter> F = {} then \<exists>s'. freestk p n s = Some (OK, s') \<and> heap_rep A s' (F \<union> stk_ext p n)
      else freestk p n s = Some (SYSERR, s)"
    using freemem_rep [OF R r(1) roundmb_idem(2) [OF n], of "p - roundmb n + 4"] e
    unfolding freestk_def eq by simp
qed

text \<open>At boot the whole heap is free.\<close>

lemma meminit_rep:
  assumes "0 < end_addr" and "end_addr < 0x400000" and "8 dvd unat end_addr"
  shows "heap_rep {unat end_addr..<0x400000} (meminit end_addr s) {unat end_addr..<0x400000}"
proof -
  let ?s = "meminit end_addr s" and ?e = "unat end_addr"
  have e: "0 < ?e" "?e < 0x400000" using assms by (simp_all add: word_less_nat_alt)
  have s: "memlist ?s = \<lparr>mnext = end_addr, mlength = 0x400000 - end_addr\<rparr>" "minheap ?s = end_addr" "maxheap ?s = 0x400000"
    "mnodes ?s end_addr = \<lparr>mnext = 0, mlength = 0x400000 - end_addr\<rparr>"
    by (simp_all add: meminit_def Let_def)
  have l: "unat (0x400000 - end_addr) = 0x400000 - ?e" using assms(2) by (simp add: unat_sub_le)
  have "8 dvd (0x400000 - ?e)" using assms(3) by (auto intro: dvd_diff_nat)
  then have "fl_ok ?e 0x400000 (kheap ?s) [(?e, 0x400000 - ?e)]"
    using e l assms(1) by (auto simp: fl_ok_def fl_seg_def kheap_def s)
  moreover have "bytes [(?e, 0x400000 - ?e)] = {?e..<0x400000}" using e by auto
  ultimately show ?thesis unfolding heap_rep_def s fl_free_def by auto
qed

end
