(* ===== verification/Virtual_Heap.thy ===== *)
theory Virtual_Heap
  imports Memory
begin

section \<open>The virtual heap of a process\<close>

text \<open>
  system/vgetmem.c (with its local \<open>vmeminit\<close>) and vfreemem.c: the free list of a process created
  by \<open>vcreate\<close>, kept in its own virtual memory. \<open>vnodes s p\<close> are the list nodes stored in the
  virtual heap of process \<open>p\<close>. An access to such a node may fault; the paging system then brings
  the page in, so the node has the value that was written last. The calls run with interrupts
  disabled and act on the current process.
\<close>

abbreviation (input) VHEAP_START :: addr where "VHEAP_START \<equiv> 0x01000000"
abbreviation (input) NBPG :: u32 where "NBPG \<equiv> 4096"

record vstate = mstate +
  vnodes :: "pid32 \<Rightarrow> addr \<Rightarrow> memblk"

lemma vstate_upd [simp]:
  "vnodes (upd_proc p f s) = vnodes s" "vnodes (upd_q i g s) = vnodes s" "vnodes (upd_sem j h s) = vnodes s"
  by (simp_all add: upd_proc_def upd_q_def upd_sem_def)

definition vheap :: "'a vstate_scheme \<Rightarrow> flist" where
  "vheap s = \<lparr>fl_head = vmemlist (proctab s (currpid s)), fl_nodes = vnodes s (currpid s)\<rparr>"

definition put_vheap :: "flist \<Rightarrow> 'a vstate_scheme \<Rightarrow> 'a vstate_scheme" where
  "put_vheap f s = (upd_proc (currpid s) (\<lambda>p. p\<lparr>vmemlist := fl_head f\<rparr>) s)
     \<lparr>vnodes := (vnodes s)(currpid s := fl_nodes f)\<rparr>"

definition vmeminit_proc :: "'a vstate_scheme \<Rightarrow> 'a vstate_scheme" where
  "vmeminit_proc s =
     (let pid = currpid s; len = NBPG * hsize (proctab s pid);
          s = upd_proc pid (\<lambda>p. p\<lparr>vmemlist := (vmemlist p)\<lparr>mlength := len\<rparr>\<rparr>) s;
          s = upd_proc pid (\<lambda>p. p\<lparr>vmemlist := (vmemlist p)\<lparr>mnext := VHEAP_START\<rparr>\<rparr>) s;
          s = s\<lparr>vnodes := (vnodes s)(pid := (vnodes s pid)(VHEAP_START := \<lparr>mnext = 0, mlength = len\<rparr>))\<rparr>
      in upd_proc pid (\<lambda>p. p\<lparr>vmeminit := True\<rparr>) s)"

definition vgetmem :: "u32 \<Rightarrow> 'a vstate_scheme \<Rightarrow> (addr \<times> 'a vstate_scheme) option" where
  "vgetmem nbytes s =
     (if nbytes = 0 then Some (SYSERR32, s)
      else if \<not> vh (proctab s (currpid s)) then Some (SYSERR32, s)
      else do {
        let nbytes = roundmb nbytes;
        let s = (if \<not> vmeminit (proctab s (currpid s)) then vmeminit_proc s else s);
        (r, f) \<leftarrow> getmem_loop nbytes None (mnext (vmemlist (proctab s (currpid s)))) (vheap s);
        Some (r, put_vheap f s)
      })"

definition vfreemem :: "addr \<Rightarrow> u32 \<Rightarrow> 'a vstate_scheme \<Rightarrow> (int \<times> 'a vstate_scheme) option" where
  "vfreemem blkaddr nbytes s =
     (let vheap_end = VHEAP_START + NBPG * hsize (proctab s (currpid s)) in
      if nbytes = 0 \<or> blkaddr < VHEAP_START \<or> blkaddr > vheap_end then Some (SYSERR, s)
      else if \<not> vh (proctab s (currpid s)) then Some (SYSERR, s)
      else do {
        let nbytes = roundmb nbytes;
        (r, f) \<leftarrow> freemem_body blkaddr nbytes (vheap s);
        Some (r, put_vheap f s)
      })"

subsection \<open>An initialised virtual heap is an allocator\<close>

definition vheap_end_of :: "'a vstate_scheme \<Rightarrow> nat" where
  "vheap_end_of s = 0x01000000 + 4096 * unat (hsize (proctab s (currpid s)))"

definition vheap_rep :: "nat set \<Rightarrow> 'a vstate_scheme \<Rightarrow> nat set \<Rightarrow> bool" where
  "vheap_rep A s F \<longleftrightarrow> A = {0x01000000..<vheap_end_of s} \<and> vheap_end_of s < 2 ^ 32 \<and>
     vh (proctab s (currpid s)) \<and> vmeminit (proctab s (currpid s)) \<and>
     fl_free 0x01000000 (vheap_end_of s) (vheap s) F"

lemma vheap_put [simp]:
  "vheap (put_vheap f s) = f" "vheap_end_of (put_vheap f s) = vheap_end_of s"
  "currpid (put_vheap f s) = currpid s" "vh (proctab (put_vheap f s) p) = vh (proctab s p)"
  "vmeminit (proctab (put_vheap f s) p) = vmeminit (proctab s p)"
  by (simp_all add: vheap_def put_vheap_def vheap_end_of_def)

lemma put_vheap_id [simp]: "put_vheap (vheap s) s = s"
  by (simp add: vheap_def put_vheap_def upd_proc_def)

lemma head_vheap: "vmemlist (proctab s (currpid s)) = fl_head (vheap s)"
  by (simp add: vheap_def)

lemma vheap_rep_put:
  "vheap_rep A s F \<Longrightarrow> fl_free 0x01000000 (vheap_end_of s) f F' \<Longrightarrow> vheap_rep A (put_vheap f s) F'"
  by (simp add: vheap_rep_def)

lemma vheap_end_word:
  assumes "vheap_end_of s < 2 ^ 32"
  shows "unat (VHEAP_START + NBPG * hsize (proctab s (currpid s))) = vheap_end_of s"
proof -
  have "unat (NBPG * hsize (proctab s (currpid s))) = 4096 * unat (hsize (proctab s (currpid s)))"
    using assms by (simp add: vheap_end_of_def unat_word_ariths take_bit_nat_eq_self)
  then show ?thesis using assms by (simp add: vheap_end_of_def unat_add_lt)
qed

interpretation vmem: allocator vgetmem vfreemem heap_ext vheap_rep
proof
  fix A F and s :: "'a vstate_scheme" and n p :: u32
  assume R: "vheap_rep A s F"
  then have fl: "fl_free 0x01000000 (vheap_end_of s) (vheap s) F"
    and A: "A = {0x01000000..<vheap_end_of s}" "vheap_end_of s < 2 ^ 32"
    and v: "vh (proctab s (currpid s))" "vmeminit (proctab s (currpid s))" by (auto simp: vheap_rep_def)
  show "F \<subseteq> A" using fl_free_bounds [OF fl] A by simp
  assume n: "0 < n" "n \<le> 0xFFFFFFF8"
  note r = roundmb_facts [OF n]
  show "(\<exists>s'. vgetmem n s = Some (SYSERR32, s') \<and> vheap_rep A s' F) \<or>
      (\<exists>p s'. p \<noteq> SYSERR32 \<and> vgetmem n s = Some (p, s') \<and> heap_ext p n \<subseteq> F \<and> heap_ext p n \<noteq> {} \<and>
         unat n \<le> card (heap_ext p n) \<and> vheap_rep A s' (F - heap_ext p n))"
    using getmem_free [OF fl r(1,2)]
  proof (elim disjE exE conjE)
    assume "getmem_loop (roundmb n) None (mnext (fl_head (vheap s))) (vheap s) = Some (SYSERR32, vheap s)"
    then show ?thesis using n R v by (auto simp: vgetmem_def head_vheap)
  next
    fix q f' assume *: "getmem_loop (roundmb n) None (mnext (fl_head (vheap s))) (vheap s) = Some (q, f')" "q \<noteq> SYSERR32"
      "{unat q..<unat q + unat (roundmb n)} \<subseteq> F"
      "fl_free 0x01000000 (vheap_end_of s) f' (F - {unat q..<unat q + unat (roundmb n)})"
    then show ?thesis using n v r(1,3) vheap_rep_put [OF R *(4)]
      by (intro disjI2 exI [of _ q] exI [of _ "put_vheap f' s"])
        (auto simp: vgetmem_def head_vheap heap_ext_def word_less_nat_alt)
  qed
  assume e: "heap_ext p n \<subseteq> A"
  have "unat p \<in> A" using e r(1) by (auto simp: heap_ext_def word_less_nat_alt)
  then have chk: "\<not> p < VHEAP_START" "\<not> p > VHEAP_START + NBPG * hsize (proctab s (currpid s))"
    using vheap_end_word [OF A(2)] unfolding A(1) by (auto simp: word_less_nat_alt)
  have "vfreemem p n s = do { (r, f) \<leftarrow> freemem_body p (roundmb n) (vheap s); Some (r, put_vheap f s) }"
    using chk n v by (auto simp: vfreemem_def Let_def)
  then show "if heap_ext p n \<inter> F = {} then \<exists>s'. vfreemem p n s = Some (OK, s') \<and> vheap_rep A s' (F \<union> heap_ext p n)
      else vfreemem p n s = Some (SYSERR, s)"
    using freemem_free [OF fl r(1,2), of p] e vheap_rep_put [OF R]
    by (auto simp: heap_ext_def A(1) split: if_splits)
qed

text \<open>The first request initialises the list: the whole virtual heap is free.\<close>

lemma vmeminit_proc_rep:
  assumes "vh (proctab s (currpid s))" and "0 < hsize (proctab s (currpid s))" and "vheap_end_of s < 2 ^ 32"
  shows "vheap_rep {0x01000000..<vheap_end_of s} (vmeminit_proc s) {0x01000000..<vheap_end_of s}"
proof -
  let ?s = "vmeminit_proc s" and ?h = "hsize (proctab s (currpid s))"
  have h: "0 < unat ?h" using assms(2) by (simp add: word_less_nat_alt)
  have l: "unat (NBPG * ?h) = 4096 * unat ?h"
    using assms(3) by (simp add: vheap_end_of_def unat_word_ariths take_bit_nat_eq_self)
  have s: "currpid ?s = currpid s" "vheap_end_of ?s = vheap_end_of s" "vh (proctab ?s (currpid s))"
    "vmeminit (proctab ?s (currpid s))"
    "fl_head (vheap ?s) = \<lparr>mnext = VHEAP_START, mlength = NBPG * ?h\<rparr>"
    "fl_nodes (vheap ?s) VHEAP_START = \<lparr>mnext = 0, mlength = NBPG * ?h\<rparr>"
    using assms(1) by (simp_all add: vmeminit_proc_def Let_def vheap_end_of_def vheap_def)
  have "fl_ok 0x01000000 (vheap_end_of s) (vheap ?s) [(0x01000000, 4096 * unat ?h)]"
    using assms(3) h l by (auto simp: fl_ok_def fl_seg_def s vheap_end_of_def)
  moreover have "bytes [(0x01000000, 4096 * unat ?h)] = {0x01000000..<vheap_end_of s}"
    by (auto simp: vheap_end_of_def)
  ultimately show ?thesis using assms(3) s(3,4) unfolding vheap_rep_def s(1,2) fl_free_def by blast
qed

lemma vgetmem_first:
  assumes "vh (proctab s (currpid s))" and "\<not> vmeminit (proctab s (currpid s))" and "n \<noteq> 0"
  shows "vgetmem n s = vgetmem n (vmeminit_proc s)"
  using assms by (simp add: vgetmem_def vmeminit_proc_def Let_def)

text \<open>\<open>vfreemem\<close> does not check that the list exists: before the first request it accepts
  any block, although nothing was handed out.\<close>

lemma vfreemem_uninitialised:
  assumes "vh (proctab s (currpid s))" and "vmemlist (proctab s (currpid s)) = \<lparr>mnext = 0, mlength = 0\<rparr>"
    and "0 < hsize (proctab s (currpid s))" and "vheap_end_of s < 2 ^ 32"
  shows "\<exists>s'. vfreemem VHEAP_START 8 s = Some (OK, s')"
proof -
  have "VHEAP_START \<le> VHEAP_START + NBPG * hsize (proctab s (currpid s))"
    using vheap_end_word [OF assms(4)] by (simp add: word_le_nat_alt vheap_end_of_def)
  then show ?thesis using assms(1,2)
    by (simp add: vfreemem_def Let_def freemem_body_def vheap_def freemem_loop.simps roundmb_def not_less)
qed

end
