(* ===== verification/Memory_Properties.thy ===== *)
theory Memory_Properties
  imports Virtual_Heap Kernel_Demo
begin

section \<open>Properties of the memory managers\<close>

text \<open>
  The heap and the stacks of the kernel and the virtual heap of a process keep the contract of the
  locale \<open>allocator\<close>; the properties below write out what it gives, together with completeness (a
  request fails only when no free block is large enough) and the two defects of the code:
  sizes that wrap when they are rounded, and a virtual heap that is used before it is set up.
\<close>

subsection \<open>Completeness of first fit and last fit\<close>

text \<open>Neighbouring free blocks are always merged, so a free range lies in one block.\<close>

lemma range_in_block:
  assumes "blocks_ok lo hi bs" and "{a..<a + k} \<subseteq> bytes bs" and "0 < k"
  shows "\<exists>(b, m)\<in>set bs. k \<le> m"
  using assms
proof (induction bs arbitrary: lo)
  case Nil
  then show ?case by (auto simp: bytes_def)
next
  case (Cons c bs)
  obtain b m where c: "c = (b, m)" by (cases c)
  have rest: "bytes bs \<subseteq> {b + m + 1..<hi}" using Cons.prems(1) c blocks_ok_bytes by auto
  show ?case
  proof (cases "a < b + m")
    case True
    have "\<not> b + m < a + k"
    proof
      assume "b + m < a + k"
      then have "b + m \<in> bytes (c # bs)" using Cons.prems(2) True by auto
      then show False using rest c by auto
    qed
    moreover have "b \<le> a" using Cons.prems(2,3) rest c True by fastforce
    ultimately show ?thesis using c by auto
  next
    case False
    then have "{a..<a + k} \<subseteq> bytes bs" using Cons.prems(2) c by auto
    then show ?thesis using Cons.IH [of "b + m + 1"] Cons.prems(1,3) c by auto
  qed
qed

lemma getmem_finds:
  assumes F: "fl_free lo hi f F" and n: "0 < n" "8 dvd unat n" and r: "{a..<a + unat n} \<subseteq> F"
  shows "\<exists>p f'. getmem_loop n None (mnext (fl_head f)) f = Some (p, f') \<and> p \<noteq> SYSERR32"
proof -
  from F obtain bs where bs: "fl_ok lo hi f bs" "bytes bs = F" by (auto simp: fl_free_def)
  have ok: "blocks_ok lo hi bs" "hi < 2 ^ 32" and n0: "0 < unat n" using bs(1) n(1) by (simp_all add: fl_ok_def word_less_nat_alt)
  have "\<exists>(b, m)\<in>set bs. unat n \<le> m" using range_in_block [OF ok(1)] r bs(2) n0 by blast
  then obtain x bs' where x: "first_fit (unat n) bs = Some (x, bs')"
    using first_fit_None [of "unat n" bs] by (cases "first_fit (unat n) bs") auto
  then obtain f' where "getmem_loop n None (mnext (fl_head f)) f = Some (of_nat x, f')"
    using getmem_loop_ok [OF bs(1) n] by auto
  moreover have "(of_nat x :: addr) \<noteq> SYSERR32"
    using unat_block(2) [OF first_fit_spec(6) [OF x ok(1) n0 n(2)] ok(2) n(2) n0] .
  ultimately show ?thesis by blast
qed

subsection \<open>A heap at boot\<close>

definition mdemo :: mstate where
  "mdemo = meminit 0x100000 (kstate.extend kzero
     (mstate.fields \<lparr>mnext = 0, mlength = 0\<rparr> (\<lambda>_. \<lparr>mnext = 0, mlength = 0\<rparr>) 0 0 (\<lambda>_. 0)))"

lemma mdemo_rep: "heap_rep {0x100000..<0x400000} mdemo {0x100000..<0x400000}"
proof -
  have "heap_rep {unat (0x100000 :: addr)..<0x400000} mdemo {unat (0x100000 :: addr)..<0x400000}"
    unfolding mdemo_def by (rule meminit_rep) simp_all
  then show ?thesis by simp
qed

lemma mdemo_heap:
  "memlist mdemo = \<lparr>mnext = 0x100000, mlength = 0x300000\<rparr>" "mnodes mdemo 0x100000 = \<lparr>mnext = 0, mlength = 0x300000\<rparr>"
  "minheap mdemo = 0x100000" "maxheap mdemo = 0x400000"
  by (simp_all add: mdemo_def meminit_def Let_def mstate.defs kstate.defs)

lemma mdemo_getmem: "\<exists>s. getmem 100 mdemo = Some (0x100000, s)"
  by (simp add: getmem_def kheap_def mdemo_heap roundmb_def getmem_loop.simps Let_def)

subsection \<open>Properties\<close>

text \<open>C20: blocks handed out by \<open>getmem\<close> lie inside the heap, are as long as requested and never overlap.\<close>

theorem getmem_blocks_disjoint:
  assumes "heap_rep A s F" and "0 < n" and "n \<le> 0xFFFFFFF8" and "0 < m" and "m \<le> 0xFFFFFFF8"
    and "getmem n s = Some (p, s1)" and "p \<noteq> SYSERR32" and "getmem m s1 = Some (q, s2)" and "q \<noteq> SYSERR32"
  shows "{unat p..<unat p + unat n} \<inter> {unat q..<unat q + unat m} = {} \<and>
    {unat p..<unat p + unat n} \<subseteq> {unat (minheap s)..<unat (maxheap s)}"
proof -
  have "heap_ext p n \<inter> heap_ext q m = {}" using kmem.allocs_disjoint [OF assms] .
  moreover have "heap_ext p n \<subseteq> A" using kmem.alloc_SomeD(1) [OF assms(1-3,6,7)] kmem.rep_arena [OF assms(1)] by blast
  moreover have "A = {unat (minheap s)..<unat (maxheap s)}" using assms(1) by (simp add: heap_rep_def)
  ultimately show ?thesis
    using roundmb_facts(3) [OF assms(2,3)] roundmb_facts(3) [OF assms(4,5)] unfolding heap_ext_def by fastforce
qed

theorem getmem_blocks_disjoint_witness:
  "\<exists>p s1 q s2. getmem 100 mdemo = Some (p, s1) \<and> getmem 50 s1 = Some (q, s2) \<and>
    {unat p..<unat p + 100} \<inter> {unat q..<unat q + 50} = {}"
proof -
  let ?f = "\<lparr>fl_head = \<lparr>mnext = 0x100068, mlength = 0x2FFF98\<rparr>,
      fl_nodes = (mnodes mdemo)(0x100068 := (mnodes mdemo 0x100068)\<lparr>mnext := 0, mlength := 0x2FFF98\<rparr>)\<rparr>"
  define s1 where "s1 = put_kheap ?f mdemo"
  have s1: "getmem 100 mdemo = Some (0x100000, s1)"
    unfolding s1_def by (simp add: getmem_def kheap_def mdemo_heap roundmb_def getmem_loop.simps upd_node_def Let_def)
  have "\<exists>s2. getmem 50 s1 = Some (0x100068, s2)"
    unfolding s1_def by (simp add: getmem_def kheap_def put_kheap_def getmem_loop.simps roundmb_def Let_def)
  then obtain s2 where s2: "getmem 50 s1 = Some (0x100068, s2)" by blast
  show ?thesis using getmem_blocks_disjoint [OF mdemo_rep _ _ _ _ s1 _ s2] s1 s2 by auto
qed

text \<open>C10: giving a block back that \<open>getmem\<close> has just handed out succeeds and restores the free memory, and
  giving it back a second time is refused and changes nothing.\<close>

theorem getmem_freemem_roundtrip:
  assumes "heap_rep A s F" and "0 < n" and "n \<le> 0xFFFFFFF8" and "getmem n s = Some (p, s1)" and "p \<noteq> SYSERR32"
  shows "\<exists>s2. freemem p n s1 = Some (OK, s2) \<and> heap_rep A s2 F \<and> freemem p n s2 = Some (SYSERR, s2)"
  using kmem.free_alloc [OF assms] kmem.double_free [OF assms] by metis

theorem getmem_freemem_roundtrip_witness:
  "\<exists>s1 s2. getmem 100 mdemo = Some (0x100000, s1) \<and> freemem 0x100000 100 s1 = Some (OK, s2) \<and>
    freemem 0x100000 100 s2 = Some (SYSERR, s2)"
proof -
  obtain s1 where "getmem 100 mdemo = Some (0x100000, s1)" using mdemo_getmem by blast
  then show ?thesis using getmem_freemem_roundtrip [OF mdemo_rep, of 100 "0x100000" s1] by auto
qed

text \<open>C21: \<open>getmem\<close> finds memory whenever there is any: if some range of the rounded size is free, wherever it
  lies, the request succeeds; freed neighbours have been merged, so the heap never fragments by itself.\<close>

theorem getmem_complete:
  assumes "heap_rep A s F" and "0 < n" and "n \<le> 0xFFFFFFF8" and "{a..<a + unat (roundmb n)} \<subseteq> F"
  shows "\<exists>p s'. getmem n s = Some (p, s') \<and> p \<noteq> SYSERR32"
proof -
  have fl: "fl_free (unat (minheap s)) (unat (maxheap s)) (kheap s) F" using assms(1) by (simp add: heap_rep_def)
  note r = roundmb_facts [OF assms(2,3)]
  from getmem_finds [OF fl r(1,2) assms(4)] show ?thesis using assms(2) by (auto simp: getmem_def head_kheap)
qed

theorem getmem_complete_witness: "\<exists>p s'. getmem 0x2FFFFA mdemo = Some (p, s') \<and> p \<noteq> SYSERR32"
proof -
  have "unat (roundmb 0x2FFFFA) = 0x300000" by (simp add: roundmb_def)
  then show ?thesis using getmem_complete [OF mdemo_rep, of "0x2FFFFA" "0x100000"] by simp
qed

text \<open>A stack from \<open>getstk\<close> lies in free memory below the returned top-of-stack word, and \<open>freestk\<close> gives
  exactly that memory back.\<close>

theorem getstk_freestk_roundtrip:
  assumes "heap_rep A s F" and "0 < n" and "n \<le> 0xFFFFFFF8" and "getstk n s = Some (p, s1)" and "p \<noteq> SYSERR32"
  shows "{unat p + 4 - unat n..<unat p + 4} \<subseteq> F \<and> (\<exists>s2. freestk p n s1 = Some (OK, s2) \<and> heap_rep A s2 F)"
proof -
  have "stk_ext p n \<subseteq> F" using kstk.alloc_SomeD(1) [OF assms] .
  then show ?thesis
    using kstk.free_alloc [OF assms] roundmb_facts(3) [OF assms(2,3)] unfolding stk_ext_def by fastforce
qed

theorem getstk_freestk_roundtrip_witness:
  "\<exists>s1. getstk 8192 mdemo = Some (0x3FFFFC, s1) \<and> (\<exists>s2. freestk 0x3FFFFC 8192 s1 = Some (OK, s2))"
proof -
  have "\<exists>s1. getstk 8192 mdemo = Some (0x3FFFFC, s1)"
    by (simp add: getstk_def getstk_body_def kheap_def mdemo_heap roundmb_def getstk_loop.simps Let_def)
  then obtain s1 where s1: "getstk 8192 mdemo = Some (0x3FFFFC, s1)" by blast
  then show ?thesis using getstk_freestk_roundtrip [OF mdemo_rep _ _ s1] by auto
qed

text \<open>After \<open>meminit\<close> the whole memory from the end of the kernel image to 4 MB is free.\<close>

theorem meminit_all_free:
  assumes "0 < end_addr" and "end_addr < 0x400000" and "8 dvd unat end_addr"
  shows "heap_rep {unat end_addr..<0x400000} (meminit end_addr s) {unat end_addr..<0x400000}"
  using meminit_rep [OF assms] .

theorem meminit_all_free_witness: "heap_rep {0x150008..<0x400000} (meminit 0x150008 mdemo) {0x150008..<0x400000}"
  using meminit_all_free [of "0x150008" mdemo] by simp

text \<open>A request of more than \<open>0xFFFFFFF8\<close> bytes does not fail. Its size is rounded to zero, and the call
  returns the address of a free block and leaves that block free: the next request gets it too.\<close>

theorem getmem_huge_returns_free_block:
  assumes "heap_rep A s F" and "F \<noteq> {}" and "n > 0xFFFFFFF8"
  shows "\<exists>p s'. getmem n s = Some (p, s') \<and> p \<noteq> SYSERR32 \<and> unat p \<in> F \<and> heap_rep A s' F"
proof -
  obtain bs where bs: "fl_ok (unat (minheap s)) (unat (maxheap s)) (kheap s) bs" "bytes bs = F"
    using assms(1) by (auto simp: heap_rep_def fl_free_def)
  have "bs \<noteq> []" using bs(2) assms(2) by (auto simp: bytes_def)
  then obtain a m ds where b: "bs = (a, m) # ds" by (cases bs) auto
  let ?f = "kheap s" and ?c = "mnext (fl_head (kheap s))"
  have c: "?c \<noteq> 0" "unat ?c = a" "unat (mlength (fl_nodes ?f ?c)) = m" "0 < m" "a + m \<le> unat (maxheap s)" "8 dvd m"
    using bs(1) b by (auto simp: fl_ok_def fl_seg_def)
  have "mlength (fl_nodes ?f ?c) \<noteq> 0" "0 < mlength (fl_nodes ?f ?c)" using c(3,4) by (auto simp: word_less_nat_alt)
  then have "getmem_loop 0 None ?c ?f = Some (?c, ?f)"
    using c(1) by (subst getmem_loop.simps) (simp add: upd_node_def Let_def)
  then have "getmem n s = Some (?c, s)"
    using assms(3) by (auto simp: getmem_def roundmb_wraps head_kheap Let_def)
  moreover have "?c \<noteq> SYSERR32" 
  proof
    assume "?c = SYSERR32"
    then have "a = 0xFFFFFFFF" using c(2) by simp
    then show False using c(4,5) bs(1) by (simp add: fl_ok_def)
  qed
  moreover have "unat ?c \<in> F" using c(2,4) b bs(2) by auto
  ultimately show ?thesis using assms(1) by blast
qed

theorem getmem_huge_returns_free_block_witness:
  "\<exists>p s'. getmem 0xFFFFFFFF mdemo = Some (p, s') \<and> p \<noteq> SYSERR32 \<and> unat p \<in> {0x100000..<0x400000}"
  using getmem_huge_returns_free_block [OF mdemo_rep, of "0xFFFFFFFF"] by auto

subsection \<open>The virtual heap\<close>

definition vdemo :: vstate where
  "vdemo = upd_proc 1 (\<lambda>p. p\<lparr>vh := True, hsize := 4\<rparr>) (mstate.extend
     (kstate.extend kdemo (mstate.fields \<lparr>mnext = 0, mlength = 0\<rparr> (\<lambda>_. \<lparr>mnext = 0, mlength = 0\<rparr>) 0 0 (\<lambda>_. 0)))
     (vstate.fields (\<lambda>_ _. \<lparr>mnext = 0, mlength = 0\<rparr>)))"

lemma vdemo_proc:
  "currpid vdemo = 1" "vh (proctab vdemo 1)" "\<not> vmeminit (proctab vdemo 1)" "hsize (proctab vdemo 1) = 4"
  "vmemlist (proctab vdemo 1) = \<lparr>mnext = 0, mlength = 0\<rparr>" "vheap_end_of vdemo = 0x01004000"
  by (simp_all add: vdemo_def vheap_end_of_def vstate.defs mstate.defs kstate.defs kdemo_def kzero_def demo_proc_def procent0_def)

text \<open>The first \<open>vgetmem\<close> of a process with a virtual heap sets its free list up, so that all its pages are
  free, and serves the request from them.\<close>

theorem vgetmem_first_request:
  assumes "vh (proctab s (currpid s))" and "\<not> vmeminit (proctab s (currpid s))" and "vheap_end_of s < 2 ^ 32"
    and "0 < n" and "n \<le> 4096 * hsize (proctab s (currpid s))" and "A = {0x01000000..<vheap_end_of s}"
  shows "\<exists>p s'. vgetmem n s = Some (p, s') \<and> p \<noteq> SYSERR32 \<and>
    {unat p..<unat p + unat n} \<subseteq> A \<and> vheap_rep A s' (A - heap_ext p n)"
proof -
  let ?h = "hsize (proctab s (currpid s))" and ?s = "vmeminit_proc s"
  have l: "unat (4096 * ?h) = 4096 * unat ?h"
    using assms(3) by (simp add: vheap_end_of_def unat_word_ariths take_bit_nat_eq_self)
  have h: "0 < ?h" "unat n \<le> 4096 * unat ?h" using assms(4,5) l by (auto simp: word_le_nat_alt word_less_nat_alt)
  have n8: "n \<le> 0xFFFFFFF8" using h(2) assms(3) by (simp add: vheap_end_of_def word_le_nat_alt)
  have R: "vheap_rep A ?s A" using vmeminit_proc_rep [OF assms(1) h(1) assms(3)] assms(6) by simp
  have eq: "vgetmem n s = vgetmem n ?s" using vgetmem_first [OF assms(1,2)] assms(4) by auto
  note r = roundmb_facts [OF assms(4) n8]
  have fl: "fl_free 0x01000000 (vheap_end_of ?s) (vheap ?s) A" and v: "vh (proctab ?s (currpid ?s))"
    "vmeminit (proctab ?s (currpid ?s))" and e: "A = {0x01000000..<vheap_end_of ?s}"
    using R by (auto simp: vheap_rep_def)
  have "unat (roundmb n) \<le> 4096 * unat ?h" using r(2,4) h(2) by (auto elim!: dvdE)
  then have "{0x01000000..<0x01000000 + unat (roundmb n)} \<subseteq> A" using assms(6) by (auto simp: vheap_end_of_def)
  then obtain p f' where p: "getmem_loop (roundmb n) None (mnext (fl_head (vheap ?s))) (vheap ?s) = Some (p, f')" "p \<noteq> SYSERR32"
    using getmem_finds [OF fl r(1,2)] by blast
  then have g: "vgetmem n ?s = Some (p, put_vheap f' ?s)" using v assms(4) by (auto simp: vgetmem_def head_vheap)
  note D = vmem.alloc_SomeD [OF R assms(4) n8 g p(2)]
  have "{unat p..<unat p + unat n} \<subseteq> A" using D(1) r(3) by (auto simp: heap_ext_def)
  then show ?thesis using g p(2) D(4) eq by auto
qed

theorem vgetmem_first_request_witness:
  "\<exists>p s'. vgetmem 0x3FF0 vdemo = Some (p, s') \<and> p \<noteq> SYSERR32 \<and> {unat p..<unat p + 0x3FF0} \<subseteq> {0x01000000..<0x01004000}"
  using vgetmem_first_request [of vdemo "0x3FF0"] by (auto simp: vdemo_proc)

text \<open>Blocks of the virtual heap never overlap, and giving one back restores the free memory and cannot be
  repeated.\<close>

theorem vgetmem_vfreemem_roundtrip:
  assumes "vheap_rep A s F" and "0 < n" and "n \<le> 0xFFFFFFF8" and "vgetmem n s = Some (p, s1)" and "p \<noteq> SYSERR32"
  shows "heap_ext p n \<subseteq> F \<and> vheap_rep A s1 (F - heap_ext p n) \<and>
    (\<exists>s2. vfreemem p n s1 = Some (OK, s2) \<and> vheap_rep A s2 F \<and> vfreemem p n s2 = Some (SYSERR, s2))"
  using vmem.alloc_SomeD(1,4) [OF assms] vmem.free_alloc [OF assms] vmem.double_free [OF assms] by metis

theorem vgetmem_vfreemem_roundtrip_witness:
  "\<exists>p s1 s2. vgetmem 64 (vmeminit_proc vdemo) = Some (p, s1) \<and> vfreemem p 64 s1 = Some (OK, s2)"
proof -
  have R: "vheap_rep {0x01000000..<0x01004000} (vmeminit_proc vdemo) {0x01000000..<0x01004000}"
    using vmeminit_proc_rep [of vdemo] by (simp add: vdemo_proc)
  have "\<exists>s1. vgetmem 64 (vmeminit_proc vdemo) = Some (0x01000000, s1)"
    by (simp add: vgetmem_def vmeminit_proc_def vheap_def vdemo_proc roundmb_def getmem_loop.simps Let_def)
  then obtain s1 where s1: "vgetmem 64 (vmeminit_proc vdemo) = Some (0x01000000, s1)" by blast
  then show ?thesis using vgetmem_vfreemem_roundtrip [OF R _ _ s1] by auto
qed

text \<open>\<open>vfreemem\<close> does not test whether the virtual heap has been set up: before the first \<open>vgetmem\<close> it
  accepts a block that was never handed out.\<close>

theorem vfreemem_before_vgetmem:
  assumes "vh (proctab s (currpid s))" and "vmemlist (proctab s (currpid s)) = \<lparr>mnext = 0, mlength = 0\<rparr>"
    and "0 < hsize (proctab s (currpid s))" and "vheap_end_of s < 2 ^ 32"
  shows "\<exists>s'. vfreemem VHEAP_START 8 s = Some (OK, s')"
  using vfreemem_uninitialised [OF assms] .

theorem vfreemem_before_vgetmem_witness: "\<exists>s'. vfreemem VHEAP_START 8 vdemo = Some (OK, s')"
  using vfreemem_before_vgetmem [of vdemo] by (simp add: vdemo_proc)

end
