(* ===== verification/Paging_State.thy ===== *)
theory Paging_State
  imports Virtual_Heap "HOL-Library.Signed_Division"
begin

section \<open>The data model of the paging system\<close>

text \<open>
  include/paging.h, include/ipt.h, include/page_server.h, include/qrdisk.h and the globals of
  system/ipt.c, system/paging.c, system/srpolicy.c, paging/psinit.c and the static locals of
  getNewFrameFIFO, getNewFrameGCA, create.c and vcreate.c. Physical memory is the word memory
  \<open>words\<close> of the kernel: page directories, page tables and pages are words of frames, so a
  frame that is used again for something else really overlaps its old contents. A page
  directory or page table entry is the bit field that the processor reads, decoded into a record.
\<close>

abbreviation (input) NFRAMES :: u32 where "NFRAMES \<equiv> 28"
abbreviation (input) METADATA_START :: addr where "METADATA_START \<equiv> 0x00400000"
abbreviation (input) FRAME0 :: u32 where "FRAME0 \<equiv> 1024"
abbreviation (input) VPN0 :: u32 where "VPN0 \<equiv> 4096"
abbreviation (input) PAGETABSIZE :: nat where "PAGETABSIZE \<equiv> 1024"
abbreviation (input) PAGEDIRSIZE :: nat where "PAGEDIRSIZE \<equiv> 1024"
abbreviation (input) NUM_GLOBAL_PT :: nat where "NUM_GLOBAL_PT \<equiv> 4"
abbreviation (input) DEV_MEM_PD_INDEX :: u32 where "DEV_MEM_PD_INDEX \<equiv> 576"
abbreviation (input) DEV_MEM_START :: addr where "DEV_MEM_START \<equiv> 0x90000000"
abbreviation (input) FIFO :: int where "FIFO \<equiv> 3"
abbreviation (input) GCA :: int where "GCA \<equiv> 4"
abbreviation (input) GLOBAL :: pid32 where "GLOBAL \<equiv> - 1"
abbreviation (input) NO_PROCESS :: pid32 where "NO_PROCESS \<equiv> - 2"
abbreviation (input) NO_VPN :: int where "NO_VPN \<equiv> - 1"
abbreviation (input) NOT_USED :: int where "NOT_USED \<equiv> 0"
abbreviation (input) PDIR :: int where "PDIR \<equiv> 1"
abbreviation (input) PTAB :: int where "PTAB \<equiv> 2"
abbreviation (input) PAGE :: int where "PAGE \<equiv> 3"
abbreviation (input) UM00 :: u32 where "UM00 \<equiv> 0"
abbreviation (input) UM10 :: u32 where "UM10 \<equiv> 1"
abbreviation (input) UM11 :: u32 where "UM11 \<equiv> 2"
abbreviation (input) SKIP_FRAME :: u32 where "SKIP_FRAME \<equiv> 3"
abbreviation (input) MAX_ID :: bsd_t where "MAX_ID \<equiv> 7"
abbreviation (input) MIN_ID :: bsd_t where "MIN_ID \<equiv> 0"
abbreviation (input) MAX_BS_ENTRIES :: int where "MAX_BS_ENTRIES \<equiv> MAX_ID - MIN_ID + 1"
abbreviation (input) MAX_PAGES_PER_BS :: int where "MAX_PAGES_PER_BS \<equiv> 200"
abbreviation (input) RD_PAGES_PER_BS :: int where "RD_PAGES_PER_BS \<equiv> 205"

subsection \<open>Page directory and page table entries\<close>

record pd_t =
  pd_pres :: bool
  pd_write :: bool
  pd_user :: bool
  pd_pwt :: bool
  pd_pcd :: bool
  pd_acc :: bool
  pd_mbz :: bool
  pd_fmb :: bool
  pd_global :: bool
  pd_avail :: "3 word"
  pd_base :: "20 word"

record pt_t =
  pt_pres :: bool
  pt_write :: bool
  pt_user :: bool
  pt_pwt :: bool
  pt_pcd :: bool
  pt_acc :: bool
  pt_dirty :: bool
  pt_mbz :: bool
  pt_global :: bool
  pt_avail :: "3 word"
  pt_base :: "20 word"

definition enc_entry :: "bool list \<Rightarrow> 3 word \<Rightarrow> 20 word \<Rightarrow> u32" where
  "enc_entry bs av base = horner_sum of_bool 2 bs OR push_bit 9 (ucast av) OR push_bit 12 (ucast base)"

definition dec_pd :: "u32 \<Rightarrow> pd_t" where
  "dec_pd w = \<lparr>pd_pres = bit w 0, pd_write = bit w 1, pd_user = bit w 2, pd_pwt = bit w 3,
     pd_pcd = bit w 4, pd_acc = bit w 5, pd_mbz = bit w 6, pd_fmb = bit w 7, pd_global = bit w 8,
     pd_avail = ucast (drop_bit 9 w), pd_base = ucast (drop_bit 12 w)\<rparr>"

definition enc_pd :: "pd_t \<Rightarrow> u32" where
  "enc_pd e = enc_entry [pd_pres e, pd_write e, pd_user e, pd_pwt e, pd_pcd e, pd_acc e, pd_mbz e,
     pd_fmb e, pd_global e] (pd_avail e) (pd_base e)"

definition dec_pt :: "u32 \<Rightarrow> pt_t" where
  "dec_pt w = \<lparr>pt_pres = bit w 0, pt_write = bit w 1, pt_user = bit w 2, pt_pwt = bit w 3,
     pt_pcd = bit w 4, pt_acc = bit w 5, pt_dirty = bit w 6, pt_mbz = bit w 7, pt_global = bit w 8,
     pt_avail = ucast (drop_bit 9 w), pt_base = ucast (drop_bit 12 w)\<rparr>"

definition enc_pt :: "pt_t \<Rightarrow> u32" where
  "enc_pt e = enc_entry [pt_pres e, pt_write e, pt_user e, pt_pwt e, pt_pcd e, pt_acc e, pt_dirty e,
     pt_mbz e, pt_global e] (pt_avail e) (pt_base e)"

lemma enc_entry_bits:
  assumes "length bs = 9"
  shows "bit (enc_entry bs av base) n \<longleftrightarrow>
    (if n < 9 then bs ! n else if n < 12 then bit av (n - 9) else n < 32 \<and> bit base (n - 12))"
  using assms
  by (auto simp: enc_entry_def bit_simps bit_horner_sum_bit_word_iff dest: bit_imp_le_length)

lemma dec_enc_pt [simp]: "dec_pt (enc_pt e) = e"
proof -
  have "ucast (drop_bit 9 (enc_pt e)) = pt_avail e" "ucast (drop_bit 12 (enc_pt e)) = pt_base e"
    by (rule bit_word_eqI; auto simp: enc_pt_def bit_simps enc_entry_bits)+
  then show ?thesis by (simp add: dec_pt_def) (simp add: enc_pt_def enc_entry_bits)
qed

lemma dec_enc_pd [simp]: "dec_pd (enc_pd e) = e"
proof -
  have "ucast (drop_bit 9 (enc_pd e)) = pd_avail e" "ucast (drop_bit 12 (enc_pd e)) = pd_base e"
    by (rule bit_word_eqI; auto simp: enc_pd_def bit_simps enc_entry_bits)+
  then show ?thesis by (simp add: dec_pd_def) (simp add: enc_pd_def enc_entry_bits)
qed

subsection \<open>Frames, backing stores, disk\<close>

record frame_t =
  nextFrame :: u32
  prevFrame :: u32
  fstatus :: int
  fpid :: pid32
  fvpn :: int
  refCount :: u32

record bs_entry =
  bse_id :: bsd_t
  isopen :: bool
  isallocated :: bool
  usecount :: int
  npages :: u32

text \<open>A disk block or a buffer of one block, as its 128 words.\<close>

type_synonym wbuf = "nat \<Rightarrow> u32"

record qrds_buff =
  qstatus :: int
  qpid :: pid32
  qdata :: wbuf

record pgstate = vstate +
  ipt :: "u32 \<Rightarrow> frame_t"
  flistHead :: u32
  flistTail :: u32
  nextframe_fifo :: u32
  nextframe_gca :: u32
  currpolicy :: int
  pf_sem :: sid32
  pfc :: u32
  cr2 :: addr
  free_bs_count :: u32
  gpd :: addr
  gpt :: "nat \<Rightarrow> addr"
  dpt :: addr
  ps_active :: bool
  bs_init_sem :: sid32
  bs_sem :: sid32
  bstab :: "bsd_t \<Rightarrow> bs_entry"
  qrds :: "int \<Rightarrow> qrds_buff"
  ramdisk :: "int \<Rightarrow> wbuf"
  nextpid_create :: pid32
  nextpid_vcreate :: pid32

lemma pgstate_upd [simp]:
  "ipt (upd_proc p f s) = ipt s" "flistHead (upd_proc p f s) = flistHead s" "flistTail (upd_proc p f s) = flistTail s"
  "nextframe_fifo (upd_proc p f s) = nextframe_fifo s" "nextframe_gca (upd_proc p f s) = nextframe_gca s"
  "currpolicy (upd_proc p f s) = currpolicy s" "pf_sem (upd_proc p f s) = pf_sem s" "pfc (upd_proc p f s) = pfc s"
  "cr2 (upd_proc p f s) = cr2 s" "free_bs_count (upd_proc p f s) = free_bs_count s" "gpd (upd_proc p f s) = gpd s"
  "gpt (upd_proc p f s) = gpt s" "dpt (upd_proc p f s) = dpt s" "ps_active (upd_proc p f s) = ps_active s"
  "bs_init_sem (upd_proc p f s) = bs_init_sem s" "bs_sem (upd_proc p f s) = bs_sem s" "bstab (upd_proc p f s) = bstab s"
  "qrds (upd_proc p f s) = qrds s" "ramdisk (upd_proc p f s) = ramdisk s"
  "nextpid_create (upd_proc p f s) = nextpid_create s" "nextpid_vcreate (upd_proc p f s) = nextpid_vcreate s"
  by (simp_all add: upd_proc_def)

text \<open>Assignments through pointers into the tables: \<open>ipt[fr].f = ...\<close>, \<open>bstab[i].f = ...\<close>,
  \<open>pt[i].f = ...\<close>, \<open>pd[i].f = ...\<close>.\<close>

definition upd_ipt :: "u32 \<Rightarrow> (frame_t \<Rightarrow> frame_t) \<Rightarrow> 'a pgstate_scheme \<Rightarrow> 'a pgstate_scheme" where
  "upd_ipt fr f s = s\<lparr>ipt := (ipt s)(fr := f (ipt s fr))\<rparr>"

definition upd_bs :: "bsd_t \<Rightarrow> (bs_entry \<Rightarrow> bs_entry) \<Rightarrow> 'a pgstate_scheme \<Rightarrow> 'a pgstate_scheme" where
  "upd_bs i f s = s\<lparr>bstab := (bstab s)(i := f (bstab s i))\<rparr>"

definition pte :: "'a mstate_scheme \<Rightarrow> addr \<Rightarrow> u32 \<Rightarrow> pt_t" where
  "pte s pt i = dec_pt (words s (pt + 4 * i))"

definition pde :: "'a mstate_scheme \<Rightarrow> addr \<Rightarrow> u32 \<Rightarrow> pd_t" where
  "pde s pd i = dec_pd (words s (pd + 4 * i))"

definition upd_pte :: "addr \<Rightarrow> u32 \<Rightarrow> (pt_t \<Rightarrow> pt_t) \<Rightarrow> 'a mstate_scheme \<Rightarrow> 'a mstate_scheme" where
  "upd_pte pt i f s = s\<lparr>words := (words s)(pt + 4 * i := enc_pt (f (pte s pt i)))\<rparr>"

definition upd_pde :: "addr \<Rightarrow> u32 \<Rightarrow> (pd_t \<Rightarrow> pd_t) \<Rightarrow> 'a mstate_scheme \<Rightarrow> 'a mstate_scheme" where
  "upd_pde pd i f s = s\<lparr>words := (words s)(pd + 4 * i := enc_pd (f (pde s pd i)))\<rparr>"

end
