(* ===== verification/Frames.thy ===== *)
theory Frames
  imports Paging_State
begin

section \<open>Frames and address arithmetic\<close>

text \<open>
  The part of system/ipt.c and system/paging.c that never gives the processor away: the
  inverted page table, the frame replacement queue, reference counts of page tables, the
  accessed/dirty scan of the clock algorithm, the decomposition of virtual addresses, page table
  entries and identity mappings; system/srpolicy.c, get_faults.c. The hooks of system/hooks.c are
  compiled to nothing (\<open>HOOK_LOG_ON\<close> is off) and \<open>kprintf\<close> has no effect on the state. The model
  has no TLB, so \<open>invalPage\<close> has no counterpart.
\<close>

subsection \<open>Addresses\<close>

definition frameNum2ptr :: "u32 \<Rightarrow> addr" where
  "frameNum2ptr frameNum = METADATA_START + frameNum * NBPG"

text \<open>The difference of two pointers is signed, and so is the division.\<close>

definition faddr2frameNum :: "addr \<Rightarrow> u32" where
  "faddr2frameNum faddr = word_of_int (sint (faddr - METADATA_START) sdiv 4096)"

definition vaddr2offset :: "addr \<Rightarrow> u32" where
  "vaddr2offset vaddr = vaddr AND 0x00000FFF"

definition vaddr2pdi :: "addr \<Rightarrow> u32" where
  "vaddr2pdi vaddr = drop_bit 22 (vaddr AND 0xFFC00000)"

definition vaddr2pti :: "addr \<Rightarrow> u32" where
  "vaddr2pti vaddr = drop_bit 12 (vaddr AND 0x003FF000)"

definition vaddr2vpn :: "addr \<Rightarrow> u32" where
  "vaddr2vpn vaddr = drop_bit 12 vaddr"

definition pdi2pt :: "'a mstate_scheme \<Rightarrow> addr \<Rightarrow> u32 \<Rightarrow> addr" where
  "pdi2pt s pd pdi = push_bit 12 (ucast (pd_base (pde s pd pdi)))"

definition pde2pdi :: "pd_t \<Rightarrow> u32" where
  "pde2pdi pd = drop_bit 10 (ucast (pd_base pd) AND 0xFFC00)"

definition pte2pti :: "pt_t \<Rightarrow> u32" where
  "pte2pti pt = ucast (pt_base pt) AND 0x003FF"

definition set_PTE_addr :: "addr \<Rightarrow> u32 \<Rightarrow> addr \<Rightarrow> 'a mstate_scheme \<Rightarrow> 'a mstate_scheme" where
  "set_PTE_addr pt i addr s = upd_pte pt i (\<lambda>e. e\<lparr>pt_base := ucast (drop_bit 12 addr)\<rparr>) s"

definition set_PDE_addr :: "addr \<Rightarrow> u32 \<Rightarrow> addr \<Rightarrow> 'a mstate_scheme \<Rightarrow> 'a mstate_scheme" where
  "set_PDE_addr pd i addr s = upd_pde pd i (\<lambda>e. e\<lparr>pd_base := ucast (drop_bit 12 addr)\<rparr>) s"

definition isInvalidAddr :: "addr \<Rightarrow> pid32 \<Rightarrow> 'a kstate_scheme \<Rightarrow> bool" where
  "isInvalidAddr a pid s \<longleftrightarrow> a \<ge> VHEAP_START + NBPG * hsize (proctab s pid)"

text \<open>The translation that the processor performs, as \<open>vaddr2paddr\<close> computes it (its second argument
  and the output it prints are for debugging).\<close>

definition vaddr2paddr :: "addr \<Rightarrow> 'a mstate_scheme \<Rightarrow> addr" where
  "vaddr2paddr vaddr s =
     (let pd = prpd (proctab s (currpid s));
          offset = vaddr2offset vaddr;
          pdi = vaddr2pdi vaddr;
          pti = vaddr2pti vaddr;
          pt = push_bit 12 (ucast (pd_base (pde s pd pdi)));
          paddr = push_bit 12 (ucast (pt_base (pte s pt pti)))
      in paddr OR offset)"

definition setup_id_entry :: "addr \<Rightarrow> addr \<Rightarrow> nat \<Rightarrow> 'a mstate_scheme \<Rightarrow> 'a mstate_scheme" where
  "setup_id_entry pt frameAddr i s =
     (let s = upd_pte pt (of_nat i) (\<lambda>e. e\<lparr>pt_pres := True, pt_write := True, pt_user := False,
                pt_pwt := False, pt_pcd := False, pt_acc := False, pt_dirty := False, pt_mbz := False,
                pt_global := False, pt_avail := 0\<rparr>) s
      in set_PTE_addr pt (of_nat i) (frameAddr + of_nat i * NBPG) s)"

definition setup_id_paging :: "addr \<Rightarrow> addr \<Rightarrow> 'a mstate_scheme \<Rightarrow> 'a mstate_scheme" where
  "setup_id_paging pt firstFrame s =
     (let frameAddr = firstFrame AND 0xfffff000
      in fold (setup_id_entry pt frameAddr) [0..<PAGETABSIZE] s)"

subsection \<open>The inverted page table\<close>

definition clearFrame :: "u32 \<Rightarrow> 'a pgstate_scheme \<Rightarrow> 'a pgstate_scheme" where
  "clearFrame fr s = upd_ipt fr (\<lambda>e. e\<lparr>fstatus := NOT_USED, fpid := NO_PROCESS, fvpn := NO_VPN,
     nextFrame := EMPTY32, prevFrame := EMPTY32, refCount := 0\<rparr>) s"

definition init_ipt :: "'a pgstate_scheme \<Rightarrow> 'a pgstate_scheme" where
  "init_ipt s = fold (\<lambda>i. clearFrame (of_nat i)) [0..<unat NFRAMES] s"

definition freeFrameFIFO :: "u32 \<Rightarrow> 'a pgstate_scheme \<Rightarrow> 'a pgstate_scheme" where
  "freeFrameFIFO fr s =
     (let prev = prevFrame (ipt s fr);
          next = nextFrame (ipt s fr) in
      if fr = flistHead s \<and> fr = flistTail s then s\<lparr>flistHead := EMPTY32, flistTail := EMPTY32\<rparr>
      else if fr = flistHead s then
        (let s = upd_ipt next (\<lambda>e. e\<lparr>prevFrame := EMPTY32\<rparr>) s in s\<lparr>flistHead := next\<rparr>)
      else if fr = flistTail s then
        (let s = upd_ipt prev (\<lambda>e. e\<lparr>nextFrame := EMPTY32\<rparr>) s in s\<lparr>flistTail := prev\<rparr>)
      else
        (let s = upd_ipt prev (\<lambda>e. e\<lparr>nextFrame := next\<rparr>) s
         in upd_ipt next (\<lambda>e. e\<lparr>prevFrame := prev\<rparr>) s))"

definition freeFrameGCA :: "u32 \<Rightarrow> 'a pgstate_scheme \<Rightarrow> 'a pgstate_scheme" where
  "freeFrameGCA fr s = s"

definition freeFrame :: "u32 \<Rightarrow> 'a pgstate_scheme \<Rightarrow> 'a pgstate_scheme" where
  "freeFrame fr s =
     (let s = (if currpolicy s = FIFO \<and> fstatus (ipt s fr) = PAGE then freeFrameFIFO fr s
               else if currpolicy s = GCA \<and> fstatus (ipt s fr) = PAGE then freeFrameGCA fr s
               else s)
      in clearFrame fr s)"

definition freeProcFrames :: "pid32 \<Rightarrow> 'a pgstate_scheme \<Rightarrow> 'a pgstate_scheme" where
  "freeProcFrames pid s =
     (if \<not> vh (proctab s pid) then s
      else fold (\<lambda>i s. if fpid (ipt s (of_nat i)) = pid then freeFrame (of_nat i) s else s)
             [0..<unat NFRAMES] s)"

definition init_frame_FIFO :: "u32 \<Rightarrow> 'a pgstate_scheme \<Rightarrow> 'a pgstate_scheme" where
  "init_frame_FIFO fr s =
     (if flistHead s = EMPTY32 \<and> flistTail s = EMPTY32 then s\<lparr>flistHead := fr, flistTail := fr\<rparr>
      else
        (let s = upd_ipt fr (\<lambda>e. e\<lparr>nextFrame := flistHead s\<rparr>) s;
             s = upd_ipt fr (\<lambda>e. e\<lparr>prevFrame := EMPTY32\<rparr>) s;
             s = upd_ipt (flistHead s) (\<lambda>e. e\<lparr>prevFrame := fr\<rparr>) s
         in s\<lparr>flistHead := fr\<rparr>))"

definition init_frame_GCA :: "u32 \<Rightarrow> 'a pgstate_scheme \<Rightarrow> 'a pgstate_scheme" where
  "init_frame_GCA fr s = s"

definition init_frame :: "u32 \<Rightarrow> int \<Rightarrow> pid32 \<Rightarrow> int \<Rightarrow> 'a pgstate_scheme \<Rightarrow> 'a pgstate_scheme" where
  "init_frame fr type pid vpn s =
     (let s = upd_ipt fr (\<lambda>e. e\<lparr>fstatus := type, fpid := pid, fvpn := vpn, refCount := 0,
                nextFrame := EMPTY32, prevFrame := EMPTY32\<rparr>) s;
          s = (if type = PAGE \<and> currpolicy s = FIFO then init_frame_FIFO fr s else s)
      in if type = PAGE \<and> currpolicy s = GCA then init_frame_GCA fr s else s)"

definition incRefCount :: "addr \<Rightarrow> 'a pgstate_scheme \<Rightarrow> 'a pgstate_scheme" where
  "incRefCount pt s = upd_ipt (faddr2frameNum pt) (\<lambda>e. e\<lparr>refCount := refCount e + 1\<rparr>) s"

text \<open>\<open>refCount\<close> is unsigned, so the test \<open>refCount <= 0\<close> holds only at zero.\<close>

definition decRefCount :: "addr \<Rightarrow> addr \<Rightarrow> u32 \<Rightarrow> 'a pgstate_scheme \<Rightarrow> 'a pgstate_scheme" where
  "decRefCount pt pd pdi s =
     (let fr = faddr2frameNum pt;
          s = upd_ipt fr (\<lambda>e. e\<lparr>refCount := refCount e - 1\<rparr>) s in
      if refCount (ipt s fr) \<le> 0 then
        (let s = freeFrame fr s in upd_pde pd pdi (\<lambda>e. e\<lparr>pd_pres := False\<rparr>) s)
      else s)"

definition pickFrameFIFO :: "'a pgstate_scheme \<Rightarrow> (u32 \<times> 'a pgstate_scheme) option" where
  "pickFrameFIFO s =
     (if flistTail s = EMPTY32 \<and> flistHead s = EMPTY32 then Some (SYSERR32, s)
      else
        (let (fr, s) =
           (if flistTail s = flistHead s
            then (flistTail s, s\<lparr>flistTail := EMPTY32, flistHead := EMPTY32\<rparr>)
            else let fr = flistTail s;
                     s = s\<lparr>flistTail := prevFrame (ipt s fr)\<rparr>
                 in (fr, upd_ipt (flistTail s) (\<lambda>e. e\<lparr>nextFrame := EMPTY32\<rparr>) s))
         in if fr = EMPTY32 then None else Some (fr, s)))"

definition pickFrameGCA :: "'a pgstate_scheme \<Rightarrow> (u32 \<times> 'a pgstate_scheme) option" where
  "pickFrameGCA s = None"

definition pickFrame :: "'a pgstate_scheme \<Rightarrow> (u32 \<times> 'a pgstate_scheme) option" where
  "pickFrame s = (if currpolicy s = FIFO then pickFrameFIFO s else pickFrameGCA s)"

text \<open>One look of the clock algorithm at a frame; \<open>None\<close> is the panic on a page that is modified but
  not accessed.\<close>

definition getAndSetUM :: "u32 \<Rightarrow> 'a pgstate_scheme \<Rightarrow> (u32 \<times> 'a pgstate_scheme) option" where
  "getAndSetUM fr s =
     (let vp = word_of_int (fvpn (ipt s fr)) :: u32;
          pid = fpid (ipt s fr) in
      if pid = GLOBAL \<or> pid = NO_PROCESS \<or> vp = word_of_int NO_VPN then Some (SKIP_FRAME, s)
      else
        (let pd = prpd (proctab s pid);
             a = vp * NBPG;
             pdi = vaddr2pdi a;
             pti = vaddr2pti a;
             pt = pdi2pt s pd pdi;
             use = pt_acc (pte s pt pti);
             mod' = pt_dirty (pte s pt pti) in
         if use \<and> mod' then
           Some (UM11, upd_pte pt pti (\<lambda>e. e\<lparr>pt_avail := 1\<rparr>) (upd_pte pt pti (\<lambda>e. e\<lparr>pt_dirty := False\<rparr>) s))
         else if use \<and> \<not> mod' then Some (UM10, upd_pte pt pti (\<lambda>e. e\<lparr>pt_acc := False\<rparr>) s)
         else if \<not> use \<and> \<not> mod' then Some (UM00, s)
         else None))"

definition srpolicy :: "int \<Rightarrow> 'a pgstate_scheme \<Rightarrow> int \<times> 'a pgstate_scheme" where
  "srpolicy policy s =
     (if policy = FIFO then (OK, s\<lparr>currpolicy := FIFO\<rparr>)
      else if policy = GCA then (OK, s\<lparr>currpolicy := GCA\<rparr>)
      else (SYSERR, s))"

definition get_faults :: "'a pgstate_scheme \<Rightarrow> u32" where
  "get_faults s = pfc s"

end
