(* ===== verification/Frame_Queue.thy ===== *)
theory Frame_Queue
  imports Frames Interfaces
begin

section \<open>The frame replacement queue\<close>

text \<open>
  The queue of page frames that the FIFO policy keeps in the inverted page table (\<open>flistHead\<close>,
  \<open>flistTail\<close>, \<open>nextFrame\<close>, \<open>prevFrame\<close> of system/ipt.c): new frames enter at the head, victims leave at
  the tail. \<open>fqueue s xs\<close> says that the table links exactly the frames \<open>xs\<close>, newest first. The
  queue satisfies the contract \<open>fifo\<close>, and \<open>frames_ok\<close>, which every frame operation keeps, says that
  a frame is on it if and only if it holds a page.
\<close>

lemma upd_ipt_simps [simp]:
  "ipt (upd_ipt fr f s) = (ipt s)(fr := f (ipt s fr))" "flistHead (upd_ipt fr f s) = flistHead s"
  "flistTail (upd_ipt fr f s) = flistTail s" "currpolicy (upd_ipt fr f s) = currpolicy s"
  "proctab (upd_ipt fr f s) = proctab s" "currpid (upd_ipt fr f s) = currpid s" "words (upd_ipt fr f s) = words s"
  by (simp_all add: upd_ipt_def)

subsection \<open>Chains of frames\<close>

fun fchain :: "(u32 \<Rightarrow> frame_t) \<Rightarrow> u32 list \<Rightarrow> bool" where
  "fchain t (a # b # ns) \<longleftrightarrow> nextFrame (t a) = b \<and> prevFrame (t b) = a \<and> fchain t (b # ns)"
| "fchain t _ \<longleftrightarrow> True"

lemma fchain_append: "fchain t (xs @ a # ys) \<longleftrightarrow> fchain t (xs @ [a]) \<and> fchain t (a # ys)"
  by (induction xs rule: induct_list012) auto

lemma fchain_cong:
  assumes "\<And>x. x \<in> set (butlast ns) \<Longrightarrow> nextFrame (t' x) = nextFrame (t x)"
    and "\<And>x. x \<in> set (tl ns) \<Longrightarrow> prevFrame (t' x) = prevFrame (t x)"
  shows "fchain t' ns = fchain t ns"
  using assms by (induction ns rule: induct_list012) auto

definition fqueue :: "'a pgstate_scheme \<Rightarrow> u32 list \<Rightarrow> bool" where
  "fqueue s xs \<longleftrightarrow> distinct xs \<and> set xs \<subseteq> {fr. fr < NFRAMES} \<and> fchain (ipt s) xs \<and>
     (if xs = [] then flistHead s = EMPTY32 \<and> flistTail s = EMPTY32
      else flistHead s = hd xs \<and> flistTail s = last xs \<and>
           prevFrame (ipt s (hd xs)) = EMPTY32 \<and> nextFrame (ipt s (last xs)) = EMPTY32)"

lemma frame_not_empty: "fr < NFRAMES \<Longrightarrow> fr \<noteq> EMPTY32"
  by auto

lemma fqueue_cong:
  assumes "\<And>x. x \<in> set xs \<Longrightarrow> nextFrame (ipt s' x) = nextFrame (ipt s x) \<and> prevFrame (ipt s' x) = prevFrame (ipt s x)"
    and "flistHead s' = flistHead s" "flistTail s' = flistTail s"
  shows "fqueue s' xs = fqueue s xs"
proof -
  have "fchain (ipt s') xs = fchain (ipt s) xs"
    using assms(1) by (intro fchain_cong) (auto dest: in_set_butlastD in_set_tlD)
  then show ?thesis using assms by (cases "xs = []") (auto simp: fqueue_def)
qed

lemma fqueue_upd [simp]: "fr \<notin> set xs \<Longrightarrow> fqueue (upd_ipt fr f s) xs = fqueue s xs"
  by (rule fqueue_cong) (auto simp: upd_ipt_def)

lemma fqueue_push:
  assumes Q: "fqueue s xs" and fr: "fr < NFRAMES" "fr \<notin> set xs"
    and e: "nextFrame (ipt s fr) = EMPTY32" "prevFrame (ipt s fr) = EMPTY32"
  shows "fqueue (init_frame_FIFO fr s) (fr # xs)"
proof (cases xs)
  case Nil
  then show ?thesis using Q fr e by (simp add: fqueue_def init_frame_FIFO_def)
next
  case (Cons a ys)
  have h: "flistHead s = a" "flistHead s \<noteq> EMPTY32" "fr \<noteq> a"
    using Q Cons fr frame_not_empty [of a] by (auto simp: fqueue_def)
  let ?s' = "init_frame_FIFO fr s"
  have t: "ipt ?s' = (ipt s)(fr := (ipt s fr)\<lparr>nextFrame := a, prevFrame := EMPTY32\<rparr>, a := (ipt s a)\<lparr>prevFrame := fr\<rparr>)"
    "flistHead ?s' = fr" "flistTail ?s' = flistTail s"
    using h by (auto simp: init_frame_FIFO_def Let_def fun_eq_iff)
  have "fchain (ipt ?s') (a # ys) = fchain (ipt s) (a # ys)"
    using Q fr Cons unfolding t fqueue_def
    by (intro fchain_cong) (auto dest: in_set_butlastD split: if_splits)
  moreover have "nextFrame (ipt ?s' (last (a # ys))) = nextFrame (ipt s (last (a # ys)))"
    using fr(2) Cons last_in_set [of "a # ys"] unfolding t by (auto simp del: last.simps)
  ultimately show ?thesis using Q fr Cons h unfolding fqueue_def t(2,3) by (auto simp: t(1))
qed

lemma fqueue_pick:
  assumes Q: "fqueue s (xs @ [fr])"
  obtains s' where "pickFrameFIFO s = Some (fr, s')" "fqueue s' xs" "currpolicy s' = currpolicy s"
    "\<And>x. fstatus (ipt s' x) = fstatus (ipt s x) \<and> fpid (ipt s' x) = fpid (ipt s x) \<and> fvpn (ipt s' x) = fvpn (ipt s x)"
proof -
  have fr: "flistTail s = fr" "fr \<noteq> EMPTY32" using Q frame_not_empty [of fr] by (auto simp: fqueue_def)
  show thesis
  proof (cases xs rule: rev_cases)
    case Nil
    let ?s' = "s\<lparr>flistTail := EMPTY32, flistHead := EMPTY32\<rparr>"
    have "pickFrameFIFO s = Some (fr, ?s')" using Q Nil fr by (auto simp: pickFrameFIFO_def fqueue_def)
    then show thesis using that [of ?s'] Nil by (simp add: fqueue_def)
  next
    case (snoc ys b)
    have c: "fchain (ipt s) (ys @ [b])" "nextFrame (ipt s b) = fr" "prevFrame (ipt s fr) = b"
      using Q snoc fchain_append [of "ipt s" ys b "[fr]"] by (auto simp: fqueue_def)
    have h: "flistHead s = hd (ys @ [b])" "flistHead s \<noteq> fr"
      using Q snoc by (cases ys; auto simp: fqueue_def)+
    let ?s' = "upd_ipt b (\<lambda>e. e\<lparr>nextFrame := EMPTY32\<rparr>) (s\<lparr>flistTail := b\<rparr>)"
    have "pickFrameFIFO s = Some (fr, ?s')" using fr h c(3) by (simp add: pickFrameFIFO_def Let_def)
    moreover have "fchain (ipt ?s') (ys @ [b]) = fchain (ipt s) (ys @ [b])"
      using Q snoc by (intro fchain_cong) (auto simp: fqueue_def)
    then have "fqueue ?s' (ys @ [b])" using Q snoc c(1) h by (auto simp: fqueue_def hd_append split: if_splits)
    ultimately show thesis using that [of ?s'] snoc by auto
  qed
qed

text \<open>A frame leaves from anywhere.\<close>

lemma fqueue_remove:
  assumes Q: "fqueue s (xs @ fr # ys)"
  shows "fqueue (freeFrameFIFO fr s) (xs @ ys)"
proof -
  note D = Q [unfolded fqueue_def]
  have ch: "fchain (ipt s) (xs @ [fr])" "fchain (ipt s) (fr # ys)"
    using D fchain_append [of "ipt s" xs fr ys] by auto
  have dis: "distinct (xs @ fr # ys)" using D by simp
  show ?thesis
  proof (cases xs rule: rev_cases)
    case Nil
    show ?thesis
    proof (cases ys)
      case Nil
      then show ?thesis using D \<open>xs = []\<close> by (simp add: fqueue_def freeFrameFIFO_def)
    next
      case (Cons b zs)
      have n: "nextFrame (ipt s fr) = b" "flistHead s = fr" "flistTail s \<noteq> fr"
        using D ch Cons \<open>xs = []\<close> by auto
      let ?s' = "freeFrameFIFO fr s"
      have t: "ipt ?s' = (ipt s)(b := (ipt s b)\<lparr>prevFrame := EMPTY32\<rparr>)" "flistHead ?s' = b" "flistTail ?s' = flistTail s"
        using n by (auto simp: freeFrameFIFO_def Let_def)
      have "fchain (ipt ?s') (b # zs) = fchain (ipt s) (b # zs)"
        using dis Cons unfolding t by (intro fchain_cong) auto
      then show ?thesis using D ch Cons \<open>xs = []\<close> by (auto simp: fqueue_def t)
    qed
  next
    case (snoc us a)
    have p: "prevFrame (ipt s fr) = a" "nextFrame (ipt s a) = fr" "flistHead s \<noteq> fr"
      using D snoc dis fchain_append [of "ipt s" us a "fr # ys"] by (auto simp: hd_append split: if_splits)
    have us: "fchain (ipt s) (us @ [a])" using D snoc fchain_append [of "ipt s" us a "fr # ys"] by simp
    let ?s' = "freeFrameFIFO fr s"
    show ?thesis
    proof (cases ys)
      case Nil
      have t: "ipt ?s' = (ipt s)(a := (ipt s a)\<lparr>nextFrame := EMPTY32\<rparr>)" "flistHead ?s' = flistHead s" "flistTail ?s' = a"
        using p D Nil by (auto simp: freeFrameFIFO_def Let_def)
      have "fchain (ipt ?s') (us @ [a]) = fchain (ipt s) (us @ [a])"
        using dis snoc unfolding t by (intro fchain_cong) auto
      then show ?thesis using D us snoc Nil dis by (auto simp: fqueue_def t hd_append split: if_splits)
    next
      case (Cons b zs)
      have n: "nextFrame (ipt s fr) = b" "flistTail s \<noteq> fr" using D ch dis Cons by (auto split: if_splits)
      have t: "ipt ?s' = (ipt s)(a := (ipt s a)\<lparr>nextFrame := b\<rparr>, b := (ipt s b)\<lparr>prevFrame := a\<rparr>)"
        "flistHead ?s' = flistHead s" "flistTail ?s' = flistTail s"
        using p n dis snoc Cons by (auto simp: freeFrameFIFO_def Let_def)
      have "fchain (ipt ?s') (us @ [a]) = fchain (ipt s) (us @ [a])" "fchain (ipt ?s') (b # zs) = fchain (ipt s) (b # zs)"
        using dis snoc Cons unfolding t by (intro fchain_cong; fastforce dest: in_set_butlastD in_set_tlD)+
      then have "fchain (ipt ?s') (xs @ ys)"
        using us ch Cons snoc dis fchain_append [of "ipt ?s'" us a "b # zs"] by (auto simp: t)
      then show ?thesis using D snoc Cons dis by (cases us) (auto simp: fqueue_def t)
    qed
  qed
qed

subsection \<open>First in, first out\<close>

definition fq_rep :: "'a pgstate_scheme \<Rightarrow> u32 list \<Rightarrow> u32 set \<Rightarrow> bool" where
  "fq_rep s xs F \<longleftrightarrow> currpolicy s = FIFO \<and> fqueue s (rev xs) \<and> F = {fr. fr < NFRAMES} - set xs"

lemma init_frame_page:
  assumes "currpolicy s = FIFO"
  shows "init_frame fr PAGE pid vpn s = init_frame_FIFO fr (upd_ipt fr (\<lambda>e. e\<lparr>fstatus := PAGE, fpid := pid, fvpn := vpn,
     refCount := 0, nextFrame := EMPTY32, prevFrame := EMPTY32\<rparr>) s)"
  using assms by (auto simp: init_frame_def init_frame_FIFO_def Let_def)

lemma init_frame_FIFO_frame [simp]:
  "currpolicy (init_frame_FIFO fr s) = currpolicy s" "proctab (init_frame_FIFO fr s) = proctab s"
  "currpid (init_frame_FIFO fr s) = currpid s" "words (init_frame_FIFO fr s) = words s"
  "fstatus (ipt (init_frame_FIFO fr s) x) = fstatus (ipt s x)" "fpid (ipt (init_frame_FIFO fr s) x) = fpid (ipt s x)"
  "fvpn (ipt (init_frame_FIFO fr s) x) = fvpn (ipt s x)" "refCount (ipt (init_frame_FIFO fr s) x) = refCount (ipt s x)"
  by (auto simp: init_frame_FIFO_def Let_def)

lemma fqueue_init_page:
  assumes "currpolicy s = FIFO" and "fqueue s xs" and "fr < NFRAMES" and "fr \<notin> set xs"
  shows "fqueue (init_frame fr PAGE pid vpn s) (fr # xs)"
proof -
  let ?s1 = "upd_ipt fr (\<lambda>e. e\<lparr>fstatus := PAGE, fpid := pid, fvpn := vpn, refCount := 0, nextFrame := EMPTY32,
     prevFrame := EMPTY32\<rparr>) s"
  have "fqueue ?s1 xs" using assms(2,4) by simp
  then show ?thesis unfolding init_frame_page [OF assms(1)] using assms(3,4) by (intro fqueue_push) auto
qed

interpretation fq: fifo "\<lambda>fr. init_frame fr PAGE pid vpn" pickFrameFIFO fq_rep for pid vpn
proof
  fix s :: "'a pgstate_scheme" and xs F fr
  assume R: "fq_rep s xs F" and fr: "fr \<in> F"
  then have "fqueue (init_frame fr PAGE pid vpn s) (fr # rev xs)"
    by (intro fqueue_init_page) (auto simp: fq_rep_def)
  then have "fq_rep (init_frame fr PAGE pid vpn s) (xs @ [fr]) (F - {fr})"
    using R by (auto simp: fq_rep_def init_frame_page)
  then show "\<exists>F'. F - {fr} \<subseteq> F' \<and> fq_rep (init_frame fr PAGE pid vpn s) (xs @ [fr]) F'" by blast
next
  fix s :: "'a pgstate_scheme" and xs F fr
  assume R: "fq_rep s (fr # xs) F"
  then obtain s' where "pickFrameFIFO s = Some (fr, s')" "fqueue s' (rev xs)" "currpolicy s' = currpolicy s"
    using fqueue_pick [of s "rev xs" fr] by (auto simp: fq_rep_def)
  then show "\<exists>s' F'. pickFrameFIFO s = Some (fr, s') \<and> F \<subseteq> F' \<and> fq_rep s' xs F'"
    using R by (auto simp: fq_rep_def)
qed

subsection \<open>The queue holds exactly the pages\<close>

definition frames_ok :: "'a pgstate_scheme \<Rightarrow> bool" where
  "frames_ok s \<longleftrightarrow> currpolicy s = FIFO \<and>
     (\<exists>xs. fqueue s xs \<and> (\<forall>fr. fr < NFRAMES \<longrightarrow> (fr \<in> set xs \<longleftrightarrow> fstatus (ipt s fr) = PAGE)))"

lemma clearFrame_frame [simp]:
  "currpolicy (clearFrame fr s) = currpolicy s" "flistHead (clearFrame fr s) = flistHead s"
  "flistTail (clearFrame fr s) = flistTail s" "proctab (clearFrame fr s) = proctab s" "currpid (clearFrame fr s) = currpid s"
  "words (clearFrame fr s) = words s"
  "x \<noteq> fr \<Longrightarrow> ipt (clearFrame fr s) x = ipt s x" "fstatus (ipt (clearFrame fr s) fr) = NOT_USED"
  by (simp_all add: clearFrame_def)

lemma upd_link_frame:
  "fstatus (ipt (upd_ipt fr (\<lambda>e. e\<lparr>nextFrame := v\<rparr>) s) x) = fstatus (ipt s x)"
  "fpid (ipt (upd_ipt fr (\<lambda>e. e\<lparr>nextFrame := v\<rparr>) s) x) = fpid (ipt s x)"
  "fvpn (ipt (upd_ipt fr (\<lambda>e. e\<lparr>nextFrame := v\<rparr>) s) x) = fvpn (ipt s x)"
  "refCount (ipt (upd_ipt fr (\<lambda>e. e\<lparr>nextFrame := v\<rparr>) s) x) = refCount (ipt s x)"
  "fstatus (ipt (upd_ipt fr (\<lambda>e. e\<lparr>prevFrame := v\<rparr>) s) x) = fstatus (ipt s x)"
  "fpid (ipt (upd_ipt fr (\<lambda>e. e\<lparr>prevFrame := v\<rparr>) s) x) = fpid (ipt s x)"
  "fvpn (ipt (upd_ipt fr (\<lambda>e. e\<lparr>prevFrame := v\<rparr>) s) x) = fvpn (ipt s x)"
  "refCount (ipt (upd_ipt fr (\<lambda>e. e\<lparr>prevFrame := v\<rparr>) s) x) = refCount (ipt s x)"
  by simp_all

lemma freeFrameFIFO_frame [simp]:
  "currpolicy (freeFrameFIFO fr s) = currpolicy s" "proctab (freeFrameFIFO fr s) = proctab s"
  "currpid (freeFrameFIFO fr s) = currpid s" "words (freeFrameFIFO fr s) = words s"
  by (simp_all add: freeFrameFIFO_def Let_def)

lemma freeFrameFIFO_entry [simp]:
  "fstatus (ipt (freeFrameFIFO fr s) x) = fstatus (ipt s x)" "fpid (ipt (freeFrameFIFO fr s) x) = fpid (ipt s x)"
  "fvpn (ipt (freeFrameFIFO fr s) x) = fvpn (ipt s x)" "refCount (ipt (freeFrameFIFO fr s) x) = refCount (ipt s x)"
  by (simp_all add: freeFrameFIFO_def Let_def upd_link_frame del: upd_ipt_simps(1))

lemma frames_ok_clear:
  assumes Q: "fqueue s xs" and fr: "fr \<notin> set xs" and st: "currpolicy s = FIFO"
    "\<And>x. x < NFRAMES \<Longrightarrow> x \<noteq> fr \<Longrightarrow> x \<in> set xs \<longleftrightarrow> fstatus (ipt s x) = PAGE"
  shows "frames_ok (clearFrame fr s)"
proof -
  have "fqueue (clearFrame fr s) xs" using Q fr by (simp add: clearFrame_def)
  moreover have "x \<in> set xs \<longleftrightarrow> fstatus (ipt (clearFrame fr s) x) = PAGE" if "x < NFRAMES" for x
    using st(2) [OF that] fr by (cases "x = fr") auto
  ultimately show ?thesis using st(1) by (auto simp: frames_ok_def)
qed

lemma freeFrame_ok:
  assumes F: "frames_ok s" and fr: "fr < NFRAMES"
  shows "frames_ok (freeFrame fr s)"
proof -
  from F obtain xs where xs: "currpolicy s = FIFO" "fqueue s xs"
    "\<And>x. x < NFRAMES \<Longrightarrow> x \<in> set xs \<longleftrightarrow> fstatus (ipt s x) = PAGE" by (auto simp: frames_ok_def)
  show ?thesis
  proof (cases "fstatus (ipt s fr) = PAGE")
    case True
    then have "fr \<in> set xs" using xs(3) fr by simp
    then obtain us vs where sp: "xs = us @ fr # vs" by (auto dest: split_list)
    have d: "distinct xs" using xs(2) by (simp add: fqueue_def)
    have "frames_ok (clearFrame fr (freeFrameFIFO fr s))"
    proof (rule frames_ok_clear [where xs = "us @ vs"])
      show "fqueue (freeFrameFIFO fr s) (us @ vs)" using xs(2) sp by (intro fqueue_remove) simp
      show "x \<in> set (us @ vs) \<longleftrightarrow> fstatus (ipt (freeFrameFIFO fr s) x) = PAGE" if "x < NFRAMES" "x \<noteq> fr" for x
        using xs(3) [OF that(1)] that(2) sp by auto
    qed (use d sp xs(1) in auto)
    then show ?thesis using True xs(1) by (simp add: freeFrame_def)
  next
    case False
    then have "fr \<notin> set xs" using xs(3) fr by simp
    then have "frames_ok (clearFrame fr s)" by (intro frames_ok_clear [OF xs(2) _ xs(1)]) (use xs(3) in auto)
    then show ?thesis using False by (simp add: freeFrame_def)
  qed
qed

lemma init_frame_ok:
  assumes F: "frames_ok s" and fr: "fr < NFRAMES" "fstatus (ipt s fr) \<noteq> PAGE"
  shows "frames_ok (init_frame fr type pid vpn s)" "fstatus (ipt (init_frame fr type pid vpn s) fr) = type"
    "fpid (ipt (init_frame fr type pid vpn s) fr) = pid" "fvpn (ipt (init_frame fr type pid vpn s) fr) = vpn"
    "\<And>x. x \<noteq> fr \<Longrightarrow> fstatus (ipt (init_frame fr type pid vpn s) x) = fstatus (ipt s x)"
proof -
  from F obtain xs where xs: "currpolicy s = FIFO" "fqueue s xs"
    "\<And>x. x < NFRAMES \<Longrightarrow> x \<in> set xs \<longleftrightarrow> fstatus (ipt s x) = PAGE" by (auto simp: frames_ok_def)
  have fx: "fr \<notin> set xs" using xs(3) fr by simp
  let ?s' = "init_frame fr type pid vpn s"
  show st: "fstatus (ipt ?s' fr) = type" "fpid (ipt ?s' fr) = pid" "fvpn (ipt ?s' fr) = vpn"
    "\<And>x. x \<noteq> fr \<Longrightarrow> fstatus (ipt ?s' x) = fstatus (ipt s x)"
    using xs(1) by (auto simp: init_frame_def init_frame_GCA_def Let_def)
  show "frames_ok ?s'"
  proof (cases "type = PAGE")
    case True
    then have "fqueue ?s' (fr # xs)" using fqueue_init_page [OF xs(1,2) fr(1) fx] by simp
    moreover have "x \<in> set (fr # xs) \<longleftrightarrow> fstatus (ipt ?s' x) = PAGE" if "x < NFRAMES" for x
      using xs(3) [OF that] st True by (cases "x = fr") auto
    moreover have "currpolicy ?s' = FIFO" using True xs(1) by (simp add: init_frame_page)
    ultimately show ?thesis unfolding frames_ok_def by blast
  next
    case False
    then have "fqueue ?s' xs" using xs(2) fx by (simp add: init_frame_def Let_def)
    moreover have "x \<in> set xs \<longleftrightarrow> fstatus (ipt ?s' x) = PAGE" if "x < NFRAMES" for x
      using xs(3) [OF that] st False fx by (cases "x = fr") auto
    moreover have "currpolicy ?s' = FIFO" using False xs(1) by (simp add: init_frame_def Let_def)
    ultimately show ?thesis unfolding frames_ok_def by blast
  qed
qed

lemma init_ipt_clear:
  "fold (\<lambda>i. clearFrame (of_nat i)) xs s = s\<lparr>ipt := ipt (fold (\<lambda>i. clearFrame (of_nat i)) xs s)\<rparr>"
  "(\<exists>i\<in>set xs. x = of_nat i) \<Longrightarrow> fstatus (ipt (fold (\<lambda>i. clearFrame (of_nat i)) xs s) x) = NOT_USED"
proof -
  show "fold (\<lambda>i. clearFrame (of_nat i)) xs s = s\<lparr>ipt := ipt (fold (\<lambda>i. clearFrame (of_nat i)) xs s)\<rparr>"
  proof (induction xs arbitrary: s)
    case (Cons i xs)
    show ?case using Cons [of "clearFrame (of_nat i) s"] by (simp add: clearFrame_def upd_ipt_def)
  qed simp
  show "(\<exists>i\<in>set xs. x = of_nat i) \<Longrightarrow> fstatus (ipt (fold (\<lambda>i. clearFrame (of_nat i)) xs s) x) = NOT_USED"
    by (induction xs rule: rev_induct) (auto simp: clearFrame_def)
qed

lemma init_ipt_ok:
  assumes "currpolicy s = FIFO" and "flistHead s = EMPTY32" and "flistTail s = EMPTY32"
  shows "frames_ok (init_ipt s)" "\<And>fr. fr < NFRAMES \<Longrightarrow> fstatus (ipt (init_ipt s) fr) = NOT_USED"
proof -
  show free: "fstatus (ipt (init_ipt s) fr) = NOT_USED" if "fr < NFRAMES" for fr
    unfolding init_ipt_def by (rule init_ipt_clear(2)) (use that in \<open>auto simp: word_less_nat_alt intro!: bexI [of _ "unat fr"]\<close>)
  have "currpolicy (init_ipt s) = FIFO" "fqueue (init_ipt s) []"
    unfolding init_ipt_def by (subst init_ipt_clear(1), use assms in \<open>simp add: fqueue_def\<close>)+
  then show "frames_ok (init_ipt s)" using free unfolding frames_ok_def by (intro conjI exI [of _ "[]"]) auto
qed

subsection \<open>Returning the frames of a process\<close>

lemma freeFrame_entry:
  "currpolicy (freeFrame fr s) = currpolicy s"
  "fstatus (ipt (freeFrame fr s) fr) = NOT_USED \<and> fpid (ipt (freeFrame fr s) fr) = NO_PROCESS"
  "x \<noteq> fr \<Longrightarrow> fstatus (ipt (freeFrame fr s) x) = fstatus (ipt s x) \<and> fpid (ipt (freeFrame fr s) x) = fpid (ipt s x) \<and>
     fvpn (ipt (freeFrame fr s) x) = fvpn (ipt s x)"
  "x \<noteq> fr \<Longrightarrow> refCount (ipt (freeFrame fr s) x) = refCount (ipt s x)"
  by (auto simp: freeFrame_def freeFrameGCA_def Let_def clearFrame_def)

lemma free_fold:
  assumes "frames_ok s" and "pid \<noteq> NO_PROCESS" and "set is \<subseteq> {0..<28}"
  defines "s' \<equiv> fold (\<lambda>i s. if fpid (ipt s (of_nat i)) = pid then freeFrame (of_nat i) s else s) is s"
  shows "frames_ok s'" "\<And>x. fpid (ipt s x) \<noteq> pid \<Longrightarrow> fstatus (ipt s' x) = fstatus (ipt s x) \<and> fpid (ipt s' x) = fpid (ipt s x) \<and> fvpn (ipt s' x) = fvpn (ipt s x)"
    "\<And>x. fpid (ipt s' x) = pid \<Longrightarrow> x \<notin> of_nat ` set is \<and> fpid (ipt s x) = pid"
proof -
  have "frames_ok s' \<and> (\<forall>x. fpid (ipt s x) \<noteq> pid \<longrightarrow> fstatus (ipt s' x) = fstatus (ipt s x) \<and> fpid (ipt s' x) = fpid (ipt s x) \<and> fvpn (ipt s' x) = fvpn (ipt s x)) \<and>
    (\<forall>x. fpid (ipt s' x) = pid \<longrightarrow> x \<notin> of_nat ` set is \<and> fpid (ipt s x) = pid)"
    using assms(3) unfolding s'_def
  proof (induction "is" rule: rev_induct)
    case Nil
    then show ?case using assms(1) by simp
  next
    case (snoc i "is")
    define t where "t = fold (\<lambda>i s. if fpid (ipt s (of_nat i)) = pid then freeFrame (of_nat i) s else s) is s"
    have i: "(of_nat i :: u32) < NFRAMES" using snoc.prems by (simp add: word_less_nat_alt unat_of_nat take_bit_nat_eq_self)
    have sub: "set is \<subseteq> {0..<28}" using snoc.prems by simp
    note J = snoc.IH [OF sub, folded t_def]
    have IH: "frames_ok t" "\<And>x. fpid (ipt s x) \<noteq> pid \<Longrightarrow> fstatus (ipt t x) = fstatus (ipt s x) \<and> fpid (ipt t x) = fpid (ipt s x) \<and> fvpn (ipt t x) = fvpn (ipt s x)"
      "\<And>x. fpid (ipt t x) = pid \<Longrightarrow> x \<notin> of_nat ` set is \<and> fpid (ipt s x) = pid" using J by blast+
    let ?t = "freeFrame (of_nat i) t"
    let ?fold = "fold (\<lambda>i s. if fpid (ipt s (of_nat i)) = pid then freeFrame (of_nat i) s else s) (is @ [i]) s"
    show ?case
    proof (cases "fpid (ipt t (of_nat i)) = pid")
      case True
      have ok: "frames_ok ?t" by (rule freeFrame_ok [OF IH(1) i])
      have keep: "fstatus (ipt ?t x) = fstatus (ipt s x) \<and> fpid (ipt ?t x) = fpid (ipt s x) \<and> fvpn (ipt ?t x) = fvpn (ipt s x)"
        if "fpid (ipt s x) \<noteq> pid" for x
      proof -
        have "x \<noteq> of_nat i" using True IH(3) that by blast
        then show ?thesis using freeFrame_entry(3) IH(2) [OF that] by metis
      qed
      have gone: "x \<notin> of_nat ` set (is @ [i]) \<and> fpid (ipt s x) = pid" if "fpid (ipt ?t x) = pid" for x
      proof -
        have x: "x \<noteq> of_nat i" using freeFrame_entry(2) assms(2) that by metis
        then have "fpid (ipt t x) = pid" using freeFrame_entry(3) that by metis
        then show ?thesis using IH(3) x by auto
      qed
      have e: "?fold = ?t" using True by (simp add: t_def)
      show ?thesis unfolding e using ok keep gone by blast
    next
      case False
      have "x \<notin> of_nat ` set (is @ [i])" if "fpid (ipt t x) = pid" for x using IH(3) [OF that] that False by auto
      moreover have e: "?fold = t" using False by (simp add: t_def)
      ultimately show ?thesis unfolding e using IH by blast
    qed
  qed
  then show "frames_ok s'" "\<And>x. fpid (ipt s x) \<noteq> pid \<Longrightarrow> fstatus (ipt s' x) = fstatus (ipt s x) \<and> fpid (ipt s' x) = fpid (ipt s x) \<and> fvpn (ipt s' x) = fvpn (ipt s x)"
    "\<And>x. fpid (ipt s' x) = pid \<Longrightarrow> x \<notin> of_nat ` set is \<and> fpid (ipt s x) = pid" by blast+
qed

lemma free_fold_entry:
  assumes "pid \<noteq> NO_PROCESS"
  defines "go \<equiv> fold (\<lambda>i s. if fpid (ipt s (of_nat i)) = pid then freeFrame (of_nat i) s else s)"
  shows "if fpid (ipt s x) = pid then if x \<in> of_nat ` set is then fstatus (ipt (go is s) x) = NOT_USED \<and> fpid (ipt (go is s) x) = NO_PROCESS
       else fpid (ipt (go is s) x) = pid
     else fpid (ipt (go is s) x) = fpid (ipt s x) \<and> refCount (ipt (go is s) x) = refCount (ipt s x)"
proof (induction "is" rule: rev_induct)
  case Nil
  then show ?case by (simp add: go_def)
next
  case (snoc i "is")
  have step: "go (is @ [i]) s = (if fpid (ipt (go is s) (of_nat i)) = pid then freeFrame (of_nat i) (go is s) else go is s)"
    by (simp add: go_def)
  show ?case
  proof (cases "x = of_nat i")
    case True
    then show ?thesis using snoc assms(1) freeFrame_entry(2) [of x "go is s"] unfolding step by (auto split: if_splits)
  next
    case False
    then show ?thesis using snoc freeFrame_entry(3,4) [OF False, of "go is s"] unfolding step by (auto split: if_splits)
  qed
qed

lemma freeProcFrames_spec:
  assumes "frames_ok s" and "pid \<noteq> NO_PROCESS"
  shows "frames_ok (freeProcFrames pid s)"
    "\<And>x. fpid (ipt s x) \<noteq> pid \<Longrightarrow> fstatus (ipt (freeProcFrames pid s) x) = fstatus (ipt s x) \<and>
       fpid (ipt (freeProcFrames pid s) x) = fpid (ipt s x) \<and> fvpn (ipt (freeProcFrames pid s) x) = fvpn (ipt s x)"
    "\<And>x. vh (proctab s pid) \<Longrightarrow> x < NFRAMES \<Longrightarrow> fpid (ipt s x) = pid \<Longrightarrow>
       fstatus (ipt (freeProcFrames pid s) x) = NOT_USED \<and> fpid (ipt (freeProcFrames pid s) x) = NO_PROCESS"
    "\<And>x. fpid (ipt s x) \<noteq> pid \<Longrightarrow> refCount (ipt (freeProcFrames pid s) x) = refCount (ipt s x)"
proof -
  let ?is = "[0..<unat NFRAMES]"
  have sub: "set ?is \<subseteq> {0..<28}" by simp
  note F = free_fold [OF assms sub]
  show "frames_ok (freeProcFrames pid s)" using F(1) assms(1) by (simp add: freeProcFrames_def)
  show "fstatus (ipt (freeProcFrames pid s) x) = fstatus (ipt s x) \<and>
       fpid (ipt (freeProcFrames pid s) x) = fpid (ipt s x) \<and> fvpn (ipt (freeProcFrames pid s) x) = fvpn (ipt s x)" if "fpid (ipt s x) \<noteq> pid" for x
    using F(2) [OF that] by (simp add: freeProcFrames_def)
  note E = free_fold_entry [OF assms(2), of s]
  show "fstatus (ipt (freeProcFrames pid s) x) = NOT_USED \<and> fpid (ipt (freeProcFrames pid s) x) = NO_PROCESS"
    if "vh (proctab s pid)" "x < NFRAMES" "fpid (ipt s x) = pid" for x
  proof -
    have "x = of_nat (unat x)" "unat x \<in> set ?is" using that(2) by (simp_all add: word_less_nat_alt)
    then have "x \<in> of_nat ` set ?is" by (metis imageI)
    then show ?thesis using E [of x ?is] that(1,3) by (simp add: freeProcFrames_def)
  qed
  show "refCount (ipt (freeProcFrames pid s) x) = refCount (ipt s x)" if "fpid (ipt s x) \<noteq> pid" for x
    using E [of x ?is] that by (simp add: freeProcFrames_def)
qed

end
