(* ===== verification/Translation.thy ===== *)
theory Translation
  imports Frame_Queue
begin

section \<open>Address translation\<close>

text \<open>
  Virtual addresses decompose into directory index, table index and offset; the entries of a page of
  memory do not overlap, neither with each other nor with those of another page; page tables that
  \<open>setup_id_paging\<close> fills translate every address to itself.
\<close>

subsection \<open>Pages\<close>

definition paged :: "addr \<Rightarrow> bool" where
  "paged b \<longleftrightarrow> take_bit 12 b = 0"

lemma paged_unat: "paged b \<longleftrightarrow> 4096 dvd unat b"
proof -
  have "take_bit 12 b = 0 \<longleftrightarrow> unat (take_bit 12 b) = 0" by (simp only: unat_eq_0)
  also have "unat (take_bit 12 b) = unat b mod 4096" by (simp only: unsigned_take_bit_eq take_bit_nat_def) simp
  finally show ?thesis unfolding paged_def dvd_eq_mod_eq_0 .
qed

lemma unat_mult_4: "i < 1024 \<Longrightarrow> unat (4 * i :: u32) = 4 * unat i"
  by (simp add: unat_word_ariths word_less_nat_alt)

lemma entry_addr:
  assumes "paged b" and "i < 1024"
  shows "unat (b + 4 * i) = unat b + 4 * unat i"
proof -
  obtain k where k: "unat b = 4096 * k" using assms(1) by (auto simp: paged_unat elim: dvdE)
  have "4096 * k < 2 ^ 32" using unsigned_less [of b, where ?'a = nat] k by simp
  then have "4096 * k + 4096 \<le> 2 ^ 32" by simp
  moreover have "unat i < 1024" using assms(2) by (simp add: word_less_nat_alt)
  ultimately show ?thesis using k by (simp add: unat_add_lt unat_mult_4 assms(2))
qed

lemma entry_inj:
  assumes "paged b" "paged c" "i < 1024" "j < 1024"
  shows "b + 4 * i = c + 4 * j \<longleftrightarrow> b = c \<and> i = j"
proof
  assume eq: "b + 4 * i = c + 4 * j"
  have u: "unat b + 4 * unat i = unat c + 4 * unat j"
    using arg_cong [OF eq, of unat] entry_addr assms by simp
  obtain k l where kl: "unat b = 4096 * k" "unat c = 4096 * l" using assms(1,2) by (auto simp: paged_unat elim!: dvdE)
  have lt: "unat i < 1024" "unat j < 1024" using assms(3,4) by (auto simp: word_less_nat_alt)
  have "(4096 * k + 4 * unat i) div 4096 = k" "(4096 * l + 4 * unat j) div 4096 = l" using lt by simp_all
  then have "k = l" using u kl by simp
  then show "b = c \<and> i = j" using u kl by (auto simp: word_unat_eq_iff)
qed auto

lemma paged_frame:
  assumes "fr < NFRAMES"
  shows "unat (frameNum2ptr fr) = 0x400000 + 4096 * unat fr" "paged (frameNum2ptr fr)" "frameNum2ptr fr \<noteq> SYSERR32"
proof -
  have lt: "unat fr < 28" using assms by (simp add: word_less_nat_alt)
  have "unat (fr * 4096) = unat fr * 4096" using lt by (simp add: unat_word_ariths)
  then show u: "unat (frameNum2ptr fr) = 0x400000 + 4096 * unat fr"
    using lt by (simp add: frameNum2ptr_def unat_add_lt)
  then show "paged (frameNum2ptr fr)" by (simp add: paged_unat dvd_add_right_iff)
  show "frameNum2ptr fr \<noteq> SYSERR32" using u lt by auto
qed

lemma frameNum2ptr_inj: "fr < NFRAMES \<Longrightarrow> fr' < NFRAMES \<Longrightarrow> frameNum2ptr fr = frameNum2ptr fr' \<longleftrightarrow> fr = fr'"
  using paged_frame(1) [of fr] paged_frame(1) [of fr'] by (auto simp: word_unat_eq_iff)

lemma faddr_frameNum:
  assumes "fr < NFRAMES"
  shows "faddr2frameNum (frameNum2ptr fr) = fr"
proof -
  have lt: "unat fr < 28" using assms by (simp add: word_less_nat_alt)
  have u: "unat (fr * 4096) = unat fr * 4096" using lt by (simp add: unat_word_ariths)
  then have ui: "uint (fr * 4096) = 4096 * uint fr" by (simp add: uint_nat del: of_nat_unat)
  have "0 \<le> uint fr" "- 524288 \<le> uint fr" "uint fr < 28"
    using assms order_trans [OF _ uint_ge_0, of "- 524288" fr] by (simp_all add: word_less_def)
  then have "signed_take_bit (LENGTH(32) - 1) (4096 * uint fr) = 4096 * uint fr"
    by (intro signed_take_bit_int_eq_self) (simp_all del: uint_lt_0 uint_nonnegative)
  then have "sint (fr * 4096) = 4096 * uint fr" unfolding sint_uint ui by simp
  then have "sint (fr * 4096) sdiv 4096 = uint fr" using uint_ge_0 [of fr]
    by (cases "uint fr = 0") (simp_all add: signed_divide_int_def sgn_1_pos order_less_le)
  then show ?thesis by (simp add: faddr2frameNum_def frameNum2ptr_def)
qed

subsection \<open>Addresses\<close>

lemma base_page:
  assumes "paged b"
  shows "push_bit 12 (ucast (ucast (drop_bit 12 b) :: 20 word)) = b"
proof (rule bit_word_eqI)
  fix n assume n: "n < LENGTH(32)"
  show "bit (push_bit 12 (ucast (ucast (drop_bit 12 b) :: 20 word) :: u32)) n = bit b n"
  proof (cases "n < 12")
    case True
    then show ?thesis using assms bit_take_bit_iff [of 12 b n] by (auto simp: paged_def bit_simps)
  next
    case False
    then show ?thesis using n by (auto simp: bit_simps)
  qed
qed

lemma vaddr_bits:
  "vaddr2pdi v = drop_bit 22 v" "vaddr2pti v = take_bit 10 (drop_bit 12 v)" "vaddr2offset v = take_bit 12 v"
proof -
  have m: "(0x00000FFF :: u32) = mask 12" "(0x003FF000 :: u32) = push_bit 12 (mask 10)" "(0xFFC00000 :: u32) = push_bit 22 (mask 10)"
    by (simp_all add: mask_eq_exp_minus_1 push_bit_eq_mult)
  show "vaddr2pdi v = drop_bit 22 v" "vaddr2pti v = take_bit 10 (drop_bit 12 v)" "vaddr2offset v = take_bit 12 v"
    unfolding vaddr2pdi_def vaddr2pti_def vaddr2offset_def m
    by (rule bit_word_eqI; auto simp: bit_simps dest: bit_imp_le_length)+
qed

lemma take_bit_word_less: "take_bit 10 w < (1024 :: u32)" "take_bit 12 w < (4096 :: u32)"
  using take_bit_nat_less_exp [of 10 "unat w"] take_bit_nat_less_exp [of 12 "unat w"]
  by (simp_all add: word_less_nat_alt unsigned_take_bit_eq)

lemma vaddr_parts:
  "push_bit 22 (vaddr2pdi v) OR push_bit 12 (vaddr2pti v) OR vaddr2offset v = v"
  "vaddr2pdi v < 1024" "vaddr2pti v < 1024" "vaddr2offset v < 4096"
proof -
  show "push_bit 22 (vaddr2pdi v) OR push_bit 12 (vaddr2pti v) OR vaddr2offset v = v"
    unfolding vaddr_bits
  proof (rule bit_word_eqI)
    fix n :: nat assume n: "n < LENGTH(32)"
    consider "n < 12" | "12 \<le> n" "n < 22" "n - 12 < 10" | "22 \<le> n" "\<not> n - 12 < 10" by linarith
    then show "bit (push_bit 22 (drop_bit 22 v) OR push_bit 12 (take_bit 10 (drop_bit 12 v)) OR take_bit 12 v) n = bit v n"
      using n by cases (simp_all add: bit_or_iff bit_push_bit_iff bit_drop_bit_eq bit_take_bit_iff)
  qed
  have "drop_bit 22 v = take_bit 10 (drop_bit 22 v)" by (rule bit_word_eqI) (auto simp: bit_simps dest: bit_imp_le_length)
  then show "vaddr2pdi v < 1024" "vaddr2pti v < 1024" "vaddr2offset v < 4096"
    unfolding vaddr_bits using take_bit_word_less by metis+
qed

subsection \<open>Entries of page tables and directories\<close>

lemma upd_entry_words:
  "words (upd_pte pt i f s) = (words s)(pt + 4 * i := enc_pt (f (pte s pt i)))"
  "words (upd_pde pd i g s) = (words s)(pd + 4 * i := enc_pd (g (pde s pd i)))"
  by (simp_all add: upd_pte_def upd_pde_def)

lemma pte_upd_pte [simp]:
  assumes "paged pt" "paged pt'" "i < 1024" "j < 1024"
  shows "pte (upd_pte pt i f s) pt' j = (if pt' = pt \<and> j = i then f (pte s pt i) else pte s pt' j)"
  using entry_inj [OF assms(2,1,4,3)] by (auto simp: pte_def upd_entry_words)

lemma pde_upd_pde [simp]:
  assumes "paged pd" "paged pd'" "i < 1024" "j < 1024"
  shows "pde (upd_pde pd i f s) pd' j = (if pd' = pd \<and> j = i then f (pde s pd i) else pde s pd' j)"
  using entry_inj [OF assms(2,1,4,3)] by (auto simp: pde_def upd_entry_words)

lemma pte_upd_pde [simp]:
  assumes "paged pd" "paged pt" "i < 1024" "j < 1024" "pd \<noteq> pt"
  shows "pte (upd_pde pd i f s) pt j = pte s pt j"
  using entry_inj [OF assms(2,1,4,3)] assms(5) by (auto simp: pte_def upd_entry_words)

lemma pde_upd_pte [simp]:
  assumes "paged pt" "paged pd" "i < 1024" "j < 1024" "pd \<noteq> pt"
  shows "pde (upd_pte pt i f s) pd j = pde s pd j"
  using entry_inj [OF assms(2,1,4,3)] assms(5) by (auto simp: pde_def upd_entry_words)

text \<open>A loop that rewrites the first \<open>n\<close> words of a page.\<close>

lemma fold_page:
  fixes g :: "nat \<Rightarrow> u32 \<Rightarrow> u32" and s :: "'a mstate_scheme"
  assumes step: "\<And>i s. body i s = s\<lparr>words := (words s)(b + 4 * of_nat i := g i (words s (b + 4 * of_nat i)))\<rparr>"
    and b: "paged b" and n: "n \<le> 1024"
  shows "fold body [0..<n] s = s\<lparr>words := words (fold body [0..<n] s)\<rparr>"
    "\<And>i. i < n \<Longrightarrow> words (fold body [0..<n] s) (b + 4 * of_nat i) = g i (words s (b + 4 * of_nat i))"
    "\<And>a. \<forall>i<n. a \<noteq> b + 4 * of_nat i \<Longrightarrow> words (fold body [0..<n] s) a = words s a"
proof -
  have "fold body [0..<n] s = s\<lparr>words := words (fold body [0..<n] s)\<rparr> \<and>
    (\<forall>i<n. words (fold body [0..<n] s) (b + 4 * of_nat i) = g i (words s (b + 4 * of_nat i))) \<and>
    (\<forall>a. (\<forall>i<n. a \<noteq> b + 4 * of_nat i) \<longrightarrow> words (fold body [0..<n] s) a = words s a)"
    using n
  proof (induction n)
    case (Suc n)
    define t where "t = fold body [0..<n] s"
    have IH: "t = s\<lparr>words := words t\<rparr>" "\<And>i. i < n \<Longrightarrow> words t (b + 4 * of_nat i) = g i (words s (b + 4 * of_nat i))"
      "\<And>a. \<forall>i<n. a \<noteq> b + 4 * of_nat i \<Longrightarrow> words t a = words s a" using Suc by (auto simp: t_def)
    have ne: "b + 4 * of_nat i \<noteq> b + 4 * (of_nat n :: u32)" if "i < n" for i
    proof -
      have "(of_nat i :: u32) \<noteq> of_nat n" "(of_nat i :: u32) < 1024" "(of_nat n :: u32) < 1024"
        using that Suc.prems by (auto simp: word_unat_eq_iff word_less_nat_alt unat_of_nat take_bit_nat_eq_self)
      then show ?thesis using entry_inj [OF b b] by blast
    qed
    have f: "fold body [0..<Suc n] s = body n t" by (simp add: t_def)
    have "words t (b + 4 * of_nat n) = words s (b + 4 * of_nat n)" by (rule IH(3)) (use ne in metis)
    then have w: "words (body n t) = (words t)(b + 4 * of_nat n := g n (words s (b + 4 * of_nat n)))" by (simp add: step)
    have "body n t = s\<lparr>words := words (body n t)\<rparr>" using IH(1) by (simp add: step) (metis (no_types, lifting) mstate.surjective mstate.update_convs(5))
    moreover have "words (body n t) (b + 4 * of_nat i) = g i (words s (b + 4 * of_nat i))" if "i < Suc n" for i
      unfolding w using IH(2) [of i] ne [of i] that by (auto simp: less_Suc_eq)
    moreover have "words (body n t) a = words s a" if "\<forall>i<Suc n. a \<noteq> b + 4 * of_nat i" for a
      unfolding w using IH(3) [of a] that by auto
    ultimately show ?case unfolding f by blast
  qed simp
  then show "fold body [0..<n] s = s\<lparr>words := words (fold body [0..<n] s)\<rparr>"
    "\<And>i. i < n \<Longrightarrow> words (fold body [0..<n] s) (b + 4 * of_nat i) = g i (words s (b + 4 * of_nat i))"
    "\<And>a. \<forall>i<n. a \<noteq> b + 4 * of_nat i \<Longrightarrow> words (fold body [0..<n] s) a = words s a" by blast+
qed

subsection \<open>Identity mappings\<close>

text \<open>\<open>page_only b s s'\<close>: the only words of pages in which the states differ belong to the page at \<open>b\<close>.\<close>

definition page_only :: "addr \<Rightarrow> 'a mstate_scheme \<Rightarrow> 'a mstate_scheme \<Rightarrow> bool" where
  "page_only b s s' \<longleftrightarrow> s' = s\<lparr>words := words s'\<rparr> \<and>
     (\<forall>c i. paged c \<and> c \<noteq> b \<and> i < 1024 \<longrightarrow> words s' (c + 4 * i) = words s (c + 4 * i))"

lemma page_onlyD:
  assumes "page_only b s s'"
  shows "s' = s\<lparr>words := words s'\<rparr>"
    "\<And>c i. paged c \<Longrightarrow> c \<noteq> b \<Longrightarrow> i < 1024 \<Longrightarrow> pte s' c i = pte s c i"
    "\<And>c i. paged c \<Longrightarrow> c \<noteq> b \<Longrightarrow> i < 1024 \<Longrightarrow> pde s' c i = pde s c i"
  using assms by (auto simp: page_only_def pte_def pde_def)

lemma page_only_trans: "page_only b s s1 \<Longrightarrow> page_only b s1 s2 \<Longrightarrow> page_only b s s2"
  unfolding page_only_def by (metis (no_types, lifting) mstate.update_convs(5) mstate.surjective)

lemma of_nat_small: "n < 1024 \<Longrightarrow> (of_nat n :: u32) < 1024"
  by (simp add: word_less_nat_alt unat_of_nat take_bit_nat_eq_self)

lemma page_only_fold:
  assumes "\<And>i s. body i s = s\<lparr>words := (words s)(b + 4 * of_nat i := g i (words s (b + 4 * of_nat i)))\<rparr>" and "paged b"
    and "n \<le> 1024"
  shows "page_only b s (fold body [0..<n] s)"
proof -
  have "c + 4 * i \<noteq> b + 4 * of_nat j" if "paged c" "c \<noteq> b" "i < 1024" "j < n" for c i j
    using entry_inj [OF that(1) assms(2) that(3) of_nat_small, of j] that(2,4) assms(3) by auto
  then show ?thesis using fold_page(1,3) [OF assms] unfolding page_only_def by blast
qed

lemma page_only_entry:
  assumes "paged b" and "i < 1024"
  shows "page_only b s (upd_pte b i f s)" "page_only b s (upd_pde b i g s)"
  using entry_inj [OF _ assms(1) _ assms(2)] by (auto simp: page_only_def upd_pte_def upd_pde_def)

definition id_pte :: "addr \<Rightarrow> pt_t" where
  "id_pte a = \<lparr>pt_pres = True, pt_write = True, pt_user = False, pt_pwt = False, pt_pcd = False, pt_acc = False,
     pt_dirty = False, pt_mbz = False, pt_global = False, pt_avail = 0, pt_base = ucast (drop_bit 12 a)\<rparr>"

lemma setup_id_entry_words:
  "setup_id_entry pt fa i s = s\<lparr>words := (words s)(pt + 4 * of_nat i := enc_pt (id_pte (fa + of_nat i * NBPG)))\<rparr>"
proof -
  have "e\<lparr>pt_pres := True, pt_write := True, pt_user := False, pt_pwt := False, pt_pcd := False, pt_acc := False,
    pt_dirty := False, pt_mbz := False, pt_global := False, pt_avail := 0, pt_base := ucast (drop_bit 12 a)\<rparr> = id_pte a" for e a
    by (cases e) (simp add: id_pte_def)
  then show ?thesis by (simp add: setup_id_entry_def set_PTE_addr_def upd_pte_def pte_def Let_def)
qed

lemma setup_id_paging_spec:
  assumes "paged pt" and "paged a"
  shows "page_only pt s (setup_id_paging pt a s)"
    "\<And>i. i < 1024 \<Longrightarrow> pte (setup_id_paging pt a s) pt i = id_pte (a + i * NBPG)"
proof -
  have "a AND 0xfffff000 = a"
  proof (rule bit_word_eqI)
    fix n assume n: "n < LENGTH(32)"
    have m: "(0xfffff000 :: u32) = NOT (mask 12)" by (simp add: mask_eq_exp_minus_1)
    show "bit (a AND 0xfffff000) n = bit a n"
      using assms(2) bit_take_bit_iff [of 12 a n] n unfolding m paged_def by (auto simp: bit_simps)
  qed
  then have e: "setup_id_paging pt a s = fold (setup_id_entry pt a) [0..<1024] s" by (simp add: setup_id_paging_def)
  note st = setup_id_entry_words [of pt a]
  show "page_only pt s (setup_id_paging pt a s)" unfolding e by (rule page_only_fold [OF st assms(1)]) simp
  fix i :: u32 assume i: "i < 1024"
  then have "unat i < 1024" by (simp add: word_less_nat_alt)
  from fold_page(2) [OF st assms(1) _ this, of s]
  show "pte (setup_id_paging pt a s) pt i = id_pte (a + i * NBPG)" unfolding e pte_def by simp
qed

text \<open>A virtual address, its directory entry, its page table and the physical address.\<close>

lemma translate:
  assumes "pd_base (pde s (prpd (proctab s (currpid s))) (vaddr2pdi v)) = ucast (drop_bit 12 pt)" and "paged pt"
    and "pt_base (pte s pt (vaddr2pti v)) = ucast (drop_bit 12 a)" and "paged a"
  shows "vaddr2paddr v s = a OR vaddr2offset v"
  using assms by (simp add: vaddr2paddr_def base_page)

lemma id_address:
  assumes "paged a" and "drop_bit 22 v = drop_bit 22 a" and "take_bit 22 a = 0"
  shows "paged (a + vaddr2pti v * NBPG)" "(a + vaddr2pti v * NBPG) OR vaddr2offset v = v"
proof -
  have p: "vaddr2pti v * NBPG = push_bit 12 (vaddr2pti v)" by (simp add: push_bit_eq_mult)
  have ab: "\<not> bit a n" if "n < 22" for n using assms(3) bit_take_bit_iff [of 22 a n] that by simp
  have "a AND push_bit 12 (vaddr2pti v) = 0"
    by (rule bit_word_eqI) (use ab in \<open>auto simp: vaddr_bits bit_simps\<close>)
  then have o: "a + vaddr2pti v * NBPG = a OR push_bit 12 (vaddr2pti v)" unfolding p by (rule disjunctive_add_eq_or)
  show "paged (a + vaddr2pti v * NBPG)" unfolding o paged_def
    by (rule bit_word_eqI) (use ab in \<open>auto simp: bit_simps\<close>)
  have hi: "bit v n \<longleftrightarrow> bit a n" if "22 \<le> n" for n
    using arg_cong [OF assms(2), of "\<lambda>w. bit w (n - 22)"] that by (simp add: bit_drop_bit_eq)
  have "push_bit 22 (vaddr2pdi v) = a"
  proof (rule bit_word_eqI)
    fix n assume "n < LENGTH(32)"
    then show "bit (push_bit 22 (vaddr2pdi v)) n = bit a n"
      using ab [of n] hi [of n] by (cases "n < 22") (simp_all add: vaddr_bits bit_simps)
  qed
  then show "(a + vaddr2pti v * NBPG) OR vaddr2offset v = v" unfolding o using vaddr_parts(1) [of v] by (simp add: or.assoc)
qed

end
