(* ===== verification/Programs.thy ===== *)
theory Programs
  imports Kernel_State
begin

section \<open>Kernel code that may give the processor away\<close>

text \<open>
  Most of the kernel runs with interrupts disabled and is one atomic step. The paging system is
  different: it calls \<open>wait\<close>, \<open>signal\<close>, \<open>kill\<close> or \<open>resched\<close> in the middle of its work, and whatever
  follows happens only when its process is dispatched again, in the state that the others have
  left. A program is therefore a tree of atomic actions. An action maps the state to a new state
  and the rest of the program, or to \<open>None\<close> when it panics, halts or loops for ever. \<open>run\<close> executes a
  program as long as its process stays the current one; otherwise it returns the rest, which the
  process executes when it is dispatched again.
\<close>

datatype ('s, 'r) prog = Ret 'r | Atom "'s \<Rightarrow> ('s \<times> ('s, 'r) prog) option"

primrec pbind :: "('s, 'a) prog \<Rightarrow> ('a \<Rightarrow> ('s, 'b) prog) \<Rightarrow> ('s, 'b) prog" where
  "pbind (Ret x) k = k x"
| "pbind (Atom f) k = Atom (\<lambda>s. map_option (map_prod id (\<lambda>m. pbind m k)) (f s))"

definition pgets :: "('s \<Rightarrow> 'r) \<Rightarrow> ('s, 'r) prog" where
  "pgets f = Atom (\<lambda>s. Some (s, Ret (f s)))"

definition pmodify :: "('s \<Rightarrow> 's) \<Rightarrow> ('s, unit) prog" where
  "pmodify f = Atom (\<lambda>s. Some (f s, Ret ()))"

text \<open>A call that is one atomic step; \<open>pcall\<close> may fail to return, \<open>plift\<close> always returns.\<close>

definition pcall :: "('s \<Rightarrow> ('r \<times> 's) option) \<Rightarrow> ('s, 'r) prog" where
  "pcall f = Atom (\<lambda>s. map_option (\<lambda>(r, s'). (s', Ret r)) (f s))"

definition plift :: "('s \<Rightarrow> 'r \<times> 's) \<Rightarrow> ('s, 'r) prog" where
  "plift f = Atom (\<lambda>s. case f s of (r, s') \<Rightarrow> Some (s', Ret r))"

definition panic :: "('s, 'r) prog" where
  "panic = Atom (\<lambda>s. None)"

fun pfor :: "'x list \<Rightarrow> ('x \<Rightarrow> ('s, unit) prog) \<Rightarrow> ('s, unit) prog" where
  "pfor [] body = Ret ()"
| "pfor (x # xs) body = pbind (body x) (\<lambda>_. pfor xs body)"

primrec run :: "('a kstate_scheme, 'r) prog \<Rightarrow> 'a kstate_scheme \<Rightarrow>
    (('r + ('a kstate_scheme, 'r) prog) \<times> 'a kstate_scheme) option" where
  "run (Ret r) = (\<lambda>s. Some (Inl r, s))"
| "run (Atom f) = (\<lambda>s.
     case map_option (map_prod id (\<lambda>m. (m, run m))) (f s) of
       None \<Rightarrow> None
     | Some (s', m, rest) \<Rightarrow> if currpid s' = currpid s then rest s' else Some (Inr m, s'))"

declare run.simps [simp del]

lemma run_Ret [simp]: "run (Ret r) s = Some (Inl r, s)"
  by (simp add: run.simps)

lemma run_Atom:
  "run (Atom f) s = (case f s of None \<Rightarrow> None
     | Some (s', m) \<Rightarrow> if currpid s' = currpid s then run m s' else Some (Inr m, s'))"
  by (simp add: run.simps map_prod_def split: option.split prod.split)

lemma run_bind:
  "run (pbind m k) s = (case run m s of None \<Rightarrow> None
     | Some (Inl r, s') \<Rightarrow> run (k r) s'
     | Some (Inr m', s') \<Rightarrow> Some (Inr (pbind m' k), s'))"
proof (induction m arbitrary: s)
  case (Atom f)
  show ?case
  proof (cases "f s")
    case (Some p)
    obtain s' m where p: "p = (s', m)" by (cases p)
    have "run (pbind m k) t = (case run m t of None \<Rightarrow> None
       | Some (Inl r, s') \<Rightarrow> run (k r) s' | Some (Inr m', s') \<Rightarrow> Some (Inr (pbind m' k), s'))" for t
      using Atom [of "f s" "(s', m)" m] Some p rangeI [of f s] by (auto simp: prod_set_simps)
    then show ?thesis using Some p by (simp add: run_Atom)
  qed (simp add: run_Atom)
qed simp

lemma pbind_assoc: "pbind (pbind m f) g = pbind m (\<lambda>x. pbind (f x) g)"
proof (induction m)
  case (Atom h)
  then show ?case by (fastforce simp: option.map_comp intro!: option.map_cong0)
qed simp

text \<open>Actions that do not reschedule.\<close>

lemma run_pgets [simp]: "run (pgets f) s = Some (Inl (f s), s)"
  by (simp add: pgets_def run_Atom)

lemma run_pmodify: "currpid (f s) = currpid s \<Longrightarrow> run (pmodify f) s = Some (Inl (), f s)"
  by (simp add: pmodify_def run_Atom)

lemma run_plift: "currpid (snd (f s)) = currpid s \<Longrightarrow> run (plift f) s = Some (Inl (fst (f s)), snd (f s))"
  by (cases "f s") (simp add: plift_def run_Atom)

lemma run_pcall:
  "run (pcall f) s = (case f s of None \<Rightarrow> None
     | Some (r, s') \<Rightarrow> if currpid s' = currpid s then Some (Inl r, s') else Some (Inr (Ret r), s'))"
  by (simp add: pcall_def run_Atom split: option.split prod.split)

lemma run_panic [simp]: "run panic s = None"
  by (simp add: panic_def run_Atom)

subsection \<open>Uninterrupted runs\<close>

text \<open>\<open>runs m s r s'\<close>: the program runs to its end without giving the processor away, with result \<open>r\<close> in
  state \<open>s'\<close>. It is a statement of total correctness: no step panics or hangs.\<close>

definition runs :: "('a kstate_scheme, 'r) prog \<Rightarrow> 'a kstate_scheme \<Rightarrow> 'r \<Rightarrow> 'a kstate_scheme \<Rightarrow> bool" where
  "runs m s r s' \<longleftrightarrow> run m s = Some (Inl r, s')"

lemma runs_Ret [intro]: "runs (Ret r) s r s"
  by (simp add: runs_def)

lemma runs_bind: "runs m s r s1 \<Longrightarrow> runs (k r) s1 r' s' \<Longrightarrow> runs (pbind m k) s r' s'"
  by (simp add: runs_def run_bind)

lemma runs_gets: "runs (pgets f) s (f s) s"
  by (simp add: runs_def)

lemma runs_modify: "currpid (f s) = currpid s \<Longrightarrow> runs (pmodify f) s () (f s)"
  by (simp add: runs_def run_pmodify)

lemma runs_lift: "f s = (r, s') \<Longrightarrow> currpid s' = currpid s \<Longrightarrow> runs (plift f) s r s'"
  using run_plift [of f s] by (simp add: runs_def)

lemma runs_call: "f s = Some (r, s') \<Longrightarrow> currpid s' = currpid s \<Longrightarrow> runs (pcall f) s r s'"
  by (simp add: runs_def run_pcall)

lemma runs_currpid: "runs m s r s' \<Longrightarrow> currpid s' = currpid s"
  unfolding runs_def
proof (induction m arbitrary: s)
  case (Atom f)
  obtain s1 m' where f: "f s = Some (s1, m')" using Atom.prems by (auto simp: run_Atom split: option.splits)
  then have "currpid s1 = currpid s" "run m' s1 = Some (Inl r, s')"
    using Atom.prems by (auto simp: run_Atom split: if_splits)
  then show ?case using Atom.IH [of "f s" "(s1, m')" m' s1] f rangeI [of f s] by (auto simp: prod_set_simps)
qed simp

lemma runs_det: "runs m s r s1 \<Longrightarrow> runs m s r' s2 \<Longrightarrow> r' = r \<and> s2 = s1"
  by (simp add: runs_def)

text \<open>A loop: the invariant \<open>P n\<close> holds after \<open>n\<close> rounds.\<close>

lemma runs_for:
  assumes "\<And>n s. n < length xs \<Longrightarrow> P n s \<Longrightarrow> \<exists>s'. runs (body (xs ! n)) s () s' \<and> P (Suc n) s'" and "P 0 s"
  shows "\<exists>s'. runs (pfor xs body) s () s' \<and> P (length xs) s'"
  using assms
proof (induction xs arbitrary: P s)
  case Nil
  then show ?case by auto
next
  case (Cons x xs)
  obtain s1 where s1: "runs (body x) s () s1" "P 1 s1" using Cons.prems(1) [of 0 s] Cons.prems(2) by auto
  have "\<exists>s'. runs (pfor xs body) s1 () s' \<and> P (Suc (length xs)) s'"
  proof (rule Cons.IH [of "\<lambda>n. P (Suc n)"])
    fix n s assume "n < length xs" "P (Suc n) s"
    then show "\<exists>s'. runs (body (xs ! n)) s () s' \<and> P (Suc (Suc n)) s'" using Cons.prems(1) [of "Suc n" s] by simp
  qed (use s1 in simp)
  then show ?case using runs_bind [OF s1(1)] by fastforce
qed

end
