(* ===== verification/Devices.thy ===== *)
theory Devices
  imports Frames Programs Messages
begin

section \<open>The device switch and the block devices\<close>

text \<open>
  system/open.c, close.c, read.c, write.c, control.c, seek.c, getc.c, putc.c, init.c, ioerr.c,
  ionull.c, getdev.c, and the drivers device/qrds (the disk of the QEMU build, which holds the
  backing stores) and device/ram. The switch table is an argument: a descriptor is mapped to the
  record of its driver routines, and a routine is a program, because a driver may block. A buffer
  is passed by value and handed back. \<open>devtab d\<close> is the table of config/conf.c; the drivers
  that are not modelled are taken from \<open>d\<close>.
\<close>

record 's dentry =
  dvnum :: int
  dvminor :: int
  dvname :: string
  dvinit :: "('s, int) prog"
  dvopen :: "string \<Rightarrow> string \<Rightarrow> ('s, int) prog"
  dvclose :: "('s, int) prog"
  dvread :: "wbuf \<Rightarrow> u32 \<Rightarrow> ('s, int \<times> wbuf) prog"
  dvwrite :: "wbuf \<Rightarrow> u32 \<Rightarrow> ('s, int) prog"
  dvseek :: "u32 \<Rightarrow> ('s, int) prog"
  dvgetc :: "('s, int) prog"
  dvputc :: "char \<Rightarrow> ('s, int) prog"
  dvcntl :: "int \<Rightarrow> int \<Rightarrow> int \<Rightarrow> ('s, int) prog"

abbreviation (input) NDEVS :: int where "NDEVS \<equiv> 15"
abbreviation (input) DEVNAMLEN :: nat where "DEVNAMLEN \<equiv> 16"
abbreviation (input) CONSOLE :: int where "CONSOLE \<equiv> 0"
abbreviation (input) QEMUCONSOLE :: int where "QEMUCONSOLE \<equiv> 1"
abbreviation (input) NULLDEV :: int where "NULLDEV \<equiv> 2"
abbreviation (input) QEMURDISK :: int where "QEMURDISK \<equiv> 6"
abbreviation (input) RAM0 :: int where "RAM0 \<equiv> 7"
abbreviation (input) WCONSOLE :: int where "WCONSOLE \<equiv> QEMUCONSOLE"
abbreviation (input) WRDISK :: int where "WRDISK \<equiv> QEMURDISK"

type_synonym 's devtab_t = "int \<Rightarrow> 's dentry"

definition isbaddev :: "int \<Rightarrow> bool" where
  "isbaddev f \<longleftrightarrow> f < 0 \<or> f \<ge> NDEVS"

definition ioerr :: "('s, int) prog" where
  "ioerr = Ret SYSERR"

definition ionull :: "('s, int) prog" where
  "ionull = Ret OK"

definition open_dev :: "'s devtab_t \<Rightarrow> int \<Rightarrow> string \<Rightarrow> string \<Rightarrow> ('s, int) prog" where
  "open_dev dt descrp name mode = (if isbaddev descrp then Ret SYSERR else dvopen (dt descrp) name mode)"

definition close_dev :: "'s devtab_t \<Rightarrow> int \<Rightarrow> ('s, int) prog" where
  "close_dev dt descrp = (if isbaddev descrp then Ret SYSERR else dvclose (dt descrp))"

definition read_dev :: "'s devtab_t \<Rightarrow> int \<Rightarrow> wbuf \<Rightarrow> u32 \<Rightarrow> ('s, int \<times> wbuf) prog" where
  "read_dev dt descrp buffer count =
     (if isbaddev descrp then Ret (SYSERR, buffer) else dvread (dt descrp) buffer count)"

definition write_dev :: "'s devtab_t \<Rightarrow> int \<Rightarrow> wbuf \<Rightarrow> u32 \<Rightarrow> ('s, int) prog" where
  "write_dev dt descrp buffer count =
     (if isbaddev descrp then Ret SYSERR else dvwrite (dt descrp) buffer count)"

definition control :: "'s devtab_t \<Rightarrow> int \<Rightarrow> int \<Rightarrow> int \<Rightarrow> int \<Rightarrow> ('s, int) prog" where
  "control dt descrp func arg1 arg2 =
     (if isbaddev descrp then Ret SYSERR else dvcntl (dt descrp) func arg1 arg2)"

definition seek :: "'s devtab_t \<Rightarrow> int \<Rightarrow> u32 \<Rightarrow> ('s, int) prog" where
  "seek dt descrp pos = (if isbaddev descrp then Ret SYSERR else dvseek (dt descrp) pos)"

definition getc :: "'s devtab_t \<Rightarrow> int \<Rightarrow> ('s, int) prog" where
  "getc dt descrp = (if isbaddev descrp then Ret SYSERR else dvgetc (dt descrp))"

definition putc :: "'s devtab_t \<Rightarrow> int \<Rightarrow> char \<Rightarrow> ('s, int) prog" where
  "putc dt descrp ch = (if isbaddev descrp then Ret SYSERR else dvputc (dt descrp) ch)"

definition init_dev :: "'s devtab_t \<Rightarrow> int \<Rightarrow> ('s, int) prog" where
  "init_dev dt descrp = (if isbaddev descrp then Ret SYSERR else dvinit (dt descrp))"

subsection \<open>Looking up a device by name\<close>

text \<open>\<open>strncmp\<close> on two C strings (lists without the final null character), as a truth value: does
  it differ from zero?\<close>

definition strncmp_differs :: "string \<Rightarrow> string \<Rightarrow> nat \<Rightarrow> bool" where
  "strncmp_differs s1 s2 n \<longleftrightarrow> take n s1 \<noteq> take n s2"

fun getdev_loop :: "'s devtab_t \<Rightarrow> string \<Rightarrow> nat \<Rightarrow> int \<Rightarrow> int" where
  "getdev_loop dt devname 0 i = SYSERR"
| "getdev_loop dt devname (Suc k) i =
     (if strncmp_differs devname (dvname (dt i)) DEVNAMLEN then i else getdev_loop dt devname k (i + 1))"

definition getdev :: "'s devtab_t \<Rightarrow> string \<Rightarrow> int" where
  "getdev dt devname = getdev_loop dt devname (nat NDEVS) 0"

subsection \<open>The QEMU disk\<close>

abbreviation (input) QRDISK_MAX_BUFF :: int where "QRDISK_MAX_BUFF \<equiv> 4096"

text \<open>The inner loop stores through the index of the outer one, so it only resets entry 0.\<close>

definition qrds_init :: "('a pgstate_scheme, int) prog" where
  "qrds_init = plift (\<lambda>s. (OK, fold (\<lambda>j s. s\<lparr>qrds := (qrds s)(0 := (qrds s 0)\<lparr>qstatus := 0\<rparr>)\<rparr>)
     [0..<nat QRDISK_MAX_BUFF] s))"

definition qrds_open :: "int \<Rightarrow> string \<Rightarrow> string \<Rightarrow> ('a pgstate_scheme, int) prog" where
  "qrds_open num diskid mode = Ret num"

definition qrds_close :: "('a pgstate_scheme, int) prog" where
  "qrds_close = Ret OK"

definition qrds_control :: "int \<Rightarrow> int \<Rightarrow> int \<Rightarrow> ('a pgstate_scheme, int) prog" where
  "qrds_control func arg1 arg2 = Ret OK"

text \<open>The block number arrives as a \<open>uint32\<close> and is used as an \<open>int32\<close>; a failed assertion panics.\<close>

definition qrds_read :: "wbuf \<Rightarrow> u32 \<Rightarrow> ('a pgstate_scheme, int \<times> wbuf) prog" where
  "qrds_read p count =
     (let blk = sint count in
      if blk < QRDISK_MAX_BUFF
      then pgets (\<lambda>s. (OK, \<lambda>i. if i < 128 then qdata (qrds s blk) i else p i))
      else panic)"

definition qrds_write :: "wbuf \<Rightarrow> u32 \<Rightarrow> ('a pgstate_scheme, int) prog" where
  "qrds_write p count =
     (let blk = sint count in
      if blk < QRDISK_MAX_BUFF
      then plift (\<lambda>s. (OK, s\<lparr>qrds := (qrds s)(blk := (qrds s blk)
             \<lparr>qdata := (\<lambda>i. if i < 128 then p i else qdata (qrds s blk) i), qstatus := 1\<rparr>)\<rparr>))
      else panic)"

subsection \<open>The RAM disk\<close>

definition ramopen :: "int \<Rightarrow> string \<Rightarrow> string \<Rightarrow> ('a pgstate_scheme, int) prog" where
  "ramopen num name mode = Ret num"

definition ramclose :: "('a pgstate_scheme, int) prog" where
  "ramclose = Ret OK"

text \<open>The drivers of the RAM disk do not compare the block number with the 200 blocks of the array. The disk here has a
  block for every number, so the properties that use it bound the numbers below 200.\<close>

definition ramread :: "wbuf \<Rightarrow> u32 \<Rightarrow> ('a pgstate_scheme, int \<times> wbuf) prog" where
  "ramread buff count =
     (let blk = sint count
      in pgets (\<lambda>s. (OK, \<lambda>i. if i < 128 then ramdisk s blk i else buff i)))"

definition ramwrite :: "wbuf \<Rightarrow> u32 \<Rightarrow> ('a pgstate_scheme, int) prog" where
  "ramwrite buff count =
     (let blk = sint count
      in plift (\<lambda>s. (OK, s\<lparr>ramdisk := (ramdisk s)(blk := (\<lambda>i. if i < 128 then buff i else ramdisk s blk i))\<rparr>)))"

subsection \<open>The switch table\<close>

definition devtab :: "'a pgstate_scheme devtab_t \<Rightarrow> 'a pgstate_scheme devtab_t" where
  "devtab d = d(
     CONSOLE := (d CONSOLE)\<lparr>dvnum := 0, dvminor := 0, dvname := ''CONSOLE'', dvopen := (\<lambda>_ _. ionull),
       dvclose := ionull, dvseek := (\<lambda>_. ioerr)\<rparr>,
     QEMUCONSOLE := (d QEMUCONSOLE)\<lparr>dvnum := 1, dvminor := 0, dvname := ''QEMUCONSOLE'',
       dvopen := (\<lambda>_ _. ionull), dvclose := ionull, dvseek := (\<lambda>_. ioerr)\<rparr>,
     NULLDEV := \<lparr>dvnum = 2, dvminor = 0, dvname = ''NULLDEV'', dvinit = ionull, dvopen = (\<lambda>_ _. ionull),
       dvclose = ionull, dvread = (\<lambda>b _. Ret (OK, b)), dvwrite = (\<lambda>_ _. ionull), dvseek = (\<lambda>_. ioerr),
       dvgetc = ionull, dvputc = (\<lambda>_. ionull), dvcntl = (\<lambda>_ _ _. ioerr)\<rparr>,
     QEMURDISK := \<lparr>dvnum = 6, dvminor = 0, dvname = ''QEMURDISK'', dvinit = qrds_init, dvopen = qrds_open 6,
       dvclose = qrds_close, dvread = qrds_read, dvwrite = qrds_write, dvseek = (\<lambda>_. ioerr),
       dvgetc = ioerr, dvputc = (\<lambda>_. ioerr), dvcntl = qrds_control\<rparr>,
     RAM0 := \<lparr>dvnum = 7, dvminor = 0, dvname = ''RAM0'', dvinit = dvinit (d RAM0), dvopen = ramopen 7,
       dvclose = ramclose, dvread = ramread, dvwrite = ramwrite, dvseek = (\<lambda>_. ioerr),
       dvgetc = ioerr, dvputc = (\<lambda>_. ioerr), dvcntl = (\<lambda>_ _ _. ioerr)\<rparr>)"

end
