(* ===== verification/Backing_Store.thy ===== *)
theory Backing_Store
  imports Devices
begin

section \<open>Backing stores\<close>

text \<open>
  paging/psinit.c, get_bs.c, release_bs.c, allocate_bs.c, deallocate_bs.c, open_bs.c, close_bs.c,
  read_bs.c, write_bs.c, count_bs.c and bs.c. A backing store is a range of pages on the disk
  \<open>WRDISK\<close>; \<open>bs_sem\<close> protects the table, so every operation may give the processor away
  at \<open>wait\<close> and \<open>signal\<close>. Page contents are copied word by word between a frame (128 words per
  disk block, 8 blocks per page) and the disk.
\<close>

definition psinit_entry :: "bs_entry \<Rightarrow> bs_entry" where
  "psinit_entry e = e\<lparr>isopen := False, isallocated := False, usecount := 0, npages := 0\<rparr>"

definition psinit :: "'a pgstate_scheme devtab_t \<Rightarrow> ('a pgstate_scheme, int) prog" where
  "psinit dt =
     pbind (pgets bs_init_sem) (\<lambda>sem.
     pbind (pcall (wait sem)) (\<lambda>_.
     pbind (pgets ps_active) (\<lambda>act.
     if act then Ret OK
     else
       pbind (open_dev dt WRDISK ''backing_store'' ''rw'') (\<lambda>r.
       if r = SYSERR then panic
       else
         pbind (plift (semcreate 1)) (\<lambda>sem'.
         pbind (pmodify (\<lambda>s. s\<lparr>bs_sem := sem'\<rparr>)) (\<lambda>_.
         if sem' = SYSERR then panic
         else
           pbind (pfor [0..<nat MAX_BS_ENTRIES] (\<lambda>i. pmodify (upd_bs (int i) psinit_entry))) (\<lambda>_.
           pbind (pmodify (\<lambda>s. s\<lparr>ps_active := True\<rparr>)) (\<lambda>_.
           pbind (pcall (signal sem)) (\<lambda>_.
           Ret OK)))))))))"

text \<open>\<open>npages\<close> is unsigned and the result is returned as a \<open>syscall\<close> (int32) value.\<close>

definition get_bs :: "'a pgstate_scheme devtab_t \<Rightarrow> bsd_t \<Rightarrow> u32 \<Rightarrow> ('a pgstate_scheme, int) prog" where
  "get_bs dt bs_id npgs =
     pbind (pgets ps_active) (\<lambda>act.
     pbind (if \<not> act then psinit dt else Ret OK) (\<lambda>_.
     if bs_id > MAX_ID \<or> bs_id < MIN_ID \<or> npgs = 0 \<or> npgs > 200 then Ret SYSERR
     else
       pbind (pgets bs_sem) (\<lambda>sem.
       pbind (pcall (wait sem)) (\<lambda>_.
       pbind (pgets (\<lambda>s. isopen (bstab s bs_id))) (\<lambda>op.
       if op then pbind (pgets bs_sem) (\<lambda>sem. pbind (pcall (signal sem)) (\<lambda>_. Ret SYSERR))
       else
         pbind (pmodify (upd_bs bs_id (\<lambda>e. e\<lparr>isopen := True\<rparr>))) (\<lambda>_.
         pbind (pmodify (upd_bs bs_id (\<lambda>e. e\<lparr>npages := npgs\<rparr>))) (\<lambda>_.
         pbind (pgets bs_sem) (\<lambda>sem.
         pbind (pcall (signal sem)) (\<lambda>_.
         Ret (sint npgs))))))))))"

fun allocate_bs_loop :: "'a pgstate_scheme devtab_t \<Rightarrow> u32 \<Rightarrow> nat \<Rightarrow> int \<Rightarrow> ('a pgstate_scheme, bsd_t) prog" where
  "allocate_bs_loop dt npgs 0 i = Ret SYSERR"
| "allocate_bs_loop dt npgs (Suc k) i =
     pbind (pgets (\<lambda>s. isallocated (bstab s i))) (\<lambda>al.
     if al then allocate_bs_loop dt npgs k (i + 1)
     else
       pbind (get_bs dt i npgs) (\<lambda>r.
       if r = SYSERR then allocate_bs_loop dt npgs k (i + 1)
       else
         pbind (pmodify (upd_bs i (\<lambda>e. e\<lparr>isallocated := True\<rparr>))) (\<lambda>_.
         pbind (pmodify (upd_bs i (\<lambda>e. e\<lparr>usecount := 0\<rparr>))) (\<lambda>_.
         Ret i))))"

definition allocate_bs :: "'a pgstate_scheme devtab_t \<Rightarrow> u32 \<Rightarrow> ('a pgstate_scheme, bsd_t) prog" where
  "allocate_bs dt npgs =
     pbind (pgets ps_active) (\<lambda>act.
     pbind (if \<not> act then psinit dt else Ret OK) (\<lambda>_.
     allocate_bs_loop dt npgs (nat MAX_BS_ENTRIES) 0))"

definition release_bs :: "bsd_t \<Rightarrow> ('a pgstate_scheme, int) prog" where
  "release_bs bs_id =
     pbind (pgets ps_active) (\<lambda>act.
     if \<not> act then Ret SYSERR
     else
       pbind (pgets bs_sem) (\<lambda>sem.
       pbind (pcall (wait sem)) (\<lambda>_.
       pbind (pgets (\<lambda>s. isopen (bstab s bs_id))) (\<lambda>op.
       if bs_id > MAX_ID \<or> bs_id < MIN_ID \<or> \<not> op
       then pbind (pgets bs_sem) (\<lambda>sem. pbind (pcall (signal sem)) (\<lambda>_. Ret SYSERR))
       else
         pbind (pmodify (upd_bs bs_id (\<lambda>e. e\<lparr>isopen := False\<rparr>))) (\<lambda>_.
         pbind (pmodify (upd_bs bs_id (\<lambda>e. e\<lparr>npages := 0\<rparr>))) (\<lambda>_.
         pbind (pgets bs_sem) (\<lambda>sem.
         pbind (pcall (signal sem)) (\<lambda>_.
         Ret OK))))))))"

definition deallocate_bs :: "bsd_t \<Rightarrow> ('a pgstate_scheme, bsd_t) prog" where
  "deallocate_bs store =
     (if store > MAX_ID \<or> store < MIN_ID then Ret SYSERR
      else
        pbind (pgets (\<lambda>s. bstab s store)) (\<lambda>e.
        if \<not> isallocated e then Ret SYSERR
        else if usecount e > 0 then Ret SYSERR
        else
          pbind (release_bs store) (\<lambda>_.
          pbind (pmodify (upd_bs store (\<lambda>e. e\<lparr>isallocated := False\<rparr>))) (\<lambda>_.
          pbind (pmodify (upd_bs store (\<lambda>e. e\<lparr>usecount := 0\<rparr>))) (\<lambda>_.
          Ret store)))))"

definition open_bs :: "bsd_t \<Rightarrow> ('a pgstate_scheme, bsd_t) prog" where
  "open_bs store =
     (if store > MAX_ID \<or> store < MIN_ID then Ret SYSERR
      else
        pbind (pgets bs_sem) (\<lambda>sem.
        pbind (pcall (wait sem)) (\<lambda>_.
        pbind (pgets (\<lambda>s. isallocated (bstab s store))) (\<lambda>al.
        pbind (if al then pmodify (upd_bs store (\<lambda>e. e\<lparr>usecount := usecount e + 1\<rparr>)) else Ret ()) (\<lambda>_.
        pbind (pgets bs_sem) (\<lambda>sem.
        pbind (pcall (signal sem)) (\<lambda>_.
        Ret (if al then store else SYSERR))))))))"

definition close_bs :: "bsd_t \<Rightarrow> ('a pgstate_scheme, bsd_t) prog" where
  "close_bs store =
     (if store > MAX_ID \<or> store < MIN_ID then Ret SYSERR
      else
        pbind (pgets bs_sem) (\<lambda>sem.
        pbind (pcall (wait sem)) (\<lambda>_.
        pbind (pgets (\<lambda>s. isallocated (bstab s store))) (\<lambda>al.
        pbind (if al then pmodify (upd_bs store (\<lambda>e. e\<lparr>usecount := usecount e - 1\<rparr>)) else Ret ()) (\<lambda>_.
        pbind (pgets bs_sem) (\<lambda>sem.
        pbind (pcall (signal sem)) (\<lambda>_.
        Ret (if al then store else SYSERR))))))))"

text \<open>The page table check shared by read_bs and write_bs, under \<open>bs_sem\<close>.\<close>

definition bs_check :: "bsd_t \<Rightarrow> u32 \<Rightarrow> ('a pgstate_scheme, bool) prog" where
  "bs_check bs_id page =
     pbind (pgets bs_sem) (\<lambda>sem.
     pbind (pcall (wait sem)) (\<lambda>_.
     pbind (pgets (\<lambda>s. isopen (bstab s bs_id) \<and> page < npages (bstab s bs_id))) (\<lambda>ok.
     pbind (pgets bs_sem) (\<lambda>sem.
     pbind (pcall (signal sem)) (\<lambda>_.
     Ret ok)))))"

definition rd_blk :: "bsd_t \<Rightarrow> u32 \<Rightarrow> u32" where
  "rd_blk bs_id page = (word_of_int (bs_id * RD_PAGES_PER_BS) + page) * 8"

text \<open>The retry loops: \<open>attempts\<close> counts the failures over all 8 blocks, and the failure that finds
  it at zero panics.\<close>

fun read_retry :: "'a pgstate_scheme devtab_t \<Rightarrow> u32 \<Rightarrow> nat \<Rightarrow> wbuf \<Rightarrow> ('a pgstate_scheme, nat \<times> wbuf) prog" where
  "read_retry dt blk attempts buf =
     pbind (read_dev dt WRDISK buf blk) (\<lambda>(r, buf).
     if r \<noteq> SYSERR then Ret (attempts, buf)
     else case attempts of 0 \<Rightarrow> panic | Suc a \<Rightarrow> read_retry dt blk a buf)"

fun write_retry :: "'a pgstate_scheme devtab_t \<Rightarrow> u32 \<Rightarrow> nat \<Rightarrow> wbuf \<Rightarrow> ('a pgstate_scheme, nat) prog" where
  "write_retry dt blk attempts buf =
     pbind (write_dev dt WRDISK buf blk) (\<lambda>r.
     if r \<noteq> SYSERR then Ret attempts
     else case attempts of 0 \<Rightarrow> panic | Suc a \<Rightarrow> write_retry dt blk a buf)"

text \<open>\<open>memcpy\<close> between memory and a block buffer.\<close>

definition copy_out :: "addr \<Rightarrow> wbuf \<Rightarrow> 'a mstate_scheme \<Rightarrow> 'a mstate_scheme" where
  "copy_out dst buf s = fold (\<lambda>k s. s\<lparr>words := (words s)(dst + 4 * of_nat k := buf k)\<rparr>) [0..<128] s"

definition copy_in :: "addr \<Rightarrow> 'a mstate_scheme \<Rightarrow> wbuf" where
  "copy_in src s = (\<lambda>k. if k < 128 then words s (src + 4 * of_nat k) else 0)"

fun read_bs_loop :: "'a pgstate_scheme devtab_t \<Rightarrow> addr \<Rightarrow> u32 \<Rightarrow> nat list \<Rightarrow> nat \<Rightarrow> ('a pgstate_scheme, unit) prog" where
  "read_bs_loop dt dst blk [] attempts = Ret ()"
| "read_bs_loop dt dst blk (i # is) attempts =
     pbind (read_retry dt (blk + of_nat i) attempts (\<lambda>_. 0)) (\<lambda>(attempts, buf).
     pbind (pmodify (copy_out (dst + of_nat i * 512) buf)) (\<lambda>_.
     read_bs_loop dt dst blk is attempts))"

definition read_bs :: "'a pgstate_scheme devtab_t \<Rightarrow> addr \<Rightarrow> bsd_t \<Rightarrow> u32 \<Rightarrow> ('a pgstate_scheme, int) prog" where
  "read_bs dt dst bs_id page =
     pbind (pgets ps_active) (\<lambda>act.
     if \<not> act then Ret SYSERR
     else if bs_id > MAX_ID \<or> bs_id < MIN_ID then Ret SYSERR
     else
       pbind (bs_check bs_id page) (\<lambda>ok.
       if \<not> ok then Ret SYSERR
       else
         pbind (read_bs_loop dt dst (rd_blk bs_id page) [0..<8] 10) (\<lambda>_.
         Ret OK)))"

fun write_bs_loop :: "'a pgstate_scheme devtab_t \<Rightarrow> addr \<Rightarrow> u32 \<Rightarrow> nat list \<Rightarrow> nat \<Rightarrow> ('a pgstate_scheme, unit) prog" where
  "write_bs_loop dt src blk [] attempts = Ret ()"
| "write_bs_loop dt src blk (i # is) attempts =
     pbind (pgets (copy_in (src + of_nat i * 512))) (\<lambda>buf.
     pbind (write_retry dt (blk + of_nat i) attempts buf) (\<lambda>attempts.
     write_bs_loop dt src blk is attempts))"

definition write_bs :: "'a pgstate_scheme devtab_t \<Rightarrow> addr \<Rightarrow> bsd_t \<Rightarrow> u32 \<Rightarrow> ('a pgstate_scheme, int) prog" where
  "write_bs dt src bs_id page =
     pbind (pgets ps_active) (\<lambda>act.
     if \<not> act then Ret SYSERR
     else if bs_id > MAX_ID \<or> bs_id < MIN_ID then Ret SYSERR
     else
       pbind (bs_check bs_id page) (\<lambda>ok.
       if \<not> ok then Ret SYSERR
       else
         pbind (write_bs_loop dt src (rd_blk bs_id page) [0..<8] 10) (\<lambda>_.
         Ret OK)))"

definition count_bs :: "'a pgstate_scheme \<Rightarrow> int" where
  "count_bs s = fold (\<lambda>i n. if isallocated (bstab s (int i)) then n else n + 1) [0..<nat MAX_BS_ENTRIES] 0"

subsection \<open>The backing stores of a process\<close>

text \<open>\<open>get_bs_info\<close> panics below virtual page \<open>FRAME0\<close> and otherwise returns \<open>OK\<close> with the store and the
  page in it; the indices are unsigned.\<close>

definition get_bs_info :: "pid32 \<Rightarrow> addr \<Rightarrow> 'a pgstate_scheme \<Rightarrow> (int \<times> bsd_t \<times> u32) option" where
  "get_bs_info pid vaddr s =
     (let vpn = vaddr2vpn vaddr in
      if vpn < FRAME0 then None
      else
        (let vpn_offset = vpn - VPN0;
             i = vpn_offset div 200;
             bs_offset = vpn_offset mod 200
         in Some (OK, pbsd (proctab s pid) (unat i), bs_offset)))"

definition min_i32 :: "int \<Rightarrow> int \<Rightarrow> int" where
  "min_i32 a b = (if a < b then a else b)"

text \<open>\<open>remain\<close> is a signed copy of the heap size. \<open>fuel\<close> bounds the loop, which takes 200 pages off
  at a time: a positive \<open>int32\<close> allows at most 10737419 rounds, so \<open>nat remain\<close> is enough.\<close>

fun freeProcBS_loop :: "pid32 \<Rightarrow> nat \<Rightarrow> int \<Rightarrow> nat \<Rightarrow> ('a pgstate_scheme, unit) prog" where
  "freeProcBS_loop pid 0 remain i = Ret ()"
| "freeProcBS_loop pid (Suc fuel) remain i =
     (if remain > 0 then
        pbind (pgets (\<lambda>s. pbsd (proctab s pid) i)) (\<lambda>bsd.
        pbind (deallocate_bs bsd) (\<lambda>_.
        pbind (pmodify (\<lambda>s. s\<lparr>free_bs_count := free_bs_count s + 1\<rparr>)) (\<lambda>_.
        freeProcBS_loop pid fuel (remain - MAX_PAGES_PER_BS) (i + 1))))
      else Ret ())"

definition freeProcBS :: "pid32 \<Rightarrow> ('a pgstate_scheme, int) prog" where
  "freeProcBS pid =
     pbind (pgets (\<lambda>s. proctab s pid)) (\<lambda>prptr.
     if \<not> vh prptr then Ret OK
     else
       (let remain = sint (hsize prptr) in
        pbind (freeProcBS_loop pid (nat remain) remain 0) (\<lambda>_. Ret OK)))"

fun bs_init_loop :: "'a pgstate_scheme devtab_t \<Rightarrow> pid32 \<Rightarrow> nat \<Rightarrow> int \<Rightarrow> nat \<Rightarrow> ('a pgstate_scheme, unit) prog" where
  "bs_init_loop dt pid 0 remain i = Ret ()"
| "bs_init_loop dt pid (Suc fuel) remain i =
     (if remain > 0 then
        (let req = min_i32 remain MAX_PAGES_PER_BS in
         pbind (allocate_bs dt (word_of_int req)) (\<lambda>bsd.
         pbind (pmodify (upd_proc pid (\<lambda>p. p\<lparr>pbsd := (pbsd p)(i := bsd)\<rparr>))) (\<lambda>_.
         pbind (pmodify (\<lambda>s. s\<lparr>free_bs_count := free_bs_count s - 1\<rparr>)) (\<lambda>_.
         bs_init_loop dt pid fuel (remain - MAX_PAGES_PER_BS) (i + 1)))))
      else Ret ())"

definition bs_init :: "'a pgstate_scheme devtab_t \<Rightarrow> pid32 \<Rightarrow> u32 \<Rightarrow> ('a pgstate_scheme, int) prog" where
  "bs_init dt pid hsz =
     pbind (pfor [0..<nat MAX_BS_ENTRIES] (\<lambda>i. pmodify (upd_proc pid (\<lambda>p. p\<lparr>pbsd := (pbsd p)(i := 0)\<rparr>)))) (\<lambda>_.
     (let remain = sint hsz in
      pbind (bs_init_loop dt pid (nat remain) remain 0) (\<lambda>_. Ret OK)))"

end
