(* ===== verification/Process.thy ===== *)
theory Process
  imports Backing_Store
begin

section \<open>Process creation and termination\<close>

text \<open>
  system/create.c (with its local \<open>newpid\<close>), system/kill.c, system/userret.c. \<open>create\<close> prepares the
  stack of the new process in memory exactly as \<open>ctxsw\<close> expects it; the address of the code of
  the process and of \<open>userret\<close> are arguments. \<open>kill\<close> calls \<open>send\<close>, the close routines of the
  descriptors and the backing store functions, any of which may give the processor away.
\<close>

subsection \<open>Process ids\<close>

text \<open>The search loop of \<open>newpid\<close>; each of create.c and vcreate.c has a static position of its own.\<close>

fun newpid_loop :: "nat \<Rightarrow> pid32 \<Rightarrow> (pid32 \<Rightarrow> procent) \<Rightarrow> pid32 \<times> pid32" where
  "newpid_loop 0 nextpid pt = (SYSERR, nextpid)"
| "newpid_loop (Suc i) nextpid pt =
     (let nextpid = nextpid mod NPROC in
      if prstate (pt nextpid) = PR_FREE then (nextpid, nextpid + 1)
      else newpid_loop i (nextpid + 1) pt)"

definition newpid_create :: "'a pgstate_scheme \<Rightarrow> pid32 \<times> 'a pgstate_scheme" where
  "newpid_create s =
     (let (pid, n) = newpid_loop (nat NPROC) (nextpid_create s) (proctab s) in (pid, s\<lparr>nextpid_create := n\<rparr>))"

subsection \<open>The initial stack\<close>

abbreviation (input) MINSTK :: u32 where "MINSTK \<equiv> 400"
abbreviation (input) STACKMAGIC :: u32 where "STACKMAGIC \<equiv> 0x0A0AAAA9"

definition roundew :: "u32 \<Rightarrow> u32" where
  "roundew x = (x + 3) AND NOT 3"

definition push :: "u32 \<Rightarrow> addr \<times> 'a mstate_scheme \<Rightarrow> addr \<times> 'a mstate_scheme" where
  "push v = (\<lambda>(saddr, s). (saddr - 4, s\<lparr>words := (words s)(saddr - 4 := v)\<rparr>))"

text \<open>The stack of a process that is about to return from \<open>ctxsw\<close> into \<open>funcaddr\<close>; the result is
  the saved stack pointer. The words of a stack are kept apart from the nodes of the heap, and the number of arguments is not
  compared with the size of the stack, as in the code.\<close>

definition init_stack :: "addr \<Rightarrow> addr \<Rightarrow> u32 list \<Rightarrow> addr \<Rightarrow> 'a mstate_scheme \<Rightarrow> addr \<times> 'a mstate_scheme" where
  "init_stack initret funcaddr args saddr s =
     (let s = s\<lparr>words := (words s)(saddr := STACKMAGIC)\<rparr>;
          savsp = saddr;
          (saddr, s) = fold push (rev args) (saddr, s);
          (saddr, s) = push initret (saddr, s);
          (saddr, s) = push funcaddr (saddr, s);
          (saddr, s) = push savsp (saddr, s);
          savsp = saddr;
          (saddr, s) = push 0x00000200 (saddr, s);
          (saddr, s) = push 0 (saddr, s);
          (saddr, s) = push 0 (saddr, s);
          (saddr, s) = push 0 (saddr, s);
          (saddr, s) = push 0 (saddr, s);
          (saddr, s) = push 0 (saddr, s);
          pushsp = saddr;
          (saddr, s) = push savsp (saddr, s);
          (saddr, s) = push 0 (saddr, s);
          (saddr, s) = push 0 (saddr, s)
      in (saddr, s\<lparr>words := (words s)(pushsp := saddr)\<rparr>))"

text \<open>The loop that copies the name: at most 15 characters, the null character included when it is
  reached.\<close>

definition copy_name :: "string \<Rightarrow> char list \<Rightarrow> char list" where
  "copy_name name old =
     (let old = old[PNMLEN - 1 := CHR 0x00];
          new = take (PNMLEN - 1) (name @ [CHR 0x00])
      in new @ drop (length new) old)"

text \<open>The assignments to the process table entry that create and vcreate share.\<close>

definition init_procent :: "int \<Rightarrow> addr \<Rightarrow> u32 \<Rightarrow> string \<Rightarrow> pid32 \<Rightarrow> int \<Rightarrow> procent \<Rightarrow> procent" where
  "init_procent priority saddr ssize name parent dev p =
     p\<lparr>prstate := PR_SUSP, prprio := priority, prstkbase := saddr, prstklen := ssize,
       prname := copy_name name (prname p), prsem := - 1, prparent := parent, prhasmsg := False,
       prdesc := (prdesc p)[0 := dev, 1 := dev, 2 := dev]\<rparr>"

definition create :: "addr \<Rightarrow> addr \<Rightarrow> u32 \<Rightarrow> int \<Rightarrow> string \<Rightarrow> u32 list \<Rightarrow> 'a pgstate_scheme \<Rightarrow>
    (pid32 \<times> 'a pgstate_scheme) option" where
  "create initret funcaddr ssize priority name args s = do {
     let ssize = (if ssize < MINSTK then MINSTK else ssize);
     let ssize = roundew ssize;
     (saddr, s) \<leftarrow> getstk ssize s;
     if saddr = SYSERR32 then Some (SYSERR, s)
     else
       (let (pid, s) = newpid_create s in
        if pid = SYSERR \<or> priority < 1 then Some (SYSERR, s)
        else
          (let s = s\<lparr>prcount := prcount s + 1\<rparr>;
               s = upd_proc pid (\<lambda>p. p\<lparr>prpd := gpd s, vh := False, hsize := 0, vmeminit := False\<rparr>) s;
               s = upd_proc pid (init_procent priority saddr ssize name (getpid s) WCONSOLE) s;
               (sp, s) = init_stack initret funcaddr args saddr s
           in Some (pid, upd_proc pid (\<lambda>p. p\<lparr>prstkptr := sp\<rparr>) s)))
   }"

subsection \<open>Termination\<close>

definition presched :: "('a kstate_scheme, unit) prog" where
  "presched = pcall (\<lambda>s. map_option (Pair ()) (resched s))"

definition setfree :: "pid32 \<Rightarrow> 'a kstate_scheme \<Rightarrow> 'a kstate_scheme" where
  "setfree pid s = upd_proc pid (\<lambda>p. p\<lparr>prstate := PR_FREE\<rparr>) s"

text \<open>The \<open>switch\<close> at the end of \<open>kill\<close>. The first case has no \<open>break\<close>: if \<open>resched\<close> ever came back,
  the second would follow.\<close>

definition kill_switch :: "pid32 \<Rightarrow> ('a kstate_scheme, unit) prog" where
  "kill_switch pid =
     pbind (pgets (\<lambda>s. prstate (proctab s pid))) (\<lambda>st.
     case st of
       PR_CURR \<Rightarrow>
         pbind (pmodify (setfree pid)) (\<lambda>_.
         pbind presched (\<lambda>_.
         pbind (plift (unsleep pid)) (\<lambda>_.
         pmodify (setfree pid))))
     | PR_SLEEP \<Rightarrow> pbind (plift (unsleep pid)) (\<lambda>_. pmodify (setfree pid))
     | PR_RECTIM \<Rightarrow> pbind (plift (unsleep pid)) (\<lambda>_. pmodify (setfree pid))
     | PR_WAIT \<Rightarrow>
         pbind (pgets (\<lambda>s. prsem (proctab s pid))) (\<lambda>sem.
         pbind (pmodify (upd_sem sem (\<lambda>e. e\<lparr>scount := scount e + 1\<rparr>))) (\<lambda>_.
         pbind (plift (getitem pid)) (\<lambda>_.
         pmodify (setfree pid))))
     | PR_READY \<Rightarrow> pbind (plift (getitem pid)) (\<lambda>_. pmodify (setfree pid))
     | _ \<Rightarrow> pmodify (setfree pid))"

text \<open>\<open>xdone\<close> halts the processor, so nothing follows it.\<close>

definition kill :: "'a pgstate_scheme devtab_t \<Rightarrow> pid32 \<Rightarrow> ('a pgstate_scheme, int) prog" where
  "kill dt pid =
     pbind (pgets (\<lambda>s. isbadpid s pid \<or> pid = NULLPROC \<or> prstate (proctab s pid) = PR_FREE)) (\<lambda>bad.
     if bad then Ret SYSERR
     else
       pbind (plift (\<lambda>s. let s = s\<lparr>prcount := prcount s - 1\<rparr> in (prcount s, s))) (\<lambda>n.
       if n \<le> 1 then panic
       else
         pbind (pgets (\<lambda>s. prparent (proctab s pid))) (\<lambda>parent.
         pbind (pcall (send parent (word_of_int pid))) (\<lambda>_.
         pbind (pfor [0..<3] (\<lambda>i.
           pbind (pgets (\<lambda>s. prdesc (proctab s pid) ! i)) (\<lambda>d.
           pbind (close_dev dt d) (\<lambda>_. Ret ())))) (\<lambda>_.
         pbind (pcall (\<lambda>s. freestk (prstkbase (proctab s pid)) (prstklen (proctab s pid)) s)) (\<lambda>_.
         pbind (pmodify (freeProcFrames pid)) (\<lambda>_.
         pbind (freeProcBS pid) (\<lambda>_.
         pbind (kill_switch pid) (\<lambda>_.
         Ret OK)))))))))"

definition userret :: "'a pgstate_scheme devtab_t \<Rightarrow> ('a pgstate_scheme, unit) prog" where
  "userret dt = pbind (pgets getpid) (\<lambda>pid. pbind (kill dt pid) (\<lambda>_. Ret ()))"

end
