(* ===== verification/Paging.thy ===== *)
theory Paging
  imports Process
begin

section \<open>Demand paging\<close>

text \<open>
  The part of system/ipt.c and system/paging.c that may give the processor away (page
  replacement writes to the backing store, and \<open>pf_sem\<close> serialises page faults), and
  system/vcreate.c.
\<close>

subsection \<open>Eviction\<close>

definition evictFrame :: "'a pgstate_scheme devtab_t \<Rightarrow> u32 \<Rightarrow> ('a pgstate_scheme, unit) prog" where
  "evictFrame dt fr =
     pbind (pgets (\<lambda>s. (fvpn (ipt s fr), fpid (ipt s fr)))) (\<lambda>(vp, pid).
     pbind (pgets (\<lambda>s. prpd (proctab s pid))) (\<lambda>pd.
     let a = word_of_int vp * NBPG; pdi = vaddr2pdi a; pti = vaddr2pti a in
     pbind (pgets (\<lambda>s. pdi2pt s pd pdi)) (\<lambda>pt.
     pbind (pmodify (upd_pte pt pti (\<lambda>e. e\<lparr>pt_pres := False\<rparr>))) (\<lambda>_.
     pbind (pmodify (decRefCount pt pd pdi)) (\<lambda>_.
     pbind (pgets (\<lambda>s. pt_dirty (pte s pt pti) \<or> pt_avail (pte s pt pti) = 1)) (\<lambda>dirty.
     if dirty then
       pbind (pcall (\<lambda>s. map_option (\<lambda>r. (r, s)) (get_bs_info pid a s))) (\<lambda>(st, bsd, offset).
       pbind (if st = SYSERR then pbind (pgets currpid) (kill dt) else Ret OK) (\<lambda>_.
       pbind (write_bs dt (frameNum2ptr fr) bsd offset) (\<lambda>st.
       if st = SYSERR then panic
       else
         pbind (pmodify (upd_pte pt pti (\<lambda>e. e\<lparr>pt_dirty := False\<rparr>))) (\<lambda>_.
         pmodify (upd_pte pt pti (\<lambda>e. e\<lparr>pt_avail := 0\<rparr>))))))
     else Ret ()))))))"

subsection \<open>Frame allocation\<close>

text \<open>The search for an unused frame: the frame, if any, and the next position.\<close>

fun fifo_search :: "nat \<Rightarrow> u32 \<Rightarrow> (u32 \<Rightarrow> frame_t) \<Rightarrow> u32 option \<times> u32" where
  "fifo_search 0 nextframe t = (None, nextframe)"
| "fifo_search (Suc i) nextframe t =
     (let nextframe = nextframe mod NFRAMES in
      if fstatus (t nextframe) = NOT_USED then (Some nextframe, nextframe + 1)
      else fifo_search i (nextframe + 1) t)"

definition getNewFrameFIFO :: "'a pgstate_scheme devtab_t \<Rightarrow> int \<Rightarrow> pid32 \<Rightarrow> int \<Rightarrow> ('a pgstate_scheme, addr) prog" where
  "getNewFrameFIFO dt type pid vpn =
     pbind (plift (\<lambda>s. let (fr, n) = fifo_search (unat NFRAMES) (nextframe_fifo s) (ipt s)
                       in (fr, s\<lparr>nextframe_fifo := n\<rparr>))) (\<lambda>free.
     case free of
       Some fr \<Rightarrow> pbind (pmodify (init_frame fr type pid vpn)) (\<lambda>_. Ret (frameNum2ptr fr))
     | None \<Rightarrow>
         pbind (pcall pickFrame) (\<lambda>fr.
         if fr = SYSERR32 then Ret SYSERR32
         else
           pbind (evictFrame dt fr) (\<lambda>_.
           pbind (pmodify (init_frame fr type pid vpn)) (\<lambda>_.
           Ret (frameNum2ptr fr)))))"

text \<open>The sweep of the clock algorithm: \<open>Inl\<close> an unused frame, \<open>Inr\<close> the frame to evict, which is
  \<open>(uint32)-1\<close> when the bounded sweep found none.\<close>

fun gca_search :: "nat \<Rightarrow> 'a pgstate_scheme \<Rightarrow> ((u32 + u32) \<times> 'a pgstate_scheme) option" where
  "gca_search 0 s = Some (Inr SYSERR32, s)"
| "gca_search (Suc i) s =
     (let s = s\<lparr>nextframe_gca := nextframe_gca s mod NFRAMES\<rparr>;
          fr = nextframe_gca s;
          s' = s\<lparr>nextframe_gca := fr + 1\<rparr> in
      if fstatus (ipt s fr) = NOT_USED then Some (Inl fr, s')
      else if fstatus (ipt s fr) = PAGE then
        (case getAndSetUM fr s of
           None \<Rightarrow> None
         | Some (bits, s) \<Rightarrow>
             if bits = UM00 then Some (Inr fr, s\<lparr>nextframe_gca := fr + 1\<rparr>)
             else gca_search i (s\<lparr>nextframe_gca := fr + 1\<rparr>))
      else gca_search i s')"

definition getNewFrameGCA :: "'a pgstate_scheme devtab_t \<Rightarrow> int \<Rightarrow> pid32 \<Rightarrow> int \<Rightarrow> ('a pgstate_scheme, addr) prog" where
  "getNewFrameGCA dt type pid vpn =
     pbind (pcall (gca_search (3 * unat NFRAMES + 1))) (\<lambda>r.
     case r of
       Inl fr \<Rightarrow> pbind (pmodify (init_frame fr type pid vpn)) (\<lambda>_. Ret (frameNum2ptr fr))
     | Inr fr \<Rightarrow>
         pbind (evictFrame dt fr) (\<lambda>_.
         pbind (pmodify (init_frame fr type pid vpn)) (\<lambda>_.
         Ret (frameNum2ptr fr))))"

definition getNewFrame :: "'a pgstate_scheme devtab_t \<Rightarrow> int \<Rightarrow> pid32 \<Rightarrow> int \<Rightarrow> ('a pgstate_scheme, addr) prog" where
  "getNewFrame dt type pid vpn =
     pbind (pgets currpolicy) (\<lambda>policy.
     if policy = FIFO then getNewFrameFIFO dt type pid vpn
     else if policy = GCA then getNewFrameGCA dt type pid vpn
     else Ret SYSERR32)"

subsection \<open>Page tables and page directories\<close>

definition new_pt_entry :: "pt_t \<Rightarrow> pt_t" where
  "new_pt_entry e = e\<lparr>pt_pres := False, pt_write := True, pt_user := False, pt_pwt := False,
     pt_pcd := False, pt_acc := False, pt_dirty := False, pt_mbz := False, pt_global := False, pt_avail := 0\<rparr>"

definition newPageTable :: "'a pgstate_scheme devtab_t \<Rightarrow> pid32 \<Rightarrow> ('a pgstate_scheme, addr) prog" where
  "newPageTable dt pid =
     pbind (getNewFrame dt PTAB pid NO_VPN) (\<lambda>faddr.
     if faddr = SYSERR32 then Ret SYSERR32
     else
       pbind (pmodify (fold (\<lambda>i. upd_pte faddr (of_nat i) new_pt_entry) [0..<PAGETABSIZE])) (\<lambda>_.
       Ret faddr))"

definition init_gpt :: "'a pgstate_scheme devtab_t \<Rightarrow> ('a pgstate_scheme, unit) prog" where
  "init_gpt dt =
     pbind (pfor [0..<NUM_GLOBAL_PT] (\<lambda>j.
       pbind (getNewFrame dt PTAB GLOBAL NO_VPN) (\<lambda>fa.
       pbind (pmodify (\<lambda>s. s\<lparr>gpt := (gpt s)(j := fa)\<rparr>)) (\<lambda>_.
       pmodify (setup_id_paging fa (push_bit 22 (of_nat j))))))) (\<lambda>_.
     pbind (getNewFrame dt PTAB GLOBAL NO_VPN) (\<lambda>fa.
     pbind (pmodify (\<lambda>s. s\<lparr>dpt := fa\<rparr>)) (\<lambda>_.
     pmodify (setup_id_paging fa DEV_MEM_START))))"

definition new_pd_entry :: "pd_t \<Rightarrow> pd_t" where
  "new_pd_entry e = \<lparr>pd_pres = False, pd_write = True, pd_user = False, pd_pwt = False, pd_pcd = False,
     pd_acc = False, pd_mbz = False, pd_fmb = False, pd_global = False, pd_avail = 0, pd_base = 0\<rparr>"

definition global_pde :: "addr \<Rightarrow> u32 \<Rightarrow> addr \<Rightarrow> 'a mstate_scheme \<Rightarrow> 'a mstate_scheme" where
  "global_pde pd j table s =
     (let s = set_PDE_addr pd j table s
      in upd_pde pd j (\<lambda>e. e\<lparr>pd_write := True, pd_pres := True, pd_global := True\<rparr>) s)"

text \<open>The stores of \<open>init_pd\<close> after the frame has been obtained.\<close>

definition fill_pd :: "addr \<Rightarrow> 'a pgstate_scheme \<Rightarrow> 'a pgstate_scheme" where
  "fill_pd pd s =
     (let s = fold (\<lambda>j. upd_pde pd (of_nat j) new_pd_entry) [0..<PAGEDIRSIZE] s;
          s = fold (\<lambda>j s. global_pde pd (of_nat j) (gpt s j) s) [0..<NUM_GLOBAL_PT] s
      in global_pde pd DEV_MEM_PD_INDEX (dpt s) s)"

definition init_pd :: "'a pgstate_scheme devtab_t \<Rightarrow> pid32 \<Rightarrow> ('a pgstate_scheme, int) prog" where
  "init_pd dt pid =
     pbind (pgets pf_sem) (\<lambda>sem.
     pbind (pcall (wait sem)) (\<lambda>_.
     pbind (getNewFrame dt PDIR pid NO_VPN) (\<lambda>pd.
     pbind (pcall (signal sem)) (\<lambda>_.
     if pd = SYSERR32 then Ret SYSERR
     else
       pbind (pmodify (upd_proc pid (\<lambda>p. p\<lparr>prpd := pd\<rparr>))) (\<lambda>_.
       pbind (pmodify (fill_pd pd)) (\<lambda>_.
       Ret OK))))))"

subsection \<open>The page fault handler\<close>

text \<open>What follows when the page fault is legal and the handler holds \<open>pf_sem\<close>.\<close>

definition pf_service :: "'a pgstate_scheme devtab_t \<Rightarrow> addr \<Rightarrow> addr \<Rightarrow> ('a pgstate_scheme, unit) prog" where
  "pf_service dt a pd =
     (let pti = vaddr2pti a; pdi = vaddr2pdi a; vpn = vaddr2vpn a in
      pbind (pgets currpid) (\<lambda>pid.
      pbind (pgets (\<lambda>s. pdi2pt s pd pdi)) (\<lambda>pt.
      pbind (pgets (\<lambda>s. pd_pres (pde s pd pdi))) (\<lambda>pres.
      pbind (if pres then Ret pt
             else
               pbind (newPageTable dt pid) (\<lambda>pt.
               pbind (pmodify (set_PDE_addr pd pdi pt)) (\<lambda>_.
               pbind (pmodify (upd_pde pd pdi (\<lambda>e. e\<lparr>pd_pres := True\<rparr>))) (\<lambda>_.
               Ret pt)))) (\<lambda>pt.
      pbind (getNewFrame dt PAGE pid (sint vpn)) (\<lambda>faddr.
      pbind (pcall (\<lambda>s. map_option (\<lambda>r. (r, s)) (get_bs_info pid a s))) (\<lambda>(st, bsd, offset).
      pbind (read_bs dt faddr bsd offset) (\<lambda>e.
      if e = SYSERR then panic
      else
        pbind (pmodify (incRefCount pt)) (\<lambda>_.
        pbind (pmodify (upd_pte pt pti (\<lambda>e. e\<lparr>pt_pres := True\<rparr>))) (\<lambda>_.
        pmodify (set_PTE_addr pt pti faddr)))))))))))"

definition pf_handler :: "'a pgstate_scheme devtab_t \<Rightarrow> ('a pgstate_scheme, unit) prog" where
  "pf_handler dt =
     pbind (pmodify (\<lambda>s. s\<lparr>pfc := pfc s + 1\<rparr>)) (\<lambda>_.
     pbind (pgets cr2) (\<lambda>a.
     pbind (pgets pf_sem) (\<lambda>sem.
     pbind (pcall (wait sem)) (\<lambda>_.
     pbind (pgets (\<lambda>s. prpd (proctab s (currpid s)))) (\<lambda>pd.
     pbind (pgets (\<lambda>s. isInvalidAddr a (currpid s) s)) (\<lambda>bad.
     if bad then
       pbind (pcall (signal sem)) (\<lambda>_.
       pbind (pgets currpid) (\<lambda>pid.
       pbind (kill dt pid) (\<lambda>_. Ret ())))
     else
       pbind (pf_service dt a pd) (\<lambda>_.
       pbind (pcall (signal sem)) (\<lambda>_. Ret ()))))))))"

subsection \<open>Processes with a virtual heap\<close>

definition newpid_vcreate :: "'a pgstate_scheme \<Rightarrow> pid32 \<times> 'a pgstate_scheme" where
  "newpid_vcreate s =
     (let (pid, n) = newpid_loop (nat NPROC) (nextpid_vcreate s) (proctab s) in (pid, s\<lparr>nextpid_vcreate := n\<rparr>))"

text \<open>The beginning of \<open>vcreate\<close>, up to the check of the backing stores: the process id and its stack,
  or \<open>None\<close> for the error return.\<close>

definition vcreate_start :: "u32 \<Rightarrow> u32 \<Rightarrow> int \<Rightarrow> 'a pgstate_scheme \<Rightarrow>
    ((pid32 \<times> addr) option \<times> 'a pgstate_scheme) option" where
  "vcreate_start ssize hsz priority s = do {
     (saddr, s) \<leftarrow> getstk ssize s;
     if saddr = SYSERR32 then Some (None, s)
     else
       (let (pid, s) = newpid_vcreate s in
        if pid = SYSERR \<or> priority < 1 then Some (None, s)
        else
          (let bsReq = (if hsz = 0 then 0 else 1 + (hsz - 1) div 200) in
           if bsReq > free_bs_count s then do {
             (_, s) \<leftarrow> freestk saddr ssize s;
             Some (None, s)
           }
           else Some (Some (pid, saddr), s\<lparr>prcount := prcount s + 1\<rparr>)))
   }"

definition vcreate_fail :: "addr \<Rightarrow> u32 \<Rightarrow> ('a pgstate_scheme, pid32) prog" where
  "vcreate_fail saddr ssize =
     pbind (pcall (freestk saddr ssize)) (\<lambda>_.
     pbind (pmodify (\<lambda>s. s\<lparr>prcount := prcount s - 1\<rparr>)) (\<lambda>_.
     Ret SYSERR))"

definition vcreate :: "'a pgstate_scheme devtab_t \<Rightarrow> addr \<Rightarrow> addr \<Rightarrow> u32 \<Rightarrow> u32 \<Rightarrow> int \<Rightarrow> string \<Rightarrow> u32 list \<Rightarrow>
    ('a pgstate_scheme, pid32) prog" where
  "vcreate dt initret funcaddr ssize hsz priority name args =
     (let ssize = roundew (if ssize < MINSTK then MINSTK else ssize) in
      pbind (pcall (vcreate_start ssize hsz priority)) (\<lambda>r.
      case r of None \<Rightarrow> Ret SYSERR
      | Some (pid, saddr) \<Rightarrow>
          pbind (init_pd dt pid) (\<lambda>st.
          if st = SYSERR then vcreate_fail saddr ssize
          else
            pbind (bs_init dt pid hsz) (\<lambda>st.
            if st = SYSERR then vcreate_fail saddr ssize
            else
              pbind (pmodify (upd_proc pid (\<lambda>p. p\<lparr>hsize := hsz, vh := True, vmeminit := False\<rparr>))) (\<lambda>_.
              pbind (pmodify (\<lambda>s. upd_proc pid (init_procent priority saddr ssize name (getpid s) CONSOLE) s)) (\<lambda>_.
              pbind (plift (init_stack initret funcaddr args saddr)) (\<lambda>sp.
              pbind (pmodify (upd_proc pid (\<lambda>p. p\<lparr>prstkptr := sp\<rparr>))) (\<lambda>_.
              Ret pid))))))))"

end
