(* ===== verification/Ports.thy ===== *)
theory Ports
  imports Process
begin

section \<open>Ports\<close>

text \<open>
  system/ptinit.c, ptcreate.c, ptsend.c, ptrecv.c, ptclear.c, ptdelete.c, ptreset.c, ptcount.c: message
  queues with a bound, for any number of senders and receivers. A message node is two words of
  memory, the message and the pointer to the next node; unused nodes are linked from \<open>ptfree\<close>.
  A sender waits for a slot and a receiver for a message on the semaphores of the port; the
  sequence number tells either of them that the port was reset or deleted while it waited.
\<close>

abbreviation (input) NPORTS :: int where "NPORTS \<equiv> 30"
abbreviation (input) PT_FREE :: int where "PT_FREE \<equiv> 1"
abbreviation (input) PT_LIMBO :: int where "PT_LIMBO \<equiv> 2"
abbreviation (input) PT_ALLOC :: int where "PT_ALLOC \<equiv> 3"

record ptentry =
  ptssem :: sid32
  ptrsem :: sid32
  ptstate :: int
  ptmaxcnt :: u16
  ptseq :: int
  pthead :: addr
  pttail :: addr

record ptstate_t = pgstate +
  porttab :: "int \<Rightarrow> ptentry"
  ptfree :: addr
  ptnextid :: int

definition isbadport :: "int \<Rightarrow> bool" where
  "isbadport portid \<longleftrightarrow> portid < 0 \<or> portid \<ge> NPORTS"

definition ptmsg :: "'a mstate_scheme \<Rightarrow> addr \<Rightarrow> u32" where
  "ptmsg s a = words s a"

definition ptnext :: "'a mstate_scheme \<Rightarrow> addr \<Rightarrow> addr" where
  "ptnext s a = words s (a + 4)"

definition set_ptmsg :: "addr \<Rightarrow> u32 \<Rightarrow> 'a mstate_scheme \<Rightarrow> 'a mstate_scheme" where
  "set_ptmsg a v s = s\<lparr>words := (words s)(a := v)\<rparr>"

definition set_ptnext :: "addr \<Rightarrow> addr \<Rightarrow> 'a mstate_scheme \<Rightarrow> 'a mstate_scheme" where
  "set_ptnext a v s = s\<lparr>words := (words s)(a + 4 := v)\<rparr>"

definition upd_port :: "int \<Rightarrow> (ptentry \<Rightarrow> ptentry) \<Rightarrow> 'a ptstate_t_scheme \<Rightarrow> 'a ptstate_t_scheme" where
  "upd_port i f s = s\<lparr>porttab := (porttab s)(i := f (porttab s i))\<rparr>"

subsection \<open>Initialisation, creation, count\<close>

text \<open>The loop \<open>for (curr = next = ptfree; --maxmsgs > 0; curr = next) curr->ptnext = ++next;\<close>.\<close>

fun ptinit_link :: "nat \<Rightarrow> addr \<Rightarrow> 'a mstate_scheme \<Rightarrow> addr \<times> 'a mstate_scheme" where
  "ptinit_link 0 cur s = (cur, s)"
| "ptinit_link (Suc n) cur s = ptinit_link n (cur + 8) (set_ptnext cur (cur + 8) s)"

definition ptinit :: "int \<Rightarrow> 'a ptstate_t_scheme \<Rightarrow> (int \<times> 'a ptstate_t_scheme) option" where
  "ptinit maxmsgs s = do {
     (p, s) \<leftarrow> getmem (word_of_int maxmsgs * 8) s;
     let s = s\<lparr>ptfree := p\<rparr>;
     if p = SYSERR32 then None
     else do {
       let s = fold (\<lambda>i. upd_port (int i) (\<lambda>e. e\<lparr>ptstate := PT_FREE, ptseq := 0\<rparr>)) [0..<nat NPORTS] s;
       let s = s\<lparr>ptnextid := 0\<rparr>;
       let (last, s) = ptinit_link (nat (maxmsgs - 1)) (ptfree s) s;
       Some (OK, set_ptnext last 0 s)
     }
   }"

fun ptcreate_loop :: "int \<Rightarrow> nat \<Rightarrow> 'a ptstate_t_scheme \<Rightarrow> int \<times> 'a ptstate_t_scheme" where
  "ptcreate_loop count 0 s = (SYSERR, s)"
| "ptcreate_loop count (Suc i) s =
     (let ptnum = ptnextid s;
          s = s\<lparr>ptnextid := ptnextid s + 1\<rparr>;
          s = (if ptnextid s \<ge> NPORTS then s\<lparr>ptnextid := 0\<rparr> else s) in
      if ptstate (porttab s ptnum) = PT_FREE then
        (let s = upd_port ptnum (\<lambda>e. e\<lparr>ptstate := PT_ALLOC\<rparr>) s;
             (sem, s) = semcreate count s;
             s = upd_port ptnum (\<lambda>e. e\<lparr>ptssem := sem\<rparr>) s;
             (sem, s) = semcreate 0 s;
             s = upd_port ptnum (\<lambda>e. e\<lparr>ptrsem := sem\<rparr>) s
         in (ptnum, upd_port ptnum (\<lambda>e. e\<lparr>pttail := 0, pthead := 0, ptseq := ptseq e + 1,
               ptmaxcnt := word_of_int count\<rparr>) s))
      else ptcreate_loop count i s)"

definition ptcreate :: "int \<Rightarrow> 'a ptstate_t_scheme \<Rightarrow> int \<times> 'a ptstate_t_scheme" where
  "ptcreate count s = (if count < 0 then (SYSERR, s) else ptcreate_loop count (nat NPORTS) s)"

definition ptcount :: "int \<Rightarrow> 'a ptstate_t_scheme \<Rightarrow> int" where
  "ptcount portid s =
     (if isbadport portid \<or> ptstate (porttab s portid) \<noteq> PT_ALLOC then SYSERR
      else
        (let count = semcount (ptrsem (porttab s portid)) s in
         if count \<ge> 0 then
           (let sndcnt = semcount (ptssem (porttab s portid)) s
            in if sndcnt < 0 then count + - sndcnt else count)
         else count))"

subsection \<open>Sending and receiving\<close>

text \<open>The queue operations between the semaphore calls.\<close>

definition port_enqueue :: "int \<Rightarrow> u32 \<Rightarrow> 'a ptstate_t_scheme \<Rightarrow> 'a ptstate_t_scheme" where
  "port_enqueue portid msg s =
     (let msgnode = ptfree s;
          s = s\<lparr>ptfree := ptnext s msgnode\<rparr>;
          s = set_ptnext msgnode 0 s;
          s = set_ptmsg msgnode msg s;
          tailnode = pttail (porttab s portid) in
      if tailnode = 0 then upd_port portid (\<lambda>e. e\<lparr>pttail := msgnode, pthead := msgnode\<rparr>) s
      else
        (let s = set_ptnext tailnode msgnode s
         in upd_port portid (\<lambda>e. e\<lparr>pttail := msgnode\<rparr>) s))"

definition port_dequeue :: "int \<Rightarrow> 'a ptstate_t_scheme \<Rightarrow> u32 \<times> 'a ptstate_t_scheme" where
  "port_dequeue portid s =
     (let msgnode = pthead (porttab s portid);
          msg = ptmsg s msgnode;
          s = (if pthead (porttab s portid) = pttail (porttab s portid)
               then upd_port portid (\<lambda>e. e\<lparr>pthead := 0, pttail := 0\<rparr>) s
               else upd_port portid (\<lambda>e. e\<lparr>pthead := ptnext s msgnode\<rparr>) s);
          s = set_ptnext msgnode (ptfree s) s;
          s = s\<lparr>ptfree := msgnode\<rparr>
      in (msg, s))"

definition ptsend :: "int \<Rightarrow> u32 \<Rightarrow> ('a ptstate_t_scheme, int) prog" where
  "ptsend portid msg =
     pbind (pgets (\<lambda>s. isbadport portid \<or> ptstate (porttab s portid) \<noteq> PT_ALLOC)) (\<lambda>bad.
     if bad then Ret SYSERR
     else
       pbind (pgets (\<lambda>s. ptseq (porttab s portid))) (\<lambda>seq.
       pbind (pgets (\<lambda>s. ptssem (porttab s portid))) (\<lambda>sem.
       pbind (pcall (wait sem)) (\<lambda>r.
       pbind (pgets (\<lambda>s. r = SYSERR \<or> ptstate (porttab s portid) \<noteq> PT_ALLOC \<or> ptseq (porttab s portid) \<noteq> seq)) (\<lambda>gone.
       if gone then Ret SYSERR
       else
         pbind (pgets ptfree) (\<lambda>f.
         if f = 0 then panic
         else
           pbind (pmodify (port_enqueue portid msg)) (\<lambda>_.
           pbind (pgets (\<lambda>s. ptrsem (porttab s portid))) (\<lambda>sem.
           pbind (pcall (signal sem)) (\<lambda>_.
           Ret OK)))))))))"

definition ptrecv :: "int \<Rightarrow> ('a ptstate_t_scheme, u32) prog" where
  "ptrecv portid =
     pbind (pgets (\<lambda>s. isbadport portid \<or> ptstate (porttab s portid) \<noteq> PT_ALLOC)) (\<lambda>bad.
     if bad then Ret SYSERR32
     else
       pbind (pgets (\<lambda>s. ptseq (porttab s portid))) (\<lambda>seq.
       pbind (pgets (\<lambda>s. ptrsem (porttab s portid))) (\<lambda>sem.
       pbind (pcall (wait sem)) (\<lambda>r.
       pbind (pgets (\<lambda>s. r = SYSERR \<or> ptstate (porttab s portid) \<noteq> PT_ALLOC \<or> ptseq (porttab s portid) \<noteq> seq)) (\<lambda>gone.
       if gone then Ret SYSERR32
       else
         pbind (plift (port_dequeue portid)) (\<lambda>msg.
         pbind (pgets (\<lambda>s. ptssem (porttab s portid))) (\<lambda>sem.
         pbind (pcall (signal sem)) (\<lambda>_.
         Ret msg))))))))"

subsection \<open>Reset and deletion\<close>

text \<open>The walk over the message list, calling \<open>dispose\<close> on each message. Fewer than \<open>2 ^ 29\<close> nodes of
  8 bytes fit in memory, so a walk that is longer goes round in circles for ever.\<close>

fun ptclear_walk :: "(u32 \<Rightarrow> ('a ptstate_t_scheme, int) prog) \<Rightarrow> nat \<Rightarrow> addr \<Rightarrow> ('a ptstate_t_scheme, unit) prog" where
  "ptclear_walk dispose 0 walk = panic"
| "ptclear_walk dispose (Suc fuel) walk =
     (if walk = 0 then Ret ()
      else
        pbind (pgets (\<lambda>s. ptmsg s walk)) (\<lambda>msg.
        pbind (dispose msg) (\<lambda>_.
        pbind (pgets (\<lambda>s. ptnext s walk)) (\<lambda>next.
        ptclear_walk dispose fuel next))))"

definition ptclear :: "int \<Rightarrow> int \<Rightarrow> (u32 \<Rightarrow> ('a ptstate_t_scheme, int) prog) \<Rightarrow> ('a ptstate_t_scheme, unit) prog" where
  "ptclear portid newstate dispose =
     pbind (pmodify (upd_port portid (\<lambda>e. e\<lparr>ptstate := PT_LIMBO\<rparr>))) (\<lambda>_.
     pbind (pmodify (upd_port portid (\<lambda>e. e\<lparr>ptseq := ptseq e + 1\<rparr>))) (\<lambda>_.
     pbind (pgets (\<lambda>s. pthead (porttab s portid))) (\<lambda>walk.
     pbind (if walk \<noteq> 0 then
              pbind (ptclear_walk dispose (2 ^ 29) walk) (\<lambda>_.
              pbind (pmodify (\<lambda>s. set_ptnext (pttail (porttab s portid)) (ptfree s) s)) (\<lambda>_.
              pmodify (\<lambda>s. s\<lparr>ptfree := pthead (porttab s portid)\<rparr>)))
            else Ret ()) (\<lambda>_.
     pbind (if newstate = PT_ALLOC then
              pbind (pmodify (upd_port portid (\<lambda>e. e\<lparr>pttail := 0, pthead := 0\<rparr>))) (\<lambda>_.
              pbind (pcall (\<lambda>s. semreset (ptssem (porttab s portid)) (uint (ptmaxcnt (porttab s portid))) s)) (\<lambda>_.
              pbind (pcall (\<lambda>s. semreset (ptrsem (porttab s portid)) 0 s)) (\<lambda>_.
              Ret ())))
            else
              pbind (pcall (\<lambda>s. semdelete (ptssem (porttab s portid)) s)) (\<lambda>_.
              pbind (pcall (\<lambda>s. semdelete (ptrsem (porttab s portid)) s)) (\<lambda>_.
              Ret ()))) (\<lambda>_.
     pmodify (upd_port portid (\<lambda>e. e\<lparr>ptstate := newstate\<rparr>)))))))"

definition ptdelete :: "int \<Rightarrow> (u32 \<Rightarrow> ('a ptstate_t_scheme, int) prog) \<Rightarrow> ('a ptstate_t_scheme, int) prog" where
  "ptdelete portid disp =
     pbind (pgets (\<lambda>s. isbadport portid \<or> ptstate (porttab s portid) \<noteq> PT_ALLOC)) (\<lambda>bad.
     if bad then Ret SYSERR
     else
       pbind (ptclear portid PT_FREE disp) (\<lambda>_.
       pbind (pmodify (\<lambda>s. s\<lparr>ptnextid := portid\<rparr>)) (\<lambda>_.
       Ret OK)))"

definition ptreset :: "int \<Rightarrow> (u32 \<Rightarrow> ('a ptstate_t_scheme, int) prog) \<Rightarrow> ('a ptstate_t_scheme, int) prog" where
  "ptreset portid disp =
     pbind (pgets (\<lambda>s. isbadport portid \<or> ptstate (porttab s portid) \<noteq> PT_ALLOC)) (\<lambda>bad.
     if bad then Ret SYSERR
     else
       pbind (ptclear portid PT_ALLOC disp) (\<lambda>_.
       Ret OK))"

end
