(* ===== verification/Buffers.thy ===== *)
theory Buffers
  imports Ports
begin

section \<open>Buffer pools and memory marks\<close>

text \<open>
  system/bufinit.c, mkbufpool.c, getbuf.c, freebuf.c and system/mark.c. A free buffer of a pool is
  linked through its first word (\<open>bpnext\<close>); a buffer that was handed out keeps its pool id in
  the same word, just below the address the client gets.
\<close>

abbreviation (input) NBPOOLS :: int where "NBPOOLS \<equiv> 20"
abbreviation (input) BP_MAXB :: int where "BP_MAXB \<equiv> 8192"
abbreviation (input) BP_MINB :: int where "BP_MINB \<equiv> 8"
abbreviation (input) BP_MAXN :: int where "BP_MAXN \<equiv> 2048"
abbreviation (input) MAXMARK :: int where "MAXMARK \<equiv> 20"

record bpentry =
  bpnext :: addr
  bpsem :: sid32
  bpsize :: u32

record bufstate = ptstate_t +
  buftab :: "int \<Rightarrow> bpentry"
  nbpools :: int
  marks :: "int \<Rightarrow> addr"
  nmarks :: int
  mkmutex :: sid32

definition upd_pool :: "int \<Rightarrow> (bpentry \<Rightarrow> bpentry) \<Rightarrow> 'a bufstate_scheme \<Rightarrow> 'a bufstate_scheme" where
  "upd_pool i f s = s\<lparr>buftab := (buftab s)(i := f (buftab s i))\<rparr>"

definition set_word :: "addr \<Rightarrow> u32 \<Rightarrow> 'a mstate_scheme \<Rightarrow> 'a mstate_scheme" where
  "set_word a v s = s\<lparr>words := (words s)(a := v)\<rparr>"

definition bufinit :: "'a bufstate_scheme \<Rightarrow> int \<times> 'a bufstate_scheme" where
  "bufinit s = (OK, s\<lparr>nbpools := 0\<rparr>)"

text \<open>The loop that links the buffers; the arguments are the number of links, the size of a buffer
  with its header, and the address. The last buffer ends the list.\<close>

fun link_bufs :: "nat \<Rightarrow> u32 \<Rightarrow> addr \<Rightarrow> 'a mstate_scheme \<Rightarrow> 'a mstate_scheme" where
  "link_bufs 0 bufsiz buf s = set_word buf 0 s"
| "link_bufs (Suc n) bufsiz buf s = link_bufs n bufsiz (buf + bufsiz) (set_word buf (buf + bufsiz) s)"

definition mkbufpool :: "int \<Rightarrow> int \<Rightarrow> 'a bufstate_scheme \<Rightarrow> (int \<times> 'a bufstate_scheme) option" where
  "mkbufpool bufsiz numbufs s =
     (if bufsiz < BP_MINB \<or> bufsiz > BP_MAXB \<or> numbufs < 1 \<or> numbufs > BP_MAXN \<or> nbpools s \<ge> NBPOOLS
      then Some (SYSERR, s)
      else do {
        let bufsiz = (bufsiz + 3) div 4 * 4;
        (buf, s) \<leftarrow> getmem (word_of_int (numbufs * (bufsiz + 4))) s;
        if buf = SYSERR32 then Some (SYSERR, s)
        else
          (let poolid = nbpools s;
               s = s\<lparr>nbpools := nbpools s + 1\<rparr>;
               s = upd_pool poolid (\<lambda>e. e\<lparr>bpnext := buf\<rparr>) s;
               s = upd_pool poolid (\<lambda>e. e\<lparr>bpsize := word_of_int bufsiz\<rparr>) s;
               (sem, s) = semcreate numbufs s;
               s = upd_pool poolid (\<lambda>e. e\<lparr>bpsem := sem\<rparr>) s in
           if sem = SYSERR then Some (SYSERR, s\<lparr>nbpools := nbpools s - 1\<rparr>)
           else Some (poolid, link_bufs (nat (numbufs - 1)) (word_of_int (bufsiz + 4)) buf s))
      })"

text \<open>Taking the first buffer off the list of the pool, after the wait.\<close>

definition take_buf :: "int \<Rightarrow> 'a bufstate_scheme \<Rightarrow> addr \<times> 'a bufstate_scheme" where
  "take_buf poolid s =
     (let bufptr = bpnext (buftab s poolid);
          s = upd_pool poolid (\<lambda>e. e\<lparr>bpnext := words s bufptr\<rparr>) s;
          s = set_word bufptr (word_of_int poolid) s
      in (4 + bufptr, s))"

definition getbuf :: "int \<Rightarrow> ('a bufstate_scheme, addr) prog" where
  "getbuf poolid =
     pbind (pgets (\<lambda>s. poolid < 0 \<or> poolid \<ge> nbpools s)) (\<lambda>bad.
     if bad then Ret SYSERR32
     else
       pbind (pgets (\<lambda>s. bpsem (buftab s poolid))) (\<lambda>sem.
       pbind (pcall (wait sem)) (\<lambda>_.
       plift (take_buf poolid))))"

definition put_buf :: "int \<Rightarrow> addr \<Rightarrow> 'a bufstate_scheme \<Rightarrow> 'a bufstate_scheme" where
  "put_buf poolid bufaddr s =
     (let s = set_word bufaddr (bpnext (buftab s poolid)) s
      in upd_pool poolid (\<lambda>e. e\<lparr>bpnext := bufaddr\<rparr>) s)"

definition freebuf :: "addr \<Rightarrow> ('a bufstate_scheme, int) prog" where
  "freebuf bufaddr =
     (let bufaddr = bufaddr - 4 in
      pbind (pgets (\<lambda>s. sint (words s bufaddr))) (\<lambda>poolid.
      pbind (pgets (\<lambda>s. poolid < 0 \<or> poolid \<ge> nbpools s)) (\<lambda>bad.
      if bad then Ret SYSERR
      else
        pbind (pmodify (put_buf poolid bufaddr)) (\<lambda>_.
        pbind (pgets (\<lambda>s. bpsem (buftab s poolid))) (\<lambda>sem.
        pbind (pcall (signal sem)) (\<lambda>_.
        Ret OK))))))"

subsection \<open>Memory marks\<close>

definition markinit :: "'a bufstate_scheme \<Rightarrow> 'a bufstate_scheme" where
  "markinit s = (let s = s\<lparr>nmarks := 0\<rparr>; (sem, s) = semcreate 1 s in s\<lparr>mkmutex := sem\<rparr>)"

definition notmarked :: "'a bufstate_scheme \<Rightarrow> addr \<Rightarrow> bool" where
  "notmarked s L \<longleftrightarrow> sint (words s L) < 0 \<or> sint (words s L) \<ge> nmarks s \<or> marks s (sint (words s L)) \<noteq> L"

definition set_mark :: "addr \<Rightarrow> 'a bufstate_scheme \<Rightarrow> 'a bufstate_scheme" where
  "set_mark loc s =
     (let n = nmarks s;
          s = s\<lparr>nmarks := nmarks s + 1\<rparr>;
          s = set_word loc (word_of_int n) s
      in s\<lparr>marks := (marks s)(n := loc)\<rparr>)"

definition mark :: "addr \<Rightarrow> ('a bufstate_scheme, int) prog" where
  "mark loc =
     pbind (pgets (\<lambda>s. sint (words s loc) \<ge> 0 \<and> sint (words s loc) < nmarks s \<and>
        marks s (sint (words s loc)) = loc)) (\<lambda>already.
     if already then Ret OK
     else
       pbind (pgets (\<lambda>s. nmarks s \<ge> MAXMARK)) (\<lambda>full.
       if full then Ret SYSERR
       else
         pbind (pgets mkmutex) (\<lambda>sem.
         pbind (pcall (wait sem)) (\<lambda>_.
         pbind (pmodify (set_mark loc)) (\<lambda>_.
         pbind (pcall (signal sem)) (\<lambda>_.
         Ret OK))))))"

end
