(* ===== verification/Init.thy ===== *)
theory Init
  imports Paging Buffers Kernel_Boot
begin

section \<open>System initialisation\<close>

text \<open>
  \<open>sysinit\<close> and \<open>initialize_paging\<close> of system/initialize.c for the QEMU build. Platform set-up
  (\<open>platinit\<close>, \<open>initevec\<close>), the vector of the page fault handler and the control registers are
  hardware and have no counterpart, apart from \<open>cr3\<close>. The initialisation of the console is a
  driver routine of the device table.
\<close>

text \<open>The part before the devices; \<open>end_addr\<close> is the end of the kernel image.\<close>

definition sysinit_data :: "addr \<Rightarrow> 'a bufstate_scheme \<Rightarrow> 'a bufstate_scheme option" where
  "sysinit_data end_addr s = do {
     let s = meminit end_addr s;
     let s = s\<lparr>prcount := 1\<rparr>;
     let s = s\<lparr>ndefers := 0\<rparr>;
     let s = sysinit_procs s;
     (stk, s) \<leftarrow> getstk NULLSTK s;
     let s = sysinit_null stk s;
     let s = sysinit_sems s;
     let (_, s) = bufinit s;
     let s = sysinit_readylist s;
     Some (clkinit s)
   }"

definition sysinit :: "'a bufstate_scheme devtab_t \<Rightarrow> addr \<Rightarrow> ('a bufstate_scheme, unit) prog" where
  "sysinit dt end_addr =
     pbind (pcall (\<lambda>s. map_option (Pair ()) (sysinit_data end_addr s))) (\<lambda>_.
     pbind (init_dev dt QEMUCONSOLE) (\<lambda>_.
     pbind (init_dev dt QEMURDISK) (\<lambda>_.
     pbind (pmodify (\<lambda>s. s\<lparr>ps_active := False\<rparr>)) (\<lambda>_.
     pbind (plift (semcreate 1)) (\<lambda>sem.
     pmodify (\<lambda>s. s\<lparr>bs_init_sem := sem\<rparr>))))))"

definition initialize_paging :: "'a pgstate_scheme devtab_t \<Rightarrow> ('a pgstate_scheme, unit) prog" where
  "initialize_paging dt =
     pbind (pmodify (\<lambda>s. s\<lparr>currpolicy := FIFO\<rparr>)) (\<lambda>_.
     pbind (pmodify (\<lambda>s. s\<lparr>flistHead := EMPTY32\<rparr>)) (\<lambda>_.
     pbind (pmodify (\<lambda>s. s\<lparr>flistTail := EMPTY32\<rparr>)) (\<lambda>_.
     pbind (pmodify (\<lambda>s. s\<lparr>pfc := 0\<rparr>)) (\<lambda>_.
     pbind (plift (semcreate 1)) (\<lambda>sem.
     pbind (pmodify (\<lambda>s. s\<lparr>pf_sem := sem\<rparr>)) (\<lambda>_.
     pbind (pmodify (\<lambda>s. s\<lparr>free_bs_count := word_of_int MAX_BS_ENTRIES\<rparr>)) (\<lambda>_.
     pbind (pmodify init_ipt) (\<lambda>_.
     pbind (init_gpt dt) (\<lambda>_.
     pbind (init_pd dt NULLPROC) (\<lambda>_.
     pbind (pmodify (\<lambda>s. s\<lparr>gpd := prpd (proctab s NULLPROC)\<rparr>)) (\<lambda>_.
     pmodify (\<lambda>s. s\<lparr>cr3 := prpd (proctab s NULLPROC)\<rparr>))))))))))))"

end
