(* ===== verification/Table_Search.thy ===== *)
theory Table_Search
  imports Kernel_Machine Process
begin

section \<open>Free entries of the process table and the semaphore table\<close>

text \<open>
  \<open>newpid\<close> (system/create.c, system/vcreate.c) and \<open>newsem\<close> (system/semcreate.c) search their table once
  round, from where the last search stopped. They find a free entry whenever there is one.
\<close>

lemma cyclic_cover_int:
  assumes "0 \<le> x" and "x < (N :: int)"
  shows "\<exists>i<nat N. (n + int i) mod N = x"
proof (intro exI conjI)
  let ?i = "nat ((x - n) mod N)"
  have i: "int ?i = (x - n) mod N" using assms by simp
  show "?i < nat N" using assms by (simp add: nat_less_eq_zless)
  have "(n + int ?i) mod N = x mod N" unfolding i by (simp add: mod_simps)
  then show "(n + int ?i) mod N = x" using assms by simp
qed

subsection \<open>Process ids\<close>

lemma newpid_loop_spec:
  assumes "newpid_loop k n pt = (p, m)"
  shows "p = SYSERR \<and> (\<forall>i<k. prstate (pt ((n + int i) mod NPROC)) \<noteq> PR_FREE) \<or>
    0 \<le> p \<and> p < NPROC \<and> prstate (pt p) = PR_FREE"
  using assms
proof (induction k arbitrary: n)
  case (Suc k)
  show ?case
  proof (cases "prstate (pt (n mod NPROC)) = PR_FREE")
    case True
    then show ?thesis using Suc.prems by (auto simp: Let_def)
  next
    case False
    have "prstate (pt ((n + int i) mod NPROC)) \<noteq> PR_FREE"
      if "\<forall>j<k. prstate (pt ((n mod NPROC + 1 + int j) mod NPROC)) \<noteq> PR_FREE" "i < Suc k" for i
    proof (cases i)
      case (Suc j)
      have "(n mod NPROC + 1 + int j) mod NPROC = (n + int i) mod NPROC"
        using mod_add_left_eq [of n NPROC "1 + int j"] unfolding Suc by (simp add: ac_simps)
      then show ?thesis using that Suc by auto
    qed (use False in simp)
    then show ?thesis using Suc.IH [of "n mod NPROC + 1"] Suc.prems False by (auto simp: Let_def)
  qed
qed simp

lemma newpid_free:
  assumes "newpid_loop (nat NPROC) n pt = (p, m)"
  shows "(if \<exists>q. 0 \<le> q \<and> q < NPROC \<and> prstate (pt q) = PR_FREE
          then 0 \<le> p \<and> p < NPROC \<and> prstate (pt p) = PR_FREE else p = SYSERR)"
proof (cases "\<exists>q. 0 \<le> q \<and> q < NPROC \<and> prstate (pt q) = PR_FREE")
  case True
  then obtain q where q: "0 \<le> q" "q < NPROC" "prstate (pt q) = PR_FREE" by blast
  obtain i where "i < nat NPROC" "(n + int i) mod NPROC = q" using cyclic_cover_int [OF q(1,2)] by blast
  then show ?thesis using newpid_loop_spec [OF assms] q True by metis
next
  case False
  then show ?thesis using newpid_loop_spec [OF assms] by auto
qed

subsection \<open>Semaphores\<close>

lemma newsem_loop_spec:
  assumes "0 \<le> nextsem s" and "nextsem s < NSEM"
  shows "(\<exists>n. newsem_loop k s = (SYSERR, s\<lparr>nextsem := n\<rparr>) \<and> (\<forall>i<k. sstate (semtab s ((nextsem s + int i) mod NSEM)) \<noteq> S_FREE)) \<or>
   (\<exists>sem n. newsem_loop k s = (sem, upd_sem sem (\<lambda>e. e\<lparr>sstate := S_USED\<rparr>) (s\<lparr>nextsem := n\<rparr>)) \<and>
      0 \<le> sem \<and> sem < NSEM \<and> sstate (semtab s sem) = S_FREE)"
  using assms
proof (induction k arbitrary: s)
  case 0
  have "newsem_loop 0 s = (SYSERR, s\<lparr>nextsem := nextsem s\<rparr>)" by simp
  then show ?case by blast
next
  case (Suc k)
  define n where "n = (if nextsem s + 1 \<ge> NSEM then 0 else nextsem s + 1)"
  have n: "n = (nextsem s + 1) mod NSEM" "0 \<le> n" "n < NSEM"
    using Suc.prems by (cases "nextsem s + 1 = NSEM"; simp add: n_def)+
  have step: "newsem_loop (Suc k) s = (if sstate (semtab s (nextsem s)) = S_FREE
       then (nextsem s, upd_sem (nextsem s) (\<lambda>e. e\<lparr>sstate := S_USED\<rparr>) (s\<lparr>nextsem := n\<rparr>))
       else newsem_loop k (s\<lparr>nextsem := n\<rparr>))" by (simp add: Let_def n_def)
  show ?case
  proof (cases "sstate (semtab s (nextsem s)) = S_FREE")
    case True
    then show ?thesis using step Suc.prems by auto
  next
    case False
    have "sstate (semtab s ((nextsem s + int i) mod NSEM)) \<noteq> S_FREE"
      if "\<forall>j<k. sstate (semtab s ((n + int j) mod NSEM)) \<noteq> S_FREE" "i < Suc k" for i
    proof (cases i)
      case 0
      then show ?thesis using False Suc.prems by simp
    next
      case (Suc j)
      have "(n + int j) mod NSEM = (nextsem s + int i) mod NSEM"
        using mod_add_left_eq [of "nextsem s + 1" NSEM "int j"] unfolding Suc n(1) by (simp add: ac_simps)
      then show ?thesis using that Suc by auto
    qed
    then show ?thesis using Suc.IH [of "s\<lparr>nextsem := n\<rparr>"] n(2,3) step False by auto
  qed
qed

lemma semcreate_succeeds:
  assumes n: "0 \<le> nextsem s" "nextsem s < NSEM" and x: "0 \<le> x" "x < NSEM" "sstate (semtab s x) = S_FREE" and c: "0 \<le> count"
  obtains sem m where "semcreate count s = (sem, upd_sem sem (\<lambda>e. e\<lparr>sstate := S_USED, scount := count\<rparr>) (s\<lparr>nextsem := m\<rparr>))"
    "sstate (semtab s sem) = S_FREE" "0 \<le> sem" "sem < NSEM"
proof -
  obtain i where "i < nat NSEM" "(nextsem s + int i) mod NSEM = x" using cyclic_cover_int [OF x(1,2)] by blast
  then obtain sem m where sem: "newsem s = (sem, upd_sem sem (\<lambda>e. e\<lparr>sstate := S_USED\<rparr>) (s\<lparr>nextsem := m\<rparr>))"
    "0 \<le> sem" "sem < NSEM" "sstate (semtab s sem) = S_FREE"
    using newsem_loop_spec [OF n, of "nat NSEM"] x(3) unfolding newsem_def by auto
  then have "semcreate count s = (sem, upd_sem sem (\<lambda>e. e\<lparr>sstate := S_USED, scount := count\<rparr>) (s\<lparr>nextsem := m\<rparr>))"
    using c by (simp add: semcreate_def upd_sem_twice)
  then show thesis using that sem by blast
qed

end
