(* ===== verification/Locks.thy ===== *)
theory Locks
  imports Programs Semaphores
begin

section \<open>Semaphores that are free\<close>

text \<open>
  The paging system guards its tables by semaphores with count one. A program that finds its
  semaphore free takes it and gives it back without giving the processor away.
\<close>

definition sem_free :: "'a kstate_scheme \<Rightarrow> sid32 \<Rightarrow> bool" where
  "sem_free s sem \<longleftrightarrow> 0 \<le> sem \<and> sem < NSEM \<and> sstate (semtab s sem) = S_USED \<and> 0 < scount (semtab s sem)"

abbreviation lock :: "sid32 \<Rightarrow> 'a kstate_scheme \<Rightarrow> 'a kstate_scheme" where
  "lock sem \<equiv> upd_sem sem (\<lambda>e. e\<lparr>scount := scount e - 1\<rparr>)"

abbreviation unlock :: "sid32 \<Rightarrow> 'a kstate_scheme \<Rightarrow> 'a kstate_scheme" where
  "unlock sem \<equiv> upd_sem sem (\<lambda>e. e\<lparr>scount := scount e + 1\<rparr>)"

lemma runs_wait: "sem_free s sem \<Longrightarrow> runs (pcall (wait sem)) s OK (lock sem s)"
  by (rule runs_call) (auto simp: sem_free_def wait_def isbadsem_def Let_def)

lemma runs_signal:
  assumes "sem_free t sem" and "semtab s = semtab (lock sem t)"
  shows "runs (pcall (signal sem)) s OK (unlock sem s)"
  by (rule runs_call) (use assms in \<open>auto simp: sem_free_def signal_def isbadsem_def Let_def\<close>)

lemma lock_unlock [simp]: "unlock sem (lock sem s) = s"
  by (simp add: upd_sem_def)

end
