(* ===== verification/Paging_Boot.thy ===== *)
theory Paging_Boot
  imports Translation Init Table_Search Locks
begin

section \<open>Allocation of frames and the initial page tables\<close>

text \<open>
  \<open>getNewFrame\<close> finds an unused frame whenever there is one, without giving the processor away, and
  changes nothing but the inverted page table. With it, \<open>initialize_paging\<close> runs to its end and
  leaves page tables that map the first 16 MB and the device memory to themselves.
\<close>

subsection \<open>Unused frames\<close>

lemma fifo_search_Some: "fifo_search k nf t = (Some fr, n) \<Longrightarrow> fr < NFRAMES \<and> fstatus (t fr) = NOT_USED"
proof (induction k arbitrary: nf)
  case (Suc k)
  have "unat (nf mod 28) < 28" by (simp add: unat_mod)
  then have "nf mod 28 < 28" by (simp add: word_less_nat_alt)
  then show ?case using Suc by (auto simp: Let_def split: if_splits)
qed simp

lemma fifo_search_None:
  assumes "fifo_search k nf t = (None, n)" and "i < k" and "unat fr = (unat nf + i) mod 28"
  shows "fstatus (t fr) \<noteq> NOT_USED"
  using assms
proof (induction k arbitrary: nf i)
  case (Suc k)
  have u: "unat (nf mod 28) = unat nf mod 28" by (simp add: unat_mod)
  have l: "unat nf mod 28 < 28" by simp
  have n1: "unat (nf mod 28 + 1) = unat nf mod 28 + 1" using u l by (subst unat_add_lt) simp_all
  have st: "fstatus (t (nf mod 28)) \<noteq> NOT_USED" "fifo_search k (nf mod 28 + 1) t = (None, n)"
    using Suc.prems(1) by (auto simp: Let_def split: if_splits)
  show ?case
  proof (cases i)
    case 0
    then have "fr = nf mod 28" using Suc.prems(3) u by (simp add: word_unat_eq_iff)
    then show ?thesis using st(1) by simp
  next
    case (Suc j)
    have "unat fr = (unat (nf mod 28 + 1) + j) mod 28" unfolding n1 Suc.prems(3) Suc using mod_add_left_eq [of "unat nf" 28 "Suc j"] by simp
    then show ?thesis using Suc.IH [OF st(2)] Suc.prems(2) Suc by simp
  qed
qed simp

lemma fifo_search_finds:
  assumes "fr < NFRAMES" and "fstatus (t fr) = NOT_USED"
  obtains fr' n where "fifo_search 28 nf t = (Some fr', n)" "fr' < NFRAMES" "fstatus (t fr') = NOT_USED"
proof -
  have "unat fr < 28" using assms(1) by (simp add: word_less_nat_alt)
  then obtain i where i: "i < 28" "(unat nf + i) mod 28 = unat fr" using cyclic_cover by blast
  obtain r n where r: "fifo_search 28 nf t = (r, n)" by (cases "fifo_search 28 nf t")
  then have "r \<noteq> None" using fifo_search_None [of 28 nf t n i fr] i assms(2) by auto
  then obtain fr' where "r = Some fr'" by blast
  then show thesis using that fifo_search_Some r by blast
qed

definition used_frames :: "'a pgstate_scheme \<Rightarrow> u32 set" where
  "used_frames s = {fr. fr < NFRAMES \<and> fstatus (ipt s fr) \<noteq> NOT_USED}"

lemma frame_range: "{fr :: u32. fr < NFRAMES} = of_nat ` {0..<28}"
proof (intro equalityI subsetI)
  fix fr :: u32 assume "fr \<in> {fr. fr < NFRAMES}"
  then have "unat fr \<in> {0..<28}" "fr = of_nat (unat fr)" by (simp_all add: word_less_nat_alt)
  then show "fr \<in> of_nat ` {0..<28}" by blast
qed (auto simp: word_less_nat_alt unat_of_nat take_bit_nat_eq_self)

lemma frame_count: "card {fr :: u32. fr < NFRAMES} = 28" "finite {fr :: u32. fr < NFRAMES}"
proof -
  have "inj_on (of_nat :: nat \<Rightarrow> u32) {0..<28}"
    by (rule inj_onI) (auto simp: word_unat_eq_iff unat_of_nat take_bit_nat_eq_self)
  then show "card {fr :: u32. fr < NFRAMES} = 28" unfolding frame_range by (simp add: card_image)
  show "finite {fr :: u32. fr < NFRAMES}" unfolding frame_range by simp
qed

lemma free_frame:
  assumes "card (used_frames s) < 28"
  shows "\<exists>fr. fr < NFRAMES \<and> fstatus (ipt s fr) = NOT_USED"
proof (rule ccontr)
  assume "\<not> ?thesis"
  then have "used_frames s = {fr. fr < NFRAMES}" by (auto simp: used_frames_def)
  then show False using assms frame_count(1) by simp
qed

text \<open>What an operation on the inverted page table leaves alone.\<close>

definition ipt_only :: "'a pgstate_scheme \<Rightarrow> 'a pgstate_scheme \<Rightarrow> bool" where
  "ipt_only s s' \<longleftrightarrow> s' = s\<lparr>ipt := ipt s', flistHead := flistHead s', flistTail := flistTail s', nextframe_fifo := nextframe_fifo s'\<rparr>"

lemma ipt_onlyD:
  assumes "ipt_only s s'"
  shows "words s' = words s" "proctab s' = proctab s" "currpid s' = currpid s" "semtab s' = semtab s" "pf_sem s' = pf_sem s"
    "gpt s' = gpt s" "dpt s' = dpt s" "currpolicy s' = currpolicy s" "pte s' = pte s" "pde s' = pde s"
proof -
  have e: "s' = s\<lparr>ipt := ipt s', flistHead := flistHead s', flistTail := flistTail s', nextframe_fifo := nextframe_fifo s'\<rparr>"
    using assms by (simp add: ipt_only_def)
  show w: "words s' = words s" "proctab s' = proctab s" "currpid s' = currpid s" "semtab s' = semtab s" "pf_sem s' = pf_sem s"
    "gpt s' = gpt s" "dpt s' = dpt s" "currpolicy s' = currpolicy s" by (subst e, simp)+
  show "pte s' = pte s" "pde s' = pde s" using w(1) by (simp_all add: pte_def pde_def fun_eq_iff)
qed

lemma init_frame_only: "ipt_only s (init_frame fr type pid vpn (s\<lparr>nextframe_fifo := n\<rparr>))"
  by (simp add: ipt_only_def init_frame_def init_frame_FIFO_def init_frame_GCA_def upd_ipt_def Let_def)

lemma frames_ok_nextframe [simp]: "frames_ok (s\<lparr>nextframe_fifo := n\<rparr>) = frames_ok s"
  by (simp add: frames_ok_def fqueue_def)

lemma getNewFrame_free:
  assumes F: "frames_ok s" and fr: "fr < NFRAMES" "fstatus (ipt s fr) = NOT_USED"
  obtains fr' s' where "runs (getNewFrame dt type pid vpn) s (frameNum2ptr fr') s'" "fr' < NFRAMES"
    "fstatus (ipt s fr') = NOT_USED" "ipt_only s s'" "frames_ok s'" "fstatus (ipt s' fr') = type" "fpid (ipt s' fr') = pid"
    "fvpn (ipt s' fr') = vpn" "\<And>x. x \<noteq> fr' \<Longrightarrow> fstatus (ipt s' x) = fstatus (ipt s x)"
proof -
  obtain fr' n where n: "fifo_search 28 (nextframe_fifo s) (ipt s) = (Some fr', n)" "fr' < NFRAMES"
    "fstatus (ipt s fr') = NOT_USED" using fifo_search_finds [of fr "ipt s"] fr by blast
  let ?s1 = "s\<lparr>nextframe_fifo := n\<rparr>" and ?s' = "init_frame fr' type pid vpn (s\<lparr>nextframe_fifo := n\<rparr>)"
  have pol: "currpolicy s = FIFO" using F by (simp add: frames_ok_def)
  note only = init_frame_only [of s fr' type pid vpn n]
  have "runs (getNewFrameFIFO dt type pid vpn) s (frameNum2ptr fr') ?s'"
    unfolding getNewFrameFIFO_def
  proof (rule runs_bind)
    show "runs (plift (\<lambda>s. let (fr, n) = fifo_search (unat NFRAMES) (nextframe_fifo s) (ipt s)
        in (fr, s\<lparr>nextframe_fifo := n\<rparr>))) s (Some fr') ?s1" by (rule runs_lift) (simp_all add: n)
    have "runs (pmodify (init_frame fr' type pid vpn)) ?s1 () ?s'" by (rule runs_modify) (use ipt_onlyD(3) [OF only] in simp)
    then show "runs (case Some fr' of Some fr \<Rightarrow> pbind (pmodify (init_frame fr type pid vpn)) (\<lambda>_. Ret (frameNum2ptr fr))
       | None \<Rightarrow> pbind (pcall pickFrame) (\<lambda>fr. if fr = SYSERR32 then Ret SYSERR32
         else pbind (evictFrame dt fr) (\<lambda>_. pbind (pmodify (init_frame fr type pid vpn)) (\<lambda>_. Ret (frameNum2ptr fr)))))
       ?s1 (frameNum2ptr fr') ?s'" by (auto intro: runs_bind)
  qed
  then have R: "runs (getNewFrame dt type pid vpn) s (frameNum2ptr fr') ?s'"
    unfolding getNewFrame_def using pol by (intro runs_bind [OF runs_gets]) simp
  have F1: "frames_ok ?s1" and "fstatus (ipt ?s1 fr') \<noteq> PAGE" using F n(3) by simp_all
  note I = init_frame_ok [OF F1 n(2) this(2), where type = type and pid = pid and vpn = vpn]
  show thesis by (rule that [OF R n(2,3) only I(1-4)]) (use I(5) in auto)
qed

lemma used_frames_new:
  assumes "fr < NFRAMES" and "fstatus (ipt s fr) = NOT_USED" and "fstatus (ipt s' fr) \<noteq> NOT_USED"
    and "\<And>x. x \<noteq> fr \<Longrightarrow> fstatus (ipt s' x) = fstatus (ipt s x)"
  shows "card (used_frames s') = Suc (card (used_frames s))"
proof -
  have "used_frames s' = insert fr (used_frames s)" "fr \<notin> used_frames s"
    using assms unfolding used_frames_def by (auto, metis)
  moreover have "finite (used_frames s)" using frame_count(2) by (auto simp: used_frames_def intro: rev_finite_subset)
  ultimately show ?thesis by simp
qed

subsection \<open>Identity tables\<close>

definition id_table :: "'a pgstate_scheme \<Rightarrow> u32 \<Rightarrow> addr \<Rightarrow> bool" where
  "id_table s fr a \<longleftrightarrow> fr < NFRAMES \<and> fstatus (ipt s fr) = PTAB \<and>
     (\<forall>i<1024. pte s (frameNum2ptr fr) i = id_pte (a + i * NBPG))"

lemma page_only_same:
  fixes s :: "'a pgstate_scheme"
  assumes "page_only b s s'"
  shows "ipt s' = ipt s" "flistHead s' = flistHead s" "flistTail s' = flistTail s" "currpolicy s' = currpolicy s"
    "gpt s' = gpt s" "dpt s' = dpt s" "proctab s' = proctab s" "currpid s' = currpid s" "semtab s' = semtab s"
    "pf_sem s' = pf_sem s"
  by (subst page_onlyD(1) [OF assms], simp)+

lemma id_table_page_only:
  assumes "page_only (frameNum2ptr fr') s s'" and "fr' < NFRAMES" and "fr \<noteq> fr'"
  shows "id_table s' fr a = id_table s fr a"
  using page_only_same(1) [OF assms(1)] page_onlyD(2) [OF assms(1) paged_frame(2)] frameNum2ptr_inj [of fr fr'] assms(2,3)
  by (auto simp: id_table_def)

lemma frames_ok_page_only: "page_only b s s' \<Longrightarrow> frames_ok s' = frames_ok s"
  using page_only_same [of b s s'] fqueue_cong [of _ s' s] by (auto simp: frames_ok_def)

lemma used_frames_page_only: "page_only b s s' \<Longrightarrow> used_frames s' = used_frames s"
  using page_only_same(1) [of b s s'] by (simp add: used_frames_def)

text \<open>The kernel's own state, which neither operation touches.\<close>

definition kernel_same :: "'a pgstate_scheme \<Rightarrow> 'a pgstate_scheme \<Rightarrow> bool" where
  "kernel_same s s' \<longleftrightarrow> proctab s' = proctab s \<and> currpid s' = currpid s \<and> semtab s' = semtab s \<and> pf_sem s' = pf_sem s"

text \<open>One more identity table: a round of \<open>init_gpt\<close>, with the store of the address in between.\<close>

definition adds_table :: "'a pgstate_scheme \<Rightarrow> u32 \<Rightarrow> addr \<Rightarrow> 'a pgstate_scheme \<Rightarrow> bool" where
  "adds_table s fr a s' \<longleftrightarrow> id_table s' fr a \<and> frames_ok s' \<and> card (used_frames s') = Suc (card (used_frames s)) \<and>
     (\<forall>fr' a'. id_table s fr' a' \<longrightarrow> id_table s' fr' a')"

lemma new_id_table:
  fixes s :: "'a pgstate_scheme"
  assumes F: "frames_ok s" "card (used_frames s) < 28" and a: "paged a"
  obtains fr s1 where "runs (getNewFrame dt PTAB pid vpn) s (frameNum2ptr fr) s1" "fr < NFRAMES" "fr \<notin> used_frames s"
    "ipt_only s s1" "\<And>s2. frames_ok s2 = frames_ok s1 \<Longrightarrow> ipt s2 = ipt s1 \<Longrightarrow> words s2 = words s1 \<Longrightarrow>
      adds_table s fr a (setup_id_paging (frameNum2ptr fr) a s2)"
proof -
  obtain fr0 where "fr0 < NFRAMES" "fstatus (ipt s fr0) = NOT_USED" using free_frame [OF F(2)] by blast
  then obtain fr s1 where fr: "runs (getNewFrame dt PTAB pid vpn) s (frameNum2ptr fr) s1" "fr < NFRAMES"
    "fstatus (ipt s fr) = NOT_USED" "ipt_only s s1" "frames_ok s1" "fstatus (ipt s1 fr) = PTAB"
    "\<And>x. x \<noteq> fr \<Longrightarrow> fstatus (ipt s1 x) = fstatus (ipt s x)" by (rule getNewFrame_free [OF F(1)]) blast
  show thesis
  proof (rule that [OF fr(1,2) _ fr(4)])
    show "fr \<notin> used_frames s" using fr(3) by (simp add: used_frames_def)
    fix s2 :: "'a pgstate_scheme"
    assume s2: "frames_ok s2 = frames_ok s1" "ipt s2 = ipt s1" "words s2 = words s1"
    let ?s3 = "setup_id_paging (frameNum2ptr fr) a s2"
    note pg = setup_id_paging_spec [OF paged_frame(2) [OF fr(2)] a, where s = s2]
    have new: "id_table ?s3 fr a" using page_only_same(1) [OF pg(1)] pg(2) fr(2,6) s2(2) by (simp add: id_table_def)
    have card: "card (used_frames ?s3) = Suc (card (used_frames s))"
      using used_frames_new [OF fr(2,3), of s1] fr(6,7) used_frames_page_only [OF pg(1)] s2(2) by (simp add: used_frames_def)
    have "id_table ?s3 fr' a'" if "id_table s fr' a'" for fr' a'
    proof -
      have "fr' \<noteq> fr" using that fr(3) by (auto simp: id_table_def)
      moreover have "id_table s2 fr' a'"
        using that calculation fr(7) ipt_onlyD(1) [OF fr(4)] s2(2,3) by (simp add: id_table_def pte_def)
      ultimately show ?thesis using id_table_page_only [OF pg(1) fr(2)] by simp
    qed
    then show "adds_table s fr a ?s3"
      using new card frames_ok_page_only [OF pg(1)] s2(1) fr(5) by (simp add: adds_table_def)
  qed
qed

lemma paged_4MB: "paged (push_bit 22 w)"
  unfolding paged_def by (rule bit_word_eqI) (auto simp: bit_simps)

definition gpt_inv :: "'a pgstate_scheme \<Rightarrow> nat \<Rightarrow> 'a pgstate_scheme \<Rightarrow> bool" where
  "gpt_inv s0 n s \<longleftrightarrow> frames_ok s \<and> card (used_frames s) = n \<and> kernel_same s0 s \<and>
     (\<forall>j<n. \<exists>fr. gpt s j = frameNum2ptr fr \<and> id_table s fr (push_bit 22 (of_nat j)))"

lemma init_gpt_round:
  assumes I: "gpt_inv s0 n s" and n: "n < 4"
  shows "\<exists>s'. runs (pbind (getNewFrame dt PTAB GLOBAL NO_VPN) (\<lambda>fa.
       pbind (pmodify (\<lambda>s. s\<lparr>gpt := (gpt s)(n := fa)\<rparr>)) (\<lambda>_.
       pmodify (setup_id_paging fa (push_bit 22 (of_nat n)))))) s () s' \<and> gpt_inv s0 (Suc n) s'"
proof -
  have F: "frames_ok s" "card (used_frames s) < 28" using I n by (simp_all add: gpt_inv_def)
  obtain fr s1 where fr: "runs (getNewFrame dt PTAB GLOBAL NO_VPN) s (frameNum2ptr fr) s1" "fr < NFRAMES" "ipt_only s s1"
    and new: "\<And>s2. frames_ok s2 = frames_ok s1 \<Longrightarrow> ipt s2 = ipt s1 \<Longrightarrow> words s2 = words s1 \<Longrightarrow>
      adds_table s fr (push_bit 22 (of_nat n)) (setup_id_paging (frameNum2ptr fr) (push_bit 22 (of_nat n)) s2)"
    by (rule new_id_table [OF F paged_4MB [of "of_nat n"]]) blast
  let ?s2 = "s1\<lparr>gpt := (gpt s1)(n := frameNum2ptr fr)\<rparr>"
  define s3 where "s3 = setup_id_paging (frameNum2ptr fr) (push_bit 22 (of_nat n)) ?s2"
  have "frames_ok ?s2 = frames_ok s1" by (simp add: frames_ok_def fqueue_def)
  from new [OF this] have N: "adds_table s fr (push_bit 22 (of_nat n)) s3" by (simp add: s3_def)
  have "page_only (frameNum2ptr fr) ?s2 s3"
    unfolding s3_def by (rule setup_id_paging_spec(1) [OF paged_frame(2) [OF fr(2)] paged_4MB])
  note pg = page_only_same [OF this]
  have "runs (pmodify (\<lambda>s. s\<lparr>gpt := (gpt s)(n := frameNum2ptr fr)\<rparr>)) s1 () ?s2" by (rule runs_modify) simp
  moreover have "runs (pmodify (setup_id_paging (frameNum2ptr fr) (push_bit 22 (of_nat n)))) ?s2 () s3"
    unfolding s3_def by (rule runs_modify) (use pg(8) s3_def in simp)
  ultimately have "runs (pbind (getNewFrame dt PTAB GLOBAL NO_VPN) (\<lambda>fa.
       pbind (pmodify (\<lambda>s. s\<lparr>gpt := (gpt s)(n := fa)\<rparr>)) (\<lambda>_.
       pmodify (setup_id_paging fa (push_bit 22 (of_nat n)))))) s () s3"
    by (intro runs_bind [OF fr(1)] runs_bind)
  moreover have "gpt_inv s0 (Suc n) s3"
  proof -
    have g: "gpt s3 = (gpt s)(n := frameNum2ptr fr)" using pg(5) ipt_onlyD(6) [OF fr(3)] by simp
    have "kernel_same s0 s3" using I pg(7-10) ipt_onlyD [OF fr(3)] by (simp add: gpt_inv_def kernel_same_def)
    moreover have "\<exists>fr. gpt s3 j = frameNum2ptr fr \<and> id_table s3 fr (push_bit 22 (of_nat j))" if "j < Suc n" for j
      using that N I g unfolding gpt_inv_def adds_table_def by (auto simp: less_Suc_eq) blast
    ultimately show ?thesis using N I by (simp add: gpt_inv_def adds_table_def)
  qed
  ultimately show ?thesis by blast
qed

lemma init_gpt_runs:
  assumes I: "gpt_inv s0 0 s"
  shows "\<exists>s' fr. runs (init_gpt dt) s () s' \<and> frames_ok s' \<and> card (used_frames s') = 5 \<and> kernel_same s0 s' \<and>
    (\<forall>j<4. \<exists>fr. gpt s' j = frameNum2ptr fr \<and> id_table s' fr (push_bit 22 (of_nat j))) \<and>
    dpt s' = frameNum2ptr fr \<and> id_table s' fr DEV_MEM_START"
proof -
  obtain s1 where s1: "runs (pfor [0..<4] (\<lambda>j. pbind (getNewFrame dt PTAB GLOBAL NO_VPN) (\<lambda>fa.
       pbind (pmodify (\<lambda>s. s\<lparr>gpt := (gpt s)(j := fa)\<rparr>)) (\<lambda>_.
       pmodify (setup_id_paging fa (push_bit 22 (of_nat j))))))) s () s1" "gpt_inv s0 4 s1"
    using runs_for [of "[0..<4]" "gpt_inv s0" _ s] init_gpt_round [of s0] I by fastforce
  have F: "frames_ok s1" "card (used_frames s1) < 28" using s1(2) by (simp_all add: gpt_inv_def)
  have a: "paged DEV_MEM_START" by (simp add: paged_unat)
  obtain fr s2 where fr: "runs (getNewFrame dt PTAB GLOBAL NO_VPN) s1 (frameNum2ptr fr) s2" "fr < NFRAMES" "ipt_only s1 s2"
    and new: "\<And>s3. frames_ok s3 = frames_ok s2 \<Longrightarrow> ipt s3 = ipt s2 \<Longrightarrow> words s3 = words s2 \<Longrightarrow>
      adds_table s1 fr DEV_MEM_START (setup_id_paging (frameNum2ptr fr) DEV_MEM_START s3)"
    by (rule new_id_table [OF F a]) blast
  let ?s3 = "s2\<lparr>dpt := frameNum2ptr fr\<rparr>"
  let ?s4 = "setup_id_paging (frameNum2ptr fr) DEV_MEM_START ?s3"
  have "frames_ok ?s3 = frames_ok s2" by (simp add: frames_ok_def fqueue_def)
  note N = new [OF this, simplified, unfolded adds_table_def]
  note pg = page_only_same [OF setup_id_paging_spec(1) [OF paged_frame(2) [OF fr(2)] a], where s = ?s3]
  have "runs (pmodify (\<lambda>s. s\<lparr>dpt := frameNum2ptr fr\<rparr>)) s2 () ?s3" by (rule runs_modify) simp
  moreover have "runs (pmodify (setup_id_paging (frameNum2ptr fr) DEV_MEM_START)) ?s3 () ?s4"
    by (rule runs_modify) (rule pg(8))
  ultimately have "runs (init_gpt dt) s () ?s4"
    unfolding init_gpt_def by (intro runs_bind [OF s1(1)] runs_bind [OF fr(1)] runs_bind)
  moreover have "kernel_same s0 ?s4" using s1(2) pg ipt_onlyD [OF fr(3)] by (simp add: gpt_inv_def kernel_same_def)
  moreover
  have g: "gpt ?s4 = gpt s1" using pg(5) ipt_onlyD(6) [OF fr(3)] by simp
  have "\<forall>j<4. \<exists>fr. gpt ?s4 j = frameNum2ptr fr \<and> id_table ?s4 fr (push_bit 22 (of_nat j))"
    unfolding g using N s1(2) unfolding gpt_inv_def by blast
  moreover have "dpt ?s4 = frameNum2ptr fr" using pg by simp
  ultimately show ?thesis using N s1(2) by (intro exI [of _ ?s4] exI [of _ fr]) (auto simp: gpt_inv_def)
qed

subsection \<open>Page directories\<close>

definition global_entry :: "addr \<Rightarrow> pd_t \<Rightarrow> pd_t" where
  "global_entry table e = e\<lparr>pd_base := ucast (drop_bit 12 table), pd_write := True, pd_pres := True, pd_global := True\<rparr>"

lemma global_pde_spec:
  assumes "paged pd" and "j < 1024"
  shows "page_only pd s (global_pde pd j table s)"
    "\<And>i. i < 1024 \<Longrightarrow> pde (global_pde pd j table s) pd i = (if i = j then global_entry table (pde s pd j) else pde s pd i)"
proof -
  show "page_only pd s (global_pde pd j table s)" unfolding global_pde_def set_PDE_addr_def Let_def
    by (rule page_only_trans [OF page_only_entry(2) page_only_entry(2)]) (use assms in simp_all)
  show "pde (global_pde pd j table s) pd i = (if i = j then global_entry table (pde s pd j) else pde s pd i)" if "i < 1024" for i
    using assms that by (simp add: global_pde_def set_PDE_addr_def global_entry_def Let_def)
qed

definition global_pdes :: "'a pgstate_scheme \<Rightarrow> u32 \<Rightarrow> pd_t" where
  "global_pdes s i = (if i < 4 then global_entry (gpt s (unat i)) (new_pd_entry (dec_pd 0))
     else if i = DEV_MEM_PD_INDEX then global_entry (dpt s) (new_pd_entry (dec_pd 0)) else new_pd_entry (dec_pd 0))"

lemma fill_pd_spec:
  assumes pd: "paged pd"
  shows "page_only pd s (fill_pd pd s)" "\<And>i. i < 1024 \<Longrightarrow> pde (fill_pd pd s) pd i = global_pdes s i"
proof -
  let ?new = "\<lambda>j. upd_pde pd (of_nat j) new_pd_entry"
  define s0 where "s0 = fold ?new [0..<1024] s"
  have st: "?new j s = s\<lparr>words := (words s)(pd + 4 * of_nat j := enc_pd (new_pd_entry (dec_pd 0)))\<rparr>" for j and s :: "'a pgstate_scheme"
    by (simp add: upd_pde_def new_pd_entry_def)
  have p0: "page_only pd s s0" unfolding s0_def by (rule page_only_fold [OF st pd]) simp
  have e0: "pde s0 pd i = new_pd_entry (dec_pd 0)" if "i < 1024" for i
  proof -
    have "unat i < 1024" using that by (simp add: word_less_nat_alt)
    from fold_page(2) [OF st pd _ this, of s] show ?thesis unfolding s0_def pde_def by simp
  qed
  define s1 where "s1 = global_pde pd 0 (gpt s 0) s0"
  define s2 where "s2 = global_pde pd 1 (gpt s (Suc 0)) s1"
  define s3 where "s3 = global_pde pd 2 (gpt s 2) s2"
  define s4 where "s4 = global_pde pd 3 (gpt s 3) s3"
  define s5 where "s5 = global_pde pd 576 (dpt s) s4"
  note S = global_pde_spec [OF pd, where j = 0 and s = s0 and table = "gpt s 0", folded s1_def] global_pde_spec [OF pd, where j = 1 and s = s1 and table = "gpt s (Suc 0)", folded s2_def]
    global_pde_spec [OF pd, where j = 2 and s = s2 and table = "gpt s 2", folded s3_def] global_pde_spec [OF pd, where j = 3 and s = s3 and table = "gpt s 3", folded s4_def]
    global_pde_spec [OF pd, where j = 576 and s = s4 and table = "dpt s", folded s5_def]
  have q: "page_only pd s0 s1" "page_only pd s1 s2" "page_only pd s2 s3" "page_only pd s3 s4" "page_only pd s4 s5"
    using S by simp_all
  note p1 = page_only_trans [OF p0 q(1)] note p2 = page_only_trans [OF p1 q(2)] note p3 = page_only_trans [OF p2 q(3)]
  note p4 = page_only_trans [OF p3 q(4)] note p = p1 p2 p3 p4 page_only_trans [OF p4 q(5)]
  have l: "[0..<4] = [0, 1, 2, 3 :: nat]" by (simp add: upt_rec)
  have "fill_pd pd s = s5"
    using page_only_same(5,6) [OF p0] page_only_same(5,6) [OF p(1)] page_only_same(5,6) [OF p(2)] page_only_same(5,6) [OF p(3)]
      page_only_same(5,6) [OF p(4)]
    unfolding fill_pd_def l by (simp add: Let_def s0_def [symmetric] s1_def [symmetric] s2_def [symmetric] s3_def [symmetric]
      s4_def [symmetric] s5_def [symmetric])
  then show "page_only pd s (fill_pd pd s)" using p(5) by simp
  fix i :: u32 assume i: "i < 1024"
  have c: "i < 4 \<longleftrightarrow> i = 0 \<or> i = 1 \<or> i = 2 \<or> i = 3"
  proof
    assume "i < 4"
    then have "unat i < 4" by (simp add: word_less_nat_alt)
    then have "unat i = 0 \<or> unat i = 1 \<or> unat i = 2 \<or> unat i = 3" by linarith
    then show "i = 0 \<or> i = 1 \<or> i = 2 \<or> i = 3" by (auto simp: word_unat_eq_iff)
  qed auto
  show "pde (fill_pd pd s) pd i = global_pdes s i"
    unfolding \<open>fill_pd pd s = s5\<close> using S e0 i by (auto simp: global_pdes_def c)
qed

subsection \<open>The page directory of a process\<close>

lemma upd_sem_pg [simp]:
  fixes s :: "'a pgstate_scheme"
  shows "ipt (upd_sem i f s) = ipt s" "flistHead (upd_sem i f s) = flistHead s" "flistTail (upd_sem i f s) = flistTail s"
    "currpolicy (upd_sem i f s) = currpolicy s" "gpt (upd_sem i f s) = gpt s" "dpt (upd_sem i f s) = dpt s"
    "pf_sem (upd_sem i f s) = pf_sem s" "words (upd_sem i f s) = words s" "pte (upd_sem i f s) = pte s" "pde (upd_sem i f s) = pde s"
    "frames_ok (upd_sem i f s) = frames_ok s" "used_frames (upd_sem i f s) = used_frames s"
  by (simp_all add: upd_sem_def frames_ok_def fqueue_def used_frames_def pte_def pde_def fun_eq_iff)

lemma upd_proc_pg [simp]:
  fixes s :: "'a pgstate_scheme"
  shows "words (upd_proc p f s) = words s" "pte (upd_proc p f s) = pte s" "pde (upd_proc p f s) = pde s"
    "frames_ok (upd_proc p f s) = frames_ok s" "used_frames (upd_proc p f s) = used_frames s"
  by (simp_all add: upd_proc_def frames_ok_def fqueue_def used_frames_def pte_def pde_def fun_eq_iff)

lemma id_table_cong: "ipt s' = ipt s \<Longrightarrow> pte s' = pte s \<Longrightarrow> id_table s' fr a = id_table s fr a"
  by (simp add: id_table_def)

lemma init_pd_runs:
  assumes F: "frames_ok s" "card (used_frames s) < 28" and L: "sem_free s (pf_sem s)"
  obtains fr s' where "runs (init_pd dt pid) s OK s'" "fr < NFRAMES" "fr \<notin> used_frames s"
    "proctab s' = (proctab s)(pid := (proctab s pid)\<lparr>prpd := frameNum2ptr fr\<rparr>)" "semtab s' = semtab s"
    "frames_ok s'" "card (used_frames s') = Suc (card (used_frames s))" "gpt s' = gpt s" "dpt s' = dpt s" "pf_sem s' = pf_sem s"
    "\<And>i. i < 1024 \<Longrightarrow> pde s' (frameNum2ptr fr) i = global_pdes s i" "\<And>fr' a. id_table s fr' a \<Longrightarrow> id_table s' fr' a"
proof -
  let ?sem = "pf_sem s" and ?l = "lock (pf_sem s) s"
  obtain fr0 where "fr0 < NFRAMES" "fstatus (ipt ?l fr0) = NOT_USED" using free_frame [OF F(2)] by auto
  then obtain fr s1 where fr: "runs (getNewFrame dt PDIR pid NO_VPN) ?l (frameNum2ptr fr) s1" "fr < NFRAMES"
    "fstatus (ipt ?l fr) = NOT_USED" "ipt_only ?l s1" "frames_ok s1" "fstatus (ipt s1 fr) = PDIR"
    "\<And>x. x \<noteq> fr \<Longrightarrow> fstatus (ipt s1 x) = fstatus (ipt ?l x)"
    by (rule getNewFrame_free [of ?l, rotated]) (use F(1) in auto)
  note o1 = ipt_onlyD [OF fr(4)]
  define s2 where "s2 = unlock ?sem s1"
  define s3 where "s3 = upd_proc pid (\<lambda>p. p\<lparr>prpd := frameNum2ptr fr\<rparr>) s2"
  define s4 where "s4 = fill_pd (frameNum2ptr fr) s3"
  note pd = paged_frame(2,3) [OF fr(2)]
  note pg = fill_pd_spec [OF pd(1), where s = s3, folded s4_def]
  note same = page_only_same [OF pg(1)]
  have r2: "runs (pcall (signal ?sem)) s1 OK s2" unfolding s2_def by (rule runs_signal [OF L o1(4)])
  have r3: "runs (pmodify (upd_proc pid (\<lambda>p. p\<lparr>prpd := frameNum2ptr fr\<rparr>))) s2 () s3"
    unfolding s3_def by (rule runs_modify) simp
  have r4: "runs (pmodify (fill_pd (frameNum2ptr fr))) s3 () s4"
    unfolding s4_def by (rule runs_modify) (use same(8) s4_def in simp)
  have "runs (pbind (pmodify (upd_proc pid (\<lambda>p. p\<lparr>prpd := frameNum2ptr fr\<rparr>))) (\<lambda>_.
       pbind (pmodify (fill_pd (frameNum2ptr fr))) (\<lambda>_. Ret OK))) s2 OK s4"
    by (rule runs_bind [OF r3]) (rule runs_bind [OF r4 runs_Ret])
  then have run: "runs (init_pd dt pid) s OK s4"
    unfolding init_pd_def using pd(2)
    by (intro runs_bind [OF runs_gets] runs_bind [OF runs_wait [OF L]] runs_bind [OF fr(1)] runs_bind [OF r2]) simp
  have s3: "ipt s3 = ipt s1" "pte s3 = pte s" "gpt s3 = gpt s" "dpt s3 = dpt s" "frames_ok s3"
    using o1 fr(5) by (simp_all add: s3_def s2_def)
  have sem: "semtab s4 = semtab s"
    using same(9) o1(4) by (simp add: s3_def s2_def)
  have proc: "proctab s4 = (proctab s)(pid := (proctab s pid)\<lparr>prpd := frameNum2ptr fr\<rparr>)"
    using same(7) o1(2) by (simp add: s3_def s2_def)
  have "card (used_frames s1) = Suc (card (used_frames s))"
    using used_frames_new [OF fr(2,3), of s1] fr(6,7) by simp
  then have card: "card (used_frames s4) = Suc (card (used_frames s))"
    using used_frames_page_only [OF pg(1)] s3(1) by (simp add: used_frames_def)
  have tab: "id_table s4 fr' a" if "id_table s fr' a" for fr' a
  proof -
    have ne: "fr' \<noteq> fr" using that fr(3) by (auto simp: id_table_def)
    then have "id_table s3 fr' a" using that fr(7) s3(1,2) by (simp add: id_table_def)
    then show ?thesis using id_table_page_only [OF pg(1) fr(2) ne] by simp
  qed
  have new: "fr \<notin> used_frames s" using fr(3) by (simp add: used_frames_def)
  have gd: "gpt s4 = gpt s" "dpt s4 = dpt s" "pf_sem s4 = pf_sem s"
    using same(5,6,10) s3(3,4) o1(5) by (simp_all add: s3_def s2_def)
  have ent: "pde s4 (frameNum2ptr fr) i = global_pdes s i" if "i < 1024" for i
    using pg(2) [OF that] s3(3,4) by (simp add: global_pdes_def)
  have ok: "frames_ok s4" using s3(5) frames_ok_page_only [OF pg(1)] by simp
  show thesis by (rule that [OF run fr(2) new proc sem ok card gd ent tab])
qed

subsection \<open>Identity translation\<close>

definition id_space :: "addr set" where
  "id_space = {v. v < 0x01000000 \<or> 0x90000000 \<le> v \<and> v < 0x90400000}"

lemma unat_vaddr2pdi: "unat (vaddr2pdi v) = unat v div 0x400000"
  by (simp add: vaddr_bits drop_bit_eq_div unat_div)

lemma id_space_pdi: "v \<in> id_space \<longleftrightarrow> vaddr2pdi v < 4 \<or> vaddr2pdi v = DEV_MEM_PD_INDEX"
proof -
  have "vaddr2pdi v < 4 \<longleftrightarrow> v < 0x01000000" by (simp add: word_less_nat_alt unat_vaddr2pdi div_less_iff_less_mult)
  moreover have "vaddr2pdi v = 576 \<longleftrightarrow> unat v div 0x400000 = 576" by (simp add: word_unat_eq_iff unat_vaddr2pdi)
  moreover have "unat v div 0x400000 = 576 \<longleftrightarrow> 0x90000000 \<le> v \<and> v < 0x90400000"
    by (simp add: word_less_nat_alt word_le_nat_alt) linarith
  ultimately show ?thesis by (auto simp: id_space_def)
qed

definition global_tables :: "'a pgstate_scheme \<Rightarrow> bool" where
  "global_tables s \<longleftrightarrow> (\<forall>j<4. \<exists>fr. gpt s j = frameNum2ptr fr \<and> id_table s fr (push_bit 22 (of_nat j))) \<and>
     (\<exists>fr. dpt s = frameNum2ptr fr \<and> id_table s fr DEV_MEM_START)"

text \<open>A page directory with the global entries maps its global part to itself.\<close>

lemma global_translation:
  assumes T: "global_tables s" and pd: "\<And>i. i < 1024 \<Longrightarrow> pde s (prpd (proctab s (currpid s))) i = global_pdes s i"
    and v: "v \<in> id_space"
  shows "vaddr2paddr v s = v" "pd_pres (pde s (prpd (proctab s (currpid s))) (vaddr2pdi v))"
    "pt_pres (pte s (pdi2pt s (prpd (proctab s (currpid s))) (vaddr2pdi v)) (vaddr2pti v))"
proof -
  let ?e = "pde s (prpd (proctab s (currpid s))) (vaddr2pdi v)"
  have "\<exists>fr. id_table s fr (push_bit 22 (vaddr2pdi v)) \<and> ?e = global_entry (frameNum2ptr fr) (new_pd_entry (dec_pd 0))"
  proof (cases "vaddr2pdi v < 4")
    case True
    then have "unat (vaddr2pdi v) < 4" by (simp add: word_less_nat_alt)
    then show ?thesis using T pd [OF vaddr_parts(2)] True unfolding global_tables_def global_pdes_def by force
  next
    case False
    then have i: "vaddr2pdi v = 576" using v id_space_pdi by blast
    have "push_bit 22 (576 :: u32) = DEV_MEM_START" by (simp add: push_bit_eq_mult)
    then show ?thesis using T pd [of 576] i unfolding global_tables_def global_pdes_def by auto
  qed
  then obtain fr where fr: "id_table s fr (push_bit 22 (vaddr2pdi v))" "?e = global_entry (frameNum2ptr fr) (new_pd_entry (dec_pd 0))"
    by blast
  let ?a = "push_bit 22 (vaddr2pdi v)"
  have pt: "paged (frameNum2ptr fr)" using fr(1) paged_frame(2) by (simp add: id_table_def)
  have b: "pd_base ?e = ucast (drop_bit 12 (frameNum2ptr fr))" "pd_pres ?e" using fr(2) by (simp_all add: global_entry_def)
  have e: "pte s (frameNum2ptr fr) (vaddr2pti v) = id_pte (?a + vaddr2pti v * NBPG)"
    using fr(1) vaddr_parts(3) by (simp add: id_table_def)
  have a: "take_bit 22 ?a = 0" "drop_bit 22 v = drop_bit 22 ?a"
    by (rule bit_word_eqI; auto simp: vaddr_bits bit_simps dest: bit_imp_le_length)+
  note A = id_address [OF paged_4MB a(2,1)]
  show "vaddr2paddr v s = v" using translate [OF b(1) pt _ A(1)] e A(2) by (simp add: id_pte_def)
  show "pd_pres ?e" by (rule b(2))
  have "pdi2pt s (prpd (proctab s (currpid s))) (vaddr2pdi v) = frameNum2ptr fr"
    using b(1) base_page [OF pt] by (simp add: pdi2pt_def)
  then show "pt_pres (pte s (pdi2pt s (prpd (proctab s (currpid s))) (vaddr2pdi v)) (vaddr2pti v))" using e by (simp add: id_pte_def)
qed

lemma global_not_present:
  assumes "v \<notin> id_space" and "pde s pd (vaddr2pdi v) = global_pdes s (vaddr2pdi v)"
  shows "\<not> pd_pres (pde s pd (vaddr2pdi v))"
  using assms id_space_pdi [of v] by (simp add: global_pdes_def new_pd_entry_def)

subsection \<open>Setting up the paging system\<close>

lemma initialize_paging_runs:
  fixes s :: "'a pgstate_scheme"
  assumes n: "0 \<le> nextsem s" "nextsem s < NSEM" and x: "0 \<le> x" "x < NSEM" "sstate (semtab s x) = S_FREE"
  obtains s' where "runs (initialize_paging dt) s () s'" "frames_ok s'" "card (used_frames s') = 6" "global_tables s'"
    "\<And>i. i < 1024 \<Longrightarrow> pde s' (prpd (proctab s' NULLPROC)) i = global_pdes s' i"
    "cr3 s' = prpd (proctab s' NULLPROC)" "gpd s' = prpd (proctab s' NULLPROC)" "sem_free s' (pf_sem s')"
proof -
  define s1 where "s1 = s\<lparr>currpolicy := FIFO, flistHead := EMPTY32, flistTail := EMPTY32, pfc := 0\<rparr>"
  obtain sem m where sem: "semcreate 1 s1 = (sem, upd_sem sem (\<lambda>e. e\<lparr>sstate := S_USED, scount := 1\<rparr>) (s1\<lparr>nextsem := m\<rparr>))"
    "0 \<le> sem" "sem < NSEM" by (rule semcreate_succeeds [of s1 x 1]) (use n x in \<open>auto simp: s1_def\<close>)
  define s2 where "s2 = upd_sem sem (\<lambda>e. e\<lparr>sstate := S_USED, scount := 1\<rparr>) (s1\<lparr>nextsem := m\<rparr>)"
  define s3 where "s3 = s2\<lparr>pf_sem := sem, free_bs_count := word_of_int MAX_BS_ENTRIES\<rparr>"
  define s4 where "s4 = init_ipt s3"
  have s3: "currpolicy s3 = FIFO" "flistHead s3 = EMPTY32" "flistTail s3 = EMPTY32" "sem_free s3 (pf_sem s3)"
    using sem(2,3) by (simp_all add: s3_def s2_def s1_def upd_sem_def sem_free_def)
  have s4: "s4 = s3\<lparr>ipt := ipt s4\<rparr>" unfolding s4_def init_ipt_def by (rule init_ipt_clear(1))
  have k4: "currpid s4 = currpid s3" "pf_sem s4 = pf_sem s3" "semtab s4 = semtab s3" by (subst s4, simp)+
  note I = init_ipt_ok [OF s3(1-3), folded s4_def]
  have "used_frames s4 = {}" using I(2) by (auto simp: used_frames_def)
  then have "gpt_inv s4 0 s4" using I(1) by (simp add: gpt_inv_def kernel_same_def)
  then obtain s5 where s5: "runs (init_gpt dt) s4 () s5" "frames_ok s5" "card (used_frames s5) = 5" "kernel_same s4 s5" "global_tables s5"
    using init_gpt_runs [of s4 s4 dt] unfolding global_tables_def by blast
  have L: "sem_free s5 (pf_sem s5)" using s5(4) k4 s3(4) by (simp add: kernel_same_def sem_free_def)
  have c5: "card (used_frames s5) < 28" using s5(3) by simp
  obtain fr s6 where s6: "runs (init_pd dt NULLPROC) s5 OK s6"
    "proctab s6 = (proctab s5)(NULLPROC := (proctab s5 NULLPROC)\<lparr>prpd := frameNum2ptr fr\<rparr>)" "semtab s6 = semtab s5"
    "frames_ok s6" "card (used_frames s6) = Suc (card (used_frames s5))" "gpt s6 = gpt s5" "dpt s6 = dpt s5" "pf_sem s6 = pf_sem s5"
    "\<And>i. i < 1024 \<Longrightarrow> pde s6 (frameNum2ptr fr) i = global_pdes s5 i" "\<And>fr' a. id_table s5 fr' a \<Longrightarrow> id_table s6 fr' a"
    by (rule init_pd_runs [OF s5(2) c5 L, of dt NULLPROC]) blast
  define s7 where "s7 = s6\<lparr>gpd := frameNum2ptr fr, cr3 := frameNum2ptr fr\<rparr>"
  have m: "runs (pmodify f) u () (f u)" if "currpid (f u) = currpid u" for f and u :: "'a pgstate_scheme"
    using that by (rule runs_modify)
  have r1: "runs (pmodify (\<lambda>s. s\<lparr>gpd := prpd (proctab s NULLPROC)\<rparr>)) s6 () (s6\<lparr>gpd := frameNum2ptr fr\<rparr>)"
    using m [of "\<lambda>s. s\<lparr>gpd := prpd (proctab s NULLPROC)\<rparr>" s6] s6(2) by simp
  have r2: "runs (pmodify (\<lambda>s. s\<lparr>cr3 := prpd (proctab s NULLPROC)\<rparr>)) (s6\<lparr>gpd := frameNum2ptr fr\<rparr>) () s7"
    using m [of "\<lambda>s. s\<lparr>cr3 := prpd (proctab s NULLPROC)\<rparr>" "s6\<lparr>gpd := frameNum2ptr fr\<rparr>"] s6(2) by (simp add: s7_def)
  have r3: "runs (plift (semcreate 1)) s1 sem s2" by (rule runs_lift) (use sem(1) in \<open>simp_all add: s2_def\<close>)
  have r4: "runs (pmodify init_ipt) s3 () s4" unfolding s4_def by (rule m) (use k4(1) s4_def in simp)
  have "runs (pbind (pmodify (\<lambda>s. s\<lparr>pf_sem := sem\<rparr>)) (\<lambda>_.
     pbind (pmodify (\<lambda>s. s\<lparr>free_bs_count := word_of_int MAX_BS_ENTRIES\<rparr>)) (\<lambda>_.
     pbind (pmodify init_ipt) (\<lambda>_. pbind (init_gpt dt) (\<lambda>_. pbind (init_pd dt NULLPROC) (\<lambda>_.
     pbind (pmodify (\<lambda>s. s\<lparr>gpd := prpd (proctab s NULLPROC)\<rparr>)) (\<lambda>_.
     pmodify (\<lambda>s. s\<lparr>cr3 := prpd (proctab s NULLPROC)\<rparr>)))))))) s2 () s7"
    by (rule runs_bind [OF m], simp, rule runs_bind [OF m], simp, fold s3_def)
      (intro runs_bind [OF r4] runs_bind [OF s5(1)] runs_bind [OF s6(1)] runs_bind [OF r1] r2)
  note r5 = runs_bind [OF r3, of "\<lambda>sem. pbind (pmodify (\<lambda>s. s\<lparr>pf_sem := sem\<rparr>)) (\<lambda>_.
     pbind (pmodify (\<lambda>s. s\<lparr>free_bs_count := word_of_int MAX_BS_ENTRIES\<rparr>)) (\<lambda>_.
     pbind (pmodify init_ipt) (\<lambda>_. pbind (init_gpt dt) (\<lambda>_. pbind (init_pd dt NULLPROC) (\<lambda>_.
     pbind (pmodify (\<lambda>s. s\<lparr>gpd := prpd (proctab s NULLPROC)\<rparr>)) (\<lambda>_.
     pmodify (\<lambda>s. s\<lparr>cr3 := prpd (proctab s NULLPROC)\<rparr>)))))))", OF this]
  have run: "runs (initialize_paging dt) s () s7" unfolding initialize_paging_def
    by (rule runs_bind [OF m], simp, rule runs_bind [OF m], simp, rule runs_bind [OF m], simp, rule runs_bind [OF m], simp,
      fold s1_def, rule r5)
  have gp: "global_pdes s7 = global_pdes s5" by (simp add: global_pdes_def s7_def s6(6,7) fun_eq_iff)
  have pe: "pde s7 = pde s6" "pte s7 = pte s6" "ipt s7 = ipt s6" by (simp_all add: s7_def pde_def pte_def fun_eq_iff)
  have gt: "global_tables s7"
    using s5(5) s6(6,7,10) id_table_cong [OF pe(3,2)] unfolding global_tables_def by (simp add: s7_def) blast
  show thesis
  proof (rule that [OF run _ _ gt])
    have "frames_ok s7 = frames_ok s6" unfolding s7_def by (simp add: frames_ok_def fqueue_def)
    then show "frames_ok s7" using s6(4) by simp
    show "card (used_frames s7) = 6" using s6(5) s5(3) pe(3) by (simp add: used_frames_def)
    show "pde s7 (prpd (proctab s7 NULLPROC)) i = global_pdes s7 i" if "i < 1024" for i
      using s6(2) s6(9) [OF that] unfolding gp pe by (simp add: s7_def)
    show "cr3 s7 = prpd (proctab s7 NULLPROC)" "gpd s7 = prpd (proctab s7 NULLPROC)" using s6(2) by (simp_all add: s7_def)
    show "sem_free s7 (pf_sem s7)" using L s6(3,8) by (simp add: s7_def sem_free_def)
  qed
qed

end
