(* ===== verification/Disk_Pages.thy ===== *)
theory Disk_Pages
  imports Translation Locks Backing_Store
begin

section \<open>Pages of backing stores on the disk\<close>

text \<open>
  Page \<open>n\<close> of backing store \<open>b\<close> is eight blocks of the disk. \<open>read_bs\<close> and \<open>write_bs\<close> copy it to and from
  a frame, and different pages never share a block. The disk of the QEMU build is smaller than the
  backing stores: from page 102 of store 2 on, reading and writing panics.
\<close>

definition disk_blk :: "bsd_t \<Rightarrow> u32 \<Rightarrow> nat" where
  "disk_blk b page = (nat b * 205 + unat page) * 8"

lemma rd_blk_unat:
  assumes "0 \<le> b" "b \<le> 7" "page < 200"
  shows "unat (rd_blk b page) = disk_blk b page"
proof -
  have p: "unat page < 200" using assms(3) by (simp add: word_less_nat_alt)
  have b: "unat (word_of_int (b * 205) :: u32) = nat b * 205"
    using assms(1,2) unsigned_of_int [of "b * 205", where ?'a = nat and ?'b = 32]
    by (simp add: take_bit_int_eq_self nat_mult_distrib del: of_int_mult)
  then have "unat (word_of_int (b * 205) + page) = nat b * 205 + unat page" using p assms(2) by (simp add: unat_add_lt)
  then have "unat ((word_of_int (b * 205) + page) * 8) = (nat b * 205 + unat page) * 8"
    using p assms(2) by (subst unat_mult_lem [THEN iffD1]) simp_all
  then show ?thesis unfolding rd_blk_def disk_blk_def by simp
qed

lemma disk_blk_inj:
  assumes "page < 200" "page' < 200" "0 \<le> b" "0 \<le> b'" "i < 8" "i' < 8" and "disk_blk b page + i = disk_blk b' page' + i'"
  shows "b = b' \<and> page = page' \<and> i = i'"
proof -
  have p: "unat page < 205" "unat page' < 205" using assms(1,2) by (simp_all add: word_less_nat_alt)
  have "(disk_blk b page + i) div 8 = nat b * 205 + unat page" "(disk_blk b' page' + i') div 8 = nat b' * 205 + unat page'"
    "(disk_blk b page + i) mod 8 = i" "(disk_blk b' page' + i') mod 8 = i'"
    using assms(5,6) unfolding disk_blk_def by (simp_all del: add_mult_distrib distrib_right_numeral)
  then have e: "nat b * 205 + unat page = nat b' * 205 + unat page'" "i = i'" using assms(7) by simp_all
  have "(nat b * 205 + unat page) div 205 = nat b" "(nat b' * 205 + unat page') div 205 = nat b'" using p by simp_all
  then have "nat b = nat b'" using e(1) by simp
  then show ?thesis using e assms(3,4) by (auto simp: word_unat_eq_iff)
qed

text \<open>The contents of a page on the disk, as 1024 words.\<close>

definition disk_page :: "'a pgstate_scheme \<Rightarrow> bsd_t \<Rightarrow> u32 \<Rightarrow> nat \<Rightarrow> u32" where
  "disk_page s b page k = qdata (qrds s (int (disk_blk b page + k div 128))) (k mod 128)"

lemma devtab_disk:
  "read_dev (devtab d) WRDISK = qrds_read" "write_dev (devtab d) WRDISK = qrds_write"
  by (simp_all add: read_dev_def write_dev_def isbaddev_def devtab_def fun_eq_iff)

subsection \<open>Reading\<close>

lemma read_retry_qrds:
  assumes "sint blk < 4096"
  shows "runs (read_retry (devtab d) blk a buf) s (a, \<lambda>k. if k < 128 then qdata (qrds s (sint blk)) k else buf k) s"
proof -
  have "runs (qrds_read buf blk) s (OK, \<lambda>k. if k < 128 then qdata (qrds s (sint blk)) k else buf k) s"
    unfolding qrds_read_def using assms by (simp add: runs_def Let_def)
  then show ?thesis by (subst read_retry.simps, unfold devtab_disk) (auto intro!: runs_bind)
qed

lemma write_retry_qrds:
  assumes "sint blk < 4096"
  shows "runs (write_retry (devtab d) blk a buf) s a (s\<lparr>qrds := (qrds s)(sint blk := (qrds s (sint blk))
     \<lparr>qdata := (\<lambda>k. if k < 128 then buf k else qdata (qrds s (sint blk)) k), qstatus := 1\<rparr>)\<rparr>)"
proof -
  have "runs (qrds_write buf blk) s OK (s\<lparr>qrds := (qrds s)(sint blk := (qrds s (sint blk))
     \<lparr>qdata := (\<lambda>k. if k < 128 then buf k else qdata (qrds s (sint blk)) k), qstatus := 1\<rparr>)\<rparr>)"
    unfolding qrds_write_def using assms by (simp add: Let_def) (rule runs_lift, simp_all)
  then show ?thesis by (subst write_retry.simps, unfold devtab_disk) (auto intro!: runs_bind)
qed

definition store_word :: "addr \<Rightarrow> (nat \<Rightarrow> u32) \<Rightarrow> nat \<Rightarrow> 'a mstate_scheme \<Rightarrow> 'a mstate_scheme" where
  "store_word dst f j s = s\<lparr>words := (words s)(dst + 4 * of_nat j := f j)\<rparr>"

lemma copy_out_store:
  fixes s :: "'b mstate_scheme"
  assumes "\<And>k. k < 128 \<Longrightarrow> buf k = f (128 * i + k)"
  shows "copy_out (dst + of_nat i * 512) buf s = fold (store_word dst f) [128 * i..<128 * i + 128] s"
proof -
  have e: "copy_out dst' buf s = fold (store_word dst' buf) [0..<128] s" for dst'
    unfolding copy_out_def store_word_def [abs_def] ..
  have "fold (store_word (dst + of_nat i * 512) buf) [0..<n] s = fold (store_word dst f) [128 * i..<128 * i + n] s" if "n \<le> 128" for n
    using that
  proof (induction n)
    case (Suc n)
    have "dst + of_nat i * 512 + 4 * of_nat n = dst + 4 * (of_nat (128 * i + n) :: u32)" by (simp add: algebra_simps)
    then have "store_word (dst + of_nat i * 512) buf n u = store_word dst f (128 * i + n) u" for u :: "'b mstate_scheme"
      using Suc.prems assms [of n] by (simp only: store_word_def)
    then show ?case using Suc by simp
  qed simp
  then show ?thesis by (simp add: e)
qed

lemma store_word_pg [simp]: "qrds (store_word dst f j s) = qrds s" "currpid (store_word dst f j s) = currpid s"
  by (simp_all add: store_word_def)

lemma fold_store_pg [simp]:
  "qrds (fold (store_word dst f) js s) = qrds s" "currpid (fold (store_word dst f) js s) = currpid s"
  by (induction js arbitrary: s) simp_all

lemma read_bs_loop_qrds:
  assumes blk: "unat blk = n * 8" "n < 512" and i: "i \<le> 8"
    and f: "\<And>k. k < 1024 \<Longrightarrow> f k = qdata (qrds s (int (n * 8 + k div 128))) (k mod 128)"
  shows "runs (read_bs_loop (devtab d) dst blk [i..<8] a) s () (fold (store_word dst f) [128 * i..<1024] s)"
  using i f
proof (induction i arbitrary: s rule: inc_induct)
  case base
  then show ?case by (auto intro: runs_Ret)
next
  case (step i)
  have u: "unat (blk + of_nat i) = n * 8 + i"
    using blk step.hyps by (subst unat_add_lt) (simp_all add: unat_of_nat take_bit_nat_eq_self)
  then have b: "sint (blk + of_nat i) = int (n * 8 + i)" "sint (blk + of_nat i) < 4096"
    using sint_small [of "blk + of_nat i"] blk(2) step.hyps(2) by simp_all
  let ?buf = "\<lambda>k. if k < 128 then qdata (qrds s (sint (blk + of_nat i))) k else 0"
  let ?s1 = "fold (store_word dst f) [128 * i..<128 * i + 128] s"
  have "?buf k = f (128 * i + k)" if "k < 128" for k using step.prems [of "128 * i + k"] step.hyps(2) that b(1) by simp
  then have c: "copy_out (dst + of_nat i * 512) ?buf s = ?s1" by (rule copy_out_store)
  then have r: "runs (pmodify (copy_out (dst + of_nat i * 512) ?buf)) s () ?s1"
    using runs_modify [of "copy_out (dst + of_nat i * 512) ?buf" s] by simp
  have ih: "runs (read_bs_loop (devtab d) dst blk [Suc i..<8] a) ?s1 () (fold (store_word dst f) [128 * Suc i..<1024] ?s1)"
    by (rule step.IH) (use step.prems in simp)
  have l1: "[i..<8] = i # [Suc i..<8]" using step.hyps(2) by (simp add: upt_conv_Cons)
  have l2: "[128 * i..<1024] = [128 * i..<128 * i + 128] @ [128 * Suc i..<1024]"
    using step.hyps(2) upt_add_eq_append [of "128 * i" "128 * i + 128" "1024 - (128 * i + 128)"]
    by (simp add: add.commute)
  have "runs (case (a, ?buf) of (attempts, buf) \<Rightarrow> pbind (pmodify (copy_out (dst + of_nat i * 512) buf))
      (\<lambda>_. read_bs_loop (devtab d) dst blk [Suc i..<8] attempts)) s () (fold (store_word dst f) [128 * Suc i..<1024] ?s1)"
    unfolding prod.case by (rule runs_bind [OF r ih])
  then show ?case unfolding l1 l2 fold_append o_apply read_bs_loop.simps by (rule runs_bind [OF read_retry_qrds [OF b(2)]])
qed

text \<open>The check under \<open>bs_sem\<close>.\<close>

definition bs_ready :: "'a pgstate_scheme \<Rightarrow> bsd_t \<Rightarrow> u32 \<Rightarrow> bool" where
  "bs_ready s b page \<longleftrightarrow> ps_active s \<and> sem_free s (bs_sem s) \<and> 0 \<le> b \<and> b \<le> 7 \<and> isopen (bstab s b) \<and>
     page < npages (bstab s b) \<and> npages (bstab s b) \<le> 200"

lemma bs_check_runs:
  assumes "sem_free s (bs_sem s)"
  shows "runs (bs_check b page) s (isopen (bstab s b) \<and> page < npages (bstab s b)) s"
proof -
  let ?l = "lock (bs_sem s) s"
  have l: "bstab ?l = bstab s" "bs_sem ?l = bs_sem s" by (simp_all add: upd_sem_def)
  have "runs (pcall (signal (bs_sem s))) ?l OK s" using runs_signal [OF assms refl] by simp
  then show ?thesis unfolding bs_check_def
    by (intro runs_bind [OF runs_gets] runs_bind [OF runs_wait [OF assms]]) (unfold l, blast intro: runs_bind runs_Ret)
qed

lemma read_bs_runs:
  assumes B: "bs_ready s b page" "disk_blk b page < 4096" and dst: "paged dst"
  obtains s' where "runs (read_bs (devtab d) dst b page) s OK s'" "page_only dst s s'"
    "\<And>i. i < 1024 \<Longrightarrow> words s' (dst + 4 * i) = disk_page s b page (unat i)"
proof -
  have p: "page < 200" and b: "0 \<le> b" "b \<le> 7" using B(1) unfolding bs_ready_def by auto
  let ?f = "disk_page s b page" and ?s' = "fold (store_word dst (disk_page s b page)) [0..<1024] s"
  have "runs (read_bs_loop (devtab d) dst (rd_blk b page) [0..<8] 10) s () (fold (store_word dst ?f) [128 * 0..<1024] s)"
    by (rule read_bs_loop_qrds [where n = "nat b * 205 + unat page"])
      (use rd_blk_unat [OF b p] B(2) in \<open>simp_all add: disk_blk_def disk_page_def\<close>)
  then have "runs (read_bs_loop (devtab d) dst (rd_blk b page) [0..<8] 10) s () ?s'" by simp
  moreover have "runs (bs_check b page) s True s" using bs_check_runs [of s b page] B(1) by (simp add: bs_ready_def)
  ultimately have run: "runs (read_bs (devtab d) dst b page) s OK ?s'"
    unfolding read_bs_def using B(1) unfolding bs_ready_def
    by (intro runs_bind [OF runs_gets]) (auto intro!: runs_bind)
  have st: "store_word dst ?f i u = u\<lparr>words := (words u)(dst + 4 * of_nat i := ?f i)\<rparr>" for i and u :: "'a pgstate_scheme"
    by (simp add: store_word_def)
  note only = page_only_fold [OF st dst order_refl, of s]
  have "words ?s' (dst + 4 * i) = ?f (unat i)" if "i < 1024" for i
    using fold_page(2) [OF st dst order_refl, of "unat i" s] that by (simp add: word_less_nat_alt)
  then show thesis using that [OF run only] by blast
qed

subsection \<open>Writing\<close>

definition put_block :: "(nat \<Rightarrow> u32) \<Rightarrow> nat \<Rightarrow> nat \<Rightarrow> 'a pgstate_scheme \<Rightarrow> 'a pgstate_scheme" where
  "put_block f n i s = s\<lparr>qrds := (qrds s)(int (n + i) := (qrds s (int (n + i)))
     \<lparr>qdata := (\<lambda>k. if k < 128 then f (128 * i + k) else qdata (qrds s (int (n + i))) k), qstatus := 1\<rparr>)\<rparr>"

lemma put_block_pg [simp]: "words (put_block f n i s) = words s" "currpid (put_block f n i s) = currpid s"
  by (simp_all add: put_block_def)

lemma put_block_qrds:
  "qrds (put_block f n i s) x = (if x = int (n + i)
     then (qrds s x)\<lparr>qdata := (\<lambda>k. if k < 128 then f (128 * i + k) else qdata (qrds s x) k), qstatus := 1\<rparr> else qrds s x)"
  by (simp add: put_block_def cong: if_cong)

lemma fold_put_block_only: "fold (put_block f n) is s = s\<lparr>qrds := qrds (fold (put_block f n) is s)\<rparr>"
proof (induction "is" arbitrary: s)
  case (Cons i "is")
  show ?case using Cons [of "put_block f n i s"] by (simp add: put_block_def)
qed simp

lemma fold_put_block:
  "qrds (fold (put_block f n) [0..<m] s) x =
     (if int n \<le> x \<and> x < int (n + m) then (qrds s x)\<lparr>qdata := (\<lambda>k. if k < 128 then f (128 * nat (x - int n) + k) else qdata (qrds s x) k), qstatus := 1\<rparr>
      else qrds s x)"
proof (induction m)
  case (Suc m)
  have e: "fold (put_block f n) [0..<Suc m] s = put_block f n m (fold (put_block f n) [0..<m] s)" by simp
  show ?case
  proof (cases "x = int (n + m)")
    case True
    then have "nat (x - int n) = m" "qrds (fold (put_block f n) [0..<m] s) x = qrds s x" using Suc by simp_all
    then show ?thesis using True unfolding e put_block_qrds by (simp cong: if_cong)
  next
    case False
    then show ?thesis using Suc unfolding e put_block_qrds by simp
  qed
qed auto

lemma write_bs_loop_qrds:
  assumes blk: "unat blk = n * 8" "n < 512" and i: "i \<le> 8" and f: "\<And>k. k < 1024 \<Longrightarrow> f k = words s (src + 4 * of_nat k)"
  shows "runs (write_bs_loop (devtab d) src blk [i..<8] a) s () (fold (put_block f (n * 8)) [i..<8] s)"
  using i f
proof (induction i arbitrary: s rule: inc_induct)
  case base
  then show ?case by (auto intro: runs_Ret)
next
  case (step i)
  have u: "unat (blk + of_nat i) = n * 8 + i"
    using blk step.hyps by (subst unat_add_lt) (simp_all add: unat_of_nat take_bit_nat_eq_self)
  then have b: "sint (blk + of_nat i) = int (n * 8 + i)" "sint (blk + of_nat i) < 4096"
    using sint_small [of "blk + of_nat i"] blk(2) step.hyps(2) by simp_all
  let ?buf = "copy_in (src + of_nat i * 512) s" and ?s1 = "put_block f (n * 8) i s"
  have "?buf k = f (128 * i + k)" if "k < 128" for k
    using step.prems [of "128 * i + k"] step.hyps(2) that by (simp add: copy_in_def algebra_simps)
  then have "(\<lambda>k. if k < 128 then ?buf k else x k) = (\<lambda>k. if k < 128 then f (128 * i + k) else x k)" for x by (simp add: fun_eq_iff)
  then have r: "runs (write_retry (devtab d) (blk + of_nat i) a ?buf) s a ?s1"
    using write_retry_qrds [OF b(2), of d a ?buf s] unfolding b(1) put_block_def by simp
  have ih: "runs (write_bs_loop (devtab d) src blk [Suc i..<8] a) ?s1 () (fold (put_block f (n * 8)) [Suc i..<8] ?s1)"
    by (rule step.IH) (use step.prems in simp)
  have l: "[i..<8] = i # [Suc i..<8]" using step.hyps(2) by (simp add: upt_conv_Cons)
  show ?case unfolding l fold_Cons o_apply write_bs_loop.simps
    by (rule runs_bind [OF runs_gets], rule runs_bind [OF r], rule ih)
qed

lemma write_bs_runs:
  assumes B: "bs_ready s b page" "disk_blk b page < 4096"
  obtains s' where "runs (write_bs (devtab d) src b page) s OK s'" "s' = s\<lparr>qrds := qrds s'\<rparr>"
    "\<And>k. k < 1024 \<Longrightarrow> disk_page s' b page k = words s (src + 4 * of_nat k)"
    "\<And>b' page' k. 0 \<le> b' \<Longrightarrow> page' < 200 \<Longrightarrow> k < 1024 \<Longrightarrow> (b', page') \<noteq> (b, page) \<Longrightarrow> disk_page s' b' page' k = disk_page s b' page' k"
proof -
  have p: "page < 200" and b: "0 \<le> b" "b \<le> 7" using B(1) unfolding bs_ready_def by auto
  let ?f = "\<lambda>k. words s (src + 4 * of_nat k)" and ?n = "disk_blk b page"
  define s' where "s' = fold (put_block ?f ?n) [0..<8] s"
  have "runs (write_bs_loop (devtab d) src (rd_blk b page) [0..<8] 10) s () (fold (put_block ?f ((nat b * 205 + unat page) * 8)) [0..<8] s)"
    by (rule write_bs_loop_qrds) (use rd_blk_unat [OF b p] B(2) in \<open>simp_all add: disk_blk_def\<close>)
  then have "runs (write_bs_loop (devtab d) src (rd_blk b page) [0..<8] 10) s () s'" unfolding s'_def disk_blk_def .
  moreover have "runs (bs_check b page) s True s" using bs_check_runs [of s b page] B(1) by (simp add: bs_ready_def)
  ultimately have run: "runs (write_bs (devtab d) src b page) s OK s'"
    unfolding write_bs_def using B(1) unfolding bs_ready_def
    by (intro runs_bind [OF runs_gets]) (auto intro!: runs_bind)
  have only: "s' = s\<lparr>qrds := qrds s'\<rparr>" unfolding s'_def by (rule fold_put_block_only)
  have new: "disk_page s' b page k = ?f k" if "k < 1024" for k
    using that by (simp add: disk_page_def s'_def fold_put_block less_mult_imp_div_less del: upt_rec_numeral)
  have old: "disk_page s' b' page' k = disk_page s b' page' k" if "0 \<le> b'" "page' < 200" "k < 1024" "(b', page') \<noteq> (b, page)" for b' page' k
  proof -
    have "k div 128 < 8" using that(3) by (simp add: less_mult_imp_div_less)
    then have "disk_blk b' page' + k div 128 \<noteq> ?n + i" if "i < 8" for i
      using disk_blk_inj [of page' page b' b "k div 128" i] p b(1) that \<open>0 \<le> b'\<close> \<open>page' < 200\<close> \<open>(b', page') \<noteq> (b, page)\<close> by auto
    from this [of "disk_blk b' page' + k div 128 - ?n"]
    have "\<not> (int ?n \<le> int (disk_blk b' page' + k div 128) \<and> int (disk_blk b' page' + k div 128) < int (?n + 8))" by linarith
    then have "qrds s' (int (disk_blk b' page' + k div 128)) = qrds s (int (disk_blk b' page' + k div 128))"
      unfolding s'_def fold_put_block by (simp only: if_False)
    then show ?thesis by (simp only: disk_page_def)
  qed
  show thesis by (rule that [OF run only new old])
qed

subsection \<open>The end of the disk\<close>

lemma read_bs_panics:
  assumes B: "bs_ready s b page" "4096 \<le> disk_blk b page"
  shows "run (read_bs (devtab d) dst b page) s = None"
proof -
  have p: "page < 200" and b: "0 \<le> b" "b \<le> 7" using B(1) unfolding bs_ready_def by auto
  have "unat page < 200" using p by (simp add: word_less_nat_alt)
  then have "disk_blk b page < 2 ^ 31" using b by (simp add: disk_blk_def)
  then have "4096 \<le> sint (rd_blk b page)" using sint_small [of "rd_blk b page"] rd_blk_unat [OF b p] B(2) by simp
  then have "run (read_retry (devtab d) (rd_blk b page) 10 (\<lambda>_. 0)) s = None"
    by (subst read_retry.simps, unfold devtab_disk) (simp add: run_bind qrds_read_def Let_def)
  then have "run (read_bs_loop (devtab d) dst (rd_blk b page) [0..<8] 10) s = None"
    by (simp add: upt_conv_Cons run_bind del: read_retry.simps)
  moreover have "runs (bs_check b page) s True s" using bs_check_runs [of s b page] B(1) by (simp add: bs_ready_def)
  ultimately show ?thesis using B(1) by (simp add: read_bs_def run_bind runs_def bs_ready_def)
qed

subsection \<open>From virtual pages to backing stores\<close>

text \<open>Page \<open>n\<close> of the virtual heap is page \<open>n mod 200\<close> of the store number \<open>n div 200\<close> of the process.\<close>

definition store_of :: "'a pgstate_scheme \<Rightarrow> pid32 \<Rightarrow> addr \<Rightarrow> bsd_t \<times> u32" where
  "store_of s pid a = (let n = (unat a - 0x01000000) div 4096 in (pbsd (proctab s pid) (n div 200), of_nat (n mod 200)))"

lemma get_bs_info_spec:
  assumes "0x01000000 \<le> a"
  shows "get_bs_info pid a s = Some (OK, store_of s pid a)"
proof -
  define n where "n = (unat a - 0x01000000) div 4096"
  have ge: "0x01000000 \<le> unat a" using assms(1) by (simp add: word_le_nat_alt)
  have v: "unat (vaddr2vpn a) = unat a div 4096" by (simp add: vaddr2vpn_def drop_bit_eq_div unat_div)
  have ge': "4096 \<le> unat a div 4096" using div_le_mono [OF ge, of 4096] by simp
  then have "unat (vaddr2vpn a - 4096) = unat a div 4096 - 4096" using v by (simp add: unat_sub word_le_nat_alt)
  also obtain y where "unat a = 0x01000000 + y" using ge by (metis le_iff_add)
  then have "unat a div 4096 - 4096 = n" unfolding n_def by (simp add: div_plus_div_distrib_dvd_left)
  finally have o: "unat (vaddr2vpn a - 4096) = n" .
  have "\<not> vaddr2vpn a < 1024" using v ge' by (simp add: word_less_nat_alt)
  moreover have "unat ((vaddr2vpn a - 4096) div 200) = n div 200" using o by (simp add: unat_div)
  moreover have "unat ((vaddr2vpn a - 4096) mod 200) = n mod 200" using o by (simp add: unat_mod)
  then have "(vaddr2vpn a - 4096) mod 200 = of_nat (n mod 200)" by (metis of_nat_unat ucast_id)
  ultimately show ?thesis by (simp add: get_bs_info_def store_of_def n_def [symmetric] Let_def)
qed

end
