(* ===== verification/Page_Fault.thy ===== *)
theory Page_Fault
  imports Paging_Boot Disk_Pages
begin

section \<open>Serving a page fault\<close>

text \<open>
  \<open>pf_service\<close> when frames are available: the page of the backing store that belongs to the faulting
  address ends up in a frame that was free, the page tables of the process map the address to it,
  and everything else in memory is unchanged.
\<close>

subsection \<open>What a fault may change\<close>

definition mem_only :: "'a pgstate_scheme \<Rightarrow> 'a pgstate_scheme \<Rightarrow> bool" where
  "mem_only s s' \<longleftrightarrow> (\<exists>w t h l n. s' = s\<lparr>words := w, ipt := t, flistHead := h, flistTail := l, nextframe_fifo := n\<rparr>)"

definition words_off :: "addr set \<Rightarrow> 'a mstate_scheme \<Rightarrow> 'a mstate_scheme \<Rightarrow> bool" where
  "words_off X s s' \<longleftrightarrow> (\<forall>c i. paged c \<and> c \<notin> X \<and> i < 1024 \<longrightarrow> words s' (c + 4 * i) = words s (c + 4 * i))"

lemma mem_only_trans: "mem_only s s1 \<Longrightarrow> mem_only s1 s2 \<Longrightarrow> mem_only s s2"
  unfolding mem_only_def by (elim exE) (simp, blast)

lemma mem_onlyD:
  assumes "mem_only s s'"
  shows "proctab s' = proctab s" "currpid s' = currpid s" "semtab s' = semtab s" "pf_sem s' = pf_sem s" "bs_sem s' = bs_sem s"
    "bstab s' = bstab s" "qrds s' = qrds s" "ps_active s' = ps_active s" "currpolicy s' = currpolicy s"
  using assms by (auto simp: mem_only_def)

lemma ipt_only_mem: "ipt_only s s' \<Longrightarrow> mem_only s s'"
  unfolding mem_only_def ipt_only_def
  by (rule exI [of _ "words s"], rule exI [of _ "ipt s'"], rule exI [of _ "flistHead s'"], rule exI [of _ "flistTail s'"],
      rule exI [of _ "nextframe_fifo s'"]) simp

lemma page_only_mem:
  fixes s :: "'a pgstate_scheme"
  assumes "page_only b s s'"
  shows "mem_only s s'"
proof -
  have "s\<lparr>words := words s'\<rparr> = s\<lparr>words := words s', ipt := ipt s, flistHead := flistHead s, flistTail := flistTail s,
    nextframe_fifo := nextframe_fifo s\<rparr>" by simp
  then show ?thesis using page_onlyD(1) [OF assms] unfolding mem_only_def by metis
qed

lemma upd_ipt_mem: "mem_only s (upd_ipt fr f s)"
  unfolding mem_only_def upd_ipt_def
  by (rule exI [of _ "words s"], rule exI, rule exI [of _ "flistHead s"], rule exI [of _ "flistTail s"],
      rule exI [of _ "nextframe_fifo s"]) simp

lemma words_off_trans: "words_off X s s1 \<Longrightarrow> words_off Y s1 s2 \<Longrightarrow> words_off (X \<union> Y) s s2"
  by (simp add: words_off_def)

lemma words_off_page: "page_only b s s' \<Longrightarrow> words_off {b} s s'"
  by (simp add: words_off_def page_only_def)

lemma words_off_eq: "words s' = words s \<Longrightarrow> words_off {} s s'"
  by (simp add: words_off_def)

lemma words_offD:
  assumes "words_off X s s'" "paged c" "c \<notin> X" "i < 1024"
  shows "words s' (c + 4 * i) = words s (c + 4 * i)" "pte s' c i = pte s c i" "pde s' c i = pde s c i"
  using assms by (simp_all add: words_off_def pte_def pde_def)

lemma frames_ok_refCount: "frames_ok (upd_ipt fr (\<lambda>e. e\<lparr>refCount := g e\<rparr>) s) = frames_ok s"
proof -
  have "fqueue (upd_ipt fr (\<lambda>e. e\<lparr>refCount := g e\<rparr>) s) xs = fqueue s xs" for xs
    by (rule fqueue_cong) (simp_all add: upd_ipt_def)
  moreover have "fstatus (ipt (upd_ipt fr (\<lambda>e. e\<lparr>refCount := g e\<rparr>) s) x) = fstatus (ipt s x)" for x by simp
  ultimately show ?thesis by (simp only: frames_ok_def upd_ipt_simps(4))
qed

subsection \<open>A new page table\<close>

lemma newPageTable_runs:
  assumes F: "frames_ok s" "card (used_frames s) < 28"
  obtains fr s' where "runs (newPageTable dt pid) s (frameNum2ptr fr) s'" "fr < NFRAMES" "fstatus (ipt s fr) = NOT_USED"
    "frames_ok s'" "fstatus (ipt s' fr) = PTAB" "\<And>x. x \<noteq> fr \<Longrightarrow> fstatus (ipt s' x) = fstatus (ipt s x)"
    "mem_only s s'" "words_off {frameNum2ptr fr} s s'" "\<And>i. i < 1024 \<Longrightarrow> \<not> pt_pres (pte s' (frameNum2ptr fr) i)"
proof -
  obtain fr0 where "fr0 < NFRAMES" "fstatus (ipt s fr0) = NOT_USED" using free_frame [OF F(2)] by blast
  then obtain fr s1 where fr: "runs (getNewFrame dt PTAB pid NO_VPN) s (frameNum2ptr fr) s1" "fr < NFRAMES"
    "fstatus (ipt s fr) = NOT_USED" "ipt_only s s1" "frames_ok s1" "fstatus (ipt s1 fr) = PTAB"
    "\<And>x. x \<noteq> fr \<Longrightarrow> fstatus (ipt s1 x) = fstatus (ipt s x)" by (rule getNewFrame_free [OF F(1)]) blast
  let ?pt = "frameNum2ptr fr"
  let ?body = "\<lambda>i. upd_pte ?pt (of_nat i) new_pt_entry"
  let ?s2 = "fold ?body [0..<1024] s1"
  have st: "?body i u = u\<lparr>words := (words u)(?pt + 4 * of_nat i := enc_pt (new_pt_entry (dec_pt (words u (?pt + 4 * of_nat i)))))\<rparr>"
    for i and u :: "'a pgstate_scheme" by (simp add: upd_pte_def pte_def)
  note pt = paged_frame(2,3) [OF fr(2)]
  have pg: "page_only ?pt s1 ?s2" by (rule page_only_fold [OF st pt(1)]) simp
  have "runs (pmodify (fold ?body [0..<1024])) s1 () ?s2" by (rule runs_modify) (rule page_only_same(8) [OF pg])
  then have run: "runs (newPageTable dt pid) s ?pt ?s2"
    unfolding newPageTable_def using pt(2) by (intro runs_bind [OF fr(1)]) (auto intro: runs_bind)
  have e: "\<not> pt_pres (pte ?s2 ?pt i)" if "i < 1024" for i
  proof -
    have "unat i < 1024" using that by (simp add: word_less_nat_alt)
    from fold_page(2) [OF st pt(1) order_refl this, of s1] show ?thesis by (simp add: pte_def new_pt_entry_def)
  qed
  have w: "words_off {?pt} s ?s2"
    using words_off_trans [OF words_off_eq words_off_page [OF pg], of s] ipt_onlyD(1) [OF fr(4)] by simp
  show thesis
  proof (rule that [OF run fr(2,3) _ _ _ _ w e])
    show "frames_ok ?s2" using frames_ok_page_only [OF pg] fr(5) by simp
    show "fstatus (ipt ?s2 fr) = PTAB" "\<And>x. x \<noteq> fr \<Longrightarrow> fstatus (ipt ?s2 x) = fstatus (ipt s x)"
      using page_only_same(1) [OF pg] fr(6,7) by simp_all
    show "mem_only s ?s2" by (rule mem_only_trans [OF ipt_only_mem [OF fr(4)] page_only_mem [OF pg]])
  qed
qed

subsection \<open>The page table of a faulting address\<close>

text \<open>The page directory at frame \<open>pdfr\<close> and the page table that it names for the address, if any.\<close>

definition dir_ok :: "'a pgstate_scheme \<Rightarrow> u32 \<Rightarrow> u32 \<Rightarrow> bool" where
  "dir_ok s pdfr pdi \<longleftrightarrow> pdfr < NFRAMES \<and> fstatus (ipt s pdfr) = PDIR \<and>
     (pd_pres (pde s (frameNum2ptr pdfr) pdi) \<longrightarrow>
        (\<exists>fr. fr < NFRAMES \<and> fstatus (ipt s fr) = PTAB \<and> pdi2pt s (frameNum2ptr pdfr) pdi = frameNum2ptr fr))"

lemma fault_table_runs:
  assumes F: "frames_ok s" "card (used_frames s) < 28" and D: "dir_ok s pdfr pdi" and i: "pdi < 1024"
  defines "pd \<equiv> frameNum2ptr pdfr"
  obtains fr s' where "runs (if pd_pres (pde s pd pdi) then Ret (pdi2pt s pd pdi)
             else pbind (newPageTable dt pid) (\<lambda>pt. pbind (pmodify (set_PDE_addr pd pdi pt)) (\<lambda>_.
               pbind (pmodify (upd_pde pd pdi (\<lambda>e. e\<lparr>pd_pres := True\<rparr>))) (\<lambda>_. Ret pt)))) s (frameNum2ptr fr) s'"
    "fr < NFRAMES" "fstatus (ipt s fr) \<noteq> PAGE" "fstatus (ipt s' fr) = PTAB" "fr \<noteq> pdfr" "fr \<in> used_frames s \<longleftrightarrow> pd_pres (pde s pd pdi)" "frames_ok s'"
    "used_frames s' = insert fr (used_frames s)" "mem_only s s'"
    "words_off (if pd_pres (pde s pd pdi) then {} else {pd, frameNum2ptr fr}) s s'"
    "pd_pres (pde s' pd pdi)" "pd_base (pde s' pd pdi) = ucast (drop_bit 12 (frameNum2ptr fr))"
    "\<And>j. j < 1024 \<Longrightarrow> j \<noteq> pdi \<Longrightarrow> pde s' pd j = pde s pd j" "\<not> pd_pres (pde s pd pdi) \<Longrightarrow> (\<And>j. j < 1024 \<Longrightarrow> \<not> pt_pres (pte s' (frameNum2ptr fr) j))"
proof (cases "pd_pres (pde s pd pdi)")
  case True
  then obtain fr where fr: "fr < NFRAMES" "fstatus (ipt s fr) = PTAB" "pdi2pt s pd pdi = frameNum2ptr fr"
    using D unfolding dir_ok_def pd_def by auto
  have ne: "fr \<noteq> pdfr" "fr \<in> used_frames s" using fr D by (auto simp: dir_ok_def used_frames_def)
  have b: "pd_base (pde s pd pdi) = ucast (drop_bit 12 (frameNum2ptr fr))"
    unfolding fr(3) [symmetric] pdi2pt_def by (rule bit_word_eqI) (auto simp: bit_simps)
  have m: "mem_only s s" unfolding mem_only_def
    by (rule exI [of _ "words s"], rule exI [of _ "ipt s"], rule exI [of _ "flistHead s"], rule exI [of _ "flistTail s"],
      rule exI [of _ "nextframe_fifo s"]) simp
  show thesis
    by (rule that [of fr s]) (use True fr ne F(1) b m in \<open>auto simp: words_off_def intro: runs_Ret\<close>)
next
  case False
  obtain fr s1 where fr: "runs (newPageTable dt pid) s (frameNum2ptr fr) s1" "fr < NFRAMES" "fstatus (ipt s fr) = NOT_USED"
    "frames_ok s1" "fstatus (ipt s1 fr) = PTAB" "\<And>x. x \<noteq> fr \<Longrightarrow> fstatus (ipt s1 x) = fstatus (ipt s x)"
    "mem_only s s1" "words_off {frameNum2ptr fr} s s1" "\<And>j. j < 1024 \<Longrightarrow> \<not> pt_pres (pte s1 (frameNum2ptr fr) j)"
    by (rule newPageTable_runs [OF F]) blast
  let ?pt = "frameNum2ptr fr"
  have pdfr: "pdfr < NFRAMES" and ne: "fr \<noteq> pdfr" using D fr(3) by (auto simp: dir_ok_def)
  have pd: "paged pd" "pd \<noteq> ?pt" using paged_frame(2) [OF pdfr] frameNum2ptr_inj [OF pdfr fr(2)] ne by (auto simp: pd_def)
  define s2 where "s2 = set_PDE_addr pd pdi ?pt s1"
  define s3 where "s3 = upd_pde pd pdi (\<lambda>e. e\<lparr>pd_pres := True\<rparr>) s2"
  have p2: "page_only pd s1 s2" unfolding s2_def set_PDE_addr_def by (rule page_only_entry(2) [OF pd(1) i])
  have p3: "page_only pd s1 s3" unfolding s3_def by (rule page_only_trans [OF p2 page_only_entry(2) [OF pd(1) i]])
  note same = page_only_same [OF p3]
  have r2: "runs (pmodify (set_PDE_addr pd pdi ?pt)) s1 () s2" unfolding s2_def by (rule runs_modify) (use page_only_same(8) [OF p2] s2_def in simp)
  have r3: "runs (pmodify (upd_pde pd pdi (\<lambda>e. e\<lparr>pd_pres := True\<rparr>))) s2 () s3"
    unfolding s3_def by (rule runs_modify) (simp add: upd_pde_def)
  have run: "runs (if pd_pres (pde s pd pdi) then Ret (pdi2pt s pd pdi)
             else pbind (newPageTable dt pid) (\<lambda>pt. pbind (pmodify (set_PDE_addr pd pdi pt)) (\<lambda>_.
               pbind (pmodify (upd_pde pd pdi (\<lambda>e. e\<lparr>pd_pres := True\<rparr>))) (\<lambda>_. Ret pt)))) s ?pt s3"
    using False by simp (intro runs_bind [OF fr(1)] runs_bind [OF r2] runs_bind [OF r3] runs_Ret)
  have new: "fr \<notin> used_frames s" using fr(3) by (simp add: used_frames_def)
  have pe: "pde s3 pd j = (if j = pdi then (pde s1 pd pdi)\<lparr>pd_base := ucast (drop_bit 12 ?pt), pd_pres := True\<rparr> else pde s1 pd j)"
    if "j < 1024" for j using that i pd(1) by (simp add: s3_def s2_def set_PDE_addr_def)
  have old: "pde s1 pd j = pde s pd j" if "j < 1024" for j using words_offD(3) [OF fr(8) pd(1) _ that] pd(2) by simp
  have u: "used_frames s3 = insert fr (used_frames s)"
  proof (rule set_eqI)
    fix x show "x \<in> used_frames s3 \<longleftrightarrow> x \<in> insert fr (used_frames s)"
      using fr(2,5) fr(6) [of x] same(1) by (cases "x = fr") (simp_all add: used_frames_def)
  qed
  have t: "\<not> pt_pres (pte s3 ?pt j)" if "j < 1024" for j
    using page_onlyD(2) [OF p3 paged_frame(2) [OF fr(2)] _ that] pd(2) fr(9) [OF that] by auto
  show thesis
  proof (rule that [OF run fr(2) _ _ ne _ _ u])
    show "words_off (if pd_pres (pde s pd pdi) then {} else {pd, ?pt}) s s3"
      using words_off_trans [OF fr(8) words_off_page [OF p3]] False by (simp add: insert_commute)
    show "mem_only s s3" by (rule mem_only_trans [OF fr(7) page_only_mem [OF p3]])
  qed (use False new pe old i t same(1) fr(3,5) frames_ok_page_only [OF p3] fr(4) in auto)
qed

subsection \<open>The whole service\<close>

text \<open>The outcome: frame \<open>fr\<close>, not in use before, holds the page \<open>a\<close> of the current process.\<close>

definition served :: "'a pgstate_scheme \<Rightarrow> addr \<Rightarrow> addr \<Rightarrow> u32 \<Rightarrow> u32 \<Rightarrow> 'a pgstate_scheme \<Rightarrow> bool" where
  "served s a pd ptfr fr s' \<longleftrightarrow>
     fr < NFRAMES \<and> fr \<notin> used_frames s \<and> ptfr < NFRAMES \<and> used_frames s' = insert fr (insert ptfr (used_frames s)) \<and>
     fstatus (ipt s' fr) = PAGE \<and> fpid (ipt s' fr) = currpid s \<and> fvpn (ipt s' fr) = sint (vaddr2vpn a) \<and>
     fstatus (ipt s ptfr) \<noteq> PAGE \<and> fstatus (ipt s' ptfr) = PTAB \<and> frames_ok s' \<and>
     pd_pres (pde s' pd (vaddr2pdi a)) \<and> pdi2pt s' pd (vaddr2pdi a) = frameNum2ptr ptfr \<and>
     pt_pres (pte s' (frameNum2ptr ptfr) (vaddr2pti a)) \<and>
     pt_base (pte s' (frameNum2ptr ptfr) (vaddr2pti a)) = ucast (drop_bit 12 (frameNum2ptr fr)) \<and>
     (\<forall>i<1024. words s' (frameNum2ptr fr + 4 * i) = (case store_of s (currpid s) a of (b, page) \<Rightarrow> disk_page s b page (unat i))) \<and>
     (\<forall>j<1024. j \<noteq> vaddr2pdi a \<longrightarrow> pde s' pd j = pde s pd j) \<and>
     (pd_pres (pde s pd (vaddr2pdi a)) \<longrightarrow> ptfr \<in> used_frames s \<and>
        (\<forall>j<1024. j \<noteq> vaddr2pti a \<longrightarrow> pte s' (frameNum2ptr ptfr) j = pte s (frameNum2ptr ptfr) j)) \<and>
     words_off {pd, frameNum2ptr ptfr, frameNum2ptr fr} s s'"

text \<open>The last stores: the reference count, the present bit and the address of the frame.\<close>

lemma map_page:
  fixes s :: "'a pgstate_scheme" and f :: addr
  assumes "ptfr < NFRAMES" and "pti < 1024" and "frames_ok s"
  defines "s' \<equiv> set_PTE_addr (frameNum2ptr ptfr) pti f (upd_pte (frameNum2ptr ptfr) pti (\<lambda>e. e\<lparr>pt_pres := True\<rparr>) (incRefCount (frameNum2ptr ptfr) s))"
  shows "mem_only s s'" "words_off {frameNum2ptr ptfr} s s'" "frames_ok s'"
    "ipt s' = (ipt s)(ptfr := (ipt s ptfr)\<lparr>refCount := refCount (ipt s ptfr) + 1\<rparr>)"
    "\<And>j. j < 1024 \<Longrightarrow> pte s' (frameNum2ptr ptfr) j = (if j = pti
       then (pte s (frameNum2ptr ptfr) pti)\<lparr>pt_pres := True, pt_base := ucast (drop_bit 12 f)\<rparr> else pte s (frameNum2ptr ptfr) j)"
proof -
  let ?pt = "frameNum2ptr ptfr"
  let ?s1 = "incRefCount ?pt s"
  let ?s2 = "upd_pte ?pt pti (\<lambda>e. e\<lparr>pt_pres := True\<rparr>) ?s1"
  note pt = paged_frame(2) [OF assms(1)]
  have e: "?s1 = upd_ipt ptfr (\<lambda>e. e\<lparr>refCount := refCount e + 1\<rparr>) s" by (simp add: incRefCount_def faddr_frameNum [OF assms(1)])
  have p: "page_only ?pt ?s1 s'" unfolding s'_def set_PTE_addr_def
    by (rule page_only_trans [OF page_only_entry(1) page_only_entry(1)]) (use pt assms(2) in simp_all)
  show "mem_only s s'" using mem_only_trans [OF upd_ipt_mem page_only_mem [OF p [unfolded e]]] .
  have w: "words ?s1 = words s" by (simp add: e)
  show "words_off {?pt} s s'" using words_off_trans [OF words_off_eq [OF w] words_off_page [OF p]] by simp
  show "frames_ok s'" using frames_ok_page_only [OF p] assms(3) unfolding e by (simp add: frames_ok_refCount)
  show "ipt s' = (ipt s)(ptfr := (ipt s ptfr)\<lparr>refCount := refCount (ipt s ptfr) + 1\<rparr>)" using page_only_same(1) [OF p] by (simp add: e)
  have "pte ?s1 = pte s" by (simp add: pte_def e fun_eq_iff)
  then show "pte s' ?pt j = (if j = pti then (pte s ?pt pti)\<lparr>pt_pres := True, pt_base := ucast (drop_bit 12 f)\<rparr> else pte s ?pt j)"
    if "j < 1024" for j using that pt assms(2) by (simp add: s'_def set_PTE_addr_def)
qed

text \<open>The run of the service, given the run of its parts.\<close>

lemma pf_service_steps:
  fixes s :: "'a pgstate_scheme"
  assumes t: "runs (if pd_pres (pde s pd (vaddr2pdi a)) then Ret (pdi2pt s pd (vaddr2pdi a))
             else pbind (newPageTable dt (currpid s)) (\<lambda>pt. pbind (pmodify (set_PDE_addr pd (vaddr2pdi a) pt)) (\<lambda>_.
               pbind (pmodify (upd_pde pd (vaddr2pdi a) (\<lambda>e. e\<lparr>pd_pres := True\<rparr>))) (\<lambda>_. Ret pt)))) s pt s1"
    and f: "runs (getNewFrame dt PAGE (currpid s) (sint (vaddr2vpn a))) s1 f s2"
    and c: "runs (pcall (\<lambda>s'. map_option (\<lambda>r. (r, s')) (get_bs_info (currpid s) a s'))) s2 (OK, b, page) s2"
    and r: "runs (read_bs dt f b page) s2 OK s3"
  shows "runs (pf_service dt a pd) s () (set_PTE_addr pt (vaddr2pti a) f (upd_pte pt (vaddr2pti a) (\<lambda>e. e\<lparr>pt_pres := True\<rparr>) (incRefCount pt s3)))"
proof -
  let ?pti = "vaddr2pti a"
  let ?s4 = "incRefCount pt s3"
  let ?s5 = "upd_pte pt ?pti (\<lambda>e. e\<lparr>pt_pres := True\<rparr>) ?s4"
  let ?s6 = "set_PTE_addr pt ?pti f ?s5"
  have pe: "runs (pmodify (incRefCount pt)) s3 () ?s4" "runs (pmodify (upd_pte pt ?pti (\<lambda>e. e\<lparr>pt_pres := True\<rparr>))) ?s4 () ?s5"
    "runs (pmodify (set_PTE_addr pt ?pti f)) ?s5 () ?s6"
    by (rule runs_modify, simp add: incRefCount_def upd_pte_def set_PTE_addr_def)+
  have "runs (case (OK, b, page) of (st, bsd, offset) \<Rightarrow> pbind (read_bs dt f bsd offset) (\<lambda>e. if e = SYSERR then panic
      else pbind (pmodify (incRefCount pt)) (\<lambda>_. pbind (pmodify (upd_pte pt ?pti (\<lambda>e. e\<lparr>pt_pres := True\<rparr>))) (\<lambda>_.
        pmodify (set_PTE_addr pt ?pti f))))) s2 () ?s6"
    unfolding prod.case by (rule runs_bind [OF r], simp, rule runs_bind [OF pe(1)], rule runs_bind [OF pe(2)], rule pe(3))
  then show ?thesis unfolding pf_service_def Let_def
    by (intro runs_bind [OF runs_gets] runs_bind [OF t] runs_bind [OF f] runs_bind [OF c])
qed

lemma pf_service_runs:
  fixes s :: "'a pgstate_scheme"
  assumes F: "frames_ok s" "card (used_frames s) < 27" and D: "dir_ok s pdfr (vaddr2pdi a)"
    and a: "0x01000000 \<le> a" and B: "bs_ready s b page" "disk_blk b page < 4096" "store_of s (currpid s) a = (b, page)"
  shows "\<exists>ptfr fr s'. runs (pf_service (devtab d) a (frameNum2ptr pdfr)) s () s' \<and> served s a (frameNum2ptr pdfr) ptfr fr s' \<and> mem_only s s'"
proof -
  let ?pd = "frameNum2ptr pdfr" and ?pdi = "vaddr2pdi a" and ?pti = "vaddr2pti a" and ?pid = "currpid s"
  note i = vaddr_parts(2,3) [of a]
  have c0: "card (used_frames s) < 28" using F(2) by simp
  obtain ptfr s1 where t: "runs (if pd_pres (pde s ?pd ?pdi) then Ret (pdi2pt s ?pd ?pdi)
             else pbind (newPageTable (devtab d) ?pid) (\<lambda>pt. pbind (pmodify (set_PDE_addr ?pd ?pdi pt)) (\<lambda>_.
               pbind (pmodify (upd_pde ?pd ?pdi (\<lambda>e. e\<lparr>pd_pres := True\<rparr>))) (\<lambda>_. Ret pt)))) s (frameNum2ptr ptfr) s1"
    "ptfr < NFRAMES" "fstatus (ipt s1 ptfr) = PTAB" "ptfr \<noteq> pdfr" "ptfr \<in> used_frames s \<longleftrightarrow> pd_pres (pde s ?pd ?pdi)" "frames_ok s1"
    "used_frames s1 = insert ptfr (used_frames s)" "mem_only s s1"
    "words_off (if pd_pres (pde s ?pd ?pdi) then {} else {?pd, frameNum2ptr ptfr}) s s1"
    "pd_pres (pde s1 ?pd ?pdi)" "pd_base (pde s1 ?pd ?pdi) = ucast (drop_bit 12 (frameNum2ptr ptfr))"
    "\<And>j. j < 1024 \<Longrightarrow> j \<noteq> ?pdi \<Longrightarrow> pde s1 ?pd j = pde s ?pd j" "fstatus (ipt s ptfr) \<noteq> PAGE"
    by (rule fault_table_runs [OF F(1) c0 D i(1), of "devtab d" ?pid]) blast
  let ?pt = "frameNum2ptr ptfr"
  have c1: "card (used_frames s1) < 28" using t(7) F(2) card_insert_le_m1 [of 27 "used_frames s" ptfr] by simp
  obtain fr0 where "fr0 < NFRAMES" "fstatus (ipt s1 fr0) = NOT_USED" using free_frame [OF c1] by blast
  then obtain fr s2 where f: "runs (getNewFrame (devtab d) PAGE ?pid (sint (vaddr2vpn a))) s1 (frameNum2ptr fr) s2" "fr < NFRAMES"
    "fstatus (ipt s1 fr) = NOT_USED" "ipt_only s1 s2" "frames_ok s2" "fstatus (ipt s2 fr) = PAGE" "fpid (ipt s2 fr) = ?pid"
    "fvpn (ipt s2 fr) = sint (vaddr2vpn a)" "\<And>x. x \<noteq> fr \<Longrightarrow> fstatus (ipt s2 x) = fstatus (ipt s1 x)"
    by (rule getNewFrame_free [OF t(6)]) blast
  let ?f = "frameNum2ptr fr"
  have m2: "mem_only s s2" by (rule mem_only_trans [OF t(8) ipt_only_mem [OF f(4)]])
  note k2 = mem_onlyD [OF m2]
  have info: "get_bs_info ?pid a s2 = Some (OK, b, page)"
    using get_bs_info_spec [OF a, of ?pid s2] B(3) k2(1) by (simp add: store_of_def Let_def)
  have ready: "bs_ready s2 b page" using B(1) k2 by (simp add: bs_ready_def sem_free_def)
  have fp: "paged ?f" "paged ?pt" using paged_frame(2) f(2) t(2) by blast+
  obtain s3 where r: "runs (read_bs (devtab d) ?f b page) s2 OK s3" "page_only ?f s2 s3"
    "\<And>i. i < 1024 \<Longrightarrow> words s3 (?f + 4 * i) = disk_page s2 b page (unat i)"
    by (rule read_bs_runs [OF ready B(2) fp(1)]) blast
  define s6 where "s6 = set_PTE_addr ?pt ?pti ?f (upd_pte ?pt ?pti (\<lambda>e. e\<lparr>pt_pres := True\<rparr>) (incRefCount ?pt s3))"
  have ok3: "frames_ok s3" using frames_ok_page_only [OF r(2)] f(5) by simp
  note M = map_page [OF t(2) i(2) ok3, where f = ?f, folded s6_def]
  have rc: "runs (pcall (\<lambda>s. map_option (\<lambda>r. (r, s)) (get_bs_info ?pid a s))) s2 (OK, b, page) s2"
    by (rule runs_call) (simp_all add: info)
  have run: "runs (pf_service (devtab d) a ?pd) s () s6" unfolding s6_def by (rule pf_service_steps [OF t(1) f(1) rc r(1)])
  have fr1: "fr \<notin> used_frames s1" using f(3) by (simp add: used_frames_def)
  have pdf: "pdfr < NFRAMES" "pdfr \<in> used_frames s" using D by (auto simp: dir_ok_def used_frames_def)
  have ne: "fr \<noteq> ptfr" "fr \<noteq> pdfr" using fr1 t(7) pdf(2) by auto
  have ne': "?f \<noteq> ?pt" "?f \<noteq> ?pd" "?pt \<noteq> ?pd" using frameNum2ptr_inj ne t(2,4) f(2) pdf(1) by blast+
  have pd: "paged ?pd" by (rule paged_frame(2) [OF pdf(1)])
  have w3: "words_off {?f} s1 s3"
    using words_off_trans [OF words_off_eq [OF ipt_onlyD(1) [OF f(4)]] words_off_page [OF r(2)]] by simp
  have w6: "words_off {?f, ?pt} s1 s6" using words_off_trans [OF w3 M(2)] by (simp add: insert_commute)
  have w: "words_off {?pd, ?pt, ?f} s s6" using words_off_trans [OF t(9) w6] unfolding words_off_def by (auto split: if_splits)
  have m: "mem_only s s6" by (rule mem_only_trans [OF m2 mem_only_trans [OF page_only_mem [OF r(2)] M(1)]])
  have pd6: "pde s6 ?pd j = pde s1 ?pd j" if "j < 1024" for j using words_offD(3) [OF w6 pd _ that] ne' by simp
  have st: "fstatus (ipt s6 x) = fstatus (ipt s2 x)" "fpid (ipt s6 x) = fpid (ipt s2 x)" "fvpn (ipt s6 x) = fvpn (ipt s2 x)" for x
    using M(4) page_only_same(1) [OF r(2)] by simp_all
  have u: "used_frames s6 = insert fr (insert ptfr (used_frames s))"
  proof (rule set_eqI)
    fix x show "x \<in> used_frames s6 \<longleftrightarrow> x \<in> insert fr (insert ptfr (used_frames s))"
      using f(2,6) f(9) [of x] st(1) [of x] t(7) [symmetric] by (cases "x = fr") (simp_all add: used_frames_def)
  qed
  have pt6: "pte s6 ?pt j = (if j = ?pti then (pte s1 ?pt ?pti)\<lparr>pt_pres := True, pt_base := ucast (drop_bit 12 ?f)\<rparr> else pte s1 ?pt j)"
    if "j < 1024" for j using M(5) [OF that] words_offD(2) [OF w3 fp(2) _ that] words_offD(2) [OF w3 fp(2) _ i(2)] ne' by simp
  have pg: "words s6 (?f + 4 * j) = disk_page s b page (unat j)" if "j < 1024" for j
    using words_offD(1) [OF M(2) fp(1) _ that] ne' r(3) [OF that] k2(7) by (simp add: disk_page_def)
  have old: "pte s1 ?pt j = pte s ?pt j" if "pd_pres (pde s ?pd ?pdi)" "j < 1024" for j
    using words_offD(2) [OF t(9) fp(2) _ that(2)] that(1) by simp
  have b6: "pdi2pt s6 ?pd ?pdi = ?pt" using pd6 [OF i(1)] t(11) base_page [OF fp(2)] by (simp add: pdi2pt_def)
  have "served s a ?pd ptfr fr s6"
    unfolding served_def
    using f(2) fr1 t(2,5,7,10,12,13) u st f(6-8) f(9) [OF ne(1) [symmetric]] t(3) M(3) pd6 i b6 pt6 pg B(3) old w by simp
  then show ?thesis using run m by blast
qed

subsection \<open>The handler\<close>

text \<open>A virtual address is mapped when the processor finds it present at both levels, in a page table of the
  directory that lies in a frame of its own.\<close>

definition mapped :: "'a pgstate_scheme \<Rightarrow> addr \<Rightarrow> bool" where
  "mapped s v \<longleftrightarrow> (let pd = prpd (proctab s (currpid s)); pt = pdi2pt s pd (vaddr2pdi v)
     in pd_pres (pde s pd (vaddr2pdi v)) \<and> pt_pres (pte s pt (vaddr2pti v)))"

lemma served_translation:
  assumes S: "served s a pd ptfr fr s'" and pd: "prpd (proctab s' (currpid s')) = pd"
  shows "mapped s' a" "vaddr2paddr a s' = frameNum2ptr fr OR vaddr2offset a"
proof -
  have fr: "fr < NFRAMES" "ptfr < NFRAMES" "pdi2pt s' pd (vaddr2pdi a) = frameNum2ptr ptfr" using S by (simp_all add: served_def)
  show "mapped s' a" using S pd by (simp add: mapped_def served_def Let_def)
  have "pt_base (pte s' (pdi2pt s' pd (vaddr2pdi a)) (vaddr2pti a)) = ucast (drop_bit 12 (frameNum2ptr fr))"
    using S by (simp add: served_def)
  then show "vaddr2paddr a s' = frameNum2ptr fr OR vaddr2offset a"
    using pd base_page [OF paged_frame(2) [OF fr(1)]] by (simp add: vaddr2paddr_def pdi2pt_def Let_def)
qed

lemma served_cong:
  assumes S: "served s a pd ptfr fr s'" and e: "ipt t = ipt s" "words t = words s" "proctab t = proctab s" "currpid t = currpid s" "qrds t = qrds s"
    and e': "ipt t' = ipt s'" "words t' = words s'" "flistHead t' = flistHead s'" "flistTail t' = flistTail s'" "currpolicy t' = currpolicy s'"
  shows "served t a pd ptfr fr t'"
proof -
  have "pte t = pte s" "pde t = pde s" "pte t' = pte s'" "pde t' = pde s'" "pdi2pt t' = pdi2pt s'"
    using e(2) e'(2) by (simp_all add: pte_def pde_def pdi2pt_def fun_eq_iff)
  moreover have "used_frames t = used_frames s" "used_frames t' = used_frames s'" "disk_page t = disk_page s"
    "store_of t = store_of s"
    using e e'(1) by (simp_all add: used_frames_def disk_page_def store_of_def fun_eq_iff)
  moreover have "words_off X t t' = words_off X s s'" for X using e(2) e'(2) by (simp add: words_off_def)
  moreover have "frames_ok t' = frames_ok s'" using e' fqueue_cong [of _ t' s'] by (simp add: frames_ok_def)
  ultimately show ?thesis using S e(1,4) e'(1,2) by (simp add: served_def)
qed

lemma pf_handler_runs:
  fixes s :: "'a pgstate_scheme"
  assumes F: "frames_ok s" "card (used_frames s) < 27" and pd: "prpd (proctab s (currpid s)) = frameNum2ptr pdfr"
    and D: "dir_ok s pdfr (vaddr2pdi (cr2 s))" and a: "0x01000000 \<le> cr2 s" "\<not> isInvalidAddr (cr2 s) (currpid s) s"
    and B: "bs_ready s b page" "disk_blk b page < 4096" "store_of s (currpid s) (cr2 s) = (b, page)"
    and L: "sem_free s (pf_sem s)" "pf_sem s \<noteq> bs_sem s"
  shows "\<exists>ptfr fr s'. runs (pf_handler (devtab d)) s () s' \<and> served s (cr2 s) (frameNum2ptr pdfr) ptfr fr s' \<and>
    proctab s' = proctab s \<and> currpid s' = currpid s \<and> semtab s' = semtab s \<and> qrds s' = qrds s \<and> pfc s' = pfc s + 1"
proof -
  let ?a = "cr2 s" and ?sem = "pf_sem s" and ?pd = "frameNum2ptr pdfr"
  define s1 where "s1 = s\<lparr>pfc := pfc s + 1\<rparr>"
  define s2 where "s2 = lock ?sem s1"
  have same: "ipt s2 = ipt s" "words s2 = words s" "flistHead s2 = flistHead s" "flistTail s2 = flistTail s" "currpolicy s2 = currpolicy s"
    "proctab s2 = proctab s" "currpid s2 = currpid s" "qrds s2 = qrds s" "bstab s2 = bstab s" "bs_sem s2 = bs_sem s"
    "ps_active s2 = ps_active s" "pf_sem s2 = pf_sem s" "cr2 s2 = cr2 s" "pfc s2 = pfc s + 1" "semtab s2 = semtab (lock ?sem s)"
    by (simp_all add: s2_def s1_def upd_sem_def)
  have pe: "pte s2 = pte s" "pde s2 = pde s" "pdi2pt s2 = pdi2pt s" using same(2) by (simp_all add: pte_def pde_def pdi2pt_def fun_eq_iff)
  have f2: "frames_ok s2" "card (used_frames s2) < 27"
    using F same(1-5) fqueue_cong [of _ s2 s] by (simp_all add: frames_ok_def used_frames_def)
  have "dir_ok s2 pdfr (vaddr2pdi ?a)" using D pe same(1) by (simp add: dir_ok_def)
  moreover have "bs_ready s2 b page" using B(1) L(2) same by (auto simp: bs_ready_def sem_free_def)
  moreover have "store_of s2 (currpid s2) ?a = (b, page)" using B(3) same(6,7) by (simp add: store_of_def)
  ultimately obtain ptfr fr s3 where s3: "runs (pf_service (devtab d) ?a ?pd) s2 () s3" "served s2 ?a ?pd ptfr fr s3" "mem_only s2 s3"
    using pf_service_runs [OF f2 _ a(1) _ B(2)] by blast
  note k3 = mem_onlyD [OF s3(3)]
  define s4 where "s4 = unlock ?sem s3"
  have fs: "sem_free s1 ?sem" using L(1) by (simp add: s1_def sem_free_def)
  have r1: "runs (pmodify (\<lambda>s. s\<lparr>pfc := pfc s + 1\<rparr>)) s () s1" unfolding s1_def by (rule runs_modify) simp
  have r4: "runs (pcall (signal ?sem)) s3 OK s4" unfolding s4_def by (rule runs_signal [OF fs]) (use k3(3) s2_def in simp)
  have g: "cr2 s1 = ?a" "pf_sem s1 = ?sem" by (simp_all add: s1_def)
  have r2: "runs (pcall (wait ?sem)) s1 OK s2" unfolding s2_def by (rule runs_wait [OF fs])
  have g2: "prpd (proctab s2 (currpid s2)) = ?pd" "isInvalidAddr ?a (currpid s2) s2 = False"
    using pd a(2) same(6,7) by (simp_all add: isInvalidAddr_def)
  have tail: "runs (if isInvalidAddr ?a (currpid s2) s2 then pbind (pcall (signal ?sem)) (\<lambda>_. pbind (pgets currpid) (\<lambda>pid. pbind (kill (devtab d) pid) (\<lambda>_. Ret ())))
      else pbind (pf_service (devtab d) ?a ?pd) (\<lambda>_. pbind (pcall (signal ?sem)) (\<lambda>_. Ret ()))) s2 () s4"
    unfolding g2(2) if_False by (rule runs_bind [OF s3(1)], rule runs_bind [OF r4], rule runs_Ret)
  have run: "runs (pf_handler (devtab d)) s () s4" unfolding pf_handler_def
    by (rule runs_bind [OF r1], rule runs_bind [OF runs_gets], rule runs_bind [OF runs_gets], unfold g, rule runs_bind [OF r2],
        rule runs_bind [OF runs_gets], rule runs_bind [OF runs_gets], unfold g2(1), rule tail)
  have "served s ?a ?pd ptfr fr s4"
    by (rule served_cong [OF s3(2)]) (use same in \<open>simp_all add: s4_def upd_sem_def\<close>)
  moreover have "proctab s4 = proctab s" "currpid s4 = currpid s" "qrds s4 = qrds s"
    using k3 same by (simp_all add: s4_def) (simp_all add: upd_sem_def)
  moreover have "semtab s4 = semtab s" using k3(3) same(15) by (simp add: s4_def)
  moreover have "pfc s4 = pfc s + 1" using s3(3) same(14) by (auto simp: s4_def upd_sem_def mem_only_def)
  ultimately show ?thesis using run by blast
qed

end
