(* ===== verification/Eviction.thy ===== *)
theory Eviction
  imports Page_Fault
begin

section \<open>Page replacement\<close>

text \<open>
  When every frame is in use, the FIFO policy takes the frame of the page that has been resident
  longest. \<open>evictFrame\<close> unmaps the page and, when it is dirty, writes it to its place on the disk
  before the frame is used again, so that no modification is lost.
\<close>

subsection \<open>Reference counts of page tables\<close>

lemma init_frame_clear: "init_frame fr type pid vpn (clearFrame fr s) = init_frame fr type pid vpn s"
proof -
  have "upd_ipt fr (\<lambda>e. e\<lparr>fstatus := type, fpid := pid, fvpn := vpn, refCount := 0, nextFrame := EMPTY32, prevFrame := EMPTY32\<rparr>) (clearFrame fr s)
    = upd_ipt fr (\<lambda>e. e\<lparr>fstatus := type, fpid := pid, fvpn := vpn, refCount := 0, nextFrame := EMPTY32, prevFrame := EMPTY32\<rparr>) s"
    by (simp add: clearFrame_def upd_ipt_def)
  then show ?thesis by (simp only: init_frame_def)
qed

text \<open>The table after the reference count of the page table in frame \<open>ptfr\<close> went down.\<close>

lemma decRefCount_spec:
  fixes s :: "'a pgstate_scheme"
  assumes pt: "ptfr < NFRAMES" "fstatus (ipt s ptfr) \<noteq> PAGE" and pd: "paged pd" "pdi < 1024"
  defines "s' \<equiv> decRefCount (frameNum2ptr ptfr) pd pdi s"
  shows "mem_only s s'" "words_off {pd} s s'" "flistHead s' = flistHead s" "flistTail s' = flistTail s" "currpolicy s' = currpolicy s"
    "\<And>x. x \<noteq> ptfr \<Longrightarrow> ipt s' x = ipt s x"
    "refCount (ipt s ptfr) \<noteq> 1 \<Longrightarrow> ipt s' ptfr = (ipt s ptfr)\<lparr>refCount := refCount (ipt s ptfr) - 1\<rparr> \<and> words s' = words s"
    "refCount (ipt s ptfr) = 1 \<Longrightarrow> fstatus (ipt s' ptfr) = NOT_USED \<and> \<not> pd_pres (pde s' pd pdi)"
proof -
  let ?s1 = "upd_ipt ptfr (\<lambda>e. e\<lparr>refCount := refCount e - 1\<rparr>) s"
  let ?s2 = "clearFrame ptfr ?s1"
  let ?s3 = "upd_pde pd pdi (\<lambda>e. e\<lparr>pd_pres := False\<rparr>) ?s2"
  have fr: "freeFrame ptfr ?s1 = ?s2" using pt(2) by (simp add: freeFrame_def)
  have e: "s' = (if refCount (ipt s ptfr) = 1 then ?s3 else ?s1)"
    unfolding s'_def decRefCount_def Let_def faddr_frameNum [OF pt(1)] fr by (simp add: word_le_0_iff)
  have m: "mem_only s ?s1" "mem_only s ?s2"
    unfolding clearFrame_def by (rule upd_ipt_mem, rule mem_only_trans [OF upd_ipt_mem upd_ipt_mem])
  have p: "page_only pd ?s2 ?s3" by (rule page_only_entry(2) [OF pd])
  note same = page_only_same [OF p]
  show "mem_only s s'" unfolding e using m mem_only_trans [OF m(2) page_only_mem [OF p]] by simp
  have w: "words ?s2 = words s" by simp
  show "words_off {pd} s s'" unfolding e using words_off_trans [OF words_off_eq [OF w] words_off_page [OF p]] by (simp add: words_off_def)
  show "flistHead s' = flistHead s" "flistTail s' = flistTail s" "currpolicy s' = currpolicy s" unfolding e using same(2-4) by simp_all
  show "ipt s' x = ipt s x" if "x \<noteq> ptfr" for x unfolding e using same(1) that by simp
  show "refCount (ipt s ptfr) \<noteq> 1 \<Longrightarrow> ipt s' ptfr = (ipt s ptfr)\<lparr>refCount := refCount (ipt s ptfr) - 1\<rparr> \<and> words s' = words s" unfolding e by simp
  show "refCount (ipt s ptfr) = 1 \<Longrightarrow> fstatus (ipt s' ptfr) = NOT_USED \<and> \<not> pd_pres (pde s' pd pdi)"
    unfolding e using same(1) pd by simp
qed

subsection \<open>Eviction\<close>

text \<open>Frame \<open>fr\<close> holds page \<open>a\<close> of process \<open>pid\<close>, mapped by the page table in frame \<open>ptfr\<close> of the directory
  in frame \<open>pdfr\<close>, and its place on the disk is page \<open>page\<close> of store \<open>b\<close>.\<close>

definition resident :: "'a pgstate_scheme \<Rightarrow> u32 \<Rightarrow> addr \<Rightarrow> u32 \<Rightarrow> u32 \<Rightarrow> bool" where
  "resident s fr a ptfr pdfr \<longleftrightarrow> fr < NFRAMES \<and> ptfr < NFRAMES \<and> pdfr < NFRAMES \<and> fr \<noteq> ptfr \<and> fr \<noteq> pdfr \<and> ptfr \<noteq> pdfr \<and>
     a = word_of_int (fvpn (ipt s fr)) * NBPG \<and> prpd (proctab s (fpid (ipt s fr))) = frameNum2ptr pdfr \<and>
     pdi2pt s (frameNum2ptr pdfr) (vaddr2pdi a) = frameNum2ptr ptfr \<and> fstatus (ipt s ptfr) = PTAB"

definition page_dirty :: "'a pgstate_scheme \<Rightarrow> addr \<Rightarrow> u32 \<Rightarrow> bool" where
  "page_dirty s a ptfr \<longleftrightarrow> (let e = pte s (frameNum2ptr ptfr) (vaddr2pti a) in pt_dirty e \<or> pt_avail e = 1)"

definition evicted :: "'a pgstate_scheme \<Rightarrow> u32 \<Rightarrow> addr \<Rightarrow> u32 \<Rightarrow> u32 \<Rightarrow> 'a pgstate_scheme \<Rightarrow> bool" where
  "evicted s fr a ptfr pdfr s' \<longleftrightarrow>
     \<not> pt_pres (pte s' (frameNum2ptr ptfr) (vaddr2pti a)) \<and>
     (case store_of s (fpid (ipt s fr)) a of (b, page) \<Rightarrow>
       (\<forall>k<1024. disk_page s' b page k = (if page_dirty s a ptfr then words s (frameNum2ptr fr + 4 * of_nat k) else disk_page s b page k)) \<and>
       (\<forall>b' page' k. 0 \<le> b' \<and> page' < 200 \<and> k < 1024 \<and> (b', page') \<noteq> (b, page) \<longrightarrow> disk_page s' b' page' k = disk_page s b' page' k)) \<and>
     words_off {frameNum2ptr ptfr, frameNum2ptr pdfr} s s' \<and>
     (\<forall>x. x \<noteq> ptfr \<longrightarrow> ipt s' x = ipt s x) \<and> fstatus (ipt s' ptfr) \<noteq> PAGE \<and>
     (refCount (ipt s ptfr) = 1 \<longrightarrow> fstatus (ipt s' ptfr) = NOT_USED \<and> \<not> pd_pres (pde s' (frameNum2ptr pdfr) (vaddr2pdi a))) \<and>
     (refCount (ipt s ptfr) \<noteq> 1 \<longrightarrow> fstatus (ipt s' ptfr) = PTAB \<and> refCount (ipt s' ptfr) = refCount (ipt s ptfr) - 1) \<and>
     flistHead s' = flistHead s \<and> flistTail s' = flistTail s \<and> currpolicy s' = currpolicy s \<and>
     proctab s' = proctab s \<and> currpid s' = currpid s \<and> semtab s' = semtab s \<and> bstab s' = bstab s \<and>
     bs_sem s' = bs_sem s \<and> ps_active s' = ps_active s"

lemma evictFrame_runs:
  fixes s :: "'a pgstate_scheme"
  assumes R: "resident s fr a ptfr pdfr" and a: "0x01000000 \<le> a"
    and B: "store_of s (fpid (ipt s fr)) a = (b, page)" "bs_ready s b page" "disk_blk b page < 4096"
  shows "\<exists>s'. runs (evictFrame (devtab d) fr) s () s' \<and> evicted s fr a ptfr pdfr s'"
proof -
  let ?pid = "fpid (ipt s fr)" and ?pd = "frameNum2ptr pdfr" and ?pt = "frameNum2ptr ptfr"
  let ?pdi = "vaddr2pdi a" and ?pti = "vaddr2pti a"
  have r: "fr < NFRAMES" "ptfr < NFRAMES" "pdfr < NFRAMES" "fr \<noteq> ptfr" "fr \<noteq> pdfr" "ptfr \<noteq> pdfr"
    "prpd (proctab s ?pid) = ?pd" "pdi2pt s ?pd ?pdi = ?pt" "fstatus (ipt s ptfr) = PTAB" "a = word_of_int (fvpn (ipt s fr)) * NBPG"
    using R unfolding resident_def by blast+
  note i = vaddr_parts(2,3) [of a]
  have pg: "paged ?pd" "paged ?pt" "paged (frameNum2ptr fr)" using paged_frame(2) r(1-3) by blast+
  have ne: "?pt \<noteq> ?pd" "frameNum2ptr fr \<noteq> ?pt" "frameNum2ptr fr \<noteq> ?pd" using frameNum2ptr_inj r(1-6) by blast+
  define s1 where "s1 = upd_pte ?pt ?pti (\<lambda>e. e\<lparr>pt_pres := False\<rparr>) s"
  have p1: "page_only ?pt s s1" unfolding s1_def by (rule page_only_entry(1) [OF pg(2) i(2)])
  note k1 = page_only_same [OF p1]
  define s2 where "s2 = decRefCount ?pt ?pd ?pdi s1"
  have st1: "fstatus (ipt s1 ptfr) \<noteq> PAGE" using k1(1) r(9) by simp
  note D = decRefCount_spec [OF r(2) st1 pg(1) i(1), folded s2_def]
  have w2: "words_off {?pt, ?pd} s s2" using words_off_trans [OF words_off_page [OF p1] D(2)] by (simp add: insert_commute)
  have e2: "pte s2 ?pt ?pti = (pte s ?pt ?pti)\<lparr>pt_pres := False\<rparr>"
    using words_offD(2) [OF D(2) pg(2) _ i(2)] ne(1) pg(2) i(2) by (simp add: s1_def)
  have m2: "mem_only s s2" by (rule mem_only_trans [OF page_only_mem [OF p1] D(1)])
  note k2 = mem_onlyD [OF m2]
  have nf: "fstatus (ipt s2 ptfr) \<noteq> PAGE" using D(7,8) k1(1) r(9) by (cases "refCount (ipt s ptfr) = 1") auto
  have E2: "evicted s fr a ptfr pdfr s2" if "\<not> page_dirty s a ptfr"
    using that nf e2 w2 D(3-8) k1 k2 r(9) by (auto simp: evicted_def B(1) disk_page_def)
  have ready: "bs_ready s2 b page" using B(2) k2 by (simp add: bs_ready_def sem_free_def)
  obtain s3 where W: "runs (write_bs (devtab d) (frameNum2ptr fr) b page) s2 OK s3" "s3 = s2\<lparr>qrds := qrds s3\<rparr>"
    "\<And>k. k < 1024 \<Longrightarrow> disk_page s3 b page k = words s2 (frameNum2ptr fr + 4 * of_nat k)"
    "\<And>b' page' k. 0 \<le> b' \<Longrightarrow> page' < 200 \<Longrightarrow> k < 1024 \<Longrightarrow> (b', page') \<noteq> (b, page) \<Longrightarrow> disk_page s3 b' page' k = disk_page s2 b' page' k"
    by (rule write_bs_runs [OF ready B(3), of d "frameNum2ptr fr"]) blast
  define s4 where "s4 = upd_pte ?pt ?pti (\<lambda>e. e\<lparr>pt_dirty := False\<rparr>) s3"
  define s5 where "s5 = upd_pte ?pt ?pti (\<lambda>e. e\<lparr>pt_avail := 0\<rparr>) s4"
  have p5: "page_only ?pt s3 s5" unfolding s5_def s4_def by (rule page_only_trans [OF page_only_entry(1) page_only_entry(1)]) (use pg(2) i(2) in simp_all)
  have k3: "words s3 = words s2" "ipt s3 = ipt s2" "flistHead s3 = flistHead s2" "flistTail s3 = flistTail s2" "currpolicy s3 = currpolicy s2"
    "proctab s3 = proctab s2" "currpid s3 = currpid s2" "semtab s3 = semtab s2" "bstab s3 = bstab s2"
    "bs_sem s3 = bs_sem s2" "ps_active s3 = ps_active s2" by (subst W(2), simp)+
  note k5 = page_only_same [OF p5] mem_onlyD [OF page_only_mem [OF p5]]
  have w5: "words_off {?pt, ?pd} s s5" "words_off {?pt} s2 s5"
    using w2 words_off_page [OF p5] k3(1) by (auto simp: words_off_def)
  have new: "disk_page s5 b page k = words s (frameNum2ptr fr + 4 * of_nat k)" if "k < 1024" for k
    using W(3) [OF that] words_offD(1) [OF w2 pg(3) _ of_nat_small [OF that]] ne k5 by (simp add: disk_page_def)
  have old: "disk_page s5 b' page' k = disk_page s b' page' k" if "0 \<le> b'" "page' < 200" "k < 1024" "(b', page') \<noteq> (b, page)" for b' page' k
    using W(4) [OF that] k2(7) k5 by (simp add: disk_page_def)
  have e5: "pte s5 ?pt ?pti = (pte s3 ?pt ?pti)\<lparr>pt_dirty := False, pt_avail := 0\<rparr>" using pg(2) i(2) by (simp add: s5_def s4_def)
  have d5: "pde s5 ?pd ?pdi = pde s2 ?pd ?pdi" using words_offD(3) [OF w5(2) pg(1) _ i(1)] ne(1) by simp
  have E5: "evicted s fr a ptfr pdfr s5" if "page_dirty s a ptfr"
    using that nf e5 e2 k3 w5 D(3-8) k1 k2 k5 r(9) new old d5 by (simp add: evicted_def B(1) pte_def)
  have r1: "runs (pmodify (upd_pte ?pt ?pti (\<lambda>e. e\<lparr>pt_pres := False\<rparr>))) s () s1"
    unfolding s1_def by (rule runs_modify) (simp add: upd_pte_def)
  have r2: "runs (pmodify (decRefCount ?pt ?pd ?pdi)) s1 () s2"
    unfolding s2_def by (rule runs_modify) (use k1(8) k2(2) s2_def in simp)
  have r4: "runs (pmodify (upd_pte ?pt ?pti (\<lambda>e. e\<lparr>pt_dirty := False\<rparr>))) s3 () s4"
    "runs (pmodify (upd_pte ?pt ?pti (\<lambda>e. e\<lparr>pt_avail := 0\<rparr>))) s4 () s5"
    unfolding s4_def s5_def by (rule runs_modify, simp add: upd_pte_def)+
  have rc: "runs (pcall (\<lambda>s. map_option (\<lambda>r. (r, s)) (get_bs_info ?pid a s))) s2 (OK, b, page) s2"
    by (rule runs_call) (use get_bs_info_spec [OF a, of ?pid s2] B(1) k2(1) in \<open>simp_all add: store_of_def\<close>)
  have d2: "(pt_dirty (pte s2 ?pt ?pti) \<or> pt_avail (pte s2 ?pt ?pti) = 1) = page_dirty s a ptfr" by (simp add: e2 page_dirty_def Let_def)
  let ?rest = "\<lambda>x. if x then
       pbind (pcall (\<lambda>s. map_option (\<lambda>r. (r, s)) (get_bs_info ?pid a s))) (\<lambda>(st, bsd, offset).
       pbind (if st = SYSERR then pbind (pgets currpid) (kill (devtab d)) else Ret OK) (\<lambda>_.
       pbind (write_bs (devtab d) (frameNum2ptr fr) bsd offset) (\<lambda>st. if st = SYSERR then panic
       else pbind (pmodify (upd_pte ?pt ?pti (\<lambda>e. e\<lparr>pt_dirty := False\<rparr>))) (\<lambda>_.
         pmodify (upd_pte ?pt ?pti (\<lambda>e. e\<lparr>pt_avail := 0\<rparr>))))))
     else Ret ()"
  have run: "runs (evictFrame (devtab d) fr) s () u" if "runs (?rest (page_dirty s a ptfr)) s2 () u" for u
    unfolding evictFrame_def
    by (rule runs_bind [OF runs_gets], unfold prod.case, rule runs_bind [OF runs_gets], unfold Let_def r(7) r(10) [symmetric],
        rule runs_bind [OF runs_gets], unfold r(8), rule runs_bind [OF r1], rule runs_bind [OF r2], rule runs_bind [OF runs_gets],
        unfold d2, rule that)
  show ?thesis
  proof (cases "page_dirty s a ptfr")
    case True
    have "runs (?rest True) s2 () s5"
      unfolding if_True by (rule runs_bind [OF rc], unfold prod.case, simp, rule runs_bind [OF W(1)], simp, rule runs_bind [OF r4(1)], rule r4(2))
    then show ?thesis using run [of s5] E5 True by auto
  next
    case False
    then show ?thesis using run [of s2] E2 runs_Ret [of "()" s2] by auto
  qed
qed

subsection \<open>A frame when none is free\<close>

lemma pickFrameFIFO_only: "pickFrameFIFO s = Some (fr, s') \<Longrightarrow> ipt_only s s'"
  by (auto simp: pickFrameFIFO_def ipt_only_def upd_ipt_def Let_def split: if_splits)

lemma pickFrameFIFO_refCount: "pickFrameFIFO s = Some (fr, s') \<Longrightarrow> refCount (ipt s' x) = refCount (ipt s x)"
  by (auto simp: pickFrameFIFO_def upd_ipt_def Let_def split: if_splits)

lemma fifo_search_full:
  assumes "used_frames s = {fr. fr < NFRAMES}"
  obtains n where "fifo_search 28 nf (ipt s) = (None, n)"
proof -
  obtain r n where r: "fifo_search 28 nf (ipt s) = (r, n)" by (cases "fifo_search 28 nf (ipt s)")
  then have "r = None" using fifo_search_Some [of 28 nf "ipt s" _ n] assms by (cases r) (auto simp: used_frames_def)
  then show thesis using that r by blast
qed

text \<open>What holds of the state after the oldest page, in frame \<open>v\<close>, has made room.\<close>

definition replaced :: "'a pgstate_scheme \<Rightarrow> u32 \<Rightarrow> addr \<Rightarrow> u32 \<Rightarrow> u32 \<Rightarrow> 'a pgstate_scheme \<Rightarrow> bool" where
  "replaced s v a ptfr pdfr s' \<longleftrightarrow> frames_ok s' \<and>
     \<not> pt_pres (pte s' (frameNum2ptr ptfr) (vaddr2pti a)) \<and>
     (case store_of s (fpid (ipt s v)) a of (b, page) \<Rightarrow>
       (\<forall>k<1024. disk_page s' b page k = (if page_dirty s a ptfr then words s (frameNum2ptr v + 4 * of_nat k) else disk_page s b page k)) \<and>
       (\<forall>b' page' k. 0 \<le> b' \<and> page' < 200 \<and> k < 1024 \<and> (b', page') \<noteq> (b, page) \<longrightarrow> disk_page s' b' page' k = disk_page s b' page' k)) \<and>
     words_off {frameNum2ptr ptfr, frameNum2ptr pdfr} s s' \<and>
     (refCount (ipt s ptfr) = 1 \<longrightarrow> fstatus (ipt s' ptfr) = NOT_USED \<and> \<not> pd_pres (pde s' (frameNum2ptr pdfr) (vaddr2pdi a))) \<and>
     (refCount (ipt s ptfr) \<noteq> 1 \<longrightarrow> fstatus (ipt s' ptfr) = PTAB) \<and>
     (\<forall>x. x \<noteq> ptfr \<and> x \<noteq> v \<longrightarrow> fstatus (ipt s' x) = fstatus (ipt s x)) \<and>
     proctab s' = proctab s \<and> currpid s' = currpid s \<and> semtab s' = semtab s \<and> bstab s' = bstab s \<and>
     bs_sem s' = bs_sem s \<and> ps_active s' = ps_active s"

lemma getNewFrame_full:
  fixes s :: "'a pgstate_scheme"
  assumes full: "used_frames s = {fr. fr < NFRAMES}" and pol: "currpolicy s = FIFO" and Q: "fqueue s (xs @ [v])"
    and P: "\<And>x. x < NFRAMES \<Longrightarrow> x \<in> set (xs @ [v]) \<longleftrightarrow> fstatus (ipt s x) = PAGE"
    and R: "resident s v a ptfr pdfr" and a: "0x01000000 \<le> a"
    and B: "store_of s (fpid (ipt s v)) a = (b, page)" "bs_ready s b page" "disk_blk b page < 4096"
  shows "\<exists>s'. runs (getNewFrame (devtab d) type pid vpn) s (frameNum2ptr v) s' \<and> replaced s v a ptfr pdfr s' \<and>
    fstatus (ipt s' v) = type \<and> fpid (ipt s' v) = pid \<and> fvpn (ipt s' v) = vpn"
proof -
  obtain n where n: "fifo_search 28 (nextframe_fifo s) (ipt s) = (None, n)" by (rule fifo_search_full [OF full])
  let ?s1 = "s\<lparr>nextframe_fifo := n\<rparr>"
  have "fqueue ?s1 (xs @ [v])" using Q by (simp add: fqueue_def)
  then obtain s2 where s2: "pickFrameFIFO ?s1 = Some (v, s2)" "fqueue s2 xs" "currpolicy s2 = currpolicy ?s1"
    "\<And>x. fstatus (ipt s2 x) = fstatus (ipt ?s1 x) \<and> fpid (ipt s2 x) = fpid (ipt ?s1 x) \<and> fvpn (ipt s2 x) = fvpn (ipt ?s1 x)"
    by (rule fqueue_pick) blast
  have m2: "mem_only s s2"
    using mem_only_trans [OF ipt_only_mem ipt_only_mem [OF pickFrameFIFO_only [OF s2(1)]], of s] by (simp add: ipt_only_def)
  have w2: "words s2 = words s" using ipt_onlyD(1) [OF pickFrameFIFO_only [OF s2(1)]] by simp
  note k2 = mem_onlyD [OF m2]
  have pe: "pte s2 = pte s" "pde s2 = pde s" "pdi2pt s2 = pdi2pt s" "disk_page s2 = disk_page s" "store_of s2 = store_of s"
    using w2 k2 by (simp_all add: pte_def pde_def pdi2pt_def disk_page_def store_of_def fun_eq_iff)
  have v2: "fstatus (ipt s2 x) = fstatus (ipt s x)" "fpid (ipt s2 x) = fpid (ipt s x)" "fvpn (ipt s2 x) = fvpn (ipt s x)" for x
    using s2(4) by simp_all
  have R2: "resident s2 v a ptfr pdfr" using R unfolding resident_def k2(1) pe(3) v2 .
  have B2: "store_of s2 (fpid (ipt s2 v)) a = (b, page)" "bs_ready s2 b page"
    using B(1,2) v2 pe(5) k2 by (simp_all add: bs_ready_def sem_free_def)
  obtain s3 where s3: "runs (evictFrame (devtab d) v) s2 () s3" "evicted s2 v a ptfr pdfr s3"
    using evictFrame_runs [OF R2 a B2 B(3)] by blast
  have r: "v < NFRAMES" "ptfr < NFRAMES" "v \<noteq> ptfr" "fstatus (ipt s ptfr) = PTAB" using R unfolding resident_def by blast+
  have x: "ptfr \<notin> set xs" "v \<notin> set xs" "v \<noteq> SYSERR32"
    using P [OF r(2)] r(4) Q frame_not_empty [OF r(1)] by (auto simp: fqueue_def)
  have Q3: "fqueue s3 xs"
  proof -
    have "ipt s3 y = ipt s2 y" if "y \<in> set xs" for y using s3(2) x(1) that unfolding evicted_def by metis
    then show ?thesis using fqueue_cong [of xs s3 s2] s2(2) s3(2) unfolding evicted_def by simp
  qed
  have st3: "fstatus (ipt s3 y) = fstatus (ipt s y)" if "y \<noteq> ptfr" for y using s3(2) s2(4) that unfolding evicted_def by simp
  have "frames_ok (clearFrame v s3)"
  proof (rule frames_ok_clear [OF Q3 x(2)])
    show "currpolicy s3 = FIFO" using s3(2) k2(9) pol unfolding evicted_def by simp
    show "y \<in> set xs \<longleftrightarrow> fstatus (ipt s3 y) = PAGE" if "y < NFRAMES" "y \<noteq> v" for y
      using P [OF that(1)] that(2) st3 [of y] x(1) s3(2) unfolding evicted_def by (cases "y = ptfr") auto
  qed
  note I = init_frame_ok [OF this r(1), where type = type and pid = pid and vpn = vpn, unfolded init_frame_clear]
  let ?s4 = "init_frame v type pid vpn s3"
  have o4: "ipt_only s3 ?s4" using init_frame_only [of s3 v type pid vpn "nextframe_fifo s3"] by simp
  note k4 = ipt_onlyD [OF o4] mem_onlyD [OF ipt_only_mem [OF o4]]
  have r1: "runs (plift (\<lambda>s. let (fr, n) = fifo_search (unat NFRAMES) (nextframe_fifo s) (ipt s) in (fr, s\<lparr>nextframe_fifo := n\<rparr>))) s None ?s1"
    by (rule runs_lift) (simp_all add: n)
  have r2: "runs (pcall pickFrame) ?s1 v s2" by (rule runs_call) (use s2(1) pol k2(2) in \<open>simp_all add: pickFrame_def\<close>)
  have r3: "runs (pmodify (init_frame v type pid vpn)) s3 () ?s4" by (rule runs_modify) (rule k4(3))
  have "runs (getNewFrameFIFO (devtab d) type pid vpn) s (frameNum2ptr v) ?s4" unfolding getNewFrameFIFO_def
    by (rule runs_bind [OF r1], unfold option.case, rule runs_bind [OF r2], unfold if_not_P [OF x(3)], rule runs_bind [OF s3(1)],
        rule runs_bind [OF r3], rule runs_Ret)
  then have run: "runs (getNewFrame (devtab d) type pid vpn) s (frameNum2ptr v) ?s4"
    unfolding getNewFrame_def using pol by (intro runs_bind [OF runs_gets]) simp
  have "disk_page ?s4 = disk_page s3" "page_dirty s2 = page_dirty s" "words_off X s ?s4 = words_off X s2 s3" for X
    using k4 w2 pe(1) by (simp_all add: disk_page_def page_dirty_def words_off_def fun_eq_iff)
  moreover have "fstatus (ipt ?s4 y) = fstatus (ipt s y)" if "y \<noteq> ptfr" "y \<noteq> v" for y
    using I(5) [OF _ that(2)] st3 [OF that(1)] that(2) by simp
  moreover have "fstatus (ipt ?s4 ptfr) = fstatus (ipt s3 ptfr)" "refCount (ipt s2 ptfr) = refCount (ipt s ptfr)"
    using I(5) [of ptfr] r(3) pickFrameFIFO_refCount [OF s2(1)] by simp_all
  ultimately have "replaced s v a ptfr pdfr ?s4"
    using s3(2) I(1) k4 k2 B2(1) w2 pe B(1) unfolding evicted_def replaced_def by simp
  then show ?thesis using run I by auto
qed

subsection \<open>A fault that takes away its own page table\<close>

text \<open>The handler reads the page table of the faulting address before it asks for a frame. When the page that
  makes room is the only one of that very table, the table is released and its directory entry is
  marked absent; the handler still maps the new page in it, and the address stays unmapped.\<close>

lemma fault_loses_table:
  fixes s :: "'a pgstate_scheme"
  assumes full: "used_frames s = {fr. fr < NFRAMES}" and pol: "currpolicy s = FIFO" and Q: "fqueue s (xs @ [v])"
    and P: "\<And>x. x < NFRAMES \<Longrightarrow> x \<in> set (xs @ [v]) \<longleftrightarrow> fstatus (ipt s x) = PAGE"
    and R: "resident s v a ptfr pdfr" "refCount (ipt s ptfr) = 1" and a: "0x01000000 \<le> a" "0x01000000 \<le> a'"
    and same: "vaddr2pdi a' = vaddr2pdi a" "prpd (proctab s (currpid s)) = frameNum2ptr pdfr" "pd_pres (pde s (frameNum2ptr pdfr) (vaddr2pdi a))"
    and B: "store_of s (fpid (ipt s v)) a = (b, page)" "bs_ready s b page" "disk_blk b page < 4096"
    and B': "store_of s (currpid s) a' = (b', page')" "bs_ready s b' page'" "disk_blk b' page' < 4096"
  shows "\<exists>s'. runs (pf_service (devtab d) a' (frameNum2ptr pdfr)) s () s' \<and> \<not> mapped s' a' \<and> fstatus (ipt s' ptfr) = NOT_USED"
proof -
  let ?pd = "frameNum2ptr pdfr" and ?pt = "frameNum2ptr ptfr" and ?f = "frameNum2ptr v" and ?pdi = "vaddr2pdi a'" and ?pti = "vaddr2pti a'"
  obtain s1 where s1: "runs (getNewFrame (devtab d) PAGE (currpid s) (sint (vaddr2vpn a'))) s ?f s1" "replaced s v a ptfr pdfr s1"
    using getNewFrame_full [OF full pol Q P R(1) a(1) B] by blast
  have r: "v < NFRAMES" "ptfr < NFRAMES" "pdfr < NFRAMES" "v \<noteq> pdfr" "ptfr \<noteq> pdfr" "pdi2pt s ?pd (vaddr2pdi a) = ?pt"
    using R(1) unfolding resident_def by blast+
  have pg: "paged ?f" "paged ?pt" "paged ?pd" "?f \<noteq> ?pd" "?pt \<noteq> ?pd" using paged_frame(2) frameNum2ptr_inj r(1-5) by blast+
  have k1: "proctab s1 = proctab s" "currpid s1 = currpid s" "bs_ready s1 b' page'" "frames_ok s1" "fstatus (ipt s1 ptfr) = NOT_USED"
    "\<not> pd_pres (pde s1 ?pd ?pdi)"
    using s1(2) R(2) same(1) B'(2) by (simp_all add: replaced_def bs_ready_def sem_free_def)
  obtain s2 where s2: "runs (read_bs (devtab d) ?f b' page') s1 OK s2" "page_only ?f s1 s2"
    by (rule read_bs_runs [OF k1(3) B'(3) pg(1)]) blast
  define s3 where "s3 = set_PTE_addr ?pt ?pti ?f (upd_pte ?pt ?pti (\<lambda>e. e\<lparr>pt_pres := True\<rparr>) (incRefCount ?pt s2))"
  have ok2: "frames_ok s2" using frames_ok_page_only [OF s2(2)] k1(4) by simp
  note M = map_page [OF r(2) vaddr_parts(3) [of a'] ok2, where f = ?f, folded s3_def]
  note i = vaddr_parts(2) [of a']
  have "pde s3 ?pd ?pdi = pde s1 ?pd ?pdi"
    using words_offD(3) [OF M(2) pg(3) _ i] page_onlyD(3) [OF s2(2) pg(3) _ i] pg(4,5) by auto
  moreover have "proctab s3 = proctab s" "currpid s3 = currpid s"
    using mem_onlyD(1,2) [OF mem_only_trans [OF page_only_mem [OF s2(2)] M(1)]] k1(1,2) by simp_all
  ultimately have nm: "\<not> mapped s3 a'" using k1(6) same(2) by (simp add: mapped_def Let_def)
  have st: "fstatus (ipt s3 ptfr) = NOT_USED" using M(4) page_only_same(1) [OF s2(2)] k1(5) by simp
  have rc: "runs (pcall (\<lambda>s'. map_option (\<lambda>r. (r, s')) (get_bs_info (currpid s) a' s'))) s1 (OK, b', page') s1"
    by (rule runs_call) (use get_bs_info_spec [OF a(2), of "currpid s" s1] B'(1) k1(1) in \<open>simp_all add: store_of_def\<close>)
  have "runs (pf_service (devtab d) a' ?pd) s () s3"
    unfolding s3_def by (rule pf_service_steps [OF _ s1(1) rc s2(1)]) (use r(6) same runs_Ret in \<open>auto\<close>)
  then show ?thesis using nm st by blast
qed

end
