(* ===== verification/Frame_Machine.thy ===== *)
theory Frame_Machine
  imports Eviction
begin

section \<open>Everything that happens to the frames\<close>

text \<open>
  The inverted page table as a machine. Its operations are the calls that touch it: \<open>getNewFrame\<close> with page replacement,
  \<open>incRefCount\<close>, \<open>freeProcFrames\<close> and \<open>srpolicy\<close>; \<open>Elsewhere g\<close> stands for all other code of
  the kernel and for the programs, which may change memory, page tables, the process table, semaphores, disks and backing stores in
  any way but not the table, its queue or the policy. The invariant is \<open>frames_ok\<close>, for the FIFO policy with which the
  system boots.
\<close>

datatype 's frame_op = New_frame int pid32 int | Count_up addr | Free_proc pid32 | Policy int | Elsewhere "'s \<Rightarrow> 's"

definition frame_exec :: "'a pgstate_scheme devtab_t \<Rightarrow> 'a pgstate_scheme frame_op \<Rightarrow> 'a pgstate_scheme \<Rightarrow> 'a pgstate_scheme option" where
  "frame_exec d c s = (case c of
     New_frame type pid vpn \<Rightarrow> (case run (getNewFrame (devtab d) type pid vpn) s of Some (Inl _, s') \<Rightarrow> Some s' | _ \<Rightarrow> None)
   | Count_up pt \<Rightarrow> Some (incRefCount pt s)
   | Free_proc pid \<Rightarrow> Some (freeProcFrames pid s)
   | Policy p \<Rightarrow> Some (snd (srpolicy p s))
   | Elsewhere g \<Rightarrow> Some (g s))"

text \<open>The oldest page is in the page table of its process, and its place on the disk can be written.\<close>

definition evictable :: "'a pgstate_scheme \<Rightarrow> bool" where
  "evictable s \<longleftrightarrow> (\<exists>xs v a ptfr pdfr b page. fqueue s (xs @ [v]) \<and> resident s v a ptfr pdfr \<and> 0x01000000 \<le> a \<and>
     store_of s (fpid (ipt s v)) a = (b, page) \<and> bs_ready s b page \<and> disk_blk b page < 4096)"

definition same_frames :: "'a pgstate_scheme \<Rightarrow> 'a pgstate_scheme \<Rightarrow> bool" where
  "same_frames s s' \<longleftrightarrow> ipt s' = ipt s \<and> flistHead s' = flistHead s \<and> flistTail s' = flistTail s \<and> currpolicy s' = currpolicy s"

text \<open>A frame may be asked for at any time; when none is free but some page is resident, the oldest one has to be
  evictable. The policy is not changed to GCA.\<close>

fun frame_allowed :: "'a pgstate_scheme frame_op \<Rightarrow> 'a pgstate_scheme \<Rightarrow> bool" where
  "frame_allowed (New_frame type pid vpn) s \<longleftrightarrow>
     (\<forall>fr<NFRAMES. fstatus (ipt s fr) \<noteq> NOT_USED) \<and> (\<exists>fr<NFRAMES. fstatus (ipt s fr) = PAGE) \<longrightarrow> evictable s"
| "frame_allowed (Count_up pt) s \<longleftrightarrow> True"
| "frame_allowed (Free_proc pid) s \<longleftrightarrow> 0 \<le> pid"
| "frame_allowed (Policy p) s \<longleftrightarrow> p \<noteq> GCA"
| "frame_allowed (Elsewhere g) s \<longleftrightarrow> same_frames s (g s)"

subsection \<open>Each of them keeps the queue\<close>

lemma fchain_determined:
  assumes "fchain t (a # xs)" "fchain t (a # ys)" and "nextFrame (t (last (a # xs))) = EMPTY32" "nextFrame (t (last (a # ys))) = EMPTY32"
    and "EMPTY32 \<notin> set xs" "EMPTY32 \<notin> set ys"
  shows "xs = ys"
  using assms
proof (induction xs arbitrary: a ys)
  case Nil
  then show ?case by (cases ys) auto
next
  case (Cons x xs)
  obtain y ys' where ys: "ys = y # ys'" using Cons.prems by (cases ys) auto
  then have "y = x" using Cons.prems by simp
  then show ?case using Cons.IH [of x ys'] Cons.prems ys by simp
qed

lemma fqueue_unique:
  assumes "fqueue s xs" "fqueue s ys"
  shows "xs = ys"
proof (cases "xs = [] \<or> ys = []")
  case True
  have "zs = [] \<longleftrightarrow> flistHead s = EMPTY32" if "fqueue s zs" for zs
    using that frame_not_empty [of "hd zs"] hd_in_set [of zs] unfolding fqueue_def by (metis mem_Collect_eq subsetD)
  then show ?thesis using True assms by blast
next
  case False
  have e: "EMPTY32 \<notin> set zs" if "fqueue s zs" for zs using that frame_not_empty [of EMPTY32] by (auto simp: fqueue_def)
  obtain a as b bs where l: "xs = a # as" "ys = b # bs" using False by (meson neq_Nil_conv)
  have ab: "a = b" using assms l by (simp add: fqueue_def)
  have "EMPTY32 \<notin> set as" "EMPTY32 \<notin> set bs" using e [OF assms(1)] e [OF assms(2)] by (simp_all add: l)
  moreover have "fchain (ipt s) (a # as)" "fchain (ipt s) (a # bs)" "nextFrame (ipt s (last (a # as))) = EMPTY32"
    "nextFrame (ipt s (last (a # bs))) = EMPTY32" using assms ab unfolding fqueue_def l by simp_all
  ultimately show ?thesis using fchain_determined [of "ipt s" a as bs] ab l by blast
qed

lemma frames_ok_same: "same_frames s s' \<Longrightarrow> frames_ok s' = frames_ok s"
  using fqueue_cong [of _ s' s] by (simp add: frames_ok_def same_frames_def)

lemma getNewFrame_no_page:
  assumes F: "frames_ok s" and full: "\<forall>fr<NFRAMES. fstatus (ipt s fr) \<notin> {NOT_USED, PAGE}"
  obtains n where "runs (getNewFrame dt type pid vpn) s SYSERR32 (s\<lparr>nextframe_fifo := n\<rparr>)"
proof -
  from F obtain xs where xs: "currpolicy s = FIFO" "fqueue s xs" "\<And>x. x < NFRAMES \<Longrightarrow> x \<in> set xs \<longleftrightarrow> fstatus (ipt s x) = PAGE"
    by (auto simp: frames_ok_def)
  have "set xs \<subseteq> {fr. fr < NFRAMES}" using xs(2) by (simp add: fqueue_def)
  then have "x \<notin> set xs" for x using xs(3) [of x] full by blast
  then have "xs = []" by (meson hd_in_set)
  then have q: "flistHead s = EMPTY32" "flistTail s = EMPTY32" using xs(2) by (simp_all add: fqueue_def)
  have "used_frames s = {fr. fr < NFRAMES}" using full by (auto simp: used_frames_def)
  then obtain n where n: "fifo_search 28 (nextframe_fifo s) (ipt s) = (None, n)" by (rule fifo_search_full)
  let ?s1 = "s\<lparr>nextframe_fifo := n\<rparr>"
  have r1: "runs (plift (\<lambda>s. let (fr, n) = fifo_search (unat NFRAMES) (nextframe_fifo s) (ipt s) in (fr, s\<lparr>nextframe_fifo := n\<rparr>))) s None ?s1"
    by (rule runs_lift) (simp_all add: n)
  have r2: "runs (pcall pickFrame) ?s1 SYSERR32 ?s1" by (rule runs_call) (use q xs(1) in \<open>simp_all add: pickFrame_def pickFrameFIFO_def\<close>)
  have "runs (getNewFrameFIFO dt type pid vpn) s SYSERR32 ?s1" unfolding getNewFrameFIFO_def
    by (rule runs_bind [OF r1], unfold option.case, rule runs_bind [OF r2], simp, rule runs_Ret)
  then have "runs (getNewFrame dt type pid vpn) s SYSERR32 ?s1"
    unfolding getNewFrame_def using xs(1) by (intro runs_bind [OF runs_gets]) simp
  then show thesis by (rule that)
qed

lemma getNewFrame_ok:
  assumes F: "frames_ok s" and a: "frame_allowed (New_frame type pid vpn) s"
  shows "\<exists>r s'. runs (getNewFrame (devtab d) type pid vpn) s r s' \<and> frames_ok s'"
proof (cases "\<exists>fr<NFRAMES. fstatus (ipt s fr) = NOT_USED")
  case True
  then show ?thesis using getNewFrame_free [OF F, of _ "devtab d" type pid vpn] by metis
next
  case full: False
  show ?thesis
  proof (cases "\<exists>fr<NFRAMES. fstatus (ipt s fr) = PAGE")
    case True
    then have "evictable s" using a full by auto
    then obtain xs v a ptfr pdfr b page where v: "fqueue s (xs @ [v])" "resident s v a ptfr pdfr" "0x01000000 \<le> a"
      "store_of s (fpid (ipt s v)) a = (b, page)" "bs_ready s b page" "disk_blk b page < 4096" unfolding evictable_def by blast
    obtain ys where ys: "currpolicy s = FIFO" "fqueue s ys" "\<And>x. x < NFRAMES \<Longrightarrow> x \<in> set ys \<longleftrightarrow> fstatus (ipt s x) = PAGE"
      using F by (auto simp: frames_ok_def)
    have "ys = xs @ [v]" by (rule fqueue_unique [OF ys(2) v(1)])
    moreover have "used_frames s = {fr. fr < NFRAMES}" using full by (auto simp: used_frames_def)
    ultimately show ?thesis using getNewFrame_full [OF _ ys(1) v(1) _ v(2-6), of d type pid vpn] ys(3)
      unfolding replaced_def by blast
  next
    case False
    then show ?thesis using getNewFrame_no_page [OF F, of "devtab d" type pid vpn] full F by (metis frames_ok_nextframe insert_iff singletonD)
  qed
qed

lemma frame_exec_ok:
  assumes F: "frames_ok s" and a: "frame_allowed c s"
  shows "\<exists>s'. frame_exec d c s = Some s' \<and> frames_ok s'"
proof (cases c)
  case (New_frame type pid vpn)
  then show ?thesis using getNewFrame_ok [OF F, of type pid vpn d] a by (auto simp: frame_exec_def runs_def)
next
  case (Count_up pt)
  then show ?thesis using F by (simp add: frame_exec_def incRefCount_def frames_ok_refCount)
next
  case (Free_proc pid)
  then show ?thesis using freeProcFrames_spec(1) [OF F, of pid] a by (auto simp: frame_exec_def)
next
  case (Policy p)
  have pol: "currpolicy s = FIFO" using F by (simp add: frames_ok_def)
  show ?thesis
  proof (cases "p = FIFO")
    case True
    have "same_frames s (s\<lparr>currpolicy := FIFO\<rparr>)" using pol by (simp add: same_frames_def)
    then show ?thesis using frames_ok_same F Policy True by (fastforce simp: frame_exec_def srpolicy_def)
  next
    case False
    then show ?thesis using Policy a F by (simp add: frame_exec_def srpolicy_def)
  qed
next
  case (Elsewhere g)
  then show ?thesis using frames_ok_same [of s "g s"] F a by (simp add: frame_exec_def)
qed

interpretation fm: machine "frame_exec d" frame_allowed frames_ok for d
  by unfold_locales (rule frame_exec_ok)

subsection \<open>A change of policy\<close>

text \<open>The switch to the clock algorithm keeps the queue as it is, and the clock algorithm never looks at it: a frame that
  is returned meanwhile stays on the queue, and a page that comes in is not put on it. Back under the FIFO policy the queue is wrong.\<close>

lemma policy_switch_stale:
  assumes F: "frames_ok s" and fr: "fr < NFRAMES" "fstatus (ipt s fr) = PAGE"
  defines "s' \<equiv> snd (srpolicy FIFO (freeFrame fr (snd (srpolicy GCA s))))"
  shows "fstatus (ipt s' fr) = NOT_USED" "flistHead s' = flistHead s" "flistTail s' = flistTail s" "currpolicy s' = FIFO"
  using fr by (simp_all add: s'_def srpolicy_def freeFrame_def freeFrameGCA_def Let_def)

subsection \<open>The end of a process\<close>

lemma freeProcFrames_used:
  assumes "frames_ok s" and "0 \<le> pid" and "vh (proctab s pid)"
  shows "used_frames (freeProcFrames pid s) = used_frames s - {fr. fpid (ipt s fr) = pid}"
proof (rule set_eqI)
  fix fr
  have "pid \<noteq> NO_PROCESS" using assms(2) by simp
  note F = freeProcFrames_spec [OF assms(1) this]
  show "fr \<in> used_frames (freeProcFrames pid s) \<longleftrightarrow> fr \<in> used_frames s - {fr. fpid (ipt s fr) = pid}"
    using F(2) [of fr] F(3) [OF assms(3), of fr] by (cases "fpid (ipt s fr) = pid") (auto simp: used_frames_def)
qed

end
