(* ===== verification/Paging_Properties.thy ===== *)
theory Paging_Properties
  imports Frame_Machine Memory_Properties
begin

section \<open>Properties of demand paging\<close>

text \<open>
  What the paging system promises: identity mappings for the kernel, a page fault that brings the
  right page in, replacement that loses no modification, frames that are returned when a process
  ends. Two concrete states, one with free frames and one with none, show that the hypotheses hold.
\<close>

subsection \<open>Concrete states\<close>

text \<open>Process 1 runs with a virtual heap of four pages on backing store 0 and an empty page directory in
  frame 0; it has touched address \<open>0x01002345\<close>.\<close>

definition pdemo_entry :: "int \<Rightarrow> frame_t" where
  "pdemo_entry st = \<lparr>nextFrame = EMPTY32, prevFrame = EMPTY32, fstatus = st, fpid = 1, fvpn = 4096, refCount = 1\<rparr>"

definition pdemo_base :: vstate where
  "pdemo_base = upd_sem 2 (\<lambda>e. e\<lparr>sstate := S_USED, scount := 1\<rparr>) (upd_sem 3 (\<lambda>e. e\<lparr>sstate := S_USED, scount := 1\<rparr>)
     (upd_proc 1 (\<lambda>p. p\<lparr>prpd := 0x400000, pbsd := (\<lambda>_. 0)\<rparr>) vdemo))"

definition pdemo :: "(u32 \<Rightarrow> frame_t) \<Rightarrow> u32 \<Rightarrow> pgstate" where
  "pdemo t q = vstate.extend pdemo_base (pgstate.fields t q q 0 0 FIFO 2 0 0x01002345 8 0x400000 (\<lambda>_. 0x400000) 0x400000 True 0 3
     (\<lambda>_. \<lparr>bse_id = 0, isopen = True, isallocated = True, usecount = 0, npages = 4\<rparr>)
     (\<lambda>_. \<lparr>qstatus = 0, qpid = 0, qdata = (\<lambda>k. of_nat k)\<rparr>) (\<lambda>_ _. 0) 1 1)"

lemma pdemo_fields [simp]:
  "ipt (pdemo t q) = t" "flistHead (pdemo t q) = q" "flistTail (pdemo t q) = q" "currpolicy (pdemo t q) = FIFO" "pf_sem (pdemo t q) = 2"
  "cr2 (pdemo t q) = 0x01002345" "ps_active (pdemo t q)" "bs_sem (pdemo t q) = 3"
  "bstab (pdemo t q) = (\<lambda>_. \<lparr>bse_id = 0, isopen = True, isallocated = True, usecount = 0, npages = 4\<rparr>)"
  "currpid (pdemo t q) = 1" "words (pdemo t q) = (\<lambda>_. 0)"
  "semtab (pdemo t q) = semtab pdemo_base" "proctab (pdemo t q) = proctab pdemo_base"
  by (simp_all add: pdemo_def pgstate.defs pdemo_base_def vdemo_def vstate.defs mstate.defs kstate.defs kdemo_def)

lemma pdemo_sem [simp]: "sem_free (pdemo t q) 2" "sem_free (pdemo t q) 3"
  by (simp_all add: sem_free_def) (simp_all add: pdemo_base_def)

lemma pdemo_proc [simp]:
  "prpd (proctab pdemo_base 1) = 0x400000" "pbsd (proctab pdemo_base 1) = (\<lambda>_. 0)" "hsize (proctab pdemo_base 1) = 4" "vh (proctab pdemo_base 1)"
  by (simp_all add: pdemo_base_def vdemo_proc)

definition pdemo1 :: pgstate where
  "pdemo1 = pdemo (\<lambda>fr. pdemo_entry (if fr = 0 then PDIR else NOT_USED)) EMPTY32"

lemma pdemo1_frames: "frames_ok pdemo1" "used_frames pdemo1 = {0}" "dir_ok pdemo1 0 4" "frameNum2ptr 0 = 0x400000"
proof -
  have "fqueue pdemo1 []" by (simp add: fqueue_def pdemo1_def)
  then show "frames_ok pdemo1" by (auto simp: frames_ok_def pdemo1_def pdemo_entry_def intro!: exI [of _ "[]"])
  show "used_frames pdemo1 = {0}" by (auto simp: used_frames_def pdemo1_def pdemo_entry_def split: if_splits)
  show "dir_ok pdemo1 0 4" by (simp add: dir_ok_def pdemo1_def pdemo_entry_def pde_def dec_pd_def)
  show "frameNum2ptr 0 = 0x400000" by (simp add: frameNum2ptr_def)
qed

lemma pdemo1_fault:
  "vaddr2pdi 0x01002345 = 4" "vaddr2pti 0x01002345 = 2" "store_of pdemo1 1 0x01002345 = (0, 2)" "bs_ready pdemo1 0 2" "disk_blk 0 2 < 4096"
  by (simp_all add: vaddr2pdi_def vaddr2pti_def store_of_def bs_ready_def pdemo1_def disk_blk_def Let_def)

text \<open>The same process when all frames are in use: frame 1 is its only page table, frame 2 its only page, which is dirty.\<close>

definition pdemo2 :: pgstate where
  "pdemo2 = (pdemo (\<lambda>fr. pdemo_entry (if fr = 0 then PDIR else if fr = 2 then PAGE else PTAB)) 2)
     \<lparr>words := (\<lambda>_. 0)(0x400010 := 0x401001, 0x401000 := 0x402061)\<rparr>"

lemma pdemo2_frames:
  "used_frames pdemo2 = {fr. fr < NFRAMES}" "currpolicy pdemo2 = FIFO" "fqueue pdemo2 ([] @ [2])"
  "x \<in> set ([] @ [2]) \<longleftrightarrow> fstatus (ipt pdemo2 x) = PAGE" "resident pdemo2 2 0x01000000 1 0" "refCount (ipt pdemo2 1) = 1"
  "page_dirty pdemo2 0x01000000 1"
proof -
  show "used_frames pdemo2 = {fr. fr < NFRAMES}" by (auto simp: used_frames_def pdemo2_def pdemo_entry_def)
  show "currpolicy pdemo2 = FIFO" "refCount (ipt pdemo2 1) = 1" by (simp_all add: pdemo2_def pdemo_entry_def)
  show "fqueue pdemo2 ([] @ [2])" by (simp add: fqueue_def pdemo2_def pdemo_entry_def)
  show "x \<in> set ([] @ [2]) \<longleftrightarrow> fstatus (ipt pdemo2 x) = PAGE" by (simp add: pdemo2_def pdemo_entry_def)
  show "resident pdemo2 2 0x01000000 1 0"
    by (simp add: resident_def pdemo2_def pdemo_entry_def pdi2pt_def pde_def dec_pd_def frameNum2ptr_def vaddr2pdi_def)
  show "page_dirty pdemo2 0x01000000 1"
    by (simp add: page_dirty_def pdemo2_def pte_def dec_pt_def frameNum2ptr_def vaddr2pti_def Let_def)
qed

lemma pdemo2_stores:
  "store_of pdemo2 (fpid (ipt pdemo2 2)) 0x01000000 = (0, 0)" "bs_ready pdemo2 0 0" "disk_blk 0 0 < 4096"
  "store_of pdemo2 (currpid pdemo2) 0x01002345 = (0, 2)" "bs_ready pdemo2 0 2"
  "prpd (proctab pdemo2 (currpid pdemo2)) = frameNum2ptr 0" "pd_pres (pde pdemo2 (frameNum2ptr 0) (vaddr2pdi 0x01000000))"
  by (simp_all add: store_of_def bs_ready_def pdemo2_def pdemo_entry_def disk_blk_def frameNum2ptr_def sem_free_def pde_def dec_pd_def vaddr2pdi_def Let_def)
    (simp_all add: pdemo_base_def)

definition nulldevs :: "pgstate devtab_t" where
  "nulldevs = (\<lambda>_. \<lparr>dvnum = 2, dvminor = 0, dvname = ''NULLDEV'', dvinit = ionull, dvopen = (\<lambda>_ _. ionull), dvclose = ionull,
     dvread = (\<lambda>b _. Ret (OK, b)), dvwrite = (\<lambda>_ _. ionull), dvseek = (\<lambda>_. ioerr), dvgetc = ionull, dvputc = (\<lambda>_. ionull),
     dvcntl = (\<lambda>_ _ _. ioerr)\<rparr>)"

subsection \<open>Properties\<close>

text \<open>C4: \<open>initialize_paging\<close> runs to its end and leaves page tables under which the first 16 MB and the
  4 MB of device memory are mapped to themselves, and nothing else is mapped.\<close>

theorem initialize_paging_identity:
  assumes "0 \<le> nextsem s" and "nextsem s < NSEM" and "0 \<le> x" and "x < NSEM" and "sstate (semtab s x) = S_FREE" and "currpid s = NULLPROC"
  shows "\<exists>s'. runs (initialize_paging dt) s () s' \<and> frames_ok s' \<and> cr3 s' = prpd (proctab s' NULLPROC) \<and>
    (\<forall>v. if v < 0x01000000 \<or> 0x90000000 \<le> v \<and> v < 0x90400000 then mapped s' v \<and> vaddr2paddr v s' = v else \<not> mapped s' v)"
proof -
  obtain s' where s': "runs (initialize_paging dt) s () s'" "frames_ok s'" "global_tables s'"
    "\<And>i. i < 1024 \<Longrightarrow> pde s' (prpd (proctab s' NULLPROC)) i = global_pdes s' i" "cr3 s' = prpd (proctab s' NULLPROC)"
    by (rule initialize_paging_runs [OF assms(1-5), of dt]) blast
  have c: "currpid s' = NULLPROC" using runs_currpid [OF s'(1)] assms(6) by simp
  have "mapped s' v \<and> vaddr2paddr v s' = v" if "v \<in> id_space" for v
    using global_translation [OF s'(3) _ that] s'(4) c by (simp add: mapped_def Let_def)
  moreover have "\<not> mapped s' v" if "v \<notin> id_space" for v
    using global_not_present [OF that s'(4) [OF vaddr_parts(2)]] c by (simp add: mapped_def Let_def)
  ultimately show ?thesis using s'(1,2,5) by (intro exI [of _ s']) (simp add: id_space_def)
qed

theorem initialize_paging_identity_witness:
  "\<exists>s'. runs (initialize_paging (devtab nulldevs)) (pdemo1\<lparr>currpid := NULLPROC\<rparr>) () s' \<and> vaddr2paddr 0x00ABCDEF s' = 0x00ABCDEF \<and> \<not> mapped s' 0x01000000"
proof -
  let ?s = "pdemo1\<lparr>currpid := NULLPROC\<rparr>"
  have "nextsem ?s = 2" "sstate (semtab ?s 5) = S_FREE" "currpid ?s = NULLPROC"
    by (simp_all add: pdemo1_def pdemo_def pgstate.defs vstate.defs pdemo_base_def vdemo_def mstate.defs kstate.defs kdemo_def)
  then obtain s' where "runs (initialize_paging (devtab nulldevs)) ?s () s'"
    "\<forall>v. if v < 0x01000000 \<or> 0x90000000 \<le> v \<and> v < 0x90400000 then mapped s' v \<and> vaddr2paddr v s' = v else \<not> mapped s' v"
    using initialize_paging_identity [of ?s 5 "devtab nulldevs"] by auto
  then show ?thesis using spec [of _ "0x00ABCDEF"] spec [of _ "0x01000000"] by (intro exI [of _ s']) fastforce
qed

text \<open>C2: a page fault at a legal address, with frames available: the handler returns, the address is mapped to a
  frame that was free and now holds the page of the backing store that belongs to it, the faults are
  counted, the semaphores are as before, and every page that was resident keeps its contents.\<close>

theorem pf_handler_brings_page_in:
  assumes "frames_ok s" and "card (used_frames s) < 27" and "prpd (proctab s (currpid s)) = frameNum2ptr pdfr"
    and "dir_ok s pdfr (vaddr2pdi (cr2 s))" and "0x01000000 \<le> cr2 s" and "\<not> isInvalidAddr (cr2 s) (currpid s) s"
    and "bs_ready s b page" and "disk_blk b page < 4096" and "store_of s (currpid s) (cr2 s) = (b, page)"
    and "sem_free s (pf_sem s)" and "pf_sem s \<noteq> bs_sem s"
  shows "\<exists>fr s'. runs (pf_handler (devtab d)) s () s' \<and> fr < NFRAMES \<and> fr \<notin> used_frames s \<and>
    mapped s' (cr2 s) \<and> vaddr2paddr (cr2 s) s' = frameNum2ptr fr OR vaddr2offset (cr2 s) \<and>
    (\<forall>i<1024. words s' (frameNum2ptr fr + 4 * i) = disk_page s b page (unat i)) \<and>
    (\<forall>x i. x < NFRAMES \<and> fstatus (ipt s x) = PAGE \<and> i < 1024 \<longrightarrow> words s' (frameNum2ptr x + 4 * i) = words s (frameNum2ptr x + 4 * i)) \<and>
    frames_ok s' \<and> get_faults s' = get_faults s + 1 \<and> semtab s' = semtab s"
proof -
  obtain ptfr fr s' where s': "runs (pf_handler (devtab d)) s () s'" "served s (cr2 s) (frameNum2ptr pdfr) ptfr fr s'"
    "proctab s' = proctab s" "currpid s' = currpid s" "semtab s' = semtab s" "pfc s' = pfc s + 1"
    using pf_handler_runs [OF assms] by blast
  note S = s'(2) [unfolded served_def]
  have "prpd (proctab s' (currpid s')) = frameNum2ptr pdfr" using assms(3) s'(3,4) by simp
  note T = served_translation [OF s'(2) this]
  have "words s' (frameNum2ptr x + 4 * i) = words s (frameNum2ptr x + 4 * i)" if "x < NFRAMES" "fstatus (ipt s x) = PAGE" "i < 1024" for x i
  proof -
    have "x \<noteq> fr" "x \<noteq> ptfr" "x \<noteq> pdfr" using S that assms(4) by (auto simp: used_frames_def dir_ok_def)
    moreover have "pdfr < NFRAMES" using assms(4) by (simp add: dir_ok_def)
    ultimately have "frameNum2ptr x \<notin> {frameNum2ptr pdfr, frameNum2ptr ptfr, frameNum2ptr fr}"
      using S that(1) frameNum2ptr_inj by simp
    then show ?thesis using words_offD(1) [OF _ paged_frame(2) [OF that(1)] _ that(3)] S by blast
  qed
  moreover have "\<forall>i<1024. words s' (frameNum2ptr fr + 4 * i) = disk_page s b page (unat i)" using S assms(9) by simp
  ultimately show ?thesis using s' T S by (intro exI [of _ fr] exI [of _ s']) (simp add: get_faults_def)
qed

theorem pf_handler_brings_page_in_witness:
  "\<exists>fr s'. runs (pf_handler (devtab nulldevs)) pdemo1 () s' \<and> vaddr2paddr 0x01002345 s' = frameNum2ptr fr OR 0x345 \<and>
    words s' (frameNum2ptr fr + 4) = disk_page pdemo1 0 2 1"
proof -
  have c: "cr2 pdemo1 = 0x01002345" "currpid pdemo1 = 1" "pf_sem pdemo1 = 2" "bs_sem pdemo1 = 3" by (simp_all add: pdemo1_def)
  have "prpd (proctab pdemo1 (currpid pdemo1)) = frameNum2ptr 0" "\<not> isInvalidAddr (cr2 pdemo1) (currpid pdemo1) pdemo1"
    "sem_free pdemo1 (pf_sem pdemo1)" using pdemo1_frames(4) by (simp_all add: pdemo1_def isInvalidAddr_def)
  note h = pf_handler_brings_page_in [OF pdemo1_frames(1) _ this(1) _ _ this(2) pdemo1_fault(4,5) _ this(3), of nulldevs]
  have "vaddr2offset 0x01002345 = 0x345" by (simp add: vaddr2offset_def)
  then show ?thesis using h pdemo1_frames(2,3) pdemo1_fault(1,3) c by (fastforce dest!: spec [of _ 1])
qed

text \<open>C3: when no frame is free, a request for a frame takes the one whose page has been resident longest. The
  page is unmapped, and if it was modified its contents are on the disk, at its own place, before the
  frame changes hands; no other page of any backing store changes.\<close>

theorem replacement_saves_oldest_page:
  assumes "used_frames s = {fr. fr < NFRAMES}" and "currpolicy s = FIFO" and "fqueue s (xs @ [v])"
    and "\<And>x. x < NFRAMES \<Longrightarrow> x \<in> set (xs @ [v]) \<longleftrightarrow> fstatus (ipt s x) = PAGE"
    and "resident s v a ptfr pdfr" and "0x01000000 \<le> a"
    and "store_of s (fpid (ipt s v)) a = (b, page)" and "bs_ready s b page" and "disk_blk b page < 4096"
  shows "\<exists>s'. runs (getNewFrame (devtab d) type pid vpn) s (frameNum2ptr v) s' \<and> frames_ok s' \<and> fstatus (ipt s' v) = type \<and>
    \<not> pt_pres (pte s' (frameNum2ptr ptfr) (vaddr2pti a)) \<and>
    (\<forall>k<1024. disk_page s' b page k = (if page_dirty s a ptfr then words s (frameNum2ptr v + 4 * of_nat k) else disk_page s b page k)) \<and>
    (\<forall>b' page' k. 0 \<le> b' \<and> page' < 200 \<and> k < 1024 \<and> (b', page') \<noteq> (b, page) \<longrightarrow> disk_page s' b' page' k = disk_page s b' page' k)"
proof -
  obtain s' where s': "runs (getNewFrame (devtab d) type pid vpn) s (frameNum2ptr v) s'" "replaced s v a ptfr pdfr s'" "fstatus (ipt s' v) = type"
    using getNewFrame_full [OF assms] by blast
  note R = s'(2) [unfolded replaced_def assms(7) prod.case]
  show ?thesis by (rule exI [of _ s']) (insert s'(1,3) R, elim conjE, intro conjI, assumption+)
qed

theorem replacement_saves_oldest_page_witness:
  "\<exists>s'. runs (getNewFrame (devtab nulldevs) PAGE 1 4098) pdemo2 (frameNum2ptr 2) s' \<and>
    disk_page s' 0 0 7 = words pdemo2 (frameNum2ptr 2 + 28)"
proof -
  obtain s' where s': "runs (getNewFrame (devtab nulldevs) PAGE 1 4098) pdemo2 (frameNum2ptr 2) s'"
    "\<forall>k<1024. disk_page s' 0 0 k = (if page_dirty pdemo2 0x01000000 1 then words pdemo2 (frameNum2ptr 2 + 4 * of_nat k) else disk_page pdemo2 0 0 k)"
    using replacement_saves_oldest_page [OF pdemo2_frames(1-3) pdemo2_frames(4) pdemo2_frames(5) order_refl pdemo2_stores(1-3)] by blast
  then show ?thesis using pdemo2_frames(7) spec [OF s'(2), of 7] by (intro exI [of _ s']) simp
qed

text \<open>C22: a fault that evicts the only page of the page table it is about to use releases that table and then maps
  the new page in it: the handler returns, but the address is not mapped.\<close>

theorem fault_releases_its_table:
  assumes "used_frames s = {fr. fr < NFRAMES}" and "currpolicy s = FIFO" and "fqueue s (xs @ [v])"
    and "\<And>x. x < NFRAMES \<Longrightarrow> x \<in> set (xs @ [v]) \<longleftrightarrow> fstatus (ipt s x) = PAGE"
    and "resident s v a ptfr pdfr" and "refCount (ipt s ptfr) = 1" and "0x01000000 \<le> a" and "0x01000000 \<le> a'"
    and "vaddr2pdi a' = vaddr2pdi a" and "prpd (proctab s (currpid s)) = frameNum2ptr pdfr"
    and "pd_pres (pde s (frameNum2ptr pdfr) (vaddr2pdi a))"
    and "store_of s (fpid (ipt s v)) a = (b, page)" and "bs_ready s b page" and "disk_blk b page < 4096"
    and "store_of s (currpid s) a' = (b', page')" and "bs_ready s b' page'" and "disk_blk b' page' < 4096"
  shows "\<exists>s'. runs (pf_service (devtab d) a' (frameNum2ptr pdfr)) s () s' \<and> \<not> mapped s' a' \<and> fstatus (ipt s' ptfr) = NOT_USED"
  by (rule fault_loses_table [OF assms])

theorem fault_releases_its_table_witness:
  "\<exists>s'. runs (pf_service (devtab nulldevs) 0x01002345 (frameNum2ptr 0)) pdemo2 () s' \<and> \<not> mapped s' 0x01002345"
proof -
  have "vaddr2pdi 0x01002345 = vaddr2pdi 0x01000000" "disk_blk 0 2 < 4096" by (simp_all add: vaddr2pdi_def disk_blk_def)
  then show ?thesis
    using fault_releases_its_table [OF pdemo2_frames(1-3) pdemo2_frames(4) pdemo2_frames(5,6) _ _ _ pdemo2_stores(6,7,1-5), of nulldevs]
    by auto
qed

text \<open>C5: what \<open>write_bs\<close> writes, \<open>read_bs\<close> reads back, word for word, into any frame.\<close>

theorem backing_store_roundtrip:
  assumes "bs_ready s b page" and "disk_blk b page < 4096" and "paged dst"
  shows "\<exists>s1 s2. runs (write_bs (devtab d) src b page) s OK s1 \<and> runs (read_bs (devtab d) dst b page) s1 OK s2 \<and>
    (\<forall>i<1024. words s2 (dst + 4 * i) = words s (src + 4 * i))"
proof -
  obtain s1 where s1: "runs (write_bs (devtab d) src b page) s OK s1" "s1 = s\<lparr>qrds := qrds s1\<rparr>"
    "\<And>k. k < 1024 \<Longrightarrow> disk_page s1 b page k = words s (src + 4 * of_nat k)"
    by (rule write_bs_runs [OF assms(1,2), of d src]) blast
  have "bs_ready s1 b page" using assms(1) by (subst s1(2)) (simp add: bs_ready_def sem_free_def)
  then obtain s2 where s2: "runs (read_bs (devtab d) dst b page) s1 OK s2" "\<And>i. i < 1024 \<Longrightarrow> words s2 (dst + 4 * i) = disk_page s1 b page (unat i)"
    using read_bs_runs [OF _ assms(2,3)] by metis
  have "words s2 (dst + 4 * i) = words s (src + 4 * i)" if "i < 1024" for i
    using s2(2) [OF that] s1(3) [of "unat i"] that by (simp add: word_less_nat_alt)
  then show ?thesis using s1(1) s2(1) by blast
qed

theorem backing_store_roundtrip_witness:
  "\<exists>s1 s2. runs (write_bs (devtab nulldevs) 0x401000 0 2) pdemo2 OK s1 \<and> runs (read_bs (devtab nulldevs) 0x403000 0 2) s1 OK s2 \<and>
    words s2 0x403000 = 0x402061"
proof -
  have "paged 0x403000" "words pdemo2 0x401000 = 0x402061" by (simp_all add: paged_unat pdemo2_def)
  moreover have "disk_blk 0 2 < 4096" by (simp add: disk_blk_def)
  ultimately show ?thesis
    using backing_store_roundtrip [OF pdemo2_stores(5), of "0x403000" nulldevs "0x401000"] by (fastforce dest!: spec [of _ 0])
qed

text \<open>C23: the disk has 4096 blocks, but eight backing stores need 13120. From page 102 of store 2 on, reading a page
  of an open store panics.\<close>

theorem read_bs_past_the_disk:
  assumes "bs_ready s b page" and "4096 \<le> disk_blk b page"
  shows "run (read_bs (devtab d) dst b page) s = None"
  by (rule read_bs_panics [OF assms])

theorem read_bs_past_the_disk_witness:
  "run (read_bs (devtab nulldevs) 0x402000 2 102)
     (pdemo1\<lparr>bstab := (\<lambda>_. \<lparr>bse_id = 2, isopen = True, isallocated = True, usecount = 0, npages = 200\<rparr>)\<rparr>) = None"
  by (rule read_bs_past_the_disk) (simp_all add: bs_ready_def sem_free_def pdemo1_def disk_blk_def, simp_all add: pdemo_base_def)

text \<open>The replacement queue is first-in first-out: pages are picked in the order in which they came in.\<close>

theorem frame_queue_fifo:
  assumes "fq_rep s xs F" and "distinct ys" and "set ys \<subseteq> F"
  shows "\<exists>s' F'. gets pickFrameFIFO (length xs + length ys) (fold (\<lambda>fr. init_frame fr PAGE pid vpn) ys s) = Some (xs @ ys, s') \<and> fq_rep s' [] F'"
  by (rule fq.fifo_order [OF assms])

theorem frame_queue_fifo_witness:
  "\<exists>s'. gets pickFrameFIFO 3 (fold (\<lambda>fr. init_frame fr PAGE 1 4096) [9, 5] pdemo2) = Some ([2, 9, 5], s')"
proof -
  have "fq_rep pdemo2 [2] ({fr. fr < NFRAMES} - {2})" using pdemo2_frames(2,3) by (simp add: fq_rep_def)
  moreover have "distinct [9, 5 :: u32]" "set [9, 5] \<subseteq> {fr :: u32. fr < NFRAMES} - {2}" by simp_all
  moreover have "length [2 :: u32] + length [9, 5 :: u32] = 3" by simp
  ultimately show ?thesis using frame_queue_fifo [of pdemo2 "[2]" _ "[9, 5]" 1 4096] by (metis append_Cons append_Nil)
qed

text \<open>C24: in every state that the system reaches after \<open>initialize_paging\<close>, the replacement queue holds exactly the frames that
  hold pages, linked in both directions, and every operation that may be asked for returns. The operations are requests
  for a frame, with page replacement when none is free, the return of a process's frames, reference counts, \<open>srpolicy\<close> and
  any change of the rest of the state. A request that has to replace a page finds the oldest one mapped by its process and its
  backing store open; the policy stays FIFO.\<close>

theorem reachable_frames_ok:
  assumes "0 \<le> nextsem b" and "nextsem b < NSEM" and "0 \<le> x" and "x < NSEM" and "sstate (semtab b x) = S_FREE"
    and "runs (initialize_paging dt) b () s0" and "mreach (frame_exec d) frame_allowed s0 s"
  shows "(\<exists>xs. fqueue s xs \<and> (\<forall>fr<NFRAMES. fr \<in> set xs \<longleftrightarrow> fstatus (ipt s fr) = PAGE)) \<and>
    (\<forall>c. frame_allowed c s \<longrightarrow> (\<exists>s'. frame_exec d c s = Some s'))"
proof -
  obtain s1 where "runs (initialize_paging dt) b () s1" "frames_ok s1" by (rule initialize_paging_runs [OF assms(1-5), of dt]) blast
  then have ok: "frames_ok s0" using runs_det [OF _ assms(6)] by metis
  have "\<exists>s'. frame_exec d c s = Some s'" if "frame_allowed c s" for c using fm.never_stuck [OF assms(7) ok that] by blast
  then show ?thesis using fm.mreach_inv [OF assms(7) ok] unfolding frames_ok_def by blast
qed

text \<open>After boot a process gets a frame for a page, which is then on the queue.\<close>

theorem reachable_frames_ok_witness:
  "\<exists>s0 s xs. runs (initialize_paging (devtab nulldevs)) (pdemo1\<lparr>currpid := NULLPROC\<rparr>) () s0 \<and>
    frame_exec nulldevs (New_frame PAGE 1 4096) s0 = Some s \<and> fqueue s xs \<and> (\<forall>fr<NFRAMES. fr \<in> set xs \<longleftrightarrow> fstatus (ipt s fr) = PAGE)"
proof -
  let ?b = "pdemo1\<lparr>currpid := NULLPROC\<rparr>"
  have b: "nextsem ?b = 2" "sstate (semtab ?b 5) = S_FREE"
    by (simp_all add: pdemo1_def pdemo_def pgstate.defs vstate.defs pdemo_base_def vdemo_def mstate.defs kstate.defs kdemo_def)
  obtain s0 where s0: "runs (initialize_paging (devtab nulldevs)) ?b () s0" "frames_ok s0" "card (used_frames s0) = 6"
    by (rule initialize_paging_runs [of ?b 5 "devtab nulldevs"]) (use b in auto)
  have "card (used_frames s0) < 28" using s0(3) by simp
  then have a: "frame_allowed (New_frame PAGE 1 4096) s0" using free_frame [of s0] by auto
  note R = reachable_frames_ok [of ?b 5, OF _ _ _ _ b(2) s0(1)]
  have "\<exists>s. frame_exec nulldevs (New_frame PAGE 1 4096) s0 = Some s"
    using conjunct2 [OF R [OF _ _ _ _ mreach.start, of nulldevs]] a b(1) by (simp del: frame_allowed.simps)
  then obtain s where s: "frame_exec nulldevs (New_frame PAGE 1 4096) s0 = Some s" by blast
  have "mreach (frame_exec nulldevs) frame_allowed s0 s"
    by (rule mreach.step [where s = s0 and c = "New_frame PAGE 1 4096"], rule mreach.start) (use a s in \<open>simp_all del: frame_allowed.simps\<close>)
  then show ?thesis using R [of nulldevs s] b(1) s s0(1) by auto
qed

text \<open>The case that the last request of C24 allows: no frame is free and the oldest page makes room.\<close>

theorem replacement_is_allowed:
  "frame_allowed (New_frame PAGE 1 4098) pdemo2 \<and> (\<exists>s. frame_exec nulldevs (New_frame PAGE 1 4098) pdemo2 = Some s \<and> frames_ok s)"
proof -
  have "evictable pdemo2" unfolding evictable_def using pdemo2_frames(3,5) pdemo2_stores(1-3) by blast
  moreover have "frames_ok pdemo2" using pdemo2_frames(2-4) unfolding frames_ok_def by blast
  ultimately show ?thesis using fm.exec_inv by (simp add: frame_exec_ok)
qed

text \<open>\<open>srpolicy\<close> does not touch the queue. When the newest page is returned while the policy is GCA, its frame is still
  the head of the queue after the switch back to FIFO, although it is free.\<close>

theorem policy_switch_breaks_queue:
  assumes "frames_ok s" and "flistHead s = fr" and "fr < NFRAMES" and "fstatus (ipt s fr) = PAGE"
  defines "s' \<equiv> snd (srpolicy FIFO (freeFrame fr (snd (srpolicy GCA s))))"
  shows "flistHead s' = fr \<and> fstatus (ipt s' fr) = NOT_USED \<and> \<not> frames_ok s'"
proof -
  note P = policy_switch_stale [OF assms(1,3,4), folded s'_def]
  have "\<not> frames_ok s'"
  proof
    assume "frames_ok s'"
    then obtain xs where xs: "fqueue s' xs" "fr \<in> set xs \<longleftrightarrow> fstatus (ipt s' fr) = PAGE" using assms(3) by (auto simp: frames_ok_def)
    then have "fr \<in> set xs" using P(2) assms(2) frame_not_empty [OF assms(3)] by (auto simp: fqueue_def split: if_splits)
    then show False using xs(2) P(1) by simp
  qed
  then show ?thesis using P(1,2) assms(2) by simp
qed

text \<open>C25: when a process with a virtual heap ends, each of its frames, page directory and page tables included, is free
  again and has no owner, exactly these frames become free, and the entries of the frames of others are as before.\<close>

theorem freeProcFrames_returns_all:
  assumes "frames_ok s" and "0 \<le> pid" and "vh (proctab s pid)"
  shows "frames_ok (freeProcFrames pid s) \<and>
    (\<forall>fr<NFRAMES. fpid (ipt s fr) = pid \<longrightarrow>
       fstatus (ipt (freeProcFrames pid s) fr) = NOT_USED \<and> fpid (ipt (freeProcFrames pid s) fr) = NO_PROCESS) \<and>
    used_frames (freeProcFrames pid s) = used_frames s - {fr. fpid (ipt s fr) = pid} \<and>
    (\<forall>fr. fpid (ipt s fr) \<noteq> pid \<longrightarrow> fstatus (ipt (freeProcFrames pid s) fr) = fstatus (ipt s fr) \<and>
       fpid (ipt (freeProcFrames pid s) fr) = fpid (ipt s fr) \<and> fvpn (ipt (freeProcFrames pid s) fr) = fvpn (ipt s fr) \<and>
       refCount (ipt (freeProcFrames pid s) fr) = refCount (ipt s fr))"
proof -
  have "pid \<noteq> NO_PROCESS" using assms(2) by simp
  note F = freeProcFrames_spec [OF assms(1) this]
  show ?thesis using F(1,2,4) F(3) [OF assms(3)] freeProcFrames_used [OF assms(1-3)] by blast
qed

theorem freeProcFrames_returns_all_witness:
  "frames_ok (freeProcFrames 1 pdemo1) \<and> used_frames pdemo1 = {0} \<and> used_frames (freeProcFrames 1 pdemo1) = {}"
proof -
  have "vh (proctab pdemo1 1)" by (simp add: pdemo1_def)
  moreover have "fpid (ipt pdemo1 0) = 1" by (simp add: pdemo1_def pdemo_entry_def)
  ultimately show ?thesis using freeProcFrames_returns_all [OF pdemo1_frames(1), of 1] pdemo1_frames(2) by simp
qed

text \<open>The address arithmetic loses nothing: a virtual address is put together from directory index, table index and
  offset, a frame number from its address, and page table and directory entries from their bits.\<close>

theorem address_roundtrips:
  "push_bit 22 (vaddr2pdi v) OR push_bit 12 (vaddr2pti v) OR vaddr2offset v = v \<and>
   vaddr2pdi v < 1024 \<and> vaddr2pti v < 1024 \<and> vaddr2offset v < 4096 \<and>
   (fr < NFRAMES \<longrightarrow> faddr2frameNum (frameNum2ptr fr) = fr) \<and> dec_pt (enc_pt e) = e \<and> dec_pd (enc_pd f) = f"
  using vaddr_parts [of v] faddr_frameNum [of fr] by simp

theorem address_roundtrips_witness: "faddr2frameNum (frameNum2ptr 27) = 27"
  using address_roundtrips [of 0 27] by simp

end
