(* ===== verification/Process_End.thy ===== *)
theory Process_End
  imports Frame_Machine
begin

section \<open>The end of the running process\<close>

text \<open>
  What \<open>kill\<close> does when a process ends itself: the parent gets its number as a message, its stack goes back to the kernel
  heap, its frames and backing stores are released, its entry of the process table becomes free and another process
  is dispatched; nothing behind the call is ever executed. The parent is not blocked in \<open>receive\<close>, so that
  \<open>send\<close> does not give the processor away before the end.
\<close>

subsection \<open>Backing stores\<close>

definition bs_only :: "'a pgstate_scheme \<Rightarrow> 'a pgstate_scheme \<Rightarrow> bool" where
  "bs_only s s' \<longleftrightarrow> (\<exists>b n. s' = s\<lparr>bstab := b, free_bs_count := n\<rparr>)"

lemma bs_only_trans: "bs_only s t \<Longrightarrow> bs_only t u \<Longrightarrow> bs_only s u"
  unfolding bs_only_def by (elim exE) (simp, blast)

lemma bs_onlyI: "bs_only s (s\<lparr>bstab := b, free_bs_count := n\<rparr>)"
  unfolding bs_only_def by blast

lemma bs_onlyD:
  assumes "bs_only s s'"
  shows "proctab s' = proctab s" "currpid s' = currpid s" "semtab s' = semtab s" "bs_sem s' = bs_sem s" "ipt s' = ipt s"
    "queuetab s' = queuetab s" "readylist s' = readylist s" "sleepq s' = sleepq s" "ndefers s' = ndefers s"
    "words s' = words s" "prcount s' = prcount s" "pfc s' = pfc s" "kheap s' = kheap s" "minheap s' = minheap s" "maxheap s' = maxheap s"
    "flistHead s' = flistHead s" "flistTail s' = flistTail s" "currpolicy s' = currpolicy s"
  using assms by (auto simp: bs_only_def kheap_def)

text \<open>A store that no process has open by \<open>open_bs\<close>, and one that is free.\<close>

definition unused :: "'a pgstate_scheme \<Rightarrow> bsd_t \<Rightarrow> bool" where
  "unused s b \<longleftrightarrow> 0 \<le> b \<and> b \<le> MAX_ID \<and> usecount (bstab s b) \<le> 0"

definition released :: "'a pgstate_scheme \<Rightarrow> bsd_t \<Rightarrow> bool" where
  "released s b \<longleftrightarrow> unused s b \<and> \<not> isallocated (bstab s b)"

text \<open>\<open>deallocate_bs\<close> returns whatever the store is, and an unused store is free afterwards.\<close>

lemma deallocate_bs_runs:
  assumes L: "sem_free s (bs_sem s)"
  shows "\<exists>r s'. runs (deallocate_bs b) s r s' \<and> bs_only s s' \<and> (\<forall>x. x \<noteq> b \<longrightarrow> bstab s' x = bstab s x) \<and> (unused s b \<longrightarrow> released s' b)"
proof (cases "b > MAX_ID \<or> b < MIN_ID \<or> \<not> isallocated (bstab s b) \<or> usecount (bstab s b) > 0")
  case True
  have "runs (deallocate_bs b) s SYSERR s"
  proof (cases "b > MAX_ID \<or> b < MIN_ID")
    case bad: True
    then show ?thesis by (simp add: deallocate_bs_def runs_Ret)
  next
    case False
    then show ?thesis using True unfolding deallocate_bs_def if_not_P [OF False]
      by (intro runs_bind [OF runs_gets]) (auto intro: runs_Ret)
  qed
  moreover have "bs_only s s" using bs_onlyI [of s "free_bs_count s" "bstab s"] by simp
  moreover have "unused s b \<longrightarrow> released s b" using True by (auto simp: released_def unused_def)
  ultimately show ?thesis by blast
next
  case False
  let ?sem = "bs_sem s"
  define u where "u = (if ps_active s \<and> isopen (bstab s b) then upd_bs b (\<lambda>e. e\<lparr>isopen := False, npages := 0\<rparr>) s else s)"
  have m: "runs (pmodify (upd_bs b f)) t () (upd_bs b f t)" for f and t :: "'a pgstate_scheme"
    by (rule runs_modify) (simp add: upd_bs_def)
  have twice: "upd_bs b f (upd_bs b g t) = upd_bs b (\<lambda>e. f (g e)) t" for f g and t :: "'a pgstate_scheme" by (simp add: upd_bs_def)
  have sig: "runs (pcall (signal ?sem)) (upd_bs b f (lock ?sem s)) OK (upd_bs b f s)" for f
  proof -
    have "unlock ?sem (upd_bs b f (lock ?sem s)) = upd_bs b f s" by (simp add: upd_bs_def upd_sem_def)
    then show ?thesis using runs_signal [OF L, of "upd_bs b f (lock ?sem s)"] by (simp add: upd_bs_def)
  qed
  have id: "upd_bs b (\<lambda>e. e) t = t" for t :: "'a pgstate_scheme" by (simp add: upd_bs_def)
  have rel: "\<exists>r. runs (release_bs b) s r u"
  proof (cases "ps_active s")
    case act: True
    have pre: "runs (release_bs b) s r u" if
      "runs (if b > MAX_ID \<or> b < MIN_ID \<or> \<not> isopen (bstab s b)
       then pbind (pgets bs_sem) (\<lambda>sem. pbind (pcall (signal sem)) (\<lambda>_. Ret SYSERR))
       else
         pbind (pmodify (upd_bs b (\<lambda>e. e\<lparr>isopen := False\<rparr>))) (\<lambda>_.
         pbind (pmodify (upd_bs b (\<lambda>e. e\<lparr>npages := 0\<rparr>))) (\<lambda>_.
         pbind (pgets bs_sem) (\<lambda>sem.
         pbind (pcall (signal sem)) (\<lambda>_.
         Ret OK))))) (lock ?sem s) r u" for r
      unfolding release_bs_def
      by (rule runs_bind, rule runs_gets, simp only: act simp_thms if_False, rule runs_bind, rule runs_gets, rule runs_bind,
          rule runs_wait [OF L], rule runs_bind, rule runs_gets) (use that in \<open>simp add: upd_sem_def\<close>)
    have g: "bs_sem (lock ?sem s) = ?sem" "bs_sem (upd_bs b f (lock ?sem s)) = ?sem" for f by (simp_all add: upd_sem_def upd_bs_def)
    show ?thesis
    proof (cases "isopen (bstab s b)")
      case True
      have "runs (pbind (pmodify (upd_bs b (\<lambda>e. e\<lparr>isopen := False\<rparr>))) (\<lambda>_.
         pbind (pmodify (upd_bs b (\<lambda>e. e\<lparr>npages := 0\<rparr>))) (\<lambda>_.
         pbind (pgets bs_sem) (\<lambda>sem. pbind (pcall (signal sem)) (\<lambda>_. Ret OK))))) (lock ?sem s) OK u"
        by (rule runs_bind, rule m, rule runs_bind, rule m, rule runs_bind, rule runs_gets, unfold twice g, rule runs_bind, rule sig)
          (use act True in \<open>simp add: u_def runs_Ret\<close>)
      then show ?thesis using pre True False by auto
    next
      case closed: False
      have "runs (pbind (pgets bs_sem) (\<lambda>sem. pbind (pcall (signal sem)) (\<lambda>_. Ret SYSERR))) (lock ?sem s) SYSERR u"
        using sig [of "\<lambda>e. e"] closed unfolding id
        by (intro runs_bind [OF runs_gets]) (auto simp: g u_def intro!: runs_bind runs_Ret)
      then show ?thesis using pre closed by auto
    qed
  next
    case False
    then have "runs (release_bs b) s SYSERR u" unfolding release_bs_def u_def by (intro runs_bind [OF runs_gets]) (simp add: runs_Ret)
    then show ?thesis by blast
  qed
  let ?s' = "upd_bs b (\<lambda>e. e\<lparr>isallocated := False, usecount := 0\<rparr>) u"
  obtain r where r: "runs (release_bs b) s r u" using rel by blast
  have t: "runs (pbind (release_bs b) (\<lambda>_. pbind (pmodify (upd_bs b (\<lambda>e. e\<lparr>isallocated := False\<rparr>))) (\<lambda>_.
     pbind (pmodify (upd_bs b (\<lambda>e. e\<lparr>usecount := 0\<rparr>))) (\<lambda>_. Ret b)))) s b ?s'"
    by (rule runs_bind, rule r, rule runs_bind, rule m, rule runs_bind, rule m, unfold twice, rule runs_Ret)
  have "runs (deallocate_bs b) s b ?s'" unfolding deallocate_bs_def
    using False t by (simp only: if_False de_Morgan_disj simp_thms, intro runs_bind [OF runs_gets]) auto
  moreover have "bs_only s ?s'" unfolding bs_only_def
    by (intro exI [of _ "bstab ?s'"] exI [of _ "free_bs_count s"]) (simp add: u_def upd_bs_def)
  moreover have "released ?s' b" "\<forall>x. x \<noteq> b \<longrightarrow> bstab ?s' x = bstab s x"
    using False by (auto simp: u_def upd_bs_def released_def unused_def)
  ultimately show ?thesis by blast
qed

lemma freeProcBS_loop_runs:
  assumes "sem_free s (bs_sem s)" and "remain \<le> 200 * int fuel"
  shows "\<exists>s'. runs (freeProcBS_loop pid fuel remain i) s () s' \<and> bs_only s s' \<and>
    (\<forall>b. (unused s b \<longrightarrow> unused s' b) \<and> (released s b \<longrightarrow> released s' b)) \<and>
    (\<forall>k. i \<le> k \<and> 200 * int (k - i) < remain \<and> unused s (pbsd (proctab s pid) k) \<longrightarrow> released s' (pbsd (proctab s pid) k))"
  using assms
proof (induction fuel arbitrary: s remain i)
  case 0
  have "bs_only s s" using bs_onlyI [of s "free_bs_count s" "bstab s"] by simp
  then show ?case using 0 by (intro exI [of _ s]) (auto simp: runs_Ret)
next
  case (Suc fuel)
  show ?case
  proof (cases "remain > 0")
    case False
    have "bs_only s s" using bs_onlyI [of s "free_bs_count s" "bstab s"] by simp
    then show ?thesis using False by (intro exI [of _ s]) (auto simp: runs_Ret)
  next
    case True
    let ?b = "pbsd (proctab s pid) i"
    obtain r s1 where s1: "runs (deallocate_bs ?b) s r s1" "bs_only s s1" "\<And>x. x \<noteq> ?b \<Longrightarrow> bstab s1 x = bstab s x" "unused s ?b \<longrightarrow> released s1 ?b"
      using deallocate_bs_runs [OF Suc.prems(1)] by blast
    let ?s2 = "s1\<lparr>free_bs_count := free_bs_count s1 + 1\<rparr>"
    have o2: "bs_only s ?s2" using bs_only_trans [OF s1(2) bs_onlyI [of s1 "free_bs_count s1 + 1" "bstab s1"]] by simp
    note k2 = bs_onlyD [OF o2]
    have keep: "(unused s b \<longrightarrow> unused ?s2 b) \<and> (released s b \<longrightarrow> released ?s2 b)" for b
      using s1(3) [of b] s1(4) by (cases "b = ?b") (auto simp: released_def unused_def)
    have "sem_free ?s2 (bs_sem ?s2)" using Suc.prems(1) k2(3,4) by (simp add: sem_free_def)
    moreover have "remain - 200 \<le> 200 * int fuel" using Suc.prems(2) by simp
    ultimately obtain s' where s': "runs (freeProcBS_loop pid fuel (remain - 200) (i + 1)) ?s2 () s'" "bs_only ?s2 s'"
      "\<And>b. (unused ?s2 b \<longrightarrow> unused s' b) \<and> (released ?s2 b \<longrightarrow> released s' b)"
      "\<And>k. i + 1 \<le> k \<and> 200 * int (k - (i + 1)) < remain - 200 \<and> unused ?s2 (pbsd (proctab ?s2 pid) k) \<longrightarrow> released s' (pbsd (proctab ?s2 pid) k)"
      using Suc.IH [of ?s2 "remain - 200" "i + 1"] by blast
    have m: "runs (pmodify (\<lambda>s. s\<lparr>free_bs_count := free_bs_count s + 1\<rparr>)) s1 () ?s2" by (rule runs_modify) simp
    have body: "runs (pbind (pgets (\<lambda>s. pbsd (proctab s pid) i)) (\<lambda>bsd. pbind (deallocate_bs bsd) (\<lambda>_.
        pbind (pmodify (\<lambda>s. s\<lparr>free_bs_count := free_bs_count s + 1\<rparr>)) (\<lambda>_.
        freeProcBS_loop pid fuel (remain - MAX_PAGES_PER_BS) (i + 1))))) s () s'"
      by (rule runs_bind, rule runs_gets, rule runs_bind, rule s1(1), rule runs_bind, rule m, rule s'(1))
    have all: "released s' (pbsd (proctab s pid) k)" if k: "i \<le> k" "200 * int (k - i) < remain" "unused s (pbsd (proctab s pid) k)" for k
    proof (cases "k = i")
      case True
      then have "released s1 ?b" using s1(4) k(3) by simp
      then have "released ?s2 ?b" by (simp add: released_def unused_def)
      then show ?thesis using s'(3) True by blast
    next
      case False
      then have "i + 1 \<le> k" "200 * int (k - (i + 1)) < remain - 200" using k(1,2) by auto
      then show ?thesis using s'(4) [of k] keep k(3) k2(1) by simp
    qed
    have "runs (freeProcBS_loop pid (Suc fuel) remain i) s () s'" using True body by simp
    then show ?thesis using bs_only_trans [OF o2 s'(2)] s'(3) keep all by blast
  qed
qed

lemma freeProcBS_runs:
  assumes "sem_free s (bs_sem s)"
  shows "\<exists>s'. runs (freeProcBS pid) s OK s' \<and> bs_only s s' \<and>
    (\<forall>k. vh (proctab s pid) \<and> 200 * int k < sint (hsize (proctab s pid)) \<and> unused s (pbsd (proctab s pid) k) \<longrightarrow> released s' (pbsd (proctab s pid) k))"
proof (cases "vh (proctab s pid)")
  case False
  have "runs (freeProcBS pid) s OK s" unfolding freeProcBS_def by (intro runs_bind [OF runs_gets]) (simp add: False runs_Ret)
  moreover have "bs_only s s" using bs_onlyI [of s "free_bs_count s" "bstab s"] by simp
  ultimately show ?thesis using False by blast
next
  case True
  let ?n = "sint (hsize (proctab s pid))"
  have "?n \<le> 200 * int (nat ?n)" by (cases "0 \<le> ?n") auto
  from freeProcBS_loop_runs [OF assms this, of pid 0] obtain s' where s': "runs (freeProcBS_loop pid (nat ?n) ?n 0) s () s'" "bs_only s s'"
    "\<And>k. 200 * int k < ?n \<and> unused s (pbsd (proctab s pid) k) \<longrightarrow> released s' (pbsd (proctab s pid) k)" by auto
  have "runs (freeProcBS pid) s OK s'" unfolding freeProcBS_def
    by (intro runs_bind [OF runs_gets]) (simp add: True Let_def runs_bind [OF s'(1)] runs_Ret)
  then show ?thesis using s'(2,3) by blast
qed

subsection \<open>The last message, the stack and the frames\<close>

definition told :: "pid32 \<Rightarrow> u32 \<Rightarrow> 'a kstate_scheme \<Rightarrow> 'a kstate_scheme" where
  "told p msg s = (if isbadpid s p \<or> prstate (proctab s p) = PR_FREE \<or> prhasmsg (proctab s p) then s
     else upd_proc p (\<lambda>e. e\<lparr>prmsg := msg, prhasmsg := True\<rparr>) s)"

lemma send_quiet:
  assumes "prstate (proctab s p) \<notin> {PR_RECV, PR_RECTIM}"
  shows "\<exists>r. send p msg s = Some (r, told p msg s)"
  using assms by (auto simp: send_def told_def upd_proc_def Let_def)

lemma told_kinv: "kinv s \<Longrightarrow> kinv (told p msg s)"
  using prio_range [of s p] by (auto simp: told_def intro!: kinv_same_place)

lemma told_sel [simp]:
  "currpid (told p msg s) = currpid s" "prcount (told p msg s) = prcount s" "semtab (told p msg s) = semtab s"
  "prdesc (proctab (told p msg s) q) = prdesc (proctab s q)" "prstkbase (proctab (told p msg s) q) = prstkbase (proctab s q)"
  "prstklen (proctab (told p msg s) q) = prstklen (proctab s q)" "vh (proctab (told p msg s) q) = vh (proctab s q)"
  "hsize (proctab (told p msg s) q) = hsize (proctab s q)" "pbsd (proctab (told p msg s) q) = pbsd (proctab s q)"
  "prstate (proctab (told p msg s) q) = prstate (proctab s q)" "kstate.more (told p msg s) = kstate.more s"
  by (simp_all add: told_def upd_proc_def)

lemma freestk_only: "freestk p n s = Some (r, s') \<Longrightarrow> \<exists>f. s' = put_kheap f s"
  by (auto simp: freestk_def freemem_def Let_def split: if_splits intro: exI [of _ "kheap s"] dest: sym)

lemma told_pg [simp]:
  fixes s :: "'a pgstate_scheme"
  shows "kheap (told p msg s) = kheap s" "minheap (told p msg s) = minheap s" "maxheap (told p msg s) = maxheap s"
    "ipt (told p msg s) = ipt s" "words (told p msg s) = words s" "bs_sem (told p msg s) = bs_sem s" "bstab (told p msg s) = bstab s"
    "flistHead (told p msg s) = flistHead s" "flistTail (told p msg s) = flistTail s" "currpolicy (told p msg s) = currpolicy s"
    "pfc (told p msg s) = pfc s"
  by (simp_all add: told_def upd_proc_def kheap_def)

lemma ipt_only_iff: "ipt_only s s' \<longleftrightarrow> (\<exists>t h l n. s' = s\<lparr>ipt := t, flistHead := h, flistTail := l, nextframe_fifo := n\<rparr>)"
  unfolding ipt_only_def by (rule iffI) (blast, clarsimp)

lemma ipt_only_trans: "ipt_only s t \<Longrightarrow> ipt_only t u \<Longrightarrow> ipt_only s u"
  unfolding ipt_only_iff by (elim exE) (simp, blast)

lemma ipt_only_refl: "ipt_only s s"
  by (simp add: ipt_only_def)

lemma ipt_onlyD2:
  assumes "ipt_only s s'"
  shows "queuetab s' = queuetab s" "readylist s' = readylist s" "sleepq s' = sleepq s" "ndefers s' = ndefers s" "prcount s' = prcount s"
    "kheap s' = kheap s" "minheap s' = minheap s" "maxheap s' = maxheap s" "bs_sem s' = bs_sem s" "bstab s' = bstab s" "pfc s' = pfc s"
  using assms by (auto simp: ipt_only_iff kheap_def)

lemma freeFrame_only: "ipt_only s (freeFrame fr s)"
  by (simp add: ipt_only_def freeFrame_def freeFrameFIFO_def freeFrameGCA_def clearFrame_def upd_ipt_def Let_def)

lemma freeProcFrames_only: "ipt_only s (freeProcFrames pid s)"
proof -
  have "ipt_only s (fold (\<lambda>i s. if fpid (ipt s (of_nat i)) = pid then freeFrame (of_nat i) s else s) is s)" for "is"
    by (induction "is" rule: rev_induct) (auto simp: ipt_only_refl intro: ipt_only_trans freeFrame_only)
  then show ?thesis by (simp add: freeProcFrames_def ipt_only_refl)
qed

subsection \<open>The end\<close>

lemma closes_run:
  assumes "\<And>i. i \<in> set is \<Longrightarrow> \<exists>r. runs (close_dev dt (prdesc (proctab u pid) ! i)) u r u"
  shows "runs (pfor is (\<lambda>i. pbind (pgets (\<lambda>s. prdesc (proctab s pid) ! i)) (\<lambda>d. pbind (close_dev dt d) (\<lambda>_. Ret ())))) u () u"
  using assms
proof (induction "is")
  case (Cons i "is")
  obtain r where r: "runs (close_dev dt (prdesc (proctab u pid) ! i)) u r u" using Cons.prems by auto
  show ?case unfolding pfor.simps
    by (rule runs_bind, rule runs_bind, rule runs_gets, rule runs_bind, rule r, rule runs_Ret, rule Cons.IH) (use Cons.prems in simp)
qed (simp add: runs_Ret)

lemma setfree_current:
  assumes I: "kinv s" and p: "currpid s \<noteq> NULLPROC"
  shows "\<exists>s'. resched (setfree (currpid s) s) = Some s' \<and> kinv s' \<and> prstate (proctab s' (currpid s)) = PR_FREE \<and> currpid s' \<noteq> currpid s \<and>
    same_but_state (proctab (setfree (currpid s) s)) (proctab s') \<and>
    (\<exists>pt qt c pe cr. s' = s\<lparr>proctab := pt, queuetab := qt, currpid := c, preempt := pe, cr3 := cr\<rparr>)"
proof -
  from I obtain Q where Q: "kok {} s Q" "counts_ok (semtab s) Q" "prstate (proctab s (currpid s)) = PR_CURR" "ndefers s = 0"
    "currpid s \<in> {0..<NPROC}" by (rule kinvE)
  let ?t = "setfree (currpid s) s"
  have K: "kok {} ?t Q" unfolding setfree_def by (rule kok_off [OF Q(1,5) p]) (use Q(3) in \<open>auto simp: home_def\<close>)
  have nd: "ndefers ?t = 0" and cnt: "counts_ok (semtab ?t) Q" using Q(2,4) by (simp_all add: setfree_def)
  obtain s' where s': "resched ?t = Some s'" "kinv s'" "same_but_state (proctab ?t) (proctab s')"
    using resched_kinv [OF K nd cnt] by metis
  obtain pt qt c pe cr where r: "resched ?t = Some (?t\<lparr>proctab := pt, queuetab := qt, currpid := c, preempt := pe, cr3 := cr\<rparr>)"
    using resched_kok [OF K nd] by metis
  have f: "prstate (proctab s' (currpid s)) = PR_FREE"
    using same_but_stateD(3) [OF s'(3), of "currpid s"] by (simp add: setfree_def)
  moreover have "prstate (proctab s' (currpid s')) = PR_CURR" using s'(2) by (simp add: kinv_def)
  ultimately have "currpid s' \<noteq> currpid s" by auto
  moreover have "s' = s\<lparr>proctab := pt, queuetab := qt, currpid := c, preempt := pe, cr3 := cr\<rparr>"
    using r s'(1) by (simp add: setfree_def upd_proc_def)
  ultimately show ?thesis using s'(1-3) f by blast
qed

text \<open>Everything that the end of the process \<open>pid\<close> changes; \<open>F\<close> is the free part of the kernel heap before.\<close>

definition ended :: "pid32 \<Rightarrow> nat set \<Rightarrow> nat set \<Rightarrow> 'a pgstate_scheme \<Rightarrow> 'a pgstate_scheme \<Rightarrow> bool" where
  "ended pid A F s s' \<longleftrightarrow> (let e = proctab s pid; p = prparent e in
     kinv s' \<and> prstate (proctab s' pid) = PR_FREE \<and> currpid s' \<noteq> pid \<and> prcount s' = prcount s - 1 \<and>
     (\<forall>q. q \<noteq> pid \<and> q \<noteq> p \<longrightarrow> proctab s' q = (proctab s q)\<lparr>prstate := prstate (proctab s' q)\<rparr>) \<and>
     (\<not> isbadpid s p \<and> prstate (proctab s p) \<noteq> PR_FREE \<and> \<not> prhasmsg (proctab s p) \<longrightarrow>
       prhasmsg (proctab s' p) \<and> prmsg (proctab s' p) = word_of_int pid) \<and>
     heap_rep A s' (F \<union> stk_ext (prstkbase e) (prstklen e)) \<and> frames_ok s' \<and>
     used_frames s' = (if vh e then used_frames s - {fr. fpid (ipt s fr) = pid} else used_frames s) \<and>
     (\<forall>k. vh e \<and> 200 * int k < sint (hsize e) \<and> unused s (pbsd e k) \<longrightarrow> released s' (pbsd e k)) \<and>
     words s' = words s \<and> semtab s' = semtab s \<and> pfc s' = pfc s)"

lemma run_step: "runs m s r s1 \<Longrightarrow> run (pbind m k) s = run (k r) s1"
  by (simp add: runs_def run_bind)

lemma kill_self:
  fixes s :: "'a pgstate_scheme"
  defines "e \<equiv> proctab s (currpid s)"
  assumes I: "kinv s" and pid: "currpid s \<noteq> NULLPROC" and n: "2 < prcount s"
    and par: "prstate (proctab s (prparent e)) \<notin> {PR_RECV, PR_RECTIM}"
    and cl: "\<And>i u. i < 3 \<Longrightarrow> \<exists>r. runs (close_dev dt (prdesc e ! i)) u r (u :: 'a pgstate_scheme)"
    and H: "heap_rep A s F" "0 < prstklen e" "prstklen e \<le> 0xFFFFFFF8" "stk_ext (prstkbase e) (prstklen e) \<subseteq> A - F"
    and F: "frames_ok s" and L: "sem_free s (bs_sem s)"
  shows "\<exists>rest s'. run (kill dt (currpid s)) s = Some (Inr rest, s') \<and> ended (currpid s) A F s s'"
proof -
  let ?pid = "currpid s"
  have cur: "prstate (proctab s ?pid) = PR_CURR" and nb: "?pid \<in> {0..<NPROC}" using I kinvE [OF I] by (auto elim: kinvE)
  define s1 where "s1 = s\<lparr>prcount := prcount s - 1\<rparr>"
  define s2 where "s2 = told (prparent e) (word_of_int ?pid) s1"
  have I2: "kinv s2" unfolding s2_def by (rule told_kinv) (use I kinv_cong [of s1 s] in \<open>simp add: s1_def\<close>)
  have k1: "proctab s1 = proctab s" "currpid s1 = ?pid" by (simp_all add: s1_def)
  have k2: "currpid s2 = ?pid" "prcount s2 = prcount s - 1" "semtab s2 = semtab s" "prdesc (proctab s2 ?pid) = prdesc e"
    "prstkbase (proctab s2 ?pid) = prstkbase e" "prstklen (proctab s2 ?pid) = prstklen e" "vh (proctab s2 ?pid) = vh e"
    "hsize (proctab s2 ?pid) = hsize e" "pbsd (proctab s2 ?pid) = pbsd e" "prstate (proctab s2 ?pid) = PR_CURR" "kheap s2 = kheap s"
    "minheap s2 = minheap s" "maxheap s2 = maxheap s" "ipt s2 = ipt s" "words s2 = words s" "bs_sem s2 = bs_sem s" "bstab s2 = bstab s"
    "flistHead s2 = flistHead s" "flistTail s2 = flistTail s" "currpolicy s2 = currpolicy s" "pfc s2 = pfc s"
    using cur by (simp_all add: s2_def k1 e_def) (simp_all add: s1_def kheap_def)
  have "heap_rep A s2 F" using H(1) k2 by (simp add: heap_rep_def)
  moreover have "stk_ext (prstkbase e) (prstklen e) \<subseteq> A" "stk_ext (prstkbase e) (prstklen e) \<inter> F = {}" using H(4) by auto
  ultimately obtain s4 where s4: "freestk (prstkbase e) (prstklen e) s2 = Some (OK, s4)" "heap_rep A s4 (F \<union> stk_ext (prstkbase e) (prstklen e))"
    using kstk.free_cases [of A s2 F "prstklen e" "prstkbase e"] H(2,3) by auto
  obtain f where f: "s4 = put_kheap f s2" using freestk_only [OF s4(1)] by blast
  have F4: "frames_ok s4" using F fqueue_cong [of _ s4 s] k2 by (simp add: frames_ok_def f put_kheap_def)
  define s5 where "s5 = freeProcFrames ?pid s4"
  have o5: "ipt_only s4 s5" unfolding s5_def by (rule freeProcFrames_only)
  note k5 = ipt_onlyD(1-4) [OF o5] ipt_onlyD2 [OF o5]
  have "?pid \<noteq> NO_PROCESS" "0 \<le> ?pid" using nb by auto
  note F5 = freeProcFrames_spec(1) [OF F4 this(1), folded s5_def] freeProcFrames_used [OF F4 this(2), folded s5_def]
  have L5: "sem_free s5 (bs_sem s5)" using L k2 k5 by (simp add: sem_free_def f put_kheap_def)
  obtain s6 where s6: "runs (freeProcBS ?pid) s5 OK s6" "bs_only s5 s6"
    "\<And>k. vh (proctab s5 ?pid) \<and> 200 * int k < sint (hsize (proctab s5 ?pid)) \<and> unused s5 (pbsd (proctab s5 ?pid) k) \<longrightarrow> released s6 (pbsd (proctab s5 ?pid) k)"
    using freeProcBS_runs [OF L5, of ?pid] by blast
  note k6 = bs_onlyD [OF s6(2)]
  have p: "proctab s6 = proctab s2" "proctab s5 = proctab s2" "currpid s6 = ?pid" using k2(1) k5 k6 by (simp_all add: f put_kheap_def)
  have "kinv s6 = kinv s2" by (rule kinv_cong) (use k5 k6 in \<open>simp_all add: f put_kheap_def\<close>)
  then have "kinv s6" "currpid s6 \<noteq> NULLPROC" using I2 pid p(3) by simp_all
  then obtain s' where s': "resched (setfree ?pid s6) = Some s'" "kinv s'" "prstate (proctab s' ?pid) = PR_FREE" "currpid s' \<noteq> ?pid"
    "same_but_state (proctab (setfree ?pid s6)) (proctab s')" "\<exists>pt qt c pe cr. s' = s6\<lparr>proctab := pt, queuetab := qt, currpid := c, preempt := pe, cr3 := cr\<rparr>"
    using setfree_current [of s6] unfolding p(3) by blast
  have k': "prcount s' = prcount s6" "kheap s' = kheap s6" "minheap s' = minheap s6" "maxheap s' = maxheap s6" "ipt s' = ipt s6"
    "flistHead s' = flistHead s6" "flistTail s' = flistTail s6" "currpolicy s' = currpolicy s6" "words s' = words s6"
    "semtab s' = semtab s6" "pfc s' = pfc s6" "bstab s' = bstab s6" using s'(6) by (auto simp: kheap_def)
  obtain r2 where r2: "send (prparent e) (word_of_int ?pid) s1 = Some (r2, s2)" using send_quiet [of s1 "prparent e"] par k1(1) unfolding s2_def by auto
  have b0: "runs (pgets (\<lambda>s. isbadpid s ?pid \<or> ?pid = NULLPROC \<or> prstate (proctab s ?pid) = PR_FREE)) s False s"
    using runs_gets [of "\<lambda>s. isbadpid s ?pid \<or> ?pid = NULLPROC \<or> prstate (proctab s ?pid) = PR_FREE" s] nb pid cur by (simp add: isbadpid_def)
  have b1: "runs (plift (\<lambda>s. let s = s\<lparr>prcount := prcount s - 1\<rparr> in (prcount s, s))) s (prcount s - 1) s1"
    by (rule runs_lift) (simp_all add: s1_def Let_def)
  have b2: "runs (pcall (send (prparent e) (word_of_int ?pid))) s1 r2 s2" by (rule runs_call [where f = "send (prparent e) (word_of_int ?pid)"]) (simp_all add: r2 k1(2) k2(1))
  have b3: "runs (pfor [0..<3] (\<lambda>i. pbind (pgets (\<lambda>s. prdesc (proctab s ?pid) ! i)) (\<lambda>d. pbind (close_dev dt d) (\<lambda>_. Ret ())))) s2 () s2"
    by (rule closes_run) (use cl k2(4) in simp)
  have b4: "runs (pcall (\<lambda>s. freestk (prstkbase (proctab s ?pid)) (prstklen (proctab s ?pid)) s)) s2 OK s4"
    by (rule runs_call) (use s4(1) k2(5,6) f in \<open>simp_all add: put_kheap_def\<close>)
  have b5: "runs (pmodify (freeProcFrames ?pid)) s4 () s5" unfolding s5_def by (rule runs_modify) (use k5(3) s5_def in simp)
  have st: "prstate (proctab s6 ?pid) = PR_CURR" using k2(10) p(1) by simp
  have sw: "\<exists>rest. run (kill_switch ?pid) s6 = Some (Inr rest, s')"
    using s'(1,4) p(3) st by (simp add: kill_switch_def run_bind run_pmodify setfree_def presched_def run_pcall)
  have n1: "\<not> prcount s - 1 \<le> 1" using n by simp
  have b6: "runs (pgets (\<lambda>s. prparent (proctab s ?pid))) s1 (prparent e) s1"
    using runs_gets [of "\<lambda>s. prparent (proctab s ?pid)" s1] by (simp add: k1(1) e_def)
  obtain rest where rest: "run (kill_switch ?pid) s6 = Some (Inr rest, s')" using sw by blast
  have "\<exists>rest. run (kill dt ?pid) s = Some (Inr rest, s')"
    unfolding kill_def run_step [OF b0] if_False run_step [OF b1] if_not_P [OF n1] run_step [OF b6] run_step [OF b2] run_step [OF b3]
      run_step [OF b4] run_step [OF b5] run_step [OF s6(1)] by (simp add: run_bind rest)
  moreover have "heap_rep A s' (F \<union> stk_ext (prstkbase e) (prstklen e))" using s4(2) k' k5 k6 by (simp add: heap_rep_def)
  moreover have "frames_ok s'" using F5(1) fqueue_cong [of _ s' s5] k' k6 by (simp add: frames_ok_def)
  moreover have "used_frames s' = (if vh e then used_frames s - {fr. fpid (ipt s fr) = ?pid} else used_frames s)"
  proof -
    have u: "used_frames s' = used_frames s5" "used_frames s4 = used_frames s" "ipt s4 = ipt s" using k' k6 k2 by (simp_all add: used_frames_def f put_kheap_def)
    have v: "vh (proctab s4 ?pid) = vh e" using k2(7) by (simp add: f put_kheap_def)
    show ?thesis
    proof (cases "vh e")
      case True
      then show ?thesis using F5(2) u v by simp
    next
      case False
      then have "s5 = s4" using v by (simp add: s5_def freeProcFrames_def)
      then show ?thesis using False u by simp
    qed
  qed
  moreover have "vh e \<and> 200 * int k < sint (hsize e) \<and> unused s (pbsd e k) \<longrightarrow> released s' (pbsd e k)" for k
  proof -
    have "unused s5 = unused s" "released s' = released s6" using k' k2 k5 by (simp_all add: unused_def released_def fun_eq_iff f put_kheap_def)
    then show ?thesis using s6(3) [of k] p(2) k2(7-9) by simp
  qed
  moreover have "prcount s' = prcount s - 1" "words s' = words s" "semtab s' = semtab s" "pfc s' = pfc s"
    using k' k2 k5 k6 by (simp_all add: f put_kheap_def)
  moreover have pf: "proctab s' q = (proctab (setfree ?pid (told (prparent e) (word_of_int ?pid) s)) q)\<lparr>prstate := prstate (proctab s' q)\<rparr>" for q
  proof -
    have "proctab (setfree ?pid s6) = proctab (setfree ?pid (told (prparent e) (word_of_int ?pid) s))"
      using p(1) k1(1) by (simp add: setfree_def upd_proc_def s2_def told_def fun_eq_iff isbadpid_def)
    then show ?thesis using s'(5) by (simp add: same_but_state_def)
  qed
  moreover have "proctab s' q = (proctab s q)\<lparr>prstate := prstate (proctab s' q)\<rparr>" if "q \<noteq> ?pid" "q \<noteq> prparent e" for q
    using pf [of q] that by (simp add: setfree_def told_def upd_proc_def split: if_splits)
  moreover have "prhasmsg (proctab s' (prparent e)) \<and> prmsg (proctab s' (prparent e)) = word_of_int ?pid"
    if "\<not> isbadpid s (prparent e)" "prstate (proctab s (prparent e)) \<noteq> PR_FREE" "\<not> prhasmsg (proctab s (prparent e))"
    using that by (subst (1 2) pf) (simp add: setfree_def told_def upd_proc_def)
  ultimately show ?thesis using s'(2-4) unfolding ended_def Let_def e_def [symmetric] by blast
qed

end
