(* ===== verification/Process_Properties.thy ===== *)
theory Process_Properties
  imports Table_Search Translation Paging_Properties Process_End
begin

section \<open>Properties of process creation\<close>

text \<open>
  \<open>create\<close> finds a free slot of the process table whenever there is one, makes the new process
  suspended without disturbing the others, and prepares a stack from which \<open>ctxsw\<close> returns into the
  code of the process, with its arguments in place and \<open>userret\<close> as return address.
\<close>

subsection \<open>The initial stack\<close>

lemma push_apart:
  assumes "j < 2 ^ 30" "k < 2 ^ 30" and "(a :: u32) - 4 * of_nat j = a - 4 * of_nat k"
  shows "j = k"
proof -
  have "4 * of_nat j = (4 * of_nat k :: u32)" using assms(3) by simp
  then have "(of_nat (4 * j) :: u32) = of_nat (4 * k)" by simp
  then have "unat (of_nat (4 * j) :: u32) = unat (of_nat (4 * k) :: u32)" by simp
  then show ?thesis using assms(1,2) by (simp add: unat_of_nat take_bit_nat_eq_self del: of_nat_mult)
qed

lemma fold_push:
  assumes "length xs < 2 ^ 30 - 1"
  shows "\<exists>w. fold push xs (a, s) = (a - 4 * of_nat (length xs), s\<lparr>words := w\<rparr>) \<and>
    (\<forall>k<length xs. w (a - 4 * of_nat (Suc k)) = xs ! k) \<and>
    (\<forall>x. (\<forall>k<length xs. x \<noteq> a - 4 * of_nat (Suc k)) \<longrightarrow> w x = words s x)"
  using assms
proof (induction xs rule: rev_induct)
  case Nil
  then show ?case by (intro exI [of _ "words s"]) simp
next
  case (snoc v xs)
  let ?n = "length xs"
  obtain w where w: "fold push xs (a, s) = (a - 4 * of_nat ?n, s\<lparr>words := w\<rparr>)" "\<And>k. k < ?n \<Longrightarrow> w (a - 4 * of_nat (Suc k)) = xs ! k"
    "\<And>x. \<forall>k<?n. x \<noteq> a - 4 * of_nat (Suc k) \<Longrightarrow> w x = words s x" using snoc by auto
  let ?w = "w(a - 4 * of_nat (Suc ?n) := v)"
  have e: "a - 4 * of_nat ?n - 4 = a - 4 * of_nat (Suc ?n)" by (simp add: algebra_simps)
  have "fold push (xs @ [v]) (a, s) = (a - 4 * of_nat (Suc ?n), s\<lparr>words := ?w\<rparr>)" unfolding e [symmetric] by (simp add: w(1) push_def)
  moreover have "?w (a - 4 * of_nat (Suc k)) = (xs @ [v]) ! k" if "k < Suc ?n" for k
  proof (cases "k = ?n")
    case False
    then have "k < ?n" using that by simp
    moreover have "a - 4 * of_nat (Suc k) \<noteq> a - 4 * (of_nat (Suc ?n) :: u32)"
      using push_apart [of "Suc k" "Suc ?n" a] snoc.prems False that by auto
    ultimately show ?thesis using w(2) by (simp add: nth_append del: of_nat_Suc)
  qed simp
  moreover have "?w x = words s x" if "\<forall>k<Suc ?n. x \<noteq> a - 4 * of_nat (Suc k)" for x
    using w(3) [of x] that by (simp del: of_nat_Suc)
  moreover have "length (xs @ [v]) = Suc ?n" by simp
  ultimately show ?case by (intro exI [of _ ?w]) metis
qed

text \<open>What \<open>ctxsw\<close> finds: the flags, the frame pointer, the address of the code, the return address and the
  arguments, above nine saved registers.\<close>

lemma init_stack_spec:
  fixes s :: "'a mstate_scheme" and saddr :: addr and args :: "u32 list"
  assumes n: "length args < 2 ^ 30 - 13"
  defines "sp \<equiv> saddr - 4 * of_nat (length args + 12)"
  obtains w where "init_stack initret funcaddr args saddr s = (sp, s\<lparr>words := w\<rparr>)"
    "w (sp + 32) = 0x200" "w (sp + 36) = saddr" "w (sp + 40) = funcaddr" "w (sp + 44) = initret" "w saddr = STACKMAGIC"
    "\<And>i. i < length args \<Longrightarrow> w (sp + 48 + 4 * of_nat i) = args ! i"
    "\<And>x. x \<noteq> saddr \<Longrightarrow> (\<And>k. k < length args + 12 \<Longrightarrow> x \<noteq> saddr - 4 * of_nat (Suc k)) \<Longrightarrow> w x = words s x"
proof -
  let ?n = "length args"
  let ?s0 = "s\<lparr>words := (words s)(saddr := STACKMAGIC)\<rparr>" and ?a1 = "saddr - 4 * of_nat (length args + 3)"
  let ?xs = "rev args @ [initret, funcaddr, saddr, 0x200, 0, 0, 0, 0, 0, saddr - 4 * of_nat (length args + 3), 0, 0]"
  have len: "length ?xs = ?n + 12" by simp
  have lt: "length ?xs < 2 ^ 30 - 1" using n by simp
  obtain w where w: "fold push ?xs (saddr, ?s0) = (saddr - 4 * of_nat (?n + 12), ?s0\<lparr>words := w\<rparr>)"
    "\<And>k. k < ?n + 12 \<Longrightarrow> w (saddr - 4 * of_nat (Suc k)) = ?xs ! k"
    "\<And>x. \<forall>k<?n + 12. x \<noteq> saddr - 4 * of_nat (Suc k) \<Longrightarrow> w x = words ?s0 x"
    using fold_push [OF lt, of saddr ?s0, unfolded len] by blast
  define ps where "ps = saddr - 4 * of_nat (?n + 9)"
  let ?w = "w(ps := sp)"
  obtain b where b: "fold push (rev args) (saddr, ?s0) = (saddr - 4 * of_nat ?n, b)"
    using fold_push [of "rev args" saddr ?s0] n by auto
  define a where "a = saddr - 4 * of_nat ?n"
  have aa: "saddr - 4 * of_nat (?n + 3) = a - 12" "ps = a - 36" "sp = a - 48" "saddr - 4 * of_nat (?n + 12) = sp"
    by (simp_all add: a_def ps_def sp_def algebra_simps)
  have q: "fold push [initret, funcaddr, saddr, 0x200, 0, 0, 0, 0, 0, a - 12, 0, 0] (a, b) = (sp, s\<lparr>words := w\<rparr>)"
    using w(1) b unfolding fold_append o_apply aa a_def by simp
  have "init_stack initret funcaddr args saddr s = (let (c, u) = fold push [initret, funcaddr, saddr, 0x200, 0, 0, 0, 0, 0, a - 12, 0, 0] (a, b)
      in (c, u\<lparr>words := (words u)(a - 36 := c)\<rparr>))"
    unfolding init_stack_def b a_def [symmetric] by (simp add: b a_def [symmetric] push_def Let_def)
  also have "\<dots> = (sp, s\<lparr>words := ?w\<rparr>)" unfolding q aa(2) by simp
  finally have "init_stack initret funcaddr args saddr s = (sp, s\<lparr>words := ?w\<rparr>)" .
  note run = this
  have ne: "saddr - 4 * of_nat (Suc k) \<noteq> ps" if "k < ?n + 12" "k \<noteq> ?n + 8" for k
    using push_apart [of "Suc k" "?n + 9" saddr] n that unfolding ps_def by auto
  have at: "?w (sp + 4 * of_nat (11 + ?n - k)) = ?xs ! k" if "k < ?n + 12" "k \<noteq> ?n + 8" for k
  proof -
    have "sp + 4 * of_nat (11 + ?n - k) = saddr - 4 * of_nat (Suc k)"
      unfolding sp_def using that(1) by (simp add: of_nat_diff algebra_simps)
    then show ?thesis using ne [OF that] w(2) [OF that(1)] by simp
  qed
  show thesis
  proof (rule that [OF run])
    show "?w (sp + 32) = 0x200" "?w (sp + 36) = saddr" "?w (sp + 40) = funcaddr" "?w (sp + 44) = initret"
      using at [of "?n + 3"] at [of "?n + 2"] at [of "?n + 1"] at [of ?n] by (simp_all add: nth_append)
    show "?w (sp + 48 + 4 * of_nat i) = args ! i" if "i < ?n" for i
    proof -
      have e: "sp + 4 * of_nat (11 + ?n - (?n - Suc i)) = sp + 48 + 4 * of_nat i" using that by (simp add: algebra_simps)
      have k: "?n - Suc i < ?n + 12" "?n - Suc i \<noteq> ?n + 8" using that by simp_all
      have "?n - Suc i < ?n" using that by arith
      then have "?xs ! (?n - Suc i) = args ! i" using that by (simp add: nth_append rev_nth)
      then show ?thesis using at [OF k] unfolding e by (rule trans [rotated])
    qed
    have top: "saddr \<noteq> saddr - 4 * of_nat (Suc k)" if "k < ?n + 12" for k using push_apart [of 0 "Suc k" saddr] n that by auto
    have "saddr \<noteq> ps" using push_apart [of 0 "?n + 9" saddr] n unfolding ps_def by auto
    then show "?w saddr = STACKMAGIC" using w(3) [of saddr] top by simp
    show "?w x = words s x" if "x \<noteq> saddr" "\<And>k. k < ?n + 12 \<Longrightarrow> x \<noteq> saddr - 4 * of_nat (Suc k)" for x
      using w(3) [of x] that(1) that(2) that(2) [of "?n + 8"]
      by (simp add: ps_def add.commute del: of_nat_Suc of_nat_add)
  qed
qed

subsection \<open>Creation\<close>

lemma kinv_new_process:
  assumes I: "kinv s" and p: "prstate (proctab s p) = PR_FREE" and f: "prstate (f (proctab s p)) = PR_SUSP"
    "- 32768 \<le> prprio (f (proctab s p))" "prprio (f (proctab s p)) \<le> 32767"
  shows "kinv (upd_proc p f s)"
proof -
  from I obtain Q where Q: "kok {} s Q" "counts_ok (semtab s) Q" "prstate (proctab s (currpid s)) = PR_CURR"
    "ndefers s = 0" by (auto simp: kinv_def)
  have ne: "p \<noteq> currpid s" "p \<noteq> NULLPROC" using Q(3) p kokD(4) [OF Q(1)] by auto
  have "home (upd_proc p f s) = home s" using p f(1) by (auto simp: fun_eq_iff home_def split: prstate.split)
  moreover have "qheads (upd_proc p f s) = qheads s" "heads_ok (upd_proc p f s) = heads_ok s"
    by (simp_all add: qheads_def heads_ok_def)
  ultimately have "kok {} (upd_proc p f s) Q" using Q(1) f ne unfolding kok_def by auto
  then show ?thesis using Q ne by (auto simp: kinv_def)
qed

lemma put_kheap_kinv:
  "getstk n s = Some (a, s1) \<Longrightarrow> kinv s1 = kinv s \<and> proctab s1 = proctab s \<and> currpid s1 = currpid s \<and> prcount s1 = prcount s"
  using kinv_cong [of s1 s] by (auto simp: getstk_def put_kheap_def Let_def split: if_splits)

abbreviation stack_size :: "u32 \<Rightarrow> u32" where
  "stack_size ssize \<equiv> roundew (if ssize < MINSTK then MINSTK else ssize)"

lemma create_succeeds:
  fixes s :: "'a pgstate_scheme"
  assumes I: "kinv s" and stk: "getstk (stack_size ssize) s = Some (a, s1)" "a \<noteq> SYSERR32"
    and q: "0 \<le> q" "q < NPROC" "prstate (proctab s q) = PR_FREE" and prio: "1 \<le> priority" "priority \<le> 32767"
    and n: "length args < 2 ^ 30 - 13"
  shows "\<exists>pid s'. create initret funcaddr ssize priority name args s = Some (pid, s') \<and> 0 \<le> pid \<and> pid < NPROC \<and>
    prstate (proctab s pid) = PR_FREE \<and> kinv s' \<and> prcount s' = prcount s + 1 \<and> (\<forall>p. p \<noteq> pid \<longrightarrow> proctab s' p = proctab s p) \<and>
    (let e = proctab s' pid; sp = prstkptr e in
      prstate e = PR_SUSP \<and> prprio e = priority \<and> prstkbase e = a \<and> prparent e = currpid s \<and> \<not> prhasmsg e \<and> \<not> vh e \<and>
      words s' (sp + 40) = funcaddr \<and> words s' (sp + 44) = initret \<and> (\<forall>i<length args. words s' (sp + 48 + 4 * of_nat i) = args ! i))"
proof -
  note k1 = put_kheap_kinv [OF stk(1)]
  obtain pid m where m: "newpid_loop (nat NPROC) (nextpid_create s1) (proctab s1) = (pid, m)" by (cases "newpid_loop (nat NPROC) (nextpid_create s1) (proctab s1)")
  then have pid: "0 \<le> pid" "pid < NPROC" "prstate (proctab s pid) = PR_FREE" using newpid_free [OF m] q k1 by (auto split: if_splits)
  define sz where "sz = stack_size ssize"
  define s2 where "s2 = s1\<lparr>nextpid_create := m, prcount := prcount s1 + 1\<rparr>"
  define f where "f = (\<lambda>p. init_procent priority a sz name (currpid s) WCONSOLE (p\<lparr>prpd := gpd s2, vh := False, hsize := 0, vmeminit := False\<rparr>))"
  define s3 where "s3 = upd_proc pid f s2"
  obtain w where w: "init_stack initret funcaddr args a s3 = (a - 4 * of_nat (length args + 12), s3\<lparr>words := w\<rparr>)"
    "w (a - 4 * of_nat (length args + 12) + 40) = funcaddr" "w (a - 4 * of_nat (length args + 12) + 44) = initret"
    "\<And>i. i < length args \<Longrightarrow> w (a - 4 * of_nat (length args + 12) + 48 + 4 * of_nat i) = args ! i"
    by (rule init_stack_spec [OF n, of initret funcaddr a s3]) blast
  let ?sp = "a - 4 * of_nat (length args + 12)"
  define s4 where "s4 = upd_proc pid (\<lambda>p. p\<lparr>prstkptr := ?sp\<rparr>) (s3\<lparr>words := w\<rparr>)"
  have s3: "upd_proc pid (init_procent priority a sz name (currpid s1) WCONSOLE)
      (upd_proc pid (\<lambda>p. p\<lparr>prpd := gpd s1, vh := False, hsize := 0, vmeminit := False\<rparr>) s2) = s3"
    using k1 by (simp add: s3_def f_def upd_proc_def getpid_def s2_def)
  have run: "create initret funcaddr ssize priority name args s = Some (pid, s4)"
    unfolding create_def Let_def sz_def [symmetric] using stk m pid(1) prio(1) s3 w(1)
    by (simp add: newpid_create_def s2_def [symmetric] s4_def Let_def getpid_def sz_def [symmetric])
  have f': "prstate (f p) = PR_SUSP" "prprio (f p) = priority" "prstkbase (f p) = a" "prparent (f p) = currpid s" "\<not> prhasmsg (f p)" "\<not> vh (f p)" for p
    by (simp_all add: f_def init_procent_def)
  have "kinv s2" using I k1 kinv_cong [of s2 s1] by (simp add: s2_def)
  then have "kinv s3" unfolding s3_def by (rule kinv_new_process) (use pid(3) k1 f' prio in \<open>simp_all add: s2_def\<close>)
  then have "kinv (s3\<lparr>words := w\<rparr>)" using kinv_cong [of "s3\<lparr>words := w\<rparr>" s3] by simp
  then have K: "kinv s4" unfolding s4_def by (rule kinv_same_place) (use f' prio in \<open>simp_all add: s3_def\<close>)
  have p4: "proctab s4 = (proctab s)(pid := (f (proctab s pid))\<lparr>prstkptr := ?sp\<rparr>)" "words s4 = w" "prcount s4 = prcount s + 1"
    using k1 by (simp_all add: s4_def s3_def s2_def)
  show ?thesis
    by (intro exI [of _ pid] exI [of _ s4]) (use run pid K p4 f' w in \<open>simp add: Let_def\<close>)
qed

subsection \<open>Properties\<close>

definition crdemo :: pgstate where
  "crdemo = pdemo1\<lparr>minheap := 0x100000, maxheap := 0x400000, memlist := \<lparr>mnext = 0x100000, mlength = 0x300000\<rparr>,
     mnodes := (\<lambda>_. \<lparr>mnext = 0, mlength = 0x300000\<rparr>)\<rparr>"

lemma crdemo_stack: "\<exists>s1. getstk (stack_size 1024) crdemo = Some (0x3FFFFC, s1)"
  by (simp add: crdemo_def getstk_def getstk_body_def kheap_def roundew_def roundmb_def getstk_loop.simps Let_def)

lemma crdemo_kernel:
  "proctab crdemo = (proctab kdemo)(1 := (proctab kdemo 1)\<lparr>vh := True, hsize := 4, prpd := 0x400000, pbsd := (\<lambda>_. 0)\<rparr>)"
  "semtab crdemo = (semtab kdemo)(3 := (semtab kdemo 3)\<lparr>sstate := S_USED, scount := 1\<rparr>, 2 := (semtab kdemo 2)\<lparr>sstate := S_USED, scount := 1\<rparr>)"
  "queuetab crdemo = queuetab kdemo" "readylist crdemo = readylist kdemo" "sleepq crdemo = sleepq kdemo" "currpid crdemo = currpid kdemo"
  "ndefers crdemo = ndefers kdemo"
  by (simp_all add: crdemo_def pdemo1_def pdemo_def pgstate.defs vstate.defs pdemo_base_def vdemo_def mstate.defs kstate.defs)

lemma crdemo_kinv: "kinv crdemo"
proof -
  let ?k = "upd_sem 2 (\<lambda>e. e\<lparr>sstate := S_USED, scount := 1\<rparr>) (upd_sem 3 (\<lambda>e. e\<lparr>sstate := S_USED, scount := 1\<rparr>)
     (upd_proc 1 (\<lambda>p. p\<lparr>vh := True, hsize := 4, prpd := 0x400000, pbsd := (\<lambda>_. 0)\<rparr>) kdemo))"
  have "kinv ?k"
    by (rule upd_sem_free_kinv [OF upd_sem_free_kinv [OF kinv_same_place [OF kdemo_kinv]]])
      (use prio_range [OF kdemo_kinv] in \<open>simp_all add: kdemo_def\<close>)
  then show ?thesis using kinv_cong [of crdemo ?k] by (simp add: crdemo_kernel)
qed

text \<open>C26: with a stack and a slot of the process table available, \<open>create\<close> makes a suspended process with the priority
  asked for, keeps the invariant and every other process, and leaves a stack on which the address of the
  code, the return address and the arguments are where \<open>ctxsw\<close> and the code expect them.\<close>

theorem create_makes_process:
  assumes "kinv s" and "getstk (stack_size ssize) s = Some (a, s1)" and "a \<noteq> SYSERR32" and "0 \<le> q" and "q < NPROC"
    and "prstate (proctab s q) = PR_FREE" and "1 \<le> priority" and "priority \<le> 32767" and "length args < 2 ^ 30 - 13"
  shows "\<exists>pid s'. create initret funcaddr ssize priority name args s = Some (pid, s') \<and> 0 \<le> pid \<and> pid < NPROC \<and>
    prstate (proctab s pid) = PR_FREE \<and> kinv s' \<and> prcount s' = prcount s + 1 \<and> (\<forall>p. p \<noteq> pid \<longrightarrow> proctab s' p = proctab s p) \<and>
    (let e = proctab s' pid; sp = prstkptr e in
      prstate e = PR_SUSP \<and> prprio e = priority \<and> prstkbase e = a \<and> prparent e = currpid s \<and> \<not> prhasmsg e \<and> \<not> vh e \<and>
      words s' (sp + 40) = funcaddr \<and> words s' (sp + 44) = initret \<and> (\<forall>i<length args. words s' (sp + 48 + 4 * of_nat i) = args ! i))"
  by (rule create_succeeds [OF assms])

theorem create_makes_process_witness:
  "\<exists>pid s'. create 0x1000 0x2000 1024 20 ''shell'' [7, 9] crdemo = Some (pid, s') \<and> kinv s' \<and>
    words s' (prstkptr (proctab s' pid) + 40) = 0x2000 \<and> words s' (prstkptr (proctab s' pid) + 52) = 9"
proof -
  obtain s1 where s1: "getstk (stack_size 1024) crdemo = Some (0x3FFFFC, s1)" using crdemo_stack by blast
  have "prstate (proctab crdemo 50) = PR_FREE" by (simp add: crdemo_kernel kdemo_def demo_proc_def procent0_def)
  then obtain pid s' where c: "create 0x1000 0x2000 1024 20 ''shell'' [7, 9] crdemo = Some (pid, s')" "kinv s'"
    "words s' (prstkptr (proctab s' pid) + 40) = 0x2000"
    "\<forall>i<length [7, 9 :: u32]. words s' (prstkptr (proctab s' pid) + 48 + 4 * of_nat i) = [7, 9] ! i"
    using create_makes_process [OF crdemo_kinv s1, of 50 20 "[7, 9]" "0x1000" "0x2000" "''shell''"] by (auto simp: Let_def)
  then show ?thesis using spec [OF c(4), of 1] by (auto simp: add.assoc)
qed

text \<open>A fault at an illegal address is counted, gives the page fault semaphore back and goes on with \<open>kill\<close>.\<close>

lemma invalid_fault_kills:
  assumes "sem_free s (pf_sem s)" and "isInvalidAddr (cr2 s) (currpid s) s"
  shows "run (pf_handler dt) s = run (pbind (kill dt (currpid s)) (\<lambda>_. Ret ())) (s\<lparr>pfc := pfc s + 1\<rparr>)"
proof -
  let ?s1 = "s\<lparr>pfc := pfc s + 1\<rparr>" and ?sem = "pf_sem s"
  have f: "sem_free ?s1 ?sem" using assms(1) by (simp add: sem_free_def)
  have r: "run (pmodify (\<lambda>s. s\<lparr>pfc := pfc s + 1\<rparr>)) s = Some (Inl (), ?s1)" by (rule run_pmodify) simp
  have w: "run (pcall (wait ?sem)) ?s1 = Some (Inl OK, lock ?sem ?s1)" using runs_wait [OF f] by (simp add: runs_def)
  have u: "run (pcall (signal ?sem)) (lock ?sem ?s1) = Some (Inl OK, ?s1)" using runs_signal [OF f refl] by (simp add: runs_def)
  have i: "isInvalidAddr (cr2 s) (currpid s) (lock ?sem ?s1)" using assms(2) by (simp add: isInvalidAddr_def)
  show ?thesis unfolding pf_handler_def by (simp add: run_bind r w u i)
qed

text \<open>The state of the witness: process 1 has a stack of one page at the end of the kernel heap, four pages of
  virtual heap on store 0, a page directory in frame 0, and faults at the first address behind its virtual heap.\<close>

definition enddemo :: pgstate where
  "enddemo = (upd_proc 1 (\<lambda>p. p\<lparr>prstkbase := 0x3FFFFC, prstklen := 0x1000\<rparr>) crdemo)
     \<lparr>cr2 := 0x01004000, memlist := \<lparr>mnext = 0x100000, mlength = 0x2FF000\<rparr>, mnodes := (\<lambda>_. \<lparr>mnext = 0, mlength = 0x2FF000\<rparr>)\<rparr>"

lemma enddemo_kernel:
  "currpid enddemo = 1" "prcount enddemo = 7" "pf_sem enddemo = 2" "bs_sem enddemo = 3" "cr2 enddemo = 0x01004000"
  "proctab enddemo 1 = (proctab kdemo 1)\<lparr>vh := True, hsize := 4, prpd := 0x400000, pbsd := (\<lambda>_. 0), prstkbase := 0x3FFFFC,
     prstklen := 0x1000\<rparr>"
  "proctab enddemo 0 = proctab kdemo 0" "semtab enddemo = semtab crdemo"
  "ipt enddemo = ipt pdemo1" "bstab enddemo = bstab pdemo1" "used_frames enddemo = {0}" "frames_ok enddemo"
proof -
  have f: "ipt enddemo = ipt pdemo1" "flistHead enddemo = flistHead pdemo1" "flistTail enddemo = flistTail pdemo1" "currpolicy enddemo = currpolicy pdemo1"
    by (simp_all add: enddemo_def crdemo_def)
  show "used_frames enddemo = {0}" using pdemo1_frames(2) by (simp add: used_frames_def f)
  show "frames_ok enddemo" using pdemo1_frames(1) fqueue_cong [of _ enddemo pdemo1] f by (simp add: frames_ok_def)
  show "ipt enddemo = ipt pdemo1" by (fact f)
qed (simp_all add: enddemo_def crdemo_kernel kdemo_def, simp_all add: crdemo_def pdemo1_def, simp add: pdemo_def pgstate.defs pdemo_base_def vdemo_def vstate.defs mstate.defs kstate.defs kdemo_def)

lemma enddemo_kinv: "kinv enddemo"
proof -
  have "kinv (upd_proc 1 (\<lambda>p. p\<lparr>prstkbase := 0x3FFFFC, prstklen := 0x1000\<rparr>) crdemo)"
    by (rule kinv_same_place [OF crdemo_kinv]) (use prio_range [OF crdemo_kinv] in simp_all)
  then show ?thesis using kinv_cong [of enddemo "upd_proc 1 (\<lambda>p. p\<lparr>prstkbase := 0x3FFFFC, prstklen := 0x1000\<rparr>) crdemo"]
    by (simp add: enddemo_def)
qed

lemma enddemo_heap: "heap_rep {0x100000..<0x400000} enddemo {0x100000..<0x3FF000}"
proof -
  have "minheap enddemo = 0x100000" "maxheap enddemo = 0x400000" by (simp_all add: enddemo_def crdemo_def)
  moreover have "fl_ok 0x100000 0x400000 (kheap enddemo) [(0x100000, 0x2FF000)]"
    by (auto simp: fl_ok_def fl_seg_def kheap_def enddemo_def)
  moreover have "bytes [(0x100000, 0x2FF000)] = {0x100000..<0x3FF000}" by auto
  ultimately show ?thesis unfolding heap_rep_def fl_free_def by auto
qed

text \<open>C27: a fault of a process at an address outside its virtual heap ends the process and never returns to it. The fault is
  counted, the page tables and the semaphores stay as they are, the entry of the process becomes free, its parent gets
  its number as a message, another process runs, the stack is free again, none of its frames is in use and the
  stores of its virtual heap that nobody has open are free. The other processes keep everything but their state. The
  parent must not be blocked in \<open>receive\<close> and the descriptors of the process have nothing to close.\<close>

theorem pf_handler_invalid_address:
  fixes s :: "'a pgstate_scheme"
  defines "e \<equiv> proctab s (currpid s)"
  assumes "kinv s" and "currpid s \<noteq> NULLPROC" and "2 < prcount s" and "prstate (proctab s (prparent e)) \<notin> {PR_RECV, PR_RECTIM}"
    and "\<And>i u. i < 3 \<Longrightarrow> \<exists>r. runs (close_dev dt (prdesc e ! i)) u r (u :: 'a pgstate_scheme)"
    and "heap_rep A s F" and "0 < prstklen e" and "prstklen e \<le> 0xFFFFFFF8" and "stk_ext (prstkbase e) (prstklen e) \<subseteq> A - F"
    and "frames_ok s" and "sem_free s (bs_sem s)" and "sem_free s (pf_sem s)" and "isInvalidAddr (cr2 s) (currpid s) s"
  shows "\<exists>rest s'. run (pf_handler dt) s = Some (Inr rest, s') \<and> get_faults s' = get_faults s + 1 \<and>
    kinv s' \<and> prstate (proctab s' (currpid s)) = PR_FREE \<and> currpid s' \<noteq> currpid s \<and> prcount s' = prcount s - 1 \<and>
    (\<forall>q. q \<noteq> currpid s \<and> q \<noteq> prparent e \<longrightarrow> proctab s' q = (proctab s q)\<lparr>prstate := prstate (proctab s' q)\<rparr>) \<and>
    (\<not> isbadpid s (prparent e) \<and> prstate (proctab s (prparent e)) \<noteq> PR_FREE \<and> \<not> prhasmsg (proctab s (prparent e)) \<longrightarrow>
      prhasmsg (proctab s' (prparent e)) \<and> prmsg (proctab s' (prparent e)) = word_of_int (currpid s)) \<and>
    heap_rep A s' (F \<union> stk_ext (prstkbase e) (prstklen e)) \<and> frames_ok s' \<and>
    used_frames s' = (if vh e then used_frames s - {fr. fpid (ipt s fr) = currpid s} else used_frames s) \<and>
    (\<forall>k. vh e \<and> 200 * int k < sint (hsize e) \<and> unused s (pbsd e k) \<longrightarrow> released s' (pbsd e k)) \<and>
    words s' = words s \<and> semtab s' = semtab s"
proof -
  let ?s1 = "s\<lparr>pfc := pfc s + 1\<rparr>"
  have "kinv ?s1" "heap_rep A ?s1 F" "frames_ok ?s1" "sem_free ?s1 (bs_sem ?s1)"
    using assms kinv_cong [of ?s1 s] fqueue_cong [of _ ?s1 s] by (simp_all add: heap_rep_def kheap_def frames_ok_def sem_free_def)
  then obtain rest s' where k: "run (kill dt (currpid s)) ?s1 = Some (Inr rest, s')" "ended (currpid s) A F ?s1 s'"
    using kill_self [of ?s1 dt A F] assms by auto
  have "\<exists>rest. run (pf_handler dt) s = Some (Inr rest, s')"
    unfolding invalid_fault_kills [OF assms(13,14)] by (simp add: run_bind k(1))
  moreover have "used_frames ?s1 = used_frames s" "unused ?s1 = unused s" by (simp_all add: used_frames_def unused_def fun_eq_iff)
  ultimately show ?thesis using k(2) by (auto simp: ended_def Let_def e_def get_faults_def isbadpid_def)
qed

theorem pf_handler_invalid_address_witness:
  "\<exists>rest s'. run (pf_handler (devtab nulldevs)) enddemo = Some (Inr rest, s') \<and> prstate (proctab s' 1) = PR_FREE \<and> currpid s' \<noteq> 1 \<and>
    prmsg (proctab s' 0) = 1 \<and> heap_rep {0x100000..<0x400000} s' {0x100000..<0x400000} \<and> used_frames s' = {} \<and> released s' 0"
proof -
  have e: "prstkbase (proctab enddemo 1) = 0x3FFFFC" "prstklen (proctab enddemo 1) = 0x1000" "vh (proctab enddemo 1)"
    "hsize (proctab enddemo 1) = 4" "pbsd (proctab enddemo 1) = (\<lambda>_. 0)" "prparent (proctab enddemo 1) = 0" "prdesc (proctab enddemo 1) = [0, 0, 0, 0, 0]"
    "prstate (proctab enddemo 0) = PR_READY" "\<not> prhasmsg (proctab enddemo 0)"
    by (simp_all add: enddemo_kernel kdemo_def demo_proc_def procent0_def)
  have x: "stk_ext 0x3FFFFC 0x1000 = {0x3FF000..<0x400000}" by (simp add: stk_ext_def roundmb_def)
  have c: "\<exists>r. runs (close_dev (devtab nulldevs) 0) u r u" for u :: pgstate
    by (intro exI [of _ OK]) (simp add: close_dev_def isbaddev_def devtab_def ionull_def runs_Ret)
  have q: "sem_free enddemo 3" "sem_free enddemo 2" by (simp_all add: sem_free_def enddemo_kernel crdemo_kernel)
  have i: "isInvalidAddr (cr2 enddemo) (currpid enddemo) enddemo" by (simp add: isInvalidAddr_def enddemo_kernel(1,5) e)
  have d: "[0, 0, 0, 0, 0 :: int] ! i = 0" if "i < 3" for i using that by (auto simp: less_Suc_eq numeral_3_eq_3)
  obtain rest s' where s': "run (pf_handler (devtab nulldevs)) enddemo = Some (Inr rest, s')" "prstate (proctab s' 1) = PR_FREE" "currpid s' \<noteq> 1"
    "\<not> isbadpid enddemo 0 \<and> prstate (proctab enddemo 0) \<noteq> PR_FREE \<and> \<not> prhasmsg (proctab enddemo 0) \<longrightarrow> prmsg (proctab s' 0) = 1"
    "heap_rep {0x100000..<0x400000} s' ({0x100000..<0x3FF000} \<union> {0x3FF000..<0x400000})"
    "used_frames s' = {0} - {fr. fpid (ipt pdemo1 fr) = 1}" "unused enddemo 0 \<longrightarrow> released s' 0"
    using pf_handler_invalid_address [of enddemo "devtab nulldevs" "{0x100000..<0x400000}" "{0x100000..<0x3FF000}"] enddemo_kinv enddemo_heap i c d q
    unfolding enddemo_kernel(1-4,9,11) e x by (auto simp: enddemo_kernel(12) e(3) intro!: exI [of _ "0 :: nat"])
  have "{0x100000..<0x3FF000} \<union> {0x3FF000..<0x400000 :: nat} = {0x100000..<0x400000}" by auto
  moreover have "unused enddemo 0" "fpid (ipt pdemo1 0) = 1" by (simp_all add: unused_def enddemo_kernel(10) pdemo1_def pdemo_entry_def)
  moreover have "\<not> isbadpid enddemo 0" using e by (simp add: isbadpid_def)
  ultimately show ?thesis using s' e(8,9) by auto
qed

text \<open>\<open>getdev\<close> returns the first device whose name differs from the one asked for, so every name other than that
  of the console gives the console.\<close>

theorem getdev_returns_console:
  assumes "take DEVNAMLEN name \<noteq> ''CONSOLE''"
  shows "getdev (devtab d) name = CONSOLE"
  using assms by (simp add: getdev_def strncmp_differs_def devtab_def eval_nat_numeral)

theorem getdev_returns_console_witness: "getdev (devtab nulldevs) ''QEMURDISK'' = CONSOLE"
  by (rule getdev_returns_console) simp

end
