(* ===== verification/Ipc_Properties.thy ===== *)
theory Ipc_Properties
  imports Ports Buffers Locks Paging_Properties
begin

section \<open>Properties of ports and buffer pools\<close>

text \<open>
  A port is a queue of messages in nodes of two words, linked in memory; the unused nodes of all
  ports form one list. \<open>port_rep\<close> relates the memory to the list of messages, and \<open>ptsend\<close> and \<open>ptrecv\<close>
  refine appending to it and taking its first element. A buffer pool is a list of buffers linked
  through their headers; \<open>freebuf\<close> undoes \<open>getbuf\<close>.
\<close>

subsection \<open>Chains of message nodes\<close>

fun pt_chain :: "'a mstate_scheme \<Rightarrow> addr \<Rightarrow> addr list \<Rightarrow> bool" where
  "pt_chain s a [] \<longleftrightarrow> a = 0"
| "pt_chain s a (n # ns) \<longleftrightarrow> a = n \<and> pt_chain s (ptnext s n) ns"

definition nodes_ok :: "addr list \<Rightarrow> bool" where
  "nodes_ok ns \<longleftrightarrow> distinct ns \<and> 0 \<notin> set ns \<and> (\<forall>a\<in>set ns. 8 dvd unat a)"

lemma aligned_apart: "8 dvd unat a \<Longrightarrow> 8 dvd unat b \<Longrightarrow> a + 4 \<noteq> (b :: addr)"
proof
  assume a: "8 dvd unat a" "8 dvd unat b" "a + 4 = b"
  obtain k where k: "unat a = 8 * k" using a(1) by auto
  have "8 * k < 2 ^ 32" using unsigned_less [of a, where ?'a = nat] k by simp
  then have "8 * k + 4 < 2 ^ 32" by simp
  then have "unat b = 8 * k + 4" unfolding a(3) [symmetric] using k by (simp add: unat_add_lt)
  then show False using a(2) by presburger
qed

lemma pt_words [simp]:
  "ptnext (set_ptnext a v s) b = (if b = a then v else ptnext s b)" "ptmsg (set_ptmsg a v s) b = (if b = a then v else ptmsg s b)"
  by (simp_all add: ptnext_def set_ptnext_def ptmsg_def set_ptmsg_def)

lemma pt_words_apart:
  "8 dvd unat a \<Longrightarrow> 8 dvd unat b \<Longrightarrow> ptmsg (set_ptnext a v s) b = ptmsg s b"
  "8 dvd unat a \<Longrightarrow> 8 dvd unat b \<Longrightarrow> ptnext (set_ptmsg a v s) b = ptnext s b"
  using aligned_apart [of a b] aligned_apart [of b a] by (auto simp: ptnext_def set_ptnext_def ptmsg_def set_ptmsg_def)

lemma pt_chain_cong: "(\<And>n. n \<in> set ns \<Longrightarrow> ptnext s' n = ptnext s n) \<Longrightarrow> pt_chain s' a ns = pt_chain s a ns"
  by (induction ns arbitrary: a) auto

lemma pt_chain_snoc:
  assumes "pt_chain s a ns" and "\<And>n. n \<in> set (butlast ns) \<Longrightarrow> ptnext s' n = ptnext s n" and "ns \<noteq> []"
    and "ptnext s' (last ns) = f" and "ptnext s' f = 0"
  shows "pt_chain s' a (ns @ [f])"
  using assms by (induction ns arbitrary: a) (auto split: if_splits)

subsection \<open>The representation of a port\<close>

definition port_rep :: "int \<Rightarrow> 'a ptstate_t_scheme \<Rightarrow> u32 list \<Rightarrow> addr list \<Rightarrow> bool" where
  "port_rep portid s ms fs \<longleftrightarrow> (\<exists>ns. nodes_ok (ns @ fs) \<and> map (ptmsg s) ns = ms \<and> pt_chain s (ptfree s) fs \<and>
     pt_chain s (pthead (porttab s portid)) ns \<and> pttail (porttab s portid) = (if ns = [] then 0 else last ns))"

lemma upd_port_simps [simp]:
  "porttab (upd_port i f s) = (porttab s)(i := f (porttab s i))" "ptfree (upd_port i f s) = ptfree s" "words (upd_port i f s) = words s"
  "currpid (upd_port i f s) = currpid s" "semtab (upd_port i f s) = semtab s"
  "porttab (set_ptnext a v s) = porttab s" "ptfree (set_ptnext a v s) = ptfree s" "currpid (set_ptnext a v s) = currpid s" "semtab (set_ptnext a v s) = semtab s"
  "porttab (set_ptmsg a v s) = porttab s" "ptfree (set_ptmsg a v s) = ptfree s" "currpid (set_ptmsg a v s) = currpid s" "semtab (set_ptmsg a v s) = semtab s"
  by (simp_all add: upd_port_def set_ptnext_def set_ptmsg_def)

lemma pt_same [simp]:
  fixes s :: "'a ptstate_t_scheme"
  shows "ptnext (upd_port i f s) = ptnext s" "ptmsg (upd_port i f s) = ptmsg s" "ptnext (s\<lparr>ptfree := x\<rparr>) = ptnext s" "ptmsg (s\<lparr>ptfree := x\<rparr>) = ptmsg s"
    "set_ptnext a v (upd_port i f s) = upd_port i f (set_ptnext a v s)"
  by (simp_all add: ptnext_def ptmsg_def upd_port_def set_ptnext_def fun_eq_iff)

lemma pt_chain_upd [simp]: "pt_chain (upd_port i f s) a ns = pt_chain s a ns" "pt_chain (s\<lparr>ptfree := x\<rparr>) a ns = pt_chain s a ns"
  by (rule pt_chain_cong; simp)+

lemma port_enqueue_rep:
  assumes "port_rep portid s ms (f # fs)"
  shows "port_rep portid (port_enqueue portid m s) (ms @ [m]) fs"
proof -
  obtain ns where ns: "nodes_ok (ns @ f # fs)" "map (ptmsg s) ns = ms" "pt_chain s (ptfree s) (f # fs)"
    "pt_chain s (pthead (porttab s portid)) ns" "pttail (porttab s portid) = (if ns = [] then 0 else last ns)"
    using assms by (auto simp: port_rep_def)
  let ?s1 = "set_ptmsg f m (set_ptnext f 0 (s\<lparr>ptfree := ptnext s f\<rparr>))"
  let ?s' = "port_enqueue portid m s"
  have f: "ptfree s = f" "pt_chain s (ptnext s f) fs" using ns(3) by auto
  have al: "8 dvd unat f" "\<And>n. n \<in> set ns \<Longrightarrow> 8 dvd unat n \<and> n \<noteq> f" "\<And>n. n \<in> set fs \<Longrightarrow> 8 dvd unat n \<and> n \<noteq> f \<and> n \<notin> set ns"
    using ns(1) by (auto simp: nodes_ok_def)
  have nx1: "ptnext ?s1 n = (if n = f then 0 else ptnext s n)" "ptmsg ?s1 n = (if n = f then m else ptmsg s n)" if "8 dvd unat n" for n
    using al(1) that by (auto simp: pt_words_apart)
  show ?thesis
  proof (cases "ns = []")
    case True
    then have e: "?s' = upd_port portid (\<lambda>e. e\<lparr>pttail := f, pthead := f\<rparr>) ?s1" using ns(5) f(1) by (simp add: port_enqueue_def Let_def)
    have "pt_chain ?s1 (ptnext s f) fs = pt_chain s (ptnext s f) fs" using al(3) nx1 by (intro pt_chain_cong) auto
    then show ?thesis unfolding port_rep_def e using True ns al f(2) nx1 [of f] by (intro exI [of _ "[f]"]) simp
  next
    case False
    let ?l = "last ns"
    have l: "?l \<in> set ns" "0 \<notin> set ns" using False ns(1) by (simp_all add: nodes_ok_def)
    then have "?l \<noteq> 0" by metis
    then have e: "?s' = upd_port portid (\<lambda>e. e\<lparr>pttail := f\<rparr>) (set_ptnext ?l f ?s1)"
      using ns(5) f(1) False by (simp add: port_enqueue_def Let_def)
    have nx: "ptnext (set_ptnext ?l f ?s1) n = (if n = ?l then f else if n = f then 0 else ptnext s n)"
      "ptmsg (set_ptnext ?l f ?s1) n = (if n = f then m else ptmsg s n)" if "8 dvd unat n" for n
      using nx1 [OF that] pt_words_apart(1) [of ?l n f ?s1] al(2) [OF l(1)] that by simp_all
    have d: "distinct ns" using ns(1) by (simp add: nodes_ok_def)
    then have bl: "n \<noteq> ?l" "n \<in> set ns" if "n \<in> set (butlast ns)" for n
      using that False in_set_butlastD [OF that] by (cases ns rule: rev_cases; auto)+
    have "pt_chain (set_ptnext ?l f ?s1) (pthead (porttab s portid)) (ns @ [f])"
      by (rule pt_chain_snoc [OF ns(4) _ False]) (use nx al l bl in \<open>auto simp del: pt_words\<close>)
    moreover have "pt_chain (set_ptnext ?l f ?s1) (ptnext s f) fs = pt_chain s (ptnext s f) fs"
      using al(3) nx l(1) by (intro pt_chain_cong) (auto simp del: pt_words)
    moreover have "map (ptmsg (set_ptnext ?l f ?s1)) (ns @ [f]) = ms @ [m]" using ns(2) nx(2) al by auto
    ultimately show ?thesis unfolding port_rep_def e using ns(1) f(2)
      by (intro exI [of _ "ns @ [f]"]) (simp add: nodes_ok_def)
  qed
qed

lemma port_dequeue_rep:
  assumes "port_rep portid s (m # ms) fs"
  shows "fst (port_dequeue portid s) = m" "\<exists>n. port_rep portid (snd (port_dequeue portid s)) ms (n # fs)"
proof -
  obtain n ns where ns: "nodes_ok (n # ns @ fs)" "ptmsg s n = m" "map (ptmsg s) ns = ms" "pt_chain s (ptfree s) fs"
    "pthead (porttab s portid) = n" "pt_chain s (ptnext s n) ns" "pttail (porttab s portid) = last (n # ns)"
    using assms unfolding port_rep_def by (auto simp: Cons_eq_map_conv map_eq_Cons_conv)
  then show "fst (port_dequeue portid s) = m" by (simp add: port_dequeue_def Let_def)
  have al: "8 dvd unat n" "\<And>x. x \<in> set (ns @ fs) \<Longrightarrow> 8 dvd unat x \<and> x \<noteq> n" using ns(1) by (auto simp: nodes_ok_def)
  let ?s' = "snd (port_dequeue portid s)"
  define h where "h = (if ns = [] then 0 else ptnext s n)"
  define t where "t = (if ns = [] then 0 else last ns)"
  have hd: "ns \<noteq> [] \<Longrightarrow> last (n # ns) \<noteq> n" using ns(1) last_in_set [of ns] by (auto simp: nodes_ok_def)
  have e: "ptfree ?s' = n" "pthead (porttab ?s' portid) = h" "pttail (porttab ?s' portid) = t"
    "words ?s' = words (set_ptnext n (ptfree s) s)"
    using ns(5,7) hd by (auto simp: port_dequeue_def Let_def h_def t_def set_ptnext_def)
  have nx: "ptnext ?s' x = (if x = n then ptfree s else ptnext s x)" "8 dvd unat x \<Longrightarrow> ptmsg ?s' x = ptmsg s x" for x
    using e(4) pt_words(1) [of n "ptfree s" s x] pt_words_apart(1) [of n x "ptfree s" s] al(1) by (simp_all add: ptnext_def ptmsg_def)
  have "pt_chain ?s' (ptfree s) fs = pt_chain s (ptfree s) fs" "pt_chain ?s' (ptnext s n) ns = pt_chain s (ptnext s n) ns"
    using nx(1) al(2) by (intro pt_chain_cong; auto)+
  then have "port_rep portid ?s' ms (n # fs)" unfolding port_rep_def
    using ns nx al e by (intro exI [of _ ns]) (auto simp: nodes_ok_def h_def t_def)
  then show "\<exists>n. port_rep portid ?s' ms (n # fs)" by blast
qed

subsection \<open>Sending and receiving\<close>

text \<open>A port in use, its two semaphores counting free places and messages; nobody waits on the second.\<close>

definition port_ok :: "int \<Rightarrow> 'a ptstate_t_scheme \<Rightarrow> bool" where
  "port_ok portid s \<longleftrightarrow> 0 \<le> portid \<and> portid < NPORTS \<and> ptstate (porttab s portid) = PT_ALLOC \<and>
     (let a = ptssem (porttab s portid); b = ptrsem (porttab s portid) in
        0 \<le> a \<and> a < NSEM \<and> sstate (semtab s a) = S_USED \<and> 0 \<le> scount (semtab s a) \<and>
        0 \<le> b \<and> b < NSEM \<and> sstate (semtab s b) = S_USED \<and> 0 \<le> scount (semtab s b) \<and> a \<noteq> b)"

lemma runs_signal_free:
  assumes "0 \<le> sem" "sem < NSEM" "sstate (semtab s sem) = S_USED" "0 \<le> scount (semtab s sem)"
  shows "runs (pcall (signal sem)) s OK (unlock sem s)"
  by (rule runs_call) (use assms in \<open>auto simp: signal_def isbadsem_def Let_def\<close>)

lemma upd_sem_port [simp]:
  fixes s :: "'a ptstate_t_scheme"
  shows "porttab (upd_sem i f s) = porttab s" "ptfree (upd_sem i f s) = ptfree s" "port_rep p (upd_sem i f s) ms fs = port_rep p s ms fs"
    "pt_chain (upd_sem i f s) a ns = pt_chain s a ns"
proof -
  have e: "ptnext (upd_sem i f s) = ptnext s" "ptmsg (upd_sem i f s) = ptmsg s" by (simp_all add: upd_sem_def ptnext_def ptmsg_def fun_eq_iff)
  then have "pt_chain (upd_sem i f s) a ns = pt_chain s a ns" for a ns by (intro pt_chain_cong) simp
  then show "porttab (upd_sem i f s) = porttab s" "ptfree (upd_sem i f s) = ptfree s" "port_rep p (upd_sem i f s) ms fs = port_rep p s ms fs"
    "pt_chain (upd_sem i f s) a ns = pt_chain s a ns" using e by (simp_all add: upd_sem_def [of _ _ s] port_rep_def)
qed

lemma port_enqueue_frame:
  "ptstate (porttab (port_enqueue p m s) p) = ptstate (porttab s p)" "ptseq (porttab (port_enqueue p m s) p) = ptseq (porttab s p)"
  "ptssem (porttab (port_enqueue p m s) p) = ptssem (porttab s p)" "ptrsem (porttab (port_enqueue p m s) p) = ptrsem (porttab s p)"
  "semtab (port_enqueue p m s) = semtab s" "currpid (port_enqueue p m s) = currpid s"
  by (simp_all add: port_enqueue_def Let_def)

lemma port_dequeue_frame:
  "ptstate (porttab (snd (port_dequeue p s)) p) = ptstate (porttab s p)" "ptseq (porttab (snd (port_dequeue p s)) p) = ptseq (porttab s p)"
  "ptssem (porttab (snd (port_dequeue p s)) p) = ptssem (porttab s p)" "ptrsem (porttab (snd (port_dequeue p s)) p) = ptrsem (porttab s p)"
  "semtab (snd (port_dequeue p s)) = semtab s" "currpid (snd (port_dequeue p s)) = currpid s"
  by (simp_all add: port_dequeue_def Let_def)

lemma ptsend_runs:
  fixes s :: "'a ptstate_t_scheme" and m :: u32
  assumes P: "port_ok p s" and R: "port_rep p s ms (f # fs)" and c: "0 < scount (semtab s (ptssem (porttab s p)))"
  defines "s' \<equiv> unlock (ptrsem (porttab s p)) (port_enqueue p m (lock (ptssem (porttab s p)) s))"
  shows "runs (ptsend p m) s OK s'" "port_rep p s' (ms @ [m]) fs" "port_ok p s'" "0 < scount (semtab s' (ptrsem (porttab s' p)))"
proof -
  let ?a = "ptssem (porttab s p)" and ?b = "ptrsem (porttab s p)"
  let ?s1 = "lock ?a s"
  let ?s2 = "port_enqueue p m ?s1"
  have sem: "sem_free s ?a" "?a \<noteq> ?b" using P c by (simp_all add: port_ok_def sem_free_def Let_def)
  note k = port_enqueue_frame [of p m ?s1]
  have R1: "port_rep p ?s1 ms (f # fs)" using R by simp
  then have f: "ptfree ?s1 \<noteq> 0" by (auto simp: port_rep_def nodes_ok_def)
  have b: "runs (pcall (signal ?b)) ?s2 OK s'" unfolding s'_def
    by (rule runs_signal_free) (use P sem(2) k(5) in \<open>auto simp: port_ok_def Let_def\<close>)
  have e: "runs (pmodify (port_enqueue p m)) ?s1 () ?s2" by (rule runs_modify) (rule k(6))
  have bad: "(isbadport p \<or> ptstate (porttab s p) \<noteq> PT_ALLOC) = False"
    "(OK = SYSERR \<or> ptstate (porttab ?s1 p) \<noteq> PT_ALLOC \<or> ptseq (porttab ?s1 p) \<noteq> ptseq (porttab s p)) = False"
    using P by (simp_all add: port_ok_def isbadport_def)
  have r: "ptrsem (porttab ?s2 p) = ?b" using k(4) by simp
  show "runs (ptsend p m) s OK s'" unfolding ptsend_def
    by (rule runs_bind [OF runs_gets], unfold bad(1) if_False, rule runs_bind [OF runs_gets], rule runs_bind [OF runs_gets],
        rule runs_bind [OF runs_wait [OF sem(1)]], rule runs_bind [OF runs_gets], unfold bad(2) if_False, rule runs_bind [OF runs_gets],
        unfold if_not_P [OF f], rule runs_bind [OF e], rule runs_bind [OF runs_gets], unfold r, rule runs_bind [OF b], rule runs_Ret)
  show "port_rep p s' (ms @ [m]) fs" unfolding s'_def using port_enqueue_rep [OF R1] by simp
  show "port_ok p s'" "0 < scount (semtab s' (ptrsem (porttab s' p)))"
    using P c sem(2) k by (auto simp: port_ok_def s'_def Let_def)
qed

lemma ptrecv_runs:
  fixes s :: "'a ptstate_t_scheme"
  assumes P: "port_ok p s" and R: "port_rep p s (m # ms) fs" and c: "0 < scount (semtab s (ptrsem (porttab s p)))"
  shows "\<exists>s' n. runs (ptrecv p) s m s' \<and> port_rep p s' ms (n # fs) \<and> port_ok p s'"
proof -
  let ?a = "ptssem (porttab s p)" and ?b = "ptrsem (porttab s p)"
  let ?s1 = "lock ?b s"
  let ?s2 = "snd (port_dequeue p ?s1)"
  let ?s' = "unlock ?a ?s2"
  have sem: "sem_free s ?b" "?a \<noteq> ?b" using P c by (simp_all add: port_ok_def sem_free_def Let_def)
  note k = port_dequeue_frame [of p ?s1]
  have R1: "port_rep p ?s1 (m # ms) fs" using R by simp
  obtain n where n: "port_rep p ?s2 ms (n # fs)" using port_dequeue_rep(2) [OF R1] by blast
  have a: "runs (pcall (signal ?a)) ?s2 OK ?s'"
    by (rule runs_signal_free) (use P sem(2) k(5) in \<open>auto simp: port_ok_def Let_def\<close>)
  have e: "runs (plift (port_dequeue p)) ?s1 m ?s2"
    by (rule runs_lift) (use port_dequeue_rep(1) [OF R1] k(6) in \<open>simp_all add: prod_eq_iff\<close>)
  have bad: "(isbadport p \<or> ptstate (porttab s p) \<noteq> PT_ALLOC) = False"
    "(OK = SYSERR \<or> ptstate (porttab ?s1 p) \<noteq> PT_ALLOC \<or> ptseq (porttab ?s1 p) \<noteq> ptseq (porttab s p)) = False"
    using P by (simp_all add: port_ok_def isbadport_def)
  have r: "ptssem (porttab ?s2 p) = ?a" using k(3) by simp
  have "runs (ptrecv p) s m ?s'" unfolding ptrecv_def
    by (rule runs_bind [OF runs_gets], unfold bad(1) if_False, rule runs_bind [OF runs_gets], rule runs_bind [OF runs_gets],
        rule runs_bind [OF runs_wait [OF sem(1)]], rule runs_bind [OF runs_gets], unfold bad(2) if_False,
        rule runs_bind [OF e], rule runs_bind [OF runs_gets], unfold r, rule runs_bind [OF a], rule runs_Ret)
  moreover have "port_ok p ?s'" using P c sem(2) k by (auto simp: port_ok_def Let_def)
  ultimately show ?thesis using n by (intro exI [of _ ?s'] exI [of _ n]) simp
qed

subsection \<open>Buffers\<close>

lemma getbuf_runs:
  fixes s :: "'a bufstate_scheme"
  assumes "0 \<le> p" "p < nbpools s" and "sem_free s (bpsem (buftab s p))"
  shows "runs (getbuf p) s (4 + bpnext (buftab s p)) (snd (take_buf p (lock (bpsem (buftab s p)) s)))"
proof -
  let ?sem = "bpsem (buftab s p)"
  have b: "buftab (lock ?sem s) = buftab s" by (simp add: upd_sem_def)
  have "runs (plift (take_buf p)) (lock ?sem s) (4 + bpnext (buftab s p)) (snd (take_buf p (lock ?sem s)))"
    by (rule runs_lift) (simp_all add: take_buf_def b Let_def upd_pool_def set_word_def)
  moreover have "(p < 0 \<or> p \<ge> nbpools s) = False" using assms(1,2) by simp
  ultimately show ?thesis unfolding getbuf_def
    by (intro runs_bind [OF runs_gets]) (simp only: if_False, intro runs_bind [OF runs_gets] runs_bind [OF runs_wait [OF assms(3)]])
qed

lemma put_take_buf:
  fixes s :: "'a bufstate_scheme"
  shows "put_buf p (bpnext (buftab s p)) (snd (take_buf p s)) = s"
  by (simp add: put_buf_def take_buf_def upd_pool_def set_word_def Let_def)

lemma freebuf_runs:
  fixes s :: "'a bufstate_scheme"
  assumes p: "0 \<le> p" "p < nbpools s" "nbpools s \<le> NBPOOLS" and f: "sem_free s (bpsem (buftab s p))"
  defines "t \<equiv> lock (bpsem (buftab s p)) s"
  shows "runs (freebuf (4 + bpnext (buftab s p))) (snd (take_buf p t)) OK s"
proof -
  let ?b = "bpnext (buftab s p)" and ?sem = "bpsem (buftab s p)" and ?s1 = "snd (take_buf p t)"
  have t: "buftab t = buftab s" "nbpools t = nbpools s" by (simp_all add: t_def upd_sem_def)
  have "sint (word_of_int p :: u32) = p" using p by (simp add: signed_of_int signed_take_bit_int_eq_self)
  then have w: "sint (words ?s1 ?b) = p" "nbpools ?s1 = nbpools s"
    using t by (simp_all add: take_buf_def upd_pool_def set_word_def Let_def)
  have put: "put_buf p ?b ?s1 = t" using put_take_buf [of p t] t(1) by simp
  have r1: "runs (pmodify (put_buf p ?b)) ?s1 () t"
    using runs_modify [of "put_buf p ?b" ?s1] put by (simp add: take_buf_def upd_pool_def set_word_def Let_def)
  have r2: "runs (pcall (signal ?sem)) t OK s" using runs_signal [OF f, of t] by (simp add: t_def)
  have bad: "(p < 0 \<or> p \<ge> nbpools ?s1) = False" using p(1,2) w(2) by simp
  have a: "4 + ?b - 4 = ?b" by simp
  have m: "bpsem (buftab t p) = ?sem" using t(1) by simp
  show ?thesis unfolding freebuf_def Let_def a
    by (rule runs_bind [OF runs_gets], unfold w(1), rule runs_bind [OF runs_gets], unfold bad if_False, rule runs_bind [OF r1],
        rule runs_bind [OF runs_gets], unfold m, rule runs_bind [OF r2], rule runs_Ret)
qed

subsection \<open>Properties\<close>

text \<open>One port with an empty queue and one free node, and one pool with a single buffer.\<close>

definition ptdemo :: ptstate_t where
  "ptdemo = pgstate.extend pdemo1 (ptstate_t.fields
     (\<lambda>_. \<lparr>ptssem = 2, ptrsem = 1, ptstate = PT_ALLOC, ptmaxcnt = 1, ptseq = 0, pthead = 0, pttail = 0\<rparr>) 0x150000 1)"

definition bufdemo :: bufstate where
  "bufdemo = ptstate_t.extend ptdemo (bufstate.fields (\<lambda>_. \<lparr>bpnext = 0x160000, bpsem = 3, bpsize = 512\<rparr>) 1 (\<lambda>_. 0) 0 0)"

lemma ptdemo_port: "port_ok 0 ptdemo" "port_rep 0 ptdemo [] [0x150000]" "0 < scount (semtab ptdemo (ptssem (porttab ptdemo 0)))"
  by (simp_all add: port_ok_def port_rep_def nodes_ok_def ptnext_def ptdemo_def ptstate_t.defs pgstate.defs pdemo1_def pdemo_def vstate.defs
      pdemo_base_def vdemo_def mstate.defs kstate.defs kdemo_def)

text \<open>C28: a port is first-in first-out: \<open>ptsend\<close> appends its message to those of the port, and \<open>ptrecv\<close> returns the
  oldest one and leaves the others.\<close>

theorem ptsend_ptrecv_fifo:
  assumes "port_ok p s" and "port_rep p s ms (f # fs)" and "0 < scount (semtab s (ptssem (porttab s p)))"
  shows "\<exists>s1 s2 n. runs (ptsend p m) s OK s1 \<and> port_rep p s1 (ms @ [m]) fs \<and>
    runs (ptrecv p) s1 (hd (ms @ [m])) s2 \<and> port_rep p s2 (tl (ms @ [m])) (n # fs) \<and> port_ok p s2"
proof -
  obtain s1 where s1: "runs (ptsend p m) s OK s1" "port_rep p s1 (ms @ [m]) fs" "port_ok p s1" "0 < scount (semtab s1 (ptrsem (porttab s1 p)))"
    using ptsend_runs [OF assms] by blast
  obtain x xs where x: "ms @ [m] = x # xs" by (cases ms) simp_all
  then have "port_rep p s1 (x # xs) fs" using s1(2) by simp
  from ptrecv_runs [OF s1(3) this s1(4)] show ?thesis unfolding x list.sel using s1(1,2) [unfolded x] by blast
qed

theorem ptsend_ptrecv_fifo_witness: "\<exists>s1 s2. runs (ptsend 0 42) ptdemo OK s1 \<and> runs (ptrecv 0) s1 42 s2"
  using ptsend_ptrecv_fifo [OF ptdemo_port, of 42] by auto

text \<open>C29: \<open>freebuf\<close> undoes \<open>getbuf\<close>: the buffer goes back to the pool it came from, and the whole state, the
  semaphore and the header of the buffer included, is as before.\<close>

theorem getbuf_freebuf_roundtrip:
  assumes "0 \<le> p" and "p < nbpools s" and "nbpools s \<le> NBPOOLS" and "sem_free s (bpsem (buftab s p))"
  shows "\<exists>b s1. runs (getbuf p) s b s1 \<and> runs (freebuf b) s1 OK s"
  using getbuf_runs [OF assms(1,2,4)] freebuf_runs [OF assms] by blast

theorem getbuf_freebuf_roundtrip_witness: "\<exists>b s1. runs (getbuf 0) bufdemo b s1 \<and> runs (freebuf b) s1 OK bufdemo"
proof -
  have "nbpools bufdemo = 1" "sem_free bufdemo (bpsem (buftab bufdemo 0))"
    by (simp_all add: sem_free_def bufdemo_def bufstate.defs ptdemo_def ptstate_t.defs pgstate.defs pdemo1_def pdemo_def vstate.defs
      pdemo_base_def vdemo_def mstate.defs kstate.defs kdemo_def)
  then show ?thesis using getbuf_freebuf_roundtrip [of 0 bufdemo] by simp
qed

end
