(* ===== verification/Files.thy ===== *)
theory Files
  imports Devices Locks
begin

section \<open>The local file system\<close>

text \<open>
  include/lfilesys.h and device/lfs. Sector 0 of the disk is the directory, then come the sectors
  of index blocks, seven to a sector, then the data blocks. The directory and, for every open
  file, one index block and one data block are cached in memory.

  A sector is the \<open>wbuf\<close> of the device switch. A structure on the disk is the words of it that the
  compiler lays out; \<open>enc_ib\<close>, \<open>dec_ib\<close>, \<open>enc_dir\<close>, \<open>dec_dir\<close> convert. Block numbers (\<open>ibid32\<close>,
  \<open>dbid32\<close>) are kept as 32-bit words, so the null pointers are \<open>- 1\<close>. A pointer into the directory is the index of
  the entry, with \<open>- 1\<close> for null, and the pointer \<open>lfbyte\<close> is the offset in \<open>lfdblock\<close>.
  \<open>lf_stack\<close> is what a buffer on the stack holds before it is filled.
\<close>

abbreviation (input) EOF :: int where "EOF \<equiv> - 2"
abbreviation (input) LFILESYS :: int where "LFILESYS \<equiv> 8"
abbreviation (input) LFILE0 :: int where "LFILE0 \<equiv> 9"
abbreviation (input) Nlfl :: nat where "Nlfl \<equiv> 6"
abbreviation (input) LF_DISK_DEV :: int where "LF_DISK_DEV \<equiv> RAM0"
abbreviation (input) LF_MODE_R :: u32 where "LF_MODE_R \<equiv> 1"
abbreviation (input) LF_MODE_W :: u32 where "LF_MODE_W \<equiv> 2"
abbreviation (input) LF_MODE_RW :: u32 where "LF_MODE_RW \<equiv> 3"
abbreviation (input) LF_MODE_N :: u32 where "LF_MODE_N \<equiv> 4"
abbreviation (input) LF_MODE_O :: u32 where "LF_MODE_O \<equiv> 8"
abbreviation (input) LF_BLKSIZ :: nat where "LF_BLKSIZ \<equiv> 512"
abbreviation (input) LF_NAME_LEN :: nat where "LF_NAME_LEN \<equiv> 16"
abbreviation (input) LF_NUM_DIR_ENT :: int where "LF_NUM_DIR_ENT \<equiv> 20"
abbreviation (input) LF_FREE :: int where "LF_FREE \<equiv> 0"
abbreviation (input) LF_USED :: int where "LF_USED \<equiv> 1"
abbreviation (input) LF_INULL :: u32 where "LF_INULL \<equiv> - 1"
abbreviation (input) LF_DNULL :: u32 where "LF_DNULL \<equiv> - 1"
abbreviation (input) LF_IBLEN :: nat where "LF_IBLEN \<equiv> 16"
abbreviation (input) LF_IDATA :: u32 where "LF_IDATA \<equiv> 8192"
abbreviation (input) LF_IMASK :: u32 where "LF_IMASK \<equiv> 0x1FFF"
abbreviation (input) LF_DMASK :: u32 where "LF_DMASK \<equiv> 0x1FF"
abbreviation (input) LF_AREA_IB :: int where "LF_AREA_IB \<equiv> 1"
abbreviation (input) LF_AREA_DIR :: u32 where "LF_AREA_DIR \<equiv> 0"
abbreviation (input) LF_CTL_TRUNC :: int where "LF_CTL_TRUNC \<equiv> 2"
abbreviation (input) DFILL :: u8 where "DFILL \<equiv> 0x2B"

subsection \<open>Structures on the disk\<close>

text \<open>The bytes of a buffer as little-endian words and back.\<close>

definition bytes_word :: "(nat \<Rightarrow> u8) \<Rightarrow> nat \<Rightarrow> u32" where
  "bytes_word b k = ucast (b (4 * k)) OR push_bit 8 (ucast (b (4 * k + 1))) OR
     push_bit 16 (ucast (b (4 * k + 2))) OR push_bit 24 (ucast (b (4 * k + 3)))"

definition word_byte :: "(nat \<Rightarrow> u32) \<Rightarrow> nat \<Rightarrow> u8" where
  "word_byte w i = ucast (drop_bit (8 * (i mod 4)) (w (i div 4)))"

record lfiblk =
  ib_next :: u32
  ib_offset :: u32
  ib_dba :: "nat \<Rightarrow> u32"

record ldentry =
  ld_size :: u32
  ld_ilist :: u32
  ld_name :: "nat \<Rightarrow> u8"

record lfdir =
  lfd_dfree :: u32
  lfd_ifree :: u32
  lfd_nfiles :: u32
  lfd_files :: "int \<Rightarrow> ldentry"
  lfd_padding :: "nat \<Rightarrow> u8"

definition enc_ib :: "lfiblk \<Rightarrow> wbuf" where
  "enc_ib ib k = (if k = 0 then ib_next ib else if k = 1 then ib_offset ib else ib_dba ib (k - 2))"

definition dec_ib :: "wbuf \<Rightarrow> lfiblk" where
  "dec_ib w = \<lparr>ib_next = w 0, ib_offset = w 1, ib_dba = (\<lambda>j. if j < LF_IBLEN then w (j + 2) else LF_DNULL)\<rparr>"

definition enc_ld :: "ldentry \<Rightarrow> wbuf" where
  "enc_ld e k = (if k = 0 then ld_size e else if k = 1 then ld_ilist e else bytes_word (ld_name e) (k - 2))"

definition dec_ld :: "wbuf \<Rightarrow> ldentry" where
  "dec_ld w = \<lparr>ld_size = w 0, ld_ilist = w 1,
     ld_name = (\<lambda>i. if i < LF_NAME_LEN then word_byte (\<lambda>k. w (k + 2)) i else 0)\<rparr>"

definition enc_dir :: "lfdir \<Rightarrow> wbuf" where
  "enc_dir d k = (if k = 0 then lfd_dfree d else if k = 1 then lfd_ifree d else if k = 2 then lfd_nfiles d
     else if k < 123 then enc_ld (lfd_files d (int ((k - 3) div 6))) ((k - 3) mod 6)
     else bytes_word (lfd_padding d) (k - 123))"

definition dec_dir :: "wbuf \<Rightarrow> lfdir" where
  "dec_dir w = \<lparr>lfd_dfree = w 0, lfd_ifree = w 1, lfd_nfiles = w 2,
     lfd_files = (\<lambda>j. dec_ld (\<lambda>k. w (3 + 6 * nat j + k))), lfd_padding = word_byte (\<lambda>k. w (123 + k))\<rparr>"

text \<open>The sector of an index block and the word of it where the block begins. C divides towards zero;
  the code never asks for a negative number.\<close>

definition ib2sect :: "u32 \<Rightarrow> u32" where
  "ib2sect ib = word_of_int (sint ib sdiv 7 + LF_AREA_IB)"

definition ib2disp :: "u32 \<Rightarrow> nat" where
  "ib2disp ib = nat (sint ib smod 7) * 18"

subsection \<open>Data in memory\<close>

record lfdata =
  lf_dskdev :: int
  lf_mutex :: sid32
  lf_dir :: lfdir
  lf_dirpresent :: bool
  lf_dirdirty :: bool

record lflcblk =
  lfstate :: int
  lfdev :: int
  lfmutex :: sid32
  lfdirptr :: int
  lfmode :: u32
  lfpos :: u32
  lfname :: "nat \<Rightarrow> u8"
  lfinum :: u32
  lfiblock :: lfiblk
  lfdnum :: u32
  lfdblock :: "nat \<Rightarrow> u8"
  lfbyte :: nat
  lfibdirty :: bool
  lfdbdirty :: bool

record lfstate_t = pgstate +
  lf_data :: lfdata
  lfltab :: "int \<Rightarrow> lflcblk"
  lf_stack :: wbuf

definition upd_lf :: "int \<Rightarrow> (lflcblk \<Rightarrow> lflcblk) \<Rightarrow> 'a lfstate_t_scheme \<Rightarrow> 'a lfstate_t_scheme" where
  "upd_lf f g s = s\<lparr>lfltab := (lfltab s)(f := g (lfltab s f))\<rparr>"

definition upd_lfd :: "(lfdata \<Rightarrow> lfdata) \<Rightarrow> 'a lfstate_t_scheme \<Rightarrow> 'a lfstate_t_scheme" where
  "upd_lfd g s = s\<lparr>lf_data := g (lf_data s)\<rparr>"

definition upd_dir :: "(lfdir \<Rightarrow> lfdir) \<Rightarrow> 'a lfstate_t_scheme \<Rightarrow> 'a lfstate_t_scheme" where
  "upd_dir g = upd_lfd (\<lambda>d. d\<lparr>lf_dir := g (lf_dir d)\<rparr>)"

definition upd_ld :: "int \<Rightarrow> (ldentry \<Rightarrow> ldentry) \<Rightarrow> 'a lfstate_t_scheme \<Rightarrow> 'a lfstate_t_scheme" where
  "upd_ld i g = upd_dir (\<lambda>d. d\<lparr>lfd_files := (lfd_files d)(i := g (lfd_files d i))\<rparr>)"

text \<open>The directory entry \<open>*lfptr->lfdirptr\<close> of an open file.\<close>

definition ldent :: "int \<Rightarrow> 'a lfstate_t_scheme \<Rightarrow> ldentry" where
  "ldent f s = lfd_files (lf_dir (lf_data s)) (lfdirptr (lfltab s f))"

subsection \<open>Index blocks and free lists\<close>

definition lfibclear :: "u32 \<Rightarrow> lfiblk" where
  "lfibclear offset = \<lparr>ib_next = LF_INULL, ib_offset = offset, ib_dba = (\<lambda>_. LF_DNULL)\<rparr>"

definition lfibget :: "'a lfstate_t_scheme devtab_t \<Rightarrow> int \<Rightarrow> u32 \<Rightarrow> ('a lfstate_t_scheme, lfiblk) prog" where
  "lfibget dt diskdev inum =
     pbind (pgets lf_stack) (\<lambda>dbuff.
     pbind (read_dev dt diskdev dbuff (ib2sect inum)) (\<lambda>(_, dbuff).
     Ret (dec_ib (\<lambda>k. dbuff (ib2disp inum + k)))))"

definition lfibput :: "'a lfstate_t_scheme devtab_t \<Rightarrow> int \<Rightarrow> u32 \<Rightarrow> lfiblk \<Rightarrow> ('a lfstate_t_scheme, int) prog" where
  "lfibput dt diskdev inum ibuff =
     (let diskblock = ib2sect inum; disp = ib2disp inum in
      pbind (pgets lf_stack) (\<lambda>dbuff.
      pbind (read_dev dt diskdev dbuff diskblock) (\<lambda>(r, dbuff).
      if r = SYSERR then Ret SYSERR
      else
        let dbuff = (\<lambda>k. if disp \<le> k \<and> k < disp + 18 then enc_ib ibuff (k - disp) else dbuff k) in
        pbind (write_dev dt diskdev dbuff diskblock) (\<lambda>_.
        Ret OK))))"

text \<open>\<open>write(Lf_data.lf_dskdev, (char *)&Lf_data.lf_dir, LF_AREA_DIR)\<close>\<close>

definition write_dir :: "'a lfstate_t_scheme devtab_t \<Rightarrow> ('a lfstate_t_scheme, int) prog" where
  "write_dir dt =
     pbind (pgets (\<lambda>s. (lf_dskdev (lf_data s), lf_dir (lf_data s)))) (\<lambda>(disk, dir).
     write_dev dt disk (enc_dir dir) LF_AREA_DIR)"

definition lfiballoc :: "'a lfstate_t_scheme devtab_t \<Rightarrow> ('a lfstate_t_scheme, u32) prog" where
  "lfiballoc dt =
     pbind (pgets (\<lambda>s. (lf_dskdev (lf_data s), lfd_ifree (lf_dir (lf_data s))))) (\<lambda>(disk, ibnum).
     if ibnum = LF_INULL then panic
     else
       pbind (lfibget dt disk ibnum) (\<lambda>iblock.
       pbind (pmodify (upd_dir (\<lambda>d. d\<lparr>lfd_ifree := ib_next iblock\<rparr>))) (\<lambda>_.
       pbind (write_dir dt) (\<lambda>_.
       pbind (pmodify (upd_lfd (\<lambda>d. d\<lparr>lf_dirdirty := False\<rparr>))) (\<lambda>_.
       Ret ibnum)))))"

text \<open>The buffer \<open>dbuff\<close> is handed back with the number of the block.\<close>

definition lfdballoc :: "'a lfstate_t_scheme devtab_t \<Rightarrow> (nat \<Rightarrow> u8) \<Rightarrow> ('a lfstate_t_scheme, u32 \<times> (nat \<Rightarrow> u8)) prog" where
  "lfdballoc dt dbuff =
     pbind (pgets (\<lambda>s. (lf_dskdev (lf_data s), lfd_dfree (lf_dir (lf_data s))))) (\<lambda>(disk, dnum).
     if dnum = LF_DNULL then panic
     else
       pbind (read_dev dt disk (bytes_word dbuff) dnum) (\<lambda>(retval, buf).
       if retval = SYSERR then panic
       else
         pbind (pmodify (upd_dir (\<lambda>d. d\<lparr>lfd_dfree := buf 0\<rparr>))) (\<lambda>_.
         pbind (write_dir dt) (\<lambda>_.
         pbind (pmodify (upd_lfd (\<lambda>d. d\<lparr>lf_dirdirty := False\<rparr>))) (\<lambda>_.
         Ret (dnum, \<lambda>i. if i < LF_BLKSIZ then DFILL else word_byte buf i))))))"

definition lfdbfree :: "'a lfstate_t_scheme devtab_t \<Rightarrow> int \<Rightarrow> u32 \<Rightarrow> ('a lfstate_t_scheme, int) prog" where
  "lfdbfree dt diskdev dnum =
     pbind (pgets (\<lambda>s. (lf_stack s)(0 := lfd_dfree (lf_dir (lf_data s))))) (\<lambda>buf.
     pbind (pmodify (upd_dir (\<lambda>d. d\<lparr>lfd_dfree := dnum\<rparr>))) (\<lambda>_.
     pbind (write_dev dt diskdev buf dnum) (\<lambda>_.
     pbind (pgets (\<lambda>s. lf_dir (lf_data s))) (\<lambda>dir.
     pbind (write_dev dt diskdev (enc_dir dir) LF_AREA_DIR) (\<lambda>_.
     Ret OK)))))"

definition lfflush :: "'a lfstate_t_scheme devtab_t \<Rightarrow> int \<Rightarrow> ('a lfstate_t_scheme, int) prog" where
  "lfflush dt f =
     pbind (pgets (\<lambda>s. (lfstate (lfltab s f), lf_data s))) (\<lambda>(st, ld).
     if st = LF_FREE then Ret SYSERR
     else
       pbind (if lf_dirdirty ld
              then pbind (write_dir dt) (\<lambda>_. pmodify (upd_lfd (\<lambda>d. d\<lparr>lf_dirdirty := False\<rparr>)))
              else Ret ()) (\<lambda>_.
       pbind (pgets (\<lambda>s. lfltab s f)) (\<lambda>cb.
       pbind (if lfdbdirty cb
              then pbind (write_dev dt (lf_dskdev ld) (bytes_word (lfdblock cb)) (lfdnum cb)) (\<lambda>_.
                   pmodify (upd_lf f (\<lambda>c. c\<lparr>lfdbdirty := False\<rparr>)))
              else Ret ()) (\<lambda>_.
       pbind (pgets (\<lambda>s. lfltab s f)) (\<lambda>cb.
       pbind (if lfibdirty cb
              then pbind (lfibput dt (lf_dskdev ld) (lfinum cb) (lfiblock cb)) (\<lambda>_.
                   pmodify (upd_lf f (\<lambda>c. c\<lparr>lfibdirty := False\<rparr>)))
              else Ret ()) (\<lambda>_.
       Ret OK))))))"

subsection \<open>Setting up the blocks of a file position\<close>

text \<open>The index block that \<open>lfsetup\<close> starts from.\<close>

definition lfsetup_first :: "'a lfstate_t_scheme devtab_t \<Rightarrow> int \<Rightarrow> ('a lfstate_t_scheme, unit) prog" where
  "lfsetup_first dt f =
     pbind (pgets (\<lambda>s. (lfltab s f, lf_dskdev (lf_data s), ldent f s))) (\<lambda>(cb, disk, ld).
     if lfinum cb = LF_INULL then
       if ld_ilist ld = LF_INULL then
         pbind (lfiballoc dt) (\<lambda>ibnum.
         pbind (pmodify (upd_lf f (\<lambda>c. c\<lparr>lfiblock := lfibclear 0\<rparr>))) (\<lambda>_.
         pbind (pmodify (upd_ld (lfdirptr cb) (\<lambda>e. e\<lparr>ld_ilist := ibnum\<rparr>))) (\<lambda>_.
         pmodify (upd_lf f (\<lambda>c. c\<lparr>lfibdirty := True, lfinum := ibnum\<rparr>)))))
       else
         pbind (lfibget dt disk (ld_ilist ld)) (\<lambda>ib.
         pmodify (upd_lf f (\<lambda>c. c\<lparr>lfiblock := ib, lfinum := ld_ilist ld\<rparr>)))
     else if lfpos cb < ib_offset (lfiblock cb) then
       pbind (lfibget dt disk (ld_ilist ld)) (\<lambda>ib.
       pmodify (upd_lf f (\<lambda>c. c\<lparr>lfiblock := ib, lfinum := ld_ilist ld\<rparr>)))
     else Ret ())"

text \<open>The loop along the index blocks. It goes round at most \<open>fuel\<close> times.\<close>

fun lfsetup_walk :: "'a lfstate_t_scheme devtab_t \<Rightarrow> int \<Rightarrow> nat \<Rightarrow> ('a lfstate_t_scheme, unit) prog" where
  "lfsetup_walk dt f 0 = panic"
| "lfsetup_walk dt f (Suc fuel) =
     pbind (pgets (\<lambda>s. (lfltab s f, lf_dskdev (lf_data s)))) (\<lambda>(cb, disk).
     if lfpos cb AND NOT LF_IMASK > ib_offset (lfiblock cb) then
       pbind (if ib_next (lfiblock cb) = LF_INULL then
                pbind (lfiballoc dt) (\<lambda>ibnum.
                pbind (pmodify (upd_lf f (\<lambda>c. c\<lparr>lfiblock := (lfiblock c)\<lparr>ib_next := ibnum\<rparr>\<rparr>))) (\<lambda>_.
                pbind (pgets (\<lambda>s. lfltab s f)) (\<lambda>cb.
                pbind (lfibput dt disk (lfinum cb) (lfiblock cb)) (\<lambda>_.
                pmodify (upd_lf f (\<lambda>c. c\<lparr>lfinum := ibnum, lfiblock := lfibclear (ib_offset (lfiblock c) + LF_IDATA),
                  lfibdirty := True\<rparr>))))))
              else
                pbind (lfibget dt disk (ib_next (lfiblock cb))) (\<lambda>ib.
                pmodify (upd_lf f (\<lambda>c. c\<lparr>lfiblock := ib, lfinum := ib_next (lfiblock cb)\<rparr>)))) (\<lambda>_.
       pbind (pmodify (upd_lf f (\<lambda>c. c\<lparr>lfdnum := LF_DNULL\<rparr>))) (\<lambda>_.
       lfsetup_walk dt f fuel))
     else Ret ())"

text \<open>Then the data block is loaded.\<close>

definition lfsetup_block :: "'a lfstate_t_scheme devtab_t \<Rightarrow> int \<Rightarrow> ('a lfstate_t_scheme, unit) prog" where
  "lfsetup_block dt f =
     pbind (pgets (\<lambda>s. (lfltab s f, lf_dskdev (lf_data s)))) (\<lambda>(cb, disk).
     let dindex = unat (drop_bit 9 (lfpos cb AND LF_IMASK)); dnum = ib_dba (lfiblock cb) dindex in
     pbind (if dnum = LF_DNULL then
              pbind (lfdballoc dt (lfdblock cb)) (\<lambda>(dnum, dbuff).
              pbind (pmodify (upd_lf f (\<lambda>c. c\<lparr>lfdblock := dbuff,
                lfiblock := (lfiblock c)\<lparr>ib_dba := (ib_dba (lfiblock c))(dindex := dnum)\<rparr>, lfibdirty := True\<rparr>))) (\<lambda>_.
              Ret dnum))
            else if dnum \<noteq> lfdnum cb then
              pbind (read_dev dt disk (bytes_word (lfdblock cb)) dnum) (\<lambda>(_, buf).
              pbind (pmodify (upd_lf f (\<lambda>c. c\<lparr>lfdblock := word_byte buf, lfdbdirty := False\<rparr>))) (\<lambda>_.
              Ret dnum))
            else Ret dnum) (\<lambda>dnum.
     pmodify (upd_lf f (\<lambda>c. c\<lparr>lfdnum := dnum, lfbyte := unat (lfpos c AND LF_DMASK)\<rparr>))))"

text \<open>A file of less than \<open>2^32\<close> bytes has at most \<open>2^19\<close> index blocks.\<close>

definition lfsetup :: "'a lfstate_t_scheme devtab_t \<Rightarrow> int \<Rightarrow> ('a lfstate_t_scheme, int) prog" where
  "lfsetup dt f =
     pbind (pgets (\<lambda>s. lf_mutex (lf_data s))) (\<lambda>mutex.
     pbind (pcall (wait mutex)) (\<lambda>_.
     pbind (pgets (\<lambda>s. lfltab s f)) (\<lambda>cb.
     pbind (if lfibdirty cb \<or> lfdbdirty cb then pbind (lfflush dt f) (\<lambda>_. Ret ()) else Ret ()) (\<lambda>_.
     pbind (lfsetup_first dt f) (\<lambda>_.
     pbind (lfsetup_walk dt f (2 ^ 20)) (\<lambda>_.
     pbind (lfsetup_block dt f) (\<lambda>_.
     pbind (pcall (signal mutex)) (\<lambda>_.
     Ret OK))))))))"

subsection \<open>Operations on an open file\<close>

text \<open>All operations take the mutex of the file and fail on a file that is not open; the argument \<open>f\<close> is
  the minor device number.\<close>

definition with_file :: "int \<Rightarrow> (sid32 \<Rightarrow> ('a lfstate_t_scheme, int) prog) \<Rightarrow> ('a lfstate_t_scheme, int) prog" where
  "with_file f body =
     pbind (pgets (\<lambda>s. lfmutex (lfltab s f))) (\<lambda>mutex.
     pbind (pcall (wait mutex)) (\<lambda>_.
     pbind (pgets (\<lambda>s. lfstate (lfltab s f))) (\<lambda>st.
     if st \<noteq> LF_USED then pbind (pcall (signal mutex)) (\<lambda>_. Ret SYSERR)
     else body mutex)))"

definition leave :: "sid32 \<Rightarrow> int \<Rightarrow> ('a lfstate_t_scheme, int) prog" where
  "leave mutex r = pbind (pcall (signal mutex)) (\<lambda>_. Ret r)"

definition lflgetc :: "'a lfstate_t_scheme devtab_t \<Rightarrow> int \<Rightarrow> ('a lfstate_t_scheme, int) prog" where
  "lflgetc dt f = with_file f (\<lambda>mutex.
     pbind (pgets (\<lambda>s. (lfltab s f, ldent f s))) (\<lambda>(cb, ld).
     if lfpos cb \<ge> ld_size ld then leave mutex EOF
     else
       pbind (if lfbyte cb \<ge> LF_BLKSIZ then pbind (lfsetup dt f) (\<lambda>_. Ret ()) else Ret ()) (\<lambda>_.
       pbind (pgets (\<lambda>s. uint (lfdblock (lfltab s f) (lfbyte (lfltab s f))))) (\<lambda>onebyte.
       pbind (pmodify (upd_lf f (\<lambda>c. c\<lparr>lfbyte := lfbyte c + 1, lfpos := lfpos c + 1\<rparr>))) (\<lambda>_.
       leave mutex onebyte)))))"

definition lflputc :: "'a lfstate_t_scheme devtab_t \<Rightarrow> int \<Rightarrow> u8 \<Rightarrow> ('a lfstate_t_scheme, int) prog" where
  "lflputc dt f ch = with_file f (\<lambda>mutex.
     pbind (pgets (\<lambda>s. (lfltab s f, ldent f s))) (\<lambda>(cb, ld).
     if lfpos cb > ld_size ld then leave mutex SYSERR
     else
       pbind (if lfbyte cb \<ge> LF_BLKSIZ then pbind (lfsetup dt f) (\<lambda>_. Ret ()) else Ret ()) (\<lambda>_.
       pbind (pgets (\<lambda>s. (lfltab s f, ldent f s))) (\<lambda>(cb, ld).
       pbind (if lfpos cb \<ge> ld_size ld then
                pbind (pmodify (upd_ld (lfdirptr cb) (\<lambda>e. e\<lparr>ld_size := ld_size e + 1\<rparr>))) (\<lambda>_.
                pmodify (upd_lfd (\<lambda>d. d\<lparr>lf_dirdirty := True\<rparr>)))
              else Ret ()) (\<lambda>_.
       pbind (pmodify (upd_lf f (\<lambda>c. c\<lparr>lfdblock := (lfdblock c)(lfbyte c := ch), lfbyte := lfbyte c + 1,
         lfpos := lfpos c + 1, lfdbdirty := True\<rparr>))) (\<lambda>_.
       leave mutex OK))))))"

definition lflseek :: "int \<Rightarrow> u32 \<Rightarrow> ('a lfstate_t_scheme, int) prog" where
  "lflseek f offset = with_file f (\<lambda>mutex.
     pbind (pgets (ldent f)) (\<lambda>ld.
     if offset > ld_size ld then leave mutex SYSERR
     else
       pbind (pmodify (upd_lf f (\<lambda>c. c\<lparr>lfpos := offset, lfbyte := LF_BLKSIZ\<rparr>))) (\<lambda>_.
       leave mutex OK)))"

definition lflclose :: "'a lfstate_t_scheme devtab_t \<Rightarrow> int \<Rightarrow> ('a lfstate_t_scheme, int) prog" where
  "lflclose dt f = with_file f (\<lambda>mutex.
     pbind (pgets (\<lambda>s. lf_dirdirty (lf_data s) \<or> lfdbdirty (lfltab s f) \<or> lfibdirty (lfltab s f))) (\<lambda>dirty.
     pbind (if dirty then pbind (lfflush dt f) (\<lambda>_. Ret ()) else Ret ()) (\<lambda>_.
     pbind (pmodify (upd_lf f (\<lambda>c. c\<lparr>lfstate := LF_FREE\<rparr>))) (\<lambda>_.
     leave mutex OK))))"

text \<open>The byte loops. The buffer of \<open>lflread\<close> is handed back.\<close>

fun lflread_loop :: "'a lfstate_t_scheme devtab_t \<Rightarrow> int \<Rightarrow> nat \<Rightarrow> nat \<Rightarrow> (nat \<Rightarrow> u8) \<Rightarrow>
    ('a lfstate_t_scheme, int \<times> (nat \<Rightarrow> u8)) prog" where
  "lflread_loop dt f 0 numread buff = Ret (int numread, buff)"
| "lflread_loop dt f (Suc n) numread buff =
     pbind (lflgetc dt f) (\<lambda>nxtbyte.
     if nxtbyte = SYSERR then Ret (SYSERR, buff)
     else if nxtbyte = EOF then Ret (if numread = 0 then EOF else int numread, buff)
     else lflread_loop dt f n (numread + 1) (buff(numread := word_of_int nxtbyte)))"

definition lflread :: "'a lfstate_t_scheme devtab_t \<Rightarrow> int \<Rightarrow> (nat \<Rightarrow> u8) \<Rightarrow> int \<Rightarrow>
    ('a lfstate_t_scheme, int \<times> (nat \<Rightarrow> u8)) prog" where
  "lflread dt f buff count = (if count < 0 then Ret (SYSERR, buff) else lflread_loop dt f (nat count) 0 buff)"

fun lflwrite_loop :: "'a lfstate_t_scheme devtab_t \<Rightarrow> int \<Rightarrow> nat list \<Rightarrow> (nat \<Rightarrow> u8) \<Rightarrow> ('a lfstate_t_scheme, bool) prog" where
  "lflwrite_loop dt f [] buff = Ret True"
| "lflwrite_loop dt f (i # is) buff =
     pbind (lflputc dt f (buff i)) (\<lambda>r. if r = SYSERR then Ret False else lflwrite_loop dt f is buff)"

definition lflwrite :: "'a lfstate_t_scheme devtab_t \<Rightarrow> int \<Rightarrow> (nat \<Rightarrow> u8) \<Rightarrow> int \<Rightarrow> ('a lfstate_t_scheme, int) prog" where
  "lflwrite dt f buff count =
     (if count < 0 then Ret SYSERR
      else pbind (lflwrite_loop dt f [0..<nat count] buff) (\<lambda>ok. Ret (if ok then count else SYSERR)))"

subsection \<open>Truncating a file\<close>

text \<open>The data blocks of one index block are freed and its pointers cleared.\<close>

fun lftruncate_blocks :: "'a lfstate_t_scheme devtab_t \<Rightarrow> int \<Rightarrow> nat list \<Rightarrow> lfiblk \<Rightarrow> ('a lfstate_t_scheme, lfiblk) prog" where
  "lftruncate_blocks dt disk [] iblock = Ret iblock"
| "lftruncate_blocks dt disk (i # is) iblock =
     pbind (if ib_dba iblock i \<noteq> LF_DNULL then pbind (lfdbfree dt disk (ib_dba iblock i)) (\<lambda>_. Ret ()) else Ret ()) (\<lambda>_.
     lftruncate_blocks dt disk is (iblock\<lparr>ib_dba := (ib_dba iblock)(i := LF_DNULL)\<rparr>))"

fun lftruncate_loop :: "'a lfstate_t_scheme devtab_t \<Rightarrow> int \<Rightarrow> u32 \<Rightarrow> nat \<Rightarrow> u32 \<Rightarrow> ('a lfstate_t_scheme, unit) prog" where
  "lftruncate_loop dt disk ifree 0 nextib = (if nextib \<noteq> ifree then panic else Ret ())"
| "lftruncate_loop dt disk ifree (Suc fuel) nextib =
     (if nextib \<noteq> ifree then
        pbind (lfibget dt disk nextib) (\<lambda>iblock.
        pbind (lftruncate_blocks dt disk [0..<LF_IBLEN] iblock) (\<lambda>iblock.
        let iblock = iblock\<lparr>ib_offset := 0\<rparr>;
            iblock = (if ib_next iblock = LF_INULL then iblock\<lparr>ib_next := ifree\<rparr> else iblock) in
        pbind (lfibput dt disk nextib iblock) (\<lambda>_.
        lftruncate_loop dt disk ifree fuel (ib_next iblock))))
      else Ret ())"

definition lftruncate :: "'a lfstate_t_scheme devtab_t \<Rightarrow> int \<Rightarrow> ('a lfstate_t_scheme, int) prog" where
  "lftruncate dt f =
     pbind (pgets (\<lambda>s. (lfltab s f, ldent f s, lf_dskdev (lf_data s)))) (\<lambda>(cb, ld, disk).
     if ld_size ld = 0 then Ret OK
     else
       pbind (if lfibdirty cb \<or> lfdbdirty cb then pbind (lfflush dt f) (\<lambda>_. Ret ()) else Ret ()) (\<lambda>_.
       pbind (pmodify (upd_lf f (\<lambda>c. c\<lparr>lfpos := 0, lfinum := LF_INULL, lfdnum := LF_DNULL, lfbyte := LF_BLKSIZ\<rparr>))) (\<lambda>_.
       pbind (pgets (\<lambda>s. (lfd_ifree (lf_dir (lf_data s)), ld_ilist (ldent f s)))) (\<lambda>(ifree, firstib).
       pbind (pmodify (upd_ld (lfdirptr cb) (\<lambda>e. e\<lparr>ld_ilist := LF_INULL, ld_size := 0\<rparr>))) (\<lambda>_.
       pbind (pmodify (upd_lfd (\<lambda>d. d\<lparr>lf_dirdirty := True\<rparr>))) (\<lambda>_.
       pbind (lftruncate_loop dt disk ifree (2 ^ 20) firstib) (\<lambda>_.
       pbind (pmodify (upd_dir (\<lambda>d. d\<lparr>lfd_ifree := firstib\<rparr>))) (\<lambda>_.
       pbind (pmodify (upd_lfd (\<lambda>d. d\<lparr>lf_dirdirty := True\<rparr>))) (\<lambda>_.
       Ret OK)))))))))"

definition lflcontrol :: "'a lfstate_t_scheme devtab_t \<Rightarrow> int \<Rightarrow> int \<Rightarrow> int \<Rightarrow> int \<Rightarrow> ('a lfstate_t_scheme, int) prog" where
  "lflcontrol dt f func arg1 arg2 = with_file f (\<lambda>mutex.
     if func = LF_CTL_TRUNC then
       pbind (pgets (\<lambda>s. lf_mutex (lf_data s))) (\<lambda>dmutex.
       pbind (pcall (wait dmutex)) (\<lambda>_.
       pbind (lftruncate dt f) (\<lambda>retval.
       pbind (pcall (signal dmutex)) (\<lambda>_.
       leave mutex retval))))
     else leave mutex SYSERR)"

subsection \<open>Opening a file\<close>

text \<open>The mode bits of a mode string, \<open>None\<close> for the error return.\<close>

fun lfgetmode_loop :: "string \<Rightarrow> u32 \<Rightarrow> u32 option" where
  "lfgetmode_loop [] mbits = Some (if mbits AND LF_MODE_RW = 0 then mbits OR LF_MODE_RW else mbits)"
| "lfgetmode_loop (ch # mode) mbits =
     (if ch = CHR ''r'' then
        if mbits AND LF_MODE_R \<noteq> 0 then None else lfgetmode_loop mode (mbits OR LF_MODE_R)
      else if ch = CHR ''w'' then
        if mbits AND LF_MODE_W \<noteq> 0 then None else lfgetmode_loop mode (mbits OR LF_MODE_W)
      else if ch = CHR ''o'' then
        if mbits AND LF_MODE_O \<noteq> 0 \<or> mbits AND LF_MODE_N \<noteq> 0 then None else lfgetmode_loop mode (mbits OR LF_MODE_O)
      else if ch = CHR ''n'' then
        if mbits AND LF_MODE_O \<noteq> 0 \<or> mbits AND LF_MODE_N \<noteq> 0 then None else lfgetmode_loop mode (mbits OR LF_MODE_N)
      else None)"

definition lfgetmode :: "string \<Rightarrow> u32 option" where
  "lfgetmode mode = lfgetmode_loop mode 0"

text \<open>The comparison of a name with a null-terminated array, and the copy of a name with its null
  character. The argument is the bytes of the name before the null character.\<close>

fun same_name :: "u8 list \<Rightarrow> (nat \<Rightarrow> u8) \<Rightarrow> nat \<Rightarrow> bool" where
  "same_name [] cmp i \<longleftrightarrow> cmp i = 0"
| "same_name (c # nam) cmp i \<longleftrightarrow> c = cmp i \<and> same_name nam cmp (i + 1)"

fun copy_fname :: "u8 list \<Rightarrow> (nat \<Rightarrow> u8) \<Rightarrow> nat \<Rightarrow> nat \<Rightarrow> u8" where
  "copy_fname [] to i = to(i := 0)"
| "copy_fname (c # nam) to i = copy_fname nam (to(i := c)) (i + 1)"

text \<open>The copy of the name into the control block does not advance its target:
  \<open>while ( (*to = *from++) != NULLCH )\<close>.\<close>

fun overwrite_name :: "u8 list \<Rightarrow> (nat \<Rightarrow> u8) \<Rightarrow> nat \<Rightarrow> u8" where
  "overwrite_name [] to = to(0 := 0)"
| "overwrite_name (c # nam) to = overwrite_name nam (to(0 := c))"

text \<open>The search for a free pseudo-device: \<open>None\<close> when the file is open already, otherwise the first free
  one or \<open>SYSERR\<close>.\<close>

fun lfsopen_slave :: "(int \<Rightarrow> lflcblk) \<Rightarrow> u8 list \<Rightarrow> nat list \<Rightarrow> int \<Rightarrow> int option" where
  "lfsopen_slave tab name [] lfnext = Some lfnext"
| "lfsopen_slave tab name (i # is) lfnext =
     (if lfstate (tab (int i)) = LF_FREE
      then lfsopen_slave tab name is (if lfnext = SYSERR then int i else lfnext)
      else if same_name name (lfname (tab (int i))) 0 then None
      else lfsopen_slave tab name is lfnext)"

definition lfsopen_find :: "lfdir \<Rightarrow> u8 list \<Rightarrow> nat option" where
  "lfsopen_find dir name =
     List.find (\<lambda>i. same_name name (ld_name (lfd_files dir (int i))) 0) [0..<nat (sint (lfd_nfiles dir))]"

text \<open>The pseudo-device is initialised for the directory entry \<open>i\<close>.\<close>

definition lfsopen_init :: "int \<Rightarrow> int \<Rightarrow> u32 \<Rightarrow> u8 list \<Rightarrow> 'a lfstate_t_scheme \<Rightarrow> 'a lfstate_t_scheme" where
  "lfsopen_init f i mbits name = upd_lf f (\<lambda>c. c\<lparr>lfstate := LF_USED, lfdirptr := i, lfmode := mbits AND LF_MODE_RW,
     lfpos := 0, lfname := overwrite_name name (lfname c), lfinum := LF_INULL, lfdnum := LF_DNULL,
     lfbyte := LF_BLKSIZ, lfibdirty := False, lfdbdirty := False\<rparr>)"

text \<open>With the directory in memory the name is looked up and the pseudo-device set up for the entry found, or
  for a new entry.\<close>

definition lfsopen_entry :: "int \<Rightarrow> u32 \<Rightarrow> u8 list \<Rightarrow> sid32 \<Rightarrow> ('a lfstate_t_scheme, int) prog" where
  "lfsopen_entry lfnext mbits name mutex =
     pbind (pgets (\<lambda>s. lf_dir (lf_data s))) (\<lambda>dir.
     case lfsopen_find dir name of
       None \<Rightarrow>
         if mbits AND LF_MODE_O \<noteq> 0 then leave mutex SYSERR
         else if sint (lfd_nfiles dir) \<ge> LF_NUM_DIR_ENT then leave mutex SYSERR
         else
           let i = sint (lfd_nfiles dir) in
           pbind (pmodify (upd_dir (\<lambda>d. d\<lparr>lfd_nfiles := lfd_nfiles d + 1\<rparr>))) (\<lambda>_.
           pbind (pmodify (upd_ld i (\<lambda>e. e\<lparr>ld_size := 0, ld_name := copy_fname name (ld_name e) 0,
             ld_ilist := LF_INULL\<rparr>))) (\<lambda>_.
           pbind (pmodify (lfsopen_init lfnext i mbits name)) (\<lambda>_.
           pbind (pcall (signal mutex)) (\<lambda>_.
           pgets (\<lambda>s. lfdev (lfltab s lfnext))))))
     | Some i \<Rightarrow>
         if mbits AND LF_MODE_N \<noteq> 0 then leave mutex SYSERR
         else
           pbind (pmodify (lfsopen_init lfnext (int i) mbits name)) (\<lambda>_.
           pbind (pcall (signal mutex)) (\<lambda>_.
           pgets (\<lambda>s. lfdev (lfltab s lfnext)))))"

text \<open>The directory is read from the disk the first time.\<close>

definition lfsopen_dir :: "'a lfstate_t_scheme devtab_t \<Rightarrow> ('a lfstate_t_scheme, int) prog" where
  "lfsopen_dir dt =
     pbind (pgets lf_data) (\<lambda>ld.
     if lf_dirpresent ld then Ret OK
     else
       pbind (read_dev dt (lf_dskdev ld) (enc_dir (lf_dir ld)) LF_AREA_DIR) (\<lambda>(retval, buf).
       if retval = SYSERR then Ret SYSERR
       else pbind (pmodify (upd_lfd (\<lambda>d. d\<lparr>lf_dir := dec_dir buf, lf_dirpresent := True\<rparr>))) (\<lambda>_. Ret OK)))"

definition lfsopen :: "'a lfstate_t_scheme devtab_t \<Rightarrow> string \<Rightarrow> string \<Rightarrow> ('a lfstate_t_scheme, int) prog" where
  "lfsopen dt name mode =
     (let name = map of_char name in
      if length name \<ge> LF_NAME_LEN then Ret SYSERR
      else case lfgetmode mode of None \<Rightarrow> Ret SYSERR | Some mbits \<Rightarrow>
      pbind (pgets (\<lambda>s. lfsopen_slave (lfltab s) name [0..<Nlfl] SYSERR)) (\<lambda>lfnext.
      case lfnext of None \<Rightarrow> Ret SYSERR | Some lfnext \<Rightarrow>
      if lfnext = SYSERR then Ret SYSERR
      else
        pbind (pgets (\<lambda>s. lf_mutex (lf_data s))) (\<lambda>mutex.
        pbind (pcall (wait mutex)) (\<lambda>_.
        pbind (lfsopen_dir dt) (\<lambda>retval.
        if retval = SYSERR then leave mutex SYSERR
        else lfsopen_entry lfnext mbits name mutex)))))"

subsection \<open>Initialisation and formatting\<close>

text \<open>A zeroed directory, as \<open>memset\<close> leaves it.\<close>

definition zero_dir :: lfdir where
  "zero_dir = \<lparr>lfd_dfree = 0, lfd_ifree = 0, lfd_nfiles = 0,
     lfd_files = (\<lambda>_. \<lparr>ld_size = 0, ld_ilist = 0, ld_name = (\<lambda>_. 0)\<rparr>), lfd_padding = (\<lambda>_. 0)\<rparr>"

definition lfsinit :: "('a lfstate_t_scheme, int) prog" where
  "lfsinit =
     pbind (pmodify (upd_lfd (\<lambda>d. d\<lparr>lf_dskdev := LF_DISK_DEV\<rparr>))) (\<lambda>_.
     pbind (plift (semcreate 1)) (\<lambda>sem.
     pbind (pmodify (upd_lfd (\<lambda>d. d\<lparr>lf_mutex := sem, lf_dir := zero_dir, lf_dirpresent := False, lf_dirdirty := False\<rparr>))) (\<lambda>_.
     Ret OK)))"

definition lflinit :: "int \<Rightarrow> int \<Rightarrow> ('a lfstate_t_scheme, int) prog" where
  "lflinit minor num =
     pbind (pmodify (upd_lf minor (\<lambda>c. c\<lparr>lfstate := LF_FREE, lfdev := num\<rparr>))) (\<lambda>_.
     pbind (plift (semcreate 1)) (\<lambda>sem.
     pbind (pmodify (upd_lf minor (\<lambda>c. c\<lparr>lfmutex := sem, lfdirptr := - 1, lfpos := 0, lfname := (\<lambda>_. 0),
       lfinum := LF_INULL, lfiblock := \<lparr>ib_next = 0, ib_offset = 0, ib_dba = (\<lambda>j. if j < LF_IBLEN then 0 else LF_DNULL)\<rparr>, lfdnum := 0, lfdblock := (\<lambda>_. 0),
       lfbyte := LF_BLKSIZ, lfibdirty := False, lfdbdirty := False\<rparr>))) (\<lambda>_.
     Ret OK)))"

definition lfscreate :: "'a lfstate_t_scheme devtab_t \<Rightarrow> int \<Rightarrow> u32 \<Rightarrow> u32 \<Rightarrow> ('a lfstate_t_scheme, int) prog" where
  "lfscreate dt disk lfiblks dsiz =
     (let sectors = dsiz div 512; ibpersector = 7; ibsectors = (lfiblks + (ibpersector - 1)) div ibpersector;
          lfiblks = ibsectors * ibpersector in
      if ibsectors > sectors div 2 then Ret SYSERR
      else
        let dbindex = ibsectors + 1; dir = zero_dir\<lparr>lfd_dfree := dbindex\<rparr>; dblks = sectors - ibsectors - 1 in
        pbind (write_dev dt disk (enc_dir dir) LF_AREA_DIR) (\<lambda>retval.
        if retval = SYSERR then Ret SYSERR
        else
          pbind (pfor [0..<nat (sint lfiblks - 1)] (\<lambda>i.
            pbind (lfibput dt disk (of_nat i) ((lfibclear 0)\<lparr>ib_next := of_nat i + 1\<rparr>)) (\<lambda>_. Ret ()))) (\<lambda>_.
          pbind (lfibput dt disk (of_nat (nat (sint lfiblks - 1))) (lfibclear 0)) (\<lambda>_.
          pbind (pfor [0..<unat (dblks - 1)] (\<lambda>i.
            pbind (write_dev dt disk ((\<lambda>_. 0)(0 := dbindex + of_nat i + 1)) (dbindex + of_nat i)) (\<lambda>_. Ret ()))) (\<lambda>_.
          pbind (write_dev dt disk ((\<lambda>_. 0)(0 := LF_DNULL)) (dbindex + (dblks - 1))) (\<lambda>_.
          pbind (close_dev dt disk) (\<lambda>_.
          Ret OK)))))))"

text \<open>\<open>lfsckfmt\<close> follows both free lists and prints their lengths, which are part of the result here.\<close>

fun lfsckfmt_iblks :: "'a lfstate_t_scheme devtab_t \<Rightarrow> int \<Rightarrow> nat \<Rightarrow> u32 \<Rightarrow> nat \<Rightarrow> ('a lfstate_t_scheme, nat) prog" where
  "lfsckfmt_iblks dt disk 0 nextib lfiblks = (if nextib = LF_INULL then Ret lfiblks else panic)"
| "lfsckfmt_iblks dt disk (Suc fuel) nextib lfiblks =
     (if nextib = LF_INULL then Ret lfiblks
      else pbind (lfibget dt disk nextib) (\<lambda>iblock. lfsckfmt_iblks dt disk fuel (ib_next iblock) (lfiblks + 1)))"

fun lfsckfmt_dblks :: "'a lfstate_t_scheme devtab_t \<Rightarrow> int \<Rightarrow> nat \<Rightarrow> u32 \<Rightarrow> wbuf \<Rightarrow> nat \<Rightarrow> ('a lfstate_t_scheme, nat) prog" where
  "lfsckfmt_dblks dt disk 0 nextdb dblock dblks = (if nextdb = LF_DNULL then Ret dblks else panic)"
| "lfsckfmt_dblks dt disk (Suc fuel) nextdb dblock dblks =
     (if nextdb = LF_DNULL then Ret dblks
      else pbind (read_dev dt disk dblock nextdb) (\<lambda>(_, dblock). lfsckfmt_dblks dt disk fuel (dblock 0) dblock (dblks + 1)))"

definition lfsckfmt :: "'a lfstate_t_scheme devtab_t \<Rightarrow> int \<Rightarrow> ('a lfstate_t_scheme, int \<times> nat \<times> nat) prog" where
  "lfsckfmt dt disk =
     pbind (pgets lf_stack) (\<lambda>buf.
     pbind (read_dev dt disk buf LF_AREA_DIR) (\<lambda>(retval, buf).
     if retval = SYSERR then panic
     else
       let dir = dec_dir buf in
       pbind (lfsckfmt_iblks dt disk (2 ^ 32) (lfd_ifree dir) 0) (\<lambda>lfiblks.
       pbind (pgets lf_stack) (\<lambda>dblock.
       pbind (lfsckfmt_dblks dt disk (2 ^ 32) (lfd_dfree dir) dblock 0) (\<lambda>dblks.
       Ret (OK, lfiblks, dblks))))))"

subsection \<open>The file system in the switch table\<close>

definition devtab_lfs :: "'a lfstate_t_scheme devtab_t \<Rightarrow> 'a lfstate_t_scheme devtab_t" where
  "devtab_lfs d i =
     (let dt = devtab d in
      if i = LFILESYS then
        \<lparr>dvnum = LFILESYS, dvminor = 0, dvname = ''LFILESYS'', dvinit = lfsinit, dvopen = lfsopen dt, dvclose = ioerr,
         dvread = (\<lambda>b _. Ret (SYSERR, b)), dvwrite = (\<lambda>_ _. ioerr), dvseek = (\<lambda>_. ioerr), dvgetc = ioerr,
         dvputc = (\<lambda>_. ioerr), dvcntl = (\<lambda>_ _ _. ioerr)\<rparr>
      else if LFILE0 \<le> i \<and> i < NDEVS then
        \<lparr>dvnum = i, dvminor = i - LFILE0, dvname = ''LFILE'' @ [char_of (48 + nat (i - LFILE0))],
         dvinit = lflinit (i - LFILE0) i, dvopen = (\<lambda>_ _. ioerr), dvclose = lflclose dt (i - LFILE0),
         dvread = (\<lambda>b n. pbind (lflread dt (i - LFILE0) (word_byte b) (sint n)) (\<lambda>(r, b). Ret (r, bytes_word b))),
         dvwrite = (\<lambda>b n. lflwrite dt (i - LFILE0) (word_byte b) (sint n)),
         dvseek = lflseek (i - LFILE0), dvgetc = lflgetc dt (i - LFILE0), dvputc = (\<lambda>c. lflputc dt (i - LFILE0) (of_char c)),
         dvcntl = lflcontrol dt (i - LFILE0)\<rparr>
      else dt i)"

end
