(* ===== verification/Views.thy ===== *)
theory Views
  imports Locks
begin

section \<open>Programs that work on a part of the state\<close>

text \<open>
  A driver works on a few components of the state. A \<open>view\<close> reads them and writes them back;
  \<open>vruns get put m v r v'\<close> says that the program \<open>m\<close>, started in any state whose view is \<open>v\<close>, runs to its
  end with result \<open>r\<close> and changes the view to \<open>v'\<close> and nothing else. The rules of the locale put such
  runs together.
\<close>

definition vruns :: "('a kstate_scheme \<Rightarrow> 'v) \<Rightarrow> ('v \<Rightarrow> 'a kstate_scheme \<Rightarrow> 'a kstate_scheme) \<Rightarrow>
    ('a kstate_scheme, 'r) prog \<Rightarrow> 'v \<Rightarrow> 'r \<Rightarrow> 'v \<Rightarrow> bool" where
  "vruns get put m v r v' \<longleftrightarrow> (\<forall>s. get s = v \<longrightarrow> runs m s r (put v' s))"

locale view =
  fixes get :: "'a kstate_scheme \<Rightarrow> 'v"
    and put :: "'v \<Rightarrow> 'a kstate_scheme \<Rightarrow> 'a kstate_scheme"
  assumes get_put: "get (put v s) = v"
    and put_get: "put (get s) s = s"
    and put_put: "put v (put u s) = put v s"
    and put_currpid: "currpid (put v s) = currpid s"
begin

lemma vrunsD: "vruns get put m (get s) r v' \<Longrightarrow> runs m s r (put v' s)"
  by (simp add: vruns_def)

lemma vruns_Ret: "vruns get put (Ret r) v r v"
  by (auto simp: vruns_def put_get intro: runs_Ret)

lemma vruns_bind:
  assumes "vruns get put m v r u" and "vruns get put (k r) u r' v'"
  shows "vruns get put (pbind m k) v r' v'"
  unfolding vruns_def
proof (intro allI impI)
  fix s assume "get s = v"
  then have "runs m s r (put u s)" using assms(1) by (simp add: vruns_def)
  moreover have "runs (k r) (put u s) r' (put v' s)"
    using assms(2) get_put [of u s] put_put [of v' u s] unfolding vruns_def by metis
  ultimately show "runs (pbind m k) s r' (put v' s)" by (rule runs_bind)
qed

lemma vruns_gets: "(\<And>s. f s = g (get s)) \<Longrightarrow> vruns get put (pgets f) v (g v) v"
  using runs_gets [of f] by (auto simp: vruns_def put_get)

lemma vruns_modify: "(\<And>s. f s = put (g (get s)) s) \<Longrightarrow> vruns get put (pmodify f) v () (g v)"
  using runs_modify [of f] by (auto simp: vruns_def put_currpid)

lemma vruns_lift: "(\<And>s. f s = (r (get s), put (g (get s)) s)) \<Longrightarrow> vruns get put (plift f) v (r v) (g v)"
  using runs_lift [of f] by (auto simp: vruns_def put_currpid)

text \<open>A program may look at the view before it goes on.\<close>

lemma vruns_read: "(\<And>s. f s = g (get s)) \<Longrightarrow> vruns get put (k (g v)) v r v' \<Longrightarrow> vruns get put (pbind (pgets f) k) v r v'"
  by (rule vruns_bind [OF vruns_gets])

lemma vruns_set: "(\<And>s. f s = put (g (get s)) s) \<Longrightarrow> vruns get put (k ()) (g v) r v' \<Longrightarrow>
    vruns get put (pbind (pmodify f) k) v r v'"
  by (rule vruns_bind [OF vruns_modify])

lemma vruns_for:
  assumes "\<And>n u. n < length xs \<Longrightarrow> P n u \<Longrightarrow> \<exists>u'. vruns get put (body (xs ! n)) u () u' \<and> P (Suc n) u'" and "P 0 v"
  shows "\<exists>v'. vruns get put (pfor xs body) v () v' \<and> P (length xs) v'"
  using assms
proof (induction xs arbitrary: P v)
  case Nil
  then show ?case by (auto intro: vruns_Ret)
next
  case (Cons x xs)
  obtain u where u: "vruns get put (body x) v () u" "P 1 u" using Cons.prems(1) [of 0 v] Cons.prems(2) by auto
  have "\<exists>v'. vruns get put (pfor xs body) u () v' \<and> P (Suc (length xs)) v'"
  proof (rule Cons.IH [of "\<lambda>n. P (Suc n)"])
    fix n w assume "n < length xs" "P (Suc n) w"
    then show "\<exists>u'. vruns get put (body (xs ! n)) w () u' \<and> P (Suc (Suc n)) u'" using Cons.prems(1) [of "Suc n" w] by simp
  qed (use u in simp)
  then show ?case using vruns_bind [OF u(1)] by fastforce
qed

end

end
