(* ===== verification/File_Disk.thy ===== *)
theory File_Disk
  imports Files Views
begin

section \<open>The file system and its disk\<close>

text \<open>
  The view of the state that the file operations work on: the semaphores, the RAM disk, the
  global data and one control block. Reading and writing sectors, index blocks and the directory
  are functions on the contents of the disk.
\<close>

record lfview =
  vsem :: "sid32 \<Rightarrow> sentry"
  vdisk :: "int \<Rightarrow> wbuf"
  vdata :: lfdata
  vcb :: lflcblk
  vstack :: wbuf

definition lview :: "int \<Rightarrow> 'a lfstate_t_scheme \<Rightarrow> lfview" where
  "lview f s = \<lparr>vsem = semtab s, vdisk = ramdisk s, vdata = lf_data s, vcb = lfltab s f, vstack = lf_stack s\<rparr>"

definition lput :: "int \<Rightarrow> lfview \<Rightarrow> 'a lfstate_t_scheme \<Rightarrow> 'a lfstate_t_scheme" where
  "lput f v s = s\<lparr>semtab := vsem v, ramdisk := vdisk v, lf_data := vdata v, lfltab := (lfltab s)(f := vcb v), lf_stack := vstack v\<rparr>"

lemma lview_sel [simp]:
  "vsem (lview f s) = semtab s" "vdisk (lview f s) = ramdisk s" "vdata (lview f s) = lf_data s"
  "vcb (lview f s) = lfltab s f" "vstack (lview f s) = lf_stack s"
  by (simp_all add: lview_def)

lemma lput_sel [simp]:
  "semtab (lput f v s) = vsem v" "ramdisk (lput f v s) = vdisk v" "lf_data (lput f v s) = vdata v"
  "lfltab (lput f v s) = (lfltab s)(f := vcb v)" "lf_stack (lput f v s) = vstack v" "currpid (lput f v s) = currpid s"
  by (simp_all add: lput_def)

interpretation lf: view "lview f" "lput f" for f :: int
  by unfold_locales (simp_all add: lview_def lput_def)

abbreviation lruns :: "int \<Rightarrow> ('a lfstate_t_scheme, 'r) prog \<Rightarrow> lfview \<Rightarrow> 'r \<Rightarrow> lfview \<Rightarrow> bool" where
  "lruns f \<equiv> vruns (lview f) (lput f)"

subsection \<open>Sectors, index blocks and the directory on the disk\<close>

definition dget :: "(int \<Rightarrow> wbuf) \<Rightarrow> u32 \<Rightarrow> nat \<Rightarrow> u8" where
  "dget D d = word_byte (D (sint d))"

definition dwrite :: "(int \<Rightarrow> wbuf) \<Rightarrow> u32 \<Rightarrow> wbuf \<Rightarrow> int \<Rightarrow> wbuf" where
  "dwrite D n b = D(sint n := (\<lambda>i. if i < 128 then b i else D (sint n) i))"

definition iget :: "(int \<Rightarrow> wbuf) \<Rightarrow> u32 \<Rightarrow> lfiblk" where
  "iget D ib = dec_ib (\<lambda>k. D (sint (ib2sect ib)) (ib2disp ib + k))"

definition iput :: "(int \<Rightarrow> wbuf) \<Rightarrow> u32 \<Rightarrow> lfiblk \<Rightarrow> int \<Rightarrow> wbuf" where
  "iput D ib x = dwrite D (ib2sect ib) (\<lambda>k. if ib2disp ib \<le> k \<and> k < ib2disp ib + 18 then enc_ib x (k - ib2disp ib)
     else D (sint (ib2sect ib)) k)"

abbreviation dirput :: "(int \<Rightarrow> wbuf) \<Rightarrow> lfdir \<Rightarrow> int \<Rightarrow> wbuf" where
  "dirput D d \<equiv> dwrite D 0 (enc_dir d)"

lemma ib2sect_small:
  assumes "unat ib < 1393"
  shows "sint (ib2sect ib) = int (unat ib div 7) + 1" and "ib2disp ib = 18 * (unat ib mod 7)"
proof -
  have s: "sint ib = int (unat ib)" using assms by (intro sint_small) simp
  have q: "int m sdiv 7 = int (m div 7)" for m by (cases "m = 0") (simp_all add: signed_divide_int_def sgn_if zdiv_int)
  have "int (unat ib) sdiv 7 = int (unat ib div 7)" by (rule q)
  then have "ib2sect ib = of_nat (unat ib div 7 + 1)" using s by (simp add: ib2sect_def)
  moreover have "unat (of_nat (unat ib div 7 + 1) :: u32) = unat ib div 7 + 1"
    using assms by (simp add: unat_of_nat take_bit_nat_eq_self del: of_nat_add of_nat_Suc)
  ultimately show "sint (ib2sect ib) = int (unat ib div 7) + 1" using sint_small [of "ib2sect ib"] assms by simp
  have "int m smod 7 = int (m mod 7)" for m
    by (cases "m = 0") (simp_all add: signed_modulo_int_def sgn_if zmod_int)
  then show "ib2disp ib = 18 * (unat ib mod 7)" by (simp only: ib2disp_def s nat_int mult.commute)
qed

lemma valid_not_null: "unat (ib :: u32) < 1393 \<Longrightarrow> ib \<noteq> - 1"
  by (auto simp: unsigned_minus_1_eq_mask mask_eq_exp_minus_1)

text \<open>An index block whose array has no entries beyond its sixteen.\<close>

definition ib_norm :: "lfiblk \<Rightarrow> bool" where
  "ib_norm x \<longleftrightarrow> (\<forall>j\<ge>LF_IBLEN. ib_dba x j = LF_DNULL)"

lemma ib_norm_simps [simp]:
  "ib_norm (lfibclear off)" "ib_norm (iget D ib)" "ib_norm (x\<lparr>ib_next := n\<rparr>) = ib_norm x" "ib_norm (x\<lparr>ib_offset := u\<rparr>) = ib_norm x"
  "ib_norm x \<Longrightarrow> j < 16 \<Longrightarrow> ib_norm (x\<lparr>ib_dba := (ib_dba x)(j := d)\<rparr>)"
  by (auto simp: ib_norm_def lfibclear_def iget_def dec_ib_def)

lemma dec_enc_ib: "ib_norm x \<Longrightarrow> dec_ib (enc_ib x) = x"
  by (cases x) (auto simp: dec_ib_def enc_ib_def ib_norm_def)

lemma dec_ib_cong: "(\<And>k. k < 18 \<Longrightarrow> w k = w' k) \<Longrightarrow> dec_ib w = dec_ib w'"
  by (auto simp: dec_ib_def)

lemma iget_iput_same:
  assumes "unat ib < 1393" and "ib_norm x"
  shows "iget (iput D ib x) ib = x"
proof -
  have "unat ib mod 7 \<le> 6" by (simp add: less_Suc_eq_le [symmetric])
  then have "ib2disp ib + 18 \<le> 128" using ib2sect_small(2) [OF assms(1)] by simp
  then have "iget (iput D ib x) ib = dec_ib (enc_ib x)" unfolding iget_def iput_def dwrite_def by (intro dec_ib_cong) simp
  then show ?thesis using dec_enc_ib [OF assms(2)] by simp
qed

lemma iget_iput_other:
  assumes "unat ib < 1393" and "unat ib' < 1393" and "ib' \<noteq> ib"
  shows "iget (iput D ib x) ib' = iget D ib'"
proof -
  note a = ib2sect_small [OF assms(1)] and b = ib2sect_small [OF assms(2)]
  have "unat ib' \<noteq> unat ib" using assms(3) by (simp add: unsigned_word_eqI [of ib' ib] word_unat_eq_iff)
  then have ne: "unat ib' div 7 \<noteq> unat ib div 7 \<or> unat ib' mod 7 \<noteq> unat ib mod 7" by (metis div_mult_mod_eq)
  have "\<not> (18 * m \<le> 18 * n + k \<and> 18 * n + k < 18 * m + 18)" if "m \<noteq> n" "k < 18" for m n k :: nat
    using that by auto
  then show ?thesis unfolding iget_def iput_def dwrite_def using ne a b by (intro dec_ib_cong) auto
qed

text \<open>Index blocks and data sectors do not overlap.\<close>

lemma iget_dwrite:
  assumes "unat ib < 1393" and "sint n \<noteq> int (unat ib div 7) + 1"
  shows "iget (dwrite D n b) ib = iget D ib"
  using assms ib2sect_small [OF assms(1)] by (simp add: iget_def dwrite_def)

lemma iput_sector:
  assumes "unat ib < 1393" and "k \<noteq> int (unat ib div 7) + 1"
  shows "iput D ib x k = D k"
  using assms ib2sect_small [OF assms(1)] by (simp add: iput_def dwrite_def)

lemma bit_word_byte: "bit (word_byte w i) n \<longleftrightarrow> n < 8 \<and> bit (w (i div 4)) (8 * (i mod 4) + n)"
  by (auto simp: word_byte_def bit_simps)

lemma bit_bytes_word: "bit (bytes_word b k) n \<longleftrightarrow> n < 32 \<and> bit (b (4 * k + n div 8)) (n mod 8)"
proof (cases "n < 32")
  case True
  have N: "8 \<le> m \<Longrightarrow> \<not> bit (c :: u8) m" for c m by (auto dest: bit_imp_le_length)
  consider "n < 8" | "8 \<le> n" "n < 16" | "16 \<le> n" "n < 24" | "24 \<le> n" using True by linarith
  then show ?thesis
  proof cases
    case 1
    then show ?thesis by (simp add: bytes_word_def bit_simps)
  next
    case 2
    then have "n div 8 = 1" "n mod 8 = n - 8" by presburger+
    then show ?thesis using 2 by (auto simp: bytes_word_def bit_simps N)
  next
    case 3
    then have "n div 8 = 2" "n mod 8 = n - 16" by presburger+
    then show ?thesis using 3 by (auto simp: bytes_word_def bit_simps N)
  next
    case 4
    then have "n div 8 = 3" "n mod 8 = n - 24" using True by presburger+
    then show ?thesis using 4 True by (auto simp: bytes_word_def bit_simps N numeral_3_eq_3)
  qed
qed (auto dest: bit_imp_le_length)

lemma bytes_word_byte [simp]: "bytes_word (word_byte w) = w"
proof
  fix k
  have "(4 * k + n div 8) div 4 = k" "8 * ((4 * k + n div 8) mod 4) + n mod 8 = n" if "n < 32" for n :: nat
    using that less_mult_imp_div_less [of n 4 8] by simp_all
  then show "bytes_word (word_byte w) k = w k"
    by (intro bit_word_eqI) (simp add: bit_bytes_word bit_word_byte)
qed

lemma word_byte_bytes [simp]: "word_byte (bytes_word b) = b"
proof
  fix i :: nat
  show "word_byte (bytes_word b) i = b i"
  proof (rule bit_word_eqI)
    fix n assume "n < LENGTH(8)"
    then have "n < 8" by simp
    moreover have "i mod 4 < 4" by simp
    ultimately have "8 * (i mod 4) + n < 32" "(8 * (i mod 4) + n) div 8 = i mod 4" "(8 * (i mod 4) + n) mod 8 = n" by simp_all
    then show "bit (word_byte (bytes_word b) i) n = bit (b i) n" using \<open>n < 8\<close> by (simp add: bit_bytes_word bit_word_byte)
  qed
qed

lemma dget_dwrite:
  "i < 512 \<Longrightarrow> dget (dwrite D n b) d i = (if sint d = sint n then word_byte b i else dget D d i)"
  using less_mult_imp_div_less [of i 128 4] by (simp add: dget_def dwrite_def word_byte_def)

subsection \<open>Transfers as functions of the view\<close>

text \<open>The changes of the view by the allocation and release of blocks and by flushing.\<close>

definition vdir :: "lfdir \<Rightarrow> bool \<Rightarrow> lfview \<Rightarrow> lfview" where
  "vdir dir dirty v = v\<lparr>vdata := (vdata v)\<lparr>lf_dir := dir, lf_dirdirty := dirty\<rparr>, vdisk := dirput (vdisk v) dir\<rparr>"

definition ialloc :: "lfview \<Rightarrow> lfview" where
  "ialloc v = (let dir = lf_dir (vdata v)
     in vdir (dir\<lparr>lfd_ifree := ib_next (iget (vdisk v) (lfd_ifree dir))\<rparr>) False v)"

definition dalloc :: "lfview \<Rightarrow> lfview" where
  "dalloc v = (let dir = lf_dir (vdata v)
     in vdir (dir\<lparr>lfd_dfree := vdisk v (sint (lfd_dfree dir)) 0\<rparr>) False v)"

definition drelease :: "u32 \<Rightarrow> lfview \<Rightarrow> lfview" where
  "drelease d v = (let dir = lf_dir (vdata v)
     in vdir (dir\<lparr>lfd_dfree := d\<rparr>) (lf_dirdirty (vdata v))
          (v\<lparr>vdisk := dwrite (vdisk v) d ((vstack v)(0 := lfd_dfree dir))\<rparr>))"

definition flush :: "lfview \<Rightarrow> lfview" where
  "flush v =
     (let v = (if lf_dirdirty (vdata v) then vdir (lf_dir (vdata v)) False v else v);
          v = (if lfdbdirty (vcb v)
               then v\<lparr>vdisk := dwrite (vdisk v) (lfdnum (vcb v)) (bytes_word (lfdblock (vcb v))), vcb := (vcb v)\<lparr>lfdbdirty := False\<rparr>\<rparr>
               else v)
      in if lfibdirty (vcb v)
         then v\<lparr>vdisk := iput (vdisk v) (lfinum (vcb v)) (lfiblock (vcb v)), vcb := (vcb v)\<lparr>lfibdirty := False\<rparr>\<rparr>
         else v)"

lemmas lf_upd_defs = upd_lf_def upd_lfd_def upd_dir_def upd_ld_def

lemma upd_currpid [simp]:
  "currpid (upd_lf f g s) = currpid s" "currpid (upd_lfd h s) = currpid s" "currpid (upd_dir k s) = currpid s" "currpid (upd_ld i l s) = currpid s"
  by (simp_all add: lf_upd_defs)

lemma lruns_read:
  "lruns f (read_dev (devtab d) RAM0 b n) v (OK, \<lambda>i. if i < 128 then vdisk v (sint n) i else b i) v"
  by (auto simp: vruns_def runs_def read_dev_def isbaddev_def devtab_def ramread_def lput_def lview_def)

lemma lruns_write: "lruns f (write_dev (devtab d) RAM0 b n) v OK (v\<lparr>vdisk := dwrite (vdisk v) n b\<rparr>)"
  by (auto simp: vruns_def runs_def write_dev_def isbaddev_def devtab_def ramwrite_def lput_def lview_def dwrite_def Let_def run_plift cong: if_cong)

lemma lruns_stack: "lruns f (k (vstack v)) v r v' \<Longrightarrow> lruns f (pbind (pgets lf_stack) k) v r v'"
  by (rule lf.vruns_read [where g = vstack]) simp_all

lemma lruns_ibget:
  assumes "unat ib < 1393"
  shows "lruns f (lfibget (devtab d) RAM0 ib) v (iget (vdisk v) ib) v"
proof -
  have "unat ib mod 7 < 7" by simp
  then have "ib2disp ib + 18 \<le> 128" using ib2sect_small(2) [OF assms] by linarith
  then have "dec_ib (\<lambda>k. (if ib2disp ib + k < 128 then vdisk v (sint (ib2sect ib)) (ib2disp ib + k) else b k)) = iget (vdisk v) ib" for b
    unfolding iget_def by (intro dec_ib_cong) simp
  then show ?thesis unfolding lfibget_def
    by (intro lruns_stack lf.vruns_bind [OF lruns_read]) (simp add: lf.vruns_Ret)
qed

lemma lruns_ibput: "lruns f (lfibput (devtab d) RAM0 ib x) v OK (v\<lparr>vdisk := iput (vdisk v) ib x\<rparr>)"
proof -
  have "dwrite (vdisk v) n (\<lambda>k. if P k then y k else if k < 128 then vdisk v (sint n) k else b k) =
    dwrite (vdisk v) n (\<lambda>k. if P k then y k else vdisk v (sint n) k)" for n P y b
    by (auto simp: dwrite_def fun_eq_iff)
  note eq = this [of "ib2sect ib" "\<lambda>k. ib2disp ib \<le> k \<and> k < ib2disp ib + 18" "\<lambda>k. enc_ib x (k - ib2disp ib)"]
  have "lruns f (write_dev (devtab d) RAM0 (\<lambda>k. if ib2disp ib \<le> k \<and> k < ib2disp ib + 18 then enc_ib x (k - ib2disp ib)
      else if k < 128 then vdisk v (sint (ib2sect ib)) k else b k) (ib2sect ib)) v OK (v\<lparr>vdisk := iput (vdisk v) ib x\<rparr>)" for b
    unfolding iput_def eq [symmetric, of b] by (rule lruns_write)
  then show ?thesis unfolding lfibput_def Let_def
    by (intro lruns_stack lf.vruns_bind [OF lruns_read]) (auto intro: lf.vruns_bind lf.vruns_Ret)
qed


lemma lruns_RetI: "v = v' \<Longrightarrow> lruns f (Ret r) v r v'"
  by (simp add: lf.vruns_Ret)

lemma lruns_wdir:
  "lf_dskdev (vdata v) = RAM0 \<Longrightarrow>
    lruns f (write_dir (devtab d)) v OK (v\<lparr>vdisk := dirput (vdisk v) (lf_dir (vdata v))\<rparr>)"
  unfolding write_dir_def
  by (rule lf.vruns_read [where g = "\<lambda>v. (lf_dskdev (vdata v), lf_dir (vdata v))"]) (simp_all add: lruns_write)

text \<open>Assignments to the directory and to the control block.\<close>

lemma lruns_lfd: "lruns f (pmodify (upd_lfd h)) v () (v\<lparr>vdata := h (vdata v)\<rparr>)"
  by (rule lf.vruns_modify) (simp add: upd_lfd_def lput_def lview_def)

lemma lruns_lf: "lruns f (pmodify (upd_lf f h)) v () (v\<lparr>vcb := h (vcb v)\<rparr>)"
  by (rule lf.vruns_modify) (simp add: upd_lf_def lput_def lview_def)

lemma lruns_dir: "lruns f (pmodify (upd_dir h)) v () (v\<lparr>vdata := (vdata v)\<lparr>lf_dir := h (lf_dir (vdata v))\<rparr>\<rparr>)"
  unfolding upd_dir_def by (rule lruns_lfd)

lemma lruns_lfdI: "v\<lparr>vdata := h (vdata v)\<rparr> = v' \<Longrightarrow> lruns f (pmodify (upd_lfd h)) v () v'"
  using lruns_lfd [of f h v] by simp

lemma lruns_lfI: "v\<lparr>vcb := h (vcb v)\<rparr> = v' \<Longrightarrow> lruns f (pmodify (upd_lf f h)) v () v'"
  using lruns_lf [of f h v] by simp

lemma lruns_iballoc:
  assumes "lf_dskdev (vdata v) = RAM0" and "unat (lfd_ifree (lf_dir (vdata v))) < 1393"
  shows "lruns f (lfiballoc (devtab d)) v (lfd_ifree (lf_dir (vdata v))) (ialloc v)"
proof -
  have "lfd_ifree (lf_dir (vdata v)) \<noteq> - 1" by (rule valid_not_null [OF assms(2)])
  then show ?thesis unfolding lfiballoc_def
    apply (intro lf.vruns_read [where g = "\<lambda>v. (lf_dskdev (vdata v), lfd_ifree (lf_dir (vdata v)))"])
     apply simp
    apply (simp add: assms(1))
    apply (rule lf.vruns_bind [OF lruns_ibget [OF assms(2)]])
    apply (rule lf.vruns_bind [OF lruns_dir])
    apply (rule lf.vruns_bind [OF lruns_wdir], simp add: assms(1))
    apply (rule lf.vruns_bind [OF lruns_lfd])
    apply (rule lruns_RetI, simp add: ialloc_def vdir_def Let_def)
    done
qed

lemma lruns_dballoc:
  assumes "lf_dskdev (vdata v) = RAM0" and "lfd_dfree (lf_dir (vdata v)) \<noteq> LF_DNULL"
  shows "\<exists>buf. lruns f (lfdballoc (devtab d) b) v (lfd_dfree (lf_dir (vdata v)), buf) (dalloc v)"
  unfolding lfdballoc_def
  apply (rule exI)
  apply (rule lf.vruns_read [where g = "\<lambda>v. (lf_dskdev (vdata v), lfd_dfree (lf_dir (vdata v)))"], simp)
  apply (simp add: assms)
  apply (rule lf.vruns_bind [OF lruns_read], simp)
  apply (rule lf.vruns_bind [OF lruns_dir])
  apply (rule lf.vruns_bind [OF lruns_wdir], simp add: assms(1))
  apply (rule lf.vruns_bind [OF lruns_lfd])
  apply (rule lruns_RetI, simp add: dalloc_def vdir_def Let_def)
  done

lemma lruns_dbfree:
  "lruns f (lfdbfree (devtab d) RAM0 n) v OK (drelease n v)"
  unfolding lfdbfree_def
  apply (rule lf.vruns_read [where g = "\<lambda>v. (vstack v)(0 := lfd_dfree (lf_dir (vdata v)))"], simp)
  apply (rule lf.vruns_bind [OF lruns_dir])
  apply (rule lf.vruns_bind [OF lruns_write])
  apply (rule lf.vruns_read [where g = "\<lambda>v. lf_dir (vdata v)"], simp)
  apply (rule lf.vruns_bind [OF lruns_write])
  apply (rule lruns_RetI, simp add: drelease_def vdir_def Let_def)
  done

text \<open>A conditional step of a program is a conditional change of the view.\<close>

lemma lruns_if: "(b \<Longrightarrow> lruns f m v () v1) \<Longrightarrow> lruns f (if b then m else Ret ()) v () (if b then v1 else v)"
  by (simp add: lf.vruns_Ret)

lemma lruns_flush:
  assumes "lf_dskdev (vdata v) = RAM0" and "lfstate (vcb v) = LF_USED"
  shows "lruns f (lfflush (devtab d) f) v OK (flush v)"
proof -
  let ?v1 = "if lf_dirdirty (vdata v) then vdir (lf_dir (vdata v)) False v else v"
  let ?v2 = "if lfdbdirty (vcb ?v1) then ?v1\<lparr>vdisk := dwrite (vdisk ?v1) (lfdnum (vcb ?v1)) (bytes_word (lfdblock (vcb ?v1))),
    vcb := (vcb ?v1)\<lparr>lfdbdirty := False\<rparr>\<rparr> else ?v1"
  have 1: "lruns f (pbind (write_dir (devtab d)) (\<lambda>_. pmodify (upd_lfd (\<lambda>d. d\<lparr>lf_dirdirty := False\<rparr>)))) v ()
      (vdir (lf_dir (vdata v)) False v)"
    by (rule lf.vruns_bind [OF lruns_wdir [OF assms(1)]]) (rule lruns_lfdI, simp add: vdir_def)
  have 2: "lruns f (pbind (write_dev (devtab d) RAM0 (bytes_word (lfdblock (vcb u))) (lfdnum (vcb u))) (\<lambda>_.
      pmodify (upd_lf f (\<lambda>c. c\<lparr>lfdbdirty := False\<rparr>)))) u ()
      (u\<lparr>vdisk := dwrite (vdisk u) (lfdnum (vcb u)) (bytes_word (lfdblock (vcb u))), vcb := (vcb u)\<lparr>lfdbdirty := False\<rparr>\<rparr>)" for u
    by (rule lf.vruns_bind [OF lruns_write]) (rule lruns_lfI, simp)
  have 3: "lruns f (pbind (lfibput (devtab d) RAM0 (lfinum (vcb u)) (lfiblock (vcb u))) (\<lambda>_.
      pmodify (upd_lf f (\<lambda>c. c\<lparr>lfibdirty := False\<rparr>)))) u ()
      (u\<lparr>vdisk := iput (vdisk u) (lfinum (vcb u)) (lfiblock (vcb u)), vcb := (vcb u)\<lparr>lfibdirty := False\<rparr>\<rparr>)" for u
    by (rule lf.vruns_bind [OF lruns_ibput]) (rule lruns_lfI, simp)
  show ?thesis
    unfolding lfflush_def
    apply (rule lf.vruns_read [where g = "\<lambda>v. (lfstate (vcb v), vdata v)"], simp)
    apply (simp add: assms cong: if_cong split del: if_split)
    apply (rule lf.vruns_bind [OF lruns_if [OF 1]])
    apply (rule lf.vruns_read [where g = vcb], simp)
    apply (rule lf.vruns_bind [OF lruns_if [OF 2]])
    apply (rule lf.vruns_read [where g = vcb], simp)
    apply (rule lf.vruns_bind [OF lruns_if [OF 3]])
    apply (simp add: flush_def Let_def lf.vruns_Ret)
    done
qed

end
