(* ===== verification/File_Rep.thy ===== *)
theory File_Rep
  imports File_Disk
begin

section \<open>What an open file is\<close>

text \<open>
  An open file represents a sequence of bytes. Its index blocks are chained on the disk, the cached
  index block may be newer than its copy on the disk, and the same holds for the cached data
  block. The free index blocks and the free data blocks are chained from the directory.
\<close>

fun chain :: "(u32 \<Rightarrow> u32) \<Rightarrow> u32 \<Rightarrow> u32 list \<Rightarrow> bool" where
  "chain nx p [] \<longleftrightarrow> p = - 1"
| "chain nx p (x # xs) \<longleftrightarrow> p = x \<and> chain nx (nx x) xs"

lemma chain_cong: "(\<And>x. x \<in> set xs \<Longrightarrow> nx' x = nx x) \<Longrightarrow> chain nx' p xs = chain nx p xs"
  by (induction xs arbitrary: p) auto

lemma chain_nth: "chain nx p xs \<Longrightarrow> k < length xs \<Longrightarrow> nx (xs ! k) = (if Suc k < length xs then xs ! Suc k else - 1)"
proof (induction xs arbitrary: p k)
  case (Cons x xs)
  then show ?case by (cases k; cases xs) auto
qed simp

lemma chain_snoc:
  assumes "chain nx p xs" and "xs \<noteq> []" and "\<And>y. y \<in> set (butlast xs) \<Longrightarrow> nx' y = nx y" and "nx' (last xs) = x" and "nx' x = - 1"
  shows "chain nx' p (xs @ [x])"
  using assms
proof (induction xs arbitrary: p)
  case (Cons y xs)
  then show ?case by (cases "xs = []") auto
qed simp

lemma chain_hd: "chain nx p xs \<Longrightarrow> p = (if xs = [] then - 1 else hd xs)"
  by (cases xs) auto

definition iview :: "(int \<Rightarrow> wbuf) \<Rightarrow> lflcblk \<Rightarrow> u32 \<Rightarrow> lfiblk" where
  "iview D c ib = (if ib = lfinum c then lfiblock c else iget D ib)"

definition dview :: "(int \<Rightarrow> wbuf) \<Rightarrow> lflcblk \<Rightarrow> u32 \<Rightarrow> nat \<Rightarrow> u8" where
  "dview D c d = (if d = lfdnum c then lfdblock c else dget D d)"

text \<open>Index block number \<open>k\<close> of a file points to its data blocks \<open>16 * k\<close> to \<open>16 * k + 15\<close>.\<close>

definition iblocks :: "(u32 \<Rightarrow> lfiblk) \<Rightarrow> u32 list \<Rightarrow> u32 list \<Rightarrow> bool" where
  "iblocks V ibs ds \<longleftrightarrow> (\<forall>k<length ibs. ib_offset (V (ibs ! k)) = of_nat (8192 * k) \<and>
     (\<forall>j<16. ib_dba (V (ibs ! k)) j = (if 16 * k + j < length ds then ds ! (16 * k + j) else - 1)))"

definition idx_rep :: "nat \<Rightarrow> (int \<Rightarrow> wbuf) \<Rightarrow> u32 \<Rightarrow> u32 \<Rightarrow> lflcblk \<Rightarrow> u32 list \<Rightarrow> u32 list \<Rightarrow> u32 list \<Rightarrow> bool" where
  "idx_rep ni D first ifree c ibs fis ds \<longleftrightarrow>
     ni \<le> 199 \<and> (\<forall>ib\<in>set (ibs @ fis). unat ib < 7 * ni) \<and> distinct (ibs @ fis) \<and>
     chain (\<lambda>ib. ib_next (iview D c ib)) first ibs \<and> iblocks (iview D c) ibs ds \<and> length ds \<le> 16 * length ibs \<and>
     chain (\<lambda>ib. ib_next (iget D ib)) ifree fis \<and> ib_norm (lfiblock c) \<and>
     (lfinum c = - 1 \<and> \<not> lfibdirty c \<or> lfinum c \<in> set ibs \<and> (lfibdirty c \<or> lfiblock c = iget D (lfinum c)))"

definition dat_rep :: "nat \<Rightarrow> (int \<Rightarrow> wbuf) \<Rightarrow> u32 \<Rightarrow> lflcblk \<Rightarrow> u32 list \<Rightarrow> u32 list \<Rightarrow> u8 list \<Rightarrow> bool" where
  "dat_rep ni D dfree c ds fds xs \<longleftrightarrow>
     (\<forall>d\<in>set (ds @ fds). ni < unat d \<and> unat d < 200) \<and> distinct (ds @ fds) \<and> chain (\<lambda>d. D (sint d) 0) dfree fds \<and>
     length xs \<le> 512 * length ds \<and> (\<forall>p<length xs. xs ! p = dview D c (ds ! (p div 512)) (p mod 512)) \<and>
     (if lfdbdirty c then lfdnum c \<in> set ds
      else (lfdnum c = - 1 \<or> lfdnum c \<in> set ds) \<and> (\<forall>p<length xs. lfdnum c = ds ! (p div 512) \<longrightarrow>
        dget D (ds ! (p div 512)) (p mod 512) = lfdblock c (p mod 512)))"

definition pos_rep :: "lflcblk \<Rightarrow> u32 list \<Rightarrow> u8 list \<Rightarrow> bool" where
  "pos_rep c ds xs \<longleftrightarrow> unat (lfpos c) \<le> length xs \<and> lfbyte c \<le> 512 \<and>
     (lfbyte c < 512 \<longrightarrow> unat (lfpos c) div 512 < length ds \<and> lfdnum c = ds ! (unat (lfpos c) div 512) \<and>
       lfbyte c = unat (lfpos c) mod 512)"

text \<open>The directory entry of the file.\<close>

definition vent :: "lfview \<Rightarrow> ldentry" where
  "vent v = lfd_files (lf_dir (vdata v)) (lfdirptr (vcb v))"

definition blocks_rep :: "nat \<Rightarrow> lfview \<Rightarrow> u32 list \<Rightarrow> u32 list \<Rightarrow> u32 list \<Rightarrow> u32 list \<Rightarrow> u8 list \<Rightarrow> bool" where
  "blocks_rep ni v ibs fis ds fds xs \<longleftrightarrow>
     lfstate (vcb v) = LF_USED \<and> lf_dskdev (vdata v) = RAM0 \<and> length xs = unat (ld_size (vent v)) \<and>
     idx_rep ni (vdisk v) (ld_ilist (vent v)) (lfd_ifree (lf_dir (vdata v))) (vcb v) ibs fis ds \<and>
     dat_rep ni (vdisk v) (lfd_dfree (lf_dir (vdata v))) (vcb v) ds fds xs"

text \<open>\<open>file_rep ni I B v xs\<close>: the file holds \<open>xs\<close>; \<open>I\<close> are the index blocks and \<open>B\<close> the data blocks that it
  owns or that are free. The index area has \<open>ni\<close> sectors.\<close>

definition file_rep :: "nat \<Rightarrow> u32 set \<Rightarrow> u32 set \<Rightarrow> lfview \<Rightarrow> u8 list \<Rightarrow> bool" where
  "file_rep ni I B v xs \<longleftrightarrow> (\<exists>ibs fis ds fds. blocks_rep ni v ibs fis ds fds xs \<and> pos_rep (vcb v) ds xs \<and>
     set (ibs @ fis) = I \<and> set (ds @ fds) = B)"

subsection \<open>The disk that matters\<close>

lemma iview_cong:
  assumes "\<And>ib. ib \<in> set ibs \<Longrightarrow> iget D' ib = iget D ib" and "ib \<in> set ibs"
  shows "iview D' c ib = iview D c ib"
  using assms by (simp add: iview_def)

lemma iblocks_cong: "(\<And>ib. ib \<in> set ibs \<Longrightarrow> V' ib = V ib) \<Longrightarrow> iblocks V' ibs ds = iblocks V ibs ds"
  by (simp add: iblocks_def)

lemma idx_cong:
  assumes eq: "\<And>ib. ib \<in> set (ibs @ fis) \<Longrightarrow> iget D' ib = iget D ib"
  shows "idx_rep ni D' first ifree c ibs fis ds = idx_rep ni D first ifree c ibs fis ds"
proof -
  have V: "iview D' c ib = iview D c ib" if "ib \<in> set ibs" for ib using eq that by (intro iview_cong) auto
  have 1: "chain (\<lambda>ib. ib_next (iview D' c ib)) first ibs = chain (\<lambda>ib. ib_next (iview D c ib)) first ibs"
    by (rule chain_cong) (simp add: V)
  have 2: "chain (\<lambda>ib. ib_next (iget D' ib)) ifree fis = chain (\<lambda>ib. ib_next (iget D ib)) ifree fis"
    by (rule chain_cong) (simp add: eq)
  have 3: "iblocks (iview D' c) ibs ds = iblocks (iview D c) ibs ds" by (rule iblocks_cong) (rule V)
  have 4: "lfinum c \<in> set ibs \<Longrightarrow> iget D' (lfinum c) = iget D (lfinum c)" by (rule eq) simp
  show ?thesis unfolding idx_rep_def 1 2 3 using 4 by auto
qed

lemma dat_cong:
  assumes eq: "\<And>d. d \<in> set (ds @ fds) \<Longrightarrow> D' (sint d) = D (sint d)"
  shows "dat_rep ni D' dfree c ds fds xs = dat_rep ni D dfree c ds fds xs"
proof -
  have 1: "chain (\<lambda>d. D' (sint d) 0) dfree fds = chain (\<lambda>d. D (sint d) 0) dfree fds"
    by (rule chain_cong) (simp add: eq)
  have 2: "dget D' (ds ! (p div 512)) = dget D (ds ! (p div 512))" if "length xs \<le> 512 * length ds" "p < length xs" for p
  proof -
    have "ds ! (p div 512) \<in> set ds" using that by (intro nth_mem) (simp add: less_mult_imp_div_less)
    then show ?thesis by (simp add: dget_def eq)
  qed
  show ?thesis
  proof (cases "length xs \<le> 512 * length ds")
    case True
    then show ?thesis unfolding dat_rep_def 1 by (simp add: dview_def 2 cong: if_cong)
  qed (simp add: dat_rep_def)
qed

end
