(* ===== verification/File_Setup.thy ===== *)
theory File_Setup
  imports File_Rep
begin

section \<open>Flushing a file and setting up its blocks\<close>

subsection \<open>Writes that leave the representation alone\<close>

lemma data_sint: "unat (d :: u32) < 200 \<Longrightarrow> sint d = int (unat d)"
  by (rule sint_small) simp

lemma data_neq: "unat (d :: u32) < 200 \<Longrightarrow> unat e < 200 \<Longrightarrow> sint d = sint e \<longleftrightarrow> d = e"
  by (simp add: data_sint del: of_nat_unat) (simp add: word_unat_eq_iff)

lemma ib_bound: "unat (ib :: u32) < 7 * ni \<Longrightarrow> ni \<le> 199 \<Longrightarrow> unat ib < 1393 \<and> unat ib div 7 + 1 \<le> ni"
  by (auto simp: less_mult_imp_div_less Suc_le_eq)

lemma idx_write:
  assumes "idx_rep ni D first ifree c ibs fis ds" and "sint n = 0 \<or> int ni < sint n"
  shows "idx_rep ni (dwrite D n b) first ifree c ibs fis ds"
proof -
  have "iget (dwrite D n b) ib = iget D ib" if "ib \<in> set (ibs @ fis)" for ib
  proof -
    have "unat ib < 1393" "unat ib div 7 + 1 \<le> ni"
      using assms(1) ib_bound [of ib ni] that unfolding idx_rep_def by blast+
    then show ?thesis using assms(2) by (intro iget_dwrite) auto
  qed
  then show ?thesis using idx_cong assms(1) by blast
qed

lemma dat_write:
  assumes "dat_rep ni D dfree c ds fds xs" and "sint n \<le> int ni"
  shows "dat_rep ni (dwrite D n b) dfree c ds fds xs"
proof -
  have "dwrite D n b (sint d) = D (sint d)" if "d \<in> set (ds @ fds)" for d
  proof -
    have "ni < unat d" "unat d < 200" using assms(1) that unfolding dat_rep_def by blast+
    then have "sint d \<noteq> sint n" using assms(2) by (simp add: data_sint del: of_nat_unat)
    then show ?thesis by (simp add: dwrite_def)
  qed
  then show ?thesis using dat_cong assms(1) by blast
qed

lemma dat_iput:
  assumes "dat_rep ni D dfree c ds fds xs" and "unat ib < 7 * ni" and "ni \<le> 199"
  shows "dat_rep ni (iput D ib x) dfree c ds fds xs"
  unfolding iput_def using assms ib_bound [OF assms(2,3)] ib2sect_small(1) [of ib] by (intro dat_write) auto

text \<open>Neither part depends on the rest of the control block.\<close>

lemma idx_cb:
  assumes "lfinum c' = lfinum c" "lfiblock c' = lfiblock c" "lfibdirty c' = lfibdirty c"
  shows "idx_rep ni D first ifree c' ibs fis ds = idx_rep ni D first ifree c ibs fis ds"
proof -
  have "iview D c' = iview D c" using assms by (simp add: iview_def fun_eq_iff)
  then show ?thesis using assms by (simp add: idx_rep_def)
qed

lemma dat_cb:
  assumes "lfdnum c' = lfdnum c" "lfdblock c' = lfdblock c" "lfdbdirty c' = lfdbdirty c"
  shows "dat_rep ni D dfree c' ds fds xs = dat_rep ni D dfree c ds fds xs"
proof -
  have "dview D c' = dview D c" using assms by (simp add: dview_def fun_eq_iff)
  then show ?thesis using assms by (simp add: dat_rep_def)
qed

lemma pos_cb:
  assumes "lfdnum c' = lfdnum c" "lfpos c' = lfpos c" "lfbyte c' = lfbyte c"
  shows "pos_rep c' ds xs = pos_rep c ds xs"
  using assms by (simp add: pos_rep_def)

subsection \<open>Flushing\<close>

lemma dat_flush:
  assumes R: "dat_rep ni D dfree c ds fds xs" and dirty: "lfdbdirty c"
  shows "dat_rep ni (dwrite D (lfdnum c) (bytes_word (lfdblock c))) dfree (c\<lparr>lfdbdirty := False\<rparr>) ds fds xs"
proof -
  define E where "E = dwrite D (lfdnum c) (bytes_word (lfdblock c))"
  have n: "lfdnum c \<in> set ds" and B: "\<And>d. d \<in> set (ds @ fds) \<Longrightarrow> ni < unat d \<and> unat d < 200"
    and len: "length xs \<le> 512 * length ds" using R dirty unfolding dat_rep_def by auto
  have ne: "sint d = sint (lfdnum c) \<longleftrightarrow> d = lfdnum c" if "d \<in> set (ds @ fds)" for d
    using data_neq [of d "lfdnum c"] B that n by auto
  have in_ds: "ds ! (p div 512) \<in> set ds" if "p < length xs" for p
    using that len by (intro nth_mem) (simp add: less_mult_imp_div_less)
  have "chain (\<lambda>d. E (sint d) 0) dfree fds = chain (\<lambda>d. D (sint d) 0) dfree fds"
  proof (rule chain_cong)
    fix d assume "d \<in> set fds"
    then have "d \<noteq> lfdnum c" using R n unfolding dat_rep_def by auto
    then show "E (sint d) 0 = D (sint d) 0" using ne [of d] \<open>d \<in> set fds\<close> by (simp add: E_def dwrite_def)
  qed
  moreover have "dget E (ds ! (p div 512)) (p mod 512) =
      (if ds ! (p div 512) = lfdnum c then lfdblock c (p mod 512) else dget D (ds ! (p div 512)) (p mod 512))" if "p < length xs" for p
    using ne [of "ds ! (p div 512)"] in_ds [OF that] by (simp add: E_def dget_dwrite)
  ultimately show ?thesis using R dirty unfolding dat_rep_def E_def [symmetric] by (simp add: dview_def cong: if_cong)
qed

lemma idx_flush:
  assumes R: "idx_rep ni D first ifree c ibs fis ds" and dirty: "lfibdirty c"
  shows "idx_rep ni (iput D (lfinum c) (lfiblock c)) first ifree (c\<lparr>lfibdirty := False\<rparr>) ibs fis ds"
    and "unat (lfinum c) < 7 * ni" and "ni \<le> 199"
proof -
  let ?D = "iput D (lfinum c) (lfiblock c)" and ?c = "c\<lparr>lfibdirty := False\<rparr>"
  show n: "unat (lfinum c) < 7 * ni" "ni \<le> 199" using R dirty unfolding idx_rep_def by auto
  have bound: "unat ib < 1393" if "ib \<in> set (ibs @ fis)" for ib
    using R that ib_bound [of ib ni] unfolding idx_rep_def by blast
  have same: "iget ?D (lfinum c) = lfiblock c"
    using R ib_bound [OF n] unfolding idx_rep_def by (intro iget_iput_same) auto
  have other: "iget ?D ib = iget D ib" if "ib \<in> set (ibs @ fis)" "ib \<noteq> lfinum c" for ib
    using bound [OF that(1)] ib_bound [OF n] that(2) by (intro iget_iput_other) auto
  have 1: "chain (\<lambda>ib. ib_next (iview ?D ?c ib)) first ibs = chain (\<lambda>ib. ib_next (iview D c ib)) first ibs"
    by (rule chain_cong) (simp add: iview_def other)
  have 2: "iblocks (iview ?D ?c) ibs ds = iblocks (iview D c) ibs ds"
    by (rule iblocks_cong) (simp add: iview_def other)
  have 3: "chain (\<lambda>ib. ib_next (iget ?D ib)) ifree fis = chain (\<lambda>ib. ib_next (iget D ib)) ifree fis"
  proof (rule chain_cong)
    fix x assume "x \<in> set fis"
    then have "x \<noteq> lfinum c" using R dirty unfolding idx_rep_def by auto
    then show "ib_next (iget ?D x) = ib_next (iget D x)" using other [of x] \<open>x \<in> set fis\<close> by simp
  qed
  show "idx_rep ni ?D first ifree ?c ibs fis ds"
    using R dirty unfolding idx_rep_def 1 2 3 by (simp add: same)
qed

text \<open>After flushing, the copies in memory are those on the disk.\<close>

definition clean :: "lfview \<Rightarrow> bool" where
  "clean v \<longleftrightarrow> \<not> lfibdirty (vcb v) \<and> \<not> lfdbdirty (vcb v)"

lemma vent_vdir [simp]: "vent (vdir dir b v) = lfd_files dir (lfdirptr (vcb v))"
  by (simp add: vent_def vdir_def)

lemma vdir_sel [simp]:
  "vsem (vdir dir b v) = vsem v" "vdisk (vdir dir b v) = dirput (vdisk v) dir" "vcb (vdir dir b v) = vcb v"
  "vstack (vdir dir b v) = vstack v" "lf_dir (vdata (vdir dir b v)) = dir" "lf_dirdirty (vdata (vdir dir b v)) = b"
  "lf_dskdev (vdata (vdir dir b v)) = lf_dskdev (vdata v)" "lf_mutex (vdata (vdir dir b v)) = lf_mutex (vdata v)"
  "lf_dirpresent (vdata (vdir dir b v)) = lf_dirpresent (vdata v)"
  by (simp_all add: vdir_def)

lemma blocks_vdir:
  assumes "blocks_rep ni v ibs fis ds fds xs"
  shows "blocks_rep ni (vdir (lf_dir (vdata v)) b v) ibs fis ds fds xs"
proof -
  have "idx_rep ni (dirput (vdisk v) (lf_dir (vdata v))) (ld_ilist (vent v)) (lfd_ifree (lf_dir (vdata v))) (vcb v) ibs fis ds"
    using assms unfolding blocks_rep_def by (intro idx_write) auto
  moreover have "dat_rep ni (dirput (vdisk v) (lf_dir (vdata v))) (lfd_dfree (lf_dir (vdata v))) (vcb v) ds fds xs"
    using assms unfolding blocks_rep_def by (intro dat_write) auto
  ultimately show ?thesis using assms by (simp add: blocks_rep_def vent_def)
qed

lemma blocks_dflush:
  assumes R: "blocks_rep ni v ibs fis ds fds xs" and dirty: "lfdbdirty (vcb v)"
  shows "blocks_rep ni (v\<lparr>vdisk := dwrite (vdisk v) (lfdnum (vcb v)) (bytes_word (lfdblock (vcb v))),
    vcb := (vcb v)\<lparr>lfdbdirty := False\<rparr>\<rparr>) ibs fis ds fds xs"
proof -
  let ?D = "dwrite (vdisk v) (lfdnum (vcb v)) (bytes_word (lfdblock (vcb v)))" and ?c = "(vcb v)\<lparr>lfdbdirty := False\<rparr>"
  have n: "ni < unat (lfdnum (vcb v))" "unat (lfdnum (vcb v)) < 200"
    using R dirty unfolding blocks_rep_def dat_rep_def by auto
  then have "idx_rep ni ?D (ld_ilist (vent v)) (lfd_ifree (lf_dir (vdata v))) (vcb v) ibs fis ds"
    using R unfolding blocks_rep_def by (intro idx_write) (auto simp: data_sint simp del: of_nat_unat)
  then have "idx_rep ni ?D (ld_ilist (vent v)) (lfd_ifree (lf_dir (vdata v))) ?c ibs fis ds" using idx_cb [of ?c] by simp
  moreover have "dat_rep ni ?D (lfd_dfree (lf_dir (vdata v))) ?c ds fds xs"
    using R dirty unfolding blocks_rep_def by (intro dat_flush) auto
  ultimately show ?thesis using R by (simp add: blocks_rep_def vent_def)
qed

lemma blocks_iflush:
  assumes R: "blocks_rep ni v ibs fis ds fds xs" and dirty: "lfibdirty (vcb v)"
  shows "blocks_rep ni (v\<lparr>vdisk := iput (vdisk v) (lfinum (vcb v)) (lfiblock (vcb v)),
    vcb := (vcb v)\<lparr>lfibdirty := False\<rparr>\<rparr>) ibs fis ds fds xs"
proof -
  let ?D = "iput (vdisk v) (lfinum (vcb v)) (lfiblock (vcb v))" and ?c = "(vcb v)\<lparr>lfibdirty := False\<rparr>"
  have R1: "idx_rep ni (vdisk v) (ld_ilist (vent v)) (lfd_ifree (lf_dir (vdata v))) (vcb v) ibs fis ds"
    and R2: "dat_rep ni (vdisk v) (lfd_dfree (lf_dir (vdata v))) (vcb v) ds fds xs" using R unfolding blocks_rep_def by auto
  note f = idx_flush [OF R1 dirty]
  have "dat_rep ni ?D (lfd_dfree (lf_dir (vdata v))) ?c ds fds xs"
    using dat_iput [OF R2 f(2,3)] dat_cb [of ?c] by simp
  then show ?thesis using R f(1) by (simp add: blocks_rep_def vent_def)
qed

lemma flush_rep:
  assumes R: "blocks_rep ni v ibs fis ds fds xs"
  shows "blocks_rep ni (flush v) ibs fis ds fds xs" and "clean (flush v)"
    and "lfpos (vcb (flush v)) = lfpos (vcb v)" and "lfbyte (vcb (flush v)) = lfbyte (vcb v)"
    and "lfdnum (vcb (flush v)) = lfdnum (vcb v)" and "lfinum (vcb (flush v)) = lfinum (vcb v)"
    and "vsem (flush v) = vsem v" and "lfdirptr (vcb (flush v)) = lfdirptr (vcb v)"
    and "lfmutex (vcb (flush v)) = lfmutex (vcb v)" and "lf_mutex (vdata (flush v)) = lf_mutex (vdata v)"
    and "lf_dir (vdata (flush v)) = lf_dir (vdata v)" and "\<not> lf_dirdirty (vdata (flush v))"
proof -
  define v1 where "v1 = (if lf_dirdirty (vdata v) then vdir (lf_dir (vdata v)) False v else v)"
  define v2 where "v2 = (if lfdbdirty (vcb v1) then v1\<lparr>vdisk := dwrite (vdisk v1) (lfdnum (vcb v1)) (bytes_word (lfdblock (vcb v1))),
    vcb := (vcb v1)\<lparr>lfdbdirty := False\<rparr>\<rparr> else v1)"
  have f: "flush v = (if lfibdirty (vcb v2) then v2\<lparr>vdisk := iput (vdisk v2) (lfinum (vcb v2)) (lfiblock (vcb v2)),
    vcb := (vcb v2)\<lparr>lfibdirty := False\<rparr>\<rparr> else v2)"
    by (simp add: flush_def Let_def v1_def v2_def)
  have 1: "blocks_rep ni v1 ibs fis ds fds xs" using blocks_vdir [OF R] R by (simp add: v1_def)
  have 2: "blocks_rep ni v2 ibs fis ds fds xs" using blocks_dflush [OF 1] 1 by (simp add: v2_def)
  show "blocks_rep ni (flush v) ibs fis ds fds xs" using blocks_iflush [OF 2] 2 by (simp add: f)
  show "clean (flush v)" by (simp add: f v2_def clean_def)
qed (simp_all add: flush_def Let_def)

subsection \<open>What an operation leaves alone\<close>

text \<open>\<open>frame ni I B v v'\<close>: index blocks outside \<open>I\<close>, data blocks outside \<open>B\<close>, other directory entries and
  everything of the control block but the caches and the position are the same.\<close>

definition frame_rep :: "nat \<Rightarrow> u32 set \<Rightarrow> u32 set \<Rightarrow> lfview \<Rightarrow> lfview \<Rightarrow> bool" where
  "frame_rep ni I B v v' \<longleftrightarrow>
     vsem v' = vsem v \<and> vstack v' = vstack v \<and>
     lf_dskdev (vdata v') = lf_dskdev (vdata v) \<and> lf_mutex (vdata v') = lf_mutex (vdata v) \<and>
     lf_dirpresent (vdata v') = lf_dirpresent (vdata v) \<and>
     lfd_nfiles (lf_dir (vdata v')) = lfd_nfiles (lf_dir (vdata v)) \<and>
     (\<forall>j. j \<noteq> lfdirptr (vcb v) \<longrightarrow> lfd_files (lf_dir (vdata v')) j = lfd_files (lf_dir (vdata v)) j) \<and>
     ld_name (vent v') = ld_name (vent v) \<and>
     lfdirptr (vcb v') = lfdirptr (vcb v) \<and> lfmutex (vcb v') = lfmutex (vcb v) \<and> lfdev (vcb v') = lfdev (vcb v) \<and>
     lfmode (vcb v') = lfmode (vcb v) \<and> lfname (vcb v') = lfname (vcb v) \<and>
     (\<forall>ib. unat ib < 7 * ni \<longrightarrow> ib \<notin> I \<longrightarrow> iget (vdisk v') ib = iget (vdisk v) ib) \<and>
     (\<forall>k. int ni < k \<longrightarrow> (\<forall>d\<in>B. sint d \<noteq> k) \<longrightarrow> vdisk v' k = vdisk v k)"

lemma frame_refl [simp]: "frame_rep ni I B v v"
  by (simp add: frame_rep_def)

lemma frame_trans:
  assumes "frame_rep ni I B v v1" and "frame_rep ni I B v1 v2"
  shows "frame_rep ni I B v v2"
  using assms unfolding frame_rep_def by (intro conjI) (blast intro: trans | metis)+

lemma frame_vdir:
  assumes "ni \<le> 199" and "lfd_nfiles dir = lfd_nfiles (lf_dir (vdata v))" and "lfd_files dir = lfd_files (lf_dir (vdata v))"
  shows "frame_rep ni I B v (vdir dir b v)"
proof -
  have "iget (dirput (vdisk v) dir) ib = iget (vdisk v) ib" if "unat ib < 7 * ni" for ib
    using ib_bound [OF that assms(1)] by (intro iget_dwrite) auto
  then show ?thesis using assms by (auto simp: frame_rep_def vent_def dwrite_def)
qed

text \<open>Changes of the caches only.\<close>

lemma frame_cb:
  assumes "lfdirptr c = lfdirptr (vcb v)" "lfmutex c = lfmutex (vcb v)" "lfdev c = lfdev (vcb v)" "lfmode c = lfmode (vcb v)" "lfname c = lfname (vcb v)"
  shows "frame_rep ni I B v (v\<lparr>vcb := c\<rparr>)"
  using assms by (simp add: frame_rep_def vent_def)

lemma frame_dwrite:
  assumes "ni \<le> 199" and "d \<in> B" and "ni < unat d" "unat d < 200"
  shows "frame_rep ni I B v (v\<lparr>vdisk := dwrite (vdisk v) d b\<rparr>)"
proof -
  have "iget (dwrite (vdisk v) d b) ib = iget (vdisk v) ib" if "unat ib < 7 * ni" for ib
    using ib_bound [OF that assms(1)] assms(3,4) by (intro iget_dwrite) (auto simp: data_sint simp del: of_nat_unat)
  then show ?thesis using assms(2) by (auto simp: frame_rep_def vent_def dwrite_def)
qed

lemma frame_iput:
  assumes "ni \<le> 199" and "ib \<in> I" and "unat ib < 7 * ni"
  shows "frame_rep ni I B v (v\<lparr>vdisk := iput (vdisk v) ib x\<rparr>)"
proof -
  note b = ib_bound [OF assms(3,1)]
  have "iget (iput (vdisk v) ib x) ib' = iget (vdisk v) ib'" if "unat ib' < 7 * ni" "ib' \<notin> I" for ib'
    using b ib_bound [OF that(1) assms(1)] that(2) assms(2) by (intro iget_iput_other) auto
  moreover have "iput (vdisk v) ib x k = vdisk v k" if "int ni < k" for k
    using b that by (intro iput_sector) auto
  ultimately show ?thesis by (simp add: frame_rep_def vent_def)
qed

lemma flush_frame:
  assumes R: "blocks_rep ni v ibs fis ds fds xs" and "set ibs \<subseteq> I" and "set ds \<subseteq> B"
  shows "frame_rep ni I B v (flush v)"
proof -
  have ni: "ni \<le> 199" and i: "lfibdirty (vcb v) \<Longrightarrow> lfinum (vcb v) \<in> set ibs" "\<And>ib. ib \<in> set ibs \<Longrightarrow> unat ib < 7 * ni"
    and d: "lfdbdirty (vcb v) \<Longrightarrow> lfdnum (vcb v) \<in> set ds" "\<And>d. d \<in> set ds \<Longrightarrow> ni < unat d \<and> unat d < 200"
    using R unfolding blocks_rep_def idx_rep_def dat_rep_def by auto
  define v1 where "v1 = (if lf_dirdirty (vdata v) then vdir (lf_dir (vdata v)) False v else v)"
  define v2 where "v2 = (if lfdbdirty (vcb v1) then v1\<lparr>vdisk := dwrite (vdisk v1) (lfdnum (vcb v1)) (bytes_word (lfdblock (vcb v1)))\<rparr> else v1)"
  define v3 where "v3 = (if lfibdirty (vcb v2) then v2\<lparr>vdisk := iput (vdisk v2) (lfinum (vcb v2)) (lfiblock (vcb v2))\<rparr> else v2)"
  have c: "vcb v1 = vcb v" "vcb v2 = vcb v" by (simp_all add: v1_def v2_def)
  have f: "flush v = v3\<lparr>vcb := (vcb v)\<lparr>lfdbdirty := False, lfibdirty := False\<rparr>\<rparr>"
    by (simp add: flush_def Let_def v1_def v2_def v3_def vdir_def)
  have "frame_rep ni I B v v1" using frame_vdir [OF ni] by (simp add: v1_def)
  moreover have "frame_rep ni I B v1 v2" using d assms(3) ni unfolding v2_def c by (auto intro!: frame_dwrite)
  moreover have "frame_rep ni I B v2 v3" using i assms(2) ni unfolding v3_def c by (auto intro!: frame_iput)
  moreover have "frame_rep ni I B v3 (flush v)" unfolding f by (rule frame_cb) (simp_all add: v3_def c)
  ultimately show ?thesis by (blast intro: frame_trans)
qed

end
