(* ===== verification/File_Walk.thy ===== *)
theory File_Walk
  imports File_Setup
begin

section \<open>Loading the blocks of a file position\<close>

lemma unat_and_imask: "unat ((w :: u32) AND 0x1FFF) = unat w mod 8192"
proof -
  have "unat (take_bit 13 w) = take_bit 13 (unat w)" by (rule unsigned_take_bit_eq)
  moreover have "w AND 0x1FFF = take_bit 13 w" by (simp add: take_bit_eq_mask mask_eq_exp_minus_1)
  ultimately show ?thesis by (simp only: take_bit_eq_mod) simp
qed

lemma unat_and_dmask: "unat ((w :: u32) AND 0x1FF) = unat w mod 512"
proof -
  have "unat (take_bit 9 w) = take_bit 9 (unat w)" by (rule unsigned_take_bit_eq)
  moreover have "w AND 0x1FF = take_bit 9 w" by (simp add: take_bit_eq_mask mask_eq_exp_minus_1)
  ultimately show ?thesis by (simp only: take_bit_eq_mod) simp
qed

lemma unat_dindex: "unat (drop_bit 9 ((w :: u32) AND 0x1FFF)) = unat w mod 8192 div 512"
  unfolding unat_drop_bit_eq unat_and_imask by (simp add: drop_bit_eq_div)

lemma unat_and_not_imask: "unat ((w :: u32) AND NOT 0x1FFF) = 8192 * (unat w div 8192)"
proof -
  have "w AND NOT 0x1FFF = push_bit 13 (drop_bit 13 w)" using and_not_mask [of w 13] by (simp add: mask_eq_exp_minus_1)
  moreover have "unat w < 2 ^ 32" using unsigned_less [of w] by simp
  then have "unat w div 8192 * 8192 < 2 ^ 32" by linarith
  ultimately show ?thesis by (simp add: push_bit_eq_mult unat_word_ariths unat_drop_bit_eq drop_bit_eq_div mult.commute)
qed

lemma unat_offset: "k < 1393 \<Longrightarrow> unat (of_nat (8192 * k) :: u32) = 8192 * k"
  by (simp add: unat_of_nat take_bit_nat_eq_self del: of_nat_mult)

text \<open>There are at most 1393 index blocks, and the file has less than \<open>2 ^ 20\<close> bytes.\<close>

lemma idx_length:
  assumes "idx_rep ni D first ifree c ibs fis ds"
  shows "length (ibs @ fis) \<le> 1393"
proof -
  have d: "distinct (ibs @ fis)" and b: "\<forall>ib\<in>set (ibs @ fis). unat ib < 7 * ni" "ni \<le> 199"
    using assms unfolding idx_rep_def by blast+
  have "length (ibs @ fis) = card (unat ` set (ibs @ fis))"
    using distinct_card [OF d] by (simp add: card_image inj_on_def word_unat_eq_iff)
  also have "\<dots> \<le> card {..<1393 :: nat}" using b by (intro card_mono) (auto, force+)
  finally show ?thesis by simp
qed

lemma dat_length:
  assumes "dat_rep ni D dfree c ds fds xs"
  shows "length (ds @ fds) \<le> 200" and "length xs \<le> 102400"
proof -
  have d: "distinct (ds @ fds)" and b: "\<forall>d\<in>set (ds @ fds). unat d < 200" using assms unfolding dat_rep_def by blast+
  have "length (ds @ fds) = card (unat ` set (ds @ fds))"
    using distinct_card [OF d] by (simp add: card_image inj_on_def word_unat_eq_iff)
  also have "\<dots> \<le> card {..<200 :: nat}" using b by (intro card_mono) auto
  finally show "length (ds @ fds) \<le> 200" by simp
  then show "length xs \<le> 102400" using assms unfolding dat_rep_def by auto
qed

subsection \<open>Allocation\<close>

lemma ialloc_rep:
  assumes R: "blocks_rep ni v ibs (x # fis) ds fds xs"
  shows "lfd_ifree (lf_dir (vdata v)) = x" and "unat x < 7 * ni" and "ni \<le> 199" and "x \<notin> set (ibs @ fis)"
    and "blocks_rep ni (ialloc v) ibs fis ds fds xs"
    and "vcb (ialloc v) = vcb v" and "frame_rep ni I B v (ialloc v)" and "vent (ialloc v) = vent v"
    and "lf_dskdev (vdata (ialloc v)) = lf_dskdev (vdata v)"
proof -
  let ?D = "vdisk v" and ?dir = "lf_dir (vdata v)" and ?c = "vcb v"
  have I: "idx_rep ni ?D (ld_ilist (vent v)) (lfd_ifree ?dir) ?c ibs (x # fis) ds"
    and dat: "dat_rep ni ?D (lfd_dfree ?dir) ?c ds fds xs" using R unfolding blocks_rep_def by auto
  show x: "lfd_ifree ?dir = x" "unat x < 7 * ni" "ni \<le> 199" "x \<notin> set (ibs @ fis)" using I unfolding idx_rep_def by auto
  have "idx_rep ni ?D (ld_ilist (vent v)) (ib_next (iget ?D x)) ?c ibs fis ds" using I unfolding idx_rep_def by auto
  then have "idx_rep ni (vdisk (ialloc v)) (ld_ilist (vent v)) (ib_next (iget ?D x)) ?c ibs fis ds"
    unfolding ialloc_def Let_def vdir_sel by (rule idx_write) simp
  moreover have "dat_rep ni (vdisk (ialloc v)) (lfd_dfree ?dir) ?c ds fds xs"
    unfolding ialloc_def Let_def vdir_sel by (rule dat_write [OF dat]) simp
  ultimately show "blocks_rep ni (ialloc v) ibs fis ds fds xs"
    using R x(1) by (simp add: blocks_rep_def ialloc_def Let_def vent_def)
  show "vcb (ialloc v) = vcb v" "vent (ialloc v) = vent v" "lf_dskdev (vdata (ialloc v)) = lf_dskdev (vdata v)"
    by (simp_all add: ialloc_def Let_def vent_def)
  show "frame_rep ni I B v (ialloc v)" unfolding ialloc_def Let_def by (rule frame_vdir [OF x(3)]) simp_all
qed

lemma dalloc_rep:
  assumes R: "blocks_rep ni v ibs fis ds (y # fds) xs"
  shows "lfd_dfree (lf_dir (vdata v)) = y" and "ni < unat y" "unat y < 200" and "y \<notin> set (ds @ fds)"
    and "blocks_rep ni (dalloc v) ibs fis ds fds xs"
    and "vcb (dalloc v) = vcb v" and "frame_rep ni I B v (dalloc v)"
proof -
  let ?D = "vdisk v" and ?dir = "lf_dir (vdata v)" and ?c = "vcb v"
  have I: "idx_rep ni ?D (ld_ilist (vent v)) (lfd_ifree ?dir) ?c ibs fis ds"
    and dat: "dat_rep ni ?D (lfd_dfree ?dir) ?c ds (y # fds) xs" using R unfolding blocks_rep_def by auto
  show y: "lfd_dfree ?dir = y" "ni < unat y" "unat y < 200" "y \<notin> set (ds @ fds)" using dat unfolding dat_rep_def by auto
  have "dat_rep ni ?D (?D (sint y) 0) ?c ds fds xs" using dat unfolding dat_rep_def by auto
  then have "dat_rep ni (vdisk (dalloc v)) (?D (sint y) 0) ?c ds fds xs"
    unfolding dalloc_def Let_def vdir_sel by (rule dat_write) simp
  moreover have "idx_rep ni (vdisk (dalloc v)) (ld_ilist (vent v)) (lfd_ifree ?dir) ?c ibs fis ds"
    unfolding dalloc_def Let_def vdir_sel by (rule idx_write [OF I]) simp
  ultimately show "blocks_rep ni (dalloc v) ibs fis ds fds xs"
    using R y(1) by (simp add: blocks_rep_def dalloc_def Let_def vent_def)
  show "vcb (dalloc v) = vcb v" by (simp add: dalloc_def Let_def)
  have "ni \<le> 199" using I unfolding idx_rep_def by simp
  then show "frame_rep ni I B v (dalloc v)" unfolding dalloc_def Let_def by (rule frame_vdir) simp_all
qed

subsection \<open>The cached index block\<close>

definition at_index :: "lfview \<Rightarrow> u32 list \<Rightarrow> nat \<Rightarrow> bool" where
  "at_index v ibs k \<longleftrightarrow> k < length ibs \<and> lfinum (vcb v) = ibs ! k \<and> k \<le> unat (lfpos (vcb v)) div 8192"

lemma current_block:
  assumes R: "blocks_rep ni v ibs fis ds fds xs" and k: "k < length ibs" "lfinum (vcb v) = ibs ! k"
  shows "ib_offset (lfiblock (vcb v)) = of_nat (8192 * k)" and "k < 1393"
    and "j < 16 \<Longrightarrow> ib_dba (lfiblock (vcb v)) j = (if 16 * k + j < length ds then ds ! (16 * k + j) else - 1)"
    and "ib_next (lfiblock (vcb v)) = (if Suc k < length ibs then ibs ! Suc k else - 1)"
proof -
  have I: "idx_rep ni (vdisk v) (ld_ilist (vent v)) (lfd_ifree (lf_dir (vdata v))) (vcb v) ibs fis ds"
    using R unfolding blocks_rep_def by simp
  have V: "iview (vdisk v) (vcb v) (ibs ! k) = lfiblock (vcb v)" using k(2) by (simp add: iview_def)
  have "iblocks (iview (vdisk v) (vcb v)) ibs ds" using I unfolding idx_rep_def by simp
  then show "ib_offset (lfiblock (vcb v)) = of_nat (8192 * k)"
    and "j < 16 \<Longrightarrow> ib_dba (lfiblock (vcb v)) j = (if 16 * k + j < length ds then ds ! (16 * k + j) else - 1)"
    using k(1) V unfolding iblocks_def by metis+
  have "chain (\<lambda>ib. ib_next (iview (vdisk v) (vcb v) ib)) (ld_ilist (vent v)) ibs" using I unfolding idx_rep_def by simp
  from chain_nth [OF this k(1)] V show "ib_next (lfiblock (vcb v)) = (if Suc k < length ibs then ibs ! Suc k else - 1)" by simp
  show "k < 1393" using idx_length [OF I] k(1) by simp
qed

lemma ibs_not_null:
  assumes "blocks_rep ni v ibs fis ds fds xs" and "ib \<in> set (ibs @ fis)"
  shows "unat ib < 1393" and "ib \<noteq> - 1"
proof -
  show 1: "unat ib < 1393" using assms ib_bound [of ib ni] unfolding blocks_rep_def idx_rep_def by blast
  show "ib \<noteq> - 1" using valid_not_null [OF 1] .
qed

text \<open>A clean index block may be replaced by another one of the file.\<close>

lemma load_rep:
  assumes R: "blocks_rep ni v ibs fis ds fds xs" and clean: "\<not> lfibdirty (vcb v)" and ib: "ib \<in> set ibs"
  shows "blocks_rep ni (v\<lparr>vcb := (vcb v)\<lparr>lfiblock := iget (vdisk v) ib, lfinum := ib\<rparr>\<rparr>) ibs fis ds fds xs"
proof -
  let ?D = "vdisk v" and ?c = "(vcb v)\<lparr>lfiblock := iget (vdisk v) ib, lfinum := ib\<rparr>"
  have I: "idx_rep ni ?D (ld_ilist (vent v)) (lfd_ifree (lf_dir (vdata v))) (vcb v) ibs fis ds"
    and dat: "dat_rep ni ?D (lfd_dfree (lf_dir (vdata v))) (vcb v) ds fds xs" using R unfolding blocks_rep_def by auto
  have old: "iview ?D (vcb v) x = iget ?D x" if "x \<in> set ibs" for x
    using I clean ibs_not_null(2) [OF R, of x] that unfolding idx_rep_def by (auto simp: iview_def)
  have new: "iview ?D ?c x = iget ?D x" for x by (simp add: iview_def)
  have 1: "chain (\<lambda>x. ib_next (iview ?D ?c x)) (ld_ilist (vent v)) ibs = chain (\<lambda>x. ib_next (iview ?D (vcb v) x)) (ld_ilist (vent v)) ibs"
    by (rule chain_cong) (simp add: old new)
  have 2: "iblocks (iview ?D ?c) ibs ds = iblocks (iview ?D (vcb v)) ibs ds" by (rule iblocks_cong) (simp add: old new)
  have "idx_rep ni ?D (ld_ilist (vent v)) (lfd_ifree (lf_dir (vdata v))) ?c ibs fis ds"
    using I clean ib unfolding idx_rep_def 1 2 by simp
  moreover have "dat_rep ni ?D (lfd_dfree (lf_dir (vdata v))) ?c ds fds xs" using dat dat_cb [of ?c "vcb v"] by simp
  ultimately show ?thesis using R by (simp add: blocks_rep_def vent_def)
qed

text \<open>A new index block becomes the first one of an empty file or follows the last one.\<close>

lemma first_block_rep:
  assumes R: "blocks_rep ni v [] fis ds fds xs" and x: "unat x < 7 * ni" "x \<notin> set fis" and i: "i = lfdirptr (vcb v)"
  shows "blocks_rep ni (v\<lparr>vdata := (vdata v)\<lparr>lf_dir := (lf_dir (vdata v))\<lparr>lfd_files := (lfd_files (lf_dir (vdata v)))
      (i := (lfd_files (lf_dir (vdata v)) i)\<lparr>ld_ilist := x\<rparr>)\<rparr>\<rparr>,
    vcb := (vcb v)\<lparr>lfiblock := lfibclear 0, lfibdirty := True, lfinum := x\<rparr>\<rparr>) [x] fis ds fds xs"
proof -
  let ?c = "(vcb v)\<lparr>lfiblock := lfibclear 0, lfibdirty := True, lfinum := x\<rparr>"
  have I: "idx_rep ni (vdisk v) (ld_ilist (vent v)) (lfd_ifree (lf_dir (vdata v))) (vcb v) [] fis ds"
    and dat: "dat_rep ni (vdisk v) (lfd_dfree (lf_dir (vdata v))) (vcb v) ds fds xs" using R unfolding blocks_rep_def by auto
  have "iblocks (iview (vdisk v) ?c) [x] ds" using I by (simp add: idx_rep_def iblocks_def iview_def lfibclear_def)
  moreover have "chain (\<lambda>ib. ib_next (iview (vdisk v) ?c ib)) x [x]" by (simp add: iview_def lfibclear_def)
  ultimately have "idx_rep ni (vdisk v) x (lfd_ifree (lf_dir (vdata v))) ?c [x] fis ds" using I x by (simp add: idx_rep_def)
  moreover have "dat_rep ni (vdisk v) (lfd_dfree (lf_dir (vdata v))) ?c ds fds xs" using dat dat_cb [of ?c "vcb v"] by simp
  ultimately show ?thesis using R i by (simp add: blocks_rep_def vent_def)
qed

lemma next_block_rep:
  assumes R: "blocks_rep ni v ibs fis ds fds xs" and last: "ibs \<noteq> []" "lfinum (vcb v) = last ibs"
    and x: "unat x < 7 * ni" "x \<notin> set (ibs @ fis)"
  shows "blocks_rep ni (v\<lparr>vdisk := iput (vdisk v) (last ibs) ((lfiblock (vcb v))\<lparr>ib_next := x\<rparr>),
    vcb := (vcb v)\<lparr>lfiblock := lfibclear (ib_offset (lfiblock (vcb v)) + 8192), lfinum := x, lfibdirty := True\<rparr>\<rparr>)
    (ibs @ [x]) fis ds fds xs"
proof -
  define E where "E = iput (vdisk v) (last ibs) ((lfiblock (vcb v))\<lparr>ib_next := x\<rparr>)"
  let ?D = "vdisk v" and ?b = "lfiblock (vcb v)"
  let ?c = "(vcb v)\<lparr>lfiblock := lfibclear (ib_offset ?b + 8192), lfinum := x, lfibdirty := True\<rparr>"
  have I: "idx_rep ni ?D (ld_ilist (vent v)) (lfd_ifree (lf_dir (vdata v))) (vcb v) ibs fis ds"
    and dat: "dat_rep ni ?D (lfd_dfree (lf_dir (vdata v))) (vcb v) ds fds xs" using R unfolding blocks_rep_def by auto
  have l: "last ibs \<in> set ibs" using last(1) by simp
  then have lv: "unat (last ibs) < 7 * ni" "ni \<le> 199" "unat (last ibs) < 1393" "ib_norm ?b"
    using I ibs_not_null(1) [OF R, of "last ibs"] unfolding idx_rep_def by auto
  have dis: "distinct ibs" "last ibs \<notin> set fis" using I l unfolding idx_rep_def by auto
  have Elast: "iget E (last ibs) = ?b\<lparr>ib_next := x\<rparr>" unfolding E_def by (rule iget_iput_same) (simp_all add: lv)
  have Eother: "iget E ib = iget ?D ib" if "ib \<in> set (ibs @ fis)" "ib \<noteq> last ibs" for ib
    unfolding E_def using that ibs_not_null(1) [OF R that(1)] lv by (intro iget_iput_other) auto
  have view: "iview E ?c ib = (if ib = last ibs then ?b\<lparr>ib_next := x\<rparr> else iview ?D (vcb v) ib)" if "ib \<in> set ibs" for ib
  proof (cases "ib = last ibs")
    case True
    then show ?thesis using Elast x that by (auto simp: iview_def)
  next
    case False
    have "ib \<noteq> x" using x that by auto
    then show ?thesis using False Eother [of ib] last(2) that by (simp add: iview_def)
  qed
  have new: "iview E ?c x = lfibclear (ib_offset ?b + 8192)" by (simp add: iview_def)
  have bl: "ib \<in> set (butlast ibs) \<Longrightarrow> ib \<in> set ibs \<and> ib \<noteq> last ibs" for ib
    using dis(1) last(1) by (metis append_butlast_last_id distinct_butlast in_set_butlastD not_distinct_conv_prefix)
  have "chain (\<lambda>ib. ib_next (iview E ?c ib)) (ld_ilist (vent v)) (ibs @ [x])"
  proof (rule chain_snoc)
    show "chain (\<lambda>ib. ib_next (iview ?D (vcb v) ib)) (ld_ilist (vent v)) ibs" using I unfolding idx_rep_def by simp
    show "ib_next (iview E ?c y) = ib_next (iview ?D (vcb v) y)" if "y \<in> set (butlast ibs)" for y
      using view [of y] bl [OF that] by simp
    show "ib_next (iview E ?c (last ibs)) = x" using view [OF l] by simp
    show "ib_next (iview E ?c x) = - 1" unfolding new by (simp add: lfibclear_def)
  qed (rule last(1))
  moreover have "iblocks (iview E ?c) (ibs @ [x]) ds"
  proof -
    have k: "last ibs = ibs ! (length ibs - 1)" using last(1) by (simp add: last_conv_nth)
    have off: "ib_offset ?b = of_nat (8192 * (length ibs - 1))" using current_block(1) [OF R] k last by simp
    have "(of_nat (8192 * (length ibs - 1)) :: u32) + 8192 = of_nat (8192 * (length ibs - 1) + 8192)" by simp
    also have "8192 * (length ibs - 1) + 8192 = 8192 * length ibs" using last(1) by (cases ibs) auto
    finally have off': "ib_offset ?b + 8192 = of_nat (8192 * length ibs)" unfolding off .
    have B: "iview ?D (vcb v) (last ibs) = ?b" using last(2) by (simp add: iview_def)
    have old: "iblocks (iview ?D (vcb v)) ibs ds" and len: "length ds \<le> 16 * length ibs" using I unfolding idx_rep_def by auto
    show ?thesis unfolding iblocks_def
    proof (intro allI impI)
      fix k assume "k < length (ibs @ [x])"
      then consider "k < length ibs" | "k = length ibs" by force
      then show "ib_offset (iview E ?c ((ibs @ [x]) ! k)) = of_nat (8192 * k) \<and>
        (\<forall>j<16. ib_dba (iview E ?c ((ibs @ [x]) ! k)) j = (if 16 * k + j < length ds then ds ! (16 * k + j) else - 1))"
      proof cases
        case 1
        then have "ib_offset (iview E ?c (ibs ! k)) = ib_offset (iview ?D (vcb v) (ibs ! k))"
          "ib_dba (iview E ?c (ibs ! k)) = ib_dba (iview ?D (vcb v) (ibs ! k))"
          using view [of "ibs ! k"] B by auto
        then show ?thesis using old 1 by (simp add: iblocks_def nth_append)
      next
        case 2
        then show ?thesis using new off' len by (simp add: lfibclear_def)
      qed
    qed
  qed
  moreover have "chain (\<lambda>ib. ib_next (iget E ib)) (lfd_ifree (lf_dir (vdata v))) fis =
      chain (\<lambda>ib. ib_next (iget ?D ib)) (lfd_ifree (lf_dir (vdata v))) fis"
    using dis(2) Eother by (intro chain_cong) (metis Un_iff set_append)
  ultimately have "idx_rep ni E (ld_ilist (vent v)) (lfd_ifree (lf_dir (vdata v))) ?c (ibs @ [x]) fis ds"
    using I x unfolding idx_rep_def by auto
  moreover have "dat_rep ni E (lfd_dfree (lf_dir (vdata v))) ?c ds fds xs"
    using dat_iput [OF dat lv(1,2)] dat_cb [of ?c "vcb v"] unfolding E_def by simp
  ultimately show ?thesis using R unfolding E_def by (simp add: blocks_rep_def vent_def)
qed

text \<open>A clean data block may be forgotten.\<close>

lemma forget_data_rep:
  assumes R: "blocks_rep ni v ibs fis ds fds xs" and clean: "\<not> lfdbdirty (vcb v)"
  shows "blocks_rep ni (v\<lparr>vcb := (vcb v)\<lparr>lfdnum := - 1\<rparr>\<rparr>) ibs fis ds fds xs"
proof -
  let ?c = "(vcb v)\<lparr>lfdnum := - 1\<rparr>"
  have I: "idx_rep ni (vdisk v) (ld_ilist (vent v)) (lfd_ifree (lf_dir (vdata v))) (vcb v) ibs fis ds"
    and dat: "dat_rep ni (vdisk v) (lfd_dfree (lf_dir (vdata v))) (vcb v) ds fds xs" using R unfolding blocks_rep_def by auto
  have "ds ! (p div 512) \<noteq> - 1 \<and> - 1 \<noteq> ds ! (p div 512)" if "p < length xs" for p
  proof -
    have "ds ! (p div 512) \<in> set ds" using dat that unfolding dat_rep_def by (intro nth_mem) (auto simp: less_mult_imp_div_less)
    then have "unat (ds ! (p div 512)) < 200" using dat unfolding dat_rep_def by auto
    then have "ds ! (p div 512) \<noteq> - 1" by (intro valid_not_null) simp
    then show ?thesis by metis
  qed
  moreover have "xs ! p = dget (vdisk v) (ds ! (p div 512)) (p mod 512)" if "p < length xs" for p
    using dat clean that unfolding dat_rep_def by (cases "lfdnum (vcb v) = ds ! (p div 512)") (auto simp: dview_def)
  ultimately have "dat_rep ni (vdisk v) (lfd_dfree (lf_dir (vdata v))) ?c ds fds xs"
    using dat clean unfolding dat_rep_def by (simp add: dview_def)
  moreover have "idx_rep ni (vdisk v) (ld_ilist (vent v)) (lfd_ifree (lf_dir (vdata v))) ?c ibs fis ds"
    using I idx_cb [of ?c "vcb v"] by simp
  ultimately show ?thesis using R by (simp add: blocks_rep_def vent_def)
qed

end
