(* ===== verification/File_Load.thy ===== *)
theory File_Load
  imports File_Walk
begin

section \<open>The blocks of a file position are loaded\<close>

definition walk_rep :: "nat \<Rightarrow> lfview \<Rightarrow> u32 list \<Rightarrow> u32 list \<Rightarrow> u32 list \<Rightarrow> u32 list \<Rightarrow> u8 list \<Rightarrow> nat \<Rightarrow> bool" where
  "walk_rep ni v ibs fis ds fds xs k \<longleftrightarrow> blocks_rep ni v ibs fis ds fds xs \<and> at_index v ibs k \<and> \<not> lfdbdirty (vcb v) \<and>
     (lfibdirty (vcb v) \<longrightarrow> k = unat (lfpos (vcb v)) div 8192)"

lemma ldent_view [simp]: "ldent f s = vent (lview f s)"
  by (simp add: ldent_def vent_def)

lemma lruns_ldI:
  "v\<lparr>vdata := (vdata v)\<lparr>lf_dir := (lf_dir (vdata v))\<lparr>lfd_files := (lfd_files (lf_dir (vdata v)))
      (i := h (lfd_files (lf_dir (vdata v)) i))\<rparr>\<rparr>\<rparr> = v' \<Longrightarrow> lruns f (pmodify (upd_ld i h)) v () v'"
  unfolding upd_ld_def upd_dir_def by (rule lruns_lfdI) simp

lemma frame_entry:
  assumes "i = lfdirptr (vcb v)" and "ld_name e = ld_name (lfd_files (lf_dir (vdata v)) i)"
  shows "frame_rep ni I B v (v\<lparr>vdata := (vdata v)\<lparr>lf_dir := (lf_dir (vdata v))\<lparr>lfd_files := (lfd_files (lf_dir (vdata v)))(i := e)\<rparr>\<rparr>\<rparr>)"
  using assms by (simp add: frame_rep_def vent_def)

text \<open>Loading the first index block of a file that has one.\<close>

lemma load_first:
  assumes R: "blocks_rep ni v ibs fis ds fds xs" and clean: "\<not> lfibdirty (vcb v)" "\<not> lfdbdirty (vcb v)" and ne: "ibs \<noteq> []"
  defines "v' \<equiv> v\<lparr>vcb := (vcb v)\<lparr>lfiblock := iget (vdisk v) (ld_ilist (vent v)), lfinum := ld_ilist (vent v)\<rparr>\<rparr>"
  shows "lruns f (pbind (lfibget (devtab d) RAM0 (ld_ilist (vent v))) (\<lambda>ib.
      pmodify (upd_lf f (\<lambda>c. c\<lparr>lfiblock := ib, lfinum := ld_ilist (vent v)\<rparr>)))) v () v'"
    and "walk_rep ni v' ibs fis ds fds xs 0" and "lfpos (vcb v') = lfpos (vcb v)" and "frame_rep ni I B v v'"
proof -
  have h: "ld_ilist (vent v) = hd ibs" using R ne chain_hd unfolding blocks_rep_def idx_rep_def by metis
  then have i: "ld_ilist (vent v) \<in> set ibs" "ld_ilist (vent v) = ibs ! 0" using ne by (simp_all add: hd_conv_nth)
  have b: "unat (ld_ilist (vent v)) < 1393" using ibs_not_null(1) [OF R, of "ld_ilist (vent v)"] i(1) by simp
  show "lruns f (pbind (lfibget (devtab d) RAM0 (ld_ilist (vent v))) (\<lambda>ib.
      pmodify (upd_lf f (\<lambda>c. c\<lparr>lfiblock := ib, lfinum := ld_ilist (vent v)\<rparr>)))) v () v'"
    by (rule lf.vruns_bind [OF lruns_ibget [OF b]]) (rule lruns_lfI, simp add: v'_def)
  show "walk_rep ni v' ibs fis ds fds xs 0"
    using load_rep [OF R clean(1) i(1)] clean ne i(2) by (simp add: walk_rep_def v'_def at_index_def)
  show "lfpos (vcb v') = lfpos (vcb v)" by (simp add: v'_def)
  show "frame_rep ni I B v v'" unfolding v'_def by (rule frame_cb) simp_all
qed

lemma first_rep:
  assumes R: "blocks_rep ni v ibs fis ds fds xs" and clean: "clean v" and pos: "unat (lfpos (vcb v)) \<le> length xs"
    and room: "unat (lfpos (vcb v)) < 8192 * (length ibs + length fis)"
  shows "\<exists>v' ibs' fis' k. lruns f (lfsetup_first (devtab d) f) v () v' \<and> walk_rep ni v' ibs' fis' ds fds xs k \<and>
    ibs' @ fis' = ibs @ fis \<and> lfpos (vcb v') = lfpos (vcb v) \<and> frame_rep ni I B v v'"
proof -
  have cl: "\<not> lfibdirty (vcb v)" "\<not> lfdbdirty (vcb v)" and dev: "lf_dskdev (vdata v) = RAM0"
    using clean R by (auto simp: clean_def blocks_rep_def)
  have I: "idx_rep ni (vdisk v) (ld_ilist (vent v)) (lfd_ifree (lf_dir (vdata v))) (vcb v) ibs fis ds"
    using R unfolding blocks_rep_def by simp
  note start = lf.vruns_read [where g = "\<lambda>v. (vcb v, lf_dskdev (vdata v), vent v)"]
  show ?thesis
  proof (cases "lfinum (vcb v) = - 1")
    case none: True
    show ?thesis
    proof (cases ibs)
      case Nil
      then obtain x fis' where fis: "fis = x # fis'" using room by (cases fis) auto
      have l: "ld_ilist (vent v) = - 1" using I Nil unfolding idx_rep_def by simp
      note a = ialloc_rep [OF R [unfolded fis]]
      define u where "u = ialloc v"
      define v' where "v' = u\<lparr>vdata := (vdata u)\<lparr>lf_dir := (lf_dir (vdata u))\<lparr>lfd_files := (lfd_files (lf_dir (vdata u)))
        (lfdirptr (vcb u) := (lfd_files (lf_dir (vdata u)) (lfdirptr (vcb u)))\<lparr>ld_ilist := x\<rparr>)\<rparr>\<rparr>,
        vcb := (vcb u)\<lparr>lfiblock := lfibclear 0, lfibdirty := True, lfinum := x\<rparr>\<rparr>"
      have run: "lruns f (lfsetup_first (devtab d) f) v () v'"
        unfolding lfsetup_first_def
        apply (rule start, simp)
        apply (simp add: none l)
        apply (rule lf.vruns_bind [OF lruns_iballoc [OF dev]], use a(1,2,3) in simp)
        apply (rule lf.vruns_bind [OF lruns_lf])
        apply (rule lf.vruns_bind [OF lruns_ldI [OF refl]])
        apply (rule lruns_lfI)
        apply (simp add: v'_def u_def a(1,6))
        done
      have "blocks_rep ni v' [x] fis' ds fds xs"
        unfolding v'_def u_def using a(4) by (intro first_block_rep a(5) [unfolded Nil] a(2)) auto
      moreover have "unat (lfpos (vcb v)) = 0"
        using pos R Nil by (auto simp: blocks_rep_def idx_rep_def dat_rep_def)
      ultimately have "walk_rep ni v' [x] fis' ds fds xs 0"
        using cl by (simp add: walk_rep_def at_index_def v'_def u_def a(6))
      moreover have "frame_rep ni I B v v'"
      proof -
        have "frame_rep ni I B u (u\<lparr>vdata := (vdata u)\<lparr>lf_dir := (lf_dir (vdata u))\<lparr>lfd_files := (lfd_files (lf_dir (vdata u)))
          (lfdirptr (vcb u) := (lfd_files (lf_dir (vdata u)) (lfdirptr (vcb u)))\<lparr>ld_ilist := x\<rparr>)\<rparr>\<rparr>\<rparr>)" (is "frame_rep _ _ _ _ ?w")
          by (rule frame_entry) simp_all
        moreover have "frame_rep ni I B ?w v'" using frame_cb [of _ ?w] by (simp add: v'_def)
        ultimately show ?thesis using a(7) unfolding u_def by (blast intro: frame_trans)
      qed
      moreover have "lfpos (vcb v') = lfpos (vcb v)" by (simp add: v'_def u_def a(6))
      ultimately show ?thesis using run fis Nil by (intro exI [of _ v'] exI [of _ "[x]"] exI [of _ fis'] exI [of _ 0]) simp
    next
      case (Cons ib ibs')
      have "ld_ilist (vent v) = ib" using I Cons unfolding idx_rep_def by simp
      then have l: "ld_ilist (vent v) \<noteq> - 1" using ibs_not_null(2) [OF R, of ib] Cons by simp
      note a = load_first [OF R cl]
      have "lruns f (lfsetup_first (devtab d) f) v () (v\<lparr>vcb := (vcb v)\<lparr>lfiblock := iget (vdisk v) (ld_ilist (vent v)), lfinum := ld_ilist (vent v)\<rparr>\<rparr>)"
        unfolding lfsetup_first_def by (rule start, simp) (simp add: none l dev a(1) Cons)
      then show ?thesis using a(2-4) Cons by blast
    qed
  next
    case some: False
    have "lfinum (vcb v) \<in> set ibs" using I some unfolding idx_rep_def by simp
    then obtain k where k: "k < length ibs" "lfinum (vcb v) = ibs ! k" by (metis in_set_conv_nth)
    note c = current_block [OF R k]
    have off: "unat (ib_offset (lfiblock (vcb v))) = 8192 * k" unfolding c(1) by (rule unat_offset [OF c(2)])
    show ?thesis
    proof (cases "lfpos (vcb v) < ib_offset (lfiblock (vcb v))")
      case True
      have ne: "ibs \<noteq> []" using k(1) by auto
      note a = load_first [OF R cl ne]
      have "lruns f (lfsetup_first (devtab d) f) v () (v\<lparr>vcb := (vcb v)\<lparr>lfiblock := iget (vdisk v) (ld_ilist (vent v)), lfinum := ld_ilist (vent v)\<rparr>\<rparr>)"
        unfolding lfsetup_first_def by (rule start, simp) (simp add: some True dev a(1))
      then show ?thesis using a(2-4) by blast
    next
      case False
      then have "k \<le> unat (lfpos (vcb v)) div 8192" using off by (simp add: word_less_nat_alt)
      then have "walk_rep ni v ibs fis ds fds xs k" using R cl k by (simp add: walk_rep_def at_index_def)
      moreover have "lruns f (lfsetup_first (devtab d) f) v () v"
        unfolding lfsetup_first_def by (rule start, simp) (simp add: some False lf.vruns_Ret)
      ultimately show ?thesis using frame_refl by blast
    qed
  qed
qed

text \<open>One round of the walk: the next index block is loaded, or allocated at the end of the file.\<close>

definition next_index :: "'a lfstate_t_scheme devtab_t \<Rightarrow> int \<Rightarrow> lflcblk \<Rightarrow> int \<Rightarrow> ('a lfstate_t_scheme, unit) prog" where
  "next_index dt f cb disk =
     (if ib_next (lfiblock cb) = LF_INULL then
        pbind (lfiballoc dt) (\<lambda>ibnum.
        pbind (pmodify (upd_lf f (\<lambda>c. c\<lparr>lfiblock := (lfiblock c)\<lparr>ib_next := ibnum\<rparr>\<rparr>))) (\<lambda>_.
        pbind (pgets (\<lambda>s. lfltab s f)) (\<lambda>cb.
        pbind (lfibput dt disk (lfinum cb) (lfiblock cb)) (\<lambda>_.
        pmodify (upd_lf f (\<lambda>c. c\<lparr>lfinum := ibnum, lfiblock := lfibclear (ib_offset (lfiblock c) + LF_IDATA),
          lfibdirty := True\<rparr>))))))
      else
        pbind (lfibget dt disk (ib_next (lfiblock cb))) (\<lambda>ib.
        pmodify (upd_lf f (\<lambda>c. c\<lparr>lfiblock := ib, lfinum := ib_next (lfiblock cb)\<rparr>))))"

lemma next_load:
  assumes W: "walk_rep ni v ibs fis ds fds xs k" and lt: "k < unat (lfpos (vcb v)) div 8192" and more: "Suc k < length ibs"
  shows "\<exists>v'. lruns f (next_index (devtab d) f (vcb v) RAM0) v () v' \<and> walk_rep ni v' ibs fis ds fds xs (Suc k) \<and>
    lfpos (vcb v') = lfpos (vcb v) \<and> frame_rep ni I B v v'"
proof -
  have R: "blocks_rep ni v ibs fis ds fds xs" and k: "k < length ibs" "lfinum (vcb v) = ibs ! k"
    and cl: "\<not> lfibdirty (vcb v)" "\<not> lfdbdirty (vcb v)" using W lt unfolding walk_rep_def at_index_def by auto
  have n: "ib_next (lfiblock (vcb v)) = ibs ! Suc k" using current_block(4) [OF R k] more by simp
  have i: "ibs ! Suc k \<in> set ibs" using more by simp
  then have b: "unat (ibs ! Suc k) < 1393" "ibs ! Suc k \<noteq> - 1" using ibs_not_null [OF R, of "ibs ! Suc k"] by auto
  let ?v = "v\<lparr>vcb := (vcb v)\<lparr>lfiblock := iget (vdisk v) (ibs ! Suc k), lfinum := ibs ! Suc k\<rparr>\<rparr>"
  have "lruns f (next_index (devtab d) f (vcb v) RAM0) v () ?v"
    unfolding next_index_def n using b(2) by simp (rule lf.vruns_bind [OF lruns_ibget [OF b(1)]], rule lruns_lfI, simp)
  moreover have "walk_rep ni ?v ibs fis ds fds xs (Suc k)"
    using load_rep [OF R cl(1) i] cl lt more by (simp add: walk_rep_def at_index_def)
  moreover have "frame_rep ni I B v ?v" by (rule frame_cb) simp_all
  ultimately show ?thesis by fastforce
qed

lemma next_alloc:
  assumes W: "walk_rep ni v ibs fis ds fds xs k" and lt: "k < unat (lfpos (vcb v)) div 8192" and last: "Suc k = length ibs"
    and pos: "unat (lfpos (vcb v)) \<le> length xs" and fis: "fis = x # fis'" and sub: "set ibs \<subseteq> I"
  shows "\<exists>v'. lruns f (next_index (devtab d) f (vcb v) RAM0) v () v' \<and> walk_rep ni v' (ibs @ [x]) fis' ds fds xs (Suc k) \<and>
    lfpos (vcb v') = lfpos (vcb v) \<and> frame_rep ni I B v v'"
proof -
  have R: "blocks_rep ni v ibs fis ds fds xs" and k: "k < length ibs" "lfinum (vcb v) = ibs ! k"
    and cl: "\<not> lfibdirty (vcb v)" "\<not> lfdbdirty (vcb v)" using W lt unfolding walk_rep_def at_index_def by auto
  have dev: "lf_dskdev (vdata v) = RAM0" using R by (simp add: blocks_rep_def)
  have n: "ib_next (lfiblock (vcb v)) = - 1" using current_block(4) [OF R k] last by simp
  note a = ialloc_rep [OF R [unfolded fis]]
  have ne: "ibs \<noteq> []" using k(1) by auto
  have "length ibs - 1 = k" using last by simp
  then have l: "ibs \<noteq> []" "List.last ibs = ibs ! k" using last_conv_nth [OF ne] ne by simp_all
  have lI: "List.last ibs \<in> I" "unat (List.last ibs) < 7 * ni"
  proof -
    have "List.last ibs \<in> set ibs" using l(1) by simp
    then show "List.last ibs \<in> I" "unat (List.last ibs) < 7 * ni" using sub R unfolding blocks_rep_def idx_rep_def by auto
  qed
  let ?u = "ialloc v" and ?b = "(lfiblock (vcb v))\<lparr>ib_next := x\<rparr>"
  let ?v = "?u\<lparr>vdisk := iput (vdisk ?u) (List.last ibs) ?b,
    vcb := (vcb v)\<lparr>lfiblock := lfibclear (ib_offset (lfiblock (vcb v)) + 8192), lfinum := x, lfibdirty := True\<rparr>\<rparr>"
  have "lruns f (next_index (devtab d) f (vcb v) RAM0) v () ?v"
    unfolding next_index_def n
    apply simp
    apply (rule lf.vruns_bind [OF lruns_iballoc [OF dev]], use a(1,2,3) in simp)
    apply (rule lf.vruns_bind [OF lruns_lf])
    apply (rule lf.vruns_read [where g = vcb], simp)
    apply (rule lf.vruns_bind [OF lruns_ibput])
    apply (rule lruns_lfI)
    apply (simp add: a(1,6) k(2) l(2))
    done
  moreover have "blocks_rep ni ?v (ibs @ [x]) fis' ds fds xs"
    using next_block_rep [OF a(5) l(1) _ a(2,4)] k(2) l(2) by (simp add: a(6))
  moreover have "unat (lfpos (vcb v)) div 8192 = Suc k"
  proof -
    have "length xs \<le> 512 * length ds" "length ds \<le> 16 * length ibs" using R by (auto simp: blocks_rep_def dat_rep_def idx_rep_def)
    then have "length xs \<le> 8192 * Suc k" unfolding last by linarith
    then have "unat (lfpos (vcb v)) \<le> 8192 * Suc k" using pos by (rule le_trans [rotated])
    then have "unat (lfpos (vcb v)) div 8192 \<le> Suc k" using div_le_mono [of "unat (lfpos (vcb v))" "8192 * Suc k" 8192] by simp
    then show ?thesis using lt by simp
  qed
  moreover have "frame_rep ni I B v ?v"
  proof -
    have "frame_rep ni I B ?u (?u\<lparr>vdisk := iput (vdisk ?u) (List.last ibs) ?b\<rparr>)" (is "frame_rep _ _ _ _ ?w")
      by (rule frame_iput) (use a(3) lI in auto)
    moreover have "frame_rep ni I B ?w (?w\<lparr>vcb := (vcb v)\<lparr>lfiblock := lfibclear (ib_offset (lfiblock (vcb v)) + 8192), lfinum := x,
        lfibdirty := True\<rparr>\<rparr>)"
      by (rule frame_cb) (simp_all add: a(6))
    ultimately show ?thesis by (rule frame_trans [OF frame_trans [OF a(7)]])
  qed
  ultimately show ?thesis using cl(2) last
    by (intro exI [of _ ?v]) (simp add: walk_rep_def at_index_def)
qed

lemma lfsetup_walk_step:
  "lfsetup_walk dt f (Suc fuel) =
     pbind (pgets (\<lambda>s. (lfltab s f, lf_dskdev (lf_data s)))) (\<lambda>(cb, disk).
     if lfpos cb AND NOT LF_IMASK > ib_offset (lfiblock cb) then
       pbind (next_index dt f cb disk) (\<lambda>_.
       pbind (pmodify (upd_lf f (\<lambda>c. c\<lparr>lfdnum := LF_DNULL\<rparr>))) (\<lambda>_.
       lfsetup_walk dt f fuel))
     else Ret ())"
  by (simp add: next_index_def cong: if_cong)

lemma walk_runs:
  assumes "walk_rep ni v ibs fis ds fds xs k" and "unat (lfpos (vcb v)) \<le> length xs"
    and "unat (lfpos (vcb v)) < 8192 * (length ibs + length fis)" and "unat (lfpos (vcb v)) div 8192 - k < fuel"
    and "set (ibs @ fis) \<subseteq> I"
  shows "\<exists>v' ibs' fis'. lruns f (lfsetup_walk (devtab d) f fuel) v () v' \<and>
    walk_rep ni v' ibs' fis' ds fds xs (unat (lfpos (vcb v)) div 8192) \<and>
    ibs' @ fis' = ibs @ fis \<and> lfpos (vcb v') = lfpos (vcb v) \<and> frame_rep ni I B v v'"
  using assms
proof (induction fuel arbitrary: v ibs fis k)
  case (Suc fuel)
  let ?q = "unat (lfpos (vcb v)) div 8192"
  have R: "blocks_rep ni v ibs fis ds fds xs" and k: "k < length ibs" "lfinum (vcb v) = ibs ! k" "k \<le> ?q"
    using Suc.prems(1) unfolding walk_rep_def at_index_def by auto
  have dev: "lf_dskdev (vdata v) = RAM0" using R by (simp add: blocks_rep_def)
  have off: "unat (ib_offset (lfiblock (vcb v))) = 8192 * k"
    unfolding current_block(1) [OF R k(1,2)] by (rule unat_offset [OF current_block(2) [OF R k(1,2)]])
  have cond: "ib_offset (lfiblock (vcb v)) < lfpos (vcb v) AND - 8192 \<longleftrightarrow> k < ?q"
    using off unat_and_not_imask [of "lfpos (vcb v)"] by (simp add: word_less_nat_alt)
  note start = lf.vruns_read [where g = "\<lambda>v. (vcb v, lf_dskdev (vdata v))"]
  show ?case
  proof (cases "k < ?q")
    case False
    then have "lruns f (lfsetup_walk (devtab d) f (Suc fuel)) v () v"
      unfolding lfsetup_walk_step by (intro start) (simp_all add: cond dev lf.vruns_Ret)
    moreover have "k = ?q" using False k(3) by simp
    ultimately show ?thesis using Suc.prems(1) frame_refl by blast
  next
    case True
    obtain u ibs' fis' where u: "lruns f (next_index (devtab d) f (vcb v) RAM0) v () u" "walk_rep ni u ibs' fis' ds fds xs (Suc k)"
      "lfpos (vcb u) = lfpos (vcb v)" "frame_rep ni I B v u" "ibs' @ fis' = ibs @ fis"
    proof (cases "Suc k < length ibs")
      case more: True
      from next_load [OF Suc.prems(1) True more] show ?thesis using that by blast
    next
      case False
      then have last: "Suc k = length ibs" using k(1) by simp
      have "8192 * ?q \<le> unat (lfpos (vcb v))" by simp
      then have "8192 * length ibs \<le> unat (lfpos (vcb v))" using True last by linarith
      then obtain x fis' where fis: "fis = x # fis'" using Suc.prems(3) by (cases fis) auto
      have "set ibs \<subseteq> I" using Suc.prems(5) by simp
      from next_alloc [OF Suc.prems(1) True last Suc.prems(2) fis this] show ?thesis using that fis by fastforce
    qed
    let ?w = "u\<lparr>vcb := (vcb u)\<lparr>lfdnum := - 1\<rparr>\<rparr>"
    have w: "walk_rep ni ?w ibs' fis' ds fds xs (Suc k)"
      using u(2) forget_data_rep [of ni u ibs' fis' ds fds xs] by (simp add: walk_rep_def at_index_def)
    have len: "length ibs' + length fis' = length ibs + length fis" using arg_cong [OF u(5), of length] by simp
    have sub: "set (ibs' @ fis') \<subseteq> I" unfolding u(5) by (rule Suc.prems(5))
    have fu: "?q - Suc k < fuel" using Suc.prems(4) True by linarith
    obtain v' ibs'' fis'' where v': "lruns f (lfsetup_walk (devtab d) f fuel) ?w () v'"
      "walk_rep ni v' ibs'' fis'' ds fds xs ?q" "ibs'' @ fis'' = ibs' @ fis'" "lfpos (vcb v') = lfpos (vcb v)" "frame_rep ni I B ?w v'"
      using Suc.IH [OF w _ _ _ sub] Suc.prems(2,3) u(3) len fu by auto
    have "lruns f (lfsetup_walk (devtab d) f (Suc fuel)) v () v'"
      unfolding lfsetup_walk_step
      apply (rule start, simp)
      apply (simp add: cond True dev)
      apply (rule lf.vruns_bind [OF u(1)])
      apply (rule lf.vruns_bind [OF lruns_lf])
      apply (rule v'(1))
      done
    moreover have "frame_rep ni I B v v'"
    proof -
      have "frame_rep ni I B u ?w" by (rule frame_cb) simp_all
      then show ?thesis using u(4) v'(5) frame_trans by blast
    qed
    ultimately show ?thesis using v'(2-4) u(5) by metis
  qed
qed simp

subsection \<open>The data block\<close>

lemma clean_data:
  assumes R: "blocks_rep ni v ibs fis ds fds xs" and clean: "\<not> lfdbdirty (vcb v)" and p: "p < length xs"
  shows "xs ! p = dget (vdisk v) (ds ! (p div 512)) (p mod 512)" and "ds ! (p div 512) \<in> set ds"
proof -
  have dat: "dat_rep ni (vdisk v) (lfd_dfree (lf_dir (vdata v))) (vcb v) ds fds xs" using R by (simp add: blocks_rep_def)
  then show "xs ! p = dget (vdisk v) (ds ! (p div 512)) (p mod 512)"
    using clean p unfolding dat_rep_def by (cases "lfdnum (vcb v) = ds ! (p div 512)") (auto simp: dview_def)
  show "ds ! (p div 512) \<in> set ds" using dat p unfolding dat_rep_def by (intro nth_mem) (auto simp: less_mult_imp_div_less)
qed

text \<open>A clean data block may be replaced by another one of the file.\<close>

lemma load_data_rep:
  assumes R: "blocks_rep ni v ibs fis ds fds xs" and clean: "\<not> lfdbdirty (vcb v)" and y: "y \<in> set ds"
    and blk: "\<And>i. i < 512 \<Longrightarrow> b i = dget (vdisk v) y i"
  shows "blocks_rep ni (v\<lparr>vcb := (vcb v)\<lparr>lfdblock := b, lfdbdirty := False, lfdnum := y\<rparr>\<rparr>) ibs fis ds fds xs"
proof -
  let ?c = "(vcb v)\<lparr>lfdblock := b, lfdbdirty := False, lfdnum := y\<rparr>"
  have dat: "dat_rep ni (vdisk v) (lfd_dfree (lf_dir (vdata v))) (vcb v) ds fds xs" using R by (simp add: blocks_rep_def)
  have "xs ! p = dview (vdisk v) ?c (ds ! (p div 512)) (p mod 512)" if "p < length xs" for p
    using clean_data(1) [OF R clean that] blk [of "p mod 512"] by (cases "ds ! (p div 512) = y") (simp_all add: dview_def)
  moreover have "dget (vdisk v) (ds ! (p div 512)) (p mod 512) = b (p mod 512)" if "y = ds ! (p div 512)" for p
    using blk [of "p mod 512"] that by simp
  ultimately have "dat_rep ni (vdisk v) (lfd_dfree (lf_dir (vdata v))) ?c ds fds xs"
    using dat clean y unfolding dat_rep_def by simp
  moreover have "idx_rep ni (vdisk v) (ld_ilist (vent v)) (lfd_ifree (lf_dir (vdata v))) ?c ibs fis ds"
    using R idx_cb [of ?c "vcb v"] by (simp add: blocks_rep_def)
  ultimately show ?thesis using R by (simp add: blocks_rep_def vent_def)
qed

text \<open>A new data block follows the last one.\<close>

lemma next_data_rep:
  assumes R: "blocks_rep ni v ibs fis ds fds xs" and clean: "\<not> lfdbdirty (vcb v)"
    and k: "k < length ibs" "lfinum (vcb v) = ibs ! k" and j: "j < 16" "16 * k + j = length ds"
    and y: "ni < unat y" "unat y < 200" "y \<notin> set (ds @ fds)"
  shows "blocks_rep ni (v\<lparr>vcb := (vcb v)\<lparr>lfdblock := b, lfiblock := (lfiblock (vcb v))\<lparr>ib_dba := (ib_dba (lfiblock (vcb v)))(j := y)\<rparr>,
    lfibdirty := True, lfdnum := y\<rparr>\<rparr>) ibs fis (ds @ [y]) fds xs"
proof -
  let ?D = "vdisk v" and ?b = "(lfiblock (vcb v))\<lparr>ib_dba := (ib_dba (lfiblock (vcb v)))(j := y)\<rparr>"
  let ?c = "(vcb v)\<lparr>lfdblock := b, lfiblock := ?b, lfibdirty := True, lfdnum := y\<rparr>"
  have I: "idx_rep ni ?D (ld_ilist (vent v)) (lfd_ifree (lf_dir (vdata v))) (vcb v) ibs fis ds"
    and dat: "dat_rep ni ?D (lfd_dfree (lf_dir (vdata v))) (vcb v) ds fds xs" using R unfolding blocks_rep_def by auto
  have view: "iview ?D ?c ib = (if ib = ibs ! k then ?b else iview ?D (vcb v) ib)" for ib using k(2) by (simp add: iview_def)
  have B: "iview ?D (vcb v) (ibs ! k) = lfiblock (vcb v)" using k(2) by (simp add: iview_def)
  have dist: "distinct ibs" using I unfolding idx_rep_def by simp
  have 1: "chain (\<lambda>ib. ib_next (iview ?D ?c ib)) (ld_ilist (vent v)) ibs = chain (\<lambda>ib. ib_next (iview ?D (vcb v) ib)) (ld_ilist (vent v)) ibs"
    by (rule chain_cong) (auto simp: view B)
  have old: "iblocks (iview ?D (vcb v)) ibs ds" using I unfolding idx_rep_def by simp
  have new: "iblocks (iview ?D ?c) ibs (ds @ [y])" unfolding iblocks_def
  proof (intro allI impI)
    fix m assume m: "m < length ibs"
    have is_k: "ibs ! m = ibs ! k \<longleftrightarrow> m = k" using dist m k(1) nth_eq_iff_index_eq by blast
    have eq: "16 * m + i = length ds \<longleftrightarrow> m = k \<and> i = j" if "i < 16" for i
    proof -
      have "(16 * m + i) div 16 = m" "(16 * m + i) mod 16 = i" using that by simp_all
      moreover have "(16 * k + j) div 16 = k" "(16 * k + j) mod 16 = j" using j(1) by simp_all
      ultimately show ?thesis using j(2) by metis
    qed
    have L: "(if n < length (ds @ [y]) then (ds @ [y]) ! n else - 1) =
      (if n = length ds then y else if n < length ds then ds ! n else - 1)" for n
      by (simp add: nth_append)
    have o: "ib_offset (iview ?D (vcb v) (ibs ! m)) = of_nat (8192 * m)" using old m unfolding iblocks_def by blast
    have d: "ib_dba (iview ?D (vcb v) (ibs ! m)) i = (if 16 * m + i < length ds then ds ! (16 * m + i) else - 1)" if "i < 16" for i
      using old m that unfolding iblocks_def by blast
    show "ib_offset (iview ?D ?c (ibs ! m)) = of_nat (8192 * m) \<and>
      (\<forall>i<16. ib_dba (iview ?D ?c (ibs ! m)) i = (if 16 * m + i < length (ds @ [y]) then (ds @ [y]) ! (16 * m + i) else - 1))"
      unfolding L
    proof (cases "m = k")
      case True
      then have V: "iview ?D ?c (ibs ! m) = ?b" and O: "iview ?D (vcb v) (ibs ! m) = lfiblock (vcb v)" using view B by simp_all
      show "ib_offset (iview ?D ?c (ibs ! m)) = of_nat (8192 * m) \<and>
        (\<forall>i<16. ib_dba (iview ?D ?c (ibs ! m)) i = (if 16 * m + i = length ds then y
          else if 16 * m + i < length ds then ds ! (16 * m + i) else - 1))"
        unfolding V using o d eq True unfolding O by simp
    next
      case False
      then have V: "iview ?D ?c (ibs ! m) = iview ?D (vcb v) (ibs ! m)" using view is_k by simp
      show "ib_offset (iview ?D ?c (ibs ! m)) = of_nat (8192 * m) \<and>
        (\<forall>i<16. ib_dba (iview ?D ?c (ibs ! m)) i = (if 16 * m + i = length ds then y
          else if 16 * m + i < length ds then ds ! (16 * m + i) else - 1))"
        unfolding V using o d eq False by simp
    qed
  qed
  have "length (ds @ [y]) \<le> 16 * length ibs" using j k(1) by simp
  then have "idx_rep ni ?D (ld_ilist (vent v)) (lfd_ifree (lf_dir (vdata v))) ?c ibs fis (ds @ [y])"
    using I new k j(1) unfolding idx_rep_def 1 by simp
  moreover have "dat_rep ni ?D (lfd_dfree (lf_dir (vdata v))) ?c (ds @ [y]) fds xs"
  proof -
    have "(ds @ [y]) ! (p div 512) = ds ! (p div 512)" "ds ! (p div 512) \<noteq> y" "y \<noteq> ds ! (p div 512)" if "p < length xs" for p
    proof -
      have "p div 512 < length ds" using dat that unfolding dat_rep_def by (simp add: less_mult_imp_div_less)
      then show "(ds @ [y]) ! (p div 512) = ds ! (p div 512)" by (simp add: nth_append)
      show "ds ! (p div 512) \<noteq> y" "y \<noteq> ds ! (p div 512)" using clean_data(2) [OF R clean that] y(3) by auto
    qed
    then show ?thesis using dat clean y clean_data(1) [OF R clean] unfolding dat_rep_def by (auto simp: dview_def)
  qed
  ultimately show ?thesis using R by (simp add: blocks_rep_def vent_def)
qed

lemma block_index: "16 * (n div 8192) + n mod 8192 div 512 = n div 512" "n mod 8192 div 512 < 16" for n :: nat
proof -
  have "n div 8192 = n div 512 div 16" using div_mult2_eq [of n 512 16] by simp
  moreover have "n mod 8192 = 512 * (n div 512 mod 16) + n mod 512" using mod_mult2_eq [of n 512 16] by simp
  then have "n mod 8192 div 512 = n div 512 mod 16" by simp
  ultimately show "16 * (n div 8192) + n mod 8192 div 512 = n div 512" "n mod 8192 div 512 < 16" by simp_all
qed

text \<open>The block of the position is loaded; \<open>lfbyte\<close> points to the byte.\<close>

lemma block_runs:
  assumes W: "walk_rep ni v ibs fis ds fds xs (unat (lfpos (vcb v)) div 8192)" and pos: "unat (lfpos (vcb v)) \<le> length xs"
    and room: "unat (lfpos (vcb v)) < 512 * (length ds + length fds)"
  shows "\<exists>v' ds' fds'. lruns f (lfsetup_block (devtab d) f) v () v' \<and> blocks_rep ni v' ibs fis ds' fds' xs \<and>
    pos_rep (vcb v') ds' xs \<and> lfbyte (vcb v') < 512 \<and> ds' @ fds' = ds @ fds \<and> lfpos (vcb v') = lfpos (vcb v) \<and> frame_rep ni I B v v'"
proof -
  define q k j where "q = unat (lfpos (vcb v)) div 512" and "k = unat (lfpos (vcb v)) div 8192" and "j = unat (lfpos (vcb v)) mod 8192 div 512"
  have q: "16 * k + j = q" "j < 16" unfolding q_def k_def j_def by (rule block_index)+
  have R: "blocks_rep ni v ibs fis ds fds xs" and k: "k < length ibs" "lfinum (vcb v) = ibs ! k" and clean: "\<not> lfdbdirty (vcb v)"
    using W unfolding walk_rep_def at_index_def k_def by auto
  have dev: "lf_dskdev (vdata v) = RAM0" and dat: "dat_rep ni (vdisk v) (lfd_dfree (lf_dir (vdata v))) (vcb v) ds fds xs"
    using R by (auto simp: blocks_rep_def)
  have dba: "ib_dba (lfiblock (vcb v)) j = (if q < length ds then ds ! q else - 1)" using current_block(3) [OF R k q(2)] q(1) by simp
  note start = lf.vruns_read [where g = "\<lambda>v. (vcb v, lf_dskdev (vdata v))"]
  let ?b = "unat (lfpos (vcb v)) mod 512"
  have byte: "unat (lfpos (vcb v) AND LF_DMASK) = ?b" by (rule unat_and_dmask)
  have P: "pos_rep ((vcb u)\<lparr>lfdnum := y, lfbyte := ?b\<rparr>) es xs"
    if "lfpos (vcb u) = lfpos (vcb v)" "q < length es" "es ! q = y" for u y es
    using that pos by (simp add: pos_rep_def q_def)
  show ?thesis
  proof (cases "q < length ds")
    case in_file: True
    have y: "ds ! q \<in> set ds" using in_file by simp
    then have "unat (ds ! q) < 200" using dat unfolding dat_rep_def by auto
    then have nn: "ds ! q \<noteq> - 1" by (intro valid_not_null) simp
    obtain u where u: "lruns f (if ds ! q \<noteq> lfdnum (vcb v) then
          pbind (read_dev (devtab d) RAM0 (bytes_word (lfdblock (vcb v))) (ds ! q)) (\<lambda>(_, buf).
          pbind (pmodify (upd_lf f (\<lambda>c. c\<lparr>lfdblock := word_byte buf, lfdbdirty := False\<rparr>))) (\<lambda>_. Ret (ds ! q)))
        else Ret (ds ! q)) v (ds ! q) u"
      "blocks_rep ni (u\<lparr>vcb := (vcb u)\<lparr>lfdnum := ds ! q\<rparr>\<rparr>) ibs fis ds fds xs" "lfpos (vcb u) = lfpos (vcb v)" "frame_rep ni I B v u"
    proof (cases "ds ! q = lfdnum (vcb v)")
      case True
      then show thesis using that [of v] R by (simp add: lf.vruns_Ret)
    next
      case False
      define b where "b = word_byte (\<lambda>i. if i < 128 then vdisk v (sint (ds ! q)) i else bytes_word (lfdblock (vcb v)) i)"
      let ?u = "v\<lparr>vcb := (vcb v)\<lparr>lfdblock := b, lfdbdirty := False\<rparr>\<rparr>"
      have "lruns f (pbind (read_dev (devtab d) RAM0 (bytes_word (lfdblock (vcb v))) (ds ! q)) (\<lambda>(_, buf).
          pbind (pmodify (upd_lf f (\<lambda>c. c\<lparr>lfdblock := word_byte buf, lfdbdirty := False\<rparr>))) (\<lambda>_. Ret (ds ! q)))) v (ds ! q) ?u"
        by (rule lf.vruns_bind [OF lruns_read], simp, rule lf.vruns_bind [OF lruns_lf]) (rule lruns_RetI, simp add: b_def)
      moreover have "b i = dget (vdisk v) (ds ! q) i" if "i < 512" for i
        using that less_mult_imp_div_less [of i 128 4] by (simp add: b_def dget_def word_byte_def)
      then have "blocks_rep ni (?u\<lparr>vcb := (vcb ?u)\<lparr>lfdnum := ds ! q\<rparr>\<rparr>) ibs fis ds fds xs"
        using load_data_rep [OF R clean y, of b] by simp
      moreover have "frame_rep ni I B v ?u" by (rule frame_cb) simp_all
      ultimately show thesis using that [of ?u] False by simp
    qed
    let ?v = "u\<lparr>vcb := (vcb u)\<lparr>lfdnum := ds ! q, lfbyte := ?b\<rparr>\<rparr>"
    have "lruns f (lfsetup_block (devtab d) f) v () ?v"
      unfolding lfsetup_block_def
      apply (rule start, simp)
      apply (simp only: prod.case Let_def unat_dindex j_def [symmetric])
      apply (simp add: dba in_file nn dev cong: if_cong split del: if_split)
      apply (rule lf.vruns_bind [OF u(1)])
      apply (rule lruns_lfI)
      apply (simp add: u(3) byte)
      done
    moreover have "blocks_rep ni ?v ibs fis ds fds xs"
      using u(2) idx_cb [of "vcb ?v" "(vcb u)\<lparr>lfdnum := ds ! q\<rparr>"] dat_cb [of "vcb ?v" "(vcb u)\<lparr>lfdnum := ds ! q\<rparr>"]
      by (simp add: blocks_rep_def vent_def)
    moreover have "frame_rep ni I B u ?v" by (rule frame_cb) simp_all
    ultimately show ?thesis using P [of u ds "ds ! q"] u(3,4) in_file frame_trans [OF u(4)] by fastforce
  next
    case False
    have "512 * q \<le> unat (lfpos (vcb v))" unfolding q_def by simp
    then have "512 * q \<le> 512 * length ds" using pos dat unfolding dat_rep_def by linarith
    then have eq: "q = length ds" using False by simp
    obtain y fds' where fds: "fds = y # fds'" using room eq by (cases fds) (auto simp: q_def less_mult_imp_div_less)
    note a = dalloc_rep [OF R [unfolded fds]]
    have nn: "y \<noteq> - 1" by (rule valid_not_null) (use a(3) in simp)
    obtain buf where run: "lruns f (lfdballoc (devtab d) (lfdblock (vcb v))) v (y, buf) (dalloc v)"
      using lruns_dballoc [OF dev, where f = f and b = "lfdblock (vcb v)"] nn a(1) by blast
    let ?u = "(dalloc v)\<lparr>vcb := (vcb v)\<lparr>lfdblock := buf, lfiblock := (lfiblock (vcb v))\<lparr>ib_dba := (ib_dba (lfiblock (vcb v)))(j := y)\<rparr>,
      lfibdirty := True, lfdnum := y\<rparr>\<rparr>"
    let ?v = "?u\<lparr>vcb := (vcb ?u)\<lparr>lfbyte := ?b\<rparr>\<rparr>"
    have "lruns f (lfsetup_block (devtab d) f) v () ?v"
      unfolding lfsetup_block_def
      apply (rule start, simp)
      apply (simp only: prod.case Let_def unat_dindex j_def [symmetric])
      apply (simp add: dba False dev cong: if_cong split del: if_split)
      apply (rule lf.vruns_bind)
       apply (rule lf.vruns_bind [OF run], simp)
       apply (rule lf.vruns_bind [OF lruns_lf])
       apply (rule lf.vruns_Ret)
      apply (rule lruns_lfI)
      apply (simp add: a(6) byte)
      done
    moreover have "blocks_rep ni ?u ibs fis (ds @ [y]) fds' xs"
      using next_data_rep [OF a(5) _ k(1) _ q(2) _ a(2,3,4), of buf] q(1) eq clean k(2) by (simp add: a(6))
    then have "blocks_rep ni ?v ibs fis (ds @ [y]) fds' xs"
      using idx_cb [of "vcb ?v" "vcb ?u"] dat_cb [of "vcb ?v" "vcb ?u"] by (simp add: blocks_rep_def vent_def)
    moreover have "pos_rep (vcb ?v) (ds @ [y]) xs" using pos eq by (simp add: pos_rep_def q_def)
    moreover have "frame_rep ni I B (dalloc v) ?u" "frame_rep ni I B ?u ?v" by (rule frame_cb; simp add: a(6))+
    then have "frame_rep ni I B v ?v" using a(7) frame_trans by blast
    ultimately show ?thesis using fds by (intro exI [of _ ?v] exI [of _ "ds @ [y]"] exI [of _ fds']) simp
  qed
qed

end
