(* ===== verification/File_Ops.thy ===== *)
theory File_Ops
  imports File_Load
begin

section \<open>Reading and writing bytes of a file\<close>

subsection \<open>The mutexes\<close>

definition vfree :: "lfview \<Rightarrow> sid32 \<Rightarrow> bool" where
  "vfree v m \<longleftrightarrow> 0 \<le> m \<and> m < NSEM \<and> sstate (vsem v m) = S_USED \<and> 0 < scount (vsem v m)"

definition vlock :: "sid32 \<Rightarrow> lfview \<Rightarrow> lfview" where
  "vlock m v = v\<lparr>vsem := (vsem v)(m := (vsem v m)\<lparr>scount := scount (vsem v m) - 1\<rparr>)\<rparr>"

lemma vlock_sel [simp]:
  "vdisk (vlock m v) = vdisk v" "vdata (vlock m v) = vdata v" "vcb (vlock m v) = vcb v" "vstack (vlock m v) = vstack v" "vent (vlock m v) = vent v"
  by (simp_all add: vlock_def vent_def)

lemma vfree_vlock: "m' \<noteq> m \<Longrightarrow> vfree (vlock m v) m' = vfree v m'"
  by (simp add: vfree_def vlock_def)

lemma lruns_wait:
  assumes "vfree v m"
  shows "lruns f (pcall (wait m)) v OK (vlock m v)"
  unfolding vruns_def
proof (intro allI impI)
  fix s :: "'a lfstate_t_scheme" assume v: "lview f s = v"
  have "sem_free s m" using assms unfolding v [symmetric] by (simp add: vfree_def sem_free_def)
  then have "runs (pcall (wait m)) s OK (lock m s)" by (rule runs_wait)
  moreover have "lock m s = lput f (vlock m v) s" unfolding v [symmetric] by (simp add: vlock_def lput_def lview_def upd_sem_def)
  ultimately show "runs (pcall (wait m)) s OK (lput f (vlock m v) s)" by simp
qed

lemma lruns_signal:
  assumes "vfree v m" and "vsem u = vsem (vlock m v)"
  shows "lruns f (pcall (signal m)) u OK (u\<lparr>vsem := vsem v\<rparr>)"
  unfolding vruns_def
proof (intro allI impI)
  fix s :: "'a lfstate_t_scheme" assume u: "lview f s = u"
  define t where "t = s\<lparr>semtab := vsem v\<rparr>"
  have free: "sem_free t m" using assms(1) by (simp add: t_def vfree_def sem_free_def)
  have st: "semtab s = (vsem v)(m := (vsem v m)\<lparr>scount := scount (vsem v m) - 1\<rparr>)"
    using assms(2) unfolding u [symmetric] by (simp add: vlock_def)
  then have "semtab s = semtab (lock m t)" by (simp add: t_def upd_sem_def)
  with free have "runs (pcall (signal m)) s OK (unlock m s)" by (rule runs_signal)
  moreover have "unlock m s = lput f (u\<lparr>vsem := vsem v\<rparr>) s"
    using st unfolding u [symmetric] by (simp add: lput_def lview_def upd_sem_def fun_upd_idem)
  ultimately show "runs (pcall (signal m)) s OK (lput f (u\<lparr>vsem := vsem v\<rparr>) s)" by simp
qed

lemma blocks_vsem [simp]: "blocks_rep ni (v\<lparr>vsem := x\<rparr>) ibs fis ds fds xs = blocks_rep ni v ibs fis ds fds xs"
  by (simp add: blocks_rep_def vent_def)

lemma blocks_vlock [simp]: "blocks_rep ni (vlock m v) ibs fis ds fds xs = blocks_rep ni v ibs fis ds fds xs"
  by (simp add: vlock_def)

lemma file_vsem [simp]: "file_rep ni I B (v\<lparr>vsem := x\<rparr>) xs = file_rep ni I B v xs"
  by (simp add: file_rep_def)

lemma file_vlock [simp]: "file_rep ni I B (vlock m v) xs = file_rep ni I B v xs"
  by (simp add: vlock_def)

lemma frame_unlock: "frame_rep ni I B (vlock m v) u \<Longrightarrow> frame_rep ni I B v (u\<lparr>vsem := vsem v\<rparr>)"
  unfolding frame_rep_def by (auto simp: vlock_def vent_def)

lemma frame_sem: "frame_rep ni I B v u \<Longrightarrow> vsem u = vsem v"
  by (simp add: frame_rep_def)

subsection \<open>lfsetup\<close>

text \<open>A file whose position is not over its size, and the room that a position needs.\<close>

definition loose_rep :: "nat \<Rightarrow> u32 set \<Rightarrow> u32 set \<Rightarrow> lfview \<Rightarrow> u8 list \<Rightarrow> bool" where
  "loose_rep ni I B v xs \<longleftrightarrow> (\<exists>ibs fis ds fds. blocks_rep ni v ibs fis ds fds xs \<and>
     set (ibs @ fis) = I \<and> set (ds @ fds) = B) \<and> unat (lfpos (vcb v)) \<le> length xs"

lemma file_loose: "file_rep ni I B v xs \<Longrightarrow> loose_rep ni I B v xs"
  by (auto simp: file_rep_def loose_rep_def pos_rep_def)

lemma blocks_card:
  assumes "blocks_rep ni v ibs fis ds fds xs"
  shows "card (set (ibs @ fis)) = length ibs + length fis" and "card (set (ds @ fds)) = length ds + length fds"
proof -
  have "distinct (ibs @ fis)" "distinct (ds @ fds)" using assms unfolding blocks_rep_def idx_rep_def dat_rep_def by blast+
  then show "card (set (ibs @ fis)) = length ibs + length fis" "card (set (ds @ fds)) = length ds + length fds"
    using distinct_card by fastforce+
qed

lemma setup_runs:
  assumes L: "loose_rep ni I B v xs" and free: "vfree v (lf_mutex (vdata v))"
    and room: "unat (lfpos (vcb v)) < 8192 * card I" "unat (lfpos (vcb v)) < 512 * card B"
  shows "\<exists>v'. lruns f (lfsetup (devtab d) f) v OK v' \<and> file_rep ni I B v' xs \<and> lfbyte (vcb v') < 512 \<and>
    lfpos (vcb v') = lfpos (vcb v) \<and> frame_rep ni I B v v'"
proof -
  obtain ibs fis ds fds where R: "blocks_rep ni v ibs fis ds fds xs" and IB: "set (ibs @ fis) = I" "set (ds @ fds) = B"
    and pos: "unat (lfpos (vcb v)) \<le> length xs" using L unfolding loose_rep_def by blast
  define m where "m = lf_mutex (vdata v)"
  define u where "u = vlock m v"
  have Ru: "blocks_rep ni u ibs fis ds fds xs" and c: "vcb u = vcb v" using R by (simp_all add: u_def)
  have room': "unat (lfpos (vcb u)) < 8192 * (length ibs + length fis)" "unat (lfpos (vcb u)) < 512 * (length ds + length fds)"
    using room blocks_card [OF R] IB by (simp_all add: c)
  define u1 where "u1 = (if lfibdirty (vcb u) \<or> lfdbdirty (vcb u) then flush u else u)"
  have u1: "blocks_rep ni u1 ibs fis ds fds xs" "clean u1" "lfpos (vcb u1) = lfpos (vcb v)"
    using flush_rep [OF Ru] Ru c by (auto simp: u1_def clean_def)
  have fr1: "frame_rep ni I B u u1" using flush_frame [OF Ru, of I B] IB by (auto simp: u1_def)
  obtain u2 ibs2 fis2 k where u2: "lruns f (lfsetup_first (devtab d) f) u1 () u2" "walk_rep ni u2 ibs2 fis2 ds fds xs k"
    "ibs2 @ fis2 = ibs @ fis" "lfpos (vcb u2) = lfpos (vcb u1)" "frame_rep ni I B u1 u2"
    using first_rep [OF u1(1,2)] u1(3) pos room' c by metis
  have len2: "length ibs2 + length fis2 = length ibs + length fis" using arg_cong [OF u2(3), of length] by simp
  have p2: "unat (lfpos (vcb u2)) \<le> length xs" "unat (lfpos (vcb u2)) < 8192 * (length ibs2 + length fis2)"
    "unat (lfpos (vcb u2)) < 512 * (length ds + length fds)" using pos room' u1(3) u2(4) c len2 by simp_all
  have "unat (lfpos (vcb u2)) \<le> 102400" using p2(1) dat_length(2) R unfolding blocks_rep_def by (meson le_trans)
  then have fuel: "unat (lfpos (vcb u2)) div 8192 - k < 2 ^ 20" by simp
  obtain u3 ibs3 fis3 where u3: "lruns f (lfsetup_walk (devtab d) f (2 ^ 20)) u2 () u3"
    "walk_rep ni u3 ibs3 fis3 ds fds xs (unat (lfpos (vcb u2)) div 8192)"
    "ibs3 @ fis3 = ibs2 @ fis2" "lfpos (vcb u3) = lfpos (vcb u2)" "frame_rep ni I B u2 u3"
    using walk_runs [OF u2(2) p2(1,2) fuel] IB(1) u2(3) by (metis order_refl)
  obtain u4 ds4 fds4 where u4: "lruns f (lfsetup_block (devtab d) f) u3 () u4" "blocks_rep ni u4 ibs3 fis3 ds4 fds4 xs"
    "pos_rep (vcb u4) ds4 xs" "lfbyte (vcb u4) < 512" "ds4 @ fds4 = ds @ fds" "lfpos (vcb u4) = lfpos (vcb u3)" "frame_rep ni I B u3 u4"
    using block_runs [of ni u3 ibs3 fis3 ds fds xs f d I B] u3(2,4) p2 by auto
  have fr: "frame_rep ni I B u u4" using fr1 u2(5) u3(5) u4(7) frame_trans by blast
  let ?v = "u4\<lparr>vsem := vsem v\<rparr>"
  have dev: "lf_dskdev (vdata u) = RAM0" "lfstate (vcb u) = LF_USED" using Ru by (simp_all add: blocks_rep_def)
  have fl: "lruns f (if lfibdirty (vcb u) \<or> lfdbdirty (vcb u) then pbind (lfflush (devtab d) f) (\<lambda>_. Ret ()) else Ret ()) u () u1"
    unfolding u1_def by (rule lruns_if) (rule lf.vruns_bind [OF lruns_flush [OF dev] lf.vruns_Ret])
  have "lruns f (lfsetup (devtab d) f) v OK ?v"
    unfolding lfsetup_def
    apply (rule lf.vruns_read [where g = "\<lambda>v. lf_mutex (vdata v)"], simp)
    apply (rule lf.vruns_bind [OF lruns_wait [OF free]])
    apply (rule lf.vruns_read [where g = vcb], simp)
    apply (unfold m_def [symmetric] u_def [symmetric])
    apply (rule lf.vruns_bind [OF fl])
    apply (rule lf.vruns_bind [OF u2(1)])
    apply (rule lf.vruns_bind [OF u3(1)])
    apply (rule lf.vruns_bind [OF u4(1)])
    apply (rule lf.vruns_bind [OF lruns_signal [OF free [folded m_def]]])
     apply (use frame_sem [OF fr] in \<open>simp add: u_def\<close>)
    apply (rule lf.vruns_Ret)
    done
  moreover have "file_rep ni I B ?v xs" unfolding file_vsem file_rep_def
    using u4(2,3) IB u2(3) u3(3) u4(5) by (intro exI [of _ ibs3] exI [of _ fis3] exI [of _ ds4] exI [of _ fds4]) simp
  moreover have "frame_rep ni I B v ?v" using fr frame_unlock unfolding u_def by blast
  ultimately show ?thesis using u1(3) u2(4) u3(4) u4(4,6) by (intro exI [of _ ?v]) simp
qed

subsection \<open>Bytes\<close>

text \<open>A file that may be used: both mutexes are free, and they are different ones.\<close>

definition usable :: "lfview \<Rightarrow> bool" where
  "usable v \<longleftrightarrow> vfree v (lfmutex (vcb v)) \<and> vfree v (lf_mutex (vdata v)) \<and> lf_mutex (vdata v) \<noteq> lfmutex (vcb v)"

lemma frame_usable: "frame_rep ni I B v v' \<Longrightarrow> usable v' = usable v"
  unfolding frame_rep_def by (auto simp: usable_def vfree_def)

lemma file_used: "file_rep ni I B v xs \<Longrightarrow> lfstate (vcb v) = LF_USED"
  by (auto simp: file_rep_def blocks_rep_def)

lemma file_size: "file_rep ni I B v xs \<Longrightarrow> unat (ld_size (vent v)) = length xs"
  by (auto simp: file_rep_def blocks_rep_def)

lemma file_pos: "file_rep ni I B v xs \<Longrightarrow> unat (lfpos (vcb v)) \<le> length xs"
  by (auto simp: file_rep_def pos_rep_def)

lemma file_bound: "file_rep ni I B v xs \<Longrightarrow> length xs \<le> 102400"
  using dat_length(2) unfolding file_rep_def blocks_rep_def by blast

lemma file_room:
  assumes "file_rep ni I B v xs"
  shows "length xs \<le> 8192 * card I" and "length xs \<le> 512 * card B"
proof -
  obtain ibs fis ds fds where R: "blocks_rep ni v ibs fis ds fds xs" and IB: "set (ibs @ fis) = I" "set (ds @ fds) = B"
    using assms unfolding file_rep_def by blast
  have "length xs \<le> 512 * length ds" "length ds \<le> 16 * length ibs" using R unfolding blocks_rep_def idx_rep_def dat_rep_def by auto
  then show "length xs \<le> 8192 * card I" "length xs \<le> 512 * card B" using blocks_card [OF R] unfolding IB by linarith+
qed

lemma lruns_leave: "vfree v m \<Longrightarrow> vsem u = vsem (vlock m v) \<Longrightarrow> lruns f (leave m r) u r (u\<lparr>vsem := vsem v\<rparr>)"
  unfolding leave_def by (rule lf.vruns_bind [OF lruns_signal lf.vruns_Ret])

lemma lruns_with_file:
  assumes "usable v" and "lfstate (vcb v) = LF_USED"
    and "lruns f (body (lfmutex (vcb v))) (vlock (lfmutex (vcb v)) v) r u"
  shows "lruns f (with_file f body) v r u"
  unfolding with_file_def
  apply (rule lf.vruns_read [where g = "\<lambda>v. lfmutex (vcb v)"], simp)
  apply (rule lf.vruns_bind [OF lruns_wait], use assms(1) in \<open>simp add: usable_def\<close>)
  apply (rule lf.vruns_read [where g = "\<lambda>v. lfstate (vcb v)"], simp)
  apply (simp add: assms(2,3))
  done

text \<open>The step that all byte operations begin with.\<close>

lemma ready_runs:
  assumes F: "file_rep ni I B v xs" and free: "vfree v (lf_mutex (vdata v))"
    and room: "unat (lfpos (vcb v)) < 8192 * card I" "unat (lfpos (vcb v)) < 512 * card B"
  shows "\<exists>v'. lruns f (if lfbyte (vcb v) \<ge> LF_BLKSIZ then pbind (lfsetup (devtab d) f) (\<lambda>_. Ret ()) else Ret ()) v () v' \<and>
    file_rep ni I B v' xs \<and> lfbyte (vcb v') < 512 \<and> lfpos (vcb v') = lfpos (vcb v) \<and> frame_rep ni I B v v'"
proof (cases "lfbyte (vcb v) \<ge> 512")
  case True
  obtain v' where "lruns f (lfsetup (devtab d) f) v OK v'" "file_rep ni I B v' xs" "lfbyte (vcb v') < 512"
    "lfpos (vcb v') = lfpos (vcb v)" "frame_rep ni I B v v'"
    using setup_runs [OF file_loose [OF F] free room] by blast
  then show ?thesis using True by (intro exI [of _ v']) (auto intro: lf.vruns_bind lf.vruns_Ret)
next
  case False
  then show ?thesis using F by (intro exI [of _ v]) (simp add: lf.vruns_Ret)
qed

lemma advance_div: "p mod 512 + 1 < (512 :: nat) \<Longrightarrow> (p + 1) div 512 = p div 512 \<and> (p + 1) mod 512 = p mod 512 + 1"
  using mod_Suc [of p 512] div_Suc [of p 512] by auto

text \<open>The byte under the position, and the next position.\<close>

lemma file_byte:
  assumes F: "file_rep ni I B v xs" and b: "lfbyte (vcb v) < 512" and p: "unat (lfpos (vcb v)) < length xs"
  shows "lfdblock (vcb v) (lfbyte (vcb v)) = xs ! unat (lfpos (vcb v))"
    and "file_rep ni I B (v\<lparr>vcb := (vcb v)\<lparr>lfbyte := lfbyte (vcb v) + 1, lfpos := lfpos (vcb v) + 1\<rparr>\<rparr>) xs"
    and "unat (lfpos (vcb v) + 1) = unat (lfpos (vcb v)) + 1"
proof -
  obtain ibs fis ds fds where R: "blocks_rep ni v ibs fis ds fds xs" and P: "pos_rep (vcb v) ds xs"
    and IB: "set (ibs @ fis) = I" "set (ds @ fds) = B" using F unfolding file_rep_def by blast
  have P': "lfdnum (vcb v) = ds ! (unat (lfpos (vcb v)) div 512)" "lfbyte (vcb v) = unat (lfpos (vcb v)) mod 512"
    "unat (lfpos (vcb v)) div 512 < length ds" using P b unfolding pos_rep_def by auto
  have "xs ! unat (lfpos (vcb v)) = dview (vdisk v) (vcb v) (ds ! (unat (lfpos (vcb v)) div 512)) (unat (lfpos (vcb v)) mod 512)"
    using R p unfolding blocks_rep_def dat_rep_def by blast
  then show "lfdblock (vcb v) (lfbyte (vcb v)) = xs ! unat (lfpos (vcb v))" using P' by (simp add: dview_def)
  have "unat (lfpos (vcb v)) < 102400" using p file_bound [OF F] by simp
  then show n: "unat (lfpos (vcb v) + 1) = unat (lfpos (vcb v)) + 1" by (subst unat_add_lt) auto
  let ?c = "(vcb v)\<lparr>lfbyte := lfbyte (vcb v) + 1, lfpos := lfpos (vcb v) + 1\<rparr>"
  have "pos_rep ?c ds xs" unfolding pos_rep_def
    using n p b P' advance_div [of "unat (lfpos (vcb v))"] by auto
  moreover have "blocks_rep ni (v\<lparr>vcb := ?c\<rparr>) ibs fis ds fds xs"
    using R idx_cb [of ?c "vcb v"] dat_cb [of ?c "vcb v"] by (simp add: blocks_rep_def vent_def)
  ultimately show "file_rep ni I B (v\<lparr>vcb := ?c\<rparr>) xs" using IB unfolding file_rep_def
    by (intro exI [of _ ibs] exI [of _ fis] exI [of _ ds] exI [of _ fds]) simp
qed

lemma getc_runs:
  assumes F: "file_rep ni I B v xs" and U: "usable v" and p: "unat (lfpos (vcb v)) < length xs"
  shows "\<exists>v'. lruns f (lflgetc (devtab d) f) v (uint (xs ! unat (lfpos (vcb v)))) v' \<and> file_rep ni I B v' xs \<and>
    unat (lfpos (vcb v')) = unat (lfpos (vcb v)) + 1 \<and> frame_rep ni I B v v'"
proof -
  define m where "m = lfmutex (vcb v)"
  define u where "u = vlock m v"
  have free: "vfree v m" and fu: "vfree u (lf_mutex (vdata u))" and c: "vcb u = vcb v"
    using U by (simp_all add: usable_def m_def u_def vfree_vlock)
  have Fu: "file_rep ni I B u xs" using F by (simp add: u_def)
  obtain w where w: "lruns f (if lfbyte (vcb u) \<ge> LF_BLKSIZ then pbind (lfsetup (devtab d) f) (\<lambda>_. Ret ()) else Ret ()) u () w"
    "file_rep ni I B w xs" "lfbyte (vcb w) < 512" "lfpos (vcb w) = lfpos (vcb u)" "frame_rep ni I B u w"
    using ready_runs [OF Fu fu, of f d] p file_room [OF F] c by fastforce
  let ?w = "w\<lparr>vcb := (vcb w)\<lparr>lfbyte := lfbyte (vcb w) + 1, lfpos := lfpos (vcb w) + 1\<rparr>\<rparr>" and ?v = "\<lambda>u. u\<lparr>vsem := vsem v\<rparr>"
  have pw: "unat (lfpos (vcb w)) < length xs" using p w(4) c by simp
  note b = file_byte [OF w(2,3) pw]
  have frw: "frame_rep ni I B u ?w" by (rule frame_trans [OF w(5)]) (rule frame_cb, simp_all)
  have "\<not> ld_size (vent v) \<le> lfpos (vcb v)" using p file_size [OF F] by (simp add: word_le_nat_alt)
  have "lruns f (lflgetc (devtab d) f) v (uint (xs ! unat (lfpos (vcb v)))) (?v ?w)"
    unfolding lflgetc_def
    apply (rule lruns_with_file [OF U file_used [OF F]])
    apply (unfold m_def [symmetric] u_def [symmetric])
    apply (rule lf.vruns_read [where g = "\<lambda>v. (vcb v, vent v)"], simp)
    apply (simp only: prod.case)
    apply (subst if_not_P, use p file_size [OF F] in \<open>simp add: word_le_nat_alt u_def\<close>)
    apply (rule lf.vruns_bind [OF w(1)])
    apply (rule lf.vruns_read [where g = "\<lambda>v. uint (lfdblock (vcb v) (lfbyte (vcb v)))"], simp)
    apply (rule lf.vruns_bind [OF lruns_lf])
    apply (unfold b(1) w(4) c)
    apply (rule lruns_leave [OF free])
    apply (use frame_sem [OF frw] in \<open>simp add: u_def\<close>)
    done
  moreover have "frame_rep ni I B v (?v ?w)" using frw frame_unlock unfolding u_def by blast
  moreover have "file_rep ni I B (?v ?w) xs" using b(2) by simp
  ultimately show ?thesis using b(3) w(4) c by (intro exI [of _ "?v ?w"]) simp
qed

text \<open>At the end of the file nothing changes.\<close>

lemma getc_eof:
  assumes F: "file_rep ni I B v xs" and U: "usable v" and p: "unat (lfpos (vcb v)) = length xs"
  shows "lruns f (lflgetc (devtab d) f) v EOF v"
proof -
  have "lruns f (lflgetc (devtab d) f) v EOF ((vlock (lfmutex (vcb v)) v)\<lparr>vsem := vsem v\<rparr>)"
    unfolding lflgetc_def
    apply (rule lruns_with_file [OF U file_used [OF F]])
    apply (rule lf.vruns_read [where g = "\<lambda>v. (vcb v, vent v)"], simp)
    apply (simp only: prod.case)
    apply (subst if_P, use p file_size [OF F] in \<open>simp add: word_le_nat_alt\<close>)
    apply (rule lruns_leave, use U in \<open>simp_all add: usable_def\<close>)
    done
  then show ?thesis by (simp add: vlock_def)
qed

text \<open>A byte is overwritten, or appended at the end.\<close>

definition put_byte :: "u8 list \<Rightarrow> nat \<Rightarrow> u8 \<Rightarrow> u8 list" where
  "put_byte xs p c = take p xs @ [c] @ drop (Suc p) xs"

lemma put_byte_length: "p \<le> length xs \<Longrightarrow> length (put_byte xs p c) = (if p = length xs then Suc p else length xs)"
  by (auto simp: put_byte_def)

lemma put_byte_nth: "p \<le> length xs \<Longrightarrow> q < length (put_byte xs p c) \<Longrightarrow> put_byte xs p c ! q = (if q = p then c else xs ! q)"
  by (auto simp: put_byte_def nth_append nth_Cons' min_def)

lemma put_byte_append: "put_byte xs (length xs) c = xs @ [c]"
  by (simp add: put_byte_def)

definition store_byte :: "u8 \<Rightarrow> lflcblk \<Rightarrow> lflcblk" where
  "store_byte ch c = c\<lparr>lfdblock := (lfdblock c)(lfbyte c := ch), lfbyte := lfbyte c + 1, lfpos := lfpos c + 1, lfdbdirty := True\<rparr>"

lemma store_pos:
  assumes P: "pos_rep c ds xs" and b: "lfbyte c < 512" and n: "unat (lfpos c + 1) = unat (lfpos c) + 1"
  shows "pos_rep (store_byte ch c) ds (put_byte xs (unat (lfpos c)) ch)"
  using assms advance_div [of "unat (lfpos c)"] by (auto simp: pos_rep_def store_byte_def put_byte_length)

lemma store_dat:
  assumes R: "dat_rep ni D dfree c ds fds xs" and P: "pos_rep c ds xs" and b: "lfbyte c < 512"
  shows "dat_rep ni D dfree (store_byte ch c) ds fds (put_byte xs (unat (lfpos c)) ch)"
proof -
  define p where "p = unat (lfpos c)"
  have P': "lfdnum c = ds ! (p div 512)" "lfbyte c = p mod 512" "p div 512 < length ds" "p \<le> length xs"
    using P b unfolding pos_rep_def p_def by auto
  have len: "length xs \<le> 512 * length ds" and dist: "distinct ds" using R unfolding dat_rep_def by auto
  have "p < 512 * length ds" using P'(3) by (simp add: div_less_iff_less_mult mult.commute)
  then have len': "length (put_byte xs p ch) \<le> 512 * length ds" using len P'(4) by (simp add: put_byte_length)
  have view: "put_byte xs p ch ! q = dview D (store_byte ch c) (ds ! (q div 512)) (q mod 512)" if q: "q < length (put_byte xs p ch)" for q
  proof (cases "q = p")
    case True
    then show ?thesis using P' put_byte_nth [OF P'(4) q] by (simp add: dview_def store_byte_def)
  next
    case False
    have "q < length xs" using q False P'(4) by (simp add: put_byte_length split: if_splits)
    then have old: "xs ! q = dview D c (ds ! (q div 512)) (q mod 512)" and qd: "q div 512 < length ds"
      using R len unfolding dat_rep_def by (blast, simp add: less_mult_imp_div_less)
    have "q div 512 \<noteq> p div 512 \<or> q mod 512 \<noteq> p mod 512" using False by (metis div_mult_mod_eq)
    moreover have "ds ! (q div 512) = ds ! (p div 512) \<longleftrightarrow> q div 512 = p div 512" using dist qd P'(3) nth_eq_iff_index_eq by blast
    ultimately show ?thesis using P' old put_byte_nth [OF P'(4) q] False by (auto simp: dview_def store_byte_def)
  qed
  have s: "lfdnum (store_byte ch c) = lfdnum c" "lfdbdirty (store_byte ch c)" by (simp_all add: store_byte_def)
  have "lfdnum c \<in> set ds" using P' by simp
  then show ?thesis using R len' view unfolding dat_rep_def p_def [symmetric] s(1) by (simp add: s(2))
qed

text \<open>The size in the directory.\<close>

definition grow :: "lfview \<Rightarrow> lfview" where
  "grow v = (if lfpos (vcb v) \<ge> ld_size (vent v)
     then v\<lparr>vdata := (vdata v)\<lparr>lf_dir := (lf_dir (vdata v))\<lparr>lfd_files := (lfd_files (lf_dir (vdata v)))
       (lfdirptr (vcb v) := (vent v)\<lparr>ld_size := ld_size (vent v) + 1\<rparr>)\<rparr>, lf_dirdirty := True\<rparr>\<rparr>
     else v)"

lemma grow_sel [simp]: "vcb (grow v) = vcb v" "vsem (grow v) = vsem v" "vdisk (grow v) = vdisk v"
  "lfd_dfree (lf_dir (vdata (grow v))) = lfd_dfree (lf_dir (vdata v))" "lfd_ifree (lf_dir (vdata (grow v))) = lfd_ifree (lf_dir (vdata v))"
  "lf_dskdev (vdata (grow v)) = lf_dskdev (vdata v)" "ld_ilist (vent (grow v)) = ld_ilist (vent v)" "ld_name (vent (grow v)) = ld_name (vent v)"
  "ld_size (vent (grow v)) = (if lfpos (vcb v) \<ge> ld_size (vent v) then ld_size (vent v) + 1 else ld_size (vent v))"
  by (simp_all add: grow_def vent_def)

lemma frame_grow: "frame_rep ni I B v (grow v)"
  by (simp add: frame_rep_def) (simp add: grow_def)

lemma store_rep:
  fixes ch :: u8
  assumes F: "file_rep ni I B v xs" and b: "lfbyte (vcb v) < 512"
  defines "v' \<equiv> (grow v)\<lparr>vcb := store_byte ch (vcb v)\<rparr>"
  shows "file_rep ni I B v' (put_byte xs (unat (lfpos (vcb v))) ch)" and "unat (lfpos (vcb v')) = unat (lfpos (vcb v)) + 1"
    and "frame_rep ni I B v v'"
proof -
  obtain ibs fis ds fds where R: "blocks_rep ni v ibs fis ds fds xs" and P: "pos_rep (vcb v) ds xs"
    and IB: "set (ibs @ fis) = I" "set (ds @ fds) = B" using F unfolding file_rep_def by blast
  have p: "unat (lfpos (vcb v)) \<le> length xs" and s: "unat (ld_size (vent v)) = length xs" using file_pos [OF F] file_size [OF F] by auto
  have inc: "unat (w + 1) = unat w + 1" if "unat w \<le> 102400" for w :: u32 using that by (subst unat_add_lt) auto
  have n: "unat (lfpos (vcb v) + 1) = unat (lfpos (vcb v)) + 1" using p file_bound [OF F] by (intro inc) simp
  show "unat (lfpos (vcb v')) = unat (lfpos (vcb v)) + 1" using n by (simp add: v'_def store_byte_def)
  have ve: "vent v' = vent (grow v)" by (simp add: vent_def v'_def store_byte_def)
  have "length (put_byte xs (unat (lfpos (vcb v))) ch) = unat (ld_size (vent v'))"
    using p s inc [of "ld_size (vent v)"] file_bound [OF F] by (simp add: ve put_byte_length word_le_nat_alt)
  moreover have "dat_rep ni (vdisk v') (lfd_dfree (lf_dir (vdata v'))) (vcb v') ds fds (put_byte xs (unat (lfpos (vcb v))) ch)"
    using store_dat [OF _ P b] R by (simp add: v'_def blocks_rep_def)
  moreover have "idx_rep ni (vdisk v') (ld_ilist (vent v')) (lfd_ifree (lf_dir (vdata v'))) (vcb v') ibs fis ds"
    using R idx_cb [of "store_byte ch (vcb v)" "vcb v"] by (simp add: ve) (simp add: blocks_rep_def v'_def store_byte_def)
  ultimately have "blocks_rep ni v' ibs fis ds fds (put_byte xs (unat (lfpos (vcb v))) ch)"
    using R by (simp add: blocks_rep_def) (simp add: v'_def store_byte_def)
  moreover have "pos_rep (vcb v') ds (put_byte xs (unat (lfpos (vcb v))) ch)" using store_pos [OF P b n] by (simp add: v'_def)
  ultimately show "file_rep ni I B v' (put_byte xs (unat (lfpos (vcb v))) ch)" using IB unfolding file_rep_def
    by (intro exI [of _ ibs] exI [of _ fis] exI [of _ ds] exI [of _ fds]) simp
  show "frame_rep ni I B v v'" unfolding v'_def
    by (rule frame_trans [OF frame_grow frame_cb]) (simp_all add: store_byte_def)
qed

lemma putc_runs:
  assumes F: "file_rep ni I B v xs" and U: "usable v"
    and room: "unat (lfpos (vcb v)) < 8192 * card I" "unat (lfpos (vcb v)) < 512 * card B"
  shows "\<exists>v'. lruns f (lflputc (devtab d) f ch) v OK v' \<and> file_rep ni I B v' (put_byte xs (unat (lfpos (vcb v))) ch) \<and>
    unat (lfpos (vcb v')) = unat (lfpos (vcb v)) + 1 \<and> frame_rep ni I B v v' \<and>
    (unat (lfpos (vcb v)) = length xs \<longrightarrow> lf_dirdirty (vdata v'))"
proof -
  define m where "m = lfmutex (vcb v)"
  define u where "u = vlock m v"
  have free: "vfree v m" and fu: "vfree u (lf_mutex (vdata u))" and c: "vcb u = vcb v"
    using U by (simp_all add: usable_def m_def u_def vfree_vlock)
  have Fu: "file_rep ni I B u xs" using F by (simp add: u_def)
  obtain w where w: "lruns f (if lfbyte (vcb u) \<ge> LF_BLKSIZ then pbind (lfsetup (devtab d) f) (\<lambda>_. Ret ()) else Ret ()) u () w"
    "file_rep ni I B w xs" "lfbyte (vcb w) < 512" "lfpos (vcb w) = lfpos (vcb u)" "frame_rep ni I B u w"
    using ready_runs [OF Fu fu, of f d] room c by fastforce
  note s = store_rep [OF w(2,3), where ch = ch]
  let ?w = "(grow w)\<lparr>vcb := store_byte ch (vcb w)\<rparr>" and ?v = "\<lambda>u. u\<lparr>vsem := vsem v\<rparr>"
  have frw: "frame_rep ni I B u ?w" by (rule frame_trans [OF w(5) s(3)])
  have g: "lruns f (pbind (pmodify (upd_ld (lfdirptr (vcb w)) (\<lambda>e. e\<lparr>ld_size := ld_size e + 1\<rparr>))) (\<lambda>_.
      pmodify (upd_lfd (\<lambda>d. d\<lparr>lf_dirdirty := True\<rparr>)))) w () (grow w)" if "lfpos (vcb w) \<ge> ld_size (vent w)"
    by (rule lf.vruns_bind [OF lruns_ldI [OF refl]]) (rule lruns_lfdI, use that in \<open>simp add: grow_def vent_def\<close>)
  have g': "lruns f (if lfpos (vcb w) \<ge> ld_size (vent w) then pbind (pmodify (upd_ld (lfdirptr (vcb w)) (\<lambda>e. e\<lparr>ld_size := ld_size e + 1\<rparr>))) (\<lambda>_.
      pmodify (upd_lfd (\<lambda>d. d\<lparr>lf_dirdirty := True\<rparr>))) else Ret ()) w () (grow w)"
  proof (cases "lfpos (vcb w) \<ge> ld_size (vent w)")
    case True
    then show ?thesis using g by simp
  next
    case False
    then have "grow w = w" by (simp add: grow_def)
    then show ?thesis using False by (simp add: lf.vruns_Ret)
  qed
  have "lruns f (lflputc (devtab d) f ch) v OK (?v ?w)"
    unfolding lflputc_def
    apply (rule lruns_with_file [OF U file_used [OF F]])
    apply (unfold m_def [symmetric] u_def [symmetric])
    apply (rule lf.vruns_read [where g = "\<lambda>v. (vcb v, vent v)"], simp)
    apply (simp only: prod.case)
    apply (subst if_not_P, use file_pos [OF F] file_size [OF F] in \<open>simp add: word_less_nat_alt u_def\<close>)
    apply (rule lf.vruns_bind [OF w(1)])
    apply (rule lf.vruns_read [where g = "\<lambda>v. (vcb v, vent v)"], simp)
    apply (simp only: prod.case)
    apply (rule lf.vruns_bind [OF g'])
    apply (rule lf.vruns_bind [OF lruns_lfI [where v' = ?w]], simp add: store_byte_def)
    apply (rule lruns_leave [OF free])
    apply (use frame_sem [OF frw] in \<open>simp add: u_def\<close>)
    done
  moreover have "frame_rep ni I B v (?v ?w)" using frw frame_unlock unfolding u_def by blast
  moreover have "file_rep ni I B (?v ?w) (put_byte xs (unat (lfpos (vcb v))) ch)" using s(1) w(4) c by simp
  moreover have "lf_dirdirty (vdata (?v ?w))" if "unat (lfpos (vcb v)) = length xs"
    using that file_size [OF w(2)] w(4) c by (simp add: grow_def word_le_nat_alt)
  ultimately show ?thesis using s(2) w(4) c by (intro exI [of _ "?v ?w"]) simp
qed

subsection \<open>Seeking, reading and writing\<close>

lemma seek_runs:
  assumes F: "file_rep ni I B v xs" and U: "usable v" and off: "unat offset \<le> length xs"
  shows "\<exists>v'. lruns f (lflseek f offset) v OK v' \<and> file_rep ni I B v' xs \<and> lfpos (vcb v') = offset \<and> frame_rep ni I B v v' \<and>
    vdata v' = vdata v"
proof -
  let ?c = "(vcb v)\<lparr>lfpos := offset, lfbyte := 512\<rparr>"
  let ?v = "v\<lparr>vcb := ?c\<rparr>"
  have "lruns f (lflseek f offset) v OK (((vlock (lfmutex (vcb v)) v)\<lparr>vcb := ?c\<rparr>)\<lparr>vsem := vsem v\<rparr>)"
    unfolding lflseek_def
    apply (rule lruns_with_file [OF U file_used [OF F]])
    apply (rule lf.vruns_read [where g = vent], simp)
    apply (subst if_not_P, use off file_size [OF F] in \<open>simp add: word_less_nat_alt\<close>)
    apply (rule lf.vruns_bind [OF lruns_lfI [OF refl]])
    apply (simp only: vlock_sel)
    apply (rule lruns_leave, use U in \<open>simp_all add: usable_def\<close>)
    done
  then have "lruns f (lflseek f offset) v OK ?v" by (simp add: vlock_def)
  moreover obtain ibs fis ds fds where R: "blocks_rep ni v ibs fis ds fds xs" and IB: "set (ibs @ fis) = I" "set (ds @ fds) = B"
    using F unfolding file_rep_def by blast
  then have "blocks_rep ni ?v ibs fis ds fds xs"
    using idx_cb [of ?c "vcb v"] dat_cb [of ?c "vcb v"] by (simp add: blocks_rep_def vent_def)
  then have "file_rep ni I B ?v xs" using IB off unfolding file_rep_def pos_rep_def
    by (intro exI [of _ ibs] exI [of _ fis] exI [of _ ds] exI [of _ fds]) simp
  moreover have "frame_rep ni I B v ?v" by (rule frame_cb) simp_all
  ultimately show ?thesis by (intro exI [of _ ?v]) simp
qed

lemma seek_beyond:
  assumes F: "file_rep ni I B v xs" and U: "usable v" and off: "length xs < unat offset"
  shows "lruns f (lflseek f offset) v SYSERR v"
proof -
  have "lruns f (lflseek f offset) v SYSERR ((vlock (lfmutex (vcb v)) v)\<lparr>vsem := vsem v\<rparr>)"
    unfolding lflseek_def
    apply (rule lruns_with_file [OF U file_used [OF F]])
    apply (rule lf.vruns_read [where g = vent], simp)
    apply (subst if_P, use off file_size [OF F] in \<open>simp add: word_less_nat_alt\<close>)
    apply (rule lruns_leave, use U in \<open>simp_all add: usable_def\<close>)
    done
  then show ?thesis by (simp add: vlock_def)
qed

text \<open>Reading delivers the bytes from the position on, and stops at the end of the file.\<close>

lemma read_loop_runs:
  assumes "file_rep ni I B v xs" and "usable v"
  shows "\<exists>v' b'. lruns f (lflread_loop (devtab d) f n k b) v
      (if 0 < n \<and> k = 0 \<and> unat (lfpos (vcb v)) = length xs then EOF else int (k + min n (length xs - unat (lfpos (vcb v)))), b') v' \<and>
    file_rep ni I B v' xs \<and> unat (lfpos (vcb v')) = min (unat (lfpos (vcb v)) + n) (length xs) \<and> frame_rep ni I B v v' \<and>
    (\<forall>i<min n (length xs - unat (lfpos (vcb v))). b' (k + i) = xs ! (unat (lfpos (vcb v)) + i)) \<and> (\<forall>i<k. b' i = b i)"
  using assms
proof (induction n arbitrary: v k b)
  case 0
  then show ?case using file_pos [OF 0(1)] by (intro exI [of _ v] exI [of _ b]) (simp add: lf.vruns_Ret min_def)
next
  case (Suc n)
  let ?p = "unat (lfpos (vcb v))"
  show ?case
  proof (cases "?p = length xs")
    case True
    have run: "lruns f (lflread_loop (devtab d) f (Suc n) k b) v (if k = 0 then EOF else int k, b) v"
      unfolding lflread_loop.simps
      by (rule lf.vruns_bind [OF getc_eof [OF Suc.prems True]]) (simp add: lf.vruns_Ret)
    have "(if 0 < Suc n \<and> k = 0 \<and> ?p = length xs then EOF else int (k + min (Suc n) (length xs - ?p))) =
      (if k = 0 then EOF else int k)" using True by simp
    then show ?thesis using True Suc.prems(1) run by (intro exI [of _ v] exI [of _ b]) (simp del: lflread_loop.simps split del: if_split)
  next
    case False
    then have p: "?p < length xs" using file_pos [OF Suc.prems(1)] by simp
    obtain u where u: "lruns f (lflgetc (devtab d) f) v (uint (xs ! ?p)) u" "file_rep ni I B u xs" "unat (lfpos (vcb u)) = ?p + 1"
      "frame_rep ni I B v u" using getc_runs [OF Suc.prems p] by blast
    obtain v' b' where v': "lruns f (lflread_loop (devtab d) f n (k + 1) (b(k := xs ! ?p))) u
      (int (k + 1 + min n (length xs - (?p + 1))), b') v'" "file_rep ni I B v' xs"
      "unat (lfpos (vcb v')) = min (?p + 1 + n) (length xs)" "frame_rep ni I B u v'"
      "\<forall>i<min n (length xs - (?p + 1)). b' (k + 1 + i) = xs ! (?p + 1 + i)" "\<forall>i<k + 1. b' i = (b(k := xs ! ?p)) i"
      using Suc.IH [OF u(2) frame_usable [OF u(4), THEN iffD2, OF Suc.prems(2)], of "k + 1" "b(k := xs ! ?p)"]
      unfolding u(3) by (auto simp del: fun_upd_apply)
    have "uint (xs ! ?p) \<noteq> - 1" "uint (xs ! ?p) \<noteq> - 2" using uint_ge_0 [of "xs ! ?p"] by linarith+
    then have run: "lruns f (lflread_loop (devtab d) f (Suc n) k b) v (int (k + 1 + min n (length xs - (?p + 1))), b') v'"
      unfolding lflread_loop.simps using v'(1) by (intro lf.vruns_bind [OF u(1)]) simp
    moreover have m: "min (Suc n) (length xs - ?p) = Suc (min n (length xs - (?p + 1)))" using p by simp
    moreover have "b' (k + i) = xs ! (?p + i)" if "i < Suc (min n (length xs - (?p + 1)))" for i
    proof (cases i)
      case 0
      then show ?thesis using v'(6) by simp
    next
      case (Suc j)
      then show ?thesis using v'(5) that by simp
    qed
    ultimately show ?thesis using v'(2,3,6) frame_trans [OF u(4) v'(4)] False unfolding m
      by (intro exI [of _ v'] exI [of _ b']) (simp del: lflread_loop.simps)
  qed
qed

text \<open>Writing a list of bytes at a position.\<close>

definition put_bytes :: "u8 list \<Rightarrow> nat \<Rightarrow> u8 list \<Rightarrow> u8 list" where
  "put_bytes xs p ys = take p xs @ ys @ drop (p + length ys) xs"

lemma put_bytes_Nil [simp]: "put_bytes xs p [] = xs"
  by (simp add: put_bytes_def)

lemma put_bytes_Cons: "p \<le> length xs \<Longrightarrow> put_bytes (put_byte xs p c) (Suc p) cs = put_bytes xs p (c # cs)"
  by (simp add: put_bytes_def put_byte_def add.commute)

lemma write_loop_runs:
  assumes "file_rep ni I B v xs" and "usable v"
    and "unat (lfpos (vcb v)) + length ks \<le> 8192 * card I" "unat (lfpos (vcb v)) + length ks \<le> 512 * card B"
  shows "\<exists>v'. lruns f (lflwrite_loop (devtab d) f ks b) v True v' \<and>
    file_rep ni I B v' (put_bytes xs (unat (lfpos (vcb v))) (map b ks)) \<and>
    unat (lfpos (vcb v')) = unat (lfpos (vcb v)) + length ks \<and> frame_rep ni I B v v' \<and>
    (ks \<noteq> [] \<longrightarrow> unat (lfpos (vcb v)) = length xs \<longrightarrow> lf_dirdirty (vdata v')) \<and> (ks = [] \<longrightarrow> v' = v)"
  using assms
proof (induction ks arbitrary: v xs)
  case Nil
  then show ?case by (intro exI [of _ v]) (simp add: lf.vruns_Ret)
next
  case (Cons k ks)
  let ?p = "unat (lfpos (vcb v))"
  have p: "?p \<le> length xs" by (rule file_pos [OF Cons.prems(1)])
  obtain u where u: "lruns f (lflputc (devtab d) f (b k)) v OK u" "file_rep ni I B u (put_byte xs ?p (b k))"
    "unat (lfpos (vcb u)) = ?p + 1" "frame_rep ni I B v u" "?p = length xs \<longrightarrow> lf_dirdirty (vdata u)"
    using putc_runs [OF Cons.prems(1,2), of f d "b k"] Cons.prems(3,4) by auto
  obtain v' where v': "lruns f (lflwrite_loop (devtab d) f ks b) u True v'"
    "file_rep ni I B v' (put_bytes (put_byte xs ?p (b k)) (?p + 1) (map b ks))"
    "unat (lfpos (vcb v')) = ?p + 1 + length ks" "frame_rep ni I B u v'"
    "ks \<noteq> [] \<longrightarrow> ?p + 1 = length (put_byte xs ?p (b k)) \<longrightarrow> lf_dirdirty (vdata v')" "ks = [] \<longrightarrow> v' = u"
    using Cons.IH [OF u(2)] frame_usable [OF u(4)] Cons.prems unfolding u(3) by auto
  have "lruns f (lflwrite_loop (devtab d) f (k # ks) b) v True v'"
    unfolding lflwrite_loop.simps using v'(1) by (intro lf.vruns_bind [OF u(1)]) simp
  moreover have "lf_dirdirty (vdata v')" if "?p = length xs"
  proof (cases "ks = []")
    case True
    then show ?thesis using u(5) v'(6) that by simp
  next
    case False
    then show ?thesis using v'(5) that by (simp add: put_byte_length)
  qed
  ultimately show ?case using v'(2,3) frame_trans [OF u(4) v'(4)] put_bytes_Cons [OF p] by (intro exI [of _ v']) (simp del: lflwrite_loop.simps)
qed

end
