(* ===== verification/File_Open.thy ===== *)
theory File_Open
  imports File_Ops
begin

section \<open>Closing and opening a file\<close>

text \<open>
  A file that is not open is a directory entry and blocks on the disk. Closing an open file leaves
  its contents there, and opening it again gives a control block that represents them, with the
  position at the beginning.
\<close>

subsection \<open>Files on the disk\<close>

text \<open>A control block that caches nothing.\<close>

definition vacant :: "lflcblk \<Rightarrow> bool" where
  "vacant c \<longleftrightarrow> lfinum c = - 1 \<and> lfdnum c = - 1 \<and> \<not> lfibdirty c \<and> \<not> lfdbdirty c \<and> ib_norm (lfiblock c)"

definition no_block :: lflcblk where
  "no_block = \<lparr>lfstate = LF_FREE, lfdev = 0, lfmutex = 0, lfdirptr = 0, lfmode = 0, lfpos = 0, lfname = (\<lambda>_. 0),
     lfinum = LF_INULL, lfiblock = lfibclear 0, lfdnum = LF_DNULL, lfdblock = (\<lambda>_. 0), lfbyte = LF_BLKSIZ,
     lfibdirty = False, lfdbdirty = False\<rparr>"

lemma no_block_sel [simp]:
  "lfinum no_block = - 1" "lfdnum no_block = - 1" "\<not> lfibdirty no_block" "\<not> lfdbdirty no_block" "ib_norm (lfiblock no_block)"
  by (simp_all add: no_block_def)

lemma vacant_no_block [simp]: "vacant no_block"
  by (simp add: vacant_def)

text \<open>\<open>disk_rep ni I B D dir i xs\<close>: the entry \<open>i\<close> of the directory \<open>dir\<close> is a file on the disk \<open>D\<close> that holds \<open>xs\<close>.\<close>

definition disk_blocks :: "nat \<Rightarrow> (int \<Rightarrow> wbuf) \<Rightarrow> lfdir \<Rightarrow> int \<Rightarrow> u32 list \<Rightarrow> u32 list \<Rightarrow> u32 list \<Rightarrow> u32 list \<Rightarrow> u8 list \<Rightarrow> bool" where
  "disk_blocks ni D dir i ibs fis ds fds xs \<longleftrightarrow>
     length xs = unat (ld_size (lfd_files dir i)) \<and>
     idx_rep ni D (ld_ilist (lfd_files dir i)) (lfd_ifree dir) no_block ibs fis ds \<and>
     dat_rep ni D (lfd_dfree dir) no_block ds fds xs"

definition disk_rep :: "nat \<Rightarrow> u32 set \<Rightarrow> u32 set \<Rightarrow> (int \<Rightarrow> wbuf) \<Rightarrow> lfdir \<Rightarrow> int \<Rightarrow> u8 list \<Rightarrow> bool" where
  "disk_rep ni I B D dir i xs \<longleftrightarrow> (\<exists>ibs fis ds fds. disk_blocks ni D dir i ibs fis ds fds xs \<and>
     set (ibs @ fis) = I \<and> set (ds @ fds) = B)"

text \<open>What a control block caches is of no account once it is written to the disk.\<close>

lemma idx_clean:
  assumes R: "idx_rep ni D first ifree c ibs fis ds" and clean: "\<not> lfibdirty c" and c': "vacant c'"
  shows "idx_rep ni D first ifree c' ibs fis ds"
proof -
  have b: "unat ib < 1393" "ib \<noteq> - 1" if "ib \<in> set ibs" for ib
  proof -
    show u: "unat ib < 1393" using R that ib_bound [of ib ni] unfolding idx_rep_def by simp
    show "ib \<noteq> - 1" by (rule valid_not_null [OF u])
  qed
  have V: "iview D c' ib = iview D c ib" if "ib \<in> set ibs" for ib
    using R clean c' b [OF that] unfolding idx_rep_def iview_def vacant_def by auto
  have 1: "chain (\<lambda>ib. ib_next (iview D c' ib)) first ibs = chain (\<lambda>ib. ib_next (iview D c ib)) first ibs"
    by (rule chain_cong) (simp add: V)
  have 2: "iblocks (iview D c') ibs ds = iblocks (iview D c) ibs ds" by (rule iblocks_cong) (rule V)
  show ?thesis using R c' unfolding idx_rep_def 1 2 vacant_def by blast
qed

lemma dat_clean:
  assumes R: "dat_rep ni D dfree c ds fds xs" and clean: "\<not> lfdbdirty c" and c': "vacant c'"
  shows "dat_rep ni D dfree c' ds fds xs"
proof -
  have b: "ds ! (p div 512) \<noteq> - 1" if "p < length xs" for p
  proof -
    have "length xs \<le> 512 * length ds" "\<forall>d\<in>set (ds @ fds). unat d < 200" using R unfolding dat_rep_def by blast+
    then have "unat (ds ! (p div 512)) < 200" using that by (simp add: less_mult_imp_div_less)
    then show ?thesis by (intro valid_not_null) simp
  qed
  have V: "dview D c' (ds ! (p div 512)) (p mod 512) = dview D c (ds ! (p div 512)) (p mod 512)" if "p < length xs" for p
  proof -
    have "lfdnum c = ds ! (p div 512) \<Longrightarrow> dget D (ds ! (p div 512)) (p mod 512) = lfdblock c (p mod 512)"
      using R clean that unfolding dat_rep_def by simp
    then show ?thesis using b [OF that] c' by (auto simp: dview_def vacant_def)
  qed
  have "\<forall>p<length xs. xs ! p = dview D c' (ds ! (p div 512)) (p mod 512)" using R V unfolding dat_rep_def by simp
  moreover have "\<forall>p<length xs. lfdnum c' \<noteq> ds ! (p div 512)" using b c' unfolding vacant_def by fastforce
  ultimately show ?thesis using R c' unfolding dat_rep_def vacant_def by auto
qed

lemma disk_blocks_of:
  assumes "blocks_rep ni v ibs fis ds fds xs" and "clean v"
  shows "disk_blocks ni (vdisk v) (lf_dir (vdata v)) (lfdirptr (vcb v)) ibs fis ds fds xs"
  using assms idx_clean dat_clean unfolding blocks_rep_def disk_blocks_def clean_def vent_def by (metis vacant_no_block)

lemma blocks_of_disk:
  assumes "disk_blocks ni (vdisk v) (lf_dir (vdata v)) (lfdirptr (vcb v)) ibs fis ds fds xs"
    and "vacant (vcb v)" "lfstate (vcb v) = LF_USED" "lf_dskdev (vdata v) = RAM0"
  shows "blocks_rep ni v ibs fis ds fds xs"
  using assms idx_clean [of ni _ _ _ no_block _ _ _ "vcb v"] dat_clean [of ni _ _ no_block _ _ _ "vcb v"]
  unfolding blocks_rep_def disk_blocks_def vent_def by simp

lemma disk_rep_of:
  assumes "file_rep ni I B v xs" and "clean v"
  shows "disk_rep ni I B (vdisk v) (lf_dir (vdata v)) (lfdirptr (vcb v)) xs"
  using assms disk_blocks_of unfolding file_rep_def disk_rep_def by blast

lemma file_of_disk:
  assumes "disk_rep ni I B (vdisk v) (lf_dir (vdata v)) (lfdirptr (vcb v)) xs"
    and "vacant (vcb v)" "lfstate (vcb v) = LF_USED" "lf_dskdev (vdata v) = RAM0" "lfpos (vcb v) = 0" "lfbyte (vcb v) = 512"
  shows "file_rep ni I B v xs"
  using assms blocks_of_disk unfolding file_rep_def disk_rep_def pos_rep_def by fastforce


subsection \<open>The directory on the disk\<close>

text \<open>Two directories that agree in everything a program reads of them.\<close>

definition dir_eq :: "lfdir \<Rightarrow> lfdir \<Rightarrow> bool" where
  "dir_eq d e \<longleftrightarrow> lfd_dfree d = lfd_dfree e \<and> lfd_ifree d = lfd_ifree e \<and> lfd_nfiles d = lfd_nfiles e \<and>
     (\<forall>i. 0 \<le> i \<longrightarrow> i < LF_NUM_DIR_ENT \<longrightarrow> ld_size (lfd_files d i) = ld_size (lfd_files e i) \<and>
       ld_ilist (lfd_files d i) = ld_ilist (lfd_files e i) \<and> (\<forall>k<LF_NAME_LEN. ld_name (lfd_files d i) k = ld_name (lfd_files e i) k))"

lemma dir_eq_refl [simp]: "dir_eq d d"
  by (simp add: dir_eq_def)

lemma disk_rep_dir:
  assumes "dir_eq d e" and "0 \<le> i" "i < 20"
  shows "disk_rep ni I B D d i xs = disk_rep ni I B D e i xs"
  using assms by (simp add: disk_rep_def disk_blocks_def dir_eq_def)

lemma dec_enc_ld:
  "ld_size (dec_ld (enc_ld e)) = ld_size e" "ld_ilist (dec_ld (enc_ld e)) = ld_ilist e"
  "k < 16 \<Longrightarrow> ld_name (dec_ld (enc_ld e)) k = ld_name e k"
proof -
  have "(\<lambda>k. enc_ld e (k + 2)) = bytes_word (ld_name e)" by (simp add: enc_ld_def)
  then show "k < 16 \<Longrightarrow> ld_name (dec_ld (enc_ld e)) k = ld_name e k" by (simp add: dec_ld_def)
qed (simp_all add: dec_ld_def enc_ld_def)

lemma enc_dir_entry:
  assumes "n < 20" "k < 6"
  shows "enc_dir d (3 + 6 * n + k) = enc_ld (lfd_files d (int n)) k"
proof -
  have "(6 * n + k) div 6 = n" "(6 * n + k) mod 6 = k" using assms by simp_all
  then show ?thesis using assms by (simp add: enc_dir_def)
qed

lemma dec_ld_cong: "(\<And>k. k < 6 \<Longrightarrow> w k = w' k) \<Longrightarrow> dec_ld w = dec_ld w'"
proof -
  assume eq: "\<And>k. k < 6 \<Longrightarrow> w k = w' k"
  have "word_byte (\<lambda>k. w (k + 2)) i = word_byte (\<lambda>k. w' (k + 2)) i" if "i < 16" for i
    using eq [of "i div 4 + 2"] that less_mult_imp_div_less [of i 4 4] by (simp add: word_byte_def)
  then show ?thesis using eq [of 0] eq [of 1] by (simp add: dec_ld_def cong: if_cong)
qed

lemma dec_enc_dir:
  assumes "\<And>k. k < 128 \<Longrightarrow> w k = enc_dir d k"
  shows "dir_eq (dec_dir w) d"
proof -
  have ent: "lfd_files (dec_dir w) (int n) = dec_ld (enc_ld (lfd_files d (int n)))" if "n < 20" for n
    unfolding dec_dir_def using that assms enc_dir_entry [of n] by (auto intro!: dec_ld_cong)
  have "ld_size (lfd_files (dec_dir w) i) = ld_size (lfd_files d i) \<and> ld_ilist (lfd_files (dec_dir w) i) = ld_ilist (lfd_files d i) \<and>
    (\<forall>k<16. ld_name (lfd_files (dec_dir w) i) k = ld_name (lfd_files d i) k)" if "0 \<le> i" "i < 20" for i
    using ent [of "nat i"] that dec_enc_ld by simp
  moreover have "w 0 = lfd_dfree d" "w 1 = lfd_ifree d" "w 2 = lfd_nfiles d" by (simp_all add: assms enc_dir_def)
  ultimately show ?thesis by (simp add: dir_eq_def) (simp add: dec_dir_def)
qed

lemma dir_eq_put: "D' 0 = dirput D d 0 \<Longrightarrow> dir_eq (dec_dir (D' 0)) d"
  by (rule dec_enc_dir) (simp add: dwrite_def)

text \<open>A disk on which all blocks of the free lists are accounted for.\<close>

definition free_rep :: "nat \<Rightarrow> u32 set \<Rightarrow> u32 set \<Rightarrow> (int \<Rightarrow> wbuf) \<Rightarrow> lfdir \<Rightarrow> bool" where
  "free_rep ni I B D dir \<longleftrightarrow> (\<exists>fis fds. idx_rep ni D (- 1) (lfd_ifree dir) no_block [] fis [] \<and>
     dat_rep ni D (lfd_dfree dir) no_block [] fds [] \<and> set fis = I \<and> set fds = B)"

lemma free_rep_new:
  assumes "free_rep ni I B D dir" and "lfd_ifree dir' = lfd_ifree dir" "lfd_dfree dir' = lfd_dfree dir"
    and "ld_size (lfd_files dir' i) = 0" "ld_ilist (lfd_files dir' i) = - 1"
  shows "disk_rep ni I B D dir' i []"
proof -
  obtain fis fds where "idx_rep ni D (- 1) (lfd_ifree dir) no_block [] fis []" "dat_rep ni D (lfd_dfree dir) no_block [] fds []"
    "set fis = I" "set fds = B" using assms(1) unfolding free_rep_def by blast
  then show ?thesis unfolding disk_rep_def disk_blocks_def using assms(2-5)
    by (intro exI [of _ "[]"] exI [of _ fis] exI [of _ "[]"] exI [of _ fds]) simp
qed

lemma free_rep_dir: "dir_eq d e \<Longrightarrow> free_rep ni I B D d = free_rep ni I B D e"
  by (simp add: free_rep_def dir_eq_def)

text \<open>The directory is on the disk, or it will be written there by the next flush.\<close>

definition saved :: "lfview \<Rightarrow> bool" where
  "saved v \<longleftrightarrow> lf_dirdirty (vdata v) \<or> dir_eq (dec_dir (vdisk v 0)) (lf_dir (vdata v))"

lemma flush_saved:
  assumes R: "blocks_rep ni v ibs fis ds fds xs" and S: "saved v"
  shows "dir_eq (dec_dir (vdisk (flush v) 0)) (lf_dir (vdata v))" and "lf_dir (vdata (flush v)) = lf_dir (vdata v)"
proof -
  have i: "iput D (lfinum (vcb v)) x 0 = D 0" if "lfibdirty (vcb v)" for D x
    using R that ib_bound [of "lfinum (vcb v)" ni] unfolding blocks_rep_def idx_rep_def by (intro iput_sector) auto
  have "ni < unat (lfdnum (vcb v)) \<and> unat (lfdnum (vcb v)) < 200" if "lfdbdirty (vcb v)"
    using R that unfolding blocks_rep_def dat_rep_def by auto
  then have "sint (lfdnum (vcb v)) = int (unat (lfdnum (vcb v)))" "0 < int (unat (lfdnum (vcb v)))" if "lfdbdirty (vcb v)"
    using that by (auto intro!: data_sint simp del: of_nat_unat)
  then have d: "dwrite D (lfdnum (vcb v)) x 0 = D 0" if "lfdbdirty (vcb v)" for D x
    using that by (simp add: dwrite_def del: of_nat_unat)
  have "vdisk (flush v) 0 = (if lf_dirdirty (vdata v) then dirput (vdisk v) (lf_dir (vdata v)) 0 else vdisk v 0)"
    using i d by (simp add: flush_def Let_def)
  then show "dir_eq (dec_dir (vdisk (flush v) 0)) (lf_dir (vdata v))"
    using S dir_eq_put [of "vdisk (flush v)" "vdisk v"] unfolding saved_def by (auto split: if_splits)
  show "lf_dir (vdata (flush v)) = lf_dir (vdata v)" by (simp add: flush_def Let_def)
qed


subsection \<open>Closing\<close>

lemma close_runs:
  assumes F: "file_rep ni I B v xs" and U: "usable v"
  shows "\<exists>v'. lruns f (lflclose (devtab d) f) v OK v' \<and> lfstate (vcb v') = LF_FREE \<and> frame_rep ni I B v v' \<and>
    disk_rep ni I B (vdisk v') (lf_dir (vdata v')) (lfdirptr (vcb v)) xs \<and> lf_dir (vdata v') = lf_dir (vdata v) \<and>
    (saved v \<longrightarrow> dir_eq (dec_dir (vdisk v' 0)) (lf_dir (vdata v))) \<and> ib_norm (lfiblock (vcb v'))"
proof -
  obtain ibs fis ds fds where R: "blocks_rep ni v ibs fis ds fds xs" and IB: "set (ibs @ fis) = I" "set (ds @ fds) = B"
    using F unfolding file_rep_def by blast
  define m where "m = lfmutex (vcb v)"
  define u where "u = vlock m v"
  have free: "vfree v m" using U by (simp add: usable_def m_def)
  have Ru: "blocks_rep ni u ibs fis ds fds xs" using R by (simp add: u_def)
  define w where "w = (if lf_dirdirty (vdata u) \<or> lfdbdirty (vcb u) \<or> lfibdirty (vcb u) then flush u else u)"
  have Rw: "blocks_rep ni w ibs fis ds fds xs" and cw: "clean w" and dw: "lf_dir (vdata w) = lf_dir (vdata v)"
    using flush_rep [OF Ru] flush_saved(2) [OF Ru] Ru by (auto simp: w_def clean_def u_def)
  have fw: "frame_rep ni I B u w" using flush_frame [OF Ru, of I B] IB by (auto simp: w_def)
  have sw: "saved v \<Longrightarrow> dir_eq (dec_dir (vdisk w 0)) (lf_dir (vdata v))"
    using flush_saved(1) [OF Ru] by (auto simp: w_def u_def saved_def)
  let ?w = "w\<lparr>vcb := (vcb w)\<lparr>lfstate := LF_FREE\<rparr>\<rparr>"
  let ?v = "?w\<lparr>vsem := vsem v\<rparr>"
  have frw: "frame_rep ni I B u ?w" by (rule frame_trans [OF fw]) (rule frame_cb, simp_all)
  have dev: "lf_dskdev (vdata u) = RAM0" "lfstate (vcb u) = LF_USED" using Ru by (simp_all add: blocks_rep_def)
  have fl: "lruns f (if lf_dirdirty (vdata u) \<or> lfdbdirty (vcb u) \<or> lfibdirty (vcb u)
      then pbind (lfflush (devtab d) f) (\<lambda>_. Ret ()) else Ret ()) u () w"
    unfolding w_def by (rule lruns_if) (rule lf.vruns_bind [OF lruns_flush [OF dev] lf.vruns_Ret])
  have "lruns f (lflclose (devtab d) f) v OK ?v"
    unfolding lflclose_def
    apply (rule lruns_with_file [OF U file_used [OF F]])
    apply (unfold m_def [symmetric] u_def [symmetric])
    apply (rule lf.vruns_read [where g = "\<lambda>v. lf_dirdirty (vdata v) \<or> lfdbdirty (vcb v) \<or> lfibdirty (vcb v)"], simp)
    apply (rule lf.vruns_bind [OF fl])
    apply (rule lf.vruns_bind [OF lruns_lf])
    apply (rule lruns_leave [OF free])
    apply (use frame_sem [OF frw] in \<open>simp add: u_def\<close>)
    done
  moreover have "frame_rep ni I B v ?v" using frw frame_unlock unfolding u_def by blast
  moreover have "disk_rep ni I B (vdisk ?v) (lf_dir (vdata ?v)) (lfdirptr (vcb v)) xs"
    using disk_blocks_of [OF Rw cw] IB frw unfolding disk_rep_def frame_rep_def by (auto simp: u_def)
  moreover have "ib_norm (lfiblock (vcb w))" using Rw unfolding blocks_rep_def idx_rep_def by blast
  ultimately show ?thesis using dw sw by (intro exI [of _ ?v]) simp
qed


subsection \<open>Opening\<close>

text \<open>The control block and the directory entry after opening.\<close>

definition open_cb :: "int \<Rightarrow> u32 \<Rightarrow> u8 list \<Rightarrow> lflcblk \<Rightarrow> lflcblk" where
  "open_cb i mbits name c = c\<lparr>lfstate := LF_USED, lfdirptr := i, lfmode := mbits AND LF_MODE_RW,
     lfpos := 0, lfname := overwrite_name name (lfname c), lfinum := LF_INULL, lfdnum := LF_DNULL,
     lfbyte := LF_BLKSIZ, lfibdirty := False, lfdbdirty := False\<rparr>"

definition new_entry :: "u8 list \<Rightarrow> lfdir \<Rightarrow> lfdir" where
  "new_entry name dir = (let i = sint (lfd_nfiles dir); e = lfd_files dir i in
     dir\<lparr>lfd_nfiles := lfd_nfiles dir + 1,
       lfd_files := (lfd_files dir)(i := e\<lparr>ld_size := 0, ld_name := copy_fname name (ld_name e) 0, ld_ilist := LF_INULL\<rparr>)\<rparr>)"

definition load_dir :: "lfview \<Rightarrow> lfview" where
  "load_dir v = (if lf_dirpresent (vdata v) then v
     else v\<lparr>vdata := (vdata v)\<lparr>lf_dir := dec_dir (\<lambda>i. if i < 128 then vdisk v 0 i else enc_dir (lf_dir (vdata v)) i),
       lf_dirpresent := True\<rparr>\<rparr>)"

lemma load_dir_sel [simp]:
  "vsem (load_dir v) = vsem v" "vdisk (load_dir v) = vdisk v" "vcb (load_dir v) = vcb v" "vstack (load_dir v) = vstack v"
  "lf_mutex (vdata (load_dir v)) = lf_mutex (vdata v)" "lf_dskdev (vdata (load_dir v)) = lf_dskdev (vdata v)"
  by (simp_all add: load_dir_def)

lemma load_dir_vsem [simp]: "load_dir (v\<lparr>vsem := x\<rparr>) = (load_dir v)\<lparr>vsem := x\<rparr>"
  by (cases v) (simp add: load_dir_def cong: if_cong)

lemma lruns_open_dir:
  assumes "lf_dskdev (vdata v) = RAM0"
  shows "lruns f (lfsopen_dir (devtab d)) v OK (load_dir v)"
  unfolding lfsopen_dir_def
  apply (rule lf.vruns_read [where g = vdata], simp)
  apply (cases "lf_dirpresent (vdata v)")
   apply (simp add: load_dir_def lf.vruns_Ret)
  apply (simp add: assms)
  apply (rule lf.vruns_bind [OF lruns_read], simp)
  apply (rule lf.vruns_bind [OF lruns_lfd])
  apply (rule lruns_RetI, simp add: load_dir_def cong: if_cong)
  done

lemma lruns_open_init: "lruns f (pmodify (lfsopen_init f i mbits name)) v () (v\<lparr>vcb := open_cb i mbits name (vcb v)\<rparr>)"
  unfolding lfsopen_init_def open_cb_def by (rule lruns_lf)

lemma open_finish:
  assumes "vfree v m" and "vsem u = vsem (vlock m v)"
  shows "lruns f (pbind (pmodify (lfsopen_init f i mbits name)) (\<lambda>_. pbind (pcall (signal m)) (\<lambda>_. pgets (\<lambda>s. lfdev (lfltab s f)))))
    u (lfdev (vcb u)) (u\<lparr>vcb := open_cb i mbits name (vcb u), vsem := vsem v\<rparr>)"
proof -
  let ?w = "u\<lparr>vcb := open_cb i mbits name (vcb u), vsem := vsem v\<rparr>"
  have "lruns f (pgets (\<lambda>s. lfdev (lfltab s f))) ?w (lfdev (vcb ?w)) ?w" by (rule lf.vruns_gets) simp
  then have "lruns f (pgets (\<lambda>s. lfdev (lfltab s f))) ?w (lfdev (vcb u)) ?w" by (simp add: open_cb_def)
  then show ?thesis
    by (intro lf.vruns_bind [OF lruns_open_init] lf.vruns_bind [OF lruns_signal [OF assms(1)]]) (use assms(2) in \<open>simp_all\<close>)
qed

lemma open_old_runs:
  assumes free: "vfree v m" and sem: "vsem u = vsem (vlock m v)"
    and i: "lfsopen_find (lf_dir (vdata u)) name = Some i" and mode: "mbits AND LF_MODE_N = 0"
  shows "lruns f (lfsopen_entry f mbits name m) u (lfdev (vcb u)) (u\<lparr>vcb := open_cb (int i) mbits name (vcb u), vsem := vsem v\<rparr>)"
  unfolding lfsopen_entry_def
  apply (rule lf.vruns_read [where g = "\<lambda>v. lf_dir (vdata v)"], simp)
  apply (simp add: i mode)
  apply (rule open_finish [OF free sem])
  done

lemma open_new_runs:
  assumes free: "vfree v m" and sem: "vsem u = vsem (vlock m v)"
    and i: "lfsopen_find (lf_dir (vdata u)) name = None" and mode: "mbits AND LF_MODE_O = 0"
    and room: "sint (lfd_nfiles (lf_dir (vdata u))) < LF_NUM_DIR_ENT"
  shows "lruns f (lfsopen_entry f mbits name m) u (lfdev (vcb u))
    (u\<lparr>vdata := (vdata u)\<lparr>lf_dir := new_entry name (lf_dir (vdata u))\<rparr>,
      vcb := open_cb (sint (lfd_nfiles (lf_dir (vdata u)))) mbits name (vcb u), vsem := vsem v\<rparr>)"
proof -
  let ?i = "sint (lfd_nfiles (lf_dir (vdata u)))"
  let ?d = "(lf_dir (vdata u))\<lparr>lfd_nfiles := lfd_nfiles (lf_dir (vdata u)) + 1\<rparr>"
  let ?u = "u\<lparr>vdata := (vdata u)\<lparr>lf_dir := new_entry name (lf_dir (vdata u))\<rparr>\<rparr>"
  have e: "lruns f (pmodify (upd_ld ?i (\<lambda>e. e\<lparr>ld_size := 0, ld_name := copy_fname name (ld_name e) 0, ld_ilist := LF_INULL\<rparr>)))
    (u\<lparr>vdata := (vdata u)\<lparr>lf_dir := ?d\<rparr>\<rparr>) () ?u"
    unfolding upd_ld_def upd_dir_def by (rule lruns_lfdI) (simp add: new_entry_def Let_def)
  have "lruns f (lfsopen_entry f mbits name m) u (lfdev (vcb ?u)) (?u\<lparr>vcb := open_cb ?i mbits name (vcb ?u), vsem := vsem v\<rparr>)"
    unfolding lfsopen_entry_def
    apply (rule lf.vruns_read [where g = "\<lambda>v. lf_dir (vdata v)"], simp)
    apply (simp only: i mode option.case Let_def)
    apply (subst if_not_P, simp)
    apply (subst if_not_P, use room in simp)
    apply (rule lf.vruns_bind [OF lruns_dir])
    apply (rule lf.vruns_bind [OF e])
    apply (rule open_finish [OF free], use sem in simp)
    done
  then show ?thesis by simp
qed

text \<open>The name cannot be opened: it is there and the mode asks for a new file, it is not there and the mode
  asks for an old one, or the directory is full.\<close>

lemma open_refused:
  assumes free: "vfree v m" and sem: "vsem u = vsem (vlock m v)"
    and bad: "case lfsopen_find (lf_dir (vdata u)) name of Some i \<Rightarrow> mbits AND LF_MODE_N \<noteq> 0
      | None \<Rightarrow> mbits AND LF_MODE_O \<noteq> 0 \<or> LF_NUM_DIR_ENT \<le> sint (lfd_nfiles (lf_dir (vdata u)))"
  shows "lruns f (lfsopen_entry f mbits name m) u SYSERR (u\<lparr>vsem := vsem v\<rparr>)"
proof -
  have "lruns f (leave m SYSERR) u SYSERR (u\<lparr>vsem := vsem v\<rparr>)" by (rule lruns_leave [OF free sem])
  then show ?thesis unfolding lfsopen_entry_def using bad
    by (intro lf.vruns_read [where g = "\<lambda>v. lf_dir (vdata v)"]) (auto split: option.splits)
qed

text \<open>The whole call, on a state.\<close>

lemma lfsopen_runs:
  fixes s :: "'a lfstate_t_scheme"
  assumes name: "length name < LF_NAME_LEN" and mode: "lfgetmode mode = Some mbits"
    and slot: "lfsopen_slave (lfltab s) (map of_char name) [0..<Nlfl] SYSERR = Some f" "f \<noteq> SYSERR"
    and free: "vfree (lview f s) (lf_mutex (lf_data s))" and dev: "lf_dskdev (lf_data s) = RAM0"
    and body: "lruns f (lfsopen_entry f mbits (map of_char name) (lf_mutex (lf_data s)) :: ('a lfstate_t_scheme, int) prog)
      (load_dir (vlock (lf_mutex (lf_data s)) (lview f s))) r u"
  shows "runs (lfsopen (devtab d) name mode) s r (lput f u s)"
proof -
  let ?m = "lf_mutex (lf_data s)" and ?v = "lview f s"
  have "lruns f (pbind (pgets (\<lambda>s. lf_mutex (lf_data s))) (\<lambda>mutex. pbind (pcall (wait mutex)) (\<lambda>_.
      pbind (lfsopen_dir (devtab d)) (\<lambda>retval. if retval = SYSERR then leave mutex SYSERR
        else lfsopen_entry f mbits (map of_char name) mutex)))) ?v r u"
    apply (rule lf.vruns_read [where g = "\<lambda>v. lf_mutex (vdata v)"], simp)
    apply (rule lf.vruns_bind [OF lruns_wait], use free in simp)
    apply (rule lf.vruns_bind [OF lruns_open_dir], use dev in simp)
    apply (use body in simp)
    done
  then have "runs (pbind (pgets (\<lambda>s. lf_mutex (lf_data s))) (\<lambda>mutex. pbind (pcall (wait mutex)) (\<lambda>_.
      pbind (lfsopen_dir (devtab d)) (\<lambda>retval. if retval = SYSERR then leave mutex SYSERR
        else lfsopen_entry f mbits (map of_char name) mutex)))) s r (lput f u s)" by (rule lf.vrunsD)
  then show ?thesis unfolding lfsopen_def Let_def using name mode slot
    by (simp add: runs_bind [OF runs_gets])
qed


text \<open>Only the 128 words of the sector count.\<close>

lemma dec_dir_cong:
  assumes "\<And>k. k < 128 \<Longrightarrow> w k = w' k"
  shows "dir_eq (dec_dir w) (dec_dir w')"
proof -
  have "dec_ld (\<lambda>k. w (3 + 6 * nat i + k)) = dec_ld (\<lambda>k. w' (3 + 6 * nat i + k))" if "i < 20" for i
    using that assms by (intro dec_ld_cong) simp
  then show ?thesis using assms by (simp add: dir_eq_def dec_dir_def)
qed

lemma load_dir_eq: "\<not> lf_dirpresent (vdata v) \<Longrightarrow> dir_eq (lf_dir (vdata (load_dir v))) (dec_dir (vdisk v 0))"
  unfolding load_dir_def by (simp add: dec_dir_cong)

lemma dir_eq_trans: "dir_eq a b \<Longrightarrow> dir_eq b c \<Longrightarrow> dir_eq a c"
  by (simp add: dir_eq_def)

text \<open>An entry that is on the disk is opened at its beginning.\<close>

lemma open_cb_vacant: "ib_norm (lfiblock c) \<Longrightarrow> vacant (open_cb i mbits name c)"
  by (simp add: vacant_def open_cb_def)

lemma open_old_file:
  fixes s :: "'a lfstate_t_scheme"
  assumes name: "length name < LF_NAME_LEN" and mode: "lfgetmode mode = Some mbits" "mbits AND LF_MODE_N = 0"
    and slot: "lfsopen_slave (lfltab s) (map of_char name) [0..<Nlfl] SYSERR = Some f" "f \<noteq> SYSERR"
    and dev: "lf_dskdev (lf_data s) = RAM0" and U: "usable (lview f s)" and norm: "ib_norm (lfiblock (lfltab s f))"
    and find: "lfsopen_find (lf_dir (vdata (load_dir (lview f s)))) (map of_char name) = Some i"
    and rep: "disk_rep ni I B (ramdisk s) (lf_dir (vdata (load_dir (lview f s)))) (int i) xs"
  shows "\<exists>u. runs (lfsopen (devtab d) name mode) s (lfdev (lfltab s f)) (lput f u s) \<and> file_rep ni I B u xs \<and> lfpos (vcb u) = 0 \<and>
    usable u \<and> vdata u = vdata (load_dir (lview f s)) \<and> vcb u = open_cb (int i) mbits (map of_char name) (lfltab s f) \<and> vdisk u = ramdisk s"
proof -
  let ?v = "lview f s" and ?m = "lf_mutex (lf_data s)"
  have free: "vfree ?v ?m" using U by (simp add: usable_def)
  let ?w = "load_dir (vlock ?m ?v)"
  have w: "vdata ?w = vdata (load_dir ?v)" by (simp add: vlock_def)
  let ?u = "?w\<lparr>vcb := open_cb (int i) mbits (map of_char name) (vcb ?w), vsem := vsem ?v\<rparr>"
  have "lruns f (lfsopen_entry f mbits (map of_char name) ?m :: ('a lfstate_t_scheme, int) prog) ?w (lfdev (vcb ?w)) ?u"
    by (rule open_old_runs [OF free]) (use find mode(2) w in simp_all)
  then have run: "runs (lfsopen (devtab d) name mode) s (lfdev (vcb ?w)) (lput f ?u s)"
    by (rule lfsopen_runs [OF name mode(1) slot free dev])
  have "file_rep ni I B ?u xs"
    by (rule file_of_disk) (use rep w norm open_cb_vacant [of "lfltab s f"] dev in \<open>simp_all add: open_cb_def\<close>)
  moreover have "usable ?u" using U by (simp add: usable_def vfree_def open_cb_def)
  ultimately show ?thesis using run w by (intro exI [of _ ?u]) (simp add: open_cb_def)
qed

text \<open>A name that is not there becomes an empty file.\<close>

lemma open_new_file:
  fixes s :: "'a lfstate_t_scheme"
  assumes name: "length name < LF_NAME_LEN" and mode: "lfgetmode mode = Some mbits" "mbits AND LF_MODE_O = 0"
    and slot: "lfsopen_slave (lfltab s) (map of_char name) [0..<Nlfl] SYSERR = Some f" "f \<noteq> SYSERR"
    and dev: "lf_dskdev (lf_data s) = RAM0" and U: "usable (lview f s)" and norm: "ib_norm (lfiblock (lfltab s f))"
    and find: "lfsopen_find (lf_dir (vdata (load_dir (lview f s)))) (map of_char name) = None"
    and room: "sint (lfd_nfiles (lf_dir (vdata (load_dir (lview f s))))) < LF_NUM_DIR_ENT"
    and rep: "free_rep ni I B (ramdisk s) (lf_dir (vdata (load_dir (lview f s))))"
  shows "\<exists>u. runs (lfsopen (devtab d) name mode) s (lfdev (lfltab s f)) (lput f u s) \<and> file_rep ni I B u [] \<and> lfpos (vcb u) = 0 \<and>
    usable u \<and> lf_dir (vdata u) = new_entry (map of_char name) (lf_dir (vdata (load_dir (lview f s)))) \<and>
    vcb u = open_cb (sint (lfd_nfiles (lf_dir (vdata (load_dir (lview f s)))))) mbits (map of_char name) (lfltab s f) \<and>
    vdisk u = ramdisk s \<and> lf_dirdirty (vdata u) = lf_dirdirty (lf_data s) \<and> lf_dirpresent (vdata u) \<and> lf_mutex (vdata u) = lf_mutex (lf_data s) \<and>
    lf_dskdev (vdata u) = lf_dskdev (lf_data s) \<and> vsem u = semtab s"
proof -
  let ?v = "lview f s" and ?m = "lf_mutex (lf_data s)" and ?dir = "lf_dir (vdata (load_dir (lview f s)))"
  let ?i = "sint (lfd_nfiles ?dir)"
  have free: "vfree ?v ?m" using U by (simp add: usable_def)
  let ?w = "load_dir (vlock ?m ?v)"
  have w: "vdata ?w = vdata (load_dir ?v)" by (simp add: vlock_def)
  let ?u = "?w\<lparr>vdata := (vdata ?w)\<lparr>lf_dir := new_entry (map of_char name) ?dir\<rparr>, vcb := open_cb ?i mbits (map of_char name) (vcb ?w), vsem := vsem ?v\<rparr>"
  have "lruns f (lfsopen_entry f mbits (map of_char name) ?m :: ('a lfstate_t_scheme, int) prog) ?w (lfdev (vcb ?w)) ?u"
    unfolding w [symmetric] by (rule open_new_runs [OF free]) (use find mode(2) w room in simp_all)
  then have run: "runs (lfsopen (devtab d) name mode) s (lfdev (vcb ?w)) (lput f ?u s)"
    by (rule lfsopen_runs [OF name mode(1) slot free dev])
  have "disk_rep ni I B (ramdisk s) (new_entry (map of_char name) ?dir) ?i []"
    by (rule free_rep_new [OF rep]) (simp_all add: new_entry_def Let_def)
  then have "file_rep ni I B ?u []"
    by (intro file_of_disk) (use w norm open_cb_vacant [of "lfltab s f"] dev in \<open>simp_all add: open_cb_def\<close>)
  moreover have "usable ?u" using U by (simp add: usable_def vfree_def open_cb_def)
  moreover have "lf_dirdirty (vdata (load_dir ?v)) = lf_dirdirty (lf_data s)" "lf_dirpresent (vdata (load_dir ?v))" by (simp_all add: load_dir_def)
  ultimately show ?thesis using run w by (intro exI [of _ ?u]) (simp add: open_cb_def)
qed

text \<open>Closing a file with nothing to write.\<close>

lemma close_clean:
  assumes U: "usable v" and st: "lfstate (vcb v) = LF_USED" and clean: "clean v" "\<not> lf_dirdirty (vdata v)"
  shows "lruns f (lflclose (devtab d) f) v OK (v\<lparr>vcb := (vcb v)\<lparr>lfstate := LF_FREE\<rparr>\<rparr>)"
proof -
  let ?u = "vlock (lfmutex (vcb v)) v"
  have "lruns f (lflclose (devtab d) f) v OK (?u\<lparr>vcb := (vcb ?u)\<lparr>lfstate := LF_FREE\<rparr>\<rparr>\<lparr>vsem := vsem v\<rparr>)"
    unfolding lflclose_def
    apply (rule lruns_with_file [OF U st])
    apply (rule lf.vruns_read [where g = "\<lambda>v. lf_dirdirty (vdata v) \<or> lfdbdirty (vcb v) \<or> lfibdirty (vcb v)"], simp)
    apply (subst if_not_P, use clean in \<open>simp add: clean_def\<close>)
    apply (rule lf.vruns_bind [OF lf.vruns_Ret])
    apply (rule lf.vruns_bind [OF lruns_lf])
    apply (rule lruns_leave, use U in \<open>simp_all add: usable_def\<close>)
    done
  then show ?thesis by (cases v) (simp add: vlock_def)
qed

end
