(* ===== verification/File_Create.thy ===== *)
theory File_Create
  imports File_Open
begin

section \<open>Making a file system\<close>

text \<open>
  \<open>lfscreate\<close> writes a directory without files and chains all index blocks and all data sectors into
  the two free lists. A file opened on such a disk is empty.
\<close>

subsection \<open>Chains of consecutive blocks\<close>

text \<open>The blocks from \<open>a\<close> to \<open>b\<close> chained in their order.\<close>

lemma chain_upt:
  assumes "\<And>i. a \<le> i \<Longrightarrow> i < b \<Longrightarrow> nx (of_nat i) = (if Suc i < b then of_nat (Suc i) else - 1)" and "a < b"
  shows "chain nx (of_nat a) (map of_nat [a..<b])"
  using assms
proof (induction "b - a" arbitrary: a)
  case (Suc k)
  show ?case
  proof (cases "Suc a < b")
    case True
    have "chain nx (of_nat (Suc a)) (map of_nat [Suc a..<b])" using Suc(2) True by (intro Suc.hyps(1) Suc.prems(1)) auto
    then show ?thesis using Suc.prems(1) [of a] True upt_conv_Cons [of a b] by simp
  next
    case False
    then have "[a..<b] = [a]" using Suc.prems(2) upt_conv_Cons [of a b] by simp
    then show ?thesis using Suc.prems(1) [of a] Suc.prems(2) False by simp
  qed
qed simp

lemma set_of_nat_upt: "b \<le> 2 ^ 32 \<Longrightarrow> set (map of_nat [a..<b]) = {w :: u32. a \<le> unat w \<and> unat w < b}"
proof (intro equalityI subsetI)
  fix w :: u32 assume "b \<le> 2 ^ 32" "w \<in> {w. a \<le> unat w \<and> unat w < b}"
  then have "w = of_nat (unat w)" "unat w \<in> set [a..<b]" by simp_all
  then show "w \<in> set (map of_nat [a..<b])" by (metis image_eqI list.set_map)
qed (auto simp: unat_of_nat take_bit_nat_eq_self)

lemma distinct_of_nat_upt: "b \<le> 2 ^ 32 \<Longrightarrow> distinct (map (of_nat :: nat \<Rightarrow> u32) [a..<b])"
proof -
  assume "b \<le> 2 ^ 32"
  then have "unat (of_nat x :: u32) = x" if "x < b" for x using that by (simp add: unat_of_nat take_bit_nat_eq_self)
  then show ?thesis by (auto simp: distinct_map inj_on_def) metis
qed

text \<open>The free lists that \<open>lfscreate\<close> builds on a disk of \<open>n\<close> sectors with \<open>ni\<close> sectors of index blocks.\<close>

definition fresh_disk :: "nat \<Rightarrow> nat \<Rightarrow> (int \<Rightarrow> wbuf) \<Rightarrow> bool" where
  "fresh_disk ni n D \<longleftrightarrow>
     (\<forall>i<7 * ni. iget D (of_nat i) = (lfibclear 0)\<lparr>ib_next := if Suc i < 7 * ni then of_nat (Suc i) else - 1\<rparr>) \<and>
     (\<forall>i. ni < i \<longrightarrow> i < n \<longrightarrow> D (int i) 0 = (if Suc i < n then of_nat (Suc i) else - 1)) \<and>
     dir_eq (dec_dir (D 0)) (zero_dir\<lparr>lfd_dfree := of_nat (Suc ni)\<rparr>)"

lemma fresh_free:
  assumes F: "fresh_disk ni n D" and ni: "0 < ni" "Suc ni < n" "n \<le> 200"
  shows "free_rep ni {ib. unat ib < 7 * ni} {d. ni < unat d \<and> unat d < n} D (dec_dir (D 0))"
proof -
  let ?fis = "map of_nat [0..<7 * ni] :: u32 list" and ?fds = "map of_nat [Suc ni..<n] :: u32 list"
  have u: "unat (of_nat i :: u32) = i" "sint (of_nat i :: u32) = int i" if "i < 1400" for i
  proof -
    show n: "unat (of_nat i :: u32) = i" using that by (simp add: unat_of_nat take_bit_nat_eq_self)
    then show "sint (of_nat i :: u32) = int i" using sint_small [of "of_nat i"] that by simp
  qed
  have "chain (\<lambda>ib. ib_next (iget D ib)) (of_nat 0) ?fis"
    using F ni unfolding fresh_disk_def by (intro chain_upt) auto
  then have c: "chain (\<lambda>ib. ib_next (iget D ib)) 0 ?fis" by simp
  have I: "set ?fis = {ib. unat ib < 7 * ni}" using set_of_nat_upt [of "7 * ni" 0] ni by simp
  have idx: "idx_rep ni D (- 1) 0 no_block [] ?fis []"
    using c I ni distinct_of_nat_upt [of "7 * ni" 0] by (auto simp: idx_rep_def iblocks_def simp del: set_map)
  have B: "set ?fds = {d. ni < unat d \<and> unat d < n}" using set_of_nat_upt [of n "Suc ni"] ni by (auto simp: Suc_le_eq)
  have d: "chain (\<lambda>d. D (sint d) 0) (of_nat (Suc ni)) ?fds"
    using F ni u(2) unfolding fresh_disk_def by (intro chain_upt) auto
  have dat: "dat_rep ni D (of_nat (Suc ni)) no_block [] ?fds []"
    using d B ni distinct_of_nat_upt [of n "Suc ni"] by (auto simp: dat_rep_def simp del: set_map of_nat_Suc)
  have dir: "lfd_ifree (dec_dir (D 0)) = 0" "lfd_dfree (dec_dir (D 0)) = of_nat (Suc ni)"
    using F unfolding fresh_disk_def dir_eq_def zero_dir_def by simp_all
  show ?thesis unfolding free_rep_def dir
    by (rule exI [of _ ?fis], rule exI [of _ ?fds]) (intro conjI idx dat I B)
qed


subsection \<open>lfscreate\<close>

lemma u32_of_nat: "i < 1400 \<Longrightarrow> unat (of_nat i :: u32) = i" "i < 1400 \<Longrightarrow> sint (of_nat i :: u32) = int i"
proof -
  show u: "i < 1400 \<Longrightarrow> unat (of_nat i :: u32) = i" by (simp add: unat_of_nat take_bit_nat_eq_self)
  show "i < 1400 \<Longrightarrow> sint (of_nat i :: u32) = int i" using sint_small [of "of_nat i"] u by simp
qed

lemma index_loop:
  assumes m: "m < 1393"
  shows "\<exists>v'. lruns f (pfor [0..<m] (\<lambda>i. pbind (lfibput (devtab d) RAM0 (of_nat i) ((lfibclear 0)\<lparr>ib_next := of_nat i + 1\<rparr>)) (\<lambda>_. Ret ()))) v () v' \<and>
    (\<exists>D. v' = v\<lparr>vdisk := D\<rparr> \<and> (\<forall>i<m. iget D (of_nat i) = (lfibclear 0)\<lparr>ib_next := of_nat (Suc i)\<rparr>) \<and> D 0 = vdisk v 0)"
proof -
  let ?P = "\<lambda>k u. \<exists>D. u = v\<lparr>vdisk := D\<rparr> \<and> (\<forall>i<k. iget D (of_nat i) = (lfibclear 0)\<lparr>ib_next := of_nat (Suc i)\<rparr>) \<and> D 0 = vdisk v 0"
  have "\<exists>v'. lruns f (pfor [0..<m] (\<lambda>i. pbind (lfibput (devtab d) RAM0 (of_nat i) ((lfibclear 0)\<lparr>ib_next := of_nat i + 1\<rparr>)) (\<lambda>_. Ret ()))) v () v' \<and>
    ?P (length [0..<m]) v'"
  proof (rule lf.vruns_for)
    fix n and u :: lfview assume n: "n < length [0..<m]" and "?P n u"
    then obtain D where D: "u = v\<lparr>vdisk := D\<rparr>" "\<forall>i<n. iget D (of_nat i) = (lfibclear 0)\<lparr>ib_next := of_nat (Suc i)\<rparr>" "D 0 = vdisk v 0" by blast
    define x where "x = (lfibclear 0)\<lparr>ib_next := of_nat n + 1\<rparr>"
    have un: "unat (of_nat n :: u32) < 1393" using n m u32_of_nat(1) [of n] by simp
    have same: "iget (iput D (of_nat n) x) (of_nat n) = x" by (rule iget_iput_same [OF un]) (simp add: x_def)
    have other: "iget (iput D (of_nat n) x) (of_nat i) = iget D (of_nat i)" if "i < n" for i
    proof (rule iget_iput_other [OF un])
      show "unat (of_nat i :: u32) < 1393" using that n m u32_of_nat(1) [of i] by simp
      then show "of_nat i \<noteq> (of_nat n :: u32)" using that n m u32_of_nat(1) [of i] u32_of_nat(1) [of n] by auto
    qed
    have "iput D (of_nat n) x 0 = D 0" by (rule iput_sector [OF un]) simp
    then have "?P (Suc n) (v\<lparr>vdisk := iput D (of_nat n) x\<rparr>)"
      using D same other by (intro exI [of _ "iput D (of_nat n) x"]) (auto simp: less_Suc_eq x_def)
    moreover have "lruns f (pbind (lfibput (devtab d) RAM0 (of_nat n) x) (\<lambda>_. Ret ())) u () (u\<lparr>vdisk := iput (vdisk u) (of_nat n) x\<rparr>)"
      by (rule lf.vruns_bind [OF lruns_ibput lf.vruns_Ret])
    ultimately show "\<exists>u'. lruns f (pbind (lfibput (devtab d) RAM0 (of_nat ([0..<m] ! n)) ((lfibclear 0)\<lparr>ib_next := of_nat ([0..<m] ! n) + 1\<rparr>))
        (\<lambda>_. Ret ())) u () u' \<and> ?P (Suc n) u'"
      using n D(1) unfolding x_def by (intro exI [of _ "v\<lparr>vdisk := iput D (of_nat n) x\<rparr>"]) (simp add: x_def)
  qed (intro exI [of _ "vdisk v"], simp)
  then show ?thesis by simp
qed

lemma data_loop:
  assumes m: "Suc ni + m < 200"
  shows "\<exists>v'. lruns f (pfor [0..<m] (\<lambda>i. pbind (write_dev (devtab d) RAM0 ((\<lambda>_. 0)(0 := of_nat (Suc ni) + of_nat i + 1)) (of_nat (Suc ni) + of_nat i)) (\<lambda>_. Ret ()))) v () v' \<and>
    (\<exists>D. v' = v\<lparr>vdisk := D\<rparr> \<and> (\<forall>i<m. D (int (Suc ni + i)) 0 = of_nat (Suc (Suc ni + i))) \<and> (\<forall>k\<le>int ni. D k = vdisk v k))"
proof -
  let ?P = "\<lambda>j u. \<exists>D. u = v\<lparr>vdisk := D\<rparr> \<and> (\<forall>i<j. D (int (Suc ni + i)) 0 = of_nat (Suc (Suc ni + i))) \<and> (\<forall>k\<le>int ni. D k = vdisk v k)"
  let ?b = "\<lambda>i. pbind (write_dev (devtab d) RAM0 ((\<lambda>_. 0)(0 := of_nat (Suc ni) + of_nat i + 1)) (of_nat (Suc ni) + of_nat i)) (\<lambda>_. Ret ())"
  have "\<exists>v'. lruns f (pfor [0..<m] ?b) v () v' \<and> ?P (length [0..<m]) v'"
  proof (rule lf.vruns_for)
    fix n and u :: lfview assume n: "n < length [0..<m]" and "?P n u"
    then obtain D where D: "u = v\<lparr>vdisk := D\<rparr>" "\<forall>i<n. D (int (Suc ni + i)) 0 = of_nat (Suc (Suc ni + i))" "\<forall>k\<le>int ni. D k = vdisk v k" by blast
    have w: "of_nat (Suc ni) + of_nat n = (of_nat (Suc ni + n) :: u32)" by simp
    have sn: "sint (of_nat (Suc ni + n) :: u32) = int (Suc ni + n)" using n m by (intro u32_of_nat(2)) simp
    define E where "E = dwrite D (of_nat (Suc ni + n)) ((\<lambda>_. 0)(0 := of_nat (Suc ni + n) + 1))"
    have E: "E k = (if k = int (Suc ni + n) then (\<lambda>i. if i = 0 then of_nat (Suc (Suc ni + n)) else if i < 128 then 0 else D k i) else D k)" for k
      unfolding E_def dwrite_def sn by (simp add: fun_eq_iff add.commute)
    have "\<forall>i<Suc n. E (int (Suc ni + i)) 0 = of_nat (Suc (Suc ni + i))"
    proof (intro allI impI)
      fix i assume "i < Suc n"
      then show "E (int (Suc ni + i)) 0 = of_nat (Suc (Suc ni + i))" using D(2) unfolding E by (cases "i = n") simp_all
    qed
    moreover have "\<forall>k\<le>int ni. E k = vdisk v k" using D(3) unfolding E by simp
    ultimately have "?P (Suc n) (v\<lparr>vdisk := E\<rparr>)" by (intro exI [of _ E]) simp
    moreover have "lruns f (?b n) u () (u\<lparr>vdisk := dwrite (vdisk u) (of_nat (Suc ni + n)) ((\<lambda>_. 0)(0 := of_nat (Suc ni + n) + 1))\<rparr>)"
      unfolding w by (rule lf.vruns_bind [OF lruns_write lf.vruns_Ret])
    then have "lruns f (?b n) u () (v\<lparr>vdisk := E\<rparr>)" using D(1) by (simp add: E_def)
    ultimately show "\<exists>u'. lruns f (?b ([0..<m] ! n)) u () u' \<and> ?P (Suc n) u'" using n by auto
  qed (intro exI [of _ "vdisk v"], simp)
  then show ?thesis by simp
qed


text \<open>The sizes that \<open>lfscreate\<close> computes.\<close>

lemma u32_unat: "unat x = k \<Longrightarrow> x = (of_nat k :: u32)"
  by auto

lemma create_sizes:
  assumes ni: "ni = (unat lfiblks + 6) div 7" and n: "n = unat dsiz div 512" and "ni \<le> n div 2" "n \<le> 200"
  shows "(lfiblks + (7 - 1)) div 7 = (of_nat ni :: u32)" and "dsiz div 512 = (of_nat n :: u32)"
proof -
  have "unat lfiblks + 6 \<le> 706" using assms by linarith
  then have "unat (lfiblks + 6) = unat lfiblks + 6" by (subst unat_add_lt) simp_all
  then have "unat ((lfiblks + 6) div 7) = ni" by (simp add: unat_div ni)
  then have "(lfiblks + 6) div 7 = of_nat ni" by (rule u32_unat)
  then show "(lfiblks + (7 - 1)) div 7 = of_nat ni" by simp
  have "unat (dsiz div 512) = n" by (simp add: unat_div n)
  then show "dsiz div 512 = of_nat n" by (rule u32_unat)
qed

text \<open>The disk after all writes of \<open>lfscreate\<close>.\<close>

lemma fresh_write:
  assumes D1: "\<forall>i<7 * ni - 1. iget D1 (of_nat i) = (lfibclear 0)\<lparr>ib_next := of_nat (Suc i)\<rparr>" "D1 0 = dirput D0 dir 0"
    and D2: "D2 = iput D1 (of_nat (7 * ni - 1)) (lfibclear 0)" and D3: "\<forall>k\<le>int ni. D3 k = D2 k"
      "\<forall>i<n - ni - 2. D3 (int (Suc ni + i)) 0 = of_nat (Suc (Suc ni + i))"
    and ni: "0 < ni" "ni \<le> 100" "Suc ni < n" "n \<le> 200" and dir: "dir = zero_dir\<lparr>lfd_dfree := of_nat (Suc ni)\<rparr>"
  shows "fresh_disk ni n (dwrite D3 (of_nat (n - 1)) ((\<lambda>_. 0)(0 := - 1)))"
proof -
  let ?E = "dwrite D3 (of_nat (n - 1)) ((\<lambda>_. 0)(0 := - 1))"
  have E: "?E k = (if k = int (n - 1) then (\<lambda>i. if i = 0 then - 1 else if i < 128 then 0 else D3 k i) else D3 k)" for k
    using u32_of_nat(2) [of "n - 1"] ni by (auto simp: dwrite_def)
  have low: "?E k = D2 k" if "k \<le> int ni" for k using that ni D3(1) unfolding E by simp
  have u: "unat (of_nat i :: u32) = i" if "i < 7 * ni" for i using that ni by (intro u32_of_nat) simp
  have b: "unat (of_nat i :: u32) < 1393" if "i < 7 * ni" for i using u [OF that] that ni by simp
  have ig: "iget ?E (of_nat i) = iget D2 (of_nat i)" if i: "i < 7 * ni" for i
  proof -
    have "i div 7 < ni" using i by (rule less_mult_imp_div_less [OF less_le_trans]) simp
    then have "sint (ib2sect (of_nat i)) \<le> int ni" using ib2sect_small(1) [OF b [OF i]] u [OF i] by simp
    note same = low [OF this]
    show ?thesis unfolding iget_def same by (rule refl)
  qed
  have l: "7 * ni - 1 < 7 * ni" using ni by simp
  have "iget ?E (of_nat i) = (lfibclear 0)\<lparr>ib_next := if Suc i < 7 * ni then of_nat (Suc i) else - 1\<rparr>" if i: "i < 7 * ni" for i
  proof (cases "i = 7 * ni - 1")
    case True
    have "iget D2 (of_nat (7 * ni - 1)) = lfibclear 0" unfolding D2 by (rule iget_iput_same [OF b [OF l]]) simp
    moreover have "lfibclear 0 = (lfibclear 0)\<lparr>ib_next := - 1\<rparr>" by (simp add: lfibclear_def)
    ultimately show ?thesis unfolding ig [OF i] using True l by simp
  next
    case False
    then have "of_nat i \<noteq> (of_nat (7 * ni - 1) :: u32)" using u [OF i] u [OF l] by metis
    then have "iget D2 (of_nat i) = iget D1 (of_nat i)" unfolding D2 by (rule iget_iput_other [OF b [OF l] b [OF i]])
    then show ?thesis unfolding ig [OF i] using D1(1) i False by simp
  qed
  moreover have "?E (int i) 0 = (if Suc i < n then of_nat (Suc i) else - 1)" if "ni < i" "i < n" for i
  proof (cases "Suc i < n")
    case True
    moreover have "i - Suc ni < n - ni - 2" "Suc ni + (i - Suc ni) = i" using True that by auto
    then have "D3 (int i) 0 = of_nat (Suc i)" using D3(2) by metis
    ultimately show ?thesis unfolding E by simp
  next
    case False
    then show ?thesis unfolding E using that by simp
  qed
  moreover have "D2 0 = dirput D0 dir 0" unfolding D2 using D1(2) iput_sector [OF b [OF l]] by simp
  then have "?E 0 = dirput D0 dir 0" using low [of 0] by simp
  then have "dir_eq (dec_dir (?E 0)) dir" by (rule dir_eq_put)
  ultimately show ?thesis unfolding fresh_disk_def dir by blast
qed

lemma create_runs:
  assumes ni: "ni = (unat lfiblks + 6) div 7" "0 < ni" "ni \<le> n div 2" and n: "n = unat dsiz div 512" "Suc ni < n" "n \<le> 200"
  shows "\<exists>D. lruns f (lfscreate (devtab d) RAM0 lfiblks dsiz) v OK (v\<lparr>vdisk := D\<rparr>) \<and> fresh_disk ni n D"
proof -
  define dir where "dir = zero_dir\<lparr>lfd_dfree := of_nat (Suc ni)\<rparr>"
  define v0 where "v0 = v\<lparr>vdisk := dirput (vdisk v) dir\<rparr>"
  have bound: "7 * ni \<le> 700" "n - ni < 200" "Suc (n - Suc (Suc ni)) = n - Suc ni" using ni(2,3) n(2,3) by auto
  have "7 * ni - 1 < 1393" using bound by simp
  from index_loop [OF this, of f d v0] obtain D1 where D1: "lruns f (pfor [0..<7 * ni - 1] (\<lambda>i. pbind (lfibput (devtab d) RAM0 (of_nat i) ((lfibclear 0)\<lparr>ib_next := of_nat i + 1\<rparr>)) (\<lambda>_. Ret ())))
      v0 () (v0\<lparr>vdisk := D1\<rparr>)" "\<forall>i<7 * ni - 1. iget D1 (of_nat i) = (lfibclear 0)\<lparr>ib_next := of_nat (Suc i)\<rparr>" "D1 0 = vdisk v0 0"
    by blast
  define D2 where "D2 = iput D1 (of_nat (7 * ni - 1)) (lfibclear 0)"
  have "Suc ni + (n - ni - 2) < 200" using ni(2,3) n(2,3) by simp
  from data_loop [OF this, of f d "v\<lparr>vdisk := D2\<rparr>"] obtain D3 where D3: "lruns f (pfor [0..<n - ni - 2] (\<lambda>i. pbind (write_dev (devtab d) RAM0 ((\<lambda>_. 0)(0 := of_nat (Suc ni) + of_nat i + 1)) (of_nat (Suc ni) + of_nat i)) (\<lambda>_. Ret ())))
      (v\<lparr>vdisk := D2\<rparr>) () (v\<lparr>vdisk := D2, vdisk := D3\<rparr>)" "\<forall>i<n - ni - 2. D3 (int (Suc ni + i)) 0 = of_nat (Suc (Suc ni + i))" "\<forall>k\<le>int ni. D3 k = vdisk (v\<lparr>vdisk := D2\<rparr>) k"
    by blast
  define D where "D = dwrite D3 (of_nat (n - 1)) ((\<lambda>_. 0)(0 := LF_DNULL))"
  note w = create_sizes [OF ni(1) n(1) ni(3) n(3)]
  have less: "\<not> of_nat n div 2 < (of_nat ni :: u32)"
    using ni(2,3) n(2,3) u32_of_nat(1) [of ni] u32_of_nat(1) [of n] by (simp add: word_less_nat_alt unat_div)
  have ib: "of_nat ni * 7 = (of_nat (7 * ni) :: u32)" "nat (sint (of_nat (7 * ni) :: u32) - 1) = 7 * ni - 1"
    using bound u32_of_nat(2) [of "7 * ni"] by (simp add: mult.commute, simp add: nat_diff_distrib del: of_nat_mult)
  have db: "of_nat ni + 1 = (of_nat (Suc ni) :: u32)" by simp
  have "n = (n - ni - 2) + ni + 2" using n(2) by simp
  then have "of_nat n = (of_nat (n - ni - 2) + of_nat ni + 2 :: u32)" by (metis of_nat_add of_nat_numeral)
  then have dn: "of_nat n - of_nat ni - 1 - 1 = (of_nat (n - ni - 2) :: u32)" by (simp add: algebra_simps)
  have "Suc ni + (n - ni - 2) = n - 1" using n(2) by simp
  then have last: "of_nat (Suc ni) + of_nat (n - ni - 2) = (of_nat (n - 1) :: u32)" by (metis of_nat_add)
  have un: "unat (of_nat (n - ni - 2) :: u32) = n - ni - 2" using n(3) by (intro u32_of_nat) simp
  have e2: "(v0\<lparr>vdisk := D1\<rparr>)\<lparr>vdisk := iput (vdisk (v0\<lparr>vdisk := D1\<rparr>)) (of_nat (7 * ni - 1)) (lfibclear 0)\<rparr> = v\<lparr>vdisk := D2\<rparr>"
    by (simp add: v0_def D2_def)
  have close: "lruns f (close_dev (devtab d) RAM0) u OK u" for u
    by (simp add: close_dev_def isbaddev_def devtab_def ramclose_def lf.vruns_Ret)
  have "lruns f (lfscreate (devtab d) RAM0 lfiblks dsiz) v OK (v\<lparr>vdisk := D\<rparr>)"
    unfolding lfscreate_def Let_def w ib db dn un last dir_def [symmetric]
    apply (subst if_not_P [OF less])
    apply (rule lf.vruns_bind [OF lruns_write])
    apply (subst if_not_P, simp)
    apply (unfold v0_def [symmetric])
    apply (rule lf.vruns_bind [OF D1(1)])
    apply (rule lf.vruns_bind [OF lruns_ibput])
    apply (unfold e2)
    apply (rule lf.vruns_bind [OF D3(1)])
    apply (rule lf.vruns_bind [OF lruns_write])
    apply (rule lf.vruns_bind [OF close])
    apply (rule lruns_RetI, simp add: D_def)
    done
  moreover have "fresh_disk ni n D"
    unfolding D_def
  proof (rule fresh_write)
    show "\<forall>i<7 * ni - 1. iget D1 (of_nat i) = (lfibclear 0)\<lparr>ib_next := of_nat (Suc i)\<rparr>" by (rule D1(2))
    show "D1 0 = dirput (vdisk v) dir 0" using D1(3) by (simp add: v0_def)
    show "D2 = iput D1 (of_nat (7 * ni - 1)) (lfibclear 0)" by (rule D2_def)
    show "\<forall>k\<le>int ni. D3 k = D2 k" using D3(3) by simp
    show "\<forall>i<n - ni - 2. D3 (int (Suc ni + i)) 0 = of_nat (Suc (Suc ni + i))" by (rule D3(2))
  qed (use ni(2,3) n(2,3) in \<open>auto simp: dir_def\<close>)
  ultimately show ?thesis by blast
qed


subsection \<open>lfsckfmt\<close>

text \<open>Counting the blocks of a chain.\<close>

lemma count_iblks:
  assumes "chain (\<lambda>ib. ib_next (iget (vdisk v) ib)) p ibs" and "\<forall>ib\<in>set ibs. unat ib < 1393" and "length ibs \<le> fuel"
  shows "lruns f (lfsckfmt_iblks (devtab d) RAM0 fuel p k) v (k + length ibs) v"
  using assms
proof (induction ibs arbitrary: p k fuel)
  case Nil
  then show ?case by (cases fuel) (simp_all add: lf.vruns_Ret)
next
  case (Cons x ibs)
  obtain n where n: "fuel = Suc n" using Cons.prems(3) by (cases fuel) auto
  have x: "p = x" "x \<noteq> - 1" "unat x < 1393" using Cons.prems valid_not_null [of x] by auto
  have "lruns f (lfsckfmt_iblks (devtab d) RAM0 n (ib_next (iget (vdisk v) x)) (k + 1)) v (k + 1 + length ibs) v"
    using Cons.prems n by (intro Cons.IH) auto
  then show ?case unfolding n x(1) using x(2) by (simp add: lf.vruns_bind [OF lruns_ibget [OF x(3)]])
qed

lemma count_dblks:
  assumes "chain (\<lambda>d. vdisk v (sint d) 0) p ds" and "\<forall>d\<in>set ds. unat d < 200" and "length ds \<le> fuel"
  shows "lruns f (lfsckfmt_dblks (devtab d) RAM0 fuel p b k) v (k + length ds) v"
  using assms
proof (induction ds arbitrary: p k fuel b)
  case Nil
  then show ?case by (cases fuel) (simp_all add: lf.vruns_Ret)
next
  case (Cons x ds)
  obtain n where n: "fuel = Suc n" using Cons.prems(3) by (cases fuel) auto
  have x: "p = x" "x \<noteq> - 1" using Cons.prems valid_not_null [of x] by auto
  have "lruns f (lfsckfmt_dblks (devtab d) RAM0 n (vdisk v (sint x) 0) b' (k + 1)) v (k + 1 + length ds) v" for b'
    using Cons.prems n by (intro Cons.IH) auto
  then show ?case unfolding n x(1) using x(2) by (simp add: lf.vruns_bind [OF lruns_read])
qed

lemma ckfmt_runs:
  assumes R: "free_rep ni I B (vdisk v) (dec_dir (vdisk v 0))"
  shows "lruns f (lfsckfmt (devtab d) RAM0) v (OK, card I, card B) v"
proof -
  let ?dir = "dec_dir (vdisk v 0)"
  obtain fis fds where F: "idx_rep ni (vdisk v) (- 1) (lfd_ifree ?dir) no_block [] fis []"
    "dat_rep ni (vdisk v) (lfd_dfree ?dir) no_block [] fds []" "set fis = I" "set fds = B" using R unfolding free_rep_def by blast
  have fis: "distinct fis" "chain (\<lambda>ib. ib_next (iget (vdisk v) ib)) (lfd_ifree ?dir) fis" "\<forall>ib\<in>set fis. unat ib < 7 * ni" "ni \<le> 199"
    and fds: "distinct fds" "chain (\<lambda>d. vdisk v (sint d) 0) (lfd_dfree ?dir) fds" "\<forall>d\<in>set fds. unat d < 200"
    using F(1,2) unfolding idx_rep_def dat_rep_def by auto
  have len: "length fis \<le> 2 ^ 32" "length fds \<le> 2 ^ 32" using idx_length [OF F(1)] dat_length [OF F(2)] by simp_all
  have small: "\<forall>ib\<in>set fis. unat ib < 1393" using fis(3,4) by fastforce
  have c: "card I = 0 + length fis" "card B = 0 + length fds" using fis(1) fds(1) F(3,4) by (metis distinct_card add_0)+
  have dir: "lfd_ifree (dec_dir (\<lambda>i. if i < 128 then vdisk v 0 i else b i)) = lfd_ifree ?dir"
    "lfd_dfree (dec_dir (\<lambda>i. if i < 128 then vdisk v 0 i else b i)) = lfd_dfree ?dir" for b by (simp_all add: dec_dir_def)
  show ?thesis unfolding lfsckfmt_def Let_def c
    apply (rule lruns_stack)
    apply (rule lf.vruns_bind [OF lruns_read])
    apply (simp only: prod.case)
    apply (subst if_not_P, simp)
    apply (simp only: signed_0 dir)
    apply (rule lf.vruns_bind [OF count_iblks [OF fis(2) small len(1)]])
    apply (rule lruns_stack)
    apply (rule lf.vruns_bind [OF count_dblks [OF fds(2,3) len(2)]])
    apply (rule lf.vruns_Ret)
    done
qed

end
