(* ===== verification/File_Truncate.thy ===== *)
theory File_Truncate
  imports File_Open
begin

section \<open>Truncating a file\<close>

text \<open>
  \<open>lftruncate\<close> gives all blocks of a file back: the data blocks one by one to the list of free data
  blocks, the chain of index blocks as a whole to the front of the list of free index blocks.
\<close>

subsection \<open>The data blocks of one index block\<close>

lemma lruns_blocks:
  assumes "distinct js"
  shows "lruns f (lftruncate_blocks (devtab d) RAM0 js ib) u (ib\<lparr>ib_dba := \<lambda>j. if j \<in> set js then LF_DNULL else ib_dba ib j\<rparr>)
    (fold drelease (filter (\<lambda>b. b \<noteq> LF_DNULL) (map (ib_dba ib) js)) u)"
  using assms
proof (induction js arbitrary: ib u)
  case Nil
  then show ?case by (simp add: lf.vruns_Ret)
next
  case (Cons j js)
  let ?ib = "ib\<lparr>ib_dba := (ib_dba ib)(j := LF_DNULL)\<rparr>"
  let ?u = "if ib_dba ib j \<noteq> LF_DNULL then drelease (ib_dba ib j) u else u"
  have 1: "lruns f (if ib_dba ib j \<noteq> LF_DNULL then pbind (lfdbfree (devtab d) RAM0 (ib_dba ib j)) (\<lambda>_. Ret ()) else Ret ()) u () ?u"
    by (rule lruns_if) (rule lf.vruns_bind [OF lruns_dbfree lf.vruns_Ret])
  have eq: "map (ib_dba ?ib) js = map (ib_dba ib) js"
    "?ib\<lparr>ib_dba := \<lambda>i. if i \<in> set js then LF_DNULL else ib_dba ?ib i\<rparr> = ib\<lparr>ib_dba := \<lambda>i. if i \<in> set (j # js) then LF_DNULL else ib_dba ib i\<rparr>"
    using Cons.prems by (auto simp: fun_eq_iff)
  have "distinct js" using Cons.prems by simp
  note Cons.IH [OF this, of ?ib ?u, unfolded eq]
  then have "lruns f (lftruncate_blocks (devtab d) RAM0 (j # js) ib) u (ib\<lparr>ib_dba := \<lambda>i. if i \<in> set (j # js) then LF_DNULL else ib_dba ib i\<rparr>)
    (fold drelease (filter (\<lambda>b. b \<noteq> LF_DNULL) (map (ib_dba ib) js)) ?u)"
    unfolding lftruncate_blocks.simps by (rule lf.vruns_bind [OF 1])
  moreover have "fold drelease (filter (\<lambda>b. b \<noteq> LF_DNULL) (map (ib_dba ib) (j # js))) u =
    fold drelease (filter (\<lambda>b. b \<noteq> LF_DNULL) (map (ib_dba ib) js)) ?u" by simp
  ultimately show ?case by (simp only:)
qed

text \<open>Freed blocks go to the front of the free list, the last one first.\<close>

lemma drelease_sel [simp]:
  "vsem (drelease d v) = vsem v" "vcb (drelease d v) = vcb v" "vstack (drelease d v) = vstack v"
  "vdata (drelease d v) = (vdata v)\<lparr>lf_dir := (lf_dir (vdata v))\<lparr>lfd_dfree := d\<rparr>\<rparr>"
  by (simp_all add: drelease_def vdir_def Let_def)

lemma drelease_disk:
  assumes "0 < unat d" "unat d < 200"
  shows "k \<noteq> 0 \<Longrightarrow> k \<noteq> sint d \<Longrightarrow> vdisk (drelease d v) k = vdisk v k"
    and "vdisk (drelease d v) (sint d) 0 = lfd_dfree (lf_dir (vdata v))"
proof -
  have "sint d = int (unat d)" by (rule data_sint [OF assms(2)])
  then have "sint d \<noteq> 0" using assms by (simp del: of_nat_unat)
  then show "k \<noteq> 0 \<Longrightarrow> k \<noteq> sint d \<Longrightarrow> vdisk (drelease d v) k = vdisk v k"
    "vdisk (drelease d v) (sint d) 0 = lfd_dfree (lf_dir (vdata v))"
    by (simp_all add: drelease_def vdir_def Let_def dwrite_def)
qed

lemma fold_drelease_sel [simp]:
  "vsem (fold drelease bs v) = vsem v" "vcb (fold drelease bs v) = vcb v" "vstack (fold drelease bs v) = vstack v"
  by (induction bs arbitrary: v) simp_all

lemma fold_drelease_data:
  "\<exists>x. vdata (fold drelease bs v) = (vdata v)\<lparr>lf_dir := (lf_dir (vdata v))\<lparr>lfd_dfree := x\<rparr>\<rparr>"
proof (induction bs arbitrary: v)
  case Nil
  then show ?case by (intro exI [of _ "lfd_dfree (lf_dir (vdata v))"]) simp
next
  case (Cons b bs)
  from Cons [of "drelease b v"] show ?case by simp
qed

definition dchain :: "lfview \<Rightarrow> u32 list \<Rightarrow> bool" where
  "dchain v fds \<longleftrightarrow> chain (\<lambda>d. vdisk v (sint d) 0) (lfd_dfree (lf_dir (vdata v))) fds"

lemma fold_drelease_chain:
  assumes "dchain v fds" and "distinct (bs @ fds)" and "\<forall>b\<in>set (bs @ fds). ni < unat b \<and> unat b < 200"
  shows "dchain (fold drelease bs v) (rev bs @ fds)"
    and "k \<noteq> 0 \<Longrightarrow> \<forall>b\<in>set bs. k \<noteq> sint b \<Longrightarrow> vdisk (fold drelease bs v) k = vdisk v k"
proof -
  show "dchain (fold drelease bs v) (rev bs @ fds)" using assms
  proof (induction bs arbitrary: v fds)
    case (Cons b bs)
    have b: "0 < unat b" "unat b < 200" using Cons.prems(3) by auto
    have ne: "sint d \<noteq> 0 \<and> sint d \<noteq> sint b" if "d \<in> set fds" for d
    proof -
      have d: "unat d < 200" "ni < unat d" "d \<noteq> b" using that Cons.prems(2,3) by auto
      then have "0 < int (unat d)" "sint d = int (unat d)" using data_sint by (simp_all del: of_nat_unat)
      then show ?thesis using data_neq [OF d(1) b(2)] d(3) by linarith
    qed
    have "chain (\<lambda>d. vdisk (drelease b v) (sint d) 0) (lfd_dfree (lf_dir (vdata v))) fds = chain (\<lambda>d. vdisk v (sint d) 0) (lfd_dfree (lf_dir (vdata v))) fds"
      by (rule chain_cong) (use drelease_disk(1) [OF b] ne in simp)
    then have "dchain (drelease b v) (b # fds)" using Cons.prems(1) drelease_disk(2) [OF b] by (simp add: dchain_def)
    then show ?case using Cons.IH [of "drelease b v" "b # fds"] Cons.prems(2,3) by simp
  qed simp
  show "k \<noteq> 0 \<Longrightarrow> \<forall>b\<in>set bs. k \<noteq> sint b \<Longrightarrow> vdisk (fold drelease bs v) k = vdisk v k" using assms(3)
  proof (induction bs arbitrary: v)
    case (Cons b bs)
    then have "0 < unat b" "unat b < 200" by auto
    from drelease_disk(1) [OF this, of k v] Cons show ?case by simp
  qed simp
qed


subsection \<open>The chain of index blocks\<close>

text \<open>What is left of the file at some turn of the loop: the index blocks \<open>ibs\<close> with the data blocks \<open>ds\<close>.\<close>

definition left_rep :: "nat \<Rightarrow> lfview \<Rightarrow> u32 \<Rightarrow> u32 list \<Rightarrow> u32 list \<Rightarrow> u32 list \<Rightarrow> bool" where
  "left_rep ni u p ibs ds fds \<longleftrightarrow>
     ni \<le> 199 \<and> (\<forall>ib\<in>set ibs. unat ib < 7 * ni) \<and> distinct ibs \<and> chain (\<lambda>ib. ib_next (iget (vdisk u) ib)) p ibs \<and>
     (\<forall>k<length ibs. \<forall>j<16. ib_dba (iget (vdisk u) (ibs ! k)) j = (if 16 * k + j < length ds then ds ! (16 * k + j) else - 1)) \<and>
     dchain u fds \<and> distinct (ds @ fds) \<and> (\<forall>d\<in>set (ds @ fds). ni < unat d \<and> unat d < 200)"

text \<open>One turn: the pointers of the first index block are its data blocks.\<close>

lemma left_pointers:
  assumes "left_rep ni u p (x # ibs) ds fds"
  shows "filter (\<lambda>b. b \<noteq> - 1) (map (ib_dba (iget (vdisk u) x)) [0..<16]) = take 16 ds"
proof -
  have dba: "ib_dba (iget (vdisk u) x) j = (if j < length ds then ds ! j else - 1)" if "j < 16" for j
  proof -
    have "\<forall>k<length (x # ibs). \<forall>j<16. ib_dba (iget (vdisk u) ((x # ibs) ! k)) j = (if 16 * k + j < length ds then ds ! (16 * k + j) else - 1)"
      using assms unfolding left_rep_def by blast
    from this [rule_format, of 0 j] that show ?thesis by simp
  qed
  have "d \<noteq> - 1" if "d \<in> set ds" for d
  proof (rule valid_not_null)
    have "\<forall>d\<in>set (ds @ fds). ni < unat d \<and> unat d < 200" using assms unfolding left_rep_def by blast
    then have "unat d < 200" using that by auto
    then show "unat d < 1393" by simp
  qed
  then have ne: "\<forall>d\<in>set (take 16 ds). d \<noteq> - 1" using set_take_subset [of 16 ds] by blast
  have "map (ib_dba (iget (vdisk u) x)) [0..<16] = take 16 ds @ replicate (16 - length ds) (- 1)"
    by (rule nth_equalityI) (auto simp: dba nth_append)
  then show ?thesis using ne by (simp add: filter_id_conv)
qed

lemma fold_drelease_iget:
  assumes "\<forall>b\<in>set bs. ni < unat b \<and> unat b < 200" and "unat ib < 7 * ni" "ni \<le> 199" and "dchain v fds" "distinct (bs @ fds)"
    and "\<forall>b\<in>set fds. ni < unat b \<and> unat b < 200"
  shows "iget (vdisk (fold drelease bs v)) ib = iget (vdisk v) ib"
proof -
  note b = ib_bound [OF assms(2,3)]
  then have s: "sint (ib2sect ib) = int (unat ib div 7) + 1" using ib2sect_small(1) [of ib] by simp
  have "int (unat ib div 7) + 1 \<noteq> sint d" if "d \<in> set bs" for d
    using assms(1) that b data_sint [of d] by (auto simp del: of_nat_unat)
  then have "vdisk (fold drelease bs v) (sint (ib2sect ib)) = vdisk v (sint (ib2sect ib))"
    unfolding s using assms(1,6) by (intro fold_drelease_chain(2) [OF assms(4,5), of ni]) auto
  then show ?thesis by (simp add: iget_def)
qed

lemma left_step:
  assumes L: "left_rep ni u x (x # ibs) ds fds" and P: "ib_norm y"
  defines "u1 \<equiv> fold drelease (take 16 ds) u"
  shows "left_rep ni (u1\<lparr>vdisk := iput (vdisk u1) x y\<rparr>) (ib_next (iget (vdisk u) x)) ibs (drop 16 ds) (rev (take 16 ds) @ fds)"
    and "unat ib < 7 * ni \<Longrightarrow> iget (iput (vdisk u1) x y) ib = (if ib = x then y else iget (vdisk u) ib)"
    and "int ni < k \<Longrightarrow> \<forall>b\<in>set ds. k \<noteq> sint b \<Longrightarrow> iput (vdisk u1) x y k = vdisk u k"
proof -
  have ni: "ni \<le> 199" and x: "unat x < 7 * ni" "x \<notin> set ibs" "distinct ibs" "\<forall>ib\<in>set ibs. unat ib < 7 * ni"
    and ch: "chain (\<lambda>ib. ib_next (iget (vdisk u) ib)) (ib_next (iget (vdisk u) x)) ibs" and dc: "dchain u fds"
    and di: "distinct (ds @ fds)" and bd: "\<forall>d\<in>set (ds @ fds). ni < unat d \<and> unat d < 200"
    and dba: "\<forall>k<length (x # ibs). \<forall>j<16. ib_dba (iget (vdisk u) ((x # ibs) ! k)) j = (if 16 * k + j < length ds then ds ! (16 * k + j) else - 1)"
    using L unfolding left_rep_def by auto
  have split: "set (take 16 ds) \<subseteq> set ds" "set (drop 16 ds) \<subseteq> set ds" "distinct (take 16 ds @ fds)"
    using di set_take_subset [of 16 ds] set_drop_subset [of 16 ds] by auto
  have bt: "\<forall>b\<in>set (take 16 ds @ fds). ni < unat b \<and> unat b < 200" using bd split(1) by auto
  note fc = fold_drelease_chain [OF dc split(3) bt, folded u1_def]
  have ib1: "iget (vdisk u1) ib = iget (vdisk u) ib" if "unat ib < 7 * ni" for ib
    unfolding u1_def by (rule fold_drelease_iget [OF _ that ni dc split(3)]) (use bt in auto)
  note bx = ib_bound [OF x(1) ni]
  show get: "iget (iput (vdisk u1) x y) ib = (if ib = x then y else iget (vdisk u) ib)" if "unat ib < 7 * ni" for ib
    using iget_iput_same [OF _ P, of x] iget_iput_other [of x ib] bx ib_bound [OF that ni] ib1 [OF that] by simp
  have sect: "iput (vdisk u1) x y k = vdisk u1 k" if "int ni < k" for k using bx that by (intro iput_sector) auto
  show "int ni < k \<Longrightarrow> \<forall>b\<in>set ds. k \<noteq> sint b \<Longrightarrow> iput (vdisk u1) x y k = vdisk u k"
    using fc(2) [of k] sect split(1) by auto
  have get': "iget (iput (vdisk u1) x y) ib = iget (vdisk u) ib" if "ib \<in> set ibs" for ib using get [of ib] that x by auto
  have "chain (\<lambda>ib. ib_next (iget (iput (vdisk u1) x y) ib)) (ib_next (iget (vdisk u) x)) ibs =
      chain (\<lambda>ib. ib_next (iget (vdisk u) ib)) (ib_next (iget (vdisk u) x)) ibs"
    by (rule chain_cong) (simp add: get')
  moreover have "\<forall>k<length ibs. \<forall>j<16. ib_dba (iget (iput (vdisk u1) x y) (ibs ! k)) j =
      (if 16 * k + j < length (drop 16 ds) then drop 16 ds ! (16 * k + j) else - 1)"
  proof (intro allI impI)
    fix k j :: nat assume k: "k < length ibs" and j: "j < 16"
    have "ib_dba (iget (vdisk u) (ibs ! k)) j = (if 16 * Suc k + j < length ds then ds ! (16 * Suc k + j) else - 1)"
      using dba [rule_format, of "Suc k" j] k j by simp
    then show "ib_dba (iget (iput (vdisk u1) x y) (ibs ! k)) j = (if 16 * k + j < length (drop 16 ds) then drop 16 ds ! (16 * k + j) else - 1)"
      using get' [of "ibs ! k"] k by (auto simp: add.assoc)
  qed
  moreover have "sint d \<noteq> int ni \<and> int ni < sint d" if "d \<in> set (rev (take 16 ds) @ fds)" for d
    using bt that data_sint [of d] by (auto simp del: of_nat_unat)
  then have "chain (\<lambda>d. iput (vdisk u1) x y (sint d) 0) (lfd_dfree (lf_dir (vdata u1))) (rev (take 16 ds) @ fds) =
      chain (\<lambda>d. vdisk u1 (sint d) 0) (lfd_dfree (lf_dir (vdata u1))) (rev (take 16 ds) @ fds)"
    by (intro chain_cong) (simp add: sect)
  then have "dchain (u1\<lparr>vdisk := iput (vdisk u1) x y\<rparr>) (rev (take 16 ds) @ fds)" using fc(1) by (simp add: dchain_def)
  moreover have "distinct (drop 16 ds @ rev (take 16 ds) @ fds)"
  proof -
    have "distinct (take 16 ds @ drop 16 ds @ fds)" using di by (simp only: append_assoc [symmetric] append_take_drop_id)
    then show ?thesis by auto
  qed
  moreover have "\<forall>d\<in>set (drop 16 ds @ rev (take 16 ds) @ fds). ni < unat d \<and> unat d < 200" using bd split(1,2) by auto
  ultimately show "left_rep ni (u1\<lparr>vdisk := iput (vdisk u1) x y\<rparr>) (ib_next (iget (vdisk u) x)) ibs (drop 16 ds) (rev (take 16 ds) @ fds)"
    unfolding left_rep_def using ch x ni by simp
qed


text \<open>The index block that is written back.\<close>

definition cleared :: "u32 \<Rightarrow> lfiblk \<Rightarrow> lfiblk" where
  "cleared ifree ib = ib\<lparr>ib_dba := (\<lambda>_. LF_DNULL), ib_offset := 0, ib_next := (if ib_next ib = LF_INULL then ifree else ib_next ib)\<rparr>"

lemma cleared_simps [simp]: "ib_norm (cleared ifree ib)"
  "ib_next (cleared ifree ib) = (if ib_next ib = LF_INULL then ifree else ib_next ib)"
  by (simp_all add: cleared_def ib_norm_def)

lemma truncate_turn:
  assumes L: "left_rep ni u x (x # ibs) ds fds" and ne: "x \<noteq> ifree"
    and rest: "lruns f (lftruncate_loop (devtab d) RAM0 ifree fuel (ib_next (cleared ifree (iget (vdisk u) x))))
      (fold drelease (take 16 ds) u\<lparr>vdisk := iput (vdisk (fold drelease (take 16 ds) u)) x (cleared ifree (iget (vdisk u) x))\<rparr>) () u'"
  shows "lruns f (lftruncate_loop (devtab d) RAM0 ifree (Suc fuel) x) u () u'"
proof -
  let ?ib = "iget (vdisk u) x"
  let ?ib1 = "?ib\<lparr>ib_dba := \<lambda>j. if j \<in> set [0..<16] then LF_DNULL else ib_dba ?ib j\<rparr>"
  have x: "unat x < 1393" using L ib_bound [of x ni] unfolding left_rep_def by auto
  have "ib_dba ?ib j = - 1" if "16 \<le> j" for j using ib_norm_simps(2) [of "vdisk u" x] that unfolding ib_norm_def by blast
  then have "?ib1 = ?ib\<lparr>ib_dba := \<lambda>_. - 1\<rparr>" by (auto simp: fun_eq_iff)
  then have c: "(if ib_next (?ib1\<lparr>ib_offset := 0\<rparr>) = LF_INULL then ?ib1\<lparr>ib_offset := 0\<rparr>\<lparr>ib_next := ifree\<rparr> else ?ib1\<lparr>ib_offset := 0\<rparr>) = cleared ifree ?ib"
    by (cases ?ib) (simp add: cleared_def)
  have "lruns f (lftruncate_blocks (devtab d) RAM0 [0..<16] ?ib) u ?ib1
    (fold drelease (filter (\<lambda>b. b \<noteq> - 1) (map (ib_dba ?ib) [0..<16])) u)" by (rule lruns_blocks) simp
  then have bl: "lruns f (lftruncate_blocks (devtab d) RAM0 [0..<16] ?ib) u ?ib1 (fold drelease (take 16 ds) u)"
    unfolding left_pointers [OF L] .
  show ?thesis unfolding lftruncate_loop.simps
    apply (subst if_P [OF ne])
    apply (rule lf.vruns_bind [OF lruns_ibget [OF x]])
    apply (rule lf.vruns_bind [OF bl])
    apply (unfold Let_def c)
    apply (rule lf.vruns_bind [OF lruns_ibput])
    apply (rule rest)
    done
qed

lemma truncate_loop_runs:
  assumes "left_rep ni u p ibs ds fds" and "ifree \<notin> set ibs" and "length ibs \<le> fuel" and "length ds \<le> 16 * length ibs"
  shows "\<exists>u' fds' y. lruns f (lftruncate_loop (devtab d) RAM0 ifree fuel (if ibs = [] then ifree else hd ibs)) u () u' \<and>
    vcb u' = vcb u \<and> vsem u' = vsem u \<and> vstack u' = vstack u \<and> vdata u' = (vdata u)\<lparr>lf_dir := (lf_dir (vdata u))\<lparr>lfd_dfree := y\<rparr>\<rparr> \<and>
    dchain u' fds' \<and> distinct fds' \<and> set fds' = set ds \<union> set fds \<and>
    (\<forall>k<length ibs. ib_next (iget (vdisk u') (ibs ! k)) = (if Suc k < length ibs then ibs ! Suc k else ifree)) \<and>
    (\<forall>ib. unat ib < 7 * ni \<longrightarrow> ib \<notin> set ibs \<longrightarrow> iget (vdisk u') ib = iget (vdisk u) ib) \<and>
    (\<forall>k. int ni < k \<longrightarrow> (\<forall>b\<in>set ds. k \<noteq> sint b) \<longrightarrow> vdisk u' k = vdisk u k)"
  using assms
proof (induction ibs arbitrary: u p ds fds fuel)
  case Nil
  have "lruns f (lftruncate_loop (devtab d) RAM0 ifree fuel ifree) u () u" by (cases fuel) (simp_all add: lf.vruns_Ret)
  then show ?case using Nil by (intro exI [of _ u] exI [of _ fds] exI [of _ "lfd_dfree (lf_dir (vdata u))"]) (simp add: left_rep_def)
next
  case (Cons x ibs)
  have px: "p = x" using Cons.prems(1) by (simp add: left_rep_def)
  note L = Cons.prems(1) [unfolded px]
  obtain n where n: "fuel = Suc n" using Cons.prems(3) by (cases fuel) auto
  define y where "y = cleared ifree (iget (vdisk u) x)"
  define u1 where "u1 = fold drelease (take 16 ds) u"
  define u2 where "u2 = u1\<lparr>vdisk := iput (vdisk u1) x y\<rparr>"
  have norm: "ib_norm y" by (simp add: y_def)
  note step = left_step [OF L norm, folded u1_def]
  have x: "x \<notin> set ibs" "unat x < 7 * ni" using L unfolding left_rep_def by auto
  have "chain (\<lambda>ib. ib_next (iget (vdisk u) ib)) x (x # ibs)" using L unfolding left_rep_def by blast
  then have "ib_next (iget (vdisk u) x) = (if ibs = [] then - 1 else hd ibs)" using chain_hd by fastforce
  moreover have "hd ibs \<noteq> - 1" if "ibs \<noteq> []"
  proof (rule valid_not_null)
    have "unat (hd ibs) < 7 * ni" "ni \<le> 199" using L that unfolding left_rep_def by auto
    then show "unat (hd ibs) < 1393" by simp
  qed
  ultimately have nx: "ib_next y = (if ibs = [] then ifree else hd ibs)" by (simp add: y_def)
  have "ifree \<notin> set ibs" "length ibs \<le> n" "length (drop 16 ds) \<le> 16 * length ibs" using Cons.prems(2-4) n by auto
  from Cons.IH [OF step(1) [folded u2_def] this] obtain u' fds' z where u': "lruns f (lftruncate_loop (devtab d) RAM0 ifree n (if ibs = [] then ifree else hd ibs)) u2 () u'"
    "vcb u' = vcb u2" "vsem u' = vsem u2" "vstack u' = vstack u2" "vdata u' = (vdata u2)\<lparr>lf_dir := (lf_dir (vdata u2))\<lparr>lfd_dfree := z\<rparr>\<rparr>"
    "dchain u' fds'" "distinct fds'" "set fds' = set (drop 16 ds) \<union> set (rev (take 16 ds) @ fds)"
    "\<forall>k<length ibs. ib_next (iget (vdisk u') (ibs ! k)) = (if Suc k < length ibs then ibs ! Suc k else ifree)"
    "\<forall>ib. unat ib < 7 * ni \<longrightarrow> ib \<notin> set ibs \<longrightarrow> iget (vdisk u') ib = iget (vdisk u2) ib"
    "\<forall>k. int ni < k \<longrightarrow> (\<forall>b\<in>set (drop 16 ds). k \<noteq> sint b) \<longrightarrow> vdisk u' k = vdisk u2 k"
    by blast
  have run: "lruns f (lftruncate_loop (devtab d) RAM0 ifree fuel x) u () u'"
    unfolding n by (rule truncate_turn [OF L]) (use Cons.prems(2) u'(1) nx in \<open>auto simp: u2_def u1_def y_def [symmetric]\<close>)
  obtain w where w: "vdata u1 = (vdata u)\<lparr>lf_dir := (lf_dir (vdata u))\<lparr>lfd_dfree := w\<rparr>\<rparr>"
    using fold_drelease_data unfolding u1_def by blast
  have d: "vdata u' = (vdata u)\<lparr>lf_dir := (lf_dir (vdata u))\<lparr>lfd_dfree := z\<rparr>\<rparr>" using u'(5) w by (simp add: u2_def)
  have s: "set fds' = set ds \<union> set fds"
  proof -
    have "set ds = set (take 16 ds) \<union> set (drop 16 ds)" by (metis append_take_drop_id set_append)
    then show ?thesis using u'(8) by auto
  qed
  have g: "iget (vdisk u2) ib = (if ib = x then y else iget (vdisk u) ib)" if "unat ib < 7 * ni" for ib
    using step(2) [OF that] by (simp add: u2_def)
  have nxt: "ib_next (iget (vdisk u') ((x # ibs) ! k)) = (if Suc k < length (x # ibs) then (x # ibs) ! Suc k else ifree)"
    if k: "k < length (x # ibs)" for k
  proof (cases k)
    case 0
    then show ?thesis using u'(10) x g [of x] nx by (auto simp: hd_conv_nth)
  next
    case (Suc j)
    then show ?thesis using u'(9) k by simp
  qed
  have oth: "iget (vdisk u') ib = iget (vdisk u) ib" if "unat ib < 7 * ni" "ib \<notin> set (x # ibs)" for ib
    using u'(10) g [of ib] that by auto
  have sec: "vdisk u' k = vdisk u k" if k: "int ni < k" "\<forall>b\<in>set ds. k \<noteq> sint b" for k
  proof -
    have "\<forall>b\<in>set (drop 16 ds). k \<noteq> sint b" using k(2) set_drop_subset [of 16 ds] by blast
    then have "vdisk u' k = vdisk u2 k" using u'(11) k(1) by blast
    then show ?thesis using step(3) [OF k] by (simp add: u2_def)
  qed
  show ?case using run d s nxt oth sec u'(2,3,4,6,7)
    by (intro exI [of _ u'] exI [of _ fds'] exI [of _ z]) (simp add: u2_def u1_def)
qed


subsection \<open>lftruncate and the control function\<close>

lemma chain_append:
  assumes "\<forall>k<length xs. nx (xs ! k) = (if Suc k < length xs then xs ! Suc k else q)" and "chain nx q ys"
  shows "chain nx (if xs = [] then q else hd xs) (xs @ ys)"
  using assms
proof (induction xs)
  case (Cons x xs)
  have "\<forall>k<length xs. nx (xs ! k) = (if Suc k < length xs then xs ! Suc k else q)" using Cons.prems(1) by (metis Suc_less_eq length_Cons nth_Cons_Suc)
  then have "chain nx (if xs = [] then q else hd xs) (xs @ ys)" using Cons.IH Cons.prems(2) by blast
  moreover have "nx x = (if xs = [] then q else hd xs)" using Cons.prems(1) [rule_format, of 0] by (cases xs) auto
  ultimately show ?case by simp
qed simp

lemma disk_left:
  assumes "disk_blocks ni (vdisk u) (lf_dir (vdata u)) i ibs fis ds fds xs"
  shows "left_rep ni u (ld_ilist (lfd_files (lf_dir (vdata u)) i)) ibs ds fds"
proof -
  let ?D = "vdisk u"
  have R: "idx_rep ni ?D (ld_ilist (lfd_files (lf_dir (vdata u)) i)) (lfd_ifree (lf_dir (vdata u))) no_block ibs fis ds"
    "dat_rep ni ?D (lfd_dfree (lf_dir (vdata u))) no_block ds fds xs" using assms unfolding disk_blocks_def by blast+
  have V: "iview ?D no_block ib = iget ?D ib" if "ib \<in> set ibs" for ib
  proof -
    have "unat ib < 1393" using R(1) that ib_bound [of ib ni] unfolding idx_rep_def by simp
    then show ?thesis using valid_not_null [of ib] by (simp add: iview_def)
  qed
  have "chain (\<lambda>ib. ib_next (iview ?D no_block ib)) p ibs = chain (\<lambda>ib. ib_next (iget ?D ib)) p ibs" for p
    by (rule chain_cong) (simp add: V)
  moreover have "iblocks (iview ?D no_block) ibs ds = iblocks (iget ?D) ibs ds" by (rule iblocks_cong) (rule V)
  ultimately show ?thesis using R unfolding left_rep_def idx_rep_def dat_rep_def dchain_def iblocks_def by auto
qed

lemma truncated_rep:
  assumes ibs: "\<forall>k<length ibs. ib_next (iget (vdisk u) (ibs ! k)) = (if Suc k < length ibs then ibs ! Suc k else ifree)"
    and fis: "chain (\<lambda>ib. ib_next (iget (vdisk u) ib)) ifree fis" and ne: "ibs \<noteq> []"
    and ok: "ni \<le> 199" "\<forall>ib\<in>set (ibs @ fis). unat ib < 7 * ni" "distinct (ibs @ fis)"
    and fds: "dchain u fds" "distinct fds" "\<forall>d\<in>set fds. ni < unat d \<and> unat d < 200"
    and cb: "vacant (vcb u)" "lfstate (vcb u) = LF_USED" "lf_dskdev (vdata u) = RAM0" "lfpos (vcb u) = 0" "lfbyte (vcb u) = 512"
    and dir: "lfd_ifree (lf_dir (vdata u)) = hd ibs" "ld_ilist (vent u) = - 1" "ld_size (vent u) = 0"
  shows "file_rep ni (set (ibs @ fis)) (set fds) u []"
    and "free_rep ni (set (ibs @ fis)) (set fds) (vdisk u) (lf_dir (vdata u))"
proof -
  have "chain (\<lambda>ib. ib_next (iget (vdisk u) ib)) (if ibs = [] then ifree else hd ibs) (ibs @ fis)" by (rule chain_append [OF ibs fis])
  then have idx: "idx_rep ni (vdisk u) (- 1) (hd ibs) (vcb u) [] (ibs @ fis) []"
    using ne ok cb(1) by (simp add: idx_rep_def iblocks_def vacant_def)
  have dat: "dat_rep ni (vdisk u) (lfd_dfree (lf_dir (vdata u))) (vcb u) [] fds []"
    using fds cb(1) by (simp add: dat_rep_def vacant_def dchain_def)
  have "blocks_rep ni u [] (ibs @ fis) [] fds []" using idx dat unfolding blocks_rep_def dir using cb(2,3) by simp
  then show "file_rep ni (set (ibs @ fis)) (set fds) u []" unfolding file_rep_def pos_rep_def using cb(4,5)
    by (intro exI [of _ "[]"] exI [of _ "ibs @ fis"] exI [of _ "[]"] exI [of _ fds]) simp
  have "idx_rep ni (vdisk u) (- 1) (lfd_ifree (lf_dir (vdata u))) no_block [] (ibs @ fis) []"
    unfolding dir(1) by (rule idx_clean [OF idx]) (use cb(1) in \<open>simp_all add: vacant_def\<close>)
  moreover have "dat_rep ni (vdisk u) (lfd_dfree (lf_dir (vdata u))) no_block [] fds []"
    by (rule dat_clean [OF dat]) (use cb(1) in \<open>simp_all add: vacant_def\<close>)
  ultimately show "free_rep ni (set (ibs @ fis)) (set fds) (vdisk u) (lf_dir (vdata u))"
    unfolding free_rep_def by (intro exI [of _ "ibs @ fis"] exI [of _ fds]) simp
qed

text \<open>The control block and the directory entry of the empty file.\<close>

definition reset_cb :: "lflcblk \<Rightarrow> lflcblk" where
  "reset_cb c = c\<lparr>lfpos := 0, lfinum := LF_INULL, lfdnum := LF_DNULL, lfbyte := LF_BLKSIZ\<rparr>"

definition forget_entry :: "int \<Rightarrow> lfdata \<Rightarrow> lfdata" where
  "forget_entry i d = d\<lparr>lf_dir := (lf_dir d)\<lparr>lfd_files := (lfd_files (lf_dir d))(i := (lfd_files (lf_dir d) i)\<lparr>ld_ilist := LF_INULL, ld_size := 0\<rparr>)\<rparr>,
     lf_dirdirty := True\<rparr>"

lemma truncate_steps:
  assumes size: "ld_size (vent v) \<noteq> 0" and dev: "lf_dskdev (vdata v) = RAM0"
    and flush: "lruns f (if lfibdirty (vcb v) \<or> lfdbdirty (vcb v) then pbind (lfflush (devtab d) f) (\<lambda>_. Ret ()) else Ret ()) v () u1"
    and same: "lfdirptr (vcb u1) = lfdirptr (vcb v)"
    and loop: "lruns f (lftruncate_loop (devtab d) RAM0 (lfd_ifree (lf_dir (vdata u1))) (2 ^ 20) (ld_ilist (vent u1)))
      (u1\<lparr>vcb := reset_cb (vcb u1), vdata := forget_entry (lfdirptr (vcb v)) (vdata u1)\<rparr>) () w"
  shows "lruns f (lftruncate (devtab d) f) v OK
    (w\<lparr>vdata := (vdata w)\<lparr>lf_dir := (lf_dir (vdata w))\<lparr>lfd_ifree := ld_ilist (vent u1)\<rparr>, lf_dirdirty := True\<rparr>\<rparr>)"
proof -
  let ?i = "lfdirptr (vcb v)"
  have ent: "vent (u1\<lparr>vcb := reset_cb (vcb u1)\<rparr>) = vent u1" by (simp add: vent_def reset_cb_def)
  have sel: "vdata (u1\<lparr>vcb := c\<rparr>) = vdata u1" for c by simp
  have e: "lruns f (pmodify (upd_ld ?i (\<lambda>e. e\<lparr>ld_ilist := LF_INULL, ld_size := 0\<rparr>))) (u1\<lparr>vcb := reset_cb (vcb u1)\<rparr>) ()
      (u1\<lparr>vcb := reset_cb (vcb u1), vdata := (vdata u1)\<lparr>lf_dir := (lf_dir (vdata u1))\<lparr>lfd_files := (lfd_files (lf_dir (vdata u1)))
        (?i := (lfd_files (lf_dir (vdata u1)) ?i)\<lparr>ld_ilist := LF_INULL, ld_size := 0\<rparr>)\<rparr>\<rparr>\<rparr>)"
    unfolding upd_ld_def upd_dir_def by (rule lruns_lfdI) simp
  have t: "lruns f (pmodify (upd_lfd (\<lambda>d. d\<lparr>lf_dirdirty := True\<rparr>)))
      (u1\<lparr>vcb := reset_cb (vcb u1), vdata := (vdata u1)\<lparr>lf_dir := (lf_dir (vdata u1))\<lparr>lfd_files := (lfd_files (lf_dir (vdata u1)))
        (?i := (lfd_files (lf_dir (vdata u1)) ?i)\<lparr>ld_ilist := LF_INULL, ld_size := 0\<rparr>)\<rparr>\<rparr>\<rparr>) ()
      (u1\<lparr>vcb := reset_cb (vcb u1), vdata := forget_entry ?i (vdata u1)\<rparr>)"
    by (rule lruns_lfdI) (simp add: forget_entry_def)
  show ?thesis unfolding lftruncate_def
    apply (rule lf.vruns_read [where g = "\<lambda>v. (vcb v, vent v, lf_dskdev (vdata v))"], simp)
    apply (simp only: prod.case dev)
    apply (subst if_not_P [OF size])
    apply (rule lf.vruns_bind [OF flush])
    apply (rule lf.vruns_bind [OF lruns_lfI [where v' = "u1\<lparr>vcb := reset_cb (vcb u1)\<rparr>"]], simp add: reset_cb_def)
    apply (rule lf.vruns_read [where g = "\<lambda>v. (lfd_ifree (lf_dir (vdata v)), ld_ilist (vent v))"], simp)
    apply (simp only: prod.case ent sel)
    apply (rule lf.vruns_bind [OF e])
    apply (rule lf.vruns_bind [OF t])
    apply (rule lf.vruns_bind [OF loop])
    apply (rule lf.vruns_bind [OF lruns_dir])
    apply (rule lf.vruns_bind [OF lruns_lfd])
    apply (rule lruns_RetI, simp)
    done
qed


lemma truncate_runs:
  assumes F: "file_rep ni I B v xs" and ne: "xs \<noteq> []"
  shows "\<exists>v'. lruns f (lftruncate (devtab d) f) v OK v' \<and> file_rep ni I B v' [] \<and> frame_rep ni I B v v' \<and> lf_dirdirty (vdata v') \<and>
    free_rep ni I B (vdisk v') (lf_dir (vdata v'))"
proof -
  obtain ibs fis ds fds where R: "blocks_rep ni v ibs fis ds fds xs" and IB: "set (ibs @ fis) = I" "set (ds @ fds) = B"
    using F unfolding file_rep_def by blast
  define u1 where "u1 = (if lfibdirty (vcb v) \<or> lfdbdirty (vcb v) then flush v else v)"
  have R1: "blocks_rep ni u1 ibs fis ds fds xs" and clean: "clean u1" and dir1: "lf_dir (vdata u1) = lf_dir (vdata v)"
    and ptr1: "lfdirptr (vcb u1) = lfdirptr (vcb v)" using flush_rep [OF R] R by (auto simp: u1_def clean_def)
  have fr1: "frame_rep ni I B v u1" using flush_frame [OF R, of I B] IB by (auto simp: u1_def)
  have dev: "lf_dskdev (vdata v) = RAM0" "lfstate (vcb v) = LF_USED" using R by (simp_all add: blocks_rep_def)
  have fl: "lruns f (if lfibdirty (vcb v) \<or> lfdbdirty (vcb v) then pbind (lfflush (devtab d) f) (\<lambda>_. Ret ()) else Ret ()) v () u1"
    unfolding u1_def by (rule lruns_if) (rule lf.vruns_bind [OF lruns_flush [OF dev] lf.vruns_Ret])
  let ?dir = "lf_dir (vdata u1)" and ?i = "lfdirptr (vcb u1)"
  let ?ifree = "lfd_ifree ?dir"
  have D: "disk_blocks ni (vdisk u1) ?dir ?i ibs fis ds fds xs" by (rule disk_blocks_of [OF R1 clean])
  define u2 where "u2 = u1\<lparr>vcb := reset_cb (vcb u1), vdata := forget_entry (lfdirptr (vcb v)) (vdata u1)\<rparr>"
  have ivent: "ld_ilist (vent u1) = ld_ilist (lfd_files ?dir ?i)" by (simp add: vent_def)
  have L: "left_rep ni u2 (ld_ilist (vent u1)) ibs ds fds"
    using disk_left [OF D] unfolding ivent by (simp add: left_rep_def dchain_def u2_def forget_entry_def)
  have idx: "idx_rep ni (vdisk u1) (ld_ilist (vent u1)) ?ifree (vcb u1) ibs fis ds" and dat: "dat_rep ni (vdisk u1) (lfd_dfree ?dir) (vcb u1) ds fds xs"
    using R1 unfolding blocks_rep_def by blast+
  have ch: "chain (\<lambda>ib. ib_next (iget (vdisk u1) ib)) ?ifree fis" and dis: "distinct (ibs @ fis)" and ni: "ni \<le> 199"
    and ok: "\<forall>ib\<in>set (ibs @ fis). unat ib < 7 * ni" and len: "length ds \<le> 16 * length ibs" and norm: "ib_norm (lfiblock (vcb u1))"
    and ch1: "chain (\<lambda>ib. ib_next (iview (vdisk u1) (vcb u1) ib)) (ld_ilist (vent u1)) ibs" using idx unfolding idx_rep_def by blast+
  have "length xs \<le> 512 * length ds" using dat unfolding dat_rep_def by blast
  then have ibs: "ibs \<noteq> []" using ne len by (cases ibs) auto
  have first: "ld_ilist (vent u1) = hd ibs" using chain_hd [OF ch1] ibs by simp
  have small: "unat ib < 1393" if "ib \<in> set ibs" for ib using ok ni that ib_bound [of ib ni] by simp
  have "?ifree \<notin> set ibs" using chain_hd [OF ch] dis small valid_not_null by (auto split: if_splits)
  moreover have "length ibs \<le> 2 ^ 20" using idx_length [OF idx] by simp
  ultimately obtain w fds' y where w: "lruns f (lftruncate_loop (devtab d) RAM0 ?ifree (2 ^ 20) (if ibs = [] then ?ifree else hd ibs)) u2 () w"
    "vcb w = vcb u2" "vsem w = vsem u2" "vstack w = vstack u2" "vdata w = (vdata u2)\<lparr>lf_dir := (lf_dir (vdata u2))\<lparr>lfd_dfree := y\<rparr>\<rparr>"
    "dchain w fds'" "distinct fds'" "set fds' = set ds \<union> set fds"
    "\<forall>k<length ibs. ib_next (iget (vdisk w) (ibs ! k)) = (if Suc k < length ibs then ibs ! Suc k else ?ifree)"
    "\<forall>ib. unat ib < 7 * ni \<longrightarrow> ib \<notin> set ibs \<longrightarrow> iget (vdisk w) ib = iget (vdisk u2) ib"
    "\<forall>k. int ni < k \<longrightarrow> (\<forall>b\<in>set ds. k \<noteq> sint b) \<longrightarrow> vdisk w k = vdisk u2 k"
    using truncate_loop_runs [OF L _ _ len] by blast
  let ?v = "w\<lparr>vdata := (vdata w)\<lparr>lf_dir := (lf_dir (vdata w))\<lparr>lfd_ifree := hd ibs\<rparr>, lf_dirdirty := True\<rparr>\<rparr>"
  have "ld_size (vent v) \<noteq> 0" using file_size [OF F] ne by (metis length_0_conv unsigned_0)
  then have "lruns f (lftruncate (devtab d) f) v OK ?v"
    using truncate_steps [OF _ dev(1) fl ptr1, where w = w] w(1) ne ibs first file_size [OF F] unfolding u2_def by auto
  moreover have "chain (\<lambda>ib. ib_next (iget (vdisk w) ib)) ?ifree fis = chain (\<lambda>ib. ib_next (iget (vdisk u1) ib)) ?ifree fis"
    using w(10) dis ok by (intro chain_cong) (auto simp: u2_def)
  then have "file_rep ni (set (ibs @ fis)) (set fds') ?v [] \<and> free_rep ni (set (ibs @ fis)) (set fds') (vdisk ?v) (lf_dir (vdata ?v))"
    using w(9) ch ibs ni ok dis w(6,7,8) dat R1 clean norm first unfolding dat_rep_def
    by (intro conjI truncated_rep [where ifree = ?ifree]) (auto simp: u2_def reset_cb_def vacant_def w(2,5) forget_entry_def vent_def clean_def ptr1 dchain_def blocks_rep_def)
  moreover have "frame_rep ni I B u1 ?v"
    using w(10,11) IB unfolding frame_rep_def
    by (auto simp: w(2,3,4,5) u2_def reset_cb_def forget_entry_def vent_def ptr1)
  ultimately show ?thesis using frame_trans [OF fr1] IB w(8) by (intro exI [of _ ?v]) auto
qed


lemma truncate_empty:
  assumes "file_rep ni I B v []"
  shows "lruns f (lftruncate (devtab d) f) v OK v"
proof -
  have "ld_size (vent v) = 0" using file_size [OF assms] by (simp add: unat_eq_0)
  then show ?thesis unfolding lftruncate_def
    by (intro lf.vruns_read [where g = "\<lambda>v. (vcb v, vent v, lf_dskdev (vdata v))"]) (simp_all add: lf.vruns_Ret)
qed

lemma control_runs:
  assumes F: "file_rep ni I B v xs" and U: "usable v"
  shows "\<exists>v'. lruns f (lflcontrol (devtab d) f LF_CTL_TRUNC a1 a2) v OK v' \<and> file_rep ni I B v' [] \<and> frame_rep ni I B v v' \<and>
    (xs \<noteq> [] \<longrightarrow> free_rep ni I B (vdisk v') (lf_dir (vdata v')))"
proof -
  define m where "m = lfmutex (vcb v)"
  define dm where "dm = lf_mutex (vdata v)"
  define u where "u = vlock m v"
  define u' where "u' = vlock dm u"
  have free: "vfree v m" "vfree u dm" using U by (simp_all add: usable_def m_def dm_def u_def vfree_vlock)
  have dmu: "lf_mutex (vdata u) = dm" by (simp add: u_def dm_def)
  have Fu: "file_rep ni I B u' xs" using F by (simp add: u'_def u_def)
  have "\<exists>w. lruns f (lftruncate (devtab d) f) u' OK w \<and> file_rep ni I B w [] \<and> frame_rep ni I B u' w \<and>
    (xs \<noteq> [] \<longrightarrow> free_rep ni I B (vdisk w) (lf_dir (vdata w)))"
  proof (cases "xs = []")
    case True
    with Fu have E: "file_rep ni I B u' []" by simp
    show ?thesis using truncate_empty [OF E] E frame_refl True by blast
  next
    case False
    then show ?thesis using truncate_runs [OF Fu] by blast
  qed
  then obtain w where w: "lruns f (lftruncate (devtab d) f) u' OK w" "file_rep ni I B w []" "frame_rep ni I B u' w"
    "xs \<noteq> [] \<longrightarrow> free_rep ni I B (vdisk w) (lf_dir (vdata w))" by blast
  let ?v = "w\<lparr>vsem := vsem u\<rparr>\<lparr>vsem := vsem v\<rparr>"
  have "lruns f (lflcontrol (devtab d) f LF_CTL_TRUNC a1 a2) v OK ?v"
    unfolding lflcontrol_def
    apply (rule lruns_with_file [OF U file_used [OF F]])
    apply (unfold m_def [symmetric] u_def [symmetric])
    apply (subst if_P, rule refl)
    apply (rule lf.vruns_read [where g = "\<lambda>v. lf_mutex (vdata v)"], simp)
    apply (unfold dmu)
    apply (rule lf.vruns_bind [OF lruns_wait [OF free(2)]])
    apply (unfold u'_def [symmetric])
    apply (rule lf.vruns_bind [OF w(1)])
    apply (rule lf.vruns_bind [OF lruns_signal [OF free(2)]])
     apply (use frame_sem [OF w(3)] in \<open>simp add: u'_def\<close>)
    apply (rule lruns_leave [OF free(1)])
    apply (simp add: u_def)
    done
  moreover have "frame_rep ni I B u (w\<lparr>vsem := vsem u\<rparr>)" using frame_unlock w(3) unfolding u'_def by blast
  then have "frame_rep ni I B v ?v" using frame_unlock unfolding u_def by blast
  ultimately show ?thesis using w(2,4) by (intro exI [of _ ?v]) simp
qed

lemma control_unknown:
  assumes F: "file_rep ni I B v xs" and U: "usable v" and func: "func \<noteq> LF_CTL_TRUNC"
  shows "lruns f (lflcontrol (devtab d) f func a1 a2) v SYSERR v"
proof -
  have "lruns f (lflcontrol (devtab d) f func a1 a2) v SYSERR ((vlock (lfmutex (vcb v)) v)\<lparr>vsem := vsem v\<rparr>)"
    unfolding lflcontrol_def
    apply (rule lruns_with_file [OF U file_used [OF F]])
    apply (subst if_not_P [OF func])
    apply (rule lruns_leave, use U in \<open>simp_all add: usable_def\<close>)
    done
  then show ?thesis by (simp add: vlock_def)
qed

end
