(* ===== verification/File_Names.thy ===== *)
theory File_Names
  imports File_Open
begin

section \<open>Names, modes and slots\<close>

text \<open>
  The parts of \<open>lfsopen\<close> that compute: the parser of the mode string against its specification, the
  comparison and copy of names, the search of the directory and the choice of the pseudo-device.
\<close>

subsection \<open>Mode strings\<close>

text \<open>A mode has the letters \<open>r\<close>, \<open>w\<close>, \<open>o\<close> and \<open>n\<close>, none of them twice and not both \<open>o\<close> and \<open>n\<close>. Without \<open>r\<close> and
  \<open>w\<close> both are meant.\<close>

definition mode_ok :: "string \<Rightarrow> bool" where
  "mode_ok m \<longleftrightarrow> set m \<subseteq> {CHR ''r'', CHR ''w'', CHR ''o'', CHR ''n''} \<and> distinct m \<and> \<not> (CHR ''o'' \<in> set m \<and> CHR ''n'' \<in> set m)"

definition bits :: "bool \<Rightarrow> bool \<Rightarrow> bool \<Rightarrow> bool \<Rightarrow> u32" where
  "bits r w ol nw = (if r then LF_MODE_R else 0) OR (if w then LF_MODE_W else 0) OR (if ol then LF_MODE_O else 0) OR (if nw then LF_MODE_N else 0)"

definition mode_bits :: "string \<Rightarrow> u32" where
  "mode_bits m = (let neither = CHR ''r'' \<notin> set m \<and> CHR ''w'' \<notin> set m
     in bits (CHR ''r'' \<in> set m \<or> neither) (CHR ''w'' \<in> set m \<or> neither) (CHR ''o'' \<in> set m) (CHR ''n'' \<in> set m))"

lemma bits_simps:
  "bits r w ol nw AND 1 \<noteq> 0 \<longleftrightarrow> r" "bits r w ol nw AND 2 \<noteq> 0 \<longleftrightarrow> w" "bits r w ol nw AND 8 \<noteq> 0 \<longleftrightarrow> ol" "bits r w ol nw AND 4 \<noteq> 0 \<longleftrightarrow> nw"
  "bits r w ol nw OR 1 = bits True w ol nw" "bits r w ol nw OR 2 = bits r True ol nw" "bits r w ol nw OR 8 = bits r w True nw" "bits r w ol nw OR 4 = bits r w ol True"
  "bits r w ol nw AND 3 = 0 \<longleftrightarrow> \<not> r \<and> \<not> w" "bits r w ol nw OR 3 = bits True True ol nw"
  by (cases r; cases w; cases ol; cases nw; simp add: bits_def)+

lemma lfgetmode_loop_bits:
  "lfgetmode_loop m (bits r w ol nw) =
    (if set m \<subseteq> {CHR ''r'', CHR ''w'', CHR ''o'', CHR ''n''} \<and> distinct m \<and> \<not> (r \<and> CHR ''r'' \<in> set m) \<and> \<not> (w \<and> CHR ''w'' \<in> set m) \<and>
        \<not> ((ol \<or> nw) \<and> (CHR ''o'' \<in> set m \<or> CHR ''n'' \<in> set m)) \<and> \<not> (CHR ''o'' \<in> set m \<and> CHR ''n'' \<in> set m)
     then Some (let neither = \<not> r \<and> \<not> w \<and> CHR ''r'' \<notin> set m \<and> CHR ''w'' \<notin> set m
       in bits (r \<or> CHR ''r'' \<in> set m \<or> neither) (w \<or> CHR ''w'' \<in> set m \<or> neither) (ol \<or> CHR ''o'' \<in> set m) (nw \<or> CHR ''n'' \<in> set m))
     else None)"
proof (induction m arbitrary: r w ol nw)
  case Nil
  then show ?case by (simp add: bits_simps Let_def)
next
  case (Cons c m)
  consider "c = CHR ''r''" | "c = CHR ''w''" | "c = CHR ''o''" | "c = CHR ''n''" | "c \<notin> {CHR ''r'', CHR ''w'', CHR ''o'', CHR ''n''}" by blast
  then show ?case by cases (auto simp: bits_simps Cons.IH Let_def)
qed

lemma lfgetmode_spec: "lfgetmode m = (if mode_ok m then Some (mode_bits m) else None)"
proof -
  have "bits False False False False = 0" by (simp add: bits_def)
  then have "lfgetmode m = lfgetmode_loop m (bits False False False False)" by (simp add: lfgetmode_def)
  then show ?thesis by (simp add: lfgetmode_loop_bits mode_ok_def mode_bits_def Let_def)
qed

subsection \<open>Names\<close>

lemma copy_name_nth:
  "copy_fname nam to i k = (if i \<le> k \<and> k < i + length nam then nam ! (k - i) else if k = i + length nam then 0 else to k)"
  by (induction nam arbitrary: to i) (auto simp: nth_Cons' )

lemma same_name_iff: "same_name nam cmp i \<longleftrightarrow> (\<forall>k<length nam. cmp (i + k) = nam ! k) \<and> cmp (i + length nam) = 0"
proof (induction nam arbitrary: i)
  case (Cons c nam)
  have "(\<forall>k<length (c # nam). cmp (i + k) = (c # nam) ! k) \<longleftrightarrow> cmp i = c \<and> (\<forall>k<length nam. cmp (Suc i + k) = nam ! k)"
    by (simp only: length_Cons All_less_Suc2) simp
  then show ?case using Cons by auto
qed simp

lemma same_copy: "same_name nam (copy_fname nam to 0) 0"
  by (simp add: same_name_iff copy_name_nth)

lemma same_name_cong: "(\<And>k. k \<le> length nam \<Longrightarrow> cmp' k = cmp k) \<Longrightarrow> same_name nam cmp' 0 = same_name nam cmp 0"
  by (simp add: same_name_iff)

lemma overwrite_name: "overwrite_name nam to = to(0 := 0)"
  by (induction nam arbitrary: to) simp_all

text \<open>Names without null characters are told apart.\<close>

lemma same_name_unique:
  assumes "same_name a cmp 0" "same_name b cmp 0" and "0 \<notin> set a" "0 \<notin> set b"
  shows "a = b"
proof -
  have A: "\<forall>k<length a. cmp k = a ! k" "cmp (length a) = 0" and B: "\<forall>k<length b. cmp k = b ! k" "cmp (length b) = 0"
    using assms(1,2) by (simp_all add: same_name_iff)
  have "\<not> length a < length b" using A(2) B(1) assms(4) by (metis nth_mem)
  moreover have "\<not> length b < length a" using A(1) B(2) assms(3) by (metis nth_mem)
  ultimately show ?thesis using A(1) B(1) by (intro nth_equalityI) auto
qed

subsection \<open>The directory\<close>

definition entries :: "lfdir \<Rightarrow> nat" where
  "entries dir = nat (sint (lfd_nfiles dir))"

lemma find_same:
  assumes "dir_eq d e" and "length name < 16" and "entries e \<le> 20"
  shows "lfsopen_find d name = lfsopen_find e name"
proof -
  have n: "lfd_nfiles d = lfd_nfiles e" using assms(1) by (simp add: dir_eq_def)
  have "same_name name (ld_name (lfd_files d (int i))) 0 = same_name name (ld_name (lfd_files e (int i))) 0" if "i < entries e" for i
    using assms that by (intro same_name_cong) (auto simp: dir_eq_def)
  then show ?thesis unfolding lfsopen_find_def n using assms(3) by (intro find_cong) (auto simp: entries_def)
qed

lemma new_entry_sel [simp]:
  "lfd_ifree (new_entry name dir) = lfd_ifree dir" "lfd_dfree (new_entry name dir) = lfd_dfree dir"
  by (simp_all add: new_entry_def Let_def)

lemma new_entry_count:
  assumes "0 \<le> sint (lfd_nfiles dir)" and "sint (lfd_nfiles dir) < 20"
  shows "sint (lfd_nfiles (new_entry name dir)) = sint (lfd_nfiles dir) + 1"
proof -
  have "sint (lfd_nfiles dir + 1) = signed_take_bit 31 (sint (lfd_nfiles dir) + 1)" by (simp add: sint_word_add)
  also have "\<dots> = sint (lfd_nfiles dir) + 1" using assms by (intro signed_take_bit_int_eq_self) simp_all
  finally show ?thesis by (simp add: new_entry_def Let_def)
qed

lemma find_new_entry:
  assumes "0 \<le> sint (lfd_nfiles dir)" and "sint (lfd_nfiles dir) < 20" and "lfsopen_find dir name = None"
  shows "lfsopen_find (new_entry name dir) name = Some (entries dir)"
proof -
  have e: "entries (new_entry name dir) = Suc (entries dir)" using new_entry_count [OF assms(1,2)] assms(1) by (simp add: entries_def)
  have i: "int (entries dir) = sint (lfd_nfiles dir)" using assms(1) by (simp add: entries_def)
  have old: "same_name name (ld_name (lfd_files (new_entry name dir) (int k))) 0 = same_name name (ld_name (lfd_files dir (int k))) 0" if "k < entries dir" for k
    using that i by (simp add: new_entry_def Let_def)
  have "find (\<lambda>i. same_name name (ld_name (lfd_files dir (int i))) 0) [0..<entries dir] = None" using assms(3) by (simp add: lfsopen_find_def entries_def)
  then have none: "\<forall>k<entries dir. \<not> same_name name (ld_name (lfd_files dir (int k))) 0" by (simp add: find_None_iff)
  have "same_name name (ld_name (lfd_files (new_entry name dir) (int (entries dir)))) 0"
    using i by (simp add: new_entry_def Let_def same_copy)
  then have "find (\<lambda>i. same_name name (ld_name (lfd_files (new_entry name dir) (int i))) 0) [0..<Suc (entries dir)] = Some (entries dir)"
    using none old by (simp add: find_Some_iff) (intro exI [of _ "entries dir"], auto simp: nth_append)
  then show ?thesis using e by (simp add: lfsopen_find_def entries_def)
qed


subsection \<open>Pseudo-devices\<close>

text \<open>The first free pseudo-device is taken, unless the file is open already.\<close>

lemma lfsopen_slave_spec:
  "lfsopen_slave tab name is k =
    (if \<exists>i\<in>set is. lfstate (tab (int i)) \<noteq> LF_FREE \<and> same_name name (lfname (tab (int i))) 0 then None
     else Some (if k \<noteq> SYSERR then k else case List.find (\<lambda>i. lfstate (tab (int i)) = LF_FREE) is of None \<Rightarrow> SYSERR | Some i \<Rightarrow> int i))"
proof (induction "is" arbitrary: k)
  case (Cons i "is")
  have "int i \<noteq> SYSERR" by simp
  then show ?case using Cons.IH by (auto split: option.splits)
qed simp

text \<open>Calls that are refused before anything is read.\<close>

lemma lfsopen_early:
  assumes "LF_NAME_LEN \<le> length name \<or> lfgetmode mode = None \<or>
    (\<exists>i<Nlfl. lfstate (lfltab s (int i)) \<noteq> LF_FREE \<and> same_name (map of_char name) (lfname (lfltab s (int i))) 0) \<or>
    (\<forall>i<Nlfl. lfstate (lfltab s (int i)) \<noteq> LF_FREE)"
  shows "runs (lfsopen dt name mode) s SYSERR s"
proof -
  let ?slave = "lfsopen_slave (lfltab s) (map of_char name) [0..<Nlfl] SYSERR"
  have slave: "?slave = None \<or> ?slave = Some SYSERR"
    if "(\<exists>i<Nlfl. lfstate (lfltab s (int i)) \<noteq> LF_FREE \<and> same_name (map of_char name) (lfname (lfltab s (int i))) 0) \<or>
      (\<forall>i<Nlfl. lfstate (lfltab s (int i)) \<noteq> LF_FREE)"
  proof -
    have "List.find (\<lambda>i. lfstate (lfltab s (int i)) = LF_FREE) [0..<Nlfl] = None" if "\<forall>i<Nlfl. lfstate (lfltab s (int i)) \<noteq> LF_FREE"
      using that by (auto simp: find_None_iff)
    then show ?thesis using that unfolding lfsopen_slave_spec by auto
  qed
  show ?thesis
  proof (cases "lfgetmode mode")
    case None
    then show ?thesis by (simp add: lfsopen_def Let_def runs_Ret)
  next
    case (Some mbits)
    show ?thesis
    proof (cases "LF_NAME_LEN \<le> length name")
      case True
      then show ?thesis by (simp add: lfsopen_def Let_def runs_Ret)
    next
      case False
      have "?slave = None \<or> ?slave = Some SYSERR" by (rule slave) (use assms Some False in simp)
      then show ?thesis using Some False unfolding lfsopen_def Let_def by (auto intro!: runs_Ret runs_bind [OF runs_gets])
    qed
  qed
qed

end
