(* ===== verification/File_Spec.thy ===== *)
theory File_Spec
  imports File_Create File_Truncate File_Names
begin

section \<open>An open file as a sequence of bytes\<close>

text \<open>
  The contract of an open file is a sequence of bytes with a position. The operations of the driver
  implement the operations on the pair, in any order and any number, and leave all other files alone.
\<close>

datatype file_op = PutC u8 | GetC | SeekTo u32 | Truncate

fun spec_op :: "file_op \<Rightarrow> u8 list \<times> nat \<Rightarrow> int \<times> u8 list \<times> nat" where
  "spec_op (PutC c) (xs, p) = (OK, put_byte xs p c, p + 1)"
| "spec_op GetC (xs, p) = (if p < length xs then (uint (xs ! p), xs, p + 1) else (EOF, xs, p))"
| "spec_op (SeekTo off) (xs, p) = (if unat off \<le> length xs then (OK, xs, unat off) else (SYSERR, xs, p))"
| "spec_op Truncate (xs, p) = (OK, [], 0)"

fun spec_ops :: "file_op list \<Rightarrow> u8 list \<times> nat \<Rightarrow> int list \<times> u8 list \<times> nat" where
  "spec_ops [] x = ([], x)"
| "spec_ops (op # ops) x = (let (r, y) = spec_op op x; (rs, z) = spec_ops ops y in (r # rs, z))"

text \<open>Every byte is written at a position that the disk has room for.\<close>

fun fits :: "nat \<Rightarrow> file_op list \<Rightarrow> u8 list \<times> nat \<Rightarrow> bool" where
  "fits cap [] x \<longleftrightarrow> True"
| "fits cap (op # ops) x \<longleftrightarrow> (case op of PutC c \<Rightarrow> snd x < cap | _ \<Rightarrow> True) \<and> fits cap ops (snd (spec_op op x))"

text \<open>The calls of the driver.\<close>

definition do_op :: "'a lfstate_t_scheme devtab_t \<Rightarrow> int \<Rightarrow> file_op \<Rightarrow> ('a lfstate_t_scheme, int) prog" where
  "do_op dt f op = (case op of PutC c \<Rightarrow> lflputc dt f c | GetC \<Rightarrow> lflgetc dt f | SeekTo off \<Rightarrow> lflseek f off
     | Truncate \<Rightarrow> lflcontrol dt f LF_CTL_TRUNC 0 0)"

fun do_ops :: "'a lfstate_t_scheme devtab_t \<Rightarrow> int \<Rightarrow> file_op list \<Rightarrow> ('a lfstate_t_scheme, int list) prog" where
  "do_ops dt f [] = Ret []"
| "do_ops dt f (op # ops) = pbind (do_op dt f op) (\<lambda>r. pbind (do_ops dt f ops) (\<lambda>rs. Ret (r # rs)))"

definition capacity :: "u32 set \<Rightarrow> u32 set \<Rightarrow> nat" where
  "capacity I B = min (8192 * card I) (512 * card B)"

text \<open>The state of an open file as a pair.\<close>

definition pair_rep :: "nat \<Rightarrow> u32 set \<Rightarrow> u32 set \<Rightarrow> lfview \<Rightarrow> u8 list \<times> nat \<Rightarrow> bool" where
  "pair_rep ni I B v x \<longleftrightarrow> file_rep ni I B v (fst x) \<and> unat (lfpos (vcb v)) = snd x \<and> usable v"

lemma do_op_runs:
  assumes R: "pair_rep ni I B v x" and room: "case op of PutC c \<Rightarrow> snd x < capacity I B | _ \<Rightarrow> True"
  shows "\<exists>v'. lruns f (do_op (devtab d) f op :: ('a lfstate_t_scheme, int) prog) v (fst (spec_op op x)) v' \<and> pair_rep ni I B v' (snd (spec_op op x)) \<and> frame_rep ni I B v v'"
proof -
  obtain xs where x: "x = (xs, unat (lfpos (vcb v)))" and F: "file_rep ni I B v xs" and U: "usable v"
    using R by (cases x) (auto simp: pair_rep_def)
  show ?thesis
  proof (cases op)
    case (PutC c)
    then have "unat (lfpos (vcb v)) < 8192 * card I" "unat (lfpos (vcb v)) < 512 * card B" using room x by (simp_all add: capacity_def)
    from putc_runs [OF F U this, of f d c] obtain v' where v': "lruns f (lflputc (devtab d) f c) v OK v'" "file_rep ni I B v' (put_byte xs (unat (lfpos (vcb v))) c)"
      "unat (lfpos (vcb v')) = unat (lfpos (vcb v)) + 1" "frame_rep ni I B v v'" by blast
    then show ?thesis using frame_usable [OF v'(4)] U
      by (intro exI [of _ v']) (simp add: PutC x do_op_def pair_rep_def)
  next
    case GetC
    show ?thesis
    proof (cases "unat (lfpos (vcb v)) < length xs")
      case True
      from getc_runs [OF F U this, of f d] obtain v' where v': "lruns f (lflgetc (devtab d) f) v (uint (xs ! unat (lfpos (vcb v)))) v'"
        "file_rep ni I B v' xs" "unat (lfpos (vcb v')) = unat (lfpos (vcb v)) + 1" "frame_rep ni I B v v'" by blast
      then show ?thesis using frame_usable [OF v'(4)] U True
        by (intro exI [of _ v']) (simp add: GetC x do_op_def pair_rep_def)
    next
      case False
      then have "unat (lfpos (vcb v)) = length xs" using file_pos [OF F] by simp
      from getc_eof [OF F U this, of f d] show ?thesis using False F U
        by (intro exI [of _ v]) (simp add: GetC x do_op_def pair_rep_def)
    qed
  next
    case (SeekTo off)
    show ?thesis
    proof (cases "unat off \<le> length xs")
      case True
      from seek_runs [OF F U this, of f] obtain v' where v': "lruns f (lflseek f off :: ('a lfstate_t_scheme, int) prog) v OK v'" "file_rep ni I B v' xs" "lfpos (vcb v') = off"
        "frame_rep ni I B v v'" by blast
      then show ?thesis using frame_usable [OF v'(4)] U True
        by (intro exI [of _ v']) (simp add: SeekTo x do_op_def pair_rep_def)
    next
      case False
      then have "length xs < unat off" by simp
      from seek_beyond [OF F U this, of f] show ?thesis using False F U
        by (intro exI [of _ v]) (simp add: SeekTo x do_op_def pair_rep_def)
    qed
  next
    case Truncate
    from control_runs [OF F U, of f d 0 0] obtain v' where v': "lruns f (lflcontrol (devtab d) f LF_CTL_TRUNC 0 0) v OK v'" "file_rep ni I B v' []"
      "frame_rep ni I B v v'" by blast
    then show ?thesis using frame_usable [OF v'(3)] U file_pos [OF v'(2)]
      by (intro exI [of _ v']) (simp add: Truncate x do_op_def pair_rep_def)
  qed
qed

lemma do_ops_runs:
  assumes "pair_rep ni I B v x" and "fits (capacity I B) ops x"
  shows "\<exists>v'. lruns f (do_ops (devtab d) f ops) v (fst (spec_ops ops x)) v' \<and> pair_rep ni I B v' (snd (spec_ops ops x)) \<and> frame_rep ni I B v v'"
  using assms
proof (induction ops arbitrary: v x)
  case Nil
  then show ?case by (intro exI [of _ v]) (simp add: lf.vruns_Ret)
next
  case (Cons op ops)
  have room: "case op of PutC c \<Rightarrow> snd x < capacity I B | _ \<Rightarrow> True" and fits: "fits (capacity I B) ops (snd (spec_op op x))"
    using Cons.prems(2) by simp_all
  obtain u where u: "lruns f (do_op (devtab d) f op) v (fst (spec_op op x)) u" "pair_rep ni I B u (snd (spec_op op x))" "frame_rep ni I B v u"
    using do_op_runs [OF Cons.prems(1) room] by blast
  obtain v' where v': "lruns f (do_ops (devtab d) f ops) u (fst (spec_ops ops (snd (spec_op op x)))) v'"
    "pair_rep ni I B v' (snd (spec_ops ops (snd (spec_op op x))))" "frame_rep ni I B u v'"
    using Cons.IH [OF u(2) fits] by blast
  have "lruns f (do_ops (devtab d) f (op # ops)) v (fst (spec_op op x) # fst (spec_ops ops (snd (spec_op op x)))) v'"
    unfolding do_ops.simps by (rule lf.vruns_bind [OF u(1) lf.vruns_bind [OF v'(1) lf.vruns_Ret]])
  then show ?case using v'(2) frame_trans [OF u(3) v'(3)]
    by (intro exI [of _ v']) (simp add: split_def Let_def del: do_ops.simps)
qed

subsection \<open>Other files\<close>

text \<open>The entry \<open>j\<close> is a file of the blocks \<open>ibs\<close> and \<open>ds\<close> that holds \<open>ys\<close>.\<close>

definition stored_file :: "nat \<Rightarrow> (int \<Rightarrow> wbuf) \<Rightarrow> lfdir \<Rightarrow> int \<Rightarrow> u32 list \<Rightarrow> u32 list \<Rightarrow> u8 list \<Rightarrow> bool" where
  "stored_file ni D dir j ibs ds ys \<longleftrightarrow> length ys = unat (ld_size (lfd_files dir j)) \<and>
     idx_rep ni D (ld_ilist (lfd_files dir j)) (- 1) no_block ibs [] ds \<and> dat_rep ni D (- 1) no_block ds [] ys"

lemma frame_stored:
  assumes fr: "frame_rep ni I B v v'" and S: "stored_file ni (vdisk v) (lf_dir (vdata v)) j ibs ds ys"
    and j: "j \<noteq> lfdirptr (vcb v)" and dis: "set ibs \<inter> I = {}" "set ds \<inter> B = {}"
  shows "stored_file ni (vdisk v') (lf_dir (vdata v')) j ibs ds ys"
proof -
  have e: "lfd_files (lf_dir (vdata v')) j = lfd_files (lf_dir (vdata v)) j" using fr j unfolding frame_rep_def by blast
  have i: "\<forall>ib\<in>set ibs. unat ib < 7 * ni" and b: "\<forall>d\<in>set ds. ni < unat d \<and> unat d < 200" using S unfolding stored_file_def idx_rep_def dat_rep_def by auto
  have "iget (vdisk v') ib = iget (vdisk v) ib" if "ib \<in> set ibs" for ib using fr i dis(1) that unfolding frame_rep_def by blast
  then have 1: "idx_rep ni (vdisk v') first ifree c ibs [] ds = idx_rep ni (vdisk v) first ifree c ibs [] ds" for first ifree c
    by (intro idx_cong) simp
  have "vdisk v' (sint d) = vdisk v (sint d)" if d: "d \<in> set ds" for d
  proof -
    have "int ni < sint d" using b d data_sint [of d] by (auto simp del: of_nat_unat)
    moreover have "\<forall>b\<in>B. sint b \<noteq> sint d" using dis(2) d by (metis disjoint_iff signed_word_eqI)
    ultimately show ?thesis using fr unfolding frame_rep_def by blast
  qed
  then have 2: "dat_rep ni (vdisk v') dfree c ds [] ys = dat_rep ni (vdisk v) dfree c ds [] ys" for dfree c
    by (intro dat_cong) simp
  show ?thesis using S unfolding stored_file_def e 1 2 .
qed

end
