(* ===== verification/File_Properties.thy ===== *)
theory File_Properties
  imports File_Spec Paging_Properties
begin

section \<open>Properties of the local file system\<close>

text \<open>
  What the file system promises its callers: an open file is a sequence of bytes with a position,
  whatever its blocks are; no other file changes; a new name is an empty file; a file that was closed is
  there after a restart; truncating returns every block. The concrete states are an open empty file
  on a small disk and a system with nothing open.
\<close>

subsection \<open>States\<close>

text \<open>\<open>holds ni I B f s xs p\<close>: the pseudo-device \<open>f\<close> is an open file with the contents \<open>xs\<close> and the position \<open>p\<close>, whose
  blocks and those of the free lists are \<open>I\<close> and \<open>B\<close>.\<close>

definition holds :: "nat \<Rightarrow> u32 set \<Rightarrow> u32 set \<Rightarrow> int \<Rightarrow> 'a lfstate_t_scheme \<Rightarrow> u8 list \<Rightarrow> nat \<Rightarrow> bool" where
  "holds ni I B f s xs p \<longleftrightarrow> pair_rep ni I B (lview f s) (xs, p)"

lemma holds_iff: "holds ni I B f s xs p \<longleftrightarrow> file_rep ni I B (lview f s) xs \<and> unat (lfpos (lfltab s f)) = p \<and> usable (lview f s)"
  by (simp add: holds_def pair_rep_def)

lemma holds_lput: "holds ni I B f (lput f v s) xs p \<longleftrightarrow> pair_rep ni I B v (xs, p)"
  by (simp add: holds_def lf.get_put)

subsection \<open>A small disk\<close>

text \<open>Ten sectors: the directory, one sector of index blocks and eight data sectors, all of them free; the
  file \<open>a\<close> is open and empty.\<close>

definition fdemo_dir :: lfdir where
  "fdemo_dir = zero_dir\<lparr>lfd_dfree := 2, lfd_nfiles := 1, lfd_files := (\<lambda>_. \<lparr>ld_size = 0, ld_ilist = - 1, ld_name = (\<lambda>_. 0)(0 := 0x61)\<rparr>)\<rparr>"

definition fdemo_disk :: "int \<Rightarrow> wbuf" where
  "fdemo_disk k = (if k = 0 then enc_dir (zero_dir\<lparr>lfd_dfree := 2\<rparr>)
     else if k = 1 then (\<lambda>j. enc_ib ((lfibclear 0)\<lparr>ib_next := if j div 18 < 6 then of_nat (Suc (j div 18)) else - 1\<rparr>) (j mod 18))
     else (\<lambda>j. if j = 0 then (if k < 9 then word_of_int (k + 1) else - 1) else 0))"

definition fdemo_cb :: lflcblk where
  "fdemo_cb = no_block\<lparr>lfstate := LF_USED, lfdev := 9, lfmutex := 3, lfmode := LF_MODE_RW\<rparr>"

definition fdemo :: "bool \<Rightarrow> lflcblk \<Rightarrow> lfstate_t" where
  "fdemo present cb = pgstate.extend (pdemo1\<lparr>ramdisk := fdemo_disk\<rparr>)
     (lfstate_t.fields \<lparr>lf_dskdev = RAM0, lf_mutex = 2, lf_dir = fdemo_dir, lf_dirpresent = present, lf_dirdirty = False\<rparr>
       (\<lambda>f. if f = 0 then cb else no_block) (\<lambda>_. 0))"

lemma fdemo_sel [simp]:
  "semtab (fdemo present cb) = semtab pdemo_base" "ramdisk (fdemo present cb) = fdemo_disk"
  "lf_data (fdemo present cb) = \<lparr>lf_dskdev = RAM0, lf_mutex = 2, lf_dir = fdemo_dir, lf_dirpresent = present, lf_dirdirty = False\<rparr>"
  "lfltab (fdemo present cb) = (\<lambda>f. if f = 0 then cb else no_block)" "lf_stack (fdemo present cb) = (\<lambda>_. 0)"
  by (simp_all add: fdemo_def lfstate_t.defs pgstate.defs vstate.defs mstate.defs kstate.defs pdemo1_def)

text \<open>The other devices do nothing.\<close>

definition fdevs :: "lfstate_t devtab_t" where
  "fdevs = (\<lambda>_. \<lparr>dvnum = 2, dvminor = 0, dvname = ''NULLDEV'', dvinit = ionull, dvopen = (\<lambda>_ _. ionull), dvclose = ionull,
     dvread = (\<lambda>b _. Ret (OK, b)), dvwrite = (\<lambda>_ _. ionull), dvseek = (\<lambda>_. ioerr), dvgetc = ionull, dvputc = (\<lambda>_. ionull),
     dvcntl = (\<lambda>_ _ _. ioerr)\<rparr>)"

lemma fdemo_semaphores: "usable (lview 0 (fdemo present fdemo_cb))"
  by (simp add: usable_def vfree_def fdemo_cb_def pdemo_base_def)

lemma fdemo_blocks:
  "iget fdemo_disk (of_nat i) = (lfibclear 0)\<lparr>ib_next := if Suc i < 7 then of_nat (Suc i) else - 1\<rparr>" if "i < 7"
proof -
  have "unat (of_nat i :: u32) < 1393" "unat (of_nat i :: u32) = i" using that u32_of_nat(1) [of i] by simp_all
  note s = ib2sect_small [OF this(1), unfolded this(2)]
  have d: "(i * 18 + k) div 18 = i" "(i * 18 + k) mod 18 = k" if "k < 18" for k using that by simp_all
  have "iget fdemo_disk (of_nat i) = dec_ib (enc_ib ((lfibclear 0)\<lparr>ib_next := if i < 6 then of_nat (Suc i) else - 1\<rparr>))"
    unfolding iget_def using s d that by (intro dec_ib_cong) (simp add: fdemo_disk_def mult.commute)
  then show ?thesis using that by (simp add: dec_enc_ib)
qed

lemma fdemo_fresh: "fresh_disk 1 10 fdemo_disk"
proof -
  have "dir_eq (dec_dir (fdemo_disk 0)) (zero_dir\<lparr>lfd_dfree := 2\<rparr>)" by (rule dec_enc_dir) (simp add: fdemo_disk_def)
  moreover have "\<forall>i. 1 < i \<longrightarrow> i < 10 \<longrightarrow> fdemo_disk (int i) 0 = (if Suc i < 10 then of_nat (Suc i) else - 1)"
    by (auto simp: fdemo_disk_def add.commute)
  ultimately show ?thesis using fdemo_blocks by (simp add: fresh_disk_def)
qed

definition fdemo_I :: "u32 set" where
  "fdemo_I = {ib. unat ib < 7}"

definition fdemo_B :: "u32 set" where
  "fdemo_B = {d. 2 \<le> unat d \<and> unat d < 10}"

lemma card_range:
  assumes "b \<le> 2 ^ 32"
  shows "card {w :: u32. a \<le> unat w \<and> unat w < b} = b - a"
proof -
  have "card (set (map (of_nat :: nat \<Rightarrow> u32) [a..<b])) = b - a"
    using distinct_card [OF distinct_of_nat_upt [OF assms, of a]] by (simp only: length_map length_upt)
  then show ?thesis by (simp only: set_of_nat_upt [OF assms])
qed

lemma fdemo_capacity: "capacity fdemo_I fdemo_B = 4096"
proof -
  have "card fdemo_I = 7" using card_range [of 7 0] by (simp add: fdemo_I_def)
  moreover have "card fdemo_B = 8" using card_range [of 10 2] by (simp add: fdemo_B_def)
  ultimately show ?thesis by (simp add: capacity_def)
qed

lemma fdemo_holds: "holds 1 fdemo_I fdemo_B 0 (fdemo True fdemo_cb) [] 0"
proof -
  have "free_rep 1 {ib. unat ib < 7 * 1} {d. 1 < unat d \<and> unat d < 10} fdemo_disk (dec_dir (fdemo_disk 0))"
    by (rule fresh_free [OF fdemo_fresh]) simp_all
  moreover have "{ib :: u32. unat ib < 7 * 1} = fdemo_I" "{d :: u32. 1 < unat d \<and> unat d < 10} = fdemo_B"
    by (auto simp: fdemo_I_def fdemo_B_def)
  ultimately have free: "free_rep 1 fdemo_I fdemo_B fdemo_disk (dec_dir (fdemo_disk 0))" by (simp only:)
  have "lfd_ifree (dec_dir (fdemo_disk 0)) = 0" "lfd_dfree (dec_dir (fdemo_disk 0)) = 2"
    by (simp_all add: dec_dir_def fdemo_disk_def enc_dir_def zero_dir_def)
  then have "disk_rep 1 fdemo_I fdemo_B fdemo_disk fdemo_dir 0 []"
    by (intro free_rep_new [OF free]) (simp_all add: fdemo_dir_def zero_dir_def)
  then have "file_rep 1 fdemo_I fdemo_B (lview 0 (fdemo True fdemo_cb)) []"
    by (intro file_of_disk) (simp_all add: fdemo_cb_def vacant_def no_block_def)
  moreover have "lfpos fdemo_cb = 0" by (simp add: fdemo_cb_def no_block_def)
  ultimately show ?thesis using fdemo_semaphores by (simp add: holds_iff)
qed


subsection \<open>An open file\<close>

text \<open>C7: the operations on an open file implement a sequence of bytes with a position: any series of writing and
  reading single bytes, seeking and truncating for which the disk has room returns the results of the
  specification and leaves a file with the contents and the position of the specification.\<close>

theorem file_ops_refine:
  assumes "holds ni I B f s xs p" and "fits (capacity I B) ops (xs, p)" and "spec_ops ops (xs, p) = (rs, ys, q)"
  shows "\<exists>s'. runs (do_ops (devtab d) f ops) s rs s' \<and> holds ni I B f s' ys q"
proof -
  obtain v where v: "lruns f (do_ops (devtab d) f ops) (lview f s) rs v" "pair_rep ni I B v (ys, q)"
    using do_ops_runs [OF assms(1) [unfolded holds_def] assms(2), of f d] assms(3) by auto
  then show ?thesis using lf.vrunsD [OF v(1)] by (intro exI [of _ "lput f v s"]) (simp add: holds_lput)
qed

theorem file_ops_refine_witness:
  "\<exists>s'. runs (do_ops (devtab fdevs) 0 [PutC 72, PutC 105, SeekTo 1, GetC, GetC, SeekTo 7, Truncate, GetC]) (fdemo True fdemo_cb)
    [1, 1, 1, 105, - 2, - 1, 1, - 2] s' \<and> holds 1 fdemo_I fdemo_B 0 s' [] 0"
  by (rule file_ops_refine [OF fdemo_holds]) (simp_all add: fdemo_capacity put_byte_def)

text \<open>A disk with two files: \<open>a\<close> is open and empty as above, \<open>b\<close> holds the three bytes \<open>xyz\<close> in data block 9, to which
  its index block 6 points. The other blocks are free.\<close>

definition gdemo_dir :: lfdir where
  "gdemo_dir = zero_dir\<lparr>lfd_dfree := 2, lfd_ifree := 0, lfd_nfiles := 2, lfd_files := (\<lambda>j. if j = 1
     then \<lparr>ld_size = 3, ld_ilist = 6, ld_name = (\<lambda>_. 0)(0 := 0x62)\<rparr> else \<lparr>ld_size = 0, ld_ilist = - 1, ld_name = (\<lambda>_. 0)(0 := 0x61)\<rparr>)\<rparr>"

definition gdemo_block :: "nat \<Rightarrow> lfiblk" where
  "gdemo_block i = (if i < 6 then (lfibclear 0)\<lparr>ib_next := if Suc i < 6 then of_nat (Suc i) else - 1\<rparr>
     else (lfibclear 0)\<lparr>ib_dba := (\<lambda>j. if j = 0 then 9 else - 1)\<rparr>)"

definition gdemo_disk :: "int \<Rightarrow> wbuf" where
  "gdemo_disk k = (if k = 0 then enc_dir gdemo_dir
     else if k = 1 then (\<lambda>j. enc_ib (gdemo_block (j div 18)) (j mod 18))
     else (\<lambda>j. if j = 0 then (if k < 8 then word_of_int (k + 1) else if k = 8 then - 1 else 0x7A7978) else 0))"

definition gdemo :: lfstate_t where
  "gdemo = (fdemo True fdemo_cb)\<lparr>ramdisk := gdemo_disk, lf_data := (lf_data (fdemo True fdemo_cb))\<lparr>lf_dir := gdemo_dir\<rparr>\<rparr>"

definition gdemo_I :: "u32 set" where
  "gdemo_I = {ib. unat ib < 6}"

definition gdemo_B :: "u32 set" where
  "gdemo_B = {d. 2 \<le> unat d \<and> unat d < 9}"

lemma gdemo_sel [simp]:
  "semtab gdemo = semtab pdemo_base" "ramdisk gdemo = gdemo_disk"
  "lf_data gdemo = \<lparr>lf_dskdev = RAM0, lf_mutex = 2, lf_dir = gdemo_dir, lf_dirpresent = True, lf_dirdirty = False\<rparr>"
  "lfltab gdemo = (\<lambda>f. if f = 0 then fdemo_cb else no_block)" "lf_stack gdemo = (\<lambda>_. 0)"
  by (simp_all add: gdemo_def)

lemma gdemo_blocks: "iget gdemo_disk (of_nat i) = gdemo_block i" if "i < 7"
proof -
  have "unat (of_nat i :: u32) < 1393" "unat (of_nat i :: u32) = i" using that u32_of_nat(1) [of i] by simp_all
  note s = ib2sect_small [OF this(1), unfolded this(2)]
  have d: "(i * 18 + k) div 18 = i" "(i * 18 + k) mod 18 = k" if "k < 18" for k using that by simp_all
  have "iget gdemo_disk (of_nat i) = dec_ib (enc_ib (gdemo_block i))"
    unfolding iget_def using s d that by (intro dec_ib_cong) (simp add: gdemo_disk_def mult.commute)
  moreover have "ib_norm (gdemo_block i)" by (simp add: gdemo_block_def ib_norm_def lfibclear_def)
  ultimately show ?thesis by (simp add: dec_enc_ib)
qed

lemma gdemo_holds: "holds 1 gdemo_I gdemo_B 0 gdemo [] 0"
proof -
  let ?fis = "map of_nat [0..<6] :: u32 list" and ?fds = "map of_nat [2..<9] :: u32 list"
  have I: "set ?fis = gdemo_I" using set_of_nat_upt [of 6 0] by (simp add: gdemo_I_def)
  have B: "set ?fds = gdemo_B" using set_of_nat_upt [of 9 2] by (simp add: gdemo_B_def)
  have c: "chain (\<lambda>ib. ib_next (iget gdemo_disk ib)) (of_nat 0) ?fis"
    by (rule chain_upt) (simp_all add: gdemo_blocks gdemo_block_def)
  have "chain (\<lambda>d. gdemo_disk (sint d) 0) (of_nat 2) ?fds"
    by (rule chain_upt) (auto simp: u32_of_nat gdemo_disk_def add.commute)
  then have "dat_rep 1 gdemo_disk 2 no_block [] ?fds []"
    using B distinct_of_nat_upt [of 9 2] by (auto simp: dat_rep_def gdemo_B_def simp del: set_map)
  moreover have "idx_rep 1 gdemo_disk (- 1) 0 no_block [] ?fis []"
    using c I distinct_of_nat_upt [of 6 0] by (auto simp: idx_rep_def iblocks_def gdemo_I_def simp del: set_map)
  ultimately have "free_rep 1 gdemo_I gdemo_B gdemo_disk gdemo_dir" unfolding free_rep_def using I B
    by (intro exI [of _ ?fis] exI [of _ ?fds]) (simp add: gdemo_dir_def del: set_map)
  then have "disk_rep 1 gdemo_I gdemo_B gdemo_disk gdemo_dir 0 []"
    by (rule free_rep_new) (simp_all add: gdemo_dir_def)
  then have "file_rep 1 gdemo_I gdemo_B (lview 0 gdemo) []"
    by (intro file_of_disk) (simp_all add: fdemo_cb_def vacant_def no_block_def)
  moreover have "lfpos fdemo_cb = 0" by (simp add: fdemo_cb_def no_block_def)
  moreover have "usable (lview 0 gdemo)" by (simp add: usable_def vfree_def fdemo_cb_def pdemo_base_def)
  ultimately show ?thesis by (simp add: holds_iff)
qed

lemma gdemo_stored: "stored_file 1 gdemo_disk gdemo_dir 1 [6] [9] [0x78, 0x79, 0x7A]"
proof -
  have b: "iget gdemo_disk 6 = (lfibclear 0)\<lparr>ib_dba := (\<lambda>j. if j = 0 then 9 else - 1)\<rparr>"
    using gdemo_blocks [of 6] by (simp add: gdemo_block_def)
  have "[0x78, 0x79, 0x7A :: u8] ! p = dget gdemo_disk 9 p" if "p < 3" for p
    using that by (auto simp: less_Suc_eq numeral_3_eq_3 dget_def word_byte_def gdemo_disk_def)
  then have "dat_rep 1 gdemo_disk (- 1) no_block [9] [] [0x78, 0x79, 0x7A]" by (auto simp: dat_rep_def dview_def)
  moreover have "idx_rep 1 gdemo_disk 6 (- 1) no_block [6] [] [9]"
    by (auto simp: idx_rep_def iblocks_def iview_def b lfibclear_def)
  ultimately show ?thesis by (simp add: stored_file_def gdemo_dir_def)
qed

lemma gdemo_capacity: "capacity gdemo_I gdemo_B = 3584"
proof -
  have "card gdemo_I = 6" using card_range [of 6 0] by (simp add: gdemo_I_def)
  moreover have "card gdemo_B = 7" using card_range [of 9 2] by (simp add: gdemo_B_def)
  ultimately show ?thesis by (simp add: capacity_def)
qed

text \<open>C30: the same operations and \<open>lflclose\<close> leave every other file alone. During the operations and after closing, the other
  entries of the directory are as before, names included, a file stored in blocks of its own keeps its contents and
  the chain of its blocks, and the control blocks of the other pseudo-devices do not change; closing writes
  a changed directory to the disk.\<close>

theorem file_ops_keep_others:
  assumes "holds ni I B f s xs p" and "fits (capacity I B) ops (xs, p)"
    and "stored_file ni (ramdisk s) (lf_dir (lf_data s)) j ibs ds zs" and "j \<noteq> lfdirptr (lfltab s f)"
    and "set ibs \<inter> I = {}" and "set ds \<inter> B = {}"
  shows "\<exists>s1 s2. runs (do_ops (devtab d) f ops) s (fst (spec_ops ops (xs, p))) s1 \<and> runs (lflclose (devtab d) f) s1 OK s2 \<and>
    (\<forall>t\<in>{s1, s2}. stored_file ni (ramdisk t) (lf_dir (lf_data t)) j ibs ds zs \<and>
      lfd_nfiles (lf_dir (lf_data t)) = lfd_nfiles (lf_dir (lf_data s)) \<and>
      (\<forall>i. i \<noteq> lfdirptr (lfltab s f) \<longrightarrow> lfd_files (lf_dir (lf_data t)) i = lfd_files (lf_dir (lf_data s)) i) \<and>
      ld_name (lfd_files (lf_dir (lf_data t)) (lfdirptr (lfltab s f))) = ld_name (lfd_files (lf_dir (lf_data s)) (lfdirptr (lfltab s f))) \<and>
      (\<forall>g. g \<noteq> f \<longrightarrow> lfltab t g = lfltab s g)) \<and>
    lfstate (lfltab s2 f) = LF_FREE \<and> (lf_dirdirty (lf_data s1) \<longrightarrow> dir_eq (dec_dir (ramdisk s2 0)) (lf_dir (lf_data s2)))"
proof -
  obtain v where v: "lruns f (do_ops (devtab d) f ops :: ('a lfstate_t_scheme, int list) prog) (lview f s) (fst (spec_ops ops (xs, p))) v"
    "pair_rep ni I B v (snd (spec_ops ops (xs, p)))" "frame_rep ni I B (lview f s) v"
    using do_ops_runs [OF assms(1) [unfolded holds_def] assms(2), of f d] by blast
  obtain w where w: "lruns f (lflclose (devtab d) f :: ('a lfstate_t_scheme, int) prog) v OK w" "lfstate (vcb w) = LF_FREE" "frame_rep ni I B v w"
    "lf_dir (vdata w) = lf_dir (vdata v)" "saved v \<longrightarrow> dir_eq (dec_dir (vdisk w 0)) (lf_dir (vdata v))"
    using close_runs [of ni I B v _ f d] v(2) unfolding pair_rep_def by blast
  let ?s1 = "lput f v s" and ?s2 = "lput f w (lput f v s)"
  have r2: "runs (lflclose (devtab d) f) ?s1 OK ?s2" using w(1) by (intro lf.vrunsD) (simp add: lf.get_put)
  have keep: "stored_file ni (ramdisk (lput f u t)) (lf_dir (lf_data (lput f u t))) j ibs ds zs \<and>
      lfd_nfiles (lf_dir (lf_data (lput f u t))) = lfd_nfiles (lf_dir (lf_data s)) \<and>
      (\<forall>i. i \<noteq> lfdirptr (lfltab s f) \<longrightarrow> lfd_files (lf_dir (lf_data (lput f u t))) i = lfd_files (lf_dir (lf_data s)) i) \<and>
      ld_name (lfd_files (lf_dir (lf_data (lput f u t))) (lfdirptr (lfltab s f))) = ld_name (lfd_files (lf_dir (lf_data s)) (lfdirptr (lfltab s f)))"
    if fr: "frame_rep ni I B (lview f s) u" for u and t :: "'a lfstate_t_scheme"
    using frame_stored [OF fr, of j ibs ds zs] assms(3-6) fr by (auto simp: frame_rep_def vent_def)
  have "frame_rep ni I B (lview f s) w" by (rule frame_trans [OF v(3) w(3)])
  then show ?thesis
    using lf.vrunsD [OF v(1)] r2 keep [OF v(3), of s] keep [of w ?s1] w(2,4,5)
    by (intro exI [of _ ?s1] exI [of _ ?s2]) (simp add: saved_def)
qed

theorem file_ops_keep_others_witness:
  "\<exists>s1 s2. runs (do_ops (devtab fdevs) 0 [PutC 72, Truncate, PutC 73]) gdemo [1, 1, 1] s1 \<and> runs (lflclose (devtab fdevs) 0) s1 OK s2 \<and>
    stored_file 1 (ramdisk s2) (lf_dir (lf_data s2)) 1 [6] [9] [0x78, 0x79, 0x7A] \<and> ld_name (lfd_files (lf_dir (lf_data s2)) 1) 0 = 0x62"
proof -
  have "stored_file 1 (ramdisk gdemo) (lf_dir (lf_data gdemo)) 1 [6] [9] [0x78, 0x79, 0x7A]" using gdemo_stored by simp
  moreover have "fits (capacity gdemo_I gdemo_B) [PutC 72, Truncate, PutC 73] ([], 0)"
    "fst (spec_ops [PutC 72, Truncate, PutC 73] ([], 0)) = [1, 1, 1]" by (simp_all add: gdemo_capacity)
  moreover have "1 \<noteq> lfdirptr (lfltab gdemo 0)" "set [6] \<inter> gdemo_I = {}" "set [9] \<inter> gdemo_B = {}"
    by (simp_all add: fdemo_cb_def no_block_def gdemo_I_def gdemo_B_def)
  ultimately obtain s1 s2 where r: "runs (do_ops (devtab fdevs) 0 [PutC 72, Truncate, PutC 73]) gdemo [1, 1, 1] s1" "runs (lflclose (devtab fdevs) 0) s1 OK s2"
    "stored_file 1 (ramdisk s2) (lf_dir (lf_data s2)) 1 [6] [9] [0x78, 0x79, 0x7A]" "lfd_files (lf_dir (lf_data s2)) 1 = lfd_files gdemo_dir 1"
    using file_ops_keep_others [OF gdemo_holds, of "[PutC 72, Truncate, PutC 73]" 1 "[6]" "[9]" "[0x78, 0x79, 0x7A]" fdevs]
    unfolding gdemo_sel by auto
  have "ld_name (lfd_files (lf_dir (lf_data s2)) 1) 0 = 0x62" unfolding r(4) by (simp add: gdemo_dir_def)
  then show ?thesis using r(1-3) by blast
qed

text \<open>\<open>lflwrite\<close> puts its bytes over the contents from the position on and appends what is beyond the end;
  after seeking back, \<open>lflread\<close> returns exactly the bytes written.\<close>

theorem file_write_read_roundtrip:
  fixes s :: "'a lfstate_t_scheme"
  assumes "holds ni I B f s xs p" and "0 \<le> count" and "p + nat count \<le> capacity I B" and "unat off = p"
  shows "\<exists>b' s'. runs (pbind (lflwrite (devtab d) f b count) (\<lambda>_. pbind (lflseek f off) (\<lambda>_. lflread (devtab d) f b0 count))) s (count, b') s' \<and>
    (\<forall>i<nat count. b' i = b i) \<and> holds ni I B f s' (put_bytes xs p (map b [0..<nat count])) (p + nat count)"
proof -
  let ?ys = "put_bytes xs p (map b [0..<nat count])"
  have F: "file_rep ni I B (lview f s) xs" and P: "unat (lfpos (vcb (lview f s))) = p" and U: "usable (lview f s)" and px: "p \<le> length xs"
    using assms(1) file_pos [of ni I B "lview f s" xs] by (simp_all add: holds_iff)
  have "unat (lfpos (vcb (lview f s))) + length [0..<nat count] \<le> 8192 * card I" "unat (lfpos (vcb (lview f s))) + length [0..<nat count] \<le> 512 * card B"
    using assms(3) P by (simp_all add: capacity_def)
  from write_loop_runs [OF F U this, of f d b] obtain v1 where v1: "lruns f (lflwrite_loop (devtab d) f [0..<nat count] b) (lview f s) True v1"
    "file_rep ni I B v1 ?ys" "frame_rep ni I B (lview f s) v1" unfolding P by blast
  have U1: "usable v1" using frame_usable [OF v1(3)] U by simp
  have len: "p + nat count \<le> length ?ys" "\<forall>i<nat count. ?ys ! (p + i) = b i" using px by (auto simp: put_bytes_def nth_append)
  have "unat off \<le> length ?ys" using len(1) assms(4) by simp
  from seek_runs [OF v1(2) U1 this, of f] obtain v2 where v2: "lruns f (lflseek f off :: ('a lfstate_t_scheme, int) prog) v1 OK v2" "file_rep ni I B v2 ?ys"
    "lfpos (vcb v2) = off" "frame_rep ni I B v1 v2" by blast
  have U2: "usable v2" using frame_usable [OF v2(4)] U1 by simp
  have P2: "unat (lfpos (vcb v2)) = p" using v2(3) assms(4) by simp
  have m: "min (nat count) (length ?ys - p) = nat count" using len(1) by simp
  have r: "(if 0 < nat count \<and> (0 :: nat) = 0 \<and> p = length ?ys then EOF else int (0 + nat count)) = count" using len(1) assms(2) by (cases "count = 0") auto
  from read_loop_runs [OF v2(2) U2, of f d "nat count" 0 b0] obtain v3 b' where v3: "lruns f (lflread_loop (devtab d) f (nat count) 0 b0) v2 (count, b') v3"
    "file_rep ni I B v3 ?ys" "unat (lfpos (vcb v3)) = min (p + nat count) (length ?ys)" "frame_rep ni I B v2 v3"
    "\<forall>i<nat count. b' (0 + i) = ?ys ! (p + i)" unfolding P2 m r by blast
  have "lruns f (pbind (lflwrite (devtab d) f b count) (\<lambda>_. pbind (lflseek f off) (\<lambda>_. lflread (devtab d) f b0 count))) (lview f s) (count, b') v3"
    unfolding lflwrite_def lflread_def using assms(2) v3(1)
    by (intro lf.vruns_bind [where r = count and u = v1] lf.vruns_bind [OF v2(1)]) (simp_all add: lf.vruns_bind [OF v1(1)] lf.vruns_Ret)
  then have "runs (pbind (lflwrite (devtab d) f b count) (\<lambda>_. pbind (lflseek f off) (\<lambda>_. lflread (devtab d) f b0 count))) s (count, b') (lput f v3 s)"
    by (rule lf.vrunsD)
  moreover have "pair_rep ni I B v3 (?ys, p + nat count)" using v3(2,3) len(1) frame_usable [OF v3(4)] U2 by (simp add: pair_rep_def)
  ultimately show ?thesis using v3(5) len(2) by (intro exI [of _ b'] exI [of _ "lput f v3 s"]) (simp add: holds_lput)
qed

theorem file_write_read_roundtrip_witness:
  "\<exists>b' s'. runs (pbind (lflwrite (devtab fdevs) 0 of_nat 3000) (\<lambda>_. pbind (lflseek 0 0) (\<lambda>_. lflread (devtab fdevs) 0 (\<lambda>_. 0) 3000)))
    (fdemo True fdemo_cb) (3000, b') s' \<and> b' 2999 = of_nat 2999"
  using file_write_read_roundtrip [OF fdemo_holds, of 3000 0 fdevs of_nat "\<lambda>_. 0"] by (auto simp: fdemo_capacity)


text \<open>C31: truncating a file that is not empty gives all its blocks back: the free lists then hold every index block
  and every data block that the file had or that was free.\<close>

theorem truncate_frees_all:
  assumes "holds ni I B f s xs p" and "xs \<noteq> []"
  shows "\<exists>s'. runs (lflcontrol (devtab d) f LF_CTL_TRUNC a1 a2) s OK s' \<and> holds ni I B f s' [] 0 \<and>
    free_rep ni I B (ramdisk s') (lf_dir (lf_data s'))"
proof -
  have F: "file_rep ni I B (lview f s) xs" and U: "usable (lview f s)" using assms(1) by (simp_all add: holds_iff)
  obtain v where v: "lruns f (lflcontrol (devtab d) f LF_CTL_TRUNC a1 a2) (lview f s) OK v" "file_rep ni I B v []"
    "frame_rep ni I B (lview f s) v" "free_rep ni I B (vdisk v) (lf_dir (vdata v))"
    using control_runs [OF F U, of f d a1 a2] assms(2) by blast
  have "pair_rep ni I B v ([], 0)" using v(2) file_pos [OF v(2)] frame_usable [OF v(3)] U by (simp add: pair_rep_def)
  then show ?thesis using lf.vrunsD [OF v(1)] v(4) by (intro exI [of _ "lput f v s"]) (simp add: holds_lput)
qed

theorem truncate_frees_all_witness:
  "\<exists>s s'. holds 1 fdemo_I fdemo_B 0 s [72] 1 \<and> runs (lflcontrol (devtab fdevs) 0 LF_CTL_TRUNC 0 0) s OK s' \<and>
    free_rep 1 fdemo_I fdemo_B (ramdisk s') (lf_dir (lf_data s'))"
proof -
  have "fits (capacity fdemo_I fdemo_B) [PutC 72] ([], 0)" by (simp add: fdemo_capacity)
  then obtain v where "pair_rep 1 fdemo_I fdemo_B v (snd (spec_ops [PutC 72] ([], 0)))"
    using do_ops_runs [OF fdemo_holds [unfolded holds_def]] by blast
  then have "holds 1 fdemo_I fdemo_B 0 (lput 0 v (fdemo True fdemo_cb)) [72] 1" by (simp add: holds_lput put_byte_def)
  from this truncate_frees_all [OF this, of fdevs 0 0] show ?thesis by blast
qed

subsection \<open>Making a file system and opening files\<close>

text \<open>C32: \<open>lfscreate\<close> makes a disk on which \<open>lfsckfmt\<close> counts exactly the index blocks of the rounded size and all
  remaining sectors as free data blocks.\<close>

theorem create_then_check:
  assumes "ni = (unat nb + 6) div 7" and "0 < ni" and "ni \<le> n div 2" and "n = unat dsiz div 512" and "Suc ni < n" and "n \<le> 200"
  shows "\<exists>s'. runs (pbind (lfscreate (devtab d) RAM0 nb dsiz) (\<lambda>_. lfsckfmt (devtab d) RAM0)) s (OK, 7 * ni, n - ni - 1) s'"
proof -
  let ?I = "{ib :: u32. unat ib < 7 * ni}" and ?B = "{d :: u32. ni < unat d \<and> unat d < n}"
  obtain D where D: "lruns 0 (lfscreate (devtab d) RAM0 nb dsiz) (lview 0 s) OK ((lview 0 s)\<lparr>vdisk := D\<rparr>)" "fresh_disk ni n D"
    using create_runs [OF assms] by blast
  have "free_rep ni ?I ?B (vdisk ((lview 0 s)\<lparr>vdisk := D\<rparr>)) (dec_dir (vdisk ((lview 0 s)\<lparr>vdisk := D\<rparr>) 0))"
    using fresh_free [OF D(2) assms(2,5,6)] by simp
  from ckfmt_runs [OF this, of 0 d]
  have c: "lruns 0 (lfsckfmt (devtab d) RAM0) ((lview 0 s)\<lparr>vdisk := D\<rparr>) (OK, card ?I, card ?B) ((lview 0 s)\<lparr>vdisk := D\<rparr>)" .
  have "ni \<le> 100" using assms(3,6) by linarith
  then have "7 * ni \<le> 2 ^ 32" "n \<le> 2 ^ 32" using assms(6) by simp_all
  then have "card ?I = 7 * ni" "card ?B = n - ni - 1"
    using card_range [of "7 * ni" 0] card_range [of n "Suc ni"] by (simp_all add: Suc_le_eq)
  then show ?thesis using lf.vrunsD [OF lf.vruns_bind [OF D(1) c]] by (intro exI) simp
qed

theorem create_then_check_witness:
  "\<exists>s'. runs (pbind (lfscreate (devtab fdevs) RAM0 40 (200 * 512)) (\<lambda>_. lfsckfmt (devtab fdevs) RAM0)) (fdemo True fdemo_cb) (OK, 42, 193) s'"
proof -
  have "\<exists>s'. runs (pbind (lfscreate (devtab fdevs) RAM0 40 (200 * 512)) (\<lambda>_. lfsckfmt (devtab fdevs) RAM0)) (fdemo True fdemo_cb)
    (OK, 7 * 6, 200 - 6 - 1) s'" by (rule create_then_check) simp_all
  moreover have "7 * 6 = (42 :: nat)" "200 - 6 - 1 = (193 :: nat)" by simp_all
  ultimately show ?thesis by (simp only:)
qed

text \<open>\<open>lfgetmode\<close> accepts exactly the strings over \<open>rwon\<close> without repeated letters and without both \<open>o\<close> and \<open>n\<close>, and
  returns their bits, with both \<open>r\<close> and \<open>w\<close> when neither is given.\<close>

theorem lfgetmode_exact: "lfgetmode m = (if mode_ok m then Some (mode_bits m) else None)"
  by (rule lfgetmode_spec)


text \<open>What \<open>lfsinit\<close> and \<open>lflinit\<close> leave: the directory is not in memory, all pseudo-devices are free, and the mutexes of
  the directory and of the first pseudo-device are free and different.\<close>

definition lfs_ready :: "'a lfstate_t_scheme \<Rightarrow> bool" where
  "lfs_ready s \<longleftrightarrow> lf_dskdev (lf_data s) = RAM0 \<and> \<not> lf_dirpresent (lf_data s) \<and> \<not> lf_dirdirty (lf_data s) \<and>
     (\<forall>i<Nlfl. lfstate (lfltab s (int i)) = LF_FREE) \<and> ib_norm (lfiblock (lfltab s 0)) \<and> usable (lview 0 s)"

text \<open>The directory in memory is dropped, as a restart does.\<close>

definition drop_dir :: "('a lfstate_t_scheme, unit) prog" where
  "drop_dir = pmodify (upd_lfd (\<lambda>d. d\<lparr>lf_dirpresent := False\<rparr>))"

lemma all_free_slot:
  assumes "\<forall>i<Nlfl. lfstate (tab (int i)) = LF_FREE"
  shows "lfsopen_slave tab name [0..<Nlfl] SYSERR = Some 0"
proof -
  have "List.find (\<lambda>i. lfstate (tab (int i)) = LF_FREE) [0..<Nlfl] = Some 0"
    using assms [rule_format, of 0] by (simp add: upt_conv_Cons)
  then show ?thesis using assms by (auto simp: lfsopen_slave_spec)
qed

text \<open>A new file on a fresh disk.\<close>

lemma fresh_open:
  fixes s :: "'a lfstate_t_scheme"
  assumes ready: "lfs_ready s" and D: "fresh_disk ni n (ramdisk s)" and ni: "0 < ni" "Suc ni < n" "n \<le> 200"
    and name: "length name < LF_NAME_LEN" and mode: "lfgetmode mode = Some mbits" "mbits AND LF_MODE_O = 0"
  shows "\<exists>u. runs (lfsopen (devtab d) name mode) s (lfdev (lfltab s 0)) (lput 0 u s) \<and>
    file_rep ni {ib. unat ib < 7 * ni} {d. ni < unat d \<and> unat d < n} u [] \<and> lfpos (vcb u) = 0 \<and> usable u \<and> lfdirptr (vcb u) = 0 \<and>
    lfd_nfiles (lf_dir (vdata u)) = 1 \<and> same_name (map of_char name) (ld_name (lfd_files (lf_dir (vdata u)) 0)) 0 \<and>
    vdisk u = ramdisk s \<and> \<not> lf_dirdirty (vdata u) \<and> clean u \<and> vcb u = open_cb 0 mbits (map of_char name) (lfltab s 0) \<and>
    lf_dirpresent (vdata u) \<and> lf_mutex (vdata u) = lf_mutex (lf_data s) \<and> lf_dskdev (vdata u) = RAM0 \<and> vsem u = semtab s"
proof -
  let ?dir = "lf_dir (vdata (load_dir (lview 0 s)))" and ?name = "map of_char name :: u8 list"
  have "dir_eq ?dir (dec_dir (ramdisk s 0))" using load_dir_eq [of "lview 0 s"] ready by (simp add: lfs_ready_def)
  moreover have zero: "dir_eq (dec_dir (ramdisk s 0)) (zero_dir\<lparr>lfd_dfree := of_nat (Suc ni)\<rparr>)" using D unfolding fresh_disk_def by blast
  ultimately have dir: "dir_eq ?dir (dec_dir (ramdisk s 0))" and n0: "lfd_nfiles ?dir = 0" by (simp_all add: dir_eq_def zero_dir_def)
  have free: "free_rep ni {ib. unat ib < 7 * ni} {d. ni < unat d \<and> unat d < n} (ramdisk s) ?dir"
    using fresh_free [OF D ni] by (simp only: free_rep_dir [OF dir])
  have none: "lfsopen_find ?dir ?name = None" unfolding lfsopen_find_def n0 by simp
  have slot: "lfsopen_slave (lfltab s) ?name [0..<Nlfl] SYSERR = Some 0"
    using ready by (intro all_free_slot) (simp add: lfs_ready_def)
  obtain u where u: "runs (lfsopen (devtab d) name mode) s (lfdev (lfltab s 0)) (lput 0 u s)"
    "file_rep ni {ib. unat ib < 7 * ni} {d. ni < unat d \<and> unat d < n} u []" "lfpos (vcb u) = 0" "usable u"
    "lf_dir (vdata u) = new_entry ?name ?dir" "vcb u = open_cb (sint (lfd_nfiles ?dir)) mbits ?name (lfltab s 0)"
    "vdisk u = ramdisk s" "\<not> lf_dirdirty (vdata u)" "lf_dirpresent (vdata u)" "lf_mutex (vdata u) = lf_mutex (lf_data s)"
    "lf_dskdev (vdata u) = RAM0" "vsem u = semtab s"
    using open_new_file [OF name mode slot _ _ _ _ none _ free, of d] ready n0 unfolding lfs_ready_def by auto
  moreover have "vcb u = open_cb 0 mbits ?name (lfltab s 0)" using u(6) n0 by simp
  moreover have "clean u" using u(6) by (simp add: clean_def open_cb_def)
  moreover have "lfdirptr (vcb u) = 0" using u(6) n0 by (simp add: open_cb_def)
  moreover have "lfd_nfiles (lf_dir (vdata u)) = 1" "same_name ?name (ld_name (lfd_files (lf_dir (vdata u)) 0)) 0"
    unfolding u(5) using n0 by (simp_all add: new_entry_def Let_def same_copy)
  ultimately show ?thesis by blast
qed

text \<open>Writing and closing, and opening after the directory was dropped.\<close>

lemma write_close:
  assumes F: "file_rep ni I B u []" and U: "usable u" and P: "lfpos (vcb u) = 0" and cnt: "0 < count" "nat count \<le> capacity I B"
  shows "\<exists>v. lruns f (pbind (lflwrite (devtab d) f b count) (\<lambda>_. pbind (lflclose (devtab d) f) (\<lambda>_. drop_dir))) u () v \<and>
    disk_rep ni I B (vdisk v) (lf_dir (vdata v)) (lfdirptr (vcb u)) (map b [0..<nat count]) \<and> dir_eq (dec_dir (vdisk v 0)) (lf_dir (vdata v)) \<and>
    frame_rep ni I B u (v\<lparr>vdata := (vdata v)\<lparr>lf_dirpresent := lf_dirpresent (vdata u)\<rparr>\<rparr>) \<and> \<not> lf_dirpresent (vdata v) \<and> usable v \<and>
    ib_norm (lfiblock (vcb v)) \<and> lfstate (vcb v) = LF_FREE"
proof -
  let ?ys = "map b [0..<nat count]"
  have p: "unat (lfpos (vcb u)) = 0" "unat (lfpos (vcb u)) = length ([] :: u8 list)" using P by simp_all
  have "unat (lfpos (vcb u)) + length [0..<nat count] \<le> 8192 * card I" "unat (lfpos (vcb u)) + length [0..<nat count] \<le> 512 * card B"
    using cnt(2) p(1) by (simp_all add: capacity_def)
  from write_loop_runs [OF F U this, of f d b] obtain v1 where v1: "lruns f (lflwrite_loop (devtab d) f [0..<nat count] b) u True v1"
    "file_rep ni I B v1 ?ys" "frame_rep ni I B u v1" "lf_dirdirty (vdata v1)"
    using p cnt(1) by (auto simp: put_bytes_def)
  have U1: "usable v1" using frame_usable [OF v1(3)] U by simp
  have "saved v1" using v1(4) by (simp add: saved_def)
  then obtain v2 where v2: "lruns f (lflclose (devtab d) f) v1 OK v2" "lfstate (vcb v2) = LF_FREE" "frame_rep ni I B v1 v2"
    "disk_rep ni I B (vdisk v2) (lf_dir (vdata v2)) (lfdirptr (vcb v1)) ?ys" "lf_dir (vdata v2) = lf_dir (vdata v1)"
    "dir_eq (dec_dir (vdisk v2 0)) (lf_dir (vdata v1))" "ib_norm (lfiblock (vcb v2))"
    using close_runs [OF v1(2) U1, of f d] by blast
  let ?v = "v2\<lparr>vdata := (vdata v2)\<lparr>lf_dirpresent := False\<rparr>\<rparr>"
  have w: "lruns f (lflwrite (devtab d) f b count) u count v1"
    unfolding lflwrite_def using cnt(1) by (auto intro: lf.vruns_bind [OF v1(1)] lruns_RetI simp: lf.vruns_Ret)
  have "lruns f drop_dir v2 () ?v" unfolding drop_dir_def by (rule lruns_lfd)
  then have "lruns f (pbind (lflwrite (devtab d) f b count) (\<lambda>_. pbind (lflclose (devtab d) f) (\<lambda>_. drop_dir))) u () ?v"
    by (rule lf.vruns_bind [OF w lf.vruns_bind [OF v2(1)]])
  moreover have fr: "frame_rep ni I B u v2" by (rule frame_trans [OF v1(3) v2(3)])
  then have "v2\<lparr>vdata := (vdata v2)\<lparr>lf_dirpresent := lf_dirpresent (vdata u)\<rparr>\<rparr> = v2" unfolding frame_rep_def by (cases v2) auto
  then have "frame_rep ni I B u (?v\<lparr>vdata := (vdata ?v)\<lparr>lf_dirpresent := lf_dirpresent (vdata u)\<rparr>\<rparr>)" using fr by simp
  moreover have "usable ?v" using frame_usable [OF fr] U by (simp add: usable_def vfree_def)
  moreover have "lfdirptr (vcb v1) = lfdirptr (vcb u)" using v1(3) by (simp add: frame_rep_def)
  ultimately show ?thesis using v2(2,4,5,6,7) by (intro exI [of _ ?v]) simp
qed


text \<open>A closed file whose directory is on the disk is opened by name and read.\<close>

lemma reopen_read:
  fixes s :: "'a lfstate_t_scheme"
  assumes disk: "disk_rep ni I B (ramdisk s) (lf_dir (lf_data s)) 0 ys" "dir_eq (dec_dir (ramdisk s 0)) (lf_dir (lf_data s))"
    and dir: "lfd_nfiles (lf_dir (lf_data s)) = 1" "same_name (map of_char name) (ld_name (lfd_files (lf_dir (lf_data s)) 0)) 0"
    and free: "\<forall>i<Nlfl. lfstate (lfltab s (int i)) = LF_FREE" and st: "\<not> lf_dirpresent (lf_data s)" "lf_dskdev (lf_data s) = RAM0"
      "usable (lview 0 s)" "ib_norm (lfiblock (lfltab s 0))"
    and name: "length name < LF_NAME_LEN" and mode: "lfgetmode mode = Some mbits" "mbits AND LF_MODE_N = 0" and ne: "ys \<noteq> []"
  shows "\<exists>b' s'. runs (pbind (lfsopen (devtab d) name mode) (\<lambda>_. lflread (devtab d) 0 b0 (int (length ys)))) s (int (length ys), b') s' \<and>
    (\<forall>i<length ys. b' i = ys ! i)"
proof -
  let ?dir = "lf_dir (vdata (load_dir (lview 0 s)))" and ?name = "map of_char name :: u8 list"
  have "dir_eq ?dir (dec_dir (ramdisk s 0))" using load_dir_eq [of "lview 0 s"] st(1) by simp
  then have d: "dir_eq ?dir (lf_dir (lf_data s))" using disk(2) dir_eq_trans by blast
  have e1: "entries (lf_dir (lf_data s)) = 1" using dir(1) by (simp add: entries_def)
  have "lfsopen_find (lf_dir (lf_data s)) ?name = Some 0" unfolding lfsopen_find_def dir(1) using dir(2) by simp
  then have find: "lfsopen_find ?dir ?name = Some 0" using find_same [OF d, of ?name] name e1 by simp
  have rep: "disk_rep ni I B (ramdisk s) ?dir (int 0) ys" using disk(1) disk_rep_dir [OF d] by simp
  obtain u where u: "runs (lfsopen (devtab d) name mode) s (lfdev (lfltab s 0)) (lput 0 u s)" "file_rep ni I B u ys" "lfpos (vcb u) = 0" "usable u"
    using open_old_file [OF name mode all_free_slot [OF free] _ st(2,3,4) find rep] by auto
  have p: "unat (lfpos (vcb u)) = 0" using u(3) by simp
  have r: "(if 0 < length ys \<and> (0 :: nat) = 0 \<and> 0 = length ys then EOF else int (0 + min (length ys) (length ys - 0))) = int (length ys)" using ne by simp
  obtain v b' where v: "lruns 0 (lflread_loop (devtab d) 0 (length ys) 0 b0) u (int (length ys), b') v" "\<forall>i<min (length ys) (length ys - 0). b' (0 + i) = ys ! (0 + i)"
    using read_loop_runs [OF u(2,4), of 0 d "length ys" 0 b0] unfolding p r by blast
  have "lruns 0 (lflread (devtab d) 0 b0 (int (length ys))) u (int (length ys), b') v" using v(1) by (simp add: lflread_def)
  then have "lruns 0 (lflread (devtab d) 0 b0 (int (length ys))) (lview 0 (lput 0 u s)) (int (length ys), b') v" by (simp only: lf.get_put)
  then have "runs (lflread (devtab d) 0 b0 (int (length ys))) (lput 0 u s) (int (length ys), b') (lput 0 v (lput 0 u s))"
    by (rule lf.vrunsD)
  then show ?thesis using v(2) by (intro exI [of _ b'] exI [of _ "lput 0 v (lput 0 u s)"] conjI runs_bind [OF u(1)]) simp_all
qed

text \<open>C8: a file written to a fresh disk and closed is there after a restart: opening its name again and reading gives
  exactly the bytes written, although the directory in memory was dropped.\<close>

theorem file_survives_restart:
  fixes s :: "'a lfstate_t_scheme"
  assumes ready: "lfs_ready s" and ni: "ni = (unat nb + 6) div 7" "0 < ni" "ni \<le> n div 2" and n: "n = unat dsiz div 512" "Suc ni < n" "n \<le> 200"
    and name: "length name < LF_NAME_LEN" and m1: "lfgetmode m1 = Some b1" "b1 AND LF_MODE_O = 0" and m2: "lfgetmode m2 = Some b2" "b2 AND LF_MODE_N = 0"
    and count: "0 < count" "nat count \<le> 57344 * ni" "nat count \<le> 512 * (n - ni - 1)"
  shows "\<exists>b' s'. runs (pbind (lfscreate (devtab d) RAM0 nb dsiz) (\<lambda>_. pbind (lfsopen (devtab d) name m1) (\<lambda>_.
      pbind (pbind (lflwrite (devtab d) 0 b count) (\<lambda>_. pbind (lflclose (devtab d) 0) (\<lambda>_. drop_dir))) (\<lambda>_.
      pbind (lfsopen (devtab d) name m2) (\<lambda>_. lflread (devtab d) 0 b0 count))))) s (count, b') s' \<and> (\<forall>i<nat count. b' i = b i)"
proof -
  let ?I = "{ib :: u32. unat ib < 7 * ni}" and ?B = "{x :: u32. ni < unat x \<and> unat x < n}" and ?ys = "map b [0..<nat count]"
  obtain D where D: "lruns 0 (lfscreate (devtab d) RAM0 nb dsiz) (lview 0 s) OK ((lview 0 s)\<lparr>vdisk := D\<rparr>)" "fresh_disk ni n D"
    using create_runs [OF ni n] by blast
  define s1 where "s1 = lput 0 ((lview 0 s)\<lparr>vdisk := D\<rparr>) s"
  have r1: "runs (lfscreate (devtab d) RAM0 nb dsiz) s OK s1" unfolding s1_def by (rule lf.vrunsD [OF D(1)])
  have "lfltab s1 = lfltab s" "lf_data s1 = lf_data s" "ramdisk s1 = D" "semtab s1 = semtab s" by (simp_all add: s1_def)
  then have ready1: "lfs_ready s1" "fresh_disk ni n (ramdisk s1)"
    using ready D(2) by (simp_all add: lfs_ready_def usable_def vfree_def)
  obtain u where u: "runs (lfsopen (devtab d) name m1) s1 (lfdev (lfltab s1 0)) (lput 0 u s1)" "file_rep ni ?I ?B u []" "lfpos (vcb u) = 0" "usable u"
    "lfdirptr (vcb u) = 0" "lfd_nfiles (lf_dir (vdata u)) = 1" "same_name (map of_char name) (ld_name (lfd_files (lf_dir (vdata u)) 0)) 0"
    using fresh_open [OF ready1 ni(2) n(2,3) name m1, of d] by blast
  have "ni \<le> 100" using ni(3) n(3) by linarith
  then have "7 * ni \<le> 2 ^ 32" "n \<le> 2 ^ 32" using n(3) by simp_all
  then have "card ?I = 7 * ni" "card ?B = n - ni - 1" using card_range [of "7 * ni" 0] card_range [of n "Suc ni"] by (simp_all add: Suc_le_eq)
  then have "nat count \<le> capacity ?I ?B" using count(2,3) by (simp add: capacity_def)
  from write_close [OF u(2,4,3) count(1) this, of 0 d b] obtain v where
    v: "lruns 0 (pbind (lflwrite (devtab d) 0 b count) (\<lambda>_. pbind (lflclose (devtab d) 0) (\<lambda>_. drop_dir))) u () v"
    "disk_rep ni ?I ?B (vdisk v) (lf_dir (vdata v)) (lfdirptr (vcb u)) ?ys" "dir_eq (dec_dir (vdisk v 0)) (lf_dir (vdata v))"
    "frame_rep ni ?I ?B u (v\<lparr>vdata := (vdata v)\<lparr>lf_dirpresent := lf_dirpresent (vdata u)\<rparr>\<rparr>)" "\<not> lf_dirpresent (vdata v)" "usable v"
    "ib_norm (lfiblock (vcb v))" "lfstate (vcb v) = LF_FREE" by blast
  define s2 where "s2 = lput 0 v (lput 0 u s1)"
  have r2: "runs (pbind (lflwrite (devtab d) 0 b count) (\<lambda>_. pbind (lflclose (devtab d) 0) (\<lambda>_. drop_dir))) (lput 0 u s1) () s2"
    unfolding s2_def by (rule lf.vrunsD) (use v(1) in \<open>simp only: lf.get_put\<close>)
  have dev: "lf_dskdev (vdata v) = RAM0" using v(4) u(2) unfolding frame_rep_def file_rep_def blocks_rep_def by auto
  have "lfdirptr (vcb v) = 0" using v(4) u(5) unfolding frame_rep_def by simp
  then have "ld_name (lfd_files (lf_dir (vdata v)) 0) = ld_name (lfd_files (lf_dir (vdata u)) 0)"
    using v(4) u(5) unfolding frame_rep_def vent_def by simp
  then have names: "lfd_nfiles (lf_dir (vdata v)) = 1" "same_name (map of_char name) (ld_name (lfd_files (lf_dir (vdata v)) 0)) 0"
    using v(4) u(6,7) unfolding frame_rep_def by simp_all
  have st: "lfltab s2 = (lfltab s)(0 := vcb v)" "lview 0 s2 = v"
    using \<open>lfltab s1 = lfltab s\<close> lf.get_put [of 0 v] by (simp_all add: s2_def)
  then have sel: "ramdisk s2 = vdisk v" "lf_data s2 = vdata v" by (simp_all add: s2_def)
  have free: "\<forall>i<Nlfl. lfstate (lfltab s2 (int i)) = LF_FREE" using ready v(8) st(1) by (simp add: lfs_ready_def)
  have "\<exists>b' s'. runs (pbind (lfsopen (devtab d) name m2) (\<lambda>_. lflread (devtab d) 0 b0 (int (length ?ys)))) s2 (int (length ?ys), b') s' \<and>
    (\<forall>i<length ?ys. b' i = ?ys ! i)"
    by (rule reopen_read [where ni = ni and I = ?I and B = ?B])
      (use sel st v(2,3,5,6,7) u(5) dev names free name m2 count(1) in \<open>simp_all\<close>)
  then obtain b' s' where r3: "runs (pbind (lfsopen (devtab d) name m2) (\<lambda>_. lflread (devtab d) 0 b0 count)) s2 (count, b') s'" "\<forall>i<nat count. b' i = b i"
    using count(1) by auto
  have "runs (pbind (lfscreate (devtab d) RAM0 nb dsiz) (\<lambda>_. pbind (lfsopen (devtab d) name m1) (\<lambda>_.
      pbind (pbind (lflwrite (devtab d) 0 b count) (\<lambda>_. pbind (lflclose (devtab d) 0) (\<lambda>_. drop_dir))) (\<lambda>_.
      pbind (lfsopen (devtab d) name m2) (\<lambda>_. lflread (devtab d) 0 b0 count))))) s (count, b') s'"
    by (rule runs_bind [OF r1 runs_bind [OF u(1) runs_bind [OF r2 r3(1)]]])
  then show ?thesis using r3(2) by blast
qed

lemma fdemo_ready: "lfs_ready (fdemo False (no_block\<lparr>lfmutex := 3\<rparr>))"
  by (auto simp: lfs_ready_def usable_def vfree_def pdemo_base_def no_block_def)

theorem file_survives_restart_witness:
  "\<exists>b' s'. runs (pbind (lfscreate (devtab fdevs) RAM0 7 5120) (\<lambda>_. pbind (lfsopen (devtab fdevs) ''notes'' ''wn'') (\<lambda>_.
      pbind (pbind (lflwrite (devtab fdevs) 0 of_nat 1000) (\<lambda>_. pbind (lflclose (devtab fdevs) 0) (\<lambda>_. drop_dir))) (\<lambda>_.
      pbind (lfsopen (devtab fdevs) ''notes'' ''ro'') (\<lambda>_. lflread (devtab fdevs) 0 (\<lambda>_. 0) 1000)))))
    (fdemo False (no_block\<lparr>lfmutex := 3\<rparr>)) (1000, b') s' \<and> (\<forall>i<nat 1000. b' i = of_nat i)"
proof (rule file_survives_restart [OF fdemo_ready, of 1 _ 10])
  show "lfgetmode ''wn'' = Some (mode_bits ''wn'')" "lfgetmode ''ro'' = Some (mode_bits ''ro'')" by (simp_all add: lfgetmode_spec mode_ok_def)
  show "mode_bits ''wn'' AND 8 = 0" "mode_bits ''ro'' AND 4 = 0" by (simp_all add: mode_bits_def bits_def)
qed simp_all


text \<open>\<open>lfsopen\<close> refuses a name of 16 or more characters, a bad mode, a file that is open already and a further file
  when all pseudo-devices are in use, and changes nothing.\<close>

theorem lfsopen_refuses:
  assumes "LF_NAME_LEN \<le> length name \<or> \<not> mode_ok mode \<or>
    (\<exists>i<Nlfl. lfstate (lfltab s (int i)) \<noteq> LF_FREE \<and> same_name (map of_char name) (lfname (lfltab s (int i))) 0) \<or>
    (\<forall>i<Nlfl. lfstate (lfltab s (int i)) \<noteq> LF_FREE)"
  shows "runs (lfsopen dt name mode) s SYSERR s"
  by (rule lfsopen_early) (use assms in \<open>auto simp: lfgetmode_spec\<close>)

theorem lfsopen_refuses_witness:
  "runs (lfsopen (devtab_lfs fdevs) ''0123456789abcdef'' ''rw'') (fdemo True fdemo_cb) SYSERR (fdemo True fdemo_cb)"
  by (rule lfsopen_refuses) simp

text \<open>A new file that is closed before a byte was written is lost: \<open>lfsopen\<close> does not mark the directory as
  changed, nothing is written at the close, and after a restart the name is not found.\<close>

theorem empty_file_is_lost:
  fixes s :: "'a lfstate_t_scheme"
  assumes ready: "lfs_ready s" and D: "fresh_disk ni n (ramdisk s)" and ni: "0 < ni" "Suc ni < n" "n \<le> 200"
    and name: "length name < LF_NAME_LEN" and m1: "lfgetmode m1 = Some b1" "b1 AND LF_MODE_O = 0" and m2: "lfgetmode m2 = Some b2" "b2 AND LF_MODE_O \<noteq> 0"
  shows "\<exists>s'. runs (pbind (lfsopen (devtab d) name m1) (\<lambda>_. pbind (pbind (lflclose (devtab d) 0) (\<lambda>_. drop_dir)) (\<lambda>_.
    lfsopen (devtab d) name m2))) s SYSERR s' \<and> ramdisk s' = ramdisk s"
proof -
  obtain u where u: "runs (lfsopen (devtab d) name m1) s (lfdev (lfltab s 0)) (lput 0 u s)" "file_rep ni {ib. unat ib < 7 * ni} {d. ni < unat d \<and> unat d < n} u []"
    "usable u" "vdisk u = ramdisk s" "\<not> lf_dirdirty (vdata u)" "clean u"
    using fresh_open [OF ready D ni name m1, of d] by blast
  let ?v = "u\<lparr>vcb := (vcb u)\<lparr>lfstate := LF_FREE\<rparr>, vdata := (vdata u)\<lparr>lf_dirpresent := False\<rparr>\<rparr>"
  have "lruns 0 drop_dir (u\<lparr>vcb := (vcb u)\<lparr>lfstate := LF_FREE\<rparr>\<rparr>) () ?v" unfolding drop_dir_def by (rule lruns_lfdI) simp
  then have "lruns 0 (pbind (lflclose (devtab d) 0) (\<lambda>_. drop_dir)) u () ?v"
    by (rule lf.vruns_bind [OF close_clean [OF u(3) file_used [OF u(2)] u(6,5)]])
  then have r2: "runs (pbind (lflclose (devtab d) 0) (\<lambda>_. drop_dir)) (lput 0 u s) () (lput 0 ?v (lput 0 u s))"
    by (intro lf.vrunsD) (simp only: lf.get_put)
  define s2 where "s2 = lput 0 ?v (lput 0 u s)"
  have view: "lview 0 s2 = ?v" unfolding s2_def by (rule lf.get_put)
  have sel: "ramdisk s2 = ramdisk s" "lf_data s2 = (vdata u)\<lparr>lf_dirpresent := False\<rparr>" "lfltab s2 = (lfltab s)(0 := (vcb u)\<lparr>lfstate := LF_FREE\<rparr>)"
    using u(4) by (simp_all add: s2_def)
  have dev: "lf_dskdev (vdata u) = RAM0" using u(2) by (auto simp: file_rep_def blocks_rep_def)
  have "dir_eq (dec_dir (ramdisk s 0)) (zero_dir\<lparr>lfd_dfree := of_nat (Suc ni)\<rparr>)" using D unfolding fresh_disk_def by blast
  moreover have "dir_eq (lf_dir (vdata (load_dir (lview 0 s2)))) (dec_dir (ramdisk s 0))" using load_dir_eq [of "lview 0 s2"] sel by simp
  ultimately have n0: "lfd_nfiles (lf_dir (vdata (load_dir (lview 0 s2)))) = 0" by (simp add: dir_eq_def zero_dir_def)
  have free: "vfree (lview 0 s2) (lf_mutex (lf_data s2))" using u(3) unfolding view sel by (simp add: usable_def vfree_def)
  let ?w = "load_dir (vlock (lf_mutex (lf_data s2)) (lview 0 s2))"
  have w: "vdata ?w = vdata (load_dir (lview 0 s2))" by (simp add: vlock_def)
  have "lruns 0 (lfsopen_entry 0 b2 (map of_char name) (lf_mutex (lf_data s2)) :: ('a lfstate_t_scheme, int) prog) ?w SYSERR (?w\<lparr>vsem := vsem (lview 0 s2)\<rparr>)"
    by (rule open_refused [OF free]) (use w n0 m2(2) in \<open>simp_all add: lfsopen_find_def\<close>)
  moreover have "lfsopen_slave (lfltab s2) (map of_char name) [0..<Nlfl] SYSERR = Some 0"
    using ready unfolding sel by (intro all_free_slot) (simp add: lfs_ready_def)
  ultimately have "runs (lfsopen (devtab d) name m2) s2 SYSERR (lput 0 (?w\<lparr>vsem := vsem (lview 0 s2)\<rparr>) s2)"
    using lfsopen_runs [OF name m2(1) _ _ free, of SYSERR "?w\<lparr>vsem := vsem (lview 0 s2)\<rparr>" d] dev sel by simp
  then show ?thesis using runs_bind [OF u(1) runs_bind [OF r2 [folded s2_def]]] sel(1)
    by (intro exI [of _ "lput 0 (?w\<lparr>vsem := vsem (lview 0 s2)\<rparr>) s2"]) (simp add: vlock_def)
qed

theorem empty_file_is_lost_witness:
  "\<exists>s'. runs (pbind (lfsopen (devtab fdevs) ''x'' ''n'') (\<lambda>_. pbind (pbind (lflclose (devtab fdevs) 0) (\<lambda>_. drop_dir)) (\<lambda>_.
    lfsopen (devtab fdevs) ''x'' ''o''))) (fdemo False (no_block\<lparr>lfmutex := 3\<rparr>)) SYSERR s' \<and> ramdisk s' = fdemo_disk"
proof -
  have "lfgetmode ''n'' = Some (mode_bits ''n'')" "lfgetmode ''o'' = Some (mode_bits ''o'')" by (simp_all add: lfgetmode_spec mode_ok_def)
  moreover have "mode_bits ''n'' AND 8 = 0" "mode_bits ''o'' AND 8 \<noteq> 0" by (simp_all add: mode_bits_def bits_def)
  ultimately show ?thesis
    using empty_file_is_lost [OF fdemo_ready, of 1 10 "''x''" "''n''" _ "''o''" _ fdevs] fdemo_fresh by simp
qed


text \<open>C33: a file that is open can be opened a second time: the copy of the name into the control block overwrites
  one character again and again, the stored name is always empty, and the test for open files never finds
  a file with a name. Both pseudo-devices then cache blocks of the same file.\<close>

theorem file_opened_twice:
  fixes s :: "'a lfstate_t_scheme"
  assumes ready: "lfs_ready s" and D: "fresh_disk ni n (ramdisk s)" and ni: "0 < ni" "Suc ni < n" "n \<le> 200"
    and name: "length name < LF_NAME_LEN" "name \<noteq> []" "0 \<notin> set (map of_char name :: u8 list)"
    and m1: "lfgetmode m1 = Some b1" "b1 AND LF_MODE_O = 0" and m2: "lfgetmode m2 = Some b2" "b2 AND LF_MODE_N = 0"
  shows "\<exists>s'. runs (pbind (lfsopen (devtab d) name m1) (\<lambda>_. lfsopen (devtab d) name m2)) s (lfdev (lfltab s 1)) s' \<and>
    lfstate (lfltab s' 0) = LF_USED \<and> lfstate (lfltab s' 1) = LF_USED \<and> lfdirptr (lfltab s' 0) = lfdirptr (lfltab s' 1)"
proof -
  let ?name = "map of_char name :: u8 list"
  obtain u where u: "runs (lfsopen (devtab d) name m1) s (lfdev (lfltab s 0)) (lput 0 u s)" "usable u" "lfd_nfiles (lf_dir (vdata u)) = 1"
    "same_name ?name (ld_name (lfd_files (lf_dir (vdata u)) 0)) 0" "vcb u = open_cb 0 b1 ?name (lfltab s 0)" "lf_dirpresent (vdata u)"
    "lf_mutex (vdata u) = lf_mutex (lf_data s)" "lf_dskdev (vdata u) = RAM0" "vsem u = semtab s"
    using fresh_open [OF ready D ni name(1) m1, of d] by blast
  define s1 where "s1 = lput 0 u s"
  have sel: "lf_data s1 = vdata u" "lfltab s1 = (lfltab s)(0 := vcb u)" "semtab s1 = vsem u" by (simp_all add: s1_def)
  have free: "vfree (lview 1 s1) (lf_mutex (lf_data s1))" using u(2) sel by (simp add: usable_def vfree_def)
  have st: "\<forall>i<Nlfl. lfstate (lfltab s (int i)) = LF_FREE" using ready by (simp add: lfs_ready_def)
  have c0: "lfstate (vcb u) = LF_USED" "lfname (vcb u) 0 = 0" "lfdirptr (vcb u) = 0" using u(5) by (simp_all add: open_cb_def overwrite_name)
  have ne: "\<not> same_name ?name (lfname (vcb u)) 0" using name(2,3) c0(2) by (cases name) auto
  have "List.find (\<lambda>i. lfstate (lfltab s1 (int i)) = LF_FREE) [0..<Nlfl] = Some 1"
    using st [rule_format, of 1] c0(1) by (simp add: sel upt_conv_Cons)
  then have slot: "lfsopen_slave (lfltab s1) ?name [0..<Nlfl] SYSERR = Some 1"
    using st ne by (auto simp: lfsopen_slave_spec sel)
  let ?w = "load_dir (vlock (lf_mutex (lf_data s1)) (lview 1 s1))"
  let ?u = "?w\<lparr>vcb := open_cb (int 0) b2 ?name (vcb ?w), vsem := vsem (lview 1 s1)\<rparr>"
  have w: "vdata ?w = vdata u" using u(6) sel by (simp add: load_dir_def)
  have "lfsopen_find (lf_dir (vdata u)) ?name = Some 0" unfolding lfsopen_find_def u(3) using u(4) by simp
  then have "lruns 1 (lfsopen_entry 1 b2 ?name (lf_mutex (lf_data s1)) :: ('a lfstate_t_scheme, int) prog) ?w (lfdev (vcb ?w)) ?u"
    by (intro open_old_runs [OF free]) (use m2(2) w in simp_all)
  then have "runs (lfsopen (devtab d) name m2) s1 (lfdev (vcb ?w)) (lput 1 ?u s1)"
    using lfsopen_runs [OF name(1) m2(1) slot _ free] u(8) sel by simp
  moreover have "vcb ?w = lfltab s 1" by (simp add: sel)
  ultimately have "runs (pbind (lfsopen (devtab d) name m1) (\<lambda>_. lfsopen (devtab d) name m2)) s (lfdev (lfltab s 1)) (lput 1 ?u s1)"
    using runs_bind [OF u(1) [folded s1_def]] by simp
  then show ?thesis using c0 by (intro exI [of _ "lput 1 ?u s1"]) (simp add: sel open_cb_def)
qed

theorem file_opened_twice_witness:
  "\<exists>s'. runs (pbind (lfsopen (devtab fdevs) ''x'' ''n'') (\<lambda>_. lfsopen (devtab fdevs) ''x'' ''o'')) (fdemo False (no_block\<lparr>lfmutex := 3\<rparr>)) 0 s' \<and>
    lfdirptr (lfltab s' 0) = lfdirptr (lfltab s' 1)"
proof -
  have "lfgetmode ''n'' = Some (mode_bits ''n'')" "lfgetmode ''o'' = Some (mode_bits ''o'')" by (simp_all add: lfgetmode_spec mode_ok_def)
  moreover have "mode_bits ''n'' AND 8 = 0" "mode_bits ''o'' AND 4 = 0" by (simp_all add: mode_bits_def bits_def)
  moreover have "lfdev (lfltab (fdemo False (no_block\<lparr>lfmutex := 3\<rparr>)) 1) = 0" by (simp add: no_block_def)
  ultimately show ?thesis
    using file_opened_twice [OF fdemo_ready, of 1 10 "''x''" "''n''" _ "''o''" _ fdevs] fdemo_fresh by fastforce
qed

end
