(* ===== verification/Terminal.thy ===== *)
theory Terminal
  imports Files
begin

section \<open>The terminal driver\<close>

text \<open>
  device/tty: the upper half (ttyinit.c, ttygetc.c, ttyputc.c, ttyread.c, ttywrite.c, ttycontrol.c) and the
  lower half (ttyhandler.c, ttyhandle_in.c, ttyhandle_out.c, ttykickout.c) of the driver for a serial line,
  over the control block of include/tty.h. Three circular buffers hold input, output and echo;
  semaphores count the characters to be read and the room for output.

  A pointer into a buffer is its distance from the beginning of the buffer. A store or load outside the
  buffer would hit other memory of the kernel; the model gives \<open>None\<close> then. The UART is the interrupt
  enable register, the bytes that have been sent and the bytes that have arrived; the programming of its
  baud rate and its queues at the end of \<open>ttyinit\<close> is not part of the state.
\<close>

subsection \<open>Data\<close>

abbreviation (input) TY_IBUFLEN :: int where "TY_IBUFLEN \<equiv> 128"
abbreviation (input) TY_OBUFLEN :: int where "TY_OBUFLEN \<equiv> 64"
abbreviation (input) TY_EBUFLEN :: int where "TY_EBUFLEN \<equiv> 20"
abbreviation (input) TY_IMRAW :: u8 where "TY_IMRAW \<equiv> 0x52"
abbreviation (input) TY_IMCOOKED :: u8 where "TY_IMCOOKED \<equiv> 0x43"
abbreviation (input) TY_IMCBREAK :: u8 where "TY_IMCBREAK \<equiv> 0x4B"
abbreviation (input) TY_BACKSP :: u8 where "TY_BACKSP \<equiv> 0x08"
abbreviation (input) TY_BELL :: u8 where "TY_BELL \<equiv> 0x07"
abbreviation (input) TY_EOFCH :: u8 where "TY_EOFCH \<equiv> 0x04"
abbreviation (input) TY_BLANK :: u8 where "TY_BLANK \<equiv> 0x20"
abbreviation (input) TY_NEWLINE :: u8 where "TY_NEWLINE \<equiv> 0x0A"
abbreviation (input) TY_RETURN :: u8 where "TY_RETURN \<equiv> 0x0D"
abbreviation (input) TY_STOPCH :: u8 where "TY_STOPCH \<equiv> 0x13"
abbreviation (input) TY_STRTCH :: u8 where "TY_STRTCH \<equiv> 0x11"
abbreviation (input) TY_KILLCH :: u8 where "TY_KILLCH \<equiv> 0x15"
abbreviation (input) TY_UPARROW :: u8 where "TY_UPARROW \<equiv> 0x5E"
abbreviation (input) TC_NEXTC :: int where "TC_NEXTC \<equiv> 3"
abbreviation (input) TC_MODER :: int where "TC_MODER \<equiv> 4"
abbreviation (input) TC_MODEC :: int where "TC_MODEC \<equiv> 5"
abbreviation (input) TC_MODEK :: int where "TC_MODEK \<equiv> 6"
abbreviation (input) TC_ICHARS :: int where "TC_ICHARS \<equiv> 8"
abbreviation (input) TC_ECHO :: int where "TC_ECHO \<equiv> 9"
abbreviation (input) TC_NOECHO :: int where "TC_NOECHO \<equiv> 10"
abbreviation (input) UART_FIFO_SIZE :: nat where "UART_FIFO_SIZE \<equiv> 16"

record ttycblk =
  tyihead :: int
  tyitail :: int
  tyibuff :: "int \<Rightarrow> u8"
  tyisem :: sid32
  tyohead :: int
  tyotail :: int
  tyobuff :: "int \<Rightarrow> u8"
  tyosem :: sid32
  tyehead :: int
  tyetail :: int
  tyebuff :: "int \<Rightarrow> u8"
  tyimode :: u8
  tyiecho :: bool
  tyieback :: bool
  tyevis :: bool
  tyecrlf :: bool
  tyicrlf :: bool
  tyierase :: bool
  tyierasec :: u8
  tyeof :: bool
  tyeofch :: u8
  tyikill :: bool
  tyikillc :: u8
  tyicursor :: int
  tyoflow :: bool
  tyoheld :: bool
  tyostop :: u8
  tyostart :: u8
  tyocrlf :: bool
  tyifullc :: u8

record uart_csreg =
  u_ier :: u32
  u_sent :: "u8 list"
  u_arrived :: "u8 list"

record ttystate_t = lfstate_t +
  ttytab :: "int \<Rightarrow> ttycblk"
  uart :: uart_csreg

definition upd_tty :: "int \<Rightarrow> (ttycblk \<Rightarrow> ttycblk) \<Rightarrow> 'a ttystate_t_scheme \<Rightarrow> 'a ttystate_t_scheme" where
  "upd_tty m g s = s\<lparr>ttytab := (ttytab s)(m := g (ttytab s m))\<rparr>"

definition upd_uart :: "(uart_csreg \<Rightarrow> uart_csreg) \<Rightarrow> 'a ttystate_t_scheme \<Rightarrow> 'a ttystate_t_scheme" where
  "upd_uart g s = s\<lparr>uart := g (uart s)\<rparr>"

text \<open>Reading and writing the data register.\<close>

definition uart_recv :: "'a ttystate_t_scheme \<Rightarrow> u8 \<times> 'a ttystate_t_scheme" where
  "uart_recv s = (case u_arrived (uart s) of [] \<Rightarrow> (0, s) | c # cs \<Rightarrow> (c, upd_uart (\<lambda>u. u\<lparr>u_arrived := cs\<rparr>) s))"

definition uart_send :: "u8 \<Rightarrow> 'a ttystate_t_scheme \<Rightarrow> 'a ttystate_t_scheme" where
  "uart_send c = upd_uart (\<lambda>u. u\<lparr>u_sent := u_sent u @ [c]\<rparr>)"

definition ttykickout :: "'a ttystate_t_scheme \<Rightarrow> 'a ttystate_t_scheme" where
  "ttykickout = upd_uart (\<lambda>u. u\<lparr>u_ier := 3\<rparr>)"

subsection \<open>Input\<close>

text \<open>\<open>*typtr->tyitail++ = ch\<close>, and the test that wraps the pointer around.\<close>

definition put_in :: "int \<Rightarrow> u8 \<Rightarrow> 'a ttystate_t_scheme \<Rightarrow> 'a ttystate_t_scheme option" where
  "put_in m ch s =
     (let i = tyitail (ttytab s m) in
      if 0 \<le> i \<and> i < TY_IBUFLEN
      then Some (upd_tty m (\<lambda>t. t\<lparr>tyibuff := (tyibuff t)(i := ch), tyitail := i + 1\<rparr>) s)
      else None)"

definition wrap_in :: "int \<Rightarrow> 'a ttystate_t_scheme \<Rightarrow> 'a ttystate_t_scheme" where
  "wrap_in m s = (if tyitail (ttytab s m) \<ge> TY_IBUFLEN then upd_tty m (\<lambda>t. t\<lparr>tyitail := 0\<rparr>) s else s)"

definition eputc :: "int \<Rightarrow> u8 \<Rightarrow> 'a ttystate_t_scheme \<Rightarrow> 'a ttystate_t_scheme option" where
  "eputc m ch s =
     (let i = tyetail (ttytab s m) in
      if 0 \<le> i \<and> i < TY_EBUFLEN
      then let s = upd_tty m (\<lambda>t. t\<lparr>tyebuff := (tyebuff t)(i := ch), tyetail := i + 1\<rparr>) s;
               s = (if tyetail (ttytab s m) \<ge> TY_EBUFLEN then upd_tty m (\<lambda>t. t\<lparr>tyetail := 0\<rparr>) s else s)
           in Some (ttykickout s)
      else None)"

text \<open>Characters are signed, so those from 0x80 on count as control characters.\<close>

definition nonprinting :: "u8 \<Rightarrow> bool" where
  "nonprinting ch \<longleftrightarrow> sint ch < sint TY_BLANK \<or> ch = 0x7F"

definition echoch :: "u8 \<Rightarrow> int \<Rightarrow> 'a ttystate_t_scheme \<Rightarrow> 'a ttystate_t_scheme option" where
  "echoch ch m s =
     (let t = ttytab s m in
      if (ch = TY_NEWLINE \<or> ch = TY_RETURN) \<and> tyecrlf t then do {
        s \<leftarrow> eputc m TY_RETURN s;
        eputc m TY_NEWLINE s
      }
      else if nonprinting ch \<and> tyevis t then do {
        s \<leftarrow> eputc m TY_UPARROW s;
        eputc m (ch + 0x40) s
      }
      else eputc m ch s)"

text \<open>Backspace, and blank and backspace again when the echo erases.\<close>

definition rubout :: "int \<Rightarrow> 'a ttystate_t_scheme \<Rightarrow> 'a ttystate_t_scheme option" where
  "rubout m s = do {
     s \<leftarrow> eputc m TY_BACKSP s;
     if tyieback (ttytab s m) then do {
       s \<leftarrow> eputc m TY_BLANK s;
       eputc m TY_BACKSP s
     }
     else Some s
   }"

definition erase1 :: "int \<Rightarrow> 'a ttystate_t_scheme \<Rightarrow> 'a ttystate_t_scheme option" where
  "erase1 m s =
     (let s = upd_tty m (\<lambda>t. t\<lparr>tyitail := tyitail t - 1\<rparr>) s;
          s = (if tyitail (ttytab s m) < 0 then upd_tty m (\<lambda>t. t\<lparr>tyitail := tyitail t + TY_IBUFLEN\<rparr>) s else s);
          t = ttytab s m in
      if \<not> (0 \<le> tyitail t \<and> tyitail t < TY_IBUFLEN) then None
      else if tyiecho t then
        if nonprinting (tyibuff t (tyitail t)) then do {
          s \<leftarrow> (if tyevis t then rubout m s else Some s);
          rubout m s
        }
        else rubout m s
      else Some s)"

text \<open>The characters that can be read, never less than 0.\<close>

definition available :: "int \<Rightarrow> 'a ttystate_t_scheme \<Rightarrow> int" where
  "available m s = (let avail = semcount (tyisem (ttytab s m)) s in if avail < 0 then 0 else avail)"

definition in_raw :: "int \<Rightarrow> u8 \<Rightarrow> 'a ttystate_t_scheme \<Rightarrow> 'a ttystate_t_scheme option" where
  "in_raw m ch s =
     (if available m s \<ge> TY_IBUFLEN then Some s
      else do {
        s \<leftarrow> put_in m ch s;
        let s = (if tyotail (ttytab s m) \<ge> TY_OBUFLEN then upd_tty m (\<lambda>t. t\<lparr>tyotail := 0\<rparr>) s else s);
        (_, s) \<leftarrow> signal (tyisem (ttytab s m)) s;
        Some s
      })"

definition in_cbreak :: "int \<Rightarrow> u8 \<Rightarrow> 'a ttystate_t_scheme \<Rightarrow> 'a ttystate_t_scheme option" where
  "in_cbreak m ch s =
     (if available m s \<ge> TY_IBUFLEN then eputc m (tyifullc (ttytab s m)) s
      else do {
        s \<leftarrow> put_in m ch s;
        let s = wrap_in m s;
        if tyiecho (ttytab s m) then echoch ch m s else Some s
      })"

definition in_kill :: "int \<Rightarrow> 'a ttystate_t_scheme \<Rightarrow> 'a ttystate_t_scheme option" where
  "in_kill m s =
     (let s = upd_tty m (\<lambda>t. t\<lparr>tyitail := tyitail t - tyicursor t\<rparr>) s;
          s = (if tyitail (ttytab s m) < 0 then upd_tty m (\<lambda>t. t\<lparr>tyihead := tyihead t + TY_IBUFLEN\<rparr>) s else s);
          s = upd_tty m (\<lambda>t. t\<lparr>tyicursor := 0\<rparr>) s in do {
        s \<leftarrow> eputc m TY_RETURN s;
        eputc m TY_NEWLINE s
      })"

definition in_newline :: "int \<Rightarrow> u8 \<Rightarrow> 'a ttystate_t_scheme \<Rightarrow> 'a ttystate_t_scheme option" where
  "in_newline m ch s = do {
     s \<leftarrow> (if tyiecho (ttytab s m) then echoch ch m s else Some s);
     s \<leftarrow> put_in m ch s;
     let s = wrap_in m s;
     (_, s) \<leftarrow> signaln (tyisem (ttytab s m)) (tyicursor (ttytab s m) + 1) s;
     Some (upd_tty m (\<lambda>t. t\<lparr>tyicursor := 0\<rparr>) s)
   }"

definition in_cooked :: "int \<Rightarrow> u8 \<Rightarrow> 'a ttystate_t_scheme \<Rightarrow> 'a ttystate_t_scheme option" where
  "in_cooked m ch s =
     (let t = ttytab s m in
      if ch = tyikillc t \<and> tyikill t then in_kill m s
      else if ch = tyierasec t \<and> tyierase t then
        if tyicursor t > 0 then erase1 m (upd_tty m (\<lambda>t. t\<lparr>tyicursor := tyicursor t - 1\<rparr>) s) else Some s
      else if ch = TY_NEWLINE \<or> ch = TY_RETURN then in_newline m ch s
      else if available m s + tyicursor t \<ge> TY_IBUFLEN - 1 then eputc m (tyifullc t) s
      else if ch = tyeofch t \<and> tyeof t then do {
        s \<leftarrow> (if tyiecho t then echoch ch m s else Some s);
        if tyicursor t \<noteq> 0 then Some s
        else do {
          s \<leftarrow> put_in m ch s;
          (_, s) \<leftarrow> signal (tyisem (ttytab s m)) s;
          Some s
        }
      }
      else do {
        s \<leftarrow> (if tyiecho t then echoch ch m s else Some s);
        s \<leftarrow> put_in m ch (upd_tty m (\<lambda>t. t\<lparr>tyicursor := tyicursor t + 1\<rparr>) s);
        Some (wrap_in m s)
      })"

definition ttyhandle_in :: "int \<Rightarrow> 'a ttystate_t_scheme \<Rightarrow> 'a ttystate_t_scheme option" where
  "ttyhandle_in m s =
     (let (ch, s) = uart_recv s; t = ttytab s m in
      if tyimode t = TY_IMRAW then in_raw m ch s
      else
        let ch = (if ch = TY_RETURN \<and> tyicrlf t then TY_NEWLINE else ch) in
        if tyoflow t \<and> ch = tyostart t then Some (ttykickout (upd_tty m (\<lambda>t. t\<lparr>tyoheld := False\<rparr>) s))
        else if tyoflow t \<and> ch = tyostop t then Some (upd_tty m (\<lambda>t. t\<lparr>tyoheld := True\<rparr>) s)
        else
          let s = upd_tty m (\<lambda>t. t\<lparr>tyoheld := False\<rparr>) s in
          if tyimode t = TY_IMCBREAK then in_cbreak m ch s else in_cooked m ch s)"


subsection \<open>Output\<close>

text \<open>One character of the echo queue or of the output queue goes to the UART.\<close>

definition send_echo1 :: "int \<Rightarrow> 'a ttystate_t_scheme \<Rightarrow> 'a ttystate_t_scheme option" where
  "send_echo1 m s =
     (let i = tyehead (ttytab s m) in
      if 0 \<le> i \<and> i < TY_EBUFLEN
      then let s = uart_send (tyebuff (ttytab s m) i) s; s = upd_tty m (\<lambda>t. t\<lparr>tyehead := i + 1\<rparr>) s
           in Some (if tyehead (ttytab s m) \<ge> TY_EBUFLEN then upd_tty m (\<lambda>t. t\<lparr>tyehead := 0\<rparr>) s else s)
      else None)"

definition send_out1 :: "int \<Rightarrow> 'a ttystate_t_scheme \<Rightarrow> 'a ttystate_t_scheme option" where
  "send_out1 m s =
     (let i = tyohead (ttytab s m) in
      if 0 \<le> i \<and> i < TY_OBUFLEN
      then let s = uart_send (tyobuff (ttytab s m) i) s; s = upd_tty m (\<lambda>t. t\<lparr>tyohead := i + 1\<rparr>) s
           in Some (if tyohead (ttytab s m) \<ge> TY_OBUFLEN then upd_tty m (\<lambda>t. t\<lparr>tyohead := 0\<rparr>) s else s)
      else None)"

fun send_echo :: "int \<Rightarrow> nat \<Rightarrow> 'a ttystate_t_scheme \<Rightarrow> (nat \<times> 'a ttystate_t_scheme) option" where
  "send_echo m 0 s = Some (0, s)"
| "send_echo m (Suc uspace) s =
     (if tyehead (ttytab s m) \<noteq> tyetail (ttytab s m) then do { s \<leftarrow> send_echo1 m s; send_echo m uspace s }
      else Some (Suc uspace, s))"

fun send_out :: "int \<Rightarrow> nat \<Rightarrow> int \<Rightarrow> int \<Rightarrow> 'a ttystate_t_scheme \<Rightarrow> (int \<times> 'a ttystate_t_scheme) option" where
  "send_out m 0 avail ochars s = Some (ochars, s)"
| "send_out m (Suc uspace) avail ochars s =
     (if avail > 0 then do { s \<leftarrow> send_out1 m s; send_out m uspace (avail - 1) (ochars + 1) s }
      else Some (ochars, s))"

definition ttyhandle_out :: "int \<Rightarrow> 'a ttystate_t_scheme \<Rightarrow> 'a ttystate_t_scheme option" where
  "ttyhandle_out m s =
     (let t = ttytab s m in
      if tyoheld t then Some s
      else if tyehead t = tyetail t \<and> semcount (tyosem t) s \<ge> TY_OBUFLEN
      then Some (upd_uart (\<lambda>u. u\<lparr>u_ier := u_ier u AND NOT 2\<rparr>) s)
      else do {
        (uspace, s) \<leftarrow> send_echo m UART_FIFO_SIZE s;
        let avail = TY_OBUFLEN - semcount (tyosem (ttytab s m)) s;
        (ochars, s) \<leftarrow> send_out m uspace avail 0 s;
        if ochars > 0 then do { (_, s) \<leftarrow> signaln (tyosem (ttytab s m)) ochars s; Some s } else Some s
      })"

subsection \<open>Interrupts\<close>

text \<open>All characters that have arrived are taken, each one shortens the queue of the UART.\<close>

fun ttyhandle_all :: "int \<Rightarrow> nat \<Rightarrow> 'a ttystate_t_scheme \<Rightarrow> 'a ttystate_t_scheme option" where
  "ttyhandle_all m 0 s = (if u_arrived (uart s) \<noteq> [] then None else Some s)"
| "ttyhandle_all m (Suc n) s =
     (if u_arrived (uart s) \<noteq> [] then do { s \<leftarrow> ttyhandle_in m s; ttyhandle_all m n s } else Some s)"

text \<open>The value of the interrupt identification register is an argument.\<close>

definition ttyhandler :: "u32 \<Rightarrow> 'a ttystate_t_scheme \<Rightarrow> 'a ttystate_t_scheme option" where
  "ttyhandler iir s =
     (if iir AND 1 \<noteq> 0 then Some s
      else let iir = iir AND 0x0E in
        if iir = 0x04 \<or> iir = 0x0C then do {
          (_, s) \<leftarrow> resched_cntl DEFER_START s;
          s \<leftarrow> ttyhandle_all 0 (length (u_arrived (uart s))) s;
          (_, s) \<leftarrow> resched_cntl DEFER_STOP s;
          Some s
        }
        else if iir = 0x02 then ttyhandle_out 0 s
        else Some s)"

subsection \<open>The calls of a process\<close>

definition ttyinit :: "int \<Rightarrow> ('a ttystate_t_scheme, int) prog" where
  "ttyinit m =
     pbind (pmodify (upd_tty m (\<lambda>t. t\<lparr>tyihead := 0, tyitail := 0\<rparr>))) (\<lambda>_.
     pbind (plift (semcreate 0)) (\<lambda>isem.
     pbind (pmodify (upd_tty m (\<lambda>t. t\<lparr>tyisem := isem, tyohead := 0, tyotail := 0\<rparr>))) (\<lambda>_.
     pbind (plift (semcreate TY_OBUFLEN)) (\<lambda>osem.
     pbind (pmodify (upd_tty m (\<lambda>t. t\<lparr>tyosem := osem, tyehead := 0, tyetail := 0, tyimode := TY_IMCOOKED, tyiecho := True,
       tyieback := True, tyevis := True, tyecrlf := True, tyicrlf := True, tyierase := True, tyierasec := TY_BACKSP,
       tyeof := True, tyeofch := TY_EOFCH, tyikill := True, tyikillc := TY_KILLCH, tyicursor := 0, tyoflow := True,
       tyoheld := False, tyostop := TY_STOPCH, tyostart := TY_STRTCH, tyocrlf := True, tyifullc := TY_BELL\<rparr>))) (\<lambda>_.
     pbind (pmodify ttykickout) (\<lambda>_.
     Ret OK))))))"

text \<open>\<open>ch = *typtr->tyihead++\<close> with the test that wraps around.\<close>

definition take_in :: "int \<Rightarrow> 'a ttystate_t_scheme \<Rightarrow> (u8 \<times> 'a ttystate_t_scheme) option" where
  "take_in m s =
     (let i = tyihead (ttytab s m) in
      if 0 \<le> i \<and> i < TY_IBUFLEN
      then let ch = tyibuff (ttytab s m) i; s = upd_tty m (\<lambda>t. t\<lparr>tyihead := i + 1\<rparr>) s
           in Some (ch, if tyihead (ttytab s m) \<ge> TY_IBUFLEN then upd_tty m (\<lambda>t. t\<lparr>tyihead := 0\<rparr>) s else s)
      else None)"

definition ttygetc :: "int \<Rightarrow> ('a ttystate_t_scheme, int) prog" where
  "ttygetc m =
     pbind (pgets (\<lambda>s. tyisem (ttytab s m))) (\<lambda>isem.
     pbind (pcall (wait isem)) (\<lambda>_.
     pbind (pcall (take_in m)) (\<lambda>ch.
     pbind (pgets (\<lambda>s. ttytab s m)) (\<lambda>t.
     if tyimode t = TY_IMCOOKED \<and> tyeof t \<and> ch = tyeofch t then Ret EOF else Ret (sint ch)))))"

definition put_out :: "int \<Rightarrow> u8 \<Rightarrow> 'a ttystate_t_scheme \<Rightarrow> (unit \<times> 'a ttystate_t_scheme) option" where
  "put_out m ch s =
     (let i = tyotail (ttytab s m) in
      if 0 \<le> i \<and> i < TY_OBUFLEN
      then let s = upd_tty m (\<lambda>t. t\<lparr>tyobuff := (tyobuff t)(i := ch), tyotail := i + 1\<rparr>) s
           in Some ((), if tyotail (ttytab s m) \<ge> TY_OBUFLEN then upd_tty m (\<lambda>t. t\<lparr>tyotail := 0\<rparr>) s else s)
      else None)"

text \<open>The part of \<open>ttyputc\<close> after the carriage return that precedes a newline.\<close>

definition ttyputc1 :: "int \<Rightarrow> u8 \<Rightarrow> ('a ttystate_t_scheme, int) prog" where
  "ttyputc1 m ch =
     pbind (pgets (\<lambda>s. tyosem (ttytab s m))) (\<lambda>osem.
     pbind (pcall (wait osem)) (\<lambda>_.
     pbind (pcall (put_out m ch)) (\<lambda>_.
     pbind (pmodify ttykickout) (\<lambda>_.
     Ret OK))))"

definition ttyputc :: "int \<Rightarrow> u8 \<Rightarrow> ('a ttystate_t_scheme, int) prog" where
  "ttyputc m ch =
     pbind (pgets (\<lambda>s. tyocrlf (ttytab s m))) (\<lambda>crlf.
     pbind (if ch = TY_NEWLINE \<and> crlf then ttyputc1 m TY_RETURN else Ret OK) (\<lambda>_.
     ttyputc1 m ch))"

fun ttywrite_loop :: "int \<Rightarrow> nat list \<Rightarrow> (nat \<Rightarrow> u8) \<Rightarrow> ('a ttystate_t_scheme, int) prog" where
  "ttywrite_loop m [] buff = Ret OK"
| "ttywrite_loop m (i # is) buff = pbind (ttyputc m (buff i)) (\<lambda>_. ttywrite_loop m is buff)"

definition ttywrite :: "int \<Rightarrow> (nat \<Rightarrow> u8) \<Rightarrow> int \<Rightarrow> ('a ttystate_t_scheme, int) prog" where
  "ttywrite m buff count =
     (if count < 0 then Ret SYSERR else if count = 0 then Ret OK else ttywrite_loop m [0..<nat count] buff)"

fun ttyread_raw :: "int \<Rightarrow> nat list \<Rightarrow> (nat \<Rightarrow> u8) \<Rightarrow> ('a ttystate_t_scheme, nat \<Rightarrow> u8) prog" where
  "ttyread_raw m [] buff = Ret buff"
| "ttyread_raw m (i # is) buff = pbind (ttygetc m) (\<lambda>c. ttyread_raw m is (buff(i := word_of_int c)))"

text \<open>The loop that reads up to a line; \<open>room\<close> is \<open>count - nread\<close>.\<close>

fun ttyread_line :: "int \<Rightarrow> nat \<Rightarrow> nat \<Rightarrow> u8 \<Rightarrow> (nat \<Rightarrow> u8) \<Rightarrow> ('a ttystate_t_scheme, int \<times> (nat \<Rightarrow> u8)) prog" where
  "ttyread_line m 0 nread ch buff = Ret (int nread, buff)"
| "ttyread_line m (Suc room) nread ch buff =
     (if ch \<noteq> TY_NEWLINE \<and> ch \<noteq> TY_RETURN
      then pbind (ttygetc m) (\<lambda>c. ttyread_line m room (nread + 1) (word_of_int c) (buff(nread := word_of_int c)))
      else Ret (int nread, buff))"

definition ttyread :: "int \<Rightarrow> (nat \<Rightarrow> u8) \<Rightarrow> int \<Rightarrow> ('a ttystate_t_scheme, int \<times> (nat \<Rightarrow> u8)) prog" where
  "ttyread m buff count =
     (if count < 0 then Ret (SYSERR, buff)
      else
        pbind (pgets (\<lambda>s. (tyimode (ttytab s m), semcount (tyisem (ttytab s m)) s))) (\<lambda>(mode, avail).
        if mode \<noteq> TY_IMCOOKED then
          if count = 0 \<and> avail = 0 then Ret (0, buff)
          else let count = (if count = 0 then avail else count) in
            pbind (ttyread_raw m [0..<nat count] buff) (\<lambda>buff. Ret (if count < 0 then 0 else count, buff))
        else
          pbind (ttygetc m) (\<lambda>firstch.
          if firstch = EOF then Ret (EOF, buff)
          else ttyread_line m (nat (count - 1)) 1 (word_of_int firstch) (buff(0 := word_of_int firstch)))))"

definition ttycontrol :: "int \<Rightarrow> int \<Rightarrow> int \<Rightarrow> int \<Rightarrow> ('a ttystate_t_scheme, int) prog" where
  "ttycontrol m func arg1 arg2 =
     (if func = TC_NEXTC then
        pbind (pgets (\<lambda>s. tyisem (ttytab s m))) (\<lambda>isem.
        pbind (pcall (wait isem)) (\<lambda>_.
        pbind (pcall (\<lambda>s. let t = ttytab s m in
          if 0 \<le> tyitail t \<and> tyitail t < TY_IBUFLEN then Some (tyibuff t (tyitail t), s) else None)) (\<lambda>ch.
        pbind (pcall (signal isem)) (\<lambda>_.
        Ret (sint ch)))))
      else if func = TC_MODER then pbind (pmodify (upd_tty m (\<lambda>t. t\<lparr>tyimode := TY_IMRAW\<rparr>))) (\<lambda>_. Ret OK)
      else if func = TC_MODEC then pbind (pmodify (upd_tty m (\<lambda>t. t\<lparr>tyimode := TY_IMCOOKED\<rparr>))) (\<lambda>_. Ret OK)
      else if func = TC_MODEK then pbind (pmodify (upd_tty m (\<lambda>t. t\<lparr>tyimode := TY_IMCBREAK\<rparr>))) (\<lambda>_. Ret OK)
      else if func = TC_ICHARS then pgets (\<lambda>s. semcount (tyisem (ttytab s m)) s)
      else if func = TC_ECHO then pbind (pmodify (upd_tty m (\<lambda>t. t\<lparr>tyiecho := True\<rparr>))) (\<lambda>_. Ret OK)
      else if func = TC_NOECHO then pbind (pmodify (upd_tty m (\<lambda>t. t\<lparr>tyiecho := False\<rparr>))) (\<lambda>_. Ret OK)
      else Ret SYSERR)"

subsection \<open>The terminal in the switch table\<close>

definition devtab_tty :: "'a ttystate_t_scheme devtab_t \<Rightarrow> 'a ttystate_t_scheme devtab_t" where
  "devtab_tty d = d(CONSOLE := (d CONSOLE)\<lparr>dvinit := ttyinit 0, dvopen := (\<lambda>_ _. ionull), dvclose := ionull,
     dvread := (\<lambda>b n. pbind (ttyread 0 (word_byte b) (sint n)) (\<lambda>(r, b). Ret (r, bytes_word b))),
     dvwrite := (\<lambda>b n. ttywrite 0 (word_byte b) (sint n)), dvseek := (\<lambda>_. ioerr), dvgetc := ttygetc 0, dvputc := (\<lambda>c. ttyputc 0 (of_char c)),
     dvcntl := ttycontrol 0\<rparr>)"

end
