(* ===== verification/Terminal_Spec.thy ===== *)
theory Terminal_Spec
  imports Terminal
begin

section \<open>What the terminal promises\<close>

text \<open>
  The terminal in cooked mode with the settings of \<open>ttyinit\<close>, as lists of characters: the lines that can be
  read, the line being typed, the echo and the output that wait for the UART. Each operation of the driver is
  shown to do on its circular buffers, pointers and semaphores what the specification does on the lists.
\<close>

subsection \<open>Circular buffers\<close>

text \<open>\<open>ring n b h xs t\<close>: the buffer \<open>b\<close> of \<open>n\<close> characters holds \<open>xs\<close> from its head \<open>h\<close> on, and \<open>t\<close> is where the next one goes.\<close>

definition ring :: "int \<Rightarrow> (int \<Rightarrow> u8) \<Rightarrow> int \<Rightarrow> u8 list \<Rightarrow> int \<Rightarrow> bool" where
  "ring n b h xs t \<longleftrightarrow> 0 \<le> h \<and> h < n \<and> int (length xs) \<le> n \<and> t = (h + int (length xs)) mod n \<and>
     (\<forall>k < length xs. b ((h + int k) mod n) = xs ! k)"

lemma wrap_succ: "0 \<le> t \<Longrightarrow> t < n \<Longrightarrow> (if t + 1 \<ge> n then 0 else t + 1) = (t + 1) mod (n :: int)"
  by (cases "t + 1 = n") auto

lemma wrap_pred: "0 \<le> t \<Longrightarrow> t < n \<Longrightarrow> (if t - 1 < 0 then t - 1 + n else t - 1) = (t - 1) mod (n :: int)"
  by (cases "t = 0") (auto simp: mod_pos_pos_trivial zmod_minus1)

lemma mod_offset_inj:
  assumes "0 \<le> i" "i < j" "j < (n :: int)"
  shows "(h + i) mod n \<noteq> (h + j) mod n"
proof
  assume "(h + i) mod n = (h + j) mod n"
  then have "n dvd (h + j) - (h + i)" by (metis mod_eq_dvd_iff)
  then show False using assms zdvd_not_zless [of "j - i" n] by simp
qed

lemma ring_tail: "ring n b h xs t \<Longrightarrow> 0 \<le> t \<and> t < n"
  by (simp add: ring_def)

lemma ring_put:
  assumes "ring n b h xs t" and "int (length xs) < n"
  shows "ring n (b(t := c)) h (xs @ [c]) (if t + 1 \<ge> n then 0 else t + 1)"
proof -
  have t: "t = (h + int (length xs)) mod n" and h: "0 \<le> h" "h < n" using assms(1) by (simp_all add: ring_def)
  have "(t + 1) mod n = (h + int (length xs) + 1) mod n" unfolding t by (rule mod_add_left_eq)
  moreover have "(h + int k) mod n \<noteq> t" if "k < length xs" for k
    unfolding t using assms(2) that by (intro mod_offset_inj) simp_all
  ultimately show ?thesis using assms wrap_succ [of t n] ring_tail [OF assms(1)] h
    by (auto simp: ring_def nth_append less_Suc_eq ac_simps)
qed

lemma ring_take:
  assumes "ring n b h (x # xs) t"
  shows "b h = x" and "ring n b (if h + 1 \<ge> n then 0 else h + 1) xs t"
proof -
  have h: "0 \<le> h" "h < n" and b: "\<And>k. k < Suc (length xs) \<Longrightarrow> b ((h + int k) mod n) = (x # xs) ! k"
    using assms by (simp_all add: ring_def)
  show "b h = x" using b [of 0] h by simp
  have s: "((h + 1) mod n + i) mod n = (h + (1 + i)) mod n" for i using mod_add_left_eq [of "h + 1" n i] by (simp add: add.assoc)
  then show "ring n b (if h + 1 \<ge> n then 0 else h + 1) xs t"
    using assms b [of "Suc _"] h unfolding wrap_succ [OF h] by (simp add: ring_def)
qed

lemma ring_drop_last:
  assumes "ring n b h (xs @ [x]) t"
  shows "b (if t - 1 < 0 then t - 1 + n else t - 1) = x" and "ring n b h xs (if t - 1 < 0 then t - 1 + n else t - 1)"
proof -
  have t: "t = (h + int (length xs) + 1) mod n" and b: "\<And>k. k < Suc (length xs) \<Longrightarrow> b ((h + int k) mod n) = (xs @ [x]) ! k"
    using assms by (simp_all add: ring_def ac_simps)
  have "(t - 1) mod n = (h + int (length xs)) mod n" unfolding t using mod_diff_left_eq [of "h + int (length xs) + 1" n 1] by simp
  then have e: "(if t - 1 < 0 then t - 1 + n else t - 1) = (h + int (length xs)) mod n"
    using wrap_pred [of t n] ring_tail [OF assms] by simp
  show "b (if t - 1 < 0 then t - 1 + n else t - 1) = x" unfolding e using b [of "length xs"] by simp
  have "b ((h + int k) mod n) = xs ! k" if "k < length xs" for k using b [of k] that by (simp add: nth_append)
  then show "ring n b h xs (if t - 1 < 0 then t - 1 + n else t - 1)" unfolding e using assms by (simp add: ring_def)
qed

lemma ring_empty: "0 \<le> h \<Longrightarrow> h < n \<Longrightarrow> ring n b h [] h"
  by (simp add: ring_def)

lemma ring_eq_iff:
  assumes "ring n b h xs t" and "int (length xs) < n"
  shows "h = t \<longleftrightarrow> xs = []"
  using assms mod_offset_inj [of 0 "int (length xs)" n h] by (cases xs) (auto simp: ring_def)

subsection \<open>The state of a terminal\<close>

record tline =
  lready :: "u8 list"
  ltyped :: "u8 list"
  lecho :: "u8 list"
  lout :: "u8 list"
  lheld :: bool
  larrived :: "u8 list"
  lsent :: "u8 list"

text \<open>The settings that \<open>ttyinit\<close> chooses.\<close>

definition settings :: "ttycblk \<Rightarrow> bool" where
  "settings t \<longleftrightarrow> tyimode t = TY_IMCOOKED \<and> tyiecho t \<and> tyieback t \<and> tyevis t \<and> tyecrlf t \<and> tyicrlf t \<and> tyierase t \<and>
     tyierasec t = TY_BACKSP \<and> tyeof t \<and> tyeofch t = TY_EOFCH \<and> tyikill t \<and> tyikillc t = TY_KILLCH \<and> tyoflow t \<and>
     tyostop t = TY_STOPCH \<and> tyostart t = TY_STRTCH \<and> tyocrlf t \<and> tyifullc t = TY_BELL"

definition sem_at :: "'a kstate_scheme \<Rightarrow> sid32 \<Rightarrow> int \<Rightarrow> bool" where
  "sem_at s sem c \<longleftrightarrow> 0 \<le> sem \<and> sem < NSEM \<and> sstate (semtab s sem) = S_USED \<and> scount (semtab s sem) = c"

text \<open>Nothing has asked for a rescheduling that is still deferred.\<close>

definition quiet :: "'a kstate_scheme \<Rightarrow> bool" where
  "quiet s \<longleftrightarrow> 0 \<le> ndefers s \<and> (0 < ndefers s \<longrightarrow> \<not> attempt s)"

text \<open>The echo queue holds fewer than 20 characters: with 20 its pointers would meet, as in the empty queue. No process
  waits for a semaphore of the terminal.\<close>

definition line_rep :: "int \<Rightarrow> 'a ttystate_t_scheme \<Rightarrow> tline \<Rightarrow> bool" where
  "line_rep m s a \<longleftrightarrow> (let t = ttytab s m in settings t \<and>
     ring TY_IBUFLEN (tyibuff t) (tyihead t) (lready a @ ltyped a) (tyitail t) \<and> tyicursor t = int (length (ltyped a)) \<and>
     ring TY_EBUFLEN (tyebuff t) (tyehead t) (lecho a) (tyetail t) \<and> length (lecho a) < 20 \<and>
     ring TY_OBUFLEN (tyobuff t) (tyohead t) (lout a) (tyotail t) \<and> tyoheld t = lheld a \<and>
     sem_at s (tyisem t) (int (length (lready a))) \<and> sem_at s (tyosem t) (TY_OBUFLEN - int (length (lout a))) \<and>
     tyisem t \<noteq> tyosem t \<and> u_arrived (uart s) = larrived a \<and> u_sent (uart s) = lsent a \<and> quiet s)"

lemma upd_tty_sel [simp]:
  "ttytab (upd_tty m g s) = (ttytab s)(m := g (ttytab s m))" "uart (upd_tty m g s) = uart s"
  "semtab (upd_tty m g s) = semtab s" "quiet (upd_tty m g s) = quiet s" "currpid (upd_tty m g s) = currpid s"
  by (simp_all add: upd_tty_def quiet_def)

lemma upd_uart_sel [simp]:
  "ttytab (upd_uart g s) = ttytab s" "uart (upd_uart g s) = g (uart s)"
  "semtab (upd_uart g s) = semtab s" "quiet (upd_uart g s) = quiet s" "currpid (upd_uart g s) = currpid s"
  by (simp_all add: upd_uart_def quiet_def)

lemma ttykickout_sel [simp]:
  "ttytab (ttykickout s) = ttytab s" "u_arrived (uart (ttykickout s)) = u_arrived (uart s)"
  "u_sent (uart (ttykickout s)) = u_sent (uart s)" "semtab (ttykickout s) = semtab s" "quiet (ttykickout s) = quiet s"
  "currpid (ttykickout s) = currpid s"
  by (simp_all add: ttykickout_def)

lemma upd_sem_tty [simp]:
  "ttytab (upd_sem sem g s) = ttytab s" "uart (upd_sem sem g s) = uart s" "quiet (upd_sem sem g s) = quiet s"
  by (simp_all add: upd_sem_def quiet_def)

lemma sem_at_cong: "semtab s' = semtab s \<Longrightarrow> sem_at s' = sem_at s"
  by (simp add: sem_at_def fun_eq_iff)

subsection \<open>Semaphores nobody waits for\<close>

lemma semcount_at: "sem_at s sem c \<Longrightarrow> semcount sem s = c"
  by (simp add: sem_at_def semcount_def isbadsem_def)

lemma signaln_loop_free: "0 \<le> scount (semtab s sem) \<Longrightarrow> signaln_loop sem n s = Some (upd_sem sem (\<lambda>e. e\<lparr>scount := scount e + int n\<rparr>) s)"
proof (induction n arbitrary: s)
  case 0
  show ?case by (simp add: upd_sem_def)
next
  case (Suc n)
  have "signaln_loop sem n (upd_sem sem (\<lambda>e. e\<lparr>scount := scount e + 1\<rparr>) s) =
      Some (upd_sem sem (\<lambda>e. e\<lparr>scount := scount e + int n\<rparr>) (upd_sem sem (\<lambda>e. e\<lparr>scount := scount e + 1\<rparr>) s))"
    using Suc.prems by (intro Suc.IH) simp
  then show ?case using Suc.prems by (simp add: Let_def upd_sem_def add.assoc)
qed

lemma signaln_free:
  assumes "sem_at s sem c" "0 \<le> c" "0 \<le> n" "quiet s"
  shows "\<exists>b. signaln sem n s = Some (OK, (upd_sem sem (\<lambda>e. e\<lparr>scount := scount e + n\<rparr>) s)\<lparr>attempt := b\<rparr>) \<and>
    quiet ((upd_sem sem (\<lambda>e. e\<lparr>scount := scount e + n\<rparr>) s)\<lparr>attempt := b\<rparr>)"
proof -
  let ?s1 = "if ndefers s = 0 then s\<lparr>ndefers := ndefers s + 1, attempt := False\<rparr> else s\<lparr>ndefers := ndefers s + 1\<rparr>"
  have "signaln_loop sem (nat n) ?s1 = Some (upd_sem sem (\<lambda>e. e\<lparr>scount := scount e + n\<rparr>) ?s1)"
    using signaln_loop_free [of ?s1 sem "nat n"] assms by (simp add: sem_at_def)
  then have "signaln sem n s = Some (OK, (upd_sem sem (\<lambda>e. e\<lparr>scount := scount e + n\<rparr>) s)\<lparr>attempt := attempt ?s1\<rparr>)"
    using assms by (simp add: signaln_def sem_at_def isbadsem_def resched_cntl_def Let_def upd_sem_def quiet_def)
  moreover have "quiet ((upd_sem sem (\<lambda>e. e\<lparr>scount := scount e + n\<rparr>) s)\<lparr>attempt := attempt ?s1\<rparr>)"
    using assms(4) by (simp add: quiet_def upd_sem_def)
  ultimately show ?thesis by blast
qed

subsection \<open>Editing a line\<close>

text \<open>The twentieth character in the echo queue makes it look empty.\<close>

definition echo_put :: "u8 \<Rightarrow> u8 list \<Rightarrow> u8 list" where
  "echo_put c es = (if length es = 19 then [] else es @ [c])"

definition echoes :: "u8 list \<Rightarrow> tline \<Rightarrow> tline" where
  "echoes cs a = a\<lparr>lecho := fold echo_put cs (lecho a)\<rparr>"

definition echo_of :: "u8 \<Rightarrow> u8 list" where
  "echo_of c = (if c = TY_NEWLINE \<or> c = TY_RETURN then [TY_RETURN, TY_NEWLINE]
     else if nonprinting c then [TY_UPARROW, c + 0x40] else [c])"

definition erase_of :: "u8 \<Rightarrow> u8 list" where
  "erase_of c = (let r = [TY_BACKSP, TY_BLANK, TY_BACKSP] in if nonprinting c then r @ r else r)"

definition edit :: "u8 \<Rightarrow> tline \<Rightarrow> tline" where
  "edit c a =
     (let c = (if c = TY_RETURN then TY_NEWLINE else c) in
      if c = TY_STRTCH then a\<lparr>lheld := False\<rparr>
      else if c = TY_STOPCH then a\<lparr>lheld := True\<rparr>
      else let a = a\<lparr>lheld := False\<rparr> in
        if c = TY_BACKSP then
          if ltyped a = [] then a else echoes (erase_of (last (ltyped a))) (a\<lparr>ltyped := butlast (ltyped a)\<rparr>)
        else if c = TY_NEWLINE then (echoes (echo_of c) a)\<lparr>lready := lready a @ ltyped a @ [c], ltyped := []\<rparr>
        else if length (lready a) + length (ltyped a) \<ge> 127 then echoes [TY_BELL] a
        else if c = TY_EOFCH then echoes (echo_of c) a
        else (echoes (echo_of c) a)\<lparr>ltyped := ltyped a @ [c]\<rparr>)"

text \<open>Where the driver departs from this specification: a line kill may leave the buffer, the end-of-file character at the
  beginning of a line is not followed by the test that wraps the pointer around, and a newline is stored even when
  the buffer is full.\<close>

definition editable :: "u8 \<Rightarrow> tline \<Rightarrow> bool" where
  "editable c a \<longleftrightarrow> c \<noteq> TY_KILLCH \<and> (c = TY_EOFCH \<longrightarrow> ltyped a \<noteq> []) \<and>
     (c = TY_RETURN \<or> c = TY_NEWLINE \<longrightarrow> length (lready a) + length (ltyped a) < 128)"

lemma echoes_append: "echoes ds (echoes cs a) = echoes (cs @ ds) a"
  by (simp add: echoes_def)

lemma echoes_sel [simp]:
  "lready (echoes cs a) = lready a" "ltyped (echoes cs a) = ltyped a" "lout (echoes cs a) = lout a" "lheld (echoes cs a) = lheld a"
  "larrived (echoes cs a) = larrived a" "lsent (echoes cs a) = lsent a"
  by (simp_all add: echoes_def)

lemma ring_full:
  assumes "ring n b h xs t" and "int (length xs) = n"
  shows "ring n b h [] t"
  using assms by (auto simp: ring_def)

lemma eputc_rep:
  assumes "line_rep m s a"
  shows "\<exists>s'. eputc m c s = Some s' \<and> line_rep m s' (echoes [c] a)"
proof -
  let ?t = "ttytab s m"
  have r: "ring 20 (tyebuff ?t) (tyehead ?t) (lecho a) (tyetail ?t)" and l: "length (lecho a) < 20"
    using assms by (simp_all add: line_rep_def Let_def)
  note p = ring_put [OF r, of c] and t = ring_tail [OF r]
  have "ring 20 ((tyebuff ?t)(tyetail ?t := c)) (tyehead ?t) (echo_put c (lecho a)) (if tyetail ?t + 1 \<ge> 20 then 0 else tyetail ?t + 1)"
    using p l ring_full [OF p] by (cases "length (lecho a) = 19") (simp_all add: echo_put_def split del: if_split)
  moreover have "length (echo_put c (lecho a)) < 20" using l by (auto simp: echo_put_def)
  ultimately show ?thesis using assms t
    by (cases "tyetail ?t + 1 \<ge> 20") (simp_all add: eputc_def Let_def line_rep_def echoes_def settings_def sem_at_def)
qed

lemma eputcs_rep:
  assumes "line_rep m s a" and "\<And>s. line_rep m s (echoes [c] a) \<Longrightarrow> \<exists>s'. k s = Some s' \<and> P s'"
  shows "\<exists>s'. do { s \<leftarrow> eputc m c s; k s } = Some s' \<and> P s'"
  using eputc_rep [OF assms(1), of c] assms(2) by auto

lemma echoch_rep:
  assumes "line_rep m s a"
  shows "\<exists>s'. echoch c m s = Some s' \<and> line_rep m s' (echoes (echo_of c) a)"
proof -
  have "tyecrlf (ttytab s m)" "tyevis (ttytab s m)" using assms by (simp_all add: line_rep_def settings_def Let_def)
  moreover have "\<exists>s'. do { s \<leftarrow> eputc m d s; eputc m e s } = Some s' \<and> line_rep m s' (echoes [d, e] a)" for d e
    using eputc_rep [of m _ "echoes [d] a" e] by (intro eputcs_rep [OF assms]) (simp add: echoes_append)
  ultimately show ?thesis using eputc_rep [OF assms, of c] by (simp add: echoch_def echo_of_def Let_def)
qed

lemma rubout_rep:
  assumes "line_rep m s a"
  shows "\<exists>s'. rubout m s = Some s' \<and> line_rep m s' (echoes [TY_BACKSP, TY_BLANK, TY_BACKSP] a)"
  unfolding rubout_def
proof (rule eputcs_rep [OF assms])
  fix s1 assume r: "line_rep m s1 (echoes [TY_BACKSP] a)"
  have "\<exists>s'. do { s \<leftarrow> eputc m TY_BLANK s1; eputc m TY_BACKSP s } = Some s' \<and> line_rep m s' (echoes [TY_BACKSP, TY_BLANK, TY_BACKSP] a)"
    using eputc_rep [of m _ "echoes [TY_BACKSP, TY_BLANK] a" TY_BACKSP]
    by (intro eputcs_rep [OF r]) (simp add: echoes_append)
  then show "\<exists>s'. (if tyieback (ttytab s1 m) then do { s \<leftarrow> eputc m TY_BLANK s1; eputc m TY_BACKSP s } else Some s1) = Some s' \<and>
      line_rep m s' (echoes [TY_BACKSP, TY_BLANK, TY_BACKSP] a)"
    using r by (simp add: line_rep_def settings_def Let_def)
qed

lemma erase1_moves:
  assumes "i = (if tyitail (ttytab s m) - 1 < 0 then tyitail (ttytab s m) - 1 + 128 else tyitail (ttytab s m) - 1)"
    and "s1 = upd_tty m (\<lambda>t. t\<lparr>tyicursor := tyicursor t - 1, tyitail := i\<rparr>) s"
  shows "erase1 m (upd_tty m (\<lambda>t. t\<lparr>tyicursor := tyicursor t - 1\<rparr>) s) = (let t = ttytab s1 m in
    if \<not> (0 \<le> tyitail t \<and> tyitail t < TY_IBUFLEN) then None
    else if tyiecho t then
      if nonprinting (tyibuff t (tyitail t)) then do {
        s \<leftarrow> (if tyevis t then rubout m s1 else Some s1);
        rubout m s
      }
      else rubout m s1
    else Some s1)"
proof (cases "tyitail (ttytab s m) - 1 < 0")
  case True
  then have "s1 = upd_tty m (\<lambda>t. t\<lparr>tyicursor := tyicursor t - 1, tyitail := tyitail t - 1 + 128\<rparr>) s"
    unfolding assms(2) by (simp add: upd_tty_def assms(1))
  with True show ?thesis by (simp add: erase1_def Let_def upd_tty_def cong: if_cong)
next
  case False
  then have "s1 = upd_tty m (\<lambda>t. t\<lparr>tyicursor := tyicursor t - 1, tyitail := tyitail t - 1\<rparr>) s"
    unfolding assms(2) by (simp add: upd_tty_def assms(1))
  with False show ?thesis by (simp add: erase1_def Let_def upd_tty_def cong: if_cong)
qed

lemma erase1_rep:
  assumes "line_rep m s a" and "ltyped a \<noteq> []"
  shows "\<exists>s'. erase1 m (upd_tty m (\<lambda>t. t\<lparr>tyicursor := tyicursor t - 1\<rparr>) s) = Some s' \<and>
    line_rep m s' (echoes (erase_of (last (ltyped a))) (a\<lparr>ltyped := butlast (ltyped a)\<rparr>))"
proof -
  let ?t = "ttytab s m" and ?a = "a\<lparr>ltyped := butlast (ltyped a)\<rparr>" and ?r = "[TY_BACKSP, TY_BLANK, TY_BACKSP]"
  define i where "i = (if tyitail ?t - 1 < 0 then tyitail ?t - 1 + 128 else tyitail ?t - 1)"
  define s1 where "s1 = upd_tty m (\<lambda>t. t\<lparr>tyicursor := tyicursor t - 1, tyitail := i\<rparr>) s"
  have r: "ring 128 (tyibuff ?t) (tyihead ?t) ((lready a @ butlast (ltyped a)) @ [last (ltyped a)]) (tyitail ?t)"
    using assms by (simp add: line_rep_def Let_def)
  note d = ring_drop_last [OF r, folded i_def]
  have "length (ltyped a) = Suc (length (butlast (ltyped a)))" using assms(2) by (cases "ltyped a" rule: rev_cases) simp_all
  then have rep: "line_rep m s1 ?a" using assms(1) d(2)
    by (simp add: line_rep_def Let_def s1_def settings_def sem_at_def)
  have c: "tyibuff (ttytab s1 m) (tyitail (ttytab s1 m)) = last (ltyped a)" using d(1) by (simp add: s1_def)
  have twice: "\<exists>s'. do { s \<leftarrow> rubout m s1; rubout m s } = Some s' \<and> line_rep m s' (echoes (?r @ ?r) ?a)"
    using rubout_rep [OF rep] rubout_rep [of m _ "echoes ?r ?a"] by (fastforce simp: echoes_append)
  have "erase1 m (upd_tty m (\<lambda>t. t\<lparr>tyicursor := tyicursor t - 1\<rparr>) s) =
      (if nonprinting (last (ltyped a)) then do { s \<leftarrow> rubout m s1; rubout m s } else rubout m s1)"
    using erase1_moves [OF i_def s1_def] c rep ring_tail [OF d(2)] by (simp add: Let_def s1_def line_rep_def settings_def)
  then show ?thesis using twice rubout_rep [OF rep] by (simp add: erase_of_def)
qed

text \<open>Storing a character and moving the pointer.\<close>

lemma put_in_ring:
  assumes "ring TY_IBUFLEN (tyibuff (ttytab s m)) (tyihead (ttytab s m)) xs (tyitail (ttytab s m))" and "length xs < 128"
  shows "\<exists>s1 b t. put_in m c s = Some s1 \<and> wrap_in m s1 = upd_tty m (\<lambda>e. e\<lparr>tyibuff := b, tyitail := t\<rparr>) s \<and>
    ring TY_IBUFLEN b (tyihead (ttytab s m)) (xs @ [c]) t"
  using ring_put [OF assms(1), of c] ring_tail [OF assms(1)] assms(2)
  by (cases "tyitail (ttytab s m) + 1 \<ge> 128") (auto simp: put_in_def wrap_in_def upd_tty_def Let_def)

lemma type_rep:
  assumes "line_rep m s a" and "length (lready a) + length (ltyped a) < 128"
  shows "\<exists>s1. put_in m c (upd_tty m (\<lambda>t. t\<lparr>tyicursor := tyicursor t + 1\<rparr>) s) = Some s1 \<and>
    line_rep m (wrap_in m s1) (a\<lparr>ltyped := ltyped a @ [c]\<rparr>)"
proof -
  let ?s = "upd_tty m (\<lambda>t. t\<lparr>tyicursor := tyicursor t + 1\<rparr>) s"
  have "ring TY_IBUFLEN (tyibuff (ttytab ?s m)) (tyihead (ttytab ?s m)) (lready a @ ltyped a) (tyitail (ttytab ?s m))"
    using assms by (simp add: line_rep_def Let_def)
  from put_in_ring [OF this, of c] obtain s1 b t where "put_in m c ?s = Some s1"
    "wrap_in m s1 = upd_tty m (\<lambda>e. e\<lparr>tyibuff := b, tyitail := t\<rparr>) ?s"
    "ring TY_IBUFLEN b (tyihead (ttytab ?s m)) ((lready a @ ltyped a) @ [c]) t" using assms(2) by auto
  then show ?thesis using assms(1) by (auto simp: line_rep_def Let_def settings_def sem_at_def)
qed

lemma newline_rep:
  assumes "line_rep m s a" and "length (lready a) + length (ltyped a) < 128"
  shows "\<exists>s'. in_newline m c s = Some s' \<and>
    line_rep m s' ((echoes (echo_of c) a)\<lparr>lready := lready a @ ltyped a @ [c], ltyped := []\<rparr>)"
proof -
  obtain s1 where e: "echoch c m s = Some s1" and r: "line_rep m s1 (echoes (echo_of c) a)" using echoch_rep [OF assms(1)] by auto
  have "ring TY_IBUFLEN (tyibuff (ttytab s1 m)) (tyihead (ttytab s1 m)) (lready a @ ltyped a) (tyitail (ttytab s1 m))"
    using r by (simp add: line_rep_def Let_def)
  from put_in_ring [OF this, of c] obtain s2 b t where p: "put_in m c s1 = Some s2"
    and w: "wrap_in m s2 = upd_tty m (\<lambda>e. e\<lparr>tyibuff := b, tyitail := t\<rparr>) s1"
    and b: "ring TY_IBUFLEN b (tyihead (ttytab s1 m)) ((lready a @ ltyped a) @ [c]) t" using assms(2) by auto
  let ?s3 = "wrap_in m s2" and ?sem = "tyisem (ttytab s1 m)"
  have q: "sem_at ?s3 ?sem (int (length (lready a)))" "quiet ?s3" "tyicursor (ttytab s1 m) = int (length (ltyped a))"
    using r by (simp_all add: w line_rep_def Let_def sem_at_def)
  obtain d where g: "signaln ?sem (int (length (ltyped a)) + 1) ?s3 =
      Some (OK, (upd_sem ?sem (\<lambda>e. e\<lparr>scount := scount e + (int (length (ltyped a)) + 1)\<rparr>) ?s3)\<lparr>attempt := d\<rparr>)"
    and d: "quiet ((upd_sem ?sem (\<lambda>e. e\<lparr>scount := scount e + (int (length (ltyped a)) + 1)\<rparr>) ?s3)\<lparr>attempt := d\<rparr>)"
    using signaln_free [OF q(1) _ _ q(2), of "int (length (ltyped a)) + 1"] by auto
  have "tyiecho (ttytab s m)" using assms(1) by (simp add: line_rep_def settings_def Let_def)
  then have "in_newline m c s = Some (upd_tty m (\<lambda>t. t\<lparr>tyicursor := 0\<rparr>)
      ((upd_sem ?sem (\<lambda>e. e\<lparr>scount := scount e + (int (length (ltyped a)) + 1)\<rparr>) ?s3)\<lparr>attempt := d\<rparr>))"
    using e p g q(3) by (simp add: in_newline_def Let_def w)
  moreover have "line_rep m (upd_tty m (\<lambda>t. t\<lparr>tyicursor := 0\<rparr>)
      ((upd_sem ?sem (\<lambda>e. e\<lparr>scount := scount e + (int (length (ltyped a)) + 1)\<rparr>) ?s3)\<lparr>attempt := d\<rparr>))
      ((echoes (echo_of c) a)\<lparr>lready := lready a @ ltyped a @ [c], ltyped := []\<rparr>)"
    using r b d by (simp add: w line_rep_def Let_def settings_def sem_at_def echoes_def)
  ultimately show ?thesis by blast
qed

text \<open>One character that has arrived.\<close>

lemma held_rep: "line_rep m s a \<Longrightarrow> line_rep m (upd_tty m (\<lambda>t. t\<lparr>tyoheld := h\<rparr>) s) (a\<lparr>lheld := h\<rparr>)"
  by (simp add: line_rep_def Let_def settings_def sem_at_def)

lemma kickout_rep: "line_rep m s a \<Longrightarrow> line_rep m (ttykickout s) a"
  by (simp add: line_rep_def Let_def sem_at_def)

lemma available_rep: "line_rep m s a \<Longrightarrow> available m s = int (length (lready a))"
  by (auto simp: available_def line_rep_def Let_def dest: semcount_at)

lemma cooked_rep:
  assumes "line_rep m s (a\<lparr>lheld := False\<rparr>)" and "c \<noteq> TY_RETURN" "c \<noteq> TY_STRTCH" "c \<noteq> TY_STOPCH" and "editable c a"
  shows "\<exists>s'. in_cooked m c s = Some s' \<and> line_rep m s' (edit c a)"
proof -
  let ?a = "a\<lparr>lheld := False\<rparr>" and ?t = "ttytab s m"
  have t: "tyikillc ?t = TY_KILLCH" "tyierasec ?t = TY_BACKSP" "tyierase ?t" "tyeofch ?t = TY_EOFCH" "tyeof ?t" "tyiecho ?t"
    "tyifullc ?t = TY_BELL" "tyicursor ?t = int (length (ltyped a))"
    using assms(1) by (simp_all add: line_rep_def settings_def Let_def)
  have av: "available m s = int (length (lready a))" using available_rep [OF assms(1)] by simp
  note F = assms(2-5) t av
  consider "c = TY_BACKSP" "ltyped a = []" | "c = TY_BACKSP" "ltyped a \<noteq> []" | "c = TY_NEWLINE"
    | "c \<noteq> TY_BACKSP" "c \<noteq> TY_NEWLINE" "length (lready a) + length (ltyped a) \<ge> 127"
    | "c = TY_EOFCH" "length (lready a) + length (ltyped a) < 127"
    | "c \<noteq> TY_BACKSP" "c \<noteq> TY_NEWLINE" "c \<noteq> TY_EOFCH" "length (lready a) + length (ltyped a) < 127" by linarith
  then show ?thesis
  proof cases
    case 1
    then show ?thesis using F assms(1) by (simp add: in_cooked_def edit_def Let_def)
  next
    case 2
    then show ?thesis using F erase1_rep [OF assms(1)] by (simp add: in_cooked_def edit_def Let_def)
  next
    case 3
    then show ?thesis using F newline_rep [OF assms(1), of c] by (simp add: in_cooked_def edit_def Let_def editable_def echoes_def)
  next
    case 4
    then show ?thesis using F eputc_rep [OF assms(1), of TY_BELL] by (simp add: in_cooked_def edit_def Let_def editable_def)
  next
    case 5
    then show ?thesis using F echoch_rep [OF assms(1), of c] by (auto simp: in_cooked_def edit_def Let_def editable_def)
  next
    case 6
    obtain s1 where s1: "echoch c m s = Some s1" "line_rep m s1 (echoes (echo_of c) ?a)" using echoch_rep [OF assms(1)] by auto
    obtain s2 where "put_in m c (upd_tty m (\<lambda>t. t\<lparr>tyicursor := tyicursor t + 1\<rparr>) s1) = Some s2"
      "line_rep m (wrap_in m s2) ((echoes (echo_of c) ?a)\<lparr>ltyped := ltyped a @ [c]\<rparr>)"
      using type_rep [OF s1(2), of c] 6 by auto
    then show ?thesis using F 6 s1(1) by (simp add: in_cooked_def edit_def Let_def editable_def echoes_def)
  qed
qed

lemma handle_in_rep:
  assumes "line_rep m s a" and "larrived a = c # cs" and "editable c a"
  shows "\<exists>s'. ttyhandle_in m s = Some s' \<and> line_rep m s' ((edit c a)\<lparr>larrived := cs\<rparr>)"
proof -
  let ?s = "upd_uart (\<lambda>u. u\<lparr>u_arrived := cs\<rparr>) s" and ?a = "a\<lparr>larrived := cs\<rparr>" and ?t = "ttytab s m"
  let ?c = "if c = TY_RETURN then TY_NEWLINE else c"
  have r: "line_rep m ?s ?a" using assms(1) by (simp add: line_rep_def Let_def sem_at_def)
  have recv: "uart_recv s = (c, ?s)" using assms(1,2) by (simp add: uart_recv_def line_rep_def Let_def)
  have t: "tyimode ?t = TY_IMCOOKED" "tyicrlf ?t" "tyoflow ?t" "tyostart ?t = TY_STRTCH" "tyostop ?t = TY_STOPCH"
    using assms(1) by (simp_all add: line_rep_def settings_def Let_def)
  have ed: "edit ?c ?a = (edit c a)\<lparr>larrived := cs\<rparr>" by (simp add: edit_def Let_def echoes_def)
  consider "?c = TY_STRTCH" | "?c = TY_STOPCH" | "?c \<noteq> TY_STRTCH" "?c \<noteq> TY_STOPCH" by blast
  then have "\<exists>s'. ttyhandle_in m s = Some s' \<and> line_rep m s' (edit ?c ?a)"
  proof cases
    case 1
    then have "c = TY_STRTCH" by (auto split: if_splits)
    then show ?thesis using recv t kickout_rep [OF held_rep [OF r, of False]] by (simp add: ttyhandle_in_def edit_def)
  next
    case 2
    then have "c = TY_STOPCH" by (auto split: if_splits)
    then show ?thesis using recv t held_rep [OF r, of True] by (simp add: ttyhandle_in_def edit_def)
  next
    case 3
    have "ttyhandle_in m s = in_cooked m ?c (upd_tty m (\<lambda>t. t\<lparr>tyoheld := False\<rparr>) ?s)"
      using 3 recv t by (auto simp: ttyhandle_in_def Let_def)
    moreover have "editable ?c ?a" using assms(3) by (auto simp: editable_def)
    ultimately show ?thesis using cooked_rep [OF held_rep [OF r, of False], of ?c] 3 by auto
  qed
  then show ?thesis by (simp only: ed)
qed

text \<open>All characters that have arrived, and the interrupt that announces them.\<close>

fun edits :: "u8 list \<Rightarrow> tline \<Rightarrow> tline" where
  "edits [] a = a"
| "edits (c # cs) a = edits cs (edit c a)"

fun editables :: "u8 list \<Rightarrow> tline \<Rightarrow> bool" where
  "editables [] a \<longleftrightarrow> True"
| "editables (c # cs) a \<longleftrightarrow> editable c a \<and> editables cs (edit c a)"

lemma edit_arrived [simp]: "edit c (a\<lparr>larrived := xs\<rparr>) = (edit c a)\<lparr>larrived := xs\<rparr>"
  by (simp add: edit_def Let_def echoes_def)

lemma edits_arrived [simp]: "edits cs (a\<lparr>larrived := xs\<rparr>) = (edits cs a)\<lparr>larrived := xs\<rparr>"
  by (induction cs arbitrary: a) simp_all

lemma editables_arrived [simp]: "editables cs (a\<lparr>larrived := xs\<rparr>) = editables cs a"
  by (induction cs arbitrary: a) (simp_all add: editable_def)

lemma handle_all_rep:
  assumes "line_rep m s a" and "larrived a = cs" and "editables cs a"
  shows "\<exists>s'. ttyhandle_all m (length cs) s = Some s' \<and> line_rep m s' ((edits cs a)\<lparr>larrived := []\<rparr>)"
  using assms
proof (induction cs arbitrary: s a)
  case Nil
  then have "a\<lparr>larrived := []\<rparr> = a" by simp
  then show ?case using Nil by (auto simp: line_rep_def Let_def)
next
  case (Cons c cs)
  obtain s1 where s1: "ttyhandle_in m s = Some s1" "line_rep m s1 ((edit c a)\<lparr>larrived := cs\<rparr>)"
    using handle_in_rep [OF Cons.prems(1,2)] Cons.prems(3) by auto
  moreover have "u_arrived (uart s) \<noteq> []" using Cons.prems(1,2) by (simp add: line_rep_def Let_def)
  ultimately show ?case using Cons.IH [OF s1(2)] Cons.prems(3) by simp
qed

lemma line_rep_defers: "quiet s' \<Longrightarrow> ttytab s' = ttytab s \<Longrightarrow> semtab s' = semtab s \<Longrightarrow> uart s' = uart s \<Longrightarrow> line_rep m s a \<Longrightarrow> line_rep m s' a"
  by (simp add: line_rep_def Let_def sem_at_def)

lemma defer_start_rep:
  assumes "line_rep m s a"
  obtains s1 where "resched_cntl DEFER_START s = Some (OK, s1)" "line_rep m s1 a"
proof -
  let ?s1 = "if ndefers s = 0 then s\<lparr>ndefers := ndefers s + 1, attempt := False\<rparr> else s\<lparr>ndefers := ndefers s + 1\<rparr>"
  have "quiet s" using assms by (simp add: line_rep_def Let_def)
  then have "line_rep m ?s1 a" by (intro line_rep_defers [OF _ _ _ _ assms]) (auto simp: quiet_def)
  moreover have "resched_cntl DEFER_START s = Some (OK, ?s1)" by (simp add: resched_cntl_def)
  ultimately show thesis by (rule that [rotated])
qed

lemma defer_stop_rep:
  assumes "line_rep m s a"
  obtains r s1 where "resched_cntl DEFER_STOP s = Some (r, s1)" "line_rep m s1 a"
proof -
  let ?s1 = "if ndefers s \<le> 0 then s else s\<lparr>ndefers := ndefers s - 1\<rparr>"
  have q: "quiet s" using assms by (simp add: line_rep_def Let_def)
  then have "line_rep m ?s1 a" by (intro line_rep_defers [OF _ _ _ _ assms]) (auto simp: quiet_def)
  moreover have "\<exists>r. resched_cntl DEFER_STOP s = Some (r, ?s1)" using q by (auto simp: resched_cntl_def quiet_def Let_def)
  ultimately show thesis using that by blast
qed

lemma handler_in_rep:
  assumes "line_rep 0 s a" and "editables (larrived a) a" and "iir = 0x04 \<or> iir = 0x0C"
  shows "\<exists>s'. ttyhandler iir s = Some s' \<and> line_rep 0 s' ((edits (larrived a) a)\<lparr>larrived := []\<rparr>)"
proof -
  obtain s1 where s1: "resched_cntl DEFER_START s = Some (OK, s1)" "line_rep 0 s1 a" using defer_start_rep [OF assms(1)] .
  have "larrived a = u_arrived (uart s1)" using s1(2) by (simp add: line_rep_def Let_def)
  then obtain s2 where s2: "ttyhandle_all 0 (length (u_arrived (uart s1))) s1 = Some s2"
    "line_rep 0 s2 ((edits (larrived a) a)\<lparr>larrived := []\<rparr>)" using handle_all_rep [OF s1(2) refl assms(2)] by auto
  obtain r s3 where "resched_cntl DEFER_STOP s2 = Some (r, s3)" "line_rep 0 s3 ((edits (larrived a) a)\<lparr>larrived := []\<rparr>)"
    using defer_stop_rep [OF s2(2)] .
  then show ?thesis using assms(3) s1(1) s2(1) by (auto simp: ttyhandler_def)
qed

subsection \<open>Sending\<close>

text \<open>An interrupt of the transmitter sends up to 16 characters, the echo before the output.\<close>

definition transmit :: "tline \<Rightarrow> tline" where
  "transmit a = (if lheld a then a
     else a\<lparr>lsent := lsent a @ take 16 (lecho a @ lout a), lecho := drop 16 (lecho a), lout := drop (16 - length (lecho a)) (lout a)\<rparr>)"

lemma send_echo1_rep:
  assumes "line_rep m s a" and "lecho a = c # es"
  shows "\<exists>s'. send_echo1 m s = Some s' \<and> line_rep m s' (a\<lparr>lecho := es, lsent := lsent a @ [c]\<rparr>)"
proof -
  have "ring 20 (tyebuff (ttytab s m)) (tyehead (ttytab s m)) (c # es) (tyetail (ttytab s m))"
    using assms by (simp add: line_rep_def Let_def)
  note r = ring_take [OF this] and h = this [unfolded ring_def]
  show ?thesis using assms r h
    by (cases "tyehead (ttytab s m) + 1 \<ge> 20")
      (simp_all add: send_echo1_def uart_send_def line_rep_def Let_def settings_def sem_at_def)
qed

lemma send_echo_rep:
  assumes "line_rep m s a"
  shows "\<exists>s'. send_echo m n s = Some (n - length (lecho a), s') \<and>
    line_rep m s' (a\<lparr>lsent := lsent a @ take n (lecho a), lecho := drop n (lecho a)\<rparr>)"
  using assms
proof (induction n arbitrary: s a)
  case 0
  then show ?case by simp
next
  case (Suc n)
  have e: "tyehead (ttytab s m) = tyetail (ttytab s m) \<longleftrightarrow> lecho a = []"
    using Suc.prems ring_eq_iff [of 20 "tyebuff (ttytab s m)" "tyehead (ttytab s m)" "lecho a"] by (simp add: line_rep_def Let_def)
  show ?case
  proof (cases "lecho a")
    case Nil
    then have same: "a\<lparr>lecho := []\<rparr> = a" by simp
    have "line_rep m s (a\<lparr>lecho := []\<rparr>)" unfolding same by (rule Suc.prems)
    with Nil show ?thesis using e by simp
  next
    case (Cons c es)
    then obtain s1 where s1: "send_echo1 m s = Some s1" "line_rep m s1 (a\<lparr>lecho := es, lsent := lsent a @ [c]\<rparr>)"
      using send_echo1_rep [OF Suc.prems] by auto
    show ?thesis using Suc.IH [OF s1(2)] s1(1) e Cons by simp
  qed
qed

lemma send_out_ring:
  assumes "ring TY_OBUFLEN (tyobuff (ttytab s m)) (tyohead (ttytab s m)) xs t"
  shows "\<exists>h. send_out m n (int (length xs)) k s = Some (k + int (min n (length xs)),
      upd_uart (\<lambda>u. u\<lparr>u_sent := u_sent u @ take n xs\<rparr>) (upd_tty m (\<lambda>e. e\<lparr>tyohead := h\<rparr>) s)) \<and>
    ring TY_OBUFLEN (tyobuff (ttytab s m)) h (drop n xs) t"
  using assms
proof (induction n arbitrary: s xs k)
  case 0
  then show ?case by (intro exI [of _ "tyohead (ttytab s m)"]) (simp add: upd_uart_def upd_tty_def)
next
  case (Suc n)
  show ?case
  proof (cases xs)
    case Nil
    then show ?thesis using Suc.prems by (intro exI [of _ "tyohead (ttytab s m)"]) (simp add: upd_uart_def upd_tty_def)
  next
    case (Cons c ys)
    note r = Suc.prems [unfolded Cons]
    define h where "h = (if tyohead (ttytab s m) + 1 \<ge> 64 then 0 else tyohead (ttytab s m) + 1)"
    let ?s1 = "upd_uart (\<lambda>u. u\<lparr>u_sent := u_sent u @ [c]\<rparr>) (upd_tty m (\<lambda>e. e\<lparr>tyohead := h\<rparr>) s)"
    have "0 \<le> tyohead (ttytab s m)" "tyohead (ttytab s m) < 64" using r by (simp_all add: ring_def)
    then have "send_out1 m s = Some ?s1" using ring_take(1) [OF r]
      by (cases "tyohead (ttytab s m) + 1 \<ge> 64") (simp_all add: send_out1_def uart_send_def h_def Let_def upd_uart_def upd_tty_def)
    moreover obtain h' where "send_out m n (int (length ys)) (k + 1) ?s1 = Some (k + 1 + int (min n (length ys)),
        upd_uart (\<lambda>u. u\<lparr>u_sent := u_sent u @ take n ys\<rparr>) (upd_tty m (\<lambda>e. e\<lparr>tyohead := h'\<rparr>) ?s1))"
      "ring TY_OBUFLEN (tyobuff (ttytab s m)) h' (drop n ys) t"
      using Suc.IH [of ?s1 ys "k + 1"] ring_take(2) [OF r, folded h_def] by auto
    ultimately show ?thesis using Cons
      by (intro exI [of _ h']) (simp add: upd_uart_def upd_tty_def)
  qed
qed

lemma handle_out_rep:
  assumes "line_rep m s a"
  shows "\<exists>s'. ttyhandle_out m s = Some s' \<and> line_rep m s' (transmit a)"
proof -
  let ?t = "ttytab s m"
  have e: "tyehead ?t = tyetail ?t \<longleftrightarrow> lecho a = []"
    using assms ring_eq_iff [of 20 "tyebuff ?t" "tyehead ?t" "lecho a"] by (simp add: line_rep_def Let_def)
  have c: "semcount (tyosem ?t) s = 64 - int (length (lout a))" using assms semcount_at [of s "tyosem ?t"] by (simp add: line_rep_def Let_def)
  consider "lheld a" | "\<not> lheld a" "lecho a = []" "lout a = []" | "\<not> lheld a" "lecho a \<noteq> [] \<or> lout a \<noteq> []" by blast
  then show ?thesis
  proof cases
    case 1
    then show ?thesis using assms by (simp add: ttyhandle_out_def transmit_def line_rep_def Let_def)
  next
    case 2
    then have "transmit a = a" by (simp add: transmit_def)
    then show ?thesis using 2 assms e c by (simp add: ttyhandle_out_def line_rep_def Let_def sem_at_def)
  next
    case 3
    let ?n = "16 - length (lecho a)" and ?a = "a\<lparr>lsent := lsent a @ take 16 (lecho a), lecho := drop 16 (lecho a)\<rparr>"
    obtain s1 where s1: "send_echo m 16 s = Some (?n, s1)" "line_rep m s1 ?a" using send_echo_rep [OF assms, of 16] by auto
    let ?sem = "tyosem (ttytab s1 m)"
    have "ring TY_OBUFLEN (tyobuff (ttytab s1 m)) (tyohead (ttytab s1 m)) (lout a) (tyotail (ttytab s1 m))"
      using s1(2) by (simp add: line_rep_def Let_def)
    from send_out_ring [OF this, of ?n 0] obtain h where h:
      "send_out m ?n (int (length (lout a))) 0 s1 = Some (int (min ?n (length (lout a))),
        upd_uart (\<lambda>u. u\<lparr>u_sent := u_sent u @ take ?n (lout a)\<rparr>) (upd_tty m (\<lambda>e. e\<lparr>tyohead := h\<rparr>) s1))" (is "_ = Some (?k, ?s2)")
      "ring TY_OBUFLEN (tyobuff (ttytab s1 m)) h (drop ?n (lout a)) (tyotail (ttytab s1 m))" by auto
    have sem: "sem_at ?s2 ?sem (64 - int (length (lout a)))" "quiet ?s2"
      using s1(2) by (simp_all add: line_rep_def Let_def sem_at_def)
    have "semcount ?sem s1 = 64 - int (length (lout a))" using s1(2) semcount_at [of s1 ?sem] by (simp add: line_rep_def Let_def)
    then have run: "ttyhandle_out m s = (if ?k > 0 then do { (_, s) \<leftarrow> signaln ?sem ?k ?s2; Some s } else Some ?s2)"
      using 3 e c assms s1(1) h(1) by (auto simp: ttyhandle_out_def line_rep_def Let_def)
    obtain d where "signaln ?sem ?k ?s2 = Some (OK, (upd_sem ?sem (\<lambda>e. e\<lparr>scount := scount e + ?k\<rparr>) ?s2)\<lparr>attempt := d\<rparr>)"
      "quiet ((upd_sem ?sem (\<lambda>e. e\<lparr>scount := scount e + ?k\<rparr>) ?s2)\<lparr>attempt := d\<rparr>)"
      using signaln_free [OF sem(1) _ _ sem(2), of ?k] s1(2) by (auto simp: line_rep_def Let_def ring_def)
    then show ?thesis using run 3 s1(2) h(2)
      by (auto simp: transmit_def line_rep_def Let_def settings_def sem_at_def min_def)
  qed
qed

end
