(* ===== verification/Terminal_Calls.thy ===== *)
theory Terminal_Calls
  imports Terminal_Spec Table_Search
begin

section \<open>The calls of a process on a terminal\<close>

text \<open>
  Writing, reading and \<open>ttyinit\<close> against the lists of characters of \<open>line_rep\<close>: a call that finds room, or
  its input, runs to its end without waiting.
\<close>

subsection \<open>Writing\<close>

definition expand :: "u8 \<Rightarrow> u8 list" where
  "expand c = (if c = TY_NEWLINE then [TY_RETURN, TY_NEWLINE] else [c])"

lemma sem_at_free: "sem_at s sem c \<Longrightarrow> 0 < c \<Longrightarrow> sem_free s sem"
  by (simp add: sem_at_def sem_free_def)

lemma ttyputc1_rep:
  assumes "line_rep m s a" and "length (lout a) < 64"
  shows "\<exists>s'. runs (ttyputc1 m c) s OK s' \<and> line_rep m s' (a\<lparr>lout := lout a @ [c]\<rparr>)"
proof -
  let ?t = "ttytab s m"
  let ?s1 = "lock (tyosem ?t) s"
  define t where "t = (if tyotail ?t + 1 \<ge> 64 then 0 else tyotail ?t + 1)"
  define s2 where "s2 = upd_tty m (\<lambda>e. e\<lparr>tyobuff := (tyobuff e)(tyotail e := c), tyotail := t\<rparr>) ?s1"
  have r: "ring 64 (tyobuff ?t) (tyohead ?t) (lout a) (tyotail ?t)" and sem: "sem_at s (tyosem ?t) (64 - int (length (lout a)))"
    using assms(1) by (simp_all add: line_rep_def Let_def)
  have "sem_free s (tyosem ?t)" using sem_at_free [OF sem] assms(2) by simp
  note w = runs_wait [OF this]
  have "put_out m c ?s1 = Some ((), s2)" using ring_tail [OF r]
    by (cases "tyotail ?t + 1 \<ge> 64") (simp_all add: put_out_def s2_def t_def Let_def upd_tty_def)
  then have p: "runs (pcall (put_out m c)) ?s1 () s2" by (rule runs_call) (simp add: s2_def)
  have k: "runs (pmodify ttykickout) s2 () (ttykickout s2)" by (rule runs_modify) simp
  have "runs (ttyputc1 m c) s OK (ttykickout s2)" unfolding ttyputc1_def
    by (rule runs_bind, rule runs_gets, rule runs_bind, rule w, rule runs_bind, rule p, rule runs_bind, rule k, rule runs_Ret)
  moreover have "line_rep m (ttykickout s2) (a\<lparr>lout := lout a @ [c]\<rparr>)"
    using assms ring_put [OF r, of c, folded t_def]
    by (simp add: s2_def line_rep_def Let_def settings_def sem_at_def)
  ultimately show ?thesis by blast
qed

lemma ttyputc_rep:
  assumes "line_rep m s a" and "length (lout a @ expand c) \<le> 64"
  shows "\<exists>s'. runs (ttyputc m c) s OK s' \<and> line_rep m s' (a\<lparr>lout := lout a @ expand c\<rparr>)"
proof -
  have crlf: "tyocrlf (ttytab s m)" using assms(1) by (simp add: line_rep_def settings_def Let_def)
  show ?thesis
  proof (cases "c = TY_NEWLINE")
    case True
    obtain s1 where s1: "runs (ttyputc1 m TY_RETURN) s OK s1" "line_rep m s1 (a\<lparr>lout := lout a @ [TY_RETURN]\<rparr>)"
      using ttyputc1_rep [OF assms(1), of TY_RETURN] assms(2) True by (auto simp: expand_def)
    obtain s2 where s2: "runs (ttyputc1 m c) s1 OK s2" "line_rep m s2 (a\<lparr>lout := lout a @ expand c\<rparr>)"
      using ttyputc1_rep [OF s1(2), of c] assms(2) True by (auto simp: expand_def)
    have "runs (ttyputc m c) s OK s2" unfolding ttyputc_def
      by (rule runs_bind, rule runs_gets, rule runs_bind [where r = OK and ?s1.0 = s1]) (use s1(1) s2(1) True crlf in simp_all)
    with s2(2) show ?thesis by blast
  next
    case False
    obtain s2 where s2: "runs (ttyputc1 m c) s OK s2" "line_rep m s2 (a\<lparr>lout := lout a @ expand c\<rparr>)"
      using ttyputc1_rep [OF assms(1), of c] assms(2) False by (auto simp: expand_def)
    have "runs (ttyputc m c) s OK s2" unfolding ttyputc_def
      by (rule runs_bind, rule runs_gets, rule runs_bind [where r = OK and ?s1.0 = s]) (use s2(1) False in \<open>simp_all add: runs_Ret\<close>)
    with s2(2) show ?thesis by blast
  qed
qed

lemma ttywrite_loop_rep:
  assumes "line_rep m s a" and "length (lout a @ concat (map (\<lambda>i. expand (buff i)) is)) \<le> 64"
  shows "\<exists>s'. runs (ttywrite_loop m is buff) s OK s' \<and> line_rep m s' (a\<lparr>lout := lout a @ concat (map (\<lambda>i. expand (buff i)) is)\<rparr>)"
  using assms
proof (induction "is" arbitrary: s a)
  case Nil
  then show ?case by (auto intro!: runs_Ret)
next
  case (Cons i "is")
  obtain s1 where s1: "runs (ttyputc m (buff i)) s OK s1" "line_rep m s1 (a\<lparr>lout := lout a @ expand (buff i)\<rparr>)"
    using ttyputc_rep [OF Cons.prems(1), of "buff i"] Cons.prems(2) by auto
  then show ?case using Cons.IH [OF s1(2)] Cons.prems(2) runs_bind [OF s1(1)] by fastforce
qed

lemma ttywrite_rep:
  assumes "line_rep m s a" and "length (lout a @ concat (map expand cs)) \<le> 64" and "\<forall>i < length cs. buff i = cs ! i"
  shows "\<exists>s'. runs (ttywrite m buff (int (length cs))) s OK s' \<and> line_rep m s' (a\<lparr>lout := lout a @ concat (map expand cs)\<rparr>)"
proof -
  have "map (\<lambda>i. expand (buff i)) [0..<length cs] = map expand cs" using assms(3) by (intro nth_equalityI) simp_all
  then have "\<exists>s'. runs (ttywrite_loop m [0..<length cs] buff) s OK s' \<and> line_rep m s' (a\<lparr>lout := lout a @ concat (map expand cs)\<rparr>)"
    using ttywrite_loop_rep [OF assms(1), of buff "[0..<length cs]"] assms(2) by simp
  moreover have "runs (ttywrite m buff (int (length cs))) s OK s' \<longleftrightarrow> runs (ttywrite_loop m [0..<length cs] buff) s OK s'" for s'
    by (simp add: ttywrite_def)
  ultimately show ?thesis by simp
qed

subsection \<open>Reading\<close>

text \<open>A line, or the first \<open>n\<close> characters of it; whether it can be read without waiting; the buffer that it is stored in.\<close>

fun take_line :: "nat \<Rightarrow> u8 list \<Rightarrow> u8 list" where
  "take_line 0 xs = []"
| "take_line (Suc n) [] = []"
| "take_line (Suc n) (x # xs) = x # (if x = TY_NEWLINE \<or> x = TY_RETURN then [] else take_line n xs)"

fun line_there :: "nat \<Rightarrow> u8 list \<Rightarrow> bool" where
  "line_there 0 xs \<longleftrightarrow> True"
| "line_there (Suc n) [] \<longleftrightarrow> False"
| "line_there (Suc n) (x # xs) \<longleftrightarrow> x = TY_NEWLINE \<or> x = TY_RETURN \<or> line_there n xs"

definition stored :: "nat \<Rightarrow> u8 list \<Rightarrow> (nat \<Rightarrow> u8) \<Rightarrow> nat \<Rightarrow> u8" where
  "stored n xs b i = (if n \<le> i \<and> i < n + length xs then xs ! (i - n) else b i)"

lemma stored_Nil [simp]: "stored n [] b = b"
  by (rule ext) (auto simp: stored_def)

lemma stored_Cons [simp]: "stored (Suc n) xs (b(n := x)) = stored n (x # xs) b"
  by (auto simp: stored_def fun_eq_iff nth_Cons' Suc_le_eq)

lemma ttygetc_rep:
  assumes "line_rep m s a" and "lready a = c # cs"
  shows "\<exists>s'. runs (ttygetc m) s (if c = TY_EOFCH then EOF else sint c) s' \<and> line_rep m s' (a\<lparr>lready := cs\<rparr>)"
proof -
  let ?t = "ttytab s m"
  let ?s1 = "lock (tyisem ?t) s"
  define h where "h = (if tyihead ?t + 1 \<ge> 128 then 0 else tyihead ?t + 1)"
  define s2 where "s2 = upd_tty m (\<lambda>e. e\<lparr>tyihead := h\<rparr>) ?s1"
  have r: "ring 128 (tyibuff ?t) (tyihead ?t) (c # cs @ ltyped a) (tyitail ?t)"
    and sem: "sem_at s (tyisem ?t) (int (length (lready a)))"
    using assms by (simp_all add: line_rep_def Let_def)
  have "sem_free s (tyisem ?t)" using sem_at_free [OF sem] assms(2) by simp
  note w = runs_wait [OF this]
  have "0 \<le> tyihead ?t" "tyihead ?t < 128" using r by (simp_all add: ring_def)
  then have "take_in m ?s1 = Some (c, s2)" using ring_take(1) [OF r]
    by (cases "tyihead ?t + 1 \<ge> 128") (simp_all add: take_in_def s2_def h_def Let_def upd_tty_def)
  then have p: "runs (pcall (take_in m)) ?s1 c s2" by (rule runs_call) (simp add: s2_def)
  have rep: "line_rep m s2 (a\<lparr>lready := cs\<rparr>)"
    using assms ring_take(2) [OF r, folded h_def] by (simp add: s2_def line_rep_def Let_def settings_def sem_at_def)
  have "runs (ttygetc m) s (if c = TY_EOFCH then EOF else sint c) s2" unfolding ttygetc_def
    by (rule runs_bind, rule runs_gets, rule runs_bind, rule w, rule runs_bind, rule p, rule runs_bind, rule runs_gets)
      (use rep in \<open>simp add: line_rep_def Let_def settings_def runs_Ret\<close>)
  with rep show ?thesis by blast
qed

lemma ttyread_line_rep:
  assumes "line_rep m s a" and "line_there n (lready a)" and "TY_EOFCH \<notin> set (take_line n (lready a))"
    and "ch \<noteq> TY_NEWLINE" "ch \<noteq> TY_RETURN"
  shows "\<exists>s'. runs (ttyread_line m n k ch buff) s
      (int (k + length (take_line n (lready a))), stored k (take_line n (lready a)) buff) s' \<and>
    line_rep m s' (a\<lparr>lready := drop (length (take_line n (lready a))) (lready a)\<rparr>)"
  using assms
proof (induction n arbitrary: s a k ch buff)
  case 0
  then show ?case by (auto intro!: runs_Ret)
next
  case (Suc n)
  then obtain c cs where c: "lready a = c # cs" by (cases "lready a") simp_all
  obtain s1 where s1: "runs (ttygetc m) s (sint c) s1" "line_rep m s1 (a\<lparr>lready := cs\<rparr>)"
    using ttygetc_rep [OF Suc.prems(1) c] Suc.prems(3) c by auto
  show ?case
  proof (cases "c = TY_NEWLINE \<or> c = TY_RETURN")
    case True
    have "runs (ttyread_line m n (k + 1) (word_of_int (sint c)) (buff(k := word_of_int (sint c)))) s1 (int (k + 1), buff(k := c)) s1"
      using True by (cases n) (auto intro!: runs_Ret)
    then have "runs (ttyread_line m (Suc n) k ch buff) s (int (k + 1), buff(k := c)) s1"
      using runs_bind [OF s1(1), of "\<lambda>c. ttyread_line m n (k + 1) (word_of_int c) (buff(k := word_of_int c))"] Suc.prems(4,5) by simp
    then show ?thesis using s1(2) c True stored_Cons [of k "[]" buff c] by auto
  next
    case False
    have "TY_EOFCH \<notin> set (take_line n cs)" "line_there n cs" using Suc.prems(2,3) c False by auto
    with False obtain s2 where "runs (ttyread_line m n (k + 1) c (buff(k := c))) s1
        (int (k + 1 + length (take_line n cs)), stored (k + 1) (take_line n cs) (buff(k := c))) s2"
      "line_rep m s2 (a\<lparr>lready := drop (length (take_line n cs)) cs\<rparr>)"
      using Suc.IH [OF s1(2), of c "k + 1" "buff(k := c)"] by (simp del: fun_upd_apply) blast
    then show ?thesis
      using runs_bind [OF s1(1), of "\<lambda>c. ttyread_line m n (k + 1) (word_of_int c) (buff(k := word_of_int c))"] Suc.prems(4,5) c False
      by auto
  qed
qed

lemma ttyread_rep:
  assumes "line_rep m s a" and "lready a = c # cs" "c \<noteq> 0xFE" and "line_there (Suc (n - 1)) (lready a)"
    and "TY_EOFCH \<notin> set (take_line (Suc (n - 1)) (lready a))"
  defines "l \<equiv> take_line (Suc (n - 1)) (lready a)"
  shows "\<exists>s'. runs (ttyread m buff (int n)) s (int (length l), stored 0 l buff) s' \<and> line_rep m s' (a\<lparr>lready := drop (length l) (lready a)\<rparr>)"
proof -
  have l: "l = c # (if c = TY_NEWLINE \<or> c = TY_RETURN then [] else take_line (n - 1) cs)" by (simp add: l_def assms(2))
  have eof: "sint c \<noteq> EOF"
  proof
    assume "sint c = EOF"
    then have "sint c = sint (0xFE :: u8)" by simp
    then show False using assms(3) signed_word_eqI by blast
  qed
  obtain s1 where s1: "runs (ttygetc m) s (sint c) s1" "line_rep m s1 (a\<lparr>lready := cs\<rparr>)"
    using ttygetc_rep [OF assms(1,2)] assms(2,5) by auto
  have "\<exists>s'. runs (ttyread_line m (n - 1) 1 c (buff(0 := c))) s1 (int (length l), stored 0 l buff) s' \<and>
      line_rep m s' (a\<lparr>lready := drop (length l) (lready a)\<rparr>)"
  proof (cases "c = TY_NEWLINE \<or> c = TY_RETURN")
    case True
    then have "runs (ttyread_line m (n - 1) 1 c (buff(0 := c))) s1 (1, buff(0 := c)) s1"
      by (cases "n - 1") (auto intro!: runs_Ret)
    then show ?thesis using True s1(2) assms(2) l stored_Cons [of 0 "[]" buff c] by auto
  next
    case False
    have "TY_EOFCH \<notin> set (take_line (n - 1) cs)" "line_there (n - 1) cs" using assms(2,4,5) False by auto
    with False show ?thesis using ttyread_line_rep [OF s1(2), of "n - 1" c 1 "buff(0 := c)"] assms(2) l
      by (simp del: fun_upd_apply)
  qed
  then obtain s' where s': "runs (ttyread_line m (n - 1) 1 c (buff(0 := c))) s1 (int (length l), stored 0 l buff) s'"
    "line_rep m s' (a\<lparr>lready := drop (length l) (lready a)\<rparr>)" by blast
  have "tyimode (ttytab s m) = TY_IMCOOKED" using assms(1) by (simp add: line_rep_def settings_def Let_def)
  moreover have "nat (int n - 1) = n - 1" by simp
  ultimately have "runs (ttyread m buff (int n)) s (int (length l), stored 0 l buff) s'" unfolding ttyread_def
    using s'(1) s1(1) eof by (simp, intro runs_bind [OF runs_gets]) (simp, rule runs_bind [where r = "sint c" and ?s1.0 = s1], simp_all)
  with s'(2) show ?thesis by blast
qed

text \<open>An end-of-file character at the beginning of the line is the result \<open>EOF\<close>.\<close>

lemma ttyread_eof_rep:
  assumes "line_rep m s a" and "lready a = TY_EOFCH # cs"
  shows "\<exists>s'. runs (ttyread m buff (int n)) s (EOF, buff) s' \<and> line_rep m s' (a\<lparr>lready := cs\<rparr>)"
proof -
  obtain s1 where s1: "runs (ttygetc m) s EOF s1" "line_rep m s1 (a\<lparr>lready := cs\<rparr>)" using ttygetc_rep [OF assms] by auto
  have "tyimode (ttytab s m) = TY_IMCOOKED" using assms(1) by (simp add: line_rep_def settings_def Let_def)
  then have "runs (ttyread m buff (int n)) s (EOF, buff) s1" unfolding ttyread_def
    using s1(1) by (simp, intro runs_bind [OF runs_gets]) (simp, rule runs_bind [where r = EOF and ?s1.0 = s1], simp_all add: runs_Ret)
  with s1(2) show ?thesis by blast
qed

subsection \<open>A new terminal\<close>

lemma newsem_loop_range:
  assumes "0 \<le> nextsem s" "nextsem s < NSEM"
  shows "0 \<le> nextsem (snd (newsem_loop k s)) \<and> nextsem (snd (newsem_loop k s)) < NSEM"
  using assms by (induction k arbitrary: s) (simp_all add: Let_def upd_sem_def)

lemma semcreate_range:
  assumes "semcreate count s = (sem, s')" "0 \<le> nextsem s" "nextsem s < NSEM"
  shows "0 \<le> nextsem s'" "nextsem s' < NSEM"
  using newsem_loop_range [OF assms(2,3), of "nat NSEM"] assms
  by (auto simp: semcreate_def newsem_def upd_sem_def split: if_splits prod.splits)

lemma ttyinit_rep:
  assumes n: "0 \<le> nextsem s" "nextsem s < NSEM"
    and x: "0 \<le> x" "x < NSEM" "sstate (semtab s x) = S_FREE" and y: "0 \<le> y" "y < NSEM" "sstate (semtab s y) = S_FREE" "x \<noteq> y"
    and q: "quiet s"
  shows "\<exists>s'. runs (ttyinit m) s OK s' \<and>
    line_rep m s' \<lparr>lready = [], ltyped = [], lecho = [], lout = [], lheld = False, larrived = u_arrived (uart s), lsent = u_sent (uart s)\<rparr>"
proof -
  let ?s1 = "upd_tty m (\<lambda>t. t\<lparr>tyihead := 0, tyitail := 0\<rparr>) s"
  have n1: "nextsem ?s1 = nextsem s" "currpid ?s1 = currpid s" by (simp_all add: upd_tty_def)
  obtain i k where i: "semcreate 0 ?s1 = (i, upd_sem i (\<lambda>e. e\<lparr>sstate := S_USED, scount := 0\<rparr>) (?s1\<lparr>nextsem := k\<rparr>))"
    "0 \<le> i" "i < NSEM" by (rule semcreate_succeeds [of ?s1 x 0]) (use n n1 x in auto)
  let ?s2 = "upd_sem i (\<lambda>e. e\<lparr>sstate := S_USED, scount := 0\<rparr>) (?s1\<lparr>nextsem := k\<rparr>)"
  define s3 where "s3 = upd_tty m (\<lambda>t. t\<lparr>tyisem := i, tyohead := 0, tyotail := 0\<rparr>) ?s2"
  have k: "0 \<le> nextsem s3" "nextsem s3 < NSEM"
    using semcreate_range [OF i(1)] n n1 by (simp_all add: s3_def upd_tty_def)
  define z where "z = (if i = x then y else x)"
  have z: "0 \<le> z" "z < NSEM" "sstate (semtab s3 z) = S_FREE" using x y by (auto simp: z_def s3_def upd_sem_def)
  obtain j l where j: "semcreate TY_OBUFLEN s3 = (j, upd_sem j (\<lambda>e. e\<lparr>sstate := S_USED, scount := TY_OBUFLEN\<rparr>) (s3\<lparr>nextsem := l\<rparr>))"
    "sstate (semtab s3 j) = S_FREE" "0 \<le> j" "j < NSEM" by (rule semcreate_succeeds [OF k z, of TY_OBUFLEN]) auto
  let ?s4 = "upd_sem j (\<lambda>e. e\<lparr>sstate := S_USED, scount := TY_OBUFLEN\<rparr>) (s3\<lparr>nextsem := l\<rparr>)"
  have ij: "i \<noteq> j" using j(2) by (auto simp: s3_def)
  let ?g = "\<lambda>t. t\<lparr>tyosem := j, tyehead := 0, tyetail := 0, tyimode := TY_IMCOOKED, tyiecho := True,
       tyieback := True, tyevis := True, tyecrlf := True, tyicrlf := True, tyierase := True, tyierasec := TY_BACKSP,
       tyeof := True, tyeofch := TY_EOFCH, tyikill := True, tyikillc := TY_KILLCH, tyicursor := 0, tyoflow := True,
       tyoheld := False, tyostop := TY_STOPCH, tyostart := TY_STRTCH, tyocrlf := True, tyifullc := TY_BELL\<rparr>"
  define s5 where "s5 = upd_tty m ?g ?s4"
  have r: "runs (pmodify (upd_tty m g)) t () (upd_tty m g t)" for g and t :: "'a ttystate_t_scheme" by (rule runs_modify) simp
  have r3: "runs (pmodify (upd_tty m (\<lambda>t. t\<lparr>tyisem := i, tyohead := 0, tyotail := 0\<rparr>))) ?s2 () s3" unfolding s3_def by (rule r)
  have r5: "runs (pmodify (upd_tty m ?g)) ?s4 () s5" unfolding s5_def by (rule r)
  have c1: "runs (plift (semcreate 0)) ?s1 i ?s2" by (rule runs_lift, rule i(1)) (simp add: upd_sem_def)
  have c2: "runs (plift (semcreate TY_OBUFLEN)) s3 j ?s4" by (rule runs_lift, rule j(1)) (simp add: upd_sem_def)
  have c3: "runs (pmodify ttykickout) s5 () (ttykickout s5)" by (rule runs_modify) simp
  have "runs (ttyinit m) s OK (ttykickout s5)" unfolding ttyinit_def
    by (rule runs_bind, rule r, rule runs_bind, rule c1, rule runs_bind, rule r3, rule runs_bind, rule c2, rule runs_bind, rule r5,
        rule runs_bind, rule c3, rule runs_Ret)
  moreover have "quiet ?s4 = quiet s" by (simp add: s3_def quiet_def upd_tty_def upd_sem_def)
  moreover have "line_rep m (ttykickout s5) \<lparr>lready = [], ltyped = [], lecho = [], lout = [], lheld = False,
      larrived = u_arrived (uart s), lsent = u_sent (uart s)\<rparr>"
    using i j ij q calculation(2) by (simp add: s5_def s3_def line_rep_def Let_def settings_def sem_at_def ring_empty)
  ultimately show ?thesis by blast
qed

end
