(* ===== verification/Simulation.thy ===== *)
theory Simulation
  imports Main
begin

section \<open>Operations that implement a specification\<close>

text \<open>
  \<open>exec p s\<close> performs the operation \<open>p\<close> of the model, \<open>None\<close> when it blocks or does not return; \<open>spec p a\<close> is what
  it means on abstract states, as far as \<open>fits p a\<close> holds. When every operation keeps the relation
  \<open>rep\<close> and gives the result of the specification, so does every sequence of operations.
\<close>

fun execs :: "('o \<Rightarrow> 's \<Rightarrow> ('r \<times> 's) option) \<Rightarrow> 'o list \<Rightarrow> 's \<Rightarrow> ('r list \<times> 's) option" where
  "execs exec [] s = Some ([], s)"
| "execs exec (p # ps) s = (case exec p s of None \<Rightarrow> None
     | Some (r, s') \<Rightarrow> (case execs exec ps s' of None \<Rightarrow> None | Some (rs, s'') \<Rightarrow> Some (r # rs, s'')))"

fun specs :: "('o \<Rightarrow> 'a \<Rightarrow> 'r \<times> 'a) \<Rightarrow> 'o list \<Rightarrow> 'a \<Rightarrow> 'r list \<times> 'a" where
  "specs spec [] a = ([], a)"
| "specs spec (p # ps) a = (let (r, b) = spec p a; (rs, c) = specs spec ps b in (r # rs, c))"

fun fits_all :: "('o \<Rightarrow> 'a \<Rightarrow> 'r \<times> 'a) \<Rightarrow> ('o \<Rightarrow> 'a \<Rightarrow> bool) \<Rightarrow> 'o list \<Rightarrow> 'a \<Rightarrow> bool" where
  "fits_all spec fits [] a \<longleftrightarrow> True"
| "fits_all spec fits (p # ps) a \<longleftrightarrow> fits p a \<and> fits_all spec fits ps (snd (spec p a))"

locale simulation =
  fixes exec :: "'o \<Rightarrow> 's \<Rightarrow> ('r \<times> 's) option"
    and spec :: "'o \<Rightarrow> 'a \<Rightarrow> 'r \<times> 'a"
    and fits :: "'o \<Rightarrow> 'a \<Rightarrow> bool"
    and rep :: "'s \<Rightarrow> 'a \<Rightarrow> bool"
  assumes exec_spec: "rep s a \<Longrightarrow> fits p a \<Longrightarrow> \<exists>s'. exec p s = Some (fst (spec p a), s') \<and> rep s' (snd (spec p a))"
begin

lemma execs_specs:
  assumes "rep s a" and "fits_all spec fits ps a"
  shows "\<exists>s'. execs exec ps s = Some (fst (specs spec ps a), s') \<and> rep s' (snd (specs spec ps a))"
  using assms
proof (induction ps arbitrary: s a)
  case Nil
  then show ?case by simp
next
  case (Cons p ps)
  obtain r b where b: "spec p a = (r, b)" by (cases "spec p a")
  obtain s1 where s1: "exec p s = Some (r, s1)" "rep s1 b" using exec_spec [OF Cons.prems(1), of p] Cons.prems(2) b by auto
  then show ?case using Cons.IH [OF s1(2)] Cons.prems(2) b by (fastforce split: prod.split)
qed

end

end
