(* ===== verification/Terminal_Properties.thy ===== *)
theory Terminal_Properties
  imports Terminal_Calls Simulation File_Properties
begin

section \<open>Properties of the terminal\<close>

text \<open>
  Interrupts and calls of processes, in any order, do what the lists of characters of \<open>Terminal_Spec\<close> say;
  everything that is written is sent; and the cases in which the driver leaves its buffers.
\<close>

subsection \<open>A terminal\<close>

text \<open>The line 0 of the console with \<open>r\<close> characters that can be read and \<open>k\<close> on the line being typed, all of them
  the letter \<open>a\<close>, the first at \<open>h\<close> in the buffer; the characters \<open>cs\<close> have arrived.\<close>

definition tdemo_cb :: "int \<Rightarrow> nat \<Rightarrow> nat \<Rightarrow> ttycblk" where
  "tdemo_cb h r k = \<lparr>tyihead = h, tyitail = (h + int (r + k)) mod 128, tyibuff = (\<lambda>_. 0x61), tyisem = 4,
     tyohead = 0, tyotail = 0, tyobuff = (\<lambda>_. 0), tyosem = 5, tyehead = 0, tyetail = 0, tyebuff = (\<lambda>_. 0),
     tyimode = TY_IMCOOKED, tyiecho = True, tyieback = True, tyevis = True, tyecrlf = True, tyicrlf = True, tyierase = True,
     tyierasec = TY_BACKSP, tyeof = True, tyeofch = TY_EOFCH, tyikill = True, tyikillc = TY_KILLCH, tyicursor = int k,
     tyoflow = True, tyoheld = False, tyostop = TY_STOPCH, tyostart = TY_STRTCH, tyocrlf = True, tyifullc = TY_BELL\<rparr>"

definition tdemo :: "int \<Rightarrow> nat \<Rightarrow> nat \<Rightarrow> u8 list \<Rightarrow> ttystate_t" where
  "tdemo h r k cs = lfstate_t.extend ((fdemo True fdemo_cb)\<lparr>ndefers := 0, nextsem := 0, semtab := (\<lambda>i. if i = 4 \<or> i = 5
       then \<lparr>sstate = S_USED, scount = if i = 4 then int r else 64, squeue = 0\<rparr>
       else \<lparr>sstate = S_FREE, scount = 0, squeue = 0\<rparr>)\<rparr>)
     (ttystate_t.fields (\<lambda>_. tdemo_cb h r k) \<lparr>u_ier = 0, u_sent = [], u_arrived = cs\<rparr>)"

lemma tdemo_sel [simp]:
  "ttytab (tdemo h r k cs) = (\<lambda>_. tdemo_cb h r k)" "uart (tdemo h r k cs) = \<lparr>u_ier = 0, u_sent = [], u_arrived = cs\<rparr>"
  "ndefers (tdemo h r k cs) = 0" "nextsem (tdemo h r k cs) = 0"
  "semtab (tdemo h r k cs) = (\<lambda>i. if i = 4 \<or> i = 5
       then \<lparr>sstate = S_USED, scount = if i = 4 then int r else 64, squeue = 0\<rparr>
       else \<lparr>sstate = S_FREE, scount = 0, squeue = 0\<rparr>)"
  by (simp_all add: tdemo_def ttystate_t.defs lfstate_t.defs)

definition tdemo_line :: "nat \<Rightarrow> nat \<Rightarrow> u8 list \<Rightarrow> tline" where
  "tdemo_line r k cs = \<lparr>lready = replicate r 0x61, ltyped = replicate k 0x61, lecho = [], lout = [], lheld = False,
     larrived = cs, lsent = []\<rparr>"

lemma ring_replicate: "0 \<le> h \<Longrightarrow> h < n \<Longrightarrow> int k \<le> n \<Longrightarrow> ring n (\<lambda>_. c) h (replicate k c) ((h + int k) mod n)"
  by (simp add: ring_def)

lemma tdemo_rep:
  assumes "0 \<le> h" "h < 128" "r + k \<le> 128"
  shows "line_rep 0 (tdemo h r k cs) (tdemo_line r k cs)"
proof -
  have "ring 128 (\<lambda>_. 0x61) h (replicate r 0x61 @ replicate k 0x61) ((h + (int r + int k)) mod 128)"
    using ring_replicate [where h = h and n = 128 and k = "r + k" and c = "0x61"] assms by (simp add: replicate_add)
  then show ?thesis
    by (simp add: line_rep_def Let_def tdemo_cb_def tdemo_line_def settings_def sem_at_def quiet_def ring_empty)
qed

subsection \<open>Interrupts and calls in any order\<close>

text \<open>Characters arrive and interrupt, the transmitter interrupts, a process writes, a process reads a line or
  at most \<open>n\<close> characters of it.\<close>

datatype tty_op = Arrive "u8 list" | Transmit | Write "u8 list" | Read nat
datatype tty_res = Handled | Wrote int | Got "u8 list"

definition tty_exec :: "tty_op \<Rightarrow> 'a ttystate_t_scheme \<Rightarrow> (tty_res \<times> 'a ttystate_t_scheme) option" where
  "tty_exec p s = (case p of
     Arrive cs \<Rightarrow> map_option (Pair Handled) (ttyhandler 0x04 (upd_uart (\<lambda>u. u\<lparr>u_arrived := u_arrived u @ cs\<rparr>) s))
   | Transmit \<Rightarrow> map_option (Pair Handled) (ttyhandler 0x02 s)
   | Write cs \<Rightarrow> (case run (ttywrite 0 (\<lambda>i. cs ! i) (int (length cs))) s of Some (Inl r, s') \<Rightarrow> Some (Wrote r, s') | _ \<Rightarrow> None)
   | Read n \<Rightarrow> (case run (ttyread 0 (\<lambda>_. 0) (int n)) s of Some (Inl (r, b), s') \<Rightarrow> Some (Got (map b [0..<nat r]), s') | _ \<Rightarrow> None))"

fun tty_spec :: "tty_op \<Rightarrow> tline \<Rightarrow> tty_res \<times> tline" where
  "tty_spec (Arrive cs) a = (Handled, edits cs a)"
| "tty_spec Transmit a = (Handled, transmit a)"
| "tty_spec (Write cs) a = (Wrote OK, a\<lparr>lout := lout a @ concat (map expand cs)\<rparr>)"
| "tty_spec (Read n) a = (let l = take_line (Suc (n - 1)) (lready a) in (Got l, a\<lparr>lready := drop (length l) (lready a)\<rparr>))"

text \<open>A process that writes finds room, one that reads finds a line, or the number of characters that it asks for.\<close>

fun tty_fits :: "tty_op \<Rightarrow> tline \<Rightarrow> bool" where
  "tty_fits (Arrive cs) a \<longleftrightarrow> editables cs a"
| "tty_fits Transmit a \<longleftrightarrow> True"
| "tty_fits (Write cs) a \<longleftrightarrow> length (lout a @ concat (map expand cs)) \<le> 64"
| "tty_fits (Read n) a \<longleftrightarrow> line_there (Suc (n - 1)) (lready a) \<and> hd (lready a) \<noteq> 0xFE \<and>
     TY_EOFCH \<notin> set (take_line (Suc (n - 1)) (lready a))"

definition console_rep :: "'a ttystate_t_scheme \<Rightarrow> tline \<Rightarrow> bool" where
  "console_rep s a \<longleftrightarrow> line_rep 0 s a \<and> larrived a = []"

lemma edits_arrived_keep: "larrived (edits cs a) = larrived a"
proof (induction cs arbitrary: a)
  case (Cons c cs)
  have "larrived (edit c a) = larrived a" by (simp add: edit_def Let_def echoes_def)
  then show ?case using Cons by simp
qed simp

lemma map_stored: "map (stored 0 l b) [0..<length l] = l"
  by (intro nth_equalityI) (simp_all add: stored_def)

lemma tty_exec_spec:
  assumes "console_rep s a" and "tty_fits p a"
  shows "\<exists>s'. tty_exec p s = Some (fst (tty_spec p a), s') \<and> console_rep s' (snd (tty_spec p a))"
proof (cases p)
  case (Arrive cs)
  let ?a = "a\<lparr>larrived := cs\<rparr>"
  have "line_rep 0 (upd_uart (\<lambda>u. u\<lparr>u_arrived := u_arrived u @ cs\<rparr>) s) ?a"
    using assms(1) by (simp add: console_rep_def line_rep_def Let_def sem_at_def)
  then obtain s' where "ttyhandler 0x04 (upd_uart (\<lambda>u. u\<lparr>u_arrived := u_arrived u @ cs\<rparr>) s) = Some s'"
    "line_rep 0 s' ((edits cs a)\<lparr>larrived := []\<rparr>)"
    using handler_in_rep [of _ ?a "0x04"] assms(2) Arrive by auto
  moreover have "(edits cs a)\<lparr>larrived := []\<rparr> = edits cs a"
    using edits_arrived_keep [of cs a] assms(1) by (simp add: console_rep_def)
  ultimately show ?thesis using Arrive edits_arrived_keep [of cs a] assms(1) by (simp add: tty_exec_def console_rep_def)
next
  case Transmit
  then show ?thesis using handle_out_rep [of 0 s a] assms(1)
    by (auto simp: tty_exec_def console_rep_def ttyhandler_def transmit_def Let_def)
next
  case (Write cs)
  then show ?thesis using ttywrite_rep [of 0 s a cs "\<lambda>i. cs ! i"] assms
    by (auto simp: tty_exec_def console_rep_def runs_def)
next
  case (Read n)
  then obtain c cs where "lready a = c # cs" using assms(2) by (cases "lready a") auto
  then show ?thesis using ttyread_rep [of 0 s a c cs n "\<lambda>_. 0"] assms Read
    by (auto simp: tty_exec_def console_rep_def runs_def Let_def map_stored simp del: take_line.simps)
qed

interpretation tty: simulation tty_exec tty_spec tty_fits console_rep
  by unfold_locales (rule tty_exec_spec)

text \<open>C9: interrupts and calls of processes on the console in cooked mode, in any order, implement the lists of
  characters of the specification: typing with erasing, the echo, reading a line or a part of it, writing with
  carriage returns, and sending up to 16 characters per interrupt, the echo first. This holds for any sequence in
  which no line kill and no end-of-file character at the beginning of a line is typed and no call has to wait.\<close>

theorem terminal_ops_refine:
  assumes "console_rep s a" and "fits_all tty_spec tty_fits ps a"
  shows "\<exists>s'. execs tty_exec ps s = Some (fst (specs tty_spec ps a), s') \<and> console_rep s' (snd (specs tty_spec ps a))"
  by (rule tty.execs_specs [OF assms])

text \<open>The user types \<open>lsx\<close>, erases the \<open>x\<close> and types return; a program reads the line and answers \<open>ok\<close>. The input
  buffer wraps around in the middle of the line.\<close>

theorem terminal_ops_refine_witness:
  "\<exists>s'. execs tty_exec [Arrive [0x6C, 0x73, 0x78, 0x08, 0x0D], Transmit, Read 80, Write [0x6F, 0x6B, 0x0A], Transmit] (tdemo 126 0 0 []) =
     Some ([Handled, Handled, Got [0x6C, 0x73, 0x0A], Wrote 1, Handled], s') \<and>
   console_rep s' \<lparr>lready = [], ltyped = [], lecho = [], lout = [], lheld = False, larrived = [],
     lsent = [0x6C, 0x73, 0x78, 0x08, 0x20, 0x08, 0x0D, 0x0A, 0x6F, 0x6B, 0x0D, 0x0A]\<rparr>"
proof -
  have "console_rep (tdemo 126 0 0 []) (tdemo_line 0 0 [])"
    using tdemo_rep [of 126 0 0 "[]"] by (simp add: console_rep_def tdemo_line_def)
  moreover have "fits_all tty_spec tty_fits
      [Arrive [0x6C, 0x73, 0x78, 0x08, 0x0D], Transmit, Read 80, Write [0x6F, 0x6B, 0x0A], Transmit] (tdemo_line 0 0 [])"
    by code_simp
  moreover have "specs tty_spec [Arrive [0x6C, 0x73, 0x78, 0x08, 0x0D], Transmit, Read 80, Write [0x6F, 0x6B, 0x0A], Transmit] (tdemo_line 0 0 []) =
     ([Handled, Handled, Got [0x6C, 0x73, 0x0A], Wrote 1, Handled], \<lparr>lready = [], ltyped = [], lecho = [], lout = [], lheld = False, larrived = [],
     lsent = [0x6C, 0x73, 0x78, 0x08, 0x20, 0x08, 0x0D, 0x0A, 0x6F, 0x6B, 0x0D, 0x0A]\<rparr>)"
    by code_simp
  ultimately show ?thesis using terminal_ops_refine by fastforce
qed

subsection \<open>Everything is sent\<close>

fun send_all :: "int \<Rightarrow> nat \<Rightarrow> 'a ttystate_t_scheme \<Rightarrow> 'a ttystate_t_scheme option" where
  "send_all m 0 s = Some s"
| "send_all m (Suc n) s = Option.bind (ttyhandle_out m s) (send_all m n)"

lemma send_all_rep:
  assumes "line_rep m s a" and "\<not> lheld a"
  shows "\<exists>s'. send_all m n s = Some s' \<and> line_rep m s' (a\<lparr>lsent := lsent a @ take (16 * n) (lecho a @ lout a),
    lecho := drop (16 * n) (lecho a), lout := drop (16 * n - length (lecho a)) (lout a)\<rparr>)"
  using assms
proof (induction n arbitrary: s a)
  case 0
  then show ?case by simp
next
  case (Suc n)
  obtain s1 where s1: "ttyhandle_out m s = Some s1" "line_rep m s1 (transmit a)" using handle_out_rep [OF Suc.prems(1)] by blast
  have t: "transmit a = a\<lparr>lsent := lsent a @ take 16 (lecho a @ lout a), lecho := drop 16 (lecho a),
      lout := drop (16 - length (lecho a)) (lout a)\<rparr>" using Suc.prems(2) by (simp add: transmit_def)
  have "take 16 (lecho a @ lout a) @ take (16 * n) (drop 16 (lecho a) @ drop (16 - length (lecho a)) (lout a)) =
      take (16 * Suc n) (lecho a @ lout a)"
    using take_add [of 16 "16 * n" "lecho a @ lout a"] by simp
  moreover have "16 * n - length (drop 16 (lecho a)) + (16 - length (lecho a)) = 16 * Suc n - length (lecho a)" by simp
  ultimately show ?case using Suc.IH [OF s1(2)] s1(1) Suc.prems(2) unfolding t by (simp add: add.commute)
qed

text \<open>C34: everything that a process writes is sent, in order, with a carriage return before every newline: when the
  write has returned, six interrupts of the transmitter empty the queues, the echo and what was written before first.\<close>

theorem written_text_is_sent:
  assumes "line_rep m s a" and "\<not> lheld a" and "length (lout a @ concat (map expand cs)) \<le> 64"
    and "\<forall>i < length cs. buff i = cs ! i"
  shows "\<exists>s1 s2. runs (ttywrite m buff (int (length cs))) s OK s1 \<and> send_all m 6 s1 = Some s2 \<and>
    line_rep m s2 (a\<lparr>lsent := lsent a @ lecho a @ lout a @ concat (map expand cs), lecho := [], lout := []\<rparr>)"
proof -
  obtain s1 where s1: "runs (ttywrite m buff (int (length cs))) s OK s1" "line_rep m s1 (a\<lparr>lout := lout a @ concat (map expand cs)\<rparr>)"
    using ttywrite_rep [OF assms(1,3,4)] by blast
  have "length (lecho a) < 20" using assms(1) by (simp add: line_rep_def Let_def)
  then show ?thesis using send_all_rep [OF s1(2), of 6] s1(1) assms(2,3) by (auto simp: numeral_eq_Suc simp del: numeral_eq_Suc)
qed

theorem written_text_is_sent_witness:
  "\<exists>s1 s2. runs (ttywrite 0 (\<lambda>i. if i = 0 then 0x68 else 0x0A) 2) (tdemo 0 0 0 []) OK s1 \<and> send_all 0 6 s1 = Some s2 \<and>
    u_sent (uart s2) = [0x68, 0x0D, 0x0A]"
proof -
  have "\<exists>s1 s2. runs (ttywrite 0 (\<lambda>i. if i = 0 then 0x68 else 0x0A) (int (length [0x68, 0x0A :: u8]))) (tdemo 0 0 0 []) OK s1 \<and>
      send_all 0 6 s1 = Some s2 \<and> line_rep 0 s2 ((tdemo_line 0 0 [])\<lparr>lsent := lsent (tdemo_line 0 0 []) @
        lecho (tdemo_line 0 0 []) @ lout (tdemo_line 0 0 []) @ concat (map expand [0x68, 0x0A]), lecho := [], lout := []\<rparr>)"
    by (rule written_text_is_sent [OF tdemo_rep]) (auto simp: tdemo_line_def expand_def less_Suc_eq)
  then show ?thesis by (auto simp: tdemo_line_def expand_def line_rep_def Let_def)
qed

subsection \<open>Initialisation\<close>

text \<open> with two free semaphores \<open>ttyinit\<close> returns \<open>OK\<close> and makes an empty terminal with the settings of cooked mode,
  from which the refinement starts.\<close>

theorem ttyinit_makes_terminal:
  assumes "0 \<le> nextsem s" "nextsem s < NSEM" and "0 \<le> x" "x < NSEM" "sstate (semtab s x) = S_FREE"
    and "0 \<le> y" "y < NSEM" "sstate (semtab s y) = S_FREE" "x \<noteq> y" and "ndefers s = 0"
  shows "\<exists>s'. runs (ttyinit m) s OK s' \<and>
    line_rep m s' \<lparr>lready = [], ltyped = [], lecho = [], lout = [], lheld = False, larrived = u_arrived (uart s), lsent = u_sent (uart s)\<rparr>"
proof -
  have "quiet s" using assms(10) by (simp add: quiet_def)
  then show ?thesis by (rule ttyinit_rep [OF assms(1-9)])
qed

theorem ttyinit_makes_terminal_witness:
  "\<exists>s'. runs (ttyinit 0) (tdemo 7 3 2 []) OK s' \<and> line_rep 0 s' (tdemo_line 0 0 [])"
  using ttyinit_makes_terminal [of "tdemo 7 3 2 []" 0 1 0] by (simp add: tdemo_line_def)

subsection \<open>Where the driver leaves its buffers\<close>

lemma eputc_moves:
  assumes "0 \<le> tyetail (ttytab s m)" "tyetail (ttytab s m) < TY_EBUFLEN"
  obtains b t where "eputc m c s = Some (ttykickout (upd_tty m (\<lambda>e. e\<lparr>tyebuff := b, tyetail := t\<rparr>) s))" "0 \<le> t" "t < TY_EBUFLEN"
  using assms that by (cases "tyetail (ttytab s m) + 1 \<ge> 20") (simp_all add: eputc_def Let_def upd_tty_def)

lemma eputc_keeps:
  assumes "eputc m c s = Some s'"
  shows "tyitail (ttytab s' m) = tyitail (ttytab s m) \<and> proctab s' = proctab s \<and> semtab s' = semtab s \<and> queuetab s' = queuetab s"
  using assms by (auto simp: eputc_def Let_def upd_tty_def upd_uart_def ttykickout_def split: if_splits)

lemma echoch_keeps:
  assumes "echoch c m s = Some s'"
  shows "tyitail (ttytab s' m) = tyitail (ttytab s m) \<and> proctab s' = proctab s \<and> semtab s' = semtab s \<and> queuetab s' = queuetab s"
  using assms by (auto simp: echoch_def Let_def dest!: eputc_keeps split: if_splits bind_splits)

text \<open>An ordinary character in cooked mode.\<close>

definition ordinary :: "u8 \<Rightarrow> bool" where
  "ordinary c \<longleftrightarrow> c \<notin> {TY_RETURN, TY_NEWLINE, TY_BACKSP, TY_KILLCH, TY_STRTCH, TY_STOPCH, TY_EOFCH}"

lemma ordinary_outside:
  assumes "settings (ttytab s m)" and "u_arrived (uart s) = c # cs" and "ordinary c" and "tyicursor (ttytab s m) = 0"
    and "available m s < 127" and "tyitail (ttytab s m) < 0 \<or> TY_IBUFLEN \<le> tyitail (ttytab s m)"
  shows "ttyhandle_in m s = None"
proof -
  let ?s = "upd_tty m (\<lambda>t. t\<lparr>tyoheld := False\<rparr>) (upd_uart (\<lambda>u. u\<lparr>u_arrived := cs\<rparr>) s)"
  have "ttyhandle_in m s = in_cooked m c ?s"
    using assms(1-3) by (auto simp: ttyhandle_in_def uart_recv_def settings_def ordinary_def Let_def)
  moreover have "in_cooked m c ?s = do {
      s \<leftarrow> echoch c m ?s;
      s \<leftarrow> put_in m c (upd_tty m (\<lambda>t. t\<lparr>tyicursor := tyicursor t + 1\<rparr>) s);
      Some (wrap_in m s) }"
  proof -
    have "available m ?s = available m s" by (simp add: available_def semcount_def)
    then show ?thesis using assms(1,3-5) by (simp add: in_cooked_def settings_def ordinary_def Let_def)
  qed
  moreover have "put_in m c (upd_tty m (\<lambda>t. t\<lparr>tyicursor := tyicursor t + 1\<rparr>) s1) = None" if "echoch c m ?s = Some s1" for s1
    using echoch_keeps [OF that] assms(6) by (auto simp: put_in_def Let_def)
  ultimately show ?thesis by (cases "echoch c m ?s") simp_all
qed

text \<open>C37: a line kill when the line being typed goes around the end of the input buffer moves \<open>tyitail\<close> in front of the
  buffer, and instead of bringing it back it moves \<open>tyihead\<close> behind the buffer; the next character that is
  typed is stored outside.\<close>

theorem kill_leaves_the_buffer:
  assumes "line_rep m s a" and "tyitail (ttytab s m) < int (length (ltyped a))" and "length (lready a) < 127"
    and "larrived a = TY_KILLCH # c # cs" and "ordinary c"
  shows "\<exists>s1. ttyhandle_in m s = Some s1 \<and> tyitail (ttytab s1 m) = tyitail (ttytab s m) - int (length (ltyped a)) \<and>
    TY_IBUFLEN \<le> tyihead (ttytab s1 m) \<and> ttyhandle_in m s1 = None"
proof -
  let ?t = "ttytab s m" and ?k = "int (length (ltyped a))"
  note r = assms(1) [unfolded line_rep_def Let_def]
  define s0 where "s0 = upd_tty m (\<lambda>t. t\<lparr>tyoheld := False, tyitail := tyitail t - ?k, tyihead := tyihead t + TY_IBUFLEN, tyicursor := 0\<rparr>)
    (upd_uart (\<lambda>u. u\<lparr>u_arrived := c # cs\<rparr>) s)"
  have h: "0 \<le> tyetail ?t" "tyetail ?t < 20" "0 \<le> tyihead ?t" using r by (simp_all add: ring_def)
  have t0: "tyetail (ttytab s0 m) = tyetail ?t" by (simp add: s0_def)
  obtain b t where e1: "eputc m TY_RETURN s0 = Some (ttykickout (upd_tty m (\<lambda>e. e\<lparr>tyebuff := b, tyetail := t\<rparr>) s0))" (is "_ = Some ?s1")
    and t: "0 \<le> t" "t < 20" by (rule eputc_moves [of s0 m TY_RETURN]) (use h t0 in simp_all)
  obtain b' t' where e2: "eputc m TY_NEWLINE ?s1 = Some (ttykickout (upd_tty m (\<lambda>e. e\<lparr>tyebuff := b', tyetail := t'\<rparr>) ?s1))" (is "_ = Some ?s2")
    by (rule eputc_moves [of ?s1 m TY_NEWLINE]) (use t in simp_all)
  have "ttyhandle_in m s = in_kill m (upd_tty m (\<lambda>t. t\<lparr>tyoheld := False\<rparr>) (upd_uart (\<lambda>u. u\<lparr>u_arrived := c # cs\<rparr>) s))"
    using r assms(4) by (simp add: ttyhandle_in_def uart_recv_def in_cooked_def settings_def Let_def)
  also have "\<dots> = do { s \<leftarrow> eputc m TY_RETURN s0; eputc m TY_NEWLINE s }"
    using r assms(2) by (simp add: s0_def in_kill_def Let_def upd_tty_def upd_uart_def)
  finally have run: "ttyhandle_in m s = Some ?s2" using e1 e2 by simp
  have "available m ?s2 = available m s" by (simp add: s0_def available_def semcount_def)
  then have "ttyhandle_in m ?s2 = None"
    using r assms(2,3,5) available_rep [OF assms(1)] by (intro ordinary_outside) (simp_all add: s0_def settings_def)
  with run h(3) show ?thesis by (intro exI [of _ ?s2]) (simp add: s0_def)
qed

theorem kill_leaves_the_buffer_witness:
  "\<exists>s1. ttyhandle_in 0 (tdemo 126 0 3 [0x15, 0x62]) = Some s1 \<and> tyitail (ttytab s1 0) = - 2 \<and> 128 \<le> tyihead (ttytab s1 0) \<and>
    ttyhandle_in 0 s1 = None"
  using kill_leaves_the_buffer [OF tdemo_rep [of 126 0 3 "[0x15, 0x62]"], of "0x62" "[]"]
  by (simp add: tdemo_line_def tdemo_cb_def ordinary_def)

text \<open>A newline is stored even when 128 characters wait to be read: it overwrites the oldest of them, and the
  semaphore then promises 129 characters in a buffer of 128.\<close>

theorem newline_overruns:
  assumes "line_rep m s a" and "length (lready a) = 128" and "larrived a = TY_NEWLINE # cs"
  shows "\<exists>s'. ttyhandle_in m s = Some s' \<and> semcount (tyisem (ttytab s' m)) s' = 129 \<and>
    tyihead (ttytab s' m) = tyihead (ttytab s m) \<and> tyibuff (ttytab s' m) (tyihead (ttytab s' m)) = TY_NEWLINE"
proof -
  let ?s = "upd_tty m (\<lambda>t. t\<lparr>tyoheld := False\<rparr>) (upd_uart (\<lambda>u. u\<lparr>u_arrived := cs\<rparr>) s)"
  let ?a = "a\<lparr>larrived := cs, lheld := False\<rparr>"
  note r = assms(1) [unfolded line_rep_def Let_def]
  have "line_rep m ?s ?a" using r by (simp add: line_rep_def Let_def settings_def sem_at_def)
  then obtain s1 where e: "echoch TY_NEWLINE m ?s = Some s1" and r1: "line_rep m s1 (echoes (echo_of TY_NEWLINE) ?a)"
    using echoch_rep by blast
  note q = r1 [unfolded line_rep_def Let_def]
  let ?t = "ttytab s1 m"
  have t: "tyitail ?t = tyihead ?t" "0 \<le> tyihead ?t" "tyihead ?t < 128" and z: "ltyped a = []"
    using q assms(2) by (auto simp: ring_def)
  have hd: "tyihead ?t = tyihead (ttytab s m)"
    using t(1) echoch_keeps [OF e] r z assms(2) by (simp add: ring_def)
  define i where "i = (if tyihead ?t + 1 \<ge> 128 then 0 else tyihead ?t + 1)"
  define s2 where "s2 = upd_tty m (\<lambda>e. e\<lparr>tyibuff := (tyibuff e)(tyihead e := TY_NEWLINE), tyitail := i\<rparr>) s1"
  obtain s3 where p: "put_in m TY_NEWLINE s1 = Some s3" "wrap_in m s3 = s2"
    using t by (cases "tyihead ?t + 1 \<ge> 128") (simp_all add: put_in_def wrap_in_def s2_def i_def Let_def upd_tty_def)
  have sem: "sem_at s2 (tyisem ?t) 128" "quiet s2" "tyicursor (ttytab s2 m) = 0"
    using q assms(2) z by (simp_all add: s2_def sem_at_def)
  obtain d where g: "signaln (tyisem ?t) 1 s2 = Some (OK, (upd_sem (tyisem ?t) (\<lambda>e. e\<lparr>scount := scount e + 1\<rparr>) s2)\<lparr>attempt := d\<rparr>)"
    using signaln_free [OF sem(1) _ _ sem(2), of 1] by auto
  have s2: "tyisem (ttytab s2 m) = tyisem ?t" by (simp add: s2_def)
  let ?s4 = "upd_tty m (\<lambda>t. t\<lparr>tyicursor := 0\<rparr>) ((upd_sem (tyisem ?t) (\<lambda>e. e\<lparr>scount := scount e + 1\<rparr>) s2)\<lparr>attempt := d\<rparr>)"
  have "ttyhandle_in m s = in_newline m TY_NEWLINE ?s"
    using r assms(3) by (simp add: ttyhandle_in_def uart_recv_def in_cooked_def settings_def Let_def)
  also have "\<dots> = Some ?s4" using e p g r sem(3) s2 by (simp add: in_newline_def Let_def settings_def)
  finally have run: "ttyhandle_in m s = Some ?s4" .
  have "sem_at ?s4 (tyisem ?t) 129" using sem(1) by (simp add: sem_at_def)
  then have "semcount (tyisem ?t) ?s4 = 129" by (rule semcount_at)
  then show ?thesis using run hd by (intro exI [of _ ?s4]) (simp add: s2_def)
qed

theorem newline_overruns_witness:
  "\<exists>s'. ttyhandle_in 0 (tdemo 5 128 0 [0x0A]) = Some s' \<and> semcount (tyisem (ttytab s' 0)) s' = 129 \<and>
    tyihead (ttytab s' 0) = 5 \<and> tyibuff (ttytab s' 0) (tyihead (ttytab s' 0)) = 0x0A"
proof -
  have "tyihead (ttytab (tdemo 5 128 0 [0x0A]) 0) = 5" by (simp add: tdemo_cb_def)
  then show ?thesis using newline_overruns [OF tdemo_rep [of 5 128 0 "[0x0A]"], of "[]"] by (simp add: tdemo_line_def)
qed

text \<open>An end-of-file character stored in the last place of the buffer leaves \<open>tyitail\<close> behind the buffer, and the next
  character is stored there.\<close>

theorem eof_leaves_the_buffer:
  assumes "line_rep m s a" and "ltyped a = []" and "tyitail (ttytab s m) = 127" and "length (lready a) < 126"
    and "larrived a = TY_EOFCH # c # cs" and "ordinary c"
  shows "\<exists>s1. ttyhandle_in m s = Some s1 \<and> tyitail (ttytab s1 m) = TY_IBUFLEN \<and> ttyhandle_in m s1 = None"
proof -
  let ?s = "upd_tty m (\<lambda>t. t\<lparr>tyoheld := False\<rparr>) (upd_uart (\<lambda>u. u\<lparr>u_arrived := c # cs\<rparr>) s)"
  let ?a = "a\<lparr>larrived := c # cs, lheld := False\<rparr>"
  note r = assms(1) [unfolded line_rep_def Let_def]
  have rep: "line_rep m ?s ?a" using r by (simp add: line_rep_def Let_def settings_def sem_at_def)
  then obtain s1 where e: "echoch TY_EOFCH m ?s = Some s1" and r1: "line_rep m s1 (echoes (echo_of TY_EOFCH) ?a)"
    using echoch_rep by blast
  note q = r1 [unfolded line_rep_def Let_def]
  let ?sem = "tyisem (ttytab s1 m)"
  have t: "tyitail (ttytab s1 m) = 127" using echoch_keeps [OF e] assms(3) by simp
  define s2 where "s2 = upd_tty m (\<lambda>e. e\<lparr>tyibuff := (tyibuff e)(127 := TY_EOFCH), tyitail := 128\<rparr>) s1"
  have p: "put_in m TY_EOFCH s1 = Some s2" using t by (simp add: put_in_def s2_def Let_def upd_tty_def)
  have g: "signal (tyisem (ttytab s2 m)) s2 = Some (OK, unlock ?sem s2)"
    using q by (simp add: signal_def s2_def sem_at_def isbadsem_def Let_def)
  have av: "available m ?s = int (length (lready a))" using available_rep [OF rep] by simp
  have "ttyhandle_in m s = in_cooked m TY_EOFCH ?s"
    using r assms(5) by (simp add: ttyhandle_in_def uart_recv_def settings_def Let_def)
  also have "\<dots> = Some (unlock ?sem s2)"
    using r q e p g av assms(2,4) by (simp add: in_cooked_def Let_def settings_def)
  finally have run: "ttyhandle_in m s = Some (unlock ?sem s2)" .
  have "sem_at (unlock ?sem s2) ?sem (int (length (lready a)) + 1)" using q by (simp add: s2_def sem_at_def)
  then have "semcount ?sem (unlock ?sem s2) = int (length (lready a)) + 1" by (rule semcount_at)
  then have "available m (unlock ?sem s2) < 127" using assms(4) by (simp add: available_def s2_def)
  then have "ttyhandle_in m (unlock ?sem s2) = None"
    using q assms(2,6) by (intro ordinary_outside) (simp_all add: s2_def settings_def)
  with run show ?thesis by (intro exI [of _ "unlock ?sem s2"]) (simp add: s2_def)
qed

text \<open>In cbreak mode a character that arrives never signals the semaphore: no reader is made ready.\<close>

theorem cbreak_wakes_nobody:
  assumes "ttyhandle_in m s = Some s'" and "tyimode (ttytab s m) = TY_IMCBREAK"
  shows "semtab s' = semtab s" and "proctab s' = proctab s" and "queuetab s' = queuetab s"
  using assms
  by (auto simp: ttyhandle_in_def uart_recv_def in_cbreak_def put_in_def wrap_in_def Let_def ttykickout_def upd_tty_def upd_uart_def
      dest!: eputc_keeps echoch_keeps split: list.splits if_splits bind_splits)

text \<open>\<open>TC_NEXTC\<close> is to return the next character without taking it; it returns what is stored where the next
  character will be put.\<close>

theorem nextc_reads_behind_input:
  assumes "line_rep m s a" and "lready a \<noteq> []"
  shows "runs (ttycontrol m TC_NEXTC x y) s (sint (tyibuff (ttytab s m) (tyitail (ttytab s m)))) s"
proof -
  let ?t = "ttytab s m"
  let ?f = "\<lambda>s. let t = ttytab s m in if 0 \<le> tyitail t \<and> tyitail t < TY_IBUFLEN then Some (tyibuff t (tyitail t), s) else None"
  note r = assms(1) [unfolded line_rep_def Let_def]
  have free: "sem_free s (tyisem ?t)" using r assms(2) by (intro sem_at_free [where c = "int (length (lready a))"]) simp_all
  have "0 \<le> tyitail ?t" "tyitail ?t < 128" using r ring_tail by blast+
  then have p: "runs (pcall ?f) (lock (tyisem ?t) s) (tyibuff ?t (tyitail ?t)) (lock (tyisem ?t) s)" by (intro runs_call) (simp_all add: Let_def)
  have g: "runs (pcall (signal (tyisem ?t))) (lock (tyisem ?t) s) OK s"
    using runs_signal [OF free refl] by simp
  show ?thesis unfolding ttycontrol_def
    by (simp, rule runs_bind, rule runs_gets, rule runs_bind, rule runs_wait [OF free], rule runs_bind, rule p, rule runs_bind, rule g,
        rule runs_Ret)
qed

end
