(* ===== verification/Names.thy ===== *)
theory Names
  imports Terminal
begin

section \<open>The name space\<close>

text \<open>
  include/name.h and device/nam: the table of prefixes, \<open>mount\<close>, the substitution of prefixes and the pseudo-device
  that opens a name. A string is the bytes from a pointer on, so \<open>cstr xs\<close> is the constant \<open>xs\<close> with the null bytes
  after it; a buffer is passed by value and handed back. In this configuration there is no remote file system, and
  \<open>RFILESYS\<close> is \<open>SYSERR\<close>.
\<close>

abbreviation (input) NM_PRELEN :: nat where "NM_PRELEN \<equiv> 64"
abbreviation (input) NM_REPLLEN :: nat where "NM_REPLLEN \<equiv> 96"
abbreviation (input) NM_MAXLEN :: nat where "NM_MAXLEN \<equiv> 256"
abbreviation (input) NNAMES :: int where "NNAMES \<equiv> 40"
abbreviation (input) RFILESYS :: int where "RFILESYS \<equiv> SYSERR"

record nmentry =
  nprefix :: "nat \<Rightarrow> u8"
  nreplace :: "nat \<Rightarrow> u8"
  ndevice :: int

record namstate_t = ttystate_t +
  nametab :: "int \<Rightarrow> nmentry"
  nnames :: int

definition cstr :: "u8 list \<Rightarrow> nat \<Rightarrow> u8" where
  "cstr xs i = (if i < length xs then xs ! i else 0)"

fun namlen_loop :: "(nat \<Rightarrow> u8) \<Rightarrow> nat \<Rightarrow> nat \<Rightarrow> int" where
  "namlen_loop name i 0 = SYSERR"
| "namlen_loop name i (Suc k) = (if name i = 0 then int i + 1 else namlen_loop name (i + 1) k)"

definition namlen :: "(nat \<Rightarrow> u8) \<Rightarrow> nat \<Rightarrow> int" where
  "namlen name maxlen = namlen_loop name 0 maxlen"

text \<open>The loops that copy \<open>k\<close> bytes.\<close>

fun copy_bytes :: "nat \<Rightarrow> (nat \<Rightarrow> u8) \<Rightarrow> nat \<Rightarrow> (nat \<Rightarrow> u8) \<Rightarrow> nat \<Rightarrow> nat \<Rightarrow> u8" where
  "copy_bytes 0 src i dst j = dst"
| "copy_bytes (Suc k) src i dst j = copy_bytes k src (i + 1) (dst(j := src i)) (j + 1)"

definition mount :: "(nat \<Rightarrow> u8) \<Rightarrow> (nat \<Rightarrow> u8) \<Rightarrow> int \<Rightarrow> 'a namstate_t_scheme \<Rightarrow> int \<times> 'a namstate_t_scheme" where
  "mount prefix replace device s =
     (let psiz = namlen prefix NM_PRELEN; rsiz = namlen replace NM_REPLLEN in
      if psiz = SYSERR \<or> rsiz = SYSERR \<or> isbaddev device \<or> nnames s \<ge> NNAMES then (SYSERR, s)
      else let e = nametab s (nnames s);
               e = e\<lparr>nprefix := copy_bytes (nat psiz) prefix 0 (nprefix e) 0\<rparr>;
               e = e\<lparr>nreplace := copy_bytes (nat rsiz) replace 0 (nreplace e) 0\<rparr>;
               e = e\<lparr>ndevice := device\<rparr>
           in (OK, s\<lparr>nametab := (nametab s)(nnames s := e), nnames := nnames s + 1\<rparr>))"

fun namcpy :: "(nat \<Rightarrow> u8) \<Rightarrow> (nat \<Rightarrow> u8) \<Rightarrow> nat \<Rightarrow> nat \<Rightarrow> int \<times> (nat \<Rightarrow> u8)" where
  "namcpy newname oldname cnt 0 = (SYSERR, newname)"
| "namcpy newname oldname cnt (Suc k) =
     (let newname = newname(cnt := oldname cnt) in
      if oldname cnt = 0 then (OK, newname) else namcpy newname oldname (cnt + 1) k)"

text \<open>Comparing a prefix with a name: the number of bytes that agree, and whether the prefix is at its end. Reading
  behind the array of the prefix is \<open>None\<close>.\<close>

fun prefix_scan :: "(nat \<Rightarrow> u8) \<Rightarrow> (nat \<Rightarrow> u8) \<Rightarrow> nat \<Rightarrow> nat \<Rightarrow> (nat \<times> bool) option" where
  "prefix_scan pptr optr plen 0 = None"
| "prefix_scan pptr optr plen (Suc k) =
     (if pptr plen = 0 then Some (plen, True)
      else if pptr plen \<noteq> optr plen then Some (plen, False)
      else prefix_scan pptr optr (plen + 1) k)"

text \<open>\<open>olen\<close> is a \<open>char\<close>: the length of the name is cut to a signed byte.\<close>

fun namrepl_loop :: "(int \<Rightarrow> nmentry) \<Rightarrow> (nat \<Rightarrow> u8) \<Rightarrow> (nat \<Rightarrow> u8) \<Rightarrow> int \<Rightarrow> nat \<Rightarrow> (int \<times> (nat \<Rightarrow> u8)) option" where
  "namrepl_loop tab name newname i 0 = Some (SYSERR, newname)"
| "namrepl_loop tab name newname i (Suc k) =
     (case prefix_scan (nprefix (tab i)) name 0 NM_PRELEN of
        None \<Rightarrow> None
      | Some (plen, False) \<Rightarrow> namrepl_loop tab name newname (i + 1) k
      | Some (plen, True) \<Rightarrow>
          let olen = sint (word_of_int (namlen name NM_MAXLEN) :: u8);
              rlen = namlen (nreplace (tab i)) NM_MAXLEN - 1;
              remain = olen - int plen in
          if rlen + remain > int NM_MAXLEN then Some (SYSERR, newname)
          else let newname = copy_bytes (nat rlen) (nreplace (tab i)) 0 newname 0;
                   newname = copy_bytes (nat remain) name plen newname (nat rlen)
               in Some (ndevice (tab i), newname))"

definition namrepl :: "(nat \<Rightarrow> u8) \<Rightarrow> (nat \<Rightarrow> u8) \<Rightarrow> 'a namstate_t_scheme \<Rightarrow> (int \<times> (nat \<Rightarrow> u8)) option" where
  "namrepl name newname s = namrepl_loop (nametab s) name newname 0 (nat (nnames s))"

text \<open>The loop of \<open>nammap\<close>: each round substitutes in the same \<open>tmpname\<close>.\<close>

fun nammap_loop :: "nat \<Rightarrow> (nat \<Rightarrow> u8) \<Rightarrow> (nat \<Rightarrow> u8) \<Rightarrow> int \<Rightarrow> 'a namstate_t_scheme \<Rightarrow> (int \<times> (nat \<Rightarrow> u8)) option" where
  "nammap_loop 0 tmpname newname namdev s = Some (SYSERR, newname)"
| "nammap_loop (Suc k) tmpname newname namdev s = do {
     (newdev, newname) \<leftarrow> namrepl tmpname newname s;
     if newdev \<noteq> namdev then Some (newdev, newname) else nammap_loop k tmpname newname namdev s
   }"

definition nammap :: "(nat \<Rightarrow> u8) \<Rightarrow> (nat \<Rightarrow> u8) \<Rightarrow> int \<Rightarrow> 'a namstate_t_scheme \<Rightarrow> (int \<times> (nat \<Rightarrow> u8)) option" where
  "nammap name newname namdev s =
     (let (r, tmpname) = namcpy (\<lambda>_. 0) name 0 NM_MAXLEN in
      if r = SYSERR then Some (SYSERR, newname) else nammap_loop (nat (nnames s)) tmpname newname namdev s)"

text \<open>The string that a buffer of 256 bytes holds; \<open>None\<close> when it has no null byte.\<close>

fun buf_string :: "(nat \<Rightarrow> u8) \<Rightarrow> nat \<Rightarrow> nat \<Rightarrow> string option" where
  "buf_string b i 0 = None"
| "buf_string b i (Suc k) = (if b i = 0 then Some [] else map_option (Cons (char_of (uint (b i)))) (buf_string b (i + 1) k))"

definition namopen :: "'a namstate_t_scheme devtab_t \<Rightarrow> int \<Rightarrow> (nat \<Rightarrow> u8) \<Rightarrow> string \<Rightarrow> (nat \<Rightarrow> u8) \<Rightarrow>
    ('a namstate_t_scheme, int) prog" where
  "namopen dt num name mode newname =
     pbind (pcall (\<lambda>s. map_option (\<lambda>r. (r, s)) (nammap name newname num s))) (\<lambda>(newdev, newname).
     if newdev = SYSERR then Ret SYSERR
     else case buf_string newname 0 NM_MAXLEN of None \<Rightarrow> panic | Some n \<Rightarrow> open_dev dt newdev n mode)"

subsection \<open>Initialisation\<close>

definition bytes_of :: "string \<Rightarrow> u8 list" where
  "bytes_of = map of_char"

definition lower :: "u8 \<Rightarrow> u8" where
  "lower ch = (if ch \<ge> 0x41 \<and> ch \<le> 0x5A then ch + 0x20 else ch)"

text \<open>Appending the device name, in lower case; \<open>k\<close> bounds \<open>len\<close> by \<open>NM_MAXLEN\<close>.\<close>

fun lower_copy :: "(nat \<Rightarrow> u8) \<Rightarrow> nat \<Rightarrow> (nat \<Rightarrow> u8) \<Rightarrow> nat \<Rightarrow> nat \<Rightarrow> nat \<Rightarrow> nat \<times> (nat \<Rightarrow> u8)" where
  "lower_copy nptr i tmpstr j len 0 = (len + 1, tmpstr)"
| "lower_copy nptr i tmpstr j len (Suc k) =
     (let len = len + 1; ch = lower (nptr i); tmpstr = tmpstr(j := ch) in
      if ch = 0 then (len, tmpstr) else lower_copy nptr (i + 1) tmpstr (j + 1) len k)"

definition naminit_dev :: "'s dentry \<Rightarrow> (nat \<Rightarrow> u8) \<times> 'a namstate_t_scheme \<Rightarrow> (nat \<Rightarrow> u8) \<times> 'a namstate_t_scheme" where
  "naminit_dev dev = (\<lambda>(tmpstr, s).
     let (_, tmpstr) = namcpy tmpstr (cstr (bytes_of ''/dev/'')) 0 6;
         (len, tmpstr) = lower_copy (cstr (bytes_of (dvname dev))) 0 tmpstr 5 5 (NM_MAXLEN - 6) in
     if len > NM_MAXLEN then (tmpstr, s)
     else (tmpstr, snd (mount tmpstr (cstr []) (dvnum dev) s)))"

definition naminit :: "'s devtab_t \<Rightarrow> (nat \<Rightarrow> u8) \<Rightarrow> 'a namstate_t_scheme \<Rightarrow> int \<times> 'a namstate_t_scheme" where
  "naminit dt tmpstr s =
     (let s = s\<lparr>nnames := 0\<rparr>;
          (tmpstr, s) = fold (\<lambda>i. naminit_dev (dt (int i))) [0..<nat NDEVS] (tmpstr, s);
          (_, s) = mount (cstr (bytes_of ''/dev/null'')) (cstr []) NULLDEV s;
          (_, s) = mount (cstr (bytes_of ''/remote/'')) (cstr (bytes_of ''remote:'')) RFILESYS s;
          (_, s) = mount (cstr (bytes_of ''/local/'')) (cstr []) LFILESYS s;
          (_, s) = mount (cstr (bytes_of ''/dev/'')) (cstr []) SYSERR s;
          (_, s) = mount (cstr (bytes_of ''~/'')) (cstr []) LFILESYS s;
          (_, s) = mount (cstr (bytes_of ''/'')) (cstr (bytes_of ''root:'')) RFILESYS s;
          (_, s) = mount (cstr []) (cstr []) LFILESYS s
      in (OK, s))"

subsection \<open>The name space in the switch table\<close>

definition devtab_nam :: "(nat \<Rightarrow> u8) \<Rightarrow> 'a namstate_t_scheme devtab_t \<Rightarrow> 'a namstate_t_scheme devtab_t \<Rightarrow> 'a namstate_t_scheme devtab_t" where
  "devtab_nam stack dt d = d(4 := (d 4)\<lparr>dvinit := plift (naminit dt stack),
     dvopen := (\<lambda>name mode. namopen dt 4 (cstr (bytes_of name)) mode stack), dvclose := ioerr,
     dvread := (\<lambda>b _. Ret (SYSERR, b)), dvwrite := (\<lambda>_ _. ioerr), dvseek := (\<lambda>_. ioerr), dvgetc := ioerr, dvputc := (\<lambda>_. ioerr),
     dvcntl := (\<lambda>_ _ _. ioerr)\<rparr>)"

end
