(* ===== verification/Name_Properties.thy ===== *)
theory Name_Properties
  imports Names
begin

section \<open>Properties of the name space\<close>

text \<open>
  The table of prefixes as a list of prefix, replacement and device: \<open>mount\<close> appends to it, \<open>naminit\<close> fills it with the
  devices of the switch table, and a name is mapped by the first prefix that matches.
\<close>

subsection \<open>Strings in memory\<close>

text \<open>\<open>has_str b xs\<close>: the bytes from \<open>b\<close> on are the string \<open>xs\<close> and a null byte.\<close>

definition has_str :: "(nat \<Rightarrow> u8) \<Rightarrow> u8 list \<Rightarrow> bool" where
  "has_str b xs \<longleftrightarrow> (\<forall>i < length xs. b i = xs ! i) \<and> b (length xs) = 0 \<and> 0 \<notin> set xs"

lemma has_str_cstr [simp]: "has_str (cstr xs) xs \<longleftrightarrow> 0 \<notin> set xs"
  by (auto simp: has_str_def cstr_def)

lemma has_str_nonzero: "has_str b xs \<Longrightarrow> i < length xs \<Longrightarrow> b i \<noteq> 0"
  by (metis has_str_def nth_mem)

lemma namlen_loop_str:
  assumes "has_str b xs" and "i \<le> length xs"
  shows "namlen_loop b i k = (if length xs < i + k then int (length xs) + 1 else SYSERR)"
  using assms(2)
proof (induction k arbitrary: i)
  case (Suc k)
  then show ?case using has_str_nonzero [OF assms(1), of i] assms(1) by (cases "i = length xs") (auto simp: has_str_def)
qed simp

lemma namlen_str: "has_str b xs \<Longrightarrow> namlen b k = (if length xs < k then int (length xs) + 1 else SYSERR)"
  using namlen_loop_str [of b xs 0 k] by (simp add: namlen_def)

lemma copy_bytes_eq: "copy_bytes k src i dst j = (\<lambda>n. if j \<le> n \<and> n < j + k then src (i + (n - j)) else dst n)"
proof (induction k arbitrary: i dst j)
  case (Suc k)
  have "Suc i + (n - Suc j) = i + (n - j)" if "Suc j \<le> n" for n using that by simp
  then show ?case by (intro ext) (use Suc in \<open>auto simp: not_less le_less_Suc_eq\<close>)
qed (auto intro!: ext)

lemma copy_str: "has_str src xs \<Longrightarrow> has_str (copy_bytes (Suc (length xs)) src 0 dst 0) xs"
  by (auto simp: copy_bytes_eq has_str_def simp del: copy_bytes.simps)

lemma namcpy_str:
  assumes "has_str b xs" and "i \<le> length xs" and "\<forall>j < i. new j = b j"
  shows "length xs < i + k \<Longrightarrow> \<exists>new'. namcpy new b i k = (OK, new') \<and> has_str new' xs"
    and "i + k \<le> length xs \<Longrightarrow> fst (namcpy new b i k) = SYSERR"
proof -
  show "length xs < i + k \<Longrightarrow> \<exists>new'. namcpy new b i k = (OK, new') \<and> has_str new' xs" using assms(2,3)
  proof (induction k arbitrary: i new)
    case (Suc k)
    show ?case
    proof (cases "i = length xs")
      case True
      then show ?thesis using assms(1) Suc.prems(3) by (auto simp: has_str_def Let_def)
    next
      case False
      then have "b i \<noteq> 0" using Suc.prems(2) has_str_nonzero [OF assms(1), of i] by simp
      moreover have "\<forall>j < i + 1. (new(i := b i)) j = b j" using Suc.prems(3) by (auto simp: less_Suc_eq)
      ultimately show ?thesis using Suc.IH [of "i + 1" "new(i := b i)"] Suc.prems(1,2) False by (simp add: Let_def del: fun_upd_apply)
    qed
  qed simp
  show "i + k \<le> length xs \<Longrightarrow> fst (namcpy new b i k) = SYSERR" using assms(2,3)
  proof (induction k arbitrary: i new)
    case (Suc k)
    then have "b i \<noteq> 0" using has_str_nonzero [OF assms(1), of i] by simp
    moreover have "\<forall>j < i + 1. (new(i := b i)) j = b j" using Suc.prems(3) by (auto simp: less_Suc_eq)
    ultimately show ?case using Suc.IH [of "i + 1" "new(i := b i)"] Suc.prems(1,2) by (simp add: Let_def del: fun_upd_apply)
  qed simp
qed

lemma prefix_scan_str:
  assumes "has_str p xs" "has_str b ys" "length xs < n + k" "n \<le> length xs" "take n ys = take n xs" "n \<le> length ys"
  shows "\<exists>m. prefix_scan p b n k = Some (m, take (length xs) ys = xs) \<and> (take (length xs) ys = xs \<longrightarrow> m = length xs)"
  using assms(3-6)
proof (induction k arbitrary: n)
  case (Suc k)
  show ?case
  proof (cases "n = length xs")
    case True
    then show ?thesis using assms(1) Suc.prems by (auto simp: has_str_def)
  next
    case False
    then have p: "p n = xs ! n" "p n \<noteq> 0" using assms(1) has_str_nonzero [OF assms(1), of n] Suc.prems(2) by (auto simp: has_str_def)
    show ?thesis
    proof (cases "n < length ys \<and> ys ! n = xs ! n")
      case True
      then have "b n = p n" using assms(2) p by (simp add: has_str_def)
      moreover have "take (Suc n) ys = take (Suc n) xs" using True False Suc.prems by (simp add: take_Suc_conv_app_nth)
      ultimately show ?thesis using Suc.IH [of "n + 1"] Suc.prems False p True by auto
    next
      case False
      have "b n \<noteq> p n"
      proof (cases "n < length ys")
        case True
        then show ?thesis using False p assms(2) by (simp add: has_str_def)
      next
        case False
        then have "b n = 0" using Suc.prems(4) assms(2) by (simp add: has_str_def)
        then show ?thesis using p by simp
      qed
      moreover have "take (length xs) ys \<noteq> xs"
      proof
        assume e: "take (length xs) ys = xs"
        then have "n < length ys" using Suc.prems \<open>n \<noteq> length xs\<close> by (metis length_take min_less_iff_conj le_neq_implies_less)
        moreover have "ys ! n = xs ! n" using e Suc.prems(2) \<open>n \<noteq> length xs\<close> by (metis le_neq_implies_less nth_take)
        ultimately show False using False by simp
      qed
      ultimately show ?thesis using p by auto
    qed
  qed
qed simp

subsection \<open>The table\<close>

type_synonym names = "(u8 list \<times> u8 list \<times> int) list"

definition entry_ok :: "nmentry \<Rightarrow> u8 list \<times> u8 list \<times> int \<Rightarrow> bool" where
  "entry_ok e x \<longleftrightarrow> (case x of (p, r, d) \<Rightarrow> has_str (nprefix e) p \<and> has_str (nreplace e) r \<and> ndevice e = d \<and>
     length p < 64 \<and> length r < 96)"

definition names_rep :: "'a namstate_t_scheme \<Rightarrow> names \<Rightarrow> bool" where
  "names_rep s T \<longleftrightarrow> nnames s = int (length T) \<and> (\<forall>i < length T. entry_ok (nametab s (int i)) (T ! i))"

lemma mount_rep:
  assumes "names_rep s T" and "has_str prefix p" "has_str replace r"
  shows "if length p < 64 \<and> length r < 96 \<and> \<not> isbaddev d \<and> length T < 40
    then \<exists>s'. mount prefix replace d s = (OK, s') \<and> names_rep s' (T @ [(p, r, d)]) else mount prefix replace d s = (SYSERR, s)"
proof (cases "length p < 64 \<and> length r < 96 \<and> \<not> isbaddev d \<and> length T < 40")
  case True
  let ?e = "nametab s (nnames s)"
  let ?e' = "?e\<lparr>nprefix := copy_bytes (Suc (length p)) prefix 0 (nprefix ?e) 0,
    nreplace := copy_bytes (Suc (length r)) replace 0 (nreplace ?e) 0, ndevice := d\<rparr>"
  let ?s = "s\<lparr>nametab := (nametab s)(nnames s := ?e'), nnames := nnames s + 1\<rparr>"
  have n: "nnames s = int (length T)" using assms(1) by (simp add: names_rep_def)
  have "nat (int (length xs) + 1) = Suc (length xs)" for xs :: "u8 list" by simp
  then have "mount prefix replace d s = (OK, ?s)"
    using True namlen_str [OF assms(2), of 64] namlen_str [OF assms(3), of 96] n
    by (simp add: mount_def Let_def del: copy_bytes.simps)
  moreover have "entry_ok ?e' (p, r, d)"
    using True copy_str [OF assms(2)] copy_str [OF assms(3)] by (simp add: entry_ok_def del: copy_bytes.simps)
  then have "names_rep ?s (T @ [(p, r, d)])"
    using assms(1) n by (auto simp: names_rep_def nth_append less_Suc_eq simp del: copy_bytes.simps)
  ultimately show ?thesis using True by (simp del: copy_bytes.simps)
next
  case False
  then show ?thesis
    using namlen_str [OF assms(2), of 64] namlen_str [OF assms(3), of 96] assms(1) by (auto simp: mount_def Let_def names_rep_def)
qed

subsection \<open>Mapping a name\<close>

definition matches :: "u8 list \<Rightarrow> u8 list \<times> u8 list \<times> int \<Rightarrow> bool" where
  "matches xs x \<longleftrightarrow> take (length (fst x)) xs = fst x"

lemma scan_entry:
  assumes "entry_ok e x" and "has_str b xs"
  shows "\<exists>m. prefix_scan (nprefix e) b 0 64 = Some (m, matches xs x) \<and> (matches xs x \<longrightarrow> m = length (fst x))"
  using assms prefix_scan_str [of "nprefix e" "fst x" b xs 0 64] by (auto simp: entry_ok_def matches_def)

lemma namrepl_none:
  assumes "\<forall>j < k. entry_ok (tab (i + int j)) (T ! (n + j)) \<and> \<not> matches xs (T ! (n + j))" and "has_str b xs"
  shows "namrepl_loop tab b new i k = Some (SYSERR, new)"
  using assms(1)
proof (induction k arbitrary: i n)
  case (Suc k)
  have e: "entry_ok (tab i) (T ! n)" "\<not> matches xs (T ! n)" using Suc.prems [rule_format, of 0] by simp_all
  have "\<forall>j < k. entry_ok (tab (i + 1 + int j)) (T ! (n + 1 + j)) \<and> \<not> matches xs (T ! (n + 1 + j))"
    using Suc.prems by (auto simp: add.assoc dest: spec [of _ "Suc _"])
  from Suc.IH [OF this] show ?case using scan_entry [OF e(1) assms(2)] e(2) by auto
qed simp

lemma namrepl_some:
  assumes "\<forall>j \<le> k. entry_ok (tab (i + int j)) (T ! (n + j))" and "\<forall>j < k. \<not> matches xs (T ! (n + j))"
    and "matches xs (T ! (n + k))" and "T ! (n + k) = (p, r, d)" and "has_str b xs" and "length xs < 256"
  shows "namrepl_loop tab b new i (Suc k + l) = (let remain = sint (word_of_int (int (length xs) + 1) :: u8) - int (length p) in
    if int (length r) + remain > 256 then Some (SYSERR, new)
    else Some (d, copy_bytes (nat remain) b (length p) (copy_bytes (length r) (nreplace (tab (i + int k))) 0 new 0) (length r)))"
  using assms(1-4)
proof (induction k arbitrary: i n)
  case 0
  have e: "entry_ok (tab i) (p, r, d)" using 0(1) [rule_format, of 0] 0(4) by simp
  have l: "namlen b 256 = int (length xs) + 1" using namlen_str [OF assms(5), of 256] assms(6) by simp
  have r: "namlen (nreplace (tab i)) 256 = int (length r) + 1" "ndevice (tab i) = d"
    using e namlen_str [of "nreplace (tab i)" r 256] by (simp_all add: entry_ok_def)
  show ?case using scan_entry [OF e assms(5)] 0(3,4) l r by (auto simp: Let_def simp del: copy_bytes.simps)
next
  case (Suc k)
  have e: "entry_ok (tab i) (T ! n)" "\<not> matches xs (T ! n)"
    using Suc.prems(1) [rule_format, of 0] Suc.prems(2) [rule_format, of 0] by simp_all
  have "\<forall>j \<le> k. entry_ok (tab (i + 1 + int j)) (T ! (n + 1 + j))" "\<forall>j < k. \<not> matches xs (T ! (n + 1 + j))"
    using Suc.prems(1,2) by (auto simp: add.assoc dest: spec [of _ "Suc _"])
  note IH = Suc.IH [OF this]
  have a: "i + 1 + int k = i + int (Suc k)" "n + 1 + k = n + Suc k" by simp_all
  have "namrepl_loop tab b new i (Suc (Suc k) + l) = namrepl_loop tab b new (i + 1) (Suc k + l)"
    using scan_entry [OF e(1) assms(5)] e(2) by auto
  then show ?case using IH Suc.prems(3,4) unfolding a by (simp only:)
qed

text \<open>What the table says about a name.\<close>

definition resolve :: "names \<Rightarrow> u8 list \<Rightarrow> (u8 list \<times> int) option" where
  "resolve T xs = map_option (\<lambda>(p, r, d). (r @ drop (length p) xs, d)) (find (matches xs) T)"

lemma find_first:
  assumes "find P T = Some x"
  obtains k where "k < length T" "T ! k = x" "P x" "\<forall>j < k. \<not> P (T ! j)"
  using assms by (auto simp: find_Some_iff)

lemma sint_byte: "0 \<le> n \<Longrightarrow> n < 128 \<Longrightarrow> sint (word_of_int n :: u8) = n"
  by (simp add: sint_sbintrunc' signed_take_bit_int_eq_self)

lemma sint_byte_neg: "128 \<le> n \<Longrightarrow> n \<le> 256 \<Longrightarrow> sint (word_of_int n :: u8) = n - 256"
proof -
  assume n: "128 \<le> n" "n \<le> 256"
  have "(word_of_int n :: u8) = word_of_int (n - 256)" by simp
  then show ?thesis using n by (simp only: sint_sbintrunc') (simp add: signed_take_bit_int_eq_self)
qed

lemma namrepl_rep:
  assumes "names_rep s T" and "has_str b xs" and "length xs < 127"
  shows "case resolve T xs of None \<Rightarrow> namrepl b new s = Some (SYSERR, new)
    | Some (ys, d) \<Rightarrow> \<exists>new'. namrepl b new s = Some (d, new') \<and> has_str new' ys"
proof (cases "find (matches xs) T")
  case None
  then have "\<forall>j < length T. entry_ok (nametab s (0 + int j)) (T ! (0 + j)) \<and> \<not> matches xs (T ! (0 + j))"
    using assms(1) by (simp add: names_rep_def) (metis find_None_iff nth_mem)
  from namrepl_none [OF this assms(2)] None show ?thesis using assms(1) by (simp add: namrepl_def names_rep_def resolve_def)
next
  case (Some x)
  obtain k where k: "k < length T" "T ! k = x" "matches xs x" "\<forall>j < k. \<not> matches xs (T ! j)" using find_first [OF Some] .
  obtain p r d where x: "x = (p, r, d)" by (cases x)
  have e: "\<forall>j \<le> k. entry_ok (nametab s (int j)) (T ! j)" using assms(1) k(1) by (simp add: names_rep_def)
  have ek: "has_str (nreplace (nametab s (int k))) r" "length r < 96" using e [rule_format, of k] k(2) x by (simp_all add: entry_ok_def)
  have m: "take (length p) xs = p" "length p \<le> length xs"
    using k(3) x by (auto simp: matches_def) (metis length_take min.cobounded1)
  let ?a = "copy_bytes (length r) (nreplace (nametab s (int k))) 0 new 0"
  let ?n = "Suc (length xs) - length p"
  let ?new = "copy_bytes ?n b (length p) ?a (length r)"
  have l: "Suc k + (length T - Suc k) = length T" "nat (nnames s) = length T" using assms(1) k(1) by (simp_all add: names_rep_def)
  have "namrepl b new s = namrepl_loop (nametab s) b new 0 (Suc k + (length T - Suc k))" by (simp only: namrepl_def l)
  also have "\<dots> = (let remain = sint (word_of_int (int (length xs) + 1) :: u8) - int (length p) in
      if int (length r) + remain > 256 then Some (SYSERR, new) else Some (d, copy_bytes (nat remain) b (length p) ?a (length r)))"
    using namrepl_some [of k "nametab s" 0 T 0 xs p r d b new "length T - Suc k", unfolded add_0] e k(2-4) x assms(2,3)
    by (simp del: namrepl_loop.simps)
  also have "\<dots> = Some (d, ?new)"
  proof -
    have s: "sint (word_of_int (int (length xs) + 1) :: u8) = int (Suc (length xs))" using assms(3) by (subst sint_byte) simp_all
    have "nat (int (Suc (length xs)) - int (length p)) = ?n" by simp
    then show ?thesis unfolding s Let_def using ek(2) assms(3) by (simp del: copy_bytes.simps)
  qed
  finally have run: "namrepl b new s = Some (d, ?new)" .
  have "has_str ?new (r @ drop (length p) xs)"
    unfolding has_str_def
  proof (intro conjI allI impI)
    fix i assume i: "i < length (r @ drop (length p) xs)"
    show "?new i = (r @ drop (length p) xs) ! i"
      using i ek assms(2) m(2) by (auto simp: copy_bytes_eq has_str_def nth_append)
  next
    show "?new (length (r @ drop (length p) xs)) = 0"
      using assms(2) m(2) by (auto simp: copy_bytes_eq has_str_def)
    show "0 \<notin> set (r @ drop (length p) xs)" using ek(1) assms(2) by (auto simp: has_str_def dest: in_set_dropD)
  qed
  then show ?thesis using run Some x by (simp add: resolve_def)
qed

lemma nammap_loop_same:
  assumes "\<And>new. \<exists>new'. namrepl tmp new s = Some (namdev, new')"
  shows "\<exists>new'. nammap_loop k tmp new namdev s = Some (SYSERR, new')"
proof (induction k arbitrary: new)
  case (Suc k)
  then show ?case using assms [of new] by auto
qed simp

lemma nammap_start:
  assumes "has_str name xs" and "length xs < 256"
  shows "\<exists>tmp. has_str tmp xs \<and> (\<forall>new. nammap name new namdev s = nammap_loop (nat (nnames s)) tmp new namdev s)"
proof -
  obtain tmp where "namcpy (\<lambda>_. 0) name 0 256 = (OK, tmp)" "has_str tmp xs"
    using namcpy_str(1) [OF assms(1), of 0 "\<lambda>_. 0" 256] assms(2) by auto
  then show ?thesis by (intro exI [of _ tmp]) (simp add: nammap_def Let_def)
qed

lemma resolve_nonempty: "resolve T xs = Some x \<Longrightarrow> T \<noteq> []"
  by (auto simp: resolve_def)

subsection \<open>The table after initialisation\<close>

lemma lower_0: "lower c = 0 \<longleftrightarrow> c = 0"
proof
  assume z: "lower c = 0"
  show "c = 0"
  proof (rule ccontr)
    assume "c \<noteq> 0"
    then have "c + 0x20 = 0" "c \<le> 0x5A" using z by (auto simp: lower_def split: if_splits)
    moreover from this have "c = - 0x20" by (simp add: eq_neg_iff_add_eq_0)
    ultimately show False by simp
  qed
qed (simp add: lower_def)

lemma lower_copy_str:
  assumes "has_str b xs" and "i \<le> length xs" and "length xs - i < k"
  shows "lower_copy b i tmp j len k = (len + (length xs - i) + 1,
    \<lambda>n. if j \<le> n \<and> n \<le> j + (length xs - i) then lower (b (i + (n - j))) else tmp n)"
  using assms(2,3)
proof (induction k arbitrary: i tmp j len)
  case (Suc k)
  show ?case
  proof (cases "i = length xs")
    case True
    then have "lower (b i) = 0" using assms(1) by (simp add: has_str_def lower_0)
    then show ?thesis using True by (auto simp: Let_def)
  next
    case False
    then have b: "lower (b i) \<noteq> 0" using has_str_nonzero [OF assms(1), of i] Suc.prems by (simp add: lower_0)
    have l: "length xs - i = Suc (length xs - (i + 1))" using False Suc.prems by simp
    have "lower_copy b (i + 1) (tmp(j := lower (b i))) (j + 1) (len + 1) k = (len + 1 + (length xs - (i + 1)) + 1,
        \<lambda>n. if j + 1 \<le> n \<and> n \<le> j + 1 + (length xs - (i + 1)) then lower (b (i + 1 + (n - (j + 1)))) else (tmp(j := lower (b i))) n)"
      by (rule Suc.IH) (use False Suc.prems in auto)
    moreover have "i + 1 + (n - (j + 1)) = i + (n - j)" if "j + 1 \<le> n" for n using that by simp
    ultimately show ?thesis using b l by (auto simp: Let_def fun_eq_iff le_less_Suc_eq not_le)
  qed
qed simp

lemma naminit_dev_rep:
  assumes "names_rep s T" and "length T < 40" and "0 \<notin> set (bytes_of (dvname dev))" "length (dvname dev) < 16"
    and "\<not> isbaddev (dvnum dev)"
  shows "\<exists>tmp' s'. naminit_dev dev (tmp, s) = (tmp', s') \<and>
    names_rep s' (T @ [(bytes_of ''/dev/'' @ map lower (bytes_of (dvname dev)), [], dvnum dev)])"
proof -
  let ?p = "bytes_of ''/dev/''" and ?x = "bytes_of (dvname dev)"
  have p: "has_str (cstr ?p) ?p" "length ?p = 5" by (simp_all add: bytes_of_def)
  have x: "has_str (cstr ?x) ?x" "length ?x < 16" using assms(3,4) by (simp_all add: bytes_of_def)
  obtain t1 where t1: "namcpy tmp (cstr ?p) 0 6 = (OK, t1)" "has_str t1 ?p"
    using namcpy_str(1) [OF p(1), of 0 tmp 6] p(2) by auto
  define t2 where "t2 = (\<lambda>n. if 5 \<le> n \<and> n \<le> 5 + length ?x then lower (cstr ?x (n - 5)) else t1 n)"
  have l: "lower_copy (cstr ?x) 0 t1 5 5 250 = (6 + length ?x, t2)"
    using lower_copy_str [OF x(1), of 0 250 t1 5 5, unfolded add_0] x(2) by (simp add: t2_def)
  have str: "has_str t2 (?p @ map lower ?x)"
    unfolding has_str_def
  proof (intro conjI allI impI)
    fix i assume "i < length (?p @ map lower ?x)"
    then show "t2 i = (?p @ map lower ?x) ! i" using t1(2) p(2) by (auto simp: t2_def has_str_def nth_append cstr_def)
  next
    show "t2 (length (?p @ map lower ?x)) = 0" using p(2) by (simp add: t2_def cstr_def lower_def)
    show "0 \<notin> set (?p @ map lower ?x)" using p(1) assms(3) lower_0 by auto
  qed
  obtain s' where "mount t2 (cstr []) (dvnum dev) s = (OK, s')" "names_rep s' (T @ [(?p @ map lower ?x, [], dvnum dev)])"
    using mount_rep [OF assms(1) str, of "cstr []" "[]" "dvnum dev"] p(2) x(2) assms(2,5) by auto
  then show ?thesis using t1(1) l x(2) by (simp add: naminit_dev_def)
qed

definition dev_entry :: "'s dentry \<Rightarrow> u8 list \<times> u8 list \<times> int" where
  "dev_entry dev = (bytes_of ''/dev/'' @ map lower (bytes_of (dvname dev)), [], dvnum dev)"

lemma naminit_devs_rep:
  assumes "names_rep s T" and "length T + length devs \<le> 40"
    and "\<forall>dev \<in> set devs. 0 \<notin> set (bytes_of (dvname dev)) \<and> length (dvname dev) < 16 \<and> \<not> isbaddev (dvnum dev)"
  shows "\<exists>tmp' s'. fold naminit_dev devs (tmp, s) = (tmp', s') \<and> names_rep s' (T @ map dev_entry devs)"
  using assms
proof (induction devs arbitrary: tmp s T)
  case (Cons dev devs)
  obtain t1 s1 where s1: "naminit_dev dev (tmp, s) = (t1, s1)" "names_rep s1 (T @ [dev_entry dev])"
    using naminit_dev_rep [OF Cons.prems(1), of dev tmp] Cons.prems(2,3) by (auto simp: dev_entry_def)
  then show ?case using Cons.IH [OF s1(2), of t1] Cons.prems(2,3) by auto
qed auto

lemma naminit_rep:
  assumes "\<forall>i < 15. 0 \<notin> set (bytes_of (dvname (dt (int i)))) \<and> length (dvname (dt (int i))) < 16 \<and> \<not> isbaddev (dvnum (dt (int i)))"
  shows "\<exists>s'. naminit dt tmp s = (OK, s') \<and> names_rep s' (map (\<lambda>i. dev_entry (dt (int i))) [0..<15] @
    [(bytes_of ''/dev/null'', [], 2), (bytes_of ''/local/'', [], 8), (bytes_of ''~/'', [], 8), ([], [], 8)])"
proof -
  let ?s0 = "s\<lparr>nnames := 0\<rparr>" and ?devs = "map (\<lambda>i. dt (int i)) [0..<15]"
  have "names_rep ?s0 []" by (simp add: names_rep_def)
  moreover have "\<forall>dev \<in> set ?devs. 0 \<notin> set (bytes_of (dvname dev)) \<and> length (dvname dev) < 16 \<and> \<not> isbaddev (dvnum dev)" using assms by auto
  ultimately obtain t1 s1 where "fold naminit_dev ?devs (tmp, ?s0) = (t1, s1)" and r1: "names_rep s1 (map dev_entry ?devs)"
    using naminit_devs_rep [of ?s0 "[]" ?devs tmp] by auto
  then have f: "fold (\<lambda>i. naminit_dev (dt (int i))) [0..<15] (tmp, ?s0) = (t1, s1)" by (simp only: fold_map comp_def)
  define T where "T = map dev_entry ?devs"
  have T: "length T = 15" by (simp add: T_def)
  note r1 = r1 [folded T_def]
  have str: "has_str (cstr (bytes_of x)) (bytes_of x)" if "x \<in> {''/dev/null'', ''/remote/'', ''remote:'', ''/local/'', ''/dev/'', ''~/'', ''/'', ''root:''}" for x
    using that by (auto simp: bytes_of_def)
  have e: "has_str (cstr []) []" by simp
  have len: "length (bytes_of x) = length x" for x by (simp add: bytes_of_def)
  obtain s2 where s2: "mount (cstr (bytes_of ''/dev/null'')) (cstr []) NULLDEV s1 = (OK, s2)" "names_rep s2 (T @ [(bytes_of ''/dev/null'', [], 2)])"
    using mount_rep [OF r1 str e, of "''/dev/null''" NULLDEV] T by (auto simp: isbaddev_def len)
  have refused: "mount p r SYSERR u = (SYSERR, u)" for p r u by (simp add: mount_def isbaddev_def Let_def)
  obtain s4 where s4: "mount (cstr (bytes_of ''/local/'')) (cstr []) LFILESYS s2 = (OK, s4)"
    "names_rep s4 (T @ [(bytes_of ''/dev/null'', [], 2), (bytes_of ''/local/'', [], 8)])"
    using mount_rep [OF s2(2) str e, of "''/local/''" LFILESYS] T by (auto simp: isbaddev_def len)
  obtain s5 where s5: "mount (cstr (bytes_of ''~/'')) (cstr []) LFILESYS s4 = (OK, s5)"
    "names_rep s5 (T @ [(bytes_of ''/dev/null'', [], 2), (bytes_of ''/local/'', [], 8), (bytes_of ''~/'', [], 8)])"
    using mount_rep [OF s4(2) str e, of "''~/''" LFILESYS] T by (auto simp: isbaddev_def len)
  obtain s6 where s6: "mount (cstr []) (cstr []) LFILESYS s5 = (OK, s6)"
    "names_rep s6 (T @ [(bytes_of ''/dev/null'', [], 2), (bytes_of ''/local/'', [], 8), (bytes_of ''~/'', [], 8), ([], [], 8)])"
    using mount_rep [OF s5(2) e e, of LFILESYS] T by (auto simp: isbaddev_def len)
  have "naminit dt tmp s = (OK, s6)" using f s2(1) s4(1) s5(1) s6(1) by (simp add: naminit_def Let_def refused)
  moreover have "T = map (\<lambda>i. dev_entry (dt (int i))) [0..<15]" by (simp add: T_def)
  ultimately show ?thesis using s6(2) by auto
qed

subsection \<open>The devices of the configuration\<close>

definition conf_names :: "string list" where
  "conf_names = [''CONSOLE'', ''QEMUCONSOLE'', ''NULLDEV'', ''ETHER0'', ''NAMESPACE'', ''RDISK'', ''QEMURDISK'', ''RAM0'', ''LFILESYS'',
     ''LFILE0'', ''LFILE1'', ''LFILE2'', ''LFILE3'', ''LFILE4'', ''LFILE5'']"

definition conf_dt :: "namstate_t devtab_t" where
  "conf_dt i = \<lparr>dvnum = i, dvminor = 0, dvname = conf_names ! nat i, dvinit = ionull, dvopen = (\<lambda>_ _. ionull), dvclose = ionull,
     dvread = (\<lambda>b _. Ret (OK, b)), dvwrite = (\<lambda>_ _. ionull), dvseek = (\<lambda>_. ioerr), dvgetc = ionull, dvputc = (\<lambda>_. ionull),
     dvcntl = (\<lambda>_ _ _. ioerr)\<rparr>"

definition conf_table :: names where
  "conf_table = map (\<lambda>(i, n). (bytes_of ''/dev/'' @ map lower (bytes_of n), [], i)) (zip [0..14] conf_names) @
     [(bytes_of ''/dev/null'', [], 2), (bytes_of ''/local/'', [], 8), (bytes_of ''~/'', [], 8), ([], [], 8)]"

lemma conf_ok: "\<forall>i < 15. 0 \<notin> set (bytes_of (dvname (conf_dt (int i)))) \<and> length (dvname (conf_dt (int i))) < 16 \<and> \<not> isbaddev (dvnum (conf_dt (int i)))"
proof -
  have "\<forall>n \<in> set conf_names. 0 \<notin> set (bytes_of n) \<and> length n < 16" by (simp add: conf_names_def bytes_of_def)
  moreover have "length conf_names = 15" by (simp add: conf_names_def)
  ultimately show ?thesis by (simp add: conf_dt_def isbaddev_def)
qed

lemma conf_table_eq: "map (\<lambda>i. dev_entry (conf_dt (int i))) [0..<15] @
    [(bytes_of ''/dev/null'', [], 2), (bytes_of ''/local/'', [], 8), (bytes_of ''~/'', [], 8), ([], [], 8)] = conf_table"
proof -
  have "[0..14] = map int [0..<15]" by (simp add: upto_rec1 upt_rec)
  moreover have "length conf_names = 15" by (simp add: conf_names_def)
  ultimately have "map (\<lambda>i. dev_entry (conf_dt (int i))) [0..<15] = map (\<lambda>(i, n). (bytes_of ''/dev/'' @ map lower (bytes_of n), [], i)) (zip [0..14] conf_names)"
    by (intro nth_equalityI) (simp_all add: dev_entry_def conf_dt_def)
  then show ?thesis by (simp only: conf_table_def)
qed

lemma conf_rep: "names_rep (snd (naminit conf_dt tmp s)) conf_table"
  using naminit_rep [OF conf_ok, of tmp s] unfolding conf_table_eq by auto

subsection \<open>Properties\<close>

text \<open>\<open>naminit\<close> enters every device under its name in lower case below \<open>/dev/\<close>, then \<open>/dev/null\<close>, \<open>/local/\<close>, \<open>~/\<close> and the empty
  prefix for the local file system; the entries for the remote file system and for \<open>/dev/\<close> itself are refused.\<close>

theorem naminit_table:
  assumes "\<forall>i < 15. 0 \<notin> set (bytes_of (dvname (dt (int i)))) \<and> length (dvname (dt (int i))) < 16 \<and> \<not> isbaddev (dvnum (dt (int i)))"
  shows "\<exists>s'. naminit dt tmp s = (OK, s') \<and> names_rep s' (map (\<lambda>i. dev_entry (dt (int i))) [0..<15] @
    [(bytes_of ''/dev/null'', [], 2), (bytes_of ''/local/'', [], 8), (bytes_of ''~/'', [], 8), ([], [], 8)])"
  by (rule naminit_rep [OF assms])

theorem naminit_table_witness: "\<forall>tmp (s :: namstate_t). \<exists>s'. naminit conf_dt tmp s = (OK, s') \<and> names_rep s' conf_table"
  using naminit_table [OF conf_ok] unfolding conf_table_eq by blast

text \<open>C40: a name of at most 126 characters is mapped by the first entry of the table whose prefix it has: the result is
  the device of the entry, and the new name is its replacement and the rest of the name. \<open>SYSERR\<close> is returned
  when no prefix matches and, whatever the replacement, when the entry leads back to the name space.\<close>

theorem nammap_first_match:
  assumes "names_rep s T" and "has_str name xs" and "length xs < 127" and "0 \<le> namdev"
  shows "case resolve T xs of None \<Rightarrow> nammap name new namdev s = Some (SYSERR, new)
    | Some (ys, d) \<Rightarrow> \<exists>new'. nammap name new namdev s = Some (if d = namdev then SYSERR else d, new') \<and> (d \<noteq> namdev \<longrightarrow> has_str new' ys)"
proof -
  have "length xs < 256" using assms(3) by simp
  from nammap_start [OF assms(2) this, of namdev s] obtain tmp where tmp: "has_str tmp xs"
    "\<forall>new. nammap name new namdev s = nammap_loop (nat (nnames s)) tmp new namdev s" by blast
  note R = namrepl_rep [OF assms(1) tmp(1) assms(3)]
  show ?thesis
  proof (cases "resolve T xs")
    case None
    then show ?thesis using R [of new] tmp(2) [rule_format, of new] assms(4) by (cases "nat (nnames s)") simp_all
  next
    case (Some x)
    obtain ys d where x: "x = (ys, d)" by (cases x)
    have "nat (nnames s) \<noteq> 0" using resolve_nonempty [OF Some] assms(1) by (simp add: names_rep_def)
    then obtain k where k: "nat (nnames s) = Suc k" using not0_implies_Suc by blast
    show ?thesis
    proof (cases "d = namdev")
      case True
      then have "\<And>new. \<exists>new'. namrepl tmp new s = Some (namdev, new')" using R Some x by fastforce
      from nammap_loop_same [OF this, of "Suc k" new] show ?thesis using Some x True tmp(2) [rule_format, of new] k by auto
    next
      case False
      then show ?thesis using R [of new] Some x tmp(2) [rule_format, of new] k by auto
    qed
  qed
qed

theorem nammap_first_match_witness:
  "\<forall>tmp (s :: namstate_t) new. \<exists>new'. nammap (cstr (bytes_of ''/local/notes'')) new 4 (snd (naminit conf_dt tmp s)) = Some (8, new') \<and> has_str new' (bytes_of ''notes'')"
proof (intro allI)
  fix tmp new and s :: namstate_t
  have n: "has_str (cstr (bytes_of ''/local/notes'')) (bytes_of ''/local/notes'')" by (simp add: bytes_of_def)
  have "resolve conf_table (bytes_of ''/local/notes'') = Some (bytes_of ''notes'', 8)" by code_simp
  then show "\<exists>new'. nammap (cstr (bytes_of ''/local/notes'')) new 4 (snd (naminit conf_dt tmp s)) = Some (8, new') \<and> has_str new' (bytes_of ''notes'')"
    using nammap_first_match [OF conf_rep [of tmp s] n, of 4 new] by (simp add: bytes_of_def)
qed

text \<open>A name of 127 or more characters loses everything behind its prefix: the length is kept in a signed byte and
  becomes negative, only the replacement is copied, and no null byte follows it.\<close>

theorem nammap_long_name:
  assumes "names_rep s T" and "has_str name xs" and "127 \<le> length xs" "length xs < 256"
    and "find (matches xs) T = Some (p, r, d)" and "d \<noteq> namdev"
  shows "\<exists>new'. nammap name new namdev s = Some (d, new') \<and> (\<forall>i < length r. new' i = r ! i) \<and> (\<forall>i \<ge> length r. new' i = new i)"
proof -
  obtain tmp where tmp: "has_str tmp xs" "nammap name new namdev s = nammap_loop (nat (nnames s)) tmp new namdev s"
    using nammap_start [OF assms(2,4), of namdev s] by blast
  obtain k where k: "k < length T" "T ! k = (p, r, d)" "matches xs (p, r, d)" "\<forall>j < k. \<not> matches xs (T ! j)"
    using find_first [OF assms(5)] .
  have e: "\<forall>j \<le> k. entry_ok (nametab s (int j)) (T ! j)" using assms(1) k(1) by (simp add: names_rep_def)
  have ek: "has_str (nreplace (nametab s (int k))) r" "length r < 96" using e [rule_format, of k] k(2) by (simp_all add: entry_ok_def)
  let ?new = "copy_bytes (length r) (nreplace (nametab s (int k))) 0 new 0"
  have l: "Suc k + (length T - Suc k) = length T" "nat (nnames s) = length T" using assms(1) k(1) by (simp_all add: names_rep_def)
  have s: "sint (word_of_int (int (length xs) + 1) :: u8) \<le> 0" using assms(3,4) by (subst sint_byte_neg) simp_all
  have "namrepl tmp new s = namrepl_loop (nametab s) tmp new 0 (Suc k + (length T - Suc k))" by (simp only: namrepl_def l)
  also have "\<dots> = (let remain = sint (word_of_int (int (length xs) + 1) :: u8) - int (length p) in
      if int (length r) + remain > 256 then Some (SYSERR, new) else Some (d, copy_bytes (nat remain) tmp (length p) ?new (length r)))"
    using namrepl_some [of k "nametab s" 0 T 0 xs p r d tmp new "length T - Suc k", unfolded add_0] e k(2-4) tmp(1) assms(4)
    by (simp del: namrepl_loop.simps)
  also have "\<dots> = Some (d, ?new)" using s ek(2) by (simp add: Let_def)
  finally have "namrepl tmp new s = Some (d, ?new)" .
  moreover obtain n where "nat (nnames s) = Suc n" using l(2) k(1) by (cases "length T") auto
  ultimately have "nammap name new namdev s = Some (d, ?new)" using tmp(2) assms(6) by simp
  then show ?thesis using ek(1) by (auto simp: copy_bytes_eq has_str_def)
qed

theorem nammap_long_name_witness:
  "\<forall>tmp (s :: namstate_t) new. \<exists>new'. nammap (cstr (bytes_of ''/local/'' @ replicate 120 0x61)) new 4 (snd (naminit conf_dt tmp s)) =
     Some (8, new') \<and> (\<forall>i. new' i = new i)"
proof (intro allI)
  fix tmp new and s :: namstate_t
  let ?xs = "bytes_of ''/local/'' @ replicate 120 0x61 :: u8 list"
  have n: "has_str (cstr ?xs) ?xs" by (simp add: bytes_of_def)
  have "find (matches ?xs) conf_table = Some (bytes_of ''/local/'', [], 8)" by code_simp
  then show "\<exists>new'. nammap (cstr ?xs) new 4 (snd (naminit conf_dt tmp s)) = Some (8, new') \<and> (\<forall>i. new' i = new i)"
    using nammap_long_name [OF conf_rep [of tmp s] n, where new = new and namdev = 4] by (simp add: bytes_of_def)
qed

end
