(* ===== verification/Qty.thy ===== *)
theory Qty
  imports Names
begin

section \<open>The console of the QEMU build\<close>

text \<open>
  device/qty: the queue of bytes that interrupt handlers and processes share (intq.c), the input buffer (input.c), the
  serial port (serial.c) and the driver (qty.c). A queue is a monitor with one semaphore: whoever finds it empty, or full,
  waits, and whoever adds or removes a byte wakes one process when some wait. The two queues are
  the input buffer and the queue of bytes to be transmitted. Interrupts are off in every call, so the assertions that say
  so hold. The port is its interrupt enable register, the bytes sent and the bytes arrived; waiting for
  the transmitter to be empty (\<open>putc_poll\<close>) takes no step.
\<close>

abbreviation (input) INTQ_BUFSIZE :: int where "INTQ_BUFSIZE \<equiv> 64"
abbreviation (input) IER_RECV :: u8 where "IER_RECV \<equiv> 0x01"
abbreviation (input) IER_XMIT :: u8 where "IER_XMIT \<equiv> 0x02"

datatype intq_id = InputBuffer | Txq
datatype qmode = UNINIT | POLL | QUEUE

record intq =
  qsem :: sid32
  qbuf :: "int \<Rightarrow> u8"
  qhead :: int
  qtail :: int
  qname :: string
  count_getc :: u32
  count_putc :: u32

record serial =
  s_ier :: u8
  s_sent :: "u8 list"
  s_arrived :: "u8 list"

record qtystate_t = namstate_t +
  intqs :: "intq_id \<Rightarrow> intq"
  qtymode :: qmode
  serial :: serial

definition upd_intq :: "intq_id \<Rightarrow> (intq \<Rightarrow> intq) \<Rightarrow> 'a qtystate_t_scheme \<Rightarrow> 'a qtystate_t_scheme" where
  "upd_intq q g s = s\<lparr>intqs := (intqs s)(q := g (intqs s q))\<rparr>"

definition upd_serial :: "(serial \<Rightarrow> serial) \<Rightarrow> 'a qtystate_t_scheme \<Rightarrow> 'a qtystate_t_scheme" where
  "upd_serial g s = s\<lparr>serial := g (serial s)\<rparr>"

subsection \<open>The queue\<close>

definition intq_next :: "int \<Rightarrow> int" where
  "intq_next pos = (pos + 1) mod INTQ_BUFSIZE"

definition intq_init :: "intq_id \<Rightarrow> ('a qtystate_t_scheme, unit) prog" where
  "intq_init q =
     pbind (plift (semcreate 0)) (\<lambda>sem.
     pmodify (upd_intq q (\<lambda>e. e\<lparr>qsem := sem, qhead := 0, qtail := 0, count_getc := 0, count_putc := 0\<rparr>)))"

definition intq_empty :: "intq \<Rightarrow> bool" where
  "intq_empty q \<longleftrightarrow> qhead q = qtail q"

definition intq_full :: "intq \<Rightarrow> bool" where
  "intq_full q \<longleftrightarrow> intq_next (qhead q) = qtail q"

text \<open>The end of both operations: one process that waits is made ready.\<close>

definition intq_wake :: "intq_id \<Rightarrow> ('a qtystate_t_scheme, int) prog" where
  "intq_wake q =
     pbind (pgets (\<lambda>s. (qsem (intqs s q), semcount (qsem (intqs s q)) s))) (\<lambda>(sem, c).
     if c < 0 then pcall (signaln sem 1) else Ret OK)"

definition intq_getc :: "intq_id \<Rightarrow> ('a qtystate_t_scheme, u8) prog" where
  "intq_getc q =
     pbind (pgets (\<lambda>s. intqs s q)) (\<lambda>e.
     pbind (if intq_empty e then pcall (wait (qsem e)) else Ret OK) (\<lambda>_.
     pbind (pgets (\<lambda>s. qbuf (intqs s q) (qtail (intqs s q)))) (\<lambda>byte.
     pbind (pmodify (upd_intq q (\<lambda>e. e\<lparr>qtail := intq_next (qtail e)\<rparr>))) (\<lambda>_.
     pbind (intq_wake q) (\<lambda>_.
     pbind (pmodify (upd_intq q (\<lambda>e. e\<lparr>count_getc := count_getc e + 1\<rparr>))) (\<lambda>_.
     Ret byte))))))"

definition intq_putc :: "intq_id \<Rightarrow> u8 \<Rightarrow> ('a qtystate_t_scheme, unit) prog" where
  "intq_putc q byte =
     pbind (pgets (\<lambda>s. intqs s q)) (\<lambda>e.
     pbind (if intq_full e then pcall (wait (qsem e)) else Ret OK) (\<lambda>_.
     pbind (pmodify (upd_intq q (\<lambda>e. e\<lparr>qbuf := (qbuf e)(qhead e := byte), qhead := intq_next (qhead e)\<rparr>))) (\<lambda>_.
     pbind (intq_wake q) (\<lambda>_.
     pmodify (upd_intq q (\<lambda>e. e\<lparr>count_putc := count_putc e + 1\<rparr>))))))"

subsection \<open>The serial port and the input buffer\<close>

definition serial_putc :: "u8 \<Rightarrow> ('a qtystate_t_scheme, unit) prog" where
  "serial_putc byte = pmodify (upd_serial (\<lambda>p. p\<lparr>s_sent := s_sent p @ [byte]\<rparr>))"

definition write_ier :: "'a qtystate_t_scheme \<Rightarrow> 'a qtystate_t_scheme" where
  "write_ier s =
     (let ier = 0;
          ier = (if \<not> intq_empty (intqs s Txq) then ier OR IER_XMIT else ier);
          ier = (if \<not> intq_full (intqs s InputBuffer) then ier OR IER_RECV else ier)
      in upd_serial (\<lambda>p. p\<lparr>s_ier := ier\<rparr>) s)"

definition serial_notify :: "('a qtystate_t_scheme, unit) prog" where
  "serial_notify = pmodify (\<lambda>s. if qtymode s = QUEUE then write_ier s else s)"

definition input_init :: "('a qtystate_t_scheme, unit) prog" where
  "input_init = pbind (intq_init InputBuffer) (\<lambda>_. pmodify (upd_intq InputBuffer (\<lambda>e. e\<lparr>qname := ''buffer''\<rparr>)))"

definition input_putc :: "u8 \<Rightarrow> ('a qtystate_t_scheme, unit) prog" where
  "input_putc key =
     pbind (pgets (\<lambda>s. intq_full (intqs s InputBuffer))) (\<lambda>full.
     if full then panic else
     pbind (intq_putc InputBuffer key) (\<lambda>_. serial_notify))"

definition input_getc :: "('a qtystate_t_scheme, u8) prog" where
  "input_getc =
     pbind (intq_getc InputBuffer) (\<lambda>key.
     pbind serial_notify (\<lambda>_.
     let key = (if key = 0x0D then 0x0A else key) in
     if key = 0x7F \<or> key = 0x08 then
       pbind (serial_putc 0x08) (\<lambda>_. pbind (serial_putc 0x20) (\<lambda>_. pbind (serial_putc 0x08) (\<lambda>_. Ret key)))
     else pbind (serial_putc key) (\<lambda>_. Ret key)))"

definition serial_init_queue :: "('a qtystate_t_scheme, unit) prog" where
  "serial_init_queue =
     pbind (pgets qtymode) (\<lambda>mode.
     pbind (if mode = UNINIT then
         pbind (pmodify (upd_serial (\<lambda>p. p\<lparr>s_ier := 0\<rparr>))) (\<lambda>_.
         pbind (intq_init Txq) (\<lambda>_.
         pmodify (\<lambda>s. (upd_intq Txq (\<lambda>e. e\<lparr>qname := ''txq''\<rparr>) s)\<lparr>qtymode := POLL\<rparr>)))
       else Ret ()) (\<lambda>_.
     pbind (pgets qtymode) (\<lambda>mode.
     if mode \<noteq> POLL then panic else pmodify (\<lambda>s. write_ier (s\<lparr>qtymode := QUEUE\<rparr>)))))"

text \<open>The loops of the interrupt handler: \<open>n\<close> bounds the bytes that have arrived, or that wait to be sent.\<close>

fun recv_loop :: "nat \<Rightarrow> ('a qtystate_t_scheme, unit) prog" where
  "recv_loop 0 = Ret ()"
| "recv_loop (Suc n) =
     pbind (pgets (\<lambda>s. (intq_full (intqs s InputBuffer), s_arrived (serial s)))) (\<lambda>(full, arrived).
     case arrived of
       [] \<Rightarrow> Ret ()
     | c # cs \<Rightarrow> if full then Ret ()
         else pbind (pmodify (upd_serial (\<lambda>p. p\<lparr>s_arrived := cs\<rparr>))) (\<lambda>_. pbind (input_putc c) (\<lambda>_. recv_loop n)))"

text \<open>Nothing in this build puts a byte into the transmit queue, so the loop ends at its first test; the wait for the
  transmitter between two bytes is not modelled.\<close>

fun xmit_loop :: "nat \<Rightarrow> ('a qtystate_t_scheme, unit) prog" where
  "xmit_loop 0 = Ret ()"
| "xmit_loop (Suc n) =
     pbind (pgets (\<lambda>s. intq_empty (intqs s Txq))) (\<lambda>empty.
     if empty then Ret () else pbind (intq_getc Txq) (\<lambda>c. pbind (serial_putc c) (\<lambda>_. xmit_loop n)))"

definition serial_interrupt :: "('a qtystate_t_scheme, unit) prog" where
  "serial_interrupt =
     pbind (pgets (\<lambda>s. length (s_arrived (serial s)))) (\<lambda>n.
     pbind (recv_loop n) (\<lambda>_.
     pbind (xmit_loop (nat INTQ_BUFSIZE)) (\<lambda>_.
     pmodify write_ier)))"

subsection \<open>The driver\<close>

definition qty_init :: "('a qtystate_t_scheme, int) prog" where
  "qty_init = pbind input_init (\<lambda>_. pbind serial_init_queue (\<lambda>_. Ret OK))"

definition qty_getc :: "('a qtystate_t_scheme, int) prog" where
  "qty_getc = pbind input_getc (\<lambda>c. Ret (uint c))"

definition qty_putc :: "u8 \<Rightarrow> ('a qtystate_t_scheme, int) prog" where
  "qty_putc ch =
     pbind (serial_putc ch) (\<lambda>_.
     pbind (if ch = 0x0A then serial_putc 0x0D else Ret ()) (\<lambda>_.
     Ret OK))"

text \<open>\<open>counter\<close> is unsigned.\<close>

fun qty_read_loop :: "nat \<Rightarrow> u32 \<Rightarrow> nat \<Rightarrow> u8 \<Rightarrow> (nat \<Rightarrow> u8) \<Rightarrow> ('a qtystate_t_scheme, u32 \<times> (nat \<Rightarrow> u8)) prog" where
  "qty_read_loop 0 counter i c buf = panic"
| "qty_read_loop (Suc n) counter i c buf =
     (if counter > 1 \<and> c \<noteq> 0x0A \<and> c \<noteq> 0x0D
      then pbind input_getc (\<lambda>c. qty_read_loop n (counter - 1) (i + 1) c (buf(i := c)))
      else Ret (counter, buf))"

definition qty_read :: "(nat \<Rightarrow> u8) \<Rightarrow> int \<Rightarrow> ('a qtystate_t_scheme, u32 \<times> (nat \<Rightarrow> u8)) prog" where
  "qty_read buffer sz =
     (let counter = word_of_int sz in
      pbind input_getc (\<lambda>c.
      pbind (qty_read_loop (2 ^ 32) (counter - 1) 1 c (buffer(0 := c))) (\<lambda>(counter, buf).
      Ret (word_of_int sz - counter, buf))))"

fun qty_write_loop :: "u8 list \<Rightarrow> ('a qtystate_t_scheme, int) prog" where
  "qty_write_loop [] = Ret OK"
| "qty_write_loop (c # cs) = pbind (qty_putc c) (\<lambda>_. qty_write_loop cs)"

definition qty_write :: "(nat \<Rightarrow> u8) \<Rightarrow> int \<Rightarrow> ('a qtystate_t_scheme, int) prog" where
  "qty_write buff count = qty_write_loop (map buff [0..<nat count])"

definition qty_control :: "int \<Rightarrow> int \<Rightarrow> int \<Rightarrow> ('a qtystate_t_scheme, int) prog" where
  "qty_control func arg1 arg2 = panic"

definition devtab_qty :: "'a qtystate_t_scheme devtab_t \<Rightarrow> 'a qtystate_t_scheme devtab_t" where
  "devtab_qty d = d(QEMUCONSOLE := (d QEMUCONSOLE)\<lparr>dvinit := qty_init, dvopen := (\<lambda>_ _. ionull), dvclose := ionull,
     dvread := (\<lambda>b n. pbind (qty_read (word_byte b) (sint n)) (\<lambda>(r, b). Ret (sint r, bytes_word b))),
     dvwrite := (\<lambda>b n. qty_write (word_byte b) (sint n)), dvseek := (\<lambda>_. ioerr), dvgetc := qty_getc,
     dvputc := (\<lambda>c. qty_putc (of_char c)), dvcntl := qty_control\<rparr>)"

end
