(* ===== verification/Qty_Properties.thy ===== *)
theory Qty_Properties
  imports Qty Terminal_Properties
begin

section \<open>Properties of the console of the QEMU build\<close>

text \<open>
  The console as three lists of bytes: what the input buffer holds, what has arrived and what was sent. The
  circular queue is the same abstraction as for the terminal (\<open>ring\<close>), with room for 63 bytes.
\<close>

subsection \<open>The state\<close>

record qline =
  qinput :: "u8 list"
  qarrived :: "u8 list"
  qsent :: "u8 list"

definition qty_rep :: "'a qtystate_t_scheme \<Rightarrow> qline \<Rightarrow> bool" where
  "qty_rep s a \<longleftrightarrow> (let e = intqs s InputBuffer in ring INTQ_BUFSIZE (qbuf e) (qtail e) (qinput a) (qhead e) \<and>
     length (qinput a) < 64 \<and> sem_at s (qsem e) 0 \<and> intq_empty (intqs s Txq) \<and>
     s_arrived (serial s) = qarrived a \<and> s_sent (serial s) = qsent a)"

lemma upd_intq_sel [simp]:
  "intqs (upd_intq q g s) = (intqs s)(q := g (intqs s q))" "serial (upd_intq q g s) = serial s" "semtab (upd_intq q g s) = semtab s"
  "qtymode (upd_intq q g s) = qtymode s" "currpid (upd_intq q g s) = currpid s"
  by (simp_all add: upd_intq_def)

lemma upd_serial_sel [simp]:
  "intqs (upd_serial g s) = intqs s" "serial (upd_serial g s) = g (serial s)" "semtab (upd_serial g s) = semtab s"
  "qtymode (upd_serial g s) = qtymode s" "currpid (upd_serial g s) = currpid s"
  by (simp_all add: upd_serial_def)

lemma write_ier_sel [simp]:
  "intqs (write_ier s) = intqs s" "s_sent (serial (write_ier s)) = s_sent (serial s)"
  "s_arrived (serial (write_ier s)) = s_arrived (serial s)" "semtab (write_ier s) = semtab s"
  "qtymode (write_ier s) = qtymode s" "currpid (write_ier s) = currpid s"
  by (simp_all add: write_ier_def Let_def)

lemma qty_rep_cong:
  assumes "qty_rep s a" "intqs s' = intqs s" "semtab s' = semtab s" "s_arrived (serial s') = s_arrived (serial s)"
    "s_sent (serial s') = s_sent (serial s)"
  shows "qty_rep s' a"
  using assms by (simp add: qty_rep_def Let_def sem_at_def)

subsection \<open>The queue\<close>

lemma ring_full_iff:
  assumes "ring n b h xs t" and "int (length xs) < n"
  shows "(t + 1) mod n = h \<longleftrightarrow> int (length xs) = n - 1"
proof -
  have h: "0 \<le> h" "h < n" and t: "t = (h + int (length xs)) mod n" using assms(1) by (simp_all add: ring_def)
  have s: "(t + 1) mod n = (h + (int (length xs) + 1)) mod n"
    unfolding t using mod_add_left_eq [of "h + int (length xs)" n 1] by (simp add: add.assoc)
  show ?thesis
  proof (cases "int (length xs) + 1 = n")
    case True
    then show ?thesis unfolding s using h by simp
  next
    case False
    then have "(h + 0) mod n \<noteq> (h + (int (length xs) + 1)) mod n" using assms(2) by (intro mod_offset_inj) simp_all
    then show ?thesis unfolding s using False h by simp
  qed
qed

lemma full_iff: "qty_rep s a \<Longrightarrow> intq_full (intqs s InputBuffer) \<longleftrightarrow> length (qinput a) = 63"
  using ring_full_iff [of 64 "qbuf (intqs s InputBuffer)" "qtail (intqs s InputBuffer)" "qinput a" "qhead (intqs s InputBuffer)"]
  by (auto simp: qty_rep_def Let_def intq_full_def intq_next_def)

lemma empty_iff: "qty_rep s a \<Longrightarrow> intq_empty (intqs s InputBuffer) \<longleftrightarrow> qinput a = []"
  using ring_eq_iff [of 64 "qbuf (intqs s InputBuffer)" "qtail (intqs s InputBuffer)" "qinput a" "qhead (intqs s InputBuffer)"]
  by (auto simp: qty_rep_def Let_def intq_empty_def)

lemma intq_wake_free:
  assumes "sem_at s (qsem (intqs s q)) c" and "0 \<le> c"
  shows "runs (intq_wake q) s OK s"
  unfolding intq_wake_def
  by (rule runs_bind, rule runs_gets) (use assms in \<open>simp add: semcount_at runs_Ret\<close>)

lemma intq_getc_rep:
  assumes "qty_rep s a" and "qinput a = c # cs"
  shows "\<exists>s'. runs (intq_getc InputBuffer) s c s' \<and> qty_rep s' (a\<lparr>qinput := cs\<rparr>)"
proof -
  let ?e = "intqs s InputBuffer"
  define s1 where "s1 = upd_intq InputBuffer (\<lambda>e. e\<lparr>qtail := intq_next (qtail e)\<rparr>) s"
  define s2 where "s2 = upd_intq InputBuffer (\<lambda>e. e\<lparr>count_getc := count_getc e + 1\<rparr>) s1"
  have r: "ring 64 (qbuf ?e) (qtail ?e) (c # cs) (qhead ?e)" using assms by (simp add: qty_rep_def Let_def)
  have t: "(if qtail ?e + 1 \<ge> 64 then 0 else qtail ?e + 1) = intq_next (qtail ?e)"
    unfolding intq_next_def using r by (intro wrap_succ) (simp_all add: ring_def)
  have sem: "sem_at s1 (qsem (intqs s1 InputBuffer)) 0" using assms(1) by (simp add: s1_def qty_rep_def Let_def sem_at_def)
  have m: "runs (pmodify (upd_intq InputBuffer g)) u () (upd_intq InputBuffer g u)" for g and u :: "'a qtystate_t_scheme" by (rule runs_modify) simp
  have g: "runs (pgets (\<lambda>s. qbuf (intqs s InputBuffer) (qtail (intqs s InputBuffer)))) s c s"
    using runs_gets [of "\<lambda>s. qbuf (intqs s InputBuffer) (qtail (intqs s InputBuffer))" s] ring_take(1) [OF r] by simp
  have w: "runs (if intq_empty ?e then pcall (wait (qsem ?e)) else Ret OK) s OK s" using empty_iff [OF assms(1)] assms(2) by (simp add: runs_Ret)
  have m1: "runs (pmodify (upd_intq InputBuffer (\<lambda>e. e\<lparr>qtail := intq_next (qtail e)\<rparr>))) s () s1" unfolding s1_def by (rule m)
  have m2: "runs (pmodify (upd_intq InputBuffer (\<lambda>e. e\<lparr>count_getc := count_getc e + 1\<rparr>))) s1 () s2" unfolding s2_def by (rule m)
  have "runs (intq_getc InputBuffer) s c s2" unfolding intq_getc_def
    by (rule runs_bind, rule runs_gets, rule runs_bind, rule w, rule runs_bind, rule g, rule runs_bind, rule m1,
        rule runs_bind, rule intq_wake_free [OF sem], simp, rule runs_bind, rule m2, rule runs_Ret)
  moreover have "qty_rep s2 (a\<lparr>qinput := cs\<rparr>)"
    using assms ring_take(2) [OF r, unfolded t] by (simp add: s2_def s1_def qty_rep_def Let_def sem_at_def)
  ultimately show ?thesis by blast
qed

lemma intq_putc_rep:
  assumes "qty_rep s a" and "length (qinput a) < 63"
  shows "\<exists>s'. runs (intq_putc InputBuffer c) s () s' \<and> qty_rep s' (a\<lparr>qinput := qinput a @ [c]\<rparr>)"
proof -
  let ?e = "intqs s InputBuffer"
  define s1 where "s1 = upd_intq InputBuffer (\<lambda>e. e\<lparr>qbuf := (qbuf e)(qhead e := c), qhead := intq_next (qhead e)\<rparr>) s"
  define s2 where "s2 = upd_intq InputBuffer (\<lambda>e. e\<lparr>count_putc := count_putc e + 1\<rparr>) s1"
  have r: "ring 64 (qbuf ?e) (qtail ?e) (qinput a) (qhead ?e)" using assms by (simp add: qty_rep_def Let_def)
  have t: "(if qhead ?e + 1 \<ge> 64 then 0 else qhead ?e + 1) = intq_next (qhead ?e)"
    unfolding intq_next_def using ring_tail [OF r] by (intro wrap_succ) simp_all
  have sem: "sem_at s1 (qsem (intqs s1 InputBuffer)) 0" using assms(1) by (simp add: s1_def qty_rep_def Let_def sem_at_def)
  have m: "runs (pmodify (upd_intq InputBuffer g)) u () (upd_intq InputBuffer g u)" for g and u :: "'a qtystate_t_scheme" by (rule runs_modify) simp
  have w: "runs (if intq_full ?e then pcall (wait (qsem ?e)) else Ret OK) s OK s" using full_iff [OF assms(1)] assms(2) by (simp add: runs_Ret)
  have m1: "runs (pmodify (upd_intq InputBuffer (\<lambda>e. e\<lparr>qbuf := (qbuf e)(qhead e := c), qhead := intq_next (qhead e)\<rparr>))) s () s1"
    unfolding s1_def by (rule m)
  have m2: "runs (pmodify (upd_intq InputBuffer (\<lambda>e. e\<lparr>count_putc := count_putc e + 1\<rparr>))) s1 () s2" unfolding s2_def by (rule m)
  have "runs (intq_putc InputBuffer c) s () s2" unfolding intq_putc_def
    by (rule runs_bind, rule runs_gets, rule runs_bind, rule w, rule runs_bind, rule m1,
        rule runs_bind, rule intq_wake_free [OF sem], simp, rule m2)
  moreover have "qty_rep s2 (a\<lparr>qinput := qinput a @ [c]\<rparr>)"
    using assms ring_put [OF r, of c, unfolded t] by (simp add: s2_def s1_def qty_rep_def Let_def sem_at_def)
  ultimately show ?thesis by blast
qed

lemma serial_notify_rep:
  assumes "qty_rep s a"
  shows "\<exists>s'. runs serial_notify s () s' \<and> qty_rep s' a"
proof -
  let ?s = "if qtymode s = QUEUE then write_ier s else s"
  have "runs serial_notify s () ?s" unfolding serial_notify_def by (rule runs_modify) simp
  moreover have "qty_rep ?s a" by (rule qty_rep_cong [OF assms]) simp_all
  ultimately show ?thesis by blast
qed

lemma serial_putc_rep:
  assumes "qty_rep s a"
  shows "\<exists>s'. runs (serial_putc c) s () s' \<and> qty_rep s' (a\<lparr>qsent := qsent a @ [c]\<rparr>)"
proof -
  let ?s = "upd_serial (\<lambda>p. p\<lparr>s_sent := s_sent p @ [c]\<rparr>) s"
  have "runs (serial_putc c) s () ?s" unfolding serial_putc_def by (rule runs_modify) simp
  moreover have "qty_rep ?s (a\<lparr>qsent := qsent a @ [c]\<rparr>)" using assms by (simp add: qty_rep_def Let_def sem_at_def)
  ultimately show ?thesis by blast
qed

lemma input_putc_rep:
  assumes "qty_rep s a" and "length (qinput a) < 63"
  shows "\<exists>s'. runs (input_putc c) s () s' \<and> qty_rep s' (a\<lparr>qinput := qinput a @ [c]\<rparr>)"
proof -
  obtain s1 where s1: "runs (intq_putc InputBuffer c) s () s1" "qty_rep s1 (a\<lparr>qinput := qinput a @ [c]\<rparr>)"
    using intq_putc_rep [OF assms] by blast
  obtain s2 where s2: "runs serial_notify s1 () s2" "qty_rep s2 (a\<lparr>qinput := qinput a @ [c]\<rparr>)"
    using serial_notify_rep [OF s1(2)] by blast
  have "runs (input_putc c) s () s2" unfolding input_putc_def
    by (rule runs_bind, rule runs_gets) (use full_iff [OF assms(1)] assms(2) runs_bind [OF s1(1) s2(1)] in simp)
  with s2(2) show ?thesis by blast
qed

subsection \<open>Reading and the interrupt\<close>

definition nl :: "u8 \<Rightarrow> u8" where
  "nl c = (if c = 0x0D then 0x0A else c)"

definition qecho :: "u8 \<Rightarrow> u8 list" where
  "qecho c = (if c = 0x7F \<or> c = 0x08 then [0x08, 0x20, 0x08] else [c])"

lemma input_getc_rep:
  assumes "qty_rep s a" and "qinput a = c # cs"
  shows "\<exists>s'. runs input_getc s (nl c) s' \<and> qty_rep s' (a\<lparr>qinput := cs, qsent := qsent a @ qecho (nl c)\<rparr>)"
proof -
  let ?a = "a\<lparr>qinput := cs\<rparr>"
  obtain s1 where s1: "runs (intq_getc InputBuffer) s c s1" "qty_rep s1 ?a" using intq_getc_rep [OF assms] by blast
  obtain s2 where s2: "runs serial_notify s1 () s2" "qty_rep s2 ?a" using serial_notify_rep [OF s1(2)] by blast
  have "\<exists>s'. runs (if nl c = 0x7F \<or> nl c = 0x08 then
       pbind (serial_putc 0x08) (\<lambda>_. pbind (serial_putc 0x20) (\<lambda>_. pbind (serial_putc 0x08) (\<lambda>_. Ret (nl c))))
     else pbind (serial_putc (nl c)) (\<lambda>_. Ret (nl c))) s2 (nl c) s' \<and> qty_rep s' (?a\<lparr>qsent := qsent a @ qecho (nl c)\<rparr>)"
  proof (cases "nl c = 0x7F \<or> nl c = 0x08")
    case True
    obtain s3 where s3: "runs (serial_putc 0x08) s2 () s3" "qty_rep s3 (?a\<lparr>qsent := qsent a @ [0x08]\<rparr>)"
      using serial_putc_rep [OF s2(2), of "0x08"] by auto
    obtain s4 where s4: "runs (serial_putc 0x20) s3 () s4" "qty_rep s4 (?a\<lparr>qsent := qsent a @ [0x08, 0x20]\<rparr>)"
      using serial_putc_rep [OF s3(2), of "0x20"] by auto
    obtain s5 where s5: "runs (serial_putc 0x08) s4 () s5" "qty_rep s5 (?a\<lparr>qsent := qsent a @ [0x08, 0x20, 0x08]\<rparr>)"
      using serial_putc_rep [OF s4(2), of "0x08"] by auto
    have "runs (pbind (serial_putc 0x08) (\<lambda>_. pbind (serial_putc 0x20) (\<lambda>_. pbind (serial_putc 0x08) (\<lambda>_. Ret (nl c))))) s2 (nl c) s5"
      by (rule runs_bind, rule s3(1), rule runs_bind, rule s4(1), rule runs_bind, rule s5(1), rule runs_Ret)
    moreover have "qecho (nl c) = [0x08, 0x20, 0x08]" using True by (simp add: qecho_def)
    ultimately show ?thesis using True s5(2) by (simp only: if_True) blast
  next
    case False
    then show ?thesis using serial_putc_rep [OF s2(2), of "nl c"] by (auto simp: qecho_def intro!: runs_bind runs_Ret)
  qed
  then obtain s' where s': "runs (let key = nl c in if key = 0x7F \<or> key = 0x08 then
       pbind (serial_putc 0x08) (\<lambda>_. pbind (serial_putc 0x20) (\<lambda>_. pbind (serial_putc 0x08) (\<lambda>_. Ret key)))
     else pbind (serial_putc key) (\<lambda>_. Ret key)) s2 (nl c) s'" "qty_rep s' (?a\<lparr>qsent := qsent a @ qecho (nl c)\<rparr>)"
    by (auto simp: Let_def)
  have "runs input_getc s (nl c) s'" unfolding input_getc_def
    by (rule runs_bind, rule s1(1), rule runs_bind, rule s2(1)) (use s'(1) in \<open>simp only: nl_def\<close>)
  with s'(2) show ?thesis by auto
qed

lemma recv_loop_rep:
  assumes "qty_rep s a" and "length (qarrived a) \<le> n"
  shows "\<exists>s'. runs (recv_loop n) s () s' \<and>
    qty_rep s' (a\<lparr>qinput := qinput a @ take (63 - length (qinput a)) (qarrived a), qarrived := drop (63 - length (qinput a)) (qarrived a)\<rparr>)"
  using assms
proof (induction n arbitrary: s a)
  case 0
  then have same: "a\<lparr>qinput := qinput a @ take (63 - length (qinput a)) (qarrived a), qarrived := drop (63 - length (qinput a)) (qarrived a)\<rparr> = a"
    by simp
  show ?case unfolding same recv_loop.simps using 0(1) by (blast intro: runs_Ret)
next
  case (Suc n)
  let ?g = "pgets (\<lambda>s. (intq_full (intqs s InputBuffer), s_arrived (serial s)))"
  have ar: "s_arrived (serial s) = qarrived a" and le: "length (qinput a) \<le> 63" using Suc.prems(1) by (auto simp: qty_rep_def Let_def)
  show ?case
  proof (cases "qarrived a = [] \<or> length (qinput a) = 63")
    case True
    have "runs (recv_loop (Suc n)) s () s" unfolding recv_loop.simps
      by (rule runs_bind, rule runs_gets) (use True full_iff [OF Suc.prems(1)] ar in \<open>auto intro!: runs_Ret split: list.split\<close>)
    moreover have "a\<lparr>qinput := qinput a @ take (63 - length (qinput a)) (qarrived a), qarrived := drop (63 - length (qinput a)) (qarrived a)\<rparr> = a"
      using True by auto
    ultimately show ?thesis using Suc.prems(1) by auto
  next
    case False
    then obtain c cs where c: "qarrived a = c # cs" by (cases "qarrived a") auto
    let ?s1 = "upd_serial (\<lambda>p. p\<lparr>s_arrived := cs\<rparr>) s"
    have m: "runs (pmodify (upd_serial (\<lambda>p. p\<lparr>s_arrived := cs\<rparr>))) s () ?s1" by (rule runs_modify) simp
    have "qty_rep ?s1 (a\<lparr>qarrived := cs\<rparr>)" using Suc.prems(1) by (simp add: qty_rep_def Let_def sem_at_def)
    then obtain s2 where s2: "runs (input_putc c) ?s1 () s2" "qty_rep s2 (a\<lparr>qarrived := cs, qinput := qinput a @ [c]\<rparr>)"
      using input_putc_rep [of ?s1 "a\<lparr>qarrived := cs\<rparr>" c] False le by auto
    obtain s3 where s3: "runs (recv_loop n) s2 () s3" "qty_rep s3 (a\<lparr>qinput := (qinput a @ [c]) @ take (62 - length (qinput a)) cs,
        qarrived := drop (62 - length (qinput a)) cs\<rparr>)"
      using Suc.IH [OF s2(2)] Suc.prems(2) c by auto
    have "length (qinput a) < 63" using False le by auto
    then have l: "63 - length (qinput a) = Suc (62 - length (qinput a))" by arith
    have "runs (recv_loop (Suc n)) s () s3" unfolding recv_loop.simps
      by (rule runs_bind, rule runs_gets)
        (use False full_iff [OF Suc.prems(1)] ar c runs_bind [OF m runs_bind [OF s2(1) s3(1)]] in simp)
    then show ?thesis using s3(2) c unfolding l by auto
  qed
qed

lemma serial_interrupt_rep:
  assumes "qty_rep s a"
  shows "\<exists>s'. runs serial_interrupt s () s' \<and>
    qty_rep s' (a\<lparr>qinput := qinput a @ take (63 - length (qinput a)) (qarrived a), qarrived := drop (63 - length (qinput a)) (qarrived a)\<rparr>)"
    (is "\<exists>s'. _ \<and> qty_rep s' ?a")
proof -
  have ar: "s_arrived (serial s) = qarrived a" using assms by (simp add: qty_rep_def Let_def)
  obtain s1 where s1: "runs (recv_loop (length (s_arrived (serial s)))) s () s1" "qty_rep s1 ?a"
    using recv_loop_rep [OF assms, of "length (s_arrived (serial s))"] ar by auto
  have "intq_empty (intqs s1 Txq)" using s1(2) by (simp add: qty_rep_def Let_def)
  then have x: "runs (xmit_loop (Suc 63)) s1 () s1" unfolding xmit_loop.simps
    by (intro runs_bind [OF runs_gets]) (simp add: runs_Ret)
  have n: "nat INTQ_BUFSIZE = Suc 63" by simp
  have w: "runs (pmodify write_ier) s1 () (write_ier s1)" by (rule runs_modify) simp
  have "runs serial_interrupt s () (write_ier s1)" unfolding serial_interrupt_def n
    by (rule runs_bind, rule runs_gets, rule runs_bind, rule s1(1), rule runs_bind, rule x, rule w)
  moreover have "qty_rep (write_ier s1) ?a" by (rule qty_rep_cong [OF s1(2)]) simp_all
  ultimately show ?thesis by blast
qed

text \<open>The line that a read returns: return is read as newline, and the bytes are echoed as they are read.\<close>

definition qline_of :: "nat \<Rightarrow> qline \<Rightarrow> u8 list" where
  "qline_of n a = take_line n (map nl (qinput a))"

definition qread :: "nat \<Rightarrow> qline \<Rightarrow> qline" where
  "qread n a = a\<lparr>qinput := drop (length (qline_of n a)) (qinput a), qsent := qsent a @ concat (map qecho (qline_of n a))\<rparr>"

lemma nl_not_return: "nl c \<noteq> 0x0D"
  by (simp add: nl_def)

lemma qty_read_stop: "0 < n \<Longrightarrow> c = 0x0A \<Longrightarrow> runs (qty_read_loop n counter i c buf) s (counter, buf) s"
  by (cases n) (auto intro: runs_Ret)

lemma qty_read_loop_rep:
  assumes "qty_rep s a" and "line_there (unat counter - 1) (map nl (qinput a))" and "unat counter \<le> fuel" and "0 < fuel"
    and "c \<noteq> 0x0A" "c \<noteq> 0x0D"
  shows "\<exists>s'. runs (qty_read_loop fuel counter i c buf) s
      (counter - of_nat (length (qline_of (unat counter - 1) a)), stored i (qline_of (unat counter - 1) a) buf) s' \<and>
    qty_rep s' (qread (unat counter - 1) a)"
  using assms
proof (induction fuel arbitrary: s a counter i c buf)
  case (Suc fuel)
  show ?case
  proof (cases "counter > 1")
    case False
    then have z: "unat counter - 1 = 0" by (simp add: word_less_nat_alt)
    have "qread 0 a = a" "qline_of 0 a = []" by (simp_all add: qread_def qline_of_def)
    then show ?thesis using False Suc.prems(1) unfolding z by (auto intro: runs_Ret)
  next
    case True
    let ?m = "unat (counter - 1) - 1"
    have u: "unat (counter - 1) = unat counter - 1" using True by (intro unat_sub_if_size [THEN trans]) (auto simp: word_le_nat_alt word_less_nat_alt)
    have m: "unat counter - 1 = Suc ?m" using True u by (simp add: word_less_nat_alt)
    obtain d ds where d: "qinput a = d # ds" using Suc.prems(2) unfolding m by (cases "qinput a") simp_all
    let ?a = "a\<lparr>qinput := ds, qsent := qsent a @ qecho (nl d)\<rparr>"
    obtain s1 where s1: "runs input_getc s (nl d) s1" "qty_rep s1 ?a" using input_getc_rep [OF Suc.prems(1) d] by blast
    have step: "runs (qty_read_loop (Suc fuel) counter i c buf) s r s'"
      if "runs (qty_read_loop fuel (counter - 1) (i + 1) (nl d) (buf(i := nl d))) s1 r s'" for r s'
      using runs_bind [OF s1(1), of "\<lambda>c. qty_read_loop fuel (counter - 1) (i + 1) c (buf(i := c))"] that True Suc.prems(5,6) by simp
    have fuel: "unat (counter - 1) \<le> fuel" "0 < fuel" using Suc.prems(3) m u by simp_all
    show ?thesis
    proof (cases "nl d = 0x0A")
      case True
      have "runs (qty_read_loop fuel (counter - 1) (i + 1) (nl d) (buf(i := nl d))) s1 (counter - 1, buf(i := nl d)) s1"
        by (rule qty_read_stop [OF fuel(2) True])
      from step [OF this] s1(2) True show ?thesis unfolding m
        using d stored_Cons [of i "[]" buf "nl d"] by (auto simp: qread_def qline_of_def)
    next
      case False
      have l: "qline_of (Suc ?m) a = nl d # qline_of ?m ?a" using d False nl_not_return by (simp add: qline_of_def)
      have "line_there ?m (map nl (qinput ?a))" using Suc.prems(2) d False nl_not_return unfolding m by simp
      from Suc.IH [OF s1(2) this fuel False nl_not_return, of "i + 1" "buf(i := nl d)"] obtain s' where
        s': "runs (qty_read_loop fuel (counter - 1) (i + 1) (nl d) (buf(i := nl d))) s1
            (counter - 1 - of_nat (length (qline_of ?m ?a)), stored (i + 1) (qline_of ?m ?a) (buf(i := nl d))) s'"
          "qty_rep s' (qread ?m ?a)" by blast
      have e1: "qread ?m ?a = qread (Suc ?m) a" unfolding qread_def l by (simp add: d)
      have e2: "counter - 1 - of_nat (length (qline_of ?m ?a)) = counter - of_nat (length (qline_of (Suc ?m) a))"
        unfolding l by simp
      have e3: "stored (i + 1) (qline_of ?m ?a) (buf(i := nl d)) = stored i (qline_of (Suc ?m) a) buf" unfolding l by simp
      show ?thesis unfolding m using step [OF s'(1)] s'(2) unfolding e1 e2 e3 by blast
    qed
  qed
qed simp

lemma qty_read_rep:
  assumes "qty_rep s a" and "line_there (Suc (unat (word_of_int sz - 1 :: u32) - 1)) (map nl (qinput a))"
  defines "m \<equiv> Suc (unat (word_of_int sz - 1 :: u32) - 1)"
  shows "\<exists>s'. runs (qty_read buf sz) s (of_nat (length (qline_of m a)), stored 0 (qline_of m a) buf) s' \<and> qty_rep s' (qread m a)"
proof -
  let ?c = "word_of_int sz - 1 :: u32"
  obtain d ds where d: "qinput a = d # ds" using assms(2) by (cases "qinput a") simp_all
  let ?a = "a\<lparr>qinput := ds, qsent := qsent a @ qecho (nl d)\<rparr>"
  obtain s1 where s1: "runs input_getc s (nl d) s1" "qty_rep s1 ?a" using input_getc_rep [OF assms(1) d] by blast
  have step: "runs (qty_read buf sz) s (word_of_int sz - r, b) s'"
    if "runs (qty_read_loop (2 ^ 32) ?c 1 (nl d) (buf(0 := nl d))) s1 (r, b) s'" for r b s'
    unfolding qty_read_def Let_def by (rule runs_bind, rule s1(1), rule runs_bind, rule that) (simp add: runs_Ret)
  show ?thesis
  proof (cases "nl d = 0x0A")
    case True
    have "runs (qty_read_loop (2 ^ 32) ?c 1 (nl d) (buf(0 := nl d))) s1 (?c, buf(0 := nl d)) s1"
      by (rule qty_read_stop [OF _ True]) simp
    from step [OF this] s1(2) True show ?thesis
      using d stored_Cons [of 0 "[]" buf "nl d"] by (auto simp: qread_def qline_of_def m_def)
  next
    case False
    have l: "qline_of m a = nl d # qline_of (unat ?c - 1) ?a" using d False nl_not_return by (simp add: qline_of_def m_def)
    have "line_there (unat ?c - 1) (map nl (qinput ?a))" using assms(2) d False nl_not_return by simp
    moreover have "unat ?c \<le> 2 ^ 32" using unsigned_less [of ?c, where ?'a = nat] by simp
    ultimately obtain s' where s': "runs (qty_read_loop (2 ^ 32) ?c 1 (nl d) (buf(0 := nl d))) s1
        (?c - of_nat (length (qline_of (unat ?c - 1) ?a)), stored 1 (qline_of (unat ?c - 1) ?a) (buf(0 := nl d))) s'"
      "qty_rep s' (qread (unat ?c - 1) ?a)"
      using qty_read_loop_rep [OF s1(2), of ?c "2 ^ 32" "nl d" 1 "buf(0 := nl d)"] False nl_not_return
      by (simp del: fun_upd_apply qty_read_loop.simps) blast
    have e1: "qread (unat ?c - 1) ?a = qread m a" unfolding qread_def l by (simp add: d)
    have e2: "word_of_int sz - (?c - of_nat (length (qline_of (unat ?c - 1) ?a))) = of_nat (length (qline_of m a))" unfolding l by simp
    have e3: "stored 1 (qline_of (unat ?c - 1) ?a) (buf(0 := nl d)) = stored 0 (qline_of m a) buf"
      using stored_Cons [of 0 "qline_of (unat ?c - 1) ?a" buf "nl d"] unfolding l by simp
    show ?thesis using step [OF s'(1)] s'(2) unfolding e1 e2 e3 by blast
  qed
qed

lemma qty_putc_rep:
  assumes "qty_rep s a"
  shows "\<exists>s'. runs (qty_putc c) s OK s' \<and> qty_rep s' (a\<lparr>qsent := qsent a @ (if c = 0x0A then [0x0A, 0x0D] else [c])\<rparr>)"
proof -
  obtain s1 where s1: "runs (serial_putc c) s () s1" "qty_rep s1 (a\<lparr>qsent := qsent a @ [c]\<rparr>)" using serial_putc_rep [OF assms] by blast
  have "\<exists>s2. runs (if c = 0x0A then serial_putc 0x0D else Ret ()) s1 () s2 \<and>
      qty_rep s2 (a\<lparr>qsent := qsent a @ (if c = 0x0A then [0x0A, 0x0D] else [c])\<rparr>)"
    using serial_putc_rep [OF s1(2), of "0x0D"] s1(2) by (auto intro: runs_Ret)
  then obtain s2 where s2: "runs (if c = 0x0A then serial_putc 0x0D else Ret ()) s1 () s2"
    "qty_rep s2 (a\<lparr>qsent := qsent a @ (if c = 0x0A then [0x0A, 0x0D] else [c])\<rparr>)" by blast
  have "runs (qty_putc c) s OK s2" unfolding qty_putc_def
    by (rule runs_bind, rule s1(1), rule runs_bind, rule s2(1), rule runs_Ret)
  with s2(2) show ?thesis by blast
qed

lemma qty_write_loop_rep:
  assumes "qty_rep s a"
  shows "\<exists>s'. runs (qty_write_loop cs) s OK s' \<and>
    qty_rep s' (a\<lparr>qsent := qsent a @ concat (map (\<lambda>c. if c = 0x0A then [0x0A, 0x0D] else [c]) cs)\<rparr>)"
  using assms
proof (induction cs arbitrary: s a)
  case Nil
  then show ?case by (auto intro!: runs_Ret)
next
  case (Cons c cs)
  obtain s1 where s1: "runs (qty_putc c) s OK s1" "qty_rep s1 (a\<lparr>qsent := qsent a @ (if c = 0x0A then [0x0A, 0x0D] else [c])\<rparr>)"
    using qty_putc_rep [OF Cons.prems] by blast
  obtain s2 where "runs (qty_write_loop cs) s1 OK s2"
    "qty_rep s2 (a\<lparr>qsent := (qsent a @ (if c = 0x0A then [0x0A, 0x0D] else [c])) @ concat (map (\<lambda>c. if c = 0x0A then [0x0A, 0x0D] else [c]) cs)\<rparr>)"
    using Cons.IH [OF s1(2)] by auto
  moreover from this have "runs (qty_write_loop (c # cs)) s OK s2" using runs_bind [OF s1(1), of "\<lambda>_. qty_write_loop cs"] by simp
  ultimately show ?case by auto
qed

subsection \<open>Initialisation\<close>

lemma intq_init_rep:
  assumes "0 \<le> nextsem s" "nextsem s < NSEM" and "0 \<le> x" "x < NSEM" "sstate (semtab s x) = S_FREE"
  shows "\<exists>s1 k. runs (intq_init q) s () s1 \<and> 0 \<le> k \<and> k < NSEM \<and> sstate (semtab s k) = S_FREE \<and>
    intqs s1 = (intqs s)(q := (intqs s q)\<lparr>qsem := k, qhead := 0, qtail := 0, count_getc := 0, count_putc := 0\<rparr>) \<and>
    semtab s1 = (semtab s)(k := (semtab s k)\<lparr>sstate := S_USED, scount := 0\<rparr>) \<and> serial s1 = serial s \<and> qtymode s1 = qtymode s \<and>
    0 \<le> nextsem s1 \<and> nextsem s1 < NSEM"
proof -
  obtain i k where i: "semcreate 0 s = (i, upd_sem i (\<lambda>e. e\<lparr>sstate := S_USED, scount := 0\<rparr>) (s\<lparr>nextsem := k\<rparr>))"
    "sstate (semtab s i) = S_FREE" "0 \<le> i" "i < NSEM" by (rule semcreate_succeeds [OF assms, of 0]) auto
  let ?s = "upd_sem i (\<lambda>e. e\<lparr>sstate := S_USED, scount := 0\<rparr>) (s\<lparr>nextsem := k\<rparr>)"
  let ?g = "\<lambda>e. e\<lparr>qsem := i, qhead := 0, qtail := 0, count_getc := 0, count_putc := 0\<rparr>"
  have c: "runs (plift (semcreate 0)) s i ?s" by (rule runs_lift, rule i(1)) (simp add: upd_sem_def)
  have m: "runs (pmodify (upd_intq q ?g)) ?s () (upd_intq q ?g ?s)" by (rule runs_modify) simp
  have "runs (intq_init q) s () (upd_intq q ?g ?s)" unfolding intq_init_def by (rule runs_bind, rule c, rule m)
  then show ?thesis using i semcreate_range [OF i(1) assms(1,2)]
    by (intro exI [of _ "upd_intq q ?g ?s"] exI [of _ i]) (simp add: upd_sem_def upd_intq_def)
qed

text \<open>With two free semaphores \<open>qty_init\<close> returns \<open>OK\<close> and makes an empty console.\<close>

theorem qty_init_makes_console:
  assumes "0 \<le> nextsem s" "nextsem s < NSEM" and "0 \<le> x" "x < NSEM" "sstate (semtab s x) = S_FREE"
    and "0 \<le> y" "y < NSEM" "sstate (semtab s y) = S_FREE" "x \<noteq> y" and "qtymode s = UNINIT"
  shows "\<exists>s'. runs qty_init s OK s' \<and> qty_rep s' \<lparr>qinput = [], qarrived = s_arrived (serial s), qsent = s_sent (serial s)\<rparr> \<and>
    s_ier (serial s') = IER_RECV \<and> qtymode s' = QUEUE"
proof -
  have m: "runs (pmodify g) u () (g u)" if "currpid (g u) = currpid u" for g and u :: "'a qtystate_t_scheme" by (rule runs_modify) (rule that)
  obtain s1 k where s1: "runs (intq_init InputBuffer) s () s1" "0 \<le> k" "k < NSEM" "sstate (semtab s k) = S_FREE"
    "intqs s1 = (intqs s)(InputBuffer := (intqs s InputBuffer)\<lparr>qsem := k, qhead := 0, qtail := 0, count_getc := 0, count_putc := 0\<rparr>)"
    "semtab s1 = (semtab s)(k := (semtab s k)\<lparr>sstate := S_USED, scount := 0\<rparr>)" "serial s1 = serial s" "qtymode s1 = qtymode s"
    "0 \<le> nextsem s1" "nextsem s1 < NSEM" using intq_init_rep [OF assms(1-5), of InputBuffer] by blast
  define s2 where "s2 = upd_intq InputBuffer (\<lambda>e. e\<lparr>qname := ''buffer''\<rparr>) s1"
  define s3 where "s3 = upd_serial (\<lambda>p. p\<lparr>s_ier := 0\<rparr>) s2"
  define z where "z = (if k = x then y else x)"
  have z: "0 \<le> z" "z < NSEM" "sstate (semtab s3 z) = S_FREE" using assms(3-9) by (auto simp: z_def s3_def s2_def s1(6))
  have n3: "0 \<le> nextsem s3" "nextsem s3 < NSEM" using s1(9,10) by (simp_all add: s3_def s2_def upd_intq_def upd_serial_def)
  obtain s4 j where s4: "runs (intq_init Txq) s3 () s4" "sstate (semtab s3 j) = S_FREE"
    "intqs s4 = (intqs s3)(Txq := (intqs s3 Txq)\<lparr>qsem := j, qhead := 0, qtail := 0, count_getc := 0, count_putc := 0\<rparr>)"
    "semtab s4 = (semtab s3)(j := (semtab s3 j)\<lparr>sstate := S_USED, scount := 0\<rparr>)" "serial s4 = serial s3"
    using intq_init_rep [OF n3 z, of Txq] by blast
  have jk: "j \<noteq> k" using s4(2) by (auto simp: s3_def s2_def s1(6))
  define s5 where "s5 = (upd_intq Txq (\<lambda>e. e\<lparr>qname := ''txq''\<rparr>) s4)\<lparr>qtymode := POLL\<rparr>"
  define s6 where "s6 = write_ier (s5\<lparr>qtymode := QUEUE\<rparr>)"
  have r2: "runs (pmodify (upd_intq InputBuffer (\<lambda>e. e\<lparr>qname := ''buffer''\<rparr>))) s1 () s2" unfolding s2_def by (rule m) simp
  have r3: "runs (pmodify (upd_serial (\<lambda>p. p\<lparr>s_ier := 0\<rparr>))) s2 () s3" unfolding s3_def by (rule m) simp
  have r5: "runs (pmodify (\<lambda>s. (upd_intq Txq (\<lambda>e. e\<lparr>qname := ''txq''\<rparr>) s)\<lparr>qtymode := POLL\<rparr>)) s4 () s5" unfolding s5_def by (rule m) simp
  have r6: "runs (pmodify (\<lambda>s. write_ier (s\<lparr>qtymode := QUEUE\<rparr>))) s5 () s6" unfolding s6_def by (rule m) simp
  have i: "runs input_init s () s2" unfolding input_init_def by (rule runs_bind, rule s1(1), rule r2)
  have mode: "qtymode s2 = UNINIT" "qtymode s5 = POLL" using assms(10) by (simp_all add: s2_def s5_def s1(8))
  have "runs (pbind (pmodify (upd_serial (\<lambda>p. p\<lparr>s_ier := 0\<rparr>))) (\<lambda>_. pbind (intq_init Txq) (\<lambda>_.
         pmodify (\<lambda>s. (upd_intq Txq (\<lambda>e. e\<lparr>qname := ''txq''\<rparr>) s)\<lparr>qtymode := POLL\<rparr>)))) s2 () s5"
    by (rule runs_bind, rule r3, rule runs_bind, rule s4(1), rule r5)
  then have "runs serial_init_queue s2 () s6" unfolding serial_init_queue_def
    by (intro runs_bind [OF runs_gets] runs_bind [where r = "()" and ?s1.0 = s5]) (use mode r6 in simp_all)
  then have "runs qty_init s OK s6" unfolding qty_init_def
    by (intro runs_bind [OF i] runs_bind [where r = "()" and ?s1.0 = s6] runs_Ret)
  moreover have "qty_rep s6 \<lparr>qinput = [], qarrived = s_arrived (serial s), qsent = s_sent (serial s)\<rparr>"
    using jk s1(2,3,7) by (simp add: s6_def s5_def s3_def s2_def s4(3-5) s1(5,6) qty_rep_def Let_def sem_at_def ring_empty intq_empty_def)
  moreover have "s_ier (serial s6) = IER_RECV" "qtymode s6 = QUEUE"
    by (simp_all add: s6_def write_ier_def Let_def s5_def s3_def s2_def s4(3) s1(5) intq_empty_def intq_full_def intq_next_def)
  ultimately show ?thesis by blast
qed

subsection \<open>Interrupts and calls in any order\<close>

text \<open>Bytes arrive and interrupt, a process writes, a process reads with a buffer of \<open>n\<close> characters.\<close>

datatype qty_op = QArrive "u8 list" | QWrite "u8 list" | QRead nat
datatype qty_res = QHandled | QWrote int | QGot "u8 list"

definition qty_exec :: "qty_op \<Rightarrow> 'a qtystate_t_scheme \<Rightarrow> (qty_res \<times> 'a qtystate_t_scheme) option" where
  "qty_exec p s = (case p of
     QArrive cs \<Rightarrow> (case run serial_interrupt (upd_serial (\<lambda>p. p\<lparr>s_arrived := s_arrived p @ cs\<rparr>) s) of
       Some (Inl _, s') \<Rightarrow> Some (QHandled, s') | _ \<Rightarrow> None)
   | QWrite cs \<Rightarrow> (case run (qty_write (\<lambda>i. cs ! i) (int (length cs))) s of Some (Inl r, s') \<Rightarrow> Some (QWrote r, s') | _ \<Rightarrow> None)
   | QRead n \<Rightarrow> (case run (qty_read (\<lambda>_. 0) (int n)) s of Some (Inl (r, b), s') \<Rightarrow> Some (QGot (map b [0..<unat r]), s') | _ \<Rightarrow> None))"

text \<open>What the input buffer has no room for stays at the port until a later interrupt. A read with room for \<open>n\<close> bytes, at
  least 1, takes at most \<open>n - 1\<close>, and at least 1.\<close>

fun qty_spec :: "qty_op \<Rightarrow> qline \<Rightarrow> qty_res \<times> qline" where
  "qty_spec (QArrive cs) a = (let room = 63 - length (qinput a); all = qarrived a @ cs in
     (QHandled, a\<lparr>qinput := qinput a @ take room all, qarrived := drop room all\<rparr>))"
| "qty_spec (QWrite cs) a = (QWrote OK, a\<lparr>qsent := qsent a @ concat (map (\<lambda>c. if c = 0x0A then [0x0A, 0x0D] else [c]) cs)\<rparr>)"
| "qty_spec (QRead n) a = (QGot (qline_of (Suc (n - 2)) a), qread (Suc (n - 2)) a)"

text \<open>A process that reads finds a line or the number of bytes that it asks for.\<close>

fun qty_fits :: "qty_op \<Rightarrow> qline \<Rightarrow> bool" where
  "qty_fits (QArrive cs) a \<longleftrightarrow> True"
| "qty_fits (QWrite cs) a \<longleftrightarrow> True"
| "qty_fits (QRead n) a \<longleftrightarrow> 0 < n \<and> int n < 2 ^ 31 \<and> line_there (Suc (n - 2)) (map nl (qinput a))"

lemma length_take_line: "length (take_line n xs) \<le> length xs"
  by (induction n xs rule: take_line.induct) simp_all

lemma qline_short: "qty_rep s a \<Longrightarrow> length (qline_of n a) < 64"
  using length_take_line [of n "map nl (qinput a)"] by (simp add: qty_rep_def Let_def qline_of_def)

lemma read_size: "0 < n \<Longrightarrow> int n < 2 ^ 31 \<Longrightarrow> Suc (unat (word_of_int (int n) - 1 :: u32) - 1) = Suc (n - 2)"
proof -
  assume n: "0 < n" "int n < 2 ^ 31"
  have "word_of_int (int n) - 1 = (of_nat (n - 1) :: u32)" using n(1) by (simp add: of_nat_diff)
  moreover have "unat (of_nat (n - 1) :: u32) = n - 1" using n(2) by (simp add: unsigned_of_nat take_bit_nat_eq_self)
  ultimately show ?thesis by simp
qed

lemma qty_exec_spec:
  assumes "qty_rep s a" and "qty_fits p a"
  shows "\<exists>s'. qty_exec p s = Some (fst (qty_spec p a), s') \<and> qty_rep s' (snd (qty_spec p a))"
proof (cases p)
  case (QArrive cs)
  have "qty_rep (upd_serial (\<lambda>p. p\<lparr>s_arrived := s_arrived p @ cs\<rparr>) s) (a\<lparr>qarrived := qarrived a @ cs\<rparr>)"
    using assms(1) by (simp add: qty_rep_def Let_def sem_at_def)
  from serial_interrupt_rep [OF this] show ?thesis using QArrive by (auto simp: qty_exec_def runs_def Let_def)
next
  case (QWrite cs)
  have "map ((!) cs) [0..<nat (int (length cs))] = cs" by (simp add: map_nth)
  then show ?thesis using qty_write_loop_rep [OF assms(1), of cs] QWrite by (auto simp: qty_exec_def runs_def qty_write_def)
next
  case (QRead n)
  let ?m = "Suc (n - 2)"
  have n: "0 < n" "int n < 2 ^ 31" "line_there ?m (map nl (qinput a))" using assms(2) QRead by simp_all
  obtain s' where s': "runs (qty_read (\<lambda>_. 0) (int n)) s (of_nat (length (qline_of ?m a)), stored 0 (qline_of ?m a) (\<lambda>_. 0)) s'"
    "qty_rep s' (qread ?m a)" using qty_read_rep [OF assms(1), of "int n"] n(3) unfolding read_size [OF n(1,2)] by blast
  have "unat (of_nat (length (qline_of ?m a)) :: u32) = length (qline_of ?m a)"
    using qline_short [OF assms(1), of ?m] by (simp add: unsigned_of_nat take_bit_nat_eq_self)
  then show ?thesis using s' QRead by (auto simp: qty_exec_def runs_def map_stored)
qed

interpretation qty: simulation qty_exec qty_spec qty_fits qty_rep
  by unfold_locales (rule qty_exec_spec)

text \<open>C35: bytes that arrive with interrupts, reads and writes on the console of the QEMU build, in any order, implement three
  lists of bytes: an input buffer of 63 bytes, what waits at the port, and what was sent, with the echo
  of what is read and a return behind every newline. This holds for any sequence in which no read has to wait.\<close>

theorem qty_ops_refine:
  assumes "qty_rep s a" and "fits_all qty_spec qty_fits ps a"
  shows "\<exists>s'. execs qty_exec ps s = Some (fst (specs qty_spec ps a), s') \<and> qty_rep s' (snd (specs qty_spec ps a))"
  by (rule qty.execs_specs [OF assms])

text \<open>A console with \<open>k\<close> bytes in the input buffer, at position \<open>h\<close>.\<close>

definition qdemo :: "int \<Rightarrow> int \<Rightarrow> qtystate_t" where
  "qdemo h k = namstate_t.extend (ttystate_t.extend (tdemo 0 0 0 []) (namstate_t.fields (\<lambda>_. \<lparr>nprefix = (\<lambda>_. 0), nreplace = (\<lambda>_. 0), ndevice = 0\<rparr>) 0))
     (qtystate_t.fields (\<lambda>q. \<lparr>qsem = 4, qbuf = (\<lambda>i. if i = 2 then 0x0A else 0x61), qhead = if q = InputBuffer then h + k else h,
        qtail = h, qname = [], count_getc = 0, count_putc = 0\<rparr>) QUEUE \<lparr>s_ier = 0, s_sent = [], s_arrived = []\<rparr>)"

lemma qdemo_sel [simp]:
  "intqs (qdemo h k) q = \<lparr>qsem = 4, qbuf = (\<lambda>i. if i = 2 then 0x0A else 0x61), qhead = if q = InputBuffer then h + k else h,
     qtail = h, qname = [], count_getc = 0, count_putc = 0\<rparr>"
  "serial (qdemo h k) = \<lparr>s_ier = 0, s_sent = [], s_arrived = []\<rparr>" "semtab (qdemo h k) = semtab (tdemo 0 0 0 [])"
  by (simp_all add: qdemo_def qtystate_t.defs namstate_t.defs ttystate_t.defs)

text \<open>The user types \<open>ab\<close>, a backspace and return; a program answers \<open>x\<close> and a newline. A reader with a buffer of 3 gets two bytes,
  and the next one the rest of the line. The queue wraps around.\<close>

theorem qty_ops_refine_witness:
  "\<exists>s'. execs qty_exec [QArrive [0x61, 0x62, 0x08, 0x0D], QRead 3, QWrite [0x78, 0x0A], QRead 10] (qdemo 62 0) =
     Some ([QHandled, QGot [0x61, 0x62], QWrote 1, QGot [0x08, 0x0A]], s') \<and>
   qty_rep s' \<lparr>qinput = [], qarrived = [], qsent = [0x61, 0x62, 0x78, 0x0A, 0x0D, 0x08, 0x20, 0x08, 0x0A]\<rparr>"
proof -
  let ?ps = "[QArrive [0x61, 0x62, 0x08, 0x0D], QRead 3, QWrite [0x78, 0x0A], QRead 10]"
  let ?a = "\<lparr>qinput = [], qarrived = [], qsent = []\<rparr>"
  have "qty_rep (qdemo 62 0) ?a" by (simp add: qty_rep_def Let_def ring_empty sem_at_def intq_empty_def)
  moreover have "fits_all qty_spec qty_fits ?ps ?a" by code_simp
  moreover have "specs qty_spec ?ps ?a = ([QHandled, QGot [0x61, 0x62], QWrote 1, QGot [0x08, 0x0A]],
     \<lparr>qinput = [], qarrived = [], qsent = [0x61, 0x62, 0x78, 0x0A, 0x0D, 0x08, 0x20, 0x08, 0x0A]\<rparr>)"
    by code_simp
  ultimately show ?thesis using qty_ops_refine by fastforce
qed

text \<open>A read with a size of 0: the unsigned counter goes to 2^32 - 1, and the whole line is stored in a buffer
  that has no room for it.\<close>

lemma take_line_until: "length us < n \<Longrightarrow> 0x0A \<notin> set us \<Longrightarrow> 0x0D \<notin> set us \<Longrightarrow> take_line n (us @ 0x0A # vs) = us @ [0x0A]"
proof (induction us arbitrary: n)
  case Nil
  then show ?case by (cases n) simp_all
next
  case (Cons u us)
  then show ?case by (cases n) auto
qed

lemma line_there_until: "0x0A \<in> set us \<Longrightarrow> line_there n us"
  by (induction n us rule: line_there.induct) auto

theorem qty_read_size_zero:
  assumes "qty_rep s a" and "map nl (qinput a) = us @ 0x0A # vs" and "0x0A \<notin> set us"
  shows "\<exists>s'. runs (qty_read buf 0) s (of_nat (Suc (length us)), stored 0 (us @ [0x0A]) buf) s'"
proof -
  have "length (us @ 0x0A # vs) = length (qinput a)" by (metis assms(2) length_map)
  then have u: "length us < 64" using assms(1) by (simp add: qty_rep_def Let_def)
  have "0x0D \<notin> set (map nl (qinput a))" using nl_not_return by force
  then have "0x0D \<notin> set us" by (simp add: assms(2))
  then have q: "qline_of n a = us @ [0x0A]" if "64 \<le> n" for n
    unfolding qline_of_def assms(2) using u that assms(3) by (intro take_line_until) simp_all
  have m: "64 \<le> Suc (unat (word_of_int 0 - 1 :: u32) - 1)" by (simp add: unsigned_minus_1_eq_mask mask_eq_exp_minus_1)
  have "line_there (Suc (unat (word_of_int 0 - 1 :: u32) - 1)) (map nl (qinput a))"
    by (rule line_there_until) (simp add: assms(2))
  from qty_read_rep [OF assms(1) this] show ?thesis unfolding q [OF m] by auto
qed

theorem qty_read_size_zero_witness:
  "\<exists>s'. runs (qty_read (\<lambda>_. 0) 0) (qdemo 0 3) (3, stored 0 [0x61, 0x61, 0x0A] (\<lambda>_. 0)) s'"
proof -
  have "qty_rep (qdemo 0 3) \<lparr>qinput = [0x61, 0x61, 0x0A], qarrived = [], qsent = []\<rparr>"
    by (simp add: qty_rep_def Let_def ring_def sem_at_def intq_empty_def less_Suc_eq)
  from qty_read_size_zero [OF this, of "[0x61, 0x61]" "[]"] show ?thesis by (simp add: nl_def)
qed

subsection \<open>A reader that is overtaken\<close>

text \<open>C36: a process that finds the input buffer empty waits on the semaphore of the queue, but when it is dispatched
  again it does not look at the queue again. If another reader was quicker and the buffer is empty once more, the process
  returns the byte stored at the tail, which was read before, and the empty buffer becomes a full one.\<close>

theorem overtaken_reader_reads_stale:
  assumes "kinv s" and "currpid s \<noteq> NULLPROC" and "qty_rep s a" and "qinput a = []"
  shows "\<exists>rest s1. run (intq_getc InputBuffer) s = Some (Inr rest, s1) \<and> prstate (proctab s1 (currpid s)) = PR_WAIT \<and>
    (\<forall>u b. qty_rep u b \<and> qinput b = [] \<longrightarrow> (let e = intqs u InputBuffer in
       \<exists>u'. runs rest u (qbuf e (qtail e)) u' \<and> intq_full (intqs u' InputBuffer)))"
proof -
  let ?e = "intqs s InputBuffer"
  define more where "more = pbind (pgets (\<lambda>s. qbuf (intqs s InputBuffer) (qtail (intqs s InputBuffer)))) (\<lambda>byte.
     pbind (pmodify (upd_intq InputBuffer (\<lambda>e. e\<lparr>qtail := intq_next (qtail e)\<rparr>))) (\<lambda>_.
     pbind (intq_wake InputBuffer) (\<lambda>_.
     pbind (pmodify (upd_intq InputBuffer (\<lambda>e. e\<lparr>count_getc := count_getc e + 1\<rparr>))) (\<lambda>_.
     (Ret byte :: ('a qtystate_t_scheme, u8) prog)))))"
  have sem: "\<not> isbadsem (qsem ?e)" "sstate (semtab s (qsem ?e)) = S_USED" "scount (semtab s (qsem ?e)) \<le> 0"
    using assms(3) by (simp_all add: qty_rep_def Let_def sem_at_def isbadsem_def)
  obtain s1 where s1: "wait (qsem ?e) s = Some (OK, s1)" "kinv s1" "prstate (proctab s1 (currpid s)) = PR_WAIT"
    using wait_block_kinv [OF assms(1,2) sem] .
  have "prstate (proctab s1 (currpid s1)) = PR_CURR" using s1(2) by (simp add: kinv_def)
  then have "currpid s1 \<noteq> currpid s" using s1(3) by auto
  then have "run (intq_getc InputBuffer) s = Some (Inr more, s1)"
    using empty_iff [OF assms(3)] assms(4) s1(1) by (simp add: intq_getc_def run_bind run_pcall more_def)
  moreover have "\<exists>u'. runs more u (qbuf (intqs u InputBuffer) (qtail (intqs u InputBuffer))) u' \<and> intq_full (intqs u' InputBuffer)"
    if u: "qty_rep u b" "qinput b = []" for u :: "'a qtystate_t_scheme" and b
  proof -
    define u1 where "u1 = upd_intq InputBuffer (\<lambda>e. e\<lparr>qtail := intq_next (qtail e)\<rparr>) u"
    define u2 where "u2 = upd_intq InputBuffer (\<lambda>e. e\<lparr>count_getc := count_getc e + 1\<rparr>) u1"
    have m: "runs (pmodify (upd_intq InputBuffer g)) v () (upd_intq InputBuffer g v)" for g and v :: "'a qtystate_t_scheme" by (rule runs_modify) simp
    have m1: "runs (pmodify (upd_intq InputBuffer (\<lambda>e. e\<lparr>qtail := intq_next (qtail e)\<rparr>))) u () u1" unfolding u1_def by (rule m)
    have m2: "runs (pmodify (upd_intq InputBuffer (\<lambda>e. e\<lparr>count_getc := count_getc e + 1\<rparr>))) u1 () u2" unfolding u2_def by (rule m)
    have sem: "sem_at u1 (qsem (intqs u1 InputBuffer)) 0" using u(1) by (simp add: u1_def qty_rep_def Let_def sem_at_def)
    have "runs more u (qbuf (intqs u InputBuffer) (qtail (intqs u InputBuffer))) u2" unfolding more_def
      by (rule runs_bind, rule runs_gets, rule runs_bind, rule m1, rule runs_bind, rule intq_wake_free [OF sem], simp,
          rule runs_bind, rule m2, rule runs_Ret)
    moreover have "qhead (intqs u InputBuffer) = qtail (intqs u InputBuffer)" using empty_iff [OF u(1)] u(2) by (simp add: intq_empty_def)
    then have "intq_full (intqs u2 InputBuffer)" by (simp add: u2_def u1_def intq_full_def)
    ultimately show ?thesis by blast
  qed
  ultimately show ?thesis using s1(3) by (auto simp: Let_def)
qed

definition qidle :: qtystate_t where
  "qidle = (upd_intq InputBuffer (\<lambda>e. e\<lparr>qsem := 1\<rparr>) (qdemo 0 0))\<lparr>proctab := proctab kdemo, queuetab := queuetab kdemo,
     semtab := semtab kdemo, readylist := readylist kdemo, sleepq := sleepq kdemo, currpid := currpid kdemo, ndefers := ndefers kdemo\<rparr>"

lemma qidle_ok: "kinv qidle" "currpid qidle = 1" "qty_rep qidle \<lparr>qinput = [], qarrived = [], qsent = []\<rparr>"
proof -
  show "kinv qidle" using kinv_cong [of qidle kdemo] kdemo_kinv by (simp add: qidle_def upd_intq_def)
  show "currpid qidle = 1" by (simp add: qidle_def kdemo_def)
  show "qty_rep qidle \<lparr>qinput = [], qarrived = [], qsent = []\<rparr>"
    by (simp add: qidle_def upd_intq_def qty_rep_def Let_def sem_at_def ring_empty intq_empty_def kdemo_def)
qed

text \<open>Process 1 waits; it gets a letter that nobody has typed.\<close>

theorem overtaken_reader_reads_stale_witness:
  "\<exists>rest s1 u'. run (intq_getc InputBuffer) qidle = Some (Inr rest, s1) \<and> prstate (proctab s1 1) = PR_WAIT \<and>
    runs rest (qdemo 0 0) 0x61 u' \<and> intq_full (intqs u' InputBuffer)"
proof -
  have "qty_rep (qdemo 0 0) \<lparr>qinput = [], qarrived = [], qsent = []\<rparr>"
    by (simp add: qty_rep_def Let_def sem_at_def ring_empty intq_empty_def)
  then show ?thesis using overtaken_reader_reads_stale [OF qidle_ok(1) _ qidle_ok(3)] by (fastforce simp: qidle_ok(2) Let_def)
qed

end
