(* ===== verification/Lexan.thy ===== *)
theory Lexan
  imports Prelude
begin

section \<open>The lexical analyser of the shell\<close>

text \<open>
  shell/lexan.c. The line is the list of the bytes of its buffer and the pointer \<open>p\<close> the list of those that are left, so
  reading behind the buffer is \<open>None\<close>; the length that the caller passes is never looked at. The tokens
  are written one after the other to \<open>tokbuf\<close>, each with a null byte after it, and their beginnings and types to \<open>tok\<close> and
  \<open>toktyp\<close>.
\<close>

abbreviation (input) NULLCH :: u8 where "NULLCH \<equiv> 0"
abbreviation (input) SH_NEWLINE :: u8 where "SH_NEWLINE \<equiv> 0x0A"
abbreviation (input) SH_AMPER :: u8 where "SH_AMPER \<equiv> 0x26"
abbreviation (input) SH_BLANK :: u8 where "SH_BLANK \<equiv> 0x20"
abbreviation (input) SH_TAB :: u8 where "SH_TAB \<equiv> 0x09"
abbreviation (input) SH_SQUOTE :: u8 where "SH_SQUOTE \<equiv> 0x27"
abbreviation (input) SH_DQUOTE :: u8 where "SH_DQUOTE \<equiv> 0x22"
abbreviation (input) SH_LESS :: u8 where "SH_LESS \<equiv> 0x3C"
abbreviation (input) SH_GREATER :: u8 where "SH_GREATER \<equiv> 0x3E"
abbreviation (input) SH_TOK_AMPER :: int where "SH_TOK_AMPER \<equiv> 0"
abbreviation (input) SH_TOK_LESS :: int where "SH_TOK_LESS \<equiv> 1"
abbreviation (input) SH_TOK_GREATER :: int where "SH_TOK_GREATER \<equiv> 2"
abbreviation (input) SH_TOK_OTHER :: int where "SH_TOK_OTHER \<equiv> 3"
abbreviation (input) SHELL_MAXTOK :: nat where "SHELL_MAXTOK \<equiv> 32"
abbreviation (input) SHELL_ARGLEN :: nat where "SHELL_ARGLEN \<equiv> 161"

record lexst =
  tokbuf :: "nat \<Rightarrow> u8"
  tbindex :: nat
  tok :: "nat \<Rightarrow> nat"
  toktyp :: "nat \<Rightarrow> int"
  ntok :: nat
  tlen :: nat

definition put_tok :: "u8 \<Rightarrow> lexst \<Rightarrow> lexst" where
  "put_tok ch t = t\<lparr>tokbuf := (tokbuf t)(tbindex t := ch), tbindex := tbindex t + 1\<rparr>"

definition start_tok :: "int \<Rightarrow> lexst \<Rightarrow> lexst" where
  "start_tok typ t = t\<lparr>tok := (tok t)(ntok t := tbindex t), toktyp := (toktyp t)(ntok t := typ)\<rparr>"

definition end_tok :: "lexst \<Rightarrow> lexst" where
  "end_tok t = (put_tok NULLCH t)\<lparr>ntok := ntok t + 1\<rparr>"

fun lex_skip :: "u8 list \<Rightarrow> u8 list option" where
  "lex_skip [] = None"
| "lex_skip (ch # p) = (if ch = SH_BLANK \<or> ch = SH_TAB then lex_skip p else Some (ch # p))"

text \<open>The body of a quoted string; the result is the character that ends it and what follows.\<close>

fun lex_quoted :: "u8 \<Rightarrow> u8 list \<Rightarrow> lexst \<Rightarrow> (u8 \<times> u8 list \<times> lexst) option" where
  "lex_quoted quote [] t = None"
| "lex_quoted quote (ch # p) t =
     (if ch \<noteq> quote \<and> ch \<noteq> SH_NEWLINE \<and> ch \<noteq> NULLCH then lex_quoted quote p (put_tok ch t) else Some (ch, p, t))"

text \<open>The rest of any other token; the character that ends it is not taken.\<close>

fun lex_other :: "u8 list \<Rightarrow> lexst \<Rightarrow> (u8 \<times> u8 list \<times> lexst) option" where
  "lex_other [] t = None"
| "lex_other (ch # p) t =
     (if ch \<noteq> SH_NEWLINE \<and> ch \<noteq> NULLCH \<and> ch \<noteq> SH_LESS \<and> ch \<noteq> SH_GREATER \<and> ch \<noteq> SH_BLANK \<and> ch \<noteq> SH_TAB \<and>
         ch \<noteq> SH_AMPER \<and> ch \<noteq> SH_SQUOTE \<and> ch \<noteq> SH_DQUOTE
      then lex_other p (put_tok ch t) else Some (ch, ch # p, t))"

lemma lex_skip_length: "lex_skip p = Some q \<Longrightarrow> length q \<le> length p"
  by (induction p rule: lex_skip.induct) (auto split: if_splits)

lemma lex_quoted_length: "lex_quoted c p t = Some (d, q, u) \<Longrightarrow> length q < length p"
  by (induction c p t rule: lex_quoted.induct) (auto split: if_splits)

lemma lex_other_length: "lex_other p t = Some (d, q, u) \<Longrightarrow> length q \<le> length p"
  by (induction p t rule: lex_other.induct) (auto split: if_splits)

function lex_loop :: "u8 list \<Rightarrow> lexst \<Rightarrow> (int \<times> lexst) option" where
  "lex_loop p t =
     (case p of [] \<Rightarrow> None
      | c # _ \<Rightarrow>
        if c = NULLCH \<or> c = SH_NEWLINE then Some (int (ntok t), t\<lparr>tlen := tbindex t\<rparr>)
        else if ntok t \<ge> SHELL_MAXTOK then Some (SYSERR, t)
        else (case lex_skip p of None \<Rightarrow> None | Some [] \<Rightarrow> None
          | Some (ch # p) \<Rightarrow>
            if ch = SH_NEWLINE \<or> ch = NULLCH then Some (int (ntok t), t\<lparr>tlen := tbindex t\<rparr>)
            else if ch = SH_AMPER then lex_loop p (end_tok (put_tok ch (start_tok SH_TOK_AMPER t)))
            else if ch = SH_LESS then lex_loop p (end_tok (put_tok ch (start_tok SH_TOK_LESS t)))
            else if ch = SH_GREATER then lex_loop p (end_tok (put_tok ch (start_tok SH_TOK_GREATER t)))
            else if ch = SH_SQUOTE \<or> ch = SH_DQUOTE then
              (case lex_quoted ch p (start_tok SH_TOK_OTHER t) of None \<Rightarrow> None
               | Some (ch', p, t) \<Rightarrow> if ch' \<noteq> ch then Some (SYSERR, t) else lex_loop p (end_tok t))
            else
              (case lex_other p (put_tok ch (start_tok SH_TOK_OTHER t)) of None \<Rightarrow> None
               | Some (ch, p, t) \<Rightarrow>
                 if ch = SH_SQUOTE \<or> ch = SH_DQUOTE \<or> ch = SH_LESS \<or> ch = SH_GREATER then Some (SYSERR, t)
                 else lex_loop p (end_tok t))))"
  by pat_completeness auto
termination
  by (relation "measure (length \<circ> fst)") (auto dest!: lex_skip_length lex_quoted_length lex_other_length split: if_splits)

declare lex_loop.simps [simp del]

text \<open>\<open>len\<close> has no effect.\<close>

definition lexan :: "u8 list \<Rightarrow> int \<Rightarrow> lexst \<Rightarrow> (int \<times> lexst) option" where
  "lexan line len t = lex_loop line (t\<lparr>ntok := 0, tbindex := 0\<rparr>)"

subsection \<open>What a command line is\<close>

datatype token = Amper | Less | Greater | Word "u8 list"

definition special :: "u8 set" where
  "special = {SH_NEWLINE, NULLCH, SH_LESS, SH_GREATER, SH_BLANK, SH_TAB, SH_AMPER, SH_SQUOTE, SH_DQUOTE}"

text \<open>A line with its tokens. A word that is not quoted must be followed by the end of the line, a blank, a tab
  or an ampersand.\<close>

inductive command_line :: "u8 list \<Rightarrow> token list \<Rightarrow> bool" where
  eol: "c \<in> {NULLCH, SH_NEWLINE} \<Longrightarrow> command_line (c # p) []"
| blank: "c \<in> {SH_BLANK, SH_TAB} \<Longrightarrow> command_line p ts \<Longrightarrow> command_line (c # p) ts"
| amper: "command_line p ts \<Longrightarrow> command_line (SH_AMPER # p) (Amper # ts)"
| less: "command_line p ts \<Longrightarrow> command_line (SH_LESS # p) (Less # ts)"
| greater: "command_line p ts \<Longrightarrow> command_line (SH_GREATER # p) (Greater # ts)"
| quoted: "q \<in> {SH_SQUOTE, SH_DQUOTE} \<Longrightarrow> set w \<inter> {q, SH_NEWLINE, NULLCH} = {} \<Longrightarrow> command_line p ts \<Longrightarrow>
    command_line (q # w @ q # p) (Word w # ts)"
| plain: "w \<noteq> [] \<Longrightarrow> set w \<inter> special = {} \<Longrightarrow> c \<in> {SH_NEWLINE, NULLCH, SH_BLANK, SH_TAB, SH_AMPER} \<Longrightarrow> command_line (c # p) ts \<Longrightarrow>
    command_line (w @ c # p) (Word w # ts)"

fun text_of :: "token \<Rightarrow> u8 list" where
  "text_of Amper = [SH_AMPER]" | "text_of Less = [SH_LESS]" | "text_of Greater = [SH_GREATER]" | "text_of (Word w) = w"

fun kind_of :: "token \<Rightarrow> int" where
  "kind_of Amper = SH_TOK_AMPER" | "kind_of Less = SH_TOK_LESS" | "kind_of Greater = SH_TOK_GREATER" | "kind_of (Word w) = SH_TOK_OTHER"

definition flat :: "token list \<Rightarrow> u8 list" where
  "flat ts = concat (map (\<lambda>t. text_of t @ [NULLCH]) ts)"

definition holds_tokens :: "lexst \<Rightarrow> token list \<Rightarrow> bool" where
  "holds_tokens t ts \<longleftrightarrow> ntok t = length ts \<and> map (tokbuf t) [0..<tbindex t] = flat ts \<and>
     (\<forall>i < length ts. tok t i = length (flat (take i ts)) \<and> toktyp t i = kind_of (ts ! i))"

subsection \<open>The analyser and the grammar\<close>

lemma flat_append [simp]: "flat (ts @ us) = flat ts @ flat us"
  by (simp add: flat_def)

lemma flat_Cons: "flat (t # ts) = text_of t @ NULLCH # flat ts"
  by (simp add: flat_def)

lemma flat_Nil [simp]: "flat [] = []"
  by (simp add: flat_def)

text \<open>\<open>holds_part t ts xs\<close>: the tokens \<open>ts\<close> are complete and the next one starts with \<open>xs\<close>.\<close>

definition holds_part :: "lexst \<Rightarrow> token list \<Rightarrow> int \<Rightarrow> u8 list \<Rightarrow> bool" where
  "holds_part t ts k xs \<longleftrightarrow> ntok t = length ts \<and> map (tokbuf t) [0..<tbindex t] = flat ts @ xs \<and>
     (\<forall>i < length ts. tok t i = length (flat (take i ts)) \<and> toktyp t i = kind_of (ts ! i)) \<and>
     tok t (length ts) = length (flat ts) \<and> toktyp t (length ts) = k"

lemma holds_tokens_index:
  assumes "holds_tokens t ts"
  shows "tbindex t = length (flat ts)"
proof -
  have "length (map (tokbuf t) [0..<tbindex t]) = length (flat ts)" using assms by (simp only: holds_tokens_def)
  then show ?thesis by simp
qed

lemma start_tok_sel [simp]:
  "ntok (start_tok k t) = ntok t" "tokbuf (start_tok k t) = tokbuf t" "tbindex (start_tok k t) = tbindex t"
  "tok (start_tok k t) = (tok t)(ntok t := tbindex t)" "toktyp (start_tok k t) = (toktyp t)(ntok t := k)"
  by (simp_all add: start_tok_def)

lemma holds_start:
  assumes "holds_tokens t ts"
  shows "holds_part (start_tok k t) ts k []"
proof -
  have "ntok t = length ts" and m: "map (tokbuf t) [0..<tbindex t] = flat ts" using assms by (simp_all only: holds_tokens_def)
  then show ?thesis using assms holds_tokens_index [OF assms] unfolding holds_part_def
    by (simp only: start_tok_sel m append_Nil2) (simp add: holds_tokens_def)
qed

lemma put_tok_map: "map (tokbuf (put_tok c t)) [0..<tbindex (put_tok c t)] = map (tokbuf t) [0..<tbindex t] @ [c]"
  by (simp add: put_tok_def)

lemma put_tok_sel [simp]:
  "ntok (put_tok c t) = ntok t" "tok (put_tok c t) = tok t" "toktyp (put_tok c t) = toktyp t"
  by (simp_all add: put_tok_def)

lemma holds_put: "holds_part t ts k xs \<Longrightarrow> holds_part (put_tok c t) ts k (xs @ [c])"
  by (simp add: holds_part_def put_tok_map)

lemma holds_end:
  assumes "holds_part t ts k (text_of x)" and "kind_of x = k"
  shows "holds_tokens (end_tok t) (ts @ [x])"
proof -
  have "holds_part (put_tok NULLCH t) ts k (text_of x @ [NULLCH])" by (rule holds_put [OF assms(1)])
  then show ?thesis using assms(2)
    by (auto simp: holds_part_def holds_tokens_def end_tok_def flat_Cons nth_append less_Suc_eq)
qed

lemma lex_quoted_word:
  assumes "set w \<inter> {q, SH_NEWLINE, NULLCH} = {}" and "holds_part t ts k xs"
  shows "\<exists>t'. lex_quoted q (w @ q # p) t = Some (q, p, t') \<and> holds_part t' ts k (xs @ w)"
  using assms
proof (induction w arbitrary: t xs)
  case Nil
  then show ?case by simp
next
  case (Cons c w)
  then show ?case using Cons.IH [OF _ holds_put [OF Cons.prems(2), of c]] by auto
qed

lemma lex_other_word:
  assumes "set w \<inter> special = {}" and "c \<in> special" and "holds_part t ts k xs"
  shows "\<exists>t'. lex_other (w @ c # p) t = Some (c, c # p, t') \<and> holds_part t' ts k (xs @ w)"
  using assms
proof (induction w arbitrary: t xs)
  case Nil
  then show ?case by (auto simp: special_def)
next
  case (Cons d w)
  then show ?case using Cons.IH [OF _ _ holds_put [OF Cons.prems(3), of d]] by (auto simp: special_def)
qed

text \<open>One round of the main loop.\<close>

lemma lex_blank:
  assumes "c \<in> {SH_BLANK, SH_TAB}" and "ntok t < 32"
  shows "lex_loop (c # p) t = lex_loop p t"
proof (cases p)
  case Nil
  then show ?thesis using assms by (auto simp: lex_loop.simps)
next
  case (Cons d q)
  then show ?thesis using assms by (subst (1 2) lex_loop.simps) auto
qed

lemma lex_op:
  assumes "c \<in> {SH_AMPER, SH_LESS, SH_GREATER}" and "ntok t < 32"
  shows "lex_loop (c # p) t = lex_loop p (end_tok (put_tok c (start_tok
    (if c = SH_AMPER then SH_TOK_AMPER else if c = SH_LESS then SH_TOK_LESS else SH_TOK_GREATER) t)))"
  using assms by (subst lex_loop.simps) auto

lemma lex_quote:
  assumes "q \<in> {SH_SQUOTE, SH_DQUOTE}" and "ntok t < 32"
  shows "lex_loop (q # p) t = (case lex_quoted q p (start_tok SH_TOK_OTHER t) of None \<Rightarrow> None
     | Some (ch', p, t) \<Rightarrow> if ch' \<noteq> q then Some (SYSERR, t) else lex_loop p (end_tok t))"
  using assms by (subst lex_loop.simps) auto

lemma lex_word:
  assumes "c \<notin> special" and "ntok t < 32"
  shows "lex_loop (c # p) t = (case lex_other p (put_tok c (start_tok SH_TOK_OTHER t)) of None \<Rightarrow> None
     | Some (ch, p, t) \<Rightarrow> if ch = SH_SQUOTE \<or> ch = SH_DQUOTE \<or> ch = SH_LESS \<or> ch = SH_GREATER then Some (SYSERR, t)
       else lex_loop p (end_tok t))"
  using assms by (subst lex_loop.simps) (auto simp: special_def)

lemma lex_eol: "c \<in> {NULLCH, SH_NEWLINE} \<Longrightarrow> lex_loop (c # p) t = Some (int (ntok t), t\<lparr>tlen := tbindex t\<rparr>)"
  by (subst lex_loop.simps) auto

text \<open>Completeness: a command line of fewer than 32 tokens is accepted with exactly its tokens.\<close>

lemma lex_complete:
  assumes "command_line p us" and "holds_tokens t ts" and "length ts + length us < 32"
  shows "\<exists>t'. lex_loop p t = Some (int (length ts + length us), t') \<and> holds_tokens t' (ts @ us) \<and> tlen t' = length (flat (ts @ us))"
  using assms
proof (induction arbitrary: t ts rule: command_line.induct)
  case (eol c p)
  have "holds_tokens (t\<lparr>tlen := tbindex t\<rparr>) ts" using eol.prems(1) by (simp add: holds_tokens_def)
  moreover have "ntok t = length ts" using eol.prems(1) by (simp only: holds_tokens_def)
  ultimately show ?case using lex_eol [OF eol.hyps] holds_tokens_index [OF eol.prems(1)] by simp
next
  case (blank c p us)
  then show ?case using lex_blank [of c t p] by (auto simp: holds_tokens_def)
next
  case (amper p us)
  have "holds_tokens (end_tok (put_tok SH_AMPER (start_tok SH_TOK_AMPER t))) (ts @ [Amper])"
    using holds_put [OF holds_start [OF amper.prems(1)], where c = SH_AMPER] by (intro holds_end) simp_all
  from amper.IH [OF this] amper.prems show ?case using lex_op [of SH_AMPER t p] by (auto simp: holds_tokens_def)
next
  case (less p us)
  have "holds_tokens (end_tok (put_tok SH_LESS (start_tok SH_TOK_LESS t))) (ts @ [Less])"
    using holds_put [OF holds_start [OF less.prems(1)], where c = SH_LESS] by (intro holds_end) simp_all
  from less.IH [OF this] less.prems show ?case using lex_op [of SH_LESS t p] by (auto simp: holds_tokens_def)
next
  case (greater p us)
  have "holds_tokens (end_tok (put_tok SH_GREATER (start_tok SH_TOK_GREATER t))) (ts @ [Greater])"
    using holds_put [OF holds_start [OF greater.prems(1)], where c = SH_GREATER] by (intro holds_end) simp_all
  from greater.IH [OF this] greater.prems show ?case using lex_op [of SH_GREATER t p] by (auto simp: holds_tokens_def)
next
  case (quoted q w p us)
  obtain t1 where t1: "lex_quoted q (w @ q # p) (start_tok SH_TOK_OTHER t) = Some (q, p, t1)" "holds_part t1 ts SH_TOK_OTHER w"
    using lex_quoted_word [OF quoted.hyps(2) holds_start [OF quoted.prems(1)]] by fastforce
  have "holds_tokens (end_tok t1) (ts @ [Word w])" by (rule holds_end) (use t1(2) in simp_all)
  from quoted.IH [OF this] quoted.prems show ?case
    using lex_quote [OF quoted.hyps(1), of t "w @ q # p"] t1(1) by (auto simp: holds_tokens_def)
next
  case (plain w c p us)
  obtain d v where w: "w = d # v" using plain.hyps(1) by (cases w) simp_all
  have c: "c \<in> special" "set v \<inter> special = {}" "d \<notin> special" using plain.hyps(2,3) w by (auto simp: special_def)
  obtain t1 where t1: "lex_other (v @ c # p) (put_tok d (start_tok SH_TOK_OTHER t)) = Some (c, c # p, t1)"
    "holds_part t1 ts SH_TOK_OTHER w"
    using lex_other_word [OF c(2,1) holds_put [OF holds_start [OF plain.prems(1)], where c = d], of p] w by auto
  have "holds_tokens (end_tok t1) (ts @ [Word w])" by (rule holds_end) (use t1(2) in simp_all)
  from plain.IH [OF this] plain.prems show ?case
    using lex_word [OF c(3), of t "v @ c # p"] t1(1) w plain.hyps(3) by (auto simp: holds_tokens_def)
qed

text \<open>Soundness: what is accepted is a command line with the tokens that were stored.\<close>

lemma lex_quotedD:
  assumes "lex_quoted q p t = Some (c, p', t')"
  shows "\<exists>w. p = w @ c # p' \<and> set w \<inter> {q, SH_NEWLINE, NULLCH} = {} \<and> c \<in> {q, SH_NEWLINE, NULLCH}"
  using assms
proof (induction q p t rule: lex_quoted.induct)
  case (2 q d p t)
  show ?case
  proof (cases "d \<noteq> q \<and> d \<noteq> SH_NEWLINE \<and> d \<noteq> NULLCH")
    case True
    then obtain w where "p = w @ c # p'" "set w \<inter> {q, SH_NEWLINE, NULLCH} = {}" "c \<in> {q, SH_NEWLINE, NULLCH}" using 2 by auto
    with True show ?thesis by (intro exI [of _ "d # w"]) auto
  next
    case False
    with 2 show ?thesis by (intro exI [of _ "[]"]) auto
  qed
qed simp

lemma lex_otherD:
  assumes "lex_other p t = Some (c, p', t')"
  shows "\<exists>w r. p = w @ c # r \<and> p' = c # r \<and> set w \<inter> special = {} \<and> c \<in> special"
  using assms
proof (induction p t rule: lex_other.induct)
  case (2 d p t)
  show ?case
  proof (cases "d \<in> special")
    case False
    then obtain w r where "p = w @ c # r" "p' = c # r" "set w \<inter> special = {}" "c \<in> special" using 2 by (auto simp: special_def)
    then have "d # p = (d # w) @ c # r \<and> p' = c # r \<and> set (d # w) \<inter> special = {} \<and> c \<in> special" using False by simp
    then show ?thesis by blast
  next
    case True
    then have "d # p = [] @ c # p \<and> p' = c # p \<and> set [] \<inter> special = {} \<and> c \<in> special" using 2(2) by (auto simp: special_def)
    then show ?thesis by blast
  qed
qed simp

lemma special_cases:
  obtains "c \<in> {NULLCH, SH_NEWLINE}" | "c \<in> {SH_BLANK, SH_TAB}" | "c \<in> {SH_AMPER, SH_LESS, SH_GREATER}" | "c \<in> {SH_SQUOTE, SH_DQUOTE}"
    | "c \<notin> special"
  by (auto simp: special_def)

lemma lex_full:
  assumes "lex_loop (c # p) t = Some (n, t')" "0 \<le> n" "c \<notin> {NULLCH, SH_NEWLINE}"
  shows "ntok t < 32"
  using assms by (subst (asm) lex_loop.simps) (auto split: if_splits)

lemma op_token:
  assumes "c \<in> {SH_AMPER, SH_LESS, SH_GREATER}"
  obtains x where "text_of x = [c]" "kind_of x = (if c = SH_AMPER then SH_TOK_AMPER else if c = SH_LESS then SH_TOK_LESS else SH_TOK_GREATER)"
    "\<forall>p us. command_line p us \<longrightarrow> command_line (c # p) (x # us)"
  using assms command_line.intros(3-5) that [of Amper] that [of Less] that [of Greater] by auto

lemma lex_sound:
  assumes "lex_loop p t = Some (n, t')" and "0 \<le> n" and "holds_tokens t ts" and "length ts \<le> 32"
  shows "\<exists>us. command_line p us \<and> holds_tokens t' (ts @ us) \<and> n = int (length (ts @ us)) \<and> length (ts @ us) \<le> 32 \<and>
    tlen t' = length (flat (ts @ us))"
  using assms
proof (induction p arbitrary: t ts rule: length_induct)
  case (1 p)
  note IH = 1(1) [rule_format] and r = 1(2) and h = 1(4)
  obtain c q where p: "p = c # q" using r by (cases p) (simp_all add: lex_loop.simps)
  note r = r [unfolded p]
  have nt: "ntok t = length ts" using h by (simp only: holds_tokens_def)
  show ?case
  proof (cases c rule: special_cases)
    case 1
    then have "n = int (length ts)" "t' = t\<lparr>tlen := tbindex t\<rparr>" using r nt by (simp_all add: lex_eol)
    moreover have "holds_tokens (t\<lparr>tlen := tbindex t\<rparr>) ts" using h by (simp add: holds_tokens_def)
    ultimately show ?thesis using command_line.eol [OF 1] \<open>length ts \<le> 32\<close> holds_tokens_index [OF h]
      by (intro exI [of _ "[]"]) (simp add: p)
  next
    case 2
    have l: "ntok t < 32" by (rule lex_full [OF r \<open>0 \<le> n\<close>]) (use 2 in auto)
    have r': "lex_loop q t = Some (n, t')" using r lex_blank [OF 2 l] by simp
    from IH [OF _ r' \<open>0 \<le> n\<close> h \<open>length ts \<le> 32\<close>] p command_line.blank [OF 2] show ?thesis by auto
  next
    case 3
    have l: "ntok t < 32" by (rule lex_full [OF r \<open>0 \<le> n\<close>]) (use 3 in auto)
    obtain x where x: "text_of x = [c]" "kind_of x = (if c = SH_AMPER then SH_TOK_AMPER else if c = SH_LESS then SH_TOK_LESS else SH_TOK_GREATER)"
      "\<forall>p us. command_line p us \<longrightarrow> command_line (c # p) (x # us)" by (rule op_token [OF 3])
    have h': "holds_tokens (end_tok (put_tok c (start_tok (kind_of x) t))) (ts @ [x])"
      using holds_put [OF holds_start [OF h], where c = c] x(1) by (intro holds_end) simp_all
    have r': "lex_loop q (end_tok (put_tok c (start_tok (kind_of x) t))) = Some (n, t')" using r lex_op [OF 3 l] x(2) by simp
    obtain us where "command_line q us" "holds_tokens t' ((ts @ [x]) @ us)" "n = int (length ((ts @ [x]) @ us))"
      "length ((ts @ [x]) @ us) \<le> 32" "tlen t' = length (flat ((ts @ [x]) @ us))"
      using IH [OF _ r' \<open>0 \<le> n\<close> h'] l nt p by auto
    then show ?thesis using x(3) p by (intro exI [of _ "x # us"]) simp
  next
    case 4
    have l: "ntok t < 32" by (rule lex_full [OF r \<open>0 \<le> n\<close>]) (use 4 in auto)
    obtain d q' t1 where t1: "lex_quoted c q (start_tok SH_TOK_OTHER t) = Some (d, q', t1)" "d = c" "lex_loop q' (end_tok t1) = Some (n, t')"
      using r lex_quote [OF 4 l, of q] \<open>0 \<le> n\<close> by (auto split: option.splits if_splits)
    obtain w where w: "q = w @ c # q'" "set w \<inter> {c, SH_NEWLINE, NULLCH} = {}" using lex_quotedD [OF t1(1)] t1(2) by auto
    have "holds_part t1 ts SH_TOK_OTHER w" using lex_quoted_word [OF w(2) holds_start [OF h, of SH_TOK_OTHER], where p = q'] t1(1) w(1) by simp
    then have h': "holds_tokens (end_tok t1) (ts @ [Word w])" by (intro holds_end) simp_all
    obtain us where "command_line q' us" "holds_tokens t' ((ts @ [Word w]) @ us)" "n = int (length ((ts @ [Word w]) @ us))"
      "length ((ts @ [Word w]) @ us) \<le> 32" "tlen t' = length (flat ((ts @ [Word w]) @ us))"
      using IH [OF _ t1(3) \<open>0 \<le> n\<close> h'] l nt p w(1) by auto
    then show ?thesis using command_line.quoted [OF 4 w(2)] p w(1) by (intro exI [of _ "Word w # us"]) simp
  next
    case 5
    have l: "ntok t < 32" by (rule lex_full [OF r \<open>0 \<le> n\<close>]) (use 5 in \<open>auto simp: special_def\<close>)
    let ?t = "put_tok c (start_tok SH_TOK_OTHER t)"
    obtain d q' t1 where t1: "lex_other q ?t = Some (d, q', t1)" "d \<notin> {SH_SQUOTE, SH_DQUOTE, SH_LESS, SH_GREATER}"
      "lex_loop q' (end_tok t1) = Some (n, t')"
      using r lex_word [OF 5 l, of q] \<open>0 \<le> n\<close> by (auto split: option.splits if_splits)
    obtain v s where v: "q = v @ d # s" "q' = d # s" "set v \<inter> special = {}" "d \<in> special" using lex_otherD [OF t1(1)] by auto
    let ?w = "c # v"
    have "holds_part t1 ts SH_TOK_OTHER ?w"
      using lex_other_word [OF v(3,4) holds_put [OF holds_start [OF h, of SH_TOK_OTHER], where c = c], where p = s] t1(1) v(1) by simp
    then have h': "holds_tokens (end_tok t1) (ts @ [Word ?w])" by (intro holds_end) simp_all
    obtain us where us: "command_line q' us" "holds_tokens t' ((ts @ [Word ?w]) @ us)" "n = int (length ((ts @ [Word ?w]) @ us))"
      "length ((ts @ [Word ?w]) @ us) \<le> 32" "tlen t' = length (flat ((ts @ [Word ?w]) @ us))"
      using IH [OF _ t1(3) \<open>0 \<le> n\<close> h'] l nt p v(1,2) by auto
    have "command_line (?w @ d # s) (Word ?w # us)"
      using us(1) v t1(2) 5 by (intro command_line.plain) (auto simp: special_def)
    then show ?thesis using us p v(1) by (intro exI [of _ "Word ?w # us"]) simp
  qed
qed

subsection \<open>Termination and the size of the token buffer\<close>

definition ends :: "u8 list \<Rightarrow> bool" where
  "ends p \<longleftrightarrow> NULLCH \<in> set p \<or> SH_NEWLINE \<in> set p"

text \<open>At most \<open>m\<close> bytes have been added to the token buffer, and nothing else was written.\<close>

definition grows :: "nat \<Rightarrow> lexst \<Rightarrow> lexst \<Rightarrow> bool" where
  "grows m t t' \<longleftrightarrow> tbindex t \<le> tbindex t' \<and> tbindex t' \<le> tbindex t + m \<and> (\<forall>k \<ge> tbindex t'. tokbuf t' k = tokbuf t k)"

lemma grows_trans: "grows m t u \<Longrightarrow> grows n u v \<Longrightarrow> m + n \<le> k \<Longrightarrow> grows k t v"
  by (auto simp: grows_def)

lemma grows_put: "grows 1 t (put_tok c t)"
  by (auto simp: grows_def put_tok_def)

lemma grows_start: "grows m t u \<Longrightarrow> grows m (start_tok k t) u"
  by (simp add: grows_def)

lemma grows_end: "grows m t u \<Longrightarrow> grows (Suc m) t (end_tok u)"
  by (auto simp: grows_def end_tok_def put_tok_def)

lemma lex_quoted_total:
  assumes "ends p"
  shows "\<exists>c p' t'. lex_quoted q p t = Some (c, p', t') \<and> grows (length p - Suc (length p')) t t' \<and> length p' < length p \<and>
    ntok t' = ntok t \<and> (c = q \<longrightarrow> q \<notin> {NULLCH, SH_NEWLINE} \<longrightarrow> ends p')"
  using assms
proof (induction p arbitrary: t)
  case Nil
  then show ?case by (simp add: ends_def)
next
  case (Cons d p)
  show ?case
  proof (cases "d \<noteq> q \<and> d \<noteq> SH_NEWLINE \<and> d \<noteq> NULLCH")
    case True
    then have "ends p" using Cons.prems by (auto simp: ends_def)
    from Cons.IH [OF this, of "put_tok d t"] obtain c p' t' where r: "lex_quoted q p (put_tok d t) = Some (c, p', t')"
      "grows (length p - Suc (length p')) (put_tok d t) t'" "length p' < length p" "ntok t' = ntok t"
      "c = q \<longrightarrow> q \<notin> {NULLCH, SH_NEWLINE} \<longrightarrow> ends p'" by auto
    have "grows (length (d # p) - Suc (length p')) t t'" by (rule grows_trans [OF grows_put r(2)]) (use r(3) in simp)
    then show ?thesis using True r by simp
  next
    case False
    then show ?thesis using Cons.prems by (auto simp: grows_def ends_def)
  qed
qed

lemma lex_other_total:
  assumes "ends p"
  shows "\<exists>c p' t'. lex_other p t = Some (c, p', t') \<and> grows (length p - length p') t t' \<and> length p' \<le> length p \<and>
    ntok t' = ntok t \<and> ends p'"
  using assms
proof (induction p arbitrary: t)
  case Nil
  then show ?case by (simp add: ends_def)
next
  case (Cons d p)
  show ?case
  proof (cases "d \<in> special")
    case False
    then have "ends p" using Cons.prems by (auto simp: ends_def special_def)
    from Cons.IH [OF this, of "put_tok d t"] obtain c p' t' where r: "lex_other p (put_tok d t) = Some (c, p', t')"
      "grows (length p - length p') (put_tok d t) t'" "length p' \<le> length p" "ntok t' = ntok t" "ends p'" by auto
    have "grows (length (d # p) - length p') t t'" by (rule grows_trans [OF grows_put r(2)]) (use r(3) in simp)
    then show ?thesis using False r by (simp add: special_def)
  next
    case True
    then have "lex_other (d # p) t = Some (d, d # p, t)" by (auto simp: special_def)
    then show ?thesis using Cons.prems by (simp add: grows_def)
  qed
qed

lemma lex_total:
  assumes "ends p" and "ntok t \<le> 32"
  shows "\<exists>n t'. lex_loop p t = Some (n, t') \<and> grows (length p + (32 - ntok t)) t t'"
  using assms
proof (induction p arbitrary: t rule: length_induct)
  case (1 p)
  note IH = 1(1) [rule_format]
  obtain c q where p: "p = c # q" using 1(2) by (cases p) (simp_all add: ends_def)
  have same: "grows m t t" "grows m t (t\<lparr>tlen := tbindex t\<rparr>)" for m by (simp_all add: grows_def)
  show ?case
  proof (cases "c \<in> {NULLCH, SH_NEWLINE} \<or> ntok t = 32")
    case True
    then show ?thesis using same 1(3) p by (subst lex_loop.simps) auto
  next
    case False
    then have l: "ntok t < 32" and q: "ends q" using 1(2,3) p by (auto simp: ends_def)
    consider "c \<in> {SH_BLANK, SH_TAB}" | "c \<in> {SH_AMPER, SH_LESS, SH_GREATER}" | "c \<in> {SH_SQUOTE, SH_DQUOTE}" | "c \<notin> special"
      using False by (auto simp: special_def)
    then show ?thesis
    proof cases
      case 1
      then show ?thesis using IH [OF _ q, of t] l p lex_blank [OF 1 l, of q] grows_trans [OF same(1) [of 0]] by fastforce
    next
      case 2
      let ?u = "end_tok (put_tok c (start_tok (if c = SH_AMPER then SH_TOK_AMPER else if c = SH_LESS then SH_TOK_LESS else SH_TOK_GREATER) t))"
      have u: "grows 2 t ?u" "ntok ?u = Suc (ntok t)" by (auto simp: grows_def end_tok_def put_tok_def)
      obtain n t' where "lex_loop q ?u = Some (n, t')" "grows (length q + (32 - ntok ?u)) ?u t'"
        using IH [OF _ q, of ?u] l u(2) p by auto
      then show ?thesis using lex_op [OF 2 l, of q] grows_trans [OF u(1)] u(2) l p by auto
    next
      case 3
      obtain d p' t1 where r: "lex_quoted c q (start_tok SH_TOK_OTHER t) = Some (d, p', t1)"
        "grows (length q - Suc (length p')) (start_tok SH_TOK_OTHER t) t1" "length p' < length q" "ntok t1 = ntok t" "d = c \<longrightarrow> ends p'"
        using lex_quoted_total [OF q, of c "start_tok SH_TOK_OTHER t"] 3 by auto
      have g: "grows (length q - Suc (length p')) t t1" using r(2) by (simp add: grows_def)
      show ?thesis
      proof (cases "d = c")
        case True
        obtain n t' where "lex_loop p' (end_tok t1) = Some (n, t')" "grows (length p' + (32 - Suc (ntok t))) (end_tok t1) t'"
          using IH [of p' "end_tok t1"] r(3-5) True l p by (auto simp: end_tok_def)
        then show ?thesis using lex_quote [OF 3 l, of q] r(1,3) True grows_trans [OF grows_end [OF g]] l p by auto
      next
        case False
        then show ?thesis using lex_quote [OF 3 l, of q] r(1) g p
          by (auto simp: grows_def)
      qed
    next
      case 4
      let ?t = "put_tok c (start_tok SH_TOK_OTHER t)"
      obtain d p' t1 where r: "lex_other q ?t = Some (d, p', t1)" "grows (length q - length p') ?t t1" "length p' \<le> length q"
        "ntok t1 = ntok t" "ends p'" using lex_other_total [OF q, of ?t] by auto
      have g: "grows (Suc (length q - length p')) t t1"
        by (rule grows_trans [OF _ r(2), of 1]) (auto simp: grows_def put_tok_def)
      obtain n t' where t': "lex_loop p' (end_tok t1) = Some (n, t')" "grows (length p' + (32 - Suc (ntok t))) (end_tok t1) t'"
        using IH [of p' "end_tok t1"] r(3-5) l p by (auto simp: end_tok_def)
      have "grows (length p + (32 - ntok t)) t t'" by (rule grows_trans [OF grows_end [OF g] t'(2)]) (use r(3) l p in simp)
      moreover have "grows (length p + (32 - ntok t)) t t1" by (rule grows_trans [OF g, of 0]) (use l p in \<open>simp_all add: grows_def\<close>)
      ultimately show ?thesis using lex_word [OF 4 l, of q] r(1) t'(1) p by simp
    qed
  qed
qed

lemma lex_result:
  assumes "lex_loop p t = Some (n, t')"
  shows "n = SYSERR \<or> 0 \<le> n"
  using assms
proof (induction p arbitrary: t rule: length_induct)
  case (1 p)
  note IH = 1(1) [rule_format] and r = 1(2)
  obtain c q where p: "p = c # q" using r by (cases p) (simp_all add: lex_loop.simps)
  note r = r [unfolded p]
  show ?case
  proof (cases "c \<in> {NULLCH, SH_NEWLINE} \<or> 32 \<le> ntok t")
    case True
    then show ?thesis using r by (subst (asm) lex_loop.simps) (auto split: if_splits)
  next
    case False
    then have l: "ntok t < 32" by simp
    consider "c \<in> {SH_BLANK, SH_TAB}" | "c \<in> {SH_AMPER, SH_LESS, SH_GREATER}" | "c \<in> {SH_SQUOTE, SH_DQUOTE}" | "c \<notin> special"
      using False by (auto simp: special_def)
    then show ?thesis
    proof cases
      case 1
      then show ?thesis using IH [of q t] r p lex_blank [OF 1 l, of q] by simp
    next
      case 2
      then show ?thesis using IH [of q] r p lex_op [OF 2 l, of q] by simp
    next
      case 3
      then obtain d p' t1 where q: "lex_quoted c q (start_tok SH_TOK_OTHER t) = Some (d, p', t1)"
        "(if d \<noteq> c then Some (SYSERR, t1) else lex_loop p' (end_tok t1)) = Some (n, t')"
        using r lex_quote [OF 3 l, of q] by (auto split: option.splits)
      have "length p' < length p" using lex_quoted_length [OF q(1)] p by simp
      then show ?thesis using q(2) IH [of p' "end_tok t1"] by (cases "d = c") simp_all
    next
      case 4
      then obtain d p' t1 where q: "lex_other q (put_tok c (start_tok SH_TOK_OTHER t)) = Some (d, p', t1)"
        "(if d = SH_SQUOTE \<or> d = SH_DQUOTE \<or> d = SH_LESS \<or> d = SH_GREATER then Some (SYSERR, t1) else lex_loop p' (end_tok t1)) = Some (n, t')"
        using r lex_word [OF 4 l, of q] by (auto split: option.splits)
      have "length p' < length p" using lex_other_length [OF q(1)] p by simp
      then show ?thesis using q(2) IH [of p' "end_tok t1"] by (auto split: if_splits)
    qed
  qed
qed

subsection \<open>Properties\<close>

text \<open>C38: for a line that ends with a newline or a null byte \<open>lexan\<close> returns, and it parses exactly the grammar: a result
  that is not \<open>SYSERR\<close> is the number of tokens of the line, at most 32, and the buffer and the arrays hold these tokens with
  their types; \<open>SYSERR\<close> is returned only when the line is no command line or has 32 tokens or more.\<close>

theorem lexan_parses:
  assumes "ends line"
  shows "\<exists>n t'. lexan line len t = Some (n, t') \<and>
    (if 0 \<le> n then \<exists>ts. command_line line ts \<and> n = int (length ts) \<and> length ts \<le> 32 \<and> holds_tokens t' ts \<and> tlen t' = length (flat ts)
     else n = SYSERR \<and> (\<forall>ts. command_line line ts \<longrightarrow> 32 \<le> length ts))"
proof -
  let ?t = "t\<lparr>ntok := 0, tbindex := 0\<rparr>"
  have h: "holds_tokens ?t []" by (simp add: holds_tokens_def)
  obtain n t' where r: "lex_loop line ?t = Some (n, t')" using lex_total [OF assms, of ?t] by auto
  have "n = SYSERR \<or> 0 \<le> n" by (rule lex_result [OF r])
  moreover have "32 \<le> length ts" if "n = SYSERR" "command_line line ts" for ts
    using lex_complete [OF that(2) h] r that(1) by (cases "length ts < 32") auto
  ultimately show ?thesis using lex_sound [OF r _ h] r by (auto simp: lexan_def)
qed

definition lex0 :: lexst where
  "lex0 = \<lparr>tokbuf = (\<lambda>_. 0), tbindex = 0, tok = (\<lambda>_. 0), toktyp = (\<lambda>_. 0), ntok = 0, tlen = 0\<rparr>"

text \<open>The line \<open>ls>'a b'&\<close>, a command line only with a blank before the redirection.\<close>

theorem lexan_parses_witness:
  "\<exists>n t' ts. lexan [0x6C, 0x73, 0x20, 0x3E, 0x27, 0x61, 0x20, 0x62, 0x27, 0x26, 0x0A] 11 lex0 = Some (n, t') \<and>
    command_line [0x6C, 0x73, 0x20, 0x3E, 0x27, 0x61, 0x20, 0x62, 0x27, 0x26, 0x0A] ts \<and> n = int (length ts) \<and> holds_tokens t' ts \<and> n = 4"
proof -
  let ?l = "[0x6C, 0x73, 0x20, 0x3E, 0x27, 0x61, 0x20, 0x62, 0x27, 0x26, 0x0A] :: u8 list"
  have "ends ?l" by (simp add: ends_def)
  moreover have "map_option fst (lexan ?l 11 lex0) = Some 4" by code_simp
  ultimately show ?thesis using lexan_parses [of ?l 11 lex0] by (auto split: if_splits)
qed

text \<open>C39: a line of at most 129 bytes, the size of the shell's buffer, never overruns the token buffer of 161 bytes, whatever
  it contains.\<close>

theorem lexan_in_bounds:
  assumes "ends line" and "length line \<le> 129"
  shows "\<exists>n t'. lexan line len t = Some (n, t') \<and> tbindex t' \<le> SHELL_ARGLEN \<and> (\<forall>k \<ge> SHELL_ARGLEN. tokbuf t' k = tokbuf t k)"
proof -
  let ?t = "t\<lparr>ntok := 0, tbindex := 0\<rparr>"
  obtain n t' where r: "lex_loop line ?t = Some (n, t')" "grows (length line + 32) ?t t'" using lex_total [OF assms(1), of ?t] by auto
  then have "tbindex t' \<le> 161" using assms(2) by (simp add: grows_def)
  moreover from this have "\<forall>k \<ge> 161. tokbuf t' k = tokbuf t k" using r(2) by (simp add: grows_def)
  ultimately show ?thesis using r(1) by (simp add: lexan_def)
qed

theorem lexan_in_bounds_witness:
  "\<exists>n t'. lexan (replicate 128 0x61 @ [0x0A]) 129 lex0 = Some (n, t') \<and> tbindex t' \<le> 161 \<and> (\<forall>k \<ge> 161. tokbuf t' k = tokbuf lex0 k)"
  by (rule lexan_in_bounds) (simp_all add: ends_def)

text \<open>A line of 32 tokens is accepted, and refused with a blank behind it: the number of tokens is tested before blanks are
  skipped.\<close>

theorem lexan_trailing_blank:
  "map_option fst (lexan (replicate 32 0x26 @ [0x0A]) 33 lex0) = Some 32"
  "map_option fst (lexan (replicate 32 0x26 @ [0x20, 0x0A]) 34 lex0) = Some SYSERR"
  by code_simp+

end
