(* ===== verification/Dotted.thy ===== *)
theory Dotted
  imports Prelude
begin

section \<open>Internet addresses in dotted decimal\<close>

text \<open>
  net/dot2ip.c. The string is the list of the bytes of its buffer, reading behind it is \<open>None\<close>; a segment ends in an error
  (\<open>Inl\<close>) or in its value, the character that ended it and what follows.
\<close>

fun dot_seg :: "nat \<Rightarrow> int \<Rightarrow> u8 list \<Rightarrow> (unit + int \<times> u8 \<times> u8 list) option" where
  "dot_seg nch val [] = None"
| "dot_seg nch val (ch # dotted) =
     (if ch = 0 \<or> ch = 0x2E then Some (if nch = 0 then Inl () else Inr (val, ch, dotted))
      else if nch \<ge> 3 \<or> ch < 0x30 \<or> ch > 0x39 then Some (Inl ())
      else dot_seg (nch + 1) (10 * val + (uint ch - 0x30)) dotted)"

text \<open>\<open>k\<close> segments are left; the result is the final address, or \<open>Inl\<close>.\<close>

fun dot_segs :: "nat \<Rightarrow> u32 \<Rightarrow> u8 list \<Rightarrow> (unit + u32) option" where
  "dot_segs 0 ipaddr dotted = Some (Inl ())"
| "dot_segs (Suc k) ipaddr dotted =
     (case dot_seg 0 0 dotted of
        None \<Rightarrow> None
      | Some (Inl _) \<Rightarrow> Some (Inl ())
      | Some (Inr (val, ch, dotted)) \<Rightarrow>
          if val > 255 then Some (Inl ())
          else let ipaddr = push_bit 8 ipaddr OR word_of_int val in
            if ch = 0 then Some (Inr ipaddr) else dot_segs k ipaddr dotted)"

definition dot2ip :: "u8 list \<Rightarrow> u32 \<Rightarrow> (int \<times> u32) option" where
  "dot2ip dotted result = (case dot_segs 4 0 dotted of None \<Rightarrow> None | Some (Inl _) \<Rightarrow> Some (SYSERR, result) | Some (Inr ip) \<Rightarrow> Some (OK, ip))"

subsection \<open>The format\<close>

definition digits :: "u8 list \<Rightarrow> bool" where
  "digits ds \<longleftrightarrow> ds \<noteq> [] \<and> length ds \<le> 3 \<and> (\<forall>d \<in> set ds. 0x30 \<le> d \<and> d \<le> 0x39)"

definition dec_value :: "u8 list \<Rightarrow> int" where
  "dec_value ds = foldl (\<lambda>v d. 10 * v + (uint d - 0x30)) 0 ds"

fun dotted :: "u8 list list \<Rightarrow> u8 list" where
  "dotted [] = []"
| "dotted [ds] = ds @ [0]"
| "dotted (ds # dss) = ds @ 0x2E # dotted dss"

definition ip_value :: "u32 \<Rightarrow> u8 list list \<Rightarrow> u32" where
  "ip_value = foldl (\<lambda>ip ds. push_bit 8 ip OR word_of_int (dec_value ds))"

text \<open>One to four numbers of at most three digits, none above 255.\<close>

definition segments :: "nat \<Rightarrow> u8 list list \<Rightarrow> bool" where
  "segments k dss \<longleftrightarrow> dss \<noteq> [] \<and> length dss \<le> k \<and> (\<forall>ds \<in> set dss. digits ds \<and> dec_value ds \<le> 255)"

lemma dot_seg_digits:
  assumes "\<forall>d \<in> set ds. 0x30 \<le> d \<and> d \<le> 0x39" and "n + length ds \<le> 3" and "0 < n + length ds" and "c = 0 \<or> c = 0x2E"
  shows "dot_seg n v (ds @ c # p) = Some (Inr (foldl (\<lambda>v d. 10 * v + (uint d - 0x30)) v ds, c, p))"
  using assms
proof (induction ds arbitrary: n v)
  case (Cons d ds)
  then have "0x30 \<le> d" "d \<le> 0x39" by simp_all
  then have "d \<noteq> 0" "d \<noteq> 0x2E" "\<not> d < 0x30" "\<not> d > 0x39" by auto
  then show ?case using Cons.IH [of "n + 1"] Cons.prems by (auto split: if_splits)
qed auto

lemma dot_segD:
  assumes "dot_seg n v xs = Some (Inr (val, c, p))" and "n \<le> 3"
  shows "\<exists>ds. xs = ds @ c # p \<and> (\<forall>d \<in> set ds. 0x30 \<le> d \<and> d \<le> 0x39) \<and> n + length ds \<le> 3 \<and> 0 < n + length ds \<and>
    (c = 0 \<or> c = 0x2E) \<and> val = foldl (\<lambda>v d. 10 * v + (uint d - 0x30)) v ds"
  using assms
proof (induction n v xs rule: dot_seg.induct)
  case (2 n v ch xs)
  show ?case
  proof (cases "ch = 0 \<or> ch = 0x2E")
    case True
    with 2(2,3) show ?thesis by (intro exI [of _ "[]"]) (auto split: if_splits)
  next
    case False
    with 2(2) have d: "\<not> (n \<ge> 3 \<or> ch < 0x30 \<or> ch > 0x39)" by (auto split: if_splits)
    have r: "dot_seg (n + 1) (10 * v + (uint ch - 0x30)) xs = Some (Inr (val, c, p))" using 2(2) False d by simp
    obtain ds where "xs = ds @ c # p" "\<forall>d \<in> set ds. 0x30 \<le> d \<and> d \<le> 0x39" "n + 1 + length ds \<le> 3" "c = 0 \<or> c = 0x2E"
      "val = foldl (\<lambda>v d. 10 * v + (uint d - 0x30)) (10 * v + (uint ch - 0x30)) ds"
      using 2(1) [OF False d r] d by auto
    then show ?thesis using d by (intro exI [of _ "ch # ds"]) auto
  qed
qed simp

lemma dot_segs_complete:
  assumes "segments k dss"
  shows "dot_segs k ip (dotted dss @ p) = Some (Inr (ip_value ip dss))"
  using assms
proof (induction dss arbitrary: k ip rule: dotted.induct)
  case 1
  then show ?case by (simp add: segments_def)
next
  case (2 ds)
  then obtain j where k: "k = Suc j" and d: "digits ds" "dec_value ds \<le> 255" by (cases k) (auto simp: segments_def)
  then show ?case using dot_seg_digits [of ds 0 0 0 p] by (simp add: digits_def dec_value_def ip_value_def Let_def)
next
  case (3 ds ds' dss)
  then obtain j where k: "k = Suc j" and d: "digits ds" "dec_value ds \<le> 255" and s: "segments j (ds' # dss)"
    by (cases k) (auto simp: segments_def)
  then show ?case using dot_seg_digits [of ds 0 "0x2E" 0 "dotted (ds' # dss) @ p"] 3(1) [OF s]
    by (simp add: digits_def dec_value_def ip_value_def Let_def)
qed

lemma dot_segs_sound:
  assumes "dot_segs k ip xs = Some (Inr r)"
  shows "\<exists>dss p. xs = dotted dss @ p \<and> segments k dss \<and> r = ip_value ip dss"
  using assms
proof (induction k arbitrary: ip xs)
  case (Suc k)
  obtain val c p where s: "dot_seg 0 0 xs = Some (Inr (val, c, p))" "\<not> val > 255"
    "(let ipaddr = push_bit 8 ip OR word_of_int val in if c = 0 then Some (Inr ipaddr) else dot_segs k ipaddr p) = Some (Inr r)"
    using Suc.prems by (auto split: option.splits sum.splits if_splits)
  obtain ds where d: "xs = ds @ c # p" "digits ds" "c = 0 \<or> c = 0x2E" "val = dec_value ds"
    using dot_segD [OF s(1)] by (auto simp: digits_def dec_value_def)
  show ?case
  proof (cases "c = 0")
    case True
    then have "xs = dotted [ds] @ p \<and> segments (Suc k) [ds] \<and> r = ip_value ip [ds]"
      using s(2,3) d by (simp add: segments_def ip_value_def Let_def)
    then show ?thesis by blast
  next
    case False
    then obtain dss q where t: "p = dotted dss @ q" "segments k dss" "r = ip_value (push_bit 8 ip OR word_of_int val) dss"
      using Suc.IH [of "push_bit 8 ip OR word_of_int val" p] s(3) by (auto simp: Let_def)
    obtain e es where "dss = e # es" using t(2) by (cases dss) (auto simp: segments_def)
    then have "xs = dotted (ds # dss) @ q \<and> segments (Suc k) (ds # dss) \<and> r = ip_value ip (ds # dss)"
      using s(2) d False t by (simp add: segments_def ip_value_def)
    then show ?thesis by blast
  qed
qed simp

text \<open>\<open>dot2ip\<close> accepts exactly one to four decimal numbers with dots between them and a null byte behind, each of one to
  three digits and at most 255, and stores the numbers as the bytes of the address, the last one lowest.\<close>

theorem dot2ip_accepts:
  "dot2ip xs result = Some (OK, ip) \<longleftrightarrow> (\<exists>dss p. xs = dotted dss @ p \<and> segments 4 dss \<and> ip = ip_value 0 dss)"
proof -
  have "dot2ip xs result = Some (OK, ip) \<longleftrightarrow> dot_segs 4 0 xs = Some (Inr ip)"
    by (auto simp: dot2ip_def split: option.split sum.split)
  then show ?thesis using dot_segs_sound [of 4 0 xs ip] dot_segs_complete [of 4 _ 0] by auto
qed

text \<open>The comment asks for four numbers; \<open>10.1\<close> is accepted as 0.0.10.1.\<close>

theorem dot2ip_two_numbers: "dot2ip [0x31, 0x30, 0x2E, 0x31, 0] result = Some (OK, 0x0A01)"
  by code_simp

end
