(* ===== verification/Strings.thy ===== *)
theory Strings
  imports Prelude
begin

section \<open>The C library: strings and memory blocks\<close>

text \<open>
  lib/strlen.c, strnlen.c, strcmp.c, strncmp.c, strcpy.c, strncpy.c, strncat.c, strchr.c, strrchr.c,
  strstr.c, memcpy.c, memset.c, memcmp.c, memchr.c, bzero.c, atoi.c, atol.c, abs.c, labs.c, rand.c over a
  byte memory. A \<open>char\<close> is signed, so characters are compared through \<open>sint\<close>. A loop that relies
  on a null character has the result \<open>None\<close> when it never meets one. Overflow of a signed
  integer is undefined in C; counters and results are unbounded here.
\<close>

type_synonym bmem = "addr \<Rightarrow> u8"

subsection \<open>Lengths and comparison\<close>

partial_function (option) strlen_loop :: "bmem \<Rightarrow> addr \<Rightarrow> int \<Rightarrow> int option" where
  "strlen_loop h str len = (if h str \<noteq> 0 then strlen_loop h (str + 1) (len + 1) else Some len)"

definition strlen :: "bmem \<Rightarrow> addr \<Rightarrow> int option" where
  "strlen h str = strlen_loop h str 0"

text \<open>\<open>n < len\<close> compares an \<open>int\<close> with an \<open>unsigned int\<close>, so the comparison is unsigned; \<open>n\<close> never
  exceeds \<open>len\<close>.\<close>

partial_function (option) strnlen_loop :: "bmem \<Rightarrow> addr \<Rightarrow> u32 \<Rightarrow> u32 \<Rightarrow> u32 option" where
  "strnlen_loop h s len n = (if h s \<noteq> 0 \<and> n < len then strnlen_loop h (s + 1) len (n + 1) else Some n)"

definition strnlen :: "bmem \<Rightarrow> addr \<Rightarrow> u32 \<Rightarrow> int option" where
  "strnlen h s len = map_option sint (strnlen_loop h s len 0)"

partial_function (option) strcmp :: "bmem \<Rightarrow> addr \<Rightarrow> addr \<Rightarrow> int option" where
  "strcmp h str1 str2 =
     (if h str1 = h str2 then if h str1 = 0 then Some 0 else strcmp h (str1 + 1) (str2 + 1)
      else if sint (h str1) < sint (h str2) then Some (- 1) else Some 1)"

text \<open>\<open>n\<close> counts down before each comparison.\<close>

fun strncmp_loop :: "bmem \<Rightarrow> addr \<Rightarrow> addr \<Rightarrow> nat \<Rightarrow> int" where
  "strncmp_loop h s1 s2 0 = 0"
| "strncmp_loop h s1 s2 (Suc n) =
     (if h s1 = h s2 then if h s1 = 0 then 0 else strncmp_loop h (s1 + 1) (s2 + 1) n
      else sint (h s1) - sint (h s2))"

definition strncmp :: "bmem \<Rightarrow> addr \<Rightarrow> addr \<Rightarrow> int \<Rightarrow> int" where
  "strncmp h s1 s2 n = strncmp_loop h s1 s2 (nat n)"

subsection \<open>Copying\<close>

partial_function (option) strcpy_loop :: "bmem \<Rightarrow> addr \<Rightarrow> addr \<Rightarrow> bmem option" where
  "strcpy_loop h tar src =
     (let c = h src; h = h(tar := c) in if c \<noteq> 0 then strcpy_loop h (tar + 1) (src + 1) else Some h)"

definition strcpy :: "bmem \<Rightarrow> addr \<Rightarrow> addr \<Rightarrow> (int \<times> bmem) option" where
  "strcpy h tar src = map_option (Pair 0) (strcpy_loop h tar src)"

fun nul_fill :: "bmem \<Rightarrow> addr \<Rightarrow> nat \<Rightarrow> bmem" where
  "nul_fill h s1 0 = h"
| "nul_fill h s1 (Suc n) = nul_fill (h(s1 := 0)) (s1 + 1) n"

fun strncpy_loop :: "bmem \<Rightarrow> addr \<Rightarrow> addr \<Rightarrow> nat \<Rightarrow> bmem" where
  "strncpy_loop h s1 s2 0 = h"
| "strncpy_loop h s1 s2 (Suc n) =
     (let c = h s2; h = h(s1 := c) in
      if c = 0 then nul_fill h (s1 + 1) n else strncpy_loop h (s1 + 1) (s2 + 1) n)"

definition strncpy :: "bmem \<Rightarrow> addr \<Rightarrow> addr \<Rightarrow> int \<Rightarrow> addr \<times> bmem" where
  "strncpy h s1 s2 n = (s1, strncpy_loop h s1 s2 (nat n))"

partial_function (option) str_end :: "bmem \<Rightarrow> addr \<Rightarrow> addr option" where
  "str_end h s = (if h s \<noteq> 0 then str_end h (s + 1) else Some s)"

partial_function (option) strncat_loop :: "bmem \<Rightarrow> addr \<Rightarrow> addr \<Rightarrow> int \<Rightarrow> bmem option" where
  "strncat_loop h s1 s2 n =
     (let c = h s2; h = h(s1 := c) in
      if c = 0 then Some h
      else if n - 1 < 0 then Some (h(s1 := 0))
      else strncat_loop h (s1 + 1) (s2 + 1) (n - 1))"

definition strncat :: "bmem \<Rightarrow> addr \<Rightarrow> addr \<Rightarrow> int \<Rightarrow> (addr \<times> bmem) option" where
  "strncat h s1 s2 n = do { e \<leftarrow> str_end h s1; h \<leftarrow> strncat_loop h e s2 n; Some (s1, h) }"

fun memcpy_loop :: "bmem \<Rightarrow> addr \<Rightarrow> addr \<Rightarrow> nat \<Rightarrow> bmem" where
  "memcpy_loop h dst src 0 = h"
| "memcpy_loop h dst src (Suc n) = memcpy_loop (h(dst := h src)) (dst + 1) (src + 1) n"

definition memcpy :: "bmem \<Rightarrow> addr \<Rightarrow> addr \<Rightarrow> int \<Rightarrow> addr \<times> bmem" where
  "memcpy h s ct n = (s, memcpy_loop h s ct (nat n))"

fun memset_loop :: "bmem \<Rightarrow> addr \<Rightarrow> u8 \<Rightarrow> nat \<Rightarrow> bmem" where
  "memset_loop h cp c 0 = h"
| "memset_loop h cp c (Suc n) = memset_loop (h(cp := c)) (cp + 1) c n"

definition memset :: "bmem \<Rightarrow> addr \<Rightarrow> int \<Rightarrow> int \<Rightarrow> addr \<times> bmem" where
  "memset h s c n = (s, memset_loop h s (word_of_int c) (nat n))"

definition bzero :: "bmem \<Rightarrow> addr \<Rightarrow> int \<Rightarrow> bmem" where
  "bzero h p len = (if len \<le> 0 then h else memset_loop h p 0 (nat len))"

subsection \<open>Searching\<close>

text \<open>A pointer result is \<open>0\<close> for the null pointer.\<close>

partial_function (option) strchr :: "bmem \<Rightarrow> addr \<Rightarrow> int \<Rightarrow> addr option" where
  "strchr h s c =
     (if h s \<noteq> 0 then if h s = word_of_int c then Some s else strchr h (s + 1) c
      else if word_of_int c = h s then Some s else Some 0)"

partial_function (option) strrchr_loop :: "bmem \<Rightarrow> addr \<Rightarrow> int \<Rightarrow> addr \<Rightarrow> addr option" where
  "strrchr_loop h s c r =
     (if h s \<noteq> 0 then strrchr_loop h (s + 1) c (if h s = word_of_int c then s else r)
      else if word_of_int c = h s then Some s else Some r)"

definition strrchr :: "bmem \<Rightarrow> addr \<Rightarrow> int \<Rightarrow> addr option" where
  "strrchr h s c = strrchr_loop h s c 0"

partial_function (option) strstr_match :: "bmem \<Rightarrow> addr \<Rightarrow> addr \<Rightarrow> addr option" where
  "strstr_match h cq cr =
     (if h cq \<noteq> 0 \<and> h cr \<noteq> 0 \<and> h cq = h cr then strstr_match h (cq + 1) (cr + 1) else Some cr)"

partial_function (option) strstr :: "bmem \<Rightarrow> addr \<Rightarrow> addr \<Rightarrow> addr option" where
  "strstr h cs ct =
     (if h cs \<noteq> 0 then
        if h cs = h ct then do {
          cr \<leftarrow> strstr_match h cs ct;
          if h cr = 0 then Some cs else strstr h (cs + 1) ct
        }
        else strstr h (cs + 1) ct
      else Some 0)"

fun memcmp_loop :: "bmem \<Rightarrow> addr \<Rightarrow> addr \<Rightarrow> nat \<Rightarrow> int" where
  "memcmp_loop h c1 c2 0 = 0"
| "memcmp_loop h c1 c2 (Suc n) =
     (if h c1 \<noteq> h c2 then uint (h c1) - uint (h c2) else memcmp_loop h (c1 + 1) (c2 + 1) n)"

definition memcmp :: "bmem \<Rightarrow> addr \<Rightarrow> addr \<Rightarrow> int \<Rightarrow> int" where
  "memcmp h s1 s2 n = memcmp_loop h s1 s2 (nat n)"

text \<open>The loop of \<open>memchr\<close> ends at a null character and never looks at \<open>n\<close>; it compares a signed
  \<open>char\<close> with an \<open>unsigned char\<close>, both promoted to \<open>int\<close>.\<close>

partial_function (option) memchr :: "bmem \<Rightarrow> addr \<Rightarrow> int \<Rightarrow> int \<Rightarrow> addr option" where
  "memchr h cp c n =
     (if h cp \<noteq> 0 then if sint (h cp) = uint (word_of_int c :: u8) then Some cp else memchr h (cp + 1) c n
      else Some 0)"

subsection \<open>Numbers\<close>

text \<open>The scan over blanks and the sign: the position of the first digit and whether a minus
  was seen.\<close>

partial_function (option) atoi_sign :: "bmem \<Rightarrow> addr \<Rightarrow> (addr \<times> bool) option" where
  "atoi_sign h p =
     (if h p = 32 \<or> h p = 9 then atoi_sign h (p + 1)
      else if h p = 45 then Some (p + 1, True)
      else if h p = 43 then Some (p + 1, False)
      else Some (p, False))"

partial_function (option) atoi_digits :: "bmem \<Rightarrow> addr \<Rightarrow> int \<Rightarrow> int option" where
  "atoi_digits h p n =
     (if 48 \<le> sint (h p) \<and> sint (h p) \<le> 57 then atoi_digits h (p + 1) (n * 10 + sint (h p) - 48) else Some n)"

definition atoi :: "bmem \<Rightarrow> addr \<Rightarrow> int option" where
  "atoi h p = do { (p, f) \<leftarrow> atoi_sign h p; n \<leftarrow> atoi_digits h p 0; Some (if f then - n else n) }"

definition atol :: "bmem \<Rightarrow> addr \<Rightarrow> int option" where
  "atol h p = do { (p, f) \<leftarrow> atoi_sign h p; n \<leftarrow> atoi_digits h p 0; Some (if f then - n else n) }"

definition abs_c :: "int \<Rightarrow> int" where
  "abs_c arg = (if arg < 0 then - arg else arg)"

definition labs :: "int \<Rightarrow> int" where
  "labs arg = (if arg < 0 then - arg else arg)"

text \<open>The generator keeps its state \<open>randx\<close> in an \<open>unsigned long\<close> of 32 bits.\<close>

definition srand :: "u32 \<Rightarrow> u32" where
  "srand x = x"

definition rand :: "u32 \<Rightarrow> u32 \<times> u32" where
  "rand randx = (let randx = randx * 1103515245 + 12345 in (drop_bit 16 randx AND 0x7FFF, randx))"

subsection \<open>Null-terminated strings\<close>

text \<open>\<open>cstr h p xs\<close>: the memory holds the characters \<open>xs\<close>, none of them null, and then a null
  character.\<close>

fun cstr :: "bmem \<Rightarrow> addr \<Rightarrow> u8 list \<Rightarrow> bool" where
  "cstr h p [] \<longleftrightarrow> h p = 0"
| "cstr h p (x # xs) \<longleftrightarrow> h p = x \<and> x \<noteq> 0 \<and> cstr h (p + 1) xs"

lemma strlen_loop_cstr: "cstr h p xs \<Longrightarrow> strlen_loop h p n = Some (n + int (length xs))"
proof (induction xs arbitrary: p n)
  case Nil
  then show ?case by (simp add: strlen_loop.simps)
next
  case (Cons x xs)
  then show ?case by (subst strlen_loop.simps) auto
qed

lemma strcmp_cstr:
  assumes "cstr h p xs" and "cstr h q ys"
  shows "\<exists>r. strcmp h p q = Some r \<and> (r = 0 \<longleftrightarrow> xs = ys)"
  using assms
proof (induction xs arbitrary: p q ys)
  case Nil
  then show ?case by (cases ys) (auto simp: strcmp.simps [of h p q])
next
  case (Cons x xs)
  then show ?case by (cases ys) (auto simp: strcmp.simps [of h p q])
qed

lemma strncmp_cstr:
  assumes "cstr h p xs" and "cstr h q ys"
  shows "strncmp_loop h p q n = 0 \<longleftrightarrow> take n xs = take n ys"
  using assms
proof (induction n arbitrary: p q xs ys)
  case (Suc n)
  have inj: "sint a = sint b \<longleftrightarrow> a = b" for a b :: u8 using signed_word_eqI [of a b] by auto
  have inj0: "sint a = 0 \<longleftrightarrow> a = 0" "0 = sint a \<longleftrightarrow> a = 0" for a :: u8 using inj [of a 0] by auto
  show ?case using Suc by (cases xs; cases ys) (auto simp: inj inj0)
qed simp

text \<open>A region of \<open>n\<close> bytes.\<close>

fun region :: "addr \<Rightarrow> nat \<Rightarrow> addr set" where
  "region p 0 = {}"
| "region p (Suc n) = insert p (region (p + 1) n)"

lemmas region_Suc = region.simps(2)

lemma region_mem: "a \<in> region p n \<Longrightarrow> \<exists>k<n. a = p + of_nat k"
proof (induction n arbitrary: p)
  case (Suc n)
  show ?case
  proof (cases "a = p")
    case False
    then obtain k where "k < n" "a = p + 1 + of_nat k" using Suc by auto
    then show ?thesis by (intro exI [of _ "Suc k"]) (simp add: add.assoc)
  qed (auto intro: exI [of _ 0])
qed simp

lemma cstr_upd: "a \<notin> region p (Suc (length xs)) \<Longrightarrow> cstr (h(a := c)) p xs = cstr h p xs"
proof (induction xs arbitrary: p)
  case Nil
  then show ?case by (simp add: region_Suc)
next
  case (Cons x xs)
  then have "a \<noteq> p" "a \<notin> region (p + 1) (Suc (length xs))" by (simp_all add: region_Suc [of p "Suc (length xs)"])
  then show ?case using Cons.IH [of "p + 1"] by auto
qed

lemma not_region_next:
  assumes "n < 2 ^ 32"
  shows "p \<notin> region (p + 1) n"
proof
  assume "p \<in> region (p + 1) n"
  then obtain k where k: "k < n" "p = p + 1 + of_nat k" using region_mem by blast
  then have "(of_nat (Suc k) :: addr) = 0" by (simp add: add.assoc)
  then have "2 ^ 32 dvd Suc k" using word_of_nat_eq_0_iff [where 'a = 32, of "Suc k"] by simp
  then have "2 ^ 32 \<le> Suc k" by (rule dvd_imp_le) simp
  then show False using k(1) assms by linarith
qed

lemma strcpy_loop_frame:
  assumes "cstr h src xs" and "region tar (Suc (length xs)) \<inter> region src (Suc (length xs)) = {}"
    and "length xs < 2 ^ 32 - 1"
  shows "\<exists>h'. strcpy_loop h tar src = Some h' \<and> cstr h' tar xs \<and>
    (\<forall>a. a \<notin> region tar (Suc (length xs)) \<longrightarrow> h' a = h a)"
  using assms
proof (induction xs arbitrary: h tar src)
  case Nil
  then show ?case by (subst strcpy_loop.simps) auto
next
  case (Cons x xs)
  let ?h = "h(tar := x)"
  have nin: "tar \<notin> region (src + 1) (Suc (length xs))"
    using Cons.prems(2) unfolding length_Cons region_Suc [of tar "Suc (length xs)"] region_Suc [of src "Suc (length xs)"]
    by blast
  have "cstr ?h (src + 1) xs" using Cons.prems(1) cstr_upd [OF nin] by simp
  moreover have "region (tar + 1) (Suc (length xs)) \<inter> region (src + 1) (Suc (length xs)) = {}"
    using Cons.prems(2) unfolding length_Cons region_Suc [of tar "Suc (length xs)"] region_Suc [of src "Suc (length xs)"]
    by blast
  moreover have "length xs < 2 ^ 32 - 1" using Cons.prems(3) by simp
  ultimately have "\<exists>h'. strcpy_loop ?h (tar + 1) (src + 1) = Some h' \<and> cstr h' (tar + 1) xs \<and>
      (\<forall>a. a \<notin> region (tar + 1) (Suc (length xs)) \<longrightarrow> h' a = ?h a)" by (rule Cons.IH)
  then obtain h' where h': "strcpy_loop ?h (tar + 1) (src + 1) = Some h'" "cstr h' (tar + 1) xs"
    "\<forall>a. a \<notin> region (tar + 1) (Suc (length xs)) \<longrightarrow> h' a = ?h a" by blast
  have "tar \<notin> region (tar + 1) (Suc (length xs))" using Cons.prems(3) by (intro not_region_next) simp
  then have "h' tar = x" using h'(3) by auto
  then show ?case using h' Cons.prems(1)
    by (subst strcpy_loop.simps) (auto simp: region_Suc [of tar "Suc (length xs)"])
qed

lemma cstr_cong: "(\<And>a. a \<in> region p (Suc (length xs)) \<Longrightarrow> h' a = h a) \<Longrightarrow> cstr h' p xs = cstr h p xs"
proof (induction xs arbitrary: p)
  case (Cons x xs)
  have "h' p = h p" using Cons.prems [of p] by simp
  moreover have "cstr h' (p + 1) xs = cstr h (p + 1) xs" by (rule Cons.IH) (use Cons.prems in simp)
  ultimately show ?case by simp
qed simp

subsection \<open>Properties\<close>

definition demo_mem :: bmem where
  "demo_mem = (\<lambda>_. 0)(0x1000 := 120, 0x1001 := 105, 0x1002 := 110, 0x1003 := 117)"

lemma demo_str: "cstr demo_mem 0x1000 [120, 105, 110, 117]"
  by (simp add: demo_mem_def)

text \<open>\<open>strcpy\<close> between strings that do not overlap returns, makes the target equal to the source in the sense of
  \<open>strcmp\<close> and \<open>strlen\<close>, and writes nothing outside the target.\<close>

theorem strcpy_copies:
  assumes "cstr h src xs" and "region tar (Suc (length xs)) \<inter> region src (Suc (length xs)) = {}" and "length xs < 2 ^ 32 - 1"
  shows "\<exists>h'. strcpy h tar src = Some (0, h') \<and> strcmp h' tar src = Some 0 \<and> strlen h' tar = strlen h src \<and>
    (\<forall>a. a \<notin> region tar (Suc (length xs)) \<longrightarrow> h' a = h a)"
proof -
  obtain h' where h': "strcpy_loop h tar src = Some h'" "cstr h' tar xs" "\<forall>a. a \<notin> region tar (Suc (length xs)) \<longrightarrow> h' a = h a"
    using strcpy_loop_frame [OF assms] by blast
  have "cstr h' src xs = cstr h src xs" by (rule cstr_cong) (use h'(3) assms(2) in blast)
  then have "strcmp h' tar src = Some 0" using strcmp_cstr [OF h'(2), of src xs] assms(1) by auto
  moreover have "strlen h' tar = strlen h src" using strlen_loop_cstr [OF h'(2)] strlen_loop_cstr [OF assms(1)] by (simp add: strlen_def)
  ultimately show ?thesis using h'(1,3) by (intro exI [of _ h']) (simp add: strcpy_def)
qed

theorem strcpy_copies_witness:
  "\<exists>h'. strcpy demo_mem 0x2000 0x1000 = Some (0, h') \<and> strcmp h' 0x2000 0x1000 = Some 0 \<and> strlen h' 0x2000 = strlen demo_mem 0x1000"
proof -
  have "region 0x2000 (Suc (length [120, 105, 110, 117 :: u8])) \<inter> region 0x1000 (Suc (length [120, 105, 110, 117 :: u8])) = {}"
    by (simp only: list.size add_Suc_right add_0_right region.simps) simp
  moreover have "length [120, 105, 110, 117 :: u8] < 2 ^ 32 - 1" by simp
  ultimately show ?thesis using strcpy_copies [OF demo_str] by blast
qed

text \<open>\<open>strcmp\<close> returns and is zero exactly on equal strings; \<open>strncmp\<close> is zero exactly when the first \<open>n\<close> characters
  agree.\<close>

theorem string_comparison:
  assumes "cstr h p xs" and "cstr h q ys"
  shows "(\<exists>r. strcmp h p q = Some r \<and> (r = 0 \<longleftrightarrow> xs = ys)) \<and> (strncmp h p q n = 0 \<longleftrightarrow> take (nat n) xs = take (nat n) ys)"
  using strcmp_cstr [OF assms] strncmp_cstr [OF assms] by (simp add: strncmp_def)

theorem string_comparison_witness: "\<exists>r. strcmp demo_mem 0x1000 0x1002 = Some r \<and> r \<noteq> 0"
proof -
  have "cstr demo_mem 0x1002 [110, 117]" by (simp add: demo_mem_def)
  from string_comparison [OF demo_str this, of 4] show ?thesis by auto
qed

end
