(* ===== verification/Spec2Isabelle.thy ===== *)
theory Spec2Isabelle
  imports Kernel_Properties Memory_Properties Paging_Properties Process_Properties Ipc_Properties File_Properties Terminal_Properties Name_Properties Qty_Properties Lexan Dotted Strings
begin

text \<open>
  \<^bold>\<open>Verification of the Xinu kernel with demand paging\<close>

  \<^bold>\<open>The program.\<close> src/ is the Xinu teaching kernel for the x86 with a paging system: a process manager
  (queues, priority scheduler, semaphores, messages, sleeping processes, clock interrupt), memory
  managers (kernel heap and stacks, virtual heaps of processes), a paging system (frames, page
  directories and page tables, page fault handler, page replacement, backing stores on a disk), a
  device switch with block devices, ports, buffer pools, a local file system and a small C library.

  \<^bold>\<open>How a call is modelled.\<close> The kernel runs with interrupts disabled, so most calls are one atomic
  step: a function from the state to the return value and the new state. \<open>None\<close> says that the call
  does not return (an endless loop, \<open>panic\<close>, \<open>halt\<close>). A call that gives the processor away in the
  middle (page faults, drivers, file operations) is a program, a tree of atomic actions
  (Programs): \<open>run\<close> executes it as long as its process stays the current one, and \<open>runs m s r s'\<close> is
  total correctness of an uninterrupted run. The state is an extensible record: \<open>kstate\<close> (process
  manager), \<open>mstate\<close> (word memory, heap), \<open>vstate\<close>, \<open>pgstate\<close> (paging and disks), \<open>ptstate_t\<close> (ports),
  \<open>bufstate\<close> (buffer pools), \<open>lfstate_t\<close> (file system), \<open>ttystate_t\<close> (terminal), so an operation of a lower
  layer runs unchanged in an upper one.

  \<^bold>\<open>Theories and sources.\<close>
  \<^item> Prelude, Interfaces: types and constants; the contracts \<open>allocator\<close>, \<open>fifo\<close>, \<open>machine\<close> as locales
    (with \<open>view\<close> in Views and \<open>simulation\<close> in Simulation), interpreted on the operations of the kernel heap (\<open>kmem\<close>), the stacks (\<open>kstk\<close>), the virtual heap
    (\<open>vmem\<close>), the process queues (\<open>pq\<close>), the frame queue (\<open>fq\<close>), the process manager (\<open>km\<close>), the frame
    table (\<open>fm\<close>), the part of the state that a file operation works on (\<open>lf\<close>), the terminal (\<open>tty\<close>) and the console of the QEMU build (\<open>qty\<close>).
  \<^item> Kernel_State, Queues, Scheduler, Semaphores, Sleep_Clock, Messages: include/process.h, queue.h,
    semaphore.h; system/queue.c, getitem.c, insert.c, insertd.c, newqueue.c, resched.c, ready.c,
    resume.c, suspend.c, yield.c, chprio.c, wait.c, signal.c, signaln.c, sem*.c, sleep.c, unsleep.c,
    wakeup.c, clkhandler.c, send.c, receive.c, recvclr.c, recvtime.c.
  \<^item> Free_List, Memory, Virtual_Heap: system/getmem.c, freemem.c, getstk.c, meminit.c, vgetmem.c,
    vfreemem.c. The blocks are nodes in memory; the search loops are \<open>partial_function\<close>s.
  \<^item> Paging_State, Frames, Translation, Devices, Backing_Store, Process, Paging: include/paging.h, ipt.h,
    page_server.h; system/ipt.c, paging.c, srpolicy.c, create.c, vcreate.c, kill.c, the device switch
    (open.c to putc.c, getdev.c, config/conf.c), device/qrds, device/ram, paging/*.c. Page tables are words of
    physical memory, so a frame that is reused really overlaps its old contents.
  \<^item> Ports, Buffers, Init: system/pt*.c, mkbufpool.c, getbuf.c, freebuf.c, mark.c, initialize.c.
  \<^item> Files: include/lfilesys.h, device/lfs. The directory and the index blocks are encoded in the words of
    their disk sectors as the compiler lays them out; the cached blocks, their dirty flags and the position are
    the fields of \<open>lfdata\<close> and \<open>lflcblk\<close>. The disk is whatever block device the switch table names; the
    properties use the RAM disk.
  \<^item> Terminal: include/tty.h, uart.h, device/tty. The pointers are indices of the circular buffers, and a store or
    load outside of a buffer is \<open>None\<close>; an interrupt is the function \<open>ttyhandler\<close> of the identification register.
  \<^item> Names: include/name.h, device/nam: a string is the bytes from a pointer on, the table is the array and its counter.
  \<^item> Qty: device/qty, the console of the QEMU build: a queue of bytes with its semaphore, the input buffer, the serial port, the driver.
  \<^item> Lexan, Dotted: shell/lexan.c and net/dot2ip.c over the bytes of the line; a pointer is the list of what is left.
  \<^item> Strings: lib/str*.c, mem*.c, bzero.c, atoi.c, atol.c, abs.c, rand.c over a byte memory.

  \<^bold>\<open>What is proved.\<close>
  \<^item> Kernel_Inv, Kernel_Steps, Kernel_Deferred, Kernel_Machine, Kernel_Boot, Kernel_Properties: the
    invariant \<open>kinv\<close> of the process manager (every queue is a well-formed doubly linked list, a process
    is on the queue its state says, semaphore counts match their queues) holds after boot, every call
    and every clock interrupt returns and keeps it; behaviour of resched, wait, signal, insert,
    insertd (as a queue of absolute times), wakeup, send and receive.
  \<^item> Memory_Properties: blocks handed out are inside the heap and disjoint, freeing restores the free
    memory, double frees are refused, allocation is complete.
  \<^item> Frame_Queue, Frame_Machine, Paging_Boot, Disk_Pages, Page_Fault, Eviction, Paging_Properties: the initial tables
    map exactly the first 16 MB and the device memory to themselves; a legal page fault brings the
    page of the backing store in and keeps all resident pages; replacement takes the oldest page and
    saves it when it is dirty; the queue of pages is right in every state after boot, with replacement, the end of processes
    and anything else in between; all frames of a process come back; backing stores return what was written.
  \<^item> Process_End, Process_Properties, Ipc_Properties, Strings: process creation, the end of a process by an illegal
    fault, with everything it gives back, ports as queues,
    buffer pools, string functions.
  \<^item> File_Disk, File_Rep, File_Setup, File_Walk, File_Load, File_Ops, File_Open, File_Create, File_Truncate,
    File_Names, File_Spec, File_Properties: an open file is represented by its chain of index blocks and its
    data blocks (\<open>file_rep\<close>); reading, writing, seeking and truncating, in any order, are the operations on a
    sequence of bytes with a position; no other file changes, neither its directory entry nor its blocks, nor does closing; what was written is found by name after a restart;
    truncating returns every block; lfscreate makes what lfsckfmt counts.
  \<^item> Terminal_Spec, Terminal_Calls, Terminal_Properties: the three circular buffers hold the lists of \<open>tline\<close>;
    interrupts and calls, in any order, edit the line, echo, read and write as these lists say; everything
    written is sent.
  \<^item> Qty_Properties: the same for the console of the QEMU build, with the lists of \<open>qline\<close>.
  \<^item> Name_Properties: a name is mapped by the first prefix of the table, which \<open>naminit\<close> fills with the devices. Lexan: the
    lexical analyser returns, stays inside its buffer and parses exactly the inductive grammar \<open>command_line\<close>.
    Dotted: \<open>dot2ip\<close> accepts exactly the format.
  The theorems on errors show where the code does not do what it means to: newqueue, vfreemem,
  getmem of huge sizes, getdev, a fault that releases its own page table, a change of the replacement policy that leaves a free frame on the queue, backing stores beyond the
  disk, a file opened twice, an empty file that is lost, long names that the name space cuts off, on the console of the QEMU build a read of size 0 and a reader that is overtaken by another, and in the terminal the line kill, the newline and the
  end-of-file character that leave or overrun the input buffer, cbreak mode and \<open>TC_NEXTC\<close>.

  \<^bold>\<open>Bounds and fuel.\<close> Unsigned 32-bit values are words and wrap; signed ones are integers, as their
  overflow is undefined in C. Loops over tables recurse on the number of entries. Loops along linked
  structures are \<open>partial_function\<close>s whose termination is proved from the invariant. The loops along the index
  blocks of a file have fuel 2^20, more than the 1393 index blocks that fit in front of a disk's data blocks, and the
  loops of lfsckfmt 2^32, the number of block numbers; the properties show that it suffices. \<open>ttyhandle_all\<close> takes
  the characters that have arrived, one per round, and so does the receive loop of the QEMU console; its transmit queue has 64 places. Six interrupts send everything: 19 characters of echo and
  64 of output, 16 at a time.

  \<^bold>\<open>Not modelled.\<close> Assembly (context switch registers, interrupt entry, start-up), device registers
  (Ethernet, SD card, clock chip, PCI, the baud rate of the UART), the network protocols and the remote disk and file
  clients that talk over them, the loop and the commands of the shell, formatted input and output, and the build tools: they
  are input and output or host programs, not kernel state.
\<close>

end
